(* ===== verification/SIEM_Prelude.thy ===== *)
theory SIEM_Prelude
  imports Main "HOL-Library.AList" "HOL-Library.Sublist" "HOL-Library.Char_ord"
    "HOL-Library.List_Lexorder"
begin

text \<open>
  What every component theory shares: the theorem collections, Python's strings, decimal
  numerals and insertion-ordered dictionaries, and the dynamic values a rule, a raw record or a
  registry row is made of.

  A Python \<open>str\<close> is a \<^typ>\<open>string\<close>. Case conversion, white space and digits are those of the
  ASCII range, so the models speak about ASCII text; other characters are carried unchanged.
  A \<open>dict\<close> is an association list in insertion order: assigning to a present key keeps its
  place, assigning to a new key appends (\<^const>\<open>AList.update\<close>).
\<close>

named_theorems pystr_simps "rewrite rules for the string operations"
named_theorems pydict_simps "rewrite rules for insertion-ordered dictionaries"

type_synonym ('k, 'v) dict = "('k \<times> 'v) list"

section \<open>Characters and strings\<close>

definition code :: "char \<Rightarrow> int" where
  "code c = of_char c"

definition lower_char :: "char \<Rightarrow> char" where
  "lower_char c = (if 65 \<le> code c \<and> code c \<le> 90 then char_of (code c + 32) else c)"

definition upper_char :: "char \<Rightarrow> char" where
  "upper_char c = (if 97 \<le> code c \<and> code c \<le> 122 then char_of (code c - 32) else c)"

definition lower :: "string \<Rightarrow> string" where
  "lower s = map lower_char s"

definition upper :: "string \<Rightarrow> string" where
  "upper s = map upper_char s"

definition is_space :: "char \<Rightarrow> bool" where
  "is_space c \<longleftrightarrow> code c = 32 \<or> (9 \<le> code c \<and> code c \<le> 13) \<or> (28 \<le> code c \<and> code c \<le> 31)"

definition is_digit :: "char \<Rightarrow> bool" where
  "is_digit c \<longleftrightarrow> 48 \<le> code c \<and> code c \<le> 57"

definition is_letter :: "char \<Rightarrow> bool" where
  "is_letter c \<longleftrightarrow> (65 \<le> code c \<and> code c \<le> 90) \<or> (97 \<le> code c \<and> code c \<le> 122)"

definition is_word :: "char \<Rightarrow> bool" where
  "is_word c \<longleftrightarrow> is_letter c \<or> is_digit c \<or> c = CHR ''_''"

definition newline :: char where "newline = CHR 10"
definition backslash :: char where "backslash = CHR 92"

definition lstrip :: "string \<Rightarrow> string" where
  "lstrip s = dropWhile is_space s"

definition rstrip :: "string \<Rightarrow> string" where
  "rstrip s = rev (dropWhile is_space (rev s))"

definition strip :: "string \<Rightarrow> string" where
  "strip s = rstrip (lstrip s)"

text \<open>\<open>e in s\<close>, \<open>s.startswith(e)\<close> and \<open>s.endswith(e)\<close> are \<^const>\<open>sublist\<close>, \<^const>\<open>prefix\<close> and
  \<^const>\<open>suffix\<close> of the library.\<close>

text \<open>\<open>s.split(c)\<close> for a one-character separator: never empty.\<close>

fun split_on :: "char \<Rightarrow> string \<Rightarrow> string list" where
  "split_on d [] = [[]]"
| "split_on d (c # cs) =
     (if c = d then [] # split_on d cs
      else (case split_on d cs of [] \<Rightarrow> [[c]] | w # ws \<Rightarrow> (c # w) # ws))"

text \<open>\<open>s.split()\<close>: maximal runs of non-space characters.\<close>

fun split_ws_aux :: "string \<Rightarrow> string \<Rightarrow> string list" where
  "split_ws_aux acc [] = (if acc = [] then [] else [rev acc])"
| "split_ws_aux acc (c # cs) =
     (if is_space c then (if acc = [] then split_ws_aux [] cs else rev acc # split_ws_aux [] cs)
      else split_ws_aux (c # acc) cs)"

definition split_ws :: "string \<Rightarrow> string list" where
  "split_ws s = split_ws_aux [] s"

text \<open>\<open>sep.join(xs)\<close>.\<close>

fun join :: "string \<Rightarrow> string list \<Rightarrow> string" where
  "join sep [] = []"
| "join sep [x] = x"
| "join sep (x # y # ys) = x @ sep @ join sep (y # ys)"

text \<open>\<open>s.replace(c, r)\<close> for a one-character pattern.\<close>

definition replace_char :: "char \<Rightarrow> string \<Rightarrow> string \<Rightarrow> string" where
  "replace_char c r s = concat (map (\<lambda>x. if x = c then r else [x]) s)"

lemma replace_char_absent: "c \<notin> set s \<Longrightarrow> replace_char c r s = s"
  by (induction s) (auto simp: replace_char_def)

lemma code_eq_iff: "c = d \<longleftrightarrow> code c = code d"
  by (simp add: code_def)

lemma code_lower_char: "code (lower_char c) = (if 65 \<le> code c \<and> code c \<le> 90 then code c + 32 else code c)"
  by (simp add: lower_char_def code_def)

section \<open>Decimal numerals\<close>

definition digit_char :: "int \<Rightarrow> char" where
  "digit_char d = char_of (48 + d)"

function nat_str :: "int \<Rightarrow> string" where
  "nat_str n = (if n < 10 then [digit_char n] else nat_str (n div 10) @ [digit_char (n mod 10)])"
  by pat_completeness auto
termination by (relation "measure nat") auto

declare nat_str.simps [simp del]

definition int_str :: "int \<Rightarrow> string" where
  "int_str i = (if i < 0 then CHR ''-'' # nat_str (- i) else nat_str i)"

definition digits_val :: "string \<Rightarrow> int" where
  "digits_val s = foldl (\<lambda>n c. n * 10 + (code c - 48)) 0 s"

lemma digits_val_snoc: "digits_val (s @ [c]) = digits_val s * 10 + (code c - 48)"
  by (simp add: digits_val_def)

lemma digits_val_nonneg: "list_all is_digit s \<Longrightarrow> 0 \<le> digits_val s"
  by (induction s rule: rev_induct) (auto simp: digits_val_snoc is_digit_def, simp add: digits_val_def)

text \<open>\<open>s.isdigit()\<close>: not empty, digits only.\<close>

definition isdigit :: "string \<Rightarrow> bool" where
  "isdigit s \<longleftrightarrow> s \<noteq> [] \<and> list_all is_digit s"

text \<open>A run of digits with single underscores between them, as Python's numeric literals allow; the
  flag says that the previous character was a digit.\<close>

fun digit_part :: "bool \<Rightarrow> string \<Rightarrow> string \<times> string" where
  "digit_part b [] = ([], [])"
| "digit_part b (c # cs) =
     (if is_digit c then (let (ds, r) = digit_part True cs in (c # ds, r))
      else if c = CHR ''_'' \<and> b \<and> cs \<noteq> [] \<and> is_digit (hd cs) then digit_part False cs
      else ([], c # cs))"

definition split_sign :: "string \<Rightarrow> bool \<times> string" where
  "split_sign s = (case s of [] \<Rightarrow> (False, [])
     | c # cs \<Rightarrow> if c = CHR ''-'' then (True, cs) else if c = CHR ''+'' then (False, cs)
                 else (False, s))"

text \<open>\<open>int(text)\<close> in base ten.\<close>

definition py_int :: "string \<Rightarrow> int option" where
  "py_int s =
     (let (neg, t) = split_sign (strip s); (ds, r) = digit_part False t in
      if ds = [] \<or> r \<noteq> [] then None
      else Some (if neg then - digits_val ds else digits_val ds))"

subsection \<open>Stripped text\<close>

lemma strip_last: "strip s \<noteq> [] \<Longrightarrow> \<not> is_space (last (strip s))"
  by (simp add: strip_def rstrip_def last_rev hd_dropWhile)

lemma strip_hd: "strip s \<noteq> [] \<Longrightarrow> \<not> is_space (hd (strip s))"
proof -
  assume ne: "strip s \<noteq> []"
  define t where "t = dropWhile is_space s"
  have "prefix (strip s) t"
    unfolding strip_def rstrip_def lstrip_def t_def[symmetric]
    by (metis suffix_dropWhile suffix_to_prefix rev_rev_ident)
  then have "hd (strip s) = hd t" and "t \<noteq> []" using ne by (auto simp: prefix_def)
  then show ?thesis using hd_dropWhile[of is_space s] by (simp add: t_def)
qed

lemma strip_idem [simp]: "strip (strip s) = strip s"
proof (cases "strip s = []")
  case False
  have "dropWhile is_space (strip s) = strip s"
    using strip_hd[OF False] False by (cases "strip s") auto
  moreover have "dropWhile is_space (rev (strip s)) = rev (strip s)"
    using strip_last[OF False] False by (cases "strip s" rule: rev_cases) auto
  ultimately show ?thesis by (simp add: strip_def[of "strip s"] rstrip_def lstrip_def)
next
  case True
  moreover have "strip [] = []" by (simp add: strip_def rstrip_def lstrip_def)
  ultimately show ?thesis by simp
qed

lemma strip_id:
  assumes "list_all (\<lambda>c. \<not> is_space c) s"
  shows "strip s = s"
proof -
  have d: "dropWhile is_space t = t" if "list_all (\<lambda>c. \<not> is_space c) t" for t
    using that by (cases t) auto
  show ?thesis using d[OF assms] d[of "rev s"] assms
    by (simp add: strip_def rstrip_def lstrip_def list_all_iff)
qed

section \<open>Insertion-ordered dictionaries\<close>

definition dict_get :: "('k, 'v) dict \<Rightarrow> 'k \<Rightarrow> 'v option" where
  "dict_get d k = map_of d k"

definition dict_set :: "'k \<Rightarrow> 'v \<Rightarrow> ('k, 'v) dict \<Rightarrow> ('k, 'v) dict" where
  "dict_set k v d = AList.update k v d"

definition dict_setdefault :: "'k \<Rightarrow> 'v \<Rightarrow> ('k, 'v) dict \<Rightarrow> ('k, 'v) dict" where
  "dict_setdefault k v d = (case map_of d k of None \<Rightarrow> d @ [(k, v)] | Some _ \<Rightarrow> d)"

definition dict_del :: "'k \<Rightarrow> ('k, 'v) dict \<Rightarrow> ('k, 'v) dict" where
  "dict_del k d = AList.delete k d"

lemma dict_get_set [simp, pydict_simps]:
  "dict_get (dict_set k v d) k' = (if k' = k then Some v else dict_get d k')"
  by (simp add: dict_get_def dict_set_def update_conv')

lemma dict_get_setdefault [simp, pydict_simps]:
  "dict_get d k' = Some w \<Longrightarrow> dict_get (dict_setdefault k v d) k' = Some w"
  "k' \<noteq> k \<Longrightarrow> dict_get (dict_setdefault k v d) k' = dict_get d k'"
  "dict_get (dict_setdefault k v d) k = Some (case dict_get d k of None \<Rightarrow> v | Some w \<Rightarrow> w)"
  by (auto simp: dict_get_def dict_setdefault_def map_add_def split: option.splits)

lemma dict_get_del [simp, pydict_simps]:
  "dict_get (dict_del k d) k' = (if k' = k then None else dict_get d k')"
  by (simp add: dict_get_def dict_del_def delete_conv')

lemma dict_get_Nil [simp, pydict_simps]: "dict_get [] k = None"
  by (simp add: dict_get_def)

lemma distinct_dict_set [simp, intro]:
  "distinct (map fst d) \<Longrightarrow> distinct (map fst (dict_set k v d))"
  by (simp add: dict_set_def distinct_update)

lemma distinct_dict_del [simp, intro]:
  "distinct (map fst d) \<Longrightarrow> distinct (map fst (dict_del k d))"
  by (simp add: dict_del_def distinct_delete)

lemma distinct_dict_setdefault [simp, intro]:
  "distinct (map fst d) \<Longrightarrow> distinct (map fst (dict_setdefault k v d))"
  by (auto simp: dict_setdefault_def map_of_eq_None_iff split: option.splits)

lemma dict_del_filter: "dict_del k d = filter (\<lambda>p. fst p \<noteq> k) d"
  by (induction d) (auto simp: dict_del_def)

lemma dict_get_Some_iff: "distinct (map fst d) \<Longrightarrow> dict_get d k = Some v \<longleftrightarrow> (k, v) \<in> set d"
  by (simp add: dict_get_def)

lemma dict_get_SomeD: "dict_get d k = Some v \<Longrightarrow> (k, v) \<in> set d"
  by (simp add: dict_get_def map_of_SomeD)

lemma length_dict_set: "length (dict_set k v d) \<le> Suc (length d)"
  by (induction d) (auto simp: dict_set_def)

lemma dict_set_keys: "fst ` set (dict_set k v d) \<subseteq> insert k (fst ` set d)"
  by (induction d) (auto simp: dict_set_def)

lemma dict_setdefault_keys: "fst ` set (dict_setdefault k v d) \<subseteq> insert k (fst ` set d)"
  by (auto simp: dict_setdefault_def split: option.splits)

lemma dict_get_value: "dict_get d k = Some v \<Longrightarrow> v \<in> snd ` set d"
  by (force dest: dict_get_SomeD)

lemma length_dict_del_hd: "length (dict_del (fst p) (p # d)) \<le> length d"
  by (cases p) (simp add: dict_del_def AList.delete_eq)

section \<open>Lists\<close>

lemma set_map_filter: "set (List.map_filter f xs) = {y. \<exists>x\<in>set xs. f x = Some y}"
  by (induction xs) (auto simp: List.map_filter_def split: option.splits)

lemma find_SomeD: "find P xs = Some x \<Longrightarrow> x \<in> set xs \<and> P x"
  by (induction xs) (auto split: if_splits)

section \<open>Dynamic values\<close>

text \<open>
  The values YAML and JSON loading produce. A float is carried as the text \<open>repr\<close> gives for it,
  which determines it; \<open>str\<close> of a value is \<open>pv_str\<close>.
\<close>

datatype pyval =
    VNone
  | VBool bool
  | VInt int
  | VFloat string
  | VStr string
  | VList "pyval list"
  | VDict "(string \<times> pyval) list"

definition hex_digit :: "int \<Rightarrow> char" where
  "hex_digit d = (if d < 10 then char_of (48 + d) else char_of (87 + d))"

definition repr_char :: "char \<Rightarrow> char \<Rightarrow> string" where
  "repr_char q c =
     (if c = q \<or> code c = 92 then [char_of (92::int), c]
      else if code c = 10 then [char_of (92::int), CHR ''n'']
      else if code c = 13 then [char_of (92::int), CHR ''r'']
      else if code c = 9 then [char_of (92::int), CHR ''t'']
      else if code c < 32 \<or> code c = 127
        then [char_of (92::int), CHR ''x'', hex_digit (code c div 16), hex_digit (code c mod 16)]
      else [c])"

definition str_repr :: "string \<Rightarrow> string" where
  "str_repr s =
     (let q = (if char_of (39::int) \<in> set s \<and> char_of (34::int) \<notin> set s
               then char_of (34::int) else char_of (39::int))
      in [q] @ concat (map (repr_char q) s) @ [q])"

fun pv_repr :: "pyval \<Rightarrow> string" where
  "pv_repr VNone = ''None''"
| "pv_repr (VBool b) = (if b then ''True'' else ''False'')"
| "pv_repr (VInt i) = int_str i"
| "pv_repr (VFloat t) = t"
| "pv_repr (VStr s) = str_repr s"
| "pv_repr (VList xs) = ''['' @ join '', '' (map pv_repr xs) @ '']''"
| "pv_repr (VDict kvs) =
     ''{'' @ join '', '' (map (\<lambda>(k, v). str_repr k @ '': '' @ pv_repr v) kvs) @ ''}''"

definition pv_str :: "pyval \<Rightarrow> string" where
  "pv_str v = (case v of VStr s \<Rightarrow> s | _ \<Rightarrow> pv_repr v)"

lemma pv_str_VStr [simp]: "pv_str (VStr s) = s"
  by (simp add: pv_str_def)

text \<open>\<open>bool(v)\<close>; a float is false exactly when its text is a zero.\<close>

definition pv_truthy :: "pyval \<Rightarrow> bool" where
  "pv_truthy v = (case v of VNone \<Rightarrow> False | VBool b \<Rightarrow> b | VInt i \<Rightarrow> i \<noteq> 0
     | VFloat t \<Rightarrow> t \<noteq> ''0.0'' \<and> t \<noteq> ''-0.0'' | VStr s \<Rightarrow> s \<noteq> []
     | VList xs \<Rightarrow> xs \<noteq> [] | VDict d \<Rightarrow> d \<noteq> [])"

text \<open>\<open>d.get(k)\<close> on a mapping of values, where an absent key reads as None.\<close>

definition pv_get :: "(string, pyval) dict \<Rightarrow> string \<Rightarrow> pyval" where
  "pv_get d k = (case dict_get d k of None \<Rightarrow> VNone | Some v \<Rightarrow> v)"

text \<open>\<open>a or b\<close>.\<close>

definition pv_or :: "pyval \<Rightarrow> pyval \<Rightarrow> pyval" where
  "pv_or a b = (if pv_truthy a then a else b)"

text \<open>\<open>v if isinstance(v, list) else [v]\<close>.\<close>

definition as_list :: "pyval \<Rightarrow> pyval list" where
  "as_list v = (case v of VList xs \<Rightarrow> xs | _ \<Rightarrow> [v])"

section \<open>Results\<close>

text \<open>The built-in exceptions the modelled code can raise by itself.\<close>

datatype py_error = TypeError | AttributeError | ValueError | KeyError | IndexError | ZeroDivisionError
  | OverflowError

text \<open>A computation that may raise is a value of \<open>'e + 'a\<close>, \<^const>\<open>Inl\<close> for the exception.\<close>

definition sbind :: "'e + 'a \<Rightarrow> ('a \<Rightarrow> 'e + 'b) \<Rightarrow> 'e + 'b" where
  "sbind m f = (case m of Inl e \<Rightarrow> Inl e | Inr a \<Rightarrow> f a)"

lemma sbind_simps [simp]: "sbind (Inl e) f = Inl e" "sbind (Inr a) f = f a"
  by (simp_all add: sbind_def)

lemma sbind_Inr_iff [simp]: "sbind m f = Inr b \<longleftrightarrow> (\<exists>a. m = Inr a \<and> f a = Inr b)"
  by (cases m) auto

lemma sbind_cong [fundef_cong]:
  "m = m' \<Longrightarrow> (\<And>a. m' = Inr a \<Longrightarrow> f a = f' a) \<Longrightarrow> sbind m f = sbind m' f'"
  by (cases m') simp_all

text \<open>A comprehension whose body may raise: the first exception, in order, ends it.\<close>

fun map_res :: "('a \<Rightarrow> 'e + 'b) \<Rightarrow> 'a list \<Rightarrow> 'e + 'b list" where
  "map_res f [] = Inr []"
| "map_res f (x # xs) = sbind (f x) (\<lambda>y. sbind (map_res f xs) (\<lambda>ys. Inr (y # ys)))"

lemma map_res_Inr_iff: "map_res f xs = Inr ys \<longleftrightarrow> list_all2 (\<lambda>x y. f x = Inr y) xs ys"
  by (induction xs arbitrary: ys) (auto simp: list_all2_Cons1)

lemma map_res_total: "(\<And>x. x \<in> set xs \<Longrightarrow> f x = Inr (g x)) \<Longrightarrow> map_res f xs = Inr (map g xs)"
  by (induction xs) auto

text \<open>\<open>for x in v or []\<close>: a list's items, a string's characters, a dictionary's keys.\<close>

definition pv_iter :: "pyval \<Rightarrow> py_error + pyval list" where
  "pv_iter v =
     (if \<not> pv_truthy v then Inr []
      else (case v of VList xs \<Rightarrow> Inr xs | VStr s \<Rightarrow> Inr (map (\<lambda>c. VStr [c]) s)
            | VDict d \<Rightarrow> Inr (map (\<lambda>(k, _). VStr k) d) | _ \<Rightarrow> Inl TypeError))"

section \<open>Lookasides\<close>

text \<open>
  Several components put a memo in front of a pure function: a dictionary that is consulted
  first, filled on a miss, and cleared wholesale or evicted when it is full. The contract: the
  memo holds nothing but answers of the function, and storing one keeps it so. Then the memo is
  invisible: the answer is the function's, whatever was asked before.
\<close>

locale lookaside =
  fixes recall :: "'c \<Rightarrow> 'k \<Rightarrow> 'v option"
    and remember :: "'k \<Rightarrow> 'v \<Rightarrow> 'c \<Rightarrow> 'c"
    and answer :: "'k \<Rightarrow> 'v"
    and sound :: "'c \<Rightarrow> bool"
  assumes recall_sound: "sound c \<Longrightarrow> recall c k = Some v \<Longrightarrow> v = answer k"
    and remember_sound: "sound c \<Longrightarrow> sound (remember k (answer k) c)"
begin

lemma ask_transparent:
  assumes "sound c"
    and "r = (case recall c k of Some v \<Rightarrow> (v, c) | None \<Rightarrow> (answer k, remember k (answer k) c))"
  shows "fst r = answer k \<and> sound (snd r)"
  using assms by (auto split: option.splits dest: recall_sound intro: remember_sound)

lemma asks_transparent:
  assumes "sound c" and step: "\<And>c k. sound c \<Longrightarrow> fst (ask c k) = answer k \<and> sound (snd (ask c k))"
  shows "sound (foldl (\<lambda>c k. snd (ask c k)) c ks)"
  using assms(1) by (induction ks arbitrary: c) (auto simp: step)

end

text \<open>
  A bounded store: whatever has been stored, it never outgrows its capacity, and a value it returns is
  the last one stored under that key. Which entries are dropped to make room is the provider's affair.
\<close>

locale bounded_cache =
  fixes ok :: "'s \<Rightarrow> bool" and lookup :: "'s \<Rightarrow> 'k \<Rightarrow> 'v option" and store :: "'k \<Rightarrow> 'v \<Rightarrow> 's \<Rightarrow> 's"
    and entries :: "'s \<Rightarrow> nat" and capacity :: "'s \<Rightarrow> nat"
  assumes ok_store: "ok s \<Longrightarrow> ok (store k v s)"
    and entries_capacity: "ok s \<Longrightarrow> entries s \<le> capacity s"
    and capacity_store: "capacity (store k v s) = capacity s"
    and lookup_store: "ok s \<Longrightarrow> lookup (store k v s) k = Some v"
    and lookup_other: "ok s \<Longrightarrow> j \<noteq> k \<Longrightarrow> lookup (store k v s) j = Some w \<Longrightarrow> lookup s j = Some w"
begin

definition stores :: "('k \<times> 'v) list \<Rightarrow> 's \<Rightarrow> 's" where
  "stores kvs s = foldl (\<lambda>s kv. store (fst kv) (snd kv) s) s kvs"

lemma stores_ok: "ok s \<Longrightarrow> ok (stores kvs s) \<and> capacity (stores kvs s) = capacity s"
  by (induction kvs arbitrary: s) (simp_all add: stores_def ok_store capacity_store)

lemma stores_bounded: "ok s \<Longrightarrow> entries (stores kvs s) \<le> capacity s"
  using stores_ok[of s kvs] entries_capacity[of "stores kvs s"] by simp

lemma stores_fresh:
  assumes "ok s" "lookup (stores kvs s) k = Some v"
  shows "map_of (rev kvs) k = Some v \<or> k \<notin> fst ` set kvs \<and> lookup s k = Some v"
  using assms(2)
proof (induction kvs rule: rev_induct)
  case (snoc kv kvs)
  let ?t = "stores kvs s"
  have t: "ok ?t" using stores_ok[OF assms(1)] by simp
  have st: "stores (kvs @ [kv]) s = store (fst kv) (snd kv) ?t" by (simp add: stores_def)
  show ?case
  proof (cases "k = fst kv")
    case True
    then show ?thesis using snoc.prems lookup_store[OF t] by (simp add: st)
  next
    case False
    then have "lookup ?t k = Some v" using lookup_other[OF t False] snoc.prems by (simp add: st)
    then show ?thesis using snoc.IH False by auto
  qed
qed (simp add: stores_def)

end

end
