(* ===== verification/PyIp.thy ===== *)
theory PyIp
  imports SIEM_Prelude
begin

text \<open>
  The part of Python's \<open>ipaddress\<close> module the components use: parsing of addresses, interfaces
  and networks (\<open>ip_address\<close>, \<open>ip_interface\<close>, \<open>ip_network(\<dots>, strict=False)\<close>), containment and
  the unwrapping of IPv4-mapped IPv6 addresses. An address is its family and its integer; an
  IPv6 address may carry a scope id, which containment ignores.
\<close>

datatype ipaddr = IPv4 int | IPv6 int "string option"

fun ip_version :: "ipaddr \<Rightarrow> nat" where
  "ip_version (IPv4 _) = 4"
| "ip_version (IPv6 _ _) = 6"

fun ip_int :: "ipaddr \<Rightarrow> int" where
  "ip_int (IPv4 n) = n"
| "ip_int (IPv6 n _) = n"

fun ip_bits :: "ipaddr \<Rightarrow> nat" where
  "ip_bits (IPv4 _) = 32"
| "ip_bits (IPv6 _ _) = 128"

definition ip_wf :: "ipaddr \<Rightarrow> bool" where
  "ip_wf a \<longleftrightarrow> 0 \<le> ip_int a \<and> ip_int a < 2 ^ ip_bits a"

section \<open>IPv4\<close>

definition parse_octet :: "string \<Rightarrow> int option" where
  "parse_octet s =
     (if \<not> isdigit s \<or> 3 < length s then None
      else if s \<noteq> ''0'' \<and> hd s = CHR ''0'' then None
      else if 255 < digits_val s then None else Some (digits_val s))"

definition parse_v4 :: "string \<Rightarrow> int option" where
  "parse_v4 s =
     (case map parse_octet (split_on CHR ''.'' s) of
        [Some a, Some b, Some c, Some d] \<Rightarrow> Some (((a * 256 + b) * 256 + c) * 256 + d)
      | _ \<Rightarrow> None)"

section \<open>IPv6\<close>

definition is_hex :: "char \<Rightarrow> bool" where
  "is_hex c \<longleftrightarrow> is_digit c \<or> (97 \<le> code c \<and> code c \<le> 102) \<or> (65 \<le> code c \<and> code c \<le> 70)"

definition hex_val :: "char \<Rightarrow> int" where
  "hex_val c = (if code c \<le> 57 then code c - 48 else if code c \<le> 70 then code c - 55 else code c - 87)"

definition parse_hextet :: "string \<Rightarrow> int option" where
  "parse_hextet s =
     (if s = [] \<or> \<not> list_all is_hex s \<or> 4 < length s then None
      else Some (foldl (\<lambda>n c. n * 16 + hex_val c) 0 s))"

fun hextets :: "string list \<Rightarrow> int option" where
  "hextets [] = Some 0"
| "hextets ps = (case (parse_hextet (last ps), hextets (butlast ps)) of
     (Some h, Some n) \<Rightarrow> Some (n * 65536 + h) | _ \<Rightarrow> None)"

text \<open>A dotted quad in the last part counts as two hextets; it is kept as their value.\<close>

definition v6_tail :: "string list \<Rightarrow> (string list \<times> int option) option" where
  "v6_tail ps =
     (if CHR ''.'' \<in> set (last ps)
      then (case parse_v4 (last ps) of None \<Rightarrow> None | Some n \<Rightarrow> Some (butlast ps, Some n))
      else Some (ps, None))"

definition skip_indices :: "string list \<Rightarrow> nat list" where
  "skip_indices ps = filter (\<lambda>i. ps ! i = []) [1 ..< length ps - 1]"

function hex_str :: "int \<Rightarrow> string" where
  "hex_str n = (if n < 16 then [hex_digit n] else hex_str (n div 16) @ [hex_digit (n mod 16)])"
  by pat_completeness auto
termination by (relation "measure nat") auto

declare hex_str.simps [simp del]

definition v6_of_parts :: "string list \<Rightarrow> int option" where
  "v6_of_parts ps =
     (if 9 < length ps then None else
      (case skip_indices ps of
        [] \<Rightarrow> if length ps \<noteq> 8 \<or> hd ps = [] \<or> last ps = [] then None else hextets ps
      | [k] \<Rightarrow>
          let hi = (if hd ps = [] then k - 1 else k);
              lo0 = length ps - k - 1;
              lo = (if last ps = [] then lo0 - 1 else lo0) in
          if (hd ps = [] \<and> hi \<noteq> 0) \<or> (last ps = [] \<and> lo \<noteq> 0) \<or> 8 < hi + lo + 1 then None
          else (case (hextets (take hi ps), hextets (drop (length ps - lo) ps)) of
                  (Some a, Some b) \<Rightarrow> Some (a * 65536 ^ (8 - hi) + b)
                | _ \<Rightarrow> None)
      | _ \<Rightarrow> None))"

definition parse_v6_int :: "string \<Rightarrow> int option" where
  "parse_v6_int s =
     (if length (split_on CHR '':'' s) < 3 then None
      else (case v6_tail (split_on CHR '':'' s) of None \<Rightarrow> None
        | Some (front, quad) \<Rightarrow>
            v6_of_parts (case quad of None \<Rightarrow> front
              | Some n \<Rightarrow> front @ [hex_str (n div 65536), hex_str (n mod 65536)])))"

definition split_scope :: "string \<Rightarrow> (string \<times> string option) option" where
  "split_scope s =
     (case split_on CHR ''%'' s of
        [a] \<Rightarrow> Some (a, None)
      | [a, z] \<Rightarrow> if z = [] then None else Some (a, Some z)
      | _ \<Rightarrow> None)"

definition parse_v6 :: "string \<Rightarrow> ipaddr option" where
  "parse_v6 s =
     (if CHR ''/'' \<in> set s then None else
      case split_scope s of None \<Rightarrow> None
      | Some (a, z) \<Rightarrow> map_option (\<lambda>n. IPv6 n z) (parse_v6_int a))"

section \<open>Addresses, interfaces, networks\<close>

definition ip_address :: "string \<Rightarrow> ipaddr option" where
  "ip_address s = (case parse_v4 s of Some n \<Rightarrow> Some (IPv4 n) | None \<Rightarrow> parse_v6 s)"

definition prefix_from_string :: "nat \<Rightarrow> string \<Rightarrow> nat option" where
  "prefix_from_string bits s =
     (if isdigit s \<and> digits_val s \<le> int bits then Some (nat (digits_val s)) else None)"

text \<open>A dotted mask is a netmask or, failing that, a host mask.\<close>

definition prefix_from_mask :: "string \<Rightarrow> nat option" where
  "prefix_from_mask s =
     (case parse_v4 s of None \<Rightarrow> None
      | Some m \<Rightarrow>
        (case find (\<lambda>p. m = 2 ^ 32 - 2 ^ (32 - p)) [0 ..< 33] of
           Some p \<Rightarrow> Some p
         | None \<Rightarrow> find (\<lambda>p. m = 2 ^ (32 - p) - 1) [0 ..< 33]))"

definition v4_prefix :: "string \<Rightarrow> nat option" where
  "v4_prefix s = (case prefix_from_string 32 s of Some p \<Rightarrow> Some p | None \<Rightarrow> prefix_from_mask s)"

definition addr_prefix :: "string \<Rightarrow> (string \<times> string option) option" where
  "addr_prefix s =
     (case split_on CHR ''/'' s of
        [a] \<Rightarrow> Some (a, None) | [a, p] \<Rightarrow> Some (a, Some p) | _ \<Rightarrow> None)"

text \<open>\<open>ip_interface\<close> keeps the whole address beside its prefix length.\<close>

definition ip_interface :: "string \<Rightarrow> (ipaddr \<times> nat) option" where
  "ip_interface s =
     (case addr_prefix s of None \<Rightarrow> None
      | Some (a, p) \<Rightarrow>
        (case (parse_v4 a, case p of None \<Rightarrow> Some 32 | Some t \<Rightarrow> v4_prefix t) of
           (Some n, Some l) \<Rightarrow> Some (IPv4 n, l)
         | _ \<Rightarrow>
           (case (parse_v6 a, case p of None \<Rightarrow> Some 128 | Some t \<Rightarrow> prefix_from_string 128 t) of
              (Some n, Some l) \<Rightarrow> Some (n, l)
            | _ \<Rightarrow> None)))"

record ipnet =
  net_version :: nat
  net_bits :: nat
  net_addr :: int
  net_plen :: nat

definition net_size :: "ipnet \<Rightarrow> int" where
  "net_size n = 2 ^ (net_bits n - net_plen n)"

definition net_broadcast :: "ipnet \<Rightarrow> int" where
  "net_broadcast n = net_addr n + net_size n - 1"

definition mk_net :: "ipaddr \<Rightarrow> nat \<Rightarrow> ipnet" where
  "mk_net a l =
     (let sz = 2 ^ (ip_bits a - l)
      in \<lparr>net_version = ip_version a, net_bits = ip_bits a, net_addr = ip_int a div sz * sz,
          net_plen = l\<rparr>)"

text \<open>\<open>ip_network(s, strict=False)\<close> clears the host bits; the strict form refuses them.\<close>

definition ip_network :: "string \<Rightarrow> ipnet option" where
  "ip_network s = map_option (\<lambda>(a, l). mk_net a l) (ip_interface s)"

definition ip_network_strict :: "string \<Rightarrow> ipnet option" where
  "ip_network_strict s =
     (case ip_interface s of None \<Rightarrow> None
      | Some (a, l) \<Rightarrow> if net_addr (mk_net a l) = ip_int a then Some (mk_net a l) else None)"

text \<open>\<open>addr in net\<close>: same family, and the masked address is the network's.\<close>

definition in_net :: "ipaddr \<Rightarrow> ipnet \<Rightarrow> bool" where
  "in_net a n \<longleftrightarrow>
     ip_version a = net_version n \<and> ip_int a div net_size n * net_size n = net_addr n"

definition ipv4_mapped :: "ipaddr \<Rightarrow> ipaddr option" where
  "ipv4_mapped a =
     (case a of IPv4 _ \<Rightarrow> None
      | IPv6 n _ \<Rightarrow> if n div 2 ^ 32 = 65535 then Some (IPv4 (n mod 2 ^ 32)) else None)"

section \<open>Addresses as text\<close>

text \<open>\<open>str(addr)\<close>: a dotted quad, or eight hextets with the first longest run of at least two zeros
  written \<open>::\<close>.\<close>

definition v4_octets :: "int \<Rightarrow> int list" where
  "v4_octets n = [n div 16777216 mod 256, n div 65536 mod 256, n div 256 mod 256, n mod 256]"

definition v4_str :: "int \<Rightarrow> string" where
  "v4_str n = join ''.'' (map nat_str (v4_octets n))"

definition v6_hextets :: "int \<Rightarrow> int list" where
  "v6_hextets n = map (\<lambda>i. n div 65536 ^ (7 - i) mod 65536) [0 ..< 8]"

definition zero_run :: "int list \<Rightarrow> nat" where
  "zero_run hs = length (takeWhile (\<lambda>h. h = 0) hs)"

definition longest_zeros :: "int list \<Rightarrow> nat \<times> nat" where
  "longest_zeros hs =
     foldl (\<lambda>(s, l) i. if l < zero_run (drop i hs) then (i, zero_run (drop i hs)) else (s, l)) (0, 0)
       [0 ..< length hs]"

definition v6_str :: "int \<Rightarrow> string" where
  "v6_str n =
     (let hs = v6_hextets n; (s, l) = longest_zeros hs; ts = map hex_str hs in
      if l < 2 then join '':'' ts
      else join '':'' ((if s = 0 then [[]] else []) @ take s ts @ [[]] @ drop (s + l) ts
                       @ (if s + l = length hs then [[]] else [])))"

definition ip_str :: "ipaddr \<Rightarrow> string" where
  "ip_str a =
     (case a of IPv4 n \<Rightarrow> v4_str n
      | IPv6 n None \<Rightarrow> v6_str n | IPv6 n (Some z) \<Rightarrow> v6_str n @ ''%'' @ z)"

section \<open>Facts\<close>

lemma parse_octet_bound: "parse_octet s = Some n \<Longrightarrow> 0 \<le> n \<and> n < 256"
  using digits_val_nonneg[of s] by (auto simp: parse_octet_def isdigit_def split: if_splits)

lemma parse_v4_bound: "parse_v4 s = Some n \<Longrightarrow> 0 \<le> n \<and> n < 2 ^ 32"
proof -
  assume "parse_v4 s = Some n"
  then obtain a b c d where
    m: "map parse_octet (split_on CHR ''.'' s) = [Some a, Some b, Some c, Some d]"
    and n: "n = ((a * 256 + b) * 256 + c) * 256 + d"
    by (auto simp: parse_v4_def split: list.splits option.splits)
  from m have "0 \<le> a \<and> a < 256" "0 \<le> b \<and> b < 256" "0 \<le> c \<and> c < 256" "0 \<le> d \<and> d < 256"
    by (auto simp: map_eq_Cons_conv dest: parse_octet_bound)
  then show ?thesis using n by simp
qed

text \<open>A network is the interval from its address to its broadcast address.\<close>

lemma div_mult_eq_iff:
  assumes z: "0 < (z::int)" and d: "z dvd a"
  shows "x div z * z = a \<longleftrightarrow> a \<le> x \<and> x \<le> a + z - 1"
proof -
  from d obtain k where k: "a = z * k" by (rule dvdE)
  have x: "x = x div z * z + x mod z" by simp
  have l: "0 \<le> x mod z" "x mod z < z" using z by simp_all
  show ?thesis
  proof
    assume e: "x div z * z = a"
    show "a \<le> x \<and> x \<le> a + z - 1" using x l unfolding e by arith
  next
    assume h: "a \<le> x \<and> x \<le> a + z - 1"
    have "x div z = k"
    proof (rule int_div_pos_eq)
      show "x = z * k + (x - z * k)" by simp
      show "0 \<le> x - z * k" "x - z * k < z" using h k by auto
    qed
    then show "x div z * z = a" using k by (simp add: mult.commute)
  qed
qed

lemma in_net_interval:
  assumes "net_size n dvd net_addr n"
  shows "in_net a n \<longleftrightarrow> ip_version a = net_version n \<and> net_addr n \<le> ip_int a \<and> ip_int a \<le> net_broadcast n"
  using div_mult_eq_iff[of "net_size n" "net_addr n" "ip_int a"] assms
  by (auto simp: in_net_def net_broadcast_def net_size_def)

lemma mk_net_dvd [simp]: "net_size (mk_net a l) dvd net_addr (mk_net a l)"
  by (simp add: mk_net_def net_size_def Let_def)

lemma ip_network_dvd: "ip_network s = Some n \<Longrightarrow> net_size n dvd net_addr n"
  by (auto simp: ip_network_def)

lemma mk_net_contains [simp]: "in_net a (mk_net a l)"
  by (simp add: in_net_def mk_net_def net_size_def Let_def)

section \<open>Formatting and parsing agree\<close>

lemma code_digit_char: "0 \<le> d \<Longrightarrow> d < 10 \<Longrightarrow> code (digit_char d) = 48 + d"
  by (simp add: code_def digit_char_def)

lemma nat_str_digits:
  "0 \<le> n \<Longrightarrow> nat_str n \<noteq> [] \<and> list_all is_digit (nat_str n) \<and> digits_val (nat_str n) = n \<and>
     (0 < n \<longrightarrow> hd (nat_str n) \<noteq> CHR ''0'')"
proof (induction n rule: nat_str.induct)
  case (1 n)
  show ?case
  proof (cases "n < 10")
    case True
    have "digit_char n \<noteq> CHR ''0''" if "0 < n"
      using that True 1(2) code_digit_char[of n] by (auto simp: code_def)
    then show ?thesis using True 1(2) code_digit_char[of n]
      by (simp add: nat_str.simps[of n] is_digit_def digits_val_def)
  next
    case False
    have d: "code (digit_char (n mod 10)) = 48 + n mod 10" by (simp add: code_digit_char)
    have ih: "nat_str (n div 10) \<noteq> [] \<and> list_all is_digit (nat_str (n div 10)) \<and>
        digits_val (nat_str (n div 10)) = n div 10 \<and> hd (nat_str (n div 10)) \<noteq> CHR ''0''"
      using 1 False by force
    have m: "0 \<le> n mod 10" "n mod 10 < 10" by simp_all
    then have c: "is_digit (digit_char (n mod 10))" using d by (simp add: is_digit_def)
    show ?thesis using False ih d c
      by (simp add: nat_str.simps[of n] digits_val_snoc)
  qed
qed

lemma nat_str_short:
  assumes "0 \<le> n" and "n < 1000"
  shows "length (nat_str n) \<le> 3"
proof -
  have 1: "length (nat_str k) = 1" if "k < 10" for k
    using that by (simp add: nat_str.simps[of k])
  have 2: "length (nat_str k) \<le> 2" if "k < 100" for k
    using that 1[of k] 1[of "k div 10"] by (cases "k < 10") (simp_all add: nat_str.simps[of k])
  show ?thesis using assms 1[of n] 2[of "n div 10"]
    by (cases "n < 10") (simp_all add: nat_str.simps[of n])
qed

lemma parse_octet_nat_str:
  assumes "0 \<le> n" and "n < 256"
  shows "parse_octet (nat_str n) = Some n"
proof (cases "n = 0")
  case True
  have "nat_str 0 = ''0''" by code_simp
  then show ?thesis using True by (simp add: parse_octet_def isdigit_def is_digit_def code_def digits_val_def)
next
  case False
  then have "hd (nat_str n) \<noteq> CHR ''0''" "isdigit (nat_str n)" "digits_val (nat_str n) = n"
      "\<not> 3 < length (nat_str n)"
    using nat_str_digits[of n] nat_str_short[of n] assms by (simp_all add: isdigit_def)
  then show ?thesis using assms by (simp add: parse_octet_def)
qed

lemma split_on_none: "c \<notin> set s \<Longrightarrow> split_on c s = [s]"
  by (induction s) auto

lemma split_on_append: "c \<notin> set s \<Longrightarrow> split_on c (s @ c # t) = s # split_on c t"
  by (induction s) auto

lemma nat_str_no_dot: "0 \<le> n \<Longrightarrow> CHR ''.'' \<notin> set (nat_str n)"
  using nat_str_digits[of n] by (auto simp: list_all_iff is_digit_def code_def)

lemma octets_value:
  fixes n :: int
  assumes "0 \<le> n" and "n < 2 ^ 32"
  shows "((n div 16777216 mod 256 * 256 + n div 65536 mod 256) * 256 + n div 256 mod 256) * 256 + n mod 256 = n"
proof -
  have a: "n div 65536 = n div 256 div 256" "n div 16777216 = n div 256 div 256 div 256"
    by (simp_all add: zdiv_zmult2_eq[symmetric])
  have "n div 256 div 256 div 256 < 256" using assms by simp
  then have "n div 256 div 256 div 256 mod 256 = n div 256 div 256 div 256"
    using assms by (simp add: pos_imp_zdiv_nonneg_iff)
  then show ?thesis by (simp add: a)
qed

lemma parse_v4_str:
  assumes "0 \<le> n" and "n < 2 ^ 32"
  shows "parse_v4 (v4_str n) = Some n"
proof -
  have d: "CHR ''.'' \<notin> set (nat_str (k mod 256))" "parse_octet (nat_str (k mod 256)) = Some (k mod 256)" for k
    by (simp_all add: nat_str_no_dot parse_octet_nat_str)
  have j: "join ''.'' [a, b, c, e] = a @ CHR ''.'' # b @ CHR ''.'' # c @ CHR ''.'' # e" for a b c e
    by simp
  have "map parse_octet (split_on CHR ''.'' (v4_str n)) = map Some (v4_octets n)"
    unfolding v4_str_def v4_octets_def list.map j split_on_append[OF d(1)] split_on_none[OF d(1)] d(2) ..
  then show ?thesis unfolding parse_v4_def v4_octets_def list.map using octets_value[OF assms]
    by (simp only: list.case option.case)
qed

lemma ip_address_v4_str: "0 \<le> n \<Longrightarrow> n < 2 ^ 32 \<Longrightarrow> ip_address (ip_str (IPv4 n)) = Some (IPv4 n)"
  by (simp add: ip_address_def ip_str_def parse_v4_str)

text \<open>What is parsed is an address of its family.\<close>

lemma hex_val_range: "is_hex c \<Longrightarrow> 0 \<le> hex_val c \<and> hex_val c < 16"
  by (auto simp: is_hex_def hex_val_def is_digit_def)

lemma hex_fold_bound:
  "list_all is_hex s \<Longrightarrow> 0 \<le> n \<Longrightarrow> 0 \<le> foldl (\<lambda>n c. n * 16 + hex_val c) n s \<and> foldl (\<lambda>n c. n * 16 + hex_val c) n s < (n + 1) * 16 ^ length s"
proof (induction s arbitrary: n)
  case (Cons c s)
  have h: "0 \<le> hex_val c" "hex_val c < 16" using Cons.prems(1) hex_val_range by simp_all
  then have le: "(n * 16 + hex_val c + 1) * 16 ^ length s \<le> (n + 1) * 16 * 16 ^ length s"
    by (intro mult_right_mono) simp_all
  have f: "0 \<le> foldl (\<lambda>n c. n * 16 + hex_val c) (n * 16 + hex_val c) s \<and>
      foldl (\<lambda>n c. n * 16 + hex_val c) (n * 16 + hex_val c) s < (n * 16 + hex_val c + 1) * 16 ^ length s"
    using Cons.prems h by (intro Cons.IH) simp_all
  show ?case using conjunct1[OF f] order.strict_trans2[OF conjunct2[OF f] le]
    by (simp only: foldl.simps length_Cons power_Suc mult.assoc simp_thms)
qed simp

lemma parse_hextet_bound:
  assumes "parse_hextet s = Some h"
  shows "0 \<le> h \<and> h < 65536"
proof -
  have s: "list_all is_hex s" "length s \<le> 4" "h = foldl (\<lambda>n c. n * 16 + hex_val c) 0 s"
    using assms by (auto simp: parse_hextet_def split: if_splits)
  have "(16::int) ^ length s \<le> 16 ^ 4" using s(2) by (intro power_increasing) simp_all
  then show ?thesis using hex_fold_bound[OF s(1), of 0] s(3) by simp
qed

lemma hextets_bound: "hextets ps = Some n \<Longrightarrow> 0 \<le> n \<and> n < 65536 ^ length ps"
proof (induction ps arbitrary: n rule: rev_induct)
  case (snoc p ps)
  have e: "hextets (ps @ [p]) = (case (parse_hextet p, hextets ps) of (Some h, Some n) \<Rightarrow> Some (n * 65536 + h) | _ \<Rightarrow> None)"
  proof -
    obtain a l where al: "ps @ [p] = a # l" by (cases "ps @ [p]") auto
    have "last (a # l) = p" "butlast (a # l) = ps" unfolding al[symmetric] by simp_all
    then show ?thesis by (simp only: al hextets.simps(2))
  qed
  obtain h m where h: "parse_hextet p = Some h" "hextets ps = Some m" "n = m * 65536 + h"
    using snoc.prems by (auto simp: e split: option.splits)
  have "m + 1 \<le> 65536 ^ length ps" using snoc.IH[OF h(2)] by simp
  then have "(m + 1) * 65536 \<le> 65536 ^ length ps * 65536" by (intro mult_right_mono) simp_all
  then show ?case using snoc.IH[OF h(2)] parse_hextet_bound[OF h(1)] h(3) by simp
qed simp

lemma hextets_below: "hextets ps = Some n \<Longrightarrow> length ps \<le> k \<Longrightarrow> 0 \<le> n \<and> n < 65536 ^ k"
  using hextets_bound[of ps n] order.strict_trans2[OF _ power_increasing[of "length ps" k "65536 :: int"]] by auto

lemma two_halves_bound:
  assumes "0 \<le> a" "a < 65536 ^ hi" "0 \<le> (b :: int)" "b < 65536 ^ lo" "hi + lo \<le> (8 :: nat)"
  shows "0 \<le> a * 65536 ^ (8 - hi) + b \<and> a * 65536 ^ (8 - hi) + b < 65536 ^ 8"
proof -
  have "(65536 :: int) ^ lo \<le> 65536 ^ (8 - hi)" using assms(5) by (intro power_increasing) simp_all
  then have "b < 65536 ^ (8 - hi)" using assms(4) by (rule order.strict_trans2[rotated])
  then have "a * 65536 ^ (8 - hi) + b < (a + 1) * 65536 ^ (8 - hi)" by (simp add: distrib_right)
  also have "\<dots> \<le> 65536 ^ hi * 65536 ^ (8 - hi)" using assms(2) by (intro mult_right_mono) simp_all
  also have "\<dots> = 65536 ^ 8" using assms(5) by (simp flip: power_add)
  finally show ?thesis using assms(1,3) by simp
qed

lemma v6_of_parts_bound:
  assumes "v6_of_parts ps = Some n"
  shows "0 \<le> n \<and> n < 65536 ^ 8"
proof (cases "skip_indices ps")
  case Nil
  then have "hextets ps = Some n" "length ps = 8" using assms by (auto simp: v6_of_parts_def split: if_splits)
  then show ?thesis using hextets_bound[of ps n] by simp
next
  case (Cons k ks)
  then have ks: "ks = []" using assms by (auto simp: v6_of_parts_def split: if_splits list.splits)
  define hi where "hi = (if hd ps = [] then k - 1 else k)"
  define lo where "lo = (if last ps = [] then length ps - k - 1 - 1 else length ps - k - 1)"
  obtain a b where ab: "hextets (take hi ps) = Some a" "hextets (drop (length ps - lo) ps) = Some b"
      "n = a * 65536 ^ (8 - hi) + b" "hi + lo + 1 \<le> 8"
  proof -
    have "v6_of_parts ps = (if 9 < length ps then None
       else if (hd ps = [] \<and> hi \<noteq> 0) \<or> (last ps = [] \<and> lo \<noteq> 0) \<or> 8 < hi + lo + 1 then None
       else (case (hextets (take hi ps), hextets (drop (length ps - lo) ps)) of
               (Some a, Some b) \<Rightarrow> Some (a * 65536 ^ (8 - hi) + b) | _ \<Rightarrow> None))"
      unfolding v6_of_parts_def Cons ks list.case Let_def hi_def lo_def ..
    then show ?thesis using assms that
      by (cases "hextets (take hi ps)"; cases "hextets (drop (length ps - lo) ps)") (simp_all split: if_splits)
  qed
  have "0 \<le> a \<and> a < 65536 ^ hi" "0 \<le> b \<and> b < 65536 ^ lo"
    using hextets_below[OF ab(1), of hi] hextets_below[OF ab(2), of lo] by simp_all
  then show ?thesis using two_halves_bound[of a hi b lo] ab(3,4) by simp
qed

lemma ip_address_wf: "ip_address s = Some a \<Longrightarrow> ip_wf a"
  using parse_v4_bound v6_of_parts_bound
  by (fastforce simp: ip_address_def ip_wf_def parse_v6_def parse_v6_int_def split: option.splits if_splits prod.splits)

text \<open>An address without a scope, and the text of it, which has no percent sign.\<close>

definition plain_address :: "ipaddr \<Rightarrow> bool" where
  "plain_address a \<longleftrightarrow> ip_wf a \<and> (case a of IPv6 _ (Some _) \<Rightarrow> False | _ \<Rightarrow> True)"

lemma plain_if: "ip_wf a \<Longrightarrow> CHR ''%'' \<notin> set (ip_str a) \<Longrightarrow> plain_address a"
  by (auto simp: plain_address_def ip_str_def split: ipaddr.splits option.splits)

lemma join_chars: "set (join sep xs) \<subseteq> set sep \<union> (\<Union>x\<in>set xs. set x)"
  by (induction sep xs rule: join.induct) auto

lemma hex_digit_no_percent: "0 \<le> n \<Longrightarrow> n < 16 \<Longrightarrow> hex_digit n \<noteq> CHR ''%''"
proof -
  assume n: "0 \<le> n" "n < 16"
  then have "code (hex_digit n) = (if n < 10 then 48 + n else 87 + n)" by (simp add: hex_digit_def code_def)
  then show ?thesis using n by (auto simp: code_def split: if_splits)
qed

lemma hex_str_no_percent: "0 \<le> n \<Longrightarrow> CHR ''%'' \<notin> set (hex_str n)"
proof (induction n rule: hex_str.induct)
  case (1 n)
  have "hex_digit (n mod 16) \<noteq> CHR ''%''" by (rule hex_digit_no_percent) simp_all
  then show ?case using 1 hex_digit_no_percent[of n]
    by (subst hex_str.simps) (auto simp: pos_imp_zdiv_nonneg_iff)
qed

lemma v6_str_no_percent: "CHR ''%'' \<notin> set (v6_str n)"
proof -
  have h: "CHR ''%'' \<notin> set t" if "t \<in> set (map hex_str (v6_hextets n))" for t
    using that hex_str_no_percent by (auto simp: v6_hextets_def)
  have j: "CHR ''%'' \<notin> set (join '':'' xs)" if "set xs \<subseteq> insert [] (set (map hex_str (v6_hextets n)))" for xs
  proof
    assume "CHR ''%'' \<in> set (join '':'' xs)"
    then obtain t where "t \<in> set xs" "CHR ''%'' \<in> set t" using join_chars[of "'':''" xs] by auto
    then show False using that h[of t] by auto
  qed
  obtain s l where l: "longest_zeros (v6_hextets n) = (s, l)" by fastforce
  let ?ts = "map hex_str (v6_hextets n)"
  have "set (take s ?ts) \<subseteq> set ?ts" "set (drop (s + l) ?ts) \<subseteq> set ?ts" by (rule set_take_subset, rule set_drop_subset)
  then have "set ((if s = 0 then [[]] else []) @ take s ?ts @ [[]] @ drop (s + l) ?ts @ (if s + l = length (v6_hextets n) then [[]] else []))
      \<subseteq> insert [] (set ?ts)"
    unfolding set_append by (intro Un_least) (auto simp: subset_insertI2)
  note sub = this
  show ?thesis
  proof (cases "l < 2")
    case True
    then have "v6_str n = join '':'' ?ts" unfolding v6_str_def Let_def l prod.case by simp
    then show ?thesis using j[OF subset_insertI] by simp
  next
    case False
    then have "v6_str n = join '':'' ((if s = 0 then [[]] else []) @ take s ?ts @ [[]] @ drop (s + l) ?ts @
        (if s + l = length (v6_hextets n) then [[]] else []))"
      unfolding v6_str_def Let_def l prod.case by simp
    then show ?thesis using j[OF sub] by (simp only: not_False_eq_True)
  qed
qed

lemma v4_str_no_percent: "CHR ''%'' \<notin> set (v4_str n)"
proof -
  have "CHR ''%'' \<notin> set t" if mem: "t \<in> set (map nat_str (v4_octets n))" for t
  proof -
    obtain k where t: "t = nat_str (k mod 256)" using mem by (auto simp: v4_octets_def)
    then show ?thesis using nat_str_digits[of "k mod 256"] by (auto simp: list_all_iff is_digit_def code_def)
  qed
  note h = this
  show ?thesis
  proof
    assume "CHR ''%'' \<in> set (v4_str n)"
    then have "CHR ''%'' \<in> set ''.'' \<union> (\<Union>t\<in>set (map nat_str (v4_octets n)). set t)"
      unfolding v4_str_def using join_chars by blast
    then obtain t where "t \<in> set (map nat_str (v4_octets n))" "CHR ''%'' \<in> set t" by (simp only: Un_iff UN_iff) auto
    then show False using h by blast
  qed
qed

lemma plain_no_percent: "plain_address a \<Longrightarrow> CHR ''%'' \<notin> set (ip_str a)"
  using v4_str_no_percent v6_str_no_percent by (auto simp: plain_address_def ip_str_def split: ipaddr.splits option.splits)

end
