(* ===== verification/EnrichRanges.thy ===== *)
theory EnrichRanges
  imports PyIp "HOL-Library.Product_Lexorder"
begin

text \<open>
  Address classification without a data file (\<open>app/enrich/ranges.py\<close>): the special-purpose tables,
  the bisection over them, \<open>parse_ip\<close>, and \<open>scope\<close> with its memo. The tables are shown disjoint
  by evaluation, which makes the bisection equal to a scan of the CIDR list in any order; the memo
  is a lookaside.
\<close>

section \<open>Bisection\<close>

text \<open>\<open>bisect.bisect_right\<close>, as the library computes it.\<close>

function bisect_loop :: "int list \<Rightarrow> int \<Rightarrow> nat \<Rightarrow> nat \<Rightarrow> nat" where
  "bisect_loop xs x lo hi =
     (if lo < hi
      then (let mid = (lo + hi) div 2 in
            if x < xs ! mid then bisect_loop xs x lo mid else bisect_loop xs x (Suc mid) hi)
      else lo)"
  by pat_completeness auto
termination by (relation "measure (\<lambda>(xs, x, lo, hi). hi - lo)") auto

declare bisect_loop.simps [simp del]

definition bisect_right :: "int list \<Rightarrow> int \<Rightarrow> nat" where
  "bisect_right xs x = bisect_loop xs x 0 (length xs)"

text \<open>\<open>_search\<close>: the last range whose start is at or below the value, then one end check.\<close>

definition search_ranges :: "int \<Rightarrow> int list \<Rightarrow> int list \<Rightarrow> 'a list \<Rightarrow> 'a option" where
  "search_ranges value starts ends labels =
     (let b = bisect_right starts value in
      if b \<noteq> 0 \<and> value \<le> ends ! (b - 1) then Some (labels ! (b - 1)) else None)"

definition public_label :: string where "public_label = ''public''"

definition search_label :: "int \<Rightarrow> int list \<Rightarrow> int list \<Rightarrow> string list \<Rightarrow> string" where
  "search_label value starts ends labels =
     (case search_ranges value starts ends labels of Some l \<Rightarrow> l | None \<Rightarrow> public_label)"

section \<open>The tables\<close>

definition scope_labels :: "string list" where
  "scope_labels = [''private'', ''loopback'', ''link-local'', ''cgnat'', ''multicast'',
     ''documentation'', ''reserved'', ''public'']"

definition v4_ranges :: "(string \<times> string) list" where
  "v4_ranges =
     [(''0.0.0.0/8'', ''reserved''), (''10.0.0.0/8'', ''private''), (''100.64.0.0/10'', ''cgnat''),
      (''127.0.0.0/8'', ''loopback''), (''169.254.0.0/16'', ''link-local''),
      (''172.16.0.0/12'', ''private''), (''192.0.0.0/24'', ''reserved''),
      (''192.0.2.0/24'', ''documentation''), (''192.88.99.0/24'', ''reserved''),
      (''192.168.0.0/16'', ''private''), (''198.18.0.0/15'', ''reserved''),
      (''198.51.100.0/24'', ''documentation''), (''203.0.113.0/24'', ''documentation''),
      (''224.0.0.0/4'', ''multicast''), (''240.0.0.0/4'', ''reserved'')]"

definition v6_ranges :: "(string \<times> string) list" where
  "v6_ranges =
     [(''::/128'', ''reserved''), (''::1/128'', ''loopback''), (''64:ff9b::/96'', ''reserved''),
      (''64:ff9b:1::/48'', ''reserved''), (''100::/64'', ''reserved''), (''2001::/23'', ''reserved''),
      (''2001:db8::/32'', ''documentation''), (''2002::/16'', ''reserved''),
      (''3fff::/20'', ''documentation''), (''fc00::/7'', ''private''), (''fe80::/10'', ''link-local''),
      (''fec0::/10'', ''private''), (''ff00::/8'', ''multicast'')]"

type_synonym 'a rows = "(int \<times> int \<times> 'a) list"

text \<open>\<open>_build\<close>: each CIDR as its first and last integer, sorted; \<open>ip_network\<close> raises on host bits.\<close>

fun cidr_row :: "string \<times> string \<Rightarrow> py_error + (int \<times> int \<times> string)" where
  "cidr_row (cidr, label) =
     (case ip_network_strict cidr of None \<Rightarrow> Inl ValueError
      | Some n \<Rightarrow> Inr (net_addr n, net_broadcast n, label))"

definition build_rows :: "(string \<times> string) list \<Rightarrow> py_error + string rows" where
  "build_rows spec = sbind (map_res cidr_row spec) (\<lambda>rows. Inr (sort rows))"

definition starts_of :: "'a rows \<Rightarrow> int list" where "starts_of rs = map fst rs"
definition ends_of :: "'a rows \<Rightarrow> int list" where "ends_of rs = map (\<lambda>r. fst (snd r)) rs"
definition labels_of :: "'a rows \<Rightarrow> 'a list" where "labels_of rs = map (\<lambda>r. snd (snd r)) rs"

definition rows_of :: "(string \<times> string) list \<Rightarrow> string rows" where
  "rows_of spec = (case build_rows spec of Inr rs \<Rightarrow> rs | Inl _ \<Rightarrow> [])"

section \<open>Scope\<close>

text \<open>What may be handed to \<open>parse_ip\<close>: an address object, or text (absent values as empty text).\<close>

datatype ip_input = Obj ipaddr | Text string

definition parse_ip :: "ip_input \<Rightarrow> ipaddr option" where
  "parse_ip value =
     (let addr = (case value of
            Obj a \<Rightarrow> Some a
          | Text t \<Rightarrow>
              (let s = strip t in
               if s = [] then None
               else (case ip_address s of Some a \<Rightarrow> Some a
                     | None \<Rightarrow> map_option fst (ip_interface s))))
      in (case addr of None \<Rightarrow> None
          | Some a \<Rightarrow> (case ipv4_mapped a of Some m \<Rightarrow> Some m | None \<Rightarrow> Some a)))"

definition scope_of_addr :: "ipaddr \<Rightarrow> string" where
  "scope_of_addr a =
     (let rows = rows_of (if ip_version a = 4 then v4_ranges else v6_ranges)
      in search_label (ip_int a) (starts_of rows) (ends_of rows) (labels_of rows))"

definition scope_uncached :: "string \<Rightarrow> string option" where
  "scope_uncached s = map_option scope_of_addr (parse_ip (Text s))"

type_synonym scope_memo = "(string, string option) dict"

definition memo_max :: nat where "memo_max = 8192"

definition memo_store :: "string \<Rightarrow> string option \<Rightarrow> scope_memo \<Rightarrow> scope_memo" where
  "memo_store s label memo =
     dict_set s label (if memo_max \<le> length memo then [] else memo)"

definition scope :: "string \<Rightarrow> scope_memo \<Rightarrow> string option \<times> scope_memo" where
  "scope ip memo =
     (let s = strip ip in
      if s = [] then (None, memo)
      else (case dict_get memo s of
              Some hit \<Rightarrow> (hit, memo)
            | None \<Rightarrow> (scope_uncached s, memo_store s (scope_uncached s) memo)))"

definition reset_memo :: "scope_memo \<Rightarrow> scope_memo" where "reset_memo memo = []"

definition memo_size :: "scope_memo \<Rightarrow> nat" where "memo_size memo = length memo"

section \<open>Bisection is a scan\<close>

lemma bisect_loop_spec:
  assumes "sorted xs" "lo \<le> hi" "hi \<le> length xs"
    and "\<forall>i<lo. xs ! i \<le> x" "\<forall>i. hi \<le> i \<and> i < length xs \<longrightarrow> x < xs ! i"
  shows "bisect_loop xs x lo hi \<le> length xs \<and>
    (\<forall>i<length xs. i < bisect_loop xs x lo hi \<longleftrightarrow> xs ! i \<le> x)"
  using assms
proof (induction xs x lo hi rule: bisect_loop.induct)
  case (1 xs x lo hi)
  show ?case
  proof (cases "lo < hi")
    case False
    then have b: "bisect_loop xs x lo hi = lo" by (subst bisect_loop.simps) simp
    have h: "hi = lo" using False "1.prems"(2) by simp
    have "i < lo \<longleftrightarrow> xs ! i \<le> x" if "i < length xs" for i
      using "1.prems"(4,5) that h by (cases "i < lo") (auto simp: not_less not_le)
    then show ?thesis using "1.prems"(3) b h by simp
  next
    case True
    let ?mid = "(lo + hi) div 2"
    have mid: "lo \<le> ?mid" "?mid < hi" using True by auto
    show ?thesis
    proof (cases "x < xs ! ?mid")
      case True
      have "\<forall>i. ?mid \<le> i \<and> i < length xs \<longrightarrow> x < xs ! i"
        using True "1.prems"(1) by (auto dest: sorted_nth_mono less_le_trans)
      then show ?thesis
        using "1.IH"(1)[OF \<open>lo < hi\<close> refl True] "1.prems" mid \<open>lo < hi\<close> True
        by (simp add: bisect_loop.simps[of xs x lo hi] Let_def)
    next
      case False
      have "\<forall>i<Suc ?mid. xs ! i \<le> x"
        using False "1.prems" mid sorted_nth_mono[OF "1.prems"(1), of _ ?mid]
        by (auto simp: less_Suc_eq_le not_less intro: order_trans)
      then show ?thesis
        using "1.IH"(2)[OF \<open>lo < hi\<close> refl False] "1.prems" mid \<open>lo < hi\<close> False
        by (simp add: bisect_loop.simps[of xs x lo hi] Let_def)
    qed
  qed
qed

lemma bisect_right_spec:
  assumes "sorted xs"
  shows "bisect_right xs x \<le> length xs"
    and "i < length xs \<Longrightarrow> i < bisect_right xs x \<longleftrightarrow> xs ! i \<le> x"
  using bisect_loop_spec[OF assms, of 0 "length xs" x] by (auto simp: bisect_right_def)

text \<open>Rows that do not touch: each ends before the next one starts.\<close>

fun disjoint_rows :: "'a rows \<Rightarrow> bool" where
  "disjoint_rows [] = True"
| "disjoint_rows [(s, e, _)] = (s \<le> e)"
| "disjoint_rows ((s, e, _) # (s', e', l') # rs) = (s \<le> e \<and> e < s' \<and> disjoint_rows ((s', e', l') # rs))"

definition covers :: "int \<Rightarrow> int \<times> int \<times> 'a \<Rightarrow> bool" where
  "covers v r \<longleftrightarrow> fst r \<le> v \<and> v \<le> fst (snd r)"

definition scan_rows :: "'a rows \<Rightarrow> int \<Rightarrow> 'a option" where
  "scan_rows rs v = map_option (\<lambda>r. snd (snd r)) (find (covers v) rs)"

lemma disjoint_rows_Cons:
  "disjoint_rows (r # rs) \<longleftrightarrow>
     fst r \<le> fst (snd r) \<and> (\<forall>r'\<in>set rs. fst (snd r) < fst r') \<and> disjoint_rows rs"
proof (induction rs arbitrary: r)
  case Nil
  then show ?case by (cases r) auto
next
  case (Cons r' rs)
  show ?case using Cons[of r'] by (cases r; cases r') (auto intro: less_trans)
qed

lemma disjoint_rows_sorted: "disjoint_rows rs \<Longrightarrow> sorted (starts_of rs)"
  by (induction rs) (fastforce simp: disjoint_rows_Cons starts_of_def)+

lemma disjoint_rows_nth:
  "disjoint_rows rs \<Longrightarrow> i < j \<Longrightarrow> j < length rs \<Longrightarrow> fst (snd (rs ! i)) < fst (rs ! j)"
  by (induction rs arbitrary: i j) (auto simp: disjoint_rows_Cons nth_Cons' split: if_splits)

lemma disjoint_rows_unique:
  assumes "disjoint_rows rs" "r \<in> set rs" "r' \<in> set rs" "covers v r" "covers v r'"
  shows "r = r'"
proof -
  obtain i j where "r = rs ! i" "r' = rs ! j" "i < length rs" "j < length rs"
    using assms(2,3) by (auto simp: in_set_conv_nth)
  with assms show ?thesis
    using disjoint_rows_nth[OF assms(1), of i j] disjoint_rows_nth[OF assms(1), of j i]
    by (cases i j rule: linorder_cases) (auto simp: covers_def)
qed

lemma scan_rows_Some:
  assumes "disjoint_rows rs" "r \<in> set rs" "covers v r"
  shows "scan_rows rs v = Some (snd (snd r))"
proof -
  obtain r' where "find (covers v) rs = Some r'"
    using assms(2,3) find_None_iff[of "covers v" rs] by (cases "find (covers v) rs") blast+
  then have "r' \<in> set rs" "covers v r'" by (auto simp: find_Some_iff)
  with disjoint_rows_unique[OF assms(1) assms(2) this(1) assms(3)] show ?thesis
    using \<open>find (covers v) rs = Some r'\<close> by (simp add: scan_rows_def)
qed

lemma search_ranges_scan:
  assumes d: "disjoint_rows rs"
  shows "search_ranges v (starts_of rs) (ends_of rs) (labels_of rs) = scan_rows rs v"
proof -
  let ?b = "bisect_right (starts_of rs) v"
  note b = bisect_right_spec[OF disjoint_rows_sorted[OF d]]
  have len: "length (starts_of rs) = length rs" by (simp add: starts_of_def)
  have st: "i < length rs \<Longrightarrow> i < ?b \<longleftrightarrow> fst (rs ! i) \<le> v" for i
    using b(2)[of _ ] by (simp add: starts_of_def)
  show ?thesis
  proof (cases "?b \<noteq> 0 \<and> v \<le> fst (snd (rs ! (?b - 1)))")
    case True
    then have i: "?b - 1 < length rs" using b(1)[of v] len by auto
    then have "covers v (rs ! (?b - 1))" using True st[of "?b - 1"] by (auto simp: covers_def)
    from scan_rows_Some[OF d nth_mem[OF i] this] show ?thesis
      using True i by (simp add: search_ranges_def Let_def ends_of_def labels_of_def)
  next
    case False
    have "\<not> covers v r" if "r \<in> set rs" for r
    proof
      assume c: "covers v r"
      from that obtain i where i: "i < length rs" "r = rs ! i"
        unfolding in_set_conv_nth by blast
      with c st have ib: "i < ?b" by (auto simp: covers_def)
      then have l: "?b - 1 < length rs" "fst (rs ! (?b - 1)) \<le> v"
        using b(1)[of v] len st[of "?b - 1"] by auto
      show False
      proof (cases "i = ?b - 1")
        case True
        then show False using i c \<open>\<not> (?b \<noteq> 0 \<and> _)\<close> ib by (auto simp: covers_def)
      next
        case False
        with ib have "i < ?b - 1" by simp
        from disjoint_rows_nth[OF d this l(1)] show False using i c l(2) by (auto simp: covers_def)
      qed
    qed
    then have "find (covers v) rs = None" by (auto simp: find_None_iff)
    moreover have "?b \<noteq> 0 \<longrightarrow> ?b - 1 < length rs" using b(1)[of v] len by auto
    ultimately show ?thesis using False
      by (auto simp: search_ranges_def Let_def ends_of_def scan_rows_def)
  qed
qed

section \<open>The tables are disjoint\<close>

lemma v4_build: "\<exists>rs. build_rows v4_ranges = Inr rs" and v6_build: "\<exists>rs. build_rows v6_ranges = Inr rs"
proof -
  have "(case build_rows v4_ranges of Inr _ \<Rightarrow> True | Inl _ \<Rightarrow> False)" by code_simp
  then show "\<exists>rs. build_rows v4_ranges = Inr rs" by (cases "build_rows v4_ranges") auto
  have "(case build_rows v6_ranges of Inr _ \<Rightarrow> True | Inl _ \<Rightarrow> False)" by code_simp
  then show "\<exists>rs. build_rows v6_ranges = Inr rs" by (cases "build_rows v6_ranges") auto
qed

lemma v4_disjoint: "disjoint_rows (rows_of v4_ranges)"
  by code_simp

lemma v6_disjoint: "disjoint_rows (rows_of v6_ranges)"
  by code_simp

lemma rows_sum:
  "build_rows spec = Inr rs \<Longrightarrow>
     (l, s, e) \<in> {(l, s, e). (s, e, l) \<in> set rs} \<longleftrightarrow>
       (\<exists>cidr n. (cidr, l) \<in> set spec \<and> ip_network_strict cidr = Some n \<and> s = net_addr n \<and> e = net_broadcast n)"
proof -
  assume "build_rows spec = Inr rs"
  then obtain ys where l: "list_all2 (\<lambda>x y. cidr_row x = Inr y) spec ys" and rs: "rs = sort ys"
    by (auto simp: build_rows_def map_res_Inr_iff)
  have "(s, e, l) \<in> set ys \<longleftrightarrow> (\<exists>cidr n. (cidr, l) \<in> set spec \<and> ip_network_strict cidr = Some n
      \<and> s = net_addr n \<and> e = net_broadcast n)"
    using l by (induction spec ys rule: list_all2_induct) (auto split: option.splits)
  then show ?thesis by (simp add: rs)
qed

lemma net_strict_dvd: "ip_network_strict s = Some n \<Longrightarrow> net_size n dvd net_addr n"
proof -
  assume "ip_network_strict s = Some n"
  then have "\<exists>a l. n = mk_net a l"
    by (clarsimp simp: ip_network_strict_def split: option.splits if_splits) blast
  then show ?thesis by auto
qed

lemma covers_net:
  assumes "ip_network_strict cidr = Some n" and "ip_version a = net_version n"
  shows "covers (ip_int a) (net_addr n, net_broadcast n, l) \<longleftrightarrow> in_net a n"
  using in_net_interval[OF net_strict_dvd[OF assms(1)], of a] assms(2) by (simp add: covers_def)

text \<open>Every network of a table belongs to the family the table is for.\<close>

definition spec_version :: "nat \<Rightarrow> (string \<times> string) list \<Rightarrow> bool" where
  "spec_version v spec \<longleftrightarrow>
     list_all (\<lambda>(c, _). case ip_network_strict c of Some n \<Rightarrow> net_version n = v | None \<Rightarrow> False) spec"

lemma table_versions: "spec_version 4 v4_ranges" "spec_version 6 v6_ranges"
  by code_simp+

definition table_for :: "ipaddr \<Rightarrow> (string \<times> string) list" where
  "table_for a = (if ip_version a = 4 then v4_ranges else v6_ranges)"

lemma ip_version_cases: "ip_version a = 4 \<or> ip_version a = 6"
  by (cases a) auto

lemma table_for_facts:
  "disjoint_rows (rows_of (table_for a))" "\<exists>rs. build_rows (table_for a) = Inr rs"
  "spec_version (ip_version a) (table_for a)"
  using ip_version_cases[of a] v4_disjoint v6_disjoint v4_build v6_build table_versions
  by (auto simp: table_for_def)

text \<open>The label of an address is the label of any network of the table that contains it.\<close>

lemma scope_of_addr_in:
  assumes "(cidr, l) \<in> set (table_for a)" and "ip_network_strict cidr = Some n" and "in_net a n"
  shows "scope_of_addr a = l"
proof -
  let ?rs = "rows_of (table_for a)"
  obtain rs where rs: "build_rows (table_for a) = Inr rs" using table_for_facts(2) by blast
  then have e: "?rs = rs" by (simp add: rows_of_def)
  have "(net_addr n, net_broadcast n, l) \<in> set rs"
    using rows_sum[OF rs, of l "net_addr n" "net_broadcast n"] assms(1,2) by blast
  moreover have "covers (ip_int a) (net_addr n, net_broadcast n, l)"
    using covers_net[OF assms(2), of a l] assms(3) unfolding in_net_def by blast
  ultimately have "scan_rows ?rs (ip_int a) = Some l"
    using scan_rows_Some[OF table_for_facts(1)] e by fastforce
  then show ?thesis
    using search_ranges_scan[OF table_for_facts(1)]
    by (simp add: scope_of_addr_def Let_def search_label_def flip: table_for_def)
qed

lemma scope_of_addr_public:
  assumes "\<And>cidr l n. (cidr, l) \<in> set (table_for a) \<Longrightarrow> ip_network_strict cidr = Some n \<Longrightarrow> \<not> in_net a n"
  shows "scope_of_addr a = public_label"
proof -
  let ?rs = "rows_of (table_for a)"
  obtain rs where rs: "build_rows (table_for a) = Inr rs" using table_for_facts(2) by blast
  then have e: "?rs = rs" by (simp add: rows_of_def)
  have "\<not> covers (ip_int a) r" if "r \<in> set rs" for r
  proof -
    obtain s t l where r: "r = (s, t, l)" by (cases r)
    with that rows_sum[OF rs, of l s t] obtain cidr n where
      n: "(cidr, l) \<in> set (table_for a)" "ip_network_strict cidr = Some n" "s = net_addr n" "t = net_broadcast n"
      by blast
    have "net_version n = ip_version a"
      using table_for_facts(3)[of a] n(1,2) by (fastforce simp: spec_version_def list_all_iff)
    with covers_net[OF n(2), of a l] assms[OF n(1,2)] r n show ?thesis by simp
  qed
  then have "find (covers (ip_int a)) ?rs = None" unfolding e find_None_iff by blast
  then show ?thesis
    using search_ranges_scan[OF table_for_facts(1)]
    by (simp add: scope_of_addr_def Let_def search_label_def scan_rows_def flip: table_for_def)
qed

section \<open>The memo is a lookaside\<close>

definition memo_sound :: "scope_memo \<Rightarrow> bool" where
  "memo_sound memo \<longleftrightarrow> (\<forall>s v. dict_get memo s = Some v \<longrightarrow> v = scope_uncached s)"

interpretation scope_lookaside: lookaside dict_get memo_store scope_uncached memo_sound
  by unfold_locales (auto simp: memo_sound_def memo_store_def)

lemma strip_Nil [simp]: "strip [] = []"
  by (simp add: strip_def lstrip_def rstrip_def)

lemma scope_uncached_Nil [simp]: "scope_uncached [] = None"
  by (simp add: scope_uncached_def parse_ip_def)

lemma scope_transparent:
  "memo_sound memo \<Longrightarrow> fst (scope ip memo) = scope_uncached (strip ip) \<and> memo_sound (snd (scope ip memo))"
  using scope_lookaside.ask_transparent[of memo "scope ip memo" "strip ip"]
  by (cases "strip ip = []") (auto simp: scope_def Let_def)

lemma memo_store_length: "length (memo_store s v memo) \<le> max memo_max (length memo)"
  using length_dict_set[of s v "[]"] length_dict_set[of s v memo]
  by (auto simp: memo_store_def memo_max_def)

interpretation scope_store: bounded_cache "\<lambda>m. distinct (map fst m) \<and> length m \<le> memo_max"
    dict_get memo_store memo_size "\<lambda>_. memo_max"
proof
  fix m :: scope_memo and k j v w
  assume ok: "distinct (map fst m) \<and> length m \<le> memo_max"
  show "distinct (map fst (memo_store k v m)) \<and> length (memo_store k v m) \<le> memo_max"
    using ok memo_store_length[of k v m] by (auto simp: memo_store_def)
  show "memo_size m \<le> memo_max" using ok by (simp add: memo_size_def)
  show "dict_get (memo_store k v m) k = Some v" by (simp add: memo_store_def)
  show "dict_get (memo_store k v m) j = Some w \<Longrightarrow> j \<noteq> k \<Longrightarrow> dict_get m j = Some w"
    by (auto simp: memo_store_def split: if_splits)
qed simp

section \<open>Properties\<close>

text \<open>An address inside a network of its family's table gets exactly that network's label, and an address in none of them is public: bisecting the sorted intervals is the same as scanning the networks in any order.\<close>

lemma scope_of_listed_address:
  "(\<forall>(cidr, l) \<in> set (table_for a). \<forall>n. ip_network_strict cidr = Some n \<longrightarrow> in_net a n \<longrightarrow> scope_of_addr a = l)
    \<and> ((\<forall>(cidr, l) \<in> set (table_for a). \<forall>n. ip_network_strict cidr = Some n \<longrightarrow> \<not> in_net a n)
        \<longrightarrow> scope_of_addr a = public_label)"
  using scope_of_addr_in[of _ _ a] scope_of_addr_public[of a] by blast

lemma scope_of_listed_address_example:
  "scope_of_addr (IPv4 3232235777) = ''private''"
proof -
  have m: "(''192.168.0.0/16'', ''private'') \<in> set (table_for (IPv4 3232235777))"
    by (simp add: table_for_def v4_ranges_def)
  have n: "ip_network_strict ''192.168.0.0/16''
      = Some \<lparr>net_version = 4, net_bits = 32, net_addr = 3232235520, net_plen = 16\<rparr>" by code_simp
  have i: "in_net (IPv4 3232235777) \<lparr>net_version = 4, net_bits = 32, net_addr = 3232235520, net_plen = 16\<rparr>"
    by code_simp
  show ?thesis using conjunct1[OF scope_of_listed_address[of "IPv4 3232235777"]] m n i by fast
qed

text \<open>The memo in front of scope is invisible: on a memo that holds only true answers it returns the computed scope of the stripped text and stays true.\<close>

lemma scope_memo_invisible:
  assumes "memo_sound memo"
  shows "fst (scope ip memo) = scope_uncached (strip ip) \<and> memo_sound (snd (scope ip memo))"
  using assms by (rule scope_transparent)

lemma scope_memo_invisible_example:
  "fst (scope '' 10.0.0.1'' []) = scope_uncached (strip '' 10.0.0.1'')"
  using scope_memo_invisible[of "[]" "'' 10.0.0.1''"] by (simp add: memo_sound_def)

end
