(* ===== verification/CsvTable.thy ===== *)
theory CsvTable
  imports EnrichRanges
begin

text \<open>
  The side-loaded range table (\<open>app/enrich/csvdb.py\<close>): header vocabulary and column inference, row
  parsing, the sweep that flattens overlapping ranges, loading, and lookup by bisection. The CSV
  tokenizer of the standard library is left out: loading starts from its rows. The SHA-256
  fingerprint and the path, which only label a table, are left out too.
\<close>

section \<open>Vocabulary and cells\<close>

definition start_names :: "string list" where
  "start_names = [''start_ip'', ''start'', ''ip_from'', ''from'', ''first_ip'', ''begin'',
     ''start_address'', ''startip'', ''ip_start'', ''range_start'', ''network_start_ip'',
     ''min_ip'', ''low'', ''ip_range_start'']"

definition end_names :: "string list" where
  "end_names = [''end_ip'', ''end'', ''ip_to'', ''to'', ''last_ip'', ''end_address'', ''endip'',
     ''ip_end'', ''range_end'', ''network_last_ip'', ''max_ip'', ''high'', ''ip_range_end'']"

definition cidr_names :: "string list" where
  "cidr_names = [''cidr'', ''network'', ''net'', ''prefix'', ''subnet'', ''range'', ''ip_range'',
     ''ip_prefix'', ''block'']"

definition country_names :: "string list" where
  "country_names = [''country'', ''country_iso_code'', ''iso_code'', ''country_code'', ''cc'',
     ''country_iso'', ''countrycode'', ''registered_country_iso_code'', ''country_name'']"

definition asn_names :: "string list" where
  "asn_names = [''asn'', ''as'', ''as_number'', ''autonomous_system_number'', ''asnum'',
     ''as_num'', ''asn_number'', ''autonomous_system'']"

definition delimiters :: "char list" where
  "delimiters = [CHR '','', char_of (9::int), CHR '';'', CHR ''|'']"

definition null_text :: "string list" where
  "null_text = [[], ''-'', ''none'', ''null'', ''n/a'', ''na'', ''unknown'', ''??'', ''zz'']"

datatype range_error =
    NotAsNumber nat | AsOutOfRange nat | EmptyNetwork nat | NotNetwork nat | IncompleteRange nat
  | NotStartAddress nat | NotEndAddress nat | VersionMismatch nat | Reversed nat
  | EmptyFile | NoRangeColumns | GeonameOnly | NoValueColumns | BadFirstRow | NoValuesInSample
  | NoUsableRows "range_error list" | NoValues nat | NoDataRows

text \<open>The byte-order mark, in UTF-8.\<close>

definition bom :: string where "bom = map char_of [239::int, 187, 191]"

function lstrip_bom :: "string \<Rightarrow> string" where
  "lstrip_bom s = (if prefix bom s then lstrip_bom (drop 3 s) else s)"
  by pat_completeness auto
termination
  by (relation "measure length") (auto simp: bom_def dest: prefix_length_le)

declare lstrip_bom.simps [simp del]

definition strip_underscore :: "string \<Rightarrow> string" where
  "strip_underscore s =
     rev (dropWhile (\<lambda>c. c = CHR ''_'') (rev (dropWhile (\<lambda>c. c = CHR ''_'') s)))"

definition norm_header :: "string \<Rightarrow> string" where
  "norm_header name =
     strip_underscore (map (\<lambda>c. if c \<in> {CHR '' '', CHR ''-'', CHR ''.''} then CHR ''_'' else c)
       (lower (lstrip_bom (strip name))))"

definition is_alpha :: "char \<Rightarrow> bool" where
  "is_alpha c \<longleftrightarrow> (65 \<le> code c \<and> code c \<le> 90) \<or> (97 \<le> code c \<and> code c \<le> 122)"

definition country_of :: "string \<Rightarrow> string option" where
  "country_of value =
     (let s = strip value in
      if lower s \<in> set null_text then None
      else if length s = 2 \<and> list_all is_alpha s then Some (upper s) else None)"

definition asn_of :: "string \<Rightarrow> nat \<Rightarrow> range_error + int option" where
  "asn_of value line =
     (let s = strip value in
      if lower s \<in> set null_text then Inr None
      else
        (let s = (if lower (take 2 s) = ''as'' then strip (drop 2 s) else s) in
         if s = [] then Inr None
         else (case py_int s of
                 None \<Rightarrow> Inl (NotAsNumber line)
               | Some n \<Rightarrow>
                   if n = 0 then Inr None
                   else if \<not> (0 < n \<and> n \<le> 4294967295) then Inl (AsOutOfRange line)
                   else Inr (Some n))))"

section \<open>Overlaps\<close>

fun count_overlaps_from :: "int \<Rightarrow> 'a rows \<Rightarrow> nat" where
  "count_overlaps_from high [] = 0"
| "count_overlaps_from high ((s, e, _) # rs) =
     (if s \<le> high then 1 else 0) + count_overlaps_from (if high < e then e else high) rs"

definition count_overlaps :: "'a rows \<Rightarrow> nat" where
  "count_overlaps rs = count_overlaps_from (- 1) rs"

text \<open>
  The heap of the sweep holds \<open>(width, row index, end, payload)\<close>. The binary heap of \<open>heapq\<close> is kept
  as the list of its entries in pop order: pushing inserts by key, the top is the head.
\<close>

type_synonym 'a entry = "int \<times> nat \<times> int \<times> 'a"

definition ekey :: "'a entry \<Rightarrow> int \<times> nat" where
  "ekey h = (fst h, fst (snd h))"

definition entry_of :: "nat \<times> int \<times> int \<times> 'a \<Rightarrow> 'a entry" where
  "entry_of x = (fst (snd (snd x)) - fst (snd x), fst x, fst (snd (snd x)), snd (snd (snd x)))"

definition heap_push :: "'a entry list \<Rightarrow> 'a entry \<Rightarrow> 'a entry list" where
  "heap_push heap h = insort_key ekey h heap"

text \<open>\<open>while heap and heap[0][2] < point: heappop(heap)\<close>.\<close>

definition heap_expire :: "int \<Rightarrow> 'a entry list \<Rightarrow> 'a entry list" where
  "heap_expire point heap = dropWhile (\<lambda>h. fst (snd (snd h)) < point) heap"

definition emit :: "'a rows \<Rightarrow> int \<Rightarrow> int \<Rightarrow> 'a \<Rightarrow> 'a rows" where
  "emit out point stop payload =
     (if out \<noteq> [] \<and> snd (snd (last out)) = payload \<and> fst (snd (last out)) = point - 1
      then butlast out @ [(fst (last out), stop, payload)]
      else out @ [(point, stop, payload)])"

fun sweep ::
    "int list \<Rightarrow> (nat \<times> int \<times> int \<times> 'a) list \<Rightarrow> 'a entry list \<Rightarrow> 'a rows \<Rightarrow> 'a rows" where
  "sweep (p # q # ps) todo heap out =
     (let ready = takeWhile (\<lambda>x. fst (snd x) \<le> p) todo;
          todo' = dropWhile (\<lambda>x. fst (snd x) \<le> p) todo;
          heap' = heap_expire p (foldl heap_push heap (map entry_of ready))
      in sweep (q # ps) todo' heap'
           (case heap' of [] \<Rightarrow> out | h # _ \<Rightarrow> emit out p (q - 1) (snd (snd (snd h)))))"
| "sweep _ todo heap out = out"

definition boundaries :: "'a rows \<Rightarrow> int list" where
  "boundaries rows = sort (remdups (concat (map (\<lambda>(s, e, _). [s, e + 1]) rows)))"

definition flatten_rows :: "'a rows \<Rightarrow> 'a rows" where
  "flatten_rows rows =
     sweep (boundaries rows) (sort_key (\<lambda>x. fst (snd x)) (enumerate 0 rows)) [] []"

section \<open>What the sweep is for\<close>

text \<open>The narrowest row covering a value, the lower index winning a tie.\<close>

definition row_key :: "nat \<times> int \<times> int \<times> 'a \<Rightarrow> int \<times> nat" where
  "row_key x = (fst (snd (snd x)) - fst (snd x), fst x)"

definition covering :: "'a rows \<Rightarrow> int \<Rightarrow> (nat \<times> int \<times> int \<times> 'a) list" where
  "covering rows v = filter (\<lambda>x. covers v (snd x)) (enumerate 0 rows)"

definition narrowest :: "'a rows \<Rightarrow> int \<Rightarrow> 'a option" where
  "narrowest rows v =
     (if covering rows v = [] then None
      else Some (snd (snd (snd (arg_min_list row_key (covering rows v))))))"

lemma covering_iff: "x \<in> set (covering rows v) \<longleftrightarrow> x \<in> set (enumerate 0 rows) \<and> covers v (snd x)"
  by (simp add: covering_def)

lemma enumerate_key_inj: "inj_on row_key (set (enumerate 0 rows))"
  by (rule inj_onI) (auto simp: row_key_def in_set_enumerate_eq)

lemma narrowest_eq:
  assumes "x \<in> set (covering rows v)" and "\<And>y. y \<in> set (covering rows v) \<Longrightarrow> row_key x \<le> row_key y"
  shows "narrowest rows v = Some (snd (snd (snd x)))"
proof -
  let ?c = "covering rows v"
  let ?m = "arg_min_list row_key ?c"
  from assms(1) have ne: "?c \<noteq> []" by auto
  then have m: "?m \<in> set ?c" by (rule arg_min_list_in)
  have "row_key ?m = Min (row_key ` set ?c)" using f_arg_min_list_f[OF ne] .
  also have "\<dots> = row_key x" using assms by (intro Min_eqI) auto
  finally have "?m = x"
    using inj_onD[OF enumerate_key_inj[of rows]] m assms(1) covering_iff by metis
  with ne show ?thesis by (simp add: narrowest_def)
qed

lemma narrowest_None: "(\<And>x. x \<in> set (enumerate 0 rows) \<Longrightarrow> \<not> covers v (snd x)) \<Longrightarrow> narrowest rows v = None"
  by (auto simp: narrowest_def covering_def filter_empty_conv)

lemma covering_cong:
  "(\<And>x. x \<in> set (enumerate 0 rows) \<Longrightarrow> covers v (snd x) = covers w (snd x)) \<Longrightarrow>
     narrowest rows v = narrowest rows w"
  unfolding narrowest_def covering_def by (metis (no_types, lifting) filter_cong)

lemma disjoint_rows_snoc:
  "disjoint_rows (rs @ [r]) \<longleftrightarrow>
     disjoint_rows rs \<and> fst r \<le> fst (snd r) \<and> (\<forall>r'\<in>set rs. fst (snd r') < fst r)"
  by (induction rs) (auto simp: disjoint_rows_Cons)

lemma scan_rows_append:
  "scan_rows (a @ b) v = (case scan_rows a v of None \<Rightarrow> scan_rows b v | Some x \<Rightarrow> Some x)"
  by (induction a) (auto simp: scan_rows_def)

lemma scan_rows_out: "(\<And>r. r \<in> set rs \<Longrightarrow> \<not> covers v r) \<Longrightarrow> scan_rows rs v = None"
  unfolding scan_rows_def by (simp add: find_None_iff)

lemma emit_facts:
  assumes d: "disjoint_rows out" and b: "\<forall>r\<in>set out. fst (snd r) < p" and pq: "p < q"
  shows "disjoint_rows (emit out p (q - 1) l)"
    and "\<forall>r\<in>set (emit out p (q - 1) l). fst (snd r) < q"
    and "v < p \<Longrightarrow> scan_rows (emit out p (q - 1) l) v = scan_rows out v"
    and "p \<le> v \<Longrightarrow> v < q \<Longrightarrow> scan_rows (emit out p (q - 1) l) v = Some l"
proof -
  let ?m = "out \<noteq> [] \<and> snd (snd (last out)) = l \<and> fst (snd (last out)) = p - 1"
  have *: "disjoint_rows (emit out p (q - 1) l) \<and> (\<forall>r\<in>set (emit out p (q - 1) l). fst (snd r) < q) \<and>
    (v < p \<longrightarrow> scan_rows (emit out p (q - 1) l) v = scan_rows out v) \<and>
    (p \<le> v \<and> v < q \<longrightarrow> scan_rows (emit out p (q - 1) l) v = Some l)"
  proof (cases ?m)
    case True
    define o1 where "o1 = butlast out"
    obtain s where o: "out = o1 @ [(s, p - 1, l)]"
      using True unfolding o1_def by (metis append_butlast_last_id prod.collapse)
    have e: "emit (o1 @ [(s, p - 1, l)]) p (q - 1) l = o1 @ [(s, q - 1, l)]"
      by (simp add: emit_def)
    have h: "disjoint_rows o1" "s \<le> p - 1" "\<forall>r\<in>set o1. fst (snd r) < s"
      using d unfolding o disjoint_rows_snoc by auto
    have "scan_rows o1 v = None" if "p \<le> v"
      using h that by (intro scan_rows_out) (auto simp: covers_def)
    then show ?thesis unfolding o e disjoint_rows_snoc scan_rows_append
      using h pq by (auto simp: scan_rows_def covers_def split: option.splits)
  next
    case False
    then have e: "emit out p (q - 1) l = out @ [(p, q - 1, l)]" by (auto simp: emit_def)
    have "scan_rows out v = None" if "p \<le> v"
      using b that by (intro scan_rows_out) (auto simp: covers_def)
    moreover have "scan_rows [(p, q - 1, l)] v = (if p \<le> v \<and> v < q then Some l else None)"
      by (auto simp: scan_rows_def covers_def)
    ultimately show ?thesis unfolding e disjoint_rows_snoc scan_rows_append
      using d b pq by (auto split: option.splits)
  qed
  then show "disjoint_rows (emit out p (q - 1) l)" "\<forall>r\<in>set (emit out p (q - 1) l). fst (snd r) < q"
    "v < p \<Longrightarrow> scan_rows (emit out p (q - 1) l) v = scan_rows out v"
    "p \<le> v \<Longrightarrow> v < q \<Longrightarrow> scan_rows (emit out p (q - 1) l) v = Some l"
    by blast+
qed

section \<open>The sweep is correct\<close>

definition sweep_inv ::
    "'a rows \<Rightarrow> int \<Rightarrow> (nat \<times> int \<times> int \<times> 'a) list \<Rightarrow> 'a entry list \<Rightarrow> bool" where
  "sweep_inv rows p todo heap \<longleftrightarrow>
     set todo = {x \<in> set (enumerate 0 rows). p \<le> fst (snd x)} \<and>
     sorted (map (\<lambda>x. fst (snd x)) todo) \<and>
     sorted (map ekey heap) \<and>
     set heap \<subseteq> entry_of ` {x \<in> set (enumerate 0 rows). fst (snd x) < p} \<and>
     entry_of ` {x \<in> set (enumerate 0 rows). fst (snd x) < p \<and> p \<le> fst (snd (snd x))} \<subseteq> set heap"

lemma foldl_push:
  "set (foldl heap_push heap hs) = set heap \<union> set hs"
  "sorted (map ekey heap) \<Longrightarrow> sorted (map ekey (foldl heap_push heap hs))"
  by (induction hs arbitrary: heap) (auto simp: heap_push_def set_insort_key sorted_insort_key)

lemma dropWhile_keeps: "x \<in> set xs \<Longrightarrow> \<not> P x \<Longrightarrow> x \<in> set (dropWhile P xs)"
  by (induction xs) auto

lemma sorted_dropWhile: "sorted (map f xs) \<Longrightarrow> sorted (map f (dropWhile P xs))"
  by (induction xs) auto

lemma takeWhile_sorted:
  "sorted (map f xs) \<Longrightarrow> set (takeWhile (\<lambda>x. f x \<le> p) xs) = {x \<in> set xs. f x \<le> (p::int)}"
  "sorted (map f xs) \<Longrightarrow> set (dropWhile (\<lambda>x. f x \<le> p) xs) = {x \<in> set xs. p < f x}"
  by (induction xs) (auto simp: not_le intro: order_trans dest: less_le_trans)

text \<open>One round at point \<open>p\<close>, with \<open>q\<close> the next boundary.\<close>

lemma sweep_round:
  assumes inv: "sweep_inv rows p todo heap" and pq: "p < q"
    and gap: "\<And>x. x \<in> set (enumerate 0 rows) \<Longrightarrow>
        (fst (snd x) \<le> p \<or> q \<le> fst (snd x)) \<and> (fst (snd (snd x)) < p \<or> q - 1 \<le> fst (snd (snd x)))"
    and h1: "h1 = foldl heap_push heap (map entry_of (takeWhile (\<lambda>x. fst (snd x) \<le> p) todo))"
    and h2: "h2 = heap_expire p h1"
  shows "sweep_inv rows q (dropWhile (\<lambda>x. fst (snd x) \<le> p) todo) h2"
    and "p \<le> v \<Longrightarrow> v < q \<Longrightarrow> h2 = [] \<Longrightarrow> narrowest rows v = None"
    and "p \<le> v \<Longrightarrow> v < q \<Longrightarrow> h2 = h # hs \<Longrightarrow> narrowest rows v = Some (snd (snd (snd h)))"
proof -
  let ?R = "set (enumerate 0 rows)"
  note I = inv[unfolded sweep_inv_def]
  have tw: "set (takeWhile (\<lambda>x. fst (snd x) \<le> p) todo) = {x \<in> ?R. fst (snd x) = p}"
    using I by (auto simp: takeWhile_sorted)
  have s1: "set h1 = set heap \<union> entry_of ` {x \<in> ?R. fst (snd x) = p}"
    unfolding h1 foldl_push by (simp add: tw)
  have so1: "sorted (map ekey h1)" using I by (simp add: h1 foldl_push)
  have so2: "sorted (map ekey h2)" using so1 by (simp add: h2 heap_expire_def sorted_dropWhile)
  have sub: "set h2 \<subseteq> entry_of ` {x \<in> ?R. fst (snd x) \<le> p}"
  proof
    fix e assume "e \<in> set h2"
    then have "e \<in> set h1" unfolding h2 heap_expire_def by (rule set_dropWhileD)
    then consider "e \<in> set heap" | "e \<in> entry_of ` {x \<in> ?R. fst (snd x) = p}" using s1 by blast
    then show "e \<in> entry_of ` {x \<in> ?R. fst (snd x) \<le> p}"
    proof cases
      case 1
      then have "e \<in> entry_of ` {x \<in> ?R. fst (snd x) < p}" using I by blast
      then show ?thesis by (auto intro!: imageI simp: less_imp_le)
    qed (auto intro!: imageI)
  qed
  have sup: "entry_of x \<in> set h2" if "x \<in> ?R" "fst (snd x) \<le> p" "p \<le> fst (snd (snd x))" for x
  proof -
    have "entry_of x \<in> set h1"
    proof (cases "fst (snd x) = p")
      case False
      then have "x \<in> {x \<in> ?R. fst (snd x) < p \<and> p \<le> fst (snd (snd x))}" using that by simp
      then show ?thesis using I s1 by blast
    qed (use that s1 in blast)
    then show ?thesis unfolding h2 heap_expire_def
      by (rule dropWhile_keeps) (use that in \<open>simp add: entry_of_def\<close>)
  qed
  show "sweep_inv rows q (dropWhile (\<lambda>x. fst (snd x) \<le> p) todo) h2"
    unfolding sweep_inv_def
  proof (intro conjI)
    show "set (dropWhile (\<lambda>x. fst (snd x) \<le> p) todo) = {x \<in> ?R. q \<le> fst (snd x)}"
    proof -
      have "set (dropWhile (\<lambda>x. fst (snd x) \<le> p) todo) = {x \<in> ?R. p < fst (snd x)}"
        using I by (auto simp: takeWhile_sorted)
      then show ?thesis using gap pq by force
    qed
    show "sorted (map (\<lambda>x. fst (snd x)) (dropWhile (\<lambda>x. fst (snd x) \<le> p) todo))"
      using I by (simp add: sorted_dropWhile)
    show "sorted (map ekey h2)" by (rule so2)
    show "set h2 \<subseteq> entry_of ` {x \<in> ?R. fst (snd x) < q}" using sub pq by fastforce
    show "entry_of ` {x \<in> ?R. fst (snd x) < q \<and> q \<le> fst (snd (snd x))} \<subseteq> set h2"
      using sup gap pq by fastforce
  qed
  have cov: "covers v (snd x) \<longleftrightarrow> fst (snd x) \<le> p \<and> p \<le> fst (snd (snd x))"
    if "x \<in> ?R" "p \<le> v" "v < q" for x
    using gap[OF that(1)] that(2,3) by (auto simp: covers_def)
  show "narrowest rows v = None" if v: "p \<le> v" "v < q" "h2 = []"
    using sup cov v by (intro narrowest_None) fastforce
  show "narrowest rows v = Some (snd (snd (snd h)))" if v: "p \<le> v" "v < q" "h2 = h # hs"
  proof -
    from v(3) sub obtain x where x: "x \<in> ?R" "fst (snd x) \<le> p" "h = entry_of x" by auto
    have "\<not> fst (snd (snd h)) < p"
      using v(3) unfolding h2 heap_expire_def by (simp add: dropWhile_eq_Cons_conv)
    then have "x \<in> set (covering rows v)"
      using x cov[OF x(1) v(1,2)] by (simp add: covering_iff entry_of_def)
    moreover have "row_key x \<le> row_key y" if "y \<in> set (covering rows v)" for y
    proof -
      have y: "y \<in> ?R" "covers v (snd y)" using that by (simp_all add: covering_iff)
      then have "entry_of y \<in> set h2" using cov[OF y(1) v(1,2)] by (intro sup) simp_all
      then have "ekey h \<le> ekey (entry_of y)" using so2 v(3) by auto
      then show ?thesis by (simp add: x(3) ekey_def entry_of_def row_key_def)
    qed
    ultimately have "narrowest rows v = Some (snd (snd (snd x)))" by (rule narrowest_eq)
    then show ?thesis by (simp add: x(3) entry_of_def)
  qed
qed

lemma sweep_correct:
  assumes "sweep_inv rows p todo heap"
    and "sorted_wrt (<) (p # ps)"
    and "\<And>x. x \<in> set (enumerate 0 rows) \<Longrightarrow>
        (fst (snd x) \<le> p \<or> fst (snd x) \<in> set ps) \<and> (fst (snd (snd x)) < p \<or> fst (snd (snd x)) + 1 \<in> set ps)"
    and "disjoint_rows out" and "\<forall>r\<in>set out. fst (snd r) < p"
  shows "disjoint_rows (sweep (p # ps) todo heap out) \<and>
     (\<forall>v. scan_rows (sweep (p # ps) todo heap out) v =
        (if v < p then scan_rows out v else narrowest rows v))"
  using assms
proof (induction ps arbitrary: p todo heap out)
  case Nil
  have "narrowest rows v = None" if "p \<le> v" for v
    using Nil.prems(3) that by (intro narrowest_None) (force simp: covers_def)
  moreover have "scan_rows out v = None" if "p \<le> v" for v
    using Nil.prems(5) that by (intro scan_rows_out) (auto simp: covers_def)
  ultimately show ?case using Nil.prems(4) by simp
next
  case (Cons q qs)
  define h1 where "h1 = foldl heap_push heap (map entry_of (takeWhile (\<lambda>x. fst (snd x) \<le> p) todo))"
  define h2 where "h2 = heap_expire p h1"
  define out' where "out' = (case h2 of [] \<Rightarrow> out | h # _ \<Rightarrow> emit out p (q - 1) (snd (snd (snd h))))"
  have pq: "p < q" and qs: "\<And>y. y \<in> set qs \<Longrightarrow> q < y" using Cons.prems(2) by auto
  have gap: "(fst (snd x) \<le> p \<or> q \<le> fst (snd x)) \<and> (fst (snd (snd x)) < p \<or> q - 1 \<le> fst (snd (snd x)))"
    if "x \<in> set (enumerate 0 rows)" for x
    using Cons.prems(3)[OF that] qs by fastforce
  note round = sweep_round[OF Cons.prems(1) pq gap h1_def h2_def]
  have none: "scan_rows out v = None" if "p \<le> v" for v
    using Cons.prems(5) that by (intro scan_rows_out) (auto simp: covers_def)
  have o: "disjoint_rows out'" "\<forall>r\<in>set out'. fst (snd r) < q"
    "v < p \<Longrightarrow> scan_rows out' v = scan_rows out v"
    "p \<le> v \<Longrightarrow> v < q \<Longrightarrow> scan_rows out' v = narrowest rows v" for v
    using Cons.prems(4,5) pq emit_facts[OF Cons.prems(4,5) pq] round(2,3)[of v] none[of v]
    by (auto simp: out'_def split: list.splits)
  have st: "sweep (p # q # qs) todo heap out
      = sweep (q # qs) (dropWhile (\<lambda>x. fst (snd x) \<le> p) todo) h2 out'"
    by (simp add: Let_def h2_def h1_def out'_def)
  have "disjoint_rows (sweep (q # qs) (dropWhile (\<lambda>x. fst (snd x) \<le> p) todo) h2 out') \<and>
     (\<forall>v. scan_rows (sweep (q # qs) (dropWhile (\<lambda>x. fst (snd x) \<le> p) todo) h2 out') v =
        (if v < q then scan_rows out' v else narrowest rows v))"
  proof (rule Cons.IH[OF round(1) _ _ o(1,2)])
    show "sorted_wrt (<) (q # qs)" using Cons.prems(2) by simp
    show "(fst (snd x) \<le> q \<or> fst (snd x) \<in> set qs) \<and> (fst (snd (snd x)) < q \<or> fst (snd (snd x)) + 1 \<in> set qs)"
      if "x \<in> set (enumerate 0 rows)" for x
      using Cons.prems(3)[OF that] pq by auto
  qed
  then show ?case unfolding st using o(3,4) pq by auto
qed

lemma set_boundaries: "set (boundaries rows) = fst ` set rows \<union> (\<lambda>r. fst (snd r) + 1) ` set rows"
proof -
  have "set (concat (map (\<lambda>(s, e, _). [s, e + 1]) rows))
      = fst ` set rows \<union> (\<lambda>r. fst (snd r) + 1) ` set rows"
    by (induction rows) auto
  then show ?thesis by (simp only: boundaries_def set_sort set_remdups)
qed

lemma boundaries_start: "r \<in> set rows \<Longrightarrow> fst r \<in> set (boundaries rows)"
  by (simp add: set_boundaries)

lemma boundaries_Nil: "boundaries rows = [] \<Longrightarrow> rows = []"
  using boundaries_start[of "hd rows" rows] by (cases rows) auto

lemma enumerate_snd: "x \<in> set (enumerate 0 rows) \<Longrightarrow> snd x \<in> set rows"
  by (metis in_set_impl_in_set_zip2 enumerate_eq_zip set_zip_rightD prod.collapse)

lemma flatten_rows_correct:
  assumes ok: "\<forall>r\<in>set rows. fst r \<le> fst (snd r)"
  shows "disjoint_rows (flatten_rows rows) \<and> (\<forall>v. scan_rows (flatten_rows rows) v = narrowest rows v)"
proof (cases "boundaries rows")
  case Nil
  then have "rows = []" by (rule boundaries_Nil)
  then show ?thesis
    by (simp add: flatten_rows_def boundaries_def scan_rows_def narrowest_def covering_def)
next
  case (Cons p ps)
  have set: "set (p # ps) = fst ` set rows \<union> (\<lambda>r. fst (snd r) + 1) ` set rows"
    unfolding Cons[symmetric] by (rule set_boundaries)
  have sorted: "sorted_wrt (<) (p # ps)"
    unfolding Cons[symmetric] boundaries_def strict_sorted_iff by simp
  have p: "p \<le> y" if "y \<in> set (p # ps)" for y using sorted that by (auto simp: less_imp_le)
  have low: "p \<le> fst (snd x)" if "x \<in> set (enumerate 0 rows)" for x
    using p[of "fst (snd x)"] enumerate_snd[OF that] unfolding set by blast
  have inv: "sweep_inv rows p (sort_key (\<lambda>x. fst (snd x)) (enumerate 0 rows)) []"
    using low unfolding sweep_inv_def by (intro conjI) (auto, use not_le in blast)
  have bd: "(fst (snd x) \<le> p \<or> fst (snd x) \<in> set ps) \<and> (fst (snd (snd x)) < p \<or> fst (snd (snd x)) + 1 \<in> set ps)"
    if "x \<in> set (enumerate 0 rows)" for x
  proof -
    have r: "snd x \<in> set rows" using that by (rule enumerate_snd)
    then have "fst (snd x) \<in> set (p # ps)" "fst (snd (snd x)) + 1 \<in> set (p # ps)"
      unfolding set by blast+
    then show ?thesis using ok r by auto
  qed
  have "narrowest rows v = None" if "v < p" for v
    using that low by (intro narrowest_None) (force simp: covers_def)
  then show ?thesis
    using sweep_correct[OF inv sorted bd, of "[]"] Cons
    by (simp add: flatten_rows_def scan_rows_def)
qed

section \<open>Properties\<close>

text \<open>C37: Flattening overlapping ranges yields disjoint segments that answer every value with the narrowest original range covering it.\<close>

theorem sweep_keeps_answers:
  assumes "\<forall>r\<in>set rows. fst r \<le> fst (snd r)"
  shows "disjoint_rows (flatten_rows rows) \<and> (\<forall>v. scan_rows (flatten_rows rows) v = narrowest rows v)"
  using assms by (rule flatten_rows_correct)

theorem sweep_keeps_answers_witness:
  "disjoint_rows (flatten_rows [(0, 9, ''a''), (3, 5, ''b'')])
    \<and> flatten_rows [(0, 9, ''a''), (3, 5, ''b'')] = [(0, 2, ''a''), (3, 5, ''b''), (6, 9, ''a'')]"
proof -
  have "\<forall>r\<in>set [(0, 9, ''a''), (3, 5, ''b'')]. fst r \<le> fst (snd r :: int \<times> string)" by simp
  from sweep_keeps_answers[OF this] have "disjoint_rows (flatten_rows [(0, 9, ''a''), (3, 5, ''b'')])" ..
  moreover have "flatten_rows [(0, 9, ''a''), (3, 5, ''b'')] = [(0, 2, ''a''), (3, 5, ''b''), (6, 9, ''a'')]"
    by code_simp
  ultimately show ?thesis ..
qed

end
