(* ===== verification/CsvLoad.thy ===== *)
theory CsvLoad
  imports CsvTable
begin

text \<open>
  Loading a range table (\<open>app/enrich/csvdb.py\<close>): the CSV reader of the standard library as
  its state machine, the delimiter, the column layout (by header or by the shape of sampled rows),
  one row, the whole file, and lookup. The main fact is that a loaded table answers with the narrowest
  accepted row covering an address.
\<close>

section \<open>The CSV reader\<close>

datatype csv_state = StartRecord | StartField | InField | InQuoted | QuoteInQuoted

definition is_eol :: "char \<Rightarrow> bool" where
  "is_eol c \<longleftrightarrow> code c = 10 \<or> code c = 13"

definition drop_lf :: "char \<Rightarrow> string \<Rightarrow> string" where
  "drop_lf c s = (if code c = 13 \<and> s \<noteq> [] \<and> code (hd s) = 10 then tl s else s)"

lemma length_drop_lf: "length (drop_lf c s) \<le> length s"
  by (simp add: drop_lf_def)

text \<open>
  \<open>csv.reader\<close> with the default dialect and the given delimiter. A record ends at an unquoted line
  end; the end of the text closes an open record.
\<close>

function csv_go :: "char \<Rightarrow> csv_state \<Rightarrow> string \<Rightarrow> string list \<Rightarrow> string \<Rightarrow> string list list" where
  "csv_go d st f fs [] = (if st = StartRecord then [] else [fs @ [f]])"
| "csv_go d st f fs (c # cs) =
     (case st of
        StartRecord \<Rightarrow>
          if is_eol c then [] # csv_go d StartRecord [] [] (drop_lf c cs)
          else if c = CHR 34 then csv_go d InQuoted [] [] cs
          else if c = d then csv_go d StartField [] [[]] cs
          else csv_go d InField [c] [] cs
      | StartField \<Rightarrow>
          if is_eol c then (fs @ [[]]) # csv_go d StartRecord [] [] (drop_lf c cs)
          else if c = CHR 34 then csv_go d InQuoted [] fs cs
          else if c = d then csv_go d StartField [] (fs @ [[]]) cs
          else csv_go d InField [c] fs cs
      | InField \<Rightarrow>
          if is_eol c then (fs @ [f]) # csv_go d StartRecord [] [] (drop_lf c cs)
          else if c = d then csv_go d StartField [] (fs @ [f]) cs
          else csv_go d InField (f @ [c]) fs cs
      | InQuoted \<Rightarrow>
          if c = CHR 34 then csv_go d QuoteInQuoted f fs cs
          else csv_go d InQuoted (f @ [c]) fs cs
      | QuoteInQuoted \<Rightarrow>
          if c = CHR 34 then csv_go d InQuoted (f @ [c]) fs cs
          else if c = d then csv_go d StartField [] (fs @ [f]) cs
          else if is_eol c then (fs @ [f]) # csv_go d StartRecord [] [] (drop_lf c cs)
          else csv_go d InField (f @ [c]) fs cs)"
  by pat_completeness auto
termination
  by (relation "measure (\<lambda>(d, st, f, fs, s). length s)") (auto simp: length_drop_lf le_imp_less_Suc)

definition csv_rows :: "char \<Rightarrow> string \<Rightarrow> string list list" where
  "csv_rows d text = csv_go d StartRecord [] [] text"

section \<open>Delimiter and addresses\<close>

definition is_line_end :: "char \<Rightarrow> bool" where
  "is_line_end c \<longleftrightarrow> code c \<in> {10, 11, 12, 13, 28, 29, 30}"

fun split_lines_aux :: "string \<Rightarrow> string \<Rightarrow> string list" where
  "split_lines_aux acc [] = [rev acc]"
| "split_lines_aux acc (c # cs) =
     (if is_line_end c then rev acc # split_lines_aux [] cs else split_lines_aux (c # acc) cs)"

definition sniff :: "string \<Rightarrow> char" where
  "sniff text =
     (case find (\<lambda>line. strip line \<noteq> []) (split_lines_aux [] text) of
        None \<Rightarrow> CHR '',''
      | Some line \<Rightarrow>
          (let best = arg_min_list (\<lambda>d. - int (length (filter (\<lambda>c. c = d) line))) delimiters
           in if best \<in> set line then best else CHR '',''))"

definition looks_like_address :: "string \<Rightarrow> bool" where
  "looks_like_address cell =
     (let s = strip cell in
      if s = [] then False
      else if CHR ''/'' \<in> set s then ip_network s \<noteq> None
      else parse_ip (Text s) \<noteq> None)"

section \<open>The layout\<close>

record layout =
  l_cidr :: "nat option"
  l_start :: "nat option"
  l_end :: "nat option"
  l_country :: "nat option"
  l_asn :: "nat option"

text \<open>First spelling of the vocabulary that names a column; of two equal headers the last counts.\<close>

definition first_of :: "(string, nat) dict \<Rightarrow> string list \<Rightarrow> nat option" where
  "first_of index names =
     (case find (\<lambda>n. dict_get index n \<noteq> None) names of None \<Rightarrow> None | Some n \<Rightarrow> dict_get index n)"

definition header_index :: "string list \<Rightarrow> (string, nat) dict" where
  "header_index header =
     foldl (\<lambda>d (i, name). if name = [] then d else dict_set name i d) [] (enumerate 0 header)"

fun scan_cells :: "layout \<Rightarrow> (nat \<times> string) list \<Rightarrow> layout" where
  "scan_cells l [] = l"
| "scan_cells l ((i, raw) # cells) =
     (let cell = strip raw in
      if l_country l = None \<and> country_of cell \<noteq> None then scan_cells (l\<lparr>l_country := Some i\<rparr>) cells
      else if l_asn l = None \<and> isdigit cell \<and> l_country l \<noteq> Some i
        then scan_cells (l\<lparr>l_asn := Some i\<rparr>) cells
      else scan_cells l cells)"

fun scan_sample :: "nat \<Rightarrow> layout \<Rightarrow> string list list \<Rightarrow> layout" where
  "scan_sample from l [] = l"
| "scan_sample from l (row # sample) =
     (let l' = scan_cells l (drop from (enumerate 0 row))
      in if l_country l' \<noteq> None \<and> l_asn l' \<noteq> None then l' else scan_sample from l' sample)"

definition infer_positions :: "string list list \<Rightarrow> range_error + layout" where
  "infer_positions sample =
     (let row = hd sample;
          l0 = \<lparr>l_cidr = None, l_start = None, l_end = None, l_country = None, l_asn = None\<rparr>;
          start = (if CHR ''/'' \<in> set (hd row) then Some (l0\<lparr>l_cidr := Some 0\<rparr>, 1)
                   else if 2 \<le> length row \<and> looks_like_address (row ! 1)
                     then Some (l0\<lparr>l_start := Some 0, l_end := Some 1\<rparr>, 2)
                   else None)
      in (case start of None \<Rightarrow> Inl BadFirstRow
          | Some (l, from) \<Rightarrow>
              (let l' = scan_sample from l sample
               in if l_country l' = None \<and> l_asn l' = None then Inl NoValuesInSample else Inr l')))"

definition layout_of :: "string list list \<Rightarrow> range_error + (layout \<times> nat)" where
  "layout_of sample =
     (let first = (case sample of [] \<Rightarrow> [] | r # _ \<Rightarrow> r) in
      if looks_like_address (case first of [] \<Rightarrow> [] | c # _ \<Rightarrow> c)
      then sbind (infer_positions sample) (\<lambda>l. Inr (l, 1))
      else
        (let index = header_index (map norm_header first);
             l = \<lparr>l_cidr = first_of index cidr_names, l_start = first_of index start_names,
                  l_end = first_of index end_names, l_country = first_of index country_names,
                  l_asn = first_of index asn_names\<rparr>
         in if l_cidr l = None \<and> (l_start l = None \<or> l_end l = None) then Inl NoRangeColumns
            else if l_country l = None \<and> l_asn l = None
              then Inl (if dict_get index ''geoname_id'' \<noteq> None then GeonameOnly else NoValueColumns)
            else Inr (l, 2)))"

section \<open>One row\<close>

definition cell_at :: "string list \<Rightarrow> nat option \<Rightarrow> string" where
  "cell_at row i = (case i of None \<Rightarrow> [] | Some j \<Rightarrow> if length row \<le> j then [] else strip (row ! j))"

text \<open>The range of a row: version, first and last integer.\<close>

definition row_range :: "string list \<Rightarrow> layout \<Rightarrow> nat \<Rightarrow> range_error + (nat \<times> int \<times> int)" where
  "row_range row l line =
     (if l_cidr l \<noteq> None then
        (let text = cell_at row (l_cidr l) in
         if text = [] then Inl (EmptyNetwork line)
         else (case ip_network text of None \<Rightarrow> Inl (NotNetwork line)
               | Some n \<Rightarrow> Inr (net_version n, net_addr n, net_broadcast n)))
      else
        (let s = cell_at row (l_start l); e = cell_at row (l_end l) in
         if s = [] \<or> e = [] then Inl (IncompleteRange line)
         else (case parse_ip (Text s) of None \<Rightarrow> Inl (NotStartAddress line)
               | Some a \<Rightarrow>
                 (case parse_ip (Text e) of None \<Rightarrow> Inl (NotEndAddress line)
                  | Some b \<Rightarrow>
                     if ip_version a \<noteq> ip_version b then Inl (VersionMismatch line)
                     else if ip_int b < ip_int a then Inl (Reversed line)
                     else Inr (ip_version a, ip_int a, ip_int b)))))"

type_synonym payload = "string option \<times> int option"

definition parse_row ::
    "string list \<Rightarrow> layout \<Rightarrow> nat \<Rightarrow> range_error + (nat \<times> int \<times> int \<times> payload)" where
  "parse_row row l line =
     sbind (row_range row l line) (\<lambda>(v, s, e).
       sbind (if l_asn l \<noteq> None then asn_of (cell_at row (l_asn l)) line else Inr None) (\<lambda>asn.
         Inr (v, s, e,
              (if l_country l \<noteq> None then country_of (cell_at row (l_country l)) else None), asn)))"

section \<open>The file\<close>

record loading =
  ld_errors :: "range_error list"
  ld_skipped :: nat
  ld_blank :: nat
  ld_source_rows :: nat
  ld_rows4 :: "payload rows"
  ld_rows6 :: "payload rows"

definition max_errors :: nat where "max_errors = 100"
definition infer_sample_rows :: nat where "infer_sample_rows = 50"

definition start_loading :: loading where
  "start_loading = \<lparr>ld_errors = [], ld_skipped = 0, ld_blank = 0, ld_source_rows = 0,
     ld_rows4 = [], ld_rows6 = []\<rparr>"

definition blank_row :: "string list \<Rightarrow> bool" where
  "blank_row row \<longleftrightarrow> list_all (\<lambda>c. strip c = []) row"

definition load_row :: "layout \<Rightarrow> loading \<Rightarrow> nat \<times> string list \<Rightarrow> loading" where
  "load_row l st x =
     (let (line, row) = x in
      if blank_row row then st
      else (case parse_row row l line of
              Inl e \<Rightarrow>
                st\<lparr>ld_skipped := ld_skipped st + 1,
                   ld_errors := (if length (ld_errors st) < max_errors
                                 then ld_errors st @ [e] else ld_errors st)\<rparr>
            | Inr (v, s, e, p) \<Rightarrow>
                if p = (None, None) then st\<lparr>ld_blank := ld_blank st + 1\<rparr>
                else if v = 4
                  then st\<lparr>ld_rows4 := ld_rows4 st @ [(s, e, p)], ld_source_rows := ld_source_rows st + 1\<rparr>
                  else st\<lparr>ld_rows6 := ld_rows6 st @ [(s, e, p)], ld_source_rows := ld_source_rows st + 1\<rparr>))"

definition sort_family :: "payload rows \<Rightarrow> payload rows" where
  "sort_family family = sort_key (\<lambda>r. (fst r, fst (snd r))) family"

text \<open>Overlapping rows are flattened; disjoint ones are kept as they are.\<close>

definition build_family :: "payload rows \<Rightarrow> payload rows" where
  "build_family family =
     (let sorted = sort_family family
      in if count_overlaps sorted \<noteq> 0 then flatten_rows sorted else sorted)"

record range_table =
  fam4 :: "payload rows"
  fam6 :: "payload rows"
  t_errors :: "range_error list"
  t_skipped :: nat
  t_blank :: nat
  t_overlaps :: nat
  t_source_rows :: nat

definition loaded_table :: "loading \<Rightarrow> range_table" where
  "loaded_table st =
     \<lparr>fam4 = build_family (ld_rows4 st), fam6 = build_family (ld_rows6 st),
      t_errors = ld_errors st, t_skipped = ld_skipped st, t_blank = ld_blank st,
      t_overlaps = count_overlaps (sort_family (ld_rows4 st)) + count_overlaps (sort_family (ld_rows6 st)),
      t_source_rows = ld_source_rows st\<rparr>"

definition load_rows :: "layout \<Rightarrow> nat \<Rightarrow> string list list \<Rightarrow> loading" where
  "load_rows l line0 rows =
     foldl (load_row l) start_loading (enumerate line0 (if line0 = 2 then tl rows else rows))"

definition table_of_rows :: "string list list \<Rightarrow> range_error + range_table" where
  "table_of_rows rows =
     (if rows = [] then Inl EmptyFile
      else sbind (layout_of (take infer_sample_rows rows)) (\<lambda>(l, line0).
        (let st = load_rows l line0 rows in
         if ld_source_rows st = 0
         then Inl (if ld_errors st \<noteq> [] then NoUsableRows (take 3 (ld_errors st))
                   else if ld_blank st \<noteq> 0 then NoValues (ld_blank st) else NoDataRows)
         else Inr (loaded_table st))))"

text \<open>The text is what \<open>utf-8-sig\<close> decodes, so one byte-order mark is dropped.\<close>

definition loads :: "string \<Rightarrow> range_error + range_table" where
  "loads blob =
     (let text = (if prefix bom blob then drop 3 blob else blob) in
      if strip text = [] then Inl EmptyFile else table_of_rows (csv_rows (sniff text) text))"

section \<open>Lookup\<close>

text \<open>\<open>_find\<close> bisects one family; \<open>lookup\<close> parses the address first.\<close>

definition family :: "range_table \<Rightarrow> nat \<Rightarrow> payload rows" where
  "family t version = (if version = 4 then fam4 t else fam6 t)"

definition find_in :: "range_table \<Rightarrow> nat \<Rightarrow> int \<Rightarrow> payload option" where
  "find_in t version value =
     (let rows = family t version
      in search_ranges value (starts_of rows) (ends_of rows) (labels_of rows))"

definition table_lookup :: "range_table \<Rightarrow> ip_input \<Rightarrow> payload option" where
  "table_lookup t ip =
     (case parse_ip ip of None \<Rightarrow> None | Some a \<Rightarrow> find_in t (ip_version a) (ip_int a))"

definition table_len :: "range_table \<Rightarrow> nat" where
  "table_len t = length (fam4 t) + length (fam6 t)"

definition is_empty_table :: "range_table \<Rightarrow> bool" where
  "is_empty_table t \<longleftrightarrow> table_len t = 0"

section \<open>A loaded table\<close>

text \<open>The accepted rows of one family, read off the file.\<close>

definition accept_row :: "layout \<Rightarrow> bool \<Rightarrow> nat \<times> string list \<Rightarrow> payload rows" where
  "accept_row l v4 x =
     (if blank_row (snd x) then []
      else (case parse_row (snd x) l (fst x) of
              Inl _ \<Rightarrow> []
            | Inr (v, s, e, p) \<Rightarrow> if p \<noteq> (None, None) \<and> (v = 4) = v4 then [(s, e, p)] else []))"

definition data_rows :: "nat \<Rightarrow> string list list \<Rightarrow> (nat \<times> string list) list" where
  "data_rows line0 rows = enumerate line0 (if line0 = 2 then tl rows else rows)"

definition accepted :: "layout \<Rightarrow> nat \<Rightarrow> string list list \<Rightarrow> nat \<Rightarrow> payload rows" where
  "accepted l line0 rows version = concat (map (accept_row l (version = 4)) (data_rows line0 rows))"

definition refused :: "layout \<Rightarrow> (nat \<times> string list) list \<Rightarrow> nat" where
  "refused l xs = length (filter (\<lambda>x. \<not> blank_row (snd x) \<and> (\<exists>e. parse_row (snd x) l (fst x) = Inl e)) xs)"

lemma load_fold:
  "ld_rows4 (foldl (load_row l) st xs) = ld_rows4 st @ concat (map (accept_row l True) xs)"
  "ld_rows6 (foldl (load_row l) st xs) = ld_rows6 st @ concat (map (accept_row l False) xs)"
  "ld_skipped (foldl (load_row l) st xs) = ld_skipped st + refused l xs"
  by (induction xs arbitrary: st)
    (auto simp: load_row_def accept_row_def refused_def Let_def split: sum.splits prod.splits)

lemma load_count:
  "ld_skipped (foldl (load_row l) st xs) + ld_blank (foldl (load_row l) st xs)
     + ld_source_rows (foldl (load_row l) st xs)
   = ld_skipped st + ld_blank st + ld_source_rows st + length (filter (\<lambda>x. \<not> blank_row (snd x)) xs)"
  by (induction xs arbitrary: st) (auto simp: load_row_def Let_def split: sum.splits prod.splits)

lemma load_errors:
  "length (ld_errors st) = min (ld_skipped st) max_errors \<Longrightarrow>
     length (ld_errors (foldl (load_row l) st xs)) = min (ld_skipped (foldl (load_row l) st xs)) max_errors"
proof (induction xs arbitrary: st)
  case (Cons x xs)
  have "length (ld_errors (load_row l st x)) = min (ld_skipped (load_row l st x)) max_errors"
    using Cons.prems by (auto simp: load_row_def Let_def split: sum.splits prod.splits)
  then show ?case using Cons.IH by simp
qed simp

lemma load_sources:
  "ld_source_rows (foldl (load_row l) st xs) + length (ld_rows4 st) + length (ld_rows6 st)
   = ld_source_rows st + length (ld_rows4 (foldl (load_row l) st xs))
       + length (ld_rows6 (foldl (load_row l) st xs))"
proof (induction xs arbitrary: st)
  case (Cons x xs)
  show ?case using Cons.IH[of "load_row l st x"]
    by (auto simp: load_row_def Let_def split: sum.splits prod.splits)
qed simp

lemma net_nonempty: "net_addr n \<le> net_broadcast n"
  by (simp add: net_broadcast_def net_size_def)

lemma row_range_ok: "row_range row l line = Inr (v, s, e) \<Longrightarrow> s \<le> e"
  using net_nonempty
  by (auto simp: row_range_def Let_def not_less split: if_splits option.splits)

lemma parse_row_ok: "parse_row row l line = Inr (v, s, e, p) \<Longrightarrow> s \<le> e"
  using row_range_ok by (fastforce simp: parse_row_def)

lemma accepted_ok: "\<forall>r\<in>set (accepted l line0 rows version). fst r \<le> fst (snd r)"
proof -
  have "\<forall>r\<in>set (accept_row l b x). fst r \<le> fst (snd r)" for b x
    by (auto simp: accept_row_def split: sum.splits prod.splits dest!: parse_row_ok[OF sym] parse_row_ok)
  then show ?thesis by (auto simp: accepted_def)
qed

lemma no_overlaps_disjoint:
  "count_overlaps_from high rs = 0 \<Longrightarrow> \<forall>r\<in>set rs. fst r \<le> fst (snd r) \<Longrightarrow>
     disjoint_rows rs \<and> (\<forall>r\<in>set rs. high < fst r)"
proof (induction rs arbitrary: high)
  case (Cons r rs)
  obtain s e p where r: "r = (s, e, p)" by (cases r)
  from Cons.prems have h: "high < s" "count_overlaps_from (max high e) rs = 0" "s \<le> e"
    by (auto simp: r max_def split: if_splits)
  have "disjoint_rows rs \<and> (\<forall>r\<in>set rs. max high e < fst r)" using Cons.IH[OF h(2)] Cons.prems(2) by simp
  then show ?case using h by (auto simp: r disjoint_rows_Cons)
qed simp

text \<open>Disjoint rows have one candidate, which is then the narrowest.\<close>

lemma disjoint_narrowest:
  assumes d: "disjoint_rows rs"
  shows "scan_rows rs v = narrowest rs v"
proof (cases "\<exists>r\<in>set rs. covers v r")
  case False
  then show ?thesis using enumerate_snd[of _ rs] by (simp add: scan_rows_out narrowest_None)
next
  case True
  then obtain r where r: "r \<in> set rs" "covers v r" by blast
  from r(1) obtain i where "i < length rs" "rs ! i = r" by (auto simp: in_set_conv_nth)
  then have "(i, r) \<in> set (covering rs v)" using r(2) by (simp add: covering_iff in_set_enumerate_eq)
  then have ne: "covering rs v \<noteq> []" by auto
  let ?m = "arg_min_list row_key (covering rs v)"
  have "?m \<in> set (covering rs v)" using ne by (rule arg_min_list_in)
  then have "snd ?m \<in> set rs" "covers v (snd ?m)"
    using enumerate_snd[of ?m rs] by (simp_all add: covering_iff)
  then have "snd ?m = r" using r by (intro disjoint_rows_unique[OF d])
  then show ?thesis using scan_rows_Some[OF d r] ne by (simp add: narrowest_def)
qed

lemma build_family_correct:
  assumes "\<forall>r\<in>set rows. fst r \<le> fst (snd r)"
  shows "disjoint_rows (build_family rows) \<and>
     (\<forall>v. scan_rows (build_family rows) v = narrowest (sort_family rows) v)"
proof -
  have ok: "\<forall>r\<in>set (sort_family rows). fst r \<le> fst (snd r)" using assms by (simp add: sort_family_def)
  show ?thesis
  proof (cases "count_overlaps (sort_family rows) = 0")
    case True
    then have "disjoint_rows (sort_family rows)"
      using no_overlaps_disjoint ok by (auto simp: count_overlaps_def)
    then show ?thesis using True by (simp add: build_family_def disjoint_narrowest)
  next
    case False
    then show ?thesis using flatten_rows_correct[OF ok] by (simp add: build_family_def)
  qed
qed

lemma table_of_rows_loaded:
  assumes "table_of_rows rows = Inr t" and "layout_of (take infer_sample_rows rows) = Inr (l, line0)"
  shows "t = loaded_table (load_rows l line0 rows)"
  using assms by (auto simp: table_of_rows_def Let_def split: if_splits)

lemma loaded_family:
  "family (loaded_table (load_rows l line0 rows)) version = build_family (accepted l line0 rows version)"
  by (simp add: family_def loaded_table_def load_rows_def load_fold start_loading_def accepted_def
      data_rows_def)

lemma lookup_narrowest:
  assumes "table_of_rows rows = Inr t" and "layout_of (take infer_sample_rows rows) = Inr (l, line0)"
    and "parse_ip ip = Some a"
  shows "table_lookup t ip = narrowest (sort_family (accepted l line0 rows (ip_version a))) (ip_int a)"
  using assms table_of_rows_loaded[OF assms(1,2)] build_family_correct[OF accepted_ok]
  by (simp add: table_lookup_def find_in_def Let_def loaded_family search_ranges_scan)

lemma table_accounts:
  assumes "table_of_rows rows = Inr t" and "layout_of (take infer_sample_rows rows) = Inr (l, line0)"
  shows "t_skipped t + t_blank t + t_source_rows t
       = length (filter (\<lambda>x. \<not> blank_row (snd x)) (data_rows line0 rows))"
    and "length (t_errors t) = min (t_skipped t) max_errors"
    and "t_skipped t = refused l (data_rows line0 rows)"
    and "t_source_rows t
       = length (accepted l line0 rows 4) + length (accepted l line0 rows 6)"
  using load_count[of l start_loading "data_rows line0 rows"]
    load_errors[of start_loading l "data_rows line0 rows"]
    load_sources[of l start_loading "data_rows line0 rows"]
    load_fold[of l start_loading "data_rows line0 rows"]
  unfolding table_of_rows_loaded[OF assms]
  by (simp_all add: loaded_table_def load_rows_def start_loading_def data_rows_def accepted_def)

text \<open>An address that reaches the bisection is never in the IPv4-mapped block of IPv6.\<close>

lemma parse_ip_unmapped: "parse_ip ip = Some a \<Longrightarrow> ipv4_mapped a = None"
  by (auto simp: parse_ip_def Let_def ipv4_mapped_def split: option.splits ipaddr.splits if_splits)

section \<open>Properties\<close>

definition demo_rows :: "string list list" where
  "demo_rows = [[''network'', ''country''], [''10.0.0.0/8'', ''US''], [''10.1.0.0/16'', ''DE'']]"

definition demo_layout :: layout where
  "demo_layout = \<lparr>l_cidr = Some 0, l_start = None, l_end = None, l_country = Some 1, l_asn = None\<rparr>"

definition demo_table :: range_table where
  "demo_table = \<lparr>fam4 = [(167772160, 167837695, (Some ''US'', None)), (167837696, 167903231, (Some ''DE'', None)),
       (167903232, 184549375, (Some ''US'', None))],
     fam6 = [], t_errors = [], t_skipped = 0, t_blank = 0, t_overlaps = 1, t_source_rows = 2\<rparr>"

lemma demo_loaded: "table_of_rows demo_rows = Inr demo_table" by code_simp
lemma demo_layout_of: "layout_of (take infer_sample_rows demo_rows) = Inr (demo_layout, 2)" by code_simp
lemma demo_address: "parse_ip (Text ''10.1.2.3'') = Some (IPv4 167838211)" by code_simp

text \<open>A loaded range table answers a lookup with the payload of the narrowest accepted row of the address's own family that covers it, the lower start winning a tie, and with nothing when no row covers it: sorting, sweeping and bisecting are invisible.\<close>

lemma narrowest_range_answers:
  assumes "table_of_rows rows = Inr t" and "layout_of (take infer_sample_rows rows) = Inr (l, line0)"
    and "parse_ip ip = Some a"
  shows "table_lookup t ip = narrowest (sort_family (accepted l line0 rows (ip_version a))) (ip_int a)"
  using assms by (rule lookup_narrowest)

lemma narrowest_range_answers_example:
  "table_lookup demo_table (Text ''10.1.2.3'') = Some (Some ''DE'', None)
    \<and> table_lookup demo_table (Text ''10.1.2.3'')
        = narrowest (sort_family (accepted demo_layout 2 demo_rows (ip_version (IPv4 167838211))))
            (ip_int (IPv4 167838211))"
proof
  show "table_lookup demo_table (Text ''10.1.2.3'') = Some (Some ''DE'', None)" by code_simp
qed (rule narrowest_range_answers[OF demo_loaded demo_layout_of demo_address])

text \<open>Loading accounts for every row: skipped, blank and accepted rows add up to the non-blank data rows, the skipped ones are exactly those the row parser refuses, and the recorded errors are the first hundred of them.\<close>

lemma table_counts_every_row:
  assumes "table_of_rows rows = Inr t" and "layout_of (take infer_sample_rows rows) = Inr (l, line0)"
  shows "t_skipped t + t_blank t + t_source_rows t
      = length (filter (\<lambda>x. \<not> blank_row (snd x)) (data_rows line0 rows))
    \<and> t_skipped t = refused l (data_rows line0 rows)
    \<and> length (t_errors t) = min (t_skipped t) max_errors
    \<and> t_source_rows t = length (accepted l line0 rows 4) + length (accepted l line0 rows 6)"
  using table_accounts[OF assms] by blast

lemma table_counts_every_row_example:
  "t_skipped demo_table = refused demo_layout (data_rows 2 demo_rows)"
  using table_counts_every_row[OF demo_loaded demo_layout_of] by blast

text \<open>No lookup reaches a range of the IPv4-mapped block of IPv6, because an address in it is always unwrapped first, while a CIDR row in that block is filed under IPv6: such a row is accepted and counted, and never answers.\<close>

lemma mapped_network_unreachable:
  assumes "parse_ip ip = Some a"
  shows "ipv4_mapped a = None \<and> (ip_version a = 6 \<longrightarrow> \<not> (281470681743360 \<le> ip_int a \<and> ip_int a \<le> 281474976710655))"
  using parse_ip_unmapped[OF assms] by (cases a) (auto simp: ipv4_mapped_def split: if_splits)

lemma mapped_network_unreachable_example:
  "row_range [''::ffff:10.0.0.0/104'', ''US''] demo_layout 2 = Inr (6, 281470849515520, 281470866292735)
    \<and> parse_ip (Text ''::ffff:10.0.0.1'') = Some (IPv4 167772161) \<and> ipv4_mapped (IPv4 167772161) = None"
proof -
  have p: "parse_ip (Text ''::ffff:10.0.0.1'') = Some (IPv4 167772161)" by code_simp
  have "row_range [''::ffff:10.0.0.0/104'', ''US''] demo_layout 2 = Inr (6, 281470849515520, 281470866292735)"
    by code_simp
  then show ?thesis using p mapped_network_unreachable[OF p] by blast
qed

end
