(* ===== verification/NetflowTemplate.thy ===== *)
theory NetflowTemplate
  imports SIEM_Prelude "HOL-Library.Word"
begin

text \<open>
  NetFlow templates (\<open>app/receivers/netflow.py\<close>): bytes and their big-endian reading, the bounded
  LRU template cache with its counters, and the three readers that learn templates from a packet.
  Offsets and lengths are the integers the code computes; reading past the end is never reached
  because every read is behind a length check.
\<close>

section \<open>Bytes\<close>

type_synonym bytes = "8 word list"

definition blen :: "bytes \<Rightarrow> int" where
  "blen bs = int (length bs)"

definition be :: "bytes \<Rightarrow> int" where
  "be bs = foldl (\<lambda>n b. n * 256 + uint b) 0 bs"

text \<open>\<open>body[i:i+n]\<close> for non-negative bounds.\<close>

definition slice :: "bytes \<Rightarrow> int \<Rightarrow> int \<Rightarrow> bytes" where
  "slice bs i n = take (nat n) (drop (nat i) bs)"

definition u16 :: "bytes \<Rightarrow> int \<Rightarrow> int" where "u16 bs i = be (slice bs i 2)"
definition u32 :: "bytes \<Rightarrow> int \<Rightarrow> int" where "u32 bs i = be (slice bs i 4)"
definition u8 :: "bytes \<Rightarrow> int \<Rightarrow> int" where "u8 bs i = be (slice bs i 1)"

lemma be_snoc: "be (bs @ [b]) = be bs * 256 + uint b"
  by (simp add: be_def)

lemma be_nonneg [simp]: "0 \<le> be bs"
  by (induction bs rule: rev_induct) (simp_all add: be_snoc, simp add: be_def)

lemma u_nonneg [simp]: "0 \<le> u16 bs i" "0 \<le> u32 bs i" "0 \<le> u8 bs i"
  by (simp_all add: u16_def u32_def u8_def)

lemma be_bound: "be bs < 256 ^ length bs"
proof (induction bs rule: rev_induct)
  case (snoc b bs)
  have "uint b < 256" using uint_lt2p[of b] by simp
  then show ?case using snoc by (simp add: be_snoc)
qed (simp add: be_def)

text \<open>The big-endian bytes of a number, and back.\<close>

definition to_be :: "nat \<Rightarrow> int \<Rightarrow> bytes" where
  "to_be n v = map (\<lambda>i. word_of_int (v div 256 ^ i)) (rev [0 ..< n])"

lemma length_to_be [simp]: "length (to_be n v) = n"
  by (simp add: to_be_def)

lemma to_be_Suc: "to_be (Suc n) v = word_of_int (v div 256 ^ n) # to_be n v"
  by (simp add: to_be_def)

lemma be_Cons: "be (b # bs) = uint b * 256 ^ length bs + be bs"
proof (induction bs rule: rev_induct)
  case (snoc c bs)
  have "be (b # bs @ [c]) = be (b # bs) * 256 + uint c" using be_snoc[of "b # bs" c] by simp
  then show ?case using snoc by (simp add: be_snoc algebra_simps)
qed (simp add: be_def)

lemma uint_byte: "uint (word_of_int v :: 8 word) = v mod 256"
  by (simp add: uint_word_of_int)

lemma be_to_be: "be (to_be n v) = v mod 256 ^ n"
proof (induction n)
  case (Suc n)
  have "v mod (256 ^ n * 256) = 256 ^ n * (v div 256 ^ n mod 256) + v mod 256 ^ n"
    by (rule zmod_zmult2_eq) simp
  then show ?case using Suc by (simp add: to_be_Suc be_Cons uint_byte algebra_simps)
qed (simp add: to_be_def be_def)

section \<open>Templates\<close>

record tfield =
  tf_ie :: int
  tf_length :: int
  tf_enterprise :: int

record template =
  tm_id :: int
  tm_fields :: "tfield list"
  tm_length :: int
  tm_options :: bool

definition max_records :: int where "max_records = 4096"
definition max_template_fields :: int where "max_template_fields = 255"
definition max_template_len :: int where "max_template_len = 8192"
definition max_templates :: nat where "max_templates = 4096"

type_synonym template_key = "string \<times> int \<times> int"

text \<open>The \<open>OrderedDict\<close> is its association list, least recently used first.\<close>

record tcache =
  tc_maxsize :: nat
  tc_templates :: "(template_key, template) dict"
  tc_learned :: nat
  tc_evicted :: nat
  tc_malformed :: nat
  tc_unknown_drops :: nat
  tc_options_skipped :: nat
  tc_redefined :: nat

definition new_cache :: "int \<Rightarrow> tcache" where
  "new_cache maxsize =
     \<lparr>tc_maxsize = nat (max maxsize 1), tc_templates = [], tc_learned = 0, tc_evicted = 0,
      tc_malformed = 0, tc_unknown_drops = 0, tc_options_skipped = 0, tc_redefined = 0\<rparr>"

text \<open>\<open>move_to_end\<close>.\<close>

definition touch :: "'k \<Rightarrow> ('k, 'v) dict \<Rightarrow> ('k, 'v) dict" where
  "touch key d = (case dict_get d key of None \<Rightarrow> d | Some v \<Rightarrow> dict_del key d @ [(key, v)])"

text \<open>\<open>while len(d) > maxsize: popitem(last=False); evicted += 1\<close>.\<close>

fun evict :: "nat \<Rightarrow> ('k, 'v) dict \<times> nat \<Rightarrow> ('k, 'v) dict \<times> nat" where
  "evict maxsize ([], n) = ([], n)"
| "evict maxsize (p # d, n) =
     (if maxsize < length (p # d) then evict maxsize (d, Suc n) else (p # d, n))"

definition cache_put :: "template_key \<Rightarrow> template \<Rightarrow> tcache \<Rightarrow> tcache" where
  "cache_put key t c =
     (let redefined = (case dict_get (tc_templates c) key of None \<Rightarrow> False
                       | Some prev \<Rightarrow> tm_options prev \<noteq> tm_options t \<or> tm_fields prev \<noteq> tm_fields t);
          (d, evicted) = evict (tc_maxsize c) (touch key (dict_set key t (tc_templates c)), tc_evicted c)
      in c\<lparr>tc_templates := d, tc_evicted := evicted,
           tc_redefined := tc_redefined c + (if redefined then 1 else 0)\<rparr>)"

definition cache_get :: "template_key \<Rightarrow> tcache \<Rightarrow> template option \<times> tcache" where
  "cache_get key c =
     (case dict_get (tc_templates c) key of None \<Rightarrow> (None, c)
      | Some t \<Rightarrow> (Some t, c\<lparr>tc_templates := touch key (tc_templates c)\<rparr>))"

definition cache_len :: "tcache \<Rightarrow> nat" where
  "cache_len c = length (tc_templates c)"

definition add_malformed :: "tcache \<Rightarrow> tcache" where
  "add_malformed c = c\<lparr>tc_malformed := tc_malformed c + 1\<rparr>"

definition cache_learn :: "template_key \<Rightarrow> template \<Rightarrow> tcache \<Rightarrow> tcache" where
  "cache_learn key t c = (let c = cache_put key t c in c\<lparr>tc_learned := tc_learned c + 1\<rparr>)"

section \<open>Learning\<close>

definition record_len :: "tfield list \<Rightarrow> int" where
  "record_len specs =
     (if list_ex (\<lambda>f. tf_length f = 65535) specs then -1 else sum_list (map tf_length specs))"

text \<open>\<open>_read_field_specs\<close>: fields read, next offset, and whether all were there.\<close>

fun read_specs :: "bytes \<Rightarrow> bool \<Rightarrow> nat \<Rightarrow> int \<Rightarrow> tfield list \<times> int \<times> bool" where
  "read_specs body ipfix 0 i = ([], i, True)"
| "read_specs body ipfix (Suc n) i =
     (if blen body < i + 4 then ([], i, False)
      else
        (let ie = u16 body i; flen = u16 body (i + 2); i1 = i + 4 in
         if ipfix \<and> 32768 \<le> ie then
           (if blen body < i1 + 4 then ([], i1, False)
            else (let (fs, j, ok) = read_specs body ipfix n (i1 + 4)
                  in (\<lparr>tf_ie = ie mod 32768, tf_length = flen, tf_enterprise = u32 body i1\<rparr> # fs, j, ok)))
         else (let (fs, j, ok) = read_specs body ipfix n i1
               in (\<lparr>tf_ie = ie, tf_length = flen, tf_enterprise = 0\<rparr> # fs, j, ok))))"

lemma read_specs_advances: "read_specs body ipfix n i = (fs, j, ok) \<Longrightarrow> i \<le> j"
  by (induction body ipfix n i arbitrary: fs j ok rule: read_specs.induct)
    (fastforce simp: Let_def split: if_splits prod.splits)+

definition mk_template :: "int \<Rightarrow> tfield list \<Rightarrow> bool \<Rightarrow> template" where
  "mk_template tid specs options =
     \<lparr>tm_id = tid, tm_fields = specs, tm_length = record_len specs, tm_options = options\<rparr>"

function learn_templates :: "bytes \<Rightarrow> string \<Rightarrow> int \<Rightarrow> bool \<Rightarrow> int \<Rightarrow> tcache \<Rightarrow> tcache" where
  "learn_templates body exporter domain ipfix i c =
     (if blen body < i + 4 then c
      else
        (let tid = u16 body i; field_count = u16 body (i + 2) in
         if tid < 256 then c
         else if field_count = 0 \<or> max_template_fields < field_count then add_malformed c
         else
           (let (specs, j, complete) = read_specs body ipfix (nat field_count) (i + 4) in
            if \<not> complete then add_malformed c
            else if record_len specs = 0 \<or> max_template_len < record_len specs
              then learn_templates body exporter domain ipfix j (add_malformed c)
            else learn_templates body exporter domain ipfix j
                   (cache_learn (exporter, domain, tid) (mk_template tid specs False) c))))"
  by pat_completeness auto
termination
  by (relation "measure (\<lambda>(body, _, _, _, i, _). nat (blen body + 1 - i))")
    (auto dest!: read_specs_advances[OF sym])

function learn_options_v9 :: "bytes \<Rightarrow> string \<Rightarrow> int \<Rightarrow> int \<Rightarrow> tcache \<Rightarrow> tcache" where
  "learn_options_v9 body exporter domain i c =
     (if blen body < i + 6 then c
      else
        (let tid = u16 body i; scope_len = u16 body (i + 2); option_len = u16 body (i + 4);
             total = scope_len + option_len; cnt = total div 4 in
         if tid < 256 then c
         else if total = 0 \<or> scope_len mod 4 \<noteq> 0 \<or> option_len mod 4 \<noteq> 0 \<or> max_template_len < total
           then add_malformed c
         else if max_template_fields < cnt then add_malformed c
         else
           (let (specs, j, complete) = read_specs body False (nat cnt) (i + 6) in
            if \<not> complete then add_malformed c
            else learn_options_v9 body exporter domain j
                   (cache_learn (exporter, domain, tid) (mk_template tid specs True) c))))"
  by pat_completeness auto
termination
  by (relation "measure (\<lambda>(body, _, _, i, _). nat (blen body + 1 - i))")
    (auto dest!: read_specs_advances[OF sym])

function learn_options_ipfix :: "bytes \<Rightarrow> string \<Rightarrow> int \<Rightarrow> int \<Rightarrow> tcache \<Rightarrow> tcache" where
  "learn_options_ipfix body exporter domain i c =
     (if blen body < i + 6 then c
      else
        (let tid = u16 body i; field_count = u16 body (i + 2); scope_count = u16 body (i + 4) in
         if tid < 256 then c
         else if field_count = 0 \<or> max_template_fields < field_count \<or> field_count < scope_count
           then add_malformed c
         else
           (let (specs, j, complete) = read_specs body True (nat field_count) (i + 6) in
            if \<not> complete then add_malformed c
            else learn_options_ipfix body exporter domain j
                   (cache_learn (exporter, domain, tid) (mk_template tid specs True) c))))"
  by pat_completeness auto
termination
  by (relation "measure (\<lambda>(body, _, _, i, _). nat (blen body + 1 - i))")
    (auto dest!: read_specs_advances[OF sym])

declare learn_templates.simps [simp del] learn_options_v9.simps [simp del] learn_options_ipfix.simps [simp del]

section \<open>The cache as a bounded store\<close>

lemma evict_drop: "evict m (d, n) = (drop (length d - m) d, n + (length d - m))"
proof (induction m "(d, n)" arbitrary: d n rule: evict.induct)
  case (2 m p d n)
  then show ?case by (auto simp: Suc_diff_le not_less)
qed simp

lemma touch_set: "touch k (dict_set k v d) = dict_del k d @ [(k, v)]"
proof -
  have "dict_del k (dict_set k v d) = dict_del k d"
    by (induction d) (auto simp: dict_del_def dict_set_def)
  then show ?thesis by (simp add: touch_def)
qed

lemma distinct_append_del: "distinct (map fst d) \<Longrightarrow> distinct (map fst (dict_del k d @ [(k, v)]))"
  by (induction d) (auto simp: dict_del_filter)

lemma distinct_touch: "distinct (map fst d) \<Longrightarrow> distinct (map fst (touch k d))"
  using distinct_append_del[of d k] by (auto simp: touch_def split: option.splits)

lemma length_touch: "dict_get d k = Some v \<Longrightarrow> length (touch k d) \<le> length d"
  using length_filter_less[of "(k, v)" d "\<lambda>p. fst p \<noteq> k"] dict_get_SomeD[of d k v]
  by (simp add: touch_def dict_del_filter Suc_le_eq)

text \<open>What \<open>put\<close> does to the entries: the key becomes the newest, and the oldest are dropped.\<close>

definition lru_put :: "nat \<Rightarrow> 'k \<Rightarrow> 'v \<Rightarrow> ('k, 'v) dict \<Rightarrow> ('k, 'v) dict" where
  "lru_put cap k v d = (let e = dict_del k d @ [(k, v)] in drop (length e - cap) e)"

lemma lru_put_split:
  "1 \<le> cap \<Longrightarrow> lru_put cap k v d = drop (Suc (length (dict_del k d)) - cap) (dict_del k d) @ [(k, v)]"
  by (simp add: lru_put_def)

lemma length_lru_put: "length (lru_put cap k v d) \<le> cap"
  by (simp add: lru_put_def)

lemma distinct_lru_put: "distinct (map fst d) \<Longrightarrow> distinct (map fst (lru_put cap k v d))"
  using distinct_append_del[of d k v] unfolding lru_put_def Let_def drop_map[symmetric]
  by (rule distinct_drop)

lemma set_lru_put: "set (lru_put cap k v d) \<subseteq> insert (k, v) (set d)"
  by (auto simp: lru_put_def Let_def dict_del_filter simp del: drop_append dest!: in_set_dropD)

lemma set_touch: "set (touch k d) \<subseteq> set d"
  by (auto simp: touch_def dict_del_filter split: option.splits dest: dict_get_SomeD)

lemma get_lru_put: "1 \<le> cap \<Longrightarrow> distinct (map fst d) \<Longrightarrow> dict_get (lru_put cap k v d) k = Some v"
  by (simp add: dict_get_Some_iff distinct_lru_put) (simp add: lru_put_split)

lemma get_lru_put_other:
  "distinct (map fst d) \<Longrightarrow> j \<noteq> k \<Longrightarrow> dict_get (lru_put cap k v d) j = Some w \<Longrightarrow> dict_get d j = Some w"
proof -
  assume d: "distinct (map fst d)" and ne: "j \<noteq> k" and g: "dict_get (lru_put cap k v d) j = Some w"
  have "(j, w) \<in> set (dict_del k d @ [(k, v)])"
    using dict_get_SomeD[OF g] unfolding lru_put_def Let_def by (rule in_set_dropD)
  then show ?thesis using d ne by (auto simp: dict_get_Some_iff dict_del_filter)
qed

lemma cache_put_templates [simp]:
  "tc_templates (cache_put key t c) = lru_put (tc_maxsize c) key t (tc_templates c)"
  by (simp add: cache_put_def evict_drop touch_set lru_put_def Let_def)

lemma cache_put_fields [simp]:
  "tc_maxsize (cache_put key t c) = tc_maxsize c" "tc_malformed (cache_put key t c) = tc_malformed c"
  "tc_learned (cache_put key t c) = tc_learned c"
  "tc_unknown_drops (cache_put key t c) = tc_unknown_drops c"
  by (simp_all add: cache_put_def evict_drop Let_def)

definition cache_ok :: "tcache \<Rightarrow> bool" where
  "cache_ok c \<longleftrightarrow> 1 \<le> tc_maxsize c \<and> length (tc_templates c) \<le> tc_maxsize c \<and>
     distinct (map fst (tc_templates c))"

lemma cache_ok_put: "cache_ok c \<Longrightarrow> cache_ok (cache_put key t c)"
  by (simp add: cache_ok_def length_lru_put distinct_lru_put)

interpretation tcache: bounded_cache cache_ok "\<lambda>c. dict_get (tc_templates c)" cache_put cache_len tc_maxsize
proof
  fix c :: tcache and k j :: template_key and t w
  show "cache_ok c \<Longrightarrow> cache_ok (cache_put k t c)" by (rule cache_ok_put)
  show "cache_ok c \<Longrightarrow> cache_len c \<le> tc_maxsize c" by (simp add: cache_ok_def cache_len_def)
  show "tc_maxsize (cache_put k t c) = tc_maxsize c" by simp
  show "cache_ok c \<Longrightarrow> dict_get (tc_templates (cache_put k t c)) k = Some t"
    by (simp add: cache_ok_def get_lru_put)
  show "cache_ok c \<Longrightarrow> j \<noteq> k \<Longrightarrow> dict_get (tc_templates (cache_put k t c)) j = Some w \<Longrightarrow>
      dict_get (tc_templates c) j = Some w"
    using get_lru_put_other[of "tc_templates c" j k] by (simp add: cache_ok_def)
qed

lemma cache_ok_get: "cache_ok c \<Longrightarrow> cache_ok (snd (cache_get key c))"
  using length_touch[of "tc_templates c" key] distinct_touch[of "tc_templates c" key]
  by (auto simp: cache_get_def cache_ok_def split: option.splits)

section \<open>Recency\<close>

text \<open>
  A key that was used survives until as many other keys as the cache holds have been put: with \<open>ys\<close>
  the entries newer than it, only keys put since then are in \<open>ys\<close>.
\<close>

definition newer :: "'k \<Rightarrow> ('k, 'v) dict \<Rightarrow> 'k set" where
  "newer k d = fst ` set (takeWhile (\<lambda>p. fst p \<noteq> k) (rev d))"

lemma lru_put_newer:
  assumes "1 \<le> cap" "distinct (map fst d)" "dict_get d k = Some v" "j \<noteq> k"
    and "card (insert j (newer k d)) < cap"
  shows "dict_get (lru_put cap j w d) k = Some v \<and> newer k (lru_put cap j w d) = insert j (newer k d)"
proof -
  from assms(3) have "(k, v) \<in> set d" by (rule dict_get_SomeD)
  then obtain xs ys where d: "d = xs @ (k, v) # ys" by (meson split_list)
  with assms(2) have ks: "k \<notin> fst ` set xs" "k \<notin> fst ` set ys" "distinct (map fst ys)" by auto
  have nw: "newer k (as @ (k, v) # bs) = fst ` set bs" if "k \<notin> fst ` set bs" for as bs
  proof -
    have "takeWhile (\<lambda>p. fst p \<noteq> k) (rev bs @ (k, v) # rev as) = rev bs"
      using that by (subst takeWhile_append2) auto
    then show ?thesis by (simp add: newer_def)
  qed
  define xs' where "xs' = dict_del j xs"
  define ys' where "ys' = dict_del j ys @ [(j, w)]"
  have del: "dict_del j d @ [(j, w)] = xs' @ (k, v) # ys'"
    using assms(4) by (simp add: d xs'_def ys'_def dict_del_filter)
  have ys: "fst ` set ys' = insert j (newer k d)" "k \<notin> fst ` set ys'"
    using ks(2) assms(4) by (auto simp: d nw ys'_def dict_del_filter)
  have "distinct (map fst ys')" unfolding ys'_def by (rule distinct_append_del[OF ks(3)])
  then have "length ys' = card (fst ` set ys')" using distinct_card by fastforce
  then have len: "Suc (length ys') \<le> cap" using assms(5) by (simp add: ys)
  then have "length (dict_del j d @ [(j, w)]) - cap \<le> length xs'" by (simp add: del)
  then have "lru_put cap j w d = drop (length (dict_del j d @ [(j, w)]) - cap) xs' @ (k, v) # ys'"
    unfolding lru_put_def Let_def by (simp only: del) simp
  then obtain as where e: "lru_put cap j w d = as @ (k, v) # ys'" by blast
  then have "(k, v) \<in> set (lru_put cap j w d)" by simp
  then have "dict_get (lru_put cap j w d) k = Some v"
    using dict_get_Some_iff[OF distinct_lru_put[OF assms(2)]] by fast
  moreover have "newer k (lru_put cap j w d) = insert j (newer k d)" unfolding e nw[OF ys(2)] by (rule ys)
  ultimately show ?thesis ..
qed

lemma lru_keeps:
  assumes "1 \<le> cap" "distinct (map fst d)" "dict_get d k = Some v"
    and "k \<notin> fst ` set kvs" "card (newer k d \<union> fst ` set kvs) < cap"
  shows "dict_get (foldl (\<lambda>d kv. lru_put cap (fst kv) (snd kv) d) d kvs) k = Some v"
  using assms(2-)
proof (induction kvs arbitrary: d)
  case (Cons kv kvs)
  have fin: "finite (newer k d)" by (simp add: newer_def)
  have "card (insert (fst kv) (newer k d)) \<le> card (newer k d \<union> fst ` set (kv # kvs))"
    by (rule card_mono) (auto simp: fin)
  then have c: "card (insert (fst kv) (newer k d)) < cap" using Cons.prems(4) by simp
  note st = lru_put_newer[OF assms(1) Cons.prems(1,2) _ c, of "snd kv"]
  show ?case using Cons.IH[OF distinct_lru_put[OF Cons.prems(1)]] st Cons.prems by auto
qed simp

section \<open>What is learned is usable\<close>

text \<open>A data template has fields, and its record is variable or between 1 and 8192 bytes long.\<close>

definition template_sane :: "template \<Rightarrow> bool" where
  "template_sane t \<longleftrightarrow>
     (\<forall>f\<in>set (tm_fields t). 0 \<le> tf_length f) \<and> tm_length t = record_len (tm_fields t) \<and>
     (\<not> tm_options t \<longrightarrow> tm_length t \<noteq> 0 \<and> tm_length t \<le> max_template_len)"

lemma read_specs_lengths:
  "read_specs body ipfix n i = (fs, j, ok) \<Longrightarrow> \<forall>f\<in>set fs. 0 \<le> tf_length f"
  by (induction body ipfix n i arbitrary: fs j ok rule: read_specs.induct)
    (fastforce simp: Let_def split: if_splits prod.splits)+

lemma read_specs_count: "read_specs body ipfix n i = (fs, j, True) \<Longrightarrow> length fs = n"
  by (induction body ipfix n i arbitrary: fs j rule: read_specs.induct)
    (fastforce simp: Let_def split: if_splits prod.splits)+

lemma sane_mk:
  assumes "read_specs body ipfix n i = (fs, j, ok)" "options \<or> record_len fs \<noteq> 0 \<and> record_len fs \<le> max_template_len"
  shows "template_sane (mk_template tid fs options)"
  using assms(2) read_specs_lengths[OF assms(1)] by (auto simp: template_sane_def mk_template_def)

lemma learn_templates_closed:
  assumes "\<And>c. P c \<Longrightarrow> P (add_malformed c)"
    and "\<And>c key t. P c \<Longrightarrow> template_sane t \<Longrightarrow> P (cache_learn key t c)"
  shows "P c \<Longrightarrow> P (learn_templates body exporter domain ipfix i c)"
proof (induction body exporter domain ipfix i c rule: learn_templates.induct)
  case (1 body exporter domain ipfix i c)
  show ?case
    using 1 assms
    by (subst learn_templates.simps) (auto simp: Let_def sane_mk split: prod.split)
qed

lemma learn_options_v9_closed:
  assumes "\<And>c. P c \<Longrightarrow> P (add_malformed c)"
    and "\<And>c key t. P c \<Longrightarrow> template_sane t \<Longrightarrow> P (cache_learn key t c)"
  shows "P c \<Longrightarrow> P (learn_options_v9 body exporter domain i c)"
proof (induction body exporter domain i c rule: learn_options_v9.induct)
  case (1 body exporter domain i c)
  show ?case
    using 1 assms
    by (subst learn_options_v9.simps) (auto simp: Let_def sane_mk split: prod.split)
qed

lemma learn_options_ipfix_closed:
  assumes "\<And>c. P c \<Longrightarrow> P (add_malformed c)"
    and "\<And>c key t. P c \<Longrightarrow> template_sane t \<Longrightarrow> P (cache_learn key t c)"
  shows "P c \<Longrightarrow> P (learn_options_ipfix body exporter domain i c)"
proof (induction body exporter domain i c rule: learn_options_ipfix.induct)
  case (1 body exporter domain i c)
  show ?case
    using 1 assms
    by (subst learn_options_ipfix.simps) (auto simp: Let_def sane_mk split: prod.split)
qed

definition cache_inv :: "tcache \<Rightarrow> bool" where
  "cache_inv c \<longleftrightarrow> cache_ok c \<and> (\<forall>p\<in>set (tc_templates c). template_sane (snd p))"

lemma cache_inv_malformed: "cache_inv c \<Longrightarrow> cache_inv (add_malformed c)"
  by (simp add: cache_inv_def cache_ok_def add_malformed_def)

lemma cache_learn_fields [simp]:
  "tc_templates (cache_learn key t c) = tc_templates (cache_put key t c)"
  "tc_maxsize (cache_learn key t c) = tc_maxsize c"
  by (simp_all add: cache_learn_def Let_def)

lemma cache_inv_learn: "cache_inv c \<Longrightarrow> template_sane t \<Longrightarrow> cache_inv (cache_learn key t c)"
proof -
  assume inv: "cache_inv c" and t: "template_sane t"
  have ok: "cache_ok (cache_learn key t c)"
    using cache_ok_put[of c key t] inv by (simp add: cache_inv_def cache_ok_def)
  have "set (lru_put (tc_maxsize c) key t (tc_templates c)) \<subseteq> insert (key, t) (set (tc_templates c))"
    by (rule set_lru_put)
  then show ?thesis using ok inv t by (auto simp: cache_inv_def)
qed

lemma cache_inv_get: "cache_inv c \<Longrightarrow> cache_inv (snd (cache_get key c))"
  using cache_ok_get[of c key] set_touch[of key "tc_templates c"]
  by (auto simp: cache_inv_def cache_get_def split: option.splits)

lemma cache_inv_new: "cache_inv (new_cache n)"
  by (simp add: cache_inv_def cache_ok_def new_cache_def)

lemmas learn_closed = learn_templates_closed learn_options_v9_closed learn_options_ipfix_closed

lemma learn_maxsize [simp]:
  "tc_maxsize (learn_templates body exporter domain ipfix i c) = tc_maxsize c"
  "tc_maxsize (learn_options_v9 body exporter domain i c) = tc_maxsize c"
  "tc_maxsize (learn_options_ipfix body exporter domain i c) = tc_maxsize c"
  by (rule learn_closed[of "\<lambda>c'. tc_maxsize c' = tc_maxsize c"]; simp add: add_malformed_def)+

lemma learn_inv:
  assumes "cache_inv c"
  shows "cache_inv (learn_templates body exporter domain ipfix i c)"
    and "cache_inv (learn_options_v9 body exporter domain i c)"
    and "cache_inv (learn_options_ipfix body exporter domain i c)"
  using learn_closed[of cache_inv, OF cache_inv_malformed cache_inv_learn _] assms by blast+

section \<open>Properties\<close>

text \<open>A template in use is not evicted early: it survives the learning of other templates as long as the keys newer than it, old and new together, stay below the size of the cache.\<close>

lemma recently_used_template_stays:
  assumes "cache_ok c" and "dict_get (tc_templates c) key = Some t" and "key \<notin> fst ` set kvs"
    and "card (newer key (tc_templates c) \<union> fst ` set kvs) < tc_maxsize c"
  shows "dict_get (tc_templates (tcache.stores kvs c)) key = Some t"
proof -
  have "tc_templates (foldl (\<lambda>c kv. cache_put (fst kv) (snd kv) c) c kvs)
      = foldl (\<lambda>d kv. lru_put (tc_maxsize c) (fst kv) (snd kv) d) (tc_templates c) kvs"
    by (induction kvs arbitrary: c) simp_all
  then show ?thesis using lru_keeps[of "tc_maxsize c" "tc_templates c" key t kvs] assms
    by (simp add: tcache.stores_def cache_ok_def)
qed

lemma recently_used_template_stays_example:
  "dict_get (tc_templates (tcache.stores [((''b'', 0, 256), mk_template 256 [] True)]
      (cache_put (''a'', 0, 256) (mk_template 256 [] True) (new_cache 2)))) (''a'', 0, 256)
    = Some (mk_template 256 [] True)"
proof -
  let ?c = "cache_put (''a'', 0, 256) (mk_template 256 [] True) (new_cache 2)"
  have ok: "cache_ok ?c" by (rule cache_ok_put) (simp add: cache_ok_def new_cache_def)
  have l: "tc_templates ?c = [((''a'', 0, 256), mk_template 256 [] True)]"
    by (simp add: lru_put_def new_cache_def dict_del_filter)
  have n: "newer (''a'', 0, 256) (tc_templates ?c) = {}" by (simp only: l) (simp add: newer_def)
  have k: "card (newer (''a'', 0, 256) (tc_templates ?c) \<union> fst ` set [((''b'', 0, 256), mk_template 256 [] True)])
      < tc_maxsize ?c" unfolding n by (simp add: new_cache_def)
  have g: "dict_get (tc_templates ?c) (''a'', 0, 256) = Some (mk_template 256 [] True)"
    unfolding l by (simp add: dict_get_def)
  show ?thesis by (rule recently_used_template_stays[OF ok g _ k]) simp
qed

end
