(* ===== verification/MmdbDecode.thy ===== *)
theory MmdbDecode
  imports Complex_Main NetflowTemplate
begin

unbundle bit_operations_syntax

text \<open>
  The data section of a MaxMind database (\<open>app/enrich/mmdb.py\<close>): one field at an offset, with its pointers,
  containers and budget.

  A file is its bytes. \<open>MmdbError\<close> is the reader's own exception; whatever else Python would raise is \<open>Raised\<close>:
  an index past the end, or a container used as a key. The depth of the code counts up to 64; here the
  first argument of \<open>mm_decode\<close> counts the levels that are left, so level 0 is the depth the code refuses.
  Floating-point payloads stay bytes; only their comparison as keys reads their value.
\<close>

section \<open>Values\<close>

datatype mm_error = MmdbError | Raised py_error

datatype mval =
    MStr string
  | MInt int
  | MDouble bytes
  | MFloat bytes
  | MBytes bytes
  | MBool bool
  | MArray "mval list"
  | MMap "(mval \<times> mval) list"

text \<open>The number an IEEE 754 payload stands for; \<^const>\<open>None\<close> is not a number.\<close>

datatype number = Finite rat | Infinite bool

definition ieee :: "nat \<Rightarrow> nat \<Rightarrow> bytes \<Rightarrow> number option" where
  "ieee ebits mbits bs =
     (let n = be bs; m = n mod 2 ^ mbits; e = n div 2 ^ mbits mod 2 ^ ebits; neg = 2 ^ (mbits + ebits) \<le> n;
          s = (if neg then -1 else 1 :: rat); bias = 2 ^ (ebits - 1) - 1 + int mbits;
          scale = (\<lambda>x k. if 0 \<le> k then x * 2 ^ nat k else x / 2 ^ nat (- k)) in
      if e = 2 ^ ebits - 1 then (if m = 0 then Some (Infinite neg) else None)
      else if e = 0 then Some (Finite (s * scale (of_int m) (1 - bias)))
      else Some (Finite (s * scale (of_int (2 ^ mbits + m)) (e - bias))))"

text \<open>What a value is as a key of a dictionary: numbers and truth values compare by value.\<close>

datatype mkey = KText string | KBytes bytes | KNumber number | KNaN | KUnhashable

fun key_of :: "mval \<Rightarrow> mkey" where
  "key_of (MStr s) = KText s"
| "key_of (MInt i) = KNumber (Finite (of_int i))"
| "key_of (MDouble bs) = (case ieee 11 52 bs of None \<Rightarrow> KNaN | Some x \<Rightarrow> KNumber x)"
| "key_of (MFloat bs) = (case ieee 8 23 bs of None \<Rightarrow> KNaN | Some x \<Rightarrow> KNumber x)"
| "key_of (MBytes bs) = KBytes bs"
| "key_of (MBool b) = KNumber (Finite (if b then 1 else 0))"
| "key_of (MArray _) = KUnhashable"
| "key_of (MMap _) = KUnhashable"

text \<open>\<open>out[key] = value\<close>: an equal key keeps its place and its spelling; a NaN equals nothing.\<close>

fun mm_put :: "mval \<Rightarrow> mval \<Rightarrow> (mval \<times> mval) list \<Rightarrow> (mval \<times> mval) list" where
  "mm_put k v [] = [(k, v)]"
| "mm_put k v ((k', v') # d) =
     (if key_of k \<noteq> KNaN \<and> key_of k' = key_of k then (k', v) # d else (k', v') # mm_put k v d)"

definition mm_get :: "(mval \<times> mval) list \<Rightarrow> string \<Rightarrow> mval option" where
  "mm_get d name = map_option snd (find (\<lambda>(k, _). key_of k = KText name) d)"

section \<open>Bytes\<close>

text \<open>Strict UTF-8: no overlong form, no surrogate, nothing past U+10FFFF.\<close>

definition in_range :: "int \<Rightarrow> int \<Rightarrow> 8 word \<Rightarrow> bool" where
  "in_range lo hi b \<longleftrightarrow> lo \<le> uint b \<and> uint b \<le> hi"

abbreviation cont :: "8 word \<Rightarrow> bool" where
  "cont \<equiv> in_range 128 191"

fun valid_utf8 :: "bytes \<Rightarrow> bool" where
  "valid_utf8 [] = True"
| "valid_utf8 (a # r) =
     (if uint a < 128 then valid_utf8 r
      else case r of
        [] \<Rightarrow> False
      | b # r1 \<Rightarrow>
          if in_range 194 223 a then cont b \<and> valid_utf8 r1
          else case r1 of
            [] \<Rightarrow> False
          | c # r2 \<Rightarrow>
              if uint a = 224 then in_range 160 191 b \<and> cont c \<and> valid_utf8 r2
              else if uint a = 237 then in_range 128 159 b \<and> cont c \<and> valid_utf8 r2
              else if in_range 225 239 a then cont b \<and> cont c \<and> valid_utf8 r2
              else case r2 of
                [] \<Rightarrow> False
              | d # r3 \<Rightarrow>
                  (if uint a = 240 then in_range 144 191 b
                   else if in_range 241 243 a then cont b
                   else uint a = 244 \<and> in_range 128 143 b) \<and> cont c \<and> cont d \<and> valid_utf8 r3)"

definition text_of :: "bytes \<Rightarrow> string" where
  "text_of bs = map (\<lambda>b. char_of (uint b)) bs"

text \<open>\<open>buf[i]\<close>.\<close>

definition byte_at :: "bytes \<Rightarrow> int \<Rightarrow> mm_error + int" where
  "byte_at buf i = (if 0 \<le> i \<and> i < blen buf then Inr (uint (buf ! nat i)) else Inl (Raised IndexError))"

definition ensure :: "bool \<Rightarrow> mm_error + unit" where
  "ensure b = (if b then Inr () else Inl MmdbError)"

section \<open>Fields\<close>

definition max_fields :: int where "max_fields = 100000"
definition max_levels :: nat where "max_levels = 65"

definition t_pointer :: int where "t_pointer = 1"
definition t_utf8 :: int where "t_utf8 = 2"
definition t_double :: int where "t_double = 3"
definition t_bytes :: int where "t_bytes = 4"
definition t_uint16 :: int where "t_uint16 = 5"
definition t_uint32 :: int where "t_uint32 = 6"
definition t_map :: int where "t_map = 7"
definition t_int32 :: int where "t_int32 = 8"
definition t_uint64 :: int where "t_uint64 = 9"
definition t_uint128 :: int where "t_uint128 = 10"
definition t_array :: int where "t_array = 11"
definition t_bool :: int where "t_bool = 14"
definition t_float :: int where "t_float = 15"

lemmas type_numbers = t_pointer_def t_utf8_def t_double_def t_bytes_def t_uint16_def t_uint32_def t_map_def
  t_int32_def t_uint64_def t_uint128_def t_array_def t_bool_def t_float_def

definition uint_limit :: "int \<Rightarrow> int option" where
  "uint_limit t =
     (if t = t_uint16 then Some 2 else if t = t_uint32 then Some 4 else if t = t_uint64 then Some 8
      else if t = t_uint128 then Some 16 else None)"

definition size_of :: "bytes \<Rightarrow> int \<Rightarrow> int \<Rightarrow> int \<Rightarrow> int \<Rightarrow> mm_error + int \<times> int" where
  "size_of buf ctrl off t limit =
     (let sz = ctrl AND 31 in
      if t = t_pointer \<or> sz < 29 then Inr (sz, off)
      else if sz = 29 then
        sbind (ensure (off + 1 \<le> limit)) (\<lambda>_. sbind (byte_at buf off) (\<lambda>b. Inr (29 + b, off + 1)))
      else if sz = 30 then sbind (ensure (off + 2 \<le> limit)) (\<lambda>_. Inr (285 + be (slice buf off 2), off + 2))
      else sbind (ensure (off + 3 \<le> limit)) (\<lambda>_. Inr (65821 + be (slice buf off 3), off + 3)))"

definition mm_pointer :: "bytes \<Rightarrow> int \<Rightarrow> int \<Rightarrow> int \<Rightarrow> int \<Rightarrow> mm_error + int \<times> int" where
  "mm_pointer buf sz off base limit =
     (let cls = drop_bit 3 sz AND 3; width = cls + 1 in
      sbind (ensure (off + width \<le> limit)) (\<lambda>_.
        let raw = be (slice buf off width);
            value = (if cls = 0 then push_bit 8 (sz AND 7) OR raw
                     else if cls = 1 then (push_bit 16 (sz AND 7) OR raw) + 2048
                     else if cls = 2 then (push_bit 24 (sz AND 7) OR raw) + 526336
                     else raw)
        in Inr (base + value, off + width)))"

text \<open>The fields with a byte payload.\<close>

definition mm_payload :: "bytes \<Rightarrow> int \<Rightarrow> int \<Rightarrow> int \<Rightarrow> mm_error + mval" where
  "mm_payload buf t sz off =
     (let raw = slice buf off sz in
      if t = t_utf8 then (if valid_utf8 raw then Inr (MStr (text_of raw)) else Inl MmdbError)
      else case uint_limit t of
        Some most \<Rightarrow> if most < sz then Inl MmdbError else Inr (MInt (be raw))
      | None \<Rightarrow>
          if t = t_int32 then
            (if 4 < sz then Inl MmdbError
             else Inr (MInt (if 2 ^ 31 \<le> be raw then be raw - 2 ^ 32 else be raw)))
          else if t = t_double then (if sz \<noteq> 8 then Inl MmdbError else Inr (MDouble raw))
          else if t = t_float then (if sz \<noteq> 4 then Inl MmdbError else Inr (MFloat raw))
          else if t = t_bytes then Inr (MBytes raw)
          else Inl MmdbError)"

text \<open>A reading: from an offset and a budget to a value, the offset after it and what is left.\<close>

type_synonym 'a reading = "int \<Rightarrow> int \<Rightarrow> mm_error + 'a \<times> int \<times> int"

fun read_array :: "mval reading \<Rightarrow> nat \<Rightarrow> mval list reading" where
  "read_array dec 0 off left = Inr ([], off, left)"
| "read_array dec (Suc n) off left =
     sbind (dec off left) (\<lambda>(v, off1, left1).
     sbind (read_array dec n off1 left1) (\<lambda>(vs, off2, left2). Inr (v # vs, off2, left2)))"

fun read_map :: "mval reading \<Rightarrow> nat \<Rightarrow> (mval \<times> mval) list \<Rightarrow> (mval \<times> mval) list reading" where
  "read_map dec 0 out off left = Inr (out, off, left)"
| "read_map dec (Suc n) out off left =
     sbind (dec off left) (\<lambda>(k, off1, left1).
     sbind (dec off1 left1) (\<lambda>(v, off2, left2).
       if key_of k = KUnhashable then Inl (Raised TypeError)
       else read_map dec n (mm_put k v out) off2 left2))"

definition container :: "mval reading \<Rightarrow> int \<Rightarrow> int \<Rightarrow> int \<Rightarrow> mval reading" where
  "container dec t sz limit off left =
     sbind (ensure ((if t = t_map then sz * 2 else sz) \<le> limit - off)) (\<lambda>_.
       if t = t_array
       then sbind (read_array dec (nat sz) off left) (\<lambda>(vs, off', left'). Inr (MArray vs, off', left'))
       else sbind (read_map dec (nat sz) [] off left) (\<lambda>(d, off', left'). Inr (MMap d, off', left')))"

text \<open>The control byte, with the extended type: the type, the size and the offset after them.\<close>

definition control :: "bytes \<Rightarrow> int \<Rightarrow> int \<Rightarrow> mm_error + int \<times> int \<times> int" where
  "control buf limit off =
     sbind (byte_at buf off) (\<lambda>ctrl.
     sbind (if drop_bit 5 ctrl = 0
            then sbind (ensure (off + 1 < limit)) (\<lambda>_. sbind (byte_at buf (off + 1)) (\<lambda>b.
                 sbind (ensure (8 \<le> b + 7)) (\<lambda>_. Inr (b + 7, off + 2))))
            else Inr (drop_bit 5 ctrl, off + 1)) (\<lambda>(t, off1).
     sbind (size_of buf ctrl off1 t limit) (\<lambda>(sz, off2). Inr (t, sz, off2))))"

fun mm_decode :: "nat \<Rightarrow> bytes \<Rightarrow> int \<Rightarrow> int \<Rightarrow> bool \<Rightarrow> mval reading" where
  "mm_decode 0 buf base limit in_pointer off left = Inl MmdbError"
| "mm_decode (Suc k) buf base limit in_pointer off left =
     sbind (ensure (0 \<le> left - 1)) (\<lambda>_.
     sbind (ensure (base \<le> off \<and> off < limit)) (\<lambda>_.
     sbind (control buf limit off) (\<lambda>(t, sz, off1).
       if t = t_pointer then
         sbind (mm_pointer buf sz off1 base limit) (\<lambda>(target, off2).
         sbind (ensure (\<not> in_pointer)) (\<lambda>_.
         sbind (ensure (base \<le> target \<and> target < limit)) (\<lambda>_.
         sbind (mm_decode k buf base limit True target (left - 1)) (\<lambda>(v, _, left').
           Inr (v, off2, left')))))
       else if t = t_bool then Inr (MBool (sz \<noteq> 0), off1, left - 1)
       else if t = t_map \<or> t = t_array then container (mm_decode k buf base limit False) t sz limit off1 (left - 1)
       else sbind (ensure (off1 + sz \<le> limit)) (\<lambda>_.
            sbind (mm_payload buf t sz off1) (\<lambda>v. Inr (v, off1 + sz, left - 1))))))"

section \<open>What one reading does\<close>

text \<open>The number of values in a value, keys included.\<close>

fun vals :: "mval \<Rightarrow> nat" where
  "vals (MArray vs) = Suc (sum_list (map vals vs))"
| "vals (MMap d) = Suc (sum_list (map (\<lambda>(k, v). vals k + vals v) d))"
| "vals _ = 1"

definition entry_vals :: "(mval \<times> mval) list \<Rightarrow> nat" where
  "entry_vals d = sum_list (map (\<lambda>(k, v). vals k + vals v) d)"

text \<open>
  A good reading fails by the reader's own exception or the one for an unhashable key; it moves forward, not
  past the limit, and pays for every value it returns.
\<close>

definition paid :: "int \<Rightarrow> ('a \<Rightarrow> nat) \<Rightarrow> int \<Rightarrow> int \<Rightarrow> mm_error + 'a \<times> int \<times> int \<Rightarrow> bool" where
  "paid limit cost off left r =
     (case r of
        Inl e \<Rightarrow> e = MmdbError \<or> e = Raised TypeError
      | Inr (v, off', left') \<Rightarrow> off \<le> off' \<and> off' \<le> limit \<and> 0 \<le> left' \<and> int (cost v) \<le> left - left')"

definition good_reading :: "int \<Rightarrow> mval reading \<Rightarrow> bool" where
  "good_reading limit dec \<longleftrightarrow> (\<forall>off left. paid limit vals (off + 1) left (dec off left))"

lemma paid_ensure:
  "(b \<Longrightarrow> paid limit cost off left r) \<Longrightarrow> paid limit cost off left (sbind (ensure b) (\<lambda>_. r))"
  by (simp add: ensure_def paid_def)

lemma paid_Inl [simp]: "paid limit cost off left (Inl MmdbError)" "paid limit cost off left (Inl (Raised TypeError))"
  by (simp_all add: paid_def)

lemma paid_bind:
  assumes "paid limit cost off left m"
    and "\<And>v off' left'. off \<le> off' \<Longrightarrow> off' \<le> limit \<Longrightarrow> 0 \<le> left' \<Longrightarrow> int (cost v) \<le> left - left' \<Longrightarrow>
           paid limit cost' off2 left2 (f (v, off', left'))"
  shows "paid limit cost' off2 left2 (sbind m f)"
proof (cases m)
  case (Inl e)
  then show ?thesis using assms(1) by (simp add: paid_def)
next
  case (Inr r)
  obtain v off' left' where "r = (v, off', left')" by (cases r)
  then show ?thesis using assms Inr by (simp add: paid_def)
qed

lemma paid_mono: "paid limit cost off left m \<Longrightarrow> off2 \<le> off \<Longrightarrow> paid limit cost off2 left m"
  by (auto simp: paid_def split: sum.splits)

lemma entry_vals_put: "entry_vals (mm_put k v d) \<le> entry_vals d + vals k + vals v"
  by (induction k v d rule: mm_put.induct) (auto simp: entry_vals_def)

lemma paid_read_array:
  assumes "good_reading limit dec"
  shows "off \<le> limit \<Longrightarrow> 0 \<le> left \<Longrightarrow> paid limit (\<lambda>vs. sum_list (map vals vs)) off left (read_array dec n off left)"
proof (induction n arbitrary: off left)
  case (Suc n)
  have d: "paid limit vals (off + 1) left (dec off left)" using assms by (simp add: good_reading_def)
  show ?case unfolding read_array.simps
  proof (rule paid_bind[OF d], clarify)
    fix v off1 left1
    assume o: "off + 1 \<le> off1" "off1 \<le> limit" "0 \<le> left1" "int (vals v) \<le> left - left1"
    show "paid limit (\<lambda>vs. sum_list (map vals vs)) off left
        (sbind (read_array dec n off1 left1) (\<lambda>(vs, off2, left2). Inr (v # vs, off2, left2)))"
      by (rule paid_bind[OF Suc.IH[OF o(2,3)]]) (use o in \<open>auto simp: paid_def\<close>)
  qed
qed (simp add: paid_def)

lemma paid_read_map:
  assumes "good_reading limit dec"
  shows "off \<le> limit \<Longrightarrow> 0 \<le> left \<Longrightarrow>
    paid limit entry_vals off (left + int (entry_vals out)) (read_map dec n out off left)"
proof (induction n arbitrary: off left out)
  case (Suc n)
  have d: "paid limit vals (off + 1) left (dec off left)" for off left using assms by (simp add: good_reading_def)
  show ?case unfolding read_map.simps
  proof (rule paid_bind[OF d], clarify, rule paid_bind[OF d], clarify)
    fix k off1 left1 v off2 left2
    assume o: "off + 1 \<le> off1" "off1 \<le> limit" "0 \<le> left1" "int (vals k) \<le> left - left1"
      "off1 + 1 \<le> off2" "off2 \<le> limit" "0 \<le> left2" "int (vals v) \<le> left1 - left2"
    have "paid limit entry_vals off2 (left2 + int (entry_vals (mm_put k v out))) (read_map dec n (mm_put k v out) off2 left2)"
      by (rule Suc.IH[OF o(6,7)])
    then show "paid limit entry_vals off (left + int (entry_vals out))
        (if key_of k = KUnhashable then Inl (Raised TypeError) else read_map dec n (mm_put k v out) off2 left2)"
      using o entry_vals_put[of k v out] by (auto simp: paid_def split: sum.splits)
  qed
qed (simp add: paid_def)

lemma paid_container:
  assumes "good_reading limit dec" "off \<le> limit" "0 \<le> left"
  shows "paid limit vals off (left + 1) (container dec t sz limit off left)"
proof -
  have a: "paid limit (\<lambda>vs. sum_list (map vals vs)) off left (read_array dec n off left)" for n
    by (rule paid_read_array[OF assms])
  have m: "paid limit entry_vals off (left + int (entry_vals [])) (read_map dec n [] off left)" for n
    by (rule paid_read_map[OF assms])
  show ?thesis
    unfolding container_def
  proof (rule paid_ensure)
    show "paid limit vals off (left + 1)
     (if t = t_array
       then sbind (read_array dec (nat sz) off left) (\<lambda>(vs, off', left'). Inr (MArray vs, off', left'))
       else sbind (read_map dec (nat sz) [] off left) (\<lambda>(d, off', left'). Inr (MMap d, off', left')))"
      using a[of "nat sz"] m[of "nat sz"]
      by (auto simp: paid_def sbind_def entry_vals_def split: sum.splits prod.splits)
  qed
qed

section \<open>The control byte\<close>

lemma byte_at_ok: "0 \<le> off \<Longrightarrow> off < blen buf \<Longrightarrow> \<exists>b. byte_at buf off = Inr b \<and> 0 \<le> b \<and> b < 256"
  using uint_lt2p[of "buf ! nat off"] by (auto simp: byte_at_def)

lemma size_of_ok:
  assumes "0 \<le> off" "off \<le> limit" "limit \<le> blen buf"
  shows "case size_of buf ctrl off t limit of Inl e \<Rightarrow> e = MmdbError
    | Inr (sz, off') \<Rightarrow> 0 \<le> sz \<and> off \<le> off' \<and> off' \<le> limit"
  using assms byte_at_ok[of off buf]
  by (auto simp: size_of_def Let_def ensure_def byte_at_def)

lemma control_ok:
  assumes "0 \<le> off" "off < limit" "limit \<le> blen buf"
  shows "case control buf limit off of Inl e \<Rightarrow> e = MmdbError
    | Inr (t, sz, off') \<Rightarrow> 0 \<le> sz \<and> off + 1 \<le> off' \<and> off' \<le> limit"
proof -
  obtain c where c: "byte_at buf off = Inr c" using byte_at_ok[of off buf] assms by auto
  show ?thesis
  proof (cases "drop_bit 5 c = 0")
    case False
    then show ?thesis
      using size_of_ok[of "off + 1" limit buf c "drop_bit 5 c"] assms
      by (auto simp: control_def c sbind_def split: sum.splits)
  next
    case True
    show ?thesis
    proof (cases "off + 1 < limit")
      case more: True
      obtain b where b: "byte_at buf (off + 1) = Inr b" using byte_at_ok[of "off + 1" buf] assms more by auto
      show ?thesis
        using size_of_ok[of "off + 2" limit buf c "b + 7"] assms more
        by (auto simp: control_def c b True ensure_def sbind_def split: sum.splits)
    qed (simp add: control_def c True ensure_def)
  qed
qed

lemma good_decode:
  assumes "0 \<le> base" "limit \<le> blen buf"
  shows "good_reading limit (mm_decode k buf base limit ip)"
proof (induction k arbitrary: ip)
  case 0
  then show ?case by (simp add: good_reading_def)
next
  case (Suc k)
  show ?case unfolding good_reading_def
  proof (intro allI)
    fix off left
    show "paid limit vals (off + 1) left (mm_decode (Suc k) buf base limit ip off left)"
      unfolding mm_decode.simps
    proof (rule paid_ensure, rule paid_ensure)
      assume left: "0 \<le> left - 1" and off: "base \<le> off \<and> off < limit"
      show "paid limit vals (off + 1) left (sbind (control buf limit off) (\<lambda>(t, sz, off1).
       if t = t_pointer then
         sbind (mm_pointer buf sz off1 base limit) (\<lambda>(target, off2).
         sbind (ensure (\<not> ip)) (\<lambda>_.
         sbind (ensure (base \<le> target \<and> target < limit)) (\<lambda>_.
         sbind (mm_decode k buf base limit True target (left - 1)) (\<lambda>(v, _, left').
           Inr (v, off2, left')))))
       else if t = t_bool then Inr (MBool (sz \<noteq> 0), off1, left - 1)
       else if t = t_map \<or> t = t_array then container (mm_decode k buf base limit False) t sz limit off1 (left - 1)
       else sbind (ensure (off1 + sz \<le> limit)) (\<lambda>_.
            sbind (mm_payload buf t sz off1) (\<lambda>v. Inr (v, off1 + sz, left - 1)))))"
      proof (cases "control buf limit off")
        case (Inl e)
        then show ?thesis using control_ok[of off limit buf] assms off by simp
      next
        case (Inr r)
        obtain t sz off1 where r: "r = (t, sz, off1)" by (cases r)
        have c: "0 \<le> sz" "off + 1 \<le> off1" "off1 \<le> limit"
          using control_ok[of off limit buf] assms off Inr r by auto
        have p: "case mm_pointer buf sz off1 base limit of Inl e \<Rightarrow> e = MmdbError | Inr (_, off2) \<Rightarrow> off1 \<le> off2 \<and> off2 \<le> limit"
          by (auto simp: mm_pointer_def Let_def ensure_def)
        have d: "paid limit vals (off + 1) left
            (sbind (mm_decode k buf base limit True target (left - 1)) (\<lambda>(v, _, left'). Inr (v, off2, left')))"
          if "off1 \<le> off2" "off2 \<le> limit" for target off2
        proof -
          have "paid limit vals (target + 1) (left - 1) (mm_decode k buf base limit True target (left - 1))"
            using Suc.IH by (simp add: good_reading_def)
          then show ?thesis
            by (rule paid_bind) (use that c in \<open>auto simp: paid_def\<close>)
        qed
        have f: "paid limit vals (off + 1) left (container (mm_decode k buf base limit False) t sz limit off1 (left - 1))"
          by (rule paid_mono[OF _ c(2)]) (use paid_container[OF Suc.IH c(3), where left = "left - 1"] left in simp)
        have y: "mm_payload buf t sz off1 = Inl e \<Longrightarrow> e = MmdbError" "mm_payload buf t sz off1 = Inr v \<Longrightarrow> vals v = 1" for e v
          by (auto simp: mm_payload_def Let_def split: if_splits option.splits)
        have ptr: "paid limit vals (off + 1) left (sbind (mm_pointer buf sz off1 base limit) (\<lambda>(target, off2).
            sbind (ensure (\<not> ip)) (\<lambda>_. sbind (ensure (base \<le> target \<and> target < limit)) (\<lambda>_.
            sbind (mm_decode k buf base limit True target (left - 1)) (\<lambda>(v, _, left'). Inr (v, off2, left'))))))"
          using p by (cases "mm_pointer buf sz off1 base limit") (auto intro!: paid_ensure d)
        have pay: "paid limit vals (off + 1) left (sbind (ensure (off1 + sz \<le> limit)) (\<lambda>_.
            sbind (mm_payload buf t sz off1) (\<lambda>v. Inr (v, off1 + sz, left - 1))))"
          by (rule paid_ensure, cases "mm_payload buf t sz off1") (use y c left in \<open>auto simp: paid_def\<close>)
        have truth: "paid limit vals (off + 1) left (Inr (MBool (sz \<noteq> 0), off1, left - 1))"
          using c left by (simp add: paid_def)
        show ?thesis
          unfolding Inr r sbind_simps prod.case
          using ptr pay truth f by (simp only: if_split simp_thms)
      qed
    qed
  qed
qed

end
