(* ===== verification/Mmdb.thy ===== *)
theory Mmdb
  imports MmdbDecode PyIp
begin

text \<open>
  The MaxMind database reader (\<open>app/enrich/mmdb.py\<close>): opening a file, its search tree, and the record of an
  address. A file is the bytes the reader maps; the file system around it, the fingerprint and the thin
  accessors of the metadata are left out. Text positions that the messages name are left out too.
\<close>

section \<open>Opening\<close>

definition metadata_marker :: bytes where
  "metadata_marker = [0xab, 0xcd, 0xef, 0x4d, 0x61, 0x78, 0x4d, 0x69, 0x6e, 0x64, 0x2e, 0x63, 0x6f, 0x6d]"

definition metadata_window :: int where "metadata_window = 128 * 1024"

definition separator_size :: int where "separator_size = 16"

text \<open>\<open>buf.rfind(mark, start)\<close>, for a mark that is not empty.\<close>

fun rfind_to :: "nat \<Rightarrow> bytes \<Rightarrow> bytes \<Rightarrow> nat \<Rightarrow> nat option" where
  "rfind_to 0 mark buf i = None"
| "rfind_to (Suc n) mark buf i = (if take (length mark) (drop (i + n) buf) = mark then Some (i + n) else rfind_to n mark buf i)"

definition rfind :: "bytes \<Rightarrow> bytes \<Rightarrow> int \<Rightarrow> int option" where
  "rfind mark buf start = map_option int (rfind_to (length buf - nat start) mark buf (nat start))"

record reader =
  rd_buf :: bytes
  rd_closed :: bool
  rd_metadata :: "(mval \<times> mval) list"
  rd_record_size :: int
  rd_node_count :: int
  rd_ip_version :: int
  rd_tree_size :: int
  rd_data_start :: int
  rd_data_end :: int
  rd_ipv4_start :: int

definition meta_int :: "(mval \<times> mval) list \<Rightarrow> string \<Rightarrow> mm_error + int" where
  "meta_int meta key = (case mm_get meta key of Some (MInt i) \<Rightarrow> Inr i | _ \<Rightarrow> Inl MmdbError)"

section \<open>The search tree\<close>

definition node24 :: "bytes \<Rightarrow> int \<Rightarrow> int \<Rightarrow> int" where
  "node24 buf node i = be (slice buf (node * 6 + i * 3) 3)"

definition node28 :: "bytes \<Rightarrow> int \<Rightarrow> int \<Rightarrow> int" where
  "node28 buf node i =
     (let b = map uint (slice buf (node * 7) 7) in
      if i \<noteq> 0
      then push_bit 24 (b ! 3 AND 0x0F) OR push_bit 16 (b ! 4) OR push_bit 8 (b ! 5) OR b ! 6
      else push_bit 20 (b ! 3 AND 0xF0) OR push_bit 16 (b ! 0) OR push_bit 8 (b ! 1) OR b ! 2)"

definition node32 :: "bytes \<Rightarrow> int \<Rightarrow> int \<Rightarrow> int" where
  "node32 buf node i = be (slice buf (node * 8 + i * 4) 4)"

definition read_node :: "int \<Rightarrow> bytes \<Rightarrow> int \<Rightarrow> int \<Rightarrow> int" where
  "read_node rs = (if rs = 24 then node24 else if rs = 28 then node28 else node32)"

fun zero_walk :: "nat \<Rightarrow> int \<Rightarrow> int \<Rightarrow> bytes \<Rightarrow> int \<Rightarrow> int" where
  "zero_walk 0 rs count buf node = node"
| "zero_walk (Suc n) rs count buf node =
     (if count \<le> node then node else zero_walk n rs count buf (read_node rs buf node 0))"

definition find_ipv4_start :: "int \<Rightarrow> int \<Rightarrow> int \<Rightarrow> bytes \<Rightarrow> int" where
  "find_ipv4_start version rs count buf = (if version = 4 then 0 else zero_walk 96 rs count buf 0)"

text \<open>
  What \<open>_open\<close> does with the bytes: \<open>layout\<close> checks the metadata and derives the parts of the file from it.
\<close>

definition layout :: "bytes \<Rightarrow> int \<Rightarrow> (mval \<times> mval) list \<Rightarrow> mm_error + reader" where
  "layout buf marker m =
     sbind (meta_int m ''record_size'') (\<lambda>rs.
     sbind (meta_int m ''node_count'') (\<lambda>count.
     sbind (meta_int m ''ip_version'') (\<lambda>version.
     sbind (meta_int m ''binary_format_major_version'') (\<lambda>major.
     sbind (ensure (rs \<in> {24, 28, 32})) (\<lambda>_.
     sbind (ensure (version \<in> {4, 6})) (\<lambda>_.
     sbind (ensure (major = 2)) (\<lambda>_.
     sbind (ensure (0 \<le> count)) (\<lambda>_.
     let tree = count * (rs div 4); data_start = tree + separator_size in
     sbind (ensure (data_start \<le> marker)) (\<lambda>_.
       Inr \<lparr>rd_buf = buf, rd_closed = False, rd_metadata = m, rd_record_size = rs, rd_node_count = count,
            rd_ip_version = version, rd_tree_size = tree, rd_data_start = data_start, rd_data_end = marker,
            rd_ipv4_start = find_ipv4_start version rs count buf\<rparr>)))))))))"

definition open_body :: "bytes \<Rightarrow> mm_error + reader" where
  "open_body buf =
     sbind (ensure (blen buf \<noteq> 0)) (\<lambda>_.
     sbind (ensure (16 \<le> blen buf)) (\<lambda>_.
     case rfind metadata_marker buf (max 0 (blen buf - metadata_window)) of
       None \<Rightarrow> Inl MmdbError
     | Some marker \<Rightarrow>
         let meta_start = marker + blen metadata_marker in
         sbind (mm_decode max_levels buf meta_start (blen buf) False meta_start max_fields) (\<lambda>(meta, _).
           case meta of MMap m \<Rightarrow> layout buf marker m | _ \<Rightarrow> Inl MmdbError)))"

text \<open>\<open>except Exception: raise MMDBError\<close>.\<close>

definition own_error :: "mm_error + 'a \<Rightarrow> mm_error + 'a" where
  "own_error r = (case r of Inl _ \<Rightarrow> Inl MmdbError | Inr a \<Rightarrow> Inr a)"

definition open_reader :: "bytes \<Rightarrow> mm_error + reader" where
  "open_reader buf = own_error (open_body buf)"

section \<open>Lookups\<close>

definition addr_bit :: "ipaddr \<Rightarrow> nat \<Rightarrow> int" where
  "addr_bit a i = ip_int a div 2 ^ (ip_bits a - 1 - i) mod 2"

definition addr_bits :: "ipaddr \<Rightarrow> int list" where
  "addr_bits a = map (addr_bit a) [0 ..< ip_bits a]"

fun walk :: "reader \<Rightarrow> int list \<Rightarrow> int \<Rightarrow> int" where
  "walk r [] node = node"
| "walk r (b # bs) node =
     (if node < rd_node_count r then walk r bs (read_node (rd_record_size r) (rd_buf r) node b) else node)"

definition start_node :: "reader \<Rightarrow> ipaddr \<Rightarrow> int" where
  "start_node r a = (if rd_ip_version r = 6 \<and> ip_bits a = 32 then rd_ipv4_start r else 0)"

definition mm_lookup :: "reader \<Rightarrow> ipaddr \<Rightarrow> mm_error + mval option" where
  "mm_lookup r a =
     (let node = walk r (addr_bits a) (start_node r a) in
      if node = rd_node_count r then Inr None
      else if node < rd_node_count r then Inl MmdbError
      else
        let off = node - rd_node_count r + rd_tree_size r in
        sbind (ensure (rd_data_start r \<le> off \<and> off < rd_data_end r)) (\<lambda>_.
        sbind (mm_decode max_levels (rd_buf r) (rd_data_start r) (rd_data_end r) False off max_fields) (\<lambda>(v, _).
          Inr (Some v))))"

definition get_addr :: "reader \<Rightarrow> ipaddr \<Rightarrow> mm_error + mval option" where
  "get_addr r a =
     (if ip_version a = 6 \<and> rd_ip_version r = 4 then Inr None
      else own_error (sbind (mm_lookup r a) (\<lambda>rec.
        if rec = None \<and> ip_version a = 6 \<and> rd_ip_version r = 6
        then (case ipv4_mapped a of Some m \<Rightarrow> mm_lookup r m | None \<Rightarrow> Inr rec)
        else Inr rec)))"

definition reader_get :: "reader \<Rightarrow> string \<Rightarrow> mm_error + mval option" where
  "reader_get r ip =
     (if rd_closed r then Inl MmdbError
      else case ip_address ip of None \<Rightarrow> Inr None | Some a \<Rightarrow> get_addr r a)"

definition close :: "reader \<Rightarrow> reader" where
  "close r = (if rd_closed r then r else r\<lparr>rd_closed := True, rd_buf := []\<rparr>)"

end
