(* ===== verification/Event.thy ===== *)
theory Event
  imports SIEM_Prelude
begin

text \<open>
  The normalized event every parser emits (\<open>app/models.py\<close>), and reading its columns by name.
  Times are integers (microseconds since the epoch); \<open>raw\<close> is the original record.
\<close>

record event =
  event_time :: "int option"
  vendor :: string
  product :: "string option"
  log_type :: "string option"
  severity :: "string option"
  action :: "string option"
  src_ip :: "string option"
  dst_ip :: "string option"
  src_port :: "int option"
  dst_port :: "int option"
  protocol :: "string option"
  app :: "string option"
  user_name :: "string option"
  host_name :: "string option"
  rule_name :: "string option"
  bytes_total :: "int option"
  message :: "string option"
  raw :: "(string, pyval) dict"

text \<open>An event with nothing but a vendor, the defaults of the dataclass.\<close>

definition bare_event :: "string \<Rightarrow> event" where
  "bare_event v = \<lparr>event_time = None, vendor = v, product = None, log_type = None,
     severity = None, action = None, src_ip = None, dst_ip = None, src_port = None,
     dst_port = None, protocol = None, app = None, user_name = None, host_name = None,
     rule_name = None, bytes_total = None, message = None, raw = []\<rparr>"

definition ostr :: "string option \<Rightarrow> pyval" where
  "ostr o1 = (case o1 of None \<Rightarrow> VNone | Some s \<Rightarrow> VStr s)"

definition oint :: "int option \<Rightarrow> pyval" where
  "oint o1 = (case o1 of None \<Rightarrow> VNone | Some i \<Rightarrow> VInt i)"

text \<open>The sixteen normalized columns, in the code's order, with their values.\<close>

definition event_columns :: "event \<Rightarrow> (string, pyval) dict" where
  "event_columns e =
     [(''vendor'', VStr (vendor e)), (''product'', ostr (product e)),
      (''log_type'', ostr (log_type e)), (''severity'', ostr (severity e)),
      (''action'', ostr (action e)), (''src_ip'', ostr (src_ip e)),
      (''dst_ip'', ostr (dst_ip e)), (''src_port'', oint (src_port e)),
      (''dst_port'', oint (dst_port e)), (''protocol'', ostr (protocol e)),
      (''app'', ostr (app e)), (''user_name'', ostr (user_name e)),
      (''host_name'', ostr (host_name e)), (''rule_name'', ostr (rule_name e)),
      (''bytes_total'', oint (bytes_total e)), (''message'', ostr (message e))]"

text \<open>\<open>getattr(evt, c, None)\<close> for a normalized column or \<open>raw\<close>.\<close>

definition evt_get :: "event \<Rightarrow> string \<Rightarrow> pyval" where
  "evt_get e c = (if c = ''raw'' then VDict (raw e) else pv_get (event_columns e) c)"

text \<open>An event as the evaluators receive it: fresh from a parser, or a stored row.\<close>

datatype evtlike = Fresh event | Row "(string, pyval) dict"

fun like_get :: "evtlike \<Rightarrow> string \<Rightarrow> pyval" where
  "like_get (Fresh e) c = evt_get e c"
| "like_get (Row d) c = pv_get d c"

lemma event_columns_distinct [simp]: "distinct (map fst (event_columns e))"
  by (simp add: event_columns_def)

lemma ostr_None_iff [simp]: "ostr x = VNone \<longleftrightarrow> x = None" "ostr x \<noteq> VList l" "ostr x \<noteq> VDict d"
  by (auto simp: ostr_def split: option.splits)

lemma oint_None_iff [simp]: "oint x = VNone \<longleftrightarrow> x = None" "oint x \<noteq> VList l" "oint x \<noteq> VDict d"
  by (auto simp: oint_def split: option.splits)

end
