(* ===== verification/Geo.thy ===== *)
theory Geo
  imports CsvLoad Mmdb Event "HOL-Library.List_Lexorder"
begin

text \<open>
  The geo index and its resolver (\<open>app/enrich/geo.py\<close>): the values of other modules made canonical, the
  sources and the records they answer with, the index with its memo and its failure counter, the resolution
  of an event, and the module's cached index with its reloads.

  A record of a source is a Python value, \<^const>\<open>VNone\<close> when it has no answer. What a source raises is
  caught by the index; an exception of the index itself is the \<^const>\<open>Inl\<close> of its result, beside the state
  it leaves behind. Addresses a stored row holds as objects are carried as their text. Parameters: Python's
  \<open>int\<close> of a float, the text of a float of a database, SHA-256, and the file system.
\<close>

section \<open>Values of other modules made canonical\<close>

definition text_or_blank :: "pyval \<Rightarrow> string" where
  "text_or_blank v = pv_str (pv_or v (VStr []))"

definition unmapped :: "ipaddr \<Rightarrow> ipaddr" where
  "unmapped a = (case ipv4_mapped a of Some m \<Rightarrow> m | None \<Rightarrow> a)"

definition ip_text :: "pyval \<Rightarrow> string" where
  "ip_text v =
     (let s = strip (text_or_blank v) in
      if s = [] then []
      else (let t = (if CHR ''/'' \<in> set s then takeWhile (\<lambda>c. c \<noteq> CHR ''/'') s else s) in
            case ip_address t of None \<Rightarrow> t | Some a \<Rightarrow> ip_str (unmapped a)))"

definition norm_country :: "pyval \<Rightarrow> string option" where
  "norm_country v =
     (let s = upper (strip (text_or_blank v)) in
      if length s = 2 \<and> list_all is_letter s then Some s else None)"

definition tag_text :: "pyval \<Rightarrow> string" where
  "tag_text t = (if t = VNone then [] else lower (strip (pv_str t)))"

definition canonical_tags :: "pyval list \<Rightarrow> string list" where
  "canonical_tags tags = sort (remdups (filter (\<lambda>s. s \<noteq> []) (map tag_text tags)))"

definition asn_range :: "int \<Rightarrow> int option" where
  "asn_range n = (if 1 \<le> n \<and> n \<le> 4294967295 then Some n else None)"

definition asn_text :: "string \<Rightarrow> string" where
  "asn_text s = (let v = strip s in if upper (take 2 v) = ''AS'' then drop 2 v else v)"

text \<open>\<open>int(value)\<close>, of which only \<open>TypeError\<close> and \<open>ValueError\<close> are caught.\<close>

definition norm_asn :: "(string \<Rightarrow> py_error + int) \<Rightarrow> pyval \<Rightarrow> py_error + int option" where
  "norm_asn trunc v =
     (case v of
        VStr s \<Rightarrow> Inr (case py_int (asn_text s) of None \<Rightarrow> None | Some n \<Rightarrow> asn_range n)
      | VInt n \<Rightarrow> Inr (asn_range n)
      | VFloat t \<Rightarrow>
          (case trunc t of
             Inr n \<Rightarrow> Inr (asn_range n)
           | Inl e \<Rightarrow> if e = TypeError \<or> e = ValueError then Inr None else Inl e)
      | _ \<Rightarrow> Inr None)"

section \<open>Records of a MaxMind database\<close>

text \<open>Only a text can be two letters long: \<open>str\<close> of any other decoded value is not.\<close>

definition block_country :: "mval option \<Rightarrow> string option" where
  "block_country b =
     (case b of
        Some (MMap m) \<Rightarrow> (case mm_get m ''iso_code'' of Some (MStr s) \<Rightarrow> norm_country (VStr s) | _ \<Rightarrow> None)
      | _ \<Rightarrow> None)"

definition number_trunc :: "number option \<Rightarrow> py_error + int" where
  "number_trunc x =
     (case x of
        None \<Rightarrow> Inl ValueError
      | Some (Infinite _) \<Rightarrow> Inl OverflowError
      | Some (Finite r) \<Rightarrow> Inr (if 0 \<le> r then floor r else ceiling r))"

definition byte_text :: "bytes \<Rightarrow> string" where
  "byte_text bs = map (\<lambda>b. char_of (uint b)) bs"

definition mm_asn :: "mval option \<Rightarrow> py_error + int option" where
  "mm_asn v =
     (case v of
        Some (MStr s) \<Rightarrow> norm_asn (\<lambda>_. Inl ValueError) (VStr s)
      | Some (MInt n) \<Rightarrow> Inr (asn_range n)
      | Some (MDouble bs) \<Rightarrow> norm_asn (\<lambda>_. number_trunc (ieee 11 52 bs)) (VFloat [])
      | Some (MFloat bs) \<Rightarrow> norm_asn (\<lambda>_. number_trunc (ieee 8 23 bs)) (VFloat [])
      | Some (MBytes bs) \<Rightarrow> Inr (case py_int (byte_text bs) of None \<Rightarrow> None | Some n \<Rightarrow> asn_range n)
      | _ \<Rightarrow> Inr None)"

definition geo_record :: "string option \<Rightarrow> int option \<Rightarrow> pyval" where
  "geo_record country asn = VDict [(''country'', ostr country), (''asn'', oint asn)]"

definition from_mmdb_record :: "mval option \<Rightarrow> py_error + pyval" where
  "from_mmdb_record rec =
     (case rec of
        Some (MMap m) \<Rightarrow>
          (let country = (case block_country (mm_get m ''country'') of
                            Some c \<Rightarrow> Some c
                          | None \<Rightarrow> block_country (mm_get m ''registered_country'')) in
           sbind (mm_asn (mm_get m ''autonomous_system_number'')) (\<lambda>asn.
             Inr (if country = None \<and> asn = None then VNone else geo_record country asn)))
      | _ \<Rightarrow> Inr VNone)"

section \<open>Sources\<close>

datatype geo_fault = MmdbFault mm_error | TableFault range_error | MissingFile string | Fault py_error

datatype backend =
    MmdbFile reader
  | RangeFile range_table
  | Literal "(string, pyval) dict"
  | Custom "string \<Rightarrow> geo_fault + pyval"

record geo_source =
  gs_name :: string
  gs_kind :: string
  gs_backend :: backend
  gs_configured :: string
  gs_path :: string
  gs_size :: int
  gs_mtime_ns :: int
  gs_rows :: int
  gs_build :: string

definition fault_res :: "('e \<Rightarrow> geo_fault) \<Rightarrow> 'e + 'a \<Rightarrow> geo_fault + 'a" where
  "fault_res f r = (case r of Inl e \<Rightarrow> Inl (f e) | Inr a \<Rightarrow> Inr a)"

text \<open>\<open>src.lookup(ip)\<close>.\<close>

definition backend_lookup :: "backend \<Rightarrow> string \<Rightarrow> geo_fault + pyval" where
  "backend_lookup b ip =
     (case b of
        MmdbFile r \<Rightarrow>
          sbind (fault_res MmdbFault (reader_get r ip)) (\<lambda>rec. fault_res Fault (from_mmdb_record rec))
      | RangeFile t \<Rightarrow>
          Inr (case table_lookup t (Text ip) of None \<Rightarrow> VNone | Some (c, a) \<Rightarrow> geo_record c a)
      | Literal rows \<Rightarrow> Inr (pv_get rows ip)
      | Custom f \<Rightarrow> f ip)"

definition backend_close :: "backend \<Rightarrow> backend" where
  "backend_close b = (case b of MmdbFile r \<Rightarrow> MmdbFile (close r) | _ \<Rightarrow> b)"

definition source_close :: "geo_source \<Rightarrow> geo_source" where
  "source_close s = s\<lparr>gs_backend := backend_close (gs_backend s)\<rparr>"

definition describe :: "geo_source \<Rightarrow> (string, pyval) dict" where
  "describe s =
     [(''name'', VStr (gs_name s)), (''kind'', VStr (gs_kind s)), (''configured'', VStr (gs_configured s)),
      (''path'', VStr (gs_path s)), (''size'', VInt (gs_size s)), (''mtime_ns'', VInt (gs_mtime_ns s)),
      (''rows'', VInt (gs_rows s)), (''build'', VStr (gs_build s))]"

text \<open>The build string of a database: \<open>database_type@build_epoch\<close> without outer at-signs; \<open>str\<close> of a decoded
  value follows \<open>repr\<close> except at a text.\<close>

definition byte_repr :: "char \<Rightarrow> char \<Rightarrow> string" where
  "byte_repr q c =
     (if 128 \<le> code c
      then [char_of (92::int), CHR ''x'', hex_digit (code c div 16), hex_digit (code c mod 16)]
      else repr_char q c)"

definition bytes_repr :: "string \<Rightarrow> string" where
  "bytes_repr s =
     (let q = (if char_of (39::int) \<in> set s \<and> char_of (34::int) \<notin> set s
               then char_of (34::int) else char_of (39::int))
      in ''b'' @ [q] @ concat (map (byte_repr q) s) @ [q])"

fun mval_repr :: "(mval \<Rightarrow> string) \<Rightarrow> mval \<Rightarrow> string" where
  "mval_repr fl (MStr s) = str_repr s"
| "mval_repr fl (MInt i) = int_str i"
| "mval_repr fl (MDouble bs) = fl (MDouble bs)"
| "mval_repr fl (MFloat bs) = fl (MFloat bs)"
| "mval_repr fl (MBytes bs) = bytes_repr (byte_text bs)"
| "mval_repr fl (MBool b) = (if b then ''True'' else ''False'')"
| "mval_repr fl (MArray xs) = ''['' @ join '', '' (map (mval_repr fl) xs) @ '']''"
| "mval_repr fl (MMap kvs) =
     ''{'' @ join '', '' (map (\<lambda>(k, v). mval_repr fl k @ '': '' @ mval_repr fl v) kvs) @ ''}''"

definition mval_format :: "(mval \<Rightarrow> string) \<Rightarrow> mval option \<Rightarrow> string" where
  "mval_format fl v = (case v of None \<Rightarrow> [] | Some (MStr s) \<Rightarrow> s | Some w \<Rightarrow> mval_repr fl w)"

definition strip_at :: "string \<Rightarrow> string" where
  "strip_at s =
     (let front = dropWhile (\<lambda>c. c = CHR ''@'') s in rev (dropWhile (\<lambda>c. c = CHR ''@'') (rev front)))"

record file_info =
  fi_path :: string
  fi_size :: int
  fi_mtime_ns :: int
  fi_bytes :: bytes

text \<open>\<open>mmdb_source\<close>, \<open>range_source\<close> and \<open>literal_source\<close>; \<open>node_count\<close> is an integer in the metadata of every
  reader.\<close>

definition mmdb_source :: "(mval \<Rightarrow> string) \<Rightarrow> reader \<Rightarrow> string \<Rightarrow> string \<Rightarrow> file_info \<Rightarrow> geo_source" where
  "mmdb_source fl r name configured f =
     \<lparr>gs_name = name, gs_kind = ''mmdb'', gs_backend = MmdbFile r, gs_configured = configured,
      gs_path = fi_path f, gs_size = fi_size f, gs_mtime_ns = fi_mtime_ns f,
      gs_rows = (case mm_get (rd_metadata r) ''node_count'' of Some (MInt i) \<Rightarrow> i | _ \<Rightarrow> 0),
      gs_build = strip_at (mval_format fl (mm_get (rd_metadata r) ''database_type'') @ ''@''
                           @ mval_format fl (mm_get (rd_metadata r) ''build_epoch''))\<rparr>"

definition range_source :: "range_table \<Rightarrow> string \<Rightarrow> string \<Rightarrow> file_info \<Rightarrow> geo_source" where
  "range_source t name configured f =
     \<lparr>gs_name = name, gs_kind = ''csv'', gs_backend = RangeFile t, gs_configured = configured,
      gs_path = fi_path f, gs_size = fi_size f, gs_mtime_ns = fi_mtime_ns f,
      gs_rows = int (table_len t), gs_build = []\<rparr>"

definition literal_source :: "(string, pyval) dict \<Rightarrow> string \<Rightarrow> geo_source" where
  "literal_source rows name =
     \<lparr>gs_name = name, gs_kind = ''literal'', gs_backend = Literal rows, gs_configured = [], gs_path = [],
      gs_size = 0, gs_mtime_ns = 0, gs_rows = int (length rows), gs_build = []\<rparr>"

section \<open>The index\<close>

type_synonym geo_answer = "string option \<times> int option"

record geo_index =
  gi_sources :: "geo_source list"
  gi_errors :: "(string \<times> geo_fault option) list"
  gi_fingerprint :: string
  gi_memo :: "(string, geo_answer) dict"
  gi_failures :: nat
  gi_error :: "(string \<times> geo_fault) option"

definition nul :: char where "nul = CHR 0x00"

definition derivation_version :: string where "derivation_version = ''geo1''"

definition fingerprint_fields :: "geo_source \<Rightarrow> string list" where
  "fingerprint_fields s =
     [gs_name s, gs_kind s, gs_path s, int_str (gs_size s), int_str (gs_mtime_ns s), int_str (gs_rows s),
      gs_build s]"

definition fingerprint_text :: "geo_source list \<Rightarrow> string" where
  "fingerprint_text sources =
     derivation_version @ concat (map (\<lambda>s. concat (map (\<lambda>f. f @ [nul]) (fingerprint_fields s))) sources)"

definition fingerprint_of :: "(string \<Rightarrow> string) \<Rightarrow> geo_source list \<Rightarrow> string" where
  "fingerprint_of sha sources = take 32 (sha (fingerprint_text sources))"

definition geo_index_of ::
    "(string \<Rightarrow> string) \<Rightarrow> geo_source list \<Rightarrow> (string \<times> geo_fault option) list \<Rightarrow> geo_index" where
  "geo_index_of sha sources errors =
     \<lparr>gi_sources = sources, gi_errors = errors, gi_fingerprint = fingerprint_of sha sources,
      gi_memo = [], gi_failures = 0, gi_error = None\<rparr>"

definition empty_index :: "(string \<Rightarrow> string) \<Rightarrow> geo_index" where
  "empty_index sha = geo_index_of sha [] []"

definition geo_is_empty :: "geo_index \<Rightarrow> bool" where
  "geo_is_empty i \<longleftrightarrow> gi_sources i = []"

definition note_failure :: "geo_source \<Rightarrow> geo_fault \<Rightarrow> geo_index \<Rightarrow> geo_index" where
  "note_failure s e i = i\<lparr>gi_failures := gi_failures i + 1, gi_error := Some (gs_name s, e)\<rparr>"

text \<open>The loop over the sources, which ends once both fields are known.\<close>

fun consult ::
    "(string \<Rightarrow> py_error + int) \<Rightarrow> string \<Rightarrow> geo_source list \<Rightarrow> geo_answer \<Rightarrow> geo_index
       \<Rightarrow> (py_error + geo_answer) \<times> geo_index" where
  "consult trunc ip [] (c, a) i = (Inr (c, a), i)"
| "consult trunc ip (s # ss) (c, a) i =
     (if c \<noteq> None \<and> a \<noteq> None then (Inr (c, a), i)
      else (case backend_lookup (gs_backend s) ip of
              Inl e \<Rightarrow> consult trunc ip ss (c, a) (note_failure s e i)
            | Inr (VDict rec) \<Rightarrow>
                (let c' = (if c = None then norm_country (pv_get rec ''country'') else c) in
                 if a = None
                 then (case norm_asn trunc (pv_get rec ''asn'') of
                         Inl e \<Rightarrow> (Inl e, i)
                       | Inr a' \<Rightarrow> consult trunc ip ss (c', a') i)
                 else consult trunc ip ss (c', a) i)
            | Inr _ \<Rightarrow> consult trunc ip ss (c, a) i))"

definition geo_memo_max :: nat where "geo_memo_max = 8192"

definition geo_remember :: "string \<Rightarrow> geo_answer \<Rightarrow> (string, geo_answer) dict \<Rightarrow> (string, geo_answer) dict" where
  "geo_remember ip out memo = dict_set ip out (if geo_memo_max \<le> length memo then [] else memo)"

definition geo_lookup ::
    "(string \<Rightarrow> py_error + int) \<Rightarrow> string \<Rightarrow> geo_index \<Rightarrow> (py_error + geo_answer) \<times> geo_index" where
  "geo_lookup trunc ip i =
     (if ip = [] \<or> gi_sources i = [] then (Inr (None, None), i)
      else (case dict_get (gi_memo i) ip of
              Some hit \<Rightarrow> (Inr hit, i)
            | None \<Rightarrow>
                (case consult trunc ip (gi_sources i) (None, None) i of
                   (Inl e, j) \<Rightarrow> (Inl e, j)
                 | (Inr out, j) \<Rightarrow> (Inr out, j\<lparr>gi_memo := geo_remember ip out (gi_memo j)\<rparr>))))"

definition geo_close :: "geo_index \<Rightarrow> geo_index" where
  "geo_close i = i\<lparr>gi_sources := map source_close (gi_sources i)\<rparr>"

section \<open>The resolver\<close>

record geo_result =
  g_src_country :: "string option"
  g_dst_country :: "string option"
  g_src_asn :: "int option"
  g_dst_asn :: "int option"
  g_tags :: "string list"

definition empty_geo :: geo_result where
  "empty_geo = \<lparr>g_src_country = None, g_dst_country = None, g_src_asn = None, g_dst_asn = None, g_tags = []\<rparr>"

definition geo_result_empty :: "geo_result \<Rightarrow> bool" where
  "geo_result_empty r \<longleftrightarrow>
     \<not> ((case g_src_country r of None \<Rightarrow> False | Some c \<Rightarrow> c \<noteq> []) \<or>
        (case g_dst_country r of None \<Rightarrow> False | Some c \<Rightarrow> c \<noteq> []) \<or>
        g_src_asn r \<noteq> None \<or> g_dst_asn r \<noteq> None \<or> g_tags r \<noteq> [])"

text \<open>The label of one side; the second component is the memo of \<open>ranges.scope\<close>.\<close>

definition scope_label :: "string \<Rightarrow> string \<Rightarrow> scope_memo \<Rightarrow> string list \<times> scope_memo" where
  "scope_label value role sm =
     (if value = [] then ([], sm)
      else (case scope value sm of
              (None, sm') \<Rightarrow> ([], sm')
            | (Some label, sm') \<Rightarrow> (if label = [] then [] else [role @ '':'' @ strip label], sm')))"

text \<open>The caches a resolution reads and writes: the memo of \<open>ranges.scope\<close> and the index.\<close>

type_synonym geo_caches = "scope_memo \<times> geo_index"

definition side_lookup ::
    "(string \<Rightarrow> py_error + int) \<Rightarrow> string \<Rightarrow> geo_index \<Rightarrow> (py_error + geo_answer) \<times> geo_index" where
  "side_lookup trunc ip i =
     (if geo_is_empty i \<or> ip = [] then (Inr (None, None), i) else geo_lookup trunc ip i)"

definition geo_answers ::
    "(string \<Rightarrow> py_error + int) \<Rightarrow> string \<Rightarrow> string \<Rightarrow> geo_index
       \<Rightarrow> (py_error + geo_answer \<times> geo_answer) \<times> geo_index" where
  "geo_answers trunc src dst i =
     (case side_lookup trunc src i of
        (Inl e, j) \<Rightarrow> (Inl e, j)
      | (Inr s, j) \<Rightarrow>
          (case side_lookup trunc dst j of
             (Inl e, k) \<Rightarrow> (Inl e, k)
           | (Inr d, k) \<Rightarrow> (Inr (s, d), k)))"

definition geo_resolve ::
    "(string \<Rightarrow> py_error + int) \<Rightarrow> evtlike \<Rightarrow> geo_caches \<Rightarrow> (py_error + geo_result) \<times> geo_caches" where
  "geo_resolve trunc evt st =
     (let (sm, i) = st; src = ip_text (like_get evt ''src_ip''); dst = ip_text (like_get evt ''dst_ip'') in
      if src = [] \<and> dst = [] then (Inr empty_geo, st)
      else (let (src_tags, sm1) = scope_label src ''src'' sm; (dst_tags, sm2) = scope_label dst ''dst'' sm1;
                tags = src_tags @ dst_tags in
            case geo_answers trunc src dst i of
              (Inl e, j) \<Rightarrow> (Inl e, sm2, j)
            | (Inr ((sc, sa), (dc, da)), j) \<Rightarrow>
                (Inr (if tags = [] \<and> sc = None \<and> dc = None \<and> sa = None \<and> da = None then empty_geo
                      else \<lparr>g_src_country = sc, g_dst_country = dc, g_src_asn = sa, g_dst_asn = da,
                            g_tags = canonical_tags (map VStr tags)\<rparr>), sm2, j)))"

section \<open>Loading\<close>

text \<open>The settings, which may lack the geo fields altogether, and the file system as \<open>abspath\<close> and \<open>isfile\<close>
  see it: the absolute path, and the file when there is one.\<close>

record geo_world =
  gw_settings :: "(string, string) dict option"
  gw_abspath :: "string \<Rightarrow> string"
  gw_file :: "string \<Rightarrow> file_info option"
  gw_sha :: "string \<Rightarrow> string"
  gw_float :: "mval \<Rightarrow> string"

definition geo_settings :: "string list" where
  "geo_settings = [''geo_ranges_csv'', ''geo_country_db'', ''geo_asn_db'']"

definition setting :: "geo_world \<Rightarrow> string \<Rightarrow> string" where
  "setting w name =
     (case gw_settings w of None \<Rightarrow> []
      | Some cfg \<Rightarrow> (case dict_get cfg name of None \<Rightarrow> [] | Some t \<Rightarrow> strip t))"

definition settings_wired :: "geo_world \<Rightarrow> bool" where
  "settings_wired w =
     (case gw_settings w of None \<Rightarrow> False
      | Some cfg \<Rightarrow> list_ex (\<lambda>n. dict_get cfg n \<noteq> None) geo_settings)"

definition open_mmdb :: "geo_world \<Rightarrow> string \<Rightarrow> string \<Rightarrow> geo_fault + geo_source" where
  "open_mmdb w given name =
     (let path = gw_abspath w given in
      case gw_file w path of
        None \<Rightarrow> Inl (MissingFile path)
      | Some f \<Rightarrow>
          sbind (fault_res MmdbFault (open_reader (fi_bytes f))) (\<lambda>r.
            Inr (mmdb_source (gw_float w) r name given (f\<lparr>fi_path := path\<rparr>))))"

definition open_csv :: "geo_world \<Rightarrow> string \<Rightarrow> string \<Rightarrow> geo_fault + geo_source" where
  "open_csv w given name =
     (let path = gw_abspath w given in
      case gw_file w path of
        None \<Rightarrow> Inl (MissingFile path)
      | Some f \<Rightarrow>
          sbind (fault_res TableFault (loads (byte_text (fi_bytes f)))) (\<lambda>t.
            Inr (range_source t name given (f\<lparr>fi_path := path\<rparr>))))"

text \<open>The layers in order of precedence.\<close>

definition geo_layers ::
    "(string \<times> string \<times> (geo_world \<Rightarrow> string \<Rightarrow> string \<Rightarrow> geo_fault + geo_source)) list" where
  "geo_layers =
     [(''geo_ranges_csv'', ''ranges'', open_csv), (''geo_country_db'', ''country'', open_mmdb),
      (''geo_asn_db'', ''asn'', open_mmdb)]"

definition open_layer ::
    "geo_world \<Rightarrow> geo_source list \<times> (string \<times> geo_fault option) list
       \<Rightarrow> string \<times> string \<times> (geo_world \<Rightarrow> string \<Rightarrow> string \<Rightarrow> geo_fault + geo_source)
       \<Rightarrow> geo_source list \<times> (string \<times> geo_fault option) list" where
  "open_layer w acc layer =
     (let (sources, errors) = acc; (key, name, opener) = layer; given = setting w key in
      if given = [] then acc
      else (case opener w given name of
              Inl e \<Rightarrow> (sources, errors @ [(name, Some e)])
            | Inr s \<Rightarrow> (sources @ [s], errors)))"

definition configured :: "geo_world \<Rightarrow> bool" where
  "configured w \<longleftrightarrow> list_ex (\<lambda>n. setting w n \<noteq> []) geo_settings"

definition geo_load :: "geo_world \<Rightarrow> geo_index" where
  "geo_load w =
     (let (sources, errors) = foldl (open_layer w) ([], []) geo_layers in
      geo_index_of (gw_sha w) sources
        (if \<not> configured w \<and> \<not> settings_wired w then errors @ [(''config'', None)] else errors))"

section \<open>The cached index\<close>

record geo_module =
  gm_cache :: "geo_index option"
  gm_generation :: nat

definition geo_get_index :: "geo_world \<Rightarrow> geo_module \<Rightarrow> geo_index \<times> geo_module" where
  "geo_get_index w m =
     (case gm_cache m of
        Some i \<Rightarrow> (i, m)
      | None \<Rightarrow> (let i = geo_load w in (i, m\<lparr>gm_cache := Some i\<rparr>)))"

definition geo_reload :: "geo_world \<Rightarrow> geo_module \<Rightarrow> geo_index \<times> geo_module" where
  "geo_reload w m =
     (let i = geo_load w in
      case gm_cache m of
        Some old \<Rightarrow>
          if geo_is_empty i \<and> gi_errors i \<noteq> [] \<and> \<not> geo_is_empty old then (old, m)
          else (i, m\<lparr>gm_cache := Some i, gm_generation := gm_generation m + 1\<rparr>)
      | None \<Rightarrow> (i, m\<lparr>gm_cache := Some i, gm_generation := gm_generation m + 1\<rparr>))"

definition geo_set_index :: "geo_index option \<Rightarrow> geo_module \<Rightarrow> geo_module" where
  "geo_set_index i m = m\<lparr>gm_cache := i, gm_generation := gm_generation m + 1\<rparr>"

record geo_stats =
  st_loaded :: bool
  st_mode :: string
  st_sources :: "(string, pyval) dict list"
  st_errors :: "(string \<times> geo_fault option) list"
  st_fingerprint :: "string option"
  st_generation :: nat
  st_failures :: nat
  st_error :: "(string \<times> geo_fault) option"

definition geo_stats_of :: "geo_module \<Rightarrow> geo_stats" where
  "geo_stats_of m =
     (case gm_cache m of
        None \<Rightarrow> \<lparr>st_loaded = False, st_mode = ''unloaded'', st_sources = [], st_errors = [],
                 st_fingerprint = None, st_generation = gm_generation m, st_failures = 0, st_error = None\<rparr>
      | Some i \<Rightarrow> \<lparr>st_loaded = True,
                   st_mode = (if geo_is_empty i then ''scope-only'' else ''scope+country/asn''),
                   st_sources = map describe (gi_sources i), st_errors = gi_errors i,
                   st_fingerprint = Some (gi_fingerprint i), st_generation = gm_generation m,
                   st_failures = gi_failures i, st_error = gi_error i\<rparr>)"

end
