(* ===== verification/GeoFacts.thy ===== *)
theory GeoFacts
  imports Geo
begin

text \<open>
  What the geo layer promises. Each field of an answer is the first one any source gives, a failing source
  only loses its own answer, and the memos in front of the sources and of the scope tables are invisible; so
  a resolution is a function of the event and of the loaded sources, whatever was resolved before. Countries,
  numbers and labels are in canonical form, a load accounts for every configured path, and a reload that
  finds nothing usable keeps what was there.
\<close>

section \<open>Canonical values\<close>

lemma upper_letter: "is_letter c \<Longrightarrow> is_letter (upper_char c)"
  by (auto simp: is_letter_def upper_char_def code_def)

lemma upper_char_idem [simp]: "upper_char (upper_char c) = upper_char c"
  by (auto simp: upper_char_def code_def)

lemma lower_char_idem [simp]: "lower_char (lower_char c) = lower_char c"
  by (auto simp: lower_char_def code_def)

lemma is_space_lower [simp]: "is_space (lower_char c) = is_space c"
  by (auto simp: is_space_def lower_char_def code_def)

lemma lower_idem [simp]: "lower (lower s) = lower s"
  by (simp add: lower_def)

lemma lower_Nil_iff [simp]: "lower s = [] \<longleftrightarrow> s = []"
  by (simp add: lower_def)

lemma strip_lower: "strip (lower s) = lower (strip s)"
  by (simp add: strip_def lstrip_def rstrip_def lower_def dropWhile_map rev_map o_def)

definition country_ok :: "string \<Rightarrow> bool" where
  "country_ok c \<longleftrightarrow> length c = 2 \<and> list_all is_letter c \<and> upper c = c"

lemma norm_country_ok: "norm_country v = Some c \<Longrightarrow> country_ok c"
  by (auto simp: norm_country_def country_ok_def Let_def upper_def split: if_splits)

lemma norm_asn_range: "norm_asn trunc v = Inr (Some n) \<Longrightarrow> 1 \<le> n \<and> n < 2 ^ 32"
  by (auto simp: norm_asn_def asn_range_def split: pyval.splits option.splits sum.splits if_splits)

lemma letter_not_space: "is_letter c \<Longrightarrow> \<not> is_space c"
  by (auto simp: is_letter_def is_space_def code_def)

lemma norm_country_id [simp]: "country_ok c \<Longrightarrow> norm_country (VStr c) = Some c"
proof -
  assume a: "country_ok c"
  then obtain x y where c: "c = [x, y]" by (auto simp: country_ok_def length_Suc_conv numeral_2_eq_2)
  have "strip c = c" using a by (intro strip_id) (auto simp: c country_ok_def letter_not_space)
  then show ?thesis using a
    by (auto simp: norm_country_def text_or_blank_def pv_or_def pv_truthy_def country_ok_def)
qed

lemma tag_text_VStr [simp]: "tag_text (VStr s) = lower (strip s)"
  by (simp add: tag_text_def)

lemma tag_text_idem [simp]: "lower (strip (tag_text t)) = tag_text t"
  by (simp add: tag_text_def strip_lower)

definition tag_set :: "pyval list \<Rightarrow> string set" where
  "tag_set ts = tag_text ` set ts - {[]}"

lemma set_canonical_tags [simp]: "set (canonical_tags ts) = tag_set ts"
  by (auto simp: canonical_tags_def tag_set_def)

lemma canonical_tags_sorted: "sorted (canonical_tags ts)" "distinct (canonical_tags ts)"
  by (simp_all add: canonical_tags_def)

lemma canonical_tags_eq: "canonical_tags ts = canonical_tags us \<longleftrightarrow> tag_set ts = tag_set us"
  using canonical_tags_sorted[of ts] canonical_tags_sorted[of us] set_canonical_tags[of ts] set_canonical_tags[of us]
    sorted_distinct_set_unique by metis

lemma tag_set_append [simp]: "tag_set (ts @ us) = tag_set ts \<union> tag_set us"
  by (auto simp: tag_set_def)

lemma tag_set_canonical [simp]: "tag_set (map VStr (canonical_tags ts)) = tag_set ts"
  by (force simp: tag_set_def image_iff)


section \<open>Sources\<close>

definition rec_country :: "string \<Rightarrow> geo_source \<Rightarrow> string option" where
  "rec_country ip s =
     (case backend_lookup (gs_backend s) ip of
        Inr (VDict rec) \<Rightarrow> norm_country (pv_get rec ''country'') | _ \<Rightarrow> None)"

definition rec_asn_res :: "(string \<Rightarrow> py_error + int) \<Rightarrow> string \<Rightarrow> geo_source \<Rightarrow> py_error + int option" where
  "rec_asn_res trunc ip s =
     (case backend_lookup (gs_backend s) ip of
        Inr (VDict rec) \<Rightarrow> norm_asn trunc (pv_get rec ''asn'') | _ \<Rightarrow> Inr None)"

definition rec_asn :: "(string \<Rightarrow> py_error + int) \<Rightarrow> string \<Rightarrow> geo_source \<Rightarrow> int option" where
  "rec_asn trunc ip s = (case rec_asn_res trunc ip s of Inr a \<Rightarrow> a | Inl _ \<Rightarrow> None)"

text \<open>A source whose numbers \<open>int\<close> takes or refuses as it should.\<close>

definition steady :: "(string \<Rightarrow> py_error + int) \<Rightarrow> string \<Rightarrow> geo_source \<Rightarrow> bool" where
  "steady trunc ip s \<longleftrightarrow> (case rec_asn_res trunc ip s of Inr _ \<Rightarrow> True | Inl _ \<Rightarrow> False)"

definition from_file :: "geo_source \<Rightarrow> bool" where
  "from_file s \<longleftrightarrow> (case gs_backend s of MmdbFile _ \<Rightarrow> True | RangeFile _ \<Rightarrow> True | _ \<Rightarrow> False)"

fun first_answer :: "('a \<Rightarrow> 'b option) \<Rightarrow> 'a list \<Rightarrow> 'b option" where
  "first_answer f [] = None"
| "first_answer f (x # xs) = (case f x of Some y \<Rightarrow> Some y | None \<Rightarrow> first_answer f xs)"

lemma first_answer_append:
  "first_answer f (xs @ ys) = (case first_answer f xs of Some y \<Rightarrow> Some y | None \<Rightarrow> first_answer f ys)"
  by (induction xs) (auto split: option.splits)

lemma first_answer_SomeD: "first_answer f xs = Some y \<Longrightarrow> \<exists>x\<in>set xs. f x = Some y"
  by (induction xs) (auto split: option.splits)

lemma norm_asn_oint [simp]: "norm_asn trunc (oint a) = Inr (case a of None \<Rightarrow> None | Some n \<Rightarrow> asn_range n)"
  by (auto simp: oint_def norm_asn_def split: option.splits)

lemma from_file_steady [simp]: "from_file s \<Longrightarrow> steady trunc ip s"
  by (auto simp: from_file_def steady_def rec_asn_res_def backend_lookup_def fault_res_def from_mmdb_record_def
      geo_record_def pv_get_def dict_get_def Let_def
      split: backend.splits sum.splits option.splits mval.splits prod.splits pyval.splits if_splits)

section \<open>An answer is the first of each field\<close>

lemma consult_first:
  assumes "list_all (steady trunc ip) ss"
  shows "fst (consult trunc ip ss (c, a) i)
    = Inr (case c of Some x \<Rightarrow> Some x | None \<Rightarrow> first_answer (rec_country ip) ss,
           case a of Some x \<Rightarrow> Some x | None \<Rightarrow> first_answer (rec_asn trunc ip) ss)"
  using assms
  by (induction ss arbitrary: c a i)
    (auto simp: rec_country_def rec_asn_def rec_asn_res_def steady_def Let_def
      split: option.splits sum.splits pyval.splits)

lemma consult_keeps:
  "gi_sources (snd (consult trunc ip ss ca i)) = gi_sources i \<and> gi_memo (snd (consult trunc ip ss ca i)) = gi_memo i
    \<and> gi_errors (snd (consult trunc ip ss ca i)) = gi_errors i
    \<and> gi_fingerprint (snd (consult trunc ip ss ca i)) = gi_fingerprint i"
  by (induction trunc ip ss ca i rule: consult.induct)
    (auto simp: Let_def note_failure_def split: sum.splits pyval.splits)

lemma consult_index: "fst (consult trunc ip ss ca i) = fst (consult trunc ip ss ca j)"
  by (induction ss arbitrary: ca i j)
    (auto simp: Let_def split: prod.splits sum.splits pyval.splits)


section \<open>The memo is a lookaside\<close>

text \<open>The answer without a memo.\<close>

definition blank_index :: geo_index where
  "blank_index = geo_index_of (\<lambda>_. []) [] []"

definition ask_sources ::
    "(string \<Rightarrow> py_error + int) \<Rightarrow> geo_source list \<Rightarrow> string \<Rightarrow> py_error + geo_answer" where
  "ask_sources trunc sources ip =
     (if ip = [] then Inr (None, None) else fst (consult trunc ip sources (None, None) blank_index))"

definition memo_recall :: "(string, geo_answer) dict \<Rightarrow> string \<Rightarrow> (py_error + geo_answer) option" where
  "memo_recall memo ip = map_option Inr (dict_get memo ip)"

definition memo_keep ::
    "string \<Rightarrow> py_error + geo_answer \<Rightarrow> (string, geo_answer) dict \<Rightarrow> (string, geo_answer) dict" where
  "memo_keep ip r memo = (case r of Inr out \<Rightarrow> geo_remember ip out memo | Inl _ \<Rightarrow> memo)"

definition memo_true ::
    "(string \<Rightarrow> py_error + int) \<Rightarrow> geo_source list \<Rightarrow> (string, geo_answer) dict \<Rightarrow> bool" where
  "memo_true trunc sources memo \<longleftrightarrow>
     (\<forall>ip out. dict_get memo ip = Some out \<longrightarrow> ask_sources trunc sources ip = Inr out)"

interpretation geo_lookaside: lookaside memo_recall memo_keep "ask_sources trunc sources" "memo_true trunc sources"
  for trunc sources
  by unfold_locales
    (auto simp: memo_recall_def memo_keep_def memo_true_def geo_remember_def split: sum.splits)

lemma geo_remember_length: "length (geo_remember ip out memo) \<le> max geo_memo_max (length memo)"
  using length_dict_set[of ip out "[]"] length_dict_set[of ip out memo]
  by (auto simp: geo_remember_def geo_memo_max_def)

interpretation geo_store: bounded_cache "\<lambda>m. distinct (map fst m) \<and> length m \<le> geo_memo_max"
    dict_get geo_remember length "\<lambda>_. geo_memo_max"
proof
  fix m :: "(string, geo_answer) dict" and k j v w
  assume ok: "distinct (map fst m) \<and> length m \<le> geo_memo_max"
  show "distinct (map fst (geo_remember k v m)) \<and> length (geo_remember k v m) \<le> geo_memo_max"
    using ok geo_remember_length[of k v m] by (auto simp: geo_remember_def)
  show "length m \<le> geo_memo_max" using ok by simp
  show "dict_get (geo_remember k v m) k = Some v" by (simp add: geo_remember_def)
  show "dict_get (geo_remember k v m) j = Some w \<Longrightarrow> j \<noteq> k \<Longrightarrow> dict_get m j = Some w"
    by (auto simp: geo_remember_def split: if_splits)
qed simp

text \<open>An index whose memo is true and within its bound.\<close>

definition index_ok :: "(string \<Rightarrow> py_error + int) \<Rightarrow> geo_source list \<Rightarrow> geo_index \<Rightarrow> bool" where
  "index_ok trunc sources i \<longleftrightarrow>
     gi_sources i = sources \<and> memo_true trunc sources (gi_memo i) \<and>
     distinct (map fst (gi_memo i)) \<and> length (gi_memo i) \<le> geo_memo_max"

lemma ask_sources_empty [simp]: "ask_sources trunc [] ip = Inr (None, None)"
  by (simp add: ask_sources_def)

lemma geo_lookup_transparent:
  assumes "index_ok trunc sources i"
  shows "fst (geo_lookup trunc ip i) = ask_sources trunc sources ip \<and>
    index_ok trunc sources (snd (geo_lookup trunc ip i))"
proof (cases "ip = [] \<or> sources = [] \<or> dict_get (gi_memo i) ip \<noteq> None")
  case True
  have src: "gi_sources i = sources" using assms by (simp add: index_ok_def)
  have "ask_sources trunc sources ip = Inr out" if "dict_get (gi_memo i) ip = Some out" for out
    using assms that by (cases out) (simp add: index_ok_def memo_true_def)
  then show ?thesis using True assms
    by (cases "ip = []"; cases "sources = []") (auto simp: geo_lookup_def src ask_sources_def[of _ _ "[]"])
next
  case False
  have src: "gi_sources i = sources" using assms by (simp add: index_ok_def)
  have miss: "dict_get (gi_memo i) ip = None" using False by blast
  obtain r j where c: "consult trunc ip sources (None, None) i = (r, j)" by fastforce
  have r: "r = ask_sources trunc sources ip"
    using consult_index[of trunc ip sources "(None, None)" i blank_index] False by (simp add: ask_sources_def c)
  have keep: "gi_sources j = gi_sources i" "gi_memo j = gi_memo i"
    using consult_keeps[of trunc ip sources "(None, None)" i] by (simp_all add: c)
  have lk: "geo_lookup trunc ip i = (r, case r of Inl _ \<Rightarrow> j | Inr out \<Rightarrow> j\<lparr>gi_memo := geo_remember ip out (gi_memo j)\<rparr>)"
    using False by (cases r) (simp_all add: geo_lookup_def src miss c)
  have t: "memo_true trunc sources (memo_keep ip r (gi_memo i))"
    unfolding r using assms by (intro geo_lookaside.remember_sound) (simp add: index_ok_def)
  show ?thesis
  proof (cases r)
    case (Inl e)
    then show ?thesis using assms r by (simp add: lk index_ok_def keep)
  next
    case (Inr out)
    have "distinct (map fst (gi_memo i)) \<and> length (gi_memo i) \<le> geo_memo_max"
      using assms by (simp add: index_ok_def)
    from geo_store.ok_store[OF this, of ip out]
    have "distinct (map fst (geo_remember ip out (gi_memo i))) \<and> length (geo_remember ip out (gi_memo i)) \<le> geo_memo_max" .
    moreover have "memo_true trunc sources (geo_remember ip out (gi_memo i))" using t by (simp add: Inr memo_keep_def)
    moreover have "ask_sources trunc sources ip = Inr out" using r Inr by simp
    ultimately show ?thesis using src by (simp add: lk Inr index_ok_def keep)
  qed
qed

lemma ask_sources_first:
  assumes "list_all (steady trunc ip) sources" "ip \<noteq> []"
  shows "ask_sources trunc sources ip
    = Inr (first_answer (rec_country ip) sources, first_answer (rec_asn trunc ip) sources)"
  using consult_first[OF assms(1)] assms(2) by (simp add: ask_sources_def)

lemma fresh_index_ok [simp]: "index_ok trunc sources (geo_index_of sha sources errors)"
  by (simp add: index_ok_def geo_index_of_def memo_true_def)


section \<open>A resolution is a function of the event and the sources\<close>

definition true_label :: "string \<Rightarrow> string \<Rightarrow> string list" where
  "true_label ip role =
     (case scope_uncached (strip ip) of
        None \<Rightarrow> [] | Some label \<Rightarrow> if label = [] then [] else [role @ '':'' @ strip label])"

definition true_labels :: "evtlike \<Rightarrow> string list" where
  "true_labels evt =
     true_label (ip_text (like_get evt ''src_ip'')) ''src'' @ true_label (ip_text (like_get evt ''dst_ip'')) ''dst''"

definition geo_meaning ::
    "(string \<Rightarrow> py_error + int) \<Rightarrow> geo_source list \<Rightarrow> evtlike \<Rightarrow> py_error + geo_result" where
  "geo_meaning trunc sources evt =
     sbind (ask_sources trunc sources (ip_text (like_get evt ''src_ip''))) (\<lambda>(sc, sa).
     sbind (ask_sources trunc sources (ip_text (like_get evt ''dst_ip''))) (\<lambda>(dc, da).
       Inr \<lparr>g_src_country = sc, g_dst_country = dc, g_src_asn = sa, g_dst_asn = da,
            g_tags = canonical_tags (map VStr (true_labels evt))\<rparr>))"

lemma canonical_tags_Nil [simp]: "canonical_tags [] = []"
  by (simp add: canonical_tags_def)

lemma true_label_Nil [simp]: "true_label [] role = []"
  by (simp add: true_label_def)

lemma ask_sources_Nil [simp]: "ask_sources trunc sources [] = Inr (None, None)"
  by (simp add: ask_sources_def)

lemma scope_label_true:
  assumes "memo_sound sm"
  shows "fst (scope_label ip role sm) = true_label ip role \<and> memo_sound (snd (scope_label ip role sm))"
  using scope_transparent[OF assms, of ip] assms
  by (cases "scope ip sm") (auto simp: scope_label_def true_label_def split: option.splits)

lemma side_lookup_ask:
  assumes "index_ok trunc sources i"
  shows "fst (side_lookup trunc ip i) = ask_sources trunc sources ip \<and>
    index_ok trunc sources (snd (side_lookup trunc ip i))"
  using geo_lookup_transparent[OF assms, of ip] assms
  by (auto simp: side_lookup_def geo_is_empty_def index_ok_def)

lemma geo_answers_ask:
  assumes "index_ok trunc sources i"
  shows "fst (geo_answers trunc src dst i)
      = sbind (ask_sources trunc sources src) (\<lambda>s. sbind (ask_sources trunc sources dst) (\<lambda>d. Inr (s, d)))
    \<and> index_ok trunc sources (snd (geo_answers trunc src dst i))"
proof -
  obtain r j where s: "side_lookup trunc src i = (r, j)" by fastforce
  have s': "r = ask_sources trunc sources src" "index_ok trunc sources j"
    using side_lookup_ask[OF assms, of src] by (simp_all add: s)
  obtain q k where d: "side_lookup trunc dst j = (q, k)" by fastforce
  have d': "q = ask_sources trunc sources dst" "index_ok trunc sources k"
    using side_lookup_ask[OF s'(2), of dst] by (simp_all add: d)
  show ?thesis using s'(2) d'(2)
    by (cases "ask_sources trunc sources src"; cases "ask_sources trunc sources dst")
      (simp_all add: geo_answers_def s d s'(1) d'(1))
qed

lemma geo_resolve_meaning:
  assumes "memo_sound sm" "index_ok trunc sources i"
  shows "fst (geo_resolve trunc evt (sm, i)) = geo_meaning trunc sources evt \<and>
    memo_sound (fst (snd (geo_resolve trunc evt (sm, i)))) \<and>
    index_ok trunc sources (snd (snd (geo_resolve trunc evt (sm, i))))"
proof -
  let ?src = "ip_text (like_get evt ''src_ip'')" and ?dst = "ip_text (like_get evt ''dst_ip'')"
  obtain t1 sm1 where l1: "scope_label ?src ''src'' sm = (t1, sm1)" by fastforce
  have l1': "t1 = true_label ?src ''src''" "memo_sound sm1" using scope_label_true[OF assms(1), of ?src "''src''"]
    by (simp_all add: l1)
  obtain t2 sm2 where l2: "scope_label ?dst ''dst'' sm1 = (t2, sm2)" by fastforce
  have l2': "t2 = true_label ?dst ''dst''" "memo_sound sm2" using scope_label_true[OF l1'(2), of ?dst "''dst''"]
    by (simp_all add: l2)
  obtain r j where a: "geo_answers trunc ?src ?dst i = (r, j)" by fastforce
  have a': "r = sbind (ask_sources trunc sources ?src) (\<lambda>s. sbind (ask_sources trunc sources ?dst) (\<lambda>d. Inr (s, d)))"
    "index_ok trunc sources j" using geo_answers_ask[OF assms(2), of ?src ?dst] by (simp_all add: a)
  have tags: "true_labels evt = t1 @ t2" by (simp add: true_labels_def l1' l2')
  show ?thesis
  proof (cases "?src = [] \<and> ?dst = []")
    case True
    then show ?thesis using assms
      by (simp add: geo_resolve_def geo_meaning_def empty_geo_def true_labels_def)
  next
    case False
    then have res: "geo_resolve trunc evt (sm, i) =
      (case r of Inl e \<Rightarrow> (Inl e, sm2, j)
       | Inr ((sc, sa), (dc, da)) \<Rightarrow>
         (Inr (if t1 @ t2 = [] \<and> sc = None \<and> dc = None \<and> sa = None \<and> da = None then empty_geo
           else \<lparr>g_src_country = sc, g_dst_country = dc, g_src_asn = sa, g_dst_asn = da,
                 g_tags = canonical_tags (map VStr (t1 @ t2))\<rparr>), sm2, j))"
      by (auto simp: geo_resolve_def l1 l2 a Let_def split: sum.splits)
    show ?thesis
    proof (cases r)
      case (Inl e)
      then show ?thesis using a' l2'(2)
        by (cases "ask_sources trunc sources ?src"; cases "ask_sources trunc sources ?dst")
          (auto simp: res geo_meaning_def)
    next
      case (Inr p)
      then obtain sc sa dc da where p: "r = Inr ((sc, sa), (dc, da))" by (cases p) auto
      then have q: "ask_sources trunc sources ?src = Inr (sc, sa)" "ask_sources trunc sources ?dst = Inr (dc, da)"
        using a'(1) by (cases "ask_sources trunc sources ?src"; cases "ask_sources trunc sources ?dst"; simp)+
      show ?thesis using a'(2) l2'(2) by (simp add: res p geo_meaning_def q tags empty_geo_def)
    qed
  qed
qed


section \<open>Form of an answer\<close>

definition answer_ok :: "geo_answer \<Rightarrow> bool" where
  "answer_ok out \<longleftrightarrow>
     (case fst out of None \<Rightarrow> True | Some c \<Rightarrow> country_ok c) \<and>
     (case snd out of None \<Rightarrow> True | Some n \<Rightarrow> 1 \<le> n \<and> n < 2 ^ 32)"

definition geo_result_ok :: "geo_result \<Rightarrow> bool" where
  "geo_result_ok r \<longleftrightarrow>
     answer_ok (g_src_country r, g_src_asn r) \<and> answer_ok (g_dst_country r, g_dst_asn r) \<and>
     sorted (g_tags r) \<and> distinct (g_tags r) \<and> list_all (\<lambda>t. t \<noteq> [] \<and> lower (strip t) = t) (g_tags r)"

lemma consult_ok:
  assumes "answer_ok ca" and "fst (consult trunc ip ss ca i) = Inr out"
  shows "answer_ok out"
  using assms
proof (induction trunc ip ss ca i rule: consult.induct)
  case (2 trunc ip s ss c a i)
  have c: "answer_ok (if c = None then norm_country v else c, x)" if "answer_ok (c, x)" for v x
    using that norm_country_ok[of v] by (auto simp: answer_ok_def split: option.splits)
  have a: "answer_ok (x, a')" if "norm_asn trunc v = Inr a'" "answer_ok (x, None)" for v x a'
    using that norm_asn_range[of trunc v] by (auto simp: answer_ok_def split: option.splits)
  show ?case using 2 c a
    by (auto simp: Let_def split: if_splits sum.splits pyval.splits)
qed simp

lemma ask_sources_ok: "ask_sources trunc sources ip = Inr out \<Longrightarrow> answer_ok out"
  using consult_ok[of "(None, None)" trunc ip sources blank_index out]
  by (auto simp: ask_sources_def answer_ok_def split: if_splits)

lemma geo_meaning_ok:
  assumes "geo_meaning trunc sources evt = Inr r"
  shows "geo_result_ok r"
  using assms ask_sources_ok[of trunc sources "ip_text (like_get evt ''src_ip'')"]
    ask_sources_ok[of trunc sources "ip_text (like_get evt ''dst_ip'')"]
  by (auto simp: geo_meaning_def geo_result_ok_def canonical_tags_sorted list_all_iff tag_set_def strip_lower)

lemma geo_meaning_files:
  assumes "list_all from_file sources"
  shows "geo_meaning trunc sources evt =
    (let src = ip_text (like_get evt ''src_ip''); dst = ip_text (like_get evt ''dst_ip'');
         find_c = (\<lambda>ip. if ip = [] then None else first_answer (rec_country ip) sources);
         find_a = (\<lambda>ip. if ip = [] then None else first_answer (rec_asn trunc ip) sources) in
     Inr \<lparr>g_src_country = find_c src, g_dst_country = find_c dst, g_src_asn = find_a src, g_dst_asn = find_a dst,
          g_tags = canonical_tags (map VStr (true_labels evt))\<rparr>)"
proof -
  have st: "list_all (steady trunc ip) sources" for ip using assms by (auto simp: list_all_iff)
  show ?thesis
    by (cases "ip_text (like_get evt ''src_ip'') = []"; cases "ip_text (like_get evt ''dst_ip'') = []")
      (simp_all add: geo_meaning_def ask_sources_first[OF st] Let_def)
qed

section \<open>Loading and reloading\<close>

definition configured_count :: "geo_world \<Rightarrow> nat" where
  "configured_count w = length (filter (\<lambda>n. setting w n \<noteq> []) geo_settings)"

definition layer_total :: "geo_source list \<times> (string \<times> geo_fault option) list \<Rightarrow> nat" where
  "layer_total acc = length (fst acc) + length (snd acc)"

lemma open_layer_total:
  "layer_total (open_layer w acc (key, name, opener)) = layer_total acc + (if setting w key = [] then 0 else 1)"
  by (cases acc) (auto simp: layer_total_def open_layer_def Let_def split: sum.splits)

lemma geo_load_count:
  "length (gi_sources (geo_load w)) + length (gi_errors (geo_load w))
     = configured_count w + (if configured w \<or> settings_wired w then 0 else 1)"
proof -
  obtain ss es where l: "foldl (open_layer w) ([], []) geo_layers = (ss, es)" by fastforce
  have "layer_total (foldl (open_layer w) ([], []) geo_layers) = configured_count w"
    by (simp add: geo_layers_def configured_count_def geo_settings_def open_layer_total)
      (simp add: layer_total_def)
  then have "length ss + length es = configured_count w" by (simp add: l layer_total_def)
  then show ?thesis by (simp add: geo_load_def l geo_index_of_def)
qed

lemma opened_from_file:
  "open_csv w path name = Inr s \<Longrightarrow> from_file s" "open_mmdb w path name = Inr s \<Longrightarrow> from_file s"
  by (auto simp: open_csv_def open_mmdb_def Let_def from_file_def range_source_def mmdb_source_def
      split: option.splits)

lemma geo_load_from_file: "list_all from_file (gi_sources (geo_load w))"
  by (auto simp: geo_load_def geo_layers_def open_layer_def geo_index_of_def Let_def
      split: sum.splits if_splits dest: opened_from_file)

lemma geo_reload_keeps:
  assumes "gm_cache m = Some old" "\<not> geo_is_empty old" "configured w" "geo_is_empty (geo_load w)"
  shows "geo_reload w m = (old, m)"
proof -
  have "0 < configured_count w" using assms(3)
    by (auto simp: configured_def configured_count_def list_ex_iff filter_empty_conv)
  then have "gi_errors (geo_load w) \<noteq> []" using geo_load_count[of w] assms(4) by (auto simp: geo_is_empty_def)
  then show ?thesis using assms by (simp add: geo_reload_def Let_def)
qed


section \<open>The fingerprint\<close>

definition nul_free :: "geo_source \<Rightarrow> bool" where
  "nul_free s \<longleftrightarrow> list_all (\<lambda>f. nul \<notin> set f) [gs_name s, gs_kind s, gs_path s, gs_build s]"

definition terminated :: "string list \<Rightarrow> string" where
  "terminated fs = concat (map (\<lambda>f. f @ [nul]) fs)"

lemma terminated_inj:
  assumes "list_all (\<lambda>f. nul \<notin> set f) fs" "list_all (\<lambda>f. nul \<notin> set f) gs" "terminated fs = terminated gs"
  shows "fs = gs"
  using assms
proof (induction fs arbitrary: gs)
  case Nil
  then show ?case by (cases gs) (auto simp: terminated_def)
next
  case (Cons f fs)
  then obtain g gs' where gs: "gs = g # gs'" by (cases gs) (auto simp: terminated_def)
  have eq: "f @ nul # terminated fs = g @ nul # terminated gs'" using Cons.prems(3) by (simp add: terminated_def gs)
  have tw: "takeWhile (\<lambda>c. c \<noteq> nul) (h @ nul # r) = h" if "nul \<notin> set h" for h r
    using that by (subst takeWhile_append2) auto
  have "f = g" using arg_cong[OF eq, of "takeWhile (\<lambda>c. c \<noteq> nul)"] Cons.prems(1,2) tw by (simp add: gs)
  moreover from this have "fs = gs'" using eq Cons by (simp add: gs)
  ultimately show ?case by (simp add: gs)
qed

lemma nat_str_no_nul: "0 \<le> n \<Longrightarrow> nul \<notin> set (nat_str n)"
  using nat_str_digits[of n] by (auto simp: list_all_iff nul_def is_digit_def code_def)

lemma int_str_no_nul [simp]: "nul \<notin> set (int_str n)"
  using nat_str_no_nul[of n] nat_str_no_nul[of "- n"] by (auto simp: int_str_def nul_def)

lemma fields_eq_map:
  assumes "concat (map fingerprint_fields ss) = concat (map fingerprint_fields ts)"
  shows "map fingerprint_fields ss = map fingerprint_fields ts"
  using assms
proof (induction ss arbitrary: ts)
  case Nil
  then show ?case by (cases ts) (auto simp: fingerprint_fields_def)
next
  case (Cons s ss)
  then obtain t ts' where ts: "ts = t # ts'" by (cases ts) (auto simp: fingerprint_fields_def)
  have "fingerprint_fields s @ concat (map fingerprint_fields ss)
      = fingerprint_fields t @ concat (map fingerprint_fields ts')" using Cons.prems by (simp add: ts)
  moreover have "length (fingerprint_fields s) = length (fingerprint_fields t)" by (simp add: fingerprint_fields_def)
  ultimately have "fingerprint_fields s = fingerprint_fields t \<and>
      concat (map fingerprint_fields ss) = concat (map fingerprint_fields ts')" by simp
  then show ?case using Cons.IH by (simp add: ts)
qed

lemma fingerprint_text_inj:
  assumes "list_all nul_free ss" "list_all nul_free ts" "fingerprint_text ss = fingerprint_text ts"
  shows "map fingerprint_fields ss = map fingerprint_fields ts"
proof -
  have t: "fingerprint_text us = derivation_version @ terminated (concat (map fingerprint_fields us))" for us
    by (induction us) (simp_all add: fingerprint_text_def terminated_def)
  have free: "list_all (\<lambda>f. nul \<notin> set f) (concat (map fingerprint_fields us))" if "list_all nul_free us" for us
    using that by (auto simp: list_all_iff nul_free_def fingerprint_fields_def)
  have "concat (map fingerprint_fields ss) = concat (map fingerprint_fields ts)"
    using assms by (intro terminated_inj free) (simp_all add: t)
  then show ?thesis by (rule fields_eq_map)
qed

section \<open>A loaded index over a stream of events\<close>

definition after_events :: "(string \<Rightarrow> py_error + int) \<Rightarrow> evtlike list \<Rightarrow> geo_caches \<Rightarrow> geo_caches" where
  "after_events trunc evts st = foldl (\<lambda>st e. snd (geo_resolve trunc e st)) st evts"

lemma after_events_ok:
  assumes "memo_sound (fst st)" "index_ok trunc sources (snd st)"
  shows "memo_sound (fst (after_events trunc evts st)) \<and> index_ok trunc sources (snd (after_events trunc evts st))"
  using assms
proof (induction evts arbitrary: st)
  case (Cons e es)
  show ?case using Cons.IH[of "snd (geo_resolve trunc e st)"] geo_resolve_meaning[of "fst st" trunc sources "snd st" e] Cons.prems
    by (simp add: after_events_def)
qed (simp add: after_events_def)

lemma geo_load_ok: "index_ok trunc (gi_sources (geo_load w)) (geo_load w)"
proof -
  have "geo_load w = geo_index_of (gw_sha w) (gi_sources (geo_load w)) (gi_errors (geo_load w))"
    by (cases "foldl (open_layer w) ([], []) geo_layers") (simp add: geo_load_def geo_index_of_def)
  then show ?thesis by (metis fresh_index_ok)
qed

lemma loaded_resolution:
  "fst (geo_resolve trunc evt (after_events trunc evts ([], geo_load w))) = geo_meaning trunc (gi_sources (geo_load w)) evt"
proof -
  obtain sm i where st: "after_events trunc evts ([], geo_load w) = (sm, i)" by fastforce
  have "memo_sound sm \<and> index_ok trunc (gi_sources (geo_load w)) i"
    using after_events_ok[of "([], geo_load w)" trunc "gi_sources (geo_load w)" evts] geo_load_ok[of trunc w]
    by (simp add: st memo_sound_def)
  then show ?thesis using geo_resolve_meaning[of sm trunc "gi_sources (geo_load w)" i evt] by (simp add: st)
qed

lemma geo_reload_run:
  assumes "list_all configured ws" "gm_cache m = Some i" "\<not> geo_is_empty i"
  shows "\<exists>j. gm_cache (foldl (\<lambda>m w. snd (geo_reload w m)) m ws) = Some j \<and> \<not> geo_is_empty j"
  using assms
proof (induction ws arbitrary: m i)
  case (Cons w ws)
  obtain j where "gm_cache (snd (geo_reload w m)) = Some j \<and> \<not> geo_is_empty j"
  proof (cases "geo_is_empty (geo_load w)")
    case True
    then show ?thesis using that geo_reload_keeps[OF Cons.prems(2,3) _ True] Cons.prems by simp
  next
    case False
    then show ?thesis using that Cons.prems by (auto simp: geo_reload_def Let_def)
  qed
  then show ?case using Cons.IH[of "snd (geo_reload w m)" j] Cons.prems(1) by simp
qed simp

text \<open>An infinite number in a record costs the record its country as well.\<close>

lemma infinite_number_raises:
  assumes "mm_get m ''autonomous_system_number'' = Some (MDouble bs)" "ieee 11 52 bs = Some (Infinite neg)"
  shows "from_mmdb_record (Some (MMap m)) = Inl OverflowError"
  using assms by (simp add: from_mmdb_record_def mm_asn_def norm_asn_def number_trunc_def Let_def)

section \<open>Properties\<close>

text \<open>C1: Whatever events were resolved before, resolving an event against a loaded index gives, for each side and each field by itself, the first answer any source has in the order of precedence, sources that fail being passed over, and the scope labels of the two addresses, which need no source.\<close>

theorem geo_resolution_first_source_wins:
  "fst (geo_resolve trunc evt (after_events trunc evts ([], geo_load w))) =
    (let src = ip_text (like_get evt ''src_ip''); dst = ip_text (like_get evt ''dst_ip'');
         sources = gi_sources (geo_load w);
         country = (\<lambda>ip. if ip = [] then None else first_answer (rec_country ip) sources);
         asn = (\<lambda>ip. if ip = [] then None else first_answer (rec_asn trunc ip) sources) in
     Inr \<lparr>g_src_country = country src, g_dst_country = country dst, g_src_asn = asn src, g_dst_asn = asn dst,
          g_tags = canonical_tags (map VStr (true_labels evt))\<rparr>)"
  unfolding loaded_resolution using geo_meaning_files[OF geo_load_from_file[of w], of trunc evt] by (simp add: Let_def)

definition demo_source :: geo_source where
  "demo_source = literal_source [(''8.8.8.8'', VDict [(''country'', VStr '' us''), (''asn'', VStr ''AS15169'')])] ''demo''"

definition demo_event :: evtlike where
  "demo_event = Row [(''src_ip'', VStr ''10.0.0.1''), (''dst_ip'', VStr ''8.8.8.8'')]"

definition demo_index :: geo_index where
  "demo_index = geo_index_of (\<lambda>t. t) [demo_source] []"

lemma demo_resolved:
  "fst (geo_resolve (\<lambda>_. Inl ValueError) demo_event ([], demo_index)) =
    Inr \<lparr>g_src_country = None, g_dst_country = Some ''US'', g_src_asn = None, g_dst_asn = Some 15169,
         g_tags = [''dst:public'', ''src:private'']\<rparr>"
  by code_simp

text \<open>C2: Every resolution against an index that answers truly is in canonical form: countries are two capital letters, AS numbers lie between 1 and the last 32-bit number, labels are sorted, distinct, lower-case and not blank.\<close>

theorem geo_values_are_canonical:
  assumes "memo_sound sm" and "index_ok trunc sources i"
    and "fst (geo_resolve trunc evt (sm, i)) = Inr r"
  shows "geo_result_ok r"
  using geo_resolve_meaning[OF assms(1,2), of evt] assms(3) geo_meaning_ok by metis

theorem geo_values_are_canonical_witness:
  "geo_result_ok \<lparr>g_src_country = None, g_dst_country = Some ''US'', g_src_asn = None, g_dst_asn = Some 15169,
     g_tags = [''dst:public'', ''src:private'']\<rparr>"
  by (rule geo_values_are_canonical[OF _ _ demo_resolved, of "[demo_source]"]) (simp_all add: memo_sound_def demo_index_def)

definition demo_world :: "string \<Rightarrow> geo_world" where
  "demo_world path = \<lparr>gw_settings = Some [(''geo_asn_db'', path)], gw_abspath = (\<lambda>p. p), gw_file = (\<lambda>_. None),
     gw_sha = (\<lambda>t. t), gw_float = (\<lambda>_. [])\<rparr>"

text \<open>C3: As long as some path is configured, no sequence of reloads takes an index with sources away, whatever the files are by then: a reload that finds nothing usable keeps the previous index.\<close>

theorem reload_never_strips_sources:
  assumes "list_all configured ws" and "gm_cache m = Some i" and "\<not> geo_is_empty i"
  shows "\<exists>j. gm_cache (foldl (\<lambda>m w. snd (geo_reload w m)) m ws) = Some j \<and> \<not> geo_is_empty j"
  using assms by (rule geo_reload_run)

theorem reload_never_strips_sources_witness:
  "\<exists>j. gm_cache (foldl (\<lambda>m w. snd (geo_reload w m)) \<lparr>gm_cache = Some demo_index, gm_generation = 1\<rparr>
        [demo_world ''a.mmdb'', demo_world ''b.mmdb'']) = Some j \<and> \<not> geo_is_empty j"
proof (rule reload_never_strips_sources)
  show "list_all configured [demo_world ''a.mmdb'', demo_world ''b.mmdb'']" by code_simp
  show "gm_cache \<lparr>gm_cache = Some demo_index, gm_generation = 1\<rparr> = Some demo_index" by simp
  show "\<not> geo_is_empty demo_index" by (simp add: demo_index_def geo_index_of_def geo_is_empty_def)
qed

text \<open>The text that is hashed for the fingerprint determines name, kind, path, size, time, rows and build of every source and their order, as long as no name, path or build holds a NUL.\<close>

lemma fingerprint_tells_sources_apart:
  assumes "list_all nul_free ss" and "list_all nul_free ts" and "fingerprint_text ss = fingerprint_text ts"
  shows "map fingerprint_fields ss = map fingerprint_fields ts"
  using assms by (rule fingerprint_text_inj)

text \<open>A record whose AS number is an infinite float raises inside the source, so the country of the same record is lost with it.\<close>

lemma infinite_number_costs_the_country:
  assumes "mm_get m ''autonomous_system_number'' = Some (MDouble bs)" and "ieee 11 52 bs = Some (Infinite neg)"
  shows "from_mmdb_record (Some (MMap m)) = Inl OverflowError"
  using assms by (rule infinite_number_raises)

lemma infinite_number_costs_the_country_example:
  "from_mmdb_record (Some (MMap [(MStr ''country'', MMap [(MStr ''iso_code'', MStr ''DE'')]),
     (MStr ''autonomous_system_number'', MDouble [127, 240, 0, 0, 0, 0, 0, 0])])) = Inl OverflowError"
  by (rule infinite_number_costs_the_country[of _ "[127, 240, 0, 0, 0, 0, 0, 0]" False]) code_simp+

end
