(* ===== verification/Assets.thy ===== *)
theory Assets
  imports GeoFacts
begin

text \<open>
  The asset and identity registry (\<open>app/assets\<close>): its value types, the canonical form of every kind of
  alias, the index with containment for declared networks, the resolution of an event, and the registry's
  cached index. A row of a table is a dictionary of column values. Reading the four tables is an argument:
  what it would give at that moment, or the exception it raises. Parameters: SHA-256 and \<open>json.dumps\<close>.
\<close>

section \<open>Value types\<close>

definition criticality_levels :: "string list" where
  "criticality_levels = [''critical'', ''high'', ''medium'', ''low'', ''unknown'']"

fun index_in :: "'a \<Rightarrow> 'a list \<Rightarrow> nat" where
  "index_in x [] = 0"
| "index_in x (y # ys) = (if x = y then 0 else Suc (index_in x ys))"

definition level_text :: "string option \<Rightarrow> string" where
  "level_text v = lower (strip (case v of None \<Rightarrow> [] | Some s \<Rightarrow> s))"

definition level_rank :: "string option \<Rightarrow> nat" where
  "level_rank v = index_in (level_text v) criticality_levels"

definition normalize_level :: "string option \<Rightarrow> string" where
  "normalize_level v = (let l = level_text v in if l \<in> set criticality_levels then l else ''unknown'')"

record asset =
  as_id :: string
  as_display_name :: string
  as_criticality :: string
  as_category :: "string list"
  as_owner :: string
  as_business_unit :: string
  as_environment :: string
  as_watchlist :: "string list"
  as_enabled :: bool
  as_notes :: string
  as_source :: string

record identity =
  id_id :: string
  id_display_name :: string
  id_priority :: string
  id_department :: string
  id_manager :: string
  id_title :: string
  id_email :: string
  id_watchlist :: "string list"
  id_enabled :: bool
  id_notes :: string
  id_source :: string

definition asset_labels :: "string \<Rightarrow> asset \<Rightarrow> string list" where
  "asset_labels role a =
     map (\<lambda>c. role @ '':'' @ c) (as_category a) @ map (\<lambda>w. role @ '':'' @ w) (as_watchlist a)
     @ (if as_environment a = [] then [] else [role @ '':'' @ as_environment a])"

definition identity_labels :: "identity \<Rightarrow> string list" where
  "identity_labels i = map (\<lambda>w. ''identity:'' @ w) (id_watchlist i)"

record resolution =
  rs_asset_id :: "string option"
  rs_asset_criticality :: "string option"
  rs_identity_id :: "string option"
  rs_identity_priority :: "string option"
  rs_context_tags :: "string list"
  rs_asset_via :: string

definition empty_resolution :: resolution where
  "empty_resolution = \<lparr>rs_asset_id = None, rs_asset_criticality = None, rs_identity_id = None,
     rs_identity_priority = None, rs_context_tags = [], rs_asset_via = []\<rparr>"

definition present :: "string option \<Rightarrow> bool" where
  "present v = (case v of None \<Rightarrow> False | Some s \<Rightarrow> s \<noteq> [])"

definition resolution_is_empty :: "resolution \<Rightarrow> bool" where
  "resolution_is_empty r \<longleftrightarrow>
     \<not> (present (rs_asset_id r) \<or> present (rs_identity_id r) \<or> rs_context_tags r \<noteq> [])"

section \<open>Canonical aliases\<close>

definition or_none :: "string \<Rightarrow> string option" where
  "or_none s = (if s = [] then None else Some s)"

definition rstrip_dots :: "string \<Rightarrow> string" where
  "rstrip_dots s = rev (dropWhile (\<lambda>c. c = CHR ''.'') (rev s))"

definition norm_hostname :: "pyval \<Rightarrow> string option" where
  "norm_hostname v = or_none (lower (rstrip_dots (strip (text_or_blank v))))"

definition norm_fqdn :: "pyval \<Rightarrow> string option" where
  "norm_fqdn v = norm_hostname v"

definition norm_ip :: "pyval \<Rightarrow> string option" where
  "norm_ip v =
     (let s = strip (text_or_blank v) in
      if s = [] then None else map_option (\<lambda>a. ip_str (unmapped a)) (ip_address s))"

definition net_str :: "ipnet \<Rightarrow> string" where
  "net_str n =
     ip_str (if net_version n = 4 then IPv4 (net_addr n) else IPv6 (net_addr n) None) @ ''/'' @ nat_str (int (net_plen n))"

definition norm_cidr :: "pyval \<Rightarrow> string option" where
  "norm_cidr v =
     (let s = strip (text_or_blank v) in if s = [] then None else map_option net_str (ip_network s))"

fun pairs_joined :: "string \<Rightarrow> string" where
  "pairs_joined (a # b # c # cs) = a # b # CHR '':'' # pairs_joined (c # cs)"
| "pairs_joined s = s"

definition norm_mac :: "pyval \<Rightarrow> string option" where
  "norm_mac v =
     (let digits = lower (filter is_hex (text_or_blank v)) in
      if length digits = 12 then Some (pairs_joined digits) else None)"

text \<open>\<open>len\<close> of a text counts characters: the continuation bytes of UTF-8 do not start one.\<close>

definition text_len :: "string \<Rightarrow> nat" where
  "text_len s = length (filter (\<lambda>c. \<not> (128 \<le> code c \<and> code c < 192)) s)"

definition norm_email :: "pyval \<Rightarrow> string option" where
  "norm_email v =
     (let s = lower (strip (text_or_blank v)) in if CHR ''@'' \<in> set s \<and> 2 < text_len s then Some s else None)"

definition norm_upn :: "pyval \<Rightarrow> string option" where
  "norm_upn v = norm_email v"

definition norm_sam :: "pyval \<Rightarrow> string option" where
  "norm_sam v = or_none (replace_char (CHR ''/'') [backslash] (lower (strip (text_or_blank v))))"

definition norm_plain :: "pyval \<Rightarrow> string option" where
  "norm_plain v = or_none (lower (strip (text_or_blank v)))"

definition asset_normalizers :: "(string, pyval \<Rightarrow> string option) dict" where
  "asset_normalizers =
     [(''hostname'', norm_hostname), (''fqdn'', norm_fqdn), (''ip'', norm_ip), (''cidr'', norm_cidr),
      (''mac'', norm_mac)]"

definition identity_normalizers :: "(string, pyval \<Rightarrow> string option) dict" where
  "identity_normalizers =
     [(''email'', norm_email), (''upn'', norm_upn), (''sam'', norm_sam), (''employee_id'', norm_plain),
      (''cn'', norm_plain)]"

definition asset_alias_types :: "string list" where
  "asset_alias_types = [''hostname'', ''fqdn'', ''ip'', ''cidr'', ''mac'']"

definition identity_alias_types :: "string list" where
  "identity_alias_types = [''email'', ''upn'', ''sam'', ''employee_id'', ''cn'']"

definition norm_alias :: "string \<Rightarrow> pyval \<Rightarrow> string option" where
  "norm_alias alias_type v =
     (let t = lower (strip alias_type) in
      case dict_get asset_normalizers t of
        Some f \<Rightarrow> f v
      | None \<Rightarrow> (case dict_get identity_normalizers t of Some f \<Rightarrow> f v | None \<Rightarrow> None))"

definition alias_type_valid :: "string \<Rightarrow> bool \<Rightarrow> bool" where
  "alias_type_valid alias_type ident \<longleftrightarrow>
     lower (strip alias_type) \<in> set (if ident then identity_alias_types else asset_alias_types)"

type_synonym alias_key = "string \<times> string"

definition asset_candidates :: "pyval \<Rightarrow> alias_key list" where
  "asset_candidates v =
     (case norm_hostname v of
        None \<Rightarrow> []
      | Some s \<Rightarrow>
          (case norm_ip (VStr s) of
             Some ip \<Rightarrow> [(''ip'', ip)]
           | None \<Rightarrow>
               (let short = takeWhile (\<lambda>c. c \<noteq> CHR ''.'') s in
                (if CHR ''.'' \<in> set s then [(''fqdn'', s)] else [])
                @ (if short = [] then [] else [(''hostname'', short)]))))"

text \<open>\<open>s.rsplit(sep, 1)[-1]\<close>.\<close>

definition after_last :: "char \<Rightarrow> string \<Rightarrow> string" where
  "after_last c s = rev (takeWhile (\<lambda>x. x \<noteq> c) (rev s))"

definition identity_candidates :: "pyval \<Rightarrow> alias_key list" where
  "identity_candidates v =
     (let s = strip (text_or_blank v) in
      if s = [] then []
      else if CHR ''@'' \<in> set s then [(''upn'', lower s), (''email'', lower s)]
      else if backslash \<in> set s \<or> CHR ''/'' \<in> set s
      then (let full = norm_sam (VStr s);
                bare = (case full of None \<Rightarrow> [] | Some f \<Rightarrow> after_last backslash f) in
            (case full of None \<Rightarrow> [] | Some f \<Rightarrow> [(''sam'', f)])
            @ (if bare \<noteq> [] \<and> Some bare \<noteq> full then [(''sam'', bare)] else []))
      else (case norm_plain (VStr s) of None \<Rightarrow> [] | Some low \<Rightarrow> [(''sam'', low), (''employee_id'', low)]))"

section \<open>The index\<close>

record asset_index =
  ai_assets :: "(string, asset) dict"
  ai_identities :: "(string, identity) dict"
  ai_asset_alias :: "(alias_key, string) dict"
  ai_identity_alias :: "(alias_key, string) dict"
  ai_cidrs :: "(ipnet \<times> string) list"
  ai_fingerprint :: string
  ai_ip_memo :: "(string, string option) dict"

text \<open>What hashes an index: SHA-256 in hexadecimal and \<open>json.dumps\<close>.\<close>

record hashing =
  h_sha :: "string \<Rightarrow> string"
  h_json :: "pyval \<Rightarrow> string"

definition text_list :: "string list \<Rightarrow> pyval" where
  "text_list ts = VList (map VStr ts)"

definition sorted_keys :: "('k::linorder, 'v) dict \<Rightarrow> ('k \<times> 'v) list" where
  "sorted_keys d = sort_key fst d"

definition index_text :: "hashing \<Rightarrow> asset_index \<Rightarrow> string" where
  "index_text h i =
     concat (map (\<lambda>(aid, a). h_json h (VList [VStr aid, VStr (as_criticality a), text_list (sort (as_category a)),
                                             text_list (sort (as_watchlist a)), VStr (as_environment a)]))
                 (sorted_keys (ai_assets i)))
     @ concat (map (\<lambda>(iid, p). h_json h (VList [VStr iid, VStr (id_priority p), text_list (sort (id_watchlist p))]))
                   (sorted_keys (ai_identities i)))
     @ concat (map (\<lambda>((t, v), aid). ''a'' @ t @ [nul] @ v @ [nul] @ aid) (sorted_keys (ai_asset_alias i)))
     @ concat (map (\<lambda>((t, v), iid). ''i'' @ t @ [nul] @ v @ [nul] @ iid) (sorted_keys (ai_identity_alias i)))"

definition index_fingerprint :: "hashing \<Rightarrow> asset_index \<Rightarrow> string" where
  "index_fingerprint h i = take 32 (h_sha h (index_text h i))"

text \<open>\<open>{key(x): value(x) for x in xs}\<close>.\<close>

definition dict_of :: "('k \<times> 'v) list \<Rightarrow> ('k, 'v) dict" where
  "dict_of kvs = fold (\<lambda>(k, v) d. dict_set k v d) kvs []"

definition live_aliases :: "(alias_key, string) dict \<Rightarrow> (string, 'a) dict \<Rightarrow> (alias_key, string) dict" where
  "live_aliases aliases things = filter (\<lambda>(k, v). dict_get things v \<noteq> None) aliases"

text \<open>Declared networks, the most specific first.\<close>

definition net_key :: "ipnet \<times> string \<Rightarrow> int \<times> string" where
  "net_key p = (- int (net_plen (fst p)), net_str (fst p))"

definition declared_nets :: "(alias_key, string) dict \<Rightarrow> (ipnet \<times> string) list" where
  "declared_nets aliases =
     sort_key net_key
       (List.map_filter (\<lambda>((kind, value), aid).
          if kind = ''cidr'' then map_option (\<lambda>n. (n, aid)) (ip_network value) else None) aliases)"

definition asset_index_of ::
    "hashing \<Rightarrow> asset list \<Rightarrow> identity list \<Rightarrow> (alias_key, string) dict \<Rightarrow> (alias_key, string) dict \<Rightarrow> asset_index" where
  "asset_index_of h assets identities asset_alias identity_alias =
     (let live_assets = dict_of (map (\<lambda>a. (as_id a, a)) (filter as_enabled assets));
          live_ids = dict_of (map (\<lambda>p. (id_id p, p)) (filter id_enabled identities));
          aa = live_aliases asset_alias live_assets;
          i = \<lparr>ai_assets = live_assets, ai_identities = live_ids, ai_asset_alias = aa,
               ai_identity_alias = live_aliases identity_alias live_ids, ai_cidrs = declared_nets aa,
               ai_fingerprint = [], ai_ip_memo = []\<rparr>
      in i\<lparr>ai_fingerprint := index_fingerprint h i\<rparr>)"

definition empty_asset_index :: "hashing \<Rightarrow> asset_index" where
  "empty_asset_index h = asset_index_of h [] [] [] []"

definition asset_for_alias :: "asset_index \<Rightarrow> alias_key \<Rightarrow> string option" where
  "asset_for_alias i k = dict_get (ai_asset_alias i) k"

definition identity_for_alias :: "asset_index \<Rightarrow> alias_key \<Rightarrow> string option" where
  "identity_for_alias i k = dict_get (ai_identity_alias i) k"

definition asset_memo_max :: nat where "asset_memo_max = 8192"

definition ip_memo_store :: "string \<Rightarrow> string option \<Rightarrow> (string, string option) dict \<Rightarrow> (string, string option) dict" where
  "ip_memo_store value found memo = dict_set value found (if asset_memo_max \<le> length memo then [] else memo)"

definition containing :: "asset_index \<Rightarrow> ipaddr \<Rightarrow> string option" where
  "containing i a = map_option snd (find (\<lambda>(n, aid). in_net a n) (ai_cidrs i))"

definition asset_for_ip :: "string \<Rightarrow> asset_index \<Rightarrow> string option \<times> asset_index" where
  "asset_for_ip value i =
     (case dict_get (ai_asset_alias i) (''ip'', value) of
        Some hit \<Rightarrow> (Some hit, i)
      | None \<Rightarrow>
          if ai_cidrs i = [] then (None, i)
          else (case dict_get (ai_ip_memo i) value of
                  Some found \<Rightarrow> (found, i)
                | None \<Rightarrow>
                    (case ip_address value of
                       None \<Rightarrow> (None, i)
                     | Some a \<Rightarrow>
                         (containing i a,
                          i\<lparr>ai_ip_memo := ip_memo_store value (containing i a) (ai_ip_memo i)\<rparr>))))"

definition asset_of :: "asset_index \<Rightarrow> string option \<Rightarrow> asset option" where
  "asset_of i aid = (case aid of Some k \<Rightarrow> if k = [] then None else dict_get (ai_assets i) k | None \<Rightarrow> None)"

definition identity_of :: "asset_index \<Rightarrow> string option \<Rightarrow> identity option" where
  "identity_of i iid = (case iid of Some k \<Rightarrow> if k = [] then None else dict_get (ai_identities i) k | None \<Rightarrow> None)"

definition asset_index_empty :: "asset_index \<Rightarrow> bool" where
  "asset_index_empty i \<longleftrightarrow> ai_assets i = [] \<and> ai_identities i = []"

section \<open>The resolver\<close>

fun first_alias_hit :: "alias_key list \<Rightarrow> asset_index \<Rightarrow> string option \<times> asset_index" where
  "first_alias_hit [] i = (None, i)"
| "first_alias_hit (k # ks) i =
     (let (hit, j) = (if fst k = ''ip'' then asset_for_ip (snd k) i else (asset_for_alias i k, i)) in
      if present hit then (hit, j) else first_alias_hit ks j)"

definition asset_from_host :: "pyval \<Rightarrow> asset_index \<Rightarrow> string option \<times> asset_index" where
  "asset_from_host v i = first_alias_hit (asset_candidates v) i"

definition asset_from_ip :: "pyval \<Rightarrow> asset_index \<Rightarrow> string option \<times> asset_index" where
  "asset_from_ip v i = (case norm_ip v of None \<Rightarrow> (None, i) | Some ip \<Rightarrow> asset_for_ip ip i)"

fun identity_id :: "alias_key list \<Rightarrow> asset_index \<Rightarrow> string option" where
  "identity_id [] i = None"
| "identity_id (k # ks) i = (if present (identity_for_alias i k) then identity_for_alias i k else identity_id ks i)"

definition asset_fields :: "(string \<times> string) list" where
  "asset_fields = [(''host_name'', ''host''), (''src_ip'', ''src''), (''dst_ip'', ''dst'')]"

text \<open>The loop over the sides; \<open>seen\<close> is filled in the order of precedence.\<close>

fun sides :: "evtlike \<Rightarrow> (string \<times> string) list \<Rightarrow> (string, string) dict \<Rightarrow> asset_index
    \<Rightarrow> (string, string) dict \<times> asset_index" where
  "sides evt [] seen i = (seen, i)"
| "sides evt ((field, role) # fs) seen i =
     (let v = like_get evt field in
      if \<not> pv_truthy v then sides evt fs seen i
      else (let (hit, j) = (if field = ''host_name'' then asset_from_host v i else asset_from_ip v i) in
            sides evt fs (case hit of Some a \<Rightarrow> if a = [] then seen else dict_set role a seen | None \<Rightarrow> seen) j))"

definition subject_role :: "(string, string) dict \<Rightarrow> string" where
  "subject_role seen =
     (case find (\<lambda>(f, role). dict_get seen role \<noteq> None) asset_fields of None \<Rightarrow> [] | Some (f, role) \<Rightarrow> role)"

definition side_labels :: "asset_index \<Rightarrow> (string, string) dict \<Rightarrow> string list" where
  "side_labels i seen =
     concat (map (\<lambda>(role, aid). case asset_of i (Some aid) of None \<Rightarrow> [] | Some a \<Rightarrow> asset_labels role a) seen)"

text \<open>What \<open>resolve\<close> makes of the sides it has seen.\<close>

definition resolution_of :: "asset_index \<Rightarrow> (string, string) dict \<Rightarrow> pyval \<Rightarrow> resolution" where
  "resolution_of i seen user =
     (let via = subject_role seen;
          aid = dict_get seen via;
          a = asset_of i aid;
          iid = identity_id (identity_candidates user) i;
          p = identity_of i iid;
          tags = side_labels i seen @ (case p of None \<Rightarrow> [] | Some q \<Rightarrow> identity_labels q)
      in \<lparr>rs_asset_id = aid, rs_asset_criticality = map_option as_criticality a, rs_identity_id = iid,
          rs_identity_priority = map_option id_priority p, rs_context_tags = sort (remdups tags),
          rs_asset_via = via\<rparr>)"

definition asset_resolve :: "evtlike \<Rightarrow> asset_index \<Rightarrow> resolution \<times> asset_index" where
  "asset_resolve evt i =
     (if asset_index_empty i then (empty_resolution, i)
      else let (seen, j) = sides evt asset_fields [] i in
           (resolution_of j seen (like_get evt ''user_name''), j))"

section \<open>The registry\<close>

definition label_tuple :: "pyval \<Rightarrow> string list" where
  "label_tuple v =
     (if \<not> pv_truthy v then []
      else sort (remdups (map (\<lambda>x. lower (strip (pv_str x))) (filter (\<lambda>x. strip (text_or_blank x) \<noteq> []) (as_list v)))))"

text \<open>\<open>normalize_level(row.get(col))\<close>; a value that is not a text has no \<open>strip\<close>.\<close>

definition level_of :: "pyval \<Rightarrow> py_error + string" where
  "level_of v =
     (case pv_or v (VStr []) of VStr s \<Rightarrow> Inr (normalize_level (Some s)) | _ \<Rightarrow> Inl AttributeError)"

definition row_text :: "(string, pyval) dict \<Rightarrow> string \<Rightarrow> string" where
  "row_text row col = text_or_blank (pv_get row col)"

definition row_key_text :: "(string, pyval) dict \<Rightarrow> string \<Rightarrow> py_error + string" where
  "row_key_text row col = (case dict_get row col of None \<Rightarrow> Inl KeyError | Some v \<Rightarrow> Inr (pv_str v))"

definition row_enabled :: "(string, pyval) dict \<Rightarrow> bool" where
  "row_enabled row = (case dict_get row ''enabled'' of None \<Rightarrow> True | Some v \<Rightarrow> pv_truthy v)"

definition row_source :: "(string, pyval) dict \<Rightarrow> string" where
  "row_source row = pv_str (pv_or (pv_get row ''source'') (VStr ''manual''))"

definition asset_from_row :: "(string, pyval) dict \<Rightarrow> py_error + asset" where
  "asset_from_row row =
     sbind (row_key_text row ''asset_id'') (\<lambda>aid.
     sbind (level_of (pv_get row ''criticality'')) (\<lambda>level.
       Inr \<lparr>as_id = aid, as_display_name = row_text row ''display_name'', as_criticality = level,
            as_category = label_tuple (pv_get row ''category''), as_owner = row_text row ''owner'',
            as_business_unit = row_text row ''business_unit'',
            as_environment = lower (strip (row_text row ''environment'')),
            as_watchlist = label_tuple (pv_get row ''watchlist''), as_enabled = row_enabled row,
            as_notes = row_text row ''notes'', as_source = row_source row\<rparr>))"

definition identity_from_row :: "(string, pyval) dict \<Rightarrow> py_error + identity" where
  "identity_from_row row =
     sbind (row_key_text row ''identity_id'') (\<lambda>iid.
     sbind (level_of (pv_get row ''priority'')) (\<lambda>level.
       Inr \<lparr>id_id = iid, id_display_name = row_text row ''display_name'', id_priority = level,
            id_department = row_text row ''department'', id_manager = row_text row ''manager'',
            id_title = row_text row ''title'', id_email = row_text row ''email'',
            id_watchlist = label_tuple (pv_get row ''watchlist''), id_enabled = row_enabled row,
            id_notes = row_text row ''notes'', id_source = row_source row\<rparr>))"

definition alias_row :: "string \<Rightarrow> (string, pyval) dict \<Rightarrow> py_error + alias_key \<times> string" where
  "alias_row key row =
     sbind (row_key_text row ''alias_type'') (\<lambda>t.
     sbind (row_key_text row ''alias_value'') (\<lambda>v.
     sbind (row_key_text row key) (\<lambda>i. Inr ((t, v), i))))"

record tables =
  tb_assets :: "(string, pyval) dict list"
  tb_identities :: "(string, pyval) dict list"
  tb_asset_aliases :: "(string, pyval) dict list"
  tb_identity_aliases :: "(string, pyval) dict list"

definition registry_build :: "hashing \<Rightarrow> tables \<Rightarrow> py_error + asset_index" where
  "registry_build h t =
     sbind (map_res asset_from_row (tb_assets t)) (\<lambda>as.
     sbind (map_res identity_from_row (tb_identities t)) (\<lambda>ids.
     sbind (map_res (alias_row ''asset_id'') (tb_asset_aliases t)) (\<lambda>aa.
     sbind (map_res (alias_row ''identity_id'') (tb_identity_aliases t)) (\<lambda>ia.
       Inr (asset_index_of h as ids (dict_of aa) (dict_of ia))))))"

text \<open>\<open>load\<close> reads the tables, which may fail, and builds.\<close>

definition registry_load :: "hashing \<Rightarrow> 'e + tables \<Rightarrow> ('e + py_error) + asset_index" where
  "registry_load h db =
     (case db of Inl e \<Rightarrow> Inl (Inl e)
      | Inr t \<Rightarrow> (case registry_build h t of Inl e \<Rightarrow> Inl (Inr e) | Inr i \<Rightarrow> Inr i))"

record asset_module =
  am_cache :: "asset_index option"
  am_generation :: nat

definition registry_get :: "hashing \<Rightarrow> 'e + tables \<Rightarrow> asset_module \<Rightarrow> asset_index \<times> asset_module" where
  "registry_get h db m =
     (case am_cache m of
        Some i \<Rightarrow> (i, m)
      | None \<Rightarrow> (case registry_load h db of
                   Inl _ \<Rightarrow> (empty_asset_index h, m)
                 | Inr i \<Rightarrow> (i, m\<lparr>am_cache := Some i\<rparr>)))"

definition registry_reload :: "hashing \<Rightarrow> 'e + tables \<Rightarrow> asset_module \<Rightarrow> asset_index \<times> asset_module" where
  "registry_reload h db m =
     (case registry_load h db of
        Inl _ \<Rightarrow> (case am_cache m of Some i \<Rightarrow> (i, m) | None \<Rightarrow> (empty_asset_index h, m))
      | Inr i \<Rightarrow> (i, m\<lparr>am_cache := Some i, am_generation := am_generation m + 1\<rparr>))"

definition registry_set :: "asset_index option \<Rightarrow> asset_module \<Rightarrow> asset_module" where
  "registry_set i m = m\<lparr>am_cache := i, am_generation := am_generation m + 1\<rparr>"

record registry_stats =
  rg_loaded :: bool
  rg_assets :: nat
  rg_identities :: nat
  rg_aliases :: nat
  rg_cidrs :: nat
  rg_fingerprint :: "string option"

definition registry_stats_of :: "asset_module \<Rightarrow> registry_stats" where
  "registry_stats_of m =
     (case am_cache m of
        None \<Rightarrow> \<lparr>rg_loaded = False, rg_assets = 0, rg_identities = 0, rg_aliases = 0, rg_cidrs = 0, rg_fingerprint = None\<rparr>
      | Some i \<Rightarrow> \<lparr>rg_loaded = True, rg_assets = length (ai_assets i), rg_identities = length (ai_identities i),
                   rg_aliases = length (ai_asset_alias i) + length (ai_identity_alias i),
                   rg_cidrs = length (ai_cidrs i), rg_fingerprint = Some (ai_fingerprint i)\<rparr>)"

end
