(* ===== verification/AssetFacts.thy ===== *)
theory AssetFacts
  imports Assets
begin

text \<open>
  What the registry promises. The answer for an address is its own alias or else the declared network with
  the longest prefix that holds it; the memo is invisible, so a resolution is a function of the event and the
  declarations; every identifier it gives belongs to an enabled entry; and a user resolves only through an
  alias that spells the whole name, or the part after the domain of a down-level logon name.
\<close>

section \<open>Aliases and entries\<close>

lemma dict_get_fold_set:
  "dict_get (fold (\<lambda>(k, v) d. dict_set k v d) kvs d) k
    = (case map_of (rev kvs) k of Some v \<Rightarrow> Some v | None \<Rightarrow> dict_get d k)"
  by (induction kvs arbitrary: d) (auto split: option.splits)

lemma dict_get_dict_of: "dict_get (dict_of kvs) k = map_of (rev kvs) k"
  by (simp add: dict_of_def dict_get_fold_set split: option.splits)

lemma dict_of_distinct [simp]: "distinct (map fst (dict_of kvs))"
proof -
  have "distinct (map fst d) \<Longrightarrow> distinct (map fst (fold (\<lambda>(k, v) d. dict_set k v d) kvs d))" for d
    by (induction kvs arbitrary: d) auto
  then show ?thesis by (simp add: dict_of_def)
qed

text \<open>An index as the constructor leaves it, whatever its memo holds.\<close>

definition well_built :: "asset_index \<Rightarrow> bool" where
  "well_built i \<longleftrightarrow>
     ai_cidrs i = declared_nets (ai_asset_alias i) \<and>
     (\<forall>k v. dict_get (ai_asset_alias i) k = Some v \<longrightarrow> dict_get (ai_assets i) v \<noteq> None) \<and>
     (\<forall>k v. dict_get (ai_identity_alias i) k = Some v \<longrightarrow> dict_get (ai_identities i) v \<noteq> None) \<and>
     (\<forall>k a. dict_get (ai_assets i) k = Some a \<longrightarrow> as_id a = k \<and> as_enabled a) \<and>
     (\<forall>k p. dict_get (ai_identities i) k = Some p \<longrightarrow> id_id p = k \<and> id_enabled p) \<and>
     distinct (map fst (ai_asset_alias i))"

lemma live_aliases_live: "dict_get (live_aliases aliases things) k = Some v \<Longrightarrow> dict_get things v \<noteq> None"
  by (drule dict_get_SomeD) (auto simp: live_aliases_def)

lemma distinct_live [simp]: "distinct (map fst aliases) \<Longrightarrow> distinct (map fst (live_aliases aliases things))"
  by (induction aliases) (auto simp: live_aliases_def)

lemma dict_of_keyed:
  "dict_get (dict_of (map (\<lambda>x. (f x, x)) (filter P xs))) k = Some x \<Longrightarrow> f x = k \<and> P x"
  by (auto simp: dict_get_dict_of dest!: map_of_SomeD)

lemma asset_index_of_well_built:
  assumes "distinct (map fst aa)"
  shows "well_built (asset_index_of h as ids aa ia)"
proof -
  let ?i = "asset_index_of h as ids aa ia"
  have f: "ai_assets ?i = dict_of (map (\<lambda>a. (as_id a, a)) (filter as_enabled as))"
    "ai_identities ?i = dict_of (map (\<lambda>p. (id_id p, p)) (filter id_enabled ids))"
    "ai_asset_alias ?i = live_aliases aa (ai_assets ?i)"
    "ai_identity_alias ?i = live_aliases ia (ai_identities ?i)"
    "ai_cidrs ?i = declared_nets (ai_asset_alias ?i)"
    by (simp_all add: asset_index_of_def Let_def)
  have "as_id a = k \<and> as_enabled a" if "dict_get (ai_assets ?i) k = Some a" for k a
    using that dict_of_keyed unfolding f by fast
  moreover have "id_id p = k \<and> id_enabled p" if "dict_get (ai_identities ?i) k = Some p" for k p
    using that dict_of_keyed unfolding f by fast
  moreover have "dict_get (ai_assets ?i) v \<noteq> None" if "dict_get (ai_asset_alias ?i) k = Some v" for k v
    using that f(3) live_aliases_live[of aa "ai_assets ?i" k v] by simp
  moreover have "dict_get (ai_identities ?i) v \<noteq> None" if "dict_get (ai_identity_alias ?i) k = Some v" for k v
    using that f(4) live_aliases_live[of ia "ai_identities ?i" k v] by simp
  ultimately show ?thesis using assms f(3,5) by (simp add: well_built_def)
qed

section \<open>The memo\<close>

text \<open>Two indexes with the same declarations.\<close>

definition same_declared :: "asset_index \<Rightarrow> asset_index \<Rightarrow> bool" where
  "same_declared i j \<longleftrightarrow>
     ai_assets j = ai_assets i \<and> ai_identities j = ai_identities i \<and> ai_asset_alias j = ai_asset_alias i \<and>
     ai_identity_alias j = ai_identity_alias i \<and> ai_cidrs j = ai_cidrs i \<and> ai_fingerprint j = ai_fingerprint i"

definition net_answer :: "(ipnet \<times> string) list \<Rightarrow> string \<Rightarrow> string option" where
  "net_answer cidrs value =
     (case ip_address value of None \<Rightarrow> None | Some a \<Rightarrow> map_option snd (find (\<lambda>(n, aid). in_net a n) cidrs))"

definition ip_memo_true :: "(ipnet \<times> string) list \<Rightarrow> (string, string option) dict \<Rightarrow> bool" where
  "ip_memo_true cidrs memo \<longleftrightarrow> (\<forall>value found. dict_get memo value = Some found \<longrightarrow> found = net_answer cidrs value)"

interpretation net_lookaside: lookaside dict_get ip_memo_store "net_answer cidrs" "ip_memo_true cidrs" for cidrs
  by unfold_locales (auto simp: ip_memo_true_def ip_memo_store_def)

lemma ip_memo_length: "length (ip_memo_store value found memo) \<le> max asset_memo_max (length memo)"
  using length_dict_set[of "value" found "[]"] length_dict_set[of "value" found memo]
  by (auto simp: ip_memo_store_def asset_memo_max_def)

interpretation net_store: bounded_cache "\<lambda>m. distinct (map fst m) \<and> length m \<le> asset_memo_max"
    dict_get ip_memo_store length "\<lambda>_. asset_memo_max"
proof
  fix m :: "(string, string option) dict" and k j v w
  assume ok: "distinct (map fst m) \<and> length m \<le> asset_memo_max"
  show "distinct (map fst (ip_memo_store k v m)) \<and> length (ip_memo_store k v m) \<le> asset_memo_max"
    using ok ip_memo_length[of k v m] by (auto simp: ip_memo_store_def)
  show "length m \<le> asset_memo_max" using ok by simp
  show "dict_get (ip_memo_store k v m) k = Some v" by (simp add: ip_memo_store_def)
  show "dict_get (ip_memo_store k v m) j = Some w \<Longrightarrow> j \<noteq> k \<Longrightarrow> dict_get m j = Some w"
    by (auto simp: ip_memo_store_def split: if_splits)
qed simp

definition memo_fine :: "asset_index \<Rightarrow> bool" where
  "memo_fine i \<longleftrightarrow> ip_memo_true (ai_cidrs i) (ai_ip_memo i) \<and> distinct (map fst (ai_ip_memo i)) \<and>
     length (ai_ip_memo i) \<le> asset_memo_max"

text \<open>An index that resolutions made of \<open>i\<close>.\<close>

definition reached :: "asset_index \<Rightarrow> asset_index \<Rightarrow> bool" where
  "reached i j \<longleftrightarrow> same_declared i j \<and> memo_fine j"

lemma asset_index_of_reached: "reached (asset_index_of h as ids aa ia) (asset_index_of h as ids aa ia)"
  by (simp add: reached_def same_declared_def memo_fine_def asset_index_of_def Let_def ip_memo_true_def)

text \<open>The answer for an address without the memo.\<close>

definition asset_at :: "asset_index \<Rightarrow> string \<Rightarrow> string option" where
  "asset_at i value =
     (case dict_get (ai_asset_alias i) (''ip'', value) of Some hit \<Rightarrow> Some hit | None \<Rightarrow> net_answer (ai_cidrs i) value)"

lemma net_answer_Nil [simp]: "net_answer [] value = None"
  by (simp add: net_answer_def split: option.splits)

lemma asset_for_ip_at:
  assumes "reached i j"
  shows "fst (asset_for_ip value j) = asset_at i value \<and> reached i (snd (asset_for_ip value j))"
proof -
  have d: "same_declared i j" and f: "memo_fine j" using assms by (simp_all add: reached_def)
  have store: "memo_fine (j\<lparr>ai_ip_memo := ip_memo_store value (net_answer (ai_cidrs j) value) (ai_ip_memo j)\<rparr>)"
    using f net_lookaside.remember_sound[of "ai_cidrs j" "ai_ip_memo j" "value"]
      net_store.ok_store[of "ai_ip_memo j" "value" "net_answer (ai_cidrs j) value"]
    by (simp add: memo_fine_def)
  have hit: "found = net_answer (ai_cidrs j) value" if "dict_get (ai_ip_memo j) value = Some found" for found
    using f that by (simp add: memo_fine_def ip_memo_true_def)
  have c: "containing j a = net_answer (ai_cidrs j) value" if "ip_address value = Some a" for a
    using that by (simp add: containing_def net_answer_def)
  show ?thesis
    using d f store hit c
    by (auto simp: asset_for_ip_def asset_at_def same_declared_def reached_def net_answer_def[of _ "value"]
        split: option.splits)
qed


section \<open>A resolution is a function of the event and the declarations\<close>

fun alias_answer :: "alias_key list \<Rightarrow> asset_index \<Rightarrow> string option" where
  "alias_answer [] i = None"
| "alias_answer (k # ks) i =
     (let hit = (if fst k = ''ip'' then asset_at i (snd k) else asset_for_alias i k) in
      if present hit then hit else alias_answer ks i)"

definition side_asset :: "evtlike \<Rightarrow> asset_index \<Rightarrow> string \<times> string \<Rightarrow> string option" where
  "side_asset evt i fr =
     (let v = like_get evt (fst fr);
          hit = (if fst fr = ''host_name'' then alias_answer (asset_candidates v) i
                 else (case norm_ip v of None \<Rightarrow> None | Some ip \<Rightarrow> asset_at i ip)) in
      if pv_truthy v \<and> present hit then hit else None)"

definition side_dict :: "evtlike \<Rightarrow> asset_index \<Rightarrow> (string \<times> string) list \<Rightarrow> (string, string) dict" where
  "side_dict evt i fs = List.map_filter (\<lambda>fr. map_option (Pair (snd fr)) (side_asset evt i fr)) fs"

definition asset_meaning :: "evtlike \<Rightarrow> asset_index \<Rightarrow> resolution" where
  "asset_meaning evt i =
     (if asset_index_empty i then empty_resolution
      else resolution_of i (side_dict evt i asset_fields) (like_get evt ''user_name''))"

lemma dict_set_fresh: "k \<notin> fst ` set d \<Longrightarrow> dict_set k v d = d @ [(k, v)]"
  by (induction d) (auto simp: dict_set_def)

lemma present_Some: "present hit \<Longrightarrow> \<exists>a. hit = Some a \<and> a \<noteq> []"
  by (cases hit) (auto simp: present_def)

lemma first_alias_hit_answer:
  assumes "reached i j"
  shows "fst (first_alias_hit ks j) = alias_answer ks i \<and> reached i (snd (first_alias_hit ks j))"
  using assms
proof (induction ks arbitrary: j)
  case (Cons k ks)
  have al: "asset_for_alias j k = asset_for_alias i k"
    using Cons.prems by (simp add: asset_for_alias_def reached_def same_declared_def)
  obtain hit l where ip: "asset_for_ip (snd k) j = (hit, l)" by fastforce
  have "hit = asset_at i (snd k)" "reached i l" using asset_for_ip_at[OF Cons.prems, of "snd k"] by (simp_all add: ip)
  then show ?case using Cons.IH[of j] Cons.IH[of l] Cons.prems
    by (simp add: ip al Let_def)
qed simp

lemma asset_from_ip_answer:
  assumes "reached i j"
  shows "fst (asset_from_ip v j) = (case norm_ip v of None \<Rightarrow> None | Some ip \<Rightarrow> asset_at i ip) \<and>
    reached i (snd (asset_from_ip v j))"
  using asset_for_ip_at[OF assms] assms by (auto simp: asset_from_ip_def split: option.splits)

lemma sides_dict:
  assumes "reached i j" "distinct (map snd fs)" "fst ` set seen \<inter> snd ` set fs = {}"
  shows "fst (sides evt fs seen j) = seen @ side_dict evt i fs \<and> reached i (snd (sides evt fs seen j))"
  using assms
proof (induction fs arbitrary: seen j)
  case (Cons fr fs)
  obtain field role where fr: "fr = (field, role)" by fastforce
  let ?v = "like_get evt field"
  obtain hit l where h: "(if field = ''host_name'' then asset_from_host ?v j else asset_from_ip ?v j) = (hit, l)"
    by fastforce
  have hit: "hit = (if field = ''host_name'' then alias_answer (asset_candidates ?v) i
      else (case norm_ip ?v of None \<Rightarrow> None | Some ip \<Rightarrow> asset_at i ip))" and l: "reached i l"
    using first_alias_hit_answer[OF Cons.prems(1), of "asset_candidates ?v"] asset_from_ip_answer[OF Cons.prems(1), of ?v] h
    by (auto simp: asset_from_host_def split: if_splits)
  have fresh: "dict_set role a seen = seen @ [(role, a)]" for a using Cons.prems(3) by (intro dict_set_fresh) (auto simp: fr)
  have sa: "side_asset evt i fr = (if pv_truthy ?v \<and> present hit then hit else None)"
    by (simp add: side_asset_def fr hit Let_def)
  show ?case
  proof (cases "pv_truthy ?v \<and> present hit")
    case True
    then obtain a where a: "hit = Some a" "a \<noteq> []" using present_Some by blast
    have "fst (sides evt fs (seen @ [(role, a)]) l) = (seen @ [(role, a)]) @ side_dict evt i fs \<and>
        reached i (snd (sides evt fs (seen @ [(role, a)]) l))"
      using Cons.prems l by (intro Cons.IH) (auto simp: fr)
    then show ?thesis using True a
      by (simp add: fr h fresh side_dict_def List.map_filter_simps sa[unfolded fr])
  next
    case False
    then show ?thesis using Cons.IH[of j seen] Cons.IH[of l seen] Cons.prems l h
      by (auto simp: fr side_dict_def List.map_filter_simps sa[unfolded fr] present_def Let_def split: option.splits)
  qed
qed (simp add: side_dict_def List.map_filter_simps)

lemma resolution_of_same: "same_declared i j \<Longrightarrow> resolution_of j seen user = resolution_of i seen user"
proof -
  assume d: "same_declared i j"
  have "asset_of j a = asset_of i a" "identity_of j a = identity_of i a" for a
    using d by (auto simp: asset_of_def identity_of_def same_declared_def split: option.splits)
  moreover have "identity_id ks j = identity_id ks i" for ks
    using d by (induction ks) (auto simp: identity_for_alias_def same_declared_def)
  ultimately show ?thesis by (simp add: resolution_of_def side_labels_def)
qed

lemma distinct_sides: "distinct (map snd asset_fields)"
  by (simp add: asset_fields_def)

lemma asset_resolve_meaning:
  assumes "reached i j"
  shows "fst (asset_resolve evt j) = asset_meaning evt i \<and> reached i (snd (asset_resolve evt j))"
proof -
  have e: "asset_index_empty j = asset_index_empty i"
    using assms by (simp add: asset_index_empty_def reached_def same_declared_def)
  obtain seen k where s: "sides evt asset_fields [] j = (seen, k)" by fastforce
  have "seen = side_dict evt i asset_fields" "reached i k"
    using sides_dict[OF assms distinct_sides, of "[]" evt] by (simp_all add: s)
  then show ?thesis using assms resolution_of_same[of i k]
    by (simp add: asset_resolve_def asset_meaning_def e s reached_def)
qed

section \<open>Whose the answers are\<close>

lemma declared_nets_set:
  "(n, aid) \<in> set (declared_nets aliases)
     \<longleftrightarrow> (\<exists>value. ((''cidr'', value), aid) \<in> set aliases \<and> ip_network value = Some n)"
proof
  assume "(n, aid) \<in> set (declared_nets aliases)"
  then show "\<exists>value. ((''cidr'', value), aid) \<in> set aliases \<and> ip_network value = Some n"
    by (auto simp: declared_nets_def set_map_filter split: if_splits)
next
  assume "\<exists>value. ((''cidr'', value), aid) \<in> set aliases \<and> ip_network value = Some n"
  then obtain t where "((''cidr'', t), aid) \<in> set aliases" "ip_network t = Some n" by blast
  then show "(n, aid) \<in> set (declared_nets aliases)"
    by (auto simp: declared_nets_def set_map_filter intro!: bexI[of _ "((''cidr'', t), aid)"])
qed

lemma find_first_key:
  assumes "sorted (map f xs)" "find P xs = Some x"
  shows "x \<in> set xs \<and> P x \<and> (\<forall>y\<in>set xs. P y \<longrightarrow> f x \<le> f y)"
  using assms by (induction xs) (auto split: if_splits)

lemma net_answer_longest:
  assumes "ip_address value = Some a" "net_answer (declared_nets aliases) value = Some aid"
  shows "\<exists>text1 n. ((''cidr'', text1), aid) \<in> set aliases \<and> ip_network text1 = Some n \<and> in_net a n \<and>
    (\<forall>text2 m aid'. ((''cidr'', text2), aid') \<in> set aliases \<longrightarrow> ip_network text2 = Some m \<longrightarrow> in_net a m
       \<longrightarrow> net_plen m \<le> net_plen n)"
proof -
  obtain n where n: "find (\<lambda>(n, aid). in_net a n) (declared_nets aliases) = Some (n, aid)"
    using assms by (auto simp: net_answer_def)
  have srt: "sorted (map net_key (declared_nets aliases))" by (simp add: declared_nets_def)
  have f: "(n, aid) \<in> set (declared_nets aliases)" "in_net a n"
    "\<forall>p\<in>set (declared_nets aliases). (case p of (m, _) \<Rightarrow> in_net a m) \<longrightarrow> net_key (n, aid) \<le> net_key p"
    using find_first_key[OF srt n] by auto
  have "net_plen m \<le> net_plen n" if "(m, x) \<in> set (declared_nets aliases)" "in_net a m" for m x
    using f(3) that by (fastforce simp: net_key_def less_eq_prod_def)
  then show ?thesis using f(1,2) unfolding declared_nets_set by blast
qed

lemma net_answer_none:
  assumes "ip_address value = Some a"
  shows "net_answer (declared_nets aliases) value = None
    \<longleftrightarrow> (\<forall>t n aid. ((''cidr'', t), aid) \<in> set aliases \<longrightarrow> ip_network t = Some n \<longrightarrow> \<not> in_net a n)"
proof -
  have "net_answer (declared_nets aliases) value = None
      \<longleftrightarrow> (\<forall>n aid. (n, aid) \<in> set (declared_nets aliases) \<longrightarrow> \<not> in_net a n)"
    using assms by (auto simp: net_answer_def find_None_iff)
  then show ?thesis unfolding declared_nets_set by blast
qed

lemma identity_id_alias:
  "identity_id ks i = Some iid \<Longrightarrow> \<exists>k\<in>set ks. dict_get (ai_identity_alias i) k = Some iid \<and> iid \<noteq> []"
  by (induction ks) (auto simp: identity_for_alias_def present_def split: if_splits option.splits)

lemma alias_answer_alias:
  "alias_answer ks i = Some aid \<Longrightarrow> \<exists>k\<in>set ks. aid \<noteq> [] \<and>
     (if fst k = ''ip'' then asset_at i (snd k) else dict_get (ai_asset_alias i) k) = Some aid"
  by (induction ks) (auto simp: asset_for_alias_def present_def Let_def split: if_splits option.splits)

lemma asset_at_declared:
  assumes "well_built i" "asset_at i value = Some aid"
  shows "\<exists>k. dict_get (ai_asset_alias i) k = Some aid"
proof (cases "dict_get (ai_asset_alias i) (''ip'', value)")
  case None
  then have "net_answer (ai_cidrs i) value = Some aid" using assms by (simp add: asset_at_def)
  then obtain n where "(n, aid) \<in> set (ai_cidrs i)"
    by (auto simp: net_answer_def split: option.splits dest!: find_SomeD)
  then obtain t where "((''cidr'', t), aid) \<in> set (ai_asset_alias i)"
    using assms(1) declared_nets_set[of n aid "ai_asset_alias i"] by (auto simp: well_built_def)
  then show ?thesis using assms(1) dict_get_Some_iff[of "ai_asset_alias i"] by (auto simp: well_built_def)
qed (use assms in \<open>auto simp: asset_at_def\<close>)

lemma side_asset_live:
  assumes "well_built i" "side_asset evt i fr = Some aid"
  shows "aid \<noteq> [] \<and> (\<exists>a. dict_get (ai_assets i) aid = Some a \<and> as_id a = aid \<and> as_enabled a)"
proof -
  have ne: "aid \<noteq> []" using assms(2) by (auto simp: side_asset_def Let_def present_def split: if_splits)
  have "(\<exists>k. dict_get (ai_asset_alias i) k = Some aid)"
  proof (cases "fst fr = ''host_name''")
    case True
    then have "alias_answer (asset_candidates (like_get evt (fst fr))) i = Some aid"
      using assms(2) by (auto simp: side_asset_def Let_def split: if_splits)
    from alias_answer_alias[OF this] show ?thesis using asset_at_declared[OF assms(1)] by (auto split: if_splits)
  next
    case False
    then obtain ip where "asset_at i ip = Some aid"
      using assms(2) by (auto simp: side_asset_def Let_def split: if_splits option.splits)
    then show ?thesis by (rule asset_at_declared[OF assms(1)])
  qed
  then show ?thesis using assms(1) ne by (auto simp: well_built_def) (metis option.exhaust)
qed


section \<open>What a user resolves through\<close>

text \<open>The name with its separators made uniform, as a logon name is stored.\<close>

definition logon_name :: "pyval \<Rightarrow> string" where
  "logon_name user = replace_char (CHR ''/'') [backslash] (lower (strip (text_or_blank user)))"

definition mail_like :: "pyval \<Rightarrow> bool" where
  "mail_like user \<longleftrightarrow> CHR ''@'' \<in> set (strip (text_or_blank user))"

definition spells :: "pyval \<Rightarrow> alias_key \<Rightarrow> bool" where
  "spells user k \<longleftrightarrow>
     (if mail_like user then fst k \<in> {''upn'', ''email''} \<and> snd k = lower (strip (text_or_blank user))
      else fst k \<in> {''sam'', ''employee_id''} \<and>
           (snd k = logon_name user \<or>
            fst k = ''sam'' \<and> backslash \<in> set (logon_name user) \<and> snd k = after_last backslash (logon_name user)))"

lemma text_or_blank_VStr [simp]: "text_or_blank (VStr s) = s"
  by (auto simp: text_or_blank_def pv_or_def pv_truthy_def)

lemma slash_lower: "CHR ''/'' \<in> set (lower s) \<longleftrightarrow> CHR ''/'' \<in> set s" "backslash \<in> set (lower s) \<longleftrightarrow> backslash \<in> set s"
proof -
  have l: "x \<in> set (lower s) \<longleftrightarrow> x \<in> set s" if "x = CHR ''/'' \<or> x = backslash" for x
  proof -
    have "code x = 47 \<or> code x = 92" using that by (auto simp: code_def backslash_def)
    then have "x = lower_char c \<longleftrightarrow> x = c" for c by (auto simp: code_eq_iff code_lower_char)
    then show ?thesis by (simp add: lower_def image_iff)
  qed
  show "CHR ''/'' \<in> set (lower s) \<longleftrightarrow> CHR ''/'' \<in> set s" "backslash \<in> set (lower s) \<longleftrightarrow> backslash \<in> set s"
    by (rule l, simp)+
qed

lemma logon_name_plain:
  "CHR ''/'' \<notin> set (strip (text_or_blank user)) \<Longrightarrow> logon_name user = lower (strip (text_or_blank user))"
  by (simp add: logon_name_def replace_char_absent slash_lower)

lemma candidates_spell: "k \<in> set (identity_candidates user) \<Longrightarrow> spells user k"
proof -
  let ?s = "strip (text_or_blank user)"
  assume k: "k \<in> set (identity_candidates user)"
  then have ne: "?s \<noteq> []" by (auto simp: identity_candidates_def Let_def split: if_splits)
  consider (mail) "CHR ''@'' \<in> set ?s" | (logon) "CHR ''@'' \<notin> set ?s" "backslash \<in> set ?s \<or> CHR ''/'' \<in> set ?s"
    | (bare) "CHR ''@'' \<notin> set ?s" "backslash \<notin> set ?s" "CHR ''/'' \<notin> set ?s" by blast
  then show ?thesis
  proof cases
    case mail
    then show ?thesis using k ne by (auto simp: identity_candidates_def spells_def mail_like_def Let_def)
  next
    case logon
    have full: "norm_sam (VStr ?s) = or_none (logon_name user)" by (simp add: norm_sam_def logon_name_def)
    have "backslash \<in> set (logon_name user)"
      using logon(2) by (auto simp: logon_name_def replace_char_def slash_lower split: if_splits)
    moreover from this have "or_none (logon_name user) = Some (logon_name user)" by (auto simp: or_none_def)
    ultimately show ?thesis using k ne logon
      by (auto simp: identity_candidates_def spells_def mail_like_def Let_def full split: if_splits)
  next
    case bare
    then show ?thesis using k ne logon_name_plain[of user]
      by (auto simp: identity_candidates_def spells_def mail_like_def Let_def norm_plain_def or_none_def split: if_splits)
  qed
qed

lemma identity_spelled:
  assumes "rs_identity_id (asset_meaning evt i) = Some iid"
  shows "\<exists>k. dict_get (ai_identity_alias i) k = Some iid \<and> spells (like_get evt ''user_name'') k"
proof -
  have "identity_id (identity_candidates (like_get evt ''user_name'')) i = Some iid"
    using assms by (auto simp: asset_meaning_def resolution_of_def empty_resolution_def Let_def split: if_splits)
  from identity_id_alias[OF this] show ?thesis using candidates_spell by blast
qed

section \<open>Loading and reloading\<close>

lemma normalize_level_known: "normalize_level v \<in> set criticality_levels"
  by (simp add: normalize_level_def criticality_levels_def Let_def)

lemma map_res_source: "map_res f xs = Inr ys \<Longrightarrow> y \<in> set ys \<Longrightarrow> \<exists>x\<in>set xs. f x = Inr y"
  by (auto simp: map_res_Inr_iff list_all2_conv_all_nth in_set_conv_nth) (metis nth_mem)

lemma registry_build_known:
  assumes "registry_build h t = Inr i"
  shows "well_built i \<and> reached i i
    \<and> (\<forall>k a. dict_get (ai_assets i) k = Some a \<longrightarrow> as_criticality a \<in> set criticality_levels)
    \<and> (\<forall>k p. dict_get (ai_identities i) k = Some p \<longrightarrow> id_priority p \<in> set criticality_levels)"
proof -
  obtain as ids aa ia where b: "map_res asset_from_row (tb_assets t) = Inr as"
    "map_res identity_from_row (tb_identities t) = Inr ids" "i = asset_index_of h as ids (dict_of aa) (dict_of ia)"
    using assms by (auto simp: registry_build_def)
  have la: "as_criticality a \<in> set criticality_levels" if "asset_from_row row = Inr a" for row a
    using that normalize_level_known by (auto simp: asset_from_row_def level_of_def split: pyval.splits)
  have li: "id_priority p \<in> set criticality_levels" if "identity_from_row row = Inr p" for row p
    using that normalize_level_known by (auto simp: identity_from_row_def level_of_def split: pyval.splits)
  have "\<forall>a\<in>set as. as_criticality a \<in> set criticality_levels" "\<forall>p\<in>set ids. id_priority p \<in> set criticality_levels"
    using map_res_source[OF b(1)] map_res_source[OF b(2)] la li by blast+
  then show ?thesis using asset_index_of_well_built[of "dict_of aa" h as ids "dict_of ia"]
    asset_index_of_reached[of h as ids "dict_of aa" "dict_of ia"]
    by (auto simp: b(3) asset_index_of_def Let_def dict_get_dict_of dest!: map_of_SomeD)
qed

lemma subject_in_seen: "dict_get seen (subject_role seen) = Some aid \<Longrightarrow> aid \<in> snd ` set seen"
  by (rule dict_get_value)

lemma resolution_live:
  assumes "registry_build h t = Inr i" "rs_asset_id (asset_meaning evt i) = Some aid"
  shows "\<exists>a. dict_get (ai_assets i) aid = Some a \<and> as_id a = aid \<and> as_enabled a \<and>
    rs_asset_criticality (asset_meaning evt i) = Some (as_criticality a) \<and> as_criticality a \<in> set criticality_levels"
proof -
  let ?seen = "side_dict evt i asset_fields"
  have ne: "\<not> asset_index_empty i" and sub: "dict_get ?seen (subject_role ?seen) = Some aid"
    using assms(2) by (auto simp: asset_meaning_def resolution_of_def empty_resolution_def Let_def split: if_splits)
  obtain fr where "side_asset evt i fr = Some aid"
    using subject_in_seen[OF sub] by (auto simp: side_dict_def set_map_filter)
  then obtain a where a: "aid \<noteq> []" "dict_get (ai_assets i) aid = Some a" "as_id a = aid" "as_enabled a"
    using side_asset_live registry_build_known[OF assms(1)] by blast
  have "rs_asset_criticality (asset_meaning evt i) = Some (as_criticality a)"
    using ne sub a by (simp add: asset_meaning_def resolution_of_def Let_def asset_of_def)
  then show ?thesis using a registry_build_known[OF assms(1)] by blast
qed

text \<open>An empty index is not always one that failed to load: the entries may all be switched off.\<close>

lemma disabled_registry_is_empty:
  assumes "registry_build h t = Inr i"
    and "list_all (\<lambda>row. \<not> row_enabled row) (tb_assets t)" "list_all (\<lambda>row. \<not> row_enabled row) (tb_identities t)"
  shows "asset_index_empty i"
proof -
  obtain as ids aa ia where b: "map_res asset_from_row (tb_assets t) = Inr as"
    "map_res identity_from_row (tb_identities t) = Inr ids" "i = asset_index_of h as ids (dict_of aa) (dict_of ia)"
    using assms by (auto simp: registry_build_def)
  have "\<forall>a\<in>set as. \<not> as_enabled a" using map_res_source[OF b(1)] assms(2)
    by (fastforce simp: list_all_iff asset_from_row_def)
  moreover have "\<forall>p\<in>set ids. \<not> id_enabled p" using map_res_source[OF b(2)] assms(3)
    by (fastforce simp: list_all_iff identity_from_row_def)
  ultimately have "filter as_enabled as = []" "filter id_enabled ids = []" by (simp_all add: filter_empty_conv)
  then show ?thesis by (simp add: b(3) asset_index_of_def asset_index_empty_def Let_def dict_of_def)
qed

section \<open>Properties\<close>

definition demo_hashing :: hashing where
  "demo_hashing = \<lparr>h_sha = (\<lambda>t. t), h_json = (\<lambda>_. [])\<rparr>"

definition demo_tables :: tables where
  "demo_tables = \<lparr>tb_assets = [[(''asset_id'', VStr ''db1''), (''criticality'', VStr ''Critical''), (''category'', VStr ''pci'')],
                               [(''asset_id'', VStr ''lan'')]],
     tb_identities = [[(''identity_id'', VStr ''u1''), (''priority'', VStr ''high'')]],
     tb_asset_aliases = [[(''alias_type'', VStr ''cidr''), (''alias_value'', VStr ''10.0.0.0/8''), (''asset_id'', VStr ''lan'')],
                         [(''alias_type'', VStr ''cidr''), (''alias_value'', VStr ''10.1.0.0/16''), (''asset_id'', VStr ''db1'')]],
     tb_identity_aliases = [[(''alias_type'', VStr ''sam''), (''alias_value'', VStr ''jdoe''), (''identity_id'', VStr ''u1'')]]\<rparr>"

definition demo_registry :: asset_index where
  "demo_registry = (case registry_build demo_hashing demo_tables of Inr i \<Rightarrow> i | Inl _ \<Rightarrow> empty_asset_index demo_hashing)"

definition demo_flow :: evtlike where
  "demo_flow = Row [(''src_ip'', VStr ''10.1.2.3''), (''user_name'', VStr ''CORP/JDoe'')]"

lemma demo_built: "registry_build demo_hashing demo_tables = Inr demo_registry"
proof -
  have "\<not> isl (registry_build demo_hashing demo_tables)" by code_simp
  then show ?thesis by (cases "registry_build demo_hashing demo_tables") (simp_all add: demo_registry_def)
qed

lemma demo_meaning:
  "asset_meaning demo_flow demo_registry =
    \<lparr>rs_asset_id = Some ''db1'', rs_asset_criticality = Some ''critical'', rs_identity_id = Some ''u1'',
     rs_identity_priority = Some ''high'', rs_context_tags = [''src:pci''], rs_asset_via = ''src''\<rparr>"
  by code_simp

text \<open>C4: Whatever was resolved before, resolving an event against an index gives what its declarations say of the event: the asset of the first of host name, source and destination that has one, its criticality, the identity, and the labels of every side; the memo of addresses only ever repeats true answers.\<close>

theorem registry_resolution_ignores_history:
  assumes "reached i j"
  shows "fst (asset_resolve evt j) = asset_meaning evt i \<and> reached i (snd (asset_resolve evt j))"
  using assms by (rule asset_resolve_meaning)

theorem registry_resolution_ignores_history_witness:
  "fst (asset_resolve demo_flow demo_registry) = asset_meaning demo_flow demo_registry"
  using registry_resolution_ignores_history[of demo_registry demo_registry demo_flow] registry_build_known[OF demo_built]
  by simp

text \<open>C5: An address without an alias of its own belongs to the asset of a declared network that holds it and has the longest prefix of all that do; it belongs to none exactly when no declared network holds it.\<close>

theorem longest_network_answers:
  assumes "well_built i" and "reached i j" and "ip_address value = Some a"
    and "dict_get (ai_asset_alias i) (''ip'', value) = None"
  shows "case fst (asset_for_ip value j) of
      Some aid \<Rightarrow>
        (\<exists>t n. ((''cidr'', t), aid) \<in> set (ai_asset_alias i) \<and> ip_network t = Some n \<and> in_net a n \<and>
          (\<forall>t' m aid'. ((''cidr'', t'), aid') \<in> set (ai_asset_alias i) \<longrightarrow> ip_network t' = Some m \<longrightarrow> in_net a m
             \<longrightarrow> net_plen m \<le> net_plen n))
    | None \<Rightarrow> (\<forall>t n aid. ((''cidr'', t), aid) \<in> set (ai_asset_alias i) \<longrightarrow> ip_network t = Some n \<longrightarrow> \<not> in_net a n)"
proof -
  have c: "ai_cidrs i = declared_nets (ai_asset_alias i)" using assms(1) by (simp add: well_built_def)
  have r: "fst (asset_for_ip value j) = net_answer (declared_nets (ai_asset_alias i)) value"
    using asset_for_ip_at[OF assms(2), of "value"] assms(4) c by (simp add: asset_at_def)
  show ?thesis
    using net_answer_longest[OF assms(3)] net_answer_none[OF assms(3)] by (simp add: r split: option.split)
qed

theorem longest_network_answers_witness:
  "case fst (asset_for_ip ''192.0.2.1'' demo_registry) of
      Some aid \<Rightarrow> aid \<in> snd ` set (ai_asset_alias demo_registry)
    | None \<Rightarrow> True"
proof -
  have k: "well_built demo_registry" "reached demo_registry demo_registry" using registry_build_known[OF demo_built] by simp_all
  have a: "ip_address ''192.0.2.1'' = Some (IPv4 3221225985)" by code_simp
  have n: "dict_get (ai_asset_alias demo_registry) (''ip'', ''192.0.2.1'') = None" by code_simp
  show ?thesis using longest_network_answers[OF k a n] by (force split: option.splits)
qed

text \<open>An event resolves to an identity only through an alias that spells the user name: for a name with an at-sign the whole name as UPN or mail address, otherwise the whole logon name, or its part after the domain. The local part of a mail address never stands for a person.\<close>

lemma identity_is_never_guessed:
  assumes "rs_identity_id (asset_meaning evt i) = Some iid"
  shows "\<exists>k. dict_get (ai_identity_alias i) k = Some iid \<and> spells (like_get evt ''user_name'') k"
  using assms by (rule identity_spelled)

lemma identity_is_never_guessed_example:
  "\<exists>k. dict_get (ai_identity_alias demo_registry) k = Some ''u1'' \<and> spells (VStr ''CORP/JDoe'') k"
  using identity_is_never_guessed[of demo_flow demo_registry "''u1''"] unfolding demo_meaning
  by (simp add: demo_flow_def pv_get_def dict_get_def)

text \<open>The asset an event resolves to is an enabled entry of the registry, under its own identifier, and the criticality stored with the event is that entry's, one of the five known levels.\<close>

lemma resolved_asset_is_live:
  assumes "registry_build h t = Inr i" and "rs_asset_id (asset_meaning evt i) = Some aid"
  shows "\<exists>a. dict_get (ai_assets i) aid = Some a \<and> as_id a = aid \<and> as_enabled a \<and>
    rs_asset_criticality (asset_meaning evt i) = Some (as_criticality a) \<and> as_criticality a \<in> set criticality_levels"
  using assms by (rule resolution_live)

lemma resolved_asset_is_live_example:
  "\<exists>a. dict_get (ai_assets demo_registry) ''db1'' = Some a \<and> as_id a = ''db1'' \<and> as_enabled a \<and> as_criticality a = ''critical''"
  using resolved_asset_is_live[OF demo_built, of demo_flow "''db1''"] unfolding demo_meaning by auto

end
