(* ===== verification/Backfill.thy ===== *)
theory Backfill
  imports AssetFacts
begin

text \<open>
  The derived context of a stored event (\<open>_derived_context\<close> in \<open>db.py\<close>) and the two backfills that
  re-derive it on rows already stored, with the stamps that record which registry and which geo sources
  history was derived under.

  The table is a list of rows; a row carries the columns the resolvers read and its derived columns. One
  statement of the loop is one chunk: a page in the order of the identifiers after the cursor, the writes of
  the rows whose columns differ, and the commit. The clock and the progress callback, which cannot change the
  result, are left out.
\<close>

section \<open>The derived columns\<close>

record derived =
  dv_asset_id :: "string option"
  dv_asset_criticality :: "string option"
  dv_identity_id :: "string option"
  dv_identity_priority :: "string option"
  dv_src_country :: "string option"
  dv_dst_country :: "string option"
  dv_src_asn :: "int option"
  dv_dst_asn :: "int option"
  dv_context_tags :: "string list option"

definition or_no_tags :: "string list \<Rightarrow> string list option" where
  "or_no_tags ts = (if ts = [] then None else Some ts)"

type_synonym asset_columns = "string option \<times> string option \<times> string option \<times> string option"
type_synonym geo_columns = "string option \<times> string option \<times> int option \<times> int option"

definition no_context :: "asset_columns \<times> string list option" where
  "no_context = ((None, None, None, None), None)"

definition no_geo :: geo_columns where
  "no_geo = (None, None, None, None)"

text \<open>\<open>_asset_context\<close> of a resolution.\<close>

definition asset_context :: "resolution \<Rightarrow> asset_columns \<times> string list option" where
  "asset_context r =
     (if resolution_is_empty r then no_context
      else ((rs_asset_id r, rs_asset_criticality r, rs_identity_id r, rs_identity_priority r),
            or_no_tags (rs_context_tags r)))"

text \<open>What a derivation reads and leaves behind: the memos, and the counter of geo failures.\<close>

record ctx_state =
  cx_scope :: scope_memo
  cx_geo :: geo_index
  cx_asset :: asset_index
  cx_geo_failures :: nat
  cx_geo_error :: "py_error option"

definition geo_write_state :: "ctx_state \<Rightarrow> nat \<times> py_error option" where
  "geo_write_state st = (cx_geo_failures st, cx_geo_error st)"

definition reset_geo_write_state :: "ctx_state \<Rightarrow> ctx_state" where
  "reset_geo_write_state st = st\<lparr>cx_geo_failures := 0, cx_geo_error := None\<rparr>"

definition geo_context ::
    "(string \<Rightarrow> py_error + int) \<Rightarrow> evtlike \<Rightarrow> ctx_state \<Rightarrow> (geo_columns \<times> string list) \<times> ctx_state" where
  "geo_context trunc evt st =
     (case geo_resolve trunc evt (cx_scope st, cx_geo st) of
        (Inl e, sm, gi) \<Rightarrow>
          ((no_geo, []), st\<lparr>cx_scope := sm, cx_geo := gi, cx_geo_failures := cx_geo_failures st + 1,
                           cx_geo_error := Some e\<rparr>)
      | (Inr r, sm, gi) \<Rightarrow>
          ((if geo_result_empty r then (no_geo, [])
            else ((g_src_country r, g_dst_country r, g_src_asn r, g_dst_asn r), g_tags r)),
           st\<lparr>cx_scope := sm, cx_geo := gi\<rparr>))"

definition merged_context :: "asset_columns \<times> string list option \<Rightarrow> geo_columns \<times> string list \<Rightarrow> derived" where
  "merged_context ac gc =
     (case (ac, gc) of (((aid, level, iid, prio), atags), ((sc, dc, sa, da), gtags)) \<Rightarrow>
       \<lparr>dv_asset_id = aid, dv_asset_criticality = level, dv_identity_id = iid, dv_identity_priority = prio,
        dv_src_country = sc, dv_dst_country = dc, dv_src_asn = sa, dv_dst_asn = da,
        dv_context_tags = or_no_tags (canonical_tags (map VStr ((case atags of None \<Rightarrow> [] | Some ts \<Rightarrow> ts) @ gtags)))\<rparr>)"

definition derived_context ::
    "(string \<Rightarrow> py_error + int) \<Rightarrow> evtlike \<Rightarrow> resolution \<Rightarrow> ctx_state \<Rightarrow> derived \<times> ctx_state" where
  "derived_context trunc evt res st =
     (let (gc, st') = geo_context trunc evt st in (merged_context (asset_context res) gc, st'))"

text \<open>What \<open>_row\<close> does: the registry first, then both sides merged.\<close>

definition row_context :: "(string \<Rightarrow> py_error + int) \<Rightarrow> evtlike \<Rightarrow> ctx_state \<Rightarrow> derived \<times> ctx_state" where
  "row_context trunc evt st =
     (let (res, ai) = asset_resolve evt (cx_asset st) in derived_context trunc evt res (st\<lparr>cx_asset := ai\<rparr>))"

section \<open>Rows and pages\<close>

record stored =
  sr_id :: int
  sr_time :: int
  sr_cols :: "(string, pyval) dict"
  sr_ctx :: derived

record span =
  sp_since :: "int option"
  sp_until :: "int option"

definition in_span :: "span \<Rightarrow> stored \<Rightarrow> bool" where
  "in_span q r \<longleftrightarrow>
     (case sp_since q of None \<Rightarrow> True | Some t \<Rightarrow> t \<le> sr_time r) \<and>
     (case sp_until q of None \<Rightarrow> True | Some t \<Rightarrow> sr_time r < t)"

text \<open>\<open>WHERE id > after AND ... ORDER BY id LIMIT n\<close>.\<close>

definition page :: "span \<Rightarrow> int \<Rightarrow> nat \<Rightarrow> stored list \<Rightarrow> stored list" where
  "page q after n tbl = take n (sort_key sr_id (filter (\<lambda>r. after < sr_id r \<and> in_span q r) tbl))"

text \<open>A job: what is derived for a row, the columns it compares with, and the columns it writes.\<close>

record 'c job =
  jb_derive :: "stored \<Rightarrow> ctx_state \<Rightarrow> 'c \<times> ctx_state"
  jb_current :: "derived \<Rightarrow> 'c"
  jb_put :: "'c \<Rightarrow> derived \<Rightarrow> derived"

fun plan_writes :: "'c job \<Rightarrow> stored list \<Rightarrow> ctx_state \<Rightarrow> (stored \<times> 'c) list \<times> ctx_state" where
  "plan_writes job [] st = ([], st)"
| "plan_writes job (r # rs) st =
     (let (new, st1) = jb_derive job r st; (ws, st2) = plan_writes job rs st1 in
      ((if new \<noteq> jb_current job (sr_ctx r) then (r, new) # ws else ws), st2))"

text \<open>\<open>UPDATE events SET ... WHERE id = ... AND event_time = ...\<close>.\<close>

definition update_row :: "'c job \<Rightarrow> stored list \<Rightarrow> stored \<times> 'c \<Rightarrow> stored list" where
  "update_row job tbl w =
     map (\<lambda>x. if sr_id x = sr_id (fst w) \<and> sr_time x = sr_time (fst w)
              then x\<lparr>sr_ctx := jb_put job (snd w) (sr_ctx x)\<rparr> else x) tbl"

definition apply_writes :: "'c job \<Rightarrow> (stored \<times> 'c) list \<Rightarrow> stored list \<Rightarrow> stored list" where
  "apply_writes job ws tbl = foldl (update_row job) tbl ws"

record progress =
  pg_cursor :: int
  pg_scanned :: int
  pg_updated :: int
  pg_unchanged :: int
  pg_chunks :: int
  pg_done :: bool

lemma update_row_ids [simp]: "map sr_id (update_row job tbl w) = map sr_id tbl"
  by (simp add: update_row_def)

lemma apply_writes_ids [simp]: "map sr_id (apply_writes job ws tbl) = map sr_id tbl"
  by (induction ws arbitrary: tbl) (simp_all add: apply_writes_def)

lemma page_rows: "r \<in> set (page q after n tbl) \<Longrightarrow> r \<in> set tbl \<and> after < sr_id r \<and> in_span q r"
  by (auto simp: page_def dest!: in_set_takeD)

lemma filter_ids: "length (filter (\<lambda>r. a < sr_id r) tbl) = length (filter (\<lambda>i. a < i) (map sr_id tbl))"
  by (simp add: filter_map o_def)

lemma page_progress:
  assumes "r \<in> set (page q after n tbl)"
  shows "length (filter (\<lambda>r'. sr_id r < sr_id r') (apply_writes job ws tbl)) < length (filter (\<lambda>r'. after < sr_id r') tbl)"
proof -
  have r: "r \<in> set tbl" "after < sr_id r" using page_rows[OF assms] by simp_all
  have "length (filter (\<lambda>r'. sr_id r < sr_id r') tbl) < length (filter (\<lambda>r'. after < sr_id r') tbl)"
  proof -
    have "filter (\<lambda>r'. sr_id r < sr_id r') tbl = filter (\<lambda>r'. sr_id r < sr_id r') (filter (\<lambda>r'. after < sr_id r') tbl)"
      using r(2) by (auto intro: filter_cong)
    moreover have "length (filter (\<lambda>r'. sr_id r < sr_id r') (filter (\<lambda>r'. after < sr_id r') tbl))
        < length (filter (\<lambda>r'. after < sr_id r') tbl)"
      using r by (intro length_filter_less[of r]) auto
    ultimately show ?thesis by simp
  qed
  then show ?thesis by (simp add: filter_ids)
qed

text \<open>The loop over the chunks.\<close>

function backfill_loop ::
    "'c job \<Rightarrow> span \<Rightarrow> int \<Rightarrow> int option \<Rightarrow> stored list \<Rightarrow> ctx_state \<Rightarrow> progress
       \<Rightarrow> stored list \<times> ctx_state \<times> progress" where
  "backfill_loop job q chunk maxr tbl st pg =
     (let budget = (case maxr of None \<Rightarrow> chunk | Some m \<Rightarrow> min chunk (m - pg_scanned pg)) in
      if budget \<le> 0 then (tbl, st, pg\<lparr>pg_done := False\<rparr>)
      else
        let rows = page q (pg_cursor pg) (nat budget) tbl in
        if rows = [] then (tbl, st, pg)
        else
          let (ws, st') = plan_writes job rows st;
              tbl' = apply_writes job ws tbl;
              pg' = pg\<lparr>pg_cursor := sr_id (last rows), pg_scanned := pg_scanned pg + int (length rows),
                       pg_updated := pg_updated pg + int (length ws),
                       pg_unchanged := pg_unchanged pg + int (length rows) - int (length ws),
                       pg_chunks := pg_chunks pg + 1\<rparr>
          in if int (length rows) < budget then (tbl', st', pg')
             else backfill_loop job q chunk maxr tbl' st' pg')"
  by pat_completeness auto
termination
proof (relation "measure (\<lambda>(job, q, chunk, maxr, tbl, st, pg). length (filter (\<lambda>r. pg_cursor pg < sr_id r) tbl))",
    goal_cases)
  case (2 job q chunk maxr tbl st pg budget rows x ws st' tbl' pg')
  then show ?case using page_progress[OF last_in_set[of rows, unfolded 2(3)], of job ws]
    by simp
qed simp

declare backfill_loop.simps [simp del]

section \<open>The two backfills\<close>

definition asset_columns_of :: "derived \<Rightarrow> asset_columns \<times> string list option" where
  "asset_columns_of d =
     ((dv_asset_id d, dv_asset_criticality d, dv_identity_id d, dv_identity_priority d), dv_context_tags d)"

definition put_asset_columns :: "asset_columns \<times> string list option \<Rightarrow> derived \<Rightarrow> derived" where
  "put_asset_columns c d =
     (case c of ((aid, level, iid, prio), tags) \<Rightarrow>
       d\<lparr>dv_asset_id := aid, dv_asset_criticality := level, dv_identity_id := iid,
         dv_identity_priority := prio, dv_context_tags := tags\<rparr>)"

definition geo_columns_of :: "derived \<Rightarrow> geo_columns \<times> string list option" where
  "geo_columns_of d = ((dv_src_country d, dv_dst_country d, dv_src_asn d, dv_dst_asn d), dv_context_tags d)"

definition put_geo_columns :: "geo_columns \<times> string list option \<Rightarrow> derived \<Rightarrow> derived" where
  "put_geo_columns c d =
     (case c of ((sc, dc, sa, da), tags) \<Rightarrow>
       d\<lparr>dv_src_country := sc, dv_dst_country := dc, dv_src_asn := sa, dv_dst_asn := da, dv_context_tags := tags\<rparr>)"

definition asset_job :: "(string \<Rightarrow> py_error + int) \<Rightarrow> (asset_columns \<times> string list option) job" where
  "asset_job trunc =
     \<lparr>jb_derive = (\<lambda>r st. map_prod asset_columns_of id (row_context trunc (Row (sr_cols r)) st)),
      jb_current = asset_columns_of, jb_put = put_asset_columns\<rparr>"

definition geo_job :: "(string \<Rightarrow> py_error + int) \<Rightarrow> (geo_columns \<times> string list option) job" where
  "geo_job trunc =
     \<lparr>jb_derive = (\<lambda>r st. map_prod geo_columns_of id (row_context trunc (Row (sr_cols r)) st)),
      jb_current = geo_columns_of, jb_put = put_geo_columns\<rparr>"

text \<open>The stamp of a subsystem: what is loaded, and what history was derived under.\<close>

record stamp =
  sp_hash :: string
  sp_counts :: "nat list"
  sp_backfill_hash :: "string option"

text \<open>The tables of the database the backfills touch; \<open>db_declared\<close> counts the rows of assets and identities.\<close>

record database =
  db_events :: "stored list"
  db_declared :: nat
  db_asset_meta :: "stamp option"
  db_geo_meta :: "stamp option"

definition stamp_upsert :: "string \<Rightarrow> nat list \<Rightarrow> string option \<Rightarrow> stamp option \<Rightarrow> stamp" where
  "stamp_upsert hash counts seed old =
     (case old of
        None \<Rightarrow> \<lparr>sp_hash = hash, sp_counts = counts, sp_backfill_hash = seed\<rparr>
      | Some m \<Rightarrow> m\<lparr>sp_hash := hash, sp_counts := counts\<rparr>)"

definition stamp_backfill :: "string \<Rightarrow> stamp option \<Rightarrow> stamp option" where
  "stamp_backfill hash old = map_option (\<lambda>m. m\<lparr>sp_backfill_hash := Some hash\<rparr>) old"

definition stamp_asset_registry :: "asset_index \<Rightarrow> database \<Rightarrow> string \<times> database" where
  "stamp_asset_registry idx db =
     (ai_fingerprint idx,
      db\<lparr>db_asset_meta := Some (stamp_upsert (ai_fingerprint idx) [length (ai_assets idx), length (ai_identities idx)]
                                          None (db_asset_meta db))\<rparr>)"

definition stamp_geo_sources :: "geo_index \<Rightarrow> database \<Rightarrow> string \<times> database" where
  "stamp_geo_sources idx db =
     (gi_fingerprint idx,
      db\<lparr>db_geo_meta := Some (stamp_upsert (gi_fingerprint idx) [length (gi_sources idx)]
                                        (if db_events db = [] then Some (gi_fingerprint idx) else None)
                                        (db_geo_meta db))\<rparr>)"

text \<open>\<open>str(row["backfill_hash"]) if row and row["backfill_hash"] else None\<close>.\<close>

definition stamped :: "stamp option \<Rightarrow> string option" where
  "stamped meta =
     (case meta of None \<Rightarrow> None
      | Some m \<Rightarrow> (case sp_backfill_hash m of None \<Rightarrow> None | Some h \<Rightarrow> if h = [] then None else Some h))"

definition asset_backfill_due :: "asset_index \<Rightarrow> database \<Rightarrow> bool" where
  "asset_backfill_due idx db \<longleftrightarrow> \<not> asset_index_empty idx \<and> stamped (db_asset_meta db) \<noteq> Some (ai_fingerprint idx)"

definition geo_backfill_due :: "geo_index \<Rightarrow> database \<Rightarrow> bool" where
  "geo_backfill_due idx db \<longleftrightarrow> stamped (db_geo_meta db) \<noteq> Some (gi_fingerprint idx)"

record options =
  op_chunk :: int
  op_start_id :: int
  op_max_rows :: "int option"
  op_span :: span

definition default_options :: options where
  "default_options = \<lparr>op_chunk = 2000, op_start_id = 0, op_max_rows = None,
     op_span = \<lparr>sp_since = None, sp_until = None\<rparr>\<rparr>"

definition full_pass :: "options \<Rightarrow> bool" where
  "full_pass opt \<longleftrightarrow> op_start_id opt = 0 \<and> op_max_rows opt = None \<and>
     sp_since (op_span opt) = None \<and> sp_until (op_span opt) = None"

definition start_progress :: "int \<Rightarrow> progress" where
  "start_progress start = \<lparr>pg_cursor = start, pg_scanned = 0, pg_updated = 0, pg_unchanged = 0,
     pg_chunks = 0, pg_done = True\<rparr>"

definition run_job :: "'c job \<Rightarrow> options \<Rightarrow> stored list \<Rightarrow> ctx_state \<Rightarrow> stored list \<times> ctx_state \<times> progress" where
  "run_job job opt tbl st =
     backfill_loop job (op_span opt) (max 1 (op_chunk opt)) (op_max_rows opt) tbl st (start_progress (op_start_id opt))"

definition backfill_assets ::
    "(string \<Rightarrow> py_error + int) \<Rightarrow> options \<Rightarrow> database \<Rightarrow> ctx_state \<Rightarrow> progress \<times> database \<times> ctx_state" where
  "backfill_assets trunc opt db st =
     (let (tbl, st', pg) = run_job (asset_job trunc) opt (db_events db) st in
      (pg, db\<lparr>db_events := tbl,
              db_asset_meta := (if pg_done pg \<and> full_pass opt
                                then stamp_backfill (ai_fingerprint (cx_asset st)) (db_asset_meta db)
                                else db_asset_meta db)\<rparr>, st'))"

text \<open>The refusal carries the number of declared rows.\<close>

datatype backfill_error = DegradedRegistry nat

definition refuse_if_degraded :: "asset_index \<Rightarrow> database \<Rightarrow> backfill_error + unit" where
  "refuse_if_degraded aidx db =
     (if \<not> asset_index_empty aidx then Inr ()
      else if db_declared db \<noteq> 0 then Inl (DegradedRegistry (db_declared db)) else Inr ())"

definition backfill_geo ::
    "(string \<Rightarrow> py_error + int) \<Rightarrow> options \<Rightarrow> database \<Rightarrow> ctx_state
       \<Rightarrow> backfill_error + progress \<times> database \<times> ctx_state" where
  "backfill_geo trunc opt db st =
     sbind (refuse_if_degraded (cx_asset st) db) (\<lambda>_.
       let (tbl, st', pg) = run_job (geo_job trunc) opt (db_events db) st in
       Inr (pg, db\<lparr>db_events := tbl,
                   db_geo_meta := (if pg_done pg \<and> full_pass opt
                                   then stamp_backfill (gi_fingerprint (cx_geo st)) (db_geo_meta db)
                                   else db_geo_meta db)\<rparr>, st'))"

end
