(* ===== verification/BackfillFacts.thy ===== *)
theory BackfillFacts
  imports Backfill
begin

text \<open>
  What the backfills promise. Deriving the context of a row is a function of its columns and of the two
  pinned indexes; a run updates exactly the rows between its cursors, whatever the size of its chunks; an
  interrupted run can be resumed; both backfills, in either order, leave every row as ingest would store it;
  and a second run writes nothing.
\<close>

section \<open>One job over a table\<close>

text \<open>A job whose derivation is the function \<open>F\<close> of a row's columns as long as the state satisfies \<open>Inv\<close>, and
  whose columns are read and written consistently.\<close>

locale rederivation =
  fixes job :: "'c job" and F :: "stored \<Rightarrow> 'c" and Inv :: "ctx_state \<Rightarrow> bool"
  assumes derive: "Inv st \<Longrightarrow> fst (jb_derive job r st) = F r \<and> Inv (snd (jb_derive job r st))"
    and F_cols: "F (r\<lparr>sr_ctx := d\<rparr>) = F r"
    and put_current: "jb_put job (jb_current job d) d = d"
    and current_put: "jb_current job (jb_put job c d) = c"
begin

definition fresh :: "stored \<Rightarrow> stored" where
  "fresh r = r\<lparr>sr_ctx := jb_put job (F r) (sr_ctx r)\<rparr>"

definition stale :: "stored \<Rightarrow> bool" where
  "stale r \<longleftrightarrow> F r \<noteq> jb_current job (sr_ctx r)"

lemma fresh_keeps [simp]: "sr_id (fresh r) = sr_id r" "sr_time (fresh r) = sr_time r" "sr_cols (fresh r) = sr_cols r"
    "in_span q (fresh r) = in_span q r" "F (fresh r) = F r"
  by (simp_all add: fresh_def in_span_def F_cols split: option.splits)

lemma fresh_not_stale [simp]: "\<not> stale (fresh r)"
  using current_put by (simp add: stale_def fresh_def F_cols)

lemma fresh_current [simp]: "\<not> stale r \<Longrightarrow> fresh r = r"
  using put_current[of "sr_ctx r"] by (simp add: stale_def fresh_def)

lemma plan:
  "Inv st \<Longrightarrow> fst (plan_writes job rs st) = map (\<lambda>r. (r, F r)) (filter stale rs) \<and> Inv (snd (plan_writes job rs st))"
proof (induction rs arbitrary: st)
  case (Cons r rs)
  obtain new st1 where d: "jb_derive job r st = (new, st1)" by fastforce
  have "new = F r" "Inv st1" using derive[OF Cons.prems, of r] by (simp_all add: d)
  moreover obtain ws st2 where p: "plan_writes job rs st1 = (ws, st2)" by fastforce
  ultimately show ?case using Cons.IH[of st1] by (simp add: d p stale_def)
qed simp

definition update :: "stored \<Rightarrow> stored \<times> 'c \<Rightarrow> stored" where
  "update x w = (if sr_id x = sr_id (fst w) \<and> sr_time x = sr_time (fst w)
                 then x\<lparr>sr_ctx := jb_put job (snd w) (sr_ctx x)\<rparr> else x)"

lemma apply_writes_pointwise: "apply_writes job ws tbl = map (\<lambda>x. foldl update x ws) tbl"
proof (induction ws arbitrary: tbl)
  case (Cons w ws)
  have "update_row job tbl w = map (\<lambda>x. update x w) tbl" by (simp add: update_row_def update_def)
  then show ?case using Cons.IH[of "update_row job tbl w"] by (simp add: apply_writes_def)
qed (simp add: apply_writes_def)

lemma update_others: "sr_id x \<notin> set (map (sr_id \<circ> fst) ws) \<Longrightarrow> foldl update x ws = x"
  by (induction ws) (auto simp: update_def)

lemma update_page_row:
  assumes "distinct (map sr_id rs)" "\<forall>r\<in>set rs. sr_id r = sr_id x \<longrightarrow> r = x"
  shows "foldl update x (map (\<lambda>r. (r, F r)) (filter stale rs)) = (if x \<in> set rs then fresh x else x)"
  using assms
proof (induction rs)
  case (Cons r rs)
  show ?case
  proof (cases "r = x")
    case True
    then have "sr_id x \<notin> set (map sr_id rs)" using Cons.prems(1) by simp
    then have "sr_id y \<notin> set (map (sr_id \<circ> fst) (map (\<lambda>r. (r, F r)) (filter stale rs)))" if "sr_id y = sr_id x" for y
      using that by auto
    then have "foldl update y (map (\<lambda>r. (r, F r)) (filter stale rs)) = y" if "sr_id y = sr_id x" for y
      using that update_others by blast
    moreover have "update x (x, F x) = fresh x" by (simp add: update_def fresh_def)
    ultimately show ?thesis using True by simp
  next
    case False
    then have "sr_id x \<noteq> sr_id r" using Cons.prems(2) by auto
    then show ?thesis using Cons False by (auto simp: update_def)
  qed
qed simp

text \<open>The table in which the rows after \<open>lo\<close> up to \<open>hi\<close> have been derived afresh.\<close>

definition upto_row :: "span \<Rightarrow> int \<Rightarrow> int \<Rightarrow> stored list \<Rightarrow> stored list" where
  "upto_row q lo hi tbl = map (\<lambda>r. if lo < sr_id r \<and> sr_id r \<le> hi \<and> in_span q r then fresh r else r) tbl"

lemma upto_row_ids [simp]: "map sr_id (upto_row q lo hi tbl) = map sr_id tbl"
  by (simp add: upto_row_def)

lemma upto_ball:
  "(\<forall>r\<in>set (upto_row q a b tbl). in_span q r \<longrightarrow> sr_id r \<le> x) \<longleftrightarrow> (\<forall>r\<in>set tbl. in_span q r \<longrightarrow> sr_id r \<le> x)"
  by (induction tbl) (auto simp: upto_row_def)

lemma upto_row_empty [simp]: "upto_row q lo lo tbl = tbl"
  by (auto simp: upto_row_def intro!: map_idI)

lemma upto_row_append: "a \<le> b \<Longrightarrow> b \<le> c \<Longrightarrow> upto_row q b c (upto_row q a b tbl) = upto_row q a c tbl"
  by (auto simp: upto_row_def)

lemma page_members:
  assumes "distinct (map sr_id tbl)" "page q after n tbl \<noteq> []"
  shows "x \<in> set (page q after n tbl)
    \<longleftrightarrow> x \<in> set tbl \<and> after < sr_id x \<and> in_span q x \<and> sr_id x \<le> sr_id (last (page q after n tbl))"
proof -
  define S where "S = sort_key sr_id (filter (\<lambda>r. after < sr_id r \<and> in_span q r) tbl)"
  have mem: "x \<in> set S \<longleftrightarrow> x \<in> set tbl \<and> after < sr_id x \<and> in_span q x" for x by (auto simp: S_def)
  have d: "distinct (map sr_id S)" using assms(1)
    by (simp add: S_def distinct_map inj_on_def)
  have so: "sorted (map sr_id S)" by (simp add: S_def)
  have ne: "take n S \<noteq> []" using assms(2) by (simp add: page_def S_def)
  have p: "page q after n tbl = take n S" by (simp add: page_def S_def)
  have split: "S = take n S @ drop n S" by simp
  have "sr_id y \<le> sr_id (last (take n S))" if "y \<in> set (take n S)" for y
  proof -
    have "sorted (map sr_id (take n S))" using so by (simp add: sorted_wrt_take flip: take_map)
    moreover obtain B l where "take n S = B @ [l]" using ne by (metis append_butlast_last_id)
    ultimately show ?thesis using that by (auto simp: sorted_append)
  qed
  moreover have "\<not> sr_id y \<le> sr_id (last (take n S))" if "y \<in> set (drop n S)" for y
  proof -
    have l: "last (take n S) \<in> set (take n S)" using ne by simp
    have "sorted (map sr_id (take n S) @ map sr_id (drop n S))" using so split by (metis map_append)
    then have "sr_id (last (take n S)) \<le> sr_id y" using l that by (auto simp: sorted_append)
    moreover have "distinct (map sr_id (take n S) @ map sr_id (drop n S))" using d split by (metis map_append)
    then have "sr_id (last (take n S)) \<noteq> sr_id y" using l that by auto
    ultimately show ?thesis by simp
  qed
  moreover have "x \<in> set S \<longleftrightarrow> x \<in> set (take n S) \<or> x \<in> set (drop n S)" by (metis Un_iff set_append split)
  ultimately show ?thesis using mem unfolding p by blast
qed

definition between :: "span \<Rightarrow> int \<Rightarrow> int \<Rightarrow> stored list \<Rightarrow> stored list" where
  "between q lo hi tbl = filter (\<lambda>r. lo < sr_id r \<and> sr_id r \<le> hi \<and> in_span q r) tbl"

lemma between_none [simp]: "between q c c tbl = []"
  by (auto simp: between_def filter_empty_conv)

lemma page_distinct: "distinct (map sr_id tbl) \<Longrightarrow> distinct (page q after n tbl) \<and> distinct (map sr_id (page q after n tbl))"
proof -
  assume d: "distinct (map sr_id tbl)"
  have "distinct (map sr_id (sort_key sr_id (filter (\<lambda>r. after < sr_id r \<and> in_span q r) tbl)))"
    using d by (simp add: distinct_map inj_on_def)
  then have "distinct (map sr_id (page q after n tbl))" by (simp add: page_def distinct_take flip: take_map)
  then show ?thesis by (simp add: distinct_map)
qed

lemma page_between:
  assumes "distinct (map sr_id tbl)" "page q after n tbl \<noteq> []"
  shows "length (filter P (page q after n tbl)) = length (filter P (between q after (sr_id (last (page q after n tbl))) tbl))"
proof -
  let ?p = "page q after n tbl"
  have "set (filter P ?p) = set (filter P (between q after (sr_id (last ?p)) tbl))"
    using page_members[OF assms] by (auto simp: between_def)
  moreover have "distinct (filter P ?p)" using page_distinct[OF assms(1)] by simp
  moreover have "distinct (filter P (between q after (sr_id (last ?p)) tbl))"
    using assms(1) by (simp add: between_def distinct_map)
  ultimately show ?thesis by (metis distinct_card)
qed

lemma between_append:
  "a \<le> b \<Longrightarrow> b \<le> c \<Longrightarrow> length (filter P (between q a b tbl)) + length (filter P (between q b c tbl))
    = length (filter P (between q a c tbl))"
  by (induction tbl) (auto simp: between_def)

lemma between_upto:
  "length (between q b c (upto_row q a b tbl)) = length (between q b c tbl)"
  "length (filter stale (between q b c (upto_row q a b tbl))) = length (filter stale (between q b c tbl))"
  by (induction tbl) (auto simp: between_def upto_row_def)

lemma chunk_step:
  assumes "distinct (map sr_id tbl)" "page q c n tbl \<noteq> []" "Inv st"
  defines "rows \<equiv> page q c n tbl"
  shows "apply_writes job (fst (plan_writes job rows st)) tbl = upto_row q c (sr_id (last rows)) tbl"
    and "length (fst (plan_writes job rows st)) = length (filter stale (between q c (sr_id (last rows)) tbl))"
    and "length rows = length (between q c (sr_id (last rows)) tbl)"
    and "Inv (snd (plan_writes job rows st))" and "c < sr_id (last rows)"
proof -
  have pl: "fst (plan_writes job rows st) = map (\<lambda>r. (r, F r)) (filter stale rows)" using plan[OF assms(3)] by simp
  have "foldl update x (map (\<lambda>r. (r, F r)) (filter stale rows)) = (if x \<in> set rows then fresh x else x)"
    if "x \<in> set tbl" for x
  proof (rule update_page_row)
    show "distinct (map sr_id rows)" using page_distinct[OF assms(1)] by (simp add: rows_def)
    have "r = x" if "r \<in> set rows" "sr_id r = sr_id x" for r
      using that \<open>x \<in> set tbl\<close> page_rows assms(1) unfolding rows_def by (metis distinct_map inj_onD)
    then show "\<forall>r\<in>set rows. sr_id r = sr_id x \<longrightarrow> r = x" by blast
  qed
  then show "apply_writes job (fst (plan_writes job rows st)) tbl = upto_row q c (sr_id (last rows)) tbl"
    using page_members[OF assms(1,2)]
    unfolding apply_writes_pointwise pl upto_row_def by (auto simp: rows_def)
  show "length (fst (plan_writes job rows st)) = length (filter stale (between q c (sr_id (last rows)) tbl))"
    using page_between[OF assms(1,2), of stale] unfolding pl unfolding rows_def by simp
  show "length rows = length (between q c (sr_id (last rows)) tbl)"
    using page_between[OF assms(1,2), of "\<lambda>_. True"] by (simp add: rows_def)
  show "Inv (snd (plan_writes job rows st))" using plan[OF assms(3)] by simp
  show "c < sr_id (last rows)" using page_rows[OF last_in_set[OF assms(2)]] by (simp add: rows_def)
qed

lemma short_page:
  assumes "distinct (map sr_id tbl)" "length (page q c n tbl) < n" "r \<in> set tbl" "in_span q r" "c < sr_id r"
  shows "r \<in> set (page q c n tbl)"
proof -
  have "page q c n tbl = sort_key sr_id (filter (\<lambda>r. c < sr_id r \<and> in_span q r) tbl)"
    using assms(2) by (simp add: page_def)
  then show ?thesis using assms by simp
qed

definition run_ok :: "span \<Rightarrow> int \<Rightarrow> int option \<Rightarrow> stored list \<Rightarrow> progress \<Rightarrow> stored list \<times> ctx_state \<times> progress \<Rightarrow> bool" where
  "run_ok q chunk maxr tbl pg out \<longleftrightarrow>
     (case out of (tbl', st', pg') \<Rightarrow>
       pg_cursor pg \<le> pg_cursor pg' \<and> tbl' = upto_row q (pg_cursor pg) (pg_cursor pg') tbl \<and> Inv st' \<and>
       pg_scanned pg' = pg_scanned pg + int (length (between q (pg_cursor pg) (pg_cursor pg') tbl)) \<and>
       pg_updated pg' = pg_updated pg + int (length (filter stale (between q (pg_cursor pg) (pg_cursor pg') tbl))) \<and>
       (pg_done pg' \<longrightarrow> (\<forall>r\<in>set tbl. in_span q r \<longrightarrow> sr_id r \<le> pg_cursor pg')) \<and>
       (maxr = None \<and> 0 < chunk \<longrightarrow> pg_done pg' = pg_done pg))"

lemma loop_ok:
  assumes "distinct (map sr_id tbl)" "Inv st"
  shows "run_ok q chunk maxr tbl pg (backfill_loop job q chunk maxr tbl st pg)"
  using assms
proof (induction "length (filter (\<lambda>r. pg_cursor pg < sr_id r) tbl)" arbitrary: tbl st pg rule: less_induct)
  case less
  define budget where "budget = (case maxr of None \<Rightarrow> chunk | Some m \<Rightarrow> min chunk (m - pg_scanned pg))"
  define rows where "rows = page q (pg_cursor pg) (nat budget) tbl"
  obtain ws st' where w: "plan_writes job rows st = (ws, st')" by fastforce
  define tbl' where "tbl' = apply_writes job ws tbl"
  define pg' where "pg' = pg\<lparr>pg_cursor := sr_id (last rows), pg_scanned := pg_scanned pg + int (length rows),
                       pg_updated := pg_updated pg + int (length ws),
                       pg_unchanged := pg_unchanged pg + int (length rows) - int (length ws),
                       pg_chunks := pg_chunks pg + 1\<rparr>"
  have loop: "backfill_loop job q chunk maxr tbl st pg =
      (if budget \<le> 0 then (tbl, st, pg\<lparr>pg_done := False\<rparr>)
       else if rows = [] then (tbl, st, pg)
       else if int (length rows) < budget then (tbl', st', pg')
       else backfill_loop job q chunk maxr tbl' st' pg')"
    by (subst backfill_loop.simps)
      (simp add: budget_def[symmetric] rows_def[symmetric] w tbl'_def[symmetric] pg'_def[symmetric] Let_def)
  consider (bound) "budget \<le> 0" | (none) "0 < budget" "rows = []" | (rows) "0 < budget" "rows \<noteq> []" by linarith
  then show ?case
  proof cases
    case bound
    then show ?thesis using less.prems by (auto simp: loop run_ok_def budget_def)
  next
    case none
    have "sr_id r \<le> pg_cursor pg" if "r \<in> set tbl" "in_span q r" for r
      using short_page[OF less.prems(1), of q "pg_cursor pg" "nat budget" r] that none by (force simp: rows_def)
    then show ?thesis using none less.prems by (auto simp: loop run_ok_def)
  next
    case rows
    note st = chunk_step[OF less.prems(1) rows(2)[unfolded rows_def] less.prems(2), folded rows_def, unfolded w fst_conv snd_conv]
    have tb: "tbl' = upto_row q (pg_cursor pg) (sr_id (last rows)) tbl" using st(1) by (simp add: tbl'_def)
    have c': "pg_cursor pg' = sr_id (last rows)" by (simp add: pg'_def)
    show ?thesis
    proof (cases "int (length rows) < budget")
      case True
      have "sr_id r \<le> sr_id (last rows)" if "r \<in> set tbl" "in_span q r" for r
      proof (cases "pg_cursor pg < sr_id r")
        case after: True
        have "r \<in> set rows" using short_page[OF less.prems(1) _ that after, of "nat budget"] True by (simp add: rows_def)
        then show ?thesis using page_members[OF less.prems(1) rows(2)[unfolded rows_def], of r] by (simp add: rows_def)
      qed (use st(5) in simp)
      then show ?thesis using True rows st(2-5) tb by (simp add: loop run_ok_def pg'_def)
    next
      case False
      have d': "distinct (map sr_id tbl')" using less.prems(1) by (simp add: tb)
      have m: "length (filter (\<lambda>r. pg_cursor pg' < sr_id r) tbl') < length (filter (\<lambda>r. pg_cursor pg < sr_id r) tbl)"
        using page_progress[OF last_in_set[OF rows(2)[unfolded rows_def]], folded rows_def] by (simp add: c' tbl'_def)
      have ih: "run_ok q chunk maxr tbl' pg' (backfill_loop job q chunk maxr tbl' st' pg')"
        using less.hyps[OF m d' st(4)] .
      obtain t2 s2 p2 where out: "backfill_loop job q chunk maxr tbl' st' pg' = (t2, s2, p2)" by (metis prod_cases3)
      note ih' = ih[unfolded run_ok_def out prod.case]
      have up: "upto_row q (pg_cursor pg') (pg_cursor p2) tbl' = upto_row q (pg_cursor pg) (pg_cursor p2) tbl"
        using ih' st(5) upto_row_append[of "pg_cursor pg" "pg_cursor pg'" "pg_cursor p2" q tbl] by (simp add: tb c')
      have cnt: "length (between q (pg_cursor pg') (pg_cursor p2) tbl') + length rows
            = length (between q (pg_cursor pg) (pg_cursor p2) tbl)"
          "length (filter stale (between q (pg_cursor pg') (pg_cursor p2) tbl')) + length ws
            = length (filter stale (between q (pg_cursor pg) (pg_cursor p2) tbl))"
        using ih' st(2,3,5) between_append[of "pg_cursor pg" "pg_cursor pg'" "pg_cursor p2" "\<lambda>_. True" q tbl]
          between_append[of "pg_cursor pg" "pg_cursor pg'" "pg_cursor p2" stale q tbl] between_upto
        by (simp_all add: tb c')
      have same: "(\<forall>r\<in>set tbl'. in_span q r \<longrightarrow> sr_id r \<le> x) \<longleftrightarrow> (\<forall>r\<in>set tbl. in_span q r \<longrightarrow> sr_id r \<le> x)" for x
        by (simp add: tb upto_ball)
      have le: "pg_cursor pg \<le> pg_cursor p2" using ih' st(5) by (simp add: c')
      have sums: "pg_scanned pg' = pg_scanned pg + int (length rows)" "pg_updated pg' = pg_updated pg + int (length ws)"
        "pg_done pg' = pg_done pg" by (simp_all add: pg'_def)
      show ?thesis using ih' False rows cnt le same up sums
        by (simp add: loop out run_ok_def flip: of_nat_add)
    qed
  qed
qed

text \<open>Complete runs.\<close>

lemma upto_all: "\<forall>r\<in>set tbl. lo < sr_id r \<and> sr_id r \<le> hi \<and> in_span q r \<Longrightarrow> upto_row q lo hi tbl = map fresh tbl"
  by (auto simp: upto_row_def)

lemma between_all: "\<forall>r\<in>set tbl. lo < sr_id r \<and> sr_id r \<le> hi \<and> in_span q r \<Longrightarrow> between q lo hi tbl = tbl"
  by (auto simp: between_def)

lemma full_run:
  assumes "distinct (map sr_id tbl)" "Inv st" "full_pass opt" "\<forall>r\<in>set tbl. 0 < sr_id r"
    and "run_job job opt tbl st = (tbl', st', pg')"
  shows "tbl' = map fresh tbl" "Inv st'" "pg_done pg'" "pg_scanned pg' = int (length tbl)"
    "pg_updated pg' = int (length (filter stale tbl))"
proof -
  have o: "op_start_id opt = 0" "op_max_rows opt = None" "in_span (op_span opt) r" for r
    using assms(3) by (simp_all add: full_pass_def in_span_def)
  have r: "run_ok (op_span opt) (max 1 (op_chunk opt)) None tbl (start_progress 0) (tbl', st', pg')"
    using loop_ok[OF assms(1,2), of "op_span opt" "max 1 (op_chunk opt)" None "start_progress 0"] assms(5)
    by (simp add: run_job_def o)
  note r' = r[unfolded run_ok_def prod.case]
  show d: "pg_done pg'" and "Inv st'" using r' by (simp_all add: start_progress_def)
  have all: "\<forall>r\<in>set tbl. 0 < sr_id r \<and> sr_id r \<le> pg_cursor pg' \<and> in_span (op_span opt) r"
    using r' d assms(4) o(3) by simp
  show "tbl' = map fresh tbl" using r' upto_all[OF all] by (simp add: start_progress_def)
  show "pg_scanned pg' = int (length tbl)" "pg_updated pg' = int (length (filter stale tbl))"
    using r' between_all[OF all] by (simp_all add: start_progress_def)
qed

text \<open>A run that stopped on its bound, and the run that starts where it stopped.\<close>

lemma resumed_run:
  assumes "distinct (map sr_id tbl)" "Inv st" "backfill_loop job q c1 m tbl st (start_progress start) = (tbl1, st1, pg1)"
    "backfill_loop job q c2 None tbl1 st1 (start_progress (pg_cursor pg1)) = (tbl2, st2, pg2)"
    "backfill_loop job q c3 None tbl st (start_progress start) = (tbl3, st3, pg3)" "0 < c2" "0 < c3"
  shows "tbl2 = tbl3"
proof -
  note r1 = loop_ok[OF assms(1,2), of q c1 m "start_progress start", unfolded assms(3) run_ok_def prod.case]
  have d1: "distinct (map sr_id tbl1)" using r1 assms(1) by simp
  have i1: "Inv st1" using r1 by simp
  note r2 = loop_ok[OF d1 i1, of q c2 None "start_progress (pg_cursor pg1)", unfolded assms(4) run_ok_def prod.case]
  note r3 = loop_ok[OF assms(1,2), of q c3 None "start_progress start", unfolded assms(5) run_ok_def prod.case]
  have a: "\<forall>r\<in>set tbl. in_span q r \<longrightarrow> sr_id r \<le> pg_cursor pg2" "start \<le> pg_cursor pg1" "pg_cursor pg1 \<le> pg_cursor pg2"
    using r1 r2 assms(6) by (auto simp: start_progress_def upto_ball)
  have b: "\<forall>r\<in>set tbl. in_span q r \<longrightarrow> sr_id r \<le> pg_cursor pg3" using r3 assms(7) by (simp add: start_progress_def)
  have "tbl2 = upto_row q start (pg_cursor pg2) tbl"
    using r1 r2 upto_row_append[OF a(2,3), of q tbl] by (simp add: start_progress_def)
  moreover have "tbl3 = upto_row q start (pg_cursor pg3) tbl" using r3 by (simp add: start_progress_def)
  ultimately show ?thesis using a(1) b by (auto simp: upto_row_def)
qed

end

section \<open>The context of a row is a function of its columns\<close>

definition geo_side :: "py_error + geo_result \<Rightarrow> geo_columns \<times> string list" where
  "geo_side r =
     (case r of Inl _ \<Rightarrow> (no_geo, [])
      | Inr g \<Rightarrow> (if geo_result_empty g then (no_geo, [])
                  else ((g_src_country g, g_dst_country g, g_src_asn g, g_dst_asn g), g_tags g)))"

text \<open>The context under a registry and a list of geo sources.\<close>

definition context_meaning ::
    "(string \<Rightarrow> py_error + int) \<Rightarrow> asset_index \<Rightarrow> geo_source list \<Rightarrow> evtlike \<Rightarrow> derived" where
  "context_meaning trunc ai sources evt =
     merged_context (asset_context (asset_meaning evt ai)) (geo_side (geo_meaning trunc sources evt))"

definition ctx_ok ::
    "(string \<Rightarrow> py_error + int) \<Rightarrow> asset_index \<Rightarrow> geo_source list \<Rightarrow> ctx_state \<Rightarrow> bool" where
  "ctx_ok trunc ai sources st \<longleftrightarrow>
     memo_sound (cx_scope st) \<and> index_ok trunc sources (cx_geo st) \<and> reached ai (cx_asset st)"

lemma row_context_meaning:
  assumes "ctx_ok trunc ai sources st"
  shows "fst (row_context trunc evt st) = context_meaning trunc ai sources evt \<and>
    ctx_ok trunc ai sources (snd (row_context trunc evt st))"
proof -
  have ok: "memo_sound (cx_scope st)" "index_ok trunc sources (cx_geo st)" "reached ai (cx_asset st)"
    using assms by (simp_all add: ctx_ok_def)
  obtain res j where a: "asset_resolve evt (cx_asset st) = (res, j)" by fastforce
  have a': "res = asset_meaning evt ai" "reached ai j" using asset_resolve_meaning[OF ok(3), of evt] by (simp_all add: a)
  obtain r sm gi where g: "geo_resolve trunc evt (cx_scope st, cx_geo st) = (r, sm, gi)" by (metis prod_cases3)
  have g': "r = geo_meaning trunc sources evt" "memo_sound sm" "index_ok trunc sources gi"
    using geo_resolve_meaning[OF ok(1,2), of evt] by (simp_all add: g)
  show ?thesis using a'(2) g'(2,3)
    by (cases r) (simp_all add: row_context_def derived_context_def geo_context_def a g context_meaning_def
        geo_side_def ctx_ok_def a'(1) flip: g'(1))
qed

interpretation asset_rederivation: rederivation "asset_job trunc"
    "\<lambda>r. asset_columns_of (context_meaning trunc ai sources (Row (sr_cols r)))" "ctx_ok trunc ai sources"
  for trunc ai sources
proof
  fix st :: ctx_state and r :: stored
  assume "ctx_ok trunc ai sources st"
  from row_context_meaning[OF this, of "Row (sr_cols r)"]
  show "fst (jb_derive (asset_job trunc) r st) = asset_columns_of (context_meaning trunc ai sources (Row (sr_cols r))) \<and>
      ctx_ok trunc ai sources (snd (jb_derive (asset_job trunc) r st))"
    by (cases "row_context trunc (Row (sr_cols r)) st") (simp add: asset_job_def)
qed (simp_all add: asset_job_def asset_columns_of_def put_asset_columns_def split: prod.splits)

interpretation geo_rederivation: rederivation "geo_job trunc"
    "\<lambda>r. geo_columns_of (context_meaning trunc ai sources (Row (sr_cols r)))" "ctx_ok trunc ai sources"
  for trunc ai sources
proof
  fix st :: ctx_state and r :: stored
  assume "ctx_ok trunc ai sources st"
  from row_context_meaning[OF this, of "Row (sr_cols r)"]
  show "fst (jb_derive (geo_job trunc) r st) = geo_columns_of (context_meaning trunc ai sources (Row (sr_cols r))) \<and>
      ctx_ok trunc ai sources (snd (jb_derive (geo_job trunc) r st))"
    by (cases "row_context trunc (Row (sr_cols r)) st") (simp add: geo_job_def)
qed (simp_all add: geo_job_def geo_columns_of_def put_geo_columns_def split: prod.splits)

text \<open>A row as ingest would store it.\<close>

definition rederived ::
    "(string \<Rightarrow> py_error + int) \<Rightarrow> asset_index \<Rightarrow> geo_source list \<Rightarrow> stored \<Rightarrow> stored" where
  "rederived trunc ai sources r = r\<lparr>sr_ctx := context_meaning trunc ai sources (Row (sr_cols r))\<rparr>"

lemma fresh_rows:
  "asset_rederivation.fresh trunc ai sources r
     = r\<lparr>sr_ctx := put_asset_columns (asset_columns_of (context_meaning trunc ai sources (Row (sr_cols r)))) (sr_ctx r)\<rparr>"
  "geo_rederivation.fresh trunc ai sources r
     = r\<lparr>sr_ctx := put_geo_columns (geo_columns_of (context_meaning trunc ai sources (Row (sr_cols r)))) (sr_ctx r)\<rparr>"
  unfolding asset_rederivation.fresh_def geo_rederivation.fresh_def by (simp_all add: asset_job_def geo_job_def)

lemma fresh_both:
  "geo_rederivation.fresh trunc ai sources (asset_rederivation.fresh trunc ai sources r) = rederived trunc ai sources r"
  "asset_rederivation.fresh trunc ai sources (geo_rederivation.fresh trunc ai sources r) = rederived trunc ai sources r"
  unfolding fresh_rows rederived_def
  by (simp_all add: put_asset_columns_def put_geo_columns_def asset_columns_of_def geo_columns_of_def)

lemma fresh_rederived [simp]:
  "asset_rederivation.fresh trunc ai sources (rederived trunc ai sources r) = rederived trunc ai sources r"
  "geo_rederivation.fresh trunc ai sources (rederived trunc ai sources r) = rederived trunc ai sources r"
  unfolding fresh_rows rederived_def
  by (simp_all add: put_asset_columns_def put_geo_columns_def asset_columns_of_def geo_columns_of_def)

section \<open>Both backfills\<close>

definition rows_ok :: "stored list \<Rightarrow> bool" where
  "rows_ok tbl \<longleftrightarrow> distinct (map sr_id tbl) \<and> list_all (\<lambda>r. 0 < sr_id r) tbl"

lemma map_fresh_ids [simp]:
  "map sr_id (map (asset_rederivation.fresh trunc ai sources) tbl) = map sr_id tbl"
  "map sr_id (map (geo_rederivation.fresh trunc ai sources) tbl) = map sr_id tbl"
  by simp_all

lemma rows_ok_fresh [simp]:
  "rows_ok (map (asset_rederivation.fresh trunc ai sources) tbl) = rows_ok tbl"
  "rows_ok (map (geo_rederivation.fresh trunc ai sources) tbl) = rows_ok tbl"
  "rows_ok (map (rederived trunc ai sources) tbl) = rows_ok tbl"
  by (auto simp: rows_ok_def list_all_iff rederived_def o_def)

lemma backfill_assets_full:
  assumes "rows_ok (db_events db)" "ctx_ok trunc ai sources st" "full_pass opt"
    and "backfill_assets trunc opt db st = (pg, db', st')"
  shows "db_events db' = map (asset_rederivation.fresh trunc ai sources) (db_events db)"
    "ctx_ok trunc ai sources st'" "pg_done pg" "pg_scanned pg = int (length (db_events db))"
    "pg_updated pg = int (length (filter (asset_rederivation.stale trunc ai sources) (db_events db)))"
    "db_asset_meta db' = stamp_backfill (ai_fingerprint ai) (db_asset_meta db)" "db_geo_meta db' = db_geo_meta db"
    "db_declared db' = db_declared db"
proof -
  obtain tbl s p where r: "run_job (asset_job trunc) opt (db_events db) st = (tbl, s, p)" by (metis prod_cases3)
  have pos: "\<forall>r\<in>set (db_events db). 0 < sr_id r" and d: "distinct (map sr_id (db_events db))"
    using assms(1) by (auto simp: rows_ok_def list_all_iff)
  note f = asset_rederivation.full_run[OF d assms(2,3) pos r]
  have fp: "ai_fingerprint (cx_asset st) = ai_fingerprint ai"
    using assms(2) by (simp add: ctx_ok_def reached_def same_declared_def)
  have eq: "pg = p" "st' = s" "db' = db\<lparr>db_events := tbl, db_asset_meta := stamp_backfill (ai_fingerprint ai) (db_asset_meta db)\<rparr>"
    using assms(3,4) f(3) by (simp_all add: backfill_assets_def r fp)
  show "db_events db' = map (asset_rederivation.fresh trunc ai sources) (db_events db)"
    "ctx_ok trunc ai sources st'" "pg_done pg" "pg_scanned pg = int (length (db_events db))"
    "pg_updated pg = int (length (filter (asset_rederivation.stale trunc ai sources) (db_events db)))"
    "db_asset_meta db' = stamp_backfill (ai_fingerprint ai) (db_asset_meta db)" "db_geo_meta db' = db_geo_meta db"
    "db_declared db' = db_declared db"
    using f by (simp_all add: eq)
qed

lemma backfill_geo_full:
  assumes "rows_ok (db_events db)" "ctx_ok trunc ai sources st" "full_pass opt"
    and "backfill_geo trunc opt db st = Inr (pg, db', st')"
  shows "db_events db' = map (geo_rederivation.fresh trunc ai sources) (db_events db)"
    "ctx_ok trunc ai sources st'" "pg_done pg" "pg_scanned pg = int (length (db_events db))"
    "pg_updated pg = int (length (filter (geo_rederivation.stale trunc ai sources) (db_events db)))"
    "db_geo_meta db' = stamp_backfill (gi_fingerprint (cx_geo st)) (db_geo_meta db)" "db_asset_meta db' = db_asset_meta db"
    "db_declared db' = db_declared db"
proof -
  obtain tbl s p where r: "run_job (geo_job trunc) opt (db_events db) st = (tbl, s, p)" by (metis prod_cases3)
  have pos: "\<forall>r\<in>set (db_events db). 0 < sr_id r" and d: "distinct (map sr_id (db_events db))"
    using assms(1) by (auto simp: rows_ok_def list_all_iff)
  note f = geo_rederivation.full_run[OF d assms(2,3) pos r]
  have eq: "pg = p" "st' = s" "db' = db\<lparr>db_events := tbl, db_geo_meta := stamp_backfill (gi_fingerprint (cx_geo st)) (db_geo_meta db)\<rparr>"
    using assms(3,4) f(3) by (simp_all add: backfill_geo_def r)
  show "db_events db' = map (geo_rederivation.fresh trunc ai sources) (db_events db)"
    "ctx_ok trunc ai sources st'" "pg_done pg" "pg_scanned pg = int (length (db_events db))"
    "pg_updated pg = int (length (filter (geo_rederivation.stale trunc ai sources) (db_events db)))"
    "db_geo_meta db' = stamp_backfill (gi_fingerprint (cx_geo st)) (db_geo_meta db)" "db_asset_meta db' = db_asset_meta db"
    "db_declared db' = db_declared db"
    using f by (simp_all add: eq)
qed

definition assets_then_geo ::
    "(string \<Rightarrow> py_error + int) \<Rightarrow> options \<Rightarrow> options \<Rightarrow> database \<Rightarrow> ctx_state \<Rightarrow> backfill_error + stored list" where
  "assets_then_geo trunc o1 o2 db st =
     (case backfill_assets trunc o1 db st of (pg, db1, st1) \<Rightarrow>
       (case backfill_geo trunc o2 db1 st1 of Inl e \<Rightarrow> Inl e | Inr (pg', db2, st2) \<Rightarrow> Inr (db_events db2)))"

definition geo_then_assets ::
    "(string \<Rightarrow> py_error + int) \<Rightarrow> options \<Rightarrow> options \<Rightarrow> database \<Rightarrow> ctx_state \<Rightarrow> backfill_error + stored list" where
  "geo_then_assets trunc o1 o2 db st =
     (case backfill_geo trunc o2 db st of Inl e \<Rightarrow> Inl e
      | Inr (pg, db1, st1) \<Rightarrow> (case backfill_assets trunc o1 db1 st1 of (pg', db2, st2) \<Rightarrow> Inr (db_events db2)))"

lemma refuse_same:
  "ctx_ok trunc ai sources st \<Longrightarrow> db_declared db' = db_declared db
    \<Longrightarrow> refuse_if_degraded (cx_asset st) db' = refuse_if_degraded ai db"
  by (simp add: refuse_if_degraded_def ctx_ok_def reached_def same_declared_def asset_index_empty_def)

lemma backfill_geo_runs:
  "refuse_if_degraded (cx_asset st) db = Inr () \<Longrightarrow> \<exists>pg db' st'. backfill_geo trunc opt db st = Inr (pg, db', st')"
  by (cases "run_job (geo_job trunc) opt (db_events db) st") (simp add: backfill_geo_def)

lemma backfills_meet:
  assumes "rows_ok (db_events db)" "ctx_ok trunc ai sources st" "full_pass o1" "full_pass o2"
    and "refuse_if_degraded ai db = Inr ()"
  shows "assets_then_geo trunc o1 o2 db st = Inr (map (rederived trunc ai sources) (db_events db))"
    and "geo_then_assets trunc o1 o2 db st = Inr (map (rederived trunc ai sources) (db_events db))"
proof -
  obtain p1 db1 st1 where a: "backfill_assets trunc o1 db st = (p1, db1, st1)" by (metis prod_cases3)
  note a' = backfill_assets_full[OF assms(1-3) a]
  have ok1: "rows_ok (db_events db1)" using assms(1) a'(1) by simp
  have "refuse_if_degraded (cx_asset st1) db1 = Inr ()" using refuse_same[OF a'(2) a'(8)] assms(5) by simp
  then obtain p2 db2 st2 where g: "backfill_geo trunc o2 db1 st1 = Inr (p2, db2, st2)"
    using backfill_geo_runs by blast
  note g' = backfill_geo_full[OF ok1 a'(2) assms(4) g]
  show "assets_then_geo trunc o1 o2 db st = Inr (map (rederived trunc ai sources) (db_events db))"
    by (simp add: assets_then_geo_def a g g'(1) a'(1) fresh_both)
  have "refuse_if_degraded (cx_asset st) db = Inr ()" using refuse_same[OF assms(2), of db db] assms(5) by simp
  then obtain q1 db3 st3 where h: "backfill_geo trunc o2 db st = Inr (q1, db3, st3)"
    using backfill_geo_runs by blast
  note h' = backfill_geo_full[OF assms(1,2,4) h]
  have ok3: "rows_ok (db_events db3)" using assms(1) h'(1) by simp
  obtain q2 db4 st4 where i: "backfill_assets trunc o1 db3 st3 = (q2, db4, st4)" by (metis prod_cases3)
  note i' = backfill_assets_full[OF ok3 h'(2) assms(3) i]
  show "geo_then_assets trunc o1 o2 db st = Inr (map (rederived trunc ai sources) (db_events db))"
    by (simp add: geo_then_assets_def h i i'(1) h'(1) fresh_both)
qed

text \<open>A row is current when it carries the context its columns give.\<close>

definition current_row ::
    "(string \<Rightarrow> py_error + int) \<Rightarrow> asset_index \<Rightarrow> geo_source list \<Rightarrow> stored \<Rightarrow> bool" where
  "current_row trunc ai sources r \<longleftrightarrow> sr_ctx r = context_meaning trunc ai sources (Row (sr_cols r))"

lemma current_not_stale:
  assumes "current_row trunc ai sources r"
  shows "\<not> asset_rederivation.stale trunc ai sources r" "\<not> geo_rederivation.stale trunc ai sources r"
  using assms unfolding asset_rederivation.stale_def geo_rederivation.stale_def
  by (simp_all add: current_row_def asset_job_def geo_job_def)

lemma rederived_current [simp]: "current_row trunc ai sources (rederived trunc ai sources r)"
  by (simp add: current_row_def rederived_def)

lemma current_run:
  assumes "rows_ok (db_events db)" "ctx_ok trunc ai sources st" "full_pass opt"
    and "list_all (current_row trunc ai sources) (db_events db)"
  shows "backfill_assets trunc opt db st = (pg, db', st') \<Longrightarrow> pg_updated pg = 0 \<and> db_events db' = db_events db"
    and "backfill_geo trunc opt db st = Inr (pg, db', st') \<Longrightarrow> pg_updated pg = 0 \<and> db_events db' = db_events db"
proof -
  have n: "filter (asset_rederivation.stale trunc ai sources) (db_events db) = []"
    "filter (geo_rederivation.stale trunc ai sources) (db_events db) = []"
    using assms(4) current_not_stale by (auto simp: filter_empty_conv list_all_iff)
  have m: "map (asset_rederivation.fresh trunc ai sources) (db_events db) = db_events db"
    "map (geo_rederivation.fresh trunc ai sources) (db_events db) = db_events db"
    using assms(4) current_not_stale by (auto simp: list_all_iff intro!: map_idI)
  show "pg_updated pg = 0 \<and> db_events db' = db_events db" if "backfill_assets trunc opt db st = (pg, db', st')"
    using backfill_assets_full[OF assms(1-3) that] by (simp add: n m)
  show "pg_updated pg = 0 \<and> db_events db' = db_events db" if "backfill_geo trunc opt db st = Inr (pg, db', st')"
    using backfill_geo_full[OF assms(1-3) that] by (simp add: n m)
qed

text \<open>What ingest stores is current, whatever was resolved before, as long as the columns are stored as they are.\<close>

definition same_inputs :: "evtlike \<Rightarrow> evtlike \<Rightarrow> bool" where
  "same_inputs a b \<longleftrightarrow> list_all (\<lambda>f. like_get a f = like_get b f) [''host_name'', ''src_ip'', ''dst_ip'', ''user_name'']"

lemma context_meaning_inputs:
  "same_inputs a b \<Longrightarrow> context_meaning trunc ai sources a = context_meaning trunc ai sources b"
proof -
  assume a: "same_inputs a b"
  then have f: "like_get a ''host_name'' = like_get b ''host_name''" "like_get a ''src_ip'' = like_get b ''src_ip''"
    "like_get a ''dst_ip'' = like_get b ''dst_ip''" "like_get a ''user_name'' = like_get b ''user_name''"
    by (simp_all add: same_inputs_def)
  have "side_asset a ai (''host_name'', x) = side_asset b ai (''host_name'', x)"
    "side_asset a ai (''src_ip'', x) = side_asset b ai (''src_ip'', x)"
    "side_asset a ai (''dst_ip'', x) = side_asset b ai (''dst_ip'', x)" for x
    by (simp_all add: side_asset_def f)
  then have "side_dict a ai asset_fields = side_dict b ai asset_fields"
    by (simp add: side_dict_def asset_fields_def List.map_filter_simps split: option.split)
  then have "asset_meaning a ai = asset_meaning b ai" by (simp add: asset_meaning_def f)
  moreover have "geo_meaning trunc sources a = geo_meaning trunc sources b"
    by (simp add: geo_meaning_def true_labels_def f)
  ultimately show ?thesis by (simp add: context_meaning_def)
qed

lemma ingested_row_current:
  assumes "ctx_ok trunc ai sources st" "same_inputs (Fresh e) (Row (sr_cols r))"
    and "sr_ctx r = fst (row_context trunc (Fresh e) st)"
  shows "current_row trunc ai sources r"
  using row_context_meaning[OF assms(1), of "Fresh e"] context_meaning_inputs[OF assms(2)] assms(3)
  by (simp add: current_row_def)

text \<open>What the stamps do not see: a row written under other sources in between, and the context of a registry
  that has been emptied.\<close>

lemma stamp_ignores_rows:
  "geo_backfill_due gi (db\<lparr>db_events := rows\<rparr>) = geo_backfill_due gi db"
  "asset_backfill_due ai (db\<lparr>db_events := rows\<rparr>) = asset_backfill_due ai db"
  by (simp_all add: geo_backfill_due_def asset_backfill_due_def)

lemma emptied_registry_never_due: "asset_index_empty ai \<Longrightarrow> \<not> asset_backfill_due ai db"
  by (simp add: asset_backfill_due_def)

lemma disabled_registry_refused:
  assumes "registry_build h t = Inr i"
    and "list_all (\<lambda>row. \<not> row_enabled row) (tb_assets t)" "list_all (\<lambda>row. \<not> row_enabled row) (tb_identities t)"
    and "db_declared db = length (tb_assets t) + length (tb_identities t)" "db_declared db \<noteq> 0" "cx_asset st = i"
  shows "backfill_geo trunc opt db st = Inl (DegradedRegistry (db_declared db))"
  using disabled_registry_is_empty[OF assms(1-3)] assms(5,6) by (simp add: backfill_geo_def refuse_if_degraded_def)

section \<open>Properties\<close>

definition demo_row :: "int \<Rightarrow> string \<Rightarrow> stored" where
  "demo_row n ip = \<lparr>sr_id = n, sr_time = 0, sr_cols = [(''src_ip'', VStr ip)],
     sr_ctx = merged_context no_context (no_geo, [])\<rparr>"

definition demo_db :: database where
  "demo_db = \<lparr>db_events = [demo_row 1 ''10.1.2.3'', demo_row 2 ''8.8.8.8''], db_declared = 3, db_asset_meta = None,
     db_geo_meta = None\<rparr>"

definition demo_state :: ctx_state where
  "demo_state = \<lparr>cx_scope = [], cx_geo = demo_index, cx_asset = demo_registry, cx_geo_failures = 0, cx_geo_error = None\<rparr>"

definition one_by_one :: options where
  "one_by_one = default_options\<lparr>op_chunk := 1\<rparr>"

lemma demo_ctx_ok: "ctx_ok (\<lambda>_. Inl ValueError) demo_registry [demo_source] demo_state"
  using registry_build_known[OF demo_built] by (simp add: ctx_ok_def demo_state_def memo_sound_def demo_index_def)

lemma demo_rows_ok: "rows_ok (db_events demo_db)"
  by (simp add: rows_ok_def demo_db_def demo_row_def)

lemma demo_passes: "full_pass default_options" "full_pass one_by_one"
  by (simp_all add: full_pass_def one_by_one_def default_options_def)

lemma demo_not_degraded: "refuse_if_degraded demo_registry demo_db = Inr ()"
  by code_simp

text \<open>C6: Two complete backfills, one of the registry columns and one of the geo columns, leave every stored row with exactly the context ingest would give it now, in either order and for any sizes of the chunks, although both write the shared label array.\<close>

theorem backfills_converge:
  assumes "rows_ok (db_events db)" and "ctx_ok trunc ai sources st" and "full_pass o1" and "full_pass o2"
    and "refuse_if_degraded ai db = Inr ()"
  shows "assets_then_geo trunc o1 o2 db st = Inr (map (rederived trunc ai sources) (db_events db)) \<and>
    geo_then_assets trunc o1 o2 db st = Inr (map (rederived trunc ai sources) (db_events db))"
  using backfills_meet[OF assms] by blast

theorem backfills_converge_witness:
  "assets_then_geo (\<lambda>_. Inl ValueError) one_by_one default_options demo_db demo_state
    = geo_then_assets (\<lambda>_. Inl ValueError) one_by_one default_options demo_db demo_state"
  using backfills_converge[OF demo_rows_ok demo_ctx_ok demo_passes(2,1) demo_not_degraded] by simp

definition demo_fresh :: event where
  "demo_fresh = (bare_event ''acme'')\<lparr>src_ip := Some ''8.8.8.8''\<rparr>"

definition demo_ingested :: stored where
  "demo_ingested = \<lparr>sr_id = 1, sr_time = 0, sr_cols = [(''src_ip'', VStr ''8.8.8.8'')],
     sr_ctx = fst (row_context (\<lambda>_. Inl ValueError) (Fresh demo_fresh) demo_state)\<rparr>"

text \<open>C7: The context computed when an event is stored is the one a backfill computes from its row, whatever was resolved before and in between, as long as the registry and the geo sources are the same and the database gives back the four columns the resolvers read (host name, addresses, user name) as the event had them: neither a complete asset backfill nor a complete geo backfill that is not refused for want of a registry, over rows so stored, writes any of them.\<close>

theorem ingested_row_needs_no_backfill:
  assumes "rows_ok (db_events db)" and "ctx_ok trunc ai sources st" and "full_pass opt"
    and "list_all (\<lambda>r. \<exists>e st0. ctx_ok trunc ai sources st0 \<and> same_inputs (Fresh e) (Row (sr_cols r)) \<and>
           sr_ctx r = fst (row_context trunc (Fresh e) st0)) (db_events db)"
  shows "(case backfill_assets trunc opt db st of (pg, db', _) \<Rightarrow>
      pg_done pg \<and> pg_updated pg = 0 \<and> pg_scanned pg = int (length (db_events db)) \<and> db_events db' = db_events db) \<and>
    (case backfill_geo trunc opt db st of Inl _ \<Rightarrow> refuse_if_degraded ai db \<noteq> Inr ()
     | Inr (pg, db', _) \<Rightarrow>
      pg_done pg \<and> pg_updated pg = 0 \<and> pg_scanned pg = int (length (db_events db)) \<and> db_events db' = db_events db)"
proof -
  have c: "list_all (current_row trunc ai sources) (db_events db)"
    using assms(4) ingested_row_current by (fastforce simp: list_all_iff)
  obtain pg db1 st1 where a: "backfill_assets trunc opt db st = (pg, db1, st1)" by (metis prod_cases3)
  note a' = current_run(1)[OF assms(1-3) c a] backfill_assets_full(3,4)[OF assms(1-3) a]
  show ?thesis
  proof (cases "refuse_if_degraded ai db")
    case (Inl e)
    then have "backfill_geo trunc opt db st = Inl e" using refuse_same[OF assms(2), of db db] by (simp add: backfill_geo_def)
    then show ?thesis using a a' Inl by simp
  next
    case (Inr u)
    then have "refuse_if_degraded (cx_asset st) db = Inr ()" using refuse_same[OF assms(2), of db db] by simp
    then obtain pg2 db2 st2 where g: "backfill_geo trunc opt db st = Inr (pg2, db2, st2)" using backfill_geo_runs by blast
    then show ?thesis using a a' current_run(2)[OF assms(1-3) c g] backfill_geo_full(3,4)[OF assms(1-3) g] by simp
  qed
qed

theorem ingested_row_needs_no_backfill_witness:
  "\<exists>pg db' st'. backfill_geo (\<lambda>_. Inl ValueError) one_by_one (demo_db\<lparr>db_events := [demo_ingested]\<rparr>) demo_state = Inr (pg, db', st') \<and>
    pg_updated pg = 0"
proof -
  let ?db = "demo_db\<lparr>db_events := [demo_ingested]\<rparr>"
  have ok: "rows_ok (db_events ?db)" by (simp add: rows_ok_def demo_ingested_def)
  have "refuse_if_degraded (cx_asset demo_state) ?db = Inr ()"
    using refuse_same[OF demo_ctx_ok, of ?db demo_db] demo_not_degraded by simp
  then obtain pg db' st' where r: "backfill_geo (\<lambda>_. Inl ValueError) one_by_one ?db demo_state = Inr (pg, db', st')"
    using backfill_geo_runs by blast
  have i: "same_inputs (Fresh demo_fresh) (Row (sr_cols demo_ingested))" by code_simp
  have "list_all (\<lambda>r. \<exists>e st0. ctx_ok (\<lambda>_. Inl ValueError) demo_registry [demo_source] st0 \<and> same_inputs (Fresh e) (Row (sr_cols r)) \<and>
      sr_ctx r = fst (row_context (\<lambda>_. Inl ValueError) (Fresh e) st0)) (db_events ?db)"
    using i demo_ctx_ok by (auto simp: demo_ingested_def)
  from ingested_row_needs_no_backfill[OF ok demo_ctx_ok demo_passes(2) this] r show ?thesis by (simp add: r)
qed

text \<open>A backfill that stopped on its row bound, resumed from the identifier it returned, leaves the table that one unbounded run leaves, for any sizes of the chunks.\<close>

lemma bounded_runs_add_up:
  assumes "rows_ok tbl" and "ctx_ok trunc ai sources st" and "0 < c2" and "0 < c3"
    and "backfill_loop (asset_job trunc) q c1 m tbl st (start_progress start) = (tbl1, st1, pg1)"
  shows "fst (backfill_loop (asset_job trunc) q c2 None tbl1 st1 (start_progress (pg_cursor pg1)))
    = fst (backfill_loop (asset_job trunc) q c3 None tbl st (start_progress start))"
proof -
  have d: "distinct (map sr_id tbl)" using assms(1) by (simp add: rows_ok_def)
  obtain tbl2 st2 pg2 where r2: "backfill_loop (asset_job trunc) q c2 None tbl1 st1 (start_progress (pg_cursor pg1)) = (tbl2, st2, pg2)"
    by (metis prod_cases3)
  obtain tbl3 st3 pg3 where r3: "backfill_loop (asset_job trunc) q c3 None tbl st (start_progress start) = (tbl3, st3, pg3)"
    by (metis prod_cases3)
  show ?thesis using asset_rederivation.resumed_run[OF d assms(2,5) r2 r3 assms(3,4)] by (simp add: r2 r3)
qed

lemma bounded_runs_add_up_example:
  "fst (backfill_loop (asset_job (\<lambda>_. Inl ValueError)) (op_span one_by_one) 2 None
        (fst (backfill_loop (asset_job (\<lambda>_. Inl ValueError)) (op_span one_by_one) 1 (Some 1) (db_events demo_db) demo_state (start_progress 0)))
        (fst (snd (backfill_loop (asset_job (\<lambda>_. Inl ValueError)) (op_span one_by_one) 1 (Some 1) (db_events demo_db) demo_state (start_progress 0))))
        (start_progress (pg_cursor (snd (snd (backfill_loop (asset_job (\<lambda>_. Inl ValueError)) (op_span one_by_one) 1 (Some 1) (db_events demo_db) demo_state (start_progress 0)))))))
    = fst (backfill_loop (asset_job (\<lambda>_. Inl ValueError)) (op_span one_by_one) 2 None (db_events demo_db) demo_state (start_progress 0))"
  by (rule bounded_runs_add_up[OF demo_rows_ok demo_ctx_ok]) simp_all

text \<open>The answer whether a backfill is owed looks at the stamp alone: a row written under other sources, after which the first sources return, is stale while the answer is no.\<close>

lemma stamp_misses_other_sources:
  assumes "\<not> geo_backfill_due gi db"
  shows "\<not> geo_backfill_due gi (db\<lparr>db_events := db_events db @ [r]\<rparr>)"
  using assms by (simp add: stamp_ignores_rows)

lemma stamp_misses_other_sources_example:
  "\<not> geo_backfill_due demo_index (demo_db\<lparr>db_geo_meta := Some \<lparr>sp_hash = [], sp_counts = [], sp_backfill_hash = Some (gi_fingerprint demo_index)\<rparr>,
       db_events := [demo_row 1 ''8.8.8.8'']\<rparr>) \<and>
    \<not> current_row (\<lambda>_. Inl ValueError) demo_registry [demo_source] (demo_row 1 ''8.8.8.8'')"
proof
  have f: "gi_fingerprint demo_index \<noteq> []" by code_simp
  then have "\<not> geo_backfill_due demo_index (demo_db\<lparr>db_geo_meta := Some \<lparr>sp_hash = [], sp_counts = [], sp_backfill_hash = Some (gi_fingerprint demo_index)\<rparr>,
       db_events := []\<rparr>)" by (simp add: geo_backfill_due_def stamped_def)
  from stamp_misses_other_sources[OF this]
  show "\<not> geo_backfill_due demo_index (demo_db\<lparr>db_geo_meta := Some \<lparr>sp_hash = [], sp_counts = [], sp_backfill_hash = Some (gi_fingerprint demo_index)\<rparr>,
       db_events := [demo_row 1 ''8.8.8.8'']\<rparr>)" by simp
  show "\<not> current_row (\<lambda>_. Inl ValueError) demo_registry [demo_source] (demo_row 1 ''8.8.8.8'')"
    by code_simp
qed

text \<open>Once the registry is empty, no asset backfill is ever reported as owed, whatever context the stored rows still carry.\<close>

lemma emptied_registry_is_never_due:
  assumes "asset_index_empty ai"
  shows "\<not> asset_backfill_due ai db"
  using assms by (rule emptied_registry_never_due)

text \<open>A registry that was read and whose entries are all disabled makes the geo backfill refuse to run, as if the registry had failed to load.\<close>

lemma disabled_registry_is_refused:
  assumes "registry_build h t = Inr i"
    and "list_all (\<lambda>row. \<not> row_enabled row) (tb_assets t)" and "list_all (\<lambda>row. \<not> row_enabled row) (tb_identities t)"
    and "db_declared db = length (tb_assets t) + length (tb_identities t)" and "db_declared db \<noteq> 0" and "cx_asset st = i"
  shows "backfill_geo trunc opt db st = Inl (DegradedRegistry (db_declared db))"
  using assms by (rule disabled_registry_refused)

end
