(* ===== verification/SigmaValue.thy ===== *)
theory SigmaValue
  imports PyIp Event
begin

text \<open>
  Event flattening, field lookup and value matching of the detection engine
  (\<open>app/detection/engine.py\<close>, up to \<open>_match_value\<close>).

  \<open>re.search\<close> on a rule author's pattern is a parameter: it answers \<^const>\<open>None\<close> for a pattern the
  \<open>re\<close> module refuses. Everything else the matcher calls (globs, base64, \<open>float\<close>, \<open>ipaddress\<close>)
  is spelled out. Text is carried as its UTF-8 bytes, which is what base64 encodes and what the
  dash variants below are written in.
\<close>

section \<open>Flattening\<close>

type_synonym flat = "(string, pyval) dict"

function flatten_raw :: "(string, pyval) dict \<Rightarrow> string \<Rightarrow> flat \<Rightarrow> nat \<Rightarrow> flat" where
  "flatten_raw [] prefix1 out depth = out"
| "flatten_raw ((k, v) # kvs) prefix1 out depth =
     (if 16 < depth then out
      else
        (let key = lower (prefix1 @ k) in
         flatten_raw kvs prefix1
           (case v of VDict d \<Rightarrow> flatten_raw d (key @ ''.'') out (Suc depth)
            | _ \<Rightarrow> dict_setdefault key v out) depth))"
  by pat_completeness auto
termination
  by (relation "measure (\<lambda>(kvs, p, out, n). size_list (size_prod (\<lambda>_. 0) size) kvs)") auto

definition flatten_event :: "event \<Rightarrow> flat" where
  "flatten_event e = flatten_raw (raw e) [] (filter (\<lambda>(k, v). v \<noteq> VNone) (event_columns e)) 0"

definition field_aliases :: "(string, string) dict" where
  "field_aliases =
     [(''sourceip'', ''src_ip''), (''srcip'', ''src_ip''), (''source_ip'', ''src_ip''),
      (''src'', ''src_ip''), (''destinationip'', ''dst_ip''), (''dstip'', ''dst_ip''),
      (''destination_ip'', ''dst_ip''), (''dst'', ''dst_ip''), (''sourceport'', ''src_port''),
      (''srcport'', ''src_port''), (''destinationport'', ''dst_port''), (''dstport'', ''dst_port''),
      (''user'', ''user_name''), (''username'', ''user_name''), (''account'', ''user_name''),
      (''computername'', ''host_name''), (''hostname'', ''host_name''), (''host'', ''host_name''),
      (''msg'', ''message''), (''eventid'', ''event_id''), (''event id'', ''event_id''),
      (''event_code'', ''event_id''), (''eventcode'', ''event_id'')]"

definition lookup_field :: "flat \<Rightarrow> string \<Rightarrow> pyval" where
  "lookup_field flat name =
     (let n = lower name in
      case dict_get flat n of Some v \<Rightarrow> v
      | None \<Rightarrow> (case dict_get field_aliases n of Some a \<Rightarrow> pv_get flat a | None \<Rightarrow> VNone))"

section \<open>Globs\<close>

text \<open>\<open>_glob_to_re\<close> builds \<open>.*\<close>, \<open>.\<close> or one escaped character per glob character; \<open>re.fullmatch\<close>
  with DOTALL then decides exactly these three pieces.\<close>

datatype glob_re = AnyString | AnyChar | Literal char

definition glob_to_re :: "string \<Rightarrow> glob_re list" where
  "glob_to_re e =
     map (\<lambda>c. if c = CHR ''*'' then AnyString else if c = CHR ''?'' then AnyChar else Literal c) e"

fun re_fullmatch :: "glob_re list \<Rightarrow> string \<Rightarrow> bool" where
  "re_fullmatch [] s = (s = [])"
| "re_fullmatch (AnyString # r) [] = re_fullmatch r []"
| "re_fullmatch (AnyString # r) (c # s) = (re_fullmatch r (c # s) \<or> re_fullmatch (AnyString # r) s)"
| "re_fullmatch (AnyChar # r) s = (case s of [] \<Rightarrow> False | _ # s' \<Rightarrow> re_fullmatch r s')"
| "re_fullmatch (Literal c # r) s = (case s of [] \<Rightarrow> False | d # s' \<Rightarrow> c = d \<and> re_fullmatch r s')"

section \<open>Numbers\<close>

text \<open>
  \<open>float(text)\<close>: decimal literals with an optional sign, fraction, exponent and underscores between
  digits, infinities and NaN. A finite number is \<open>Dec m e\<close>, standing for \<open>m * 10 ^ e\<close>; the rounding
  to 53 bits is not modelled.
\<close>

datatype pynum = Dec int int | PosInf | NegInf | NotANumber

definition exponent_part :: "string \<Rightarrow> int option" where
  "exponent_part s =
     (case s of [] \<Rightarrow> Some 0
      | c # cs \<Rightarrow>
        (if c = CHR ''e'' \<or> c = CHR ''E'' then
           (let (neg, t) = split_sign cs; (ds, r) = digit_part False t in
            if ds \<noteq> [] \<and> r = [] then Some (if neg then - digits_val ds else digits_val ds) else None)
         else None))"

definition parse_unsigned :: "string \<Rightarrow> (int \<times> int) option" where
  "parse_unsigned s =
     (let (ip, r1) = digit_part False s;
          (fp, r2) = (case r1 of c # cs \<Rightarrow> if c = CHR ''.'' then digit_part False cs else ([], r1)
                      | [] \<Rightarrow> ([], []))
      in if ip = [] \<and> fp = [] then None
         else map_option (\<lambda>e. (digits_val (ip @ fp), e - int (length fp))) (exponent_part r2))"

definition py_float :: "string \<Rightarrow> pynum option" where
  "py_float s =
     (let (neg, t) = split_sign (strip s) in
      if lower t \<in> {''inf'', ''infinity''} then Some (if neg then NegInf else PosInf)
      else if lower t = ''nan'' then Some NotANumber
      else map_option (\<lambda>(m, e). Dec (if neg then - m else m) e) (parse_unsigned t))"

fun num_lt :: "pynum \<Rightarrow> pynum \<Rightarrow> bool" where
  "num_lt (Dec m e) (Dec m' e') =
     (m * 10 ^ nat (e - min e e') < m' * 10 ^ nat (e' - min e e'))"
| "num_lt NegInf (Dec _ _) = True"
| "num_lt NegInf PosInf = True"
| "num_lt (Dec _ _) PosInf = True"
| "num_lt _ _ = False"

fun num_eq :: "pynum \<Rightarrow> pynum \<Rightarrow> bool" where
  "num_eq (Dec m e) (Dec m' e') =
     (m * 10 ^ nat (e - min e e') = m' * 10 ^ nat (e' - min e e'))"
| "num_eq PosInf PosInf = True"
| "num_eq NegInf NegInf = True"
| "num_eq _ _ = False"

definition to_num :: "pyval \<Rightarrow> pynum option" where
  "to_num v = py_float (strip (pv_str v))"

definition match_numeric :: "pyval \<Rightarrow> pyval \<Rightarrow> string \<Rightarrow> bool" where
  "match_numeric x expected op =
     (case (to_num x, to_num expected) of
        (Some a, Some b) \<Rightarrow>
          (if op = ''lt'' then num_lt a b
           else if op = ''lte'' then num_lt a b \<or> num_eq a b
           else if op = ''gt'' then num_lt b a
           else num_lt b a \<or> num_eq a b)
      | _ \<Rightarrow> False)"

section \<open>Encodings\<close>

definition b64_char :: "int \<Rightarrow> char" where
  "b64_char n =
     (if n < 26 then char_of (65 + n) else if n < 52 then char_of (71 + n)
      else if n < 62 then char_of (n - 4) else if n = 62 then CHR ''+'' else CHR ''/'')"

fun b64encode :: "string \<Rightarrow> string" where
  "b64encode [] = []"
| "b64encode [a] =
     [b64_char (code a div 4), b64_char (code a mod 4 * 16), CHR ''='', CHR ''='']"
| "b64encode [a, b] =
     [b64_char (code a div 4), b64_char (code a mod 4 * 16 + code b div 16),
      b64_char (code b mod 16 * 4), CHR ''='']"
| "b64encode (a # b # c # r) =
     b64_char (code a div 4) # b64_char (code a mod 4 * 16 + code b div 16) #
     b64_char (code b mod 16 * 4 + code c div 64) # b64_char (code c mod 64) # b64encode r"

definition b64_starts :: "nat list" where "b64_starts = [0, 2, 3]"

text \<open>The end cuts \<open>(None, -3, -2)\<close> as the number of characters dropped.\<close>

definition b64_ends :: "nat list" where "b64_ends = [0, 3, 2]"

definition b64_slice :: "string \<Rightarrow> nat \<Rightarrow> string" where
  "b64_slice s i =
     (let e = b64encode (replicate i (CHR '' '') @ s)
      in drop (b64_starts ! i) (take (length e - b64_ends ! i) e))"

definition base64offset :: "string \<Rightarrow> string list" where
  "base64offset s = map (b64_slice s) [0, 1, 2]"

text \<open>The dashes: hyphen, slash, en dash, em dash, horizontal bar, in UTF-8.\<close>

definition dashes :: "string list" where
  "dashes = [''-'', ''/'', map char_of [226 :: int, 128, 147], map char_of [226 :: int, 128, 148],
     map char_of [226 :: int, 128, 149]]"

definition windash :: "string \<Rightarrow> string list" where
  "windash s =
     (if CHR ''-'' \<notin> set s then [s] else map (\<lambda>d. replace_char (CHR ''-'') d s) dashes)"

definition expand_expected :: "pyval \<Rightarrow> string list \<Rightarrow> pyval list" where
  "expand_expected e mods =
     (if e = VNone then [VNone]
      else
        (let vals = (if ''base64offset'' \<in> set mods then base64offset (pv_str e)
                     else if ''base64'' \<in> set mods then [b64encode (pv_str e)]
                     else [pv_str e])
         in map VStr (if ''windash'' \<in> set mods then concat (map windash vals) else vals)))"

section \<open>Scalars\<close>

type_synonym re_flags = "bool \<times> bool \<times> bool"  \<comment> \<open>IGNORECASE, MULTILINE, DOTALL\<close>
type_synonym re_search = "string \<Rightarrow> string \<Rightarrow> re_flags \<Rightarrow> bool option"

definition as_bool :: "pyval \<Rightarrow> bool" where
  "as_bool v = (case v of VBool b \<Rightarrow> b
     | _ \<Rightarrow> lower (strip (pv_str v)) \<in> {''true'', ''1'', ''yes''})"

definition match_cidr :: "pyval \<Rightarrow> pyval \<Rightarrow> bool" where
  "match_cidr x network =
     (case (ip_address (strip (pv_str x)), ip_network (strip (pv_str network))) of
        (Some a, Some n) \<Rightarrow> in_net a n | _ \<Rightarrow> False)"

definition re_flags_of :: "string list \<Rightarrow> bool \<Rightarrow> re_flags" where
  "re_flags_of mods cased = (\<not> cased \<or> ''i'' \<in> set mods, ''m'' \<in> set mods, ''s'' \<in> set mods)"

definition match_text :: "string \<Rightarrow> string \<Rightarrow> string option \<Rightarrow> bool" where
  "match_text s e op =
     (if op = Some ''contains'' then sublist e s
      else if op = Some ''startswith'' then prefix e s
      else if op = Some ''endswith'' then suffix e s
      else if CHR ''*'' \<in> set e \<or> CHR ''?'' \<in> set e then re_fullmatch (glob_to_re e) s
      else s = e)"

definition match_scalar ::
    "re_search \<Rightarrow> pyval \<Rightarrow> pyval \<Rightarrow> string option \<Rightarrow> bool \<Rightarrow> re_flags \<Rightarrow> bool \<Rightarrow> bool" where
  "match_scalar rx x expected op cased flags cidr =
     (if cidr then match_cidr x expected
      else if expected = VNone then x = VNone \<or> x = VStr []
      else if x = VNone then False
      else if op = Some ''re'' then
        (case rx (pv_str expected) (pv_str x) flags of None \<Rightarrow> False | Some b \<Rightarrow> b)
      else if cased then match_text (pv_str x) (pv_str expected) op
      else match_text (lower (pv_str x)) (lower (pv_str expected)) op)"

definition match_value ::
    "re_search \<Rightarrow> pyval \<Rightarrow> pyval \<Rightarrow> string option \<Rightarrow> bool \<Rightarrow> re_flags \<Rightarrow> bool \<Rightarrow> bool" where
  "match_value rx val expected op cased flags cidr =
     list_ex (\<lambda>x. match_scalar rx x expected op cased flags cidr) (as_list val)"

section \<open>Facts about flattening\<close>

lemma flatten_raw_keeps: "dict_get out k = Some v \<Longrightarrow> dict_get (flatten_raw kvs p out n) k = Some v"
proof (induction kvs p out n arbitrary: v rule: flatten_raw.induct)
  case (1 p out n)
  then show ?case by simp
next
  case (2 k' v' kvs p out n)
  then show ?case by (cases v') (auto simp: Let_def)
qed

lemma flatten_raw_distinct:
  "distinct (map fst out) \<Longrightarrow> distinct (map fst (flatten_raw kvs p out n))"
proof (induction kvs p out n rule: flatten_raw.induct)
  case (1 p out n)
  then show ?case by simp
next
  case (2 k' v' kvs p out n)
  then show ?case by (cases v') (auto simp: Let_def)
qed

lemma flatten_raw_top:
  assumes "n \<le> 16" and "(k, v) \<in> set kvs" and "\<And>d. v \<noteq> VDict d"
  shows "dict_get (flatten_raw kvs p out n) (lower (p @ k)) \<noteq> None"
  using assms
proof (induction kvs p out n rule: flatten_raw.induct)
  case (1 p out n)
  then show ?case by simp
next
  case (2 k' v' kvs p out n)
  show ?case
  proof (cases "(k, v) = (k', v')")
    case True
    have "dict_get (flatten_raw kvs p (dict_setdefault (lower (p @ k)) v out) n) (lower (p @ k)) \<noteq> None"
      using flatten_raw_keeps[OF dict_get_setdefault(3)] by fastforce
    then show ?thesis
      using True "2.prems" by (cases v) (auto simp: Let_def)
  next
    case False
    with "2.prems" have "(k, v) \<in> set kvs" by auto
    with "2.prems" "2.IH"(2) show ?thesis by (cases v') (auto simp: Let_def)
  qed
qed

lemma filter_map_of:
  "distinct (map fst xs) \<Longrightarrow> map_of xs k = Some v \<Longrightarrow> P (k, v) \<Longrightarrow> map_of (filter P xs) k = Some v"
  by (induction xs) (auto simp: map_of_eq_None_iff dest: map_of_SomeD)

section \<open>Facts about globs\<close>

text \<open>The language of a glob, as a set of strings.\<close>

fun glob_lang :: "glob_re list \<Rightarrow> string set" where
  "glob_lang [] = {[]}"
| "glob_lang (AnyString # r) = {u @ s | u s. s \<in> glob_lang r}"
| "glob_lang (AnyChar # r) = {c # s | c s. s \<in> glob_lang r}"
| "glob_lang (Literal c # r) = {c # s | s. s \<in> glob_lang r}"

lemma re_fullmatch_lang: "re_fullmatch r s \<longleftrightarrow> s \<in> glob_lang r"
proof (induction r s rule: re_fullmatch.induct)
  case (3 r c s)
  have "c # s \<in> glob_lang (AnyString # r) \<longleftrightarrow> c # s \<in> glob_lang r \<or> s \<in> glob_lang (AnyString # r)"
    by (auto simp: Cons_eq_append_conv)
  with 3 show ?case by simp
qed (auto split: list.splits)

lemma glob_to_re_plain:
  "CHR ''*'' \<notin> set e \<Longrightarrow> CHR ''?'' \<notin> set e \<Longrightarrow> re_fullmatch (glob_to_re e) s \<longleftrightarrow> s = e"
  by (induction e arbitrary: s) (auto simp: glob_to_re_def split: list.splits)

section \<open>Facts about base64 offsets\<close>

lemma b64encode_append: "length p mod 3 = 0 \<Longrightarrow> b64encode (p @ s) = b64encode p @ b64encode s"
  by (induction p rule: b64encode.induct) (auto simp: mod_Suc split: if_splits)

text \<open>\<open>n\<close> bytes determine the first \<open>8 n / 6\<close> characters, whatever follows them.\<close>

lemma b64encode_take:
  "take (4 * length s div 3) (b64encode (s @ t)) = take (4 * length s div 3) (b64encode s)"
proof (induction s rule: b64encode.induct)
  case (2 a)
  show ?case by (cases t rule: b64encode.cases) auto
next
  case (3 a b)
  have "4 * length [a, b] div 3 = Suc (Suc 0)" by simp
  then show ?case by (cases t rule: b64encode.cases) (simp_all only: append.simps b64encode.simps take_Suc_Cons take_0)
next
  case (4 a b c r)
  have "4 * length (a # b # c # r) div 3 = Suc (Suc (Suc (Suc (4 * length r div 3))))" 
    using div_add_self1[of 3 "4 * length r + 9"] div_add_self1[of 3 "4 * length r + 6"] div_add_self1[of 3 "4 * length r + 3"] div_add_self1[of 3 "4 * length r"] by (simp add: algebra_simps)
  then show ?case using 4 by (simp only: append.simps b64encode.simps take_Suc_Cons)
qed simp

lemma length_b64encode: "length (b64encode s) = 4 * ((length s + 2) div 3)"
proof (induction s rule: b64encode.induct)
  case (4 a b c r)
  have "(length r + 5) div 3 = Suc ((length r + 2) div 3)" using div_add_self1[of 3 "length r + 2"] by simp
  with 4 show ?case by (simp only: b64encode.simps list.size) (simp add: add.commute)
qed simp_all

text \<open>The characters after the first \<open>8 i / 6\<close>, rounded up, do not depend on \<open>i\<close> leading bytes.\<close>

lemma b64encode_drop1: "s \<noteq> [] \<Longrightarrow> drop 2 (b64encode (x # s)) = drop 2 (b64encode (y # s))"
  by (cases s; cases "tl s") (auto simp: numeral_eq_Suc)

lemma b64encode_drop2: "s \<noteq> [] \<Longrightarrow> drop 3 (b64encode (x1 # x2 # s)) = drop 3 (b64encode (y1 # y2 # s))"
  by (cases s) (auto simp: numeral_eq_Suc)

text \<open>
  With a value of \<open>3 m\<close> bytes, the slice for offset \<open>i\<close> is a piece of every blob that carries the
  value after \<open>i\<close> bytes, whatever comes before it in whole groups and whatever follows.
\<close>

lemma b64_slice_piece:
  assumes m: "length s = 3 * m" and i: "length p = i" "i < 3" and ne: "s \<noteq> []"
  shows "b64_slice s i = drop (b64_starts ! i) (take (4 * (i + length s) div 3) (b64encode (p @ s @ q)))"
proof -
  let ?n = "4 * (i + length s) div 3"
  let ?sp = "replicate i (CHR '' '')"
  have e: "length (b64encode (?sp @ s)) - b64_ends ! i = ?n"
    using i(2) m by (cases i; cases "i - 1") (auto simp: length_b64encode b64_ends_def)
  have t: "take ?n (b64encode (p @ s @ q)) = take ?n (b64encode (p @ s))"
    using b64encode_take[of "p @ s" q] i(1) by simp
  have d: "drop (b64_starts ! i) (b64encode (?sp @ s)) = drop (b64_starts ! i) (b64encode (p @ s))"
  proof -
    consider "i = 0" | "i = 1" | "i = 2" using i(2) by linarith
    then show ?thesis
    proof cases
      case 1 then show ?thesis using i(1) by simp
    next
      case 2
      then obtain x where "p = [x]" using i(1) by (auto simp: length_Suc_conv)
      then show ?thesis using 2 b64encode_drop1[OF ne] by (simp add: b64_starts_def)
    next
      case 3
      then obtain x y where "p = [x, y]" using i(1) by (auto simp: length_Suc_conv numeral_eq_Suc)
      then show ?thesis using 3 b64encode_drop2[OF ne]
        by (simp add: b64_starts_def numeral_eq_Suc)
    qed
  qed
  show ?thesis unfolding b64_slice_def Let_def e t by (simp only: drop_take d)
qed

lemma sublist_drop_take: "sublist (drop k (take n xs)) xs"
proof -
  have "xs = take k (take n xs) @ drop k (take n xs) @ drop n xs"
    by (metis append_assoc append_take_drop_id)
  then show ?thesis by (metis sublist_appendI)
qed

lemma b64_slice_Nil: "b64_slice [] 0 = []" "b64_slice [] 1 = []" "b64_slice [] 2 = []"
  by code_simp+

lemma b64_slice_embeds:
  assumes m: "length s mod 3 = 0"
  shows "sublist (b64_slice s (length p mod 3)) (b64encode (p @ s @ q))"
proof (cases "s = []")
  case True
  have "length p mod 3 = 0 \<or> length p mod 3 = 1 \<or> length p mod 3 = 2" by linarith
  with True show ?thesis by (elim disjE) (simp_all only: b64_slice_Nil sublist_Nil_left)
next
  case False
  define i where "i = length p mod 3"
  define p1 where "p1 = take (length p - i) p"
  define p2 where "p2 = drop (length p - i) p"
  have p: "p = p1 @ p2" by (simp add: p1_def p2_def)
  have l2: "length p2 = i" by (simp add: p2_def i_def)
  have "length p1 mod 3 = 0"
    by (simp add: p1_def i_def minus_mod_eq_mult_div)
  then have "b64encode (p @ s @ q) = b64encode p1 @ b64encode (p2 @ s @ q)"
    by (simp add: p b64encode_append)
  moreover from m obtain m' where "length s = 3 * m'" by auto
  then have "sublist (b64_slice s i) (b64encode (p2 @ s @ q))"
    using b64_slice_piece[OF _ l2 _ False, of m' q] sublist_drop_take by (simp add: i_def)
  ultimately show ?thesis by (simp add: i_def[symmetric] sublist_append)
qed

lemma base64offset_embeds:
  "length s mod 3 = 0 \<Longrightarrow> \<exists>c\<in>set (base64offset s). sublist c (b64encode (p @ s @ q))"
proof -
  assume m: "length s mod 3 = 0"
  have "length p mod 3 = 0 \<or> length p mod 3 = 1 \<or> length p mod 3 = 2" by linarith
  then have "length p mod 3 \<in> set [0, 1, 2]" by auto
  then have "b64_slice s (length p mod 3) \<in> set (base64offset s)"
    unfolding base64offset_def set_map by (rule imageI)
  with b64_slice_embeds[OF m] show ?thesis by blast
qed

lemma base64offset_short: "[] \<in> set (base64offset [c])"
  by (simp add: base64offset_def b64_slice_def b64_starts_def b64_ends_def numeral_eq_Suc)

section \<open>Properties\<close>

text \<open>A value whose length is a multiple of three is found at every alignment: one of the three pieces of base64offset occurs in the encoding of any text that contains the value.\<close>

lemma base64offset_finds_aligned:
  assumes "length s mod 3 = 0"
  shows "\<exists>c\<in>set (base64offset s). sublist c (b64encode (p @ s @ q))"
  using assms by (rule base64offset_embeds)

lemma base64offset_finds_aligned_example:
  "\<exists>c\<in>set (base64offset ''foobar''). sublist c (b64encode (''x'' @ ''foobar'' @ ''!''))"
  by (rule base64offset_finds_aligned) simp

text \<open>The end offsets follow the padding alone: the pieces of a one-character value include the empty text, which every text contains, so a base64offset test for it holds of any event; and the first piece of a value of other lengths keeps padding characters, which no longer text has there.\<close>

lemma base64offset_misses_short_values:
  "[] \<in> set (base64offset [c]) \<and> hd (base64offset ''A'') = ''QQ==''
    \<and> \<not> sublist ''QQ=='' (b64encode ''ABCD'')"
proof (intro conjI)
  show "[] \<in> set (base64offset [c])" by (rule base64offset_short)
  show "hd (base64offset ''A'') = ''QQ==''" by code_simp
  show "\<not> sublist ''QQ=='' (b64encode ''ABCD'')" by code_simp
qed

text \<open>Matching a glob against a value decides membership in its language: a star is any text, a question mark any character, every other character itself; without wildcards it is equality.\<close>

lemma glob_is_its_language:
  "(re_fullmatch (glob_to_re e) s \<longleftrightarrow> s \<in> glob_lang (glob_to_re e)) \<and>
   (CHR ''*'' \<in> set e \<or> CHR ''?'' \<in> set e \<or> (re_fullmatch (glob_to_re e) s \<longleftrightarrow> s = e))"
  using re_fullmatch_lang glob_to_re_plain by blast

text \<open>Flattening keeps every normalized column that has a value, whatever the raw record holds: no raw key, however nested, overrides a column, and no key occurs twice.\<close>

lemma columns_shadow_raw:
  assumes "dict_get (event_columns e) k = Some v" and "v \<noteq> VNone"
  shows "dict_get (flatten_event e) k = Some v \<and> distinct (map fst (flatten_event e))"
proof -
  have f: "dict_get (filter (\<lambda>(k, v). v \<noteq> VNone) (event_columns e)) k = Some v"
    using filter_map_of[of "event_columns e" k v "\<lambda>(k, v). v \<noteq> VNone"] assms by (simp add: dict_get_def)
  have "distinct (map fst (filter P (event_columns e)))" for P
    using event_columns_distinct[of e] by (rule distinct_map_filter)
  then show ?thesis using flatten_raw_keeps[OF f] flatten_raw_distinct by (simp add: flatten_event_def)
qed

lemma columns_shadow_raw_example:
  "dict_get (flatten_event ((bare_event ''acme'')\<lparr>raw := [(''Vendor'', VStr ''forged'')]\<rparr>)) ''vendor''
    = Some (VStr ''acme'')"
  using columns_shadow_raw[of "(bare_event ''acme'')\<lparr>raw := [(''Vendor'', VStr ''forged'')]\<rparr>" "''vendor''" "VStr ''acme''"]
  by (simp add: event_columns_def dict_get_def bare_event_def)

end
