(* ===== verification/SigmaCondition.thy ===== *)
theory SigmaCondition
  imports SigmaValue
begin

text \<open>
  Selections and conditions of a detection rule (\<open>app/detection/engine.py\<close>, \<open>_eval_field\<close> to
  \<open>_logsource_matches\<close>): field specifications with their modifiers, keyword and map selections,
  the recursive-descent condition evaluator, and the log-source gate.

  The parser object's index into its token list is modelled by the tokens that are left.
\<close>

section \<open>Fields and selections\<close>

definition numeric_ops :: "string list" where
  "numeric_ops = [''lt'', ''lte'', ''gt'', ''gte'']"

definition text_ops :: "string list" where
  "text_ops = [''contains'', ''startswith'', ''endswith'']"

definition all_or_any :: "string list \<Rightarrow> bool list \<Rightarrow> bool" where
  "all_or_any mods res = (if ''all'' \<in> set mods then list_all id res else list_ex id res)"

definition eval_field :: "re_search \<Rightarrow> flat \<Rightarrow> string \<Rightarrow> pyval \<Rightarrow> bool" where
  "eval_field rx flat fieldspec expected =
     (let parts = split_on CHR ''|'' fieldspec;
          mods = map lower (tl parts);
          val = lookup_field flat (hd parts);
          cased = (''cased'' \<in> set mods)
      in if ''exists'' \<in> set mods then (val \<noteq> VNone \<and> val \<noteq> VStr []) = as_bool expected
      else if ''fieldref'' \<in> set mods then
        list_ex (\<lambda>r. match_value rx val (lookup_field flat (pv_str r)) None cased (True, False, False) False)
          (as_list expected)
      else (case find (\<lambda>m. m \<in> set numeric_ops) mods of
        Some num \<Rightarrow> all_or_any mods (map (\<lambda>e. match_numeric val e num) (as_list expected))
      | None \<Rightarrow>
        (let cidr = (''cidr'' \<in> set mods);
             flags = re_flags_of mods cased;
             op = (if ''re'' \<in> set mods then Some ''re'' else find (\<lambda>m. m \<in> set text_ops) mods)
         in all_or_any mods
              (map (\<lambda>e. list_ex (\<lambda>c. match_value rx val c op cased flags cidr)
                          (expand_expected e mods)) (as_list expected)))))"

definition keyword_match :: "flat \<Rightarrow> pyval \<Rightarrow> bool" where
  "keyword_match flat kw =
     (let k = lower (pv_str kw) in
      list_ex (\<lambda>(_, v). list_ex (\<lambda>x. x \<noteq> VNone \<and> sublist k (lower (pv_str x))) (as_list v)) flat)"

definition eval_map :: "re_search \<Rightarrow> flat \<Rightarrow> (string, pyval) dict \<Rightarrow> bool" where
  "eval_map rx flat d = list_all (\<lambda>(k, v). eval_field rx flat k v) d"

definition eval_selection :: "re_search \<Rightarrow> flat \<Rightarrow> pyval \<Rightarrow> bool" where
  "eval_selection rx flat sel =
     (case sel of
        VDict d \<Rightarrow> eval_map rx flat d
      | VList items \<Rightarrow>
          list_ex (\<lambda>item. case item of VDict d \<Rightarrow> eval_map rx flat d
                          | _ \<Rightarrow> keyword_match flat item) items
      | _ \<Rightarrow> False)"

section \<open>The condition grammar\<close>

type_synonym sels = "(string, bool) dict"

definition sel_get :: "sels \<Rightarrow> string \<Rightarrow> bool" where
  "sel_get sel n = (case dict_get sel n of Some b \<Rightarrow> b | None \<Rightarrow> False)"

definition quantify :: "sels \<Rightarrow> string \<Rightarrow> string option \<Rightarrow> bool" where
  "quantify sel qty pattern =
     (let names = (case pattern of
            None \<Rightarrow> []
          | Some p \<Rightarrow>
              if p = ''them'' then map fst sel
              else if p \<noteq> [] \<and> last p = CHR ''*'' then filter (\<lambda>n. prefix (butlast p) n) (map fst sel)
              else if p \<noteq> [] then [p] else []);
          hits = length (filter (sel_get sel) names)
      in if lower qty = ''all'' then names \<noteq> [] \<and> hits = length names
         else digits_val qty \<le> int hits)"

definition is_quantity :: "string \<Rightarrow> bool" where
  "is_quantity t \<longleftrightarrow> lower t = ''all'' \<or> isdigit t"

definition token_is :: "string \<Rightarrow> string list \<Rightarrow> bool" where
  "token_is w ts \<longleftrightarrow> ts \<noteq> [] \<and> hd ts \<noteq> [] \<and> lower (hd ts) = w"

definition skip_close :: "string list \<Rightarrow> string list" where
  "skip_close ts = (if ts \<noteq> [] \<and> hd ts = '')'' then tl ts else ts)"

function c_or :: "sels \<Rightarrow> string list \<Rightarrow> bool \<times> string list"
  and c_or_loop :: "sels \<Rightarrow> bool \<Rightarrow> string list \<Rightarrow> bool \<times> string list"
  and c_and :: "sels \<Rightarrow> string list \<Rightarrow> bool \<times> string list"
  and c_and_loop :: "sels \<Rightarrow> bool \<Rightarrow> string list \<Rightarrow> bool \<times> string list"
  and c_not :: "sels \<Rightarrow> string list \<Rightarrow> bool \<times> string list"
  and c_atom :: "sels \<Rightarrow> string list \<Rightarrow> bool \<times> string list"
where
  "c_or sel ts = (case c_and sel ts of (v, r) \<Rightarrow> c_or_loop sel v r)"
| "c_or_loop sel v ts =
     (if token_is ''or'' ts
      then (case c_and sel (tl ts) of (v', r) \<Rightarrow> c_or_loop sel (v' \<or> v) r)
      else (v, ts))"
| "c_and sel ts = (case c_not sel ts of (v, r) \<Rightarrow> c_and_loop sel v r)"
| "c_and_loop sel v ts =
     (if token_is ''and'' ts
      then (case c_not sel (tl ts) of (v', r) \<Rightarrow> c_and_loop sel (v' \<and> v) r)
      else (v, ts))"
| "c_not sel ts =
     (if token_is ''not'' ts
      then (case c_not sel (tl ts) of (v, r) \<Rightarrow> (\<not> v, r))
      else c_atom sel ts)"
| "c_atom sel ts =
     (if ts = [] then (False, [])
      else if hd ts = ''('' then (case c_or sel (tl ts) of (v, r) \<Rightarrow> (v, skip_close r))
      else if hd ts \<noteq> [] \<and> is_quantity (hd ts) \<and> tl ts \<noteq> [] \<and> lower (hd (tl ts)) = ''of''
        then (quantify sel (hd ts) (if tl (tl ts) = [] then None else Some (hd (tl (tl ts)))),
              tl (tl (tl ts)))
      else (sel_get sel (hd ts), tl ts))"
  by pat_completeness auto

lemma token_is_tl: "token_is w ts \<Longrightarrow> length (tl ts) < length ts"
  by (cases ts) (auto simp: token_is_def)

lemma skip_close_length: "length (skip_close ts) \<le> length ts"
  by (simp add: skip_close_def)

lemma cond_shrinks:
  "c_or_c_or_loop_c_and_c_and_loop_c_not_c_atom_dom (Inl (Inl (sel, ts))) \<Longrightarrow> length (snd (c_or sel ts)) \<le> length ts"
  "c_or_c_or_loop_c_and_c_and_loop_c_not_c_atom_dom (Inl (Inr (Inl (sel, v, ts)))) \<Longrightarrow> length (snd (c_or_loop sel v ts)) \<le> length ts"
  "c_or_c_or_loop_c_and_c_and_loop_c_not_c_atom_dom (Inl (Inr (Inr (sel, ts)))) \<Longrightarrow> length (snd (c_and sel ts)) \<le> length ts"
  "c_or_c_or_loop_c_and_c_and_loop_c_not_c_atom_dom (Inr (Inl (sel, v, ts))) \<Longrightarrow> length (snd (c_and_loop sel v ts)) \<le> length ts"
  "c_or_c_or_loop_c_and_c_and_loop_c_not_c_atom_dom (Inr (Inr (Inl (sel, ts)))) \<Longrightarrow> length (snd (c_not sel ts)) \<le> length ts"
  "c_or_c_or_loop_c_and_c_and_loop_c_not_c_atom_dom (Inr (Inr (Inr (sel, ts)))) \<Longrightarrow> length (snd (c_atom sel ts)) \<le> length ts"
proof (induction sel ts and sel v ts and sel ts and sel v ts and sel ts and sel ts
    rule: c_or_c_or_loop_c_and_c_and_loop_c_not_c_atom.pinduct)
  case (1 sel ts)
  then show ?case by (fastforce simp: c_or.psimps split: prod.splits)
next
  case (2 sel v ts)
  then show ?case by (fastforce simp: c_or_loop.psimps split: prod.splits dest: token_is_tl)
next
  case (3 sel ts)
  then show ?case by (fastforce simp: c_and.psimps split: prod.splits)
next
  case (4 sel v ts)
  then show ?case by (fastforce simp: c_and_loop.psimps split: prod.splits dest: token_is_tl)
next
  case (5 sel ts)
  then show ?case by (fastforce simp: c_not.psimps split: prod.splits dest: token_is_tl)
next
  case (6 sel ts)
  then show ?case
    using skip_close_length by (fastforce simp: c_atom.psimps split: prod.splits intro: order_trans)
qed

lemma cond_shrinks_dest:
  "(v, r) = c_and sel ts \<Longrightarrow> c_or_c_or_loop_c_and_c_and_loop_c_not_c_atom_dom (Inl (Inr (Inr (sel, ts)))) \<Longrightarrow> length r \<le> length ts"
  "(v, r) = c_not sel ts \<Longrightarrow> c_or_c_or_loop_c_and_c_and_loop_c_not_c_atom_dom (Inr (Inr (Inl (sel, ts)))) \<Longrightarrow> length r \<le> length ts"
  using cond_shrinks(3)[of sel ts] cond_shrinks(5)[of sel ts] by (metis snd_conv)+

termination c_or
proof (relation "measures
    [\<lambda>x. case x of Inl (Inl (_, ts)) \<Rightarrow> length ts | Inl (Inr (Inl (_, _, ts))) \<Rightarrow> length ts
       | Inl (Inr (Inr (_, ts))) \<Rightarrow> length ts | Inr (Inl (_, _, ts)) \<Rightarrow> length ts
       | Inr (Inr (Inl (_, ts))) \<Rightarrow> length ts | Inr (Inr (Inr (_, ts))) \<Rightarrow> length ts,
     \<lambda>x. case x of Inl (Inl _) \<Rightarrow> 5 | Inl (Inr (Inl _)) \<Rightarrow> 0 | Inl (Inr (Inr _)) \<Rightarrow> 4
       | Inr (Inl _) \<Rightarrow> 0 | Inr (Inr (Inl _)) \<Rightarrow> 3 | Inr (Inr (Inr _)) \<Rightarrow> (2::nat)]", goal_cases)
  case 1
  then show ?case by simp
next
  case (3 sel ts v r)
  then have "length r \<le> length ts" using cond_shrinks_dest(1) by blast
  then show ?case by auto
next
  case (7 sel ts v r)
  then have "length r \<le> length ts" using cond_shrinks_dest(2) by blast
  then show ?case by auto
qed (auto dest!: cond_shrinks_dest dest: token_is_tl simp: neq_Nil_conv)

lemmas cond_simps = c_or.simps c_or_loop.simps c_and.simps c_and_loop.simps c_not.simps c_atom.simps

declare cond_simps [simp del]


text \<open>\<open>condition.replace("(", " ( ").replace(")", " ) ").split()\<close>.\<close>

definition cond_tokens :: "string \<Rightarrow> string list" where
  "cond_tokens s =
     split_ws (replace_char (CHR '')'') '' ) '' (replace_char (CHR ''('') '' ( '' s))"

definition eval_condition :: "string \<Rightarrow> sels \<Rightarrow> bool" where
  "eval_condition condition sel =
     (let tokens = cond_tokens condition in
      if tokens = [] then sel \<noteq> [] \<and> list_all snd sel
      else fst (c_or sel tokens))"

section \<open>The log-source gate\<close>

definition product_vendor :: "(string, string list) dict" where
  "product_vendor =
     [(''windows'', [''microsoft'']), (''linux'', [''linux'', ''syslog'']), (''aws'', [''aws'']),
      (''gcp'', [''gcp'']), (''azure'', [''microsoft''])]"

definition ls_ok :: "flat \<Rightarrow> string \<Rightarrow> pyval \<Rightarrow> bool" where
  "ls_ok flat field_name want =
     (let got = pv_get flat field_name
      in got \<noteq> VNone \<and> lower (pv_str got) = lower (pv_str want))"

definition logsource_matches :: "(string, pyval) dict \<Rightarrow> flat \<Rightarrow> bool" where
  "logsource_matches ls flat =
     (if ls = [] then True
      else if (case dict_get ls ''vendor'' of Some w \<Rightarrow> \<not> ls_ok flat ''vendor'' w | None \<Rightarrow> False) then False
      else if (case dict_get ls ''log_type'' of Some w \<Rightarrow> \<not> ls_ok flat ''log_type'' w | None \<Rightarrow> False) then False
      else if (case dict_get ls ''service'' of Some w \<Rightarrow> \<not> ls_ok flat ''log_type'' w | None \<Rightarrow> False) then False
      else (case dict_get ls ''product'' of
              None \<Rightarrow> True
            | Some w \<Rightarrow>
                (let mapped = (case dict_get product_vendor (lower (pv_str w)) of
                                 Some vs \<Rightarrow> vs | None \<Rightarrow> []);
                     gv = pv_get flat ''vendor''
                 in ls_ok flat ''product'' w \<or> (pv_truthy gv \<and> lower (pv_str gv) \<in> set mapped))))"

section \<open>What the grammar means\<close>

text \<open>
  The intended reading of a condition: atoms are selection names and quantifiers, \<open>not\<close> binds
  tighter than \<open>and\<close>, which binds tighter than \<open>or\<close>. A formula is printed with the brackets its
  shape needs; evaluating the tokens gives the formula's value.
\<close>

datatype formula =
    Sel string
  | Quant string string
  | Neg formula
  | Conj formula formula
  | Disj formula formula

fun formula_value :: "sels \<Rightarrow> formula \<Rightarrow> bool" where
  "formula_value sel (Sel n) = sel_get sel n"
| "formula_value sel (Quant q p) = quantify sel q (Some p)"
| "formula_value sel (Neg f) = (\<not> formula_value sel f)"
| "formula_value sel (Conj f g) = (formula_value sel f \<and> formula_value sel g)"
| "formula_value sel (Disj f g) = (formula_value sel f \<or> formula_value sel g)"

definition brackets :: "bool \<Rightarrow> string list \<Rightarrow> string list" where
  "brackets b ts = (if b then ''('' # ts @ ['')''] else ts)"

text \<open>Levels 0 to 3: inside an \<open>or\<close>, an \<open>and\<close>, a \<open>not\<close>, or where only an atom may stand.\<close>

fun show_cond :: "nat \<Rightarrow> formula \<Rightarrow> string list" where
  "show_cond l (Sel n) = [n]"
| "show_cond l (Quant q p) = [q, ''of'', p]"
| "show_cond l (Neg f) = brackets (2 < l) (''not'' # show_cond 2 f)"
| "show_cond l (Conj f g) = brackets (1 < l) (show_cond 1 f @ ''and'' # show_cond 2 g)"
| "show_cond l (Disj f g) = brackets (0 < l) (show_cond 0 f @ ''or'' # show_cond 1 g)"

definition plain_name :: "string \<Rightarrow> bool" where
  "plain_name n \<longleftrightarrow> n \<noteq> [] \<and> n \<noteq> ''('' \<and> lower n \<noteq> ''not'' \<and> \<not> is_quantity n"

fun formula_ok :: "formula \<Rightarrow> bool" where
  "formula_ok (Sel n) = plain_name n"
| "formula_ok (Quant q p) = is_quantity q"
| "formula_ok (Neg f) = formula_ok f"
| "formula_ok (Conj f g) = (formula_ok f \<and> formula_ok g)"
| "formula_ok (Disj f g) = (formula_ok f \<and> formula_ok g)"

section \<open>Facts about the evaluator\<close>

lemma c_or_loop_stop: "\<not> token_is ''or'' ts \<Longrightarrow> c_or_loop sel v ts = (v, ts)"
  by (subst c_or_loop.simps) simp

lemma c_and_loop_stop: "\<not> token_is ''and'' ts \<Longrightarrow> c_and_loop sel v ts = (v, ts)"
  by (subst c_and_loop.simps) simp

lemma token_is_Cons: "token_is w (t # ts) \<longleftrightarrow> t \<noteq> [] \<and> lower t = w"
  by (simp add: token_is_def)

lemma token_is_keywords [simp]:
  "\<not> token_is w ([] :: string list)" "token_is ''or'' (''or'' # ts)" "token_is ''and'' (''and'' # ts)"
  "token_is ''not'' (''not'' # ts)" "\<not> token_is ''and'' (''or'' # ts)"
  "\<not> token_is ''or'' ('')'' # ts)" "\<not> token_is ''and'' ('')'' # ts)" "\<not> token_is ''not'' (''('' # ts)"
proof -
  have l: "lower ''or'' = ''or''" "lower ''and'' = ''and''" "lower ''not'' = ''not''"
    "lower '')'' = '')''" "lower ''('' = ''(''"
    by code_simp+
  show "\<not> token_is w ([] :: string list)" "token_is ''or'' (''or'' # ts)" "token_is ''and'' (''and'' # ts)"
    "token_is ''not'' (''not'' # ts)" "\<not> token_is ''and'' (''or'' # ts)"
    "\<not> token_is ''or'' ('')'' # ts)" "\<not> token_is ''and'' ('')'' # ts)" "\<not> token_is ''not'' (''('' # ts)"
    by (simp_all add: token_is_Cons l token_is_def)
qed

lemma not_quantity_paren: "\<not> is_quantity ''(''"
  by code_simp

lemma quantity_not_keyword: "is_quantity q \<Longrightarrow> lower q \<noteq> ''not''"
proof
  assume q: "is_quantity q" and n: "lower q = ''not''"
  then have "isdigit q" by (auto simp: is_quantity_def)
  then have "hd q \<in> set q" "is_digit (hd q)" by (cases q; simp add: isdigit_def)+
  moreover have "lower_char (hd q) = CHR ''n''" using n by (cases q) (auto simp: lower_def)
  ultimately show False
    by (auto simp: is_digit_def lower_char_def code_def split: if_splits)
qed

text \<open>From what \<open>c_not\<close> does with a printed formula follows what the two levels above it do.\<close>

lemma c_and_of_not:
  "c_not sel (ts @ r) = (v, r) \<Longrightarrow> c_and sel (ts @ r) = c_and_loop sel v r"
  by (subst c_and.simps) simp

lemma c_or_of_and:
  "c_and sel (ts @ r) = c_and_loop sel v r \<Longrightarrow> \<not> token_is ''and'' r \<Longrightarrow>
     c_or sel (ts @ r) = c_or_loop sel v r"
  by (subst c_or.simps) (simp add: c_and_loop_stop)

lemma c_atom_brackets:
  assumes "c_or sel (ts @ '')'' # r) = c_or_loop sel v ('')'' # r)"
  shows "c_atom sel (brackets True ts @ r) = (v, r)" "c_not sel (brackets True ts @ r) = (v, r)"
proof -
  show a: "c_atom sel (brackets True ts @ r) = (v, r)"
    using assms by (subst c_atom.simps) (simp add: brackets_def c_or_loop_stop skip_close_def)
  show "c_not sel (brackets True ts @ r) = (v, r)"
    using a by (subst c_not.simps) (simp add: brackets_def)
qed

definition reads :: "sels \<Rightarrow> formula \<Rightarrow> bool" where
  "reads sel f \<longleftrightarrow>
     (\<forall>r. (\<not> token_is ''and'' r \<longrightarrow> c_or sel (show_cond 0 f @ r) = c_or_loop sel (formula_value sel f) r) \<and>
          c_and sel (show_cond 1 f @ r) = c_and_loop sel (formula_value sel f) r \<and>
          c_not sel (show_cond 2 f @ r) = (formula_value sel f, r))"

lemma readsI:
  assumes "\<And>r. c_not sel (show_cond 2 f @ r) = (formula_value sel f, r)"
    and "show_cond 0 f = show_cond 2 f" "show_cond 1 f = show_cond 2 f"
  shows "reads sel f"
  unfolding reads_def assms(2,3) using assms(1) by (blast intro: c_and_of_not c_or_of_and)

lemma reads_formula: "formula_ok f \<Longrightarrow> reads sel f"
proof (induction f)
  case (Sel n)
  then have "c_not sel ([n] @ r) = (sel_get sel n, r)" for r
    by (subst c_not.simps, subst c_atom.simps) (auto simp: plain_name_def token_is_Cons)
  then show ?case by (intro readsI) simp_all
next
  case (Quant q p)
  then have "q \<noteq> ''(''" "lower q \<noteq> ''not''" "q \<noteq> []"
    using not_quantity_paren quantity_not_keyword by (auto simp: is_quantity_def isdigit_def lower_def)
  moreover have "lower ''of'' = ''of''" by code_simp
  ultimately have "c_not sel ([q, ''of'', p] @ r) = (quantify sel q (Some p), r)" for r
    using Quant by (subst c_not.simps, subst c_atom.simps) (auto simp: token_is_Cons)
  then show ?case by (intro readsI) simp_all
next
  case (Neg f)
  then have "c_not sel (show_cond 2 f @ r) = (formula_value sel f, r)" for r
    by (simp add: reads_def)
  then have "c_not sel ((''not'' # show_cond 2 f) @ r) = (\<not> formula_value sel f, r)" for r
    by (subst c_not.simps) simp
  then show ?case by (intro readsI) (simp_all add: brackets_def)
next
  case (Conj f g)
  then have f: "c_and sel (show_cond 1 f @ r) = c_and_loop sel (formula_value sel f) r"
    and g: "c_not sel (show_cond 2 g @ r) = (formula_value sel g, r)" for r
    by (simp_all add: reads_def)
  let ?ts = "show_cond 1 f @ ''and'' # show_cond 2 g"
  have a: "c_and sel (?ts @ r) = c_and_loop sel (formula_value sel (Conj f g)) r" for r
  proof -
    have "c_and_loop sel v (''and'' # show_cond 2 g @ r) = c_and_loop sel (formula_value sel g \<and> v) r" for v
      by (subst c_and_loop.simps) (simp add: g)
    then show ?thesis by (simp add: f conj_commute del: One_nat_def)
  qed
  have o1: "\<not> token_is ''and'' r \<Longrightarrow> c_or sel (?ts @ r) = c_or_loop sel (formula_value sel (Conj f g)) r" for r
    by (rule c_or_of_and[OF a])
  have n: "c_not sel (brackets True ?ts @ r) = (formula_value sel (Conj f g), r)" for r
    by (rule c_atom_brackets(2)[OF o1]) simp
  show ?case unfolding reads_def using a o1 n by (simp add: brackets_def del: One_nat_def)
next
  case (Disj f g)
  then have f: "\<not> token_is ''and'' r \<Longrightarrow> c_or sel (show_cond 0 f @ r) = c_or_loop sel (formula_value sel f) r"
    and g: "c_and sel (show_cond 1 g @ r) = c_and_loop sel (formula_value sel g) r" for r
    by (simp_all add: reads_def)
  let ?ts = "show_cond 0 f @ ''or'' # show_cond 1 g"
  have o1: "c_or sel (?ts @ r) = c_or_loop sel (formula_value sel (Disj f g)) r"
    if "\<not> token_is ''and'' r" for r
  proof -
    have "c_or_loop sel v (''or'' # show_cond 1 g @ r) = c_or_loop sel (formula_value sel g \<or> v) r" for v
      using that by (subst c_or_loop.simps) (simp add: g c_and_loop_stop del: One_nat_def)
    then show ?thesis by (simp add: f that disj_commute del: One_nat_def)
  qed
  have n: "c_not sel (brackets True ?ts @ r) = (formula_value sel (Disj f g), r)" for r
    by (rule c_atom_brackets(2)[OF o1]) simp
  have a: "c_and sel (brackets True ?ts @ r) = c_and_loop sel (formula_value sel (Disj f g)) r" for r
    by (rule c_and_of_not[OF n])
  show ?case unfolding reads_def using a o1 n by (simp add: brackets_def del: One_nat_def)
qed

lemma c_or_show_cond: "formula_ok f \<Longrightarrow> c_or sel (show_cond 0 f) = (formula_value sel f, [])"
  using reads_formula[of f sel] by (auto simp: reads_def c_or_loop_stop dest: spec[of _ "[]"])

section \<open>From text to tokens\<close>

definition token_ok :: "string \<Rightarrow> bool" where
  "token_ok t \<longleftrightarrow> t \<noteq> [] \<and> list_all (\<lambda>c. \<not> is_space c) t \<and>
     (t = ''('' \<or> t = '')'' \<or> CHR ''('' \<notin> set t \<and> CHR '')'' \<notin> set t)"

lemma split_ws_aux_word:
  "list_all (\<lambda>c. \<not> is_space c) w \<Longrightarrow> split_ws_aux acc (w @ s) = split_ws_aux (rev w @ acc) s"
  by (induction w arbitrary: acc) auto

lemma is_space_blank [simp]: "is_space (CHR '' '')" "\<not> is_space (CHR ''('')" "\<not> is_space (CHR '')'')"
  by code_simp+

lemma split_ws_blank [simp]: "split_ws (CHR '' '' # s) = split_ws s"
  by (simp add: split_ws_def)

lemma split_ws_word:
  assumes "w \<noteq> []" "list_all (\<lambda>c. \<not> is_space c) w"
  shows "split_ws (w @ CHR '' '' # s) = w # split_ws s" "split_ws w = [w]"
  using assms split_ws_aux_word[of w "[]" "CHR '' '' # s"] split_ws_aux_word[of w "[]" "[]"]
  by (auto simp: split_ws_def)

definition spaced :: "string \<Rightarrow> string" where
  "spaced s = replace_char (CHR '')'') '' ) '' (replace_char (CHR ''('') '' ( '' s)"

lemma replace_char_simps [simp]:
  "replace_char c r [] = []"
  "replace_char c r (x # s) = (if x = c then r else [x]) @ replace_char c r s"
  "replace_char c r (s @ t) = replace_char c r s @ replace_char c r t"
  by (simp_all add: replace_char_def)

lemma spaced_append: "spaced (s @ t) = spaced s @ spaced t"
  by (simp add: spaced_def)

lemma spaced_token:
  "token_ok t \<Longrightarrow> spaced t = (if t = ''('' then '' ( '' else if t = '')'' then '' ) '' else t)"
  by (auto simp: token_ok_def spaced_def replace_char_absent)

lemma split_spaced_token:
  assumes "token_ok t"
  shows "split_ws (spaced t @ CHR '' '' # s) = t # split_ws s" "split_ws (spaced t) = [t]"
proof -
  have p: "split_ws ('' ( '' @ CHR '' '' # s) = ''('' # split_ws s" "split_ws '' ( '' = [''('']"
    "split_ws '' ) '' = ['')'']" "split_ws ('' ) '' @ CHR '' '' # s) = '')'' # split_ws s"
    using split_ws_word(1)[of "''(''" "CHR '' '' # s"] split_ws_word(1)[of "''(''" "[]"]
      split_ws_word(1)[of "'')''" "CHR '' '' # s"] split_ws_word(1)[of "'')''" "[]"]
    by (simp_all add: split_ws_def)
  show "split_ws (spaced t @ CHR '' '' # s) = t # split_ws s" "split_ws (spaced t) = [t]"
    using assms p split_ws_word(1)[of t s] split_ws_word(2)[of t] by (auto simp: spaced_token token_ok_def)
qed

lemma cond_tokens_join: "list_all token_ok ts \<Longrightarrow> cond_tokens (join '' '' ts) = ts"
proof (induction "'' ''" ts rule: join.induct)
  case 1
  show ?case by (simp add: cond_tokens_def split_ws_def)
next
  case (2 x)
  then show ?case using split_spaced_token(2)[of x] by (simp add: cond_tokens_def spaced_def)
next
  case (3 x y ys)
  have "spaced '' '' = '' ''" by (simp add: spaced_def)
  then show ?case using 3 split_spaced_token(1)[of x "spaced (join '' '' (y # ys))"]
    by (simp add: cond_tokens_def spaced_def[symmetric] spaced_append)
qed

fun formula_text_ok :: "formula \<Rightarrow> bool" where
  "formula_text_ok (Sel n) = token_ok n"
| "formula_text_ok (Quant q p) = (token_ok q \<and> token_ok p)"
| "formula_text_ok (Neg f) = formula_text_ok f"
| "formula_text_ok (Conj f g) = (formula_text_ok f \<and> formula_text_ok g)"
| "formula_text_ok (Disj f g) = (formula_text_ok f \<and> formula_text_ok g)"

lemma token_ok_keywords [simp]:
  "token_ok ''or''" "token_ok ''and''" "token_ok ''not''" "token_ok ''of''" "token_ok ''(''" "token_ok '')''"
  by code_simp+

lemma show_cond_tokens: "formula_text_ok f \<Longrightarrow> list_all token_ok (show_cond l f)"
  by (induction f arbitrary: l) (auto simp: brackets_def)

lemma show_cond_nonempty: "show_cond l f \<noteq> []"
  by (cases f) (auto simp: brackets_def)

lemma eval_condition_formula:
  "formula_ok f \<Longrightarrow> formula_text_ok f \<Longrightarrow>
     eval_condition (join '' '' (show_cond 0 f)) sel = formula_value sel f"
  by (simp add: eval_condition_def cond_tokens_join show_cond_tokens show_cond_nonempty c_or_show_cond)

section \<open>Properties\<close>

text \<open>C34: The condition evaluator computes the value of the formula a condition is written for: not binds tighter than and, and tighter than or, brackets and quantifiers as intended, for every formula printed with single spaces.\<close>

theorem condition_value:
  assumes "formula_ok f" and "formula_text_ok f"
  shows "eval_condition (join '' '' (show_cond 0 f)) sel = formula_value sel f"
  using assms by (rule eval_condition_formula)

theorem condition_value_witness:
  "eval_condition ''not ( a or b ) and 1 of c*'' [(''a'', False), (''b'', False), (''c1'', True)]"
proof -
  let ?f = "Conj (Neg (Disj (Sel ''a'') (Sel ''b''))) (Quant ''1'' ''c*'')"
  have t: "join '' '' (show_cond 0 ?f) = ''not ( a or b ) and 1 of c*''" by code_simp
  have v: "formula_value [(''a'', False), (''b'', False), (''c1'', True)] ?f" by code_simp
  have ok: "formula_ok ?f" by code_simp
  have tok: "formula_text_ok ?f" by code_simp
  show ?thesis
    using condition_value[OF ok tok, of "[(''a'', False), (''b'', False), (''c1'', True)]"] v
    unfolding t by simp
qed

end
