(* ===== verification/CimSpec.thy ===== *)
theory CimSpec
  imports Event
begin

text \<open>
  The CIM contract (\<open>app/cim/spec.py\<close>): value sources with their structural checks, membership
  terms, clauses, models, and the registry with its two-pass name lookup.
\<close>

datatype cim_error =
    UnknownKind string
  | RawWithoutPath
  | RawEmptyPath
  | PathsOnNonRaw string
  | SourceWithoutName string
  | TermWithoutValues string
  | TermWithoutPath string
  | TermColumnNotAllowed string
  | TermSourceNotReadable string
  | ClauseWithoutTerms
  | ModelWithoutClauses string
  | InvalidIdent string
  | UnsafeKey string
  | UnknownFieldColumn string
  | UnknownExpr string

record cim_source =
  s_kind :: string
  s_name :: string
  s_paths :: "string list list"

definition source_kinds :: "string list" where
  "source_kinds = [''column'', ''raw'', ''const'', ''expr'']"

text \<open>Building a source runs \<open>__post_init__\<close>, which refuses ill-shaped ones.\<close>

definition mk_source :: "string \<Rightarrow> string \<Rightarrow> string list list \<Rightarrow> cim_error + cim_source" where
  "mk_source k n ps =
     (if k \<notin> set source_kinds then Inl (UnknownKind k)
      else if k = ''raw'' \<and> ps = [] then Inl RawWithoutPath
      else if k = ''raw'' \<and> [] \<in> set ps then Inl RawEmptyPath
      else if k \<noteq> ''raw'' \<and> ps \<noteq> [] then Inl (PathsOnNonRaw k)
      else if (k = ''column'' \<or> k = ''expr'') \<and> n = [] then Inl (SourceWithoutName k)
      else Inr \<lparr>s_kind = k, s_name = n, s_paths = ps\<rparr>)"

definition column_of :: "string \<Rightarrow> cim_error + cim_source" where
  "column_of n = mk_source ''column'' n []"

text \<open>An alternative of a raw lookup is one literal key or a list of segments.\<close>

datatype path_spec = Key string | Segments "string list"

definition raw_of :: "path_spec list \<Rightarrow> cim_error + cim_source" where
  "raw_of alts =
     mk_source ''raw'' []
       (map (\<lambda>a. case a of Key k \<Rightarrow> [k] | Segments segs \<Rightarrow> segs) alts)"

definition const_of :: "string \<Rightarrow> cim_error + cim_source" where
  "const_of v = mk_source ''const'' v []"

definition expr_of :: "string \<Rightarrow> cim_error + cim_source" where
  "expr_of n = mk_source ''expr'' n []"

definition source_keys :: "cim_source \<Rightarrow> string list" where
  "source_keys s = map hd (s_paths s)"

definition source_describe :: "cim_source \<Rightarrow> string" where
  "source_describe s =
     (if s_kind s = ''raw''
      then join '' | '' (map (\<lambda>p. ''raw:'' @ join '' -> '' p) (s_paths s))
      else s_kind s @ '':'' @ s_name s)"

record cim_field =
  f_name :: string
  f_source :: cim_source

record cim_term =
  t_source :: cim_source
  t_values :: "string list"
  t_label :: string

type_synonym cim_clause = "cim_term list"

record cim_model =
  m_name :: string
  m_tag :: string
  m_version :: int
  m_clauses :: "cim_clause list"
  m_fields :: "cim_field list"

definition model_field :: "cim_model \<Rightarrow> string \<Rightarrow> cim_field option" where
  "model_field m n = find (\<lambda>f. f_name f = n) (m_fields m)"

record cim_registry =
  r_version :: int
  r_models :: "cim_model list"

text \<open>Display names are tried over the whole registry before any tag is.\<close>

definition by_name :: "cim_registry \<Rightarrow> string \<Rightarrow> cim_model option" where
  "by_name r n =
     (let low = lower (strip n) in
      if low = [] then None
      else (case find (\<lambda>m. lower (m_name m) = low) (r_models r) of
              Some m \<Rightarrow> Some m
            | None \<Rightarrow> find (\<lambda>m. m_tag m = low) (r_models r)))"

definition registry_tags :: "cim_registry \<Rightarrow> string list" where
  "registry_tags r = map m_tag (r_models r)"

definition source_ok :: "cim_source \<Rightarrow> bool" where
  "source_ok s \<longleftrightarrow>
     s_kind s \<in> set source_kinds \<and>
     (s_kind s = ''raw'' \<longrightarrow> s_paths s \<noteq> [] \<and> [] \<notin> set (s_paths s)) \<and>
     (s_kind s \<noteq> ''raw'' \<longrightarrow> s_paths s = []) \<and>
     (s_kind s = ''column'' \<or> s_kind s = ''expr'' \<longrightarrow> s_name s \<noteq> [])"

lemma mk_source_ok:
  assumes h: "mk_source k n ps = Inr s"
  shows "source_ok s"
proof -
  have k: "k \<in> set source_kinds"
    by (rule ccontr) (use h in \<open>simp add: mk_source_def\<close>)
  have r: "k = ''raw'' \<Longrightarrow> ps \<noteq> [] \<and> [] \<notin> set ps"
    using h k by (cases "ps = []"; cases "[] \<in> set ps") (simp_all add: mk_source_def)
  have p: "k \<noteq> ''raw'' \<Longrightarrow> ps = []"
    by (rule ccontr) (use h k in \<open>simp add: mk_source_def\<close>)
  have n: "k = ''column'' \<or> k = ''expr'' \<Longrightarrow> n \<noteq> []"
    by (rule ccontr) (use h k p in \<open>auto simp add: mk_source_def\<close>)
  have "s = \<lparr>s_kind = k, s_name = n, s_paths = ps\<rparr>"
    using h by (simp only: mk_source_def split: if_split_asm) simp_all
  then show ?thesis unfolding source_ok_def using k r p n by simp
qed

lemma find_Some_in: "find P xs = Some x \<Longrightarrow> x \<in> set xs \<and> P x"
  by (auto simp: find_Some_iff)

lemma by_name_member: "by_name r n = Some m \<Longrightarrow> m \<in> set (r_models r)"
  by (auto simp: by_name_def Let_def dest: find_Some_in split: if_splits option.splits)

end
