(* ===== verification/CimMatch.thy ===== *)
theory CimMatch
  imports CimSpec
begin

text \<open>
  Membership of an event in a data model (\<open>app/cim/match.py\<close>): the reference walk over the
  registry, the plan compiled from it for the ingest path, the bounded plan cache, and the
  theorem that the two walks give the same tags.
\<close>

section \<open>Values\<close>

definition term_columns :: "string list" where
  "term_columns = [''action'', ''app'', ''host_name'', ''log_type'', ''product'', ''protocol'',
     ''severity'', ''user_name'', ''vendor'']"

fun text_of :: "pyval \<Rightarrow> string option" where
  "text_of VNone = None"
| "text_of (VStr s) = Some (lower (strip s))"
| "text_of (VBool b) = Some (if b then ''true'' else ''false'')"
| "text_of (VInt i) = Some (int_str i)"
| "text_of (VFloat t) = Some t"
| "text_of (VList _) = None"
| "text_of (VDict _) = None"

definition column_texts :: "evtlike \<Rightarrow> string list \<Rightarrow> (string, string option) dict" where
  "column_texts evt cols = map (\<lambda>c. (c, text_of (like_get evt c))) cols"

definition raw_record :: "evtlike \<Rightarrow> (string, pyval) dict option" where
  "raw_record evt = (case like_get evt ''raw'' of VDict d \<Rightarrow> Some d | _ \<Rightarrow> None)"

fun walk_path :: "pyval \<Rightarrow> string list \<Rightarrow> pyval" where
  "walk_path cur [] = cur"
| "walk_path cur (seg # segs) =
     (case cur of VDict d \<Rightarrow> walk_path (pv_get d seg) segs | _ \<Rightarrow> VNone)"

fun raw_value_in :: "(string, pyval) dict \<Rightarrow> string list list \<Rightarrow> pyval" where
  "raw_value_in d [] = VNone"
| "raw_value_in d (p # ps) =
     (let cur = walk_path (pv_get d (hd p)) (tl p)
      in if cur \<noteq> VNone then cur else raw_value_in d ps)"

definition raw_value :: "(string, pyval) dict option \<Rightarrow> string list list \<Rightarrow> pyval" where
  "raw_value r ps = (case r of None \<Rightarrow> VNone | Some d \<Rightarrow> raw_value_in d ps)"

section \<open>Compiled terms\<close>

record cterm =
  c_column :: string
  c_paths :: "string list list"
  c_values :: "string list"

definition term_name :: "cim_term \<Rightarrow> string" where
  "term_name t = (if t_label t \<noteq> [] then t_label t else source_describe (t_source t))"

definition compile_term :: "cim_term \<Rightarrow> cim_error + cterm" where
  "compile_term t =
     (let src = t_source t in
      if t_values t = [] then Inl (TermWithoutValues (term_name t))
      else if s_kind src = ''raw'' then
        (if s_paths src = [] then Inl (TermWithoutPath (term_name t))
         else Inr \<lparr>c_column = [], c_paths = s_paths src, c_values = t_values t\<rparr>)
      else if s_kind src = ''column'' then
        (if s_name src \<notin> set term_columns then Inl (TermColumnNotAllowed (s_name src))
         else Inr \<lparr>c_column = s_name src, c_paths = [], c_values = t_values t\<rparr>)
      else Inl (TermSourceNotReadable (s_kind src)))"

text \<open>\<open>ctext.get(c)\<close>: a column left out of the mapping reads as no value.\<close>

definition ctext_get :: "(string, string option) dict \<Rightarrow> string \<Rightarrow> string option" where
  "ctext_get d c = (case dict_get d c of None \<Rightarrow> None | Some v \<Rightarrow> v)"

definition term_hit ::
    "cterm \<Rightarrow> (string, string option) dict \<Rightarrow> (string, pyval) dict option \<Rightarrow> bool" where
  "term_hit t ctext r =
     (case (if c_column t \<noteq> [] then ctext_get ctext (c_column t)
            else text_of (raw_value r (c_paths t))) of
        None \<Rightarrow> False | Some s \<Rightarrow> s \<in> set (c_values t))"

section \<open>The reference walk\<close>

definition term_matches :: "cim_term \<Rightarrow> evtlike \<Rightarrow> cim_error + bool" where
  "term_matches t evt =
     sbind (compile_term t) (\<lambda>ct. Inr (term_hit ct (column_texts evt term_columns) (raw_record evt)))"

text \<open>\<open>all(\<dots>)\<close> over a generator: a term after a failed one is never compiled.\<close>

fun all_terms ::
    "cim_term list \<Rightarrow> (string, string option) dict \<Rightarrow> (string, pyval) dict option
       \<Rightarrow> cim_error + bool" where
  "all_terms [] ctext r = Inr True"
| "all_terms (t # ts) ctext r =
     sbind (compile_term t) (\<lambda>ct. if term_hit ct ctext r then all_terms ts ctext r else Inr False)"

definition clause_matches :: "cim_clause \<Rightarrow> evtlike \<Rightarrow> cim_error + bool" where
  "clause_matches c evt =
     (if c = [] then Inr False
      else all_terms c (column_texts evt term_columns) (raw_record evt))"

fun any_clause :: "cim_clause list \<Rightarrow> evtlike \<Rightarrow> cim_error + bool" where
  "any_clause [] evt = Inr False"
| "any_clause (c # cs) evt = sbind (clause_matches c evt) (\<lambda>b. if b then Inr True else any_clause cs evt)"

definition model_matches :: "cim_model \<Rightarrow> evtlike \<Rightarrow> cim_error + bool" where
  "model_matches m evt = any_clause (m_clauses m) evt"

section \<open>The compiled plan\<close>

record cim_plan =
  p_models :: "(string \<times> cterm list list) list"
  p_columns :: "string list"

definition compile_model :: "cim_model \<Rightarrow> cim_error + (string \<times> cterm list list)" where
  "compile_model m =
     sbind (map_res (map_res compile_term) (m_clauses m)) (\<lambda>cs. Inr (m_tag m, cs))"

definition plan_columns :: "(string \<times> cterm list list) list \<Rightarrow> string list" where
  "plan_columns ms =
     sort (remdups (filter (\<lambda>c. c \<noteq> [])
       (map c_column (concat (concat (map snd ms))))))"

definition compile_registry :: "cim_registry \<Rightarrow> cim_error + cim_plan" where
  "compile_registry r =
     sbind (map_res compile_model (r_models r))
       (\<lambda>ms. Inr \<lparr>p_models = ms, p_columns = plan_columns ms\<rparr>)"

text \<open>
  The loop of \<open>tags_for\<close>: an empty clause is skipped, a failed term ends its clause, a clause
  that runs to its end adds the tag and ends the model.
\<close>

fun clause_runs ::
    "cterm list \<Rightarrow> (string, string option) dict \<Rightarrow> (string, pyval) dict option \<Rightarrow> bool" where
  "clause_runs [] ctext r = True"
| "clause_runs (t # ts) ctext r = (if \<not> term_hit t ctext r then False else clause_runs ts ctext r)"

fun model_runs ::
    "cterm list list \<Rightarrow> (string, string option) dict \<Rightarrow> (string, pyval) dict option \<Rightarrow> bool" where
  "model_runs [] ctext r = False"
| "model_runs (c # cs) ctext r =
     (if c = [] then model_runs cs ctext r
      else if clause_runs c ctext r then True else model_runs cs ctext r)"

definition plan_tags :: "cim_plan \<Rightarrow> evtlike \<Rightarrow> string list" where
  "plan_tags p evt =
     (let ctext = column_texts evt (p_columns p); r = raw_record evt
      in sort (map fst (filter (\<lambda>(tag, cs). model_runs cs ctext r) (p_models p))))"

definition tags_for :: "evtlike \<Rightarrow> cim_registry \<Rightarrow> cim_error + string list" where
  "tags_for evt r = sbind (compile_registry r) (\<lambda>p. Inr (plan_tags p evt))"

text \<open>The value bound into \<open>events.cim_models\<close>: NULL rather than an empty array.\<close>

definition or_null :: "string list \<Rightarrow> string list option" where
  "or_null ts = (if ts = [] then None else Some ts)"

definition cim_models_for ::
    "evtlike \<Rightarrow> cim_registry \<Rightarrow> string list option \<Rightarrow> cim_error + string list option" where
  "cim_models_for evt r tags =
     (case tags of None \<Rightarrow> sbind (tags_for evt r) (\<lambda>ts. Inr (or_null ts))
      | Some ts \<Rightarrow> Inr (or_null (sort ts)))"

section \<open>The plan cache\<close>

text \<open>
  The cache is keyed by the registry's object identity and holds the registry beside its plan.
  A registry object is an identity and its (immutable) contents.
\<close>

type_synonym reg_obj = "int \<times> cim_registry"
type_synonym plan_cache = "(int, reg_obj \<times> cim_plan) dict"

definition plan_cache_max :: nat where
  "plan_cache_max = 8"

definition evict_oldest :: "plan_cache \<Rightarrow> plan_cache" where
  "evict_oldest c =
     (if plan_cache_max \<le> length c
      then (case c of [] \<Rightarrow> c | (oldest, _) # _ \<Rightarrow> dict_del oldest c) else c)"

definition cached_plan :: "reg_obj \<Rightarrow> plan_cache \<Rightarrow> (cim_error + cim_plan) \<times> plan_cache" where
  "cached_plan obj c =
     (let fresh = (case compile_registry (snd obj) of
             Inl e \<Rightarrow> (Inl e, c)
           | Inr p \<Rightarrow> (Inr p, dict_set (fst obj) (obj, p) (evict_oldest c)))
      in (case dict_get c (fst obj) of
            Some (obj', p) \<Rightarrow> if obj' = obj then (Inr p, c) else fresh
          | None \<Rightarrow> fresh))"

section \<open>The compiled walk is the reference walk\<close>

lemma ctext_get_column_texts [simp]:
  "ctext_get (column_texts evt cols) c = (if c \<in> set cols then text_of (like_get evt c) else None)"
proof -
  have "map_of (map (\<lambda>c. (c, text_of (like_get evt c))) cols) c
      = (if c \<in> set cols then Some (text_of (like_get evt c)) else None)"
    by (induction cols) auto
  then show ?thesis by (simp add: ctext_get_def dict_get_def column_texts_def)
qed

definition cterm_ok :: "string list \<Rightarrow> cterm \<Rightarrow> bool" where
  "cterm_ok cols t \<longleftrightarrow> c_column t = [] \<or> c_column t \<in> set cols"

lemma term_hit_columns:
  assumes "cterm_ok cols t" "cterm_ok cols' t"
  shows "term_hit t (column_texts evt cols) r = term_hit t (column_texts evt cols') r"
  using assms by (auto simp: term_hit_def cterm_ok_def)

lemma compile_term_ok: "compile_term t = Inr ct \<Longrightarrow> cterm_ok term_columns ct"
  by (auto simp: compile_term_def cterm_ok_def Let_def split: if_splits)

lemma all_terms_compiled:
  assumes "list_all2 (\<lambda>t ct. compile_term t = Inr ct) ts cts"
    and "\<forall>ct\<in>set cts. cterm_ok cols ct"
  shows "all_terms ts (column_texts evt term_columns) r
       = Inr (clause_runs cts (column_texts evt cols) r)"
  using assms
proof (induction ts cts rule: list_all2_induct)
  case Nil
  then show ?case by simp
next
  case (Cons t ts ct cts)
  then have "term_hit ct (column_texts evt term_columns) r = term_hit ct (column_texts evt cols) r"
    by (intro term_hit_columns) (auto dest: compile_term_ok)
  with Cons show ?case by simp
qed

lemma any_clause_compiled:
  assumes "list_all2 (list_all2 (\<lambda>t ct. compile_term t = Inr ct)) cs ccs"
    and "\<forall>cts\<in>set ccs. \<forall>ct\<in>set cts. cterm_ok cols ct"
  shows "any_clause cs evt = Inr (model_runs ccs (column_texts evt cols) (raw_record evt))"
  using assms
proof (induction cs ccs rule: list_all2_induct)
  case Nil
  then show ?case by simp
next
  case (Cons c cs cc ccs)
  show ?case
  proof (cases "c = []")
    case True
    with Cons show ?thesis by (simp add: clause_matches_def)
  next
    case False
    with Cons.hyps(1) have "cc \<noteq> []" by auto
    with False Cons show ?thesis
      by (simp add: clause_matches_def all_terms_compiled[where cols = cols])
  qed
qed

lemma plan_columns_ok:
  "(tag, ccs) \<in> set ms \<Longrightarrow> cts \<in> set ccs \<Longrightarrow> ct \<in> set cts \<Longrightarrow> cterm_ok (plan_columns ms) ct"
  by (force simp: cterm_ok_def plan_columns_def)

lemma compile_model_iff:
  "compile_model m = Inr (tag, ccs) \<longleftrightarrow>
     tag = m_tag m \<and> list_all2 (list_all2 (\<lambda>t ct. compile_term t = Inr ct)) (m_clauses m) ccs"
  by (auto simp: compile_model_def map_res_Inr_iff)

lemma model_matches_compiled:
  assumes "compile_model m = Inr (tag, ccs)" and "(tag, ccs) \<in> set ms"
  shows "model_matches m evt
       = Inr (model_runs ccs (column_texts evt (plan_columns ms)) (raw_record evt))"
  using assms plan_columns_ok[OF assms(2)]
  by (auto simp: model_matches_def compile_model_iff intro!: any_clause_compiled)

lemma filter_list_all2:
  "list_all2 (\<lambda>x y. g x = h y \<and> P x = Q y) xs ys \<Longrightarrow>
     map g (filter P xs) = map h (filter Q ys)"
  by (induction xs ys rule: list_all2_induct) auto

definition member :: "evtlike \<Rightarrow> cim_model \<Rightarrow> bool" where
  "member evt m \<longleftrightarrow> model_matches m evt = Inr True"

lemma tags_for_reference:
  assumes "compile_registry r = Inr p"
  shows "tags_for evt r = Inr (sort (map m_tag (filter (member evt) (r_models r))))"
proof -
  from assms obtain ms where ms: "list_all2 (\<lambda>m y. compile_model m = Inr y) (r_models r) ms"
    and p: "p = \<lparr>p_models = ms, p_columns = plan_columns ms\<rparr>"
    by (auto simp: compile_registry_def map_res_Inr_iff)
  have "list_all2 (\<lambda>m y. m_tag m = fst y \<and>
      member evt m = model_runs (snd y) (column_texts evt (plan_columns ms)) (raw_record evt))
      (r_models r) ms"
    using ms
  proof (rule list.rel_mono_strong)
    fix m y
    assume y: "y \<in> set ms" "compile_model m = Inr y"
    obtain tag ccs where "y = (tag, ccs)" by fastforce
    with y show "m_tag m = fst y \<and>
        member evt m = model_runs (snd y) (column_texts evt (plan_columns ms)) (raw_record evt)"
      by (auto simp: member_def model_matches_compiled compile_model_iff)
  qed
  then have "map m_tag (filter (member evt) (r_models r)) = map fst
      (filter (\<lambda>y. model_runs (snd y) (column_texts evt (plan_columns ms)) (raw_record evt)) ms)"
    by (rule filter_list_all2)
  then show ?thesis
    using assms by (simp add: tags_for_def plan_tags_def p Let_def case_prod_unfold)
qed

text \<open>What keeps the cache honest, and that it is a lookaside of \<^const>\<open>compile_registry\<close>.\<close>

definition cache_sound :: "plan_cache \<Rightarrow> bool" where
  "cache_sound c \<longleftrightarrow> distinct (map fst c) \<and>
     (\<forall>k obj p. dict_get c k = Some (obj, p) \<longrightarrow> compile_registry (snd obj) = Inr p \<and> fst obj = k)"

lemma evict_oldest_sound: "cache_sound c \<Longrightarrow> cache_sound (evict_oldest c)"
  by (auto simp: cache_sound_def evict_oldest_def split: list.splits if_splits)

lemma cached_plan_sound:
  assumes "cache_sound c"
  shows "fst (cached_plan obj c) = compile_registry (snd obj) \<and> cache_sound (snd (cached_plan obj c))"
proof (cases "dict_get c (fst obj)")
  case None
  then show ?thesis using assms evict_oldest_sound[OF assms]
    by (auto simp: cached_plan_def cache_sound_def Let_def split: sum.splits)
next
  case (Some op)
  then show ?thesis using assms evict_oldest_sound[OF assms]
    by (cases op) (auto simp: cached_plan_def cache_sound_def Let_def split: sum.splits)
qed

lemma evict_oldest_length: "length c \<le> plan_cache_max \<Longrightarrow> length (evict_oldest c) < plan_cache_max"
proof (cases c)
  case (Cons p d)
  moreover assume "length c \<le> plan_cache_max"
  ultimately show ?thesis using length_dict_del_hd[of p d]
    by (cases p) (auto simp: evict_oldest_def)
qed (simp add: evict_oldest_def plan_cache_max_def)

lemma cached_plan_bounded:
  assumes "length c \<le> plan_cache_max"
  shows "length (snd (cached_plan obj c)) \<le> plan_cache_max"
proof -
  have "length (dict_set (fst obj) v (evict_oldest c)) \<le> plan_cache_max" for v
    using length_dict_set[of "fst obj" v "evict_oldest c"] evict_oldest_length[OF assms] by linarith
  then show ?thesis using assms
    by (auto simp: cached_plan_def Let_def split: option.splits sum.splits)
qed

definition plan_store :: "int \<Rightarrow> reg_obj \<times> cim_plan \<Rightarrow> plan_cache \<Rightarrow> plan_cache" where
  "plan_store k v c = dict_set k v (evict_oldest c)"

interpretation plan_store: bounded_cache "\<lambda>c. distinct (map fst c) \<and> length c \<le> plan_cache_max"
    dict_get plan_store length "\<lambda>_. plan_cache_max"
proof
  fix c :: plan_cache and k j v w
  assume ok: "distinct (map fst c) \<and> length c \<le> plan_cache_max"
  have d: "distinct (map fst (evict_oldest c))" using ok
    by (auto simp: evict_oldest_def split: list.splits)
  have "length (plan_store k v c) \<le> plan_cache_max"
    using length_dict_set[of k v "evict_oldest c"] evict_oldest_length[of c] ok
    unfolding plan_store_def by linarith
  then show "distinct (map fst (plan_store k v c)) \<and> length (plan_store k v c) \<le> plan_cache_max"
    using d by (simp add: plan_store_def)
  show "length c \<le> plan_cache_max" using ok ..
  show "dict_get (plan_store k v c) k = Some v" by (simp add: plan_store_def)
  show "dict_get (plan_store k v c) j = Some w \<Longrightarrow> j \<noteq> k \<Longrightarrow> dict_get c j = Some w"
    by (auto simp: plan_store_def evict_oldest_def split: list.splits if_splits)
qed simp

section \<open>Properties\<close>

text \<open>C35: The compiled plan of the ingest path and the reference walk over the registry agree: the tags of an event are those of the models it is a member of, sorted.\<close>

theorem compiled_tags_are_reference:
  assumes "compile_registry r = Inr p"
  shows "tags_for evt r = Inr (sort (map m_tag (filter (\<lambda>m. model_matches m evt = Inr True) (r_models r))))"
  using tags_for_reference[OF assms, of evt] unfolding member_def[abs_def] .

theorem compiled_tags_are_reference_witness:
  "tags_for (Fresh (bare_event ''acme'')) \<lparr>r_version = 1, r_models = [\<lparr>m_name = ''A'', m_tag = ''a'',
      m_version = 1,
      m_clauses = [[\<lparr>t_source = \<lparr>s_kind = ''column'', s_name = ''vendor'', s_paths = []\<rparr>,
                     t_values = [''acme''], t_label = []\<rparr>]], m_fields = []\<rparr>]\<rparr> = Inr [''a'']"
proof -
  let ?r = "\<lparr>r_version = 1, r_models = [\<lparr>m_name = ''A'', m_tag = ''a'', m_version = 1,
      m_clauses = [[\<lparr>t_source = \<lparr>s_kind = ''column'', s_name = ''vendor'', s_paths = []\<rparr>,
                     t_values = [''acme''], t_label = []\<rparr>]], m_fields = []\<rparr>]\<rparr>"
  have c: "compile_registry ?r = Inr \<lparr>p_models = [(''a'',
      [[\<lparr>c_column = ''vendor'', c_paths = [], c_values = [''acme'']\<rparr>]])], p_columns = [''vendor'']\<rparr>"
    by code_simp
  have m: "list_all (\<lambda>m. model_matches m (Fresh (bare_event ''acme'')) = Inr True) (r_models ?r)" by code_simp
  show ?thesis using compiled_tags_are_reference[OF c, of "Fresh (bare_event ''acme'')"] m by simp
qed

text \<open>The plan cache is invisible: on a sound cache it returns what compiling the registry returns, stays sound, and never holds more than eight plans.\<close>

lemma plan_cache_transparent:
  assumes "cache_sound c" and "length c \<le> plan_cache_max"
  shows "fst (cached_plan obj c) = compile_registry (snd obj) \<and> cache_sound (snd (cached_plan obj c))
    \<and> length (snd (cached_plan obj c)) \<le> plan_cache_max"
  using cached_plan_sound[OF assms(1)] cached_plan_bounded[OF assms(2)] by blast

lemma plan_cache_transparent_example:
  "fst (cached_plan (7, \<lparr>r_version = 1, r_models = []\<rparr>) []) = compile_registry \<lparr>r_version = 1, r_models = []\<rparr>"
proof -
  have "cache_sound []" "length ([] :: plan_cache) \<le> plan_cache_max" by (simp_all add: cache_sound_def)
  from plan_cache_transparent[OF this, of "(7, \<lparr>r_version = 1, r_models = []\<rparr>)"] show ?thesis by simp
qed

end
