(* ===== verification/SigmaEngine.thy ===== *)
theory SigmaEngine
  imports SigmaCondition CimMatch
begin

text \<open>
  Rules, the CIM gate and the engine (\<open>app/detection/engine.py\<close>, from \<open>_log_once\<close> on). The module's
  global variables are the record \<open>cim_state\<close>; every function that touches them takes the state and
  returns it. The environment of one resolution attempt (the clock and what \<open>get_registry()\<close> does,
  \<^const>\<open>None\<close> when it raises) is \<open>env n\<close> for the \<open>n\<close>-th attempt. Log output is the list of keys reported.
\<close>

section \<open>Rules\<close>

record rule =
  rl_id :: string
  rl_title :: string
  rl_level :: string
  rl_description :: string
  rl_logsource :: pyval
  rl_detection :: pyval
  rl_datamodels :: "string list"
  rl_tactics :: "string list"
  rl_techniques :: "string list"
  rl_atlas :: "string list"
  rl_fidelity :: string
  rl_data_source :: "string list"
  rl_references :: "string list"
  rl_source :: string
  rl_enabled :: bool

text \<open>\<open>t\d{4}(?:\.\d{3})?\<close>, case-insensitively, over the whole text.\<close>

definition is_technique :: "string \<Rightarrow> bool" where
  "is_technique v \<longleftrightarrow>
     (length v = 5 \<or> length v = 9 \<and> v ! 5 = CHR ''.'' \<and> list_all is_digit (drop 6 v)) \<and>
     lower_char (hd v) = CHR ''t'' \<and> list_all is_digit (take 4 (tl v))"

definition is_atlas :: "string \<Rightarrow> bool" where
  "is_atlas v \<longleftrightarrow> lower (take 4 v) = ''aml.'' \<and> is_technique (drop 4 v)"

text \<open>\<open>t.split(".", 1)[1]\<close> for a text that holds a dot.\<close>

definition after_dot :: "string \<Rightarrow> string" where
  "after_dot s = tl (dropWhile (\<lambda>c. c \<noteq> CHR ''.'') s)"

definition parse_tags :: "pyval \<Rightarrow> py_error + (string list \<times> string list)" where
  "parse_tags tags =
     sbind (pv_iter tags) (\<lambda>ts.
       (let vs = map after_dot (filter (\<lambda>t. prefix ''attack.'' (lower t)) (map (strip \<circ> pv_str) ts))
        in Inr (map (\<lambda>v. lower (replace_char (CHR ''_'') '' '' v)) (filter (\<lambda>v. \<not> is_technique v) vs),
                map upper (filter is_technique vs))))"

definition parse_atlas_tags :: "pyval \<Rightarrow> py_error + string list" where
  "parse_atlas_tags tags =
     sbind (pv_iter tags) (\<lambda>ts.
       Inr (map upper (filter is_atlas
         (map after_dot (filter (\<lambda>t. prefix ''atlas.'' (lower t)) (map (strip \<circ> pv_str) ts))))))"

definition norm_fidelity :: "pyval \<Rightarrow> string" where
  "norm_fidelity value =
     (let v = lower (strip (pv_str (pv_or value (VStr []))))
      in if v \<in> {''high'', ''medium'', ''hunt''} then v else ''medium'')"

definition as_str_list :: "pyval \<Rightarrow> string list" where
  "as_str_list value =
     (if value = VNone \<or> value = VStr [] then []
      else (case value of
              VList xs \<Rightarrow> filter (\<lambda>s. s \<noteq> []) (map (strip \<circ> pv_str) xs)
            | _ \<Rightarrow> filter (\<lambda>s. s \<noteq> []) (map strip (split_on CHR '','' (pv_str value)))))"

definition rule_from_dict :: "(string, pyval) dict \<Rightarrow> string \<Rightarrow> py_error + rule" where
  "rule_from_dict d source =
     sbind (parse_tags (pv_get d ''tags'')) (\<lambda>(tactics, techniques).
     sbind (parse_atlas_tags (pv_get d ''tags'')) (\<lambda>atlas.
       Inr \<lparr>rl_id = pv_str (pv_or (pv_get d ''id'') (pv_or (pv_get d ''title'') (VStr source))),
            rl_title = pv_str (pv_or (pv_get d ''title'') (VStr ''untitled'')),
            rl_level = lower (pv_str (pv_or (pv_get d ''level'') (VStr ''medium''))),
            rl_description = pv_str (pv_or (pv_get d ''description'') (VStr [])),
            rl_logsource = pv_or (pv_get d ''logsource'') (VDict []),
            rl_detection = pv_or (pv_get d ''detection'') (VDict []),
            rl_datamodels = as_str_list (pv_or (pv_get d ''datamodels'') (pv_get d ''datamodel'')),
            rl_tactics = tactics, rl_techniques = techniques, rl_atlas = atlas,
            rl_fidelity = norm_fidelity (pv_get d ''fidelity''),
            rl_data_source = as_str_list (pv_or (pv_get d ''data_source'') (pv_get d ''data_sources'')),
            rl_references = as_str_list (pv_get d ''references''),
            rl_source = source, rl_enabled = True\<rparr>))"

text \<open>A rule directory as \<open>_rule_files\<close> lists it: file names with their parsed documents.\<close>

fun load_docs :: "string \<Rightarrow> pyval list \<Rightarrow> py_error + rule list" where
  "load_docs name [] = Inr []"
| "load_docs name (doc # docs) =
     (case doc of
        VDict d \<Rightarrow>
          (if pv_truthy (pv_get d ''detection'')
           then sbind (rule_from_dict d name) (\<lambda>r. sbind (load_docs name docs) (\<lambda>rs. Inr (r # rs)))
           else load_docs name docs)
      | _ \<Rightarrow> load_docs name docs)"

definition load_rules :: "(string \<times> pyval list) list \<Rightarrow> py_error + rule list" where
  "load_rules files = sbind (map_res (\<lambda>(name, docs). load_docs name docs) files) (\<lambda>rss. Inr (concat rss))"

section \<open>The CIM handle\<close>

record gate =
  g_tags :: "string set"
  g_dead :: bool

type_synonym gate_key = "string \<times> string list"

record cim_state =
  resolved :: bool
  registry :: "cim_registry option"
  retry_at :: "int option"
  generation :: nat
  gate_cache :: "(gate_key, gate) dict"
  logged :: "string list"
  log_out :: "string list"
  attempts :: nat

definition cim_init :: cim_state where
  "cim_init = \<lparr>resolved = False, registry = None, retry_at = None, generation = 0,
     gate_cache = [], logged = [], log_out = [], attempts = 0\<rparr>"

type_synonym cim_env = "nat \<Rightarrow> int \<times> cim_registry option"

definition gate_cache_max :: nat where "gate_cache_max = 512"
definition log_keys_max :: nat where "log_keys_max = 512"

text \<open>Times are microseconds; a failed resolution is honoured for thirty seconds.\<close>

definition cim_retry :: int where "cim_retry = 30000000"

definition cim_unavailable :: string where "cim_unavailable = ''cim-unavailable''"

definition log_once :: "string \<Rightarrow> cim_state \<Rightarrow> cim_state" where
  "log_once key st =
     (if key \<in> set (logged st) then st
      else (let kept = (if log_keys_max \<le> length (logged st) then [] else logged st)
            in st\<lparr>logged := key # kept, log_out := log_out st @ [key]\<rparr>))"

definition cim :: "cim_env \<Rightarrow> cim_state \<Rightarrow> cim_registry option \<times> cim_state" where
  "cim env st =
     (if resolved st then (registry st, st)
      else
        (let (now, loaded) = env (attempts st); st = st\<lparr>attempts := Suc (attempts st)\<rparr> in
         if (case retry_at st of None \<Rightarrow> False | Some t \<Rightarrow> now < t) then (None, st)
         else (case loaded of
             None \<Rightarrow> (None, log_once cim_unavailable
                       (st\<lparr>registry := None, retry_at := Some (now + cim_retry)\<rparr>))
           | Some reg \<Rightarrow>
               (let st = (if retry_at st = None then st
                          else st\<lparr>logged := removeAll cim_unavailable (logged st),
                                  log_out := log_out st @ [''cim-recovered''], retry_at := None\<rparr>)
                in (Some reg, st\<lparr>registry := Some reg, resolved := True\<rparr>)))))"

definition reset_cim_cache :: "cim_state \<Rightarrow> cim_state" where
  "reset_cim_cache st =
     st\<lparr>resolved := False, registry := None, retry_at := None,
        generation := Suc (generation st), gate_cache := [], logged := []\<rparr>"

definition cim_tags :: "cim_env \<Rightarrow> evtlike \<Rightarrow> cim_state \<Rightarrow> string set \<times> cim_state" where
  "cim_tags env evt st =
     (case cim env st of
        (None, st) \<Rightarrow> ({}, st)
      | (Some reg, st) \<Rightarrow>
          (case tags_for evt reg of
             Inr ts \<Rightarrow> (set ts, st)
           | Inl _ \<Rightarrow> ({}, log_once ''cim-eval-failed'' st)))"

section \<open>The gate\<close>

definition dead_gate :: gate where
  "dead_gate = \<lparr>g_tags = {}, g_dead = True\<rparr>"

definition gate_key_of :: "rule \<Rightarrow> gate_key" where
  "gate_key_of r = (rl_id r, rl_datamodels r)"

definition unknown_models :: "cim_registry \<Rightarrow> string list \<Rightarrow> string list" where
  "unknown_models reg names = filter (\<lambda>n. by_name reg n = None) names"

text \<open>The log key of a binding: \<open>f"unknown-datamodel:{key}"\<close>, with the tuple as \<open>repr\<close> writes it.\<close>

definition tuple_repr :: "string list \<Rightarrow> string" where
  "tuple_repr xs = ''('' @ join '', '' (map str_repr xs) @ (if length xs = 1 then '',)'' else '')'')"

definition unknown_log_key :: "gate_key \<Rightarrow> string" where
  "unknown_log_key k =
     ''unknown-datamodel:('' @ str_repr (fst k) @ '', '' @ tuple_repr (snd k) @ '')''"

text \<open>A binding resolved against a registry: dead as soon as one name is unknown.\<close>

definition resolve_gate :: "cim_registry \<Rightarrow> string list \<Rightarrow> gate" where
  "resolve_gate reg names =
     (if unknown_models reg names \<noteq> [] then dead_gate
      else \<lparr>g_tags = set (map m_tag (List.map_filter (by_name reg) names)), g_dead = False\<rparr>)"

text \<open>The second critical section of \<open>_gate\<close>: store only if nothing was reset meanwhile.\<close>

definition gate_commit :: "nat \<Rightarrow> gate_key \<Rightarrow> gate \<Rightarrow> cim_state \<Rightarrow> cim_state" where
  "gate_commit gen key g st =
     (if gen = generation st
      then st\<lparr>gate_cache :=
                dict_set key g (if gate_cache_max \<le> length (gate_cache st) then [] else gate_cache st)\<rparr>
      else st)"

definition gate_of :: "cim_env \<Rightarrow> rule \<Rightarrow> cim_state \<Rightarrow> gate \<times> cim_state" where
  "gate_of env r st =
     (case dict_get (gate_cache st) (gate_key_of r) of
        Some hit \<Rightarrow> (hit, st)
      | None \<Rightarrow>
          (let gen = generation st in
           case cim env st of
             (None, st) \<Rightarrow> (dead_gate, st)
           | (Some reg, st) \<Rightarrow>
               (let st = (if unknown_models reg (rl_datamodels r) \<noteq> []
                          then log_once (unknown_log_key (gate_key_of r)) st
                          else st);
                    g = resolve_gate reg (rl_datamodels r)
                in (g, gate_commit gen (gate_key_of r) g st))))"

definition datamodels_match :: "cim_env \<Rightarrow> rule \<Rightarrow> string set \<Rightarrow> cim_state \<Rightarrow> bool \<times> cim_state" where
  "datamodels_match env r tags st =
     (if rl_datamodels r = [] then (True, st)
      else (case gate_of env r st of
              (g, st) \<Rightarrow> (\<not> g_dead g \<and> g_tags g \<inter> tags \<noteq> {}, st)))"

section \<open>Matching a rule\<close>

definition logsource_keys :: "string list" where
  "logsource_keys = [''vendor'', ''log_type'', ''service'', ''product'']"

text \<open>\<open>_logsource_matches\<close> on whatever the rule carries: \<open>in\<close> also works on text and lists, but
  subscripting them by a name raises.\<close>

definition logsource_gate :: "pyval \<Rightarrow> flat \<Rightarrow> py_error + bool" where
  "logsource_gate ls flat =
     (if \<not> pv_truthy ls then Inr True
      else (case ls of
              VDict d \<Rightarrow> Inr (logsource_matches d flat)
            | VStr s \<Rightarrow> if list_ex (\<lambda>k. sublist k s) logsource_keys then Inl TypeError else Inr True
            | VList xs \<Rightarrow> if list_ex (\<lambda>k. VStr k \<in> set xs) logsource_keys then Inl TypeError else Inr True
            | _ \<Rightarrow> Inl TypeError))"

definition selections :: "re_search \<Rightarrow> flat \<Rightarrow> (string, pyval) dict \<Rightarrow> sels" where
  "selections rx flat det =
     map (\<lambda>(name, body). (name, eval_selection rx flat body)) (filter (\<lambda>(k, _). k \<noteq> ''condition'') det)"

definition eval_detection :: "re_search \<Rightarrow> pyval \<Rightarrow> flat \<Rightarrow> py_error + bool" where
  "eval_detection rx det flat =
     (case det of
        VDict d \<Rightarrow>
          (case dict_get d ''condition'' of
             None \<Rightarrow> Inr (eval_condition [] (selections rx flat d))
           | Some (VStr c) \<Rightarrow> Inr (eval_condition c (selections rx flat d))
           | Some _ \<Rightarrow> Inl AttributeError)
      | _ \<Rightarrow> Inl AttributeError)"

definition match_rule ::
    "re_search \<Rightarrow> cim_env \<Rightarrow> rule \<Rightarrow> flat \<Rightarrow> evtlike option \<Rightarrow> string set option \<Rightarrow> cim_state
       \<Rightarrow> (py_error + bool) \<times> cim_state" where
  "match_rule rx env r flat evt tags st =
     (case logsource_gate (rl_logsource r) flat of
        Inl e \<Rightarrow> (Inl e, st)
      | Inr False \<Rightarrow> (Inr False, st)
      | Inr True \<Rightarrow>
          (let (admitted, st) =
             (if rl_datamodels r = [] then (True, st)
              else
                (let (ts, st) = (case tags of
                       Some ts \<Rightarrow> (ts, st)
                     | None \<Rightarrow> cim_tags env (case evt of Some e \<Rightarrow> e | None \<Rightarrow> Row flat) st)
                 in datamodels_match env r ts st))
           in if \<not> admitted then (Inr False, st)
              else (eval_detection rx (rl_detection r) flat, st)))"

record alert_row =
  al_event_time :: "int option"
  al_rule_id :: string
  al_rule_title :: string
  al_level :: string
  al_tactics :: "string list"
  al_techniques :: "string list"
  al_vendor :: "string option"
  al_src_ip :: "string option"
  al_dst_ip :: "string option"
  al_user_name :: "string option"
  al_host_name :: "string option"
  al_message :: "string option"
  al_dedup_hash :: string
  al_batch_id :: "int option"
  al_status :: string

definition alert_from_match :: "rule \<Rightarrow> event \<Rightarrow> string \<Rightarrow> int option \<Rightarrow> alert_row" where
  "alert_from_match r e dedup batch =
     \<lparr>al_event_time = event_time e, al_rule_id = rl_id r, al_rule_title = rl_title r,
      al_level = rl_level r, al_tactics = rl_tactics r, al_techniques = rl_techniques r,
      al_vendor = Some (vendor e), al_src_ip = src_ip e, al_dst_ip = dst_ip e,
      al_user_name = user_name e, al_host_name = host_name e,
      al_message = (case message e of None \<Rightarrow> None | Some m \<Rightarrow> if m = [] then None else Some (take 1000 m)),
      al_dedup_hash = dedup, al_batch_id = batch, al_status = ''open''\<rparr>"

section \<open>The engine\<close>

text \<open>The loop of \<open>evaluate_event\<close>: membership is resolved lazily, once; a rule that raises is skipped.\<close>

fun evaluate_rules ::
    "re_search \<Rightarrow> cim_env \<Rightarrow> event \<Rightarrow> flat \<Rightarrow> rule list \<Rightarrow> string set option \<Rightarrow> cim_state
       \<Rightarrow> rule list \<times> cim_state" where
  "evaluate_rules rx env e flat [] tags st = ([], st)"
| "evaluate_rules rx env e flat (r # rs) tags st =
     (if \<not> rl_enabled r then evaluate_rules rx env e flat rs tags st
      else
        (let (tags, st) = (if rl_datamodels r \<noteq> [] \<and> tags = None
               then (case cim_tags env (Fresh e) st of (ts, st) \<Rightarrow> (Some ts, st)) else (tags, st));
             (res, st) = match_rule rx env r flat (Some (Fresh e)) tags st;
             (out, st) = evaluate_rules rx env e flat rs tags st
         in (if res = Inr True then r # out else out, st)))"

definition evaluate_event ::
    "re_search \<Rightarrow> cim_env \<Rightarrow> rule list \<Rightarrow> event \<Rightarrow> string set option \<Rightarrow> cim_state
       \<Rightarrow> rule list \<times> cim_state" where
  "evaluate_event rx env rules e tags st = evaluate_rules rx env e (flatten_event e) rules tags st"

section \<open>The caches are sound\<close>

text \<open>What holds between two calls: a resolved state has a registry, and every memoized gate is the
  binding resolved against that registry.\<close>

definition gates_sound :: "cim_state \<Rightarrow> bool" where
  "gates_sound st \<longleftrightarrow>
     (resolved st \<longrightarrow> registry st \<noteq> None) \<and>
     (\<forall>key g. dict_get (gate_cache st) key = Some g \<longrightarrow>
        resolved st \<and> (\<exists>reg. registry st = Some reg \<and> g = resolve_gate reg (snd key)))"

lemma log_once_frame [simp]:
  "resolved (log_once k st) = resolved st" "registry (log_once k st) = registry st"
  "retry_at (log_once k st) = retry_at st" "generation (log_once k st) = generation st"
  "gate_cache (log_once k st) = gate_cache st" "attempts (log_once k st) = attempts st"
  by (simp_all add: log_once_def Let_def)

lemma gates_sound_log_once [simp]: "gates_sound (log_once k st) = gates_sound st"
  by (simp add: gates_sound_def)

lemma gates_sound_init: "gates_sound cim_init"
  by (simp add: gates_sound_def cim_init_def)

lemma gates_sound_reset: "gates_sound (reset_cim_cache st)"
  by (simp add: gates_sound_def reset_cim_cache_def)

lemma cim_frame:
  "cim env st = (res, st') \<Longrightarrow> gate_cache st' = gate_cache st \<and> generation st' = generation st"
  by (auto simp: cim_def Let_def split: if_splits option.splits prod.splits)

lemma cim_resolved: "resolved st \<Longrightarrow> cim env st = (registry st, st)"
  by (simp add: cim_def)

lemma cim_Some:
  "cim env st = (Some reg, st') \<Longrightarrow> gates_sound st \<Longrightarrow> resolved st' \<and> registry st' = Some reg"
  by (auto simp: cim_def Let_def split: if_splits option.splits prod.splits)

lemma cim_None:
  "cim env st = (None, st') \<Longrightarrow> gates_sound st \<Longrightarrow> \<not> resolved st' \<and> \<not> resolved st"
  by (auto simp: cim_def Let_def gates_sound_def split: if_splits option.splits prod.splits)

lemma gates_sound_unresolved: "gates_sound st \<Longrightarrow> \<not> resolved st \<Longrightarrow> dict_get (gate_cache st) key = None"
  by (cases key; cases "dict_get (gate_cache st) key") (auto simp: gates_sound_def)

lemma cim_sound:
  assumes "gates_sound st" and "cim env st = (res, st')"
  shows "gates_sound st'"
proof (cases "resolved st")
  case True
  with assms show ?thesis by (simp add: cim_resolved)
next
  case False
  with assms have "\<And>key. dict_get (gate_cache st') key = None"
    using gates_sound_unresolved cim_frame by metis
  moreover have "resolved st' \<longrightarrow> registry st' \<noteq> None"
    using cim_Some[OF _ assms(1)] cim_None[OF _ assms(1)] assms(2) by (cases res) auto
  ultimately show ?thesis by (simp add: gates_sound_def)
qed

lemma gate_commit_sound:
  assumes "gates_sound st"
    and "gen = generation st \<Longrightarrow> resolved st \<and> (\<exists>reg. registry st = Some reg \<and> g = resolve_gate reg (snd key))"
  shows "gates_sound (gate_commit gen key g st)"
  using assms by (auto simp: gate_commit_def gates_sound_def split: if_splits)

lemma gate_commit_frame [simp]:
  "resolved (gate_commit gen key g st) = resolved st" "registry (gate_commit gen key g st) = registry st"
  "generation (gate_commit gen key g st) = generation st"
  by (simp_all add: gate_commit_def)

lemma gate_of_sound:
  assumes "gates_sound st" and "gate_of env r st = (g, st')"
  shows "gates_sound st'"
  using assms cim_sound[OF assms(1)] cim_Some[OF _ assms(1)]
  by (auto simp: gate_of_def gate_key_of_def Let_def split: option.splits prod.splits intro!: gate_commit_sound)

lemma gate_of_resolved:
  assumes "gates_sound st" and "resolved st" and "registry st = Some reg"
  shows "fst (gate_of env r st) = resolve_gate reg (rl_datamodels r)
    \<and> resolved (snd (gate_of env r st)) \<and> registry (snd (gate_of env r st)) = Some reg"
  using assms
  by (auto simp: gate_of_def gate_key_of_def Let_def cim_resolved gates_sound_def split: option.splits)

section \<open>The engine fires what the specification says\<close>

definition members :: "cim_registry \<Rightarrow> event \<Rightarrow> string set" where
  "members reg e = (case tags_for (Fresh e) reg of Inr ts \<Rightarrow> set ts | Inl _ \<Rightarrow> {})"

definition admits :: "cim_registry \<Rightarrow> string set \<Rightarrow> rule \<Rightarrow> bool" where
  "admits reg ts r \<longleftrightarrow>
     rl_datamodels r = [] \<or>
     (\<forall>n\<in>set (rl_datamodels r). by_name reg n \<noteq> None) \<and>
     (\<exists>n\<in>set (rl_datamodels r). \<exists>m. by_name reg n = Some m \<and> m_tag m \<in> ts)"

definition fires :: "re_search \<Rightarrow> cim_registry \<Rightarrow> string set \<Rightarrow> event \<Rightarrow> rule \<Rightarrow> bool" where
  "fires rx reg ts e r \<longleftrightarrow>
     rl_enabled r \<and>
     logsource_gate (rl_logsource r) (flatten_event e) = Inr True \<and>
     admits reg ts r \<and>
     eval_detection rx (rl_detection r) (flatten_event e) = Inr True"

lemma resolve_gate_admits:
  assumes "rl_datamodels r \<noteq> []"
  shows "(\<not> g_dead (resolve_gate reg (rl_datamodels r)) \<and> g_tags (resolve_gate reg (rl_datamodels r)) \<inter> ts \<noteq> {})
     \<longleftrightarrow> admits reg ts r"
proof (cases "unknown_models reg (rl_datamodels r) = []")
  case True
  then have "\<forall>n\<in>set (rl_datamodels r). by_name reg n \<noteq> None"
    by (auto simp: unknown_models_def filter_empty_conv)
  with True assms show ?thesis
    by (fastforce simp: resolve_gate_def admits_def List.map_filter_def image_iff)
next
  case False
  then have "\<not> (\<forall>n\<in>set (rl_datamodels r). by_name reg n \<noteq> None)"
    by (auto simp: unknown_models_def filter_empty_conv)
  with False assms show ?thesis by (simp add: resolve_gate_def dead_gate_def admits_def)
qed

definition ready :: "cim_registry \<Rightarrow> cim_state \<Rightarrow> bool" where
  "ready reg st \<longleftrightarrow> gates_sound st \<and> resolved st \<and> registry st = Some reg"

lemma datamodels_match_ready:
  assumes "ready reg st" and "datamodels_match env r ts st = (b, st')"
  shows "b = admits reg ts r \<and> ready reg st'"
proof (cases "rl_datamodels r = []")
  case True
  with assms show ?thesis by (simp add: datamodels_match_def admits_def)
next
  case False
  obtain g st1 where g: "gate_of env r st = (g, st1)" by fastforce
  with assms False have b: "b = (\<not> g_dead g \<and> g_tags g \<inter> ts \<noteq> {})" and st': "st' = st1"
    by (auto simp: datamodels_match_def)
  have "g = resolve_gate reg (rl_datamodels r)" "ready reg st1"
    using gate_of_resolved[of st reg env r] gate_of_sound[OF _ g] g assms(1) by (auto simp: ready_def)
  then show ?thesis using b st' resolve_gate_admits[OF False] by simp
qed

lemma match_rule_ready:
  assumes "ready reg st" and "match_rule rx env r flat evt (Some ts) st = (res, st')"
  shows "ready reg st' \<and>
     (res = Inr True \<longleftrightarrow> logsource_gate (rl_logsource r) flat = Inr True \<and> admits reg ts r
        \<and> eval_detection rx (rl_detection r) flat = Inr True)"
  using assms datamodels_match_ready[OF assms(1), of env r ts]
  by (cases "logsource_gate (rl_logsource r) flat")
    (auto simp: match_rule_def admits_def Let_def split: bool.splits prod.splits if_splits)

lemma match_rule_unbound:
  assumes "rl_datamodels r = []"
  shows "match_rule rx env r flat evt tags st =
    (case logsource_gate (rl_logsource r) flat of Inl x \<Rightarrow> (Inl x, st)
      | Inr b \<Rightarrow> (if b then eval_detection rx (rl_detection r) flat else Inr False, st))"
  using assms by (auto simp: match_rule_def Let_def split: sum.splits bool.splits)

lemma cim_tags_ready:
  assumes "ready reg st" and "cim_tags env (Fresh e) st = (ts, st')"
  shows "ts = members reg e \<and> ready reg st'"
  using assms by (auto simp: cim_tags_def ready_def members_def cim_resolved split: sum.splits)

lemma evaluate_rules_ready:
  assumes "ready reg st" and "tags = None \<or> tags = Some ts" and "tags = None \<Longrightarrow> ts = members reg e"
    and "flat = flatten_event e"
  shows "fst (evaluate_rules rx env e flat rules tags st) = filter (fires rx reg ts e) rules"
  using assms
proof (induction rules arbitrary: tags st)
  case Nil
  then show ?case by simp
next
  case (Cons r rs)
  show ?case
  proof (cases "rl_enabled r")
    case False
    with Cons show ?thesis by (auto simp: fires_def)
  next
    case True
    obtain tags1 st1 where t1: "(if rl_datamodels r \<noteq> [] \<and> tags = None
         then (case cim_tags env (Fresh e) st of (ts, st) \<Rightarrow> (Some ts, st)) else (tags, st)) = (tags1, st1)"
      by fastforce
    have r1: "ready reg st1" and tg: "tags1 = Some ts \<or> tags1 = None \<and> rl_datamodels r = []"
      and tg': "tags1 = None \<or> tags1 = Some ts" "tags1 = None \<Longrightarrow> ts = members reg e"
      using t1 Cons.prems cim_tags_ready[OF Cons.prems(1)] by (auto split: if_splits prod.splits)
    obtain res st2 where m: "match_rule rx env r flat (Some (Fresh e)) tags1 st1 = (res, st2)" by fastforce
    have v: "ready reg st2 \<and> (res = Inr True \<longleftrightarrow> fires rx reg ts e r)"
    proof (cases "tags1")
      case None
      with tg have u: "rl_datamodels r = []" by simp
      with m have m': "(case logsource_gate (rl_logsource r) flat of Inl x \<Rightarrow> (Inl x, st1)
        | Inr b \<Rightarrow> (if b then eval_detection rx (rl_detection r) flat else Inr False, st1)) = (res, st2)"
        by (simp add: match_rule_unbound)
      with u True r1 Cons.prems(4) show ?thesis
        by (auto simp: fires_def admits_def split: sum.splits if_splits)
    next
      case (Some ts')
      with tg m have "match_rule rx env r flat (Some (Fresh e)) (Some ts) st1 = (res, st2)" by simp
      with True r1 Cons.prems(4) show ?thesis
        using match_rule_ready[OF r1] by (auto simp: fires_def)
    qed
    obtain out st3 where e: "evaluate_rules rx env e flat rs tags1 st2 = (out, st3)" by fastforce
    with v have "out = filter (fires rx reg ts e) rs"
      using Cons.IH[of st2 tags1] tg' Cons.prems(4) by simp
    with True t1 m e v show ?thesis by (auto simp: Let_def)
  qed
qed

lemma evaluate_event_ready:
  "ready reg st \<Longrightarrow> fst (evaluate_event rx env rules e None st) = filter (fires rx reg (members reg e) e) rules"
  unfolding evaluate_event_def by (rule evaluate_rules_ready) auto

lemma evaluate_rules_unbound:
  assumes "\<forall>r\<in>set rules. rl_datamodels r = []"
  shows "evaluate_rules rx env e (flatten_event e) rules tags st
       = (filter (fires rx reg ts e) rules, st)"
  using assms
proof (induction rules)
  case Nil
  then show ?case by simp
next
  case (Cons r rs)
  then show ?case
    by (auto simp: Let_def match_rule_unbound fires_def admits_def split: sum.splits)
qed

section \<open>Properties\<close>

definition demo_registry :: cim_registry where
  "demo_registry = \<lparr>r_version = 1, r_models = [\<lparr>m_name = ''Authentication'', m_tag = ''authentication'',
     m_version = 1,
     m_clauses = [[\<lparr>t_source = \<lparr>s_kind = ''column'', s_name = ''log_type'', s_paths = []\<rparr>,
                    t_values = [''auth''], t_label = []\<rparr>]],
     m_fields = []\<rparr>]\<rparr>"

definition demo_state :: cim_state where
  "demo_state = cim_init\<lparr>resolved := True, registry := Some demo_registry\<rparr>"

definition demo_rule :: rule where
  "demo_rule = \<lparr>rl_id = ''r1'', rl_title = ''t'', rl_level = ''high'', rl_description = [],
     rl_logsource = VNone,
     rl_detection = VDict [(''sel'', VDict [(''user_name'', VStr ''root'')]), (''condition'', VStr ''sel'')],
     rl_datamodels = [''Authentication''], rl_tactics = [], rl_techniques = [], rl_atlas = [],
     rl_fidelity = ''medium'', rl_data_source = [], rl_references = [], rl_source = ''r.yml'',
     rl_enabled = True\<rparr>"

lemma demo_ready: "ready demo_registry demo_state"
  by (simp add: ready_def demo_state_def gates_sound_def cim_init_def)

text \<open>C33: With a resolved data-model registry, evaluating an event fires exactly the enabled rules whose log source, data models and detection admit it, in the order of the rules. Lazy membership, the gate cache and the skipping of rules that raise never change the outcome.\<close>

theorem engine_fires_exactly:
  assumes "ready reg st"
  shows "fst (evaluate_event rx env rules e None st) = filter (fires rx reg (members reg e) e) rules"
  using assms by (rule evaluate_event_ready)

theorem engine_fires_exactly_witness:
  "fst (evaluate_event (\<lambda>_ _ _. None) (\<lambda>_. (0, None)) [demo_rule]
      ((bare_event ''acme'')\<lparr>log_type := Some ''Auth'', user_name := Some ''root''\<rparr>) None demo_state)
    = filter (fires (\<lambda>_ _ _. None) demo_registry
        (members demo_registry ((bare_event ''acme'')\<lparr>log_type := Some ''Auth'', user_name := Some ''root''\<rparr>))
        ((bare_event ''acme'')\<lparr>log_type := Some ''Auth'', user_name := Some ''root''\<rparr>)) [demo_rule]"
  by (rule engine_fires_exactly[OF demo_ready])

end
