(* ===== verification/CimGate.thy ===== *)
theory CimGate
  imports SigmaEngine
begin

text \<open>
  Concurrency and outages of the CIM gate (\<open>app/detection/engine.py\<close>, \<open>_cim\<close>, \<open>_gate\<close>,
  \<open>reset_cim_cache\<close>). Many writer threads run \<open>_gate\<close>; between its two critical sections another
  thread may reset the caches. The threads are a step relation over the shared state; each step is
  one critical section. The generation stamp keeps a binding resolved against a discarded registry
  out of the cache.
\<close>

section \<open>Threads\<close>

datatype phase =
    Outside
  | Missed gate_key nat
  | Resolved gate_key nat gate

record gate_system =
  shared :: cim_state
  phases :: "nat \<Rightarrow> phase"

inductive gate_step :: "gate_system \<Rightarrow> gate_system \<Rightarrow> bool" where
  miss: "phases s i = Outside \<Longrightarrow> dict_get (gate_cache (shared s)) key = None \<Longrightarrow>
     gate_step s (s\<lparr>phases := (phases s)(i := Missed key (generation (shared s)))\<rparr>)"
| resolve: "phases s i = Missed key gen \<Longrightarrow> cim env (shared s) = (Some reg, st) \<Longrightarrow>
     st' = (if unknown_models reg (snd key) \<noteq> [] then log_once (unknown_log_key key) st else st) \<Longrightarrow>
     gate_step s (s\<lparr>shared := st', phases := (phases s)(i := Resolved key gen (resolve_gate reg (snd key)))\<rparr>)"
| unavailable: "phases s i = Missed key gen \<Longrightarrow> cim env (shared s) = (None, st) \<Longrightarrow>
     gate_step s (s\<lparr>shared := st, phases := (phases s)(i := Outside)\<rparr>)"
| commit: "phases s i = Resolved key gen g \<Longrightarrow>
     gate_step s (s\<lparr>shared := gate_commit gen key g (shared s), phases := (phases s)(i := Outside)\<rparr>)"
| reset: "gate_step s (s\<lparr>shared := reset_cim_cache (shared s)\<rparr>)"
| other: "cim env (shared s) = (res, st) \<Longrightarrow> gate_step s (s\<lparr>shared := st\<rparr>)"

inductive gate_reachable :: "gate_system \<Rightarrow> bool" where
  start: "gate_reachable \<lparr>shared = cim_init, phases = (\<lambda>_. Outside)\<rparr>"
| step: "gate_reachable s \<Longrightarrow> gate_step s t \<Longrightarrow> gate_reachable t"

text \<open>A pending thread's stamp is never ahead of the generation, and a binding whose stamp is still
  current was resolved against the current registry.\<close>

fun phase_ok :: "cim_state \<Rightarrow> phase \<Rightarrow> bool" where
  "phase_ok st Outside = True"
| "phase_ok st (Missed key gen) = (gen \<le> generation st)"
| "phase_ok st (Resolved key gen g) =
     (gen \<le> generation st \<and>
      (gen = generation st \<longrightarrow>
        resolved st \<and> (\<exists>reg. registry st = Some reg \<and> g = resolve_gate reg (snd key))))"

definition gate_inv :: "gate_system \<Rightarrow> bool" where
  "gate_inv s \<longleftrightarrow> gates_sound (shared s) \<and> (\<forall>i. phase_ok (shared s) (phases s i))"

lemma phase_ok_log_once [simp]: "phase_ok (log_once k st) p = phase_ok st p"
  by (cases p) simp_all

lemma phase_ok_reset: "phase_ok st p \<Longrightarrow> phase_ok (reset_cim_cache st) p"
  by (cases p) (auto simp: reset_cim_cache_def)

lemma phase_ok_commit: "phase_ok st p \<Longrightarrow> phase_ok (gate_commit gen key g st) p"
  by (cases p) auto

lemma phase_ok_cim:
  assumes "gates_sound st" and "cim env st = (res, st')" and "phase_ok st p"
  shows "phase_ok st' p"
proof (cases "resolved st")
  case True
  with assms show ?thesis by (simp add: cim_resolved)
next
  case False
  with assms show ?thesis using cim_frame[OF assms(2)] by (cases p) auto
qed

lemma gate_step_inv: "gate_step s t \<Longrightarrow> gate_inv s \<Longrightarrow> gate_inv t"
proof (induction rule: gate_step.induct)
  case (miss s i key)
  then show ?case by (auto simp: gate_inv_def)
next
  case (resolve s i key gen env reg st st')
  have st: "gates_sound st" "resolved st \<and> registry st = Some reg" "generation st = generation (shared s)"
    using resolve cim_sound cim_Some cim_frame by (auto simp: gate_inv_def)
  have "gen \<le> generation (shared s)" using resolve by (auto simp: gate_inv_def dest: spec[of _ i])
  moreover have "phase_ok st (phases s j)" for j
    using resolve phase_ok_cim by (auto simp: gate_inv_def)
  ultimately show ?case using st resolve(3) by (auto simp: gate_inv_def)
next
  case (unavailable s i key gen env st)
  then show ?case using cim_sound phase_ok_cim by (auto simp: gate_inv_def)
next
  case (commit s i key gen g)
  then have "phase_ok (shared s) (Resolved key gen g)" by (auto simp: gate_inv_def dest: spec[of _ i])
  with commit show ?case
    by (auto simp: gate_inv_def intro!: gate_commit_sound phase_ok_commit)
next
  case (reset s)
  then show ?case by (auto simp: gate_inv_def gates_sound_reset phase_ok_reset)
next
  case (other env s res st)
  then show ?case using cim_sound phase_ok_cim by (auto simp: gate_inv_def)
qed

lemma gate_reachable_inv: "gate_reachable s \<Longrightarrow> gate_inv s"
proof (induction rule: gate_reachable.induct)
  case start
  then show ?case by (simp add: gate_inv_def gates_sound_init)
next
  case (step s t)
  then show ?case using gate_step_inv by blast
qed

section \<open>Outages\<close>

text \<open>During the wall of a failed attempt nothing is loaded: the answer is the same whatever
  \<open>get_registry()\<close> would do.\<close>

lemma cim_wall:
  assumes "\<not> resolved st" and "retry_at st = Some t" and "fst (env (attempts st)) < t"
  shows "cim env st = (None, st\<lparr>attempts := Suc (attempts st)\<rparr>)"
  using assms by (auto simp: cim_def Let_def split: prod.splits)

lemma cim_fails:
  assumes "\<not> resolved st" and "env (attempts st) = (now, None)"
    and "\<And>t. retry_at st = Some t \<Longrightarrow> t \<le> now"
  shows "fst (cim env st) = None \<and> retry_at (snd (cim env st)) = Some (now + cim_retry)
    \<and> \<not> resolved (snd (cim env st))"
  using assms by (cases "retry_at st") (auto simp: cim_def Let_def)

lemma cim_recovers:
  assumes "\<not> resolved st" and "env (attempts st) = (now, Some reg)"
    and "\<And>t. retry_at st = Some t \<Longrightarrow> t \<le> now"
  shows "fst (cim env st) = Some reg \<and> resolved (snd (cim env st)) \<and>
    retry_at (snd (cim env st)) = None \<and>
    (retry_at st \<noteq> None \<longrightarrow> cim_unavailable \<notin> set (logged (snd (cim env st))))"
  using assms by (cases "retry_at st") (auto simp: cim_def Let_def)

section \<open>Bounds\<close>

definition cim_bounded :: "cim_state \<Rightarrow> bool" where
  "cim_bounded st \<longleftrightarrow> length (gate_cache st) \<le> gate_cache_max \<and>
     length (logged st) \<le> log_keys_max \<and> distinct (logged st)"

lemma log_once_bounded: "cim_bounded st \<Longrightarrow> cim_bounded (log_once k st)"
  by (auto simp: cim_bounded_def log_once_def Let_def log_keys_max_def)

lemma cim_bounded_cim: "cim_bounded st \<Longrightarrow> cim env st = (res, st') \<Longrightarrow> cim_bounded st'"
proof -
  assume b: "cim_bounded st" and c: "cim env st = (res, st')"
  have f: "cim_bounded (st\<lparr>attempts := a, registry := r, retry_at := t\<rparr>)" for a r t
    using b by (simp add: cim_bounded_def)
  have "cim_bounded (st\<lparr>attempts := a, logged := removeAll cim_unavailable (logged st),
      log_out := l, retry_at := t, registry := r, resolved := d\<rparr>)" for a l t r d
    using b by (auto simp: cim_bounded_def distinct_removeAll
        intro: order_trans[OF length_removeAll_less_eq])
  moreover have "cim_bounded (st\<lparr>attempts := a, registry := r, resolved := d\<rparr>)" for a r d
    using b by (simp add: cim_bounded_def)
  ultimately show "cim_bounded st'"
    using c b f log_once_bounded[OF f]
    by (auto simp: cim_def Let_def cim_bounded_def split: if_splits option.splits prod.splits)
qed

lemma gate_commit_bounded: "cim_bounded st \<Longrightarrow> cim_bounded (gate_commit gen key g st)"
  using length_dict_set[of key g "gate_cache st"]
  by (auto simp: cim_bounded_def gate_commit_def gate_cache_max_def dict_set_def)

lemma gate_of_bounded:
  "cim_bounded st \<Longrightarrow> gate_of env r st = (g, st') \<Longrightarrow> cim_bounded st'"
  by (auto simp: gate_of_def Let_def split: option.splits prod.splits if_splits
      intro!: gate_commit_bounded log_once_bounded dest: cim_bounded_cim)

section \<open>Properties\<close>

definition demo_env :: cim_env where
  "demo_env n = (0, Some \<lparr>r_version = 1, r_models = []\<rparr>)"

definition demo_gates :: gate_system where
  "demo_gates = \<lparr>shared = gate_commit 0 (''r'', []) (resolve_gate \<lparr>r_version = 1, r_models = []\<rparr> [])
     (snd (cim demo_env cim_init)), phases = (\<lambda>_. Outside)\<rparr>"

lemma demo_gates_reachable: "gate_reachable demo_gates"
proof -
  let ?k = "(''r'', []) :: gate_key" and ?reg = "\<lparr>r_version = 1, r_models = []\<rparr>"
  let ?s0 = "\<lparr>shared = cim_init, phases = (\<lambda>_. Outside)\<rparr>"
  let ?s1 = "\<lparr>shared = cim_init, phases = (\<lambda>_. Outside)(0 := Missed ?k 0)\<rparr>"
  let ?st = "snd (cim demo_env cim_init)"
  let ?s2 = "\<lparr>shared = ?st, phases = (\<lambda>_. Outside)(0 := Resolved ?k 0 (resolve_gate ?reg []))\<rparr>"
  have c: "cim demo_env cim_init = (Some ?reg, ?st)" by (simp add: cim_def demo_env_def cim_init_def)
  have 1: "gate_step ?s0 ?s1" using gate_step.miss[of ?s0 0 ?k] by (simp add: cim_init_def)
  have 2: "gate_step ?s1 ?s2"
    using gate_step.resolve[of ?s1 0 ?k 0 demo_env ?reg ?st ?st] c by (simp add: unknown_models_def)
  have 3: "gate_step ?s2 demo_gates"
    using gate_step.commit[of ?s2 0 ?k 0 "resolve_gate ?reg []"] by (simp add: demo_gates_def fun_upd_idem)
  note r1 = gate_reachable.step[OF gate_reachable.start 1]
  show ?thesis by (rule gate_reachable.step[OF gate_reachable.step[OF r1 2] 3])
qed

text \<open>C36: Whatever the interleaving of writer threads and resets, a binding found in the gate cache is the one the current registry gives: a thread that resolved against a discarded registry never publishes its result.\<close>

theorem gate_cache_never_stale:
  assumes "gate_reachable s" and "dict_get (gate_cache (shared s)) key = Some g"
  shows "resolved (shared s) \<and> (\<exists>reg. registry (shared s) = Some reg \<and> g = resolve_gate reg (snd key))"
  using gate_reachable_inv[OF assms(1)] assms(2) unfolding gate_inv_def gates_sound_def by blast

theorem gate_cache_never_stale_witness:
  "dict_get (gate_cache (shared demo_gates)) (''r'', []) = Some (resolve_gate \<lparr>r_version = 1, r_models = []\<rparr> [])
    \<and> resolved (shared demo_gates)"
proof -
  have g: "dict_get (gate_cache (shared demo_gates)) (''r'', []) = Some (resolve_gate \<lparr>r_version = 1, r_models = []\<rparr> [])"
    by (simp add: demo_gates_def gate_commit_def cim_def demo_env_def cim_init_def)
  show ?thesis using gate_cache_never_stale[OF demo_gates_reachable g] g by blast
qed

text \<open>While the wall of a failed resolution stands, asking for the registry answers nothing and changes only the count of attempts, whatever the loader would have done.\<close>

lemma outage_is_remembered:
  assumes "\<not> resolved st" and "retry_at st = Some t" and "fst (env (attempts st)) < t"
  shows "cim env st = (None, st\<lparr>attempts := Suc (attempts st)\<rparr>)"
  using assms by (rule cim_wall)

lemma outage_is_remembered_example:
  "cim (\<lambda>_. (5, None)) (cim_init\<lparr>retry_at := Some 9\<rparr>) = (None, cim_init\<lparr>retry_at := Some 9, attempts := 1\<rparr>)"
  using outage_is_remembered[of "cim_init\<lparr>retry_at := Some 9\<rparr>" 9 "\<lambda>_. (5, None)"] by (simp add: cim_init_def)

text \<open>Once the wall has passed and the loader succeeds, the next call returns the registry, the handle is resolved, the wall is gone, and a later outage will be logged again.\<close>

lemma outage_recovers:
  assumes "\<not> resolved st" and "env (attempts st) = (now, Some reg)" and "retry_at st = Some t" and "t \<le> now"
  shows "fst (cim env st) = Some reg \<and> resolved (snd (cim env st)) \<and> retry_at (snd (cim env st)) = None
    \<and> cim_unavailable \<notin> set (logged (snd (cim env st)))"
  using cim_recovers[of st env now reg] assms by simp

lemma outage_recovers_example:
  "fst (cim demo_env (cim_init\<lparr>retry_at := Some 0, logged := [cim_unavailable]\<rparr>))
    = Some \<lparr>r_version = 1, r_models = []\<rparr>"
  using outage_recovers[of "cim_init\<lparr>retry_at := Some 0, logged := [cim_unavailable]\<rparr>" demo_env 0
      "\<lparr>r_version = 1, r_models = []\<rparr>" 0]
  by (simp add: cim_init_def demo_env_def)

text \<open>Resolving a rule's gate keeps the gate cache and the set of reported log keys within their bounds.\<close>

lemma gate_memory_bounded:
  assumes "cim_bounded st"
  shows "cim_bounded (snd (gate_of env r st))"
  using gate_of_bounded[OF assms, of env r] by (cases "gate_of env r st") simp

lemma gate_memory_bounded_example:
  "cim_bounded (snd (gate_of demo_env demo_rule cim_init))"
  by (rule gate_memory_bounded) (simp add: cim_bounded_def cim_init_def)

end
