(* ===== verification/EventEdit.thy ===== *)
theory EventEdit
  imports Event
begin

text \<open>
  Writing an event's columns by name (\<open>setattr(evt, name, value)\<close> in \<open>app/ingest_actions.py\<close>,
  \<open>app/custom_parser.py\<close>), and edits: operations that change an event in place, say whether they
  changed it, and may raise half-way.
\<close>

section \<open>Columns by name\<close>

definition text_fields :: "string list" where
  "text_fields = [''product'', ''log_type'', ''severity'', ''action'', ''protocol'', ''app'',
     ''user_name'', ''host_name'', ''rule_name'', ''message'']"

definition inet_fields :: "string list" where
  "inet_fields = [''src_ip'', ''dst_ip'']"

definition int_fields :: "string list" where
  "int_fields = [''src_port'', ''dst_port'', ''bytes_total'']"

definition maskable_fields :: "string list" where
  "maskable_fields = text_fields @ inet_fields @ int_fields"

text \<open>Assigning text, or None, to a text or address column.\<close>

definition set_str :: "string \<Rightarrow> string option \<Rightarrow> event \<Rightarrow> event" where
  "set_str n v e =
     (if n = ''vendor'' then (case v of Some s \<Rightarrow> e\<lparr>vendor := s\<rparr> | None \<Rightarrow> e)
      else if n = ''product'' then e\<lparr>product := v\<rparr>
      else if n = ''log_type'' then e\<lparr>log_type := v\<rparr>
      else if n = ''severity'' then e\<lparr>severity := v\<rparr>
      else if n = ''action'' then e\<lparr>action := v\<rparr>
      else if n = ''src_ip'' then e\<lparr>src_ip := v\<rparr>
      else if n = ''dst_ip'' then e\<lparr>dst_ip := v\<rparr>
      else if n = ''protocol'' then e\<lparr>protocol := v\<rparr>
      else if n = ''app'' then e\<lparr>app := v\<rparr>
      else if n = ''user_name'' then e\<lparr>user_name := v\<rparr>
      else if n = ''host_name'' then e\<lparr>host_name := v\<rparr>
      else if n = ''rule_name'' then e\<lparr>rule_name := v\<rparr>
      else if n = ''message'' then e\<lparr>message := v\<rparr>
      else e)"

definition set_int :: "string \<Rightarrow> int option \<Rightarrow> event \<Rightarrow> event" where
  "set_int n v e =
     (if n = ''src_port'' then e\<lparr>src_port := v\<rparr>
      else if n = ''dst_port'' then e\<lparr>dst_port := v\<rparr>
      else if n = ''bytes_total'' then e\<lparr>bytes_total := v\<rparr>
      else e)"

lemmas column_names = text_fields_def inet_fields_def int_fields_def

lemma evt_get_set_str:
  "n \<in> set (text_fields @ inet_fields) \<Longrightarrow> evt_get (set_str n v e) m = (if m = n then ostr v else evt_get e m)"
  unfolding column_names
  by (simp only: append.simps list.set insert_iff empty_iff; elim disjE FalseE;
      simp add: set_str_def evt_get_def pv_get_def event_columns_def dict_get_def)

lemma evt_get_set_vendor:
  "evt_get (set_str ''vendor'' (Some v) e) m = (if m = ''vendor'' then VStr v else evt_get e m)"
  by (simp add: set_str_def evt_get_def pv_get_def event_columns_def dict_get_def)

lemma evt_get_set_int:
  "n \<in> set int_fields \<Longrightarrow> evt_get (set_int n v e) m = (if m = n then oint v else evt_get e m)"
  unfolding column_names
  by (simp only: list.set insert_iff empty_iff; elim disjE FalseE;
      simp add: set_int_def evt_get_def pv_get_def event_columns_def dict_get_def)

lemma set_frame [simp]:
  "raw (set_str n v e) = raw e" "raw (set_int n i e) = raw e"
  "event_time (set_str n v e) = event_time e" "event_time (set_int n i e) = event_time e"
  by (simp_all add: set_str_def set_int_def split: option.splits)

lemma set_int_vendor [simp]: "vendor (set_int n i e) = vendor e"
  by (simp add: set_int_def)

lemma set_str_vendor [simp]: "n \<noteq> ''vendor'' \<Longrightarrow> vendor (set_str n v e) = vendor e"
  by (simp add: set_str_def)

text \<open>Writing back what is there changes nothing.\<close>

lemma set_str_same:
  "n \<in> set (text_fields @ inet_fields) \<Longrightarrow> evt_get e n = ostr v \<Longrightarrow> set_str n v e = e"
  unfolding column_names
  by (simp only: append.simps list.set insert_iff empty_iff; elim disjE FalseE;
      cases v; cases e;
      simp add: set_str_def evt_get_def pv_get_def event_columns_def dict_get_def ostr_def split: option.splits)

lemma evt_get_text:
  "n \<in> set (text_fields @ inet_fields) \<Longrightarrow> \<exists>v. evt_get e n = ostr v"
  unfolding column_names
  by (simp only: append.simps list.set insert_iff empty_iff; elim disjE FalseE;
      simp add: evt_get_def pv_get_def event_columns_def dict_get_def; blast)

section \<open>Edits\<close>

text \<open>
  An edit runs on an event and gives \<^term>\<open>Some c\<close> (\<open>c\<close>: something changed) or \<^const>\<open>None\<close> when it
  raises, together with the event as it is then; an exception does not undo what was written before.
\<close>

type_synonym edit = "event \<Rightarrow> bool option \<times> event"

definition and_then :: "edit \<Rightarrow> edit \<Rightarrow> edit" where
  "and_then f g e =
     (case f e of
        (None, e1) \<Rightarrow> (None, e1)
      | (Some b, e1) \<Rightarrow> (case g e1 of (r, e2) \<Rightarrow> (map_option (\<lambda>c. b \<or> c) r, e2)))"

fun edits :: "edit list \<Rightarrow> edit" where
  "edits [] e = (Some False, e)"
| "edits (f # fs) e = and_then f (edits fs) e"

text \<open>What the evaluator relies on: an edit that reports no change made none.\<close>

definition honest :: "edit \<Rightarrow> bool" where
  "honest f \<longleftrightarrow> (\<forall>e. fst (f e) = Some False \<longrightarrow> snd (f e) = e)"

lemma honestI: "(\<And>e e'. f e = (Some False, e') \<Longrightarrow> e' = e) \<Longrightarrow> honest f"
  unfolding honest_def by (metis prod.collapse)

lemma honestD: "honest f \<Longrightarrow> f e = (Some False, e') \<Longrightarrow> e' = e"
  unfolding honest_def by (metis fst_conv snd_conv)

lemma honest_and_then [intro]: "honest f \<Longrightarrow> honest g \<Longrightarrow> honest (and_then f g)"
proof (rule honestI)
  fix e e'
  assume h: "honest f" "honest g" and r: "and_then f g e = (Some False, e')"
  then obtain e1 where "f e = (Some False, e1)" "g e1 = (Some False, e')"
    by (auto simp: and_then_def split: prod.splits option.splits)
  then show "e' = e" using h honestD by metis
qed

lemma honest_edits: "(\<And>f. f \<in> set fs \<Longrightarrow> honest f) \<Longrightarrow> honest (edits fs)"
proof (induction fs)
  case Nil
  show ?case by (rule honestI) simp
next
  case (Cons f fs)
  then have "honest (and_then f (edits fs))" by auto
  then show ?case by (auto simp: honest_def)
qed

text \<open>A property of the event that every edit of a list keeps, the list keeps.\<close>

definition keeps :: "(event \<Rightarrow> bool) \<Rightarrow> edit \<Rightarrow> bool" where
  "keeps P f \<longleftrightarrow> (\<forall>e. P e \<longrightarrow> P (snd (f e)))"

lemma keepsI: "(\<And>e. P e \<Longrightarrow> P (snd (f e))) \<Longrightarrow> keeps P f"
  by (simp add: keeps_def)

lemma keeps_and_then [intro]: "keeps P f \<Longrightarrow> keeps P g \<Longrightarrow> keeps P (and_then f g)"
  unfolding keeps_def and_then_def
  by (auto split: prod.splits option.splits)

lemma keeps_edits: "(\<And>f. f \<in> set fs \<Longrightarrow> keeps P f) \<Longrightarrow> keeps P (edits fs)"
proof (induction fs)
  case Nil
  show ?case by (simp add: keeps_def)
next
  case (Cons f fs)
  then have "keeps P (and_then f (edits fs))" by auto
  then show ?case by (auto simp: keeps_def)
qed

end
