(* ===== verification/IngestMask.thy ===== *)
theory IngestMask
  imports EventEdit SigmaEngine
begin

text \<open>
  The transforms of an ingest action (\<open>app/ingest_actions.py\<close>, the pure helpers and \<open>_mask_column\<close> to
  \<open>apply_route\<close>) and the identity of an event (\<open>app/normalize.py\<close>): typed masking of columns and of
  paths in the raw record, regular expressions, and the sweep that removes a masked value from the
  rest of the event.

  Parameters: SHA-256 as text to hexadecimal text, \<open>isoformat\<close>, \<open>json.dumps\<close>, and the \<open>sub\<close> of a
  compiled pattern, which raises on a replacement template it cannot expand.
\<close>

record externals =
  x_sha :: "string \<Rightarrow> string"
  x_iso :: "int \<Rightarrow> string"
  x_dumps :: "(string, pyval) dict \<Rightarrow> string"
  x_sub :: "string \<Rightarrow> string \<Rightarrow> string \<Rightarrow> string option"
  x_search :: re_search
  x_cim :: cim_env

section \<open>Specifications\<close>

record pattern_spec =
  ps_regex :: string
  ps_replacement :: string
  ps_field :: string
  ps_raw_path :: "string list"

record mask_spec =
  mk_fields :: "string list"
  mk_raw_keys :: "string list list"
  mk_patterns :: "pattern_spec list"
  mk_replacement :: string
  mk_hash :: bool  \<comment> \<open>mode: hash, otherwise redact\<close>
  mk_salt :: string
  mk_scrub :: bool
  mk_inet_replacement :: "string option"
  mk_int_replacement :: "int option"

record route_spec =
  rt_vendor :: "string option"
  rt_product :: "string option"
  rt_log_type :: "string option"
  rt_index :: "string option"

section \<open>Identity\<close>

definition dedup_hash :: "externals \<Rightarrow> event \<Rightarrow> string" where
  "dedup_hash x e =
     x_sha x (vendor e @ (case event_time e of None \<Rightarrow> ''none'' | Some t \<Rightarrow> x_iso x t) @ x_dumps x (raw e))"

definition max_tsv_chars :: nat where "max_tsv_chars = 900000"

definition tsv_text :: "externals \<Rightarrow> event \<Rightarrow> string" where
  "tsv_text x e =
     (let columns = [Some (vendor e), product e, log_type e, severity e, action e, src_ip e, dst_ip e,
                     protocol e, app e, user_name e, host_name e, rule_name e, message e];
          blob = join '' '' (filter (\<lambda>s. s \<noteq> []) (List.map_filter id columns))
      in take max_tsv_chars (blob @ '' '' @ x_dumps x (raw e)))"

section \<open>Hashing and raw paths\<close>

definition hash_value :: "externals \<Rightarrow> string \<Rightarrow> string \<Rightarrow> nat \<Rightarrow> string" where
  "hash_value x v salt n = take n (x_sha x (salt @ v))"

text \<open>\<open>int(text, 16)\<close> of hexadecimal digits.\<close>

definition hex_int :: "string \<Rightarrow> int" where
  "hex_int s = foldl (\<lambda>n c. n * 16 + hex_val c) 0 s"

definition pseudo_net_base :: int where "pseudo_net_base = 1681915904"
definition pseudo_net_bits :: nat where "pseudo_net_bits = 22"

definition pseudo_ip :: "externals \<Rightarrow> string \<Rightarrow> string \<Rightarrow> string" where
  "pseudo_ip x v salt =
     ip_str (IPv4 (pseudo_net_base + hex_int (hash_value x v salt 16) mod 2 ^ pseudo_net_bits))"

definition raw_path :: "pyval \<Rightarrow> string list" where
  "raw_path v = (case v of VList xs \<Rightarrow> filter (\<lambda>s. s \<noteq> []) (map pv_str xs) | _ \<Rightarrow> [pv_str v])"

fun raw_get :: "pyval \<Rightarrow> string list \<Rightarrow> pyval" where
  "raw_get v [] = v"
| "raw_get v (k # ks) =
     (case v of VDict d \<Rightarrow> (case dict_get d k of None \<Rightarrow> VNone | Some w \<Rightarrow> raw_get w ks) | _ \<Rightarrow> VNone)"

text \<open>\<open>raw_set\<close> gives the record with the value set, or \<^const>\<open>None\<close> where it answers False.\<close>

fun raw_set :: "pyval \<Rightarrow> string list \<Rightarrow> pyval \<Rightarrow> pyval option" where
  "raw_set v [] new = None"
| "raw_set v [k] new =
     (case v of VDict d \<Rightarrow> (case dict_get d k of None \<Rightarrow> None | Some _ \<Rightarrow> Some (VDict (dict_set k new d)))
      | _ \<Rightarrow> None)"
| "raw_set v (k # l # ks) new =
     (case v of VDict d \<Rightarrow>
        (case dict_get d k of None \<Rightarrow> None
         | Some w \<Rightarrow> map_option (\<lambda>w'. VDict (dict_set k w' d)) (raw_set w (l # ks) new))
      | _ \<Rightarrow> None)"

definition dict_of :: "pyval \<Rightarrow> (string, pyval) dict" where
  "dict_of v = (case v of VDict d \<Rightarrow> d | _ \<Rightarrow> [])"

definition max_scrub_depth :: nat where "max_scrub_depth = 16"

text \<open>
  \<open>walk_strings\<close> rewrites the text values of a nested record in place. The items of one container are
  visited in order; a container below the depth bound is left alone. \<^const>\<open>None\<close> when the rewriting
  raised, with the record as it is then.
\<close>

fun walk_vals :: "(string \<Rightarrow> string option) \<Rightarrow> nat \<Rightarrow> pyval list \<Rightarrow> bool option \<times> pyval list"
  and walk_items :: "(string \<Rightarrow> string option) \<Rightarrow> nat \<Rightarrow> (string, pyval) dict \<Rightarrow> bool option \<times> (string, pyval) dict"
  and walk_val :: "(string \<Rightarrow> string option) \<Rightarrow> nat \<Rightarrow> pyval \<Rightarrow> bool option \<times> pyval"
where
  "walk_vals fn d [] = (Some False, [])"
| "walk_vals fn d (v # vs) =
     (case walk_val fn d v of
        (None, v') \<Rightarrow> (None, v' # vs)
      | (Some b, v') \<Rightarrow> (case walk_vals fn d vs of (r, vs') \<Rightarrow> (map_option (\<lambda>c. c \<or> b) r, v' # vs')))"
| "walk_items fn d [] = (Some False, [])"
| "walk_items fn d ((k, v) # kvs) =
     (case walk_val fn d v of
        (None, v') \<Rightarrow> (None, (k, v') # kvs)
      | (Some b, v') \<Rightarrow>
          (case walk_items fn d kvs of (r, kvs') \<Rightarrow> (map_option (\<lambda>c. c \<or> b) r, (k, v') # kvs')))"
| "walk_val fn d (VStr s) =
     (case fn s of None \<Rightarrow> (None, VStr s) | Some t \<Rightarrow> (Some (t \<noteq> s), VStr t))"
| "walk_val fn d (VDict kvs) =
     (if max_scrub_depth < Suc d then (Some False, VDict kvs)
      else (case walk_items fn (Suc d) kvs of (r, kvs') \<Rightarrow> (r, VDict kvs')))"
| "walk_val fn d (VList vs) =
     (if max_scrub_depth < Suc d then (Some False, VList vs)
      else (case walk_vals fn (Suc d) vs of (r, vs') \<Rightarrow> (r, VList vs')))"
| "walk_val fn d v = (Some False, v)"

definition walk_strings :: "(string \<Rightarrow> string option) \<Rightarrow> (string, pyval) dict \<Rightarrow> bool option \<times> (string, pyval) dict" where
  "walk_strings fn kvs = walk_items fn 0 kvs"

section \<open>The scrubber\<close>

definition min_substring_len :: nat where "min_substring_len = 8"

text \<open>Substitution from the left, no match inside another: \<open>hit p s\<close> says that the value \<open>v\<close> is to be
  replaced at a position, where \<open>p\<close> is the character before it and \<open>s\<close> the text from there.\<close>

function sub_scan :: "(char option \<Rightarrow> string \<Rightarrow> bool) \<Rightarrow> string \<Rightarrow> string \<Rightarrow> char option \<Rightarrow> string \<Rightarrow> string" where
  "sub_scan hit v r p s =
     (if v = [] \<or> s = [] then s
      else if hit p s then r @ sub_scan hit v r (Some (last v)) (drop (length v) s)
      else hd s # sub_scan hit v r (Some (hd s)) (tl s))"
  by pat_completeness auto
termination by (relation "measure (\<lambda>(hit, v, r, p, s). length s)") auto

declare sub_scan.simps [simp del]

text \<open>\<open>s.replace(v, r)\<close>.\<close>

definition replace_all :: "string \<Rightarrow> string \<Rightarrow> string \<Rightarrow> string" where
  "replace_all v r s = sub_scan (\<lambda>_ t. prefix v t) v r None s"

text \<open>The token pattern: the value must not touch another word character on an end that is one itself.\<close>

definition token_here :: "string \<Rightarrow> char option \<Rightarrow> string \<Rightarrow> bool" where
  "token_here v p s \<longleftrightarrow>
     prefix v s \<and>
     (is_word (hd v) \<longrightarrow> (case p of None \<Rightarrow> True | Some c \<Rightarrow> \<not> is_word c)) \<and>
     (is_word (last v) \<longrightarrow> (case drop (length v) s of [] \<Rightarrow> True | c # _ \<Rightarrow> \<not> is_word c))"

definition token_sub :: "string \<Rightarrow> string \<Rightarrow> string \<Rightarrow> string" where
  "token_sub v r s = sub_scan (token_here v) v r None s"

definition scrub_one :: "string \<times> string \<Rightarrow> string \<Rightarrow> string" where
  "scrub_one p s =
     (if fst p = [] then s
      else if s = fst p then snd p
      else if min_substring_len \<le> length (fst p) then replace_all (fst p) (snd p) s
      else token_sub (fst p) (snd p) s)"

definition literal_scrubber :: "(string \<times> string) list \<Rightarrow> string \<Rightarrow> string" where
  "literal_scrubber pairs s = foldl (\<lambda>s p. scrub_one p s) s pairs"

section \<open>Masks\<close>

text \<open>A column that holds something: neither None nor the empty text.\<close>

definition filled :: "pyval \<Rightarrow> bool" where
  "filled v \<longleftrightarrow> v \<noteq> VNone \<and> v \<noteq> VStr []"

definition mask_text :: "externals \<Rightarrow> mask_spec \<Rightarrow> string \<Rightarrow> string" where
  "mask_text x m cur = (if mk_hash m then hash_value x cur (mk_salt m) 16 else mk_replacement m)"

definition mask_column :: "externals \<Rightarrow> mask_spec \<Rightarrow> string \<Rightarrow> event \<Rightarrow> (string \<times> string) option \<times> event" where
  "mask_column x m n e =
     (let cur = evt_get e n in
      if \<not> filled cur then (None, e)
      else if n \<in> set int_fields then
        (let new = mk_int_replacement m in
         (Some (pv_str cur, case new of Some i \<Rightarrow> int_str i | None \<Rightarrow> mk_replacement m), set_int n new e))
      else
        (let new = (if n \<in> set inet_fields
                    then (if mk_hash m then Some (pseudo_ip x (pv_str cur) (mk_salt m))
                          else mk_inet_replacement m)
                    else Some (mask_text x m (pv_str cur)))
         in (Some (pv_str cur, case new of Some s \<Rightarrow> s | None \<Rightarrow> mk_replacement m), set_str n new e)))"

fun mask_columns :: "externals \<Rightarrow> mask_spec \<Rightarrow> string list \<Rightarrow> event \<Rightarrow> (string \<times> string) list \<times> event" where
  "mask_columns x m [] e = ([], e)"
| "mask_columns x m (n # ns) e =
     (case mask_column x m n e of
        (got, e1) \<Rightarrow> (case mask_columns x m ns e1 of
          (pairs, e2) \<Rightarrow> (case got of None \<Rightarrow> pairs | Some p \<Rightarrow> p # pairs, e2)))"

definition mask_raw_key :: "externals \<Rightarrow> mask_spec \<Rightarrow> string list \<Rightarrow> edit" where
  "mask_raw_key x m path e =
     (let cur = raw_get (VDict (raw e)) path in
      if \<not> filled cur then (Some False, e)
      else (case raw_set (VDict (raw e)) path (VStr (mask_text x m (pv_str cur))) of
              None \<Rightarrow> (Some False, e)
            | Some d \<Rightarrow> (Some True, e\<lparr>raw := dict_of d\<rparr>)))"

definition pattern_column :: "externals \<Rightarrow> pattern_spec \<Rightarrow> edit" where
  "pattern_column x p e =
     (if ps_field p = [] then (Some False, e)
      else (case evt_get e (ps_field p) of
          VStr s \<Rightarrow>
            if s = [] then (Some False, e)
            else (case x_sub x (ps_regex p) (ps_replacement p) s of
                    None \<Rightarrow> (None, e)
                  | Some t \<Rightarrow> if t = s then (Some False, e) else (Some True, set_str (ps_field p) (Some t) e))
        | _ \<Rightarrow> (Some False, e)))"

definition pattern_raw :: "externals \<Rightarrow> pattern_spec \<Rightarrow> edit" where
  "pattern_raw x p e =
     (if ps_raw_path p = [] then (Some False, e)
      else (case raw_get (VDict (raw e)) (ps_raw_path p) of
          VStr s \<Rightarrow>
            if s = [] then (Some False, e)
            else (case x_sub x (ps_regex p) (ps_replacement p) s of
                    None \<Rightarrow> (None, e)
                  | Some t \<Rightarrow>
                      if t = s then (Some False, e)
                      else (case raw_set (VDict (raw e)) (ps_raw_path p) (VStr t) of
                              None \<Rightarrow> (Some False, e)
                            | Some d \<Rightarrow> (Some True, e\<lparr>raw := dict_of d\<rparr>)))
        | _ \<Rightarrow> (Some False, e)))"

text \<open>\<open>_scrub_columns\<close>, one text column at a time.\<close>

definition scrub_column :: "(string \<Rightarrow> string) \<Rightarrow> string \<Rightarrow> edit" where
  "scrub_column fn n e =
     (case evt_get e n of
        VStr s \<Rightarrow> if s = [] \<or> fn s = s then (Some False, e) else (Some True, set_str n (Some (fn s)) e)
      | _ \<Rightarrow> (Some False, e))"

definition walk_raw :: "(string \<Rightarrow> string option) \<Rightarrow> edit" where
  "walk_raw fn e = (case walk_strings fn (raw e) of (r, d) \<Rightarrow> (r, e\<lparr>raw := d\<rparr>))"

definition scrub_edits :: "externals \<Rightarrow> mask_spec \<Rightarrow> (string \<times> string) list \<Rightarrow> edit list" where
  "scrub_edits x m pairs =
     (if \<not> mk_scrub m then []
      else (if pairs = [] then []
            else map (scrub_column (literal_scrubber pairs)) text_fields
                 @ [walk_raw (\<lambda>s. Some (literal_scrubber pairs s))])
        @ map (\<lambda>p. walk_raw (x_sub x (ps_regex p) (ps_replacement p)))
            (filter (\<lambda>p. ps_field p \<noteq> []) (mk_patterns m)))"

definition mask_edits :: "externals \<Rightarrow> mask_spec \<Rightarrow> (string \<times> string) list \<Rightarrow> edit list" where
  "mask_edits x m pairs =
     map (mask_raw_key x m) (mk_raw_keys m)
     @ concat (map (\<lambda>p. [pattern_column x p, pattern_raw x p]) (mk_patterns m))
     @ scrub_edits x m pairs"

definition apply_mask :: "externals \<Rightarrow> mask_spec \<Rightarrow> edit" where
  "apply_mask x m e =
     (case mask_columns x m (mk_fields m) e of
        (pairs, e1) \<Rightarrow>
          (case edits (mask_edits x m pairs) e1 of (r, e2) \<Rightarrow> (map_option (\<lambda>c. pairs \<noteq> [] \<or> c) r, e2)))"

section \<open>Routes\<close>

definition route_column :: "string \<Rightarrow> string option \<Rightarrow> edit" where
  "route_column n want e =
     (case want of None \<Rightarrow> (Some False, e)
      | Some w \<Rightarrow> if evt_get e n = VStr w then (Some False, e) else (Some True, set_str n (Some w) e))"

definition route_index :: "string option \<Rightarrow> edit" where
  "route_index want e =
     (case want of None \<Rightarrow> (Some False, e)
      | Some w \<Rightarrow> if pv_get (raw e) ''_index'' = VStr w then (Some False, e)
                 else (Some True, e\<lparr>raw := dict_set ''_index'' (VStr w) (raw e)\<rparr>))"

definition apply_route :: "route_spec \<Rightarrow> edit" where
  "apply_route r =
     edits [route_column ''vendor'' (rt_vendor r), route_column ''product'' (rt_product r),
            route_column ''log_type'' (rt_log_type r), route_index (rt_index r)]"

text \<open>\<open>_stamp\<close>.\<close>

definition stamp_rule :: "string \<Rightarrow> event \<Rightarrow> event" where
  "stamp_rule rid e =
     (let marks = (case pv_get (raw e) ''_ingest_actions'' of VList ms \<Rightarrow> ms | _ \<Rightarrow> []);
          marks = (if VStr rid \<in> set marks then marks else marks @ [VStr rid])
      in e\<lparr>raw := dict_set ''_ingest_actions'' (VList marks) (raw e)\<rparr>)"

end
