(* ===== verification/IngestScrub.thy ===== *)
theory IngestScrub
  imports IngestMask
begin

text \<open>
  What masking guarantees: a reported "no change" is one, the typed columns stay typed, keys of the raw
  record are never rewritten, and the sweep removes a masked value from every text column and every
  text of the raw record the depth bound reaches.
\<close>

section \<open>Substitution removes what it replaces\<close>

lemma append_split_disjoint:
  assumes "a @ v @ b = r @ t" and "set v \<inter> set r = {}" and "v \<noteq> []" and "r \<noteq> []"
  shows "\<exists>a'. a = r @ a' \<and> t = a' @ v @ b"
proof -
  consider us where "a = r @ us" "us @ v @ b = t" | us where "a @ us = r" "v @ b = us @ t"
    using assms(1) by (auto simp: append_eq_append_conv2)
  then show ?thesis
  proof cases
    case 2
    then show ?thesis using assms by (cases us; cases v) auto
  qed auto
qed

text \<open>An output without a character of the replacement was copied from the input.\<close>

lemma sub_scan_copied:
  assumes "sub_scan hit v r p s = w @ b" and "set w \<inter> set r = {}" and "r \<noteq> []"
  shows "\<exists>s'. s = w @ s' \<and> (v = [] \<or> b = sub_scan hit v r (if w = [] then p else Some (last w)) s')"
  using assms(1,2)
proof (induction w arbitrary: p s)
  case Nil
  then show ?case by auto
next
  case (Cons c w)
  show ?case
  proof (cases "v = [] \<or> s = []")
    case True
    then have "s = (c # w) @ b" using Cons.prems(1) by (simp add: sub_scan.simps[of hit v r p s])
    then show ?thesis using True by auto
  next
    case False
    have "\<not> hit p s"
    proof
      assume "hit p s"
      then have "r @ sub_scan hit v r (Some (last v)) (drop (length v) s) = c # w @ b"
        using Cons.prems(1) False by (simp add: sub_scan.simps[of hit v r p s])
      then show False using Cons.prems(2) assms(3) by (cases r) auto
    qed
    then have h: "hd s = c" "sub_scan hit v r (Some c) (tl s) = w @ b"
      using Cons.prems(1) False by (auto simp: sub_scan.simps[of hit v r p s])
    obtain s' where "tl s = w @ s'"
        "v = [] \<or> b = sub_scan hit v r (if w = [] then Some c else Some (last w)) s'"
      using Cons.IH[OF h(2)] Cons.prems(2) by auto
    then show ?thesis using h(1) False by (intro exI[of _ s']) (cases s; auto)
  qed
qed

text \<open>A value that is not in the input is not in the output, and with plain replacement the replaced
  value never is.\<close>

lemma sub_scan_avoids:
  assumes "\<not> sublist w s" and d: "set w \<inter> set r = {}" "w \<noteq> []" "r \<noteq> []"
  shows "\<not> sublist w (sub_scan hit v r p s)"
  using assms(1)
proof (induction "length s" arbitrary: s p rule: less_induct)
  case less
  show ?case
  proof (cases "v = [] \<or> s = []")
    case True
    then show ?thesis using less.prems by (simp add: sub_scan.simps[of hit v r p s])
  next
    case False
    then have s: "s = hd s # tl s" by simp
    show ?thesis
    proof
      assume "sublist w (sub_scan hit v r p s)"
      then obtain a b where ab: "sub_scan hit v r p s = a @ w @ b" by (auto simp: sublist_def)
      show False
      proof (cases "hit p s")
        case True
        let ?t = "drop (length v) s"
        have "a @ w @ b = r @ sub_scan hit v r (Some (last v)) ?t"
          using ab True False by (simp add: sub_scan.simps[of hit v r p s])
        then have "sublist w (sub_scan hit v r (Some (last v)) ?t)"
          using append_split_disjoint[OF _ d] by (fastforce simp: sublist_def)
        moreover have "length ?t < length s" using False by simp
        moreover have "\<not> sublist w ?t"
          using less.prems sublist_drop sublist_order.order.trans by blast
        ultimately show False using less.hyps by blast
      next
        case False2: False
        have c: "hd s # sub_scan hit v r (Some (hd s)) (tl s) = a @ w @ b"
          using ab False2 False by (simp add: sub_scan.simps[of hit v r p s])
        show False
        proof (cases a)
          case Nil
          then obtain s' where "s = w @ s'"
            using sub_scan_copied[of hit v r p s w b] ab d by auto
          then show False using less.prems by (auto simp: sublist_def)
        next
          case (Cons c' a')
          then have "sublist w (sub_scan hit v r (Some (hd s)) (tl s))" using c by (auto simp: sublist_def)
          moreover have "\<not> sublist w (tl s)"
            using less.prems sublist_tl sublist_order.order.trans by blast
          moreover have "length (tl s) < length s" using False by simp
          ultimately show False using less.hyps by blast
        qed
      qed
    qed
  qed
qed

text \<open>Every occurrence of the value in the output was copied from a place of the input where it was not
  hit: after the same character, or right behind a replaced occurrence.\<close>

lemma sub_scan_occurrence:
  assumes "sub_scan hit v r p s = a @ v @ b" and d: "set v \<inter> set r = {}" "v \<noteq> []" "r \<noteq> []"
  shows "\<exists>q s'. \<not> hit q (v @ s') \<and> b = sub_scan hit v r (Some (last v)) s' \<and> (a = [] \<longrightarrow> s = v @ s') \<and>
    (q = (if a = [] then p else Some (last a)) \<or>
     q = Some (last v) \<and> (\<exists>p0 s0. hit p0 s0 \<and> drop (length v) s0 = v @ s'))"
  using assms(1)
proof (induction "length s" arbitrary: s p a rule: less_induct)
  case less
  have ne: "s \<noteq> []" using less.prems d(2) by (auto simp: sub_scan.simps[of hit v r p "[]"])
  show ?case
  proof (cases "hit p s")
    case True
    let ?t = "drop (length v) s"
    have "a @ v @ b = r @ sub_scan hit v r (Some (last v)) ?t"
      using less.prems True ne d(2) by (simp add: sub_scan.simps[of hit v r p s])
    then obtain a' where a': "a = r @ a'" "sub_scan hit v r (Some (last v)) ?t = a' @ v @ b"
      using append_split_disjoint[OF _ d] by blast
    have "length ?t < length s" using ne d(2) by simp
    then obtain q s' where q: "\<not> hit q (v @ s')" "b = sub_scan hit v r (Some (last v)) s'"
        "a' = [] \<longrightarrow> ?t = v @ s'"
        "q = (if a' = [] then Some (last v) else Some (last a')) \<or>
         q = Some (last v) \<and> (\<exists>p0 s0. hit p0 s0 \<and> drop (length v) s0 = v @ s')"
      using less.hyps[OF _ a'(2)] by blast
    have "q = (if a = [] then p else Some (last a)) \<or>
        q = Some (last v) \<and> (\<exists>p0 s0. hit p0 s0 \<and> drop (length v) s0 = v @ s')"
      using q(3,4) True a'(1) d(3) by (cases "a' = []") auto
    then show ?thesis using q(1,2) a'(1) d(3) by blast
  next
    case False
    have c: "hd s # sub_scan hit v r (Some (hd s)) (tl s) = a @ v @ b"
      using less.prems False ne d(2) by (simp add: sub_scan.simps[of hit v r p s])
    show ?thesis
    proof (cases a)
      case Nil
      then obtain s' where "s = v @ s'" "b = sub_scan hit v r (Some (last v)) s'"
        using sub_scan_copied[of hit v r p s v b] less.prems d by auto
      then show ?thesis using False Nil by (intro exI[of _ p] exI[of _ s']) simp
    next
      case (Cons c' a')
      have h: "sub_scan hit v r (Some (hd s)) (tl s) = a' @ v @ b" "hd s = c'" using c Cons by auto
      have "length (tl s) < length s" using ne by simp
      then obtain q s' where q: "\<not> hit q (v @ s')" "b = sub_scan hit v r (Some (last v)) s'"
          "q = (if a' = [] then Some (hd s) else Some (last a')) \<or>
           q = Some (last v) \<and> (\<exists>p0 s0. hit p0 s0 \<and> drop (length v) s0 = v @ s')"
        using less.hyps[OF _ h(1)] by blast
      then show ?thesis using Cons h(2) by (intro exI[of _ q] exI[of _ s']) auto
    qed
  qed
qed

lemma replace_all_clean:
  assumes "set v \<inter> set r = {}" and "v \<noteq> []" and "r \<noteq> []"
  shows "\<not> sublist v (replace_all v r s)"
proof
  assume "sublist v (replace_all v r s)"
  then obtain a b where "sub_scan (\<lambda>_ t. prefix v t) v r None s = a @ v @ b"
    by (auto simp: sublist_def replace_all_def)
  from sub_scan_occurrence[OF this assms] show False by auto
qed

text \<open>A whole token of a text.\<close>

definition whole_token :: "string \<Rightarrow> string \<Rightarrow> bool" where
  "whole_token v s \<longleftrightarrow>
     (\<exists>a b. s = a @ v @ b \<and> token_here v (if a = [] then None else Some (last a)) (v @ b))"

lemma token_sub_clean:
  assumes d: "set v \<inter> set r = {}" "v \<noteq> []" "r \<noteq> []"
  shows "\<not> whole_token v (token_sub v r s)"
proof
  assume "whole_token v (token_sub v r s)"
  then obtain a b where o: "sub_scan (token_here v) v r None s = a @ v @ b"
      and t: "token_here v (if a = [] then None else Some (last a)) (v @ b)"
    by (auto simp: whole_token_def token_sub_def)
  obtain q s' where q: "\<not> token_here v q (v @ s')" "b = sub_scan (token_here v) v r (Some (last v)) s'"
      "q = (if a = [] then None else Some (last a)) \<or>
       q = Some (last v) \<and> (\<exists>p0 s0. token_here v p0 s0 \<and> drop (length v) s0 = v @ s')"
    using sub_scan_occurrence[OF o d] by blast
  have left: "is_word (hd v) \<longrightarrow> (case q of None \<Rightarrow> True | Some c \<Rightarrow> \<not> is_word c)"
    using q(3) t d(2) by (cases v) (auto simp: token_here_def)
  have "\<not> (is_word (last v) \<longrightarrow> (case s' of [] \<Rightarrow> True | c # _ \<Rightarrow> \<not> is_word c))"
    using q(1) left by (simp add: token_here_def)
  then obtain c cs where s': "s' = c # cs" "is_word c" "is_word (last v)"
    by (auto split: list.splits)
  have "\<not> token_here v (Some (last v)) s'"
  proof
    assume h: "token_here v (Some (last v)) s'"
    then have "hd v = c" using s'(1) d(2) by (cases v) (auto simp: token_here_def)
    then show False using h s' by (simp add: token_here_def)
  qed
  then have "b = c # sub_scan (token_here v) v r (Some c) cs"
    unfolding q(2) s'(1) using s'(1) d(2) by (subst sub_scan.simps) simp
  then show False using t s' by (simp add: token_here_def)
qed

section \<open>The literal scrubber\<close>

definition spares :: "string \<Rightarrow> (string \<times> string) list \<Rightarrow> bool" where
  "spares v pairs \<longleftrightarrow> (\<forall>p\<in>set pairs. snd p \<noteq> [] \<and> set v \<inter> set (snd p) = {})"

lemma sublist_disjoint: "set v \<inter> set r = {} \<Longrightarrow> v \<noteq> [] \<Longrightarrow> \<not> sublist v r"
  using set_mono_sublist[of v r] by (cases v) auto

lemma scrub_one_avoids:
  assumes "\<not> sublist v s" and "snd p \<noteq> []" and "set v \<inter> set (snd p) = {}" and "v \<noteq> []"
  shows "\<not> sublist v (scrub_one p s)"
  using assms sub_scan_avoids sublist_disjoint[of v "snd p"]
  by (auto simp: scrub_one_def replace_all_def token_sub_def)

lemma scrub_one_clean:
  assumes "min_substring_len \<le> length (fst p)" and "snd p \<noteq> []" and "set (fst p) \<inter> set (snd p) = {}"
  shows "\<not> sublist (fst p) (scrub_one p s)"
proof -
  have "fst p \<noteq> []" using assms(1) by (auto simp: min_substring_len_def)
  then show ?thesis using assms replace_all_clean sublist_disjoint[of "fst p" "snd p"]
    by (auto simp: scrub_one_def)
qed

lemma literal_scrubber_avoids:
  "\<not> sublist v s \<Longrightarrow> spares v pairs \<Longrightarrow> v \<noteq> [] \<Longrightarrow> \<not> sublist v (literal_scrubber pairs s)"
  by (induction pairs arbitrary: s) (auto simp: literal_scrubber_def spares_def scrub_one_avoids)

lemma literal_scrubber_clean:
  assumes "p \<in> set pairs" and "min_substring_len \<le> length (fst p)" and "spares (fst p) pairs"
  shows "\<not> sublist (fst p) (literal_scrubber pairs s)"
proof -
  obtain as bs where pairs: "pairs = as @ p # bs" using assms(1) by (meson split_list)
  have "fst p \<noteq> []" using assms(2) by (auto simp: min_substring_len_def)
  moreover have "spares (fst p) bs" using assms(3) by (auto simp: spares_def pairs)
  moreover have "\<not> sublist (fst p) (scrub_one p (literal_scrubber as s))"
    using assms(2,3) by (intro scrub_one_clean) (auto simp: spares_def pairs)
  ultimately have "\<not> sublist (fst p) (literal_scrubber bs (scrub_one p (literal_scrubber as s)))"
    using literal_scrubber_avoids by blast
  then show ?thesis by (simp add: pairs literal_scrubber_def)
qed

section \<open>Walking a record\<close>

text \<open>The texts the walk reaches.\<close>

fun texts_of_vals :: "nat \<Rightarrow> pyval list \<Rightarrow> string list"
  and texts_of_items :: "nat \<Rightarrow> (string, pyval) dict \<Rightarrow> string list"
  and texts_of :: "nat \<Rightarrow> pyval \<Rightarrow> string list"
where
  "texts_of_vals d [] = []"
| "texts_of_vals d (v # vs) = texts_of d v @ texts_of_vals d vs"
| "texts_of_items d [] = []"
| "texts_of_items d ((k, v) # kvs) = texts_of d v @ texts_of_items d kvs"
| "texts_of d (VStr s) = [s]"
| "texts_of d (VDict kvs) = (if max_scrub_depth < Suc d then [] else texts_of_items (Suc d) kvs)"
| "texts_of d (VList vs) = (if max_scrub_depth < Suc d then [] else texts_of_vals (Suc d) vs)"
| "texts_of d v = []"

definition record_texts :: "(string, pyval) dict \<Rightarrow> string list" where
  "record_texts kvs = texts_of_items 0 kvs"

lemma walk_texts:
  "texts_of_vals d (snd (walk_vals (\<lambda>s. Some (f s)) d vs)) = map f (texts_of_vals d vs) \<and>
     fst (walk_vals (\<lambda>s. Some (f s)) d vs) \<noteq> None"
  "texts_of_items d (snd (walk_items (\<lambda>s. Some (f s)) d kvs)) = map f (texts_of_items d kvs) \<and>
     fst (walk_items (\<lambda>s. Some (f s)) d kvs) \<noteq> None"
  "texts_of d (snd (walk_val (\<lambda>s. Some (f s)) d v)) = map f (texts_of d v) \<and>
     fst (walk_val (\<lambda>s. Some (f s)) d v) \<noteq> None"
  by (induction "\<lambda>s. Some (f s)" d vs and "\<lambda>s. Some (f s)" d kvs and "\<lambda>s. Some (f s)" d v
      rule: walk_vals_walk_items_walk_val.induct)
    (auto split: prod.splits option.splits)

text \<open>Nothing but texts is rewritten: keys, nesting and every other value stay.\<close>

fun shape_vals :: "pyval list \<Rightarrow> pyval list"
  and shape_items :: "(string, pyval) dict \<Rightarrow> (string, pyval) dict"
  and shape :: "pyval \<Rightarrow> pyval"
where
  "shape_vals [] = []"
| "shape_vals (v # vs) = shape v # shape_vals vs"
| "shape_items [] = []"
| "shape_items ((k, v) # kvs) = (k, shape v) # shape_items kvs"
| "shape (VStr s) = VStr []"
| "shape (VDict kvs) = VDict (shape_items kvs)"
| "shape (VList vs) = VList (shape_vals vs)"
| "shape v = v"

lemma walk_shape:
  "shape_vals (snd (walk_vals fn d vs)) = shape_vals vs"
  "shape_items (snd (walk_items fn d kvs)) = shape_items kvs"
  "shape (snd (walk_val fn d v)) = shape v"
  by (induction fn d vs and fn d kvs and fn d v rule: walk_vals_walk_items_walk_val.induct)
    (auto split: prod.splits option.splits)

lemma walk_honest:
  "fst (walk_vals fn d vs) = Some False \<Longrightarrow> snd (walk_vals fn d vs) = vs"
  "fst (walk_items fn d kvs) = Some False \<Longrightarrow> snd (walk_items fn d kvs) = kvs"
  "fst (walk_val fn d v) = Some False \<Longrightarrow> snd (walk_val fn d v) = v"
  by (induction fn d vs and fn d kvs and fn d v rule: walk_vals_walk_items_walk_val.induct)
    (auto split: prod.splits option.splits if_splits)

lemma walk_strings_facts:
  "record_texts (snd (walk_strings (\<lambda>s. Some (f s)) kvs)) = map f (record_texts kvs)"
  "fst (walk_strings (\<lambda>s. Some (f s)) kvs) \<noteq> None"
  "shape_items (snd (walk_strings fn kvs)) = shape_items kvs"
  "fst (walk_strings fn kvs) = Some False \<Longrightarrow> snd (walk_strings fn kvs) = kvs"
  using walk_texts(2)[of 0 f kvs] walk_shape(2)[of fn 0 kvs] walk_honest(2)[of fn 0 kvs]
  by (auto simp: record_texts_def walk_strings_def)

section \<open>Every transform reports honestly\<close>

lemma raw_record_same [simp]: "e\<lparr>raw := raw e\<rparr> = e"
  by (cases e) simp

lemma honest_mask_raw_key: "honest (mask_raw_key x m path)"
  by (rule honestI) (auto simp: mask_raw_key_def Let_def split: if_splits option.splits)

lemma honest_pattern_column: "honest (pattern_column x p)"
  by (rule honestI) (auto simp: pattern_column_def split: if_splits option.splits pyval.splits)

lemma honest_pattern_raw: "honest (pattern_raw x p)"
  by (rule honestI) (auto simp: pattern_raw_def split: if_splits option.splits pyval.splits)

lemma honest_scrub_column: "honest (scrub_column fn n)"
  by (rule honestI) (auto simp: scrub_column_def split: if_splits pyval.splits)

lemma honest_walk_raw: "honest (walk_raw fn)"
proof (rule honestI)
  fix e e'
  assume w: "walk_raw fn e = (Some False, e')"
  then have "fst (walk_strings fn (raw e)) = Some False" "e' = e\<lparr>raw := snd (walk_strings fn (raw e))\<rparr>"
    by (auto simp: walk_raw_def split: prod.splits)
  then show "e' = e" using walk_strings_facts(4) by simp
qed

lemma honest_route_column: "honest (route_column n want)"
  by (rule honestI) (auto simp: route_column_def split: if_splits option.splits)

lemma honest_route_index: "honest (route_index want)"
  by (rule honestI) (auto simp: route_index_def split: if_splits option.splits)

lemmas honest_parts = honest_mask_raw_key honest_pattern_column honest_pattern_raw honest_scrub_column
  honest_walk_raw honest_route_column honest_route_index

lemma honest_apply_route: "honest (apply_route r)"
  unfolding apply_route_def by (rule honest_edits) (auto simp: honest_parts)

lemma honest_mask_edits: "honest (edits (mask_edits x m pairs))"
  by (rule honest_edits)
    (auto simp: mask_edits_def scrub_edits_def honest_parts split: if_splits)

lemma mask_column_none: "mask_column x m n e = (None, e') \<Longrightarrow> e' = e"
  by (auto simp: mask_column_def Let_def split: if_splits)

lemma mask_columns_none: "mask_columns x m ns e = ([], e') \<Longrightarrow> e' = e"
proof (induction ns arbitrary: e)
  case (Cons n ns)
  then obtain e1 where "mask_column x m n e = (None, e1)" "mask_columns x m ns e1 = ([], e')"
    by (auto split: prod.splits option.splits)
  then show ?case using Cons.IH mask_column_none by metis
qed simp

lemma honest_apply_mask: "honest (apply_mask x m)"
proof (rule honestI)
  fix e e'
  assume a: "apply_mask x m e = (Some False, e')"
  obtain pairs e1 where c: "mask_columns x m (mk_fields m) e = (pairs, e1)" by fastforce
  obtain r e2 where r: "edits (mask_edits x m pairs) e1 = (r, e2)" by fastforce
  from a c r have "pairs = []" "r = Some False" "e' = e2" by (auto simp: apply_mask_def)
  then show "e' = e" using mask_columns_none c r by (metis honestD honest_mask_edits)
qed

section \<open>The sweep reaches every text\<close>

lemma evt_get_raw_update [simp]: "n \<noteq> ''raw'' \<Longrightarrow> evt_get (e\<lparr>raw := d\<rparr>) n = evt_get e n"
  by (simp add: evt_get_def event_columns_def)

lemma text_fields_not_raw [simp]: "n \<in> set text_fields \<Longrightarrow> n \<noteq> ''raw''"
  by (auto simp: text_fields_def)

definition column_ok :: "(string \<Rightarrow> bool) \<Rightarrow> string \<Rightarrow> event \<Rightarrow> bool" where
  "column_ok P n e \<longleftrightarrow> (\<forall>s. evt_get e n = VStr s \<longrightarrow> P s)"

lemma scrub_column_ok:
  assumes P: "\<And>s. P (fn s)" "P []" and n: "n \<in> set text_fields"
  shows "column_ok P n (snd (scrub_column fn n e)) \<and> fst (scrub_column fn n e) \<noteq> None \<and>
    (column_ok P k e \<longrightarrow> column_ok P k (snd (scrub_column fn n e)))"
proof (cases "evt_get e n")
  case (VStr s)
  have eq: "evt_get (set_str n (Some (fn s)) e) k = (if k = n then VStr (fn s) else evt_get e k)" for k
    using n by (simp add: evt_get_set_str ostr_def)
  have "P s" if "fn s = s" using P(1)[of s] that by simp
  then show ?thesis using VStr P eq by (auto simp: scrub_column_def column_ok_def)
qed (auto simp: scrub_column_def column_ok_def)

lemma scrub_columns_ok:
  assumes P: "\<And>s. P (fn s)" "P []" and "set ns \<subseteq> set text_fields"
  shows "(\<forall>n\<in>set ns. column_ok P n (snd (edits (map (scrub_column fn) ns) e))) \<and>
    fst (edits (map (scrub_column fn) ns) e) \<noteq> None \<and>
    (\<forall>k. column_ok P k e \<longrightarrow> column_ok P k (snd (edits (map (scrub_column fn) ns) e)))"
  using assms(3)
proof (induction ns arbitrary: e)
  case (Cons n ns)
  have n: "n \<in> set text_fields" using Cons.prems by simp
  note sc = scrub_column_ok[where P = P and fn = fn, OF P n, of e]
  have "fst (scrub_column fn n e) \<noteq> None" using sc by blast
  then obtain b e1 where f: "scrub_column fn n e = (Some b, e1)"
    by (cases "scrub_column fn n e") auto
  have 1: "column_ok P n e1" "\<And>k. column_ok P k e \<Longrightarrow> column_ok P k e1"
    using sc unfolding f snd_conv by blast+
  have "snd (edits (map (scrub_column fn) (n # ns)) e) = snd (edits (map (scrub_column fn) ns) e1)"
      "fst (edits (map (scrub_column fn) (n # ns)) e) = None \<longleftrightarrow> fst (edits (map (scrub_column fn) ns) e1) = None"
    using f by (auto simp: and_then_def split: prod.splits)
  then show ?case using Cons.IH[of e1] Cons.prems 1 by auto
qed simp

lemma edits_append:
  "edits (fs @ gs) e =
     (case edits fs e of
        (None, e1) \<Rightarrow> (None, e1)
      | (Some b, e1) \<Rightarrow> (case edits gs e1 of (r, e2) \<Rightarrow> (map_option (\<lambda>c. b \<or> c) r, e2)))"
proof (induction fs arbitrary: e)
  case Nil
  obtain r e1 where "edits gs e = (r, e1)" by fastforce
  then show ?case by (cases r) simp_all
next
  case (Cons f fs)
  obtain r e1 where f: "f e = (r, e1)" by fastforce
  show ?case
  proof (cases r)
    case None
    then show ?thesis using f by (simp add: and_then_def)
  next
    case (Some b)
    obtain r2 e2 where e2: "edits fs e1 = (r2, e2)" by fastforce
    obtain r3 e3 where e3: "edits gs e2 = (r3, e3)" by fastforce
    show ?thesis using f Some e2 e3 Cons.IH[of e1]
      by (cases r2; cases r3) (auto simp: and_then_def)
  qed
qed

lemma sweep_clean:
  assumes P: "\<And>s. P (fn s)" "P []"
    and sweep: "edits (map (scrub_column fn) text_fields @ [walk_raw (\<lambda>s. Some (fn s))]) e = (r, e')"
  shows "r \<noteq> None \<and> (\<forall>n\<in>set text_fields. column_ok P n e') \<and> (\<forall>s\<in>set (record_texts (raw e')). P s)"
proof -
  note sc = scrub_columns_ok[where P = P and fn = fn, OF P subset_refl, of e]
  have "fst (edits (map (scrub_column fn) text_fields) e) \<noteq> None" using sc by blast
  then obtain b e1 where cols: "edits (map (scrub_column fn) text_fields) e = (Some b, e1)"
    by (cases "edits (map (scrub_column fn) text_fields) e") auto
  have ok: "\<forall>n\<in>set text_fields. column_ok P n e1" using sc unfolding cols snd_conv by blast
  obtain c d where w: "walk_strings (\<lambda>s. Some (fn s)) (raw e1) = (Some c, d)"
    using walk_strings_facts(2)[of fn "raw e1"] by (cases "walk_strings (\<lambda>s. Some (fn s)) (raw e1)") auto
  have e': "r = Some (b \<or> c)" "e' = e1\<lparr>raw := d\<rparr>"
    using sweep cols w by (auto simp: edits_append and_then_def walk_raw_def)
  have "record_texts d = map fn (record_texts (raw e1))"
    using walk_strings_facts(1)[of fn "raw e1"] w by simp
  then show ?thesis using e' ok P(1) by (auto simp: column_ok_def)
qed

section \<open>A masked value is gone\<close>

lemma mask_columns_text:
  assumes "\<not> mk_hash m" and "set ns \<subseteq> set text_fields" and "distinct ns"
    and "mask_columns x m ns e = (pairs, e')"
  shows "set pairs = {(s, mk_replacement m) |s n. n \<in> set ns \<and> evt_get e n = VStr s \<and> s \<noteq> []} \<and> raw e' = raw e"
  using assms(2-4)
proof (induction ns arbitrary: e pairs)
  case (Cons n ns)
  obtain got e1 ps where c: "mask_column x m n e = (got, e1)" "mask_columns x m ns e1 = (ps, e')"
      "pairs = (case got of None \<Rightarrow> ps | Some p \<Rightarrow> p # ps)"
    using Cons.prems(3) by (auto split: prod.splits)
  have n: "n \<notin> set int_fields" "n \<notin> set inet_fields" "n \<in> set text_fields"
    using Cons.prems(1) by (auto simp: text_fields_def int_fields_def inet_fields_def)
  have got: "got = (if filled (evt_get e n) then Some (pv_str (evt_get e n), mk_replacement m) else None)"
    and e1: "e1 = (if filled (evt_get e n) then set_str n (Some (mk_replacement m)) e else e)"
    using c(1) n(1,2) assms(1) by (auto simp: mask_column_def Let_def mask_text_def split: if_splits)
  have other: "evt_get e1 k = evt_get e k" if "k \<in> set ns" for k
    using that Cons.prems(2) n(3) e1 by (auto simp: evt_get_set_str)
  have v: "filled (evt_get e n) \<longleftrightarrow> (\<exists>s. evt_get e n = VStr s \<and> s \<noteq> [])"
    using evt_get_text[of n e] n(3) by (auto simp: filled_def ostr_def split: option.splits)
  have "(k \<in> set ns \<and> evt_get e1 k = VStr s \<and> s \<noteq> []) = (k \<in> set ns \<and> evt_get e k = VStr s \<and> s \<noteq> [])" for s k
    using other by auto
  then have ih: "set ps = {(s, mk_replacement m) |s k. k \<in> set ns \<and> evt_get e k = VStr s \<and> s \<noteq> []}"
      "raw e' = raw e1"
    using Cons.IH[OF _ _ c(2)] Cons.prems by simp_all
  show ?case
  proof (cases "filled (evt_get e n)")
    case True
    then obtain s where "evt_get e n = VStr s" "s \<noteq> []" using v by blast
    then show ?thesis using ih c(3) got e1 True by (auto simp: pv_str_def)
  next
    case False
    then show ?thesis using ih c(3) got e1 v by auto
  qed
qed simp

lemma mask_raw_keys_ok: "\<exists>b d. edits (map (mask_raw_key x m) ks) e = (Some b, e\<lparr>raw := d\<rparr>)"
proof (induction ks arbitrary: e)
  case Nil
  show ?case by (intro exI[of _ False] exI[of _ "raw e"]) simp
next
  case (Cons k ks)
  have "mask_raw_key x m k e = (Some False, e\<lparr>raw := raw e\<rparr>) \<or>
      (\<exists>d. mask_raw_key x m k e = (Some True, e\<lparr>raw := d\<rparr>))"
    by (auto simp: mask_raw_key_def Let_def split: option.splits)
  then obtain b d where "mask_raw_key x m k e = (Some b, e\<lparr>raw := d\<rparr>)" by blast
  moreover obtain c d' where "edits (map (mask_raw_key x m) ks) (e\<lparr>raw := d\<rparr>) = (Some c, e\<lparr>raw := d'\<rparr>)"
    using Cons.IH[of "e\<lparr>raw := d\<rparr>"] by auto
  ultimately show ?case by (auto simp: and_then_def)
qed

lemma mask_sweeps:
  assumes "mk_patterns m = []" and "mk_scrub m" and "mask_columns x m (mk_fields m) e = (pairs, e1)"
    and "pairs \<noteq> []" and P: "\<And>s. P (literal_scrubber pairs s)" "P []"
  shows "fst (apply_mask x m e) = Some True \<and>
    (\<forall>k\<in>set text_fields. column_ok P k (snd (apply_mask x m e))) \<and>
    (\<forall>s\<in>set (record_texts (raw (snd (apply_mask x m e)))). P s)"
proof -
  obtain b e2 where k: "edits (map (mask_raw_key x m) (mk_raw_keys m)) e1 = (Some b, e2)"
    using mask_raw_keys_ok by blast
  obtain r e3 where sw: "edits (map (scrub_column (literal_scrubber pairs)) text_fields
      @ [walk_raw (\<lambda>s. Some (literal_scrubber pairs s))]) e2 = (r, e3)"
    by (cases "edits (map (scrub_column (literal_scrubber pairs)) text_fields
      @ [walk_raw (\<lambda>s. Some (literal_scrubber pairs s))]) e2")
  have me: "mask_edits x m pairs = map (mask_raw_key x m) (mk_raw_keys m)
      @ (map (scrub_column (literal_scrubber pairs)) text_fields
      @ [walk_raw (\<lambda>s. Some (literal_scrubber pairs s))])"
    using assms(1,2,4) by (simp add: mask_edits_def scrub_edits_def)
  have "edits (mask_edits x m pairs) e1 = (map_option (\<lambda>c. b \<or> c) r, e3)"
    unfolding me edits_append[of "map (mask_raw_key x m) (mk_raw_keys m)"] k prod.case option.case sw ..
  then have "apply_mask x m e = (map_option (\<lambda>c. True) r, e3)"
    using assms(3,4) by (cases r) (auto simp: apply_mask_def)
  then show ?thesis using sweep_clean[where P = P, OF P sw] by (cases r) auto
qed

lemma text_column_filled:
  assumes "n \<in> set text_fields"
  shows "filled (evt_get e n) \<longleftrightarrow> (\<exists>s. evt_get e n = VStr s \<and> s \<noteq> [])"
  using evt_get_text[of n e] assms by (auto simp: filled_def ostr_def split: option.splits)

text \<open>The whole of a masked text column: redaction of the named columns, with the sweep on.\<close>

definition redacts :: "mask_spec \<Rightarrow> bool" where
  "redacts m \<longleftrightarrow> mk_scrub m \<and> \<not> mk_hash m \<and> mk_patterns m = [] \<and> distinct (mk_fields m) \<and>
     set (mk_fields m) \<subseteq> set text_fields \<and> mk_replacement m \<noteq> []"

lemma short_value_removed:
  assumes "redacts m" and "mk_fields m = [n]" and "evt_get e n = VStr v" and "v \<noteq> []"
    and "length v < min_substring_len" and "set v \<inter> set (mk_replacement m) = {}"
  shows "fst (apply_mask x m e) = Some True \<and>
    (\<forall>k\<in>set text_fields. column_ok (\<lambda>s. \<not> whole_token v s) k (snd (apply_mask x m e))) \<and>
    (\<forall>s\<in>set (record_texts (raw (snd (apply_mask x m e)))). \<not> whole_token v s)"
proof -
  have n: "n \<in> set text_fields" "n \<notin> set int_fields" "n \<notin> set inet_fields"
    using assms(1,2) by (auto simp: redacts_def text_fields_def int_fields_def inet_fields_def)
  have c: "mask_columns x m (mk_fields m) e = ([(v, mk_replacement m)], set_str n (Some (mk_replacement m)) e)"
    using assms(1-4) n by (simp add: mask_column_def mask_text_def filled_def redacts_def)
  have r: "\<not> whole_token v (mk_replacement m)"
    using sublist_disjoint[OF assms(6,4)] by (auto simp: whole_token_def sublist_def)
  have "\<not> whole_token v (literal_scrubber [(v, mk_replacement m)] s)" for s
    using token_sub_clean[OF assms(6,4)] r assms(1,4,5)
    by (simp add: literal_scrubber_def scrub_one_def redacts_def)
  moreover have "\<not> whole_token v []" using assms(4) by (simp add: whole_token_def)
  ultimately show ?thesis
    using mask_sweeps[where P = "\<lambda>s. \<not> whole_token v s", OF _ _ c] assms(1) by (auto simp: redacts_def)
qed

section \<open>Typed columns stay typed\<close>

text \<open>The address a hash stands for lies in 100.64.0.0/10, whatever the hash is.\<close>

lemma pseudo_ip_address:
  "\<exists>k. pseudo_ip x v salt = ip_str (IPv4 k) \<and> pseudo_net_base \<le> k \<and> k < pseudo_net_base + 2 ^ pseudo_net_bits"
proof -
  let ?k = "pseudo_net_base + hex_int (hash_value x v salt 16) mod 2 ^ pseudo_net_bits"
  have "pseudo_net_base \<le> ?k" "?k < pseudo_net_base + 2 ^ pseudo_net_bits" by simp_all
  then show ?thesis by (auto simp: pseudo_ip_def)
qed

text \<open>What an address column may hold after a mask, given what it held before.\<close>

definition address_after :: "mask_spec \<Rightarrow> pyval \<Rightarrow> pyval \<Rightarrow> bool" where
  "address_after m old new \<longleftrightarrow>
     new = old \<or> new = ostr (mk_inet_replacement m) \<or>
     (\<exists>k. new = VStr (ip_str (IPv4 k)) \<and> pseudo_net_base \<le> k \<and> k < pseudo_net_base + 2 ^ pseudo_net_bits)"

lemma mask_column_address:
  assumes "a \<in> set inet_fields" and "n \<in> set maskable_fields"
  shows "address_after m (evt_get e a) (evt_get (snd (mask_column x m n e)) a)"
proof -
  have a: "a \<notin> set int_fields" "a \<notin> set text_fields"
    using assms(1) by (auto simp: column_names)
  show ?thesis
  proof (cases "filled (evt_get e n)")
    case False
    then show ?thesis by (simp add: mask_column_def address_after_def)
  next
    case True
    show ?thesis
    proof (cases "n = a")
      case False
      then have "evt_get (snd (mask_column x m n e)) a = evt_get e a"
        using True assms a by (auto simp: mask_column_def Let_def maskable_fields_def evt_get_set_str evt_get_set_int)
      then show ?thesis by (simp add: address_after_def)
    next
      case n: True
      obtain k where "pseudo_ip x (pv_str (evt_get e a)) (mk_salt m) = ip_str (IPv4 k)"
          "pseudo_net_base \<le> k" "k < pseudo_net_base + 2 ^ pseudo_net_bits"
        using pseudo_ip_address by blast
      then show ?thesis using True n assms(1) a
        by (auto simp: mask_column_def Let_def evt_get_set_str address_after_def ostr_def)
    qed
  qed
qed

lemma address_after_trans: "address_after m u v \<Longrightarrow> address_after m v w \<Longrightarrow> address_after m u w"
  by (auto simp: address_after_def)

lemma mask_columns_address:
  assumes "a \<in> set inet_fields" and "set ns \<subseteq> set maskable_fields"
  shows "address_after m (evt_get e a) (evt_get (snd (mask_columns x m ns e)) a)"
  using assms(2)
proof (induction ns arbitrary: e)
  case Nil
  show ?case by (simp add: address_after_def)
next
  case (Cons n ns)
  obtain got e1 where c: "mask_column x m n e = (got, e1)" by fastforce
  have "address_after m (evt_get e a) (evt_get e1 a)"
    using mask_column_address[OF assms(1), of n m e x] Cons.prems c by simp
  moreover have "address_after m (evt_get e1 a) (evt_get (snd (mask_columns x m ns e1)) a)"
    using Cons.IH Cons.prems by simp
  ultimately have "address_after m (evt_get e a) (evt_get (snd (mask_columns x m ns e1)) a)"
    by (rule address_after_trans)
  then show ?case using c by (cases "mask_columns x m ns e1") simp
qed

definition column_is :: "string \<Rightarrow> pyval \<Rightarrow> event \<Rightarrow> bool" where
  "column_is a c e \<longleftrightarrow> evt_get e a = c"

lemma keeps_column:
  assumes "a \<noteq> ''raw''"
  shows "keeps (column_is a c) (mask_raw_key x m path)"
    and "keeps (column_is a c) (walk_raw f)"
    and "keeps (column_is a c) (pattern_raw x p)"
    and "n \<in> set text_fields \<Longrightarrow> n \<noteq> a \<Longrightarrow> keeps (column_is a c) (scrub_column fn n)"
    and "ps_field p \<in> set text_fields \<or> ps_field p = [] \<Longrightarrow> ps_field p \<noteq> a \<Longrightarrow>
      keeps (column_is a c) (pattern_column x p)"
  using assms
  by (auto intro!: keepsI simp: column_is_def mask_raw_key_def walk_raw_def pattern_raw_def scrub_column_def
      pattern_column_def Let_def evt_get_set_str split: prod.splits option.splits pyval.splits if_splits)

text \<open>Every target is a maskable column, and a pattern's target is text: what the loader admits.\<close>

definition mask_wf :: "mask_spec \<Rightarrow> bool" where
  "mask_wf m \<longleftrightarrow> set (mk_fields m) \<subseteq> set maskable_fields \<and>
     (\<forall>p\<in>set (mk_patterns m). ps_field p = [] \<or> ps_field p \<in> set text_fields)"

lemma mask_edits_keep_address:
  assumes "mask_wf m" and "a \<in> set inet_fields"
  shows "keeps (column_is a c) (edits (mask_edits x m pairs))"
proof (rule keeps_edits)
  have a: "a \<noteq> ''raw''" "a \<notin> set text_fields" "a \<noteq> []" using assms(2) by (auto simp: column_names)
  fix f assume f: "f \<in> set (mask_edits x m pairs)"
  then consider path where "f = mask_raw_key x m path" | p where "p \<in> set (mk_patterns m)" "f = pattern_column x p"
    | p where "f = pattern_raw x p" | n fn where "n \<in> set text_fields" "f = scrub_column fn n" | g where "f = walk_raw g"
    by (auto simp: mask_edits_def scrub_edits_def split: if_splits)
  then show "keeps (column_is a c) f"
  proof cases
    case (2 p)
    have p: "ps_field p \<in> set text_fields \<or> ps_field p = []" using assms(1) 2(1) by (auto simp: mask_wf_def)
    then have "ps_field p \<noteq> a" using a(2,3) by auto
    then show ?thesis unfolding 2(2) by (rule keeps_column(5)[OF a(1) p])
  next
    case (4 n fn)
    then show ?thesis using a keeps_column(4)[OF a(1)] by auto
  qed (auto intro: keeps_column[OF a(1)])
qed

lemma apply_mask_address:
  assumes "mask_wf m" and "a \<in> set inet_fields"
  shows "address_after m (evt_get e a) (evt_get (snd (apply_mask x m e)) a)"
proof -
  obtain pairs e1 where c: "mask_columns x m (mk_fields m) e = (pairs, e1)" by fastforce
  obtain r e2 where r: "edits (mask_edits x m pairs) e1 = (r, e2)" by fastforce
  have "evt_get e2 a = evt_get e1 a"
    using mask_edits_keep_address[OF assms, of "evt_get e1 a" x pairs] r
    by (auto simp: keeps_def column_is_def)
  moreover have "address_after m (evt_get e a) (evt_get e1 a)"
    using mask_columns_address[OF assms(2), of "mk_fields m" m e x] assms(1) c by (simp add: mask_wf_def)
  ultimately show ?thesis using c r by (simp add: apply_mask_def)
qed

section \<open>Every masked value is swept out\<close>

text \<open>What may stand for a value that was masked, in the type of its column.\<close>

definition placeholders :: "mask_spec \<Rightarrow> string list" where
  "placeholders m =
     [mk_replacement m] @ (case mk_inet_replacement m of None \<Rightarrow> [] | Some t \<Rightarrow> [t]) @
     (case mk_int_replacement m of None \<Rightarrow> [] | Some i \<Rightarrow> [int_str i])"

text \<open>Redaction of any columns a mask may name, with the sweep on and no patterns of its own.\<close>

definition sweeps :: "mask_spec \<Rightarrow> bool" where
  "sweeps m \<longleftrightarrow> mk_scrub m \<and> \<not> mk_hash m \<and> mk_patterns m = [] \<and> distinct (mk_fields m) \<and>
     set (mk_fields m) \<subseteq> set maskable_fields"

lemma mask_column_pair:
  assumes "\<not> mk_hash m" and "n \<in> set maskable_fields" and "mask_column x m n e = (got, e1)"
  shows "got = None \<longleftrightarrow> \<not> filled (evt_get e n)"
    and "got = Some p \<Longrightarrow> fst p = pv_str (evt_get e n) \<and> snd p \<in> set (placeholders m)"
    and "n \<in> set inet_fields \<Longrightarrow> filled (evt_get e n) \<Longrightarrow> evt_get e1 n = ostr (mk_inet_replacement m)"
    and "k \<noteq> n \<Longrightarrow> evt_get e1 k = evt_get e k"
proof -
  have apart: "n \<in> set int_fields \<Longrightarrow> n \<notin> set inet_fields \<and> n \<notin> set text_fields"
    by (auto simp: column_names)
  show "got = None \<longleftrightarrow> \<not> filled (evt_get e n)"
    using assms(3) by (auto simp: mask_column_def Let_def split: if_splits)
  show "got = Some p \<Longrightarrow> fst p = pv_str (evt_get e n) \<and> snd p \<in> set (placeholders m)"
    using assms(1,3) by (auto simp: mask_column_def Let_def placeholders_def mask_text_def split: if_splits option.splits)
  show "n \<in> set inet_fields \<Longrightarrow> filled (evt_get e n) \<Longrightarrow> evt_get e1 n = ostr (mk_inet_replacement m)"
    using assms(1,3) apart by (auto simp: mask_column_def Let_def evt_get_set_str split: if_splits)
  show "k \<noteq> n \<Longrightarrow> evt_get e1 k = evt_get e k"
    using assms(2,3) by (auto simp: mask_column_def Let_def maskable_fields_def evt_get_set_str evt_get_set_int split: if_splits)
qed

lemma mask_columns_pairs:
  assumes "\<not> mk_hash m" and "set ns \<subseteq> set maskable_fields" and "distinct ns" and "mask_columns x m ns e = (pairs, e')"
  shows "snd ` set pairs \<subseteq> set (placeholders m) \<and>
    (\<forall>n\<in>set ns. filled (evt_get e n) \<longrightarrow> (\<exists>r. (pv_str (evt_get e n), r) \<in> set pairs)) \<and>
    (\<forall>n\<in>set ns. n \<in> set inet_fields \<longrightarrow> filled (evt_get e n) \<longrightarrow> evt_get e' n = ostr (mk_inet_replacement m)) \<and>
    (\<forall>k. k \<notin> set ns \<longrightarrow> evt_get e' k = evt_get e k)"
  using assms(2-4)
proof (induction ns arbitrary: e pairs)
  case (Cons n ns)
  obtain got e1 ps where c: "mask_column x m n e = (got, e1)" "mask_columns x m ns e1 = (ps, e')"
      "pairs = (case got of None \<Rightarrow> ps | Some p \<Rightarrow> p # ps)"
    using Cons.prems(3) by (auto split: prod.splits)
  have n: "n \<in> set maskable_fields" "n \<notin> set ns" using Cons.prems(1,2) by simp_all
  note f = mask_column_pair[OF assms(1) n(1) c(1)]
  have other: "evt_get e1 k = evt_get e k" if "k \<in> set ns" for k using f(4)[of k] n(2) that by auto
  note ih = Cons.IH[OF _ _ c(2)]
  have ih: "snd ` set ps \<subseteq> set (placeholders m)"
      "\<And>k. k \<in> set ns \<Longrightarrow> filled (evt_get e k) \<Longrightarrow> \<exists>r. (pv_str (evt_get e k), r) \<in> set ps"
      "\<And>k. k \<in> set ns \<Longrightarrow> k \<in> set inet_fields \<Longrightarrow> filled (evt_get e k) \<Longrightarrow> evt_get e' k = ostr (mk_inet_replacement m)"
      "\<And>k. k \<notin> set ns \<Longrightarrow> evt_get e' k = evt_get e1 k"
    using Cons.IH[OF _ _ c(2)] Cons.prems other by auto
  have p1: "snd ` set pairs \<subseteq> set (placeholders m)"
    using ih(1) f(2) c(3) by (cases got) auto
  have p2: "\<exists>r. (pv_str (evt_get e k), r) \<in> set pairs" if k: "k \<in> set (n # ns)" "filled (evt_get e k)" for k
  proof (cases "k = n")
    case True
    then obtain q where "got = Some q" using f(1) k(2) by (cases got) auto
    then show ?thesis using f(2) c(3) True by (cases q) auto
  next
    case False
    then show ?thesis using ih(2)[of k] k c(3) by (cases got) auto
  qed
  have p3: "evt_get e' k = ostr (mk_inet_replacement m)" if k: "k \<in> set (n # ns)" "k \<in> set inet_fields" "filled (evt_get e k)" for k
    using k ih(3)[of k] ih(4)[of n] f(3) n(2) by (cases "k = n") auto
  have p4: "evt_get e' k = evt_get e k" if k: "k \<notin> set (n # ns)" for k
    using k ih(4)[of k] f(4)[of k] by simp
  show ?case using p1 p2 p3 p4 by blast
qed simp

lemma swept_value_removed:
  assumes "sweeps m" and "n \<in> set (mk_fields m)" and "evt_get e n = VStr v" and "min_substring_len \<le> length v"
    and "list_all (\<lambda>r. r \<noteq> [] \<and> set v \<inter> set r = {}) (placeholders m)"
  shows "fst (apply_mask x m e) = Some True \<and>
    (\<forall>k\<in>set (n # text_fields). column_ok (\<lambda>s. \<not> sublist v s) k (snd (apply_mask x m e))) \<and>
    (\<forall>s\<in>set (record_texts (raw (snd (apply_mask x m e)))). \<not> sublist v s)"
proof -
  obtain pairs e1 where c: "mask_columns x m (mk_fields m) e = (pairs, e1)"
    by (cases "mask_columns x m (mk_fields m) e")
  have v: "v \<noteq> []" using assms(4) by (auto simp: min_substring_len_def)
  have full: "filled (evt_get e n)" and pv: "pv_str (evt_get e n) = v" using assms(3) v by (simp_all add: filled_def pv_str_def)
  note ps = mask_columns_pairs[OF _ _ _ c]
  have ps: "snd ` set pairs \<subseteq> set (placeholders m)" "\<exists>r. (v, r) \<in> set pairs"
      "n \<in> set inet_fields \<Longrightarrow> evt_get e1 n = ostr (mk_inet_replacement m)"
    using mask_columns_pairs[OF _ _ _ c] assms(1,2) full pv by (auto simp: sweeps_def)
  then obtain r where p: "(v, r) \<in> set pairs" by blast
  have "spares v pairs" using ps(1) assms(5) by (fastforce simp: spares_def list_all_iff)
  then have "\<not> sublist v (literal_scrubber pairs s)" for s
    using literal_scrubber_clean[of "(v, r)" pairs s] p assms(4) by simp
  moreover have "pairs \<noteq> []" using p by auto
  ultimately have sweep: "fst (apply_mask x m e) = Some True \<and>
    (\<forall>k\<in>set text_fields. column_ok (\<lambda>s. \<not> sublist v s) k (snd (apply_mask x m e))) \<and>
    (\<forall>s\<in>set (record_texts (raw (snd (apply_mask x m e)))). \<not> sublist v s)"
    using mask_sweeps[where P = "\<lambda>s. \<not> sublist v s", OF _ _ c] assms(1) v by (simp add: sweeps_def)
  have "column_ok (\<lambda>s. \<not> sublist v s) n (snd (apply_mask x m e))"
  proof (cases "n \<in> set text_fields")
    case False
    have "n \<in> set maskable_fields" using assms(1,2) by (auto simp: sweeps_def)
    moreover have "n \<notin> set int_fields"
      using assms(3) by (auto simp: int_fields_def evt_get_def pv_get_def event_columns_def dict_get_def oint_def split: option.splits)
    ultimately have inet: "n \<in> set inet_fields" using False by (auto simp: maskable_fields_def)
    obtain r2 e2 where e2: "edits (mask_edits x m pairs) e1 = (r2, e2)" by fastforce
    have "mask_wf m" using assms(1) by (simp add: mask_wf_def sweeps_def)
    then have "evt_get e2 n = evt_get e1 n"
      using mask_edits_keep_address[OF _ inet, of m "evt_get e1 n" x pairs] e2 by (auto simp: keeps_def column_is_def)
    then have "evt_get (snd (apply_mask x m e)) n = ostr (mk_inet_replacement m)"
      using c e2 ps(3)[OF inet] by (simp add: apply_mask_def)
    moreover have "\<not> sublist v t" if "mk_inet_replacement m = Some t" for t
      using assms(5) that sublist_disjoint[OF _ v, of t] by (simp add: placeholders_def)
    ultimately show ?thesis by (auto simp: column_ok_def ostr_def split: option.splits)
  qed (use sweep in blast)
  then show ?thesis using sweep by simp
qed

text \<open>No transform of a mask touches the time of an event or its vendor.\<close>

lemma keeps_frame:
  "keeps (\<lambda>e. vendor e = w \<and> event_time e = t) (mask_raw_key x m path)"
  "keeps (\<lambda>e. vendor e = w \<and> event_time e = t) (walk_raw f)"
  "keeps (\<lambda>e. vendor e = w \<and> event_time e = t) (pattern_raw x p)"
  "n \<noteq> ''vendor'' \<Longrightarrow> keeps (\<lambda>e. vendor e = w \<and> event_time e = t) (scrub_column fn n)"
  "ps_field p \<noteq> ''vendor'' \<Longrightarrow> keeps (\<lambda>e. vendor e = w \<and> event_time e = t) (pattern_column x p)"
  by (auto intro!: keepsI simp: mask_raw_key_def walk_raw_def pattern_raw_def scrub_column_def
      pattern_column_def Let_def split: prod.splits option.splits pyval.splits if_splits)

section \<open>Properties\<close>

definition demo_mask :: mask_spec where
  "demo_mask = \<lparr>mk_fields = [''user_name''], mk_raw_keys = [], mk_patterns = [], mk_replacement = ''***'', mk_hash = False,
     mk_salt = [], mk_scrub = True, mk_inet_replacement = None, mk_int_replacement = None\<rparr>"

definition wide_mask :: mask_spec where
  "wide_mask = demo_mask\<lparr>mk_fields := [''user_name'', ''src_ip'', ''src_port'']\<rparr>"

definition demo_login :: "string \<Rightarrow> event" where
  "demo_login u = (bare_event ''acme'')\<lparr>user_name := Some u, message := Some (''login '' @ u @ '' ok''), src_ip := Some ''10.1.2.3'',
     raw := [(''user'', VStr u), (''path'', VList [VStr (''/home/'' @ u)])]\<rparr>"

definition demo_sha :: externals where
  "demo_sha = \<lparr>x_sha = (\<lambda>s. s), x_iso = (\<lambda>t. int_str t), x_dumps = (\<lambda>_. []), x_sub = (\<lambda>_ _ s. Some s),
     x_search = (\<lambda>_ _ _. None), x_cim = (\<lambda>_. (0, None))\<rparr>"

text \<open>C32: Redacting with the sweep on and without patterns, a mask removes the value of each text or address column it names, if it has at least eight characters: the value occurs as a substring neither in that column, nor in any text column, nor in any text of the raw record down to the sixteen levels of nesting that the sweep walks, whatever other columns of text, addresses or numbers the mask names, as long as none of its placeholders is empty or shares a character with the value.\<close>

theorem masked_value_is_gone:
  assumes "sweeps m" and "n \<in> set (mk_fields m)" and "evt_get e n = VStr v"
    and "min_substring_len \<le> length v" and "list_all (\<lambda>r. r \<noteq> [] \<and> set v \<inter> set r = {}) (placeholders m)"
  shows "fst (apply_mask x m e) = Some True \<and>
    (\<forall>k\<in>set (n # text_fields). column_ok (\<lambda>s. \<not> sublist v s) k (snd (apply_mask x m e))) \<and>
    (\<forall>s\<in>set (record_texts (raw (snd (apply_mask x m e)))). \<not> sublist v s)"
  using assms by (rule swept_value_removed)

theorem masked_value_is_gone_witness:
  "sweeps wide_mask \<and> fst (apply_mask demo_sha wide_mask (demo_login ''alice.smith'')) = Some True \<and>
    list_all (\<lambda>s. \<not> sublist ''alice.smith'' s)
      (record_texts (raw (snd (apply_mask demo_sha wide_mask (demo_login ''alice.smith'')))))"
proof -
  have m: "sweeps wide_mask" by (simp add: sweeps_def wide_mask_def demo_mask_def maskable_fields_def text_fields_def inet_fields_def int_fields_def)
  have u: "evt_get (demo_login ''alice.smith'') ''user_name'' = VStr ''alice.smith''" by code_simp
  have f: "''user_name'' \<in> set (mk_fields wide_mask)" "min_substring_len \<le> length ''alice.smith''"
      "list_all (\<lambda>r. r \<noteq> [] \<and> set ''alice.smith'' \<inter> set r = {}) (placeholders wide_mask)"
    by (simp_all add: wide_mask_def demo_mask_def min_substring_len_def placeholders_def)
  from masked_value_is_gone[OF m f(1) u f(2,3), of demo_sha] m show ?thesis unfolding list_all_iff by blast
qed

text \<open>A redacted value shorter than eight characters is removed wherever it stands as a whole token, and nothing else is: no text column and no text of the raw record still holds it between non-word characters.\<close>

lemma short_masked_value_is_gone:
  assumes "redacts m" and "mk_fields m = [n]" and "evt_get e n = VStr v" and "v \<noteq> []"
    and "length v < min_substring_len" and "set v \<inter> set (mk_replacement m) = {}"
  shows "fst (apply_mask x m e) = Some True \<and>
    (\<forall>k\<in>set text_fields. column_ok (\<lambda>s. \<not> whole_token v s) k (snd (apply_mask x m e))) \<and>
    (\<forall>s\<in>set (record_texts (raw (snd (apply_mask x m e)))). \<not> whole_token v s)"
  using assms by (rule short_value_removed)

lemma short_masked_value_is_gone_example:
  "list_all (\<lambda>s. \<not> whole_token ''bob'' s)
     (record_texts (raw (snd (apply_mask demo_sha demo_mask (demo_login ''bob'')))))"
proof -
  have m: "redacts demo_mask" by (simp add: redacts_def demo_mask_def text_fields_def)
  have u: "evt_get (demo_login ''bob'') ''user_name'' = VStr ''bob''" by code_simp
  have f: "mk_fields demo_mask = [''user_name'']" "''bob'' \<noteq> []" "length ''bob'' < min_substring_len"
      "set ''bob'' \<inter> set (mk_replacement demo_mask) = {}"
    by (simp_all add: demo_mask_def min_substring_len_def)
  from short_masked_value_is_gone[OF m f(1) u f(2-4), of demo_sha] show ?thesis unfolding list_all_iff by blast
qed

end
