(* ===== verification/IngestLoad.thy ===== *)
theory IngestLoad
  imports IngestScrub "HOL-Library.Product_Lexorder"
begin

text \<open>
  Loading ingest actions (\<open>app/ingest_actions.py\<close>, \<open>_compile_pattern\<close> to \<open>load_actions\<close>): every check
  of a rule document, the specification it becomes, and the loader over files. A rejected document is
  \<^term>\<open>ActionError\<close>; an exception the checks do not foresee is \<^term>\<open>Raised\<close>, and the loader catches
  only the first.

  Parameters: whether \<open>re.compile\<close> takes a pattern, \<open>float\<close> on text, \<open>int\<close> on a float, and the basis
  points of a percentage.
\<close>

record loader =
  l_re_ok :: "string \<Rightarrow> bool"
  l_float :: "string \<Rightarrow> string option"
  l_trunc :: "string \<Rightarrow> py_error + int"
  l_basis_points :: "string \<Rightarrow> int option"  \<comment> \<open>\<open>round(pct * 100)\<close> if \<open>0 < pct <= 100\<close>\<close>

datatype load_error = ActionError | Raised py_error

definition require :: "bool \<Rightarrow> load_error + unit" where
  "require b = (if b then Inr () else Inl ActionError)"

lemma require_Inr [simp]: "require b = Inr u \<longleftrightarrow> b"
  by (simp add: require_def)

definition raised :: "py_error + 'a \<Rightarrow> load_error + 'a" where
  "raised r = (case r of Inl e \<Rightarrow> Inl (Raised e) | Inr v \<Rightarrow> Inr v)"

lemma raised_Inr [simp]: "raised r = Inr v \<longleftrightarrow> r = Inr v"
  by (cases r) (simp_all add: raised_def)

definition pv_get_or :: "(string, pyval) dict \<Rightarrow> string \<Rightarrow> pyval \<Rightarrow> pyval" where
  "pv_get_or d k dflt = (case dict_get d k of None \<Rightarrow> dflt | Some v \<Rightarrow> v)"

section \<open>Coercions\<close>

definition strip_char :: "char \<Rightarrow> string \<Rightarrow> string" where
  "strip_char c s = rev (dropWhile (\<lambda>d. d = c) (rev (dropWhile (\<lambda>d. d = c) s)))"

definition int64_min :: int where "int64_min = - (2 ^ 63)"
definition int64_max :: int where "int64_max = 2 ^ 63 - 1"

definition to_int :: "pyval \<Rightarrow> int option" where
  "to_int v =
     (if v = VNone \<or> v = VStr [] then None
      else (case py_int (strip_char (CHR 34) (strip (pv_str v))) of
              None \<Rightarrow> None
            | Some n \<Rightarrow> if int64_min \<le> n \<and> n \<le> int64_max then Some n else None))"

definition to_port :: "pyval \<Rightarrow> int option" where
  "to_port v = (case to_int v of None \<Rightarrow> None | Some n \<Rightarrow> if 0 \<le> n \<and> n \<le> 65535 then Some n else None)"

text \<open>\<open>int(v)\<close> and \<open>float(v)\<close>.\<close>

definition py_int_of :: "loader \<Rightarrow> pyval \<Rightarrow> py_error + int" where
  "py_int_of l v =
     (case v of VInt i \<Rightarrow> Inr i | VBool b \<Rightarrow> Inr (if b then 1 else 0) | VFloat t \<Rightarrow> l_trunc l t
      | VStr s \<Rightarrow> (case py_int s of None \<Rightarrow> Inl ValueError | Some i \<Rightarrow> Inr i)
      | _ \<Rightarrow> Inl TypeError)"

text \<open>The sampling numerator of a percentage: \<^term>\<open>Inr None\<close> when it is out of range.\<close>

definition percent_of :: "loader \<Rightarrow> pyval \<Rightarrow> py_error + int option" where
  "percent_of l v =
     (let whole = (\<lambda>i::int. if 2 ^ 1024 - 2 ^ 970 \<le> \<bar>i\<bar> then Inl OverflowError
                            else Inr (if 0 < i \<and> i \<le> 100 then Some (i * 100) else None)) in
      case v of VInt i \<Rightarrow> whole i | VBool b \<Rightarrow> whole (if b then 1 else 0)
      | VFloat t \<Rightarrow> Inr (l_basis_points l t)
      | VStr s \<Rightarrow> (case l_float l s of None \<Rightarrow> Inl ValueError | Some t \<Rightarrow> Inr (l_basis_points l t))
      | _ \<Rightarrow> Inl TypeError)"

definition foreseen :: "py_error \<Rightarrow> bool" where
  "foreseen e \<longleftrightarrow> e = TypeError \<or> e = ValueError"

text \<open>\<open>except (TypeError, ValueError): raise ActionError\<close>.\<close>

definition guarded :: "py_error + 'a \<Rightarrow> load_error + 'a" where
  "guarded r = (case r of Inl e \<Rightarrow> Inl (if foreseen e then ActionError else Raised e) | Inr v \<Rightarrow> Inr v)"

lemma guarded_Inr [simp]: "guarded r = Inr v \<longleftrightarrow> r = Inr v"
  by (cases r) (simp_all add: guarded_def)

section \<open>Masks\<close>

definition max_pattern_chars :: nat where "max_pattern_chars = 512"

text \<open>\<open>_CATASTROPHIC_RE\<close>: a group without inner groups that holds a quantifier and has one behind it.\<close>

definition nested_group :: "string \<Rightarrow> bool" where
  "nested_group s =
     (let body = takeWhile (\<lambda>c. c \<noteq> CHR ''('' \<and> c \<noteq> CHR '')'') s;
          rest = drop (length body) s
      in rest \<noteq> [] \<and> hd rest = CHR '')'' \<and> (CHR ''+'' \<in> set body \<or> CHR ''*'' \<in> set body) \<and>
         lstrip (tl rest) \<noteq> [] \<and> hd (lstrip (tl rest)) \<in> {CHR ''+'', CHR ''*''})"

fun catastrophic :: "string \<Rightarrow> bool" where
  "catastrophic [] = False"
| "catastrophic (c # cs) = (c = CHR ''('' \<and> nested_group cs \<or> catastrophic cs)"

definition compile_pattern :: "loader \<Rightarrow> pyval \<Rightarrow> string \<Rightarrow> load_error + pattern_spec" where
  "compile_pattern l spec default_replacement =
     (case spec of
        VDict d \<Rightarrow>
          (let expr = pv_or (pv_get d ''regex'') (pv_get d ''re'');
               field = pv_str (pv_or (pv_get d ''field'') (VStr []));
               path = (if pv_get d ''raw'' = VNone then [] else raw_path (pv_get d ''raw'')) in
           sbind (require (pv_truthy expr)) (\<lambda>_.
           sbind (require (length (pv_str expr) \<le> max_pattern_chars)) (\<lambda>_.
           sbind (require (\<not> catastrophic (pv_str expr))) (\<lambda>_.
           sbind (require (l_re_ok l (pv_str expr))) (\<lambda>_.
           sbind (require (field \<noteq> [] \<or> path \<noteq> [])) (\<lambda>_.
           sbind (require (field = [] \<or> field \<in> set maskable_fields)) (\<lambda>_.
           sbind (require (field \<notin> set inet_fields \<and> field \<notin> set int_fields)) (\<lambda>_.
             Inr \<lparr>ps_regex = pv_str expr,
                  ps_replacement = pv_str (pv_get_or d ''replacement'' (VStr default_replacement)),
                  ps_field = field, ps_raw_path = path\<rparr>))))))))
      | _ \<Rightarrow> Inl ActionError)"

text \<open>\<open>v or []\<close>, where one text stands for the list of it.\<close>

definition names_of :: "pyval \<Rightarrow> load_error + pyval list" where
  "names_of v = (case v of VStr s \<Rightarrow> Inr (if s = [] then [] else [v]) | _ \<Rightarrow> raised (pv_iter v))"

definition mask_from :: "loader \<Rightarrow> (string, pyval) dict \<Rightarrow> load_error + mask_spec" where
  "mask_from l doc =
     (case pv_or (pv_get doc ''mask'') (VDict []) of
        VDict m \<Rightarrow>
          (let replacement = pv_str (pv_get_or m ''replacement'' (VStr ''***''));
               mode = lower (strip (pv_str (pv_or (pv_get m ''mode'') (VStr ''redact'')))) in
           sbind (require (mode \<in> {''redact'', ''hash''})) (\<lambda>_.
           sbind (names_of (pv_get m ''fields'')) (\<lambda>fs.
           sbind (require (set (map pv_str fs) \<subseteq> set maskable_fields)) (\<lambda>_.
           sbind (names_of (pv_get m ''raw_keys'')) (\<lambda>ks.
           sbind (case pv_get m ''patterns'' of
                    VDict d \<Rightarrow> Inr (if d = [] then [] else [VDict d]) | v \<Rightarrow> raised (pv_iter v)) (\<lambda>pats.
           sbind (map_res (\<lambda>p. compile_pattern l p replacement) pats) (\<lambda>patterns.
           sbind (require (fs \<noteq> [] \<or> ks \<noteq> [] \<or> patterns \<noteq> [])) (\<lambda>_.
             Inr \<lparr>mk_fields = map pv_str fs, mk_raw_keys = map raw_path ks, mk_patterns = patterns,
                  mk_replacement = replacement, mk_hash = (mode = ''hash''),
                  mk_salt = pv_str (pv_or (pv_get m ''salt'') (VStr [])),
                  mk_scrub = pv_truthy (pv_get_or m ''scrub'' (pv_get_or m ''scrub_raw'' (VBool True))),
                  mk_inet_replacement = map_option ip_str (ip_address (strip replacement)),
                  mk_int_replacement = to_int (VStr replacement)\<rparr>))))))))
      | _ \<Rightarrow> Inl ActionError)"

section \<open>Routes and samples\<close>

definition routable_fields :: "string list" where
  "routable_fields = [''vendor'', ''product'', ''log_type'']"

definition route_value :: "(string, pyval) dict \<Rightarrow> string \<Rightarrow> string option" where
  "route_value r k = (if pv_get r k = VNone then None else Some (pv_str (pv_get r k)))"

definition route_from :: "(string, pyval) dict \<Rightarrow> load_error + route_spec" where
  "route_from doc =
     (case pv_or (pv_get doc ''route'') (VDict []) of
        VDict r \<Rightarrow>
          sbind (require (fst ` set r \<subseteq> set (routable_fields @ [''index'']))) (\<lambda>_.
          sbind (require (list_ex (\<lambda>k. route_value r k \<noteq> None \<and> route_value r k \<noteq> Some [])
                   (routable_fields @ [''index'']))) (\<lambda>_.
            Inr \<lparr>rt_vendor = route_value r ''vendor'', rt_product = route_value r ''product'',
                 rt_log_type = route_value r ''log_type'', rt_index = route_value r ''index''\<rparr>))
      | _ \<Rightarrow> Inl ActionError)"

record sample_spec =
  sm_modulus :: int
  sm_numerator :: int
  sm_key :: "string list"

definition sample_from :: "loader \<Rightarrow> (string, pyval) dict \<Rightarrow> load_error + sample_spec" where
  "sample_from l doc =
     (case pv_or (pv_get doc ''sample'') (VDict []) of
        VDict s \<Rightarrow>
          (let rate = pv_get s ''rate''; pct = pv_get s ''percent'' in
           sbind (require (rate = VNone \<or> pct = VNone)) (\<lambda>_.
           sbind (names_of (pv_get s ''key'')) (\<lambda>ks.
           sbind (require (set (map pv_str ks) \<subseteq> set (''vendor'' # maskable_fields))) (\<lambda>_.
           if rate \<noteq> VNone then
             sbind (guarded (py_int_of l rate)) (\<lambda>r.
             sbind (require (1 \<le> r)) (\<lambda>_.
               Inr \<lparr>sm_modulus = r, sm_numerator = 1, sm_key = map pv_str ks\<rparr>))
           else if pct \<noteq> VNone then
             sbind (guarded (percent_of l pct)) (\<lambda>p.
               case p of None \<Rightarrow> Inl ActionError
               | Some n \<Rightarrow> Inr \<lparr>sm_modulus = 10000, sm_numerator = n, sm_key = map pv_str ks\<rparr>)
           else Inl ActionError))))
      | _ \<Rightarrow> Inl ActionError)"

section \<open>Actions\<close>

record ingest_action =
  ia_id :: string
  ia_action :: string
  ia_rule :: rule
  ia_title :: string
  ia_description :: string
  ia_order :: int
  ia_enabled :: bool
  ia_source :: string
  ia_stamp :: bool
  ia_mask :: "mask_spec option"
  ia_route :: "route_spec option"
  ia_sample :: "sample_spec option"

definition action_names :: "string list" where
  "action_names = [''drop'', ''mask'', ''route'', ''sample'']"

definition logsource_only :: "(string, pyval) dict" where
  "logsource_only = [(''_logsource'', VDict [(''vendor|exists'', VBool True)]),
                     (''condition'', VStr ''_logsource'')]"

definition mapping_of :: "pyval \<Rightarrow> load_error + (string, pyval) dict" where
  "mapping_of v = (case pv_or v (VDict []) of VDict d \<Rightarrow> Inr d | _ \<Rightarrow> Inl ActionError)"

definition optionally :: "bool \<Rightarrow> load_error + 'a \<Rightarrow> load_error + 'a option" where
  "optionally b r = (if b then sbind r (\<lambda>v. Inr (Some v)) else Inr None)"

definition action_from_dict :: "loader \<Rightarrow> (string, pyval) dict \<Rightarrow> string \<Rightarrow> load_error + ingest_action" where
  "action_from_dict l doc source =
     (let act = lower (strip (pv_str (pv_or (pv_get doc ''action'') (VStr []))));
          rid = pv_str (pv_or (pv_get doc ''id'') (pv_or (pv_get doc ''title'')
                  (pv_or (VStr source) (VStr ''unnamed''))));
          title = pv_str (pv_or (pv_get doc ''title'') (VStr rid));
          description = pv_str (pv_or (pv_get doc ''description'') (VStr [])) in
      sbind (require (act \<in> set action_names)) (\<lambda>_.
      sbind (mapping_of (pv_get doc ''logsource'')) (\<lambda>logsource.
      sbind (mapping_of (pv_get doc ''detection'')) (\<lambda>detection.
      sbind (require (detection \<noteq> [] \<or> logsource \<noteq> [])) (\<lambda>_.
      sbind (guarded (py_int_of l (pv_get_or doc ''order'' (VInt 100)))) (\<lambda>order.
      sbind (optionally (act = ''mask'') (mask_from l doc)) (\<lambda>mask.
      sbind (optionally (act = ''route'') (route_from doc)) (\<lambda>route.
      sbind (optionally (act = ''sample'') (sample_from l doc)) (\<lambda>sample.
        Inr \<lparr>ia_id = rid, ia_action = act,
             ia_rule = \<lparr>rl_id = rid, rl_title = title, rl_level = ''informational'',
               rl_description = description, rl_logsource = VDict logsource,
               rl_detection = VDict (if detection = [] then logsource_only else detection),
               rl_datamodels = as_str_list (pv_or (pv_get doc ''datamodels'') (pv_get doc ''datamodel'')),
               rl_tactics = [], rl_techniques = [], rl_atlas = [], rl_fidelity = ''medium'',
               rl_data_source = [], rl_references = [], rl_source = source, rl_enabled = True\<rparr>,
             ia_title = title, ia_description = description, ia_order = order,
             ia_enabled = pv_truthy (pv_get_or doc ''enabled'' (VBool True)), ia_source = source,
             ia_stamp = pv_truthy (pv_get_or doc ''stamp'' (VBool True)),
             ia_mask = mask, ia_route = route, ia_sample = sample\<rparr>)))))))))"

text \<open>\<open>validate\<close>: whether the console finds a problem, or an exception that escapes it.\<close>

definition validate_action :: "loader \<Rightarrow> pyval \<Rightarrow> py_error + bool" where
  "validate_action l doc =
     (case action_from_dict l (dict_of doc) ''console'' of
        Inr _ \<Rightarrow> Inr False | Inl ActionError \<Rightarrow> Inr True | Inl (Raised e) \<Rightarrow> Inl e)"

definition action_key :: "ingest_action \<Rightarrow> int \<times> string \<times> string" where
  "action_key a = (ia_order a, ia_source a, ia_id a)"

text \<open>The documents of one file: the actions, and one report for every document refused.\<close>

fun load_action_docs :: "loader \<Rightarrow> string \<Rightarrow> pyval list \<Rightarrow> py_error + (ingest_action list \<times> string list)" where
  "load_action_docs l name [] = Inr ([], [])"
| "load_action_docs l name (doc # docs) =
     sbind (case doc of
              VNone \<Rightarrow> Inr ([], [])
            | VDict d \<Rightarrow>
                (if dict_get d ''action'' = None then Inr ([], [name])
                 else (case action_from_dict l d name of
                         Inr a \<Rightarrow> Inr ([a], []) | Inl ActionError \<Rightarrow> Inr ([], [name])
                       | Inl (Raised e) \<Rightarrow> Inl e))
            | _ \<Rightarrow> Inr ([], [name])) (\<lambda>(as, es).
     sbind (load_action_docs l name docs) (\<lambda>(as', es'). Inr (as @ as', es @ es')))"

text \<open>A file is its name and its documents, or no documents if it cannot be read or parsed; no file
  list at all means that the configured path does not exist.\<close>

fun load_action_files ::
    "loader \<Rightarrow> (string \<times> pyval list option) list \<Rightarrow> py_error + (ingest_action list \<times> string list)" where
  "load_action_files l [] = Inr ([], [])"
| "load_action_files l ((name, docs) # fs) =
     sbind (case docs of None \<Rightarrow> Inr ([], [name]) | Some ds \<Rightarrow> load_action_docs l name ds) (\<lambda>(as, es).
     sbind (load_action_files l fs) (\<lambda>(as', es'). Inr (as @ as', es @ es')))"

definition load_actions ::
    "loader \<Rightarrow> string \<Rightarrow> (string \<times> pyval list option) list option \<Rightarrow> py_error + (ingest_action list \<times> string list)" where
  "load_actions l path files =
     (case files of
        None \<Rightarrow> Inr ([], [path])
      | Some fs \<Rightarrow> sbind (load_action_files l fs) (\<lambda>(as, es). Inr (sort_key action_key as, es)))"

section \<open>What is loaded is well formed\<close>

text \<open>What replaces an address is the text of an address of its family.\<close>

definition inet_wf :: "mask_spec \<Rightarrow> bool" where
  "inet_wf m \<longleftrightarrow> (\<forall>t. mk_inet_replacement m = Some t \<longrightarrow> (\<exists>a. t = ip_str a \<and> ip_wf a))"

lemma inet_wf_parsed:
  "inet_wf \<lparr>mk_fields = fs, mk_raw_keys = ks, mk_patterns = ps, mk_replacement = r, mk_hash = h, mk_salt = s, mk_scrub = b,
     mk_inet_replacement = map_option ip_str (ip_address t), mk_int_replacement = i\<rparr>"
  by (auto simp: inet_wf_def dest: ip_address_wf)

definition action_wf :: "ingest_action \<Rightarrow> bool" where
  "action_wf a \<longleftrightarrow>
     (\<forall>m. ia_mask a = Some m \<longrightarrow> mask_wf m \<and> inet_wf m) \<and>
     (\<forall>s. ia_sample a = Some s \<longrightarrow> 1 \<le> sm_modulus s)"

lemma compile_pattern_field:
  assumes "compile_pattern l spec dflt = Inr p"
  shows "ps_field p = [] \<or> ps_field p \<in> set text_fields"
  using assms
  by (auto simp: compile_pattern_def Let_def maskable_fields_def split: pyval.splits)

lemma compile_patterns_fields:
  "map_res (\<lambda>p. compile_pattern l p r) ps = Inr qs \<Longrightarrow> \<forall>q\<in>set qs. ps_field q = [] \<or> ps_field q \<in> set text_fields"
  by (induction ps arbitrary: qs) (auto dest: compile_pattern_field)

lemma mask_from_wf:
  assumes "mask_from l doc = Inr m"
  shows "mask_wf m \<and> inet_wf m \<and>
    (mk_fields m \<noteq> [] \<or> mk_raw_keys m \<noteq> [] \<or> mk_patterns m \<noteq> [])"
proof -
  obtain d where d: "pv_or (pv_get doc ''mask'') (VDict []) = VDict d"
    using assms by (auto simp: mask_from_def split: pyval.splits)
  show ?thesis
    using assms unfolding mask_from_def d pyval.case Let_def sbind_Inr_iff require_Inr
    by (elim exE conjE) (auto simp: mask_wf_def inet_wf_parsed dest!: compile_patterns_fields)
qed

lemma sample_from_wf: "sample_from l doc = Inr s \<Longrightarrow> 1 \<le> sm_modulus s"
  by (auto simp: sample_from_def Let_def split: pyval.splits if_splits option.splits)

lemma optionally_Inr: "optionally b r = Inr v \<longleftrightarrow> (if b then \<exists>w. r = Inr w \<and> v = Some w else v = None)"
  by (auto simp: optionally_def)

lemma action_from_dict_wf:
  assumes "action_from_dict l doc source = Inr a"
  shows "action_wf a \<and> ia_action a \<in> set action_names \<and>
    (ia_action a = ''mask'' \<longrightarrow> ia_mask a \<noteq> None) \<and> (ia_action a = ''route'' \<longrightarrow> ia_route a \<noteq> None) \<and>
    (ia_action a = ''sample'' \<longrightarrow> ia_sample a \<noteq> None)"
proof -
  define act where "act = lower (strip (pv_str (pv_or (pv_get doc ''action'') (VStr []))))"
  obtain mask route sample where
    m: "optionally (act = ''mask'') (mask_from l doc) = Inr mask" and
    r: "optionally (act = ''route'') (route_from doc) = Inr route" and
    s: "optionally (act = ''sample'') (sample_from l doc) = Inr sample" and
    a: "ia_action a = act" "ia_mask a = mask" "ia_route a = route" "ia_sample a = sample" "act \<in> set action_names"
    using assms unfolding action_from_dict_def Let_def act_def[symmetric] by (auto simp del: optionally_def)
  have "mask_wf w \<and> inet_wf w" if "mask = Some w" for w
    using m that mask_from_wf by (auto simp: optionally_Inr split: if_splits)
  moreover have "1 \<le> sm_modulus w" if "sample = Some w" for w
    using s that sample_from_wf by (auto simp: optionally_Inr split: if_splits)
  ultimately show ?thesis using m r s a by (auto simp: action_wf_def optionally_Inr split: if_splits)
qed

section \<open>One bad rule costs that rule\<close>

definition load_doc :: "loader \<Rightarrow> string \<Rightarrow> pyval \<Rightarrow> load_error + ingest_action" where
  "load_doc l name doc =
     (case doc of VDict d \<Rightarrow> (if dict_get d ''action'' = None then Inl ActionError else action_from_dict l d name)
      | _ \<Rightarrow> Inl ActionError)"

definition file_docs :: "(string \<times> pyval list option) list \<Rightarrow> (string \<times> pyval) list" where
  "file_docs fs = concat (map (\<lambda>(name, ds). map (Pair name) (filter (\<lambda>d. d \<noteq> VNone) (case ds of None \<Rightarrow> [] | Some l \<Rightarrow> l))) fs)"

definition loaded :: "loader \<Rightarrow> (string \<times> pyval) list \<Rightarrow> ingest_action list" where
  "loaded l ds = List.map_filter (\<lambda>(name, d). case load_doc l name d of Inr a \<Rightarrow> Some a | Inl _ \<Rightarrow> None) ds"

definition quiet :: "loader \<Rightarrow> (string \<times> pyval) list \<Rightarrow> bool" where
  "quiet l ds \<longleftrightarrow> (\<forall>p\<in>set ds. \<forall>e. load_doc l (fst p) (snd p) \<noteq> Inl (Raised e))"

lemma load_action_docs_quiet:
  assumes "quiet l (map (Pair name) (filter (\<lambda>d. d \<noteq> VNone) ds))"
  shows "\<exists>es. load_action_docs l name ds = Inr (loaded l (map (Pair name) (filter (\<lambda>d. d \<noteq> VNone) ds)), es) \<and>
    length es + length (loaded l (map (Pair name) (filter (\<lambda>d. d \<noteq> VNone) ds))) = length (filter (\<lambda>d. d \<noteq> VNone) ds)"
  using assms
proof (induction ds)
  case Nil
  show ?case by (simp add: loaded_def map_filter_def)
next
  case (Cons doc ds)
  have "quiet l (map (Pair name) (filter (\<lambda>d. d \<noteq> VNone) ds))"
    using Cons.prems by (auto simp: quiet_def split: if_splits)
  then obtain es where es: "load_action_docs l name ds = Inr (loaded l (map (Pair name) (filter (\<lambda>d. d \<noteq> VNone) ds)), es)"
      "length es + length (loaded l (map (Pair name) (filter (\<lambda>d. d \<noteq> VNone) ds))) = length (filter (\<lambda>d. d \<noteq> VNone) ds)"
    using Cons.IH by blast
  have q: "doc \<noteq> VNone \<Longrightarrow> load_doc l name doc \<noteq> Inl (Raised e)" for e
    using Cons.prems by (auto simp: quiet_def)
  show ?case
  proof (cases "load_doc l name doc")
    case (Inl err)
    then show ?thesis using es q
      by (cases doc; cases err) (auto simp: load_doc_def loaded_def map_filter_simps split: if_splits sum.splits load_error.splits)
  next
    case (Inr a)
    then show ?thesis using es
      by (cases doc) (auto simp: load_doc_def loaded_def map_filter_simps split: if_splits sum.splits)
  qed
qed

lemma loaded_append: "loaded l (as @ bs) = loaded l as @ loaded l bs"
  by (simp add: loaded_def map_filter_def)

lemma load_action_files_quiet:
  assumes "quiet l (file_docs fs)"
  shows "\<exists>es. load_action_files l fs = Inr (loaded l (file_docs fs), es) \<and>
    length es + length (loaded l (file_docs fs)) = length (file_docs fs) + length (filter (\<lambda>f. snd f = None) fs)"
  using assms
proof (induction fs)
  case Nil
  show ?case by (simp add: loaded_def file_docs_def map_filter_def)
next
  case (Cons f fs)
  obtain name ds where f: "f = (name, ds)" by fastforce
  define here where "here = map (Pair name) (filter (\<lambda>d. d \<noteq> VNone) (case ds of None \<Rightarrow> [] | Some l \<Rightarrow> l))"
  have fd: "file_docs (f # fs) = here @ file_docs fs" by (simp add: file_docs_def f here_def)
  have "quiet l (file_docs fs)" "quiet l here" using Cons.prems by (auto simp: fd quiet_def)
  then obtain es where es: "load_action_files l fs = Inr (loaded l (file_docs fs), es)"
      "length es + length (loaded l (file_docs fs)) = length (file_docs fs) + length (filter (\<lambda>f. snd f = None) fs)"
    using Cons.IH by blast
  show ?case
  proof (cases ds)
    case None
    then show ?thesis using es fd f by (simp add: here_def loaded_def map_filter_def)
  next
    case (Some dl)
    then obtain es' where "load_action_docs l name dl = Inr (loaded l here, es')"
        "length es' + length (loaded l here) = length here"
      using load_action_docs_quiet[of l name dl] \<open>quiet l here\<close> by (auto simp: here_def)
    then show ?thesis using es Some unfolding fd by (simp add: f loaded_append)
  qed
qed

section \<open>Every loaded rule is well formed, and an unforeseen exception loses them all\<close>

lemma load_action_docs_wf:
  "load_action_docs l name ds = Inr (as, es) \<Longrightarrow> \<forall>a\<in>set as. action_wf a"
proof (induction ds arbitrary: as es)
  case (Cons doc ds)
  then have "\<forall>a\<in>set as2. action_wf a" if "load_action_docs l name ds = Inr (as2, es2)" for as2 es2
    using that by blast
  then show ?case using Cons.prems
    by (cases doc) (auto dest: action_from_dict_wf split: if_splits sum.splits load_error.splits)
qed simp

lemma load_action_files_wf:
  "load_action_files l fs = Inr (as, es) \<Longrightarrow> \<forall>a\<in>set as. action_wf a"
proof (induction fs arbitrary: as es)
  case (Cons f fs)
  obtain name docs where f: "f = (name, docs)" by fastforce
  obtain as1 es1 as2 es2 where r: "load_action_files l fs = Inr (as2, es2)" "as = as1 @ as2"
      "case docs of None \<Rightarrow> as1 = [] | Some ds \<Rightarrow> load_action_docs l name ds = Inr (as1, es1)"
    using Cons.prems unfolding f by (cases docs) (auto simp: sbind_Inr_iff)
  have "\<forall>a\<in>set as1. action_wf a" using r(3) by (cases docs) (auto dest: load_action_docs_wf)
  then show ?case using Cons.IH[OF r(1)] r(2) by auto
qed simp

lemma load_actions_wf: "load_actions l path files = Inr (as, es) \<Longrightarrow> \<forall>a\<in>set as. action_wf a"
  by (auto simp: load_actions_def dest: load_action_files_wf split: option.splits)

lemma load_action_docs_raised:
  assumes "d \<in> set ds" and "load_doc l name d = Inl (Raised e)"
  shows "\<exists>e'. load_action_docs l name ds = Inl e'"
  using assms(1)
proof (induction ds)
  case (Cons doc ds)
  show ?case
  proof (cases "d = doc")
    case True
    then show ?thesis using assms(2) by (cases doc) (auto simp: load_doc_def split: if_splits)
  next
    case False
    then obtain e' where "load_action_docs l name ds = Inl e'" using Cons by auto
    then show ?thesis by (cases doc) (auto split: sum.splits load_error.splits)
  qed
qed simp

lemma load_action_files_raised:
  assumes "(name, Some ds) \<in> set fs" and "d \<in> set ds" and "load_doc l name d = Inl (Raised e)"
  shows "\<exists>e'. load_action_files l fs = Inl e'"
  using assms(1)
proof (induction fs)
  case (Cons f fs)
  obtain name' docs where f: "f = (name', docs)" by fastforce
  show ?case
  proof (cases "f = (name, Some ds)")
    case True
    then show ?thesis using load_action_docs_raised[OF assms(2,3)] by auto
  next
    case False
    then obtain e' where "load_action_files l fs = Inl e'" using Cons by auto
    then show ?thesis unfolding f by (cases docs; cases "load_action_docs l name' (the docs)") auto
  qed
qed simp

section \<open>Properties\<close>

definition plain_loader :: loader where
  "plain_loader = \<lparr>l_re_ok = (\<lambda>_. True), l_float = (\<lambda>_. None), l_trunc = (\<lambda>_. Inl ValueError),
     l_basis_points = (\<lambda>_. None)\<rparr>"

text \<open>As long as no document raises something other than ActionError, loading returns exactly the rules of the acceptable documents, in evaluation order, and one report for every other document and every unreadable file.\<close>

lemma bad_rule_costs_itself:
  assumes "quiet l (file_docs fs)"
  shows "\<exists>errs. load_actions l path (Some fs) = Inr (sort_key action_key (loaded l (file_docs fs)), errs) \<and>
    length errs + length (loaded l (file_docs fs)) = length (file_docs fs) + length (filter (\<lambda>f. snd f = None) fs)"
  using load_action_files_quiet[OF assms] by (auto simp: load_actions_def)

lemma bad_rule_costs_itself_example:
  "\<exists>errs. load_actions plain_loader ''d'' (Some [(''a.yml'', Some [VInt 3, VNone, VDict [(''actions'', VStr ''drop'')]]), (''b.yml'', None)])
      = Inr ([], errs) \<and> length errs = 3"
proof -
  let ?fs = "[(''a.yml'', Some [VInt 3, VNone, VDict [(''actions'', VStr ''drop'')]]), (''b.yml'', None)]"
  have "quiet plain_loader (file_docs ?fs)" "loaded plain_loader (file_docs ?fs) = []"
      "length (file_docs ?fs) = 2"
    by (simp_all add: quiet_def file_docs_def loaded_def load_doc_def dict_get_def map_filter_simps)
  with bad_rule_costs_itself[of plain_loader ?fs "''d''"] show ?thesis by auto
qed

definition good_doc :: pyval where
  "good_doc = VDict [(''action'', VStr ''drop''), (''logsource'', VDict [(''vendor'', VStr ''debug'')])]"

definition numeric_fields :: pyval where
  "numeric_fields = VDict [(''action'', VStr ''mask''), (''logsource'', VDict [(''vendor'', VStr ''acme'')]),
     (''mask'', VDict [(''fields'', VInt 7)])]"

text \<open>A document whose checks raise something else, such as a mask whose fields are a number, takes every rule of every file with it: the loader returns no rules and no report but raises.\<close>

lemma unforeseen_exception_loses_all:
  assumes "(name, Some ds) \<in> set fs" and "d \<in> set ds" and "load_doc l name d = Inl (Raised e)"
  shows "\<exists>e'. load_actions l path (Some fs) = Inl e'"
  using load_action_files_raised[OF assms] by (auto simp: load_actions_def)

lemma unforeseen_exception_loses_all_example:
  "\<exists>e'. load_actions plain_loader ''d'' (Some [(''a.yml'', Some [good_doc]), (''b.yml'', Some [numeric_fields])]) = Inl e'"
proof (rule unforeseen_exception_loses_all)
  show "(''b.yml'', Some [numeric_fields]) \<in> set [(''a.yml'', Some [good_doc]), (''b.yml'', Some [numeric_fields])]"
    "numeric_fields \<in> set [numeric_fields]" by simp_all
  show "load_doc plain_loader ''b.yml'' numeric_fields = Inl (Raised TypeError)" by code_simp
qed

end
