(* ===== verification/IngestDecide.thy ===== *)
theory IngestDecide
  imports IngestLoad
begin

text \<open>
  Evaluating ingest actions on an event (\<open>app/ingest_actions.py\<close>, \<open>sample_bucket\<close> to the end): the loop
  of \<open>decide\<close>, which keeps a flattened snapshot of the event until a rule changes it, and the index with
  its per-rule counters. Matching is the detection engine's own \<^const>\<open>match_rule\<close>, so the state of the
  CIM handle is threaded through.
\<close>

section \<open>Sampling\<close>

definition unit_separator :: string where "unit_separator = [char_of (31::int)]"

definition sample_bucket :: "externals \<Rightarrow> event \<Rightarrow> string list \<Rightarrow> int" where
  "sample_bucket x e key =
     (if key \<noteq> []
      then hex_int (hash_value x
             (join unit_separator (map (\<lambda>k. pv_str (pv_or (evt_get e k) (VStr []))) key)) [] 16)
      else hex_int (take 16 (dedup_hash x e)))"

text \<open>\<^const>\<open>None\<close> for the division by zero, which the loader rules out.\<close>

definition sample_keeps :: "externals \<Rightarrow> event \<Rightarrow> sample_spec \<Rightarrow> bool option" where
  "sample_keeps x e s =
     (if sm_modulus s = 0 then None
      else Some (sample_bucket x e (sm_key s) mod sm_modulus s < sm_numerator s))"

section \<open>Snapshots of a changing thing\<close>

text \<open>
  The evaluator looks at a snapshot of the event and takes a new one only after a transform reported a
  change. That is the same as looking at the event itself as long as no transform changes it silently.
\<close>

locale snapshot =
  fixes view :: "'e \<Rightarrow> 'v" and run :: "'a \<Rightarrow> 'e \<Rightarrow> bool option \<times> 'e"
  assumes silent: "run a e = (Some False, e') \<Longrightarrow> e' = e"
begin

definition current :: "'v option \<Rightarrow> 'e \<Rightarrow> bool" where
  "current v e \<longleftrightarrow> (case v of None \<Rightarrow> True | Some f \<Rightarrow> f = view e)"

lemma current_None: "current None e"
  by (simp add: current_def)

lemma look: "current v e \<Longrightarrow> (case v of None \<Rightarrow> view e | Some f \<Rightarrow> f) = view e"
  by (simp add: current_def split: option.splits)

lemma current_view: "current (Some (view e)) e"
  by (simp add: current_def)

lemma current_after: "run a e = (Some c, e') \<Longrightarrow> \<not> c \<Longrightarrow> current (Some (view e)) e'"
  using silent by (auto simp: current_def)

end

section \<open>The evaluator\<close>

record decision =
  d_dropped :: bool
  d_rule_id :: string
  d_action :: string
  d_applied :: "string list"
  d_errors :: "string list"

definition keep :: "string list \<Rightarrow> string list \<Rightarrow> decision" where
  "keep applied errors = \<lparr>d_dropped = False, d_rule_id = [], d_action = [], d_applied = applied, d_errors = errors\<rparr>"

definition terminal :: "string \<Rightarrow> string \<Rightarrow> string list \<Rightarrow> string list \<Rightarrow> decision" where
  "terminal rid act applied errors =
     \<lparr>d_dropped = True, d_rule_id = rid, d_action = act, d_applied = applied, d_errors = errors\<rparr>"

text \<open>The mask or the route of an action; a missing specification raises.\<close>

definition run_action :: "externals \<Rightarrow> ingest_action \<Rightarrow> edit" where
  "run_action x a e =
     (if ia_action a = ''mask'' then (case ia_mask a of None \<Rightarrow> (None, e) | Some m \<Rightarrow> apply_mask x m e)
      else (case ia_route a of None \<Rightarrow> (None, e) | Some r \<Rightarrow> apply_route r e))"

definition stamped :: "ingest_action \<Rightarrow> event \<Rightarrow> event" where
  "stamped a e = (if ia_stamp a then stamp_rule (ia_id a) e else e)"

definition sample_of :: "externals \<Rightarrow> ingest_action \<Rightarrow> event \<Rightarrow> bool option" where
  "sample_of x a e = (case ia_sample a of None \<Rightarrow> None | Some s \<Rightarrow> sample_keeps x e s)"

fun decide_loop ::
    "externals \<Rightarrow> string set option \<Rightarrow> ingest_action list \<Rightarrow> flat option \<Rightarrow> event \<Rightarrow> cim_state
       \<Rightarrow> string list \<Rightarrow> string list \<Rightarrow> decision \<times> event \<times> cim_state" where
  "decide_loop x tags [] flat e st applied errors = (keep applied errors, e, st)"
| "decide_loop x tags (a # as) flat e st applied errors =
     (if \<not> ia_enabled a then decide_loop x tags as flat e st applied errors
      else
        (let fl = (case flat of None \<Rightarrow> flatten_event e | Some f \<Rightarrow> f);
             rid = ia_id a;
             (res, st) = match_rule (x_search x) (x_cim x) (ia_rule a) fl (Some (Fresh e)) tags st in
         case res of
           Inl _ \<Rightarrow> decide_loop x tags as None e st applied (errors @ [rid])
         | Inr False \<Rightarrow> decide_loop x tags as (Some fl) e st applied errors
         | Inr True \<Rightarrow>
             (if ia_action a = ''drop'' then (terminal rid ''drop'' (applied @ [rid]) errors, e, st)
              else if ia_action a = ''sample'' then
                (case sample_of x a e of
                   None \<Rightarrow> decide_loop x tags as None e st (applied @ [rid]) (errors @ [rid])
                 | Some False \<Rightarrow> (terminal rid ''sample'' (applied @ [rid]) errors, e, st)
                 | Some True \<Rightarrow> decide_loop x tags as (Some fl) e st (applied @ [rid]) errors)
              else
                (case run_action x a e of
                   (None, e') \<Rightarrow> decide_loop x tags as None e' st (applied @ [rid]) (errors @ [rid])
                 | (Some changed, e') \<Rightarrow>
                     (if changed then decide_loop x tags as None (stamped a e') st (applied @ [rid]) errors
                      else decide_loop x tags as (Some fl) e' st (applied @ [rid]) errors)))))"

definition decide ::
    "externals \<Rightarrow> ingest_action list \<Rightarrow> event \<Rightarrow> string set option \<Rightarrow> cim_state \<Rightarrow> decision \<times> event \<times> cim_state" where
  "decide x actions e tags st = decide_loop x tags actions None e st [] []"

section \<open>The index\<close>

record counters =
  c_matched :: nat
  c_dropped :: nat
  c_changed :: nat
  c_errors :: nat

definition no_counts :: counters where
  "no_counts = \<lparr>c_matched = 0, c_dropped = 0, c_changed = 0, c_errors = 0\<rparr>"

record action_index =
  ix_actions :: "ingest_action list"
  ix_load_errors :: "string list"
  ix_counts :: "(string, counters) dict"

definition action_index :: "ingest_action list \<Rightarrow> string list \<Rightarrow> action_index" where
  "action_index actions errors =
     \<lparr>ix_actions = sort_key action_key actions, ix_load_errors = errors, ix_counts = []\<rparr>"

definition bump :: "(counters \<Rightarrow> counters) \<Rightarrow> string \<Rightarrow> (string, counters) dict \<Rightarrow> (string, counters) dict" where
  "bump f rid counts = dict_set rid (f (case dict_get counts rid of None \<Rightarrow> no_counts | Some c \<Rightarrow> c)) counts"

definition matched1 :: "counters \<Rightarrow> counters" where "matched1 c = c\<lparr>c_matched := Suc (c_matched c)\<rparr>"
definition dropped1 :: "counters \<Rightarrow> counters" where "dropped1 c = c\<lparr>c_dropped := Suc (c_dropped c)\<rparr>"
definition changed1 :: "counters \<Rightarrow> counters" where "changed1 c = c\<lparr>c_changed := Suc (c_changed c)\<rparr>"
definition errors1 :: "counters \<Rightarrow> counters" where "errors1 c = c\<lparr>c_errors := Suc (c_errors c)\<rparr>"

definition count_decision :: "decision \<Rightarrow> (string, counters) dict \<Rightarrow> (string, counters) dict" where
  "count_decision d counts =
     (let counts = fold (bump matched1) (d_applied d) counts;
          counts = fold (bump errors1) (d_errors d) counts
      in if d_dropped d then bump dropped1 (d_rule_id d) counts
         else if d_applied d \<noteq> [] then bump changed1 (last (d_applied d)) counts
         else counts)"

definition index_apply ::
    "externals \<Rightarrow> action_index \<Rightarrow> event \<Rightarrow> string set option \<Rightarrow> cim_state
       \<Rightarrow> decision \<times> event \<times> cim_state \<times> action_index" where
  "index_apply x ix e tags st =
     (if ix_actions ix = [] then (keep [] [], e, st, ix)
      else (case decide x (ix_actions ix) e tags st of
              (d, e', st') \<Rightarrow> (d, e', st', ix\<lparr>ix_counts := count_decision d (ix_counts ix)\<rparr>)))"

record action_summary =
  su_rules :: nat
  su_enabled :: nat
  su_load_errors :: "string list"
  su_dropped :: nat
  su_changed :: nat
  su_errors :: nat
  su_by_rule :: "(string, counters) dict"

definition summary :: "action_index \<Rightarrow> action_summary" where
  "summary ix =
     \<lparr>su_rules = length (ix_actions ix), su_enabled = length (filter ia_enabled (ix_actions ix)),
      su_load_errors = ix_load_errors ix,
      su_dropped = sum_list (map (c_dropped \<circ> snd) (ix_counts ix)),
      su_changed = sum_list (map (c_changed \<circ> snd) (ix_counts ix)),
      su_errors = sum_list (map (c_errors \<circ> snd) (ix_counts ix)),
      su_by_rule = ix_counts ix\<rparr>"

section \<open>The snapshot is invisible\<close>

lemma run_action_silent: "run_action x a e = (Some False, e') \<Longrightarrow> e' = e"
  using honestD[OF honest_apply_mask] honestD[OF honest_apply_route]
  by (auto simp: run_action_def split: if_splits option.splits)

interpretation actions: snapshot flatten_event "run_action x" for x
  by unfold_locales (rule run_action_silent)

text \<open>The evaluator without the snapshot: every rule looks at the event as the rules before it left it.\<close>

fun decide_fresh ::
    "externals \<Rightarrow> string set option \<Rightarrow> ingest_action list \<Rightarrow> event \<Rightarrow> cim_state
       \<Rightarrow> string list \<Rightarrow> string list \<Rightarrow> decision \<times> event \<times> cim_state" where
  "decide_fresh x tags [] e st applied errors = (keep applied errors, e, st)"
| "decide_fresh x tags (a # as) e st applied errors =
     (if \<not> ia_enabled a then decide_fresh x tags as e st applied errors
      else
        (let rid = ia_id a;
             (res, st) = match_rule (x_search x) (x_cim x) (ia_rule a) (flatten_event e) (Some (Fresh e)) tags st in
         case res of
           Inl _ \<Rightarrow> decide_fresh x tags as e st applied (errors @ [rid])
         | Inr False \<Rightarrow> decide_fresh x tags as e st applied errors
         | Inr True \<Rightarrow>
             (if ia_action a = ''drop'' then (terminal rid ''drop'' (applied @ [rid]) errors, e, st)
              else if ia_action a = ''sample'' then
                (case sample_of x a e of
                   None \<Rightarrow> decide_fresh x tags as e st (applied @ [rid]) (errors @ [rid])
                 | Some False \<Rightarrow> (terminal rid ''sample'' (applied @ [rid]) errors, e, st)
                 | Some True \<Rightarrow> decide_fresh x tags as e st (applied @ [rid]) errors)
              else
                (case run_action x a e of
                   (None, e') \<Rightarrow> decide_fresh x tags as e' st (applied @ [rid]) (errors @ [rid])
                 | (Some changed, e') \<Rightarrow>
                     decide_fresh x tags as (if changed then stamped a e' else e') st (applied @ [rid]) errors))))"

lemma decide_loop_fresh:
  "actions.current flat e \<Longrightarrow>
     decide_loop x tags as flat e st applied errors = decide_fresh x tags as e st applied errors"
proof (induction as arbitrary: flat e st applied errors)
  case (Cons a as)
  have look: "(case flat of None \<Rightarrow> flatten_event e | Some f \<Rightarrow> f) = flatten_event e"
    using actions.look[OF Cons.prems] .
  have after: "actions.current (Some (flatten_event e)) e'" if "run_action x a e = (Some False, e')" for e'
    using actions.current_after[OF that] by simp
  note ih = Cons.IH[OF actions.current_None] Cons.IH[OF actions.current_view] Cons.IH[OF after]
    Cons.IH[OF Cons.prems]
  obtain res st' where m: "match_rule (x_search x) (x_cim x) (ia_rule a) (flatten_event e) (Some (Fresh e)) tags st
      = (res, st')" by fastforce
  obtain r e' where r: "run_action x a e = (r, e')" by fastforce
  show ?case
    unfolding decide_loop.simps decide_fresh.simps look Let_def m prod.case r
    using ih r by (cases res; cases r) (auto split: option.splits bool.splits)
qed simp

lemma decide_eq: "decide x as e tags st = decide_fresh x tags as e st [] []"
  by (simp add: decide_def decide_loop_fresh actions.current_None)

section \<open>What a decision says\<close>

text \<open>One rule at a time, for any property of the event that matching cannot change.\<close>

lemma decide_fresh_keeps:
  assumes "\<And>a e. a \<in> set as \<Longrightarrow> P e \<Longrightarrow> P (snd (run_action x a e))"
    and "\<And>a e. P e \<Longrightarrow> P (stamped a e)" and "P e"
  shows "P (fst (snd (decide_fresh x tags as e st applied errors)))"
  using assms(1,3)
proof (induction as arbitrary: e st applied errors)
  case (Cons a as)
  obtain res st' where m: "match_rule (x_search x) (x_cim x) (ia_rule a) (flatten_event e) (Some (Fresh e)) tags st
      = (res, st')" by fastforce
  obtain r e' where r: "run_action x a e = (r, e')" by fastforce
  have "P e'" using Cons.prems(1)[of a e] Cons.prems(2) r by simp
  then show ?case
    unfolding decide_fresh.simps Let_def m prod.case r
    using Cons assms(2) by (cases res; cases r) (auto split: option.splits bool.splits)
qed simp

lemma decide_dropped:
  assumes "d_dropped (fst (decide_fresh x tags as e st applied errors))"
  shows "\<exists>a\<in>set as. ia_enabled a \<and> ia_id a = d_rule_id (fst (decide_fresh x tags as e st applied errors)) \<and>
    ia_action a = d_action (fst (decide_fresh x tags as e st applied errors)) \<and> ia_action a \<in> {''drop'', ''sample''} \<and>
    last (d_applied (fst (decide_fresh x tags as e st applied errors))) = ia_id a"
  using assms
proof (induction as arbitrary: e st applied errors)
  case Nil
  then show ?case by (simp add: keep_def)
next
  case (Cons a as)
  obtain res st' where m: "match_rule (x_search x) (x_cim x) (ia_rule a) (flatten_event e) (Some (Fresh e)) tags st
      = (res, st')" by fastforce
  obtain r e' where r: "run_action x a e = (r, e')" by fastforce
  have step: "decide_fresh x tags (a # as) e st applied errors =
      (if \<not> ia_enabled a then decide_fresh x tags as e st applied errors
       else case res of
           Inl _ \<Rightarrow> decide_fresh x tags as e st' applied (errors @ [ia_id a])
         | Inr False \<Rightarrow> decide_fresh x tags as e st' applied errors
         | Inr True \<Rightarrow>
             (if ia_action a = ''drop'' then (terminal (ia_id a) ''drop'' (applied @ [ia_id a]) errors, e, st')
              else if ia_action a = ''sample'' then
                (case sample_of x a e of
                   None \<Rightarrow> decide_fresh x tags as e st' (applied @ [ia_id a]) (errors @ [ia_id a])
                 | Some False \<Rightarrow> (terminal (ia_id a) ''sample'' (applied @ [ia_id a]) errors, e, st')
                 | Some True \<Rightarrow> decide_fresh x tags as e st' (applied @ [ia_id a]) errors)
              else
                (case r of
                   None \<Rightarrow> decide_fresh x tags as e' st' (applied @ [ia_id a]) (errors @ [ia_id a])
                 | Some changed \<Rightarrow>
                     decide_fresh x tags as (if changed then stamped a e' else e') st' (applied @ [ia_id a]) errors)))"
    unfolding decide_fresh.simps Let_def m prod.case r ..
  have ih: ?case if "decide_fresh x tags (a # as) e st applied errors = decide_fresh x tags as e1 st1 ap er"
    for e1 st1 ap er
    using Cons.IH[of e1 st1 ap er] Cons.prems that by auto
  have stop: ?case if "decide_fresh x tags (a # as) e st applied errors = (terminal (ia_id a) (ia_action a) (ap @ [ia_id a]) er, e1, st1)"
    and "ia_enabled a" and "ia_action a \<in> {''drop'', ''sample''}" for ap er e1 st1
    using that by (auto simp: terminal_def)
  show ?case
  proof (cases "ia_enabled a \<and> res = Inr True \<and> (ia_action a = ''drop'' \<or> ia_action a = ''sample'' \<and> sample_of x a e = Some False)")
    case True
    then show ?thesis using stop step by (auto split: if_splits)
  next
    case False
    then show ?thesis
      using ih step
      by (cases res; cases r; cases "sample_of x a e") (auto split: if_splits bool.splits)
  qed
qed

lemma stamp_rule_frame [simp]:
  "n \<noteq> ''raw'' \<Longrightarrow> evt_get (stamp_rule r e) n = evt_get e n"
  "event_time (stamp_rule r e) = event_time e"
  by (simp_all add: stamp_rule_def Let_def)

lemma stamped_frame [simp]:
  "n \<noteq> ''raw'' \<Longrightarrow> evt_get (stamped a e) n = evt_get e n" "event_time (stamped a e) = event_time e"
  by (simp_all add: stamped_def)

section \<open>Time and addresses\<close>

lemma mask_columns_time: "event_time (snd (mask_columns x m ns e)) = event_time e"
proof (induction ns arbitrary: e)
  case (Cons n ns)
  have "event_time (snd (mask_column x m n e)) = event_time e" by (simp add: mask_column_def Let_def)
  then show ?case using Cons[of "snd (mask_column x m n e)"]
    by (cases "mask_column x m n e"; cases "mask_columns x m ns (snd (mask_column x m n e))") auto
qed simp

lemma keeps_time:
  "keeps (\<lambda>e. event_time e = t) (mask_raw_key x m path)" "keeps (\<lambda>e. event_time e = t) (walk_raw f)"
  "keeps (\<lambda>e. event_time e = t) (pattern_raw x p)" "keeps (\<lambda>e. event_time e = t) (scrub_column fn n)"
  "keeps (\<lambda>e. event_time e = t) (pattern_column x p)" "keeps (\<lambda>e. event_time e = t) (route_column n w)"
  "keeps (\<lambda>e. event_time e = t) (route_index w)"
  by (auto intro!: keepsI simp: mask_raw_key_def walk_raw_def pattern_raw_def scrub_column_def route_column_def
      route_index_def pattern_column_def Let_def split: prod.splits option.splits pyval.splits if_splits)

lemma run_action_time: "event_time (snd (run_action x a e)) = event_time e"
proof -
  have mask: "event_time (snd (apply_mask x m e)) = event_time e" for m
  proof -
    obtain pairs e1 where c: "mask_columns x m (mk_fields m) e = (pairs, e1)" by fastforce
    have "keeps (\<lambda>e'. event_time e' = event_time e1) (edits (mask_edits x m pairs))"
      by (rule keeps_edits) (auto simp: mask_edits_def scrub_edits_def keeps_time split: if_splits)
    moreover obtain r e2 where "edits (mask_edits x m pairs) e1 = (r, e2)" by fastforce
    ultimately show ?thesis using c mask_columns_time[of x m "mk_fields m" e]
      by (auto simp: keeps_def apply_mask_def)
  qed
  have "keeps (\<lambda>e'. event_time e' = event_time e) (apply_route r)" for r
    unfolding apply_route_def by (rule keeps_edits) (auto simp: keeps_time)
  then have route: "event_time (snd (apply_route r e)) = event_time e" for r by (simp add: keeps_def)
  show ?thesis by (auto simp: run_action_def mask route split: option.splits)
qed

lemma apply_route_address:
  assumes "n \<in> set inet_fields"
  shows "evt_get (snd (apply_route r e)) n = evt_get e n"
proof -
  have n: "n \<noteq> ''raw''" "n \<noteq> ''vendor''" "n \<noteq> ''product''" "n \<noteq> ''log_type''"
    using assms by (auto simp: inet_fields_def)
  have "keeps (column_is n (evt_get e n)) (route_column k w)" if "k \<in> {''vendor'', ''product'', ''log_type''}" for k w
    using that n by (auto intro!: keepsI simp: column_is_def route_column_def evt_get_set_vendor
        evt_get_set_str text_fields_def split: option.splits)
  moreover have "keeps (column_is n (evt_get e n)) (route_index w)" for w
    using n by (auto intro!: keepsI simp: column_is_def route_index_def split: option.splits)
  ultimately have "keeps (column_is n (evt_get e n)) (apply_route r)"
    unfolding apply_route_def by (intro keeps_edits) auto
  then show ?thesis by (simp add: keeps_def column_is_def)
qed

text \<open>What a rule makes of an address column: what was there, or what the rule's mask puts there.\<close>

lemma run_action_address:
  assumes "action_wf a" and "n \<in> set inet_fields"
  shows "evt_get (snd (run_action x a e)) n = evt_get e n \<or>
    (\<exists>m. ia_mask a = Some m \<and> inet_wf m \<and> address_after m (evt_get e n) (evt_get (snd (run_action x a e)) n))"
proof -
  have "inet_wf m \<and> address_after m (evt_get e n) (evt_get (snd (apply_mask x m e)) n)" if "ia_mask a = Some m" for m
    using assms that by (auto simp: action_wf_def intro: apply_mask_address)
  then show ?thesis using apply_route_address[OF assms(2)] by (auto simp: run_action_def split: option.splits)
qed

section \<open>Counting\<close>

definition total :: "(counters \<Rightarrow> nat) \<Rightarrow> (string, counters) dict \<Rightarrow> nat" where
  "total g counts = sum_list (map (g \<circ> snd) counts)"

lemma total_dict_set:
  "total g (dict_set k (f (case dict_get d k of None \<Rightarrow> no_counts | Some c \<Rightarrow> c)) d) = total g d + n"
  if "\<And>c. g (f c) = g c + n" and "g no_counts = 0"
  by (induction d) (auto simp: total_def dict_set_def dict_get_def that)

lemma total_bump:
  "total c_dropped (bump matched1 k d) = total c_dropped d" "total c_dropped (bump errors1 k d) = total c_dropped d"
  "total c_dropped (bump changed1 k d) = total c_dropped d" "total c_dropped (bump dropped1 k d) = Suc (total c_dropped d)"
  "total c_errors (bump matched1 k d) = total c_errors d" "total c_errors (bump errors1 k d) = Suc (total c_errors d)"
  "total c_errors (bump changed1 k d) = total c_errors d" "total c_errors (bump dropped1 k d) = total c_errors d"
  "total c_matched (bump matched1 k d) = Suc (total c_matched d)" "total c_matched (bump errors1 k d) = total c_matched d"
  "total c_matched (bump changed1 k d) = total c_matched d" "total c_matched (bump dropped1 k d) = total c_matched d"
  unfolding bump_def
  using total_dict_set[where f = matched1] total_dict_set[where f = errors1]
    total_dict_set[where f = changed1] total_dict_set[where f = dropped1]
  by (simp_all add: no_counts_def matched1_def errors1_def changed1_def dropped1_def)

lemma total_folds:
  "total c_dropped (fold (bump matched1) ks d) = total c_dropped d"
  "total c_dropped (fold (bump errors1) ks d) = total c_dropped d"
  "total c_errors (fold (bump matched1) ks d) = total c_errors d"
  "total c_errors (fold (bump errors1) ks d) = total c_errors d + length ks"
  "total c_matched (fold (bump matched1) ks d) = total c_matched d + length ks"
  "total c_matched (fold (bump errors1) ks d) = total c_matched d"
  by (induction ks arbitrary: d) (simp_all add: total_bump)

lemma count_decision_totals:
  "total c_dropped (count_decision d counts) = total c_dropped counts + (if d_dropped d then 1 else 0)"
  "total c_errors (count_decision d counts) = total c_errors counts + length (d_errors d)"
  "total c_matched (count_decision d counts) = total c_matched counts + length (d_applied d)"
  by (simp_all add: count_decision_def Let_def total_bump total_folds)

lemma index_apply_totals:
  assumes "index_apply x ix e tags st = (d, e', st', ix')"
  shows "total c_dropped (ix_counts ix') = total c_dropped (ix_counts ix) + (if d_dropped d then 1 else 0)"
    and "total c_errors (ix_counts ix') = total c_errors (ix_counts ix) + length (d_errors d)"
    and "total c_matched (ix_counts ix') = total c_matched (ix_counts ix) + length (d_applied d)"
    and "ix_actions ix' = ix_actions ix"
  using assms
  by (auto simp: index_apply_def keep_def count_decision_totals split: if_splits prod.splits)

lemma index_apply_time:
  assumes "index_apply x ix e tags st = (d, e', st', ix')"
  shows "event_time e' = event_time e"
proof (cases "ix_actions ix = []")
  case True
  then show ?thesis using assms by (simp add: index_apply_def)
next
  case False
  have "(\<lambda>e'. event_time e' = event_time e)
      (fst (snd (decide_fresh x tags (ix_actions ix) e st [] [])))"
    by (rule decide_fresh_keeps) (simp_all add: run_action_time)
  then show ?thesis using assms False by (auto simp: index_apply_def decide_eq split: prod.splits)
qed

section \<open>An example\<close>

definition demo_externals :: externals where
  "demo_externals = \<lparr>x_sha = (\<lambda>s. s), x_iso = (\<lambda>t. int_str t), x_dumps = (\<lambda>_. []), x_sub = (\<lambda>_ _ s. Some s),
     x_search = (\<lambda>_ _ _. None), x_cim = (\<lambda>_. (0, None))\<rparr>"

definition demo_loader :: loader where
  "demo_loader = \<lparr>l_re_ok = (\<lambda>_. True), l_float = (\<lambda>_. None), l_trunc = (\<lambda>_. Inl ValueError),
     l_basis_points = (\<lambda>_. None)\<rparr>"

definition demo_doc :: "string \<Rightarrow> string \<Rightarrow> (string \<times> pyval) list" where
  "demo_doc act v = [(''id'', VStr (act @ ''-'' @ v)), (''action'', VStr act), (''logsource'', VDict [(''vendor'', VStr v)])]"

definition demo_drop :: ingest_action where
  "demo_drop = (case action_from_dict demo_loader (demo_doc ''drop'' ''debug'') ''a.yml'' of Inr a \<Rightarrow> a | Inl _ \<Rightarrow> undefined)"

section \<open>Properties\<close>

text \<open>C30: Evaluating the ingest rules over a flattened snapshot, taken again only after a rule changed the event, is evaluating every rule on the event as the rules before it left it: no later rule matches on a value an earlier one redacted.\<close>

theorem rules_see_masked_event:
  "decide x as e tags st = decide_fresh x tags as e st [] []"
  by (rule decide_eq)

text \<open>An event is dropped only by an enabled drop or sample rule of the index, the one the decision names and the last that was applied, and each drop raises the drop counters by one.\<close>

lemma dropped_by_a_rule:
  assumes "index_apply x ix e tags st = (d, e', st', ix')" and "d_dropped d"
  shows "(\<exists>a\<in>set (ix_actions ix). ia_enabled a \<and> ia_id a = d_rule_id d \<and> ia_action a = d_action d \<and>
      ia_action a \<in> {''drop'', ''sample''} \<and> last (d_applied d) = ia_id a) \<and>
    total c_dropped (ix_counts ix') = Suc (total c_dropped (ix_counts ix))"
proof -
  have ne: "ix_actions ix \<noteq> []" using assms by (auto simp: index_apply_def keep_def)
  then have d: "d = fst (decide_fresh x tags (ix_actions ix) e st [] [])"
    using assms(1) by (auto simp: index_apply_def decide_eq split: prod.splits)
  then have "d_dropped (fst (decide_fresh x tags (ix_actions ix) e st [] []))" using assms(2) by simp
  from decide_dropped[OF this] show ?thesis using d index_apply_totals(1)[OF assms(1)] assms(2) by simp
qed

lemma dropped_by_a_rule_example:
  "\<exists>d e' st' ix'. index_apply demo_externals (action_index [demo_drop] []) (bare_event ''debug'') None cim_init = (d, e', st', ix') \<and>
     d_dropped d \<and> ia_id demo_drop = d_rule_id d \<and> total c_dropped (ix_counts ix') = 1"
proof -
  obtain d e' st' ix' where r: "index_apply demo_externals (action_index [demo_drop] []) (bare_event ''debug'') None cim_init = (d, e', st', ix')"
    by (cases "index_apply demo_externals (action_index [demo_drop] []) (bare_event ''debug'') None cim_init") auto
  have "d_dropped (fst (index_apply demo_externals (action_index [demo_drop] []) (bare_event ''debug'') None cim_init))"
    by code_simp
  then have "d_dropped d" using r by simp
  from dropped_by_a_rule[OF r this] show ?thesis using r \<open>d_dropped d\<close> by (auto simp: action_index_def total_def)
qed

end
