(* ===== verification/CustomParser.thy ===== *)
theory CustomParser
  imports EventEdit
begin

text \<open>
  Console-authored field mappers (\<open>app/custom_parser.py\<close>). A definition is a row of the store: which
  records it is for, where to find \<open>key=value\<close> text, and which raw key fills which column. The first
  definition that matches and does not raise is applied.
\<close>

section \<open>Definitions\<close>

record parser_def =
  pd_match_key :: string
  pd_match_value :: string
  pd_field_map :: "(string, pyval) dict"
  pd_vendor :: "string option"
  pd_product :: "string option"
  pd_kv_source :: "string option"
  pd_kv_sep :: "string option"

definition allowed_columns :: "string list" where
  "allowed_columns = [''vendor'', ''product'', ''log_type'', ''severity'', ''action'', ''src_ip'', ''dst_ip'',
     ''protocol'', ''app'', ''user_name'', ''host_name'', ''rule_name'', ''message'']"

definition lower_keys :: "(string, pyval) dict \<Rightarrow> (string, pyval) dict" where
  "lower_keys r = foldl (\<lambda>d p. dict_set (lower (fst p)) (snd p) d) [] r"

definition pd_matches :: "parser_def \<Rightarrow> (string, pyval) dict \<Rightarrow> bool" where
  "pd_matches p r =
     (let v = pv_get (lower_keys r) (lower (pd_match_key p))
      in v \<noteq> VNone \<and> sublist (lower (pd_match_value p)) (lower (pv_str v)))"

text \<open>\<open>s.split(sep)\<close> for a nonempty separator.\<close>

function split_str :: "string \<Rightarrow> string \<Rightarrow> string list" where
  "split_str sep s =
     (if s = [] then [[]]
      else if sep \<noteq> [] \<and> prefix sep s then [] # split_str sep (drop (length sep) s)
      else (case split_str sep (tl s) of [] \<Rightarrow> [[hd s]] | w # ws \<Rightarrow> (hd s # w) # ws))"
  by pat_completeness auto
termination by (relation "measure (\<lambda>(sep, s). length s)") auto

declare split_str.simps [simp del]

definition opt_or :: "string option \<Rightarrow> string \<Rightarrow> string" where
  "opt_or o1 d = (case o1 of None \<Rightarrow> d | Some s \<Rightarrow> if s = [] then d else s)"

definition add_pair :: "string \<Rightarrow> (string, pyval) dict \<Rightarrow> (string, pyval) dict" where
  "add_pair part merged =
     (if CHR ''='' \<notin> set part then merged
      else (let k = strip (takeWhile (\<lambda>c. c \<noteq> CHR ''='') part);
                v = strip (tl (dropWhile (\<lambda>c. c \<noteq> CHR ''='') part))
            in if k \<noteq> [] \<and> v \<noteq> [] \<and> dict_get merged k = None then dict_set k (VStr v) merged else merged))"

definition extract_kv :: "parser_def \<Rightarrow> (string, pyval) dict \<Rightarrow> (string, pyval) dict" where
  "extract_kv p r =
     (let src = opt_or (pd_kv_source p) [] in
      if src = [] then r
      else (let text1 = pv_get (lower_keys r) (lower src) in
            if \<not> pv_truthy text1 then r
            else foldl (\<lambda>m part. add_pair part m) r (split_str (opt_or (pd_kv_sep p) ''||'') (pv_str text1))))"

text \<open>\<open>column not in _ALLOWED\<close> raises for a value that cannot be hashed.\<close>

definition map_entry ::
    "(string, pyval) dict \<Rightarrow> string \<times> pyval \<Rightarrow> (string, string) dict \<Rightarrow> py_error + (string, string) dict" where
  "map_entry low kc out =
     (case snd kc of
        VList _ \<Rightarrow> Inl TypeError
      | VDict _ \<Rightarrow> Inl TypeError
      | VStr c \<Rightarrow>
          if c \<notin> set allowed_columns then Inr out
          else (let v = pv_get low (lower (fst kc)) in
                if v = VNone \<or> v = VStr [] then Inr out else Inr (dict_set c (pv_str v) out))
      | _ \<Rightarrow> Inr out)"

fun map_entries ::
    "(string, pyval) dict \<Rightarrow> (string, pyval) dict \<Rightarrow> (string, string) dict \<Rightarrow> py_error + (string, string) dict" where
  "map_entries low [] out = Inr out"
| "map_entries low (kc # kcs) out = sbind (map_entry low kc out) (map_entries low kcs)"

definition declared :: "parser_def \<Rightarrow> (string, string) dict" where
  "declared p = (if opt_or (pd_vendor p) [] = [] then [] else [(''vendor'', the (pd_vendor p))])
     @ (if opt_or (pd_product p) [] = [] then [] else [(''product'', the (pd_product p))])"

definition map_fields :: "parser_def \<Rightarrow> (string, pyval) dict \<Rightarrow> py_error + (string, string) dict" where
  "map_fields p r =
     sbind (map_entries (lower_keys r) (pd_field_map p) []) (\<lambda>out.
       Inr (foldl (\<lambda>o1 cv. dict_setdefault (fst cv) (snd cv) o1) out (declared p)))"

section \<open>Applying\<close>

definition fill :: "parser_def \<Rightarrow> string \<times> string \<Rightarrow> event \<Rightarrow> event" where
  "fill p cv e =
     (if fst cv \<in> fst ` set (declared p) then set_str (fst cv) (Some (snd cv)) e
      else if evt_get e (fst cv) = VNone \<or> evt_get e (fst cv) = VStr [] then set_str (fst cv) (Some (snd cv)) e
      else e)"

fun custom_apply :: "parser_def list \<Rightarrow> event \<Rightarrow> event" where
  "custom_apply [] e = e"
| "custom_apply (p # ps) e =
     (if \<not> pd_matches p (raw e) then custom_apply ps e
      else (case map_fields p (extract_kv p (raw e)) of
              Inl _ \<Rightarrow> custom_apply ps e
            | Inr cvs \<Rightarrow> foldl (\<lambda>e cv. fill p cv e) e cvs))"

section \<open>Facts\<close>

lemma fill_frame [simp]:
  "raw (fill p cv e) = raw e" "event_time (fill p cv e) = event_time e"
  by (simp_all add: fill_def)

lemma fills_frame [simp]:
  "raw (foldl (\<lambda>e cv. fill p cv e) e cvs) = raw e"
  "event_time (foldl (\<lambda>e cv. fill p cv e) e cvs) = event_time e"
  by (induction cvs arbitrary: e) simp_all

lemma custom_apply_frame [simp]:
  "raw (custom_apply ps e) = raw e" "event_time (custom_apply ps e) = event_time e"
  by (induction ps arbitrary: e) (auto split: sum.splits)

text \<open>A column that is neither empty nor declared keeps its value.\<close>

lemma evt_get_set_allowed:
  assumes "c \<in> set allowed_columns"
  shows "evt_get (set_str c (Some v) e) n = (if n = c then VStr v else evt_get e n)"
proof (cases "c = ''vendor''")
  case True
  then show ?thesis by (simp add: evt_get_set_vendor)
next
  case False
  then have "c \<in> set (text_fields @ inet_fields)" using assms by (auto simp: allowed_columns_def column_names)
  then show ?thesis by (simp add: evt_get_set_str ostr_def)
qed

lemma map_entry_allowed:
  assumes "map_entry low kc out = Inr out'" and "fst ` set out \<subseteq> set allowed_columns"
  shows "fst ` set out' \<subseteq> set allowed_columns"
proof (cases "snd kc")
  case (VStr c)
  have "out' = out \<or> c \<in> set allowed_columns \<and> out' = dict_set c (pv_str (pv_get low (lower (fst kc)))) out"
    using assms(1) unfolding map_entry_def VStr Let_def by (auto split: if_splits)
  then show ?thesis
    using assms(2) dict_set_keys[of c "pv_str (pv_get low (lower (fst kc)))" out] by blast
qed (use assms in \<open>simp_all add: map_entry_def\<close>)

lemma map_entries_allowed:
  "map_entries low kcs out = Inr out' \<Longrightarrow> fst ` set out \<subseteq> set allowed_columns \<Longrightarrow> fst ` set out' \<subseteq> set allowed_columns"
proof (induction kcs arbitrary: out)
  case (Cons kc kcs)
  then obtain out1 where "map_entry low kc out = Inr out1" "map_entries low kcs out1 = Inr out'" by auto
  then show ?case using Cons map_entry_allowed by metis
qed simp

lemma setdefaults_keys:
  "fst ` set (foldl (\<lambda>o1 cv. dict_setdefault (fst cv) (snd cv) o1) d ds) \<subseteq> fst ` set d \<union> fst ` set ds"
proof (induction ds arbitrary: d)
  case (Cons cv ds)
  show ?case
    using Cons[of "dict_setdefault (fst cv) (snd cv) d"] dict_setdefault_keys[of "fst cv" "snd cv" d]
    unfolding foldl.simps list.set image_insert by blast
qed simp

lemma map_fields_allowed:
  assumes "map_fields p r = Inr cvs"
  shows "fst ` set cvs \<subseteq> set allowed_columns"
proof -
  obtain out where out: "map_entries (lower_keys r) (pd_field_map p) [] = Inr out"
      "cvs = foldl (\<lambda>o1 cv. dict_setdefault (fst cv) (snd cv) o1) out (declared p)"
    using assms by (auto simp: map_fields_def)
  have "fst ` set out \<subseteq> set allowed_columns" using map_entries_allowed[OF out(1)] by simp
  moreover have "fst ` set (declared p) \<subseteq> {''vendor'', ''product''}"
    by (simp add: declared_def)
  then have "fst ` set (declared p) \<subseteq> set allowed_columns"
    by (rule subset_trans) (simp add: allowed_columns_def)
  ultimately have "fst ` set out \<union> fst ` set (declared p) \<subseteq> set allowed_columns" by (rule Un_least)
  then show ?thesis unfolding out(2) by (rule subset_trans[OF setdefaults_keys])
qed

lemma fill_keeps:
  assumes "fst cv \<in> set allowed_columns" and "n \<notin> fst ` set (declared p)"
    and "evt_get e n \<noteq> VNone" and "evt_get e n \<noteq> VStr []"
  shows "evt_get (fill p cv e) n = evt_get e n"
  using assms by (auto simp: fill_def evt_get_set_allowed)

lemma fills_keep:
  assumes "fst ` set cvs \<subseteq> set allowed_columns" and "n \<notin> fst ` set (declared p)"
    and "evt_get e n \<noteq> VNone" and "evt_get e n \<noteq> VStr []"
  shows "evt_get (foldl (\<lambda>e cv. fill p cv e) e cvs) n = evt_get e n"
  using assms by (induction cvs arbitrary: e) (simp_all add: fill_keeps)

lemma custom_apply_keeps:
  assumes "\<And>p. p \<in> set ps \<Longrightarrow> n \<notin> fst ` set (declared p)"
    and "evt_get e n \<noteq> VNone" and "evt_get e n \<noteq> VStr []"
  shows "evt_get (custom_apply ps e) n = evt_get e n"
  using assms(1)
proof (induction ps)
  case (Cons p ps)
  show ?case
  proof (cases "pd_matches p (raw e)")
    case True
    then show ?thesis
      using Cons fills_keep[OF map_fields_allowed _ assms(2,3)] by (auto split: sum.splits)
  qed (use Cons in simp)
qed simp

text \<open>A mapped key takes precedence over the vendor a definition declares.\<close>

definition demo_parser :: parser_def where
  "demo_parser = \<lparr>pd_match_key = ''type'', pd_match_value = ''audit'', pd_field_map = [(''origin'', VStr ''vendor'')],
     pd_vendor = Some ''acme'', pd_product = None, pd_kv_source = None, pd_kv_sep = None\<rparr>"

lemma declared_vendor_overridden:
  "vendor (custom_apply [demo_parser]
     ((bare_event ''json'')\<lparr>raw := [(''type'', VStr ''audit''), (''origin'', VStr ''x'')]\<rparr>)) = ''x''"
  by code_simp

section \<open>Properties\<close>

text \<open>A console-authored parser never clobbers a column that has a value, unless the definition declares that column, whatever its field map, separator and raw record are.\<close>

lemma custom_fields_fill_only_gaps:
  assumes "\<And>p. p \<in> set ps \<Longrightarrow> n \<notin> fst ` set (declared p)"
    and "evt_get e n \<noteq> VNone" and "evt_get e n \<noteq> VStr []"
  shows "evt_get (custom_apply ps e) n = evt_get e n"
  using assms by (rule custom_apply_keeps)

lemma custom_fields_fill_only_gaps_example:
  "evt_get (custom_apply [demo_parser] ((bare_event ''json'')\<lparr>user_name := Some ''eve'', raw := [(''type'', VStr ''audit'')]\<rparr>)) ''user_name''
     = VStr ''eve''"
proof -
  let ?e = "(bare_event ''json'')\<lparr>user_name := Some ''eve'', raw := [(''type'', VStr ''audit'')]\<rparr>"
  have u: "evt_get ?e ''user_name'' = VStr ''eve''" by code_simp
  have "''user_name'' \<notin> fst ` set (declared p)" if "p \<in> set [demo_parser]" for p
    using that by (simp add: demo_parser_def declared_def opt_or_def)
  from custom_fields_fill_only_gaps[OF this, of "[demo_parser]" ?e] u show ?thesis by simp
qed

end
