(* ===== verification/Triage.thy ===== *)
theory Triage
  imports SigmaEngine
begin

text \<open>
  Suppressions (\<open>app/triage/suppression.py\<close>, \<open>app/triage/runtime.py\<close>): an allowlist entry is a set of
  conditions over an alert, all of which must hold; the index finds the first entry that matches. An
  alert is the row the engine builds (\<^typ>\<open>alert_row\<close>), which is all the ingest pipeline hands over.
\<close>

section \<open>One suppression\<close>

record suppression =
  sp_id :: int
  sp_name :: string
  sp_rule_id :: "string option"
  sp_vendor :: "string option"
  sp_user_name :: "string option"
  sp_host_name :: "string option"
  sp_src_ip :: "string option"

text \<open>A criterion counts when it is neither missing nor the empty text.\<close>

definition is_set :: "string option \<Rightarrow> bool" where
  "is_set c \<longleftrightarrow> c \<noteq> None \<and> c \<noteq> Some []"

definition sp_criteria :: "suppression \<Rightarrow> string option list" where
  "sp_criteria s = [sp_rule_id s, sp_vendor s, sp_user_name s, sp_host_name s, sp_src_ip s]"

definition sp_is_empty :: "suppression \<Rightarrow> bool" where
  "sp_is_empty s \<longleftrightarrow> \<not> list_ex is_set (sp_criteria s)"

definition ci_eq :: "string option \<Rightarrow> string option \<Rightarrow> bool" where
  "ci_eq a b = (case (a, b) of (Some x, Some y) \<Rightarrow> lower x = lower y | _ \<Rightarrow> False)"

definition ip_match :: "string \<Rightarrow> string option \<Rightarrow> bool" where
  "ip_match pattern v =
     (case v of None \<Rightarrow> False
      | Some x \<Rightarrow>
          if x = [] then False
          else (case ip_network (strip pattern) of
             None \<Rightarrow> lower (strip pattern) = lower (strip x)
           | Some net \<Rightarrow>
               (case ip_address (strip x) of None \<Rightarrow> False | Some addr \<Rightarrow> in_net addr net)))"

definition sp_matches :: "suppression \<Rightarrow> alert_row \<Rightarrow> bool" where
  "sp_matches s a =
     (if sp_is_empty s then False
      else if is_set (sp_rule_id s) \<and> sp_rule_id s \<noteq> Some (al_rule_id a) then False
      else if is_set (sp_vendor s) \<and> \<not> ci_eq (sp_vendor s) (al_vendor a) then False
      else if is_set (sp_user_name s) \<and> \<not> ci_eq (sp_user_name s) (al_user_name a) then False
      else if is_set (sp_host_name s) \<and> \<not> ci_eq (sp_host_name s) (al_host_name a) then False
      else if is_set (sp_src_ip s) \<and> \<not> ip_match (the (sp_src_ip s)) (al_src_ip a) then False
      else True)"

section \<open>The index\<close>

definition supp_index :: "suppression list \<Rightarrow> suppression list" where
  "supp_index rules = filter (\<lambda>s. \<not> sp_is_empty s) rules"

definition supp_add :: "suppression \<Rightarrow> suppression list \<Rightarrow> suppression list" where
  "supp_add s idx = (if sp_is_empty s then idx else idx @ [s])"

fun supp_match :: "suppression list \<Rightarrow> alert_row \<Rightarrow> suppression option" where
  "supp_match [] a = None"
| "supp_match (s # ss) a = (if sp_matches s a then Some s else supp_match ss a)"

text \<open>\<open>reload_index\<close>: the enabled rows of the store, added one by one.\<close>

definition reload_suppressions :: "suppression list \<Rightarrow> suppression list" where
  "reload_suppressions rows = foldl (\<lambda>idx s. supp_add s idx) (supp_index []) rows"

section \<open>Facts\<close>

lemma reload_suppressions_eq: "reload_suppressions rows = supp_index rows"
proof -
  have "foldl (\<lambda>idx s. supp_add s idx) idx rows = idx @ supp_index rows" for idx
    by (induction rows arbitrary: idx) (simp_all add: supp_index_def supp_add_def)
  then show ?thesis by (simp add: reload_suppressions_def supp_index_def)
qed

lemma sp_matches_empty [simp]: "sp_is_empty s \<Longrightarrow> \<not> sp_matches s a"
  by (simp add: sp_matches_def)

lemma supp_match_find: "supp_match idx a = find (\<lambda>s. sp_matches s a) idx"
  by (induction idx) simp_all

lemma supp_match_index: "supp_match (supp_index rules) a = supp_match rules a"
  by (induction rules) (simp_all add: supp_index_def)

lemma supp_match_SomeD:
  assumes "supp_match idx a = Some s"
  shows "s \<in> set idx \<and> sp_matches s a \<and> \<not> sp_is_empty s"
proof -
  have "s \<in> set idx \<and> sp_matches s a"
    using assms by (induction idx) (auto split: if_splits)
  then show ?thesis by (auto simp: sp_matches_def split: if_splits)
qed

text \<open>What a match means, condition by condition.\<close>

definition supp_covers :: "suppression \<Rightarrow> alert_row \<Rightarrow> bool" where
  "supp_covers s a \<longleftrightarrow>
     (\<forall>v. sp_rule_id s = Some v \<longrightarrow> v = [] \<or> al_rule_id a = v) \<and>
     (\<forall>v. sp_vendor s = Some v \<longrightarrow> v = [] \<or> (\<exists>u. al_vendor a = Some u \<and> lower u = lower v)) \<and>
     (\<forall>v. sp_user_name s = Some v \<longrightarrow> v = [] \<or> (\<exists>u. al_user_name a = Some u \<and> lower u = lower v)) \<and>
     (\<forall>v. sp_host_name s = Some v \<longrightarrow> v = [] \<or> (\<exists>u. al_host_name a = Some u \<and> lower u = lower v)) \<and>
     (\<forall>v. sp_src_ip s = Some v \<longrightarrow> v = [] \<or>
        (\<exists>u. al_src_ip a = Some u \<and> u \<noteq> [] \<and>
          (case ip_network (strip v) of
             Some net \<Rightarrow> \<exists>addr. ip_address (strip u) = Some addr \<and> in_net addr net
           | None \<Rightarrow> lower (strip u) = lower (strip v))))"

lemma ci_eq_Some: "ci_eq (Some v) b \<longleftrightarrow> (\<exists>u. b = Some u \<and> lower u = lower v)"
  by (auto simp: ci_eq_def split: option.splits)

lemma ip_match_Some:
  "ip_match p b \<longleftrightarrow>
     (\<exists>u. b = Some u \<and> u \<noteq> [] \<and>
        (case ip_network (strip p) of
           Some net \<Rightarrow> \<exists>addr. ip_address (strip u) = Some addr \<and> in_net addr net
         | None \<Rightarrow> lower (strip u) = lower (strip p)))"
  by (auto simp: ip_match_def split: option.splits)

lemma is_set_Some [simp]: "is_set (Some v) \<longleftrightarrow> v \<noteq> []" "\<not> is_set None"
  by (simp_all add: is_set_def)

lemma sp_matches_covers: "sp_matches s a \<longleftrightarrow> \<not> sp_is_empty s \<and> supp_covers s a"
  by (cases "sp_rule_id s"; cases "sp_vendor s"; cases "sp_user_name s"; cases "sp_host_name s";
      cases "sp_src_ip s")
    (auto simp: sp_matches_def supp_covers_def ci_eq_Some ip_match_Some)

section \<open>Properties\<close>

text \<open>The suppression index answers with the first enabled rule, in the order of the store, that sets at least one criterion and whose every set criterion covers the alert: rule ids exactly, names ignoring case, addresses by network or by text; a rule without criteria never fires.\<close>

lemma first_covering_suppression_fires:
  "supp_match (reload_suppressions rows) a = find (\<lambda>s. \<not> sp_is_empty s \<and> supp_covers s a) rows"
  unfolding reload_suppressions_eq supp_match_index by (simp add: supp_match_find sp_matches_covers)

end
