(* ===== verification/ThreatIntel.thy ===== *)
theory ThreatIntel
  imports SigmaEngine
begin

text \<open>
  Threat intelligence (\<open>app/threatintel/matcher.py\<close>, \<open>clean_ip\<close> of \<open>app/util.py\<close>): the type of an
  indicator from its shape, the index bucketed by type, the observables of an event, matching and the
  alert of a match.

  The four \<open>findall\<close> extractors over free text are parameters (\<open>tokens\<close>). A Python set is visited in the
  order of first occurrence. Texts are UTF-8 bytes, so the dash of the message is three characters here.
\<close>

section \<open>Indicators\<close>

record ioc =
  io_indicator :: string
  io_type :: string
  io_source :: string
  io_severity :: string
  io_description :: string

record ioc_hit =
  ih_indicator :: string
  ih_type :: string
  ih_source :: string
  ih_severity :: string
  ih_observed :: string

definition valid_types :: "string list" where
  "valid_types = [''ip'', ''cidr'', ''domain'', ''hash'', ''url'']"

text \<open>\<open>_HEX_HASH\<close>: 32, 40 or 64 hexadecimal digits.\<close>

definition is_hex_hash :: "string \<Rightarrow> bool" where
  "is_hex_hash s \<longleftrightarrow> list_all is_hex s \<and> length s \<in> {32, 40, 64}"

definition label_char :: "char \<Rightarrow> bool" where
  "label_char c \<longleftrightarrow> is_letter c \<or> is_digit c \<or> c = CHR ''_''"

definition is_label :: "string \<Rightarrow> bool" where
  "is_label l \<longleftrightarrow> l \<noteq> [] \<and> length l \<le> 63 \<and> label_char (hd l) \<and> label_char (last l) \<and>
     list_all (\<lambda>c. label_char c \<or> c = CHR ''-'') l"

text \<open>\<open>_DOMAIN\<close>: at most 253 characters, labels and a top level of at least two letters.\<close>

definition is_domain :: "string \<Rightarrow> bool" where
  "is_domain s \<longleftrightarrow>
     (let ps = split_on CHR ''.'' s in
      length s \<le> 253 \<and> 2 \<le> length ps \<and> list_all is_label (butlast ps) \<and>
      2 \<le> length (last ps) \<and> list_all is_letter (last ps))"

definition is_url :: "string \<Rightarrow> bool" where
  "is_url s \<longleftrightarrow> prefix ''http://'' (lower s) \<or> prefix ''https://'' (lower s)"

definition classify :: "string \<Rightarrow> string option" where
  "classify indicator =
     (let s = strip indicator in
      if s = [] then None
      else if is_url s then Some ''url''
      else if CHR ''/'' \<in> set s then (if ip_network s = None then None else Some ''cidr'')
      else if ip_address s \<noteq> None then Some ''ip''
      else if is_hex_hash s then Some ''hash''
      else if is_domain s then Some ''domain''
      else None)"

definition normalize_ioc :: "string \<Rightarrow> string \<Rightarrow> string" where
  "normalize_ioc indicator t =
     (let s = strip indicator in if t \<in> {''domain'', ''hash'', ''url''} then lower s else s)"

definition str_or :: "string \<Rightarrow> string \<Rightarrow> string" where
  "str_or a b = (if a = [] then b else a)"

definition make_ioc :: "string \<Rightarrow> string \<Rightarrow> string \<Rightarrow> string \<Rightarrow> string option \<Rightarrow> ioc option" where
  "make_ioc indicator source sev description ioc_type =
     (case (case ioc_type of Some t \<Rightarrow> if t \<in> set valid_types then Some t else classify indicator
            | None \<Rightarrow> classify indicator) of
        None \<Rightarrow> None
      | Some t \<Rightarrow> Some \<lparr>io_indicator = normalize_ioc indicator t, io_type = t,
                       io_source = str_or source ''manual'', io_severity = lower (str_or sev ''high''),
                       io_description = description\<rparr>)"

section \<open>The index\<close>

record ioc_index =
  xi_ips :: "(string, ioc) dict"
  xi_cidrs :: "(ipnet \<times> ioc) list"
  xi_domains :: "(string, ioc) dict"
  xi_hashes :: "(string, ioc) dict"
  xi_urls :: "(string, ioc) dict"

definition empty_index :: ioc_index where
  "empty_index = \<lparr>xi_ips = [], xi_cidrs = [], xi_domains = [], xi_hashes = [], xi_urls = []\<rparr>"

definition add_ioc :: "ioc \<Rightarrow> ioc_index \<Rightarrow> ioc_index" where
  "add_ioc i ix =
     (if io_type i = ''ip'' then ix\<lparr>xi_ips := dict_set (io_indicator i) i (xi_ips ix)\<rparr>
      else if io_type i = ''cidr'' then
        (case ip_network (io_indicator i) of None \<Rightarrow> ix
         | Some net \<Rightarrow> ix\<lparr>xi_cidrs := xi_cidrs ix @ [(net, i)]\<rparr>)
      else if io_type i = ''domain'' then ix\<lparr>xi_domains := dict_set (lower (io_indicator i)) i (xi_domains ix)\<rparr>
      else if io_type i = ''hash'' then ix\<lparr>xi_hashes := dict_set (lower (io_indicator i)) i (xi_hashes ix)\<rparr>
      else if io_type i = ''url'' then ix\<lparr>xi_urls := dict_set (lower (io_indicator i)) i (xi_urls ix)\<rparr>
      else ix)"

definition index_size :: "ioc_index \<Rightarrow> nat" where
  "index_size ix = length (xi_ips ix) + length (xi_cidrs ix) + length (xi_domains ix)
     + length (xi_hashes ix) + length (xi_urls ix)"

definition hit_of :: "ioc \<Rightarrow> string \<Rightarrow> string \<Rightarrow> ioc_hit" where
  "hit_of i t observed =
     \<lparr>ih_indicator = io_indicator i, ih_type = t, ih_source = io_source i,
      ih_severity = io_severity i, ih_observed = observed\<rparr>"

definition ip_hit :: "ioc_index \<Rightarrow> string \<Rightarrow> ioc_hit option" where
  "ip_hit ix ip =
     (case dict_get (xi_ips ix) ip of
        Some i \<Rightarrow> Some (hit_of i ''ip'' ip)
      | None \<Rightarrow>
          (case ip_address ip of None \<Rightarrow> None
           | Some addr \<Rightarrow> map_option (\<lambda>p. hit_of (snd p) ''cidr'' ip)
                            (find (\<lambda>p. in_net addr (fst p)) (xi_cidrs ix))))"

section \<open>Observables\<close>

fun scalars_of_vals :: "nat \<Rightarrow> pyval list \<Rightarrow> string list"
  and scalars_of_items :: "nat \<Rightarrow> (string, pyval) dict \<Rightarrow> string list"
  and scalars_of :: "nat \<Rightarrow> pyval \<Rightarrow> string list"
where
  "scalars_of_vals d [] = []"
| "scalars_of_vals d (v # vs) = scalars_of d v @ scalars_of_vals d vs"
| "scalars_of_items d [] = []"
| "scalars_of_items d ((k, v) # kvs) = scalars_of d v @ scalars_of_items d kvs"
| "scalars_of d (VDict kvs) = (if 16 < d then [] else scalars_of_items (Suc d) kvs)"
| "scalars_of d (VList vs) = (if 16 < d then [] else scalars_of_vals (Suc d) vs)"
| "scalars_of d VNone = []"
| "scalars_of d v = (if 16 < d then [] else [pv_str v])"

definition observables :: "event \<Rightarrow> string list" where
  "observables e =
     filter (\<lambda>s. s \<noteq> []) (List.map_filter id
       [src_ip e, dst_ip e, host_name e, app e, user_name e, rule_name e, message e])
     @ scalars_of 0 (VDict (raw e))"

record tokens =
  tk_ips :: "string \<Rightarrow> string list"
  tk_hashes :: "string \<Rightarrow> string list"
  tk_urls :: "string \<Rightarrow> string list"
  tk_domains :: "string \<Rightarrow> string list"

text \<open>\<open>s.rstrip(cs)\<close>.\<close>

definition rstrip_chars :: "char set \<Rightarrow> string \<Rightarrow> string" where
  "rstrip_chars cs s = rev (dropWhile (\<lambda>c. c \<in> cs) (rev s))"

definition url_key :: "string \<Rightarrow> string" where
  "url_key u = rstrip_chars (set ''.,);'') (lower u)"

definition ip_candidates :: "tokens \<Rightarrow> event \<Rightarrow> string \<Rightarrow> string list" where
  "ip_candidates tk e blob =
     remdups (filter (\<lambda>s. s \<noteq> [] \<and> s \<noteq> ''None'') (List.map_filter id [src_ip e, dst_ip e]) @ tk_ips tk blob)"

definition bucket_hits :: "(string, ioc) dict \<Rightarrow> (string \<Rightarrow> string) \<Rightarrow> string \<Rightarrow> string list \<Rightarrow> ioc_hit list" where
  "bucket_hits d key t ts =
     List.map_filter (\<lambda>x. map_option (\<lambda>i. hit_of i t x) (dict_get d (key x))) (remdups ts)"

text \<open>\<open>hits.setdefault(hit.indicator, hit)\<close>: the first hit of every indicator.\<close>

fun first_hits :: "ioc_hit list \<Rightarrow> ioc_hit list \<Rightarrow> ioc_hit list" where
  "first_hits out [] = out"
| "first_hits out (h # hs) =
     first_hits (if ih_indicator h \<in> set (map ih_indicator out) then out else out @ [h]) hs"

definition ti_match :: "tokens \<Rightarrow> ioc_index \<Rightarrow> event \<Rightarrow> ioc_hit list" where
  "ti_match tk ix e =
     (let blob = join '' '' (observables e) in
      first_hits []
        (List.map_filter (ip_hit ix) (ip_candidates tk e blob)
         @ bucket_hits (xi_hashes ix) lower ''hash'' (tk_hashes tk blob)
         @ bucket_hits (xi_urls ix) url_key ''url'' (tk_urls tk blob)
         @ bucket_hits (xi_domains ix) lower ''domain'' (tk_domains tk blob)))"

section \<open>The alert\<close>

definition sev_rank :: "(string, nat) dict" where
  "sev_rank = [(''informational'', 0), (''low'', 1), (''medium'', 2), (''high'', 3), (''critical'', 4)]"

definition rank_of :: "string \<Rightarrow> nat" where
  "rank_of s = (case dict_get sev_rank s of Some n \<Rightarrow> n | None \<Rightarrow> 2)"

text \<open>\<open>max(\<dots>, key=\<dots>, default="high")\<close>: the first of the greatest.\<close>

definition max_severity :: "ioc_hit list \<Rightarrow> string" where
  "max_severity hits =
     (case map ih_severity hits of [] \<Rightarrow> ''high''
      | s # ss \<Rightarrow> foldl (\<lambda>m s. if rank_of m < rank_of s then s else m) s ss)"

definition short_source :: "string \<Rightarrow> string" where
  "short_source source =
     (let s = (if prefix ''http://'' source then drop 7 source
               else if prefix ''https://'' source then drop 8 source else source)
      in str_or (take 40 (hd (split_on CHR ''/'' s))) (take 40 source))"

definition ti_message :: "ioc_hit list \<Rightarrow> string" where
  "ti_message hits =
     (let shown = join '', '' (map (\<lambda>h. ih_indicator h @ '' ('' @ ih_type h @ '')'') (take 5 hits));
          extra = (if 5 < length hits then '' [+'' @ int_str (int (length hits) - 5) @ '' more]'' else []);
          feeds = join '', '' (sort (remdups (map (\<lambda>h. short_source (ih_source h)) hits)));
          front = ''Threat-intel match: '' @ shown @ extra @ '' '';
          dash = map char_of [226, 128, 148 :: int]
      in take (if length front < 1000 then 1002 else 1000) (front @ dash @ '' source: '' @ feeds))"

definition ti_alert :: "ioc_hit list \<Rightarrow> event \<Rightarrow> string \<Rightarrow> int option \<Rightarrow> alert_row" where
  "ti_alert hits e dedup batch =
     \<lparr>al_event_time = event_time e, al_rule_id = ''ti-ioc-match'', al_rule_title = ''Threat Intelligence Match'',
      al_level = max_severity hits, al_tactics = [], al_techniques = [], al_vendor = Some (vendor e),
      al_src_ip = src_ip e, al_dst_ip = dst_ip e, al_user_name = user_name e, al_host_name = host_name e,
      al_message = Some (ti_message hits), al_dedup_hash = dedup, al_batch_id = batch, al_status = ''open''\<rparr>"

section \<open>Cleaning addresses\<close>

text \<open>\<open>clean_ip\<close>, which every parser applies to an address field.\<close>

definition clean_ip :: "string \<Rightarrow> string option" where
  "clean_ip v =
     (let s = rev (dropWhile (\<lambda>c. c = CHR 34) (rev (dropWhile (\<lambda>c. c = CHR 34) (strip v)))) in
      if s = [] \<or> s = ''0.0.0.0'' \<or> s = ''::'' then None else map_option ip_str (ip_address s))"

section \<open>Facts\<close>

lemma first_hits_indicators:
  "set (map ih_indicator (first_hits out hs)) = set (map ih_indicator out) \<union> set (map ih_indicator hs)"
  by (induction out hs rule: first_hits.induct) auto

lemma first_hits_distinct:
  "distinct (map ih_indicator out) \<Longrightarrow> distinct (map ih_indicator (first_hits out hs))"
  by (induction out hs rule: first_hits.induct) auto

lemma first_hits_subset: "set (first_hits out hs) \<subseteq> set out \<union> set hs"
  by (induction out hs rule: first_hits.induct) (auto split: if_splits)

definition all_iocs :: "ioc_index \<Rightarrow> ioc set" where
  "all_iocs ix = snd ` set (xi_ips ix) \<union> snd ` set (xi_cidrs ix) \<union> snd ` set (xi_domains ix)
     \<union> snd ` set (xi_hashes ix) \<union> snd ` set (xi_urls ix)"

lemma ip_hit_ioc:
  assumes "ip_hit ix ip = Some h"
  shows "\<exists>i\<in>all_iocs ix. ih_indicator h = io_indicator i \<and> ih_severity h = io_severity i"
  using assms
proof (cases "dict_get (xi_ips ix) ip")
  case None
  then obtain p where "p \<in> set (xi_cidrs ix)" "h = hit_of (snd p) ''cidr'' ip"
    using assms by (auto simp: ip_hit_def split: option.splits dest: find_SomeD)
  then show ?thesis by (auto simp: hit_of_def all_iocs_def intro!: bexI[of _ "snd p"])
next
  case (Some i)
  then show ?thesis using assms dict_get_value[OF Some]
    by (auto simp: ip_hit_def hit_of_def all_iocs_def intro!: bexI[of _ i])
qed

lemma bucket_hits_ioc:
  "h \<in> set (bucket_hits d key t ts) \<Longrightarrow>
     \<exists>i\<in>snd ` set d. ih_indicator h = io_indicator i \<and> ih_severity h = io_severity i"
  by (force simp: bucket_hits_def set_map_filter hit_of_def dest: dict_get_value)

lemma ti_match_sound:
  assumes "h \<in> set (ti_match tk ix e)"
  shows "\<exists>i\<in>all_iocs ix. ih_indicator h = io_indicator i \<and> ih_severity h = io_severity i"
proof -
  let ?b = "join '' '' (observables e)"
  consider "h \<in> set (List.map_filter (ip_hit ix) (ip_candidates tk e ?b))"
    | "h \<in> set (bucket_hits (xi_hashes ix) lower ''hash'' (tk_hashes tk ?b))"
    | "h \<in> set (bucket_hits (xi_urls ix) url_key ''url'' (tk_urls tk ?b))"
    | "h \<in> set (bucket_hits (xi_domains ix) lower ''domain'' (tk_domains tk ?b))"
    using assms first_hits_subset unfolding ti_match_def Let_def set_append by fastforce
  then show ?thesis
  proof cases
    case 1
    then show ?thesis using ip_hit_ioc by (auto simp: set_map_filter)
  qed (drule bucket_hits_ioc, auto simp: all_iocs_def)+
qed

lemma ti_match_candidate:
  assumes "a \<in> set (ip_candidates tk e (join '' '' (observables e)))" and "ip_hit ix a = Some h"
  shows "ih_indicator h \<in> ih_indicator ` set (ti_match tk ix e)"
proof -
  have "h \<in> set (List.map_filter (ip_hit ix) (ip_candidates tk e (join '' '' (observables e))))"
    using assms by (auto simp: set_map_filter)
  then show ?thesis
    using first_hits_indicators[of "[]"] unfolding ti_match_def Let_def by simp
qed

lemma ip_hit_listed:
  assumes "dict_get (xi_ips ix) a \<noteq> None \<or>
    (\<exists>addr net i. ip_address a = Some addr \<and> (net, i) \<in> set (xi_cidrs ix) \<and> in_net addr net)"
  shows "ip_hit ix a \<noteq> None"
proof (cases "dict_get (xi_ips ix) a")
  case None
  then obtain addr net i where "ip_address a = Some addr" "(net, i) \<in> set (xi_cidrs ix)" "in_net addr net"
    using assms by auto
  then show ?thesis using None by (auto simp: ip_hit_def find_None_iff)
qed (simp add: ip_hit_def)

text \<open>What it means that an event touches an indicator.\<close>

definition touches :: "tokens \<Rightarrow> ioc_index \<Rightarrow> event \<Rightarrow> string \<Rightarrow> bool" where
  "touches tk ix e ind \<longleftrightarrow>
     (\<exists>a\<in>set (ip_candidates tk e (join '' '' (observables e))).
        case dict_get (xi_ips ix) a of
          Some i \<Rightarrow> io_indicator i = ind
        | None \<Rightarrow> \<exists>addr p. ip_address a = Some addr \<and> find (\<lambda>p. in_net addr (fst p)) (xi_cidrs ix) = Some p \<and>
            io_indicator (snd p) = ind) \<or>
     (\<exists>t\<in>set (tk_hashes tk (join '' '' (observables e))).
        \<exists>i. dict_get (xi_hashes ix) (lower t) = Some i \<and> io_indicator i = ind) \<or>
     (\<exists>t\<in>set (tk_urls tk (join '' '' (observables e))).
        \<exists>i. dict_get (xi_urls ix) (url_key t) = Some i \<and> io_indicator i = ind) \<or>
     (\<exists>t\<in>set (tk_domains tk (join '' '' (observables e))).
        \<exists>i. dict_get (xi_domains ix) (lower t) = Some i \<and> io_indicator i = ind)"

lemma ip_hit_indicator:
  "ind \<in> ih_indicator ` set (List.map_filter (ip_hit ix) as) \<longleftrightarrow>
     (\<exists>a\<in>set as. case dict_get (xi_ips ix) a of
          Some i \<Rightarrow> io_indicator i = ind
        | None \<Rightarrow> \<exists>addr p. ip_address a = Some addr \<and> find (\<lambda>p. in_net addr (fst p)) (xi_cidrs ix) = Some p \<and>
            io_indicator (snd p) = ind)"
proof -
  have "(\<exists>h. ip_hit ix a = Some h \<and> ih_indicator h = ind) \<longleftrightarrow>
      (case dict_get (xi_ips ix) a of
          Some i \<Rightarrow> io_indicator i = ind
        | None \<Rightarrow> \<exists>addr p. ip_address a = Some addr \<and> find (\<lambda>p. in_net addr (fst p)) (xi_cidrs ix) = Some p \<and>
            io_indicator (snd p) = ind)" for a
    by (cases "dict_get (xi_ips ix) a"; cases "ip_address a") (auto simp: ip_hit_def hit_of_def)
  moreover have "ind \<in> ih_indicator ` set (List.map_filter (ip_hit ix) as) \<longleftrightarrow>
      (\<exists>a\<in>set as. \<exists>h. ip_hit ix a = Some h \<and> ih_indicator h = ind)"
    by (auto simp: set_map_filter image_iff)
  ultimately show ?thesis by simp
qed

lemma bucket_hits_indicator:
  "ind \<in> ih_indicator ` set (bucket_hits d key t ts) \<longleftrightarrow>
     (\<exists>x\<in>set ts. \<exists>i. dict_get d (key x) = Some i \<and> io_indicator i = ind)"
  by (force simp: bucket_hits_def set_map_filter hit_of_def image_iff)

lemma ti_match_touches: "ind \<in> ih_indicator ` set (ti_match tk ix e) \<longleftrightarrow> touches tk ix e ind"
proof -
  have "ih_indicator ` set (first_hits [] hs) = ih_indicator ` set hs" for hs
    using first_hits_indicators[of "[]" hs] by simp
  then show ?thesis
    unfolding ti_match_def Let_def touches_def
    by (simp only: set_append image_Un Un_iff ip_hit_indicator bucket_hits_indicator disj_assoc)
qed

text \<open>An indicator that is not spelled canonically never hits the canonical form of its own address.\<close>

lemma noncanonical_indicator_unmatched:
  assumes "classify s = Some ''ip''" and "ip_address (strip s) = Some a" and "strip s \<noteq> ip_str a"
  shows "\<exists>i. make_ioc s source sev descr None = Some i \<and> ip_hit (add_ioc i empty_index) (ip_str a) = None"
proof -
  define i where "i = \<lparr>io_indicator = strip s, io_type = ''ip'', io_source = str_or source ''manual'',
      io_severity = lower (str_or sev ''high''), io_description = descr\<rparr>"
  have "make_ioc s source sev descr None = Some i" using assms(1) by (simp add: make_ioc_def normalize_ioc_def i_def)
  moreover have "ip_hit (add_ioc i empty_index) (ip_str a) = None"
    using assms(3) by (simp add: ip_hit_def add_ioc_def empty_index_def i_def split: option.splits)
  ultimately show ?thesis by blast
qed

lemma noncanonical_indicator_example:
  "classify ''2001:DB8::1'' = Some ''ip'' \<and> clean_ip ''2001:DB8::1'' = Some ''2001:db8::1''"
  by code_simp

section \<open>Properties\<close>

text \<open>Matching an event against the indicators reports exactly the indicators it touches, each once: a listed address or the first listed network around it, and hashes, links and domains found in its text.\<close>

lemma hits_are_touched_indicators:
  "(ind \<in> ih_indicator ` set (ti_match tk ix e) \<longleftrightarrow> touches tk ix e ind) \<and>
    distinct (map ih_indicator (ti_match tk ix e))"
  using first_hits_distinct[of "[]"] by (simp add: ti_match_touches) (simp add: ti_match_def Let_def)

end
