(* ===== verification/Baselines.thy ===== *)
theory Baselines
  imports Event
begin

text \<open>
  Entity baselines (\<open>app/risk.py\<close>, \<open>_upsert_baselines\<close> of \<open>app/pipeline.py\<close>, the two upserts of
  \<open>app/db.py\<close>): the entities and associations an event touches, their aggregation over a chunk, and the
  merge into the stored first-seen, last-seen and count.
\<close>

section \<open>Entities and links\<close>

definition present :: "string option \<Rightarrow> string option" where
  "present o1 = (case o1 of Some s \<Rightarrow> if s = [] then None else Some s | None \<Rightarrow> None)"

definition event_entities :: "event \<Rightarrow> (string \<times> string) list" where
  "event_entities e =
     List.map_filter (\<lambda>(t, v). map_option (Pair t) (present v))
       [(''user'', user_name e), (''host'', host_name e), (''ip'', src_ip e)]"

type_synonym link = "string \<times> string \<times> string \<times> string"

definition link_of :: "string \<Rightarrow> string option \<Rightarrow> string \<Rightarrow> string option \<Rightarrow> link option" where
  "link_of t v t' v' =
     (case (present v, present v') of (Some a, Some b) \<Rightarrow> Some (t, a, t', b) | _ \<Rightarrow> None)"

definition event_links :: "event \<Rightarrow> link list" where
  "event_links e =
     List.map_filter id
       [link_of ''user'' (user_name e) ''ip'' (src_ip e),
        link_of ''user'' (user_name e) ''host'' (host_name e),
        link_of ''host'' (host_name e) ''ip'' (dst_ip e)]"

section \<open>Aggregating a chunk\<close>

text \<open>Count, first and last time. Comparing with a missing time raises.\<close>

type_synonym span = "nat \<times> int option \<times> int option"

definition touch :: "int option \<Rightarrow> 'k \<Rightarrow> ('k, span) dict \<Rightarrow> py_error + ('k, span) dict" where
  "touch t k d =
     (case dict_get d k of
        None \<Rightarrow> Inr (dict_set k (1, t, t) d)
      | Some (c, f, l) \<Rightarrow>
          (case (t, f, l) of
             (Some a, Some b, Some z) \<Rightarrow> Inr (dict_set k (Suc c, Some (min b a), Some (max z a)) d)
           | _ \<Rightarrow> Inl TypeError))"

fun touch_all :: "int option \<Rightarrow> 'k list \<Rightarrow> ('k, span) dict \<Rightarrow> py_error + ('k, span) dict" where
  "touch_all t [] d = Inr d"
| "touch_all t (k # ks) d = sbind (touch t k d) (touch_all t ks)"

fun aggregate :: "(event \<Rightarrow> 'k list) \<Rightarrow> event list \<Rightarrow> ('k, span) dict \<Rightarrow> py_error + ('k, span) dict" where
  "aggregate keys [] d = Inr d"
| "aggregate keys (e # es) d = sbind (touch_all (event_time e) (keys e) d) (aggregate keys es)"

section \<open>The stored baselines\<close>

type_synonym 'k baselines = "('k, nat \<times> int \<times> int) dict"

text \<open>One row of the upsert: a new key is inserted, a known one merged by the least first time, the
  greatest last time and the sum of the counts. A row without its times violates NOT NULL.\<close>

definition upsert_row :: "'k \<times> span \<Rightarrow> 'k baselines \<Rightarrow> py_error + 'k baselines" where
  "upsert_row row st =
     (case row of
        (k, c, Some f, Some l) \<Rightarrow>
          Inr (dict_set k (case dict_get st k of None \<Rightarrow> (c, f, l)
                           | Some (c', f', l') \<Rightarrow> (c' + c, min f' f, max l' l)) st)
      | _ \<Rightarrow> Inl ValueError)"

fun upsert_rows :: "('k \<times> span) list \<Rightarrow> 'k baselines \<Rightarrow> py_error + 'k baselines" where
  "upsert_rows [] st = Inr st"
| "upsert_rows (r # rs) st = sbind (upsert_row r st) (upsert_rows rs)"

definition upsert_baselines ::
    "event list \<Rightarrow> (string \<times> string) baselines \<times> link baselines
       \<Rightarrow> py_error + (string \<times> string) baselines \<times> link baselines" where
  "upsert_baselines evts st =
     sbind (aggregate event_entities evts []) (\<lambda>ents.
     sbind (aggregate event_links evts []) (\<lambda>lnks.
     sbind (upsert_rows ents (fst st)) (\<lambda>es.
     sbind (upsert_rows lnks (snd st)) (\<lambda>ls. Inr (es, ls)))))"

section \<open>What a baseline says\<close>

text \<open>The times at which a key was touched, one per occurrence.\<close>

definition times_of :: "(event \<Rightarrow> 'k list) \<Rightarrow> 'k \<Rightarrow> event list \<Rightarrow> int list" where
  "times_of keys k evts = concat (map (\<lambda>e. map (\<lambda>_. the (event_time e)) (filter (\<lambda>j. j = k) (keys e))) evts)"

definition timed :: "event list \<Rightarrow> bool" where
  "timed evts \<longleftrightarrow> (\<forall>e\<in>set evts. event_time e \<noteq> None)"

text \<open>A list of times as a baseline, and one more time added to a baseline.\<close>

definition see :: "int \<Rightarrow> (nat \<times> int \<times> int) option \<Rightarrow> (nat \<times> int \<times> int) option" where
  "see t b = (case b of None \<Rightarrow> Some (1, t, t) | Some (c, f, l) \<Rightarrow> Some (Suc c, min f t, max l t))"

definition seen :: "int list \<Rightarrow> (nat \<times> int \<times> int) option \<Rightarrow> (nat \<times> int \<times> int) option" where
  "seen ts b = fold see ts b"

lemma seen_simps [simp]: "seen [] b = b" "seen (t # ts) b = seen ts (see t b)"
  "seen (as @ bs) b = seen bs (seen as b)"
  by (simp_all add: seen_def)

lemma seen_Min_Max:
  "ts \<noteq> [] \<Longrightarrow> seen ts None = Some (length ts, Min (set ts), Max (set ts))"
proof (induction ts rule: rev_induct)
  case (snoc t ts)
  show ?case
  proof (cases "ts = []")
    case False
    then show ?thesis using snoc by (simp add: see_def min.commute max.commute)
  qed (simp add: see_def)
qed simp

definition join_spans :: "(nat \<times> int \<times> int) option \<Rightarrow> (nat \<times> int \<times> int) option \<Rightarrow> (nat \<times> int \<times> int) option" where
  "join_spans a b =
     (case (a, b) of (None, _) \<Rightarrow> b | (_, None) \<Rightarrow> a
      | (Some (c, f, l), Some (c', f', l')) \<Rightarrow> Some (c + c', min f f', max l l'))"

lemma join_spans_see: "join_spans a (see t b) = see t (join_spans a b)"
  by (auto simp: join_spans_def see_def min.assoc max.assoc split: option.splits)

lemma join_spans_seen: "join_spans a (seen ts None) = seen ts a"
proof (induction ts rule: rev_induct)
  case Nil
  show ?case by (simp add: join_spans_def split: option.splits)
next
  case (snoc t ts)
  then show ?case by (simp add: join_spans_see)
qed

definition as_span :: "(nat \<times> int \<times> int) option \<Rightarrow> span option" where
  "as_span b = map_option (\<lambda>(c, f, l). (c, Some f, Some l)) b"

text \<open>A dictionary of spans that holds what a function of the keys says.\<close>

definition holds :: "('k, span) dict \<Rightarrow> ('k \<Rightarrow> (nat \<times> int \<times> int) option) \<Rightarrow> bool" where
  "holds d b \<longleftrightarrow> distinct (map fst d) \<and> (\<forall>k. dict_get d k = as_span (b k))"

lemma holds_Nil: "holds [] (\<lambda>_. None)"
  by (simp add: holds_def as_span_def)

lemma touch_holds:
  assumes "holds d b"
  shows "\<exists>d'. touch (Some t) k d = Inr d' \<and> holds d' (b(k := see t (b k)))"
proof (cases "b k")
  case None
  then have "dict_get d k = None" using assms by (simp add: holds_def as_span_def)
  then show ?thesis using assms None by (auto simp: touch_def holds_def as_span_def see_def)
next
  case (Some cfl)
  obtain c f l where b: "b k = Some (c, f, l)" using Some by (cases cfl) auto
  then have "dict_get d k = Some (c, Some f, Some l)" using assms by (simp add: holds_def as_span_def)
  then show ?thesis using assms b by (auto simp: touch_def holds_def as_span_def see_def)
qed

lemma touch_all_holds:
  assumes "holds d b"
  shows "\<exists>d'. touch_all (Some t) ks d = Inr d' \<and> holds d' (\<lambda>k. seen (map (\<lambda>_. t) (filter (\<lambda>j. j = k) ks)) (b k))"
  using assms
proof (induction ks arbitrary: d b)
  case (Cons j ks)
  obtain d1 where d1: "touch (Some t) j d = Inr d1" "holds d1 (b(j := see t (b j)))"
    using touch_holds[OF Cons.prems] by blast
  obtain d2 where d2: "touch_all (Some t) ks d1 = Inr d2"
      "holds d2 (\<lambda>k. seen (map (\<lambda>_. t) (filter (\<lambda>j. j = k) ks)) ((b(j := see t (b j))) k))"
    using Cons.IH[OF d1(2)] by blast
  have "(\<lambda>k. seen (map (\<lambda>_. t) (filter (\<lambda>j. j = k) ks)) ((b(j := see t (b j))) k))
      = (\<lambda>k. seen (map (\<lambda>_. t) (filter (\<lambda>i. i = k) (j # ks))) (b k))"
    by (intro ext) auto
  then show ?case using d1 d2 by auto
qed auto

lemma aggregate_holds:
  assumes "holds d b" and "timed evts"
  shows "\<exists>d'. aggregate keys evts d = Inr d' \<and> holds d' (\<lambda>k. seen (times_of keys k evts) (b k))"
  using assms
proof (induction evts arbitrary: d b)
  case Nil
  then show ?case by (auto simp: times_of_def)
next
  case (Cons e evts)
  obtain t where t: "event_time e = Some t" using Cons.prems(2) by (auto simp: timed_def)
  obtain d1 where d1: "touch_all (Some t) (keys e) d = Inr d1"
      "holds d1 (\<lambda>k. seen (map (\<lambda>_. t) (filter (\<lambda>j. j = k) (keys e))) (b k))"
    using touch_all_holds[OF Cons.prems(1)] by blast
  have "timed evts" using Cons.prems(2) by (simp add: timed_def)
  then obtain d2 where "aggregate keys evts d1 = Inr d2"
      "holds d2 (\<lambda>k. seen (times_of keys k evts) (seen (map (\<lambda>_. t) (filter (\<lambda>j. j = k) (keys e))) (b k)))"
    using Cons.IH[OF d1(2)] by blast
  then show ?case using d1(1) t by (simp add: times_of_def)
qed

lemma dict_get_Cons: "dict_get ((k, v) # d) j = (if j = k then Some v else dict_get d j)"
  by (simp add: dict_get_def)

definition strict :: "span \<Rightarrow> nat \<times> int \<times> int" where
  "strict s = (case s of (c, f, l) \<Rightarrow> (c, the f, the l))"

lemma upsert_rows_get:
  assumes "distinct (map fst rows)" and "\<forall>p\<in>set rows. \<exists>c f l. snd p = (c, Some f, Some l)"
  shows "\<exists>st'. upsert_rows rows st = Inr st' \<and>
    (\<forall>k. dict_get st' k = join_spans (dict_get st k) (map_option strict (dict_get rows k)))"
  using assms
proof (induction rows arbitrary: st)
  case Nil
  then show ?case by (auto simp: join_spans_def split: option.splits)
next
  case (Cons r rows)
  obtain k c f l where r: "r = (k, c, Some f, Some l)"
    using Cons.prems(2) by (cases r) auto
  define st1 where "st1 = dict_set k (case dict_get st k of None \<Rightarrow> (c, f, l)
                           | Some (c', f', l') \<Rightarrow> (c' + c, min f' f, max l' l)) st"
  have u: "upsert_row r st = Inr st1" by (simp add: upsert_row_def r st1_def)
  have p: "distinct (map fst rows)" "\<forall>p\<in>set rows. \<exists>c f l. snd p = (c, Some f, Some l)"
    using Cons.prems by simp_all
  obtain st' where st': "upsert_rows rows st1 = Inr st'"
      "\<forall>j. dict_get st' j = join_spans (dict_get st1 j) (map_option strict (dict_get rows j))"
    using Cons.IH[OF p] by blast
  have nk: "dict_get rows k = None"
    using Cons.prems(1) r by (auto simp: dict_get_def map_of_eq_None_iff)
  have "dict_get st' j = join_spans (dict_get st j) (map_option strict (dict_get (r # rows) j))" for j
  proof (cases "j = k")
    case True
    have "dict_get st' k = dict_get st1 k"
      using st'(2) nk by (simp add: join_spans_def split: option.splits)
    also have "\<dots> = join_spans (dict_get st k) (Some (c, f, l))"
      by (auto simp: st1_def join_spans_def split: option.splits)
    finally show ?thesis using True by (simp add: r dict_get_Cons strict_def)
  next
    case False
    then show ?thesis using st'(2) by (simp add: st1_def r dict_get_Cons)
  qed
  then show ?case using u st'(1) by auto
qed

lemma upsert_rows_holds:
  assumes "holds d b"
  shows "\<exists>st'. upsert_rows d st = Inr st' \<and> (\<forall>k. dict_get st' k = join_spans (dict_get st k) (b k))"
proof -
  have d: "distinct (map fst d)" and g: "\<And>k. dict_get d k = as_span (b k)"
    using assms by (auto simp: holds_def)
  have "\<exists>c f l. snd p = (c, Some f, Some l)" if "p \<in> set d" for p
  proof -
    have "dict_get d (fst p) = Some (snd p)" using that d dict_get_Some_iff[of d "fst p" "snd p"] by simp
    then obtain c f l where "Some (c, Some f, Some l) = Some (snd p)"
      unfolding g by (auto simp: as_span_def)
    then have "snd p = (c, Some f, Some l)" by simp
    then show ?thesis by blast
  qed
  then obtain st' where st': "upsert_rows d st = Inr st'"
      "\<forall>k. dict_get st' k = join_spans (dict_get st k) (map_option strict (dict_get d k))"
    using upsert_rows_get[OF d] by blast
  have "map_option strict (dict_get d k) = b k" for k
    unfolding g by (cases "b k") (auto simp: as_span_def strict_def)
  then show ?thesis using st' by auto
qed

text \<open>A chunk of timed events never fails, and every baseline becomes what it was plus the times of
  the chunk.\<close>

lemma upsert_baselines_seen:
  assumes "timed evts"
  shows "\<exists>st'. upsert_baselines evts st = Inr st' \<and>
    (\<forall>k. dict_get (fst st') k = seen (times_of event_entities k evts) (dict_get (fst st) k)) \<and>
    (\<forall>k. dict_get (snd st') k = seen (times_of event_links k evts) (dict_get (snd st) k))"
proof -
  obtain ents where e: "aggregate event_entities evts [] = Inr ents"
      "holds ents (\<lambda>k. seen (times_of event_entities k evts) None)"
    using aggregate_holds[OF holds_Nil assms] by blast
  obtain lnks where l: "aggregate event_links evts [] = Inr lnks"
      "holds lnks (\<lambda>k. seen (times_of event_links k evts) None)"
    using aggregate_holds[OF holds_Nil assms] by blast
  obtain es where es: "upsert_rows ents (fst st) = Inr es"
      "\<forall>k. dict_get es k = join_spans (dict_get (fst st) k) (seen (times_of event_entities k evts) None)"
    using upsert_rows_holds[OF e(2)] by blast
  obtain ls where ls: "upsert_rows lnks (snd st) = Inr ls"
      "\<forall>k. dict_get ls k = join_spans (dict_get (snd st) k) (seen (times_of event_links k evts) None)"
    using upsert_rows_holds[OF l(2)] by blast
  show ?thesis using e l es ls by (simp add: upsert_baselines_def join_spans_seen)
qed

lemma times_of_append: "times_of keys k (as @ bs) = times_of keys k as @ times_of keys k bs"
  by (simp add: times_of_def)

section \<open>Properties\<close>

text \<open>Upserting a chunk of timed events into empty baselines never fails, and gives every entity the number of its occurrences with the earliest and the latest of their times.\<close>

lemma baselines_count_times:
  assumes "timed evts" and "times_of event_entities k evts \<noteq> []"
  shows "\<exists>st'. upsert_baselines evts ([], []) = Inr st' \<and>
    dict_get (fst st') k = Some (length (times_of event_entities k evts),
      Min (set (times_of event_entities k evts)), Max (set (times_of event_entities k evts)))"
proof -
  obtain st' where st: "upsert_baselines evts ([], []) = Inr st'"
      "\<forall>k. dict_get (fst st') k = seen (times_of event_entities k evts) None"
    using upsert_baselines_seen[OF assms(1), of "([], [])", unfolded fst_conv snd_conv dict_get_Nil] by blast
  from st(2)[rule_format, of k] show ?thesis using st(1) seen_Min_Max[OF assms(2)] by simp
qed

lemma baselines_count_times_example:
  "\<exists>st'. upsert_baselines [(bare_event ''a'')\<lparr>event_time := Some 9, user_name := Some ''eve''\<rparr>,
        (bare_event ''a'')\<lparr>event_time := Some 4, user_name := Some ''eve''\<rparr>] ([], []) = Inr st' \<and>
     dict_get (fst st') (''user'', ''eve'') = Some (2, 4, 9)"
proof -
  let ?es = "[(bare_event ''a'')\<lparr>event_time := Some 9, user_name := Some ''eve''\<rparr>,
        (bare_event ''a'')\<lparr>event_time := Some 4, user_name := Some ''eve''\<rparr>]"
  have "timed ?es" by (simp add: timed_def)
  moreover have t: "times_of event_entities (''user'', ''eve'') ?es = [9, 4]"
    by code_simp
  ultimately show ?thesis using baselines_count_times[of ?es "(''user'', ''eve'')"] by (simp add: numeral_2_eq_2)
qed

end
