(* ===== verification/Pipeline.thy ===== *)
theory Pipeline
  imports IngestDecide CustomParser Triage ThreatIntel Baselines
begin

text \<open>
  The ingest pipeline (\<open>app/pipeline.py\<close>) and the writes it does (\<open>insert_events\<close>, \<open>_row\<close>,
  \<open>insert_alerts\<close>, \<open>bump_suppressions\<close> of \<open>app/db.py\<close>): one event goes through the fallback time, the
  custom parsers, the ingest actions, CIM membership, detection, threat intelligence and suppression, and
  is written with its chunk.

  The database is the record \<open>store\<close>: rows under their unique keys, \<open>ON CONFLICT DO NOTHING\<close>. What the
  \<open>inet\<close> cast of an address column accepts is a parameter; a value it refuses aborts the transaction.
  The asset and geo columns of a row are left out. \<open>insert_events\<close> takes \<open>cim_tags\<close> and
  \<open>evaluate_event\<close> takes \<open>tags\<close>, so both are passed.
\<close>

section \<open>The store\<close>

record event_row =
  er_event :: event
  er_src_port :: "int option"
  er_dst_port :: "int option"
  er_bytes_total :: "int option"
  er_tsv :: string
  er_cim_models :: "string list option"
  er_batch_id :: int
  er_dedup_hash :: string

record store =
  st_rows :: "event_row list"
  st_alerts :: "alert_row list"
  st_hits :: "(int, nat) dict"
  st_baselines :: "(string \<times> string) baselines \<times> link baselines"

text \<open>What a run of the pipeline is configured with; \<open>w_registry\<close> is what \<open>get_registry()\<close> gives,
  \<^const>\<open>None\<close> if it raises, and \<open>w_rules\<close> the loaded engine, if detection is enabled.\<close>

record world =
  w_ext :: externals
  w_inet :: "string \<Rightarrow> bool"
  w_tokens :: tokens
  w_defs :: "parser_def list"
  w_registry :: "cim_registry option"
  w_rules :: "rule list option"
  w_ti :: ioc_index
  w_supp :: "suppression list"
  w_ueba :: bool
  w_track :: bool
  w_batch :: int
  w_fallback :: int

section \<open>Writing rows\<close>

definition row_cim :: "world \<Rightarrow> event \<Rightarrow> string list option \<Rightarrow> string list option" where
  "row_cim w e tags =
     (case tags of
        Some ts \<Rightarrow> or_null (sort ts)
      | None \<Rightarrow>
          (case w_registry w of None \<Rightarrow> None
           | Some r \<Rightarrow> (case cim_models_for (Fresh e) r None of Inr v \<Rightarrow> v | Inl _ \<Rightarrow> None)))"

definition event_row :: "world \<Rightarrow> event \<times> string list option \<Rightarrow> event_row" where
  "event_row w et =
     (case et of (e, tags) \<Rightarrow>
       \<lparr>er_event = e, er_src_port = to_port (oint (src_port e)), er_dst_port = to_port (oint (dst_port e)),
        er_bytes_total = to_int (oint (bytes_total e)), er_tsv = tsv_text (w_ext w) e,
        er_cim_models = row_cim w e tags, er_batch_id = w_batch w, er_dedup_hash = dedup_hash (w_ext w) e\<rparr>)"

definition row_key :: "event_row \<Rightarrow> string \<times> int option" where
  "row_key r = (er_dedup_hash r, event_time (er_event r))"

definition insert_row :: "event_row \<Rightarrow> event_row list \<Rightarrow> event_row list" where
  "insert_row r rows = (if row_key r \<in> row_key ` set rows then rows else rows @ [r])"

definition castable :: "world \<Rightarrow> event \<Rightarrow> bool" where
  "castable w e \<longleftrightarrow> list_all (\<lambda>v. case v of None \<Rightarrow> True | Some s \<Rightarrow> w_inet w s) [src_ip e, dst_ip e]"

definition insert_events ::
    "world \<Rightarrow> event list \<Rightarrow> string list option list \<Rightarrow> event_row list \<Rightarrow> py_error + event_row list" where
  "insert_events w evts tags rows =
     (if evts = [] then Inr rows
      else if length tags \<noteq> length evts then Inl ValueError
      else if \<not> list_all (castable w) evts then Inl ValueError
      else Inr (fold insert_row (map (event_row w) (zip evts tags)) rows))"

definition alert_key :: "alert_row \<Rightarrow> string \<times> string" where
  "alert_key a = (al_rule_id a, al_dedup_hash a)"

text \<open>The rows and the alerts that were new.\<close>

fun insert_alerts_new :: "alert_row list \<Rightarrow> alert_row list \<Rightarrow> alert_row list \<times> alert_row list" where
  "insert_alerts_new [] tbl = (tbl, [])"
| "insert_alerts_new (a # as) tbl =
     (if alert_key a \<in> alert_key ` set tbl then insert_alerts_new as tbl
      else (case insert_alerts_new as (tbl @ [a]) of (tbl', new) \<Rightarrow> (tbl', a # new)))"

definition insert_alerts :: "bool \<Rightarrow> alert_row list \<Rightarrow> alert_row list \<Rightarrow> alert_row list \<times> alert_row list" where
  "insert_alerts return_inserted as tbl =
     (case insert_alerts_new as tbl of (tbl', new) \<Rightarrow> (tbl', if return_inserted then new else []))"

definition bump_hit :: "nat \<Rightarrow> int \<Rightarrow> (int, nat) dict \<Rightarrow> (int, nat) dict" where
  "bump_hit n i d = dict_set i ((case dict_get d i of None \<Rightarrow> 0 | Some m \<Rightarrow> m) + n) d"

text \<open>The update touches only a suppression that still has a row.\<close>

definition add_hits :: "nat \<Rightarrow> int \<Rightarrow> (int, nat) dict \<Rightarrow> (int, nat) dict" where
  "add_hits n i d = (case dict_get d i of None \<Rightarrow> d | Some m \<Rightarrow> dict_set i (m + n) d)"

definition bump_suppressions :: "(int, nat) dict \<Rightarrow> (int, nat) dict \<Rightarrow> (int, nat) dict" where
  "bump_suppressions hits d = fold (\<lambda>(i, n). add_hits n i) hits d"

section \<open>One event\<close>

definition apply_fallback_time :: "int \<Rightarrow> event \<Rightarrow> event" where
  "apply_fallback_time fb e =
     (if event_time e = None
      then e\<lparr>event_time := Some fb,
             raw := dict_setdefault ''_parse_note'' (VStr ''missing_or_unparsed_timestamp'') (raw e)\<rparr>
      else e)"

definition resolve_tags :: "world \<Rightarrow> event \<Rightarrow> string list option" where
  "resolve_tags w e =
     (case w_registry w of None \<Rightarrow> None
      | Some r \<Rightarrow> (case tags_for (Fresh e) r of Inr ts \<Rightarrow> Some (remdups ts) | Inl _ \<Rightarrow> None))"

definition detect :: "world \<Rightarrow> event \<Rightarrow> string list option \<Rightarrow> cim_state \<Rightarrow> rule list \<times> cim_state" where
  "detect w e tags st =
     (case w_rules w of None \<Rightarrow> ([], st)
      | Some rules \<Rightarrow> evaluate_event (x_search (w_ext w)) (x_cim (w_ext w)) rules e (map_option set tags) st)"

text \<open>The alerts of one event, in the order they are queued.\<close>

definition raise_alerts :: "world \<Rightarrow> event \<Rightarrow> rule list \<Rightarrow> alert_row list" where
  "raise_alerts w e matched =
     (let dh = dedup_hash (w_ext w) e;
          hits = (if 0 < index_size (w_ti w) then ti_match (w_tokens w) (w_ti w) e else [])
      in map (\<lambda>r. alert_from_match r e dh (Some (w_batch w))) matched
         @ (if hits \<noteq> [] then [ti_alert hits e dh (Some (w_batch w))] else []))"

text \<open>\<open>emit\<close>: the queued alert, and the suppression that fired.\<close>

definition emit :: "world \<Rightarrow> alert_row \<Rightarrow> alert_row \<times> int option" where
  "emit w a =
     (if w_supp w = [] then (a, None)
      else (case supp_match (w_supp w) a of
              None \<Rightarrow> (a, None)
            | Some s \<Rightarrow> (a\<lparr>al_status := ''suppressed''\<rparr>, Some (sp_id s))))"

record outcome =
  oc_event :: event
  oc_tags :: "string list option"
  oc_alerts :: "alert_row list"
  oc_hits :: "int list"

text \<open>The body of the loop up to the chunk: \<^const>\<open>None\<close> for a dropped event.\<close>

definition process_event ::
    "world \<Rightarrow> event \<Rightarrow> cim_state \<times> action_index \<Rightarrow> outcome option \<times> cim_state \<times> action_index" where
  "process_event w e env =
     (let e1 = custom_apply (w_defs w) (apply_fallback_time (w_fallback w) e);
          (d, e2, cim, ix) = index_apply (w_ext w) (snd env) e1 None (fst env) in
      if d_dropped d then (None, cim, ix)
      else
        (let tags = resolve_tags w e2;
             (matched, cim) = detect w e2 tags cim;
             emitted = map (emit w) (raise_alerts w e2 matched)
         in (Some \<lparr>oc_event = e2, oc_tags = tags, oc_alerts = map fst emitted,
                   oc_hits = List.map_filter snd emitted\<rparr>, cim, ix)))"

section \<open>The stream\<close>

record stream_state =
  ss_total :: nat
  ss_dropped :: nat
  ss_chunk :: "event list"
  ss_chunk_tags :: "string list option list"
  ss_pending :: "alert_row list"
  ss_new :: "alert_row list"
  ss_supp_hits :: "(int, nat) dict"
  ss_store :: store
  ss_env :: "cim_state \<times> action_index"

definition flush :: "world \<Rightarrow> stream_state \<Rightarrow> py_error + stream_state" where
  "flush w s =
     sbind (insert_events w (ss_chunk s) (ss_chunk_tags s) (st_rows (ss_store s))) (\<lambda>rows.
       (let (alerts, new) = insert_alerts (w_track w) (ss_pending s) (st_alerts (ss_store s));
            hits = (if ss_supp_hits s = [] then st_hits (ss_store s)
                    else bump_suppressions (ss_supp_hits s) (st_hits (ss_store s))) in
        sbind (if w_ueba w then upsert_baselines (ss_chunk s) (st_baselines (ss_store s))
               else Inr (st_baselines (ss_store s))) (\<lambda>bl.
          Inr (s\<lparr>ss_new := ss_new s @ new, ss_supp_hits := [],
                 ss_store := \<lparr>st_rows = rows, st_alerts = alerts, st_hits = hits, st_baselines = bl\<rparr>\<rparr>))))"

definition stream_step :: "nat \<Rightarrow> world \<Rightarrow> event \<Rightarrow> stream_state \<Rightarrow> py_error + stream_state" where
  "stream_step n w e s =
     (let s = s\<lparr>ss_total := Suc (ss_total s)\<rparr>;
          (out, env) = process_event w e (ss_env s);
          s = s\<lparr>ss_env := env\<rparr> in
      case out of
        None \<Rightarrow> Inr (s\<lparr>ss_dropped := Suc (ss_dropped s)\<rparr>)
      | Some oc \<Rightarrow>
          (let s = s\<lparr>ss_chunk := ss_chunk s @ [oc_event oc], ss_chunk_tags := ss_chunk_tags s @ [oc_tags oc],
                     ss_pending := ss_pending s @ oc_alerts oc,
                     ss_supp_hits := fold (bump_hit 1) (oc_hits oc) (ss_supp_hits s)\<rparr> in
           if n \<le> length (ss_chunk s)
           then sbind (flush w s) (\<lambda>s. Inr (s\<lparr>ss_chunk := [], ss_chunk_tags := [], ss_pending := []\<rparr>))
           else Inr s))"

fun stream_events :: "nat \<Rightarrow> world \<Rightarrow> event list \<Rightarrow> stream_state \<Rightarrow> py_error + stream_state" where
  "stream_events n w [] s = Inr s"
| "stream_events n w (e # es) s = sbind (stream_step n w e s) (stream_events n w es)"

definition chunk_rows :: nat where "chunk_rows = 5000"

record write_result =
  wr_total :: nat
  wr_alerts :: "alert_row list"
  wr_dropped :: nat

definition start_stream :: "store \<Rightarrow> cim_state \<times> action_index \<Rightarrow> stream_state" where
  "start_stream st env =
     \<lparr>ss_total = 0, ss_dropped = 0, ss_chunk = [], ss_chunk_tags = [], ss_pending = [], ss_new = [],
      ss_supp_hits = [], ss_store = st, ss_env = env\<rparr>"

definition write_stream_by ::
    "nat \<Rightarrow> world \<Rightarrow> event list \<Rightarrow> store \<Rightarrow> cim_state \<times> action_index
       \<Rightarrow> py_error + (write_result \<times> store \<times> cim_state \<times> action_index)" where
  "write_stream_by n w es st env =
     sbind (stream_events n w es (start_stream st env)) (\<lambda>s.
     sbind (if ss_chunk s \<noteq> [] \<or> ss_pending s \<noteq> [] then flush w s else Inr s) (\<lambda>s.
       Inr (\<lparr>wr_total = ss_total s,
             wr_alerts = filter (\<lambda>a. al_status a \<noteq> ''suppressed'') (ss_new s),
             wr_dropped = ss_dropped s\<rparr>, ss_store s, ss_env s)))"

definition write_stream ::
    "world \<Rightarrow> event list \<Rightarrow> store \<Rightarrow> cim_state \<times> action_index
       \<Rightarrow> py_error + (write_result \<times> store \<times> cim_state \<times> action_index)" where
  "write_stream = write_stream_by chunk_rows"

end
