(* ===== verification/PipelineFacts.thy ===== *)
theory PipelineFacts
  imports Pipeline
begin

text \<open>
  What the pipeline writes. The specification processes the events one after the other and writes
  everything at the end (\<open>wrote\<close>); the stream, which flushes whenever a chunk is full, refines it for
  every chunk size. Conservation of events, the membership of rows and the baselines follow.
\<close>

section \<open>The specification\<close>

fun process_all ::
    "world \<Rightarrow> event list \<Rightarrow> cim_state \<times> action_index \<Rightarrow> outcome option list \<times> cim_state \<times> action_index" where
  "process_all w [] env = ([], env)"
| "process_all w (e # es) env =
     (case process_event w e env of
        (out, env1) \<Rightarrow> (case process_all w es env1 of (outs, env2) \<Rightarrow> (out # outs, env2)))"

definition kept :: "outcome option list \<Rightarrow> outcome list" where
  "kept outs = List.map_filter id outs"

lemma kept_append: "kept (as @ bs) = kept as @ kept bs"
  by (simp add: kept_def List.map_filter_def)

lemma kept_simps [simp]: "kept [] = []" "kept (None # outs) = kept outs" "kept (Some oc # outs) = oc # kept outs"
  by (simp_all add: kept_def List.map_filter_def)

definition hit_count :: "(int, nat) dict \<Rightarrow> int \<Rightarrow> nat" where
  "hit_count d i = (case dict_get d i of None \<Rightarrow> 0 | Some n \<Rightarrow> n)"

definition oc_row :: "world \<Rightarrow> outcome \<Rightarrow> event_row" where
  "oc_row w oc = event_row w (oc_event oc, oc_tags oc)"

definition all_alerts :: "outcome list \<Rightarrow> alert_row list" where
  "all_alerts ocs = concat (map oc_alerts ocs)"

definition all_hits :: "outcome list \<Rightarrow> int list" where
  "all_hits ocs = concat (map oc_hits ocs)"

text \<open>The store after the outcomes were written, and the alerts reported as new.\<close>

definition wrote :: "world \<Rightarrow> outcome list \<Rightarrow> store \<Rightarrow> store \<Rightarrow> alert_row list \<Rightarrow> bool" where
  "wrote w ocs st st' new \<longleftrightarrow>
     st_rows st' = fold insert_row (map (oc_row w) ocs) (st_rows st) \<and>
     st_alerts st' = fst (insert_alerts_new (all_alerts ocs) (st_alerts st)) \<and>
     new = (if w_track w then snd (insert_alerts_new (all_alerts ocs) (st_alerts st)) else []) \<and>
     (\<forall>i. dict_get (st_hits st') i = map_option (\<lambda>n. n + count_list (all_hits ocs) i) (dict_get (st_hits st) i)) \<and>
     (if w_ueba w
      then (\<forall>k. dict_get (fst (st_baselines st')) k
              = seen (times_of event_entities k (map oc_event ocs)) (dict_get (fst (st_baselines st)) k)) \<and>
           (\<forall>k. dict_get (snd (st_baselines st')) k
              = seen (times_of event_links k (map oc_event ocs)) (dict_get (snd (st_baselines st)) k))
      else st_baselines st' = st_baselines st)"

lemma wrote_Nil: "wrote w [] st st []"
  by (simp add: wrote_def all_alerts_def all_hits_def times_of_def option.map_ident)

section \<open>Parts of a flush\<close>

lemma insert_alerts_new_append:
  "insert_alerts_new (as @ bs) tbl =
     (case insert_alerts_new as tbl of (tbl1, n1) \<Rightarrow>
        (case insert_alerts_new bs tbl1 of (tbl2, n2) \<Rightarrow> (tbl2, n1 @ n2)))"
  by (induction as arbitrary: tbl) (auto split: prod.splits)

lemma hit_count_bump: "hit_count (bump_hit n i d) j = hit_count d j + (if j = i then n else 0)"
  by (simp add: hit_count_def bump_hit_def)

lemma distinct_bump: "distinct (map fst d) \<Longrightarrow> distinct (map fst (bump_hit n i d))"
  by (simp add: bump_hit_def)

lemma hit_count_bumps: "hit_count (fold (bump_hit (Suc 0)) is d) j = hit_count d j + count_list is j"
  by (induction "is" arbitrary: d) (simp_all add: hit_count_bump)

lemma distinct_bumps: "distinct (map fst d) \<Longrightarrow> distinct (map fst (fold (bump_hit n) is d))"
  by (induction "is" arbitrary: d) (simp_all add: distinct_bump)

lemma dict_get_add_hits:
  "dict_get (add_hits n i d) j = map_option (\<lambda>m. m + (if j = i then n else 0)) (dict_get d j)"
  by (auto simp: add_hits_def option.map_ident split: option.splits)

lemma bump_suppressions_get:
  "distinct (map fst hits) \<Longrightarrow>
     dict_get (bump_suppressions hits d) j = map_option (\<lambda>m. m + hit_count hits j) (dict_get d j)"
proof (induction hits arbitrary: d)
  case Nil
  then show ?case by (simp add: bump_suppressions_def hit_count_def option.map_ident)
next
  case (Cons p hits)
  obtain i n where p: "p = (i, n)" by fastforce
  have "hit_count hits i = 0" using Cons.prems by (simp add: p hit_count_def dict_get_def map_of_eq_None_iff[THEN iffD2])
  then have "hit_count (p # hits) j = (if j = i then n else 0) + hit_count hits j"
    by (simp add: p hit_count_def dict_get_Cons)
  then show ?case using Cons
    by (simp add: bump_suppressions_def p dict_get_add_hits option.map_comp o_def add.assoc)
qed

text \<open>One flush writes the outcomes of its chunk.\<close>

definition holds_chunk :: "stream_state \<Rightarrow> outcome list \<Rightarrow> bool" where
  "holds_chunk s ocs \<longleftrightarrow>
     ss_chunk s = map oc_event ocs \<and> ss_chunk_tags s = map oc_tags ocs \<and> ss_pending s = all_alerts ocs \<and>
     distinct (map fst (ss_supp_hits s)) \<and> (\<forall>i. hit_count (ss_supp_hits s) i = count_list (all_hits ocs) i)"

lemma zip_map_same: "zip (map f xs) (map g xs) = map (\<lambda>x. (f x, g x)) xs"
  by (induction xs) simp_all

lemma flush_wrote:
  assumes ch: "holds_chunk s ocs" and ok: "\<forall>oc\<in>set ocs. castable w (oc_event oc) \<and> event_time (oc_event oc) \<noteq> None"
  shows "\<exists>s' n. flush w s = Inr s' \<and> ss_new s' = ss_new s @ n \<and> wrote w ocs (ss_store s) (ss_store s') n \<and>
    ss_supp_hits s' = [] \<and> ss_total s' = ss_total s \<and> ss_dropped s' = ss_dropped s \<and> ss_env s' = ss_env s"
proof -
  have r: "oc_row w = (\<lambda>oc. event_row w (oc_event oc, oc_tags oc))" by (auto simp: oc_row_def)
  have rows: "insert_events w (ss_chunk s) (ss_chunk_tags s) (st_rows (ss_store s))
      = Inr (fold insert_row (map (oc_row w) ocs) (st_rows (ss_store s)))"
    using ch ok r by (auto simp: insert_events_def holds_chunk_def zip_map_same list_all_iff o_def)
  have timed: "timed (ss_chunk s)" using ch ok by (auto simp: timed_def holds_chunk_def)
  have hits: "dict_get (if ss_supp_hits s = [] then st_hits (ss_store s)
        else bump_suppressions (ss_supp_hits s) (st_hits (ss_store s))) i
      = map_option (\<lambda>n. n + count_list (all_hits ocs) i) (dict_get (st_hits (ss_store s)) i)" for i
  proof -
    have "hit_count (ss_supp_hits s) i = count_list (all_hits ocs) i" "distinct (map fst (ss_supp_hits s))"
      using ch by (auto simp: holds_chunk_def)
    then show ?thesis
      using bump_suppressions_get[of "ss_supp_hits s" "st_hits (ss_store s)" i]
      by (auto simp: hit_count_def option.map_ident)
  qed
  obtain al new where al: "insert_alerts_new (all_alerts ocs) (st_alerts (ss_store s)) = (al, new)" by fastforce
  obtain bl where bl: "(if w_ueba w then upsert_baselines (ss_chunk s) (st_baselines (ss_store s))
        else Inr (st_baselines (ss_store s))) = Inr bl"
    and blk: "if w_ueba w
      then (\<forall>k. dict_get (fst bl) k
              = seen (times_of event_entities k (map oc_event ocs)) (dict_get (fst (st_baselines (ss_store s))) k)) \<and>
           (\<forall>k. dict_get (snd bl) k
              = seen (times_of event_links k (map oc_event ocs)) (dict_get (snd (st_baselines (ss_store s))) k))
      else bl = st_baselines (ss_store s)"
    using upsert_baselines_seen[OF timed, of "st_baselines (ss_store s)"] ch
    by (cases "w_ueba w") (auto simp: holds_chunk_def)
  define s' where "s' = s\<lparr>ss_new := ss_new s @ (if w_track w then new else []), ss_supp_hits := [],
      ss_store := \<lparr>st_rows = fold insert_row (map (oc_row w) ocs) (st_rows (ss_store s)), st_alerts = al,
        st_hits = (if ss_supp_hits s = [] then st_hits (ss_store s)
                    else bump_suppressions (ss_supp_hits s) (st_hits (ss_store s))), st_baselines = bl\<rparr>\<rparr>"
  have "flush w s = Inr s'"
    using ch unfolding flush_def rows sbind_simps insert_alerts_def holds_chunk_def
    by (simp add: al bl Let_def s'_def)
  moreover have "wrote w ocs (ss_store s) (ss_store s') (if w_track w then new else [])"
    unfolding wrote_def s'_def using al blk hits by simp
  ultimately show ?thesis by (auto simp: s'_def intro!: exI[of _ s'])
qed

lemma flush_refused:
  assumes "holds_chunk s ocs" and "\<not> (\<forall>oc\<in>set ocs. castable w (oc_event oc))"
  shows "flush w s = Inl ValueError"
  using assms by (auto simp: flush_def insert_events_def holds_chunk_def list_all_iff)

lemma wrote_append:
  assumes "wrote w as st st1 n1" and "wrote w bs st1 st2 n2"
  shows "wrote w (as @ bs) st st2 (n1 @ n2)"
  using assms
  by (auto simp: wrote_def all_alerts_def all_hits_def insert_alerts_new_append times_of_append
      option.map_comp o_def add.assoc split: prod.splits)

section \<open>Events keep a time\<close>

lemma process_event_time:
  assumes "process_event w e env = (Some oc, env')"
  shows "event_time (oc_event oc) \<noteq> None"
proof -
  define e1 where "e1 = custom_apply (w_defs w) (apply_fallback_time (w_fallback w) e)"
  have e1: "event_time e1 \<noteq> None" by (simp add: e1_def apply_fallback_time_def)
  obtain d e2 cim ix where a: "index_apply (w_ext w) (snd env) e1 None (fst env) = (d, e2, cim, ix)"
    by (cases "index_apply (w_ext w) (snd env) e1 None (fst env)") auto
  obtain m c2 where m: "detect w e2 (resolve_tags w e2) cim = (m, c2)" by fastforce
  have "oc_event oc = e2"
    using assms unfolding process_event_def e1_def[symmetric] Let_def a prod.case m
    by (auto split: if_splits)
  then show ?thesis using index_apply_time[OF a] e1 by simp
qed

lemma process_all_time:
  "process_all w es env = (outs, env') \<Longrightarrow> oc \<in> set (kept outs) \<Longrightarrow> event_time (oc_event oc) \<noteq> None"
proof (induction es arbitrary: env outs)
  case Nil
  then show ?case by simp
next
  case (Cons e es)
  obtain out env1 where o: "process_event w e env = (out, env1)" by (cases "process_event w e env")
  obtain outs1 env2 where os: "process_all w es env1 = (outs1, env2)"
    by (cases "process_all w es env1")
  have outs: "outs = out # outs1" "env' = env2" using Cons.prems(1) o os by auto
  then have "oc \<in> set (kept outs1) \<or> out = Some oc"
    using Cons.prems(2) by (cases out) auto
  then show ?case
    by (elim disjE)
      (use Cons.IH[of env1 outs1] os outs process_event_time[of w e env oc env1] o in \<open>simp_all del: split_paired_All\<close>)
qed

section \<open>The stream refines the specification\<close>

definition castables :: "world \<Rightarrow> outcome list \<Rightarrow> bool" where
  "castables w ocs \<longleftrightarrow> (\<forall>oc\<in>set ocs. castable w (oc_event oc))"

definition stream_inv :: "world \<Rightarrow> store \<Rightarrow> outcome option list \<Rightarrow> stream_state \<Rightarrow> bool" where
  "stream_inv w st outs s \<longleftrightarrow>
     (\<exists>written waiting. kept outs = written @ waiting \<and> castables w written \<and> holds_chunk s waiting \<and>
        wrote w written st (ss_store s) (ss_new s)) \<and>
     ss_total s = length outs \<and> ss_dropped s = length (filter (\<lambda>o1. o1 = None) outs) \<and>
     (\<forall>oc\<in>set (kept outs). event_time (oc_event oc) \<noteq> None)"

lemma stream_invI:
  assumes "kept outs = written @ waiting" "castables w written" "holds_chunk s waiting"
    "wrote w written st (ss_store s) (ss_new s)"
    "ss_total s = length outs" "ss_dropped s = length (filter (\<lambda>o1. o1 = None) outs)"
    "\<forall>oc\<in>set (kept outs). event_time (oc_event oc) \<noteq> None"
  shows "stream_inv w st outs s"
  unfolding stream_inv_def using assms by blast

lemma stream_step_inv:
  assumes inv: "stream_inv w st outs s" and p: "process_event w e (ss_env s) = (out, env)"
  shows "(\<exists>s'. stream_step n w e s = Inr s' \<and> stream_inv w st (outs @ [out]) s' \<and> ss_env s' = env) \<or>
    (stream_step n w e s = Inl ValueError \<and> \<not> castables w (kept (outs @ [out])))"
proof (cases out)
  case None
  then show ?thesis using inv p
    by (intro disjI1) (auto simp: stream_step_def Let_def stream_inv_def holds_chunk_def kept_append)
next
  case (Some oc)
  obtain written waiting where ww: "kept outs = written @ waiting" "castables w written" "holds_chunk s waiting"
      "wrote w written st (ss_store s) (ss_new s)"
    and n: "ss_total s = length outs" "ss_dropped s = length (filter (\<lambda>o1. o1 = None) outs)"
    and ts: "\<forall>oc\<in>set (kept outs). event_time (oc_event oc) \<noteq> None"
    using inv by (auto simp: stream_inv_def)
  define s1 where "s1 = s\<lparr>ss_total := Suc (ss_total s), ss_env := env, ss_chunk := ss_chunk s @ [oc_event oc],
      ss_chunk_tags := ss_chunk_tags s @ [oc_tags oc], ss_pending := ss_pending s @ oc_alerts oc,
      ss_supp_hits := fold (bump_hit 1) (oc_hits oc) (ss_supp_hits s)\<rparr>"
  have h1: "holds_chunk s1 (waiting @ [oc])"
    using ww(3) by (auto simp: holds_chunk_def s1_def all_alerts_def all_hits_def distinct_bumps hit_count_bumps)
  have t: "\<forall>o1\<in>set (written @ waiting @ [oc]). event_time (oc_event o1) \<noteq> None"
    using ts ww(1) process_event_time[of w e "ss_env s" oc env] p Some by auto
  have k: "kept (outs @ [out]) = written @ waiting @ [oc]" using ww(1) Some by (simp add: kept_append)
  have step: "stream_step n w e s =
      (if n \<le> length (ss_chunk s1)
       then sbind (flush w s1) (\<lambda>s. Inr (s\<lparr>ss_chunk := [], ss_chunk_tags := [], ss_pending := []\<rparr>)) else Inr s1)"
    using p Some by (simp add: stream_step_def Let_def s1_def)
  show ?thesis
  proof (cases "n \<le> length (ss_chunk s1)")
    case False
    have "stream_inv w st (outs @ [out]) s1"
      by (rule stream_invI[OF k ww(2) h1]) (use ww n Some t k in \<open>simp_all add: s1_def\<close>)
    then show ?thesis using step False by (simp add: s1_def)
  next
    case True
    show ?thesis
    proof (cases "castables w (waiting @ [oc])")
      case False
      then have "flush w s1 = Inl ValueError" using flush_refused[OF h1] by (auto simp: castables_def)
      then show ?thesis using step True False k by (auto simp: castables_def)
    next
      case c: True
      obtain s2 new where s2: "flush w s1 = Inr s2" "ss_new s2 = ss_new s1 @ new"
          "wrote w (waiting @ [oc]) (ss_store s1) (ss_store s2) new" "ss_supp_hits s2 = []"
          "ss_total s2 = ss_total s1" "ss_dropped s2 = ss_dropped s1" "ss_env s2 = ss_env s1"
        using flush_wrote[OF h1, of w] c t by (auto simp: castables_def)
      have "wrote w (written @ waiting @ [oc]) st (ss_store s2) (ss_new s2)"
        using wrote_append[OF ww(4)] s2(2,3) by (simp add: s1_def)
      moreover have "castables w (written @ waiting @ [oc])" using ww(2) c by (auto simp: castables_def)
      ultimately have "stream_inv w st (outs @ [out]) (s2\<lparr>ss_chunk := [], ss_chunk_tags := [], ss_pending := []\<rparr>)"
        by (intro stream_invI[where waiting = "[]" and written = "written @ waiting @ [oc]"])
          (use k s2 n Some t in \<open>simp_all add: s1_def holds_chunk_def all_alerts_def all_hits_def hit_count_def\<close>)
      then show ?thesis using step True s2 by (auto simp: s1_def)
    qed
  qed
qed

lemma stream_events_inv:
  assumes "stream_inv w st outs s" and "process_all w es (ss_env s) = (outs1, env)"
  shows "(\<exists>s'. stream_events n w es s = Inr s' \<and> stream_inv w st (outs @ outs1) s' \<and> ss_env s' = env) \<or>
    (stream_events n w es s = Inl ValueError \<and> \<not> castables w (kept (outs @ outs1)))"
  using assms
proof (induction es arbitrary: outs s outs1)
  case Nil
  then show ?case by simp
next
  case (Cons e es)
  obtain out env1 where p: "process_event w e (ss_env s) = (out, env1)" by (cases "process_event w e (ss_env s)")
  obtain outs2 where ps: "process_all w es env1 = (outs2, env)" and outs1: "outs1 = out # outs2"
    using Cons.prems(2) p by (auto split: prod.splits)
  consider s' where "stream_step n w e s = Inr s'" "stream_inv w st (outs @ [out]) s'" "ss_env s' = env1"
    | "stream_step n w e s = Inl ValueError" "\<not> castables w (kept (outs @ [out]))"
    using stream_step_inv[OF Cons.prems(1) p, of n] by blast
  then show ?case
  proof cases
    case 1
    then show ?thesis using Cons.IH[OF 1(2), of outs2] ps outs1 by simp
  next
    case 2
    moreover have "\<not> castables w (kept (outs @ outs1))"
      using 2(2) unfolding outs1 by (cases out) (auto simp: kept_append castables_def)
    ultimately show ?thesis by simp
  qed
qed

lemma stream_inv_start: "stream_inv w st [] (start_stream st env)"
  by (rule stream_invI[where written = "[]" and waiting = "[]"])
    (simp_all add: castables_def holds_chunk_def start_stream_def all_alerts_def all_hits_def hit_count_def wrote_Nil)

definition unsuppressed :: "alert_row list \<Rightarrow> alert_row list" where
  "unsuppressed = filter (\<lambda>a. al_status a \<noteq> ''suppressed'')"

text \<open>The end of the stream: what is still waiting is flushed.\<close>

lemma stream_end:
  assumes "stream_inv w st outs s"
  shows "(\<exists>s'. (if ss_chunk s \<noteq> [] \<or> ss_pending s \<noteq> [] then flush w s else Inr s) = Inr s' \<and>
      castables w (kept outs) \<and> wrote w (kept outs) st (ss_store s') (ss_new s') \<and> ss_env s' = ss_env s \<and>
      ss_total s' = ss_total s \<and> ss_dropped s' = ss_dropped s) \<or>
    (if ss_chunk s \<noteq> [] \<or> ss_pending s \<noteq> [] then flush w s else Inr s) = Inl ValueError \<and>
      \<not> castables w (kept outs)"
proof -
  obtain written waiting where ww: "kept outs = written @ waiting" "castables w written" "holds_chunk s waiting"
      "wrote w written st (ss_store s) (ss_new s)"
    and ts: "\<forall>oc\<in>set (kept outs). event_time (oc_event oc) \<noteq> None"
    using assms by (auto simp: stream_inv_def)
  show ?thesis
  proof (cases "ss_chunk s \<noteq> [] \<or> ss_pending s \<noteq> []")
    case False
    then have "waiting = []" using ww(3) by (auto simp: holds_chunk_def)
    then show ?thesis using False ww by simp
  next
    case True
    show ?thesis
    proof (cases "castables w waiting")
      case False
      then have "flush w s = Inl ValueError" using flush_refused[OF ww(3)] by (auto simp: castables_def)
      then show ?thesis using True False ww(1) by (auto simp: castables_def)
    next
      case c: True
      obtain s2 new where s2: "flush w s = Inr s2" "ss_new s2 = ss_new s @ new"
          "wrote w waiting (ss_store s) (ss_store s2) new"
          "ss_total s2 = ss_total s" "ss_dropped s2 = ss_dropped s" "ss_env s2 = ss_env s"
        using flush_wrote[OF ww(3), of w] c ts ww(1) by (auto simp: castables_def)
      have "wrote w (kept outs) st (ss_store s2) (ss_new s2)"
        using wrote_append[OF ww(4)] s2(2,3) ww(1) by simp
      then show ?thesis using True s2 ww c by (auto simp: castables_def)
    qed
  qed
qed

lemma write_stream_by_result:
  assumes p: "process_all w es env = (outs, env')"
  shows "if castables w (kept outs)
    then (\<exists>st' new. wrote w (kept outs) st st' new \<and>
      write_stream_by n w es st env =
        Inr (\<lparr>wr_total = length outs, wr_alerts = unsuppressed new,
               wr_dropped = length (filter (\<lambda>o1. o1 = None) outs)\<rparr>, st', env'))
    else write_stream_by n w es st env = Inl ValueError"
proof -
  have p': "process_all w es (ss_env (start_stream st env)) = (outs, env')" by (simp add: p start_stream_def)
  consider s where "stream_events n w es (start_stream st env) = Inr s" "stream_inv w st outs s" "ss_env s = env'"
    | "stream_events n w es (start_stream st env) = Inl ValueError" "\<not> castables w (kept outs)"
    using stream_events_inv[OF stream_inv_start p', of n] by auto
  then show ?thesis
  proof cases
    case 1
    have "ss_total s = length outs" "ss_dropped s = length (filter (\<lambda>o1. o1 = None) outs)"
      using 1(2) by (auto simp: stream_inv_def)
    then show ?thesis using stream_end[OF 1(2)] 1
      by (auto simp: write_stream_by_def unsuppressed_def)
  next
    case 2
    then show ?thesis by (simp add: write_stream_by_def)
  qed
qed

section \<open>Consequences\<close>

lemma process_all_length: "process_all w es env = (outs, env') \<Longrightarrow> length outs = length es"
  by (induction es arbitrary: env outs) (auto split: prod.splits)

lemma process_event_dropped:
  assumes "process_event w e env = (out, env')"
  shows "total c_dropped (ix_counts (snd env')) = total c_dropped (ix_counts (snd env)) + (if out = None then 1 else 0)"
proof -
  define e1 where "e1 = custom_apply (w_defs w) (apply_fallback_time (w_fallback w) e)"
  obtain d e2 cim ix where a: "index_apply (w_ext w) (snd env) e1 None (fst env) = (d, e2, cim, ix)"
    by (cases "index_apply (w_ext w) (snd env) e1 None (fst env)") auto
  obtain m c2 where m: "detect w e2 (resolve_tags w e2) cim = (m, c2)" by fastforce
  have "snd env' = ix" "out = None \<longleftrightarrow> d_dropped d"
    using assms unfolding process_event_def e1_def[symmetric] Let_def a prod.case m
    by (auto split: if_splits)
  then show ?thesis using index_apply_totals(1)[OF a] by simp
qed

lemma process_all_dropped:
  "process_all w es env = (outs, env') \<Longrightarrow>
     total c_dropped (ix_counts (snd env')) = total c_dropped (ix_counts (snd env)) + length (filter (\<lambda>o1. o1 = None) outs)"
proof (induction es arbitrary: env outs)
  case (Cons e es)
  obtain out env1 where o: "process_event w e env = (out, env1)" by (cases "process_event w e env")
  obtain outs1 where os: "process_all w es env1 = (outs1, env')" "outs = out # outs1"
    using Cons.prems o by (auto split: prod.splits)
  show ?case using Cons.IH[OF os(1)] process_event_dropped[OF o] os(2) by simp
qed simp

lemma length_kept: "length (filter (\<lambda>o1. o1 = None) outs) + length (kept outs) = length outs"
  by (induction outs) (auto simp: kept_def List.map_filter_def)

lemma row_keys_insert: "row_key ` set (insert_row r rows) = insert (row_key r) (row_key ` set rows)"
  by (auto simp: insert_row_def)

lemma row_keys_fold: "row_key ` set (fold insert_row rs rows) = row_key ` set rows \<union> row_key ` set rs"
  by (induction rs arbitrary: rows) (auto simp: row_keys_insert)

lemma rows_fold_subset: "set (fold insert_row rs rows) \<subseteq> set rows \<union> set rs"
proof (induction rs arbitrary: rows)
  case (Cons r rs)
  have "set (insert_row r rows) \<subseteq> insert r (set rows)" by (auto simp: insert_row_def)
  then show ?case using Cons[of "insert_row r rows"] by auto
qed simp

lemma rows_fold_distinct: "distinct (map row_key rows) \<Longrightarrow> distinct (map row_key (fold insert_row rs rows))"
  by (induction rs arbitrary: rows) (simp_all add: insert_row_def)

lemma insert_alerts_new_facts:
  "insert_alerts_new as tbl = (tbl', new) \<Longrightarrow>
     tbl' = tbl @ new \<and> set new \<subseteq> set as \<and> alert_key ` set new \<inter> alert_key ` set tbl = {} \<and>
     distinct (map alert_key new) \<and> alert_key ` set as \<subseteq> alert_key ` set tbl'"
proof (induction as arbitrary: tbl tbl' new)
  case (Cons a as)
  show ?case
  proof (cases "alert_key a \<in> alert_key ` set tbl")
    case True
    then show ?thesis using Cons.IH[of tbl tbl' new] Cons.prems by auto
  next
    case False
    then obtain new1 where n: "insert_alerts_new as (tbl @ [a]) = (tbl', new1)" "new = a # new1"
      using Cons.prems by (auto split: prod.splits)
    have ih: "tbl' = (tbl @ [a]) @ new1" "set new1 \<subseteq> set as" "distinct (map alert_key new1)"
        "alert_key ` set new1 \<inter> alert_key ` set (tbl @ [a]) = {}" "alert_key ` set as \<subseteq> alert_key ` set tbl'"
      using Cons.IH[OF n(1)] by blast+
    have "alert_key a \<in> alert_key ` set tbl'" using ih(1) by simp
    then show ?thesis using ih n(2) False by (intro conjI) auto
  qed
qed simp

text \<open>The tags threaded into a row are those the row would derive for itself.\<close>

lemma compile_models_tags: "map_res compile_model ms = Inr cs \<Longrightarrow> map fst cs = map m_tag ms"
  by (induction ms arbitrary: cs) (auto simp: compile_model_def)

lemma plan_tags_subset:
  assumes "tags_for evt r = Inr ts" and "distinct (registry_tags r)"
  shows "distinct ts \<and> sorted ts"
proof -
  obtain ms where ms: "map_res compile_model (r_models r) = Inr ms" "ts = plan_tags \<lparr>p_models = ms, p_columns = plan_columns ms\<rparr> evt"
    using assms(1) by (auto simp: tags_for_def compile_registry_def)
  have "map fst ms = registry_tags r"
    using compile_models_tags[OF ms(1)] by (simp add: registry_tags_def)
  then have "distinct (map fst ms)" using assms(2) by simp
  then have "distinct (map fst (filter P ms))" for P by (rule distinct_map_filter)
  then show ?thesis using ms(2) by (simp add: plan_tags_def Let_def)
qed

lemma row_cim_resolved:
  assumes "\<And>r. w_registry w = Some r \<Longrightarrow> distinct (registry_tags r)"
  shows "row_cim w e (resolve_tags w e) = row_cim w e None"
proof (cases "w_registry w")
  case (Some r)
  show ?thesis
  proof (cases "tags_for (Fresh e) r")
    case (Inr ts)
    then show ?thesis using plan_tags_subset[OF Inr assms[OF Some]] Some
      by (simp add: row_cim_def resolve_tags_def cim_models_for_def distinct_remdups_id sorted_sort_id)
  qed (simp add: Some row_cim_def resolve_tags_def)
qed (simp add: row_cim_def resolve_tags_def)

lemma process_event_tags:
  assumes "process_event w e env = (Some oc, env')"
  shows "oc_tags oc = resolve_tags w (oc_event oc)"
proof -
  define e1 where "e1 = custom_apply (w_defs w) (apply_fallback_time (w_fallback w) e)"
  obtain d e2 cim ix where a: "index_apply (w_ext w) (snd env) e1 None (fst env) = (d, e2, cim, ix)"
    by (cases "index_apply (w_ext w) (snd env) e1 None (fst env)") auto
  obtain m c2 where m: "detect w e2 (resolve_tags w e2) cim = (m, c2)" by fastforce
  show ?thesis
    using assms unfolding process_event_def e1_def[symmetric] Let_def a prod.case m
    by (auto split: if_splits)
qed

lemma process_all_tags:
  "process_all w es env = (outs, env') \<Longrightarrow> oc \<in> set (kept outs) \<Longrightarrow> oc_tags oc = resolve_tags w (oc_event oc)"
proof (induction es arbitrary: env outs)
  case (Cons e es)
  obtain out env1 where o: "process_event w e env = (out, env1)" by (cases "process_event w e env")
  obtain outs1 where os: "process_all w es env1 = (outs1, env')" "outs = out # outs1"
    using Cons.prems(1) o by (auto split: prod.splits)
  have "oc \<in> set (kept outs1) \<or> out = Some oc" using Cons.prems(2) os(2) by (cases out) auto
  then show ?case using Cons.IH[OF os(1)] process_event_tags[of w e env oc env1] o by auto
qed simp

lemma write_stream_by_Inr:
  assumes "write_stream_by n w es st env = Inr (r, st', env')"
  obtains outs new where "process_all w es env = (outs, env')" "castables w (kept outs)"
    "wrote w (kept outs) st st' new" "wr_total r = length es" "wr_alerts r = unsuppressed new"
    "wr_dropped r = length (filter (\<lambda>o1. o1 = None) outs)"
proof -
  obtain outs env1 where p: "process_all w es env = (outs, env1)" by (cases "process_all w es env")
  show ?thesis
  proof (cases "castables w (kept outs)")
    case True
    then show ?thesis using write_stream_by_result[OF p, where n = n and st = st] assms p process_all_length[OF p] that by auto
  next
    case False
    then show ?thesis using write_stream_by_result[OF p, where n = n and st = st] assms by simp
  qed
qed

section \<open>Addresses stay castable\<close>

definition cast_ok :: "world \<Rightarrow> pyval \<Rightarrow> bool" where
  "cast_ok w v \<longleftrightarrow> (case v of VStr s \<Rightarrow> w_inet w s | _ \<Rightarrow> True)"

lemma castable_columns: "castable w e \<longleftrightarrow> (\<forall>n\<in>set inet_fields. cast_ok w (evt_get e n))"
  by (auto simp: castable_def inet_fields_def cast_ok_def evt_get_def pv_get_def event_columns_def dict_get_def ostr_def split: option.splits)

text \<open>A rule whose mask does not put an address with a scope into an address column.\<close>

definition unscoped :: "ingest_action \<Rightarrow> bool" where
  "unscoped a \<longleftrightarrow>
     (case ia_mask a of None \<Rightarrow> True
      | Some m \<Rightarrow> (case mk_inet_replacement m of None \<Rightarrow> True | Some t \<Rightarrow> CHR ''%'' \<notin> set t))"

lemma pseudo_plain:
  "pseudo_net_base \<le> k \<Longrightarrow> k < pseudo_net_base + 2 ^ pseudo_net_bits \<Longrightarrow> plain_address (IPv4 k)"
  by (simp add: plain_address_def ip_wf_def pseudo_net_base_def pseudo_net_bits_def)

lemma run_action_castable:
  assumes "action_wf a" and "unscoped a" and inet: "\<And>b. plain_address b \<Longrightarrow> w_inet w (ip_str b)" and "castable w e"
  shows "castable w (snd (run_action x a e))"
  unfolding castable_columns
proof
  fix n assume n: "n \<in> set inet_fields"
  have old: "cast_ok w (evt_get e n)" using assms(4) n by (simp add: castable_columns)
  consider "evt_get (snd (run_action x a e)) n = evt_get e n"
    | m where "ia_mask a = Some m" "inet_wf m" "address_after m (evt_get e n) (evt_get (snd (run_action x a e)) n)"
    using run_action_address[OF assms(1) n] by blast
  then show "cast_ok w (evt_get (snd (run_action x a e)) n)"
  proof cases
    case (2 m)
    have "w_inet w t" if t: "mk_inet_replacement m = Some t" for t
    proof -
      obtain b where b: "t = ip_str b" "ip_wf b" using 2(2) t by (auto simp: inet_wf_def)
      then have "plain_address b" using assms(2) 2(1) t by (intro plain_if) (simp_all add: unscoped_def)
      then show ?thesis using inet b(1) by simp
    qed
    moreover have "w_inet w (ip_str (IPv4 k))"
      if "pseudo_net_base \<le> k" "k < pseudo_net_base + 2 ^ pseudo_net_bits" for k
      using inet pseudo_plain[OF that] by blast
    ultimately show ?thesis using 2(3) old by (auto simp: address_after_def cast_ok_def ostr_def split: option.splits)
  qed (use old in simp)
qed

text \<open>A rule whose replacement has a scope loads, and writes a text into the address column that the database refuses.\<close>

definition scoped_doc :: "(string \<times> pyval) list" where
  "scoped_doc = demo_doc ''mask'' ''acme'' @
     [(''mask'', VDict [(''fields'', VList [VStr ''src_ip'']), (''replacement'', VStr ''fe80::1%eth0'')])]"

lemma scoped_replacement_written:
  "(case load_actions demo_loader ''d'' (Some [(''a.yml'', Some [VDict scoped_doc])]) of
      Inr (as, errs) \<Rightarrow> src_ip (fst (snd (decide demo_externals as ((bare_event ''acme'')\<lparr>src_ip := Some ''10.1.2.3''\<rparr>) None cim_init)))
    | Inl _ \<Rightarrow> None) = Some ''fe80::1%eth0''"
  by code_simp

definition demo_world :: world where
  "demo_world =
     \<lparr>w_ext = demo_externals, w_inet = (\<lambda>s. True),
      w_tokens = \<lparr>tk_ips = (\<lambda>_. []), tk_hashes = (\<lambda>_. []), tk_urls = (\<lambda>_. []), tk_domains = (\<lambda>_. [])\<rparr>,
      w_defs = [], w_registry = Some demo_registry, w_rules = None, w_ti = empty_index, w_supp = [],
      w_ueba = True, w_track = True, w_batch = 1, w_fallback = 7\<rparr>"

definition demo_store :: store where
  "demo_store = \<lparr>st_rows = [], st_alerts = [], st_hits = [], st_baselines = ([], [])\<rparr>"

definition demo_stream :: "event list" where
  "demo_stream = [(bare_event ''fw'')\<lparr>log_type := Some ''auth''\<rparr>, bare_event ''debug'']"

definition demo_index :: "cim_state \<times> action_index" where
  "demo_index = (cim_init, action_index [demo_drop] [])"

lemma demo_outs: "map (\<lambda>o1. o1 = None) (fst (process_all demo_world demo_stream demo_index)) = [False, True]"
  by code_simp

lemma demo_written: "\<exists>r st' env'. write_stream_by 1 demo_world demo_stream demo_store demo_index = Inr (r, st', env')"
proof -
  obtain outs env' where p: "process_all demo_world demo_stream demo_index = (outs, env')"
    by (cases "process_all demo_world demo_stream demo_index")
  have "castables demo_world (kept outs)"
    by (auto simp: castables_def castable_def demo_world_def split: option.splits)
  then show ?thesis using write_stream_by_result[OF p, where n = 1 and st = demo_store] by auto
qed

section \<open>Properties\<close>

text \<open>C26: Ingesting a stream is processing its events one after the other and writing the kept ones at the end, whatever the chunk size, 5000 in the code: rows, alerts, suppression hits and baselines are those of the whole stream, and the stream is refused as a whole exactly when a kept event holds an address the store cannot cast.\<close>

theorem stream_refines_sequence:
  "case process_all w es env of (outs, env') \<Rightarrow>
     (if castables w (kept outs)
      then \<exists>st' new. wrote w (kept outs) st st' new \<and>
        write_stream_by n w es st env =
          Inr (\<lparr>wr_total = length outs, wr_alerts = unsuppressed new,
                 wr_dropped = length (filter (\<lambda>o1. o1 = None) outs)\<rparr>, st', env')
      else write_stream_by n w es st env = Inl ValueError)"
  using write_stream_by_result[of w es env] by (cases "process_all w es env") simp

text \<open>C27: Every event of a stream is accounted for: the total is the length of the stream, dropped and kept events add up to it, the drop counters of the ingest rules rise by exactly the dropped events, every kept event has a row under its key, and no row comes from anything but a kept event.\<close>

theorem stream_conserves_events:
  assumes "write_stream_by n w es st env = Inr (r, st', env')"
  shows "wr_total r = length es \<and>
    wr_total r = wr_dropped r + length (kept (fst (process_all w es env))) \<and>
    total c_dropped (ix_counts (snd env')) = total c_dropped (ix_counts (snd env)) + wr_dropped r \<and>
    row_key ` set (st_rows st') =
      row_key ` set (st_rows st) \<union> row_key ` oc_row w ` set (kept (fst (process_all w es env))) \<and>
    set (st_rows st') \<subseteq> set (st_rows st) \<union> oc_row w ` set (kept (fst (process_all w es env)))"
proof -
  obtain outs new where p: "process_all w es env = (outs, env')" and wr: "wrote w (kept outs) st st' new"
      and n: "wr_total r = length es" "wr_dropped r = length (filter (\<lambda>o1. o1 = None) outs)"
    using write_stream_by_Inr[OF assms] by metis
  have rows: "st_rows st' = fold insert_row (map (oc_row w) (kept outs)) (st_rows st)"
    using wr by (simp add: wrote_def)
  have "length es = wr_dropped r + length (kept outs)"
    using length_kept[of outs] process_all_length[OF p] n(2) by simp
  then show ?thesis
    using n p process_all_dropped[OF p] row_keys_fold[of "map (oc_row w) (kept outs)" "st_rows st"]
      rows_fold_subset[of "map (oc_row w) (kept outs)" "st_rows st"]
    by (simp add: rows)
qed

theorem stream_conserves_events_witness:
  "\<exists>r st' env'. write_stream_by 1 demo_world demo_stream demo_store demo_index = Inr (r, st', env') \<and>
     wr_total r = 2 \<and> wr_dropped r + length (kept (fst (process_all demo_world demo_stream demo_index))) = 2 \<and>
     length (kept (fst (process_all demo_world demo_stream demo_index))) = 1"
proof -
  obtain r st' env' where w: "write_stream_by 1 demo_world demo_stream demo_store demo_index = Inr (r, st', env')"
    using demo_written by blast
  have "length (filter (\<lambda>o1. o1 = None) (fst (process_all demo_world demo_stream demo_index))) = 1"
    using demo_outs by (auto simp: map_eq_Cons_conv)
  then have "length (kept (fst (process_all demo_world demo_stream demo_index))) = 1"
    using length_kept[of "fst (process_all demo_world demo_stream demo_index)"] arg_cong[OF demo_outs, of length]
    by simp
  then show ?thesis using stream_conserves_events[OF w] w by (auto simp: demo_stream_def)
qed

text \<open>C28: Every row the pipeline adds is derived from the event it stores: its identity, its data-model tags (resolved once and threaded through detection, yet the ones the row would derive itself) and its ports belong to the masked event in the row, which has a time and addresses the store can cast.\<close>

theorem new_rows_describe_themselves:
  assumes "write_stream_by n w es st env = Inr (r, st', env')" and "w_registry w = Some reg"
    and "distinct (registry_tags reg)" and "row \<in> set (st_rows st')" and "row \<notin> set (st_rows st)"
  shows "row = event_row w (er_event row, None) \<and> event_time (er_event row) \<noteq> None \<and> castable w (er_event row)"
proof -
  obtain outs new where p: "process_all w es env = (outs, env')" "castables w (kept outs)"
      and wr: "wrote w (kept outs) st st' new"
    using write_stream_by_Inr[OF assms(1)] by metis
  then have "set (st_rows st') \<subseteq> set (st_rows st) \<union> oc_row w ` set (kept outs)"
    using rows_fold_subset[of "map (oc_row w) (kept outs)" "st_rows st"] by (simp add: wrote_def)
  then obtain oc where oc: "oc \<in> set (kept outs)" "row = oc_row w oc" using assms(4,5) by auto
  have "row_cim w (oc_event oc) (oc_tags oc) = row_cim w (oc_event oc) None"
    using row_cim_resolved[of w] process_all_tags[OF p(1) oc(1)] assms(2,3) by simp
  then show ?thesis
    using oc p(2) process_all_time[OF p(1) oc(1)] by (auto simp: oc_row_def event_row_def castables_def)
qed

theorem new_rows_describe_themselves_witness:
  "\<exists>r st' env' row. write_stream_by 1 demo_world demo_stream demo_store demo_index = Inr (r, st', env') \<and>
     row \<in> set (st_rows st') \<and> row = event_row demo_world (er_event row, None)"
proof -
  obtain r st' env' where w: "write_stream_by 1 demo_world demo_stream demo_store demo_index = Inr (r, st', env')"
    using demo_written by blast
  obtain outs new where p: "process_all demo_world demo_stream demo_index = (outs, env')"
      and wr: "wrote demo_world (kept outs) demo_store st' new"
    using write_stream_by_Inr[OF w] by metis
  have "kept outs \<noteq> []" using demo_outs p by (auto simp: map_eq_Cons_conv)
  then have "row_key ` set (st_rows st') \<noteq> {}"
    using wr row_keys_fold[of "map (oc_row demo_world) (kept outs)" "st_rows demo_store"] by (simp add: wrote_def)
  then obtain row where row: "row \<in> set (st_rows st')" by fastforce
  moreover have "row \<notin> set (st_rows demo_store)" "w_registry demo_world = Some demo_registry"
      "distinct (registry_tags demo_registry)"
    by (simp_all add: demo_store_def demo_world_def demo_registry_def registry_tags_def)
  ultimately show ?thesis using new_rows_describe_themselves[OF w] w by blast
qed

text \<open>C29: The alerts a stream reports for notification were raised by its kept events, are not suppressed, and are under keys the store did not hold; no key is reported twice, and every raised alert is in the store afterwards.\<close>

theorem reported_alerts_are_new:
  assumes "write_stream_by n w es st env = Inr (r, st', env')"
  shows "set (wr_alerts r) \<subseteq> set (all_alerts (kept (fst (process_all w es env)))) \<and>
    (\<forall>a\<in>set (wr_alerts r). al_status a \<noteq> ''suppressed'' \<and> alert_key a \<notin> alert_key ` set (st_alerts st)) \<and>
    distinct (map alert_key (wr_alerts r)) \<and>
    alert_key ` set (all_alerts (kept (fst (process_all w es env)))) \<subseteq> alert_key ` set (st_alerts st')"
proof -
  obtain outs new where p: "process_all w es env = (outs, env')" and wr: "wrote w (kept outs) st st' new"
      and r: "wr_alerts r = unsuppressed new"
    using write_stream_by_Inr[OF assms] by metis
  obtain tbl ins where i: "insert_alerts_new (all_alerts (kept outs)) (st_alerts st) = (tbl, ins)" by fastforce
  have st: "st_alerts st' = tbl" "new = (if w_track w then ins else [])" using wr i by (simp_all add: wrote_def)
  show ?thesis
    using insert_alerts_new_facts[OF i] p st r
    by (auto simp: unsuppressed_def distinct_map_filter)
qed

theorem reported_alerts_are_new_witness:
  "\<exists>r st' env'. write_stream_by 1 demo_world demo_stream demo_store demo_index = Inr (r, st', env') \<and>
     distinct (map alert_key (wr_alerts r))"
proof -
  obtain r st' env' where w: "write_stream_by 1 demo_world demo_stream demo_store demo_index = Inr (r, st', env')"
    using demo_written by blast
  then show ?thesis using reported_alerts_are_new[OF w] by blast
qed

definition demo_mask_doc :: "string \<Rightarrow> (string \<times> pyval) list" where
  "demo_mask_doc mode = demo_doc ''mask'' ''acme'' @
     [(''mask'', VDict [(''fields'', VList [VStr ''user_name'', VStr ''src_ip'']), (''mode'', VStr mode)])]"

definition demo_event :: "string \<Rightarrow> event" where
  "demo_event ip = (bare_event ''acme'')\<lparr>src_ip := Some ip, user_name := Some ''alice''\<rparr>"

lemma demo_mask_loaded:
  "\<exists>as errs. load_actions demo_loader ''d'' (Some [(''a.yml'', Some [VDict (demo_mask_doc ''hash'')])]) = Inr (as, errs) \<and> length as = 1 \<and> list_all unscoped as"
proof -
  have "case load_actions demo_loader ''d'' (Some [(''a.yml'', Some [VDict (demo_mask_doc ''hash'')])]) of
      Inr (as, errs) \<Rightarrow> length as = 1 \<and> list_all unscoped as | Inl _ \<Rightarrow> False"
    by code_simp
  then show ?thesis by (auto split: sum.splits)
qed

text \<open>C31: The rules the loader accepts never make the database refuse an event for its addresses: an event whose address columns the inet cast takes, or finds empty, still has such columns after any sequence of masks, hashes, patterns, sweeps and routes, even those that fail halfway. This rests on the cast taking the canonical text of every address without a scope, and on no mask having an address with a scope as its replacement: the loader admits those, and the cast refuses them.\<close>

theorem address_columns_stay_addresses:
  assumes "load_actions l path files = Inr (as, errs)" and "list_all unscoped as"
    and inet_takes_plain: "\<And>b. plain_address b \<Longrightarrow> w_inet w (ip_str b)" and "castable w e"
  shows "castable w (fst (snd (decide x as e tags st)))"
proof -
  have "castable w (fst (snd (decide_fresh x tags as e st [] [])))"
  proof (rule decide_fresh_keeps)
    fix a e assume "a \<in> set as" "castable w e"
    then show "castable w (snd (run_action x a e))"
      using load_actions_wf[OF assms(1)] assms(2) inet_takes_plain by (intro run_action_castable) (auto simp: list_all_iff)
  qed (use assms(4) in \<open>simp_all add: castable_def stamped_def stamp_rule_def Let_def\<close>)
  then show ?thesis by (simp add: decide_eq)
qed

theorem address_columns_stay_addresses_witness:
  "\<exists>as errs. load_actions demo_loader ''d'' (Some [(''a.yml'', Some [VDict (demo_mask_doc ''hash'')])]) = Inr (as, errs) \<and>
     length as = 1 \<and>
     castable (demo_world\<lparr>w_inet := \<lambda>s. CHR ''%'' \<notin> set s\<rparr>)
       (fst (snd (decide demo_externals as (demo_event ''10.1.2.3'') None cim_init)))"
proof -
  obtain as errs where l: "load_actions demo_loader ''d'' (Some [(''a.yml'', Some [VDict (demo_mask_doc ''hash'')])]) = Inr (as, errs)"
      "length as = 1" "list_all unscoped as"
    using demo_mask_loaded by blast
  have c: "castable (demo_world\<lparr>w_inet := \<lambda>s. CHR ''%'' \<notin> set s\<rparr>) (demo_event ''10.1.2.3'')"
    by (simp add: castable_def demo_event_def bare_event_def)
  from address_columns_stay_addresses[OF l(1,3) _ c] plain_no_percent l(1,2) show ?thesis by simp
qed

end
