(* ===== verification/Correlation.thy ===== *)
theory Correlation
  imports PipelineFacts "HOL-Library.Multiset"
begin

text \<open>
  Scheduled correlation rules (\<open>app/detection/correlation.py\<close>, \<open>correlate\<close> and \<open>sync_rules\<close> of
  \<open>app/db.py\<close>, \<open>app/detection/runtime.py\<close>): a rule aggregates the stored events of a window by the values of
  some columns and raises an alert for every group that reaches its threshold, at most one per window.

  The SQL of \<open>correlate\<close> is written out over the rows of the store; the order of its groups, which SQL leaves
  open, is that of their last rows. What the database makes of an address, as text with a network mask
  (\<open>::text\<close>) and without (\<open>host\<close>), is a parameter. YAML documents are arguments.
\<close>

section \<open>Rules\<close>

definition unit_seconds :: "char \<Rightarrow> int option" where
  "unit_seconds c =
     (if c = CHR ''s'' then Some 1 else if c = CHR ''m'' then Some 60
      else if c = CHR ''h'' then Some 3600 else if c = CHR ''d'' then Some 86400 else None)"

definition max_int_digits :: nat where "max_int_digits = 4300"

text \<open>What \<open>_WINDOW_RE\<close> matches: blanks, digits, blanks, one unit letter, blanks.\<close>

definition window_match :: "string \<Rightarrow> (string \<times> int) option" where
  "window_match s =
     (let t = strip s; ds = takeWhile is_digit t in
      if ds = [] then None
      else (case lstrip (dropWhile is_digit t) of
              [c] \<Rightarrow> map_option (Pair ds) (unit_seconds (lower_char c))
            | _ \<Rightarrow> None))"

text \<open>\<open>trunc\<close> is \<open>int\<close> of a float, which raises on infinities and NaN.\<close>

definition window_seconds :: "(string \<Rightarrow> py_error + int) \<Rightarrow> pyval \<Rightarrow> py_error + int" where
  "window_seconds trunc v =
     (case v of
        VInt n \<Rightarrow> Inr n
      | VBool b \<Rightarrow> Inr (if b then 1 else 0)
      | VFloat t \<Rightarrow> trunc t
      | _ \<Rightarrow>
          (case window_match (pv_str (pv_or v (VStr []))) of
             None \<Rightarrow> Inr 300
           | Some (ds, u) \<Rightarrow> if max_int_digits < length ds then Inl ValueError else Inr (digits_val ds * u)))"

definition int_of :: "(string \<Rightarrow> py_error + int) \<Rightarrow> pyval \<Rightarrow> py_error + int" where
  "int_of trunc v =
     (case v of
        VInt n \<Rightarrow> Inr n
      | VBool b \<Rightarrow> Inr (if b then 1 else 0)
      | VFloat t \<Rightarrow> trunc t
      | VStr s \<Rightarrow> (case py_int s of None \<Rightarrow> Inl ValueError | Some n \<Rightarrow> Inr n)
      | _ \<Rightarrow> Inl TypeError)"

record corr_rule =
  co_id :: string
  co_title :: string
  co_level :: string
  co_description :: string
  co_match :: pyval
  co_group_by :: "pyval list"
  co_window :: int
  co_threshold :: int
  co_distinct :: "string option"
  co_tactics :: "string list"
  co_techniques :: "string list"
  co_atlas :: "string list"
  co_fidelity :: string
  co_data_source :: "string list"
  co_references :: "string list"
  co_source :: string
  co_enabled :: bool

definition corr_rule_from ::
    "(string \<Rightarrow> py_error + int) \<Rightarrow> string \<Rightarrow> (string, pyval) dict \<Rightarrow> (string, pyval) dict \<Rightarrow> py_error + corr_rule" where
  "corr_rule_from trunc name doc corr =
     sbind (parse_tags (pv_get doc ''tags'')) (\<lambda>(tactics, techniques).
     sbind (pv_iter (pv_get corr ''group_by'')) (\<lambda>group_by.
     sbind (window_seconds trunc (pv_or (pv_get corr ''window'') (pv_get corr ''timespan''))) (\<lambda>window.
     sbind (int_of trunc (pv_or (pv_get corr ''threshold'') (VInt 1))) (\<lambda>threshold.
     sbind (parse_atlas_tags (pv_get doc ''tags'')) (\<lambda>atlas.
       (let df = pv_or (pv_get corr ''distinct_count'') (pv_or (pv_get corr ''distinct'') (pv_get corr ''count_distinct'')) in
        Inr \<lparr>co_id = pv_str (pv_or (pv_get doc ''id'') (pv_or (pv_get doc ''title'') (VStr name))),
             co_title = pv_str (pv_or (pv_get doc ''title'') (VStr ''untitled'')),
             co_level = lower (pv_str (pv_or (pv_get doc ''level'') (VStr ''medium''))),
             co_description = pv_str (pv_or (pv_get doc ''description'') (VStr [])),
             co_match = pv_or (pv_get corr ''match'') (VDict []),
             co_group_by = group_by, co_window = window, co_threshold = threshold,
             co_distinct = (if pv_truthy df then Some (strip (pv_str df)) else None),
             co_tactics = tactics, co_techniques = techniques, co_atlas = atlas,
             co_fidelity = norm_fidelity (pv_get doc ''fidelity''),
             co_data_source = as_str_list (pv_or (pv_get doc ''data_source'') (pv_get doc ''data_sources'')),
             co_references = as_str_list (pv_get doc ''references''),
             co_source = name, co_enabled = True\<rparr>))))))"

fun corr_docs :: "(string \<Rightarrow> py_error + int) \<Rightarrow> string \<Rightarrow> pyval list \<Rightarrow> py_error + corr_rule list" where
  "corr_docs trunc name [] = Inr []"
| "corr_docs trunc name (v # docs) =
     (case v of
        VDict doc \<Rightarrow>
          (case pv_get doc ''correlation'' of
             VDict corr \<Rightarrow>
               sbind (corr_rule_from trunc name doc corr) (\<lambda>r. sbind (corr_docs trunc name docs) (\<lambda>rs. Inr (r # rs)))
           | _ \<Rightarrow> corr_docs trunc name docs)
      | _ \<Rightarrow> corr_docs trunc name docs)"

definition load_correlation_rules ::
    "(string \<Rightarrow> py_error + int) \<Rightarrow> (string \<times> pyval list) list \<Rightarrow> py_error + corr_rule list" where
  "load_correlation_rules trunc files =
     sbind (map_res (\<lambda>(name, docs). corr_docs trunc name docs) files) (\<lambda>rss. Inr (concat rss))"

section \<open>Aggregation\<close>

definition corr_cols :: "string list" where
  "corr_cols = [''vendor'', ''product'', ''log_type'', ''severity'', ''action'', ''src_ip'', ''dst_ip'',
     ''src_port'', ''dst_port'', ''protocol'', ''app'', ''user_name'', ''host_name'', ''rule_name'']"

definition corr_ip_cols :: "string list" where
  "corr_ip_cols = [''src_ip'', ''dst_ip'']"

record inet_ops =
  in_text :: "string \<Rightarrow> string"
  in_host :: "string \<Rightarrow> string"

text \<open>A column of a stored row; ports are those the insert stored.\<close>

definition row_value :: "event_row \<Rightarrow> string \<Rightarrow> pyval" where
  "row_value r c =
     (if c = ''src_port'' then oint (er_src_port r) else if c = ''dst_port'' then oint (er_dst_port r)
      else evt_get (er_event r) c)"

text \<open>\<open>c::text\<close> of a value that is not NULL.\<close>

definition column_text :: "inet_ops \<Rightarrow> string \<Rightarrow> pyval \<Rightarrow> string" where
  "column_text inet c v = (if c \<in> set corr_ip_cols then in_text inet (pv_str v) else pv_str v)"

text \<open>A column as the database compares it: two addresses are equal when their texts are.\<close>

definition db_value :: "inet_ops \<Rightarrow> event_row \<Rightarrow> string \<Rightarrow> pyval" where
  "db_value inet r c =
     (if row_value r c = VNone then VNone
      else if c \<in> set corr_ip_cols then VStr (column_text inet c (row_value r c)) else row_value r c)"

text \<open>One condition of the rule; a column that is not listed gives none.\<close>

definition condition_holds :: "inet_ops \<Rightarrow> event_row \<Rightarrow> string \<times> pyval \<Rightarrow> bool" where
  "condition_holds inet r cv =
     (case cv of (c, val) \<Rightarrow>
        c \<notin> set corr_cols \<or>
        (row_value r c \<noteq> VNone \<and>
         (let t = lower (column_text inet c (row_value r c)) in
          case val of VList xs \<Rightarrow> t \<in> set (map (\<lambda>v. lower (pv_str v)) xs) | _ \<Rightarrow> t = lower (pv_str val))))"

text \<open>\<open>[c for c in group_by if c in _CORR_COLS]\<close>: looking up an unhashable value raises.\<close>

definition group_cols :: "pyval list \<Rightarrow> py_error + string list" where
  "group_cols group_by =
     sbind (map_res (\<lambda>v. case v of VStr s \<Rightarrow> Inr (if s \<in> set corr_cols then [s] else [])
                        | VList _ \<Rightarrow> Inl TypeError | VDict _ \<Rightarrow> Inl TypeError | _ \<Rightarrow> Inr []) group_by)
       (\<lambda>css. Inr (concat css))"

definition distinct_column :: "string option \<Rightarrow> string list \<Rightarrow> string option" where
  "distinct_column d cols =
     (case d of None \<Rightarrow> None | Some c \<Rightarrow> if c \<in> set corr_cols \<and> c \<notin> set cols then Some c else None)"

definition in_window :: "int \<Rightarrow> int \<Rightarrow> event_row \<Rightarrow> bool" where
  "in_window now window r = (case event_time (er_event r) of None \<Rightarrow> False | Some t \<Rightarrow> now - window \<le> t)"

text \<open>The \<open>WHERE\<close> clause.\<close>

definition selected ::
    "inet_ops \<Rightarrow> int \<Rightarrow> int \<Rightarrow> (string, pyval) dict \<Rightarrow> string list \<Rightarrow> string option \<Rightarrow> event_row \<Rightarrow> bool" where
  "selected inet now window mtch cols dc r \<longleftrightarrow>
     in_window now window r \<and> list_all (condition_holds inet r) mtch \<and>
     list_all (\<lambda>c. row_value r c \<noteq> VNone) cols \<and> (case dc of None \<Rightarrow> True | Some c \<Rightarrow> row_value r c \<noteq> VNone)"

definition group_key :: "inet_ops \<Rightarrow> string list \<Rightarrow> event_row \<Rightarrow> pyval list" where
  "group_key inet cols r = map (db_value inet r) cols"

definition group_count :: "inet_ops \<Rightarrow> string option \<Rightarrow> event_row list \<Rightarrow> int" where
  "group_count inet dc rows =
     int (case dc of None \<Rightarrow> length rows | Some c \<Rightarrow> length (remdups (map (\<lambda>r. db_value inet r c) rows)))"

record corr_row =
  cr_values :: "(string, pyval) dict"
  cr_n :: int
  cr_first :: int
  cr_last :: int

definition row_times :: "event_row list \<Rightarrow> int list" where
  "row_times rows = List.map_filter (\<lambda>r. event_time (er_event r)) rows"

text \<open>One result row: the grouped columns by their names, the count and the span.\<close>

definition group_row :: "inet_ops \<Rightarrow> string list \<Rightarrow> string option \<Rightarrow> pyval list \<Rightarrow> event_row list \<Rightarrow> corr_row" where
  "group_row inet cols dc key rows =
     \<lparr>cr_values = fold (\<lambda>(c, v). dict_set c (if c \<in> set corr_ip_cols then VStr (in_host inet (pv_str v)) else v)) (zip cols key) [],
      cr_n = group_count inet dc rows, cr_first = Min (set (row_times rows)), cr_last = Max (set (row_times rows))\<rparr>"

definition correlate ::
    "inet_ops \<Rightarrow> int \<Rightarrow> event_row list \<Rightarrow> pyval \<Rightarrow> pyval list \<Rightarrow> int \<Rightarrow> int \<Rightarrow> string option \<Rightarrow> py_error + corr_row list" where
  "correlate inet now rows mtch group_by window threshold distinct_col =
     sbind (group_cols group_by) (\<lambda>cols.
       if cols = [] then Inr []
       else (case mtch of
               VDict conds \<Rightarrow>
                 (let dc = distinct_column distinct_col cols;
                      hits = filter (selected inet now window conds cols dc) rows;
                      groups = map (\<lambda>k. (k, filter (\<lambda>r. group_key inet cols r = k) hits)) (remdups (map (group_key inet cols) hits))
                  in Inr (map (\<lambda>(k, rs). group_row inet cols dc k rs)
                            (filter (\<lambda>(k, rs). threshold \<le> group_count inet dc rs) groups)))
             | _ \<Rightarrow> Inl AttributeError))"

section \<open>Alerts\<close>

definition em_dash :: string where "em_dash = map char_of [226, 128, 148 :: nat]"

definition opt_text :: "pyval \<Rightarrow> string option" where
  "opt_text v = (case v of VNone \<Rightarrow> None | _ \<Rightarrow> Some (pv_str v))"

text \<open>The group's values under the rule's own names; sorting names that are not all text raises.\<close>

definition group_values :: "corr_rule \<Rightarrow> corr_row \<Rightarrow> py_error + (string, pyval) dict" where
  "group_values r row =
     sbind (map_res (\<lambda>v. case v of VStr s \<Rightarrow> Inr s | _ \<Rightarrow> Inl TypeError) (co_group_by r)) (\<lambda>names.
       Inr (fold (\<lambda>c. dict_set c (pv_get (cr_values row) c)) names []))"

definition group_ident :: "(string, pyval) dict \<Rightarrow> string" where
  "group_ident gv = join ''|'' (map (\<lambda>k. k @ ''='' @ pv_str (pv_get gv k)) (sort (map fst gv)))"

definition corr_summary :: "corr_rule \<Rightarrow> (string, pyval) dict \<Rightarrow> int \<Rightarrow> string" where
  "corr_summary r gv n =
     (let shown = join '', '' (map (\<lambda>(k, v). k @ ''='' @ pv_str v) (filter (\<lambda>(k, v). v \<noteq> VNone) gv));
          parts = (if shown = [] then em_dash else shown);
          within = '' within '' @ int_str (co_window r) @ ''s'' in
      case co_distinct r of
        Some c \<Rightarrow> if c = [] then int_str n @ '' matching events ('' @ parts @ '')'' @ within
                  else int_str n @ '' distinct '' @ c @ '' for '' @ parts @ within
      | None \<Rightarrow> int_str n @ '' matching events ('' @ parts @ '')'' @ within)"

definition corr_dedup :: "(string \<Rightarrow> string) \<Rightarrow> corr_rule \<Rightarrow> (string, pyval) dict \<Rightarrow> int \<Rightarrow> string" where
  "corr_dedup sha r gv bucket = sha (''corr|'' @ co_id r @ ''|'' @ group_ident gv @ ''|'' @ int_str bucket)"

definition correlation_alert :: "(string \<Rightarrow> string) \<Rightarrow> corr_rule \<Rightarrow> corr_row \<Rightarrow> int \<Rightarrow> py_error + alert_row" where
  "correlation_alert sha r row bucket =
     sbind (group_values r row) (\<lambda>gv.
       Inr \<lparr>al_event_time = Some (cr_last row), al_rule_id = co_id r, al_rule_title = co_title r,
            al_level = co_level r, al_tactics = co_tactics r, al_techniques = co_techniques r,
            al_vendor = None, al_src_ip = opt_text (pv_get gv ''src_ip''), al_dst_ip = opt_text (pv_get gv ''dst_ip''),
            al_user_name = opt_text (pv_get gv ''user_name''), al_host_name = opt_text (pv_get gv ''host_name''),
            al_message = Some (corr_summary r gv (cr_n row)), al_dedup_hash = corr_dedup sha r gv bucket,
            al_batch_id = None, al_status = ''open''\<rparr>)"

section \<open>Evaluation\<close>

record corr_env =
  ce_inet :: inet_ops
  ce_sha :: "string \<Rightarrow> string"

text \<open>The time is the clock of the process for the window index and that of the database for the window.\<close>

definition run_rule ::
    "corr_env \<Rightarrow> int \<Rightarrow> int \<Rightarrow> corr_rule \<Rightarrow> store \<Rightarrow> py_error + alert_row list \<times> store" where
  "run_rule env db_now now r st =
     sbind (correlate (ce_inet env) db_now (st_rows st) (co_match r) (co_group_by r) (co_window r) (co_threshold r) (co_distinct r))
       (\<lambda>rows.
         if rows = [] then Inr ([], st)
         else if co_window r = 0 then Inl ZeroDivisionError
         else sbind (map_res (\<lambda>row. correlation_alert (ce_sha env) r row (now div co_window r)) rows) (\<lambda>alerts.
           (let (tbl, new) = insert_alerts True alerts (st_alerts st) in Inr (new, st\<lparr>st_alerts := tbl\<rparr>))))"

text \<open>All enabled rules; one that raises costs itself. The alerts are those handed to \<open>dispatch\<close>.\<close>

fun run_all :: "corr_env \<Rightarrow> int \<Rightarrow> int \<Rightarrow> corr_rule list \<Rightarrow> store \<Rightarrow> alert_row list \<times> store" where
  "run_all env db_now now [] st = ([], st)"
| "run_all env db_now now (r # rs) st =
     (if \<not> co_enabled r then run_all env db_now now rs st
      else (case run_rule env db_now now r st of
              Inl _ \<Rightarrow> run_all env db_now now rs st
            | Inr (new, st') \<Rightarrow> (case run_all env db_now now rs st' of (later, st'') \<Rightarrow> (new @ later, st''))))"

section \<open>The registry of rules\<close>

record rule_meta =
  rm_title :: string
  rm_level :: string
  rm_source :: string
  rm_tactics :: "string list"
  rm_techniques :: "string list"
  rm_enabled :: bool

text \<open>\<open>ON CONFLICT DO UPDATE\<close> leaves the flag of a rule that is already registered.\<close>

definition sync_rule :: "string \<times> rule_meta \<Rightarrow> (string, rule_meta) dict \<Rightarrow> (string, rule_meta) dict" where
  "sync_rule im reg =
     (case im of (i, m) \<Rightarrow>
        dict_set i (m\<lparr>rm_enabled := (case dict_get reg i of None \<Rightarrow> True | Some old \<Rightarrow> rm_enabled old)\<rparr>) reg)"

definition sync_rules :: "(string \<times> rule_meta) list \<Rightarrow> (string, rule_meta) dict \<Rightarrow> (string, rule_meta) dict" where
  "sync_rules ims reg = fold sync_rule ims reg"

definition enabled_rule_ids :: "(string, rule_meta) dict \<Rightarrow> string list" where
  "enabled_rule_ids reg = map fst (filter (\<lambda>(i, m). rm_enabled m) reg)"

definition rule_entry :: "rule \<Rightarrow> string \<times> rule_meta" where
  "rule_entry r = (rl_id r, \<lparr>rm_title = rl_title r, rm_level = rl_level r, rm_source = rl_source r,
     rm_tactics = rl_tactics r, rm_techniques = rl_techniques r, rm_enabled = True\<rparr>)"

definition corr_entry :: "corr_rule \<Rightarrow> string \<times> rule_meta" where
  "corr_entry r = (co_id r, \<lparr>rm_title = co_title r, rm_level = co_level r, rm_source = co_source r,
     rm_tactics = co_tactics r, rm_techniques = co_techniques r, rm_enabled = True\<rparr>)"

text \<open>A console-authored rule row: its identifier, its documents, and whether reading more of them raises.\<close>

type_synonym console_row = "string \<times> pyval list \<times> bool"

fun console_docs :: "string \<Rightarrow> pyval list \<Rightarrow> rule list" where
  "console_docs rid [] = []"
| "console_docs rid (v # docs) =
     (case v of
        VDict d \<Rightarrow>
          (if pv_truthy (pv_get d ''detection'')
           then (case rule_from_dict (dict_setdefault ''id'' (VStr rid) d) ''console'' of
                   Inl _ \<Rightarrow> [] | Inr r \<Rightarrow> r # console_docs rid docs)
           else console_docs rid docs)
      | _ \<Rightarrow> console_docs rid docs)"

definition load_db_rules :: "console_row list option \<Rightarrow> rule list" where
  "load_db_rules rows = (case rows of None \<Rightarrow> [] | Some rs \<Rightarrow> concat (map (\<lambda>(rid, docs, _). console_docs rid docs) rs))"

record rule_runtime =
  rt_rules :: "rule list"
  rt_corr :: "corr_rule list"

definition apply_flags :: "string list \<Rightarrow> rule_runtime \<Rightarrow> rule_runtime" where
  "apply_flags enabled rt =
     \<lparr>rt_rules = map (\<lambda>r. r\<lparr>rl_enabled := rl_id r \<in> set enabled\<rparr>) (rt_rules rt),
      rt_corr = map (\<lambda>r. r\<lparr>co_enabled := co_id r \<in> set enabled\<rparr>) (rt_corr rt)\<rparr>"

definition load_and_sync ::
    "(string \<Rightarrow> py_error + int) \<Rightarrow> (string \<times> pyval list) list \<Rightarrow> console_row list option \<Rightarrow> (string, rule_meta) dict
       \<Rightarrow> py_error + rule_runtime \<times> (string, rule_meta) dict" where
  "load_and_sync trunc files console reg =
     sbind (load_rules files) (\<lambda>file_rules.
     sbind (load_correlation_rules trunc files) (\<lambda>corr.
       (let rules = file_rules @ load_db_rules console;
            reg' = sync_rules (map rule_entry rules @ map corr_entry corr) reg
        in Inr (apply_flags (enabled_rule_ids reg') \<lparr>rt_rules = rules, rt_corr = corr\<rparr>, reg'))))"

definition refresh_enabled :: "(string, rule_meta) dict \<Rightarrow> rule_runtime \<Rightarrow> rule_runtime" where
  "refresh_enabled reg rt = apply_flags (enabled_rule_ids reg) rt"

definition set_rule_enabled :: "string \<Rightarrow> bool \<Rightarrow> (string, rule_meta) dict \<Rightarrow> (string, rule_meta) dict" where
  "set_rule_enabled i flag reg = map (\<lambda>(j, m). (j, if j = i then m\<lparr>rm_enabled := flag\<rparr> else m)) reg"

section \<open>What a result means\<close>

text \<open>The rows of the window that the rule selects, and those of one group.\<close>

definition hits_of :: "inet_ops \<Rightarrow> int \<Rightarrow> event_row list \<Rightarrow> (string, pyval) dict \<Rightarrow> string list \<Rightarrow> int \<Rightarrow> string option \<Rightarrow> event_row list" where
  "hits_of inet now rows conds cols window d = filter (selected inet now window conds cols (distinct_column d cols)) rows"

definition group_of :: "inet_ops \<Rightarrow> int \<Rightarrow> event_row list \<Rightarrow> (string, pyval) dict \<Rightarrow> string list \<Rightarrow> int \<Rightarrow> string option \<Rightarrow> pyval list \<Rightarrow> event_row list" where
  "group_of inet now rows conds cols window d k = filter (\<lambda>r. group_key inet cols r = k) (hits_of inet now rows conds cols window d)"

lemma correlate_eq:
  assumes "group_cols gb = Inr cols" and "cols \<noteq> []"
  shows "correlate inet now rows (VDict conds) gb window threshold d =
    Inr (map (\<lambda>k. group_row inet cols (distinct_column d cols) k (group_of inet now rows conds cols window d k))
      (filter (\<lambda>k. threshold \<le> group_count inet (distinct_column d cols) (group_of inet now rows conds cols window d k))
        (remdups (map (group_key inet cols) (hits_of inet now rows conds cols window d)))))"
proof -
  have h: "filter (selected inet now window conds cols (distinct_column d cols)) rows = hits_of inet now rows conds cols window d"
    by (simp only: hits_of_def)
  show ?thesis
    using assms unfolding correlate_def Let_def by (simp add: h group_of_def filter_map comp_def del: filter_filter)
qed

lemma group_of_nonempty:
  "k \<in> set (map (group_key inet cols) (hits_of inet now rows conds cols window d)) \<longleftrightarrow>
     group_of inet now rows conds cols window d k \<noteq> []"
  by (auto simp: group_of_def filter_empty_conv)

lemma in_window_time: "r \<in> set (hits_of inet now rows conds cols window d) \<Longrightarrow>
    \<exists>t. event_time (er_event r) = Some t \<and> now - window \<le> t"
  by (auto simp: hits_of_def selected_def in_window_def split: option.splits)

lemma row_times_set: "set (row_times rs) = {t. \<exists>r\<in>set rs. event_time (er_event r) = Some t}"
  by (auto simp: row_times_def set_map_filter)

text \<open>The span of a group lies in the window and holds every event of the group.\<close>

lemma group_span:
  assumes "group_of inet now rows conds cols window d k = g" and "r \<in> set g"
  shows "\<exists>t. event_time (er_event r) = Some t \<and> now - window \<le> cr_first (group_row inet cols dc k g) \<and>
    cr_first (group_row inet cols dc k g) \<le> t \<and> t \<le> cr_last (group_row inet cols dc k g)"
proof -
  have h: "set g \<subseteq> set (hits_of inet now rows conds cols window d)" using assms(1) by (auto simp: group_of_def)
  obtain t where t: "event_time (er_event r) = Some t" using in_window_time assms(2) h by blast
  let ?T = "set (row_times g)"
  have T: "finite ?T" "t \<in> ?T" using assms(2) t row_times_set[of g] by blast+
  have "\<forall>u\<in>?T. now - window \<le> u" using in_window_time h by (fastforce simp: row_times_set)
  moreover have "Min ?T \<in> ?T" using T by (intro Min_in) auto
  ultimately show ?thesis using t T by (auto simp: group_row_def)
qed

text \<open>Every selected row counts in exactly one group.\<close>

lemma sum_group_lengths: "sum_list (map (\<lambda>k. length (filter (\<lambda>x. f x = k) xs)) (remdups (map f xs))) = length xs"
proof -
  have "length (filter (\<lambda>x. f x = k) xs) = count (mset (map f xs)) k" for k
    unfolding count_mset by (induction xs) simp_all
  then have "sum_list (map (\<lambda>k. length (filter (\<lambda>x. f x = k) xs)) (remdups (map f xs))) = (\<Sum>k\<in>set (map f xs). count (mset (map f xs)) k)"
    by (simp add: sum_list_distinct_conv_sum_set)
  also have "\<dots> = length xs" using size_multiset_overloaded_eq[of "mset (map f xs)"] by simp
  finally show ?thesis .
qed

lemma correlate_total:
  assumes "group_cols gb = Inr cols" and "cols \<noteq> []" and "threshold \<le> 1"
    and "correlate inet now rows (VDict conds) gb window threshold None = Inr out"
  shows "sum_list (map cr_n out) = int (length (hits_of inet now rows conds cols window None))"
proof -
  let ?hits = "hits_of inet now rows conds cols window None" and ?g = "group_of inet now rows conds cols window None"
  let ?ks = "remdups (map (group_key inet cols) ?hits)"
  have pos: "threshold \<le> group_count inet None (?g k)" if "k \<in> set ?ks" for k
  proof -
    have "?g k \<noteq> []" using that group_of_nonempty[of k inet cols now rows conds window None] by simp
    then have "1 \<le> int (length (?g k))" by (cases "?g k") simp_all
    then show ?thesis using assms(3) by (simp add: group_count_def)
  qed
  have "out = map (\<lambda>k. group_row inet cols None k (?g k)) ?ks"
    using assms(4) correlate_eq[OF assms(1,2)] pos by (simp add: distinct_column_def filter_True)
  then have e: "map cr_n out = map int (map (\<lambda>k. length (filter (\<lambda>r. group_key inet cols r = k) ?hits)) ?ks)"
    by (simp add: group_row_def group_count_def group_of_def)
  have sl: "sum_list (map int ns) = int (sum_list ns)" for ns by (induction ns) simp_all
  show ?thesis unfolding e sl sum_group_lengths ..
qed

section \<open>The groups of a rule, by what they hold\<close>






definition shown :: "inet_ops \<Rightarrow> event_row \<Rightarrow> string \<Rightarrow> pyval" where
  "shown inet r c = (if c \<in> set corr_ip_cols then VStr (in_host inet (column_text inet c (row_value r c))) else row_value r c)"









section \<open>Alerts once per window\<close>

lemma correlation_alert_key:
  "correlation_alert sha r row b = Inr a \<Longrightarrow> \<exists>gv. group_values r row = Inr gv \<and> alert_key a = (co_id r, corr_dedup sha r gv b)"
  by (auto simp: correlation_alert_def alert_key_def)

lemma run_rule_Inr:
  assumes "run_rule env db_now now r st = Inr (new, st')"
  shows "st_alerts st' = st_alerts st @ new" and "alert_key ` set new \<inter> alert_key ` set (st_alerts st) = {}"
    and "distinct (map alert_key new)" and "st_rows st' = st_rows st"
    and "\<forall>a\<in>set new. \<exists>row. correlation_alert (ce_sha env) r row (now div co_window r) = Inr a"
    and "\<exists>rows. correlate (ce_inet env) db_now (st_rows st) (co_match r) (co_group_by r) (co_window r) (co_threshold r) (co_distinct r) = Inr rows \<and>
      (\<forall>row\<in>set rows. \<exists>a. correlation_alert (ce_sha env) r row (now div co_window r) = Inr a \<and> alert_key a \<in> alert_key ` set (st_alerts st'))"
proof -
  obtain rows where c: "correlate (ce_inet env) db_now (st_rows st) (co_match r) (co_group_by r) (co_window r) (co_threshold r) (co_distinct r) = Inr rows"
    and rest: "(if rows = [] then Inr ([], st) else if co_window r = 0 then Inl ZeroDivisionError
         else sbind (map_res (\<lambda>row. correlation_alert (ce_sha env) r row (now div co_window r)) rows) (\<lambda>alerts.
           (let (tbl, new) = insert_alerts True alerts (st_alerts st) in Inr (new, st\<lparr>st_alerts := tbl\<rparr>)))) = Inr (new, st')"
    using assms by (auto simp: run_rule_def)
  have all: "st_alerts st' = st_alerts st @ new \<and> alert_key ` set new \<inter> alert_key ` set (st_alerts st) = {} \<and>
      distinct (map alert_key new) \<and> st_rows st' = st_rows st \<and>
      (\<forall>a\<in>set new. \<exists>row. correlation_alert (ce_sha env) r row (now div co_window r) = Inr a) \<and>
      (\<forall>row\<in>set rows. \<exists>a. correlation_alert (ce_sha env) r row (now div co_window r) = Inr a \<and> alert_key a \<in> alert_key ` set (st_alerts st'))"
  proof (cases "rows = []")
    case True
    then show ?thesis using rest by simp
  next
    case False
    then obtain alerts where m: "map_res (\<lambda>row. correlation_alert (ce_sha env) r row (now div co_window r)) rows = Inr alerts"
        and i: "(let (tbl, new) = insert_alerts True alerts (st_alerts st) in Inr (new, st\<lparr>st_alerts := tbl\<rparr>)) = (Inr (new, st') :: py_error + _)"
      using rest by (auto split: if_splits)
    obtain tbl ins where n: "insert_alerts_new alerts (st_alerts st) = (tbl, ins)" by fastforce
    then have s: "new = ins" "st' = st\<lparr>st_alerts := tbl\<rparr>" using i by (simp_all add: insert_alerts_def)
    have l2: "list_all2 (\<lambda>row a. correlation_alert (ce_sha env) r row (now div co_window r) = Inr a) rows alerts"
      using m by (simp add: map_res_Inr_iff)
    have made: "\<forall>a\<in>set alerts. \<exists>row. correlation_alert (ce_sha env) r row (now div co_window r) = Inr a"
      using l2 by (fastforce simp: list_all2_conv_all_nth in_set_conv_nth)
    have given: "\<forall>row\<in>set rows. \<exists>a\<in>set alerts. correlation_alert (ce_sha env) r row (now div co_window r) = Inr a"
      using l2 by (fastforce simp: list_all2_conv_all_nth in_set_conv_nth)
    have f: "tbl = st_alerts st @ ins" "set ins \<subseteq> set alerts" "alert_key ` set ins \<inter> alert_key ` set (st_alerts st) = {}"
        "distinct (map alert_key ins)" "alert_key ` set alerts \<subseteq> alert_key ` set tbl"
      using insert_alerts_new_facts[OF n] by blast+
    have "\<forall>row\<in>set rows. \<exists>a. correlation_alert (ce_sha env) r row (now div co_window r) = Inr a \<and> alert_key a \<in> alert_key ` set tbl"
      using given f(5) by blast
    moreover have "\<forall>a\<in>set new. \<exists>row. correlation_alert (ce_sha env) r row (now div co_window r) = Inr a"
      using made f(2) s(1) by blast
    ultimately show ?thesis using f s by simp
  qed
  show "st_alerts st' = st_alerts st @ new" by (rule all[THEN conjunct1])
  show "alert_key ` set new \<inter> alert_key ` set (st_alerts st) = {}" by (rule all[THEN conjunct2, THEN conjunct1])
  show "distinct (map alert_key new)" by (rule all[THEN conjunct2, THEN conjunct2, THEN conjunct1])
  show "st_rows st' = st_rows st" by (rule all[THEN conjunct2, THEN conjunct2, THEN conjunct2, THEN conjunct1])
  show "\<forall>a\<in>set new. \<exists>row. correlation_alert (ce_sha env) r row (now div co_window r) = Inr a"
    by (rule all[THEN conjunct2, THEN conjunct2, THEN conjunct2, THEN conjunct2, THEN conjunct1])
  show "\<exists>rows. correlate (ce_inet env) db_now (st_rows st) (co_match r) (co_group_by r) (co_window r) (co_threshold r) (co_distinct r) = Inr rows \<and>
      (\<forall>row\<in>set rows. \<exists>a. correlation_alert (ce_sha env) r row (now div co_window r) = Inr a \<and> alert_key a \<in> alert_key ` set (st_alerts st'))"
    by (intro exI conjI) (rule c, rule all[THEN conjunct2, THEN conjunct2, THEN conjunct2, THEN conjunct2, THEN conjunct2])
qed

text \<open>Within one window index a group is reported by one run at most.\<close>

lemma group_reported_once:
  assumes one: "run_rule env d1 n1 r st1 = Inr (new1, st1')" and two: "run_rule env d2 n2 r st2 = Inr (new2, st2')"
    and kept: "set (st_alerts st1') \<subseteq> set (st_alerts st2)" and same: "n1 div co_window r = n2 div co_window r"
    and a: "correlation_alert (ce_sha env) r row1 (n1 div co_window r) = Inr a" "a \<in> set new1"
    and b: "correlation_alert (ce_sha env) r row2 (n2 div co_window r) = Inr b" "b \<in> set new2"
  shows "group_values r row1 \<noteq> group_values r row2"
proof
  assume "group_values r row1 = group_values r row2"
  then have "alert_key b = alert_key a" using correlation_alert_key[OF a(1)] correlation_alert_key[OF b(1)] same by force
  moreover have "alert_key a \<in> alert_key ` set (st_alerts st2)" using run_rule_Inr(1)[OF one] a(2) kept by auto
  ultimately show False using run_rule_Inr(2)[OF two] b(2) by fastforce
qed

lemma run_all_extends:
  "run_all env d n rs st = (new, st') \<Longrightarrow>
     st_alerts st' = st_alerts st @ new \<and> st_rows st' = st_rows st \<and>
     alert_key ` set new \<inter> alert_key ` set (st_alerts st) = {} \<and> distinct (map alert_key new)"
proof (induction rs arbitrary: st new)
  case (Cons r rs)
  show ?case
  proof (cases "co_enabled r \<and> (\<exists>p. run_rule env d n r st = Inr p)")
    case True
    then obtain n1 st1 where o: "run_rule env d n r st = Inr (n1, st1)" by auto
    obtain n2 where t: "run_all env d n rs st1 = (n2, st')" "new = n1 @ n2"
      using Cons.prems True o by (auto split: prod.splits)
    show ?thesis using Cons.IH[OF t(1)] run_rule_Inr(1-4)[OF o] t(2) by auto
  next
    case False
    then have "run_all env d n rs st = (new, st')" using Cons.prems by (auto split: if_splits sum.splits)
    then show ?thesis by (rule Cons.IH)
  qed
qed simp

section \<open>What a rule can get wrong\<close>

text \<open>A condition on a column that is not listed restricts nothing.\<close>

lemma unlisted_condition_ignored:
  assumes "c \<notin> set corr_cols"
  shows "correlate inet now rows (VDict ((c, v) # conds)) gb window threshold d = correlate inet now rows (VDict conds) gb window threshold d"
proof -
  have "condition_holds inet r (c, v)" for r using assms by (simp add: condition_holds_def)
  then have "selected inet now window ((c, v) # conds) cols dc = selected inet now window conds cols dc" for cols dc
    by (auto simp: selected_def)
  then show ?thesis unfolding correlate_def by (simp only: pyval.case)
qed

text \<open>A \<open>group_by\<close> that is one name and not a list is read character by character.\<close>

lemma scalar_group_by_is_dead:
  assumes "pv_get corr ''group_by'' = VStr s" and "corr_rule_from trunc name doc corr = Inr r"
  shows "correlate inet now rows mtch (co_group_by r) window threshold d = Inr []"
proof -
  have g: "co_group_by r = map (\<lambda>c. VStr [c]) s"
    using assms by (cases "s = []") (auto simp: corr_rule_from_def Let_def pv_iter_def pv_truthy_def split: prod.splits)
  have "map_res (\<lambda>v. case v of VStr s \<Rightarrow> Inr (if s \<in> set corr_cols then [s] else [])
      | VList _ \<Rightarrow> Inl TypeError | VDict _ \<Rightarrow> Inl TypeError | _ \<Rightarrow> Inr []) (map (\<lambda>c. VStr [c]) s)
      = Inr (map (\<lambda>_. []) s)" by (induction s) (simp_all add: corr_cols_def)
  then have "group_cols (co_group_by r) = Inr []" by (simp add: group_cols_def g)
  then show ?thesis by (simp add: correlate_def)
qed

text \<open>An address as text carries its network mask, so a plain address never equals it.\<close>

lemma address_condition_never_holds:
  assumes "c \<in> set corr_ip_cols" and "\<And>s. CHR ''/'' \<in> set (in_text inet s)"
    and "\<forall>x\<in>set (as_list v). CHR ''/'' \<notin> set (pv_str x)"
  shows "\<not> condition_holds inet r (c, v)"
proof -
  have c: "c \<in> set corr_cols" using assms(1) by (auto simp: corr_cols_def corr_ip_cols_def)
  have low: "CHR ''/'' \<in> set (lower t) \<longleftrightarrow> CHR ''/'' \<in> set t" for t
  proof -
    have slash: "lower_char x = CHR ''/'' \<longleftrightarrow> x = CHR ''/''" for x
    proof -
      have "code (CHR ''/'') = 47" by (simp add: code_def)
      then show ?thesis using code_lower_char[of x] by (simp add: code_eq_iff split: if_splits)
    qed
    show ?thesis unfolding lower_def set_map image_iff using slash by metis
  qed
  have "CHR ''/'' \<in> set (lower (column_text inet c (row_value r c)))"
    unfolding low using assms(1,2) by (simp add: column_text_def)
  moreover have "CHR ''/'' \<notin> set (lower (pv_str x))" if "x \<in> set (as_list v)" for x
    unfolding low using assms(3) that by blast
  ultimately have ne: "\<forall>x\<in>set (as_list v). lower (column_text inet c (row_value r c)) \<noteq> lower (pv_str x)" by metis
  show ?thesis
  proof
    assume "condition_holds inet r (c, v)"
    then have "case v of VList xs \<Rightarrow> lower (column_text inet c (row_value r c)) \<in> set (map (\<lambda>v. lower (pv_str v)) xs)
        | _ \<Rightarrow> lower (column_text inet c (row_value r c)) = lower (pv_str v)"
      unfolding condition_holds_def Let_def prod.case using c by blast
    then have "\<exists>x\<in>set (as_list v). lower (column_text inet c (row_value r c)) = lower (pv_str x)"
      by (cases v) (simp_all only: pyval.case as_list_def list.set set_map, blast+)
    then show False using ne by blast
  qed
qed

lemma address_rule_never_fires:
  assumes "group_cols gb = Inr cols" and "(c, v) \<in> set conds" and "c \<in> set corr_ip_cols"
    and "\<And>s. CHR ''/'' \<in> set (in_text inet s)" and "\<forall>x\<in>set (as_list v). CHR ''/'' \<notin> set (pv_str x)"
  shows "correlate inet now rows (VDict conds) gb window threshold d = Inr []"
proof (cases "cols = []")
  case False
  have "\<not> selected inet now window conds cols dc r" for dc r
    using address_condition_never_holds[OF assms(3-5)] assms(2) by (auto simp: selected_def list_all_iff)
  then have "hits_of inet now rows conds cols window d = []" by (simp add: hits_of_def)
  then show ?thesis using correlate_eq[OF assms(1) False] by simp
qed (use assms(1) in \<open>simp add: correlate_def\<close>)

section \<open>Flags\<close>

lemma sync_rules_get:
  "map_option rm_enabled (dict_get (sync_rules ims reg) i) =
     (case dict_get reg i of Some m \<Rightarrow> Some (rm_enabled m) | None \<Rightarrow> if i \<in> fst ` set ims then Some True else None)"
proof (induction ims arbitrary: reg)
  case (Cons im ims)
  then show ?case by (cases im) (auto simp: sync_rules_def sync_rule_def split: option.splits)
qed (simp add: sync_rules_def option.map_ident split: option.split)

lemma distinct_sync: "distinct (map fst reg) \<Longrightarrow> distinct (map fst (sync_rules ims reg))"
  by (induction ims arbitrary: reg) (auto simp: sync_rules_def sync_rule_def split: prod.splits)

lemma enabled_ids: "distinct (map fst reg) \<Longrightarrow> i \<in> set (enabled_rule_ids reg) \<longleftrightarrow> map_option rm_enabled (dict_get reg i) = Some True"
  by (force simp: enabled_rule_ids_def dict_get_def)

lemma load_keeps_flags:
  assumes "load_and_sync trunc files console reg = Inr (rt, reg')" and "distinct (map fst reg)"
  shows "\<forall>r\<in>set (rt_rules rt). rl_enabled r \<longleftrightarrow> (case dict_get reg (rl_id r) of Some m \<Rightarrow> rm_enabled m | None \<Rightarrow> True)"
    and "\<forall>r\<in>set (rt_corr rt). co_enabled r \<longleftrightarrow> (case dict_get reg (co_id r) of Some m \<Rightarrow> rm_enabled m | None \<Rightarrow> True)"
    and "distinct (map fst reg')"
proof -
  obtain rules corr where reg': "reg' = sync_rules (map rule_entry rules @ map corr_entry corr) reg"
      and rt: "rt = apply_flags (enabled_rule_ids reg') \<lparr>rt_rules = rules, rt_corr = corr\<rparr>"
    using assms(1) unfolding load_and_sync_def Let_def sbind_Inr_iff by blast
  show d: "distinct (map fst reg')" unfolding reg' using assms(2) by (rule distinct_sync)
  have ids: "fst ` set (map rule_entry rules @ map corr_entry corr) = rl_id ` set rules \<union> co_id ` set corr"
    by (simp add: image_Un image_image rule_entry_def corr_entry_def)
  have e: "i \<in> set (enabled_rule_ids reg') \<longleftrightarrow> (case dict_get reg i of Some m \<Rightarrow> rm_enabled m | None \<Rightarrow> True)"
    if "i \<in> rl_id ` set rules \<union> co_id ` set corr" for i
    unfolding enabled_ids[OF d] unfolding reg' sync_rules_get ids using that by (simp split: option.split)
  show "\<forall>r\<in>set (rt_rules rt). rl_enabled r \<longleftrightarrow> (case dict_get reg (rl_id r) of Some m \<Rightarrow> rm_enabled m | None \<Rightarrow> True)"
    "\<forall>r\<in>set (rt_corr rt). co_enabled r \<longleftrightarrow> (case dict_get reg (co_id r) of Some m \<Rightarrow> rm_enabled m | None \<Rightarrow> True)"
    using e by (auto simp: rt apply_flags_def)
qed

section \<open>Properties\<close>

definition logon_row :: "string \<Rightarrow> int \<Rightarrow> event_row" where
  "logon_row user t =
     \<lparr>er_event = (bare_event ''ad'')\<lparr>event_time := Some t, action := Some ''Failed-Logon'', user_name := Some user\<rparr>,
      er_src_port = None, er_dst_port = None, er_bytes_total = None, er_tsv = [], er_cim_models = None, er_batch_id = 1,
      er_dedup_hash = int_str t\<rparr>"

definition logon_rows :: "event_row list" where
  "logon_rows = [logon_row ''ann'' 100, logon_row ''ann'' 110, logon_row ''bob'' 120, logon_row ''ann'' 10]"

definition plain_inet :: inet_ops where
  "plain_inet = \<lparr>in_text = (\<lambda>s. s @ ''/32''), in_host = takeWhile (\<lambda>c. c \<noteq> CHR ''/'')\<rparr>"

definition burst_rule :: corr_rule where
  "burst_rule = \<lparr>co_id = ''burst'', co_title = ''Burst'', co_level = ''high'', co_description = [],
     co_match = VDict [(''action'', VStr ''failed-logon'')], co_group_by = [VStr ''user_name''], co_window = 60,
     co_threshold = 2, co_distinct = None, co_tactics = [], co_techniques = [], co_atlas = [], co_fidelity = ''medium'',
     co_data_source = [], co_references = [], co_source = ''b.yml'', co_enabled = True\<rparr>"


lemma burst_hits:
  "map (\<lambda>r. cr_n r) (case correlate plain_inet 125 logon_rows (co_match burst_rule) (co_group_by burst_rule) 60 2 None of Inr out \<Rightarrow> out | Inl _ \<Rightarrow> [])
     = [2]"
  by code_simp



text \<open>C18: Within one window index a correlation rule reports a group at most once, over any two evaluations between which alerts are only added; its alerts are new to the store, and every group over the threshold has one there afterwards.\<close>

theorem correlation_alerts_once:
  assumes "run_rule env d1 n1 r st1 = Inr (new1, st1')" and "run_rule env d2 n2 r st2 = Inr (new2, st2')"
    and "set (st_alerts st1') \<subseteq> set (st_alerts st2)" and "n1 div co_window r = n2 div co_window r"
  shows "(\<forall>row1 row2 a b. correlation_alert (ce_sha env) r row1 (n1 div co_window r) = Inr a \<longrightarrow> a \<in> set new1 \<longrightarrow>
      correlation_alert (ce_sha env) r row2 (n2 div co_window r) = Inr b \<longrightarrow> b \<in> set new2 \<longrightarrow>
      group_values r row1 \<noteq> group_values r row2) \<and>
    alert_key ` set new2 \<inter> alert_key ` set (st_alerts st2) = {} \<and> distinct (map alert_key new2) \<and>
    (\<exists>rows. correlate (ce_inet env) d2 (st_rows st2) (co_match r) (co_group_by r) (co_window r) (co_threshold r) (co_distinct r) = Inr rows \<and>
      (\<forall>row\<in>set rows. \<exists>a. correlation_alert (ce_sha env) r row (n2 div co_window r) = Inr a \<and>
        alert_key a \<in> alert_key ` set (st_alerts st2')))"
  using group_reported_once[OF assms] run_rule_Inr(2,3,6)[OF assms(2)] by blast

theorem correlation_alerts_once_witness:
  "\<exists>new1 st1 new2 st2. run_rule \<lparr>ce_inet = plain_inet, ce_sha = (\<lambda>t. t)\<rparr> 125 125 burst_rule (demo_store\<lparr>st_rows := logon_rows\<rparr>) = Inr (new1, st1) \<and>
     run_rule \<lparr>ce_inet = plain_inet, ce_sha = (\<lambda>t. t)\<rparr> 130 130 burst_rule st1 = Inr (new2, st2) \<and>
     length new1 = 1 \<and> alert_key ` set new2 \<inter> alert_key ` set new1 = {}"
proof -
  let ?env = "\<lparr>ce_inet = plain_inet, ce_sha = (\<lambda>t. t)\<rparr>" and ?st = "demo_store\<lparr>st_rows := logon_rows\<rparr>"
  have l: "(case run_rule ?env 125 125 burst_rule ?st of Inr (new, st) \<Rightarrow> length new | Inl _ \<Rightarrow> 0) = 1" by code_simp
  then obtain new1 st1 where one: "run_rule ?env 125 125 burst_rule ?st = Inr (new1, st1)" by (auto split: sum.splits)
  have "\<not> isl (case run_rule ?env 125 125 burst_rule ?st of Inr (new, st) \<Rightarrow> run_rule ?env 130 130 burst_rule st | Inl e \<Rightarrow> Inl e)"
    by code_simp
  then have "\<not> isl (run_rule ?env 130 130 burst_rule st1)" using one by simp
  then obtain new2 st2 where two: "run_rule ?env 130 130 burst_rule st1 = Inr (new2, st2)"
    by (cases "run_rule ?env 130 130 burst_rule st1") auto
  have "(125::int) div co_window burst_rule = 130 div co_window burst_rule" by (simp add: burst_rule_def)
  from correlation_alerts_once[OF one two order_refl this] show ?thesis
    using one two l run_rule_Inr(1)[OF one] by auto
qed

text \<open>A condition on a column that is not in the whitelist is left out without a word, so the rule counts more events than it says.\<close>

lemma misspelled_condition_widens_rule:
  assumes "c \<notin> set corr_cols"
  shows "correlate inet now rows (VDict ((c, v) # conds)) gb window threshold d = correlate inet now rows (VDict conds) gb window threshold d"
  using assms by (rule unlisted_condition_ignored)

text \<open>A rule that filters on a plain source or destination address never fires, since the text of a stored address carries its network mask.\<close>

lemma address_condition_is_dead:
  assumes "group_cols gb = Inr cols" and "(c, v) \<in> set conds" and "c \<in> set corr_ip_cols"
    and "\<And>s. CHR ''/'' \<in> set (in_text inet s)" and "\<forall>x\<in>set (as_list v). CHR ''/'' \<notin> set (pv_str x)"
  shows "correlate inet now rows (VDict conds) gb window threshold d = Inr []"
  using assms by (rule address_rule_never_fires)

lemma address_condition_is_dead_example:
  "correlate plain_inet now rows (VDict [(''src_ip'', VStr ''10.0.0.1'')]) [VStr ''user_name''] window threshold d = Inr []"
proof (rule address_condition_is_dead)
  show "group_cols [VStr ''user_name''] = Inr [''user_name'']" by (simp add: group_cols_def corr_cols_def)
qed (auto simp: plain_inet_def corr_ip_cols_def as_list_def)

text \<open>A group_by written as one name instead of a list is taken apart into characters: the rule loads and never fires.\<close>

lemma single_name_group_by_is_dead:
  assumes "pv_get corr ''group_by'' = VStr s" and "corr_rule_from trunc name doc corr = Inr r"
  shows "correlate inet now rows mtch (co_group_by r) window threshold d = Inr []"
  using assms by (rule scalar_group_by_is_dead)

text \<open>Loading the rules again keeps what an operator switched off: a rule is enabled exactly when its registered flag is set, and a rule not registered before is.\<close>

lemma reload_keeps_rule_flags:
  assumes "load_and_sync trunc files console reg = Inr (rt, reg')" and "distinct (map fst reg)"
  shows "(\<forall>r\<in>set (rt_rules rt). rl_enabled r \<longleftrightarrow> (case dict_get reg (rl_id r) of Some m \<Rightarrow> rm_enabled m | None \<Rightarrow> True)) \<and>
    (\<forall>r\<in>set (rt_corr rt). co_enabled r \<longleftrightarrow> (case dict_get reg (co_id r) of Some m \<Rightarrow> rm_enabled m | None \<Rightarrow> True))"
  using load_keeps_flags[OF assms] by blast

end
