(* ===== verification/PyJson.thy ===== *)
theory PyJson
  imports PyIp
begin

text \<open>
  Python's \<open>json\<close>, as far as the sources use it: \<open>JSONDecoder.raw_decode\<close>, \<open>json.loads\<close>, and
  \<open>json.dumps\<close> with the compact separators. A text is a list of UTF-8 bytes, so an escaped code point is
  written out in UTF-8 (a lone surrogate in the same way). The conversion of a numeral to a float, as the
  text \<open>repr\<close> gives for it, is an argument. The decoder opens at most \<open>d\<close> brackets inside one another
  before the interpreter refuses.
\<close>

datatype json_error = Malformed | TooDeep | TooManyDigits

section \<open>Characters\<close>

definition char_at :: "int \<Rightarrow> char" where "char_at n = char_of n"

lemma code_char_at: "0 \<le> n \<Longrightarrow> n < 256 \<Longrightarrow> code (char_at n) = n"
  by (simp add: code_def char_at_def)

lemma char_at_eq: "0 \<le> n \<Longrightarrow> n < 256 \<Longrightarrow> char_at n = c \<longleftrightarrow> n = code c"
  using code_char_at code_eq_iff by metis

definition utf8 :: "int \<Rightarrow> string" where
  "utf8 n =
     (if n < 128 then [char_at n]
      else if n < 2048 then [char_at (192 + n div 64), char_at (128 + n mod 64)]
      else if n < 65536 then [char_at (224 + n div 4096), char_at (128 + n div 64 mod 64), char_at (128 + n mod 64)]
      else [char_at (240 + n div 262144), char_at (128 + n div 4096 mod 64), char_at (128 + n div 64 mod 64),
            char_at (128 + n mod 64)])"

definition high_surrogate :: "int \<Rightarrow> bool" where "high_surrogate n \<longleftrightarrow> 55296 \<le> n \<and> n \<le> 56319"
definition low_surrogate :: "int \<Rightarrow> bool" where "low_surrogate n \<longleftrightarrow> 56320 \<le> n \<and> n \<le> 57343"

text \<open>The code points of a text in UTF-8. A byte that opens no sequence, which no Python text holds, stands for itself.\<close>

definition continuation :: "string \<Rightarrow> nat \<Rightarrow> int" where
  "continuation cs k = foldl (\<lambda>n c. n * 64 + code c mod 64) 0 (take k cs)"

function code_points :: "string \<Rightarrow> int list" where
  "code_points [] = []"
| "code_points (c # cs) =
     (let n = code c in
      if n < 192 then n # code_points cs
      else if n < 224 then ((n - 192) * 64 + continuation cs 1) # code_points (drop 1 cs)
      else if n < 240 then ((n - 224) * 4096 + continuation cs 2) # code_points (drop 2 cs)
      else ((n - 240) * 262144 + continuation cs 3) # code_points (drop 3 cs))"
  by pat_completeness auto
termination by (relation "measure length") auto

definition scalar :: "int \<Rightarrow> bool" where
  "scalar n \<longleftrightarrow> 0 \<le> n \<and> n < 1114112 \<and> \<not> high_surrogate n \<and> \<not> low_surrogate n"

definition utf8_text :: "string \<Rightarrow> bool" where
  "utf8_text s \<longleftrightarrow> list_all scalar (code_points s) \<and> concat (map utf8 (code_points s)) = s"

section \<open>The reader\<close>

definition json_space :: "char \<Rightarrow> bool" where
  "json_space c \<longleftrightarrow> c \<in> {CHR '' '', CHR 9, CHR 10, CHR 13}"

definition jws :: "string \<Rightarrow> string" where "jws s = dropWhile json_space s"

definition hex_val :: "char \<Rightarrow> int option" where
  "hex_val c =
     (let n = code c in
      if 48 \<le> n \<and> n \<le> 57 then Some (n - 48)
      else if 65 \<le> n \<and> n \<le> 70 then Some (n - 55)
      else if 97 \<le> n \<and> n \<le> 102 then Some (n - 87) else None)"

text \<open>The four hexadecimal digits of an escape.\<close>

definition hex4 :: "string \<Rightarrow> int option" where
  "hex4 s =
     (case s of a # b # c # d # _ \<Rightarrow>
        (case (hex_val a, hex_val b, hex_val c, hex_val d) of
           (Some w, Some x, Some y, Some z) \<Rightarrow> Some (w * 4096 + x * 256 + y * 16 + z) | _ \<Rightarrow> None)
      | _ \<Rightarrow> None)"

definition simple_escape :: "char \<Rightarrow> char option" where
  "simple_escape c =
     map_of [(CHR 34, CHR 34), (CHR 92, CHR 92), (CHR ''/'', CHR ''/''), (CHR ''b'', CHR 8), (CHR ''f'', CHR 12),
             (CHR ''n'', CHR 10), (CHR ''r'', CHR 13), (CHR ''t'', CHR 9)] c"

text \<open>The second half of a surrogate pair, when one follows.\<close>

definition pair_half :: "string \<Rightarrow> int option" where
  "pair_half s =
     (case s of a # b # r \<Rightarrow>
        if a = CHR 92 \<and> b = CHR ''u'' then (case hex4 r of Some n \<Rightarrow> if low_surrogate n then Some n else None | None \<Rightarrow> None)
        else None
      | _ \<Rightarrow> None)"

definition prepend :: "string \<Rightarrow> (string \<times> string) option \<Rightarrow> (string \<times> string) option" where
  "prepend p r = map_option (\<lambda>(s, rest). (p @ s, rest)) r"

text \<open>\<open>scanstring\<close>, behind the opening quote.\<close>

function json_string :: "string \<Rightarrow> (string \<times> string) option" where
  "json_string [] = None"
| "json_string (c # cs) =
     (if c = CHR 34 then Some ([], cs)
      else if c = CHR 92 then
        (case cs of
           [] \<Rightarrow> None
         | e # r \<Rightarrow>
             (case simple_escape e of
                Some x \<Rightarrow> prepend [x] (json_string r)
              | None \<Rightarrow>
                  if e \<noteq> CHR ''u'' then None
                  else (case hex4 r of
                          None \<Rightarrow> None
                        | Some n \<Rightarrow>
                            (case (if high_surrogate n then pair_half (drop 4 r) else None) of
                               Some m \<Rightarrow> prepend (utf8 (65536 + (n - 55296) * 1024 + (m - 56320))) (json_string (drop 10 r))
                             | None \<Rightarrow> prepend (utf8 n) (json_string (drop 4 r))))))
      else if code c < 32 then None
      else prepend [c] (json_string cs))"
  by pat_completeness auto
termination by (relation "measure length") auto

text \<open>A numeral: its integer part with the sign, its fraction with the exponent, and what follows.\<close>

definition number_fraction :: "string \<Rightarrow> string \<times> string" where
  "number_fraction s =
     (case s of c # d # _ \<Rightarrow>
        if c = CHR ''.'' \<and> is_digit d then (c # takeWhile is_digit (tl s), dropWhile is_digit (tl s)) else ([], s)
      | _ \<Rightarrow> ([], s))"

definition number_exponent :: "string \<Rightarrow> string \<times> string" where
  "number_exponent s =
     (case s of
        [] \<Rightarrow> ([], s)
      | c # r \<Rightarrow>
          if c \<notin> {CHR ''e'', CHR ''E''} then ([], s)
          else (let (sign, t) = (case r of x # y \<Rightarrow> if x \<in> {CHR ''+'', CHR ''-''} then ([x], y) else ([], r) | [] \<Rightarrow> ([], r)) in
                if takeWhile is_digit t = [] then ([], s)
                else (c # sign @ takeWhile is_digit t, dropWhile is_digit t)))"

definition number_integer :: "string \<Rightarrow> (string \<times> string) option" where
  "number_integer s =
     (case s of
        [] \<Rightarrow> None
      | c # r \<Rightarrow>
          if c = CHR ''0'' then Some ([c], r)
          else if is_digit c then Some (takeWhile is_digit s, dropWhile is_digit s) else None)"

definition json_number :: "string \<Rightarrow> (string \<times> string \<times> string) option" where
  "json_number s =
     (let (sign, t) = (case s of c # r \<Rightarrow> if c = CHR ''-'' then ([c], r) else ([], s) | [] \<Rightarrow> ([], s)) in
      case number_integer t of
        None \<Rightarrow> None
      | Some (i, r) \<Rightarrow>
          (let (f, r1) = number_fraction r; (e, r2) = number_exponent r1 in Some (sign @ i, f @ e, r2)))"

text \<open>\<open>int\<close> refuses a numeral of more digits than \<open>sys.int_info.default_max_str_digits\<close>.\<close>

definition max_str_digits :: nat where "max_str_digits = 4300"

definition number_value :: "(string \<Rightarrow> string) \<Rightarrow> string \<times> string \<times> string \<Rightarrow> json_error + pyval \<times> string" where
  "number_value fl n =
     (case n of (i, f, r) \<Rightarrow>
        if f \<noteq> [] then Inr (VFloat (fl (i @ f)), r)
        else if max_str_digits < length (snd (split_sign i)) then Inl TooManyDigits
        else Inr (VInt (if fst (split_sign i) then - digits_val (snd (split_sign i)) else digits_val (snd (split_sign i))), r))"

text \<open>The constants, which are tried before a numeral.\<close>

definition constants :: "(string \<times> pyval) list" where
  "constants = [(''null'', VNone), (''true'', VBool True), (''false'', VBool False), (''NaN'', VFloat ''nan''),
                (''Infinity'', VFloat ''inf''), (''-Infinity'', VFloat ''-inf'')]"

definition json_scalar :: "(string \<Rightarrow> string) \<Rightarrow> string \<Rightarrow> json_error + pyval \<times> string" where
  "json_scalar fl s =
     (case s of
        [] \<Rightarrow> Inl Malformed
      | c # r \<Rightarrow>
          if c = CHR 34 then (case json_string r of None \<Rightarrow> Inl Malformed | Some (t, r') \<Rightarrow> Inr (VStr t, r'))
          else (case List.find (\<lambda>(w, _). prefix w s) constants of
                  Some (w, v) \<Rightarrow> Inr (v, drop (length w) s)
                | None \<Rightarrow> (case json_number s of None \<Rightarrow> Inl Malformed | Some n \<Rightarrow> number_value fl n)))"

text \<open>
  The elements of an array and the members of an object, for a reader of one value. The number bounds the
  elements; every element takes a character, so the length of the text is enough.
\<close>

fun json_items :: "(string \<Rightarrow> json_error + pyval \<times> string) \<Rightarrow> nat \<Rightarrow> string \<Rightarrow> json_error + pyval list \<times> string" where
  "json_items p 0 s = Inl Malformed"
| "json_items p (Suc n) s =
     sbind (p s) (\<lambda>(v, r).
       case jws r of
         [] \<Rightarrow> Inl Malformed
       | c # r' \<Rightarrow>
           if c = CHR '']'' then Inr ([v], r')
           else if c = CHR '','' then sbind (json_items p n (jws r')) (\<lambda>(vs, r''). Inr (v # vs, r''))
           else Inl Malformed)"

fun json_members ::
    "(string \<Rightarrow> json_error + pyval \<times> string) \<Rightarrow> nat \<Rightarrow> string \<Rightarrow> json_error + (string \<times> pyval) list \<times> string" where
  "json_members p 0 s = Inl Malformed"
| "json_members p (Suc n) s =
     (case s of
        [] \<Rightarrow> Inl Malformed
      | q # r0 \<Rightarrow>
          if q \<noteq> CHR 34 then Inl Malformed
          else (case json_string r0 of
                  None \<Rightarrow> Inl Malformed
                | Some (k, r1) \<Rightarrow>
                    (case jws r1 of
                       [] \<Rightarrow> Inl Malformed
                     | col # r2 \<Rightarrow>
                         if col \<noteq> CHR '':'' then Inl Malformed
                         else sbind (p (jws r2)) (\<lambda>(v, r).
                           case jws r of
                             [] \<Rightarrow> Inl Malformed
                           | c # r' \<Rightarrow>
                               if c = CHR ''}'' then Inr ([(k, v)], r')
                               else if c = CHR '','' then
                                 sbind (json_members p n (jws r')) (\<lambda>(kvs, r''). Inr ((k, v) # kvs, r''))
                               else Inl Malformed))))"

definition json_dict :: "(string \<times> pyval) list \<Rightarrow> (string, pyval) dict" where
  "json_dict kvs = foldl (\<lambda>d (k, v). dict_set k v d) [] kvs"

text \<open>\<open>scan_once\<close>.\<close>

primrec json_value :: "(string \<Rightarrow> string) \<Rightarrow> nat \<Rightarrow> string \<Rightarrow> json_error + pyval \<times> string" where
  "json_value fl 0 s = (if s \<noteq> [] \<and> hd s \<in> {CHR ''['', CHR ''{''} then Inl TooDeep else json_scalar fl s)"
| "json_value fl (Suc d) s =
     (case s of
        [] \<Rightarrow> Inl Malformed
      | c # r \<Rightarrow>
          if c = CHR ''['' then
            (if jws r \<noteq> [] \<and> hd (jws r) = CHR '']'' then Inr (VList [], tl (jws r))
             else sbind (json_items (json_value fl d) (length r) (jws r)) (\<lambda>(vs, r'). Inr (VList vs, r')))
          else if c = CHR ''{'' then
            (if jws r \<noteq> [] \<and> hd (jws r) = CHR ''}'' then Inr (VDict [], tl (jws r))
             else sbind (json_members (json_value fl d) (length r) (jws r)) (\<lambda>(kvs, r'). Inr (VDict (json_dict kvs), r')))
          else json_scalar fl s)"

definition bom :: string where "bom = map char_at [239, 187, 191]"

definition json_loads :: "(string \<Rightarrow> string) \<Rightarrow> nat \<Rightarrow> string \<Rightarrow> json_error + pyval" where
  "json_loads fl d s =
     (if prefix bom s then Inl Malformed
      else sbind (json_value fl d (jws s)) (\<lambda>(v, r). if jws r = [] then Inr v else Inl Malformed))"

section \<open>The writer\<close>

text \<open>\<open>\uXXXX\<close>.\<close>

definition hex_escape :: "int \<Rightarrow> string" where
  "hex_escape n =
     [CHR 92, CHR ''u'', hex_digit (n div 4096), hex_digit (n div 256 mod 16), hex_digit (n div 16 mod 16), hex_digit (n mod 16)]"

definition json_escape :: "int \<Rightarrow> string" where
  "json_escape n =
     (if n = 34 then [CHR 92, CHR 34] else if n = 92 then [CHR 92, CHR 92]
      else if n = 10 then [CHR 92, CHR ''n''] else if n = 13 then [CHR 92, CHR ''r'']
      else if n = 9 then [CHR 92, CHR ''t''] else if n = 12 then [CHR 92, CHR ''f'']
      else if n = 8 then [CHR 92, CHR ''b'']
      else if 32 \<le> n \<and> n < 127 then [char_at n]
      else if n < 65536 then hex_escape n
      else hex_escape (55296 + (n - 65536) div 1024) @ hex_escape (56320 + (n - 65536) mod 1024))"

definition json_quote :: "string \<Rightarrow> string" where
  "json_quote s = CHR 34 # concat (map json_escape (code_points s)) @ [CHR 34]"

definition float_text :: "string \<Rightarrow> string" where
  "float_text t = (if t = ''nan'' then ''NaN'' else if t = ''inf'' then ''Infinity'' else if t = ''-inf'' then ''-Infinity'' else t)"

text \<open>An integer of more digits than the reader takes, which only other sources could bring, is written as it is.\<close>

fun json_text :: "pyval \<Rightarrow> string" where
  "json_text VNone = ''null''"
| "json_text (VBool b) = (if b then ''true'' else ''false'')"
| "json_text (VInt i) = int_str i"
| "json_text (VFloat t) = float_text t"
| "json_text (VStr s) = json_quote s"
| "json_text (VList vs) = ''['' @ join '','' (map json_text vs) @ '']''"
| "json_text (VDict kvs) = ''{'' @ join '','' (map (\<lambda>(k, v). json_quote k @ '':'' @ json_text v) kvs) @ ''}''"

section \<open>What is written reads back\<close>

text \<open>What may stand behind a value: no character that would continue a numeral.\<close>

definition value_end :: "string \<Rightarrow> bool" where
  "value_end r \<longleftrightarrow> (case r of [] \<Rightarrow> True | c # _ \<Rightarrow> \<not> is_digit c \<and> c \<notin> {CHR ''.'', CHR ''e'', CHR ''E''})"

text \<open>Texts in UTF-8, numerals the reader takes, floats whose text stands for them, keys without repetition.\<close>

definition float_ok :: "(string \<Rightarrow> string) \<Rightarrow> string \<Rightarrow> bool" where
  "float_ok fl t \<longleftrightarrow> t \<in> {''nan'', ''inf'', ''-inf''} \<or>
     (case json_number t of Some (i, f, r) \<Rightarrow> f \<noteq> [] \<and> r = [] \<and> i @ f = t \<and> fl t = t | None \<Rightarrow> False)"

fun json_ok :: "(string \<Rightarrow> string) \<Rightarrow> pyval \<Rightarrow> bool" where
  "json_ok fl VNone = True"
| "json_ok fl (VBool b) = True"
| "json_ok fl (VInt i) = (length (nat_str \<bar>i\<bar>) \<le> max_str_digits)"
| "json_ok fl (VFloat t) = float_ok fl t"
| "json_ok fl (VStr s) = utf8_text s"
| "json_ok fl (VList vs) = list_all (json_ok fl) vs"
| "json_ok fl (VDict kvs) = (distinct (map fst kvs) \<and> list_all (\<lambda>(k, v). utf8_text k \<and> json_ok fl v) kvs)"

fun json_depth :: "pyval \<Rightarrow> nat" where
  "json_depth (VList vs) = Suc (foldr max (map json_depth vs) 0)"
| "json_depth (VDict kvs) = Suc (foldr max (map (\<lambda>(k, v). json_depth v) kvs) 0)"
| "json_depth v = 0"

lemma foldr_max_le: "foldr max ns (0::nat) \<le> d \<longleftrightarrow> (\<forall>n\<in>set ns. n \<le> d)"
  by (induction ns) auto

subsection \<open>Texts\<close>

lemma hex_val_digit: "0 \<le> d \<Longrightarrow> d < 16 \<Longrightarrow> hex_val (hex_digit d) = Some d"
  by (auto simp: hex_val_def hex_digit_def code_def Let_def)

lemma hex_digits_value: "n div 4096 * 4096 + n div 256 mod 16 * 256 + n div 16 mod 16 * 16 + n mod 16 = (n::int)"
proof -
  have n: "n = 16 * (n div 16) + n mod 16" for n :: int by simp
  have d: "n div 256 = n div 16 div 16" "n div 4096 = n div 16 div 16 div 16" by (simp_all flip: div_mult2_eq)
  show ?thesis using n[of n] n[of "n div 16"] n[of "n div 16 div 16"] unfolding d by linarith
qed

lemma hex4_digits:
  assumes "0 \<le> w" "w < 16" "0 \<le> x" "x < 16" "0 \<le> y" "y < 16" "0 \<le> z" "z < 16"
  shows "hex4 (hex_digit w # hex_digit x # hex_digit y # hex_digit z # t) = Some (w * 4096 + x * 256 + y * 16 + z)"
  by (simp only: hex4_def hex_val_digit[OF assms(1,2)] hex_val_digit[OF assms(3,4)] hex_val_digit[OF assms(5,6)]
      hex_val_digit[OF assms(7,8)] list.case option.case prod.case)

lemma hex4_escape:
  assumes "0 \<le> n" "n < 65536"
  shows "hex4 (drop 2 (hex_escape n) @ t) = Some n"
proof -
  have "drop 2 (hex_escape n) @ t
      = hex_digit (n div 4096) # hex_digit (n div 256 mod 16) # hex_digit (n div 16 mod 16) # hex_digit (n mod 16) # t"
    by (simp add: hex_escape_def)
  moreover have "0 \<le> n div 4096" and "n div 4096 < 16" using assms by auto
  ultimately show ?thesis
    using hex4_digits[of "n div 4096" "n div 256 mod 16" "n div 16 mod 16" "n mod 16" t] by (simp only: hex_digits_value)
qed

lemma hex_escape_length [simp]: "length (hex_escape n) = 6"
  by (simp add: hex_escape_def)

lemma hex_escape_split: "hex_escape n = CHR 92 # CHR ''u'' # drop 2 (hex_escape n)"
  by (simp add: hex_escape_def)

lemma pair_half_escape:
  "0 \<le> n \<Longrightarrow> n < 65536 \<Longrightarrow> low_surrogate n \<Longrightarrow> pair_half (hex_escape n @ t) = Some n"
  using hex4_escape[of n t] by (subst hex_escape_split) (simp add: pair_half_def)

lemma json_string_hex:
  assumes "0 \<le> n" "n < 65536" "\<not> high_surrogate n"
  shows "json_string (hex_escape n @ t) = prepend (utf8 n) (json_string t)"
proof -
  have "drop 4 (drop 2 (hex_escape n) @ t) = t" by simp
  then show ?thesis using hex4_escape[OF assms(1,2), of t] assms(3)
    by (subst hex_escape_split) (simp add: simple_escape_def)
qed

lemma json_string_pair:
  assumes "65536 \<le> n" "n < 1114112"
  shows "json_string (hex_escape (55296 + (n - 65536) div 1024) @ hex_escape (56320 + (n - 65536) mod 1024) @ t)
     = prepend (utf8 n) (json_string t)"
proof -
  let ?h = "55296 + (n - 65536) div 1024" and ?l = "56320 + (n - 65536) mod 1024"
  have h: "0 \<le> ?h" "?h < 65536" "high_surrogate ?h" and l: "0 \<le> ?l" "?l < 65536" "low_surrogate ?l"
    using assms by (auto simp: high_surrogate_def low_surrogate_def)
  have "65536 + (?h - 55296) * 1024 + (?l - 56320) = n" by simp
  moreover have "drop 4 (drop 2 (hex_escape ?h) @ hex_escape ?l @ t) = hex_escape ?l @ t"
    and "drop 10 (drop 2 (hex_escape ?h) @ hex_escape ?l @ t) = t" by simp_all
  ultimately show ?thesis using hex4_escape[OF h(1,2), of "hex_escape ?l @ t"] pair_half_escape[OF l] h(3)
    by (subst hex_escape_split) (simp add: simple_escape_def)
qed

lemma short_chars:
  "char_at 34 = CHR 34" "char_at 92 = CHR 92" "char_at 10 = CHR 10" "char_at 13 = CHR 13" "char_at 9 = CHR 9"
  "char_at 12 = CHR 12" "char_at 8 = CHR 8"
  by (simp_all add: char_at_eq code_def)

lemma json_string_escape:
  assumes "scalar n"
  shows "json_string (json_escape n @ t) = prepend (utf8 n) (json_string t)"
proof -
  consider (short) "n \<in> {34, 92, 10, 13, 9, 12, 8}" | (plain) "32 \<le> n" "n < 127" "n \<noteq> 34" "n \<noteq> 92"
    | (hex) "n \<notin> {34, 92, 10, 13, 9, 12, 8}" "n < 65536" "\<not> (32 \<le> n \<and> n < 127)" | (pair) "65536 \<le> n" "n < 1114112"
    using assms by (fastforce simp: scalar_def)
  then show ?thesis
  proof cases
    case short
    then show ?thesis by (elim insertE emptyE) (simp_all add: json_escape_def simple_escape_def utf8_def short_chars)
  next
    case plain
    then have "char_at n \<noteq> CHR 34" "char_at n \<noteq> CHR 92" "\<not> code (char_at n) < 32"
      by (simp_all add: char_at_eq code_char_at) (simp_all add: code_def)
    then show ?thesis using plain by (simp add: json_escape_def utf8_def)
  next
    case hex
    then have "json_escape n = hex_escape n" by (auto simp: json_escape_def)
    then show ?thesis using json_string_hex[of n t] hex assms by (simp add: scalar_def)
  next
    case pair
    then have "json_escape n = hex_escape (55296 + (n - 65536) div 1024) @ hex_escape (56320 + (n - 65536) mod 1024)"
      by (simp add: json_escape_def)
    then show ?thesis using json_string_pair[OF pair, of t] by simp
  qed
qed

lemma json_string_escapes:
  "list_all scalar ns \<Longrightarrow> json_string (concat (map json_escape ns) @ CHR 34 # r) = Some (concat (map utf8 ns), r)"
  by (induction ns) (simp_all add: json_string_escape prepend_def)

lemma json_string_quote: "utf8_text s \<Longrightarrow> json_string (tl (json_quote s) @ r) = Some (s, r)"
  using json_string_escapes[of "code_points s" r] by (simp add: utf8_text_def json_quote_def)

lemma json_quote_Cons: "json_quote s = CHR 34 # tl (json_quote s)"
  by (simp add: json_quote_def)

subsection \<open>Numerals\<close>

text \<open>A numeral that is read to its end is read the same way when something else follows.\<close>

lemma digits_append:
  assumes "value_end r"
  shows "takeWhile is_digit (s @ r) = takeWhile is_digit s"
    and "dropWhile is_digit (s @ r) = dropWhile is_digit s @ r"
  using assms by (induction s) (auto simp: value_end_def split: list.splits)

lemma number_integer_append:
  "value_end r \<Longrightarrow> number_integer s = Some (i, t) \<Longrightarrow> number_integer (s @ r) = Some (i, t @ r)"
  using digits_append[of r "tl s"] by (cases s) (auto simp: number_integer_def split: if_splits)

lemma number_fraction_append:
  assumes "value_end r" "number_fraction s = (f, t)"
  shows "number_fraction (s @ r) = (f, t @ r)"
proof -
  consider "s = []" | c where "s = [c]" | c d u where "s = c # d # u" by (metis list.exhaust)
  then show ?thesis
    using assms digits_append[OF assms(1), of "tl s"]
    by cases (auto simp: number_fraction_def value_end_def split: list.splits if_splits)
qed

lemma number_exponent_append:
  assumes "value_end r" "number_exponent s = (e, [])"
  shows "number_exponent (s @ r) = (e, r)"
proof (cases s)
  case Nil
  then show ?thesis using assms by (auto simp: number_exponent_def value_end_def split: list.splits)
next
  case s: (Cons c u)
  then have c: "c \<in> {CHR ''e'', CHR ''E''}" using assms(2) by (auto simp: number_exponent_def split: if_splits)
  show ?thesis
  proof (cases u)
    case Nil
    then show ?thesis using assms(2) s by (simp add: number_exponent_def split: if_splits)
  next
    case u: (Cons x y)
    then show ?thesis using assms(2) s c digits_append[OF assms(1), of u] digits_append[OF assms(1), of y]
      by (cases "x \<in> {CHR ''+'', CHR ''-''}") (simp_all add: number_exponent_def split: if_splits)
  qed
qed

lemma json_number_append:
  assumes "value_end r" "json_number t = Some (i, f, [])"
  shows "json_number (t @ r) = Some (i, f, r)"
proof -
  define b where "b = (t \<noteq> [] \<and> hd t = CHR ''-'')"
  define u where "u = (if b then tl t else t)"
  have ne: "t \<noteq> []" using assms(2) by (auto simp: json_number_def number_integer_def)
  have sp: "(case t @ v of c # w \<Rightarrow> if c = CHR ''-'' then ([c], w) else ([], t @ v) | [] \<Rightarrow> ([], t @ v)) =
      ((if b then ''-'' else []), u @ v)" for v
    using ne by (cases t) (auto simp: b_def u_def)
  have sp0: "(case t of c # w \<Rightarrow> if c = CHR ''-'' then ([c], w) else ([], t) | [] \<Rightarrow> ([], t)) = ((if b then ''-'' else []), u)"
    using ne by (cases t) (auto simp: b_def u_def)
  obtain i' r0 where n: "number_integer u = Some (i', r0)"
    using assms(2) by (cases "number_integer u") (auto simp: json_number_def sp0)
  obtain f' r1 where fr: "number_fraction r0 = (f', r1)" by (cases "number_fraction r0")
  obtain e' r2 where ex: "number_exponent r1 = (e', r2)" by (cases "number_exponent r1")
  have eq: "i = (if b then ''-'' else []) @ i'" "f = f' @ e'" "r2 = []"
    using assms(2) n fr ex by (auto simp: json_number_def sp0)
  have "number_integer (u @ r) = Some (i', r0 @ r)" "number_fraction (r0 @ r) = (f', r1 @ r)"
    and "number_exponent (r1 @ r) = (e', r)"
    using number_integer_append[OF assms(1) n] number_fraction_append[OF assms(1) fr]
      number_exponent_append[OF assms(1)] ex eq(3) by simp_all
  then show ?thesis using eq(1,2) by (simp add: json_number_def sp)
qed

lemma json_number_int: "json_number (int_str i) = Some (int_str i, [], [])"
proof -
  have d: "nat_str n \<noteq> [] \<and> list_all is_digit (nat_str n)" "0 < n \<longrightarrow> hd (nat_str n) \<noteq> CHR ''0''" if "0 \<le> n" for n
    using nat_str_digits[OF that] by simp_all
  have whole: "number_integer (nat_str n) = Some (nat_str n, [])" if pos: "0 \<le> n" for n
  proof (cases "n = 0")
    case True
    then show ?thesis by (simp add: nat_str.simps[of 0] digit_char_def number_integer_def char_of_def)
  next
    case False
    then have "0 < n" using pos by simp
    have t: "takeWhile is_digit (nat_str n) = nat_str n" and w: "dropWhile is_digit (nat_str n) = []"
      using d[OF pos] by (simp_all add: list_all_iff takeWhile_eq_all_conv dropWhile_eq_Nil_conv)
    obtain c cs where c: "nat_str n = c # cs" using d(1)[OF pos] by (cases "nat_str n") auto
    then have "is_digit c" "c \<noteq> CHR ''0''" using d[OF pos] \<open>0 < n\<close> by auto
    then show ?thesis using t w c by (simp add: number_integer_def)
  qed
  have minus: "\<not> is_digit (CHR ''-'')" by (simp add: is_digit_def code_def)
  have hd: "nat_str n \<noteq> [] \<and> hd (nat_str n) \<noteq> CHR ''-''" if "0 \<le> n" for n
    using d(1)[OF that] minus by (cases "nat_str n") auto
  show ?thesis
  proof (cases "i < 0")
    case True
    then show ?thesis using whole[of "- i"]
      by (simp add: int_str_def json_number_def number_fraction_def number_exponent_def)
  next
    case False
    then show ?thesis using whole[of i] hd[of i]
      by (cases "nat_str i") (simp_all add: int_str_def json_number_def number_fraction_def number_exponent_def)
  qed
qed

subsection \<open>Values\<close>

text \<open>A text that opens like a numeral is none of the constants.\<close>

lemma json_number_opens:
  assumes "json_number s = Some n"
  obtains c cs where "s = c # cs" "is_digit c" | d cs where "s = CHR ''-'' # d # cs" "is_digit d"
proof (cases s)
  case Nil
  then show ?thesis using assms by (simp add: json_number_def number_integer_def)
next
  case (Cons c cs)
  have z: "is_digit (CHR ''0'')" by (simp add: is_digit_def code_def)
  show ?thesis
  proof (cases "c = CHR ''-''")
    case True
    then obtain d ds where "cs = d # ds" and "is_digit d"
      using assms Cons z by (cases cs) (auto simp: json_number_def number_integer_def split: if_splits)
    then show ?thesis using that(2) Cons True by simp
  next
    case False
    then have "is_digit c" using assms Cons z by (auto simp: json_number_def number_integer_def split: if_splits)
    then show ?thesis using that(1) Cons by simp
  qed
qed

lemma digit_opens_number:
  assumes "is_digit c"
  shows "code c < 128" "c \<noteq> CHR 34" "c \<noteq> CHR ''n''" "c \<noteq> CHR ''t''" "c \<noteq> CHR ''f''" "c \<noteq> CHR ''N''" "c \<noteq> CHR ''I''" "c \<noteq> CHR ''-''"
    "c \<noteq> CHR ''[''" "c \<noteq> CHR ''{''" "c \<noteq> CHR '']''" "c \<noteq> CHR ''}''" "\<not> json_space c"
  using assms by (auto simp: is_digit_def code_def json_space_def)

lemma json_scalar_number:
  assumes "json_number s = Some n"
  shows "json_scalar fl s = number_value fl n"
  using assms
proof (cases rule: json_number_opens)
  case (1 c cs)
  then show ?thesis using assms digit_opens_number[OF 1(2)] by (simp add: json_scalar_def constants_def)
next
  case (2 d cs)
  then show ?thesis using assms digit_opens_number[OF 2(2)] by (simp add: json_scalar_def constants_def)
qed

lemma split_sign_digits: "0 \<le> n \<Longrightarrow> split_sign (nat_str n) = (False, nat_str n)"
proof -
  assume "0 \<le> n"
  then obtain c cs where c: "nat_str n = c # cs" "is_digit c" using nat_str_digits[of n] by (cases "nat_str n") auto
  then have "c \<noteq> CHR ''-''" "c \<noteq> CHR ''+''" by (auto simp: is_digit_def code_def)
  then show ?thesis using c by (simp add: split_sign_def)
qed

lemma number_value_int:
  assumes "length (nat_str \<bar>i\<bar>) \<le> max_str_digits"
  shows "number_value fl (int_str i, [], r) = Inr (VInt i, r)"
proof (cases "i < 0")
  case True
  then show ?thesis using assms nat_str_digits[of "- i"] by (simp add: number_value_def int_str_def split_sign_def)
next
  case False
  then show ?thesis using assms nat_str_digits[of i] split_sign_digits[of i] by (simp add: number_value_def int_str_def)
qed

lemma json_scalar_int:
  assumes "value_end r" "length (nat_str \<bar>i\<bar>) \<le> max_str_digits"
  shows "json_scalar fl (int_str i @ r) = Inr (VInt i, r)"
  using json_scalar_number[OF json_number_append[OF assms(1) json_number_int]] number_value_int[OF assms(2)] by simp

lemma json_scalar_float:
  assumes "value_end r" "float_ok fl t"
  shows "json_scalar fl (float_text t @ r) = Inr (VFloat t, r)"
proof (cases "t \<in> {''nan'', ''inf'', ''-inf''}")
  case True
  then show ?thesis by (auto simp: float_text_def json_scalar_def constants_def)
next
  case False
  then obtain i f where n: "json_number t = Some (i, f, [])" "f \<noteq> []" "i @ f = t" "fl t = t"
    using assms(2) by (auto simp: float_ok_def split: option.splits)
  then show ?thesis using False json_scalar_number[OF json_number_append[OF assms(1) n(1)], of fl]
    by (simp add: float_text_def number_value_def)
qed

lemma json_scalar_str: "utf8_text s \<Longrightarrow> json_scalar fl (json_quote s @ r) = Inr (VStr s, r)"
  using json_string_quote[of s r] by (subst json_quote_Cons) (simp add: json_scalar_def)

text \<open>How a written value begins.\<close>

definition value_start :: "char \<Rightarrow> bool" where
  "value_start c \<longleftrightarrow> code c < 128 \<and> \<not> json_space c \<and> c \<noteq> CHR '']'' \<and> c \<noteq> CHR ''}''"

lemma float_opens: "float_ok fl t \<Longrightarrow> \<exists>c cs. float_text t = c # cs \<and> value_start c \<and> c \<noteq> CHR ''['' \<and> c \<noteq> CHR ''{''"
proof (cases "t \<in> {''nan'', ''inf'', ''-inf''}")
  case True
  then show ?thesis by (auto simp: float_text_def value_start_def json_space_def code_def)
next
  case False
  moreover assume "float_ok fl t"
  ultimately obtain n where "json_number t = Some n" by (auto simp: float_ok_def split: option.splits)
  then show ?thesis using False digit_opens_number
    by (cases rule: json_number_opens) (auto simp: float_text_def value_start_def json_space_def code_def)
qed

lemma int_opens: "\<exists>c cs. int_str i = c # cs \<and> value_start c \<and> c \<noteq> CHR ''['' \<and> c \<noteq> CHR ''{''"
proof (cases rule: json_number_opens[OF json_number_int[of i]])
  case (1 c cs)
  then show ?thesis using digit_opens_number[OF 1(2)] by (simp add: value_start_def)
next
  case (2 d cs)
  then show ?thesis by (simp add: value_start_def json_space_def code_def)
qed

lemma json_text_opens: "json_ok fl v \<Longrightarrow> \<exists>c cs. json_text v = c # cs \<and> value_start c"
proof (cases v)
  case (VInt i)
  then show ?thesis using int_opens[of i] by auto
next
  case (VFloat t)
  moreover assume "json_ok fl v"
  ultimately show ?thesis using float_opens[of fl t] by auto
qed (simp_all add: value_start_def json_space_def json_quote_def code_def)

lemma jws_start [simp]: "value_start c \<Longrightarrow> jws (c # cs) = c # cs"
  by (simp add: jws_def value_start_def)

lemma jws_mark [simp]:
  "jws (CHR '','' # r) = CHR '','' # r" "jws (CHR '']'' # r) = CHR '']'' # r" "jws (CHR ''}'' # r) = CHR ''}'' # r"
  "jws (CHR '':'' # r) = CHR '':'' # r" "jws (CHR 34 # r) = CHR 34 # r" "jws [] = []"
  by (simp_all add: jws_def json_space_def)

lemma value_end_mark [simp]:
  "value_end (CHR '','' # r)" "value_end (CHR '']'' # r)" "value_end (CHR ''}'' # r)" "value_end []"
  by (simp_all add: value_end_def is_digit_def code_def)

lemma json_items_text:
  assumes "\<And>v r. v \<in> set vs \<Longrightarrow> value_end r \<Longrightarrow> p (json_text v @ r) = Inr (v, r)"
    and "\<And>v. v \<in> set vs \<Longrightarrow> \<exists>c cs. json_text v = c # cs \<and> value_start c"
    and "vs \<noteq> []" "length vs \<le> n"
  shows "json_items p n (join '','' (map json_text vs) @ CHR '']'' # r) = Inr (vs, r)"
  using assms
proof (induction vs arbitrary: n)
  case (Cons v vs)
  obtain m where n: "n = Suc m" using Cons.prems(4) by (cases n) auto
  show ?case
  proof (cases vs)
    case Nil
    then show ?thesis using Cons.prems(1)[of v "CHR '']'' # r"] n by simp
  next
    case (Cons w ws)
    let ?t = "join '','' (map json_text vs) @ CHR '']'' # r"
    have "\<exists>c cs. ?t = c # cs \<and> value_start c"
      using Cons.prems(2)[of w] Cons by (cases ws) auto
    then have ws: "jws ?t = ?t" by auto
    have ih: "json_items p m ?t = Inr (vs, r)"
      using Cons.IH[of m] Cons.prems Cons n by simp
    have p: "p (json_text v @ CHR '','' # ?t) = Inr (v, CHR '','' # ?t)" using Cons.prems(1) by simp
    have "json_items p (Suc m) (json_text v @ CHR '','' # ?t) = Inr (v # vs, r)" by (simp add: p ws ih)
    then show ?thesis using Cons n by simp
  qed
qed simp

lemma json_members_text:
  assumes "\<And>k v r. (k, v) \<in> set kvs \<Longrightarrow> value_end r \<Longrightarrow> p (json_text v @ r) = Inr (v, r)"
    and "\<And>k v. (k, v) \<in> set kvs \<Longrightarrow> utf8_text k \<and> (\<exists>c cs. json_text v = c # cs \<and> value_start c)"
    and "kvs \<noteq> []" "length kvs \<le> n"
  shows "json_members p n (join '','' (map (\<lambda>(k, v). json_quote k @ '':'' @ json_text v) kvs) @ CHR ''}'' # r) = Inr (kvs, r)"
  using assms
proof (induction kvs arbitrary: n)
  case (Cons kv kvs)
  obtain k v where kv: "kv = (k, v)" by (cases kv)
  obtain m where n: "n = Suc m" using Cons.prems(4) by (cases n) auto
  have step: "json_members p (Suc m) (json_quote k @ CHR '':'' # json_text v @ s) =
      (case jws s of [] \<Rightarrow> Inl Malformed
       | c # r' \<Rightarrow> if c = CHR ''}'' then Inr ([(k, v)], r')
                 else if c = CHR '','' then sbind (json_members p m (jws r')) (\<lambda>(kvs, r''). Inr ((k, v) # kvs, r''))
                 else Inl Malformed)" if e: "value_end s" for s
  proof -
    have k: "utf8_text k" and "\<exists>c cs. json_text v = c # cs \<and> value_start c" using Cons.prems(2)[of k v] kv by auto
    then have ws: "jws (json_text v @ s) = json_text v @ s" by auto
    have "p (json_text v @ s) = Inr (v, s)" using Cons.prems(1)[of k v s] e kv by simp
    then show ?thesis using json_string_quote[OF k, of "CHR '':'' # json_text v @ s"] ws
      by (subst json_quote_Cons) simp
  qed
  show ?case
  proof (cases kvs)
    case Nil
    then show ?thesis using step[of "CHR ''}'' # r"] n kv by (simp del: json_members.simps)
  next
    case (Cons kw ks)
    define t where "t = join '','' (map (\<lambda>(k, v). json_quote k @ '':'' @ json_text v) kvs) @ CHR ''}'' # r"
    have "\<exists>cs. t = CHR 34 # cs"
      using Cons by (cases ks; cases kw) (auto simp: json_quote_def t_def)
    then have ws: "jws t = t" by auto
    have ih: "json_members p m t = Inr (kvs, r)" unfolding t_def
    proof (rule Cons.IH)
      show "p (json_text w @ s) = Inr (w, s)" if "(k, w) \<in> set kvs" "value_end s" for k w s
        using Cons.prems(1)[of k w s] that by simp
      show "utf8_text k \<and> (\<exists>c cs. json_text w = c # cs \<and> value_start c)" if "(k, w) \<in> set kvs" for k w
        using Cons.prems(2)[of k w] that by simp
    qed (use Cons.prems Cons n in auto)
    have "json_members p (Suc m) (json_quote k @ CHR '':'' # json_text v @ CHR '','' # t) = Inr ((k, v) # kvs, r)"
      by (subst step) (simp_all add: ws ih)
    then show ?thesis using Cons n kv by (simp add: t_def)
  qed
qed simp

lemma json_dict_distinct: "distinct (map fst kvs) \<Longrightarrow> json_dict kvs = kvs"
proof (induction kvs rule: rev_induct)
  case (snoc kv kvs)
  have "dict_set k v d = d @ [(k, v)]" if "k \<notin> fst ` set d" for k v and d :: "(string, pyval) dict"
    using that by (induction d) (auto simp: dict_set_def)
  then show ?case using snoc by (cases kv) (auto simp: json_dict_def)
qed (simp add: json_dict_def)

lemma length_join: "(\<And>x. x \<in> set xs \<Longrightarrow> x \<noteq> []) \<Longrightarrow> length xs \<le> length (join sep xs)"
proof (induction sep xs rule: join.induct)
  case (2 sep x)
  then show ?case by (cases x) auto
next
  case (3 sep x y ys)
  then have "x \<noteq> []" and "length (y # ys) \<le> length (join sep (y # ys))" by simp_all
  moreover obtain c cs where "x = c # cs" using \<open>x \<noteq> []\<close> by (cases x) auto
  ultimately show ?case by simp
qed simp

lemma json_scalar_text:
  assumes "json_ok fl v" "json_depth v = 0" "value_end r"
  shows "json_scalar fl (json_text v @ r) = Inr (v, r)"
  using assms json_scalar_int json_scalar_float json_scalar_str
  by (cases v) (auto simp: json_scalar_def constants_def)

lemma json_value_flat: "c \<noteq> CHR ''['' \<Longrightarrow> c \<noteq> CHR ''{'' \<Longrightarrow> json_value fl d (c # s) = json_scalar fl (c # s)"
  by (cases d) simp_all

lemma scalar_text_opens:
  assumes "json_ok fl v" "json_depth v = 0"
  shows "\<exists>c cs. json_text v = c # cs \<and> c \<noteq> CHR ''['' \<and> c \<noteq> CHR ''{''"
  using assms float_opens int_opens by (cases v) (fastforce simp: json_quote_def)+

text \<open>The reader takes exactly the written value and leaves the rest of the text.\<close>

lemma json_value_scalar:
  assumes "json_ok fl v" "json_depth v = 0" "value_end r"
  shows "json_value fl d (json_text v @ r) = Inr (v, r)"
proof -
  obtain c cs where "json_text v = c # cs" "c \<noteq> CHR ''[''" "c \<noteq> CHR ''{''"
    using scalar_text_opens[OF assms(1,2)] by blast
  then show ?thesis using json_scalar_text[OF assms] json_value_flat[of c fl d "cs @ r"] by simp
qed

lemma json_value_text:
  assumes "json_ok fl v" "json_depth v \<le> d" "value_end r"
  shows "json_value fl d (json_text v @ r) = Inr (v, r)"
  using assms
proof (induction d arbitrary: v r)
  case 0
  then show ?case by (metis json_value_scalar le_zero_eq)
next
  case (Suc d)
  show ?case
  proof (cases "json_depth v = 0")
    case True
    show ?thesis by (rule json_value_scalar[OF Suc.prems(1) True Suc.prems(3)])
  next
    case False
    then consider (arr) vs where "v = VList vs" | (obj) kvs where "v = VDict kvs" by (cases v) auto
    then show ?thesis
    proof cases
      case arr
      have ok: "json_ok fl w \<and> json_depth w \<le> d" if "w \<in> set vs" for w
        using Suc.prems(1,2) arr that by (auto simp: list_all_iff foldr_max_le)
      have op: "\<exists>c cs. json_text w = c # cs \<and> value_start c" if "w \<in> set vs" for w
        using json_text_opens ok that by blast
      show ?thesis
      proof (cases vs)
        case Nil
        then show ?thesis using arr by simp
      next
        case (Cons w ws)
        let ?t = "join '','' (map json_text vs)"
        obtain c cs where c: "?t = c # cs" "value_start c"
          using json_text_opens[of fl w] ok[of w] Cons by (cases ws) auto
        have "length vs \<le> length (?t @ CHR '']'' # r)"
          using length_join[of "map json_text vs" "'',''"] json_text_opens ok by fastforce
        then have "json_items (json_value fl d) (length (?t @ CHR '']'' # r)) (?t @ CHR '']'' # r) = Inr (vs, r)"
          using Suc.IH ok Cons by (intro json_items_text[OF _ op]) auto
        then show ?thesis using arr c by (simp add: value_start_def del: json_items.simps)
      qed
    next
      case obj
      have ok: "utf8_text k \<and> json_ok fl w \<and> json_depth w \<le> d" if "(k, w) \<in> set kvs" for k w
        using Suc.prems(1,2) obj that by (fastforce simp: list_all_iff foldr_max_le)
      have di: "json_dict kvs = kvs" using Suc.prems(1) obj json_dict_distinct by simp
      have op: "utf8_text k \<and> (\<exists>c cs. json_text w = c # cs \<and> value_start c)" if "(k, w) \<in> set kvs" for k w
        using json_text_opens ok that by blast
      show ?thesis
      proof (cases kvs)
        case Nil
        then show ?thesis using obj by simp
      next
        case (Cons kw ks)
        let ?t = "join '','' (map (\<lambda>(k, v). json_quote k @ '':'' @ json_text v) kvs)"
        obtain cs where c: "?t = CHR 34 # cs"
          using Cons by (cases ks; cases kw) (auto simp: json_quote_def)
        have "length kvs \<le> length (?t @ CHR ''}'' # r)"
          using length_join[of "map (\<lambda>(k, v). json_quote k @ '':'' @ json_text v) kvs" "'',''"] by fastforce
        then have "json_members (json_value fl d) (length (?t @ CHR ''}'' # r)) (?t @ CHR ''}'' # r) = Inr (kvs, r)"
          using Suc.IH ok Cons by (intro json_members_text[OF _ op]) auto
        then show ?thesis using obj c di by (simp del: json_members.simps)
      qed
    qed
  qed
qed

text \<open>\<open>json.loads(json.dumps(v)) == v\<close>.\<close>

lemma json_round_trip:
  assumes "json_ok fl v" "json_depth v \<le> d"
  shows "json_loads fl d (json_text v) = Inr v"
proof -
  obtain c cs where c: "json_text v = c # cs" "value_start c" using json_text_opens[OF assms(1)] by blast
  have "\<not> prefix bom (json_text v)"
    using c code_char_at[of 239] by (auto simp: bom_def value_start_def)
  then show ?thesis using c json_value_text[OF assms, of "[]"] by (simp add: json_loads_def)
qed

end
