(* ===== verification/JsonRecords.thy ===== *)
theory JsonRecords
  imports PyJson
begin

text \<open>
  JSON documents as the parsers receive them (\<open>util.py\<close>): the guard against deep nesting, the records of a
  document of any common shape, and the lines of a text. Errors of \<open>json\<close> are those of \<open>PyJson\<close>; a generator
  that raises is the list of what it yielded with the exception.
\<close>

section \<open>Lines\<close>

text \<open>\<open>str.splitlines\<close> over the ASCII separators.\<close>

definition line_break :: "char \<Rightarrow> bool" where
  "line_break c \<longleftrightarrow> c \<in> {CHR 10, CHR 11, CHR 12, CHR 13, CHR 28, CHR 29, CHR 30}"

function splitlines :: "string \<Rightarrow> string list" where
  "splitlines [] = []"
| "splitlines (c # cs) =
     (if line_break c
      then [] # splitlines (if c = CHR 13 \<and> cs \<noteq> [] \<and> hd cs = CHR 10 then tl cs else cs)
      else (case splitlines cs of [] \<Rightarrow> [[c]] | w # ws \<Rightarrow> (c # w) # ws))"
  by pat_completeness auto
termination by (relation "measure length") auto

section \<open>The guard\<close>

definition max_json_depth :: nat where "max_json_depth = 100"

text \<open>\<open>_exceeds_json_depth\<close>: where the scan is, inside a text or behind a backslash in one, and the depth.\<close>

datatype json_scan = Plain | InText | Escaped

fun deeper :: "nat \<Rightarrow> json_scan \<Rightarrow> nat \<Rightarrow> string \<Rightarrow> bool" where
  "deeper limit m k [] = False"
| "deeper limit Escaped k (c # cs) = deeper limit InText k cs"
| "deeper limit InText k (c # cs) =
     (if c = CHR 92 then deeper limit Escaped k cs
      else if c = CHR 34 then deeper limit Plain k cs
      else deeper limit InText k cs)"
| "deeper limit Plain k (c # cs) =
     (if c = CHR 34 then deeper limit InText k cs
      else if c = CHR ''{'' \<or> c = CHR ''['' then (limit < Suc k \<or> deeper limit Plain (Suc k) cs)
      else if (c = CHR ''}'' \<or> c = CHR '']'') \<and> 0 < k then deeper limit Plain (k - 1) cs
      else deeper limit Plain k cs)"

definition exceeds_json_depth :: "string \<Rightarrow> nat \<Rightarrow> bool" where
  "exceeds_json_depth s limit = deeper limit Plain 0 s"

section \<open>Records\<close>

type_synonym record_dict = "(string, pyval) dict"

definition dicts_of :: "pyval list \<Rightarrow> record_dict list" where
  "dicts_of vs = List.map_filter (\<lambda>v. case v of VDict d \<Rightarrow> Some d | _ \<Rightarrow> None) vs"

text \<open>The value a wrapper key names, whatever its case; of keys that differ in case only the last counts.\<close>

definition folded_key :: "record_dict \<Rightarrow> string \<Rightarrow> string option" where
  "folded_key d k = dict_get (foldl (\<lambda>low (x, _). dict_set (lower x) x low) [] d) k"

fun wrapped :: "record_dict \<Rightarrow> string list \<Rightarrow> pyval list option" where
  "wrapped d [] = None"
| "wrapped d (w # ws) =
     (case folded_key d (lower w) of
        None \<Rightarrow> wrapped d ws
      | Some k \<Rightarrow> (case pv_get d k of VList vs \<Rightarrow> Some vs | _ \<Rightarrow> wrapped d ws))"

definition unwrap_json :: "string list \<Rightarrow> pyval \<Rightarrow> record_dict list" where
  "unwrap_json wrappers v =
     (case v of
        VList vs \<Rightarrow> dicts_of vs
      | VDict d \<Rightarrow> (case wrapped d wrappers of Some vs \<Rightarrow> dicts_of vs | None \<Rightarrow> [d])
      | _ \<Rightarrow> [])"

text \<open>\<open>except (json.JSONDecodeError, RecursionError)\<close>: the refusal of a long numeral is a bare \<open>ValueError\<close>.\<close>

definition loads_or_none :: "(string \<Rightarrow> string) \<Rightarrow> nat \<Rightarrow> string \<Rightarrow> py_error + pyval option" where
  "loads_or_none fl d s =
     (case json_loads fl d s of Inr v \<Rightarrow> Inr (Some v) | Inl TooManyDigits \<Rightarrow> Inl ValueError | Inl _ \<Rightarrow> Inr None)"

definition rstrip_commas :: "string \<Rightarrow> string" where
  "rstrip_commas s = rev (dropWhile (\<lambda>c. c = CHR '','') (rev s))"

fun line_records :: "(string \<Rightarrow> string) \<Rightarrow> nat \<Rightarrow> string list \<Rightarrow> string list \<Rightarrow> record_dict list \<times> py_error option" where
  "line_records fl d wrappers [] = ([], None)"
| "line_records fl d wrappers (l # ls) =
     (let line = rstrip_commas (strip l) in
      if line = [] then line_records fl d wrappers ls
      else (case loads_or_none fl d line of
              Inl e \<Rightarrow> ([], Some e)
            | Inr None \<Rightarrow> line_records fl d wrappers ls
            | Inr (Some v) \<Rightarrow>
                (case line_records fl d wrappers ls of (rs, e) \<Rightarrow> (unwrap_json wrappers v @ rs, e))))"

definition iter_json_records :: "(string \<Rightarrow> string) \<Rightarrow> nat \<Rightarrow> string list \<Rightarrow> string \<Rightarrow> record_dict list \<times> py_error option" where
  "iter_json_records fl d wrappers content =
     (let t = strip content in
      if t = [] \<or> exceeds_json_depth t max_json_depth then ([], None)
      else (case loads_or_none fl d t of
              Inl e \<Rightarrow> ([], Some e)
            | Inr r \<Rightarrow>
                (case r of
                   Some v \<Rightarrow> if v = VNone then line_records fl d wrappers (splitlines t) else (unwrap_json wrappers v, None)
                 | None \<Rightarrow> line_records fl d wrappers (splitlines t))))"

definition json_or_none :: "(string \<Rightarrow> string) \<Rightarrow> nat \<Rightarrow> string \<Rightarrow> py_error + pyval option" where
  "json_or_none fl d s = (if s = [] \<or> exceeds_json_depth s max_json_depth then Inr None else loads_or_none fl d s)"

section \<open>The guard covers the reader\<close>

text \<open>
  The scan of the guard and the reader go through a document side by side: behind a value the guard is where
  it was before, so as long as the reader starts where the guard did, it opens no more brackets than allowed.
\<close>

lemma deeper_hex:
  assumes "hex4 r = Some n" "\<not> deeper limit InText k r"
  shows "\<not> deeper limit InText k (drop 4 r)"
proof -
  have h: "c \<noteq> CHR 92 \<and> c \<noteq> CHR 34" if "hex_val c = Some x" for c x
    using that by (auto simp: hex_val_def code_def Let_def)
  obtain a b c e t where r: "r = a # b # c # e # t" "hex_val a \<noteq> None" "hex_val b \<noteq> None" "hex_val c \<noteq> None" "hex_val e \<noteq> None"
    using assms(1) by (auto simp: hex4_def split: list.splits option.splits)
  then show ?thesis using assms(2) h by auto
qed

lemma pair_half_Some:
  assumes "pair_half s = Some n"
  obtains r m where "s = CHR 92 # CHR ''u'' # r" "hex4 r = Some m"
  using assms by (auto simp: pair_half_def split: list.splits if_splits option.splits)

lemma json_string_cases:
  assumes "json_string s = Some (t, r)"
  obtains (quote) "s = CHR 34 # r" "t = []"
    | (short) e u t' where "s = CHR 92 # e # u" "json_string u = Some (t', r)"
    | (unit) u n t' where "s = CHR 92 # CHR ''u'' # u" "hex4 u = Some n" "json_string (drop 4 u) = Some (t', r)"
    | (pair) u n m t' where "s = CHR 92 # CHR ''u'' # u" "hex4 u = Some n" "pair_half (drop 4 u) = Some m"
        "json_string (drop 10 u) = Some (t', r)"
    | (char) c u t' where "s = c # u" "c \<noteq> CHR 34" "c \<noteq> CHR 92" "json_string u = Some (t', r)"
proof (cases s)
  case Nil
  then show ?thesis using assms by simp
next
  case s: (Cons c cs)
  consider "c = CHR 34" | "c = CHR 92" | "c \<noteq> CHR 34" "c \<noteq> CHR 92" by blast
  then show ?thesis
  proof cases
    case 1
    then show ?thesis using assms s quote by simp
  next
    case 3
    then show ?thesis using assms s char by (auto simp: prepend_def split: if_splits)
  next
    case 2
    then obtain e u where cs: "cs = e # u" using assms s by (cases cs) auto
    show ?thesis
    proof (cases "simple_escape e")
      case (Some x)
      then show ?thesis using assms s 2 cs short by (auto simp: prepend_def)
    next
      case None
      then have e: "e = CHR ''u''" using assms s 2 cs by (auto split: if_splits)
      obtain n where n: "hex4 u = Some n" using assms s 2 cs None e by (cases "hex4 u") auto
      show ?thesis
      proof (cases "if high_surrogate n then pair_half (drop 4 u) else None")
        case N: None
        then obtain t' where "json_string (drop 4 u) = Some (t', r)"
          using assms s 2 cs n None e by (auto simp: prepend_def)
        then show ?thesis using unit s 2 cs e n by blast
      next
        case S: (Some m)
        then obtain t' where "json_string (drop 10 u) = Some (t', r)"
          using assms s 2 cs n None e by (auto simp: prepend_def)
        moreover have "pair_half (drop 4 u) = Some m" using S by (simp split: if_splits)
        ultimately show ?thesis using pair s 2 cs e n by blast
      qed
    qed
  qed
qed

lemma deeper_string:
  "json_string s = Some (t, r) \<Longrightarrow> \<not> deeper limit InText k s \<Longrightarrow> \<not> deeper limit Plain k r"
proof (induction "length s" arbitrary: s t rule: less_induct)
  case less
  from less.prems(1) show ?case
  proof (cases rule: json_string_cases)
    case quote
    then show ?thesis using less.prems(2) by simp
  next
    case (short e u t')
    then show ?thesis using less.hyps[of u t'] less.prems(2) by simp
  next
    case (unit u n t')
    then have "\<not> deeper limit InText k (drop 4 u)" using less.prems(2) deeper_hex[OF unit(2)] by simp
    then show ?thesis using less.hyps[of "drop 4 u" t'] unit by simp
  next
    case (pair u n m t')
    then have d: "\<not> deeper limit InText k (drop 4 u)" using less.prems(2) deeper_hex[OF pair(2)] by simp
    obtain v m' where v: "drop 4 u = CHR 92 # CHR ''u'' # v" "hex4 v = Some m'" using pair_half_Some[OF pair(3)] by blast
    have "drop 10 u = drop 6 (drop 4 u)" by simp
    then have "drop 10 u = drop 4 v" using v(1) by simp
    then have "\<not> deeper limit InText k (drop 10 u)" using d v deeper_hex[OF v(2)] by simp
    then show ?thesis using less.hyps[of "drop 10 u" t'] pair by simp
  next
    case (char c u t')
    then show ?thesis using less.hyps[of u t'] less.prems(2) by simp
  qed
qed

text \<open>Characters that are neither a bracket nor a quote leave the guard where it is.\<close>

definition neutral :: "char \<Rightarrow> bool" where
  "neutral c \<longleftrightarrow> c \<notin> {CHR 34, CHR ''{'', CHR ''['', CHR ''}'', CHR '']''}"

lemma deeper_neutral: "list_all neutral s \<Longrightarrow> deeper limit Plain k (s @ r) = deeper limit Plain k r"
  by (induction s) (auto simp: neutral_def)

lemma deeper_jws: "deeper limit Plain k (jws s) = deeper limit Plain k s"
proof -
  have "list_all neutral (takeWhile json_space s)"
    by (auto simp: list_all_iff neutral_def json_space_def dest!: set_takeWhileD)
  then show ?thesis using deeper_neutral[of "takeWhile json_space s" limit k "jws s"] by (simp add: jws_def)
qed

text \<open>The characters a numeral is made of.\<close>

definition numeral_char :: "char \<Rightarrow> bool" where
  "numeral_char c \<longleftrightarrow> is_digit c \<or> c \<in> {CHR ''-'', CHR ''+'', CHR ''.'', CHR ''e'', CHR ''E''}"

lemma digit_neutral: "is_digit c \<Longrightarrow> neutral c"
  by (auto simp: neutral_def is_digit_def code_def)

lemma numerals_neutral: "list_all numeral_char s \<Longrightarrow> list_all neutral s"
  using digit_neutral by (auto simp: list_all_iff numeral_char_def) (auto simp: neutral_def)

lemma digits_numeral: "list_all numeral_char (takeWhile is_digit s)"
  by (auto simp: list_all_iff numeral_char_def dest!: set_takeWhileD)

lemma json_number_split:
  assumes "json_number s = Some (i, f, r)"
  shows "\<exists>p. s = p @ r \<and> list_all numeral_char p"
proof -
  have int: "\<exists>p. t = p @ u \<and> list_all numeral_char p" if "number_integer t = Some (x, u)" for t x u
  proof (cases t)
    case (Cons c cs)
    have "numeral_char (CHR ''0'')" by (simp add: numeral_char_def is_digit_def code_def)
    then show ?thesis using that Cons digits_numeral[of t] takeWhile_dropWhile_id[of is_digit t]
      by (auto simp: number_integer_def split: if_splits intro: exI[of _ "[c]"] exI[of _ "takeWhile is_digit t"])
  qed (use that in \<open>simp add: number_integer_def\<close>)
  have frac: "\<exists>p. t = p @ u \<and> list_all numeral_char p" if h: "number_fraction t = (x, u)" for t x u
  proof (cases "u = t")
    case False
    then obtain c d cs where "t = c # d # cs" using h False by (cases t; cases "tl t") (auto simp: number_fraction_def)
    then have cs: "t = CHR ''.'' # d # cs" "u = dropWhile is_digit (d # cs)"
      using h False by (auto simp: number_fraction_def split: if_splits)
    then show ?thesis using digits_numeral[of "d # cs"]
      by (intro exI[of _ "CHR ''.'' # takeWhile is_digit (d # cs)"]) (simp add: numeral_char_def del: takeWhile.simps dropWhile.simps)
  qed simp
  have ex: "\<exists>p. t = p @ u \<and> list_all numeral_char p" if h: "number_exponent t = (x, u)" for t x u
  proof (cases "u = t")
    case False
    then obtain c cs where t: "t = c # cs" "c \<in> {CHR ''e'', CHR ''E''}"
      using h False by (cases t) (auto simp: number_exponent_def split: if_splits)
    have c: "numeral_char c" using t(2) by (auto simp: numeral_char_def)
    show ?thesis
    proof (cases "\<exists>y ys. cs = y # ys \<and> y \<in> {CHR ''+'', CHR ''-''}")
      case True
      then obtain y ys where y: "cs = y # ys" "y \<in> {CHR ''+'', CHR ''-''}" by blast
      then have "u = dropWhile is_digit ys" using h t False by (auto simp: number_exponent_def split: if_splits)
      moreover have "numeral_char y" using y(2) by (auto simp: numeral_char_def)
      ultimately show ?thesis using t y c digits_numeral[of ys]
        by (intro exI[of _ "c # y # takeWhile is_digit ys"]) simp
    next
      case F: False
      then have "u = dropWhile is_digit cs" using h t False by (auto simp: number_exponent_def split: list.splits if_splits)
      then show ?thesis using t c digits_numeral[of cs] by (intro exI[of _ "c # takeWhile is_digit cs"]) simp
    qed
  qed simp
  define sg where "sg = (case s of c # w \<Rightarrow> if c = CHR ''-'' then ([c], w) else ([], s) | [] \<Rightarrow> ([], s))"
  have sg: "s = fst sg @ snd sg" "list_all numeral_char (fst sg)"
    by (auto simp: sg_def numeral_char_def split: list.splits)
  obtain x u where n: "number_integer (snd sg) = Some (x, u)"
    using assms by (auto simp: json_number_def sg_def[symmetric] Let_def split: prod.splits option.splits)
  obtain y v where f: "number_fraction u = (y, v)" by (cases "number_fraction u")
  obtain z w where e: "number_exponent v = (z, w)" by (cases "number_exponent v")
  have "w = r" using assms n f e by (auto simp: json_number_def sg_def[symmetric] split: prod.splits)
  then obtain p q o' where "snd sg = p @ u" "u = q @ v" "v = o' @ r" "list_all numeral_char (p @ q @ o')"
    using int[OF n] frac[OF f] ex[OF e] by auto
  then show ?thesis using sg by (intro exI[of _ "fst sg @ p @ q @ o'"]) simp
qed

lemma json_scalar_deeper:
  assumes "json_scalar fl s = Inr (v, r)" "\<not> deeper limit Plain k s"
  shows "\<not> deeper limit Plain k r"
proof -
  obtain c cs where s: "s = c # cs" using assms(1) by (cases s) (auto simp: json_scalar_def)
  show ?thesis
  proof (cases "c = CHR 34")
    case True
    then obtain t where "json_string cs = Some (t, r)" using assms(1) s by (auto simp: json_scalar_def split: option.splits)
    then show ?thesis using deeper_string[of cs t r limit k] assms(2) s True by simp
  next
    case False
    show ?thesis
    proof (cases "List.find (\<lambda>(w, _). prefix w s) constants")
      case (Some wv)
      then obtain w where w: "prefix w s" "w \<in> fst ` set constants" and r: "r = drop (length w) s"
        using assms(1) s False find_SomeD[OF Some] by (cases wv) (force simp: json_scalar_def)
      have "list_all neutral w" using w(2) by (auto simp: constants_def neutral_def)
      then show ?thesis using w(1) r assms(2) deeper_neutral[of w limit k r] by (auto simp: prefix_def)
    next
      case None
      then obtain n where n: "json_number s = Some n" and nv: "number_value fl n = Inr (v, r)"
        using assms(1) s False by (auto simp: json_scalar_def split: option.splits)
      obtain i f r' where "n = (i, f, r')" by (cases n)
      moreover from this have "r' = r" using nv by (auto simp: number_value_def split: if_splits)
      ultimately obtain p where "s = p @ r" "list_all neutral p" using json_number_split n numerals_neutral by blast
      then show ?thesis using assms(2) deeper_neutral by simp
    qed
  qed
qed

lemma json_scalar_not_deep: "json_scalar fl s \<noteq> Inl TooDeep"
  by (auto simp: json_scalar_def number_value_def split: list.splits option.splits prod.splits)

text \<open>What a reader of one value owes the guard at a given depth.\<close>

definition guarded :: "nat \<Rightarrow> nat \<Rightarrow> (string \<Rightarrow> json_error + pyval \<times> string) \<Rightarrow> bool" where
  "guarded limit k p \<longleftrightarrow> (\<forall>s. \<not> deeper limit Plain k s \<longrightarrow>
     p s \<noteq> Inl TooDeep \<and> (\<forall>v r. p s = Inr (v, r) \<longrightarrow> \<not> deeper limit Plain k r))"

lemma guarded_items:
  assumes "guarded limit (Suc k) p" "\<not> deeper limit Plain (Suc k) s"
  shows "json_items p n s \<noteq> Inl TooDeep \<and> (\<forall>vs r. json_items p n s = Inr (vs, r) \<longrightarrow> \<not> deeper limit Plain k r)"
  using assms(2)
proof (induction n arbitrary: s)
  case (Suc n)
  show ?case
  proof (cases "p s")
    case (Inl e)
    then show ?thesis using assms(1) Suc.prems by (auto simp: guarded_def)
  next
    case (Inr vr)
    obtain v r where vr: "vr = (v, r)" by (cases vr)
    have "\<not> deeper limit Plain (Suc k) r" using assms(1) Suc.prems Inr vr by (auto simp: guarded_def)
    then have ws: "\<not> deeper limit Plain (Suc k) (jws r)" by (simp add: deeper_jws)
    show ?thesis
    proof (cases "jws r")
      case Nil
      then show ?thesis using Inr vr by simp
    next
      case (Cons c r')
      consider "c = CHR '']''" | "c = CHR '',''" | "c \<noteq> CHR '']''" "c \<noteq> CHR '',''" by blast
      then show ?thesis
      proof cases
        case 2
        then have "\<not> deeper limit Plain (Suc k) (jws r')" using ws Cons by (simp add: deeper_jws)
        from Suc.IH[OF this] show ?thesis using Inr vr Cons 2
          by (cases "json_items p n (jws r')") auto
      qed (use Inr vr Cons ws in auto)
    qed
  qed
qed simp

lemma guarded_members:
  assumes "guarded limit (Suc k) p" "\<not> deeper limit Plain (Suc k) s"
  shows "json_members p n s \<noteq> Inl TooDeep \<and> (\<forall>kvs r. json_members p n s = Inr (kvs, r) \<longrightarrow> \<not> deeper limit Plain k r)"
  using assms(2)
proof (induction n arbitrary: s)
  case (Suc n)
  consider (bad) "json_members p (Suc n) s = Inl Malformed"
    | (key) r0 nm r2 where "s = CHR 34 # r0" "\<exists>r1. json_string r0 = Some (nm, r1) \<and> jws r1 = CHR '':'' # r2"
  proof (cases "\<exists>r0 nm r1 r2. s = CHR 34 # r0 \<and> json_string r0 = Some (nm, r1) \<and> jws r1 = CHR '':'' # r2")
    case True
    then show ?thesis using key by blast
  next
    case False
    then have "json_members p (Suc n) s = Inl Malformed"
      by (cases s) (auto split: option.splits list.splits)
    then show ?thesis using bad by blast
  qed
  then show ?case
  proof cases
    case key
    then obtain r1 where r1: "json_string r0 = Some (nm, r1)" "jws r1 = CHR '':'' # r2" by blast
    have "\<not> deeper limit Plain (Suc k) r1"
      using deeper_string[OF r1(1)] Suc.prems key(1) by simp
    then have "\<not> deeper limit Plain (Suc k) (jws r1)" by (simp add: deeper_jws)
    then have v: "\<not> deeper limit Plain (Suc k) (jws r2)" using r1(2) by (simp add: deeper_jws)
    show ?thesis
    proof (cases "p (jws r2)")
      case (Inl e)
      then show ?thesis using assms(1) v key(1) r1 by (auto simp: guarded_def)
    next
      case (Inr vr)
      obtain w r where vr: "vr = (w, r)" by (cases vr)
      have "\<not> deeper limit Plain (Suc k) r" using assms(1) v Inr vr by (auto simp: guarded_def)
      then have ws: "\<not> deeper limit Plain (Suc k) (jws r)" by (simp add: deeper_jws)
      show ?thesis
      proof (cases "jws r")
        case Nil
        then show ?thesis using Inr vr key(1) r1 by simp
      next
        case (Cons c r')
        consider "c = CHR ''}''" | "c = CHR '',''" | "c \<noteq> CHR ''}''" "c \<noteq> CHR '',''" by blast
        then show ?thesis
        proof cases
          case 2
          then have "\<not> deeper limit Plain (Suc k) (jws r')" using ws Cons by (simp add: deeper_jws)
          from Suc.IH[OF this] show ?thesis using Inr vr Cons 2 key(1) r1
            by (cases "json_members p n (jws r')") auto
        qed (use Inr vr Cons ws key(1) r1 in auto)
      qed
    qed
  qed simp
qed simp

lemma guarded_value: "limit \<le> k + d \<Longrightarrow> guarded limit k (json_value fl d)"
proof (induction d arbitrary: k)
  case 0
  show ?case using json_scalar_deeper json_scalar_not_deep 0
    by (force simp: guarded_def neq_Nil_conv split: if_splits)
next
  case (Suc d)
  have g: "guarded limit (Suc k) (json_value fl d)" using Suc by simp
  show ?case unfolding guarded_def
  proof (intro allI impI)
    fix s assume s: "\<not> deeper limit Plain k s"
    show "json_value fl (Suc d) s \<noteq> Inl TooDeep \<and> (\<forall>v r. json_value fl (Suc d) s = Inr (v, r) \<longrightarrow> \<not> deeper limit Plain k r)"
    proof (cases s)
      case (Cons c t)
      consider (arr) "c = CHR ''[''" | (obj) "c = CHR ''{''" | (flat) "c \<noteq> CHR ''[''" "c \<noteq> CHR ''{''" by blast
      then show ?thesis
      proof cases
        case arr
        then have t: "\<not> deeper limit Plain (Suc k) (jws t)" using s Cons by (simp add: deeper_jws)
        from guarded_items[OF g t, of "length t"] t show ?thesis using Cons arr
          by (cases "json_items (json_value fl d) (length t) (jws t)"; cases "jws t") auto
      next
        case obj
        then have t: "\<not> deeper limit Plain (Suc k) (jws t)" using s Cons by (simp add: deeper_jws)
        from guarded_members[OF g t, of "length t"] t show ?thesis using Cons obj
          by (cases "json_members (json_value fl d) (length t) (jws t)"; cases "jws t") auto
      next
        case flat
        then show ?thesis using s Cons json_scalar_deeper[of fl s] json_scalar_not_deep[of fl s] by auto
      qed
    qed simp
  qed
qed

lemma guard_covers_reader:
  assumes "\<not> exceeds_json_depth s limit" "limit \<le> d"
  shows "json_loads fl d s \<noteq> Inl TooDeep"
proof -
  have "\<not> deeper limit Plain 0 (jws s)" using assms(1) by (simp add: exceeds_json_depth_def deeper_jws)
  moreover have "guarded limit 0 (json_value fl d)" using guarded_value assms(2) by simp
  ultimately have "json_value fl d (jws s) \<noteq> Inl TooDeep" by (simp add: guarded_def)
  then show ?thesis by (cases "json_value fl d (jws s)") (auto simp: json_loads_def split: if_splits)
qed

section \<open>Written values pass the guard\<close>

lemma hex_digit_plain: "0 \<le> n \<Longrightarrow> n < 16 \<Longrightarrow> hex_digit n \<noteq> CHR 34 \<and> hex_digit n \<noteq> CHR 92"
  using hex_val_digit[of n] by (auto simp: hex_val_def code_def)

lemma deeper_hex_escape:
  assumes "0 \<le> n" "n < 65536"
  shows "deeper limit InText k (hex_escape n @ t) = deeper limit InText k t"
proof -
  have "0 \<le> n div 4096" "n div 4096 < 16" using assms by auto
  then show ?thesis by (simp add: hex_escape_def hex_digit_plain)
qed

lemma deeper_escape:
  assumes "scalar n"
  shows "deeper limit InText k (json_escape n @ t) = deeper limit InText k t"
proof -
  have r: "0 \<le> n" "n < 1114112" using assms by (simp_all add: scalar_def)
  consider (short) "n \<in> {34, 92, 10, 13, 9, 12, 8}" | (plain) "32 \<le> n" "n < 127" "n \<noteq> 34" "n \<noteq> 92"
    | (hex) "n \<notin> {34, 92, 10, 13, 9, 12, 8}" "n < 65536" "\<not> (32 \<le> n \<and> n < 127)" | (pair) "65536 \<le> n" by fastforce
  then show ?thesis
  proof cases
    case short
    then show ?thesis by (elim insertE emptyE) (simp_all add: json_escape_def)
  next
    case plain
    then have "char_at n \<noteq> CHR 34" "char_at n \<noteq> CHR 92"
      by (simp_all add: char_at_eq) (simp_all add: code_def)
    then show ?thesis using plain by (simp add: json_escape_def)
  next
    case hex
    then have "json_escape n = hex_escape n" by (auto simp: json_escape_def)
    then show ?thesis using deeper_hex_escape r hex by simp
  next
    case pair
    let ?h = "55296 + (n - 65536) div 1024" and ?l = "56320 + (n - 65536) mod 1024"
    have "json_escape n = hex_escape ?h @ hex_escape ?l" using pair by (simp add: json_escape_def)
    moreover have "0 \<le> ?h" "?h < 65536" "0 \<le> ?l" "?l < 65536" using pair r by auto
    ultimately show ?thesis by (simp add: deeper_hex_escape)
  qed
qed

lemma deeper_quote: "utf8_text s \<Longrightarrow> deeper limit Plain k (json_quote s @ r) = deeper limit Plain k r"
proof -
  have "deeper limit InText k (concat (map json_escape ns) @ CHR 34 # r) = deeper limit Plain k r"
    if "list_all scalar ns" for ns using that by (induction ns) (simp_all add: deeper_escape)
  then show "utf8_text s \<Longrightarrow> ?thesis" by (simp add: json_quote_def utf8_text_def)
qed

lemma nat_str_neutral: "0 \<le> n \<Longrightarrow> list_all neutral (nat_str n)"
  using nat_str_digits[of n] digit_neutral by (auto simp: list_all_iff)

lemma float_neutral: "float_ok fl t \<Longrightarrow> list_all neutral (float_text t)"
proof (cases "t \<in> {''nan'', ''inf'', ''-inf''}")
  case False
  moreover assume "float_ok fl t"
  ultimately obtain i f where "json_number t = Some (i, f, [])" by (auto simp: float_ok_def split: option.splits)
  then show ?thesis using json_number_split[of t i f "[]"] False numerals_neutral by (auto simp: float_text_def)
qed (auto simp: float_text_def neutral_def)

lemma deeper_joined:
  assumes "\<And>x r. x \<in> set xs \<Longrightarrow> deeper limit Plain k (f x @ r) = deeper limit Plain k r"
  shows "deeper limit Plain k (join '','' (map f xs) @ r) = deeper limit Plain k r"
  using assms
proof (induction xs)
  case (Cons x xs)
  then show ?case by (cases xs) simp_all
qed simp

lemma foldr_max_ge: "n \<in> set ns \<Longrightarrow> n \<le> foldr max ns (0::nat)"
  using foldr_max_le[of ns "foldr max ns 0"] by blast

lemma deeper_text:
  "json_ok fl v \<Longrightarrow> k + json_depth v \<le> limit \<Longrightarrow> deeper limit Plain k (json_text v @ r) = deeper limit Plain k r"
proof (induction v arbitrary: k r rule: json_text.induct)
  case (3 i)
  have "list_all neutral (int_str i)"
    using nat_str_neutral[of i] nat_str_neutral[of "- i"] by (simp add: int_str_def neutral_def)
  then show ?case by (simp add: deeper_neutral)
next
  case (4 t)
  then show ?case using float_neutral deeper_neutral by simp
next
  case (5 s)
  then show ?case by (simp add: deeper_quote)
next
  case (6 vs)
  have "deeper limit Plain (Suc k) (join '','' (map json_text vs) @ CHR '']'' # r) = deeper limit Plain (Suc k) (CHR '']'' # r)"
  proof (rule deeper_joined)
    fix v s assume v: "v \<in> set vs"
    then have "json_depth v \<le> foldr max (map json_depth vs) 0" by (intro foldr_max_ge) simp
    then show "deeper limit Plain (Suc k) (json_text v @ s) = deeper limit Plain (Suc k) s"
      using 6 v by (simp add: list_all_iff)
  qed
  then show ?case using "6.prems"(2) by simp
next
  case (7 kvs)
  have "deeper limit Plain (Suc k) (join '','' (map (\<lambda>(k, v). json_quote k @ '':'' @ json_text v) kvs) @ CHR ''}'' # r)
      = deeper limit Plain (Suc k) (CHR ''}'' # r)"
  proof (rule deeper_joined)
    fix kv s assume kv: "kv \<in> set kvs"
    obtain x v where x: "kv = (x, v)" by (cases kv)
    have "json_depth v \<le> foldr max (map (\<lambda>(k, v). json_depth v) kvs) 0"
      using kv x by (intro foldr_max_ge) force
    then have ok: "utf8_text x" "json_ok fl v" "Suc k + json_depth v \<le> limit"
      using 7(2,3) kv x by (auto simp: list_all_iff)
    then show "deeper limit Plain (Suc k) ((case kv of (k, v) \<Rightarrow> json_quote k @ '':'' @ json_text v) @ s) = deeper limit Plain (Suc k) s"
      using 7(1)[OF kv x[symmetric], of "Suc k" s] x by (simp add: deeper_quote)
  qed
  then show ?case using "7.prems"(2) by simp
qed simp_all

section \<open>Written values stay on one line\<close>

definition one_line :: "string \<Rightarrow> bool" where
  "one_line s \<longleftrightarrow> list_all (\<lambda>c. \<not> line_break c) s"

lemma one_line_simps [simp]:
  "one_line []" "one_line (c # s) \<longleftrightarrow> \<not> line_break c \<and> one_line s" "one_line (s @ t) \<longleftrightarrow> one_line s \<and> one_line t"
  by (simp_all add: one_line_def)

lemma numeral_one_line: "list_all numeral_char s \<Longrightarrow> one_line s"
  by (induction s) (auto simp: numeral_char_def line_break_def is_digit_def code_def)

lemma nat_str_one_line: "0 \<le> n \<Longrightarrow> one_line (nat_str n)"
  using nat_str_digits[of n] by (auto intro!: numeral_one_line simp: list_all_iff numeral_char_def)

lemma float_one_line: "float_ok fl t \<Longrightarrow> one_line (float_text t)"
proof (cases "t \<in> {''nan'', ''inf'', ''-inf''}")
  case False
  moreover assume "float_ok fl t"
  ultimately obtain i f where "json_number t = Some (i, f, [])" by (auto simp: float_ok_def split: option.splits)
  then show ?thesis using json_number_split[of t i f "[]"] False numeral_one_line by (auto simp: float_text_def)
qed (auto simp: float_text_def line_break_def)

lemma hex_digit_line: "0 \<le> n \<Longrightarrow> n < 16 \<Longrightarrow> \<not> line_break (hex_digit n)"
  using hex_val_digit[of n] by (auto simp: line_break_def hex_val_def code_def)

lemma hex_escape_line: "0 \<le> n \<Longrightarrow> n < 65536 \<Longrightarrow> one_line (hex_escape n)"
  using hex_digit_line[of "n div 4096"] by (simp add: hex_escape_def hex_digit_line) (simp add: line_break_def)

lemma escape_one_line:
  assumes "scalar n"
  shows "one_line (json_escape n)"
proof -
  have r: "0 \<le> n" "n < 1114112" using assms by (simp_all add: scalar_def)
  consider (short) "n \<in> {34, 92, 10, 13, 9, 12, 8}" | (plain) "32 \<le> n" "n < 127" "n \<noteq> 34" "n \<noteq> 92"
    | (hex) "n \<notin> {34, 92, 10, 13, 9, 12, 8}" "n < 65536" "\<not> (32 \<le> n \<and> n < 127)" | (pair) "65536 \<le> n" by fastforce
  then show ?thesis
  proof cases
    case short
    then show ?thesis by (elim insertE emptyE) (simp_all add: json_escape_def line_break_def)
  next
    case plain
    then have "\<not> line_break (char_at n)" by (simp add: line_break_def char_at_eq) (simp add: code_def)
    then show ?thesis using plain by (simp add: json_escape_def)
  next
    case hex
    then have "json_escape n = hex_escape n" by (auto simp: json_escape_def)
    then show ?thesis using hex_escape_line r hex by simp
  next
    case pair
    let ?h = "55296 + (n - 65536) div 1024" and ?l = "56320 + (n - 65536) mod 1024"
    have "json_escape n = hex_escape ?h @ hex_escape ?l" using pair by (simp add: json_escape_def)
    moreover have "0 \<le> ?h" "?h < 65536" "0 \<le> ?l" "?l < 65536" using pair r by auto
    ultimately show ?thesis by (simp add: hex_escape_line)
  qed
qed

lemma quote_one_line: "utf8_text s \<Longrightarrow> one_line (json_quote s)"
proof -
  have "one_line (concat (map json_escape ns))" if "list_all scalar ns" for ns
    using that by (induction ns) (simp_all add: escape_one_line)
  then show "utf8_text s \<Longrightarrow> ?thesis" by (simp add: json_quote_def utf8_text_def) (simp add: line_break_def)
qed

lemma joined_one_line: "(\<And>x. x \<in> set xs \<Longrightarrow> one_line x) \<Longrightarrow> one_line (join '','' xs)"
  by (induction "'',''" xs rule: join.induct) (auto simp: line_break_def)

lemma json_text_one_line: "json_ok fl v \<Longrightarrow> one_line (json_text v)"
proof (induction v rule: json_text.induct)
  case (3 i)
  then show ?case using nat_str_one_line[of i] nat_str_one_line[of "- i"] by (simp add: int_str_def line_break_def)
next
  case (4 t)
  then show ?case using float_one_line by simp
next
  case (5 s)
  then show ?case by (simp add: quote_one_line)
next
  case (6 vs)
  then have "one_line (join '','' (map json_text vs))" by (intro joined_one_line) (auto simp: list_all_iff)
  then show ?case by (simp add: line_break_def)
next
  case (7 kvs)
  have "one_line (join '','' (map (\<lambda>(k, v). json_quote k @ '':'' @ json_text v) kvs))"
    using 7 by (intro joined_one_line) (fastforce simp: list_all_iff quote_one_line line_break_def)
  then show ?case by (simp add: line_break_def)
qed (simp_all add: line_break_def)

text \<open>Lines joined by line feeds come apart as they were.\<close>

lemma splitlines_line: "one_line l \<Longrightarrow> l \<noteq> [] \<Longrightarrow> splitlines l = [l]"
proof (induction l)
  case (Cons c cs)
  then show ?case by (cases cs) simp_all
qed simp

lemma splitlines_feed: "one_line l \<Longrightarrow> splitlines (l @ CHR 10 # r) = l # splitlines r"
  by (induction l) (simp_all add: line_break_def)

lemma splitlines_join: "list_all (\<lambda>l. one_line l \<and> l \<noteq> []) ls \<Longrightarrow> splitlines (join [CHR 10] ls) = ls"
  by (induction "[CHR 10]" ls rule: join.induct) (simp_all add: splitlines_line splitlines_feed)

section \<open>The reader advances\<close>

text \<open>A value takes at least one character, which is what loops over a text rest on.\<close>

lemma json_string_shorter: "json_string s = Some (t, r) \<Longrightarrow> length r < length s"
proof (induction "length s" arbitrary: s t rule: less_induct)
  case less
  from less.prems show ?case
  proof (cases rule: json_string_cases)
    case (short e u t')
    then have "length r < length u" by (intro less.hyps) simp_all
    then show ?thesis using short(1) by simp
  next
    case (unit u n t')
    then have "length r < length (drop 4 u)" by (intro less.hyps) simp_all
    then show ?thesis using unit(1) by simp
  next
    case (pair u n m t')
    then have "length r < length (drop 10 u)" by (intro less.hyps) simp_all
    then show ?thesis using pair(1) by simp
  next
    case (char c u t')
    then have "length r < length u" by (intro less.hyps) simp_all
    then show ?thesis using char(1) by simp
  qed simp
qed

lemma length_jws: "length (jws s) \<le> length s"
  by (simp add: jws_def length_dropWhile_le)

lemma json_number_shorter:
  assumes "json_number s = Some (i, f, r)"
  shows "length r < length s"
proof -
  have int: "length u < length t" if "number_integer t = Some (x, u)" for t x u
  proof (cases t)
    case (Cons c cs)
    then show ?thesis using that length_dropWhile_le[of is_digit cs] by (auto simp: number_integer_def split: if_splits)
  qed (use that in \<open>simp add: number_integer_def\<close>)
  have frac: "length u \<le> length t" if "number_fraction t = (x, u)" for t x u
    using that length_dropWhile_le[of is_digit "tl t"] by (auto simp: number_fraction_def split: list.splits if_splits)
  have ex: "length u \<le> length t" if h: "number_exponent t = (x, u)" for t x u
  proof -
    consider "u = t" | c y where "t = c # y" "u = dropWhile is_digit y" | c z y where "t = c # z # y" "u = dropWhile is_digit y"
      using h by (cases t; cases "tl t") (auto simp: number_exponent_def Let_def split: if_splits)
    then show ?thesis using length_dropWhile_le[of is_digit] by cases (simp_all add: le_SucI)
  qed
  define sg where "sg = (case s of c # w \<Rightarrow> if c = CHR ''-'' then ([c], w) else ([], s) | [] \<Rightarrow> ([], s))"
  have sg: "length (snd sg) \<le> length s" by (simp add: sg_def split: list.splits)
  obtain x u where n: "number_integer (snd sg) = Some (x, u)"
    using assms by (auto simp: json_number_def sg_def[symmetric] Let_def split: prod.splits option.splits)
  obtain y v where f: "number_fraction u = (y, v)" by (cases "number_fraction u")
  obtain z w where e: "number_exponent v = (z, w)" by (cases "number_exponent v")
  have "w = r" using assms n f e by (auto simp: json_number_def sg_def[symmetric] split: prod.splits)
  then show ?thesis using int[OF n] frac[OF f] ex[OF e] sg by simp
qed

lemma json_scalar_shorter:
  assumes "json_scalar fl s = Inr (v, r)"
  shows "length r < length s"
proof -
  obtain c cs where s: "s = c # cs" using assms by (cases s) (auto simp: json_scalar_def)
  show ?thesis
  proof (cases "c = CHR 34")
    case True
    then obtain t where "json_string cs = Some (t, r)" using assms s by (auto simp: json_scalar_def split: option.splits)
    then show ?thesis using json_string_shorter s by fastforce
  next
    case False
    show ?thesis
    proof (cases "List.find (\<lambda>(w, _). prefix w s) constants")
      case (Some wv)
      then obtain w where "w \<in> fst ` set constants" and "r = drop (length w) s"
        using assms s False find_SomeD[OF Some] by (cases wv) (force simp: json_scalar_def)
      moreover from this(1) have "w \<noteq> []" by (auto simp: constants_def)
      ultimately show ?thesis using s by (cases w) auto
    next
      case None
      then obtain n where n: "json_number s = Some n" and nv: "number_value fl n = Inr (v, r)"
        using assms s False by (auto simp: json_scalar_def split: option.splits)
      obtain i f r' where "n = (i, f, r')" by (cases n)
      moreover from this have "r' = r" using nv by (auto simp: number_value_def split: if_splits)
      ultimately show ?thesis using json_number_shorter n by blast
    qed
  qed
qed

definition shrinks :: "(string \<Rightarrow> json_error + 'a \<times> string) \<Rightarrow> bool" where
  "shrinks p \<longleftrightarrow> (\<forall>s v r. p s = Inr (v, r) \<longrightarrow> length r < length s)"

lemma shrinks_items: "shrinks p \<Longrightarrow> shrinks (json_items p n)"
proof (induction n)
  case (Suc n)
  show ?case unfolding shrinks_def
  proof (intro allI impI)
    fix s vs r assume e: "json_items p (Suc n) s = Inr (vs, r)"
    then obtain v r0 where v: "p s = Inr (v, r0)" by (cases "p s") auto
    then have l: "length r0 < length s" using Suc.prems by (auto simp: shrinks_def)
    obtain c r' where c: "jws r0 = c # r'" using e v by (cases "jws r0") auto
    have l': "length r' < length s" using l length_jws[of r0] c by simp
    have "r = r' \<or> (\<exists>ws. json_items p n (jws r') = Inr (ws, r))" using e v c by (auto split: if_splits)
    then show "length r < length s" using l' Suc length_jws[of r'] by (fastforce simp: shrinks_def)
  qed
qed (simp add: shrinks_def)

lemma shrinks_members: "shrinks p \<Longrightarrow> shrinks (json_members p n)"
proof (induction n)
  case (Suc n)
  show ?case unfolding shrinks_def
  proof (intro allI impI)
    fix s kvs r assume e: "json_members p (Suc n) s = Inr (kvs, r)"
    then obtain r0 where s: "s = CHR 34 # r0" by (cases s) (auto split: if_splits)
    obtain k r1 where k: "json_string r0 = Some (k, r1)" using e s by (cases "json_string r0") auto
    obtain r2 where r2: "jws r1 = CHR '':'' # r2" using e s k by (cases "jws r1") (auto split: if_splits)
    obtain v r3 where v: "p (jws r2) = Inr (v, r3)" using e s k r2 by (cases "p (jws r2)") auto
    have l: "length r3 < length s"
      using json_string_shorter[OF k] length_jws[of r1] length_jws[of r2] r2 s Suc.prems v by (fastforce simp: shrinks_def)
    obtain c r' where c: "jws r3 = c # r'" using e s k r2 v by (cases "jws r3") auto
    have l': "length r' < length s" using l length_jws[of r3] c by simp
    have "r = r' \<or> (\<exists>ws. json_members p n (jws r') = Inr (ws, r))" using e s k r2 v c by (auto split: if_splits)
    then show "length r < length s" using l' Suc length_jws[of r'] by (fastforce simp: shrinks_def)
  qed
qed (simp add: shrinks_def)

lemma json_value_shorter: "json_value fl d s = Inr (v, r) \<Longrightarrow> length r < length s"
proof -
  have "shrinks (json_value fl d)"
  proof (induction d)
    case 0
    then show ?case using json_scalar_shorter by (auto simp: shrinks_def split: if_splits)
  next
    case (Suc d)
    show ?case unfolding shrinks_def
    proof (intro allI impI)
      fix s v r assume e: "json_value fl (Suc d) s = Inr (v, r)"
      then obtain c t where s: "s = c # t" by (cases s) auto
      have j: "length (jws t) < length s" using length_jws[of t] s by simp
      consider (flat) "json_scalar fl s = Inr (v, r)" | (empty) "r = tl (jws t)"
        | (arr) vs where "json_items (json_value fl d) (length t) (jws t) = Inr (vs, r)"
        | (obj) kvs where "json_members (json_value fl d) (length t) (jws t) = Inr (kvs, r)"
        using e s by (auto split: if_splits)
      then show "length r < length s"
      proof cases
        case flat
        then show ?thesis by (rule json_scalar_shorter)
      next
        case arr
        then show ?thesis using shrinks_items[OF Suc.IH, of "length t"] j by (fastforce simp: shrinks_def)
      next
        case obj
        then show ?thesis using shrinks_members[OF Suc.IH, of "length t"] j by (fastforce simp: shrinks_def)
      qed (use j in simp)
    qed
  qed
  then show "json_value fl d s = Inr (v, r) \<Longrightarrow> length r < length s" by (simp add: shrinks_def)
qed

section \<open>Refused documents\<close>

lemma long_integer:
  assumes "list_all is_digit s" "s \<noteq> []" "hd s \<noteq> CHR ''0''" "max_str_digits < length s"
  shows "json_loads fl d s = Inl TooManyDigits"
proof -
  obtain c cs where s: "s = c # cs" "is_digit c" using assms(1,2) by (cases s) auto
  have w: "takeWhile is_digit cs = cs" "dropWhile is_digit cs = []"
    using assms(1) s(1) by (simp_all add: list_all_iff takeWhile_eq_all_conv dropWhile_eq_Nil_conv)
  have n: "json_number s = Some (s, [], [])"
    using s assms(3) digit_opens_number[OF s(2)]
    by (simp add: json_number_def number_integer_def w number_fraction_def number_exponent_def)
  have "split_sign s = (False, s)" using s by (auto simp: split_sign_def is_digit_def code_def)
  then have v: "json_scalar fl s = Inl TooManyDigits"
    using json_scalar_number[OF n] assms(4) by (simp add: number_value_def)
  have "jws s = s" "\<not> prefix bom s"
    using s digit_opens_number[OF s(2)] code_char_at[of 239] by (auto simp: jws_def bom_def)
  then show ?thesis using v json_value_flat[of c fl d cs] digit_opens_number[OF s(2)] s by (simp add: json_loads_def)
qed

lemma digits_strip: "list_all is_digit s \<Longrightarrow> strip s = s"
  by (rule strip_id) (auto simp: list_all_iff is_digit_def is_space_def)

lemma digits_shallow: "list_all is_digit s \<Longrightarrow> \<not> exceeds_json_depth s limit"
  using deeper_neutral[of s limit 0 "[]"] digit_neutral by (auto simp: exceeds_json_depth_def list_all_iff)

lemma written_passes: "json_ok fl v \<Longrightarrow> json_depth v \<le> limit \<Longrightarrow> \<not> exceeds_json_depth (json_text v) limit"
  using deeper_text[of fl v 0 limit "[]"] by (simp add: exceeds_json_depth_def)

definition demo_document :: pyval where
  "demo_document = VDict [(''user'', VStr ''eve''), (''ports'', VList [VInt 22, VInt (- 1), VNone]), (''ok'', VBool True)]"

section \<open>Properties\<close>

text \<open>C12: A document that passes the guard never exhausts the interpreter's stack, and the guard refuses no document it need not refuse: every value of at most a hundred levels, written by the library, passes it and is read back as it was.\<close>

theorem guard_covers_documents:
  assumes "max_json_depth \<le> d"
  shows "(\<not> exceeds_json_depth s max_json_depth \<longrightarrow> json_loads fl d s \<noteq> Inl TooDeep) \<and>
    (json_ok fl v \<and> json_depth v \<le> max_json_depth \<longrightarrow>
      \<not> exceeds_json_depth (json_text v) max_json_depth \<and> json_or_none fl d (json_text v) = Inr (Some v))"
proof -
  have "json_or_none fl d (json_text v) = Inr (Some v)" if v: "json_ok fl v" "json_depth v \<le> max_json_depth"
    using json_round_trip[OF v(1), of d] v(2) written_passes[OF v] assms json_text_opens[OF v(1)]
    by (auto simp: json_or_none_def loads_or_none_def)
  then show ?thesis using guard_covers_reader[OF _ assms] written_passes by blast
qed

theorem guard_covers_documents_witness:
  "json_or_none (\<lambda>t. t) 100 (json_text demo_document) = Inr (Some demo_document) \<and>
     json_loads (\<lambda>t. t) 100 (replicate 150 (CHR ''x'')) \<noteq> Inl TooDeep"
proof -
  have ok: "json_ok (\<lambda>t. t) demo_document" "json_depth demo_document \<le> max_json_depth"
    and x: "\<not> exceeds_json_depth (replicate 150 (CHR ''x'')) max_json_depth" by code_simp+
  have "max_json_depth \<le> 100" by (simp add: max_json_depth_def)
  from guard_covers_documents[OF this, of _ "\<lambda>t. t" demo_document] ok x show ?thesis by blast
qed

text \<open>A numeral of more than 4300 digits raises an exception that the record reader does not catch, so it ends the upload it is part of.\<close>

lemma long_integer_aborts_ingest:
  assumes "list_all is_digit s" "s \<noteq> []" "hd s \<noteq> CHR ''0''" "max_str_digits < length s"
  shows "iter_json_records fl d wrappers s = ([], Some ValueError) \<and> json_or_none fl d s = Inl ValueError"
  using long_integer[OF assms] digits_strip[OF assms(1)] digits_shallow[OF assms(1)] assms(2)
  by (simp add: iter_json_records_def json_or_none_def loads_or_none_def)

end
