(* ===== verification/PyUtf8.thy ===== *)
theory PyUtf8
  imports PyJson
begin

text \<open>
  \<open>bytes.decode('utf-8', 'replace')\<close>, with which the receivers read what arrives: a byte that opens no
  sequence, and the longest beginning of a sequence that breaks off, become one U+FFFD each.
\<close>

definition replacement_char :: string where "replacement_char = map char_at [239, 191, 189]"

text \<open>How a sequence goes on behind its first byte.\<close>

definition tail_ranges :: "int \<Rightarrow> (int \<times> int) list option" where
  "tail_ranges n =
     (if 194 \<le> n \<and> n \<le> 223 then Some [(128, 191)]
      else if n = 224 then Some [(160, 191), (128, 191)]
      else if n = 237 then Some [(128, 159), (128, 191)]
      else if 225 \<le> n \<and> n \<le> 239 then Some [(128, 191), (128, 191)]
      else if n = 240 then Some [(144, 191), (128, 191), (128, 191)]
      else if 241 \<le> n \<and> n \<le> 243 then Some [(128, 191), (128, 191), (128, 191)]
      else if n = 244 then Some [(128, 143), (128, 191), (128, 191)]
      else None)"

fun tail_fits :: "(int \<times> int) list \<Rightarrow> string \<Rightarrow> nat" where
  "tail_fits ((lo, hi) # rs) (c # cs) = (if lo \<le> code c \<and> code c \<le> hi then Suc (tail_fits rs cs) else 0)"
| "tail_fits _ _ = 0"

function utf8_replace :: "string \<Rightarrow> string" where
  "utf8_replace [] = []"
| "utf8_replace (c # cs) =
     (if code c < 128 then c # utf8_replace cs
      else (case tail_ranges (code c) of
              None \<Rightarrow> replacement_char @ utf8_replace cs
            | Some rs \<Rightarrow>
                (let m = tail_fits rs cs in
                 (if m = length rs then c # take m cs else replacement_char) @ utf8_replace (drop m cs))))"
  by pat_completeness auto
termination by (relation "measure length") auto

lemma base64_digits:
  "(n::int) = n div 4096 * 4096 + n div 64 mod 64 * 64 + n mod 64"
  "n div 4096 = n div 262144 * 64 + n div 4096 mod 64"
proof -
  have d: "n div 4096 = n div 64 div 64" "n div 262144 = n div 4096 div 64" by (simp_all flip: div_mult2_eq)
  show "n = n div 4096 * 4096 + n div 64 mod 64 * 64 + n mod 64"
    using div_mult_mod_eq[of n 64] div_mult_mod_eq[of "n div 64" 64] unfolding d(1) by linarith
  show "n div 4096 = n div 262144 * 64 + n div 4096 mod 64" unfolding d(2) by simp
qed

lemma utf8_replace_scalar:
  assumes "scalar n"
  shows "utf8_replace (utf8 n @ t) = utf8 n @ utf8_replace t"
proof -
  have r: "0 \<le> n" "n < 1114112" "n < 55296 \<or> 57343 < n"
    using assms by (auto simp: scalar_def high_surrogate_def low_surrogate_def)
  define a b c e where "a = n div 4096" and "b = n div 64 mod 64" and "c = n mod 64" and "e = n div 4096 mod 64"
  define h where "h = n div 262144"
  have n: "n = a * 4096 + b * 64 + c" "a = h * 64 + e" and bc: "0 \<le> b" "b < 64" "0 \<le> c" "c < 64" "0 \<le> e" "e < 64"
    using base64_digits[of n] by (simp_all add: a_def b_def c_def e_def h_def)
  consider "n < 128" | "128 \<le> n" "n < 2048" | "2048 \<le> n" "n < 65536" | "65536 \<le> n" by linarith
  then show ?thesis
  proof cases
    case 1
    then show ?thesis using r by (simp add: utf8_def code_char_at)
  next
    case 2
    then have "2 \<le> n div 64" "n div 64 < 32" by auto
    moreover have u: "utf8 n = [char_at (192 + n div 64), char_at (128 + c)]" using 2 by (simp add: utf8_def c_def)
    ultimately show ?thesis using bc unfolding u by (simp add: code_char_at tail_ranges_def)
  next
    case 3
    have u: "utf8 n = [char_at (224 + a), char_at (128 + b), char_at (128 + c)]"
      using 3 by (simp add: utf8_def a_def b_def c_def)
    have a: "0 \<le> a" "a < 16" using 3 n bc by linarith+
    have "a = 0 \<longrightarrow> 32 \<le> b" and "a = 13 \<longrightarrow> b \<le> 31" using 3 n bc r(3) by linarith+
    then show ?thesis using a bc unfolding u
      by (cases "a = 0"; cases "a = 13") (simp_all add: code_char_at tail_ranges_def)
  next
    case 4
    have u: "utf8 n = [char_at (240 + h), char_at (128 + e), char_at (128 + b), char_at (128 + c)]"
      using 4 by (simp add: utf8_def h_def e_def b_def c_def)
    have h: "0 \<le> h" "h < 5" using 4 n bc r(2) by linarith+
    have "h = 0 \<longrightarrow> 16 \<le> e" and "h = 4 \<longrightarrow> e \<le> 15" using 4 n bc r(2) by linarith+
    then show ?thesis using h bc unfolding u
      by (cases "h = 0"; cases "h = 4") (simp_all add: code_char_at tail_ranges_def)
  qed
qed

lemma utf8_replace_valid: "list_all scalar ns \<Longrightarrow> utf8_replace (concat (map utf8 ns) @ t) = concat (map utf8 ns) @ utf8_replace t"
  by (induction ns) (simp_all add: utf8_replace_scalar)

text \<open>Text in UTF-8 is read as it is.\<close>

lemma utf8_replace_text: "utf8_text s \<Longrightarrow> utf8_replace s = s"
  using utf8_replace_valid[of "code_points s" "[]"] by (simp add: utf8_text_def)

end
