(* ===== verification/Batches.thy ===== *)
theory Batches
  imports PipelineFacts
begin

text \<open>
  Batches (\<open>app/ingest.py\<close>, \<open>_write_group\<close> of \<open>app/streaming.py\<close>, and the batch rows of \<open>app/db.py\<close>):
  one upload or one flushed group of live events becomes a row of \<open>ingest_batches\<close>, its events go through
  the pipeline inside one transaction, and the row is completed with what became of them.

  A parser is a generator, so it may raise after it has yielded events: \<open>parse_events\<close> gives the events
  and the exception that ends them, if any. The registered parsers are the argument \<open>parsers\<close>. The text of
  an error, kept in the notes of a batch, is left out.
\<close>

section \<open>Batch rows\<close>

record batch =
  bt_id :: int
  bt_filename :: "string option"
  bt_sha :: "string option"
  bt_vendor :: "string option"
  bt_fmt :: string
  bt_source_type :: string
  bt_source_addr :: "string option"
  bt_uploaded_at :: int
  bt_status :: string
  bt_total :: int
  bt_inserted :: int
  bt_duplicates :: int
  bt_errors :: int
  bt_dropped :: int

record archive =
  ar_store :: store
  ar_batches :: "batch list"
  ar_next :: int

text \<open>The database's own time is what a batch without an explicit time gets.\<close>

definition create_batch ::
    "string option \<Rightarrow> string option \<Rightarrow> string option \<Rightarrow> string \<Rightarrow> string \<Rightarrow> string option \<Rightarrow> int
       \<Rightarrow> archive \<Rightarrow> int \<times> archive" where
  "create_batch filename sha vnd fmt source_type source_addr uploaded_at ar =
     (let b = \<lparr>bt_id = ar_next ar, bt_filename = filename, bt_sha = sha, bt_vendor = vnd, bt_fmt = fmt,
               bt_source_type = source_type, bt_source_addr = source_addr, bt_uploaded_at = uploaded_at,
               bt_status = ''pending'', bt_total = 0, bt_inserted = 0, bt_duplicates = 0, bt_errors = 0,
               bt_dropped = 0\<rparr>
      in (ar_next ar, ar\<lparr>ar_batches := ar_batches ar @ [b], ar_next := ar_next ar + 1\<rparr>))"

definition update_batch :: "int \<Rightarrow> (batch \<Rightarrow> batch) \<Rightarrow> archive \<Rightarrow> archive" where
  "update_batch i f ar = ar\<lparr>ar_batches := map (\<lambda>b. if bt_id b = i then f b else b) (ar_batches ar)\<rparr>"

definition count_batch_rows :: "int \<Rightarrow> archive \<Rightarrow> nat" where
  "count_batch_rows i ar = length (filter (\<lambda>r. er_batch_id r = i) (st_rows (ar_store ar)))"

text \<open>\<open>ORDER BY uploaded_at DESC LIMIT 1\<close>.\<close>

fun latest :: "batch list \<Rightarrow> batch option" where
  "latest [] = None"
| "latest (b # bs) =
     (case latest bs of None \<Rightarrow> Some b
      | Some c \<Rightarrow> Some (if bt_uploaded_at b < bt_uploaded_at c then c else b))"

definition find_batch_by_sha :: "string \<Rightarrow> archive \<Rightarrow> batch option" where
  "find_batch_by_sha sha ar =
     latest (filter (\<lambda>b. bt_sha b = Some sha \<and> bt_status b = ''done'') (ar_batches ar))"

section \<open>One transaction\<close>

type_synonym parser = "string \<Rightarrow> event list \<times> py_error option"

text \<open>The parsers by their format key.\<close>

definition parse_events ::
    "(string, parser) dict \<Rightarrow> string \<Rightarrow> string \<Rightarrow> py_error + event list \<times> py_error option" where
  "parse_events parsers content fmt =
     (case dict_get parsers fmt of None \<Rightarrow> Inl ValueError | Some p \<Rightarrow> Inr (p content))"

text \<open>What a stream that failed leaves in memory: the caches and counters of the events it reached.\<close>

fun reached_env :: "nat \<Rightarrow> world \<Rightarrow> event list \<Rightarrow> stream_state \<Rightarrow> cim_state \<times> action_index" where
  "reached_env n w [] s = ss_env s"
| "reached_env n w (e # es) s =
     (case stream_step n w e s of
        Inl _ \<Rightarrow> snd (process_event w e (ss_env s))
      | Inr s' \<Rightarrow> reached_env n w es s')"

text \<open>\<open>write_stream\<close> on a generator: an exception of the parser ends the stream before the last flush.\<close>

definition write_parsed ::
    "world \<Rightarrow> event list \<times> py_error option \<Rightarrow> store \<Rightarrow> cim_state \<times> action_index
       \<Rightarrow> (py_error + write_result \<times> store) \<times> cim_state \<times> action_index" where
  "write_parsed w p st env =
     (let env' = reached_env chunk_rows w (fst p) (start_stream st env) in
      case snd p of
        None \<Rightarrow> (case write_stream w (fst p) st env of
                   Inl e \<Rightarrow> (Inl e, env') | Inr (r, st', env1) \<Rightarrow> (Inr (r, st'), env1))
      | Some e \<Rightarrow> (case stream_events chunk_rows w (fst p) (start_stream st env) of
                   Inl e1 \<Rightarrow> (Inl e1, env') | Inr _ \<Rightarrow> (Inl e, env')))"

definition finished :: "write_result \<Rightarrow> nat \<Rightarrow> batch \<Rightarrow> batch" where
  "finished r inserted b =
     b\<lparr>bt_status := ''done'', bt_total := int (wr_total r), bt_inserted := int inserted,
       bt_duplicates := max (int (wr_total r) - int (wr_dropped r) - int inserted) 0,
       bt_errors := 0, bt_dropped := int (wr_dropped r)\<rparr>"

text \<open>
  How the database behaves while a batch is written: it answers throughout; it refuses the batch row; it
  raises after some events were processed, and then takes the mark on the batch row or not; or it raises
  once the events were committed.
\<close>

datatype outage = Up | Refused | Broken nat bool | Late

text \<open>
  The transaction and its bookkeeping, the same in \<open>ingest\<close> and \<open>_write_group\<close>. On an exception the store is
  rolled back, the batch is marked and the exception goes on (\<^const>\<open>None\<close> for one of the database). On
  success the alerts are dispatched, and the number of stored rows completes the batch.
\<close>

definition failed_batch :: "int \<Rightarrow> archive \<Rightarrow> archive" where
  "failed_batch bid = update_batch bid (\<lambda>b. b\<lparr>bt_status := ''error''\<rparr>)"

definition store_batch ::
    "outage \<Rightarrow> world \<Rightarrow> event list \<times> py_error option \<Rightarrow> int \<Rightarrow> int \<Rightarrow> archive \<times> cim_state \<times> action_index
       \<Rightarrow> (py_error option + write_result \<times> nat) \<times> alert_row list \<times> archive \<times> cim_state \<times> action_index" where
  "store_batch out w p bid fb s =
     (let (ar, env) = s; w1 = w\<lparr>w_batch := bid, w_fallback := fb\<rparr> in
      case out of
        Broken k marked \<Rightarrow>
          (Inl None, [], if marked then failed_batch bid ar else ar, snd (process_all w1 (take k (fst p)) env))
      | _ \<Rightarrow>
          (case write_parsed w1 p (ar_store ar) env of
             (Inl e, env') \<Rightarrow> (Inl (Some e), [], failed_batch bid ar, env')
           | (Inr (r, st'), env') \<Rightarrow>
               (let ar1 = ar\<lparr>ar_store := st'\<rparr>; n = count_batch_rows bid ar1 in
                if out = Late then (Inl None, wr_alerts r, ar1, env')
                else (Inr (r, n), wr_alerts r, update_batch bid (finished r n) ar1, env'))))"

section \<open>An upload\<close>

definition vendor_of :: "(string, string) dict" where
  "vendor_of = [(''paloalto_csv'', ''paloalto''), (''paloalto_syslog'', ''paloalto''),
                (''crowdstrike_csv'', ''crowdstrike''), (''crowdstrike_json'', ''crowdstrike'')]"

record upload_result =
  up_batch_id :: int
  up_filename :: "string option"
  up_format :: string
  up_vendor :: "string option"
  up_sha256 :: string
  up_source_type :: string
  up_total :: nat
  up_inserted :: nat
  up_duplicates :: nat
  up_dropped :: nat
  up_errors :: nat
  up_already_ingested :: bool

definition upload_summary ::
    "int \<Rightarrow> string option \<Rightarrow> string \<Rightarrow> string \<Rightarrow> string \<Rightarrow> bool \<Rightarrow> write_result \<Rightarrow> nat \<Rightarrow> upload_result" where
  "upload_summary bid filename fmt sha source_type again r inserted =
     \<lparr>up_batch_id = bid, up_filename = filename, up_format = fmt, up_vendor = dict_get vendor_of fmt,
      up_sha256 = sha, up_source_type = source_type, up_total = wr_total r, up_inserted = inserted,
      up_duplicates = wr_total r - wr_dropped r - inserted, up_dropped = wr_dropped r,
      up_errors = 0, up_already_ingested = again\<rparr>"

definition ingest ::
    "(string, parser) dict \<Rightarrow> outage \<Rightarrow> world \<Rightarrow> int \<Rightarrow> string \<Rightarrow> string \<Rightarrow> string option \<Rightarrow> string \<Rightarrow> string option
       \<Rightarrow> archive \<times> cim_state \<times> action_index
       \<Rightarrow> (py_error option + upload_result) \<times> alert_row list \<times> archive \<times> cim_state \<times> action_index" where
  "ingest parsers out w now content fmt filename source_type source_addr s =
     (case parse_events parsers content fmt of
        Inl e \<Rightarrow> (Inl (Some e), [], s)
      | Inr p \<Rightarrow>
          (let (ar, env) = s;
               sha = x_sha (w_ext w) content;
               prior = find_batch_by_sha sha ar in
           if out = Refused then (Inl None, [], s)
           else
             (let (bid, ar1) = create_batch filename (Some sha) (dict_get vendor_of fmt) fmt source_type source_addr now ar;
                  fb = (case prior of Some b \<Rightarrow> bt_uploaded_at b | None \<Rightarrow> now);
                  (res, alerts, s') = store_batch out w p bid fb (ar1, env) in
              (case res of
                 Inl e \<Rightarrow> (Inl e, alerts, s')
               | Inr (r, inserted) \<Rightarrow>
                   (Inr (upload_summary bid filename fmt sha source_type (prior \<noteq> None) r inserted), alerts, s')))))"

section \<open>A group of live events\<close>

text \<open>\<open>_write_group\<close>: no file name, no hash, the time of the write as the fallback.\<close>

definition write_group ::
    "outage \<Rightarrow> world \<Rightarrow> int \<Rightarrow> event list \<Rightarrow> string \<Rightarrow> string \<Rightarrow> string option \<Rightarrow> string option
       \<Rightarrow> archive \<times> cim_state \<times> action_index
       \<Rightarrow> (py_error option + nat) \<times> alert_row list \<times> archive \<times> cim_state \<times> action_index" where
  "write_group out w now es fmt source_type source_addr vnd s =
     (if out = Refused then (Inl None, [], s)
      else
        (let (ar, env) = s;
             (bid, ar1) = create_batch None None vnd fmt source_type source_addr now ar;
             (res, alerts, s') = store_batch out w (es, None) bid now (ar1, env) in
         (map_sum id snd res, alerts, s')))"

text \<open>How many rows the events table has.\<close>

definition db_rows :: "archive \<times> cim_state \<times> action_index \<Rightarrow> nat" where
  "db_rows db = length (st_rows (ar_store (fst db)))"

section \<open>What holds between two batches\<close>

text \<open>Every row names a batch that was created, and rows are unique under their key.\<close>

definition archive_ok :: "archive \<Rightarrow> bool" where
  "archive_ok ar \<longleftrightarrow>
     list_all (\<lambda>b. bt_id b < ar_next ar) (ar_batches ar) \<and> distinct (map bt_id (ar_batches ar)) \<and>
     list_all (\<lambda>r. er_batch_id r < ar_next ar) (st_rows (ar_store ar)) \<and>
     distinct (map row_key (st_rows (ar_store ar)))"

text \<open>A completed batch adds up.\<close>

definition adds_up :: "batch \<Rightarrow> bool" where
  "adds_up b \<longleftrightarrow> 0 \<le> bt_inserted b \<and> 0 \<le> bt_duplicates b \<and> 0 \<le> bt_dropped b \<and>
     bt_total b = bt_inserted b + bt_duplicates b + bt_dropped b + bt_errors b"

definition counts_rows :: "archive \<Rightarrow> batch \<Rightarrow> bool" where
  "counts_rows ar b \<longleftrightarrow> bt_status b = ''done'' \<longrightarrow> adds_up b \<and> bt_inserted b = int (count_batch_rows (bt_id b) ar)"

definition ledger :: "archive \<Rightarrow> bool" where
  "ledger ar \<longleftrightarrow> archive_ok ar \<and> list_all (counts_rows ar) (ar_batches ar)"

named_theorems batch_simps "the fields a batch operation leaves alone"

lemma create_batch_frame [batch_simps]:
  assumes "create_batch fn sha v f ty ad up ar = (bid, ar1)"
  shows "bid = ar_next ar" "ar_next ar1 = ar_next ar + 1" "ar_store ar1 = ar_store ar"
  using assms by (auto simp: create_batch_def Let_def)

lemma update_batch_frame [simp]:
  "ar_store (update_batch i f ar) = ar_store ar" "ar_next (update_batch i f ar) = ar_next ar"
  by (simp_all add: update_batch_def)

lemma failed_batch_frame [simp]:
  "ar_store (failed_batch i ar) = ar_store ar" "ar_next (failed_batch i ar) = ar_next ar"
  by (simp_all add: failed_batch_def)

lemma count_batch_rows_cong: "ar_store ar = ar_store ar' \<Longrightarrow> count_batch_rows i ar = count_batch_rows i ar'"
  by (simp add: count_batch_rows_def)

subsection \<open>Rows of a batch\<close>

text \<open>Inserting appends the rows whose key is new.\<close>

lemma insert_rows_append:
  "\<exists>new. fold insert_row rs rows = rows @ new \<and> set new \<subseteq> set rs \<and> length new \<le> length rs"
proof (induction rs arbitrary: rows)
  case (Cons r rs)
  obtain new where n: "fold insert_row rs (insert_row r rows) = insert_row r rows @ new" "set new \<subseteq> set rs"
      "length new \<le> length rs"
    using Cons[of "insert_row r rows"] by blast
  show ?case
  proof (cases "row_key r \<in> row_key ` set rows")
    case True
    then have "insert_row r rows = rows" by (simp add: insert_row_def)
    then show ?thesis using n by (intro exI[of _ new]) auto
  next
    case False
    then have "insert_row r rows = rows @ [r]" by (simp add: insert_row_def)
    then show ?thesis using n by (intro exI[of _ "r # new"]) auto
  qed
qed simp

lemma oc_row_batch [simp]: "er_batch_id (oc_row w oc) = w_batch w"
  by (simp add: oc_row_def event_row_def)

text \<open>A stream that returns appends at most one row for each kept event, all of its own batch.\<close>

lemma write_stream_appends:
  assumes "write_stream w es st env = Inr (r, st', env')"
  obtains new where "st_rows st' = st_rows st @ new" "\<forall>x\<in>set new. er_batch_id x = w_batch w"
    "length new + wr_dropped r \<le> wr_total r" "wr_total r = length es"
proof -
  obtain outs n1 where p: "process_all w es env = (outs, env')" and wr: "wrote w (kept outs) st st' n1"
      and r: "wr_total r = length es" "wr_dropped r = length (filter (\<lambda>o1. o1 = None) outs)"
    using write_stream_by_Inr[OF assms[unfolded write_stream_def]] by metis
  obtain new where n: "st_rows st' = st_rows st @ new" "set new \<subseteq> oc_row w ` set (kept outs)" "length new \<le> length (kept outs)"
    using insert_rows_append[of "map (oc_row w) (kept outs)" "st_rows st"] wr by (auto simp: wrote_def)
  have "length new + wr_dropped r \<le> wr_total r"
    using n(3) r length_kept[of outs] process_all_length[OF p] by simp
  then show ?thesis using that[OF n(1)] n(2) r(1) by fastforce
qed

lemma write_stream_distinct:
  assumes "write_stream w es st env = Inr (r, st', env')" and "distinct (map row_key (st_rows st))"
  shows "distinct (map row_key (st_rows st'))"
proof -
  obtain outs n1 where "wrote w (kept outs) st st' n1"
    using write_stream_by_Inr[OF assms(1)[unfolded write_stream_def]] by metis
  then show ?thesis using rows_fold_distinct[OF assms(2)] by (simp add: wrote_def)
qed

subsection \<open>The ledger is kept\<close>

text \<open>A fresh batch holds no row yet.\<close>

lemma ledger_create:
  assumes "ledger ar" and "create_batch fn sha v f ty ad up ar = (bid, ar1)"
  shows "ledger ar1" and "list_all (\<lambda>r. er_batch_id r < bid) (st_rows (ar_store ar1))"
    and "bid < ar_next ar1"
proof -
  have c: "bid = ar_next ar" "ar_next ar1 = ar_next ar + 1" "ar_store ar1 = ar_store ar"
    using create_batch_frame[OF assms(2)] by blast+
  obtain b where b: "ar_batches ar1 = ar_batches ar @ [b]" "bt_id b = bid" "bt_status b = ''pending''"
    using assms(2) by (auto simp: create_batch_def Let_def)
  have old: "list_all (\<lambda>b. bt_id b < bid) (ar_batches ar)" "distinct (map bt_id (ar_batches ar))"
      "list_all (\<lambda>r. er_batch_id r < bid) (st_rows (ar_store ar))"
    using assms(1) c by (simp_all add: ledger_def archive_ok_def)
  then show "list_all (\<lambda>r. er_batch_id r < bid) (st_rows (ar_store ar1))" using c by simp
  have k: "counts_rows ar1 x = counts_rows ar x" for x
    using count_batch_rows_cong[OF c(3)] by (simp add: counts_rows_def)
  have done_ok: "list_all (counts_rows ar1) (ar_batches ar1)"
    using assms(1) b by (simp add: ledger_def k list_all_iff) (simp add: counts_rows_def)
  have "archive_ok ar1" using assms(1) old b c by (auto simp: ledger_def archive_ok_def list_all_iff)
  then show "ledger ar1" using done_ok by (simp add: ledger_def)
  show "bid < ar_next ar1" using c by simp
qed

text \<open>An update of one batch that keeps its identifier, when that batch then counts its rows.\<close>

lemma ledger_update:
  assumes "ledger ar" and "\<And>b. bt_id (f b) = bt_id b" and "\<And>b. bt_id b = i \<Longrightarrow> counts_rows ar (f b)"
  shows "ledger (update_batch i f ar)"
proof -
  have ids: "bt_id (if bt_id b = i then f b else b) = bt_id b" for b using assms(2) by simp
  have k: "counts_rows (update_batch i f ar) x = counts_rows ar x" for x
    using count_batch_rows_cong[of "update_batch i f ar" ar] by (simp add: counts_rows_def)
  have m: "map bt_id (map (\<lambda>b. if bt_id b = i then f b else b) (ar_batches ar)) = map bt_id (ar_batches ar)"
    using ids by simp
  show ?thesis
    using assms unfolding ledger_def archive_ok_def list_all_iff k
    by (auto simp: update_batch_def m simp del: map_map)
qed

text \<open>Rows of a newer batch do not disturb the older ones.\<close>

lemma ledger_rows:
  assumes "ledger ar" and "st_rows st' = st_rows (ar_store ar) @ new" and "\<forall>x\<in>set new. er_batch_id x = bid"
    and "bid < ar_next ar" and "distinct (map row_key (st_rows st'))"
    and "\<forall>b\<in>set (ar_batches ar). bt_id b = bid \<longrightarrow> bt_status b \<noteq> ''done''"
  shows "ledger (ar\<lparr>ar_store := st'\<rparr>)"
proof -
  have "count_batch_rows i (ar\<lparr>ar_store := st'\<rparr>) = count_batch_rows i ar" if "i \<noteq> bid" for i
    using assms(2,3) that by (auto simp: count_batch_rows_def intro: filter_False)
  then have "counts_rows (ar\<lparr>ar_store := st'\<rparr>) b" if "b \<in> set (ar_batches ar)" for b
    using assms(1,6) that by (cases "bt_id b = bid") (auto simp: ledger_def counts_rows_def list_all_iff)
  then show ?thesis using assms by (auto simp: ledger_def archive_ok_def list_all_iff)
qed

lemma counts_failed: "counts_rows ar (b\<lparr>bt_status := ''error''\<rparr>)"
  by (simp add: counts_rows_def)

lemma counts_finished:
  assumes "bt_id b = i" and "n = count_batch_rows i ar" and "n + wr_dropped r \<le> wr_total r"
  shows "counts_rows ar (finished r n b)"
  using assms by (auto simp: counts_rows_def finished_def adds_up_def)

lemma ledger_failed: "ledger ar \<Longrightarrow> ledger (failed_batch i ar)"
  unfolding failed_batch_def by (rule ledger_update) (simp_all add: counts_failed)

lemma write_parsed_Inr:
  assumes "write_parsed w p st env = (Inr (r, st'), env')"
  shows "snd p = None" and "write_stream w (fst p) st env = Inr (r, st', env')"
  using assms by (auto simp: write_parsed_def Let_def split: option.splits sum.splits)

definition open_batch :: "int \<Rightarrow> archive \<Rightarrow> bool" where
  "open_batch bid ar \<longleftrightarrow>
     ledger ar \<and> bid < ar_next ar \<and> list_all (\<lambda>r. er_batch_id r < bid) (st_rows (ar_store ar)) \<and>
     (\<forall>b\<in>set (ar_batches ar). bt_id b = bid \<longrightarrow> bt_status b \<noteq> ''done'')"

lemma open_created:
  assumes "ledger ar" and "create_batch fn sha v f ty ad up ar = (bid, ar1)"
  shows "open_batch bid ar1"
proof -
  have "\<forall>b\<in>set (ar_batches ar). bt_id b < bid"
    using assms create_batch_frame(1)[OF assms(2)] by (simp add: ledger_def archive_ok_def list_all_iff)
  moreover obtain b where "ar_batches ar1 = ar_batches ar @ [b]" "bt_status b = ''pending''"
    using assms(2) by (auto simp: create_batch_def Let_def)
  ultimately have "\<forall>b\<in>set (ar_batches ar1). bt_id b = bid \<longrightarrow> bt_status b \<noteq> ''done''" by auto
  then show ?thesis using ledger_create[OF assms] by (simp add: open_batch_def)
qed

lemma store_batch_cases:
  assumes "store_batch out w p bid fb (ar, env) = (res, al, ar', env')"
  obtains (failed) e where "res = Inl e" "al = []" "ar' = ar \<or> ar' = failed_batch bid ar"
  | (late) r st' where "res = Inl None" "al = wr_alerts r" "out = Late" "ar' = ar\<lparr>ar_store := st'\<rparr>"
      "write_parsed (w\<lparr>w_batch := bid, w_fallback := fb\<rparr>) p (ar_store ar) env = (Inr (r, st'), env')"
  | (committed) r st' where "al = wr_alerts r" "res = Inr (r, count_batch_rows bid (ar\<lparr>ar_store := st'\<rparr>))"
      "ar' = update_batch bid (finished r (count_batch_rows bid (ar\<lparr>ar_store := st'\<rparr>))) (ar\<lparr>ar_store := st'\<rparr>)"
      "write_parsed (w\<lparr>w_batch := bid, w_fallback := fb\<rparr>) p (ar_store ar) env = (Inr (r, st'), env')"
proof -
  obtain wres env1 where wp: "write_parsed (w\<lparr>w_batch := bid, w_fallback := fb\<rparr>) p (ar_store ar) env = (wres, env1)"
    by (cases "write_parsed (w\<lparr>w_batch := bid, w_fallback := fb\<rparr>) p (ar_store ar) env")
  show ?thesis
  proof (cases "isl wres \<or> (\<exists>k m. out = Broken k m)")
    case True
    then have "\<exists>e. res = Inl e \<and> al = [] \<and> (ar' = ar \<or> ar' = failed_batch bid ar)"
      using assms unfolding store_batch_def Let_def prod.case wp
      by (auto simp: isl_def split: outage.splits)
    then show ?thesis using failed by blast
  next
    case False
    then obtain r st' where rs: "wres = Inr (r, st')" by (cases wres) auto
    note sb = assms[unfolded store_batch_def Let_def prod.case wp rs sum.case]
    show ?thesis
    proof (cases "out = Late")
      case True
      then show ?thesis using sb wp rs late[of r st'] by simp
    next
      case ok: False
      then have "(Inr (r, count_batch_rows bid (ar\<lparr>ar_store := st'\<rparr>)), wr_alerts r,
          update_batch bid (finished r (count_batch_rows bid (ar\<lparr>ar_store := st'\<rparr>))) (ar\<lparr>ar_store := st'\<rparr>), env1)
          = (res, al, ar', env')"
        using sb False by (cases out) simp_all
      then show ?thesis using committed[of r st'] wp rs by simp
    qed
  qed
qed

lemma store_batch_Inr:
  assumes "open_batch bid ar" and "store_batch out w p bid fb (ar, env) = (Inr (r, n), al, ar', env')"
  shows "ledger ar'" and "n + wr_dropped r \<le> wr_total r" and "wr_total r = length (fst p)"
    and "write_stream (w\<lparr>w_batch := bid, w_fallback := fb\<rparr>) (fst p) (ar_store ar) env = Inr (r, ar_store ar', env')"
    and "al = wr_alerts r" and "n + length (st_rows (ar_store ar)) = length (st_rows (ar_store ar'))"
proof -
  let ?w = "w\<lparr>w_batch := bid, w_fallback := fb\<rparr>"
  obtain st' where wp: "write_parsed ?w p (ar_store ar) env = (Inr (r, st'), env')"
      and a: "ar' = update_batch bid (finished r n) (ar\<lparr>ar_store := st'\<rparr>)" and "al = wr_alerts r"
      and n: "n = count_batch_rows bid (ar\<lparr>ar_store := st'\<rparr>)"
    using assms(2) by (cases rule: store_batch_cases) auto
  note ws = write_parsed_Inr[OF wp]
  then show "write_stream ?w (fst p) (ar_store ar) env = Inr (r, ar_store ar', env')" "al = wr_alerts r"
    using a \<open>al = wr_alerts r\<close> by simp_all
  obtain new where new: "st_rows st' = st_rows (ar_store ar) @ new" "\<forall>x\<in>set new. er_batch_id x = bid"
      "length new + wr_dropped r \<le> wr_total r" "wr_total r = length (fst p)"
    using write_stream_appends[OF ws(2)] by auto
  have o: "ledger ar" "bid < ar_next ar" "list_all (\<lambda>r. er_batch_id r < bid) (st_rows (ar_store ar))"
      "\<forall>b\<in>set (ar_batches ar). bt_id b = bid \<longrightarrow> bt_status b \<noteq> ''done''"
    using assms(1) by (simp_all add: open_batch_def)
  have "filter (\<lambda>r. er_batch_id r = bid) (st_rows (ar_store ar)) = []"
    using o(3) by (force simp: list_all_iff filter_empty_conv)
  then have "n = length new"
    using new(1,2) by (simp add: n count_batch_rows_def)
  then show "n + wr_dropped r \<le> wr_total r" "wr_total r = length (fst p)"
      "n + length (st_rows (ar_store ar)) = length (st_rows (ar_store ar'))"
    using new a by simp_all
  have "distinct (map row_key (st_rows st'))"
    using write_stream_distinct[OF ws(2)] o(1) by (simp add: ledger_def archive_ok_def)
  then have "ledger (ar\<lparr>ar_store := st'\<rparr>)" by (rule ledger_rows[OF o(1) new(1,2) o(2) _ o(4)])
  then show "ledger ar'" unfolding a
    by (rule ledger_update) (use counts_finished n \<open>n + wr_dropped r \<le> wr_total r\<close> in \<open>simp_all add: finished_def\<close>)
qed

lemma store_batch_Inl:
  assumes "open_batch bid ar" and "store_batch out w p bid fb (ar, env) = (Inl e, al, ar', env')"
  shows "ledger ar'" and "out \<noteq> Late \<Longrightarrow> ar_store ar' = ar_store ar \<and> al = []"
proof -
  let ?w = "w\<lparr>w_batch := bid, w_fallback := fb\<rparr>"
  have l: "ledger ar" using assms(1) by (simp add: open_batch_def)
  have "ledger ar' \<and> (out \<noteq> Late \<longrightarrow> ar_store ar' = ar_store ar \<and> al = [])"
    using assms(2)
  proof (cases rule: store_batch_cases)
    case (failed e)
    then show ?thesis using l ledger_failed[OF l, of bid] by (elim disjE) simp_all
  next
    case (late r st')
    note ws = write_parsed_Inr(2)[OF late(5)]
    obtain new where new: "st_rows st' = st_rows (ar_store ar) @ new" "\<forall>x\<in>set new. er_batch_id x = bid"
      by (rule write_stream_appends[OF ws]) simp
    have d: "distinct (map row_key (st_rows st'))"
      using write_stream_distinct[OF ws] l by (simp add: ledger_def archive_ok_def)
    have o: "bid < ar_next ar" "\<forall>b\<in>set (ar_batches ar). bt_id b = bid \<longrightarrow> bt_status b \<noteq> ''done''"
      using assms(1) by (simp_all add: open_batch_def)
    show ?thesis unfolding late(4) using ledger_rows[OF l new o(1) d o(2)] late(3) by simp
  qed simp
  then show "ledger ar'" and "out \<noteq> Late \<Longrightarrow> ar_store ar' = ar_store ar \<and> al = []" by blast+
qed

text \<open>Both ways in.\<close>

lemma ingest_cases:
  assumes "ingest parsers out w now content fmt filename source_type source_addr (ar, env) = (res, al, ar', env')"
  obtains (refused) e where "res = Inl e" "al = []" "ar' = ar" "env' = env"
  | (stored) p bid ar1 sres where "dict_get parsers fmt = Some p" "out \<noteq> Refused"
      "create_batch filename (Some (x_sha (w_ext w) content)) (dict_get vendor_of fmt) fmt source_type source_addr now ar = (bid, ar1)"
      "store_batch out w (p content) bid (case find_batch_by_sha (x_sha (w_ext w) content) ar of Some b \<Rightarrow> bt_uploaded_at b | None \<Rightarrow> now)
         (ar1, env) = (sres, al, ar', env')"
      "res = (case sres of Inl e \<Rightarrow> Inl e | Inr (r, n) \<Rightarrow> Inr (upload_summary bid filename fmt (x_sha (w_ext w) content) source_type
         (find_batch_by_sha (x_sha (w_ext w) content) ar \<noteq> None) r n))"
proof (cases "dict_get parsers fmt = None \<or> out = Refused")
  case True
  then have "\<exists>e. res = Inl e \<and> al = [] \<and> ar' = ar \<and> env' = env"
    using assms by (auto simp: ingest_def parse_events_def Let_def split: option.splits)
  then show ?thesis using refused by blast
next
  case False
  then obtain p where p: "dict_get parsers fmt = Some p" "out \<noteq> Refused" by auto
  let ?sha = "x_sha (w_ext w) content"
  obtain bid ar1 where c: "create_batch filename (Some ?sha) (dict_get vendor_of fmt) fmt source_type source_addr now ar = (bid, ar1)"
    by fastforce
  let ?fb = "case find_batch_by_sha ?sha ar of Some b \<Rightarrow> bt_uploaded_at b | None \<Rightarrow> now"
  obtain sres al1 ar2 env2 where s: "store_batch out w (p content) bid ?fb (ar1, env) = (sres, al1, ar2, env2)"
    by (cases "store_batch out w (p content) bid ?fb (ar1, env)") auto
  have "res = (case sres of Inl e \<Rightarrow> Inl e | Inr (r, n) \<Rightarrow> Inr (upload_summary bid filename fmt ?sha source_type
         (find_batch_by_sha ?sha ar \<noteq> None) r n)) \<and> al1 = al \<and> ar2 = ar' \<and> env2 = env'"
    using assms p by (auto simp: ingest_def parse_events_def Let_def c s split: sum.splits)
  then show ?thesis using stored[OF p c] s by blast
qed

lemma write_group_cases:
  assumes "write_group out w now es fmt source_type source_addr v (ar, env) = (res, al, ar', env')"
  obtains (refused) "res = Inl None" "al = []" "ar' = ar" "env' = env" "out = Refused"
  | (stored) bid ar1 sres where "create_batch None None v fmt source_type source_addr now ar = (bid, ar1)"
      "store_batch out w (es, None) bid now (ar1, env) = (sres, al, ar', env')" "res = map_sum id snd sres" "out \<noteq> Refused"
proof (cases "out = Refused")
  case True
  then show ?thesis using assms refused by (simp add: write_group_def)
next
  case False
  obtain bid ar1 where c: "create_batch None None v fmt source_type source_addr now ar = (bid, ar1)" by fastforce
  obtain sres al1 ar2 env2 where s: "store_batch out w (es, None) bid now (ar1, env) = (sres, al1, ar2, env2)"
    by (cases "store_batch out w (es, None) bid now (ar1, env)") auto
  show ?thesis using stored[OF c] s assms False by (auto simp: write_group_def c)
qed

lemma open_Inl_Inr:
  assumes "open_batch bid ar" and "store_batch out w p bid fb (ar, env) = (sres, al, ar', env')"
  shows "ledger ar'"
proof (cases sres)
  case (Inl e)
  then show ?thesis using store_batch_Inl(1)[OF assms(1)] assms(2) by blast
next
  case (Inr rn)
  then show ?thesis using store_batch_Inr(1)[OF assms(1)] assms(2) by (cases rn) blast
qed

lemma ingest_ledger:
  assumes "ledger ar" and "ingest parsers out w now content fmt filename ty ad (ar, env) = (res, al, ar', env')"
  shows "ledger ar'"
  using assms(2)
proof (cases rule: ingest_cases)
  case refused
  then show ?thesis using assms(1) by simp
next
  case (stored p bid ar1 sres)
  then show ?thesis using open_Inl_Inr[OF open_created[OF assms(1) stored(3)] stored(4)] by simp
qed

lemma write_group_ledger:
  assumes "ledger ar" and "write_group out w now es fmt ty ad v (ar, env) = (res, al, ar', env')"
  shows "ledger ar'"
  using assms(2)
proof (cases rule: write_group_cases)
  case refused
  then show ?thesis using assms(1) by simp
next
  case (stored bid ar1 sres)
  then show ?thesis using open_Inl_Inr[OF open_created[OF assms(1) stored(1)] stored(2)] by simp
qed

lemma ingest_Inr:
  assumes "ledger ar" and "ingest parsers out w now content fmt filename ty ad (ar, env) = (Inr u, al, ar', env')"
  obtains p bid ar1 r fb where "dict_get parsers fmt = Some p" "open_batch bid ar1" "ar_store ar1 = ar_store ar"
    "create_batch filename (Some (x_sha (w_ext w) content)) (dict_get vendor_of fmt) fmt ty ad now ar = (bid, ar1)"
    "fb = (case find_batch_by_sha (x_sha (w_ext w) content) ar of Some b \<Rightarrow> bt_uploaded_at b | None \<Rightarrow> now)"
    "store_batch out w (p content) bid fb (ar1, env) = (Inr (r, up_inserted u), al, ar', env')"
    "up_total u = wr_total r" "up_dropped u = wr_dropped r" "up_duplicates u = wr_total r - wr_dropped r - up_inserted u"
    "up_already_ingested u \<longleftrightarrow> find_batch_by_sha (x_sha (w_ext w) content) ar \<noteq> None" "up_batch_id u = bid"
  using assms(2)
proof (cases rule: ingest_cases)
  case (stored p bid ar1 sres)
  obtain r n where "sres = Inr (r, n)" using stored(5) by (auto split: sum.splits)
  then show ?thesis
    using that[OF stored(1) open_created[OF assms(1) stored(3)] create_batch_frame(3)[OF stored(3)] stored(3) refl] stored(4,5)
    by (auto simp: upload_summary_def)
qed simp

lemma ingest_accounts:
  assumes "ledger ar" and "ingest parsers out w now content fmt filename ty ad (ar, env) = (Inr u, al, ar', env')"
  shows "up_total u = up_inserted u + up_duplicates u + up_dropped u"
    and "length (st_rows (ar_store ar')) = length (st_rows (ar_store ar)) + up_inserted u"
proof -
  obtain p bid ar1 r fb where o: "open_batch bid ar1" and st: "ar_store ar1 = ar_store ar"
      and s: "store_batch out w (p content) bid fb (ar1, env) = (Inr (r, up_inserted u), al, ar', env')"
      and u: "up_total u = wr_total r" "up_dropped u = wr_dropped r" "up_duplicates u = wr_total r - wr_dropped r - up_inserted u"
    using ingest_Inr[OF assms] by metis
  show "up_total u = up_inserted u + up_duplicates u + up_dropped u"
    using store_batch_Inr(2)[OF o s] u by simp
  show "length (st_rows (ar_store ar')) = length (st_rows (ar_store ar)) + up_inserted u"
    using store_batch_Inr(6)[OF o s] st by simp
qed

lemma ingest_failed:
  assumes "ledger ar" and "ingest parsers out w now content fmt filename ty ad (ar, env) = (Inl e, al, ar', env')"
    and "out \<noteq> Late"
  shows "ar_store ar' = ar_store ar \<and> al = []"
  using assms(2)
proof (cases rule: ingest_cases)
  case (stored p bid ar1 sres)
  then obtain e1 where "sres = Inl e1" by (auto split: sum.splits)
  then show ?thesis
    using store_batch_Inl(2)[OF open_created[OF assms(1) stored(3)], of out] stored(4) create_batch_frame(3)[OF stored(3)] assms(3)
    by auto
qed simp

section \<open>Ingesting the same bytes again\<close>

text \<open>A rule that is not bound to a data model matches or not, whatever the caches hold.\<close>

definition unbound :: "ingest_action \<Rightarrow> bool" where
  "unbound a \<longleftrightarrow> rl_datamodels (ia_rule a) = []"

lemma match_rule_free:
  assumes "rl_datamodels r = []"
  shows "match_rule rx env r flat evt tags st = (fst (match_rule rx env r flat evt tags st2), st)"
  using assms by (simp add: match_rule_def split: sum.split bool.split)

lemma decide_fresh_unbound:
  "list_all unbound as \<Longrightarrow> decide_fresh x tags as e st applied errors = (d, e', st1) \<Longrightarrow>
     decide_fresh x tags as e st2 applied errors = (d, e', st2)"
proof (induction as arbitrary: e st st2 applied errors)
  case (Cons a as)
  have u: "rl_datamodels (ia_rule a) = []" "list_all unbound as" using Cons.prems(1) by (simp_all add: unbound_def[of a])
  obtain res where m: "match_rule (x_search x) (x_cim x) (ia_rule a) (flatten_event e) (Some (Fresh e)) tags st = (res, st)"
    and m2: "match_rule (x_search x) (x_cim x) (ia_rule a) (flatten_event e) (Some (Fresh e)) tags st2 = (res, st2)"
    using match_rule_free[OF u(1)] by (metis fst_conv)
  note ih = Cons.IH[OF u(2)]
  show ?case
    using Cons.prems(2) unfolding decide_fresh.simps Let_def m m2 prod.case
    by (auto intro: ih split: if_splits sum.splits bool.splits option.splits prod.splits)
qed simp

lemma index_apply_unbound:
  assumes "list_all unbound (ix_actions ix)" and "ix_actions ix2 = ix_actions ix"
    and "index_apply x ix e tags st = (d, e', st', ix')"
  shows "ix_actions ix' = ix_actions ix" and "\<exists>st2' ix2'. index_apply x ix2 e tags st2 = (d, e', st2', ix2')"
proof -
  show "ix_actions ix' = ix_actions ix" using assms(3) by (auto simp: index_apply_def split: if_splits prod.splits)
  show "\<exists>st2' ix2'. index_apply x ix2 e tags st2 = (d, e', st2', ix2')"
  proof (cases "ix_actions ix = []")
    case False
    then have "decide x (ix_actions ix) e tags st = (d, e', st')"
      using assms(3) by (auto simp: index_apply_def split: prod.splits)
    then have "decide x (ix_actions ix) e tags st2 = (d, e', st2)"
      using decide_fresh_unbound[OF assms(1)] by (simp add: decide_eq)
    then show ?thesis using False assms(2) by (simp add: index_apply_def)
  qed (use assms in \<open>simp add: index_apply_def\<close>)
qed

definition stored_event :: "outcome option \<Rightarrow> event option" where
  "stored_event = map_option oc_event"

text \<open>Which events are kept, and as what, depends on the rules, the parsers and the fallback time alone.\<close>

definition same_shaping :: "world \<Rightarrow> world \<Rightarrow> bool" where
  "same_shaping w w2 \<longleftrightarrow> w_ext w = w_ext w2 \<and> w_defs w = w_defs w2 \<and> w_fallback w = w_fallback w2"

lemma process_event_unbound:
  assumes "same_shaping w w2" and "list_all unbound (ix_actions (snd env))" and "ix_actions (snd env2) = ix_actions (snd env)"
    and "process_event w e env = (out, env')" and "process_event w2 e env2 = (out2, env2')"
  shows "stored_event out2 = stored_event out \<and> ix_actions (snd env') = ix_actions (snd env) \<and>
    ix_actions (snd env2') = ix_actions (snd env)"
proof -
  define e1 where "e1 = custom_apply (w_defs w) (apply_fallback_time (w_fallback w) e)"
  have w: "w_ext w2 = w_ext w" "custom_apply (w_defs w2) (apply_fallback_time (w_fallback w2) e) = e1"
    using assms(1) by (simp_all add: same_shaping_def e1_def)
  obtain d e2 cim ix where a: "index_apply (w_ext w) (snd env) e1 None (fst env) = (d, e2, cim, ix)"
    by (cases "index_apply (w_ext w) (snd env) e1 None (fst env)") auto
  obtain cim2 ix2 where a2: "index_apply (w_ext w) (snd env2) e1 None (fst env2) = (d, e2, cim2, ix2)"
    using index_apply_unbound(2)[OF assms(2,3) a] by blast
  have i: "ix_actions ix = ix_actions (snd env)" "ix_actions ix2 = ix_actions (snd env)"
    using index_apply_unbound(1)[OF assms(2,3) a] index_apply_unbound(1)[OF _ _ a2] assms(2,3) by simp_all
  obtain m c where m: "detect w e2 (resolve_tags w e2) cim = (m, c)" by fastforce
  obtain m2 c2 where m2: "detect w2 e2 (resolve_tags w2 e2) cim2 = (m2, c2)" by fastforce
  show ?thesis
    using assms(4,5) i
    unfolding process_event_def w e1_def[symmetric] Let_def a a2 prod.case m m2
    by (auto simp: stored_event_def split: if_splits)
qed

lemma process_all_unbound:
  "same_shaping w w2 \<Longrightarrow> list_all unbound (ix_actions (snd env)) \<Longrightarrow> ix_actions (snd env2) = ix_actions (snd env) \<Longrightarrow>
     process_all w es env = (outs, env') \<Longrightarrow> process_all w2 es env2 = (outs2, env2') \<Longrightarrow>
     map stored_event outs2 = map stored_event outs \<and> ix_actions (snd env') = ix_actions (snd env)"
proof (induction es arbitrary: env env2 outs outs2)
  case (Cons e es)
  obtain out env1 where o: "process_event w e env = (out, env1)" by (cases "process_event w e env")
  obtain out2 env21 where o2: "process_event w2 e env2 = (out2, env21)" by (cases "process_event w2 e env2")
  obtain os where os: "process_all w es env1 = (os, env')" "outs = out # os"
    using Cons.prems(4) o by (auto split: prod.splits)
  obtain os2 where os2: "process_all w2 es env21 = (os2, env2')" "outs2 = out2 # os2"
    using Cons.prems(5) o2 by (auto split: prod.splits)
  have s: "stored_event out2 = stored_event out" "ix_actions (snd env1) = ix_actions (snd env)"
      "ix_actions (snd env21) = ix_actions (snd env1)"
    using process_event_unbound[OF Cons.prems(1-3) o o2] by simp_all
  then show ?case using Cons.IH[OF Cons.prems(1) _ s(3) os(1) os2(1)] Cons.prems(2) os(2) os2(2) by simp
qed simp

lemma kept_events: "map oc_event (kept outs) = List.map_filter id (map stored_event outs)"
  by (induction outs) (auto simp: kept_def stored_event_def List.map_filter_def)

lemma key_oc_row: "row_key (oc_row w oc) = (dedup_hash (w_ext w) (oc_event oc), event_time (oc_event oc))"
  by (simp add: row_key_def oc_row_def event_row_def)

lemma insert_present: "row_key ` set rs \<subseteq> row_key ` set rows \<Longrightarrow> fold insert_row rs rows = rows"
  by (induction rs arbitrary: rows) (auto simp: insert_row_def)

text \<open>The archive after a batch that was stored: one more batch row, completed.\<close>

lemma completed_batch:
  assumes "ledger ar" and "create_batch fn sha v f ty ad now ar = (bid, ar1)"
    and "store_batch out w p bid fb (ar1, env) = (Inr (r, n), al, ar', env')"
  obtains b where "ar_batches ar' = ar_batches ar @ [finished r n b]" "bt_id b = bid" "bt_fmt b = f" "bt_sha b = sha"
    "bt_source_type b = ty" "bt_source_addr b = ad" "bt_uploaded_at b = now"
proof -
  have ids: "\<forall>b\<in>set (ar_batches ar). bt_id b \<noteq> bid"
    using assms(1) create_batch_frame(1)[OF assms(2)] by (auto simp: ledger_def archive_ok_def list_all_iff)
  obtain b where b: "ar_batches ar1 = ar_batches ar @ [b]" "bt_id b = bid" "bt_fmt b = f" "bt_sha b = sha"
      "bt_source_type b = ty" "bt_source_addr b = ad" "bt_uploaded_at b = now"
    using assms(2) by (auto simp: create_batch_def Let_def)
  obtain st' where "ar' = update_batch bid (finished r n) (ar1\<lparr>ar_store := st'\<rparr>)"
    using assms(3) by (cases rule: store_batch_cases) auto
  then have "ar_batches ar' = ar_batches ar @ [finished r n b]"
    using b ids by (auto simp: update_batch_def intro: map_idI)
  then show ?thesis using that b(2-) by blast
qed

text \<open>The one completed batch under a hash, right after the first upload.\<close>

lemma first_upload_found:
  assumes "ledger ar" and "find_batch_by_sha sha ar = None"
    and "create_batch fn (Some sha) v f ty ad now ar = (bid, ar1)"
    and "store_batch out w p bid fb (ar1, env) = (Inr (r, n), al, ar', env')"
  shows "\<exists>b. find_batch_by_sha sha ar' = Some b \<and> bt_uploaded_at b = now"
proof -
  obtain b where b: "ar_batches ar' = ar_batches ar @ [finished r n b]" "bt_sha b = Some sha" "bt_uploaded_at b = now"
    by (rule completed_batch[OF assms(1,3,4)])
  have none: "filter (\<lambda>b. bt_sha b = Some sha \<and> bt_status b = ''done'') (ar_batches ar) = []"
  proof (rule ccontr)
    assume "\<not> ?thesis"
    moreover have "latest bs = None \<longleftrightarrow> bs = []" for bs by (induction bs rule: latest.induct) (auto split: option.split)
    ultimately show False using assms(2) by (simp add: find_batch_by_sha_def)
  qed
  show ?thesis using b by (simp add: find_batch_by_sha_def none finished_def)
qed

lemma second_upload_adds_nothing:
  assumes "ledger ar" and "find_batch_by_sha (x_sha (w_ext w) content) ar = None"
    and one: "ingest parsers out w now content fmt fn1 ty1 ad1 (ar, env) = (Inr u1, al1, ar1, env1)"
    and later: "ledger arm" "set (st_rows (ar_store ar1)) \<subseteq> set (st_rows (ar_store arm))"
      "find_batch_by_sha (x_sha (w_ext w) content) arm = find_batch_by_sha (x_sha (w_ext w) content) ar1"
    and two: "ingest parsers out2 w2 now2 content fmt fn2 ty2 ad2 (arm, env2) = (Inr u2, al2, ar2, env3)"
    and w: "w_ext w2 = w_ext w" "w_defs w2 = w_defs w"
    and rules: "list_all unbound (ix_actions (snd env))" "ix_actions (snd env2) = ix_actions (snd env)"
  shows "up_inserted u2 = 0 \<and> st_rows (ar_store ar2) = st_rows (ar_store arm) \<and> up_already_ingested u2"
proof -
  let ?sha = "x_sha (w_ext w) content"
  obtain p bid a1 r where p: "dict_get parsers fmt = Some p" and o: "open_batch bid a1"
      and c: "create_batch fn1 (Some ?sha) (dict_get vendor_of fmt) fmt ty1 ad1 now ar = (bid, a1)"
      and s: "store_batch out w (p content) bid now (a1, env) = (Inr (r, up_inserted u1), al1, ar1, env1)"
    using ingest_Inr[OF assms(1) one] assms(2) by (metis option.simps(4))
  obtain b where b: "find_batch_by_sha ?sha arm = Some b" "bt_uploaded_at b = now"
    using first_upload_found[OF assms(1,2) c s] later(3) by metis
  obtain p2 bid2 a2 r2 fb2 where p2: "dict_get parsers fmt = Some p2" and o2: "open_batch bid2 a2" and st2: "ar_store a2 = ar_store arm"
      and fb2: "fb2 = (case find_batch_by_sha (x_sha (w_ext w2) content) arm of Some b \<Rightarrow> bt_uploaded_at b | None \<Rightarrow> now2)"
      and s2: "store_batch out2 w2 (p2 content) bid2 fb2 (a2, env2) = (Inr (r2, up_inserted u2), al2, ar2, env3)"
      and again: "up_already_ingested u2 \<longleftrightarrow> find_batch_by_sha (x_sha (w_ext w2) content) arm \<noteq> None"
    using ingest_Inr[OF later(1) two] by metis
  have same: "p2 = p" "fb2 = now" using p p2 fb2 b w(1) by simp_all
  let ?w = "w\<lparr>w_batch := bid, w_fallback := now\<rparr>" and ?w2 = "w2\<lparr>w_batch := bid2, w_fallback := now\<rparr>"
  have sh: "same_shaping ?w ?w2" using w by (simp add: same_shaping_def)
  obtain outs n1 where pa: "process_all ?w (fst (p content)) env = (outs, env1)"
      and wr: "wrote ?w (kept outs) (ar_store a1) (ar_store ar1) n1"
    using write_stream_by_Inr[OF store_batch_Inr(4)[OF o s, unfolded write_stream_def]] by metis
  obtain outs2 n2 where pa2: "process_all ?w2 (fst (p content)) env2 = (outs2, env3)"
      and wr2: "wrote ?w2 (kept outs2) (ar_store arm) (ar_store ar2) n2"
    using write_stream_by_Inr[OF store_batch_Inr(4)[OF o2 s2, unfolded write_stream_def st2 same]] by metis
  have ev: "map oc_event (kept outs2) = map oc_event (kept outs)"
    using process_all_unbound[OF sh rules pa pa2] by (simp add: kept_events)
  have "map (row_key \<circ> oc_row ?w2) (kept outs2) = map (row_key \<circ> oc_row ?w) (kept outs)"
  proof -
    have k: "map (row_key \<circ> oc_row v) ks = map (\<lambda>e. (dedup_hash (w_ext v) e, event_time e)) (map oc_event ks)" for v ks
      by (simp add: key_oc_row)
    show ?thesis unfolding k ev using w(1) by simp
  qed
  then have "row_key ` set (map (oc_row ?w2) (kept outs2)) = row_key ` set (map (oc_row ?w) (kept outs))"
    by (metis list.set_map map_map)
  moreover have "row_key ` set (map (oc_row ?w) (kept outs)) \<subseteq> row_key ` set (st_rows (ar_store arm))"
    using wr row_keys_fold[of "map (oc_row ?w) (kept outs)"] later(2) by (simp add: wrote_def) blast
  ultimately have rows: "st_rows (ar_store ar2) = st_rows (ar_store arm)"
    using wr2 insert_present[of "map (oc_row ?w2) (kept outs2)" "st_rows (ar_store arm)"] by (simp add: wrote_def)
  then show ?thesis using store_batch_Inr(6)[OF o2 s2] st2 again b(1) w(1) by simp
qed

section \<open>Any sequence of batches\<close>

datatype batch_request =
    Upload outage world int string string "string option" string "string option"
  | Group outage world int "event list" string string "string option" "string option"

definition serve ::
    "(string, parser) dict \<Rightarrow> batch_request \<Rightarrow> archive \<times> cim_state \<times> action_index \<Rightarrow> archive \<times> cim_state \<times> action_index" where
  "serve parsers q s =
     (case q of
        Upload out w now content fmt fn ty ad \<Rightarrow> snd (snd (ingest parsers out w now content fmt fn ty ad s))
      | Group out w now es fmt ty ad v \<Rightarrow> snd (snd (write_group out w now es fmt ty ad v s)))"

lemma serve_ledger: "ledger (fst s) \<Longrightarrow> ledger (fst (serve parsers q s))"
proof (cases q)
  case (Upload out w now content fmt fn ty ad)
  assume "ledger (fst s)"
  moreover obtain res al ar' env' where "ingest parsers out w now content fmt fn ty ad (fst s, snd s) = (res, al, ar', env')"
    by (cases "ingest parsers out w now content fmt fn ty ad (fst s, snd s)") auto
  ultimately show ?thesis using ingest_ledger Upload by (fastforce simp: serve_def)
next
  case (Group out w now es fmt ty ad v)
  assume "ledger (fst s)"
  moreover obtain res al ar' env' where "write_group out w now es fmt ty ad v (fst s, snd s) = (res, al, ar', env')"
    by (cases "write_group out w now es fmt ty ad v (fst s, snd s)") auto
  ultimately show ?thesis using write_group_ledger Group by (fastforce simp: serve_def)
qed

lemma serve_all_ledger: "ledger (fst s) \<Longrightarrow> ledger (fst (fold (serve parsers) qs s))"
  by (induction qs arbitrary: s) (simp_all add: serve_ledger)

text \<open>What a batch of other bytes leaves alone: the rows that are there and the batches of a hash.\<close>

definition grown :: "string \<Rightarrow> archive \<Rightarrow> archive \<Rightarrow> bool" where
  "grown sha ar ar' \<longleftrightarrow>
     ledger ar' \<and> set (st_rows (ar_store ar)) \<subseteq> set (st_rows (ar_store ar')) \<and>
     filter (\<lambda>b. bt_sha b = Some sha) (ar_batches ar') = filter (\<lambda>b. bt_sha b = Some sha) (ar_batches ar)"

lemma grown_found: "grown sha ar ar' \<Longrightarrow> find_batch_by_sha sha ar' = find_batch_by_sha sha ar"
proof -
  assume "grown sha ar ar'"
  then have "filter (\<lambda>b. bt_status b = ''done'') (filter (\<lambda>b. bt_sha b = Some sha) (ar_batches ar'))
      = filter (\<lambda>b. bt_status b = ''done'') (filter (\<lambda>b. bt_sha b = Some sha) (ar_batches ar))"
    by (simp add: grown_def)
  then show ?thesis by (simp add: find_batch_by_sha_def conj_commute)
qed

lemma store_batch_rows:
  assumes "store_batch out w p bid fb (ar, env) = (res, al, ar', env')"
  shows "set (st_rows (ar_store ar)) \<subseteq> set (st_rows (ar_store ar'))"
    and "ar_batches ar' = ar_batches ar \<or> (\<exists>f. (\<forall>b. bt_sha (f b) = bt_sha b) \<and> ar_batches ar' = ar_batches (update_batch bid f ar))"
proof -
  have rows: "set (st_rows (ar_store ar)) \<subseteq> set (st_rows st')"
    if "write_parsed (w\<lparr>w_batch := bid, w_fallback := fb\<rparr>) p (ar_store ar) env = (Inr (r, st'), env')" for r st'
    by (rule write_stream_appends[OF write_parsed_Inr(2)[OF that]]) auto
  show "set (st_rows (ar_store ar)) \<subseteq> set (st_rows (ar_store ar'))"
    using assms
  proof (cases rule: store_batch_cases)
    case (failed e)
    then show ?thesis by (elim disjE) simp_all
  next
    case (late r st')
    then show ?thesis using rows[OF late(5)] by simp
  next
    case (committed r st')
    then show ?thesis using rows[OF committed(4)] by simp
  qed
  show "ar_batches ar' = ar_batches ar \<or> (\<exists>f. (\<forall>b. bt_sha (f b) = bt_sha b) \<and> ar_batches ar' = ar_batches (update_batch bid f ar))"
    using assms
  proof (cases rule: store_batch_cases)
    case (failed e)
    have "\<forall>b. bt_sha (b\<lparr>bt_status := ''error''\<rparr>) = bt_sha b" by simp
    then show ?thesis using failed(3) unfolding failed_batch_def by blast
  next
    case (committed r st')
    let ?n = "count_batch_rows bid (ar\<lparr>ar_store := st'\<rparr>)"
    have "ar_batches ar' = ar_batches (update_batch bid (finished r ?n) ar)" using committed(3) by (simp add: update_batch_def)
    moreover have "\<forall>b. bt_sha (finished r ?n b) = bt_sha b" by (simp add: finished_def)
    ultimately show ?thesis by blast
  qed simp
qed

lemma grown_batch:
  assumes "ledger ar" "create_batch fn h v fmt ty ad up ar = (bid, ar1)" "h \<noteq> Some sha"
    and "store_batch out w p bid fb (ar1, env) = (res, al, ar', env')"
  shows "grown sha ar ar'"
proof -
  have c: "ar_store ar1 = ar_store ar" "bid = ar_next ar" using create_batch_frame[OF assms(2)] by simp_all
  have old: "bt_id b \<noteq> bid" if "b \<in> set (ar_batches ar)" for b
    using that assms(1) c(2) by (auto simp: ledger_def archive_ok_def list_all_iff)
  obtain b where b: "ar_batches ar1 = ar_batches ar @ [b]" "bt_sha b = h" "bt_id b = bid"
    using assms(2) by (auto simp: create_batch_def Let_def)
  have id: "map (\<lambda>b. if bt_id b = bid then f b else b) (ar_batches ar) = ar_batches ar" for f :: "batch \<Rightarrow> batch"
    by (rule map_idI) (simp add: old)
  have "filter (\<lambda>b. bt_sha b = Some sha) (ar_batches ar') = filter (\<lambda>b. bt_sha b = Some sha) (ar_batches ar)"
    using store_batch_rows(2)[OF assms(4)]
  proof
    assume "ar_batches ar' = ar_batches ar1"
    then show ?thesis using b assms(3) by simp
  next
    assume "\<exists>f. (\<forall>b. bt_sha (f b) = bt_sha b) \<and> ar_batches ar' = ar_batches (update_batch bid f ar1)"
    then obtain f where f: "bt_sha (f b) = bt_sha b" "ar_batches ar' = ar_batches ar @ [f b]"
      using b(1,3) id by (auto simp: update_batch_def)
    then show ?thesis using b assms(3) by simp
  qed
  then show ?thesis
    using store_batch_rows(1)[OF assms(4)] c(1) open_Inl_Inr[OF open_created[OF assms(1,2)] assms(4)] by (simp add: grown_def)
qed

text \<open>A request for other bytes.\<close>

definition other_bytes :: "string \<Rightarrow> batch_request \<Rightarrow> bool" where
  "other_bytes sha q \<longleftrightarrow>
     (case q of Upload out w now content fmt fn ty ad \<Rightarrow> x_sha (w_ext w) content \<noteq> sha | Group _ _ _ _ _ _ _ _ \<Rightarrow> True)"

lemma serve_grown:
  assumes "ledger (fst s)" "other_bytes sha q"
  shows "grown sha (fst s) (fst (serve parsers q s))"
proof -
  obtain ar env where s: "s = (ar, env)" by (cases s)
  have l: "ledger ar" using assms(1) s by simp
  then have same: "grown sha ar ar" by (simp add: grown_def)
  show ?thesis
  proof (cases q)
    case (Upload out w now content fmt fn ty ad)
    obtain res al ar' env' where i: "ingest parsers out w now content fmt fn ty ad (ar, env) = (res, al, ar', env')"
      by (cases "ingest parsers out w now content fmt fn ty ad (ar, env)") auto
    have "grown sha ar ar'" using i
    proof (cases rule: ingest_cases)
      case (stored p bid ar1 sres)
      then show ?thesis using grown_batch[OF l stored(3) _ stored(4)] assms(2) Upload by (simp add: other_bytes_def)
    qed (use same in simp)
    then show ?thesis using i s Upload by (simp add: serve_def)
  next
    case (Group out w now es fmt ty ad v)
    obtain res al ar' env' where g: "write_group out w now es fmt ty ad v (ar, env) = (res, al, ar', env')"
      by (cases "write_group out w now es fmt ty ad v (ar, env)") auto
    have "grown sha ar ar'" using g
    proof (cases rule: write_group_cases)
      case (stored bid ar1 sres)
      then show ?thesis using grown_batch[OF l stored(1) _ stored(2)] by simp
    qed (use same in simp)
    then show ?thesis using g s Group by (simp add: serve_def)
  qed
qed

lemma serve_all_grown:
  "ledger (fst s) \<Longrightarrow> list_all (other_bytes sha) qs \<Longrightarrow> grown sha (fst s) (fst (fold (serve parsers) qs s))"
proof (induction qs arbitrary: s)
  case (Cons q qs)
  have g: "grown sha (fst s) (fst (serve parsers q s))" using serve_grown Cons.prems by simp
  then have "grown sha (fst (serve parsers q s)) (fst (fold (serve parsers) qs (serve parsers q s)))"
    using Cons by (simp add: grown_def)
  then show ?case using g by (auto simp: grown_def)
qed (simp add: grown_def)

section \<open>A third upload\<close>

text \<open>A parser whose events carry no time, under rules that do nothing.\<close>

definition timeless_parsers :: "(string, parser) dict" where
  "timeless_parsers = [(''generic_json'', \<lambda>content. ([bare_event content], None))]"

definition plain_world :: world where
  "plain_world = demo_world\<lparr>w_registry := None, w_ueba := False\<rparr>"

definition empty_archive :: archive where
  "empty_archive = \<lparr>ar_store = demo_store, ar_batches = [], ar_next = 1\<rparr>"

definition upload_at :: "int \<Rightarrow> archive \<times> cim_state \<times> action_index \<Rightarrow>
    (py_error option + upload_result) \<times> alert_row list \<times> archive \<times> cim_state \<times> action_index" where
  "upload_at t = ingest timeless_parsers Up plain_world t ''fw'' ''generic_json'' None ''upload'' None"

definition three_uploads :: "(py_error option + upload_result) list" where
  "three_uploads =
     (let (r1, _, s1) = upload_at 10 (empty_archive, cim_init, action_index [] []);
          (r2, _, s2) = upload_at 20 s1;
          (r3, _, s3) = upload_at 30 s2
      in [r1, r2, r3])"

lemma empty_ledger: "ledger empty_archive"
  by (simp add: ledger_def archive_ok_def empty_archive_def demo_store_def)

lemma timeless_stream:
  "write_stream (plain_world\<lparr>w_batch := b, w_fallback := t\<rparr>) [bare_event v] st (cim_init, action_index [] []) =
     Inr (\<lparr>wr_total = 1, wr_alerts = [], wr_dropped = 0\<rparr>,
       st\<lparr>st_rows := insert_row (event_row (plain_world\<lparr>w_batch := b, w_fallback := t\<rparr>) (apply_fallback_time t (bare_event v), None)) (st_rows st)\<rparr>,
       cim_init, action_index [] [])"
  by (simp add: write_stream_def write_stream_by_def stream_step_def start_stream_def process_event_def plain_world_def
      demo_world_def index_apply_def index_size_def empty_index_def action_index_def Let_def keep_def resolve_tags_def detect_def
      raise_alerts_def flush_def insert_events_def insert_alerts_def chunk_rows_def castable_def split: option.split)

definition timeless_row :: "int \<Rightarrow> int \<Rightarrow> event_row" where
  "timeless_row b t = event_row (plain_world\<lparr>w_batch := b, w_fallback := t\<rparr>) (apply_fallback_time t (bare_event ''fw''), None)"

lemma timeless_upload:
  "upload_at t (ar, cim_init, action_index [] []) =
     (let prior = find_batch_by_sha ''fw'' ar;
          (bid, a1) = create_batch None (Some ''fw'') None ''generic_json'' ''upload'' None t ar;
          fb = (case prior of Some b \<Rightarrow> bt_uploaded_at b | None \<Rightarrow> t);
          r = \<lparr>wr_total = 1, wr_alerts = [], wr_dropped = 0\<rparr>;
          a2 = a1\<lparr>ar_store := (ar_store a1)\<lparr>st_rows := insert_row (timeless_row bid fb) (st_rows (ar_store a1))\<rparr>\<rparr>;
          n = count_batch_rows bid a2
      in (Inr (upload_summary bid None ''generic_json'' ''fw'' ''upload'' (prior \<noteq> None) r n), [],
          update_batch bid (finished r n) a2, cim_init, action_index [] []))"
proof -
  have x: "x_sha (w_ext plain_world) ''fw'' = ''fw''" by (simp add: plain_world_def demo_world_def demo_externals_def)
  have p: "parse_events timeless_parsers ''fw'' ''generic_json'' = Inr ([bare_event ''fw''], None)"
    by (simp add: parse_events_def timeless_parsers_def dict_get_def)
  have v: "dict_get vendor_of ''generic_json'' = None" by (simp add: vendor_of_def dict_get_def)
  show ?thesis
    by (simp add: upload_at_def ingest_def p x v Let_def store_batch_def write_parsed_def timeless_stream timeless_row_def
        split: prod.split)
qed

lemma timeless_upload_runs:
  "\<exists>u ar'. upload_at t (ar, cim_init, action_index [] []) = (Inr u, [], ar', cim_init, action_index [] [])"
  by (cases "create_batch None (Some ''fw'') None ''generic_json'' ''upload'' None t ar") (simp add: timeless_upload Let_def)

lemma timeless_row_simps [simp]: "er_batch_id (timeless_row b t) = b" "row_key (timeless_row b t) = row_key (timeless_row c u) \<longleftrightarrow> t = u"
  by (auto simp: timeless_row_def event_row_def row_key_def apply_fallback_time_def bare_event_def plain_world_def demo_world_def
      dedup_hash_def)

lemma three_uploads_counts:
  "map (map_sum id (\<lambda>u. (up_inserted u, up_duplicates u))) three_uploads = [Inr (1, 0), Inr (0, 1), Inr (1, 0)]"
  by (simp add: three_uploads_def timeless_upload empty_archive_def demo_store_def create_batch_def find_batch_by_sha_def
      update_batch_def finished_def count_batch_rows_def insert_row_def upload_summary_def)

section \<open>Properties\<close>

text \<open>C8: After any sequence of uploads and live groups, whatever the database refuses or breaks, the batch rows are a ledger: identifiers and row keys are unique, and every completed batch counts exactly the rows stored under it. A further upload that completes splits its total into inserted, duplicate and dropped events without a remainder, and adds exactly the inserted rows.\<close>

theorem batches_account_for_events:
  assumes "ledger (fst s)" and "fold (serve parsers) qs s = (ar, env)"
    and "ingest parsers out w now content fmt filename ty ad (ar, env) = (Inr u, al, ar', env')"
  shows "ledger ar' \<and> up_total u = up_inserted u + up_duplicates u + up_dropped u \<and>
    length (st_rows (ar_store ar')) = length (st_rows (ar_store ar)) + up_inserted u"
proof -
  have l: "ledger ar" using serve_all_ledger[OF assms(1), of parsers qs] assms(2) by simp
  show ?thesis using ingest_ledger[OF l assms(3)] ingest_accounts[OF l assms(3)] by blast
qed

theorem batches_account_for_events_witness:
  "\<exists>u al ar' env'. upload_at 30 (empty_archive, cim_init, action_index [] []) = (Inr u, al, ar', env') \<and> ledger ar' \<and>
     up_total u = up_inserted u + up_duplicates u + up_dropped u"
proof -
  let ?r = "upload_at 30 (empty_archive, cim_init, action_index [] [])"
  obtain u ar' env' where r: "?r = (Inr u, [], ar', env')" using timeless_upload_runs by blast
  have l: "ledger (fst (empty_archive, cim_init, action_index [] []))" by (simp add: empty_ledger)
  show ?thesis
    using batches_account_for_events[OF l, of timeless_parsers "[]" empty_archive "(cim_init, action_index [] [])"] r
    by (fastforce simp: upload_at_def)
qed

text \<open>C9: Uploading the same bytes again in the same format stores nothing and is reported as seen before, also when events carry no time, whatever uploads of other bytes and groups of live events were stored in between and whatever is detected now, provided the ingest rules, none of them bound to a data model, the custom parsers and the outside functions are those of the first upload, which was the first of these bytes. (Under changed rules the events may differ and are stored.)\<close>

theorem same_bytes_add_nothing:
  assumes "ledger ar" and "find_batch_by_sha (x_sha (w_ext w) content) ar = None"
    and "ingest parsers out w now content fmt fn1 ty1 ad1 (ar, env) = (Inr u1, al1, ar1, env1)"
    and "fold (serve parsers') qs (ar1, env1) = (arm, envm)" and "list_all (other_bytes (x_sha (w_ext w) content)) qs"
    and "ingest parsers out2 w2 now2 content fmt fn2 ty2 ad2 (arm, env2) = (Inr u2, al2, ar2, env3)"
    and "w_ext w2 = w_ext w" and "w_defs w2 = w_defs w"
    and "list_all unbound (ix_actions (snd env))" and "ix_actions (snd env2) = ix_actions (snd env)"
  shows "up_inserted u2 = 0 \<and> st_rows (ar_store ar2) = st_rows (ar_store arm) \<and> up_already_ingested u2"
proof -
  have "grown (x_sha (w_ext w) content) ar1 arm"
    using serve_all_grown[OF _ assms(5), of "(ar1, env1)" parsers'] ingest_ledger[OF assms(1,3)] assms(4) by simp
  then show ?thesis
    using second_upload_adds_nothing[OF assms(1-3) _ _ grown_found assms(6-10)] by (simp add: grown_def)
qed

theorem same_bytes_add_nothing_witness:
  "\<exists>u1 ar1 u2 ar2. upload_at 10 (empty_archive, cim_init, action_index [] []) = (Inr u1, [], ar1, cim_init, action_index [] []) \<and>
     upload_at 20 (ar1, cim_init, action_index [] []) = (Inr u2, [], ar2, cim_init, action_index [] []) \<and> up_inserted u2 = 0"
proof -
  let ?env = "(cim_init, action_index [] [])"
  obtain u1 ar1 where one: "upload_at 10 (empty_archive, ?env) = (Inr u1, [], ar1, ?env)"
    using timeless_upload_runs by blast
  obtain u2 ar2 where two: "upload_at 20 (ar1, ?env) = (Inr u2, [], ar2, ?env)"
    using timeless_upload_runs by blast
  have "find_batch_by_sha (x_sha (w_ext plain_world) ''fw'') empty_archive = None"
    by (simp add: find_batch_by_sha_def empty_archive_def)
  from same_bytes_add_nothing[OF empty_ledger this one[unfolded upload_at_def] _ _ two[unfolded upload_at_def] refl refl, of "[]" "[]"]
  show ?thesis using one two by (auto simp: action_index_def)
qed

text \<open>An upload that fails before its commit leaves the store as it was and dispatches no alert.\<close>

lemma failed_batch_stores_nothing:
  assumes "ledger ar" and "ingest parsers out w now content fmt filename ty ad (ar, env) = (Inl e, al, ar', env')" and "out \<noteq> Late"
  shows "ar_store ar' = ar_store ar \<and> al = []"
  using assms by (rule ingest_failed)

text \<open>The third upload of the same bytes stores an event without a time again: the fallback time is that of the latest earlier batch, not of the first.\<close>

lemma third_upload_stores_again:
  "map (map_sum id (\<lambda>u. (up_inserted u, up_duplicates u))) three_uploads = [Inr (1, 0), Inr (0, 1), Inr (1, 0)]"
  by (rule three_uploads_counts)

end
