(* ===== verification/Hec.thy ===== *)
theory Hec
  imports JsonRecords PyUtf8 Batches
begin

text \<open>
  The HEC endpoint (\<open>app/hec.py\<close>): the envelopes of a request body, the parser each of them is meant for, the
  batches they form, and the reply. One request runs from the headers and the chunks of its body to the batches
  that \<open>ingest\<close> stores. The lookup of an API key, gzip and the registered parsers are arguments; the names of
  the registered parsers are \<open>available\<close>. The log line of a refusal is left out.
\<close>

section \<open>Replies\<close>

definition hec_codes :: "(int \<times> int \<times> string) list" where
  "hec_codes =
     [(0, 200, ''Success''), (1, 403, ''Token disabled''), (2, 401, ''Token is required''),
      (3, 401, ''Invalid authorization''), (4, 403, ''Invalid token''), (5, 400, ''No data''),
      (6, 400, ''Invalid data format''), (8, 500, ''Internal server error''), (9, 503, ''Server is busy''),
      (12, 400, ''Event field is required''), (13, 400, ''Event field cannot be blank''),
      (14, 400, ''ACK is disabled''), (17, 200, ''HEC is healthy'')]"

text \<open>What a sender reads: the HTTP status, the code and the text of the body, and the ids of the batches in a header.\<close>

record reply =
  rp_status :: int
  rp_code :: int
  rp_text :: string
  rp_ids :: "int list option"
  rp_retry :: bool

definition hec_text :: "int \<Rightarrow> string" where
  "hec_text n = (case dict_get hec_codes n of Some (_, t) \<Rightarrow> t | None \<Rightarrow> ''Internal server error'')"

definition hec_status :: "int \<Rightarrow> int" where
  "hec_status n = (case dict_get hec_codes n of Some (s, _) \<Rightarrow> s | None \<Rightarrow> 500)"

definition answer :: "int \<Rightarrow> int option \<Rightarrow> reply" where
  "answer n status =
     \<lparr>rp_status = (case status of Some s \<Rightarrow> s | None \<Rightarrow> hec_status n), rp_code = n, rp_text = hec_text n,
      rp_ids = None, rp_retry = False\<rparr>"

section \<open>Tokens\<close>

definition partition_at :: "char \<Rightarrow> string \<Rightarrow> string \<times> string" where
  "partition_at c s = (takeWhile (\<lambda>x. x \<noteq> c) s, drop 1 (dropWhile (\<lambda>x. x \<noteq> c) s))"

definition hec_token :: "string option \<Rightarrow> string option" where
  "hec_token authorization =
     (case authorization of
        None \<Rightarrow> None
      | Some a \<Rightarrow>
          (let (scheme, rest) = partition_at (CHR '' '') (strip a) in
           if a = [] \<or> lower scheme \<noteq> ''splunk'' \<or> strip rest = [] then None else Some (strip rest)))"

definition authorize :: "(string \<Rightarrow> 'key option) \<Rightarrow> string option \<Rightarrow> string option \<Rightarrow> int + 'key" where
  "authorize verify authorization x_api_key =
     (let token = (case hec_token authorization of Some t \<Rightarrow> t
                   | None \<Rightarrow> (case x_api_key of Some k \<Rightarrow> strip k | None \<Rightarrow> [])) in
      if token = [] then Inl 2
      else (case verify token of None \<Rightarrow> Inl 4 | Some k \<Rightarrow> Inr k))"

section \<open>Envelopes\<close>

definition max_envelopes :: nat where "max_envelopes = 250000"

definition separator :: "char \<Rightarrow> bool" where "separator c \<longleftrightarrow> json_space c \<or> c = CHR '',''"

definition envelopes_of :: "pyval \<Rightarrow> record_dict list" where
  "envelopes_of v = (case v of VDict d \<Rightarrow> [d] | VList vs \<Rightarrow> dicts_of vs | _ \<Rightarrow> [])"

lemma resync_shorter: "t \<noteq> [] \<Longrightarrow> length t \<le> length s \<Longrightarrow> length (dropWhile P (tl t)) < length s"
  using length_dropWhile_le[of P "tl t"] by (cases t) auto

text \<open>The loop over the body; every turn goes on behind what it read, or at the next brace.\<close>

function envelope_loop :: "(string \<Rightarrow> string) \<Rightarrow> nat \<Rightarrow> nat \<Rightarrow> record_dict list \<Rightarrow> string \<Rightarrow> json_error + record_dict list" where
  "envelope_loop fl d limit out s =
     (let t = dropWhile separator s in
      if t = [] \<or> limit \<le> length out then Inr out
      else (case json_value fl d t of
              Inl TooDeep \<Rightarrow> Inl TooDeep
            | Inl _ \<Rightarrow>
                (let u = dropWhile (\<lambda>c. c \<noteq> CHR ''{'') (tl t) in
                 if u = [] then Inr out else envelope_loop fl d limit out u)
            | Inr (v, r) \<Rightarrow> envelope_loop fl d limit (out @ envelopes_of v) r))"
  by pat_completeness auto

termination
proof (relation "measure (\<lambda>(fl, d, limit, out, s). length s)", goal_cases)
  case (2 fl d limit out s t e)
  then show ?case using resync_shorter[of t s] by (simp add: length_dropWhile_le)
next
  case (3 fl d limit out s t e)
  then show ?case using resync_shorter[of t s] by (simp add: length_dropWhile_le)
next
  case (4 fl d limit out s t x v r)
  then have "length r < length t" using json_value_shorter by metis
  moreover have "length t \<le> length s" using 4(1) by (simp add: length_dropWhile_le)
  ultimately show ?case by simp
qed simp

declare envelope_loop.simps [simp del]

definition split_hec_envelopes :: "(string \<Rightarrow> string) \<Rightarrow> nat \<Rightarrow> nat \<Rightarrow> string \<Rightarrow> json_error + record_dict list" where
  "split_hec_envelopes fl d limit body =
     (let t = strip body in
      if t = [] \<or> exceeds_json_depth t max_json_depth then Inr []
      else sbind (envelope_loop fl d limit [] t) (\<lambda>out. Inr (take limit out)))"

definition meta_keys :: "string list" where "meta_keys = [''host'', ''source'', ''sourcetype'', ''index'']"

text \<open>\<open>value not in (None, "")\<close>.\<close>

definition given :: "pyval \<Rightarrow> bool" where "given v \<longleftrightarrow> v \<noteq> VNone \<and> v \<noteq> VStr []"

definition raw_envelopes :: "nat \<Rightarrow> record_dict \<Rightarrow> string \<Rightarrow> record_dict list" where
  "raw_envelopes limit params body =
     (let meta = fold (\<lambda>k m. if given (pv_get params k) then dict_set k (pv_get params k) m else m) (meta_keys @ [''time'']) [] in
      map (\<lambda>line. dict_set ''event'' (VStr line) meta) (take limit (filter (\<lambda>l. strip l \<noteq> []) (splitlines body))))"

definition parse_envelopes ::
    "(string \<Rightarrow> string) \<Rightarrow> nat \<Rightarrow> string \<Rightarrow> bool \<Rightarrow> record_dict \<Rightarrow> json_error + record_dict list \<times> bool" where
  "parse_envelopes fl d body raw_mode params =
     sbind (if raw_mode then Inr (raw_envelopes (Suc max_envelopes) params body)
            else split_hec_envelopes fl d (Suc max_envelopes) body)
       (\<lambda>envs. Inr (if max_envelopes < length envs then (take max_envelopes envs, True) else (envs, False)))"

section \<open>Routing\<close>

definition needs_json :: "string list" where
  "needs_json =
     [''aws_cloudtrail'', ''aws_guardduty'', ''aws_securityhub'', ''azure_activity'', ''crowdstrike_json'',
      ''defender_xdr'', ''entra_signin'', ''gcp_audit'', ''generic_json'', ''github_audit'', ''gitlab_audit'',
      ''m365_audit'', ''netflow'', ''okta_system_log'', ''rapid7'', ''suricata_eve'', ''sysmon'', ''tenable'',
      ''windows_security'', ''zeek_json'']"

definition needs_text :: "string list" where
  "needs_text =
     [''cef'', ''cisco_asa'', ''cisco_ftd'', ''cisco_ios'', ''crowdstrike_csv'', ''fortinet_fortigate'',
      ''generic_syslog'', ''leef'', ''linux_auditd'', ''meraki'', ''paloalto_csv'', ''paloalto_syslog'',
      ''qualys'', ''web_access'', ''zeek_tsv'']"

definition sourcetype_exact :: "(string \<times> string) list" where
  "sourcetype_exact =
     [(''json_suricata'', ''suricata_eve''), (''syslog'', ''generic_syslog''),
      (''rfc5424_syslog'', ''generic_syslog''), (''json'', ''generic_json''), (''_json'', ''generic_json''),
      (''json_no_timestamp'', ''generic_json''), (''azure:monitor:aad'', ''entra_signin''),
      (''azure:monitor:activitylog'', ''azure_activity''), (''auditd'', ''linux_auditd''),
      (''linux_secure'', ''generic_syslog''), (''linux_messages_syslog'', ''generic_syslog'')]"

definition sourcetype_prefixes :: "(string \<times> string) list" where
  "sourcetype_prefixes =
     [(''cisco:asa'', ''cisco_asa''), (''cisco:ftd'', ''cisco_ftd''), (''cisco:sourcefire'', ''cisco_ftd''),
      (''cisco:firepower'', ''cisco_ftd''), (''cisco:fmc'', ''cisco_ftd''), (''cisco:fwsm'', ''cisco_asa''),
      (''cisco:pix'', ''cisco_asa''), (''cisco:ios'', ''cisco_ios''), (''cisco:nxos'', ''cisco_ios''),
      (''cisco:nx-os'', ''cisco_ios''), (''cisco:meraki'', ''meraki''), (''meraki'', ''meraki''),
      (''pan:'', ''paloalto_syslog''), (''pan_'', ''paloalto_syslog''), (''paloalto'', ''paloalto_syslog''),
      (''palo_alto'', ''paloalto_syslog''), (''fgt_'', ''fortinet_fortigate''),
      (''fgt:'', ''fortinet_fortigate''), (''fortigate'', ''fortinet_fortigate''),
      (''fortinet'', ''fortinet_fortigate''), (''xmlwineventlog'', ''windows_security''),
      (''wineventlog'', ''windows_security''), (''windows:'', ''windows_security''),
      (''linux_audit'', ''linux_auditd''), (''access_'', ''web_access''), (''apache'', ''web_access''),
      (''nginx'', ''web_access''), (''suricata'', ''suricata_eve''), (''cef'', ''cef''), (''leef'', ''leef''),
      (''bro'', ''zeek_json''), (''zeek'', ''zeek_json''), (''aws:cloudtrail'', ''aws_cloudtrail''),
      (''aws:guardduty'', ''aws_guardduty''), (''aws:securityhub'', ''aws_securityhub''),
      (''aws:inspector'', ''aws_securityhub''), (''ms:defender'', ''defender_xdr''),
      (''ms365:defender'', ''defender_xdr''), (''mscs:defender'', ''defender_xdr''),
      (''microsoft:defender'', ''defender_xdr''), (''azure:defender'', ''defender_xdr''),
      (''defender'', ''defender_xdr''), (''qualys'', ''qualys''), (''tenable'', ''tenable''),
      (''nessus'', ''tenable''), (''rapid7'', ''rapid7''), (''insightvm'', ''rapid7''),
      (''nexpose'', ''rapid7''), (''netflow'', ''netflow''), (''ipfix'', ''netflow''),
      (''sflow'', ''netflow''), (''o365:'', ''m365_audit''), (''ms:o365'', ''m365_audit''),
      (''okta'', ''okta_system_log''), (''azure:aad'', ''entra_signin''), (''ms:aad'', ''entra_signin''),
      (''msaad'', ''entra_signin''), (''entra'', ''entra_signin''), (''azure:activity'', ''azure_activity''),
      (''mscs:azure'', ''azure_activity''), (''google:gcp'', ''gcp_audit''), (''gcp:'', ''gcp_audit''),
      (''github'', ''github_audit''), (''gitlab'', ''gitlab_audit''), (''crowdstrike'', ''crowdstrike_json''),
      (''nutanix:files'', ''nutanix_files''), (''nutanix'', ''nutanix_pc'')]"

definition sourcetype_contains :: "(string \<times> string) list" where
  "sourcetype_contains =
     [(''sysmon'', ''sysmon'')]"

text \<open>The format a sourcetype stands for, before it is looked up among the registered ones.\<close>

definition sourcetype_format :: "string \<Rightarrow> string option" where
  "sourcetype_format st =
     (case dict_get sourcetype_exact st of
        Some f \<Rightarrow> Some f
      | None \<Rightarrow>
          (case List.find (\<lambda>(n, _). sublist n st) sourcetype_contains of
             Some (_, f) \<Rightarrow> Some f
           | None \<Rightarrow> map_option snd (List.find (\<lambda>(p, _). prefix p st) sourcetype_prefixes)))"

definition format_for_sourcetype :: "string list \<Rightarrow> string option \<Rightarrow> pyval \<Rightarrow> string option" where
  "format_for_sourcetype available dflt sourcetype =
     (let st = lower (strip (pv_str sourcetype)) in
      if sourcetype = VNone \<or> st = [] then dflt
      else (case sourcetype_format st of
              None \<Rightarrow> dflt
            | Some f \<Rightarrow> if f \<in> set available then Some f else dflt))"

definition looks_json :: "string \<Rightarrow> bool" where
  "looks_json s \<longleftrightarrow> (case lstrip s of [] \<Rightarrow> False | c # _ \<Rightarrow> c = CHR ''{'' \<or> c = CHR ''['')"

section \<open>One envelope\<close>

definition envelope_record :: "record_dict \<Rightarrow> record_dict \<Rightarrow> string option \<Rightarrow> record_dict" where
  "envelope_record env base msg =
     (let r1 = (case pv_get env ''fields'' of
                  VDict fs \<Rightarrow> foldl (\<lambda>r (k, v). dict_setdefault k v r) base fs | _ \<Rightarrow> base);
          r2 = fold (\<lambda>k r. if given (pv_get env k) then dict_set k (pv_get env k) r else r) meta_keys r1;
          r3 = (if given (pv_get env ''time'') then dict_set ''time'' (pv_get env ''time'') r2 else r2) in
      case msg of Some m \<Rightarrow> dict_set ''message'' (VStr m) r3 | None \<Rightarrow> r3)"

definition json_line :: "record_dict \<Rightarrow> string" where "json_line r = json_text (VDict r)"

text \<open>The text of an event that is not an object.\<close>

definition event_text :: "pyval \<Rightarrow> string" where
  "event_text e = (case e of VNone \<Rightarrow> [] | VStr s \<Rightarrow> s | VList vs \<Rightarrow> json_text (VList vs) | _ \<Rightarrow> pv_str e)"

definition envelope_entry :: "string list \<Rightarrow> record_dict \<Rightarrow> (string \<times> string) option" where
  "envelope_entry available env =
     (case pv_get env ''event'' of
        VDict ev \<Rightarrow>
          (let fmt = the (format_for_sourcetype available (Some ''generic_json'') (pv_get env ''sourcetype'')) in
           Some (if fmt \<in> set needs_text then ''generic_json'' else fmt, json_line (envelope_record env ev None)))
      | e \<Rightarrow>
          (let t = event_text e in
           if strip t = [] then
             (case pv_get env ''fields'' of
                VDict fs \<Rightarrow> if fs \<noteq> [] then Some (''generic_json'', json_line (envelope_record env [] None)) else None
              | _ \<Rightarrow> None)
           else
             (case format_for_sourcetype available None (pv_get env ''sourcetype'') of
                Some f \<Rightarrow>
                  if (if looks_json t then f \<notin> set needs_text else f \<notin> set needs_json) then Some (f, t)
                  else Some (''generic_json'', json_line (envelope_record env [] (Some t)))
              | None \<Rightarrow> Some (''generic_json'', json_line (envelope_record env [] (Some t))))))"

section \<open>Batches of a request\<close>

definition group_entry :: "(string, string list) dict \<Rightarrow> string \<times> string \<Rightarrow> (string, string list) dict" where
  "group_entry groups e = dict_set (fst e) ((case dict_get groups (fst e) of None \<Rightarrow> [] | Some ls \<Rightarrow> ls) @ [snd e]) groups"

definition group_envelopes :: "string list \<Rightarrow> record_dict list \<Rightarrow> (string \<times> string) list" where
  "group_envelopes available envs =
     map (\<lambda>(f, ls). (f, join [CHR 10] ls)) (foldl group_entry [] (List.map_filter (envelope_entry available) envs))"

text \<open>\<open>_store\<close>: each batch at its own moment, in its own state of the database.\<close>

fun hec_store ::
    "(string, parser) dict \<Rightarrow> (nat \<Rightarrow> outage \<times> world \<times> int) \<Rightarrow> nat \<Rightarrow> string option \<Rightarrow> (string \<times> string) list
       \<Rightarrow> archive \<times> cim_state \<times> action_index
       \<Rightarrow> (py_error option + upload_result list) \<times> alert_row list \<times> archive \<times> cim_state \<times> action_index" where
  "hec_store parsers moments k addr [] s = (Inr [], [], s)"
| "hec_store parsers moments k addr ((fmt, content) # bs) s =
     (case moments k of (out, w, now) \<Rightarrow>
       (case ingest parsers out w now content fmt None ''hec'' addr s of
          (Inl e, al, s') \<Rightarrow> (Inl e, al, s')
        | (Inr u, al, s') \<Rightarrow>
            (case hec_store parsers moments (Suc k) addr bs s' of
               (Inl e, al', s'') \<Rightarrow> (Inl e, al @ al', s'')
             | (Inr us, al', s'') \<Rightarrow> (Inr (u # us), al @ al', s''))))"

section \<open>A request\<close>

text \<open>\<open>_read_body_capped\<close>.\<close>

fun read_body_capped :: "nat \<Rightarrow> nat \<Rightarrow> string list \<Rightarrow> string option" where
  "read_body_capped limit sofar [] = Some []"
| "read_body_capped limit sofar (c # cs) =
     (if limit < sofar + length c then None
      else map_option (\<lambda>r. c @ r) (read_body_capped limit (sofar + length c) cs))"

text \<open>\<open>gunzip_capped\<close>; the argument reads at most so many bytes of a gzip stream, or fails.\<close>

definition looks_gzip :: "string \<Rightarrow> bool" where "looks_gzip s = prefix (map char_at [31, 139]) s"

definition gunzip_capped :: "(string \<Rightarrow> nat \<Rightarrow> string option) \<Rightarrow> string \<Rightarrow> nat \<Rightarrow> string option" where
  "gunzip_capped gz s limit =
     (if \<not> looks_gzip s then Some s
      else (case gz s (Suc limit) of None \<Rightarrow> None | Some out \<Rightarrow> if limit < length out then None else Some out))"

text \<open>The text of the body, or the code of the refusal with its status.\<close>

definition collect_body :: "(string \<Rightarrow> nat \<Rightarrow> string option) \<Rightarrow> nat \<Rightarrow> string list \<Rightarrow> (int \<times> int option) + string" where
  "collect_body gz max_upload_mb chunks =
     (let cap = max_upload_mb * 1024 * 1024 in
      case read_body_capped cap 0 chunks of
        None \<Rightarrow> Inl (6, Some 413)
      | Some body \<Rightarrow>
          (case gunzip_capped gz body cap of
             None \<Rightarrow> Inl (6, Some 413)
           | Some bytes \<Rightarrow> (let t = utf8_replace bytes in if strip t = [] then Inl (5, None) else Inr t)))"

record hec_request =
  rq_authorization :: "string option"
  rq_api_key :: "string option"
  rq_chunks :: "string list"
  rq_params :: record_dict
  rq_raw :: bool
  rq_client :: "string option"

record 'key hec_env =
  he_verify :: "string \<Rightarrow> 'key option"
  he_gz :: "string \<Rightarrow> nat \<Rightarrow> string option"
  he_max_upload_mb :: nat
  he_float :: "string \<Rightarrow> string"
  he_stack :: nat
  he_parsers :: "(string, parser) dict"
  he_moments :: "nat \<Rightarrow> outage \<times> world \<times> int"

text \<open>\<open>_handle\<close>. The exception of the reader, outside the \<open>try\<close>, leaves the handler.\<close>

definition hec_handle ::
    "'key hec_env \<Rightarrow> hec_request \<Rightarrow> archive \<times> cim_state \<times> action_index
       \<Rightarrow> (json_error + reply) \<times> alert_row list \<times> archive \<times> cim_state \<times> action_index" where
  "hec_handle env rq s =
     (case authorize (he_verify env) (rq_authorization rq) (rq_api_key rq) of
        Inl n \<Rightarrow> (Inr (answer n None), [], s)
      | Inr _ \<Rightarrow>
          (case collect_body (he_gz env) (he_max_upload_mb env) (rq_chunks rq) of
             Inl (n, status) \<Rightarrow> (Inr (answer n status), [], s)
           | Inr body \<Rightarrow>
               (case parse_envelopes (he_float env) (he_stack env) body (rq_raw rq) (rq_params rq) of
                  Inl e \<Rightarrow> (Inl e, [], s)
                | Inr (envs, truncated) \<Rightarrow>
                    if truncated then (Inr ((answer 9 None)\<lparr>rp_retry := True\<rparr>), [], s)
                    else if \<not> rq_raw rq \<and> envs = [] then (Inr (answer 6 None), [], s)
                    else
                      (let batches = group_envelopes (map fst (he_parsers env)) envs in
                       if batches = [] then (Inr (answer 12 None), [], s)
                       else
                         (case hec_store (he_parsers env) (he_moments env) 0 (rq_client rq) batches s of
                            (Inl _, al, s') \<Rightarrow> (Inr (answer 8 None), al, s')
                          | (Inr us, al, s') \<Rightarrow> (Inr ((answer 0 None)\<lparr>rp_ids := Some (map up_batch_id us)\<rparr>), al, s'))))))"

definition hec_health :: reply where "hec_health = answer 17 None"
definition hec_ack :: reply where "hec_ack = answer 14 None"

end
