(* ===== verification/HecFacts.thy ===== *)
theory HecFacts
  imports Hec
begin

text \<open>
  What the HEC endpoint guarantees: a body of written envelopes is read back, an acknowledgement covers every
  envelope of the request, every format gets its lines in order, and no parser is handed a payload of the
  wrong shape. It also shows a body that gets past the guard against deep nesting, and documents that are
  acknowledged and lost.
\<close>

section \<open>Reading envelopes\<close>

lemma separator_value_end: "separator c \<Longrightarrow> value_end (c # r)"
  by (auto simp: separator_def json_space_def value_end_def is_digit_def code_def)

lemma brace_no_separator [simp]: "\<not> separator (CHR ''{'')"
  by (simp add: separator_def json_space_def)

lemma loop_step:
  assumes "\<not> separator c"
  shows "envelope_loop fl d limit out (c # s) =
     (if limit \<le> length out then Inr out
      else (case json_value fl d (c # s) of
              Inl e \<Rightarrow> (if e = TooDeep then Inl TooDeep
                         else (let u = dropWhile (\<lambda>c. c \<noteq> CHR ''{'') s in if u = [] then Inr out else envelope_loop fl d limit out u))
            | Inr (v, r) \<Rightarrow> envelope_loop fl d limit (out @ envelopes_of v) r))"
proof -
  have d: "dropWhile separator (c # s) = c # s" using assms by simp
  show ?thesis
  proof (cases "json_value fl d (c # s)")
    case (Inl e)
    then show ?thesis by (subst envelope_loop.simps, unfold d) (cases e, simp_all)
  next
    case (Inr vr)
    then show ?thesis by (subst envelope_loop.simps, unfold d) (cases vr, simp)
  qed
qed

lemma json_line_brace: "\<exists>cs. json_line e = CHR ''{'' # cs"
  by (simp add: json_line_def)

text \<open>What stands behind an envelope: nothing, a separator, or the next one.\<close>

definition after_envelope :: "string \<Rightarrow> bool" where
  "after_envelope r \<longleftrightarrow> r = [] \<or> separator (hd r) \<or> hd r = CHR ''{''"

lemma after_envelope_end: "after_envelope r \<Longrightarrow> value_end r"
  using separator_value_end by (cases r) (auto simp: after_envelope_def value_end_def is_digit_def code_def)

definition writable :: "(string \<Rightarrow> string) \<Rightarrow> nat \<Rightarrow> record_dict \<Rightarrow> bool" where
  "writable fl d e \<longleftrightarrow> json_ok fl (VDict e) \<and> json_depth (VDict e) \<le> d"

lemma loop_takes_envelope:
  assumes "writable fl d e" "list_all separator sep" "after_envelope r"
  shows "envelope_loop fl d limit out (sep @ json_line e @ r)
     = (if limit \<le> length out then Inr out else envelope_loop fl d limit (out @ [e]) r)"
proof -
  obtain cs where c: "json_line e = CHR ''{'' # cs" using json_line_brace by blast
  have "dropWhile separator (sep @ json_line e @ r) = json_line e @ r"
    using assms(2) c by (induction sep) simp_all
  moreover have "json_value fl d (json_line e @ r) = Inr (VDict e, r)"
    using json_value_text[OF _ _ after_envelope_end[OF assms(3)], of fl "VDict e" d] assms(1)
    unfolding writable_def json_line_def by (simp only: simp_thms)
  ultimately show ?thesis using c by (subst envelope_loop.simps) (simp add: envelopes_of_def)
qed

definition written_body :: "(string \<times> record_dict) list \<Rightarrow> string" where
  "written_body xs = concat (map (\<lambda>(sep, e). sep @ json_line e) xs)"

lemma after_written: "list_all (\<lambda>(sep, e). list_all separator sep) xs \<Longrightarrow> after_envelope (written_body xs)"
proof (cases xs)
  case (Cons x ys)
  assume "list_all (\<lambda>(sep, e). list_all separator sep) xs"
  then show ?thesis using Cons by (cases x; cases "fst x") (auto simp: written_body_def after_envelope_def json_line_def)
qed (simp add: written_body_def after_envelope_def)

lemma loop_reads_written:
  assumes "list_all (\<lambda>(sep, e). list_all separator sep \<and> writable fl d e) xs"
  shows "envelope_loop fl d limit out (written_body xs) = Inr (out @ take (limit - length out) (map snd xs))"
  using assms
proof (induction xs arbitrary: out)
  case Nil
  show ?case by (subst envelope_loop.simps) (simp add: written_body_def)
next
  case (Cons x xs)
  obtain sep e where x: "x = (sep, e)" by (cases x)
  have "list_all (\<lambda>(sep, e). list_all separator sep) xs" using Cons.prems by (auto simp: list_all_iff)
  note after = after_written[OF this]
  have w: "written_body (x # xs) = sep @ json_line e @ written_body xs" by (simp add: written_body_def x)
  have ok: "writable fl d e" "list_all separator sep" using Cons.prems x by simp_all
  have ih: "envelope_loop fl d limit (out @ [e]) (written_body xs)
      = Inr ((out @ [e]) @ take (limit - length (out @ [e])) (map snd xs))"
    by (rule Cons.IH) (use Cons.prems in simp)
  show ?case
  proof (cases "limit \<le> length out")
    case True
    then show ?thesis using loop_takes_envelope[OF ok after] w by simp
  next
    case False
    then have "limit - length out = Suc (limit - Suc (length out))" by simp
    then show ?thesis using loop_takes_envelope[OF ok after] w ih False x by simp
  qed
qed

lemma strip_solid:
  assumes "s \<noteq> []" "\<not> is_space (hd s)" "\<not> is_space (last s)"
  shows "strip s = s"
proof -
  have "dropWhile is_space s = s" using assms(1,2) by (cases s) auto
  moreover have "dropWhile is_space (rev s) = rev s" using assms(1,3) by (cases s rule: rev_cases) auto
  ultimately show ?thesis by (simp add: strip_def rstrip_def lstrip_def)
qed

lemma json_line_ends: "json_line e \<noteq> [] \<and> hd (json_line e) = CHR ''{'' \<and> last (json_line e) = CHR ''}''"
  by (simp add: json_line_def)

lemma written_body_strip:
  assumes "xs \<noteq> []" "fst (hd xs) = []"
  shows "strip (written_body xs) = written_body xs"
proof (rule strip_solid)
  have b: "\<not> is_space (CHR ''{'')" "\<not> is_space (CHR ''}'')" by (simp_all add: is_space_def code_def)
  obtain e ys where x: "xs = ([], e) # ys" using assms by (cases xs) auto
  then have w: "written_body xs = json_line e @ written_body ys" by (simp add: written_body_def)
  then show "written_body xs \<noteq> []" using json_line_ends[of e] by simp
  show "\<not> is_space (hd (written_body xs))" using w json_line_ends[of e] b(1) by simp
  obtain zs sep f where z: "xs = zs @ [(sep, f)]" using assms(1) by (cases xs rule: rev_cases) auto
  then have "last (written_body xs) = CHR ''}''" using json_line_ends[of f] by (simp add: written_body_def)
  then show "\<not> is_space (last (written_body xs))" using b(2) by simp
qed

lemma separator_neutral: "separator c \<Longrightarrow> neutral c"
  by (auto simp: neutral_def separator_def json_space_def)

lemma written_body_shallow:
  assumes "list_all (\<lambda>(sep, e). list_all separator sep \<and> writable fl limit e) xs"
  shows "\<not> deeper limit Plain 0 (written_body xs)"
  using assms
proof (induction xs)
  case (Cons x xs)
  obtain sep e where x: "x = (sep, e)" by (cases x)
  have ok: "list_all separator sep" "json_ok fl (VDict e)" "json_depth (VDict e) \<le> limit"
    using Cons.prems by (simp_all add: x writable_def del: json_ok.simps json_depth.simps)
  have "list_all neutral sep" using ok(1) separator_neutral by (simp add: list_all_iff)
  then have "deeper limit Plain 0 (written_body (x # xs)) = deeper limit Plain 0 (json_line e @ written_body xs)"
    using deeper_neutral[of sep limit 0 "json_line e @ written_body xs"] by (simp add: written_body_def x)
  also have "\<dots> = deeper limit Plain 0 (written_body xs)"
    unfolding json_line_def by (rule deeper_text[OF ok(2)]) (use ok(3) in simp)
  finally show ?case using Cons by simp
qed (simp add: written_body_def)

lemma split_reads_written:
  assumes "xs \<noteq> []" "fst (hd xs) = []" "max_json_depth \<le> d"
    and "list_all (\<lambda>(sep, e). list_all separator sep \<and> writable fl max_json_depth e) xs"
  shows "split_hec_envelopes fl d limit (written_body xs) = Inr (take limit (map snd xs))"
proof -
  have "list_all (\<lambda>(sep, e). list_all separator sep \<and> writable fl d e) xs"
    using assms(3,4) by (force simp: list_all_iff writable_def)
  note read = loop_reads_written[OF this, of limit "[]"]
  have "written_body xs \<noteq> []" using assms(1,2) json_line_ends by (cases xs) (auto simp: written_body_def)
  then show ?thesis
    using written_body_strip[OF assms(1,2)] written_body_shallow[OF assms(4)] read
    by (simp add: split_hec_envelopes_def exceeds_json_depth_def)
qed

text \<open>A stretch that cannot be read costs itself: the loop goes on at the next brace.\<close>

lemma loop_skips_noise:
  assumes "\<not> separator c" "CHR ''{'' \<notin> set g" "json_value fl d (c # g @ CHR ''{'' # r) = Inl e" "e \<noteq> TooDeep"
    and "length out < limit"
  shows "envelope_loop fl d limit out (c # g @ CHR ''{'' # r) = envelope_loop fl d limit out (CHR ''{'' # r)"
proof -
  have "dropWhile (\<lambda>x. x \<noteq> CHR ''{'') (g @ CHR ''{'' # r) = CHR ''{'' # r"
    using assms(2) by (induction g) auto
  moreover have "\<not> limit \<le> length out" using assms(5) by simp
  ultimately show ?thesis
    unfolding loop_step[OF assms(1), of fl d limit out "g @ CHR ''{'' # r"] assms(3)
    by (simp only: assms(4) sum.case if_False Let_def list.distinct)
qed

section \<open>The guard can be defeated\<close>

text \<open>One stray quote makes the guard take every brace for part of a text, and the reader recovers behind it.\<close>

definition nested :: "nat \<Rightarrow> string" where "nested n = concat (replicate n [CHR ''{'', CHR 34, CHR ''a'', CHR 34, CHR '':''])"
definition bomb :: "nat \<Rightarrow> string" where "bomb n = CHR 34 # nested n"

lemma bomb_shallow: "\<not> deeper limit InText k (nested n) \<and> \<not> deeper limit InText k (CHR '':'' # nested n)"
proof (induction n)
  case (Suc n)
  have "nested (Suc n) = [CHR ''{'', CHR 34, CHR ''a'', CHR 34, CHR '':''] @ nested n" by (simp add: nested_def)
  then show ?case using Suc by simp
qed (simp add: nested_def)

lemma nested_too_deep: "json_value fl d (nested (Suc d) @ r) = Inl TooDeep"
proof (induction d arbitrary: r)
  case (Suc d)
  have n: "nested (Suc (Suc d)) = [CHR ''{'', CHR 34, CHR ''a'', CHR 34, CHR '':''] @ nested (Suc d)"
    by (simp add: nested_def)
  have b: "jws (nested (Suc d) @ r) = nested (Suc d) @ r" by (simp add: nested_def jws_def json_space_def)
  have s: "json_string (CHR ''a'' # CHR 34 # t) = Some (''a'', t)" for t by (simp add: prepend_def code_def)
  show ?case using Suc[of r] b unfolding n by (simp add: s prepend_def code_def)
qed (simp add: nested_def)

lemma bomb_explodes: "split_hec_envelopes fl d (Suc limit) (bomb (Suc (Suc d))) = Inl TooDeep"
proof -
  obtain m where n: "nested (Suc d) = CHR ''{'' # m" by (simp add: nested_def)
  define t where "t = CHR ''a'' # CHR 34 # CHR '':'' # nested (Suc d)"
  have e: "bomb (Suc (Suc d)) = CHR 34 # CHR ''{'' # CHR 34 # t" by (simp add: bomb_def nested_def t_def)
  have last: "last (nested (Suc d)) = CHR '':''" by (induction d) (simp_all add: nested_def)
  have s: "strip (bomb (Suc (Suc d))) = bomb (Suc (Suc d))"
  proof (rule strip_solid)
    show "\<not> is_space (last (bomb (Suc (Suc d))))" using last n by (simp add: e t_def is_space_def code_def)
  qed (simp_all add: e is_space_def code_def)
  have g: "\<not> exceeds_json_depth (bomb (Suc (Suc d))) max_json_depth"
    using bomb_shallow[of max_json_depth 0 "Suc (Suc d)"] by (simp add: exceeds_json_depth_def bomb_def)
  have flat: "json_value fl d (c # x) = json_scalar fl (c # x)" if "c = CHR 34 \<or> c = CHR ''a''" for c x
    using that by (cases d) auto
  have one: "json_value fl d (CHR 34 # CHR ''{'' # CHR 34 # t) = Inr (VStr ''{'', t)"
    by (simp add: flat json_scalar_def prepend_def code_def)
  have two: "json_value fl d t = Inl Malformed"
    by (simp add: t_def flat json_scalar_def constants_def json_number_def number_integer_def is_digit_def code_def)
  have three: "json_value fl d (CHR ''{'' # m) = Inl TooDeep" using nested_too_deep[of fl d "[]"] n by simp
  have sep: "\<not> separator (CHR 34)" "\<not> separator (CHR ''a'')" by (simp_all add: separator_def json_space_def)
  have "envelope_loop fl d (Suc limit) [] (CHR 34 # CHR ''{'' # CHR 34 # t) = envelope_loop fl d (Suc limit) [] t"
    using loop_step[OF sep(1), of fl d "Suc limit" "[]"] one by (simp add: envelopes_of_def)
  also have "\<dots> = envelope_loop fl d (Suc limit) [] (CHR ''{'' # m)"
    using loop_step[OF sep(2), of fl d "Suc limit" "[]"] two n unfolding t_def by simp
  also have "\<dots> = Inl TooDeep" using loop_step[of "CHR ''{''" fl d "Suc limit" "[]" m] three by simp
  finally show ?thesis using s g unfolding e by (simp add: split_hec_envelopes_def)
qed

section \<open>Groups\<close>











section \<open>Routing\<close>

lemma tables_apart: "set needs_text \<inter> set needs_json = {}"
  by (simp add: needs_text_def needs_json_def)

lemma format_available:
  "format_for_sourcetype available dflt st = Some f \<Longrightarrow> f \<in> set available \<or> dflt = Some f"
  by (auto simp: format_for_sourcetype_def Let_def split: if_splits option.splits)

lemma format_total: "\<exists>f. format_for_sourcetype available (Some g) st = Some f"
  by (auto simp: format_for_sourcetype_def Let_def split: option.splits)

lemma looks_json_line: "looks_json (json_line r)"
  by (simp add: looks_json_def json_line_def lstrip_def is_space_def code_def)

definition readable :: "string \<Rightarrow> string \<Rightarrow> bool" where
  "readable f l \<longleftrightarrow> (if looks_json l then f \<notin> set needs_text else f \<notin> set needs_json)"

lemma generic_json_readable: "''generic_json'' \<notin> set needs_text"
  by (simp add: needs_text_def)

lemma entry_readable:
  assumes "envelope_entry available env = Some (f, l)"
  shows "readable f l \<and> (f \<in> set available \<or> f = ''generic_json'')"
proof (cases "\<exists>ev. pv_get env ''event'' = VDict ev")
  case True
  then obtain ev where ev: "pv_get env ''event'' = VDict ev" by blast
  obtain g where g: "format_for_sourcetype available (Some ''generic_json'') (pv_get env ''sourcetype'') = Some g"
    using format_total by blast
  then have "f = (if g \<in> set needs_text then ''generic_json'' else g)" "l = json_line (envelope_record env ev None)"
    using assms ev by (simp_all add: envelope_entry_def Let_def)
  then show ?thesis using format_available[OF g] generic_json_readable looks_json_line by (auto simp: readable_def)
next
  case False
  let ?t = "event_text (pv_get env ''event'')" and ?g = "format_for_sourcetype available None (pv_get env ''sourcetype'')"
  have "f = ''generic_json'' \<and> looks_json l \<or>
      (?g = Some f \<and> l = ?t \<and> (if looks_json ?t then f \<notin> set needs_text else f \<notin> set needs_json))"
    using assms False looks_json_line
    by (cases "pv_get env ''event''") (auto simp: envelope_entry_def Let_def split: if_splits option.splits pyval.splits)
  then show ?thesis using generic_json_readable format_available[of available None] by (auto simp: readable_def)
qed

section \<open>Batches read back\<close>



















text \<open>No prefix is shadowed by one that is tried before it.\<close>

lemma no_dead_prefix: "sorted_wrt (\<lambda>p q. \<not> prefix (fst p) (fst q)) sourcetype_prefixes"
  by code_simp

section \<open>Acknowledgements\<close>

text \<open>
  A completed batch row that describes the bytes of one group of a request: its format, the hash of its text,
  its sender, the moment it was stored, and as many events as the parser of the format yields for the text.
\<close>

definition describes ::
    "(string, parser) dict \<Rightarrow> outage \<times> world \<times> int \<Rightarrow> string option \<Rightarrow> string \<times> string \<Rightarrow> batch \<Rightarrow> bool" where
  "describes parsers m addr g b \<longleftrightarrow>
     (case (m, g) of ((_, w, now), fmt, content) \<Rightarrow>
        bt_fmt b = fmt \<and> bt_sha b = Some (x_sha (w_ext w) content) \<and> bt_source_type b = ''hec'' \<and>
        bt_source_addr b = addr \<and> bt_uploaded_at b = now \<and> bt_status b = ''done'' \<and>
        (case dict_get parsers fmt of None \<Rightarrow> False | Some p \<Rightarrow> bt_total b = int (length (fst (p content)))))"

lemma ingest_describes:
  assumes "ledger ar" and "ingest parsers out w now content fmt None ''hec'' addr (ar, env) = (Inr u, al, ar', env')"
  obtains b where "ar_batches ar' = ar_batches ar @ [b]" "bt_id b = up_batch_id u"
    "describes parsers (out, w, now) addr (fmt, content) b" "bt_inserted b = int (up_inserted u)"
proof -
  obtain p bid ar1 r fb where p: "dict_get parsers fmt = Some p" and o: "open_batch bid ar1" and id: "up_batch_id u = bid"
      and c: "create_batch None (Some (x_sha (w_ext w) content)) (dict_get vendor_of fmt) fmt ''hec'' addr now ar = (bid, ar1)"
      and s: "store_batch out w (p content) bid fb (ar1, env) = (Inr (r, up_inserted u), al, ar', env')"
    using ingest_Inr[OF assms] by metis
  obtain b where "ar_batches ar' = ar_batches ar @ [finished r (up_inserted u) b]" and b: "bt_id b = bid" "bt_fmt b = fmt"
      "bt_sha b = Some (x_sha (w_ext w) content)" "bt_source_type b = ''hec''" "bt_source_addr b = addr" "bt_uploaded_at b = now"
    by (rule completed_batch[OF assms(1) c s])
  moreover have "describes parsers (out, w, now) addr (fmt, content) (finished r (up_inserted u) b)"
    using b p store_batch_Inr(3)[OF o s] by (simp add: describes_def finished_def)
  ultimately show ?thesis using that[of "finished r (up_inserted u) b"] b id by (simp add: finished_def)
qed

text \<open>What storing the groups of a request adds to the archive.\<close>

definition recorded ::
    "(string, parser) dict \<Rightarrow> (nat \<Rightarrow> outage \<times> world \<times> int) \<Rightarrow> nat \<Rightarrow> string option \<Rightarrow> (string \<times> string) list \<Rightarrow> batch list \<Rightarrow> bool" where
  "recorded parsers moments k addr gs bs \<longleftrightarrow>
     length bs = length gs \<and> (\<forall>i<length gs. describes parsers (moments (k + i)) addr (gs ! i) (bs ! i))"

lemma recorded_Cons [simp]:
  "recorded parsers moments k addr (g # gs) (b # bs) \<longleftrightarrow>
     describes parsers (moments k) addr g b \<and> recorded parsers moments (Suc k) addr gs bs"
  by (auto simp: recorded_def less_Suc_eq_0_disj)

lemma hec_store_ledger:
  assumes "ledger (fst s)" "hec_store parsers moments k addr gs s = (res, al, s')"
  shows "ledger (fst s') \<and> (\<forall>us. res = Inr us \<longrightarrow> (\<exists>bs. ar_batches (fst s') = ar_batches (fst s) @ bs \<and>
    map up_batch_id us = map bt_id bs \<and> recorded parsers moments k addr gs bs \<and>
    int (db_rows s') = int (db_rows s) + sum_list (map bt_inserted bs)))"
  using assms
proof (induction gs arbitrary: k s res al s')
  case Nil
  then show ?case by (auto simp: recorded_def)
next
  case (Cons g gs)
  obtain fmt content where g: "g = (fmt, content)" by (cases g)
  obtain out w now where m: "moments k = (out, w, now)" by (cases "moments k") auto
  obtain ar env where s: "s = (ar, env)" by (cases s)
  obtain r al1 ar1 env1 where i: "ingest parsers out w now content fmt None ''hec'' addr (ar, env) = (r, al1, ar1, env1)"
    by (cases "ingest parsers out w now content fmt None ''hec'' addr (ar, env)") auto
  have l0: "ledger ar" using Cons.prems(1) s by simp
  have l: "ledger ar1" by (rule ingest_ledger[OF l0 i])
  show ?case
  proof (cases r)
    case (Inl e)
    then show ?thesis using Cons.prems(2) m s i l g by auto
  next
    case (Inr u)
    obtain b where b: "ar_batches ar1 = ar_batches ar @ [b]" "bt_id b = up_batch_id u"
        "describes parsers (moments k) addr g b" "bt_inserted b = int (up_inserted u)"
      using ingest_describes[OF l0 i[unfolded Inr]] m g by metis
    have rows: "db_rows (ar1, env1) = db_rows s + up_inserted u"
      using ingest_accounts(2)[OF l0 i[unfolded Inr]] s by (simp add: db_rows_def)
    obtain r2 al2 s2 where h: "hec_store parsers moments (Suc k) addr gs (ar1, env1) = (r2, al2, s2)"
      by (cases "hec_store parsers moments (Suc k) addr gs (ar1, env1)") auto
    note ih = Cons.IH[OF _ h, unfolded fst_conv, OF l]
    show ?thesis
    proof (cases r2)
      case (Inl e)
      then show ?thesis using Cons.prems(2) m s i g \<open>r = Inr u\<close> h ih by auto
    next
      case (Inr us)
      then have res: "res = Inr (u # us)" "s' = s2" using Cons.prems(2) m s i g \<open>r = Inr u\<close> h by auto
      obtain bs where "ar_batches (fst s2) = ar_batches ar1 @ bs" "map up_batch_id us = map bt_id bs"
          "recorded parsers moments (Suc k) addr gs bs" "int (db_rows s2) = int (db_rows (ar1, env1)) + sum_list (map bt_inserted bs)"
        using ih Inr by blast
      then show ?thesis using ih res b rows s by (auto intro!: exI[of _ "b # bs"])
    qed
  qed
qed

text \<open>The counts of a completed batch are those of the table.\<close>

lemma ledger_batch:
  "ledger ar \<Longrightarrow> b \<in> set (ar_batches ar) \<Longrightarrow> bt_status b = ''done'' \<Longrightarrow> adds_up b \<and> bt_inserted b = int (count_batch_rows (bt_id b) ar)"
  by (simp add: ledger_def counts_rows_def list_all_iff)

lemma describes_done: "describes parsers m addr g b \<Longrightarrow> bt_status b = ''done''"
  by (simp add: describes_def split: prod.splits)

lemma recorded_done: "recorded parsers moments k addr gs bs \<Longrightarrow> list_all (\<lambda>b. bt_status b = ''done'') bs"
  by (auto simp: recorded_def list_all_length intro: describes_done)

text \<open>The outcomes of a request, by what they leave behind.\<close>

lemma hec_handle_cases:
  assumes "hec_handle env rq s = (res, al, s')"
  obtains (refused) "al = []" "s' = s" "\<forall>rp. res = Inr rp \<longrightarrow> rp_code rp \<noteq> 0"
  | (stored) body envs r where
      "collect_body (he_gz env) (he_max_upload_mb env) (rq_chunks rq) = Inr body"
      "parse_envelopes (he_float env) (he_stack env) body (rq_raw rq) (rq_params rq) = Inr (envs, False)"
      "group_envelopes (map fst (he_parsers env)) envs \<noteq> []"
      "hec_store (he_parsers env) (he_moments env) 0 (rq_client rq) (group_envelopes (map fst (he_parsers env)) envs) s = (r, al, s')"
      "res = Inr (case r of Inl _ \<Rightarrow> answer 8 None | Inr us \<Rightarrow> (answer 0 None)\<lparr>rp_ids := Some (map up_batch_id us)\<rparr>)"
proof (cases "authorize (he_verify env) (rq_authorization rq) (rq_api_key rq)")
  case (Inl n)
  have "n \<noteq> 0" using Inl by (auto simp: authorize_def Let_def split: option.splits if_splits)
  then show ?thesis using refused assms Inl by (auto simp: hec_handle_def answer_def)
next
  case key: (Inr k)
  show ?thesis
  proof (cases "collect_body (he_gz env) (he_max_upload_mb env) (rq_chunks rq)")
    case (Inl ns)
    then have "fst ns \<noteq> 0" by (auto simp: collect_body_def Let_def split: option.splits if_splits)
    then show ?thesis using refused assms key Inl by (cases ns) (auto simp: hec_handle_def answer_def)
  next
    case body: (Inr body)
    let ?p = "parse_envelopes (he_float env) (he_stack env) body (rq_raw rq) (rq_params rq)"
    show ?thesis
    proof (cases ?p)
      case (Inl e)
      then show ?thesis using refused assms key body by (auto simp: hec_handle_def)
    next
      case (Inr et)
      obtain envs truncated where et: "et = (envs, truncated)" by (cases et)
      let ?b = "group_envelopes (map fst (he_parsers env)) envs"
      show ?thesis
      proof (cases "truncated \<or> (\<not> rq_raw rq \<and> envs = []) \<or> ?b = []")
        case True
        then show ?thesis using refused assms key body Inr et
          by (auto simp: hec_handle_def answer_def Let_def split: if_splits)
      next
        case False
        obtain r al1 s1 where h: "hec_store (he_parsers env) (he_moments env) 0 (rq_client rq) ?b s = (r, al1, s1)"
          by (cases "hec_store (he_parsers env) (he_moments env) 0 (rq_client rq) ?b s") auto
        then have "res = Inr (case r of Inl _ \<Rightarrow> answer 8 None | Inr us \<Rightarrow> (answer 0 None)\<lparr>rp_ids := Some (map up_batch_id us)\<rparr>)
            \<and> al1 = al \<and> s1 = s'"
          using assms key body Inr et False by (cases r) (auto simp: hec_handle_def Let_def)
        then show ?thesis using stored[OF body _ _ _] Inr et False h by auto
      qed
    qed
  qed
qed

text \<open>The rows of a request that was acknowledged, as the table holds them.\<close>

definition settled :: "archive \<Rightarrow> batch \<Rightarrow> bool" where
  "settled ar b \<longleftrightarrow> adds_up b \<and> bt_inserted b = int (count_batch_rows (bt_id b) ar)"

lemma acknowledged:
  assumes "ledger (fst s)" "hec_handle env rq s = (Inr rp, al, s')"
  shows "ledger (fst s') \<and> (rp_code rp \<notin> {0, 8} \<longrightarrow> s' = s \<and> al = []) \<and>
    (rp_code rp = 0 \<longrightarrow> (\<exists>body envs bs.
       collect_body (he_gz env) (he_max_upload_mb env) (rq_chunks rq) = Inr body \<and>
       parse_envelopes (he_float env) (he_stack env) body (rq_raw rq) (rq_params rq) = Inr (envs, False) \<and>
       ar_batches (fst s') = ar_batches (fst s) @ bs \<and> rp_ids rp = Some (map bt_id bs) \<and>
       recorded (he_parsers env) (he_moments env) 0 (rq_client rq) (group_envelopes (map fst (he_parsers env)) envs) bs \<and>
       list_all (settled (fst s')) bs \<and>
       int (db_rows s') = int (db_rows s) + sum_list (map bt_inserted bs)))"
  using assms(2)
proof (cases rule: hec_handle_cases)
  case refused
  then show ?thesis using assms(1) by simp
next
  case (stored body envs r)
  note l = hec_store_ledger[OF assms(1) stored(4)]
  show ?thesis
  proof (cases r)
    case (Inl e)
    then have "rp_code rp = 8" using stored(5) by (simp add: answer_def)
    then show ?thesis using l by simp
  next
    case (Inr us)
    then have rp: "rp = (answer 0 None)\<lparr>rp_ids := Some (map up_batch_id us)\<rparr>" using stored(5) by simp
    then have c: "rp_code rp = 0" "rp_ids rp = Some (map up_batch_id us)" by (simp_all add: answer_def)
    obtain bs where bs: "ar_batches (fst s') = ar_batches (fst s) @ bs" "map up_batch_id us = map bt_id bs"
        "recorded (he_parsers env) (he_moments env) 0 (rq_client rq) (group_envelopes (map fst (he_parsers env)) envs) bs"
        "int (db_rows s') = int (db_rows s) + sum_list (map bt_inserted bs)"
      using l Inr by blast
    have "list_all (settled (fst s')) bs"
      using recorded_done[OF bs(3)] ledger_batch[OF conjunct1[OF l]] bs(1) by (simp add: list_all_iff settled_def)
    then show ?thesis using l bs c stored(1,2) by auto
  qed
qed

text \<open>With an accepted key, such a body makes the handler raise.\<close>

lemma bomb_raises:
  assumes "authorize (he_verify env) (rq_authorization rq) (rq_api_key rq) = Inr k" "\<not> rq_raw rq"
    and "collect_body (he_gz env) (he_max_upload_mb env) (rq_chunks rq) = Inr (bomb (Suc (Suc (he_stack env))))"
  shows "hec_handle env rq s = (Inl TooDeep, [], s)"
  using assms bomb_explodes[of "he_float env" "he_stack env" max_envelopes]
  by (simp add: hec_handle_def parse_envelopes_def)

lemma bomb_passes_guard: "\<not> exceeds_json_depth (bomb n) max_json_depth"
  using bomb_shallow[of max_json_depth 0 n] by (simp add: exceeds_json_depth_def bomb_def)

section \<open>Samples\<close>

definition pretty_event :: string where
  "pretty_event = [CHR ''{'', CHR 10, CHR 34, CHR ''a'', CHR 34, CHR '':'', CHR ''1'', CHR 10, CHR ''}'']"

definition pretty_envelope :: record_dict where
  "pretty_envelope = [(''sourcetype'', VStr ''_json''), (''event'', VStr pretty_event)]"

definition demo_record :: record_dict where
  "demo_record = [(''event'', VDict [(''user'', VStr ''eve''), (''n'', VInt (- 12))]), (''time'', VInt 1700000000)]"

lemma demo_writable: "writable (\<lambda>t. t) max_json_depth demo_record"
  by code_simp

lemma pretty_grouped: "group_envelopes [''generic_json''] [pretty_envelope, pretty_envelope]
   = [(''generic_json'', pretty_event @ CHR 10 # pretty_event)]"
  by code_simp

lemma pretty_records:
  "iter_json_records (\<lambda>t. t) 3 [] pretty_event = ([[(''a'', VInt 1)]], None)"
  "iter_json_records (\<lambda>t. t) 3 [] (pretty_event @ CHR 10 # pretty_event) = ([], None)"
  by code_simp+




definition demo_request :: hec_request where
  "demo_request = \<lparr>rq_authorization = Some ''Splunk s3cret'', rq_api_key = None, rq_chunks = [json_line demo_record],
     rq_params = [], rq_raw = False, rq_client = None\<rparr>"

definition demo_hec :: "unit hec_env" where
  "demo_hec = \<lparr>he_verify = (\<lambda>t. if t = ''s3cret'' then Some () else None), he_gz = (\<lambda>_ _. None), he_max_upload_mb = 1,
     he_float = (\<lambda>t. t), he_stack = 100, he_parsers = timeless_parsers,
     he_moments = (\<lambda>_. (Up, plain_world, 0))\<rparr>"

lemma demo_ingest:
  "\<exists>u s'. ingest timeless_parsers Up plain_world 0 c ''generic_json'' None ''hec'' addr
     (empty_archive, cim_init, action_index [] []) = (Inr u, [], s')"
proof -
  have "parse_events timeless_parsers c ''generic_json'' = Inr ([bare_event c], None)"
    by (simp add: parse_events_def timeless_parsers_def dict_get_def)
  then show ?thesis
    by (simp add: ingest_def Let_def store_batch_def write_parsed_def timeless_stream split: prod.split)
qed

lemma demo_authorized: "authorize (he_verify demo_hec) (rq_authorization demo_request) (rq_api_key demo_request) = Inr ()"
  by code_simp

lemma demo_body: "collect_body (he_gz demo_hec) (he_max_upload_mb demo_hec) (rq_chunks demo_request) = Inr (json_line demo_record)"
proof -
  have "utf8_text (json_line demo_record)" and "length (json_line demo_record) < 100" and "\<not> looks_gzip (json_line demo_record)"
    and "strip (json_line demo_record) \<noteq> []" by code_simp+
  then show ?thesis
    by (simp add: collect_body_def demo_hec_def demo_request_def gunzip_capped_def utf8_replace_text)
qed

lemma demo_envelopes:
  "parse_envelopes (he_float demo_hec) (he_stack demo_hec) (json_line demo_record) (rq_raw demo_request) (rq_params demo_request)
     = Inr ([demo_record], False)"
  using split_reads_written[of "[([], demo_record)]" 100 "\<lambda>t. t" "Suc max_envelopes"] demo_writable
  by (simp add: parse_envelopes_def demo_hec_def demo_request_def written_body_def max_json_depth_def max_envelopes_def)

lemma demo_acknowledged:
  "\<exists>rp al s'. hec_handle demo_hec demo_request (empty_archive, cim_init, action_index [] []) = (Inr rp, al, s') \<and> rp_code rp = 0"
proof -
  have "\<exists>c. group_envelopes (map fst (he_parsers demo_hec)) [demo_record] = [(''generic_json'', c)]"
  proof -
    have "map fst (group_envelopes (map fst (he_parsers demo_hec)) [demo_record]) = [''generic_json'']" by code_simp
    then show ?thesis by (cases "group_envelopes (map fst (he_parsers demo_hec)) [demo_record]") auto
  qed
  then obtain c where g: "group_envelopes (map fst (he_parsers demo_hec)) [demo_record] = [(''generic_json'', c)]" by blast
  obtain u s' where i: "ingest timeless_parsers Up plain_world 0 c ''generic_json'' None ''hec'' (rq_client demo_request)
     (empty_archive, cim_init, action_index [] []) = (Inr u, [], s')" using demo_ingest by blast
  have p: "he_parsers demo_hec = timeless_parsers" and m: "he_moments demo_hec 0 = (Up, plain_world, 0)" by (simp_all add: demo_hec_def)
  show ?thesis
    unfolding hec_handle_def demo_authorized sum.case demo_body demo_envelopes prod.case g p[unfolded p]
    by (cases s') (simp add: m i[unfolded p] answer_def p g[unfolded p])
qed

section \<open>Properties\<close>

text \<open>C13: A body of envelopes, each written as a JSON object of at most a hundred levels, is read back as exactly these envelopes in order, up to the limit, whether they stand back to back or are separated by any blanks, line breaks and commas.\<close>

theorem envelopes_read_back:
  assumes "xs \<noteq> []" and "fst (hd xs) = []" and "max_json_depth \<le> d"
    and "list_all (\<lambda>(sep, e). list_all separator sep \<and> writable fl max_json_depth e) xs"
  shows "split_hec_envelopes fl d limit (written_body xs) = Inr (take limit (map snd xs))"
  using assms by (rule split_reads_written)

theorem envelopes_read_back_witness:
  "split_hec_envelopes (\<lambda>t. t) 100 5 (written_body [([], demo_record), ('', '', demo_record), ([], demo_record)])
     = Inr [demo_record, demo_record, demo_record]"
proof -
  have s: "list_all separator '', ''" by code_simp
  have "max_json_depth \<le> 100" by (simp add: max_json_depth_def)
  from envelopes_read_back[OF _ _ this, of "[([], demo_record), ('', '', demo_record), ([], demo_record)]" "\<lambda>t. t" 5]
    s demo_writable show ?thesis by simp
qed

text \<open>C14: A request that is acknowledged was read to its end, and the archive gained exactly one completed batch for each of its groups, in order: the row names the group's format and the hash of its text, the request's client and the moment of the store, it counts as many events as the format's parser yields for that text, its counts add up and agree with the events table, and the ids in the reply are the ids of these rows. The table grew by their inserted rows and no others. Every other reply, apart from the one for an internal error, leaves the archive as it was.\<close>

theorem acknowledgement_covers_request:
  assumes "ledger (fst s)" and "hec_handle env rq s = (Inr rp, al, s')"
  shows "ledger (fst s') \<and> (rp_code rp \<notin> {0, 8} \<longrightarrow> s' = s \<and> al = []) \<and>
    (rp_code rp = 0 \<longrightarrow> (\<exists>body envs bs.
       collect_body (he_gz env) (he_max_upload_mb env) (rq_chunks rq) = Inr body \<and>
       parse_envelopes (he_float env) (he_stack env) body (rq_raw rq) (rq_params rq) = Inr (envs, False) \<and>
       ar_batches (fst s') = ar_batches (fst s) @ bs \<and> rp_ids rp = Some (map bt_id bs) \<and>
       recorded (he_parsers env) (he_moments env) 0 (rq_client rq) (group_envelopes (map fst (he_parsers env)) envs) bs \<and>
       list_all (settled (fst s')) bs \<and>
       int (db_rows s') = int (db_rows s) + sum_list (map bt_inserted bs)))"
  using assms by (rule acknowledged)

theorem acknowledgement_covers_request_witness:
  "\<exists>rp al s'. hec_handle demo_hec demo_request (empty_archive, cim_init, action_index [] []) = (Inr rp, al, s') \<and>
     rp_code rp = 0 \<and> rp_ids rp = Some (map bt_id (ar_batches (fst s'))) \<and> list_all (settled (fst s')) (ar_batches (fst s'))"
proof -
  obtain rp al s' where h: "hec_handle demo_hec demo_request (empty_archive, cim_init, action_index [] []) = (Inr rp, al, s')"
    and c: "rp_code rp = 0" using demo_acknowledged by blast
  have "ledger (fst (empty_archive, cim_init, action_index [] []))" by (simp add: empty_ledger)
  moreover have "ar_batches (fst (empty_archive, cim_init, action_index [] [])) = []" by (simp add: empty_archive_def)
  ultimately show ?thesis using acknowledgement_covers_request[OF _ h] h c by (metis append_Nil)
qed



text \<open>A body that opens with one stray quote passes the guard at any depth, while the reader recovers behind it and runs out of stack, so an authorized request raises instead of being answered.\<close>

lemma stray_quote_defeats_guard:
  assumes "authorize (he_verify env) (rq_authorization rq) (rq_api_key rq) = Inr k" "\<not> rq_raw rq"
    and "collect_body (he_gz env) (he_max_upload_mb env) (rq_chunks rq) = Inr (bomb (Suc (Suc (he_stack env))))"
  shows "\<not> exceeds_json_depth (bomb (Suc (Suc (he_stack env)))) max_json_depth \<and> hec_handle env rq s = (Inl TooDeep, [], s)"
  using bomb_raises[OF assms] bomb_passes_guard by blast

text \<open>Two events that are pretty-printed JSON documents form one batch whose content is no JSON document and has no line that is one: the reader finds no record, while each alone gives its record.\<close>

lemma batched_pretty_documents_are_lost:
  "group_envelopes [''generic_json''] [pretty_envelope, pretty_envelope] = [(''generic_json'', pretty_event @ CHR 10 # pretty_event)] \<and>
   iter_json_records (\<lambda>t. t) 3 [] (pretty_event @ CHR 10 # pretty_event) = ([], None) \<and>
   iter_json_records (\<lambda>t. t) 3 [] pretty_event = ([[(''a'', VInt 1)]], None)"
  using pretty_grouped pretty_records by simp

end
