(* ===== verification/IngestQueue.thy ===== *)
theory IngestQueue
  imports Batches "HOL-Library.Multiset"
begin

text \<open>
  The live ingest queue (\<open>app/streaming.py\<close>) as a labelled transition system: receivers submit items to a
  bounded queue, workers collect them and flush groups of events into batches when a buffer is full or
  old, and \<open>stop\<close> cancels the workers. A step is what happens between two points at which an \<open>await\<close> may
  switch tasks. Each step shows what became of events: accepted, rejected, stored, counted as lost, or
  abandoned, and how many rows the store gained by a write, whatever the write reported.

  The database may fail at any write (\<^typ>\<open>outage\<close>); world and time of a write are part of its label, since
  rules may be reloaded in between. The length of the flush interval is left out: a waiting worker with a
  buffer may time out at any moment.
\<close>

section \<open>Items and groups\<close>

record item =
  it_events :: "event list"
  it_fmt :: string
  it_source_type :: string
  it_source_addr :: "string option"
  it_vendor :: "string option"

type_synonym source_key = "string \<times> string \<times> string option \<times> string option"

definition item_key :: "item \<Rightarrow> source_key" where
  "item_key i = (it_fmt i, it_source_type i, it_source_addr i, it_vendor i)"

definition add_item :: "(source_key, event list) dict \<Rightarrow> item \<Rightarrow> (source_key, event list) dict" where
  "add_item groups i =
     dict_set (item_key i) ((case dict_get groups (item_key i) of None \<Rightarrow> [] | Some es \<Rightarrow> es) @ it_events i) groups"

definition group_items :: "item list \<Rightarrow> (source_key, event list) dict" where
  "group_items items = foldl add_item [] items"

section \<open>The queue and its workers\<close>

record queue_stats =
  qs_received :: nat
  qs_dropped :: nat
  qs_written :: nat
  qs_flush_errors :: nat
  qs_events_lost :: nat

text \<open>A flush is under way because the buffer is full, because it is old, or because the worker was cancelled.\<close>

datatype cause = Size | Age | Drain

datatype activity = Collecting | Flushing cause "(source_key \<times> event list) list" | Stopped

record worker =
  wk_buf :: "item list"
  wk_count :: nat
  wk_activity :: activity

record ingest_queue =
  iq_maxsize :: int
  iq_flush_max :: nat
  iq_items :: "item list"
  iq_workers :: "worker list"
  iq_stats :: queue_stats
  iq_db :: "archive \<times> cim_state \<times> action_index"

definition idle_worker :: worker where
  "idle_worker = \<lparr>wk_buf = [], wk_count = 0, wk_activity = Collecting\<rparr>"

definition new_queue :: "int \<Rightarrow> int \<Rightarrow> int \<Rightarrow> archive \<times> cim_state \<times> action_index \<Rightarrow> ingest_queue" where
  "new_queue maxsize workers flush_max db =
     \<lparr>iq_maxsize = maxsize, iq_flush_max = nat (max flush_max 1), iq_items = [],
      iq_workers = replicate (nat (max workers 1)) idle_worker,
      iq_stats = \<lparr>qs_received = 0, qs_dropped = 0, qs_written = 0, qs_flush_errors = 0, qs_events_lost = 0\<rparr>,
      iq_db = db\<rparr>"

text \<open>\<open>asyncio.Queue.full\<close>: a bound that is not positive is none.\<close>

definition queue_full :: "ingest_queue \<Rightarrow> bool" where
  "queue_full q \<longleftrightarrow> 0 < iq_maxsize q \<and> iq_maxsize q \<le> int (length (iq_items q))"

definition submit :: "item \<Rightarrow> ingest_queue \<Rightarrow> bool \<times> ingest_queue" where
  "submit i q =
     (if queue_full q
      then (False, q\<lparr>iq_stats := (iq_stats q)\<lparr>qs_dropped := Suc (qs_dropped (iq_stats q))\<rparr>\<rparr>)
      else (True, q\<lparr>iq_items := iq_items q @ [i],
                    iq_stats := (iq_stats q)\<lparr>qs_received := Suc (qs_received (iq_stats q))\<rparr>\<rparr>))"

definition set_worker :: "nat \<Rightarrow> worker \<Rightarrow> ingest_queue \<Rightarrow> ingest_queue" where
  "set_worker n k q = q\<lparr>iq_workers := (iq_workers q)[n := k]\<rparr>"

definition start_flush :: "cause \<Rightarrow> worker \<Rightarrow> worker" where
  "start_flush c k = k\<lparr>wk_activity := Flushing c (group_items (wk_buf k))\<rparr>"

text \<open>An item reaches a worker's buffer.\<close>

definition collect :: "nat \<Rightarrow> item \<Rightarrow> worker \<Rightarrow> worker" where
  "collect flush_max i k =
     (let k = k\<lparr>wk_buf := wk_buf k @ [i], wk_count := wk_count k + length (it_events i)\<rparr> in
      if flush_max \<le> wk_count k then start_flush Size k else k)"

definition tally :: "nat \<Rightarrow> py_error option + nat \<Rightarrow> queue_stats \<Rightarrow> queue_stats" where
  "tally n res st =
     (case res of
        Inr stored \<Rightarrow> st\<lparr>qs_written := qs_written st + stored\<rparr>
      | Inl _ \<Rightarrow> st\<lparr>qs_flush_errors := Suc (qs_flush_errors st), qs_events_lost := qs_events_lost st + n\<rparr>)"

definition write_one ::
    "outage \<Rightarrow> world \<Rightarrow> int \<Rightarrow> source_key \<times> event list \<Rightarrow> archive \<times> cim_state \<times> action_index
       \<Rightarrow> (py_error option + nat) \<times> alert_row list \<times> archive \<times> cim_state \<times> action_index" where
  "write_one out w now g db =
     (case g of ((fmt, ty, ad, v), es) \<Rightarrow> write_group out w now es fmt ty ad v db)"

section \<open>Steps\<close>

text \<open>
  A write that returned is \<open>Stored\<close> with the number it returned; one that raised is \<open>Lost\<close> with the outage it
  met; the number of rows it left in the store is observed beside either.
\<close>

datatype observation =
    Accepted "event list" | Rejected "event list"
  | Stored "event list" nat nat | Lost outage "event list" nat | Uncounted "event list" nat
  | Requeued "event list" | Abandoned "event list" | Silent

definition written :: "outage \<Rightarrow> event list \<Rightarrow> py_error option + nat \<Rightarrow> nat \<Rightarrow> observation" where
  "written out es res gained = (case res of Inr n \<Rightarrow> Stored es n gained | Inl _ \<Rightarrow> Lost out es gained)"

definition group_events :: "(source_key \<times> event list) list \<Rightarrow> event list" where
  "group_events gs = concat (map snd gs)"

text \<open>What a worker does by itself.\<close>

inductive work :: "ingest_queue \<Rightarrow> observation list \<Rightarrow> ingest_queue \<Rightarrow> bool" where
  collects: "n < length (iq_workers q) \<Longrightarrow> wk_activity (iq_workers q ! n) = Collecting \<Longrightarrow> iq_items q = i # rest \<Longrightarrow>
     work q [] (set_worker n (collect (iq_flush_max q) i (iq_workers q ! n)) (q\<lparr>iq_items := rest\<rparr>))"
| times_out: "n < length (iq_workers q) \<Longrightarrow> wk_activity (iq_workers q ! n) = Collecting \<Longrightarrow> wk_buf (iq_workers q ! n) \<noteq> [] \<Longrightarrow>
     work q [] (set_worker n (start_flush Age (iq_workers q ! n)) q)"
| skips: "n < length (iq_workers q) \<Longrightarrow> wk_activity (iq_workers q ! n) = Flushing c ((k, []) # gs) \<Longrightarrow>
     work q [] (set_worker n ((iq_workers q ! n)\<lparr>wk_activity := Flushing c gs\<rparr>) q)"
| writes: "n < length (iq_workers q) \<Longrightarrow> wk_activity (iq_workers q ! n) = Flushing c ((k, es) # gs) \<Longrightarrow> es \<noteq> [] \<Longrightarrow>
     write_one out w now (k, es) (iq_db q) = (res, alerts, db') \<Longrightarrow>
     work q [written out es res (db_rows db' - db_rows (iq_db q))]
       (set_worker n ((iq_workers q ! n)\<lparr>wk_activity := Flushing c gs\<rparr>)
         (q\<lparr>iq_db := db', iq_stats := tally (length es) res (iq_stats q)\<rparr>))"
| finishes: "n < length (iq_workers q) \<Longrightarrow> wk_activity (iq_workers q ! n) = Flushing c [] \<Longrightarrow>
     work q [] (set_worker n (if c = Drain then (iq_workers q ! n)\<lparr>wk_activity := Stopped\<rparr> else idle_worker) q)"

text \<open>What reaches it from outside: a submission.\<close>

inductive receive :: "ingest_queue \<Rightarrow> observation list \<Rightarrow> ingest_queue \<Rightarrow> bool" where
  "submit i q = (ok, q') \<Longrightarrow> receive q [if ok then Accepted (it_events i) else Rejected (it_events i)] q'"

text \<open>
  \<open>stop\<close> cancels a worker once. One that waits flushes its buffer. One that is in the middle of a flush of a
  full buffer is still inside the \<open>try\<close> and starts the flush of the whole buffer again. One whose flush was
  started by the age of its buffer is already inside an \<open>except\<close> clause, so the cancellation leaves the
  worker at once. A write that was handed to the thread pool runs to its end, but nobody counts it.
\<close>

definition interrupted :: "worker \<Rightarrow> observation list \<times> worker" where
  "interrupted k =
     (case wk_activity k of
        Collecting \<Rightarrow> ([], if wk_buf k = [] then k\<lparr>wk_activity := Stopped\<rparr> else start_flush Drain k)
      | Flushing Size gs \<Rightarrow>
          (let all = group_events (group_items (wk_buf k)) in
           ([Requeued (take (length all - length (group_events gs)) all)], start_flush Drain k))
      | Flushing _ gs \<Rightarrow> ([Abandoned (group_events gs)], k\<lparr>wk_activity := Stopped\<rparr>)
      | Stopped \<Rightarrow> ([], k))"

definition cancellable :: "worker \<Rightarrow> bool" where
  "cancellable k \<longleftrightarrow> (case wk_activity k of Collecting \<Rightarrow> True | Flushing c _ \<Rightarrow> c \<noteq> Drain | Stopped \<Rightarrow> False)"

inductive cancel :: "ingest_queue \<Rightarrow> observation list \<Rightarrow> ingest_queue \<Rightarrow> bool" where
  between: "n < length (iq_workers q) \<Longrightarrow> cancellable (iq_workers q ! n) \<Longrightarrow> interrupted (iq_workers q ! n) = (obs, k') \<Longrightarrow>
     cancel q obs (set_worker n k' q)"
| in_thread: "n < length (iq_workers q) \<Longrightarrow> cancellable (iq_workers q ! n) \<Longrightarrow>
     wk_activity (iq_workers q ! n) = Flushing c ((key, es) # gs) \<Longrightarrow> es \<noteq> [] \<Longrightarrow>
     write_one out w now (key, es) (iq_db q) = (res, alerts, db') \<Longrightarrow>
     interrupted ((iq_workers q ! n)\<lparr>wk_activity := Flushing c gs\<rparr>) = (obs, k') \<Longrightarrow>
     cancel q (Uncounted es (db_rows db' - db_rows (iq_db q)) # obs) (set_worker n k' (q\<lparr>iq_db := db'\<rparr>))"

inductive qrun :: "bool \<Rightarrow> ingest_queue \<Rightarrow> observation list \<Rightarrow> ingest_queue \<Rightarrow> bool" for stopping where
  start: "qrun stopping q [] q"
| worked: "qrun stopping q obs q' \<Longrightarrow> work q' ob q'' \<Longrightarrow> qrun stopping q (obs @ ob) q''"
| received: "qrun stopping q obs q' \<Longrightarrow> receive q' ob q'' \<Longrightarrow> qrun stopping q (obs @ ob) q''"
| cancelled: "qrun stopping q obs q' \<Longrightarrow> stopping \<Longrightarrow> cancel q' ob q'' \<Longrightarrow> qrun stopping q (obs @ ob) q''"

section \<open>Grouping\<close>

lemma dict_get_add_item:
  "dict_get (add_item gs i) k =
     (if k = item_key i then Some ((case dict_get gs k of None \<Rightarrow> [] | Some es \<Rightarrow> es) @ it_events i) else dict_get gs k)"
  by (simp add: add_item_def)

text \<open>The events of a source stay in the order in which its items arrived.\<close>

lemma group_items_get:
  "dict_get (group_items items) k =
     (if k \<in> item_key ` set items then Some (concat (map it_events (filter (\<lambda>i. item_key i = k) items))) else None)"
proof (induction items rule: rev_induct)
  case (snoc i items)
  have "group_items (items @ [i]) = add_item (group_items items) i" by (simp add: group_items_def)
  moreover have "k \<notin> item_key ` set items \<Longrightarrow> filter (\<lambda>i. item_key i = k) items = []"
    by (auto simp: filter_empty_conv)
  ultimately show ?case using snoc by (auto simp: dict_get_add_item)
qed (simp add: group_items_def)

lemma distinct_group_items: "distinct (map fst (group_items items))"
  by (induction items rule: rev_induct) (simp_all add: group_items_def add_item_def)

lemma group_items_keys: "fst ` set (group_items items) = item_key ` set items"
proof -
  have "k \<in> fst ` set (group_items items) \<longleftrightarrow> dict_get (group_items items) k \<noteq> None" for k
    by (simp add: dict_get_def map_of_eq_None_iff)
  then have "k \<in> fst ` set (group_items items) \<longleftrightarrow> k \<in> item_key ` set items" for k
    unfolding group_items_get by simp
  then show ?thesis by blast
qed

lemma length_group_items: "length (group_items items) \<le> length items"
proof -
  have "length (group_items items) = card (item_key ` set items)"
    using distinct_card[OF distinct_group_items[of items]] by (simp flip: group_items_keys)
  also have "\<dots> \<le> length items" using card_image_le[of "set items" item_key] card_length[of items] by simp
  finally show ?thesis .
qed

lemma mset_dict_set_append:
  "distinct (map fst gs) \<Longrightarrow>
     mset (group_events (dict_set k ((case dict_get gs k of None \<Rightarrow> [] | Some es \<Rightarrow> es) @ xs) gs)) = mset (group_events gs) + mset xs"
  by (induction gs) (auto simp: group_events_def dict_set_def dict_get_def split: option.splits)

text \<open>Grouping neither loses nor invents an event.\<close>

lemma mset_group_items: "mset (group_events (group_items items)) = mset (concat (map it_events items))"
proof (induction items rule: rev_induct)
  case (snoc i items)
  have "mset (group_events (group_items (items @ [i]))) = mset (group_events (group_items items)) + mset (it_events i)"
    using mset_dict_set_append[OF distinct_group_items[of items], of "item_key i" "it_events i"] by (simp add: group_items_def add_item_def)
  then show ?case using snoc by simp
qed (simp add: group_items_def group_events_def)

section \<open>Accounts\<close>

text \<open>The events a worker still has to write, and those waiting anywhere.\<close>

definition worker_events :: "worker \<Rightarrow> event multiset" where
  "worker_events k =
     (case wk_activity k of
        Collecting \<Rightarrow> mset (concat (map it_events (wk_buf k)))
      | Flushing _ gs \<Rightarrow> mset (group_events gs)
      | Stopped \<Rightarrow> {#})"

definition pending :: "ingest_queue \<Rightarrow> event multiset" where
  "pending q = mset (concat (map it_events (iq_items q))) + sum_list (map worker_events (iq_workers q))"

definition in_of :: "observation \<Rightarrow> event multiset" where
  "in_of ob = (case ob of Accepted es \<Rightarrow> mset es | Requeued es \<Rightarrow> mset es | _ \<Rightarrow> {#})"

definition out_of :: "observation \<Rightarrow> event multiset" where
  "out_of ob = (case ob of Stored es _ _ \<Rightarrow> mset es | Lost _ es _ \<Rightarrow> mset es | Uncounted es _ \<Rightarrow> mset es
     | Abandoned es \<Rightarrow> mset es | _ \<Rightarrow> {#})"

definition ins :: "observation list \<Rightarrow> event multiset" where "ins obs = sum_list (map in_of obs)"
definition outs :: "observation list \<Rightarrow> event multiset" where "outs obs = sum_list (map out_of obs)"

lemma ins_simps [simp]: "ins [] = {#}" "ins (ob # obs) = in_of ob + ins obs" "ins (as @ bs) = ins as + ins bs"
  by (simp_all add: ins_def)

lemma outs_simps [simp]: "outs [] = {#}" "outs (ob # obs) = out_of ob + outs obs" "outs (as @ bs) = outs as + outs bs"
  by (simp_all add: outs_def)

text \<open>The counters, as observations move them.\<close>

definition observe :: "queue_stats \<Rightarrow> observation \<Rightarrow> queue_stats" where
  "observe st ob =
     (case ob of
        Accepted _ \<Rightarrow> st\<lparr>qs_received := Suc (qs_received st)\<rparr>
      | Rejected _ \<Rightarrow> st\<lparr>qs_dropped := Suc (qs_dropped st)\<rparr>
      | Stored _ n _ \<Rightarrow> st\<lparr>qs_written := qs_written st + n\<rparr>
      | Lost _ es _ \<Rightarrow> st\<lparr>qs_flush_errors := Suc (qs_flush_errors st), qs_events_lost := qs_events_lost st + length es\<rparr>
      | _ \<Rightarrow> st)"

section \<open>The invariant\<close>

definition worker_ok :: "nat \<Rightarrow> worker \<Rightarrow> bool" where
  "worker_ok flush_max k \<longleftrightarrow>
     wk_count k = length (concat (map it_events (wk_buf k))) \<and>
     (case wk_activity k of
        Collecting \<Rightarrow> wk_count k < flush_max
      | Flushing _ gs \<Rightarrow> suffix gs (group_items (wk_buf k))
      | Stopped \<Rightarrow> True)"

definition queue_ok :: "ingest_queue \<Rightarrow> bool" where
  "queue_ok q \<longleftrightarrow>
     0 < iq_flush_max q \<and> (0 < iq_maxsize q \<longrightarrow> int (length (iq_items q)) \<le> iq_maxsize q) \<and>
     list_all (worker_ok (iq_flush_max q)) (iq_workers q) \<and> ledger (fst (iq_db q))"

lemma set_worker_frame [simp]:
  "iq_maxsize (set_worker n k q) = iq_maxsize q" "iq_flush_max (set_worker n k q) = iq_flush_max q"
  "iq_items (set_worker n k q) = iq_items q" "iq_stats (set_worker n k q) = iq_stats q"
  "iq_db (set_worker n k q) = iq_db q" "iq_workers (set_worker n k q) = (iq_workers q)[n := k]"
  by (simp_all add: set_worker_def)

lemma start_flush_frame [simp]:
  "wk_buf (start_flush c k) = wk_buf k" "wk_count (start_flush c k) = wk_count k"
  "wk_activity (start_flush c k) = Flushing c (group_items (wk_buf k))"
  by (simp_all add: start_flush_def)

lemma list_all_update: "list_all P xs \<Longrightarrow> P x \<Longrightarrow> list_all P (xs[n := x])"
  using set_update_subset_insert[of xs n x] by (auto simp: list_all_iff)

lemma queue_ok_set:
  assumes "queue_ok q" and "worker_ok (iq_flush_max q) k"
  shows "queue_ok (set_worker n k q)"
  using assms by (simp add: queue_ok_def list_all_update)

text \<open>Replacing one worker moves its share.\<close>

lemma sum_list_swap:
  fixes f :: "'a \<Rightarrow> 'b::comm_monoid_add"
  shows "n < length xs \<Longrightarrow> sum_list (map f (xs[n := k])) + f (xs ! n) = sum_list (map f xs) + f k"
proof (induction xs arbitrary: n)
  case (Cons x xs)
  then show ?case by (cases n) (simp_all add: ac_simps)
qed simp

lemma pending_set:
  assumes "n < length (iq_workers q)"
  shows "pending (set_worker n k q) + worker_events (iq_workers q ! n) = pending q + worker_events k"
  using sum_list_swap[OF assms, of worker_events k] by (simp add: pending_def add.assoc)

lemma pending_step:
  assumes "n < length (iq_workers q)" and "worker_events k + b = worker_events (iq_workers q ! n) + a"
  shows "pending (set_worker n k q) + b = pending q + a"
proof -
  have "pending (set_worker n k q) + b + worker_events (iq_workers q ! n) = pending q + a + worker_events (iq_workers q ! n)"
    using pending_set[OF assms(1), of k] assms(2) by (metis (no_types, lifting) add.assoc add.commute)
  then show ?thesis by simp
qed

lemma pending_frame [simp]:
  "pending (q\<lparr>iq_db := db\<rparr>) = pending q" "pending (q\<lparr>iq_stats := st\<rparr>) = pending q"
  by (simp_all add: pending_def)

lemma pending_items: "pending (q\<lparr>iq_items := rest\<rparr>) + mset (concat (map it_events (iq_items q))) = pending q + mset (concat (map it_events rest))"
  by (simp add: pending_def ac_simps)

lemma worker_events_simps [simp]:
  "wk_activity k = Collecting \<Longrightarrow> worker_events k = mset (concat (map it_events (wk_buf k)))"
  "wk_activity k = Flushing c gs \<Longrightarrow> worker_events k = mset (group_events gs)"
  "wk_activity k = Stopped \<Longrightarrow> worker_events k = {#}"
  by (simp_all add: worker_events_def)

lemma worker_events_collect:
  "wk_activity k = Collecting \<Longrightarrow> worker_events (collect fm i k) = worker_events k + mset (it_events i)"
  by (simp add: collect_def Let_def worker_events_def start_flush_def mset_group_items)

lemma written_events: "in_of (written out es res n) = {#}" "out_of (written out es res n) = mset es"
  by (simp_all add: written_def in_of_def out_of_def split: sum.split)

lemma group_events_Cons: "group_events ((k, es) # gs) = es @ group_events gs"
  by (simp add: group_events_def)

lemma work_balance: "work q obs q' \<Longrightarrow> pending q' + outs obs = pending q + ins obs"
proof (induction rule: work.induct)
  case (collects n q i rest)
  have "pending (set_worker n (collect (iq_flush_max q) i (iq_workers q ! n)) (q\<lparr>iq_items := rest\<rparr>)) + {#}
      = pending (q\<lparr>iq_items := rest\<rparr>) + mset (it_events i)"
    by (rule pending_step) (use collects in \<open>simp_all add: worker_events_collect\<close>)
  moreover have "pending (q\<lparr>iq_items := rest\<rparr>) + mset (it_events i) = pending q"
    using pending_items[of rest q] collects(3) by (simp add: ac_simps)
  ultimately show ?case by simp
next
  case (times_out n q)
  have "pending (set_worker n (start_flush Age (iq_workers q ! n)) q) + {#} = pending q + {#}"
    by (rule pending_step) (use times_out in \<open>simp_all add: mset_group_items\<close>)
  then show ?case by simp
next
  case (skips n q c k gs)
  have "pending (set_worker n ((iq_workers q ! n)\<lparr>wk_activity := Flushing c gs\<rparr>) q) + {#} = pending q + {#}"
    by (rule pending_step) (use skips in \<open>simp_all add: group_events_Cons\<close>)
  then show ?case by simp
next
  case (writes n q c k es gs out w now res alerts db')
  let ?q = "q\<lparr>iq_db := db', iq_stats := tally (length es) res (iq_stats q)\<rparr>"
  have "pending (set_worker n ((iq_workers q ! n)\<lparr>wk_activity := Flushing c gs\<rparr>) ?q) + mset es = pending ?q + {#}"
    by (rule pending_step) (use writes in \<open>simp_all add: group_events_Cons\<close>)
  then show ?case by (simp add: written_events)
next
  case (finishes n q c)
  have "pending (set_worker n (if c = Drain then (iq_workers q ! n)\<lparr>wk_activity := Stopped\<rparr> else idle_worker) q) + {#} = pending q + {#}"
    by (rule pending_step) (use finishes in \<open>simp_all add: group_events_def idle_worker_def\<close>)
  then show ?case by simp
qed

lemma receive_balance: "receive q obs q' \<Longrightarrow> pending q' + outs obs = pending q + ins obs"
  by (induction rule: receive.induct)
    (auto simp: submit_def pending_def in_of_def out_of_def ac_simps split: if_splits)

lemma drop_suffix: "suffix ys xs \<Longrightarrow> drop (length xs - length ys) xs = ys"
  by (auto simp: suffix_def)

lemma suffix_group_events: "suffix gs hs \<Longrightarrow> suffix (group_events gs) (group_events hs)"
  by (auto simp: suffix_def group_events_def)

lemma interrupted_balance:
  assumes "worker_ok fm k" and "interrupted k = (obs, k')"
  shows "worker_events k' + outs obs = worker_events k + ins obs"
proof (cases "wk_activity k")
  case (Flushing c gs)
  show ?thesis
  proof (cases "c = Size")
    case True
    let ?all = "group_events (group_items (wk_buf k))"
    have "suffix (group_events gs) ?all"
      using assms(1) Flushing suffix_group_events by (simp add: worker_ok_def)
    then have "mset (take (length ?all - length (group_events gs)) ?all) + mset (group_events gs) = mset ?all"
      using drop_suffix by (metis append_take_drop_id mset_append)
    then show ?thesis
      using assms(2) Flushing True by (auto simp: interrupted_def Let_def in_of_def out_of_def ac_simps)
  next
    case False
    then show ?thesis using assms(2) Flushing by (cases c) (auto simp: interrupted_def in_of_def out_of_def)
  qed
qed (use assms(2) in \<open>auto simp: interrupted_def mset_group_items split: if_splits\<close>)

lemma worker_ok_nth: "queue_ok q \<Longrightarrow> n < length (iq_workers q) \<Longrightarrow> worker_ok (iq_flush_max q) (iq_workers q ! n)"
  by (simp add: queue_ok_def list_all_length)

lemma worker_ok_tail:
  "worker_ok fm k \<Longrightarrow> wk_activity k = Flushing c (g # gs) \<Longrightarrow> worker_ok fm (k\<lparr>wk_activity := Flushing c gs\<rparr>)"
  by (auto simp: worker_ok_def dest: suffix_ConsD)

lemma cancel_balance: "cancel q obs q' \<Longrightarrow> queue_ok q \<Longrightarrow> pending q' + outs obs = pending q + ins obs"
proof (induction rule: cancel.induct)
  case (between n q obs k')
  show ?case
    by (rule pending_step[OF between(1)]) (use interrupted_balance[OF worker_ok_nth between(3)] between in simp)
next
  case (in_thread n q c key es gs out w now res alerts db' obs k')
  have "worker_events k' + outs obs = mset (group_events gs) + ins obs"
    using interrupted_balance[OF worker_ok_tail[OF worker_ok_nth in_thread(3)] in_thread(6)] in_thread by simp
  then have "pending (set_worker n k' (q\<lparr>iq_db := db'\<rparr>)) + (mset es + outs obs) = pending (q\<lparr>iq_db := db'\<rparr>) + ins obs"
    by (intro pending_step) (use in_thread in \<open>simp_all add: group_events_Cons ac_simps\<close>)
  then show ?case by (simp add: in_of_def out_of_def)
qed

subsection \<open>Every step keeps it\<close>

lemma submit_frame [simp]:
  "iq_flush_max (snd (submit i q)) = iq_flush_max q" "iq_workers (snd (submit i q)) = iq_workers q"
  "iq_maxsize (snd (submit i q)) = iq_maxsize q" "iq_db (snd (submit i q)) = iq_db q"
  by (simp_all add: submit_def)

lemma queue_ok_frame [simp]: "queue_ok (q\<lparr>iq_stats := st\<rparr>) = queue_ok q"
  by (simp add: queue_ok_def)

lemma worker_ok_collect: "worker_ok fm k \<Longrightarrow> wk_activity k = Collecting \<Longrightarrow> worker_ok fm (collect fm i k)"
  by (auto simp: worker_ok_def collect_def Let_def start_flush_def)

lemma write_one_ledger:
  "write_one out w now g db = (res, al, db') \<Longrightarrow> ledger (fst db) \<Longrightarrow> ledger (fst db')"
  using write_group_ledger by (cases g; cases db; cases db') (fastforce simp: write_one_def)

lemma work_ok: "work q obs q' \<Longrightarrow> queue_ok q \<Longrightarrow> queue_ok q'"
proof (induction rule: work.induct)
  case (collects n q i rest)
  have "queue_ok (q\<lparr>iq_items := rest\<rparr>)" using collects by (auto simp: queue_ok_def)
  then show ?case using queue_ok_set[of _ "collect (iq_flush_max q) i (iq_workers q ! n)" n]
      worker_ok_collect[OF worker_ok_nth[OF collects(4,1)] collects(2)] by simp
next
  case (times_out n q)
  then show ?case using worker_ok_nth[OF times_out(4,1)] by (intro queue_ok_set) (simp_all add: worker_ok_def)
next
  case (skips n q c k gs)
  then show ?case using worker_ok_tail[OF worker_ok_nth[OF skips(3,1)]] by (intro queue_ok_set) simp_all
next
  case (writes n q c k es gs out w now res alerts db')
  have "queue_ok (q\<lparr>iq_db := db', iq_stats := tally (length es) res (iq_stats q)\<rparr>)"
    using writes(5) write_one_ledger[OF writes(4)] by (simp add: queue_ok_def)
  then show ?case using worker_ok_tail[OF worker_ok_nth[OF writes(5,1)] writes(2)] by (intro queue_ok_set) simp_all
next
  case (finishes n q c)
  then show ?case using worker_ok_nth[OF finishes(3,1)]
    by (intro queue_ok_set) (auto simp: worker_ok_def idle_worker_def queue_ok_def)
qed

lemma receive_ok: "receive q obs q' \<Longrightarrow> queue_ok q \<Longrightarrow> queue_ok q'"
  by (induction rule: receive.induct) (auto simp: submit_def queue_ok_def queue_full_def split: if_splits)

lemma interrupted_ok: "worker_ok fm k \<Longrightarrow> interrupted k = (obs, k') \<Longrightarrow> worker_ok fm k'"
  by (auto simp: interrupted_def worker_ok_def Let_def split: activity.splits cause.splits if_splits)

lemma cancel_ok: "cancel q obs q' \<Longrightarrow> queue_ok q \<Longrightarrow> queue_ok q'"
proof (induction rule: cancel.induct)
  case (between n q obs k')
  then show ?case using interrupted_ok[OF worker_ok_nth] by (intro queue_ok_set)
next
  case (in_thread n q c key es gs out w now res alerts db' obs k')
  have "queue_ok (q\<lparr>iq_db := db'\<rparr>)" using in_thread(7) write_one_ledger[OF in_thread(5)] by (simp add: queue_ok_def)
  then show ?case
    using interrupted_ok[OF worker_ok_tail[OF worker_ok_nth[OF in_thread(7,1)] in_thread(3)] in_thread(6)]
    by (intro queue_ok_set) simp_all
qed

subsection \<open>The counters\<close>

definition unseen :: "observation \<Rightarrow> bool" where
  "unseen ob \<longleftrightarrow> (case ob of Uncounted _ _ \<Rightarrow> True | Requeued _ \<Rightarrow> True | Abandoned _ \<Rightarrow> True | _ \<Rightarrow> False)"

lemma observe_unseen: "list_all unseen obs \<Longrightarrow> foldl observe st obs = st"
  by (induction obs) (auto simp: observe_def unseen_def split: observation.splits)

lemma work_stats: "work q obs q' \<Longrightarrow> iq_stats q' = foldl observe (iq_stats q) obs \<and> list_all (\<lambda>ob. \<not> unseen ob) obs"
  by (induction rule: work.induct) (auto simp: observe_def written_def tally_def unseen_def split: sum.split)

lemma receive_stats: "receive q obs q' \<Longrightarrow> iq_stats q' = foldl observe (iq_stats q) obs \<and> list_all (\<lambda>ob. \<not> unseen ob) obs"
  by (induction rule: receive.induct) (auto simp: submit_def observe_def unseen_def split: if_splits)

lemma interrupted_unseen: "interrupted k = (obs, k') \<Longrightarrow> list_all unseen obs"
  by (auto simp: interrupted_def unseen_def Let_def split: activity.splits cause.splits)

lemma cancel_stats: "cancel q obs q' \<Longrightarrow> iq_stats q' = foldl observe (iq_stats q) obs"
proof (induction rule: cancel.induct)
  case (between n q obs k')
  then show ?case using observe_unseen[OF interrupted_unseen] by simp
next
  case (in_thread n q c key es gs out w now res alerts db' obs k')
  then show ?case using observe_unseen[of "Uncounted es (db_rows db' - db_rows (iq_db q)) # obs"] interrupted_unseen[OF in_thread(6)] by (simp add: unseen_def)
qed

theorem run_accounts:
  assumes "qrun stopping q obs q'" and "queue_ok q"
  shows "queue_ok q'" and "pending q' + outs obs = pending q + ins obs"
    and "iq_stats q' = foldl observe (iq_stats q) obs" and "\<not> stopping \<Longrightarrow> list_all (\<lambda>ob. \<not> unseen ob) obs"
proof -
  have "queue_ok q' \<and> pending q' + outs obs = pending q + ins obs \<and> iq_stats q' = foldl observe (iq_stats q) obs \<and>
      (\<not> stopping \<longrightarrow> list_all (\<lambda>ob. \<not> unseen ob) obs)"
    using assms
  proof (induction rule: qrun.induct)
    case (worked q obs q' ob q'')
    then show ?case using work_ok[OF worked(2)] work_balance[OF worked(2)] work_stats[OF worked(2)]
      by (simp add: ac_simps) (metis (no_types, lifting) add.assoc add.commute)
  next
    case (received q obs q' ob q'')
    then show ?case using receive_ok[OF received(2)] receive_balance[OF received(2)] receive_stats[OF received(2)]
      by (simp add: ac_simps) (metis (no_types, lifting) add.assoc add.commute)
  next
    case (cancelled q obs q' ob q'')
    then show ?case using cancel_ok[OF cancelled(3)] cancel_balance[OF cancelled(3)] cancel_stats[OF cancelled(3)]
      by (simp add: ac_simps) (metis (no_types, lifting) add.assoc add.commute)
  qed simp
  then show "queue_ok q'" "pending q' + outs obs = pending q + ins obs" "iq_stats q' = foldl observe (iq_stats q) obs"
    "\<not> stopping \<Longrightarrow> list_all (\<lambda>ob. \<not> unseen ob) obs" by blast+
qed

lemma new_queue_ok: "ledger (fst db) \<Longrightarrow> queue_ok (new_queue maxsize workers flush_max db)"
  by (auto simp: queue_ok_def new_queue_def idle_worker_def worker_ok_def list_all_iff)

lemma new_queue_pending: "pending (new_queue maxsize workers flush_max db) = {#}"
proof -
  have "sum_list (replicate n {#}) = ({#} :: event multiset)" for n by (induction n) simp_all
  then show ?thesis by (simp add: pending_def new_queue_def idle_worker_def worker_events_def)
qed

text \<open>Without a shutdown the counters tell what happened to the events.\<close>

definition lost_of :: "observation \<Rightarrow> event multiset" where
  "lost_of ob = (case ob of Lost _ es _ \<Rightarrow> mset es | _ \<Rightarrow> {#})"

lemma events_lost_count: "qs_events_lost (foldl observe st obs) = qs_events_lost st + size (sum_list (map lost_of obs))"
  by (induction obs arbitrary: st) (auto simp: observe_def lost_of_def split: observation.split)

section \<open>Rows\<close>

text \<open>What a write leaves in the store: the rows it reports, none if it raised before the commit.\<close>

lemma write_group_rows:
  assumes "ledger ar" and "write_group out w now es fmt ty ad v (ar, env) = (res, al, ar', env')"
  shows "length (st_rows (ar_store ar)) \<le> length (st_rows (ar_store ar'))"
    and "res = Inr n \<Longrightarrow> length (st_rows (ar_store ar')) = length (st_rows (ar_store ar)) + n \<and> n \<le> length es"
    and "res = Inl e \<Longrightarrow> out \<noteq> Late \<Longrightarrow> ar_store ar' = ar_store ar"
proof -
  have "length (st_rows (ar_store ar)) \<le> length (st_rows (ar_store ar')) \<and>
      (\<forall>n. res = Inr n \<longrightarrow> length (st_rows (ar_store ar')) = length (st_rows (ar_store ar)) + n \<and> n \<le> length es) \<and>
      (\<forall>e. res = Inl e \<longrightarrow> out \<noteq> Late \<longrightarrow> ar_store ar' = ar_store ar)"
    using assms(2)
  proof (cases rule: write_group_cases)
    case (stored bid ar1 sres)
    have o: "open_batch bid ar1" by (rule open_created[OF assms(1) stored(1)])
    have st: "ar_store ar1 = ar_store ar" by (rule create_batch_frame(3)[OF stored(1)])
    show ?thesis
    proof (cases sres)
      case (Inl e)
      have "length (st_rows (ar_store ar1)) \<le> length (st_rows (ar_store ar'))"
        using stored(2)
      proof (cases rule: store_batch_cases)
        case (late r st')
        then show ?thesis using write_stream_appends[OF write_parsed_Inr(2)[OF late(5)]] by fastforce
      qed (use Inl in auto)
      then show ?thesis using store_batch_Inl(2)[OF o stored(2)[unfolded Inl]] Inl st stored(3) by auto
    next
      case (Inr rn)
      obtain r n where rn: "rn = (r, n)" by (cases rn)
      note b = store_batch_Inr(2,3,6)[OF o stored(2)[unfolded Inr rn]]
      then show ?thesis using Inr rn st stored(3) by auto
    qed
  qed (simp add: assms(1))
  then show "length (st_rows (ar_store ar)) \<le> length (st_rows (ar_store ar'))"
    "res = Inr n \<Longrightarrow> length (st_rows (ar_store ar')) = length (st_rows (ar_store ar)) + n \<and> n \<le> length es"
    "res = Inl e \<Longrightarrow> out \<noteq> Late \<Longrightarrow> ar_store ar' = ar_store ar" by blast+
qed

text \<open>An observation of a write that is true of the store.\<close>

definition faithful :: "observation \<Rightarrow> bool" where
  "faithful ob \<longleftrightarrow> (case ob of Stored es n g \<Rightarrow> n = g \<and> g \<le> length es | Lost out _ g \<Rightarrow> g = 0 \<or> out = Late | _ \<Rightarrow> True)"

definition gained :: "observation \<Rightarrow> nat" where
  "gained ob = (case ob of Stored _ _ g \<Rightarrow> g | Lost _ _ g \<Rightarrow> g | Uncounted _ g \<Rightarrow> g | _ \<Rightarrow> 0)"

lemma write_one_rows:
  assumes "write_one out w now (k, es) db = (res, al, db')" "ledger (fst db)"
  shows "faithful (written out es res (db_rows db' - db_rows db))" "db_rows db \<le> db_rows db'"
proof -
  obtain fmt ty ad v where k: "k = (fmt, ty, ad, v)" by (cases k)
  obtain ar env ar' env' where d: "db = (ar, env)" "db' = (ar', env')" by (cases db; cases db')
  have g: "write_group out w now es fmt ty ad v (ar, env) = (res, al, ar', env')" "ledger ar"
    using assms k d by (simp_all add: write_one_def)
  note r = write_group_rows[OF g(2,1)]
  show "db_rows db \<le> db_rows db'" using r(1) d by (simp add: db_rows_def)
  show "faithful (written out es res (db_rows db' - db_rows db))"
    using r(2,3) d by (cases res) (auto simp: faithful_def written_def db_rows_def)
qed

lemma gained_written: "gained (written out es res g) = g"
  by (simp add: gained_def written_def split: sum.split)

lemma work_rows:
  "work q obs q' \<Longrightarrow> queue_ok q \<Longrightarrow> list_all faithful obs \<and> db_rows (iq_db q') = db_rows (iq_db q) + sum_list (map gained obs)"
proof (induction rule: work.induct)
  case (writes n q c k es gs out w now res alerts db')
  then show ?case using write_one_rows[OF writes(4)] by (simp add: gained_written queue_ok_def)
qed simp_all

lemma receive_rows: "receive q obs q' \<Longrightarrow> list_all faithful obs \<and> iq_db q' = iq_db q \<and> sum_list (map gained obs) = 0"
  by (induction rule: receive.induct) (auto simp: submit_def faithful_def gained_def split: if_splits)

lemma run_rows:
  assumes "qrun False q obs q'" and "queue_ok q"
  shows "list_all faithful obs \<and> db_rows (iq_db q') = db_rows (iq_db q) + sum_list (map gained obs)"
  using assms
proof (induction rule: qrun.induct)
  case (worked q obs q' ob q'')
  then show ?case using work_rows[OF worked(2)] run_accounts(1)[OF worked(1)] by simp
next
  case (received q obs q' ob q'')
  then show ?case using receive_rows[OF received(2)] by simp
qed simp_all

text \<open>The rows of writes that nobody was told about: the write raised although its rows had been committed.\<close>

definition unreported :: "observation \<Rightarrow> nat" where
  "unreported ob = (case ob of Lost _ _ g \<Rightarrow> g | Uncounted _ g \<Rightarrow> g | _ \<Rightarrow> 0)"

lemma rows_written_count:
  "list_all faithful obs \<Longrightarrow>
     qs_written (foldl observe st obs) + sum_list (map unreported obs) = qs_written st + sum_list (map gained obs)"
proof (induction obs arbitrary: st)
  case (Cons ob obs)
  then show ?case using Cons.IH[of "observe st ob"]
    by (cases ob) (simp_all add: observe_def faithful_def gained_def unreported_def)
qed simp

text \<open>
  \<open>_flush\<close> counts every group that raised as discarded. A database that fails between the commit and the
  completion of the batch row makes it count events whose rows are the ones a faultless write leaves.
\<close>

lemma late_failure_discards_nothing:
  assumes "write_one Up w now g db = (Inr n, al, ar, env)"
  shows "\<exists>ar'. write_one Late w now g db = (Inl None, al, ar', env) \<and> ar_store ar' = ar_store ar"
proof -
  obtain fmt ty ad v es ar0 env0 where g: "g = ((fmt, ty, ad, v), es)" "db = (ar0, env0)" by (cases g; cases db) auto
  obtain bid ar1 where c: "create_batch None None v fmt ty ad now ar0 = (bid, ar1)" by fastforce
  show ?thesis
    using assms by (auto simp: g c write_one_def write_group_def store_batch_def update_batch_def Let_def
      split: prod.splits sum.splits)
qed

section \<open>Draining\<close>

text \<open>Left alone, the workers use up a backlog: every step of theirs spends some of its weight.\<close>

definition worker_weight :: "worker \<Rightarrow> nat" where
  "worker_weight k =
     (case wk_activity k of
        Collecting \<Rightarrow> if wk_buf k = [] then 0 else length (wk_buf k) + 2
      | Flushing _ gs \<Rightarrow> length gs + 1
      | Stopped \<Rightarrow> 0)"

definition weight :: "ingest_queue \<Rightarrow> nat" where
  "weight q = 4 * length (iq_items q) + sum_list (map worker_weight (iq_workers q))"

lemma weight_set:
  "n < length (iq_workers q) \<Longrightarrow> weight (set_worker n k q) + worker_weight (iq_workers q ! n) = weight q + worker_weight k"
  using sum_list_swap[of n "iq_workers q" worker_weight k] by (simp add: weight_def)

lemma weight_frame [simp]:
  "weight (q\<lparr>iq_db := db\<rparr>) = weight q" "weight (q\<lparr>iq_stats := st\<rparr>) = weight q"
  by (simp_all add: weight_def)

lemma worker_weight_simps [simp]:
  "wk_activity k = Collecting \<Longrightarrow> worker_weight k = (if wk_buf k = [] then 0 else length (wk_buf k) + 2)"
  "wk_activity k = Flushing c gs \<Longrightarrow> worker_weight k = length gs + 1"
  "wk_activity k = Stopped \<Longrightarrow> worker_weight k = 0"
  by (simp_all add: worker_weight_def)

lemma collect_weight: "wk_activity k = Collecting \<Longrightarrow> worker_weight (collect fm i k) \<le> worker_weight k + 3"
  using length_group_items[of "wk_buf k @ [i]"] by (auto simp: collect_def Let_def worker_weight_def start_flush_def)

lemma work_weight: "work q obs q' \<Longrightarrow> weight q' < weight q"
proof (induction rule: work.induct)
  case (collects n q i rest)
  have "weight (q\<lparr>iq_items := rest\<rparr>) + 4 = weight q" using collects(3) by (simp add: weight_def)
  then show ?case
    using weight_set[of n "q\<lparr>iq_items := rest\<rparr>" "collect (iq_flush_max q) i (iq_workers q ! n)"]
      collect_weight[OF collects(2), of "iq_flush_max q" i] collects(1) by simp
next
  case (times_out n q)
  then show ?case using weight_set[OF times_out(1), of "start_flush Age (iq_workers q ! n)"]
      length_group_items[of "wk_buf (iq_workers q ! n)"] by simp
next
  case (skips n q c k gs)
  then show ?case using weight_set[OF skips(1), of "(iq_workers q ! n)\<lparr>wk_activity := Flushing c gs\<rparr>"] by simp
next
  case (writes n q c k es gs out w now res alerts db')
  then show ?case
    using weight_set[of n "q\<lparr>iq_db := db', iq_stats := tally (length es) res (iq_stats q)\<rparr>"
        "(iq_workers q ! n)\<lparr>wk_activity := Flushing c gs\<rparr>"] by simp
next
  case (finishes n q c)
  then show ?case
    using weight_set[OF finishes(1), of "if c = Drain then (iq_workers q ! n)\<lparr>wk_activity := Stopped\<rparr> else idle_worker"]
    by (simp add: idle_worker_def split: if_splits)
qed

text \<open>A worker that nobody has cancelled.\<close>

definition alive :: "worker \<Rightarrow> bool" where
  "alive k \<longleftrightarrow> (case wk_activity k of Collecting \<Rightarrow> True | Flushing c _ \<Rightarrow> c \<noteq> Drain | Stopped \<Rightarrow> False)"

definition staffed :: "ingest_queue \<Rightarrow> bool" where
  "staffed q \<longleftrightarrow> iq_workers q \<noteq> [] \<and> list_all alive (iq_workers q)"

lemma alive_nth: "staffed q \<Longrightarrow> n < length (iq_workers q) \<Longrightarrow> alive (iq_workers q ! n)"
  by (simp add: staffed_def list_all_length)

lemma staffed_set: "staffed q \<Longrightarrow> alive k \<Longrightarrow> staffed (set_worker n k q)"
  by (simp add: staffed_def list_all_update)

lemma staffed_frame [simp]:
  "staffed (q\<lparr>iq_items := x\<rparr>) = staffed q" "staffed (q\<lparr>iq_db := db\<rparr>) = staffed q" "staffed (q\<lparr>iq_stats := st\<rparr>) = staffed q"
  by (simp_all add: staffed_def)

lemma work_staffed: "work q obs q' \<Longrightarrow> staffed q \<Longrightarrow> staffed q'"
proof (induction rule: work.induct)
  case (collects n q i rest)
  then show ?case using alive_nth[OF collects(4,1)]
    by (intro staffed_set) (simp_all add: collect_def Let_def alive_def start_flush_def)
next
  case (times_out n q)
  then show ?case by (intro staffed_set) (simp_all add: alive_def)
next
  case (skips n q c k gs)
  then show ?case using alive_nth[OF skips(3,1)] by (intro staffed_set) (simp_all add: alive_def)
next
  case (writes n q c k es gs out w now res alerts db')
  then show ?case using alive_nth[OF writes(5,1)] by (intro staffed_set) (simp_all add: alive_def)
next
  case (finishes n q c)
  then show ?case using alive_nth[OF finishes(3,1)] by (intro staffed_set) (simp_all add: alive_def idle_worker_def)
qed

text \<open>As long as anything waits, some worker can move.\<close>

lemma flush_moves:
  assumes "n < length (iq_workers q)" and "wk_activity (iq_workers q ! n) = Flushing c gs"
  shows "\<exists>obs q'. work q obs q'"
proof (cases gs)
  case Nil
  then show ?thesis using work.finishes[of n q c] assms by auto
next
  case (Cons g gs)
  obtain k es where g: "g = (k, es)" by (cases g)
  show ?thesis
  proof (cases "es = []")
    case True
    then show ?thesis using work.skips[of n q c k gs] assms Cons g by blast
  next
    case False
    obtain res al db' where "write_one Up undefined undefined (k, es) (iq_db q) = (res, al, db')"
      using prod_cases3 by blast
    then show ?thesis using work.writes[OF assms(1) _ False] assms(2) Cons g by blast
  qed
qed

lemma stuck_drained:
  assumes "staffed q" and stuck: "\<nexists>obs q'. work q obs q'"
  shows "iq_items q = []" and "pending q = {#}"
proof -
  have c: "wk_activity (iq_workers q ! n) = Collecting" if "n < length (iq_workers q)" for n
    using alive_nth[OF assms(1) that] flush_moves[OF that] stuck by (cases "wk_activity (iq_workers q ! n)") (auto simp: alive_def)
  have e: "wk_buf (iq_workers q ! n) = []" if "n < length (iq_workers q)" for n
    using work.times_out[OF that c[OF that]] stuck by blast
  show i: "iq_items q = []"
  proof (cases "iq_items q")
    case (Cons x xs)
    have "0 < length (iq_workers q)" using assms(1) by (simp add: staffed_def)
    then show ?thesis using work.collects[OF _ c Cons] stuck by blast
  qed simp
  have "worker_events k = {#}" if "k \<in> set (iq_workers q)" for k
    using that c e by (auto simp: in_set_conv_nth)
  then have "sum_list (map worker_events ks) = {#}" if "set ks \<subseteq> set (iq_workers q)" for ks
    using that by (induction ks) auto
  then show "pending q = {#}" using i by (simp add: pending_def)
qed

text \<open>Steps of the workers alone, with their number.\<close>

inductive busy :: "ingest_queue \<Rightarrow> nat \<Rightarrow> observation list \<Rightarrow> ingest_queue \<Rightarrow> bool" where
  rests: "busy q 0 [] q"
| moves: "busy q n obs q' \<Longrightarrow> work q' ob q'' \<Longrightarrow> busy q (Suc n) (obs @ ob) q''"

lemma busy_run: "busy q n obs q' \<Longrightarrow> qrun False q obs q'"
  by (induction rule: busy.induct) (auto intro: qrun.intros)

lemma busy_staffed: "busy q n obs q' \<Longrightarrow> staffed q \<Longrightarrow> staffed q' \<and> n + weight q' \<le> weight q"
  by (induction rule: busy.induct) (use work_staffed work_weight in \<open>fastforce+\<close>)

lemma busy_maximal: "\<exists>n obs q'. busy q n obs q' \<and> (\<nexists>ob q''. work q' ob q'')"
proof -
  have "\<exists>n obs q'. busy q0 n obs q' \<and> (\<nexists>ob q''. work q' ob q'')" if "busy q0 m obs q" for q0 m obs
    using that
  proof (induction "weight q" arbitrary: q m obs rule: less_induct)
    case less
    show ?case
    proof (cases "\<exists>ob q''. work q ob q''")
      case True
      then show ?thesis using less busy.moves work_weight by metis
    qed (use less in blast)
  qed
  then show ?thesis using busy.rests by blast
qed

lemma backlog_drained:
  assumes "queue_ok q" and "staffed q" and "busy q n obs q'"
  shows "n \<le> weight q" and "(\<nexists>ob q''. work q' ob q'') \<Longrightarrow> iq_items q' = [] \<and> outs obs = pending q"
proof -
  show "n \<le> weight q" using busy_staffed[OF assms(3,2)] by simp
  assume "\<nexists>ob q''. work q' ob q''"
  then have d: "iq_items q' = []" "pending q' = {#}" using stuck_drained busy_staffed[OF assms(3,2)] by blast+
  have "ins obs = {#}" using assms(3)
  proof (induction rule: busy.induct)
    case (moves q n obs q' ob q'')
    then show ?case by (auto elim!: work.cases simp: written_events)
  qed simp
  then show "iq_items q' = [] \<and> outs obs = pending q"
    using run_accounts(2)[OF busy_run[OF assms(3)] assms(1)] d by simp
qed

section \<open>A shutdown that loses events\<close>

definition live_item :: "string \<Rightarrow> item" where
  "live_item fmt = \<lparr>it_events = [bare_event fmt], it_fmt = fmt, it_source_type = ''syslog'', it_source_addr = None, it_vendor = None\<rparr>"

text \<open>Two sources in one buffer, flushed by age, and one more item in the queue when the worker is cancelled.\<close>

definition aged_worker :: worker where
  "aged_worker = \<lparr>wk_buf = [live_item ''cef'', live_item ''leef''], wk_count = 2,
     wk_activity = Flushing Age (group_items [live_item ''cef'', live_item ''leef''])\<rparr>"

lemma shutdown_loses_silently:
  assumes "ledger (fst db)"
  shows "\<exists>obs q. qrun True (new_queue 10 1 100 db) obs q \<and> list_all (\<lambda>k. wk_activity k = Stopped) (iq_workers q) \<and>
    size (ins obs) = 3 \<and> iq_db q = db \<and> qs_received (iq_stats q) = 3 \<and> qs_events_lost (iq_stats q) = 0"
proof -
  let ?q0 = "new_queue 10 1 100 db"
  let ?i = "live_item ''cef''" and ?j = "live_item ''leef''"
  let ?q3 = "snd (submit ?i (snd (submit ?j (snd (submit ?i ?q0)))))"
  have w: "iq_workers ?q0 = [idle_worker]" by (simp add: new_queue_def)
  have not_full: "\<not> queue_full ?q0" "\<not> queue_full (snd (submit ?i ?q0))" "\<not> queue_full (snd (submit ?j (snd (submit ?i ?q0))))"
    by (simp_all add: submit_def queue_full_def new_queue_def)
  have r: "receive q [Accepted (it_events i)] (snd (submit i q))" if "\<not> queue_full q" for q i
    using receive.intros[of i q True "snd (submit i q)"] that by (simp add: submit_def)
  have r3: "qrun True ?q0 [Accepted (it_events ?i), Accepted (it_events ?j), Accepted (it_events ?i)] ?q3"
    using qrun.received[OF qrun.received[OF qrun.received[OF qrun.start r] r] r] not_full by simp
  have items: "iq_items ?q3 = [?i, ?j, ?i]" using not_full by (simp add: submit_def) (simp add: new_queue_def)
  have fm: "iq_flush_max ?q0 = 100" by (simp add: new_queue_def)
  let ?k1 = "collect 100 ?i idle_worker" and ?k2 = "collect 100 ?j (collect 100 ?i idle_worker)"
  have k: "?k1 = \<lparr>wk_buf = [?i], wk_count = 1, wk_activity = Collecting\<rparr>"
      "?k2 = \<lparr>wk_buf = [?i, ?j], wk_count = 2, wk_activity = Collecting\<rparr>" "start_flush Age ?k2 = aged_worker"
    by (simp_all add: collect_def idle_worker_def live_item_def aged_worker_def start_flush_def)
  let ?q4 = "set_worker 0 ?k1 (?q3\<lparr>iq_items := [?j, ?i]\<rparr>)"
  let ?q5 = "set_worker 0 ?k2 (?q4\<lparr>iq_items := [?i]\<rparr>)"
  let ?q6 = "set_worker 0 aged_worker ?q5"
  let ?q7 = "set_worker 0 (aged_worker\<lparr>wk_activity := Stopped\<rparr>) ?q6"
  have s4: "work ?q3 [] ?q4" using work.collects[of 0 ?q3 ?i "[?j, ?i]"] items w fm by (simp add: idle_worker_def)
  have s5: "work ?q4 [] ?q5" using work.collects[of 0 ?q4 ?j "[?i]"] w fm k(1) by simp
  have s6: "work ?q5 [] ?q6" using work.times_out[of 0 ?q5] w k(2,3) by simp
  have s7: "cancel ?q6 [Abandoned (group_events (group_items [?i, ?j]))] ?q7"
    using cancel.between[of 0 ?q6] w by (simp add: cancellable_def interrupted_def aged_worker_def)
  note run = qrun.cancelled[OF qrun.worked[OF qrun.worked[OF qrun.worked[OF r3 s4] s5] s6] _ s7]
  show ?thesis
    by (rule exI, rule exI[of _ ?q7], intro conjI, rule run)
      (use w not_full in \<open>simp_all add: in_of_def live_item_def submit_def, simp_all add: new_queue_def\<close>)
qed

section \<open>Properties\<close>

text \<open>C10: As long as nobody stops the queue, for any number of workers in any interleaving and any failures of the database, every accepted event is waiting, in a group whose write returned, or in a group whose write raised, and in one of them only. A group whose write returned left in the store exactly the rows it was counted with; a group whose write raised is counted as lost event by event and left no row, unless the database failed after the commit: then its rows are in the store although its events are counted as lost. No other rows appear: the table grew by the rows counted as written and those of such late failures. The queue stays within its bound, and the batches stay a ledger.\<close>

theorem queue_accounts_for_events:
  assumes "qrun False (new_queue maxsize workers flush_max db) obs q" and "ledger (fst db)"
  shows "pending q + outs obs = ins obs \<and> list_all (\<lambda>ob. \<not> unseen ob) obs \<and>
    iq_stats q = foldl observe (iq_stats (new_queue maxsize workers flush_max db)) obs \<and>
    qs_events_lost (iq_stats q) = size (sum_list (map lost_of obs)) \<and>
    list_all faithful obs \<and>
    db_rows (iq_db q) = db_rows db + qs_written (iq_stats q) + sum_list (map unreported obs) \<and>
    (0 < iq_maxsize q \<longrightarrow> int (length (iq_items q)) \<le> iq_maxsize q) \<and> ledger (fst (iq_db q))"
proof -
  have ok: "queue_ok (new_queue maxsize workers flush_max db)" using assms(2) by (rule new_queue_ok)
  let ?st = "iq_stats (new_queue maxsize workers flush_max db)"
  have z: "qs_events_lost ?st = 0" "qs_written ?st = 0" "iq_db (new_queue maxsize workers flush_max db) = db"
    by (simp_all add: new_queue_def)
  note rows = run_rows[OF assms(1) ok]
  show ?thesis using run_accounts[OF assms(1) ok] z rows rows_written_count[OF conjunct1[OF rows], of ?st]
    by (simp add: new_queue_pending queue_ok_def events_lost_count)
qed

theorem queue_accounts_for_events_witness:
  "\<exists>q. qrun False (new_queue 10 2 100 (empty_archive, cim_init, action_index [] [])) [Accepted [bare_event ''cef'']] q \<and>
     pending q = {# bare_event ''cef'' #} \<and> qs_events_lost (iq_stats q) = 0"
proof -
  let ?q0 = "new_queue 10 2 100 (empty_archive, cim_init, action_index [] [])" and ?i = "live_item ''cef''"
  have "receive ?q0 [Accepted (it_events ?i)] (snd (submit ?i ?q0))"
    using receive.intros[of ?i ?q0 True "snd (submit ?i ?q0)"] by (simp add: submit_def queue_full_def new_queue_def)
  then have run: "qrun False ?q0 [Accepted [bare_event ''cef'']] (snd (submit ?i ?q0))"
    using qrun.received[OF qrun.start] by (fastforce simp: live_item_def)
  have l: "ledger (fst (empty_archive, cim_init, action_index [] []))" by (simp add: empty_ledger)
  show ?thesis using queue_accounts_for_events[OF run l] run by (auto simp: in_of_def out_of_def lost_of_def)
qed

text \<open>C11: Left alone, workers that nobody stopped take at most as many steps as the backlog weighs, and they can only stop when the queue and every buffer are empty and each waiting event was stored or counted as lost.\<close>

theorem backlog_drains:
  assumes "queue_ok q" and "staffed q"
  shows "(\<exists>n obs q'. busy q n obs q' \<and> (\<nexists>ob q''. work q' ob q'')) \<and>
    (\<forall>n obs q'. busy q n obs q' \<longrightarrow> n \<le> weight q \<and>
       ((\<nexists>ob q''. work q' ob q'') \<longrightarrow> iq_items q' = [] \<and> pending q' = {#} \<and> outs obs = pending q))"
  using busy_maximal backlog_drained[OF assms] stuck_drained(2) busy_staffed assms(2) by metis

theorem backlog_drains_witness:
  "\<exists>n obs q'. busy (snd (submit (live_item ''cef'') (new_queue 10 1 100 (empty_archive, cim_init, action_index [] [])))) n obs q' \<and>
     outs obs = {# bare_event ''cef'' #}"
proof -
  let ?q0 = "new_queue 10 1 100 (empty_archive, cim_init, action_index [] [])" and ?i = "live_item ''cef''"
  have nf: "\<not> queue_full ?q0" by (simp add: queue_full_def new_queue_def)
  have ok0: "queue_ok ?q0" by (rule new_queue_ok) (simp add: empty_ledger)
  have "receive ?q0 [Accepted (it_events ?i)] (snd (submit ?i ?q0))"
    using receive.intros[of ?i ?q0 True "snd (submit ?i ?q0)"] nf by (simp add: submit_def)
  then have ok: "queue_ok (snd (submit ?i ?q0))" using receive_ok ok0 by blast
  have st: "staffed (snd (submit ?i ?q0))" by (simp add: staffed_def) (simp add: new_queue_def alive_def idle_worker_def)
  have "pending (snd (submit ?i ?q0)) = {# bare_event ''cef'' #}"
    using new_queue_pending[of 10 1 100 "(empty_archive, cim_init, action_index [] [])"] nf
    by (simp add: submit_def pending_def live_item_def)
  then show ?thesis using backlog_drains[OF ok st] by metis
qed

text \<open>Grouping a buffer by source keeps the events of each source in the order in which its items arrived.\<close>

lemma groups_keep_order:
  "dict_get (group_items items) k =
     (if k \<in> item_key ` set items then Some (concat (map it_events (filter (\<lambda>i. item_key i = k) items))) else None)"
  by (rule group_items_get)

text \<open>A shutdown can lose accepted events without counting one: those of a flush that was started by age and those still queued.\<close>

lemma shutdown_loses_events_silently:
  assumes "ledger (fst db)"
  shows "\<exists>obs q. qrun True (new_queue 10 1 100 db) obs q \<and> list_all (\<lambda>k. wk_activity k = Stopped) (iq_workers q) \<and>
    size (ins obs) = 3 \<and> iq_db q = db \<and> qs_received (iq_stats q) = 3 \<and> qs_events_lost (iq_stats q) = 0"
  using assms by (rule shutdown_loses_silently)

end
