(* ===== verification/UnionFind.thy ===== *)
theory UnionFind
  imports SIEM_Prelude "HOL-Library.Monad_Syntax"
begin

text \<open>
  The disjoint set of the kill-chain module (\<open>_DisjointSet\<close> in \<open>app/killchain.py\<close>): a dict of
  parents, \<open>find\<close> with path compression, \<open>union\<close> without ranks. Its loops need not end on an
  arbitrary dict, so they are partial functions: \<^const>\<open>None\<close> is a run that does not return,
  \<open>Inl KeyError\<close> a missing key. Every forest has a root for every key, and then every operation
  returns. The locale \<open>merge_find\<close> is what a client may rely on.
\<close>

type_synonym 'a run = "(py_error + 'a) option"

definition run_bind :: "'a run \<Rightarrow> ('a \<Rightarrow> 'b run) \<Rightarrow> 'b run" where
  "run_bind m f = (case m of None \<Rightarrow> None | Some (Inl e) \<Rightarrow> Some (Inl e) | Some (Inr a) \<Rightarrow> f a)"

lemma run_bind_simps [simp]:
  "run_bind None f = None" "run_bind (Some (Inl e)) f = Some (Inl e)" "run_bind (Some (Inr a)) f = f a"
  by (simp_all add: run_bind_def)

type_synonym 'k forest = "('k, 'k) dict"

definition ds_add :: "'k \<Rightarrow> 'k forest \<Rightarrow> 'k forest" where
  "ds_add x p = dict_setdefault x x p"

text \<open>\<open>while self._parent[root] != root: root = self._parent[root]\<close>.\<close>

partial_function (option) find_root :: "'k forest \<Rightarrow> 'k \<Rightarrow> 'k run" where
  "find_root p x =
     (case dict_get p x of None \<Rightarrow> Some (Inl KeyError)
      | Some y \<Rightarrow> if y = x then Some (Inr x) else find_root p y)"

text \<open>
  \<open>while self._parent[x] != root: self._parent[x], x = root, self._parent[x]\<close>: the right-hand side
  is read before either assignment.
\<close>

partial_function (option) compress :: "'k forest \<Rightarrow> 'k \<Rightarrow> 'k \<Rightarrow> 'k forest run" where
  "compress p x root =
     (case dict_get p x of None \<Rightarrow> Some (Inl KeyError)
      | Some y \<Rightarrow> if y = root then Some (Inr p) else compress (dict_set x root p) y root)"

definition ds_find :: "'k \<Rightarrow> 'k forest \<Rightarrow> ('k \<times> 'k forest) run" where
  "ds_find x p =
     run_bind (find_root p x) (\<lambda>root. run_bind (compress p x root) (\<lambda>p'. Some (Inr (root, p'))))"

definition ds_union :: "'k \<Rightarrow> 'k \<Rightarrow> 'k forest \<Rightarrow> 'k forest run" where
  "ds_union a b p =
     run_bind (ds_find a p) (\<lambda>(ra, p).
       run_bind (ds_find b p) (\<lambda>(rb, p).
         Some (Inr (if ra \<noteq> rb then dict_set ra rb p else p))))"

declare find_root.simps [code] compress.simps [code]

section \<open>Roots\<close>

text \<open>\<open>root_at p n x r\<close>: following the parents from \<open>x\<close> reaches the root \<open>r\<close> after \<open>n\<close> steps.\<close>

inductive root_at :: "'k forest \<Rightarrow> nat \<Rightarrow> 'k \<Rightarrow> 'k \<Rightarrow> bool" for p where
  root: "dict_get p x = Some x \<Longrightarrow> root_at p 0 x x"
| step: "dict_get p x = Some y \<Longrightarrow> y \<noteq> x \<Longrightarrow> root_at p n y r \<Longrightarrow> root_at p (Suc n) x r"

inductive_cases root_at_0E: "root_at p 0 x r"
inductive_cases root_at_SucE: "root_at p (Suc n) x r"
inductive_simps root_at_simps: "root_at p n x r"

definition rep :: "'k forest \<Rightarrow> 'k \<Rightarrow> 'k \<Rightarrow> bool" where
  "rep p x r \<longleftrightarrow> (\<exists>n. root_at p n x r)"

definition ds_keys :: "'k forest \<Rightarrow> 'k set" where
  "ds_keys p = {x. dict_get p x \<noteq> None}"

definition ds_wf :: "'k forest \<Rightarrow> bool" where
  "ds_wf p \<longleftrightarrow> (\<forall>x\<in>ds_keys p. \<exists>r. rep p x r)"

definition ds_same :: "'k forest \<Rightarrow> 'k \<Rightarrow> 'k \<Rightarrow> bool" where
  "ds_same p x y \<longleftrightarrow> (\<exists>r. rep p x r \<and> rep p y r)"

lemma root_at_det: "root_at p n x r \<Longrightarrow> root_at p m x s \<Longrightarrow> n = m \<and> r = s"
proof (induction n x r arbitrary: m s rule: root_at.induct)
  case (root x)
  then show ?case by (auto elim: root_at.cases)
next
  case (step x y n r)
  from step.prems show ?case
  proof (cases rule: root_at.cases)
    case root
    then show ?thesis using step.hyps by simp
  next
    case (step y' n')
    then show ?thesis using step.hyps step.IH by (metis \<open>dict_get p x = Some y\<close> option.inject)
  qed
qed

lemma rep_det: "rep p x r \<Longrightarrow> rep p x s \<Longrightarrow> r = s"
  unfolding rep_def by (blast dest: root_at_det)

lemma root_at_root: "root_at p n x r \<Longrightarrow> dict_get p r = Some r"
  by (induction rule: root_at.induct) auto

lemma root_at_key: "root_at p n x r \<Longrightarrow> dict_get p x \<noteq> None"
  by (induction rule: root_at.induct) auto

lemma rep_root: "rep p x r \<Longrightarrow> dict_get p r = Some r \<and> rep p r r"
  using root_at_root root_at.root by (metis rep_def)

lemma rep_key: "rep p x r \<Longrightarrow> x \<in> ds_keys p"
  using root_at_key by (force simp: rep_def ds_keys_def)

section \<open>Redirecting a key\<close>

text \<open>
  Pointing a root \<open>x\<close>, or any key below the root \<open>r\<close>, at a root \<open>r\<close> other than itself: the keys
  represented by \<open>x\<close>'s old root are those whose representative may change.
\<close>

lemma redirect_root_at:
  assumes r: "dict_get p r = Some r" "r \<noteq> x"
    and h: "root_at p n z s" and s: "s \<noteq> x"
    and below: "\<And>m t. root_at p m x t \<Longrightarrow> t = r \<or> t = x"
  shows "rep (dict_set x r p) z s"
  using h s
proof (induction rule: root_at.induct)
  case (root z)
  then show ?case by (auto simp: rep_def intro!: exI[of _ 0] root_at.root)
next
  case (step z y n s)
  let ?q = "dict_set x r p"
  have rr: "root_at ?q 0 r r" using r by (intro root_at.root) simp
  show ?case
  proof (cases "z = x")
    case True
    have "root_at p (Suc n) x s" using step.hyps True by (auto intro: root_at.step)
    then have "s = r" using below step.prems by blast
    moreover have "root_at ?q (Suc 0) x r" using rr r by (intro root_at.step[of _ _ r]) simp_all
    ultimately show ?thesis using True by (auto simp: rep_def)
  next
    case False
    obtain m where "root_at ?q m y s" using step by (auto simp: rep_def)
    then have "root_at ?q (Suc m) z s" using step.hyps False by (intro root_at.step[of _ _ y]) simp_all
    then show ?thesis by (auto simp: rep_def)
  qed
qed

lemma ds_keys_set: "ds_keys (dict_set x r p) = insert x (ds_keys p)"
  by (auto simp: ds_keys_def)

text \<open>Compression keeps every representative.\<close>

lemma redirect_below:
  assumes wf: "ds_wf p" and x: "rep p x r" and ne: "x \<noteq> r"
  shows "rep (dict_set x r p) z s \<longleftrightarrow> rep p z s"
    and "ds_wf (dict_set x r p)" and "ds_keys (dict_set x r p) = ds_keys p"
proof -
  have r: "dict_get p r = Some r" using x rep_root by metis
  have k: "ds_keys (dict_set x r p) = ds_keys p" using rep_key[OF x] by (auto simp: ds_keys_set)
  have fwd: "rep (dict_set x r p) z s" if "rep p z s" for z s
  proof -
    obtain n where n: "root_at p n z s" using \<open>rep p z s\<close> by (auto simp: rep_def)
    have "s \<noteq> x"
    proof
      assume "s = x"
      then have "rep p x x" using rep_root[OF that] by simp
      then show False using rep_det[OF x] ne by blast
    qed
    moreover have "t = r \<or> t = x" if "root_at p m x t" for m t
      using rep_det[OF x] that by (auto simp: rep_def)
    ultimately show ?thesis using redirect_root_at[OF r ne[symmetric] n] by blast
  qed
  show "ds_wf (dict_set x r p)" unfolding ds_wf_def k
  proof
    fix z assume "z \<in> ds_keys p"
    with wf obtain t where "rep p z t" by (auto simp: ds_wf_def)
    then have "rep (dict_set x r p) z t" by (rule fwd)
    then show "\<exists>t. rep (dict_set x r p) z t" ..
  qed
  show "ds_keys (dict_set x r p) = ds_keys p" by (rule k)
  show "rep (dict_set x r p) z s \<longleftrightarrow> rep p z s"
  proof
    assume q: "rep (dict_set x r p) z s"
    have "z \<in> ds_keys p" using rep_key[OF q] k by simp
    then obtain t where "rep p z t" using wf by (auto simp: ds_wf_def)
    then show "rep p z s" using rep_det[OF q fwd] by simp
  qed (rule fwd)
qed

text \<open>Linking one root under another merges their classes.\<close>

lemma redirect_root:
  assumes wf: "ds_wf p" and a: "dict_get p a = Some a" and b: "dict_get p b = Some b" and ne: "a \<noteq> b"
  shows "rep (dict_set a b p) z s \<longleftrightarrow> (\<exists>t. rep p z t \<and> s = (if t = a then b else t))"
    and "ds_wf (dict_set a b p)" and "ds_keys (dict_set a b p) = ds_keys p"
proof -
  let ?q = "dict_set a b p"
  have k: "ds_keys ?q = ds_keys p" using a by (auto simp: ds_keys_def)
  have below: "t = b \<or> t = a" if "root_at p m a t" for m t
    using root_at_det[OF that root_at.root[OF a]] by simp
  have bq: "root_at ?q 0 b b" using b ne by (intro root_at.root) simp
  have aq: "rep ?q a b" using root_at.step[of ?q a b, OF _ _ bq] ne by (auto simp: rep_def)
  have to_a: "rep ?q z b" if "root_at p n z t" "t = a" for n z t
    using that
  proof (induction rule: root_at.induct)
    case (step z y n s)
    show ?case
    proof (cases "z = a")
      case False
      obtain m where "root_at ?q m y b" using step by (auto simp: rep_def)
      then have "root_at ?q (Suc m) z b" using step.hyps False by (intro root_at.step[of _ _ y]) simp_all
      then show ?thesis by (auto simp: rep_def)
    qed (use aq in simp)
  qed (use aq in simp)
  have fwd: "rep ?q z (if t = a then b else t)" if "rep p z t" for z t
  proof -
    from that obtain n where n: "root_at p n z t" unfolding rep_def ..
    show ?thesis
    proof (cases "t = a")
      case True
      then show ?thesis using to_a[OF n] by simp
    next
      case False
      then show ?thesis using redirect_root_at[OF b ne[symmetric] n _ below] by simp
    qed
  qed
  show "ds_wf ?q" unfolding ds_wf_def k
  proof
    fix z assume "z \<in> ds_keys p"
    with wf obtain t where "rep p z t" by (auto simp: ds_wf_def)
    then have "rep ?q z (if t = a then b else t)" by (rule fwd)
    then show "\<exists>t. rep ?q z t" ..
  qed
  show "ds_keys ?q = ds_keys p" by (rule k)
  show "rep ?q z s \<longleftrightarrow> (\<exists>t. rep p z t \<and> s = (if t = a then b else t))"
  proof
    assume q: "rep ?q z s"
    have "z \<in> ds_keys p" using rep_key[OF q] k by simp
    then obtain t where t: "rep p z t" using wf by (auto simp: ds_wf_def)
    then show "\<exists>t. rep p z t \<and> s = (if t = a then b else t)" using fwd[OF t] rep_det[OF q] by blast
  qed (use fwd in blast)
qed


section \<open>Find and union\<close>

lemma find_root_rep: "root_at p n x r \<Longrightarrow> find_root p x = Some (Inr r)"
  by (induction rule: root_at.induct) (simp_all add: find_root.simps)

lemma compress_rep:
  "root_at p n x r \<Longrightarrow> ds_wf p \<Longrightarrow>
     \<exists>q. compress p x r = Some (Inr q) \<and> ds_wf q \<and> ds_keys q = ds_keys p \<and> (\<forall>z s. rep q z s = rep p z s)"
proof (induction n arbitrary: p x)
  case 0
  then have "x = r" "dict_get p x = Some x" by (auto elim: root_at_0E)
  then show ?case using 0 by (simp add: compress.simps)
next
  case (Suc n)
  then obtain y where y: "dict_get p x = Some y" "y \<noteq> x" "root_at p n y r"
    by (auto elim: root_at_SucE)
  show ?case
  proof (cases "y = r")
    case True
    then show ?thesis using y Suc.prems by (simp add: compress.simps[of p x])
  next
    case False
    have x: "rep p x r" using Suc.prems(1) by (auto simp: rep_def)
    have ne: "x \<noteq> r"
    proof
      assume "x = r"
      then show False using root_at_root[OF Suc.prems(1)] y by simp
    qed
    note q = redirect_below[OF Suc.prems(2) x ne]
    have "root_at (dict_set x r p) n y r"
    proof -
      have "root_at p m z s \<Longrightarrow> s = r \<Longrightarrow> m \<le> n \<Longrightarrow> root_at (dict_set x r p) m z s" for m z s
      proof (induction rule: root_at.induct)
        case (root z)
        then show ?case using ne by (intro root_at.root) simp
      next
        case (step z w m s)
        have "z \<noteq> x" using root_at_det[OF Suc.prems(1), of "Suc m" r] root_at.step[OF step.hyps] step.prems by auto
        then show ?case using step by (intro root_at.step[of _ z w]) simp_all
      qed
      then show ?thesis using y(3) by blast
    qed
    from Suc.IH[OF this q(2)] show ?thesis
      using y False q by (simp add: compress.simps[of p x])
  qed
qed

text \<open>\<open>find\<close> returns the representative and changes none.\<close>

lemma ds_find_rep:
  assumes "ds_wf p" "rep p x r"
  shows "\<exists>q. ds_find x p = Some (Inr (r, q)) \<and> ds_wf q \<and> ds_keys q = ds_keys p \<and> (\<forall>z s. rep q z s = rep p z s)"
proof -
  obtain n where "root_at p n x r" using assms(2) by (auto simp: rep_def)
  from find_root_rep[OF this] compress_rep[OF this assms(1)] show ?thesis by (auto simp: ds_find_def)
qed

lemma ds_union_rep:
  assumes wf: "ds_wf p" and a: "rep p a ra" and b: "rep p b rb"
  shows "\<exists>q. ds_union a b p = Some (Inr q) \<and> ds_wf q \<and> ds_keys q = ds_keys p \<and>
     (\<forall>z s. rep q z s = (\<exists>t. rep p z t \<and> s = (if t = ra then rb else t)))"
proof -
  from ds_find_rep[OF wf a] obtain q1 where 1: "ds_find a p = Some (Inr (ra, q1))" "ds_wf q1"
    "ds_keys q1 = ds_keys p" "\<forall>z s. rep q1 z s = rep p z s" by blast
  from ds_find_rep[OF 1(2), of b rb] 1(4) b obtain q2 where 2: "ds_find b q1 = Some (Inr (rb, q2))"
    "ds_wf q2" "ds_keys q2 = ds_keys q1" "\<forall>z s. rep q2 z s = rep q1 z s" by blast
  show ?thesis
  proof (cases "ra = rb")
    case True
    then show ?thesis using 1 2 by (auto simp: ds_union_def)
  next
    case False
    have "rep q2 ra ra" "rep q2 rb rb" using a b 1 2 by (metis rep_root)+
    then have "dict_get q2 ra = Some ra" "dict_get q2 rb = Some rb" using rep_root by metis+
    from redirect_root[OF 2(2) this False] show ?thesis using 1 2 False by (simp add: ds_union_def)
  qed
qed

lemma ds_same_cases:
  assumes "ds_wf p" "x \<in> ds_keys p" obtains r where "rep p x r"
  using assms by (auto simp: ds_wf_def)

section \<open>The interface\<close>

text \<open>
  A store of classes over a fixed set of keys: merging succeeds on keys and joins exactly the two
  classes. A client that merges a list of pairs gets the equivalence closure of them.
\<close>

locale merge_find =
  fixes wf :: "'s \<Rightarrow> bool" and keys :: "'s \<Rightarrow> 'k set" and same :: "'s \<Rightarrow> 'k \<Rightarrow> 'k \<Rightarrow> bool"
    and merge :: "'k \<Rightarrow> 'k \<Rightarrow> 's \<Rightarrow> 's run"
  assumes same_refl: "wf s \<Longrightarrow> x \<in> keys s \<Longrightarrow> same s x x"
    and same_sym: "same s x y \<Longrightarrow> same s y x"
    and same_trans: "same s x y \<Longrightarrow> same s y z \<Longrightarrow> same s x z"
    and same_keys: "same s x y \<Longrightarrow> x \<in> keys s"
    and merge_law: "wf s \<Longrightarrow> a \<in> keys s \<Longrightarrow> b \<in> keys s \<Longrightarrow>
        \<exists>t. merge a b s = Some (Inr t) \<and> wf t \<and> keys t = keys s \<and>
          (\<forall>x y. same t x y \<longleftrightarrow> same s x y \<or> (same s x a \<and> same s b y) \<or> (same s x b \<and> same s a y))"
begin

fun merge_all :: "('k \<times> 'k) list \<Rightarrow> 's \<Rightarrow> 's run" where
  "merge_all [] s = Some (Inr s)"
| "merge_all ((a, b) # es) s = run_bind (merge a b s) (merge_all es)"

definition linked :: "'s \<Rightarrow> ('k \<times> 'k) list \<Rightarrow> ('k \<times> 'k) set" where
  "linked s es = {(x, y). same s x y} \<union> set es \<union> (set es)\<inverse>"

lemma linked_sym: "(x, y) \<in> (linked s es)\<^sup>* \<Longrightarrow> (y, x) \<in> (linked s es)\<^sup>*"
proof -
  have "sym (linked s es)" by (auto simp: linked_def sym_def intro: same_sym)
  then show "(x, y) \<in> (linked s es)\<^sup>* \<Longrightarrow> (y, x) \<in> (linked s es)\<^sup>*"
    by (meson sym_rtrancl symD)
qed

lemma linked_keys:
  assumes "(x, y) \<in> (linked s es)\<^sup>*" "x \<in> keys s" "fst ` set es \<union> snd ` set es \<subseteq> keys s"
  shows "y \<in> keys s"
  using assms(1,2)
proof (induction rule: rtrancl_induct)
  case (step y z)
  have "(y, z) \<in> linked s es" by (rule step.hyps)
  then have "same s z y \<or> z \<in> fst ` set es \<union> snd ` set es"
    by (auto simp: linked_def rev_image_eqI intro: same_sym)
  then show ?case using same_keys assms(3) by blast
qed

text \<open>Merging all pairs yields the classes of their closure.\<close>

lemma merge_all_linked:
  assumes "wf s" "fst ` set es \<union> snd ` set es \<subseteq> keys s"
  shows "\<exists>t. merge_all es s = Some (Inr t) \<and> wf t \<and> keys t = keys s \<and>
      (\<forall>x\<in>keys s. \<forall>y. same t x y \<longleftrightarrow> (x, y) \<in> (linked s es)\<^sup>*)"
  using assms
proof (induction es arbitrary: s)
  case Nil
  have "(x, y) \<in> (linked s [])\<^sup>* \<Longrightarrow> x \<in> keys s \<Longrightarrow> same s x y" for x y
    by (induction rule: rtrancl_induct) (auto simp: linked_def same_refl Nil intro: same_trans)
  moreover have "same s x y \<Longrightarrow> (x, y) \<in> (linked s [])\<^sup>*" for x y
    by (rule r_into_rtrancl) (simp add: linked_def)
  ultimately show ?case using Nil by auto
next
  case (Cons e es)
  obtain a b where e: "e = (a, b)" by (cases e)
  have ab: "a \<in> keys s" "b \<in> keys s" using Cons.prems(2) by (auto simp: e)
  from merge_law[OF Cons.prems(1) ab] obtain u where u: "merge a b s = Some (Inr u)" "wf u"
    "keys u = keys s"
    and su: "\<And>x y. same u x y \<longleftrightarrow> same s x y \<or> (same s x a \<and> same s b y) \<or> (same s x b \<and> same s a y)"
    by blast
  from Cons.IH[OF u(2)] Cons.prems(2) u(3) obtain t where t: "merge_all es u = Some (Inr t)" "wf t"
    "keys t = keys s" and st: "\<And>x y. x \<in> keys s \<Longrightarrow> same t x y \<longleftrightarrow> (x, y) \<in> (linked u es)\<^sup>*"
    by auto
  have l: "(x, y) \<in> (linked s (e # es))\<^sup>*" if "same s x y" for x y
    using that by (intro r_into_rtrancl) (simp add: linked_def)
  have ab': "(a, b) \<in> (linked s (e # es))\<^sup>*" "(b, a) \<in> (linked s (e # es))\<^sup>*"
    by (intro r_into_rtrancl, simp add: linked_def e)+
  have sub1: "linked u es \<subseteq> (linked s (e # es))\<^sup>*"
  proof
    fix p assume "p \<in> linked u es"
    then obtain x y where p: "p = (x, y)" and
      "same u x y \<or> (x, y) \<in> set es \<or> (y, x) \<in> set es" by (cases p) (auto simp: linked_def)
    then have "same s x y \<or> (same s x a \<and> same s b y) \<or> (same s x b \<and> same s a y) \<or>
        (x, y) \<in> linked s (e # es)" unfolding su linked_def by auto
    then consider "same s x y" | "same s x a" "same s b y" | "same s x b" "same s a y"
      | "(x, y) \<in> linked s (e # es)" by argo
    then show "p \<in> (linked s (e # es))\<^sup>*"
    proof cases
      case 2
      then show ?thesis unfolding p using l ab'(1) by (meson rtrancl_trans)
    next
      case 3
      then show ?thesis unfolding p using l ab'(2) by (meson rtrancl_trans)
    qed (auto simp: p l)
  qed
  have sub2: "linked s (e # es) \<subseteq> linked u es"
    using su ab same_refl[OF Cons.prems(1)] by (auto simp: linked_def e)
  have "(linked u es)\<^sup>* = (linked s (e # es))\<^sup>*"
    using rtrancl_subset[OF sub2 sub1] by simp
  then show ?case using t st u by (auto simp: e)
qed

end

text \<open>The disjoint set provides it.\<close>

interpretation ds: merge_find ds_wf ds_keys ds_same ds_union
proof
  fix s :: "'a forest" and x y z a b
  show "ds_wf s \<Longrightarrow> x \<in> ds_keys s \<Longrightarrow> ds_same s x x" by (auto simp: ds_wf_def ds_same_def)
  show "ds_same s x y \<Longrightarrow> ds_same s y x" by (auto simp: ds_same_def)
  show "ds_same s x y \<Longrightarrow> ds_same s y z \<Longrightarrow> ds_same s x z"
    unfolding ds_same_def using rep_det by metis
  show "ds_same s x y \<Longrightarrow> x \<in> ds_keys s" using rep_key by (auto simp: ds_same_def)
  assume wf: "ds_wf s" and a: "a \<in> ds_keys s" and b: "b \<in> ds_keys s"
  obtain ra rb where r: "rep s a ra" "rep s b rb" using wf a b by (meson ds_same_cases)
  have ra: "rep s x ra \<longleftrightarrow> ds_same s x a" and rb: "rep s x rb \<longleftrightarrow> ds_same s x b" for x
    using r rep_det unfolding ds_same_def by metis+
  from ds_union_rep[OF wf r] obtain q where q: "ds_union a b s = Some (Inr q)" "ds_wf q"
    "ds_keys q = ds_keys s" "\<forall>z t. rep q z t = (\<exists>u. rep s z u \<and> t = (if u = ra then rb else u))"
    by blast
  have "ds_same q x y \<longleftrightarrow>
      ds_same s x y \<or> (ds_same s x a \<and> ds_same s b y) \<or> (ds_same s x b \<and> ds_same s a y)" for x y
  proof -
    have "ds_same q x y \<longleftrightarrow> (\<exists>u v. rep s x u \<and> rep s y v \<and>
        (if u = ra then rb else u) = (if v = ra then rb else v))"
      unfolding ds_same_def q(4)[rule_format] by blast
    also have "\<dots> \<longleftrightarrow> (\<exists>u. rep s x u \<and> rep s y u) \<or> (rep s x ra \<and> rep s y rb) \<or> (rep s x rb \<and> rep s y ra)"
      (is "?L \<longleftrightarrow> ?R")
    proof
      assume ?L
      then obtain u v where "rep s x u" "rep s y v" "(if u = ra then rb else u) = (if v = ra then rb else v)"
        by blast
      then show ?R by (cases "u = ra"; cases "v = ra") auto
    qed fastforce
    also have "\<dots> \<longleftrightarrow>
        ds_same s x y \<or> (ds_same s x a \<and> ds_same s b y) \<or> (ds_same s x b \<and> ds_same s a y)"
      unfolding ra rb by (auto simp: ds_same_def)
    finally show ?thesis .
  qed
  then show "\<exists>t. ds_union a b s = Some (Inr t) \<and> ds_wf t \<and> ds_keys t = ds_keys s \<and>
      (\<forall>x y. ds_same t x y \<longleftrightarrow>
        ds_same s x y \<or> (ds_same s x a \<and> ds_same s b y) \<or> (ds_same s x b \<and> ds_same s a y))"
    using q by blast
qed

end
