(* ===== verification/KillChain.thy ===== *)
theory KillChain
  imports UnionFind "HOL-Library.Product_Lexorder" "HOL-Library.Multiset"
begin

text \<open>
  Kill-chain reconstruction (\<open>app/killchain.py\<close>) and the severity ordering it rolls up with
  (\<open>app/severity.py\<close>). Alerts carry their columns as a record; times are integers (microseconds), as
  \<open>_epoch\<close> yields them. The main fact: grouping by union of time-neighbours returns, and two
  alerts are in one group exactly when a chain of alerts sharing an entity within the gap joins them.
\<close>

section \<open>Severity\<close>

definition severity_order :: "string list" where
  "severity_order = [''informational'', ''low'', ''medium'', ''high'', ''critical'']"

fun index_of :: "'a \<Rightarrow> 'a list \<Rightarrow> nat option" where
  "index_of x [] = None"
| "index_of x (y # ys) = (if x = y then Some 0 else map_option Suc (index_of x ys))"

definition severity_rank :: "string option \<Rightarrow> nat" where
  "severity_rank level =
     (case index_of (lower (strip (case level of None \<Rightarrow> [] | Some l \<Rightarrow> l))) severity_order of
        Some i \<Rightarrow> i | None \<Rightarrow> 2)"

text \<open>\<open>max(usable, key=severity_rank)\<close>: the first of the highest.\<close>

definition max_severity :: "string option list \<Rightarrow> string \<Rightarrow> string" where
  "max_severity levels dflt =
     (let usable = [lower s. Some s \<leftarrow> levels, s \<noteq> []]
      in if usable = [] then dflt else arg_min_list (\<lambda>s. - int (severity_rank (Some s))) usable)"

section \<open>Tactics\<close>

definition kill_chain_tactics :: "string list" where
  "kill_chain_tactics =
     [''reconnaissance'', ''resource-development'', ''initial-access'', ''execution'',
      ''persistence'', ''privilege-escalation'', ''defense-evasion'', ''evasion'',
      ''credential-access'', ''discovery'', ''lateral-movement'', ''collection'',
      ''command-and-control'', ''exfiltration'', ''inhibit-response-function'',
      ''impair-process-control'', ''impact'']"

definition normalize_tactic :: "string \<Rightarrow> string" where
  "normalize_tactic tactic =
     (let s = lower (strip tactic);
          s = (if prefix ''attack.'' s then drop 7 s else s)
      in replace_char CHR '' '' ''-'' (replace_char CHR ''_'' ''-'' s))"

definition tactic_rank :: "string \<Rightarrow> nat" where
  "tactic_rank tactic =
     (case index_of (normalize_tactic tactic) kill_chain_tactics of
        Some i \<Rightarrow> i | None \<Rightarrow> length kill_chain_tactics)"

definition is_letter :: "char \<Rightarrow> bool" where
  "is_letter c \<longleftrightarrow> (65 \<le> code c \<and> code c \<le> 90) \<or> (97 \<le> code c \<and> code c \<le> 122)"

text \<open>\<open>str.title\<close>: a letter after a non-letter is upper case, every other letter lower case.\<close>

fun title_case :: "bool \<Rightarrow> string \<Rightarrow> string" where
  "title_case inside [] = []"
| "title_case inside (c # cs) =
     (if is_letter c then (if inside then lower_char c else upper_char c) # title_case True cs
      else c # title_case False cs)"

definition tactic_title :: "string \<Rightarrow> string" where
  "tactic_title tactic = title_case False (replace_char CHR ''-'' '' '' (normalize_tactic tactic))"

section \<open>Alerts\<close>

record kalert =
  ka_id :: "int option"
  ka_user_name :: "string option"
  ka_host_name :: "string option"
  ka_src_ip :: "string option"
  ka_tactics :: "string list"
  ka_techniques :: "string list"
  ka_level :: "string option"
  ka_event_time :: "int option"
  ka_created_at :: "int option"

definition alert_tactics :: "kalert \<Rightarrow> string list" where
  "alert_tactics a =
     sort_key tactic_rank
       (filter (\<lambda>t. t \<in> set kill_chain_tactics) (remdups (map normalize_tactic (ka_tactics a))))"

type_synonym entity = "string \<times> string"

definition alert_entities :: "kalert \<Rightarrow> entity list" where
  "alert_entities a =
     [(etype, val). (etype, Some val) \<leftarrow>
        [(''user'', ka_user_name a), (''host'', ka_host_name a), (''ip'', ka_src_ip a)], val \<noteq> []]"

text \<open>\<open>_epoch(event_time) or _epoch(created_at)\<close>: a zero is falsy.\<close>

definition alert_time :: "kalert \<Rightarrow> int option" where
  "alert_time a =
     (case ka_event_time a of Some t \<Rightarrow> if t \<noteq> 0 then Some t else ka_created_at a
      | None \<Rightarrow> ka_created_at a)"

definition time_or_zero :: "kalert \<Rightarrow> int" where
  "time_or_zero a = (case alert_time a of Some t \<Rightarrow> t | None \<Rightarrow> 0)"

section \<open>Chains\<close>

definition the_id :: "kalert \<Rightarrow> int" where
  "the_id a = (case ka_id a of Some i \<Rightarrow> i | None \<Rightarrow> 0)"

definition items_of :: "kalert list \<Rightarrow> kalert list" where
  "items_of alerts = filter (\<lambda>a. ka_id a \<noteq> None) alerts"

definition times_of :: "kalert list \<Rightarrow> (int, int) dict" where
  "times_of items = foldl (\<lambda>d a. dict_set (the_id a) (time_or_zero a) d) [] items"

definition ts_at :: "(int, int) dict \<Rightarrow> int \<Rightarrow> int" where
  "ts_at ts i = (case dict_get ts i of Some t \<Rightarrow> t | None \<Rightarrow> 0)"

definition dict_append :: "'k \<Rightarrow> 'v \<Rightarrow> ('k, 'v list) dict \<Rightarrow> ('k, 'v list) dict" where
  "dict_append k v d = dict_set k ((case dict_get d k of Some vs \<Rightarrow> vs | None \<Rightarrow> []) @ [v]) d"

definition entity_members :: "kalert list \<Rightarrow> (entity, int list) dict" where
  "entity_members items =
     foldl (\<lambda>d a. foldl (\<lambda>d ent. dict_append ent (the_id a) d) d (alert_entities a)) [] items"

text \<open>The neighbours of one timeline that fall within the gap.\<close>

definition near_pairs :: "(int \<Rightarrow> int) \<Rightarrow> int \<Rightarrow> int list \<Rightarrow> (int \<times> int) list" where
  "near_pairs ts gap ms = filter (\<lambda>(prev, cur). ts cur - ts prev \<le> gap) (zip ms (tl ms))"

fun union_all :: "(int \<times> int) list \<Rightarrow> int forest \<Rightarrow> int forest run" where
  "union_all [] ds = Some (Inr ds)"
| "union_all ((prev, cur) # es) ds = run_bind (ds_union prev cur ds) (union_all es)"

definition link_pairs :: "kalert list \<Rightarrow> int \<Rightarrow> (int \<times> int) list" where
  "link_pairs items gap =
     (let ts = ts_at (times_of items)
      in concat (map (\<lambda>(ent, members). near_pairs ts gap (sort_key ts members)) (entity_members items)))"

fun group_alerts ::
    "kalert list \<Rightarrow> int forest \<Rightarrow> (int, kalert list) dict \<Rightarrow> (int, kalert list) dict run" where
  "group_alerts [] ds groups = Some (Inr groups)"
| "group_alerts (a # items) ds groups =
     run_bind (ds_find (the_id a) ds) (\<lambda>(root, ds). group_alerts items ds (dict_append root a groups))"

definition chain_groups :: "kalert list \<Rightarrow> int \<Rightarrow> kalert list list run" where
  "chain_groups items gap =
     run_bind (union_all (link_pairs items gap) (foldl (\<lambda>ds a. ds_add (the_id a) ds) [] items))
       (\<lambda>ds. run_bind (group_alerts items ds []) (\<lambda>groups. Some (Inr (map snd groups))))"

definition chain_tactics :: "kalert list \<Rightarrow> string list" where
  "chain_tactics members = remdups (concat (map alert_tactics members))"

definition chain_key :: "(int \<Rightarrow> int) \<Rightarrow> kalert list \<Rightarrow> int \<times> int" where
  "chain_key ts c = (- int (length c), Min (set (map (\<lambda>a. ts (the_id a)) c)))"

definition build_chains :: "kalert list \<Rightarrow> int \<Rightarrow> nat \<Rightarrow> kalert list list run" where
  "build_chains alerts max_gap min_tactics =
     (let items = items_of alerts in
      run_bind (chain_groups items max_gap) (\<lambda>groups.
        Some (Inr (sort_key (chain_key (ts_at (times_of items)))
          (filter (\<lambda>members. min_tactics \<le> length (chain_tactics members)) groups)))))"

section \<open>Summaries\<close>

record pivot =
  pv_type :: string
  pv_value :: string
  pv_count :: nat

definition entity_counts :: "kalert list \<Rightarrow> (entity, nat) dict" where
  "entity_counts alerts =
     foldl (\<lambda>d ent. dict_set ent ((case dict_get d ent of Some n \<Rightarrow> n | None \<Rightarrow> 0) + 1) d) []
       (concat (map alert_entities alerts))"

definition pivot_entities :: "kalert list \<Rightarrow> pivot list" where
  "pivot_entities alerts =
     (let shared = [(etype, val, n). ((etype, val), n) \<leftarrow> entity_counts alerts, 2 \<le> n]
      in map (\<lambda>(e, v, n). \<lparr>pv_type = e, pv_value = v, pv_count = n\<rparr>)
           (sort_key (\<lambda>(e, v, n). (- int n, e, v)) shared))"

record stage =
  sg_tactic :: string
  sg_title :: string
  sg_rank :: nat
  sg_alerts :: "kalert list"
  sg_techniques :: "string list"
  sg_first_time :: "int option"
  sg_last_time :: "int option"

definition falsy_time :: "int option \<Rightarrow> int \<Rightarrow> int" where
  "falsy_time t at = (case t of Some v \<Rightarrow> if v \<noteq> 0 then v else at | None \<Rightarrow> at)"

definition new_stage :: "string \<Rightarrow> int option \<Rightarrow> stage" where
  "new_stage tac at =
     \<lparr>sg_tactic = tac, sg_title = tactic_title tac, sg_rank = tactic_rank tac, sg_alerts = [],
      sg_techniques = [], sg_first_time = at, sg_last_time = at\<rparr>"

definition stage_add :: "kalert \<Rightarrow> stage \<Rightarrow> stage" where
  "stage_add a st =
     (let at = alert_time a;
          st = st\<lparr>sg_alerts := sg_alerts st @ [a], sg_techniques := sg_techniques st @ ka_techniques a\<rparr>
      in case at of None \<Rightarrow> st
         | Some t \<Rightarrow> st\<lparr>sg_first_time := Some (min (falsy_time (sg_first_time st) t) t),
                      sg_last_time := Some (max (falsy_time (sg_last_time st) t) t)\<rparr>)"

definition stage_step :: "kalert \<Rightarrow> (string, stage) dict \<Rightarrow> string \<Rightarrow> (string, stage) dict" where
  "stage_step a m tac =
     dict_set tac
       (stage_add a (case dict_get m tac of Some st \<Rightarrow> st | None \<Rightarrow> new_stage tac (alert_time a))) m"

definition stage_map :: "kalert list \<Rightarrow> (string, stage) dict" where
  "stage_map ordered = foldl (\<lambda>m a. foldl (stage_step a) m (alert_tactics a)) [] ordered"

definition stages_of :: "kalert list \<Rightarrow> stage list" where
  "stages_of ordered =
     map (\<lambda>st. st\<lparr>sg_techniques := sort (remdups (sg_techniques st))\<rparr>)
       (sort_key sg_rank (map snd (stage_map ordered)))"

record story =
  sy_title :: string
  sy_narrative :: string
  sy_severity :: string
  sy_stages :: "stage list"
  sy_entities :: "pivot list"
  sy_techniques :: "string list"
  sy_alerts :: "kalert list"
  sy_alert_ids :: "int list"
  sy_alert_count :: nat
  sy_tactic_count :: nat
  sy_first_time :: "int option"
  sy_last_time :: "int option"
  sy_span :: "int option"
  sy_signature :: string

text \<open>The arrow of the titles in UTF-8, and a cut after so many code points.\<close>

definition arrow :: string where
  "arrow = '' '' @ map char_of [226::int, 134, 146] @ '' ''"

fun utf8_take :: "nat \<Rightarrow> string \<Rightarrow> string" where
  "utf8_take n [] = []"
| "utf8_take n (c # cs) =
     (if 128 \<le> code c \<and> code c < 192 then c # utf8_take n cs
      else case n of 0 \<Rightarrow> [] | Suc m \<Rightarrow> c # utf8_take m cs)"

definition order_alerts :: "kalert list \<Rightarrow> kalert list" where
  "order_alerts alerts = sort_key time_or_zero alerts"

definition summarize_chain :: "(string \<Rightarrow> string) \<Rightarrow> kalert list \<Rightarrow> story" where
  "summarize_chain sha256 alerts =
     (let ordered = order_alerts alerts;
          stages = stages_of ordered;
          entities = pivot_entities ordered;
          times = [t. Some t \<leftarrow> map alert_time ordered];
          first_t = (if times = [] then None else Some (Min (set times)));
          last_t = (if times = [] then None else Some (Max (set times)));
          pivot_label = (case entities of [] \<Rightarrow> ''shared entity''
                         | p # _ \<Rightarrow> pv_type p @ '' '' @ pv_value p);
          flow = join arrow (map sg_title stages);
          alert_ids = sort (map the_id ordered)
      in \<lparr>sy_title = utf8_take 200 (flow @ '' on '' @ pivot_label),
          sy_narrative = nat_str (int (length ordered)) @ '' alerts spanning ''
             @ nat_str (int (length stages)) @ '' ATT&CK tactics ('' @ flow @ '') linked by '' @ pivot_label
             @ (if 1 < length entities
                then '' and '' @ nat_str (int (length entities - 1)) @ '' more entity(ies)'' else [])
             @ ''.'',
          sy_severity = max_severity (map ka_level ordered) ''medium'',
          sy_stages = stages, sy_entities = entities,
          sy_techniques = sort (remdups (concat (map ka_techniques ordered))),
          sy_alerts = ordered, sy_alert_ids = alert_ids, sy_alert_count = length ordered,
          sy_tactic_count = length stages, sy_first_time = first_t, sy_last_time = last_t,
          sy_span = (case (first_t, last_t) of (Some f, Some l) \<Rightarrow> Some (l - f) | _ \<Rightarrow> None),
          sy_signature = sha256 (''kc|'' @ join '','' (map int_str alert_ids))\<rparr>)"

definition story_key :: "story \<Rightarrow> int \<times> int \<times> int" where
  "story_key s =
     (- int (severity_rank (Some (sy_severity s))), - int (sy_tactic_count s),
      - (case sy_last_time s of Some t \<Rightarrow> t | None \<Rightarrow> 0))"

definition reconstruct :: "(string \<Rightarrow> string) \<Rightarrow> kalert list \<Rightarrow> int \<Rightarrow> nat \<Rightarrow> story list run" where
  "reconstruct sha256 alerts max_gap min_tactics =
     run_bind (build_chains alerts max_gap min_tactics) (\<lambda>chains.
       Some (Inr (sort_key story_key (map (summarize_chain sha256) chains))))"

section \<open>Timelines\<close>

lemma near_pairs_Cons:
  "near_pairs ts gap (a # b # ms) =
     (if ts b - ts a \<le> gap then [(a, b)] else []) @ near_pairs ts gap (b # ms)"
  "near_pairs ts gap [a] = []" "near_pairs ts gap [] = []"
  by (simp_all add: near_pairs_def)

lemma near_pairs_sub: "set (near_pairs ts gap (b # ms)) \<subseteq> set (near_pairs ts gap (a # b # ms))"
  by (simp add: near_pairs_Cons)

lemma near_pairs_linked:
  "(x, y) \<in> set (near_pairs ts gap ms) \<Longrightarrow> x \<in> set ms \<and> y \<in> set ms \<and> ts y - ts x \<le> gap"
  by (induction ms rule: induct_list012) (auto simp: near_pairs_Cons split: if_splits)

text \<open>On a sorted timeline two members within the gap are joined through their neighbours.\<close>

lemma near_pairs_reach:
  "sorted (map ts ms) \<Longrightarrow> ms = a # rest \<Longrightarrow> b \<in> set ms \<Longrightarrow> ts b - ts a \<le> gap \<Longrightarrow>
     (a, b) \<in> (set (near_pairs ts gap ms))\<^sup>*"
proof (induction ms arbitrary: a rest rule: induct_list012)
  case (3 x c ms)
  show ?case
  proof (cases "b = a")
    case False
    with "3.prems" have b: "b \<in> set (c # ms)" and ax: "a = x" by auto
    have le: "ts c \<le> ts b" "ts a \<le> ts c" using "3.prems"(1) b ax by auto
    have "(c, b) \<in> (set (near_pairs ts gap (c # ms)))\<^sup>*"
      using "3.IH"(2)[OF _ refl b] "3.prems"(1,4) le by simp
    then have "(c, b) \<in> (set (near_pairs ts gap (x # c # ms)))\<^sup>*"
      using rtrancl_mono[OF near_pairs_sub] by blast
    moreover have "(a, c) \<in> set (near_pairs ts gap (x # c # ms))"
      using "3.prems"(4) le ax by (simp add: near_pairs_Cons)
    ultimately show ?thesis by (rule converse_rtrancl_into_rtrancl[rotated])
  qed simp
qed auto

lemma near_pairs_join:
  assumes "sorted (map ts ms)" "a \<in> set ms" "b \<in> set ms" "\<bar>ts a - ts b\<bar> \<le> gap"
  shows "(a, b) \<in> (set (near_pairs ts gap ms))\<^sup>* \<or> (b, a) \<in> (set (near_pairs ts gap ms))\<^sup>*"
  using assms
proof (induction ms)
  case (Cons x ms)
  show ?case
  proof (cases "a = x \<or> b = x")
    case True
    then show ?thesis
      using near_pairs_reach[OF Cons.prems(1) refl] Cons.prems by fastforce
  next
    case False
    then have "(a, b) \<in> (set (near_pairs ts gap ms))\<^sup>* \<or> (b, a) \<in> (set (near_pairs ts gap ms))\<^sup>*"
      using Cons by auto
    moreover have "set (near_pairs ts gap ms) \<subseteq> set (near_pairs ts gap (x # ms))"
      by (cases ms) (simp_all add: near_pairs_Cons)
    ultimately show ?thesis using rtrancl_mono by blast
  qed
qed simp

section \<open>Members by entity\<close>

lemma dict_get_append:
  "dict_get (dict_append k v d) j =
     (if j = k then Some ((case dict_get d k of Some vs \<Rightarrow> vs | None \<Rightarrow> []) @ [v]) else dict_get d j)"
  by (simp add: dict_append_def)

definition lst :: "('k, 'v list) dict \<Rightarrow> 'k \<Rightarrow> 'v list" where
  "lst d k = (case dict_get d k of Some vs \<Rightarrow> vs | None \<Rightarrow> [])"

lemma lst_append: "lst (dict_append k v d) j = lst d j @ (if j = k then [v] else [])"
  by (simp add: lst_def dict_get_append)

lemma lst_fold_append:
  "distinct es \<Longrightarrow> lst (foldl (\<lambda>d e. dict_append e v d) d es) k = lst d k @ (if k \<in> set es then [v] else [])"
  by (induction es arbitrary: d) (auto simp: lst_append)

lemma distinct_alert_entities: "distinct (alert_entities a)"
  by (auto simp: alert_entities_def split: option.splits)

lemma lst_entity_members:
  "lst (entity_members items) ent = map the_id (filter (\<lambda>a. ent \<in> set (alert_entities a)) items)"
proof -
  have "lst (foldl (\<lambda>d a. foldl (\<lambda>d ent. dict_append ent (the_id a) d) d (alert_entities a)) d items) ent
      = lst d ent @ map the_id (filter (\<lambda>a. ent \<in> set (alert_entities a)) items)" for d
    by (induction items arbitrary: d) (simp_all add: lst_fold_append distinct_alert_entities)
  from this[of "[]"] show ?thesis by (simp add: entity_members_def lst_def)
qed

lemma distinct_dict_append: "distinct (map fst d) \<Longrightarrow> distinct (map fst (dict_append k v d))"
  by (simp add: dict_append_def)

lemma distinct_entity_members: "distinct (map fst (entity_members items))"
proof -
  have in1: "distinct (map fst d) \<Longrightarrow> distinct (map fst (foldl (\<lambda>d ent. dict_append ent v d) d es))"
    for d :: "(entity, int list) dict" and v es
    by (induction es arbitrary: d) (simp_all add: distinct_dict_append)
  have "distinct (map fst d) \<Longrightarrow> distinct (map fst
      (foldl (\<lambda>d a. foldl (\<lambda>d ent. dict_append ent (the_id a) d) d (alert_entities a)) d items))" for d
    by (induction items arbitrary: d) (simp_all add: in1)
  then show ?thesis by (simp add: entity_members_def)
qed

lemma dict_get_member: "distinct (map fst d) \<Longrightarrow> dict_get d k = Some v \<longleftrightarrow> (k, v) \<in> set d"
  by (simp add: dict_get_def)

lemma members_in_dict:
  "(ent, ms) \<in> set (entity_members items) \<Longrightarrow>
     ms = map the_id (filter (\<lambda>a. ent \<in> set (alert_entities a)) items)"
  "lst (entity_members items) ent \<noteq> [] \<Longrightarrow>
     (ent, lst (entity_members items) ent) \<in> set (entity_members items)"
proof -
  note g = dict_get_member[OF distinct_entity_members[of items]]
  show "(ent, ms) \<in> set (entity_members items) \<Longrightarrow>
     ms = map the_id (filter (\<lambda>a. ent \<in> set (alert_entities a)) items)"
    using lst_entity_members[of items ent] by (simp add: lst_def g[symmetric])
  show "lst (entity_members items) ent \<noteq> [] \<Longrightarrow>
     (ent, lst (entity_members items) ent) \<in> set (entity_members items)"
    by (auto simp: lst_def g[symmetric] split: option.splits)
qed

section \<open>Groups are the classes of the link relation\<close>

text \<open>What the module promises: alerts are linked by a shared entity within the gap.\<close>

definition alerts_linked :: "kalert list \<Rightarrow> int \<Rightarrow> (int \<times> int) set" where
  "alerts_linked items gap =
     {(the_id a, the_id b) | a b. a \<in> set items \<and> b \<in> set items \<and>
        set (alert_entities a) \<inter> set (alert_entities b) \<noteq> {} \<and>
        \<bar>ts_at (times_of items) (the_id a) - ts_at (times_of items) (the_id b)\<bar> \<le> gap}"

lemma alerts_linked_sym: "sym (alerts_linked items gap)"
proof (rule symI)
  fix x y assume "(x, y) \<in> alerts_linked items gap"
  then obtain a b where "x = the_id a" "y = the_id b" "a \<in> set items" "b \<in> set items"
    "set (alert_entities a) \<inter> set (alert_entities b) \<noteq> {}"
    "\<bar>ts_at (times_of items) x - ts_at (times_of items) y\<bar> \<le> gap"
    unfolding alerts_linked_def by blast
  then show "(y, x) \<in> alerts_linked items gap"
    unfolding alerts_linked_def mem_Collect_eq
    by (intro exI[of _ b] exI[of _ a]) (simp add: abs_minus_commute Int_commute)
qed

lemma near_pairs_mono:
  "sorted (map ts ms) \<Longrightarrow> (x, y) \<in> set (near_pairs ts gap ms) \<Longrightarrow> ts x \<le> ts y"
  by (induction ms rule: induct_list012) (auto simp: near_pairs_Cons split: if_splits)

lemma link_pairs_linked: "set (link_pairs items gap) \<subseteq> alerts_linked items gap"
proof
  fix p assume p: "p \<in> set (link_pairs items gap)"
  let ?ts = "ts_at (times_of items)"
  obtain x y where xy: "p = (x, y)" by (cases p)
  from p obtain ent ms where e: "(ent, ms) \<in> set (entity_members items)"
    and n: "(x, y) \<in> set (near_pairs ?ts gap (sort_key ?ts ms))"
    by (auto simp: link_pairs_def Let_def xy)
  have "x \<in> set ms" "y \<in> set ms" "?ts y - ?ts x \<le> gap" using near_pairs_linked[OF n] by auto
  moreover have "?ts x \<le> ?ts y" by (rule near_pairs_mono[OF _ n]) simp
  ultimately show "p \<in> alerts_linked items gap"
    unfolding xy alerts_linked_def members_in_dict(1)[OF e] by fastforce
qed

lemma linked_alerts_reach:
  assumes "(x, y) \<in> alerts_linked items gap"
  shows "(x, y) \<in> (set (link_pairs items gap) \<union> (set (link_pairs items gap))\<inverse>)\<^sup>*"
proof -
  let ?ts = "ts_at (times_of items)" and ?P = "set (link_pairs items gap)"
  from assms obtain a b ent where ab: "x = the_id a" "y = the_id b" "a \<in> set items" "b \<in> set items"
    "ent \<in> set (alert_entities a)" "ent \<in> set (alert_entities b)" "\<bar>?ts x - ?ts y\<bar> \<le> gap"
    by (auto simp: alerts_linked_def)
  define ms where "ms = lst (entity_members items) ent"
  have m: "x \<in> set ms" "y \<in> set ms" using ab by (auto simp: ms_def lst_entity_members)
  then have "(ent, ms) \<in> set (entity_members items)"
    using members_in_dict(2)[of items ent] by (cases ms) (auto simp: ms_def)
  then have "near_pairs ?ts gap (sort_key ?ts ms)
      \<in> set (map (\<lambda>(ent, members). near_pairs ?ts gap (sort_key ?ts members)) (entity_members items))"
    unfolding set_map by (intro image_eqI[of _ _ "(ent, ms)"]) simp_all
  then have sub: "set (near_pairs ?ts gap (sort_key ?ts ms)) \<subseteq> ?P"
    unfolding link_pairs_def Let_def set_concat by (rule UN_upper)
  have "(x, y) \<in> ?P\<^sup>* \<or> (y, x) \<in> ?P\<^sup>*"
    using near_pairs_join[of ?ts "sort_key ?ts ms" x y gap] m ab(7) rtrancl_mono[OF sub] by auto
  then show ?thesis
  proof
    assume "(x, y) \<in> ?P\<^sup>*"
    then show ?thesis using rtrancl_mono[of ?P "?P \<union> ?P\<inverse>"] by blast
  next
    assume "(y, x) \<in> ?P\<^sup>*"
    then have "(x, y) \<in> (?P\<inverse>)\<^sup>*" by (simp add: rtrancl_converse)
    then show ?thesis using rtrancl_mono[of "?P\<inverse>" "?P \<union> ?P\<inverse>"] by blast
  qed
qed

definition init_forest :: "kalert list \<Rightarrow> int forest" where
  "init_forest items = foldl (\<lambda>ds a. ds_add (the_id a) ds) [] items"

lemma dict_get_init: "dict_get (init_forest items) x = (if x \<in> the_id ` set items then Some x else None)"
proof -
  have "\<forall>k v. dict_get d k = Some v \<longrightarrow> v = k \<Longrightarrow> dict_get (foldl (\<lambda>ds a. ds_add (the_id a) ds) d items) x
      = (if x \<in> the_id ` set items then Some x else dict_get d x)" for d :: "int forest"
  proof (induction items arbitrary: d)
    case (Cons a items)
    have g: "dict_get (ds_add (the_id a) d) k = (if k = the_id a then Some k else dict_get d k)" for k
      using Cons.prems by (cases "k = the_id a") (auto simp: ds_add_def split: option.splits)
    have "\<forall>k v. dict_get (ds_add (the_id a) d) k = Some v \<longrightarrow> v = k" using Cons.prems by (auto simp: g)
    from Cons.IH[OF this] show ?case by (auto simp: g)
  qed simp
  from this[of "[]"] show ?thesis by (simp add: init_forest_def)
qed

lemma init_rep: "rep (init_forest items) x r \<longleftrightarrow> x = r \<and> x \<in> the_id ` set items"
proof
  assume "rep (init_forest items) x r"
  then obtain n where "root_at (init_forest items) n x r" by (auto simp: rep_def)
  then show "x = r \<and> x \<in> the_id ` set items"
    by (cases rule: root_at.cases) (auto simp: dict_get_init split: if_splits)
next
  assume x: "x = r \<and> x \<in> the_id ` set items"
  then have "x \<in> the_id ` set items" ..
  then have "dict_get (init_forest items) x = Some x" 
    by (simp add: dict_get_init)
  then have "root_at (init_forest items) 0 x x" by (rule root_at.root)
  then show "rep (init_forest items) x r" using x unfolding rep_def by blast
qed

lemma init_keys: "ds_keys (init_forest items) = the_id ` set items"
  by (auto simp: ds_keys_def dict_get_init split: if_splits)

lemma init_wf: "ds_wf (init_forest items)"
  by (simp add: ds_wf_def init_rep init_keys)

lemma union_all_merge: "union_all es ds = ds.merge_all es ds"
  by (induction es ds rule: union_all.induct)
    (auto simp: run_bind_def split: option.splits sum.splits)

lemma linked_closure:
  assumes "x \<in> the_id ` set items"
  shows "(x, y) \<in> (ds.linked (init_forest items) (link_pairs items gap))\<^sup>* \<longleftrightarrow>
     (x, y) \<in> (alerts_linked items gap)\<^sup>*"
proof -
  let ?P = "set (link_pairs items gap)" and ?L = "ds.linked (init_forest items) (link_pairs items gap)"
  have L: "?L \<subseteq> Id \<union> ?P \<union> ?P\<inverse>" by (auto simp: ds.linked_def ds_same_def init_rep)
  have A: "?P \<union> ?P\<inverse> \<subseteq> alerts_linked items gap"
    using link_pairs_linked alerts_linked_sym by (metis Un_least converse_mono sym_conv_converse_eq)
  have "?L\<^sup>* \<subseteq> (alerts_linked items gap)\<^sup>*"
  proof (rule rtrancl_subset_rtrancl)
    show "?L \<subseteq> (alerts_linked items gap)\<^sup>*" using L A by blast
  qed
  moreover have "(alerts_linked items gap)\<^sup>* \<subseteq> ?L\<^sup>*"
  proof (rule rtrancl_subset_rtrancl)
    have "?P \<union> ?P\<inverse> \<subseteq> ?L" by (auto simp: ds.linked_def)
    then have "(?P \<union> ?P\<inverse>)\<^sup>* \<subseteq> ?L\<^sup>*" by (rule rtrancl_mono)
    then show "alerts_linked items gap \<subseteq> ?L\<^sup>*" using linked_alerts_reach by auto
  qed
  ultimately show ?thesis by blast
qed

lemma union_phase:
  "\<exists>ds. union_all (link_pairs items gap) (init_forest items) = Some (Inr ds) \<and> ds_wf ds \<and>
     ds_keys ds = the_id ` set items \<and>
     (\<forall>x\<in>the_id ` set items. \<forall>y. ds_same ds x y \<longleftrightarrow> (x, y) \<in> (alerts_linked items gap)\<^sup>*)"
proof -
  have "fst ` set (link_pairs items gap) \<union> snd ` set (link_pairs items gap) \<subseteq> ds_keys (init_forest items)"
    using link_pairs_linked[of items gap] unfolding init_keys alerts_linked_def by fastforce
  from ds.merge_all_linked[OF init_wf this] show ?thesis
    unfolding union_all_merge by (auto simp: init_keys linked_closure)
qed

section \<open>Grouping\<close>

lemma group_alerts_run:
  assumes "ds_wf ds" "the_id ` set items \<subseteq> ds_keys ds" "distinct (map fst groups)"
  shows "\<exists>g. group_alerts items ds groups = Some (Inr g) \<and> distinct (map fst g) \<and>
     (\<forall>r. lst g r = lst groups r @ filter (\<lambda>a. rep ds (the_id a) r) items) \<and>
     (\<forall>r. dict_get g r = None \<longleftrightarrow> dict_get groups r = None \<and> (\<forall>a\<in>set items. \<not> rep ds (the_id a) r))"
  using assms
proof (induction items arbitrary: ds groups)
  case (Cons a items)
  from Cons.prems obtain r0 where r0: "rep ds (the_id a) r0" by (auto simp: ds_wf_def)
  from ds_find_rep[OF Cons.prems(1) r0] obtain q where q: "ds_find (the_id a) ds = Some (Inr (r0, q))"
    "ds_wf q" "ds_keys q = ds_keys ds" "\<forall>z s. rep q z s = rep ds z s" by blast
  have u: "rep ds (the_id a) r \<longleftrightarrow> r = r0" for r using rep_det[OF r0] r0 by blast
  from Cons.IH[OF q(2), of "dict_append r0 a groups"] Cons.prems q(3,4) show ?case
    by (auto simp: q(1) lst_append dict_get_append u distinct_dict_append)
qed simp

lemma chain_groups_run:
  "\<exists>gs ds. chain_groups items gap = Some (Inr gs) \<and> ds_wf ds \<and>
     (\<forall>x\<in>the_id ` set items. \<forall>y. ds_same ds x y \<longleftrightarrow> (x, y) \<in> (alerts_linked items gap)\<^sup>*) \<and>
     set gs = {filter (\<lambda>b. rep ds (the_id b) r) items | r. \<exists>a\<in>set items. rep ds (the_id a) r} \<and>
     distinct gs"
proof -
  from union_phase obtain ds where d: "union_all (link_pairs items gap) (init_forest items) = Some (Inr ds)"
    "ds_wf ds" "ds_keys ds = the_id ` set items"
    and s: "\<forall>x\<in>the_id ` set items. \<forall>y. ds_same ds x y \<longleftrightarrow> (x, y) \<in> (alerts_linked items gap)\<^sup>*" by blast
  from group_alerts_run[OF d(2), of items "[]"] d(3) obtain g where
    g: "group_alerts items ds [] = Some (Inr g)" "distinct (map fst g)"
    and l: "\<And>r. lst g r = filter (\<lambda>a. rep ds (the_id a) r) items"
    and n: "\<And>r. dict_get g r = None \<longleftrightarrow> (\<forall>a\<in>set items. \<not> rep ds (the_id a) r)"
    by (auto simp: lst_def)
  have m: "(r, xs) \<in> set g \<longleftrightarrow> xs = filter (\<lambda>a. rep ds (the_id a) r) items \<and> (\<exists>a\<in>set items. rep ds (the_id a) r)"
    for r xs
    using l[of r] n[of r] unfolding dict_get_member[OF g(2), symmetric] by (auto simp: lst_def split: option.splits)
  have "set (map snd g) = {filter (\<lambda>b. rep ds (the_id b) r) items | r. \<exists>a\<in>set items. rep ds (the_id a) r}"
    using m by (auto simp: image_iff) (metis snd_conv)+
  moreover have "distinct (map snd g)"
  proof (rule iffD2[OF distinct_map], intro conjI inj_onI)
    show "distinct g" using g(2) by (simp add: distinct_map)
    fix p q assume h: "p \<in> set g" "q \<in> set g" "snd p = snd q"
    have pm: "snd p = filter (\<lambda>a. rep ds (the_id a) (fst p)) items" "\<exists>a\<in>set items. rep ds (the_id a) (fst p)"
      and qm: "snd q = filter (\<lambda>a. rep ds (the_id a) (fst q)) items"
      using h(1,2) m[of "fst p" "snd p"] m[of "fst q" "snd q"] by simp_all
    from pm(2) obtain a where a: "a \<in> set items" "rep ds (the_id a) (fst p)" ..
    then have "a \<in> set (snd p)" unfolding pm(1) by simp
    then have "rep ds (the_id a) (fst q)" unfolding h(3) qm by simp
    then have "fst p = fst q" using rep_det a by metis
    then show "p = q" using h(3) by (simp add: prod_eq_iff)
  qed
  ultimately show ?thesis
    using d s g(1) by (intro exI[of _ "map snd g"] exI[of _ ds]) (simp add: chain_groups_def init_forest_def[symmetric])
qed


section \<open>Chains and stories\<close>

lemma same_group:
  assumes "ds_wf ds" "a \<in> set items" "b \<in> set items"
    "set gs = {filter (\<lambda>b. rep ds (the_id b) r) items | r. \<exists>a\<in>set items. rep ds (the_id a) r}"
  shows "(\<exists>g\<in>set gs. a \<in> set g \<and> b \<in> set g) \<longleftrightarrow> ds_same ds (the_id a) (the_id b)"
proof
  assume "\<exists>g\<in>set gs. a \<in> set g \<and> b \<in> set g"
  then show "ds_same ds (the_id a) (the_id b)" unfolding assms(4) by (auto simp: ds_same_def)
next
  assume "ds_same ds (the_id a) (the_id b)"
  then obtain r where r: "rep ds (the_id a) r" "rep ds (the_id b) r" by (auto simp: ds_same_def)
  then have "filter (\<lambda>b. rep ds (the_id b) r) items \<in> set gs" unfolding assms(4) using assms(2) by blast
  then show "\<exists>g\<in>set gs. a \<in> set g \<and> b \<in> set g" using r assms(2,3) by (intro bexI) auto
qed

text \<open>Grouping returns; its groups partition the alerts into the classes of the link relation.\<close>

lemma chain_groups_classes:
  "\<exists>gs. chain_groups items gap = Some (Inr gs) \<and> distinct gs \<and>
     (\<forall>a\<in>set items. \<exists>g\<in>set gs. a \<in> set g) \<and>
     (\<forall>g\<in>set gs. g \<noteq> [] \<and> set g \<subseteq> set items) \<and>
     (\<forall>a\<in>set items. \<forall>b\<in>set items.
        (\<exists>g\<in>set gs. a \<in> set g \<and> b \<in> set g) \<longleftrightarrow> (the_id a, the_id b) \<in> (alerts_linked items gap)\<^sup>*)"
proof -
  from chain_groups_run obtain gs ds where g: "chain_groups items gap = Some (Inr gs)" "ds_wf ds"
    "\<forall>x\<in>the_id ` set items. \<forall>y. ds_same ds x y \<longleftrightarrow> (x, y) \<in> (alerts_linked items gap)\<^sup>*"
    "set gs = {filter (\<lambda>b. rep ds (the_id b) r) items | r. \<exists>a\<in>set items. rep ds (the_id a) r}"
    "distinct gs" by blast
  have same: "(\<exists>g\<in>set gs. a \<in> set g \<and> b \<in> set g) \<longleftrightarrow> (the_id a, the_id b) \<in> (alerts_linked items gap)\<^sup>*"
    if "a \<in> set items" "b \<in> set items" for a b
    using same_group[OF g(2) that g(4)] g(3) that by simp
  moreover have "\<exists>g\<in>set gs. a \<in> set g" if "a \<in> set items" for a using same[OF that that] by blast
  moreover have "g \<noteq> [] \<and> set g \<subseteq> set items" if "g \<in> set gs" for g
    using that unfolding g(4) by (auto simp: filter_empty_conv)
  ultimately show ?thesis using g(1,5) by blast
qed

text \<open>\<open>build_chains\<close> returns the groups that span enough tactics, largest first.\<close>

lemma build_chains_run:
  "\<exists>gs cs. chain_groups (items_of alerts) gap = Some (Inr gs) \<and> build_chains alerts gap k = Some (Inr cs) \<and>
     mset cs = mset (filter (\<lambda>g. k \<le> length (chain_tactics g)) gs) \<and>
     sorted (map (\<lambda>c. - int (length c)) cs)"
proof -
  from chain_groups_classes[of "items_of alerts" gap] obtain gs
    where g: "chain_groups (items_of alerts) gap = Some (Inr gs)" by blast
  let ?key = "chain_key (ts_at (times_of (items_of alerts)))"
  have "sorted (map (\<lambda>c. - int (length c)) cs)" if "sorted (map ?key cs)" for cs
    using that by (induction cs) (auto simp: chain_key_def less_eq_prod_def)
  then show ?thesis using g by (simp add: build_chains_def Let_def)
qed

lemma stage_fold_get:
  "distinct ts \<Longrightarrow> dict_get (foldl (stage_step a) m ts) k =
     (if k \<in> set ts
      then Some (stage_add a (case dict_get m k of Some st \<Rightarrow> st | None \<Rightarrow> new_stage k (alert_time a)))
      else dict_get m k)"
  by (induction ts arbitrary: m) (auto simp: stage_step_def)

lemma distinct_stage_fold: "distinct (map fst m) \<Longrightarrow> distinct (map fst (foldl (stage_step a) m ts))"
  by (induction ts arbitrary: m) (auto simp: stage_step_def)

lemma distinct_alert_tactics: "distinct (alert_tactics a)"
  by (simp add: alert_tactics_def)

lemma stage_add_fields [simp]:
  "sg_tactic (stage_add a st) = sg_tactic st" "sg_rank (stage_add a st) = sg_rank st"
  "sg_alerts (stage_add a st) = sg_alerts st @ [a]"
  "sg_techniques (stage_add a st) = sg_techniques st @ ka_techniques a"
  by (auto simp: stage_add_def Let_def split: option.splits)

definition stage_inv :: "kalert list \<Rightarrow> (string, stage) dict \<Rightarrow> bool" where
  "stage_inv seen m \<longleftrightarrow> distinct (map fst m) \<and>
     (\<forall>k. (dict_get m k = None \<longleftrightarrow> (\<forall>a\<in>set seen. k \<notin> set (alert_tactics a))) \<and>
          (\<forall>st. dict_get m k = Some st \<longrightarrow> sg_tactic st = k \<and> sg_rank st = tactic_rank k \<and>
             sg_alerts st = filter (\<lambda>a. k \<in> set (alert_tactics a)) seen))"

lemma stage_inv_step:
  assumes "stage_inv seen m"
  shows "stage_inv (seen @ [a]) (foldl (stage_step a) m (alert_tactics a))"
proof -
  let ?m = "foldl (stage_step a) m (alert_tactics a)"
  have "(dict_get ?m k = None \<longleftrightarrow> (\<forall>b\<in>set (seen @ [a]). k \<notin> set (alert_tactics b))) \<and>
      (\<forall>st. dict_get ?m k = Some st \<longrightarrow> sg_tactic st = k \<and> sg_rank st = tactic_rank k \<and>
        sg_alerts st = filter (\<lambda>a. k \<in> set (alert_tactics a)) (seen @ [a]))" for k
  proof (cases "k \<in> set (alert_tactics a)")
    case False
    then show ?thesis using assms
      by (auto simp: stage_inv_def stage_fold_get[OF distinct_alert_tactics])
  next
    case True
    show ?thesis
    proof (cases "dict_get m k")
      case None
      then have "filter (\<lambda>a. k \<in> set (alert_tactics a)) seen = []"
        using assms by (auto simp: stage_inv_def filter_empty_conv)
      then show ?thesis using True None
        by (auto simp: stage_fold_get[OF distinct_alert_tactics] new_stage_def)
    next
      case (Some st)
      then show ?thesis using True assms
        by (auto simp: stage_inv_def stage_fold_get[OF distinct_alert_tactics])
    qed
  qed
  moreover have "distinct (map fst ?m)" using assms distinct_stage_fold by (auto simp: stage_inv_def)
  ultimately show ?thesis by (simp add: stage_inv_def)
qed

lemma stage_map_inv: "stage_inv alerts (stage_map alerts)"
proof -
  have "stage_inv seen m \<Longrightarrow>
      stage_inv (seen @ as) (foldl (\<lambda>m a. foldl (stage_step a) m (alert_tactics a)) m as)" for seen m as
  proof (induction as arbitrary: seen m)
    case (Cons a as)
    show ?case using Cons.IH[OF stage_inv_step[OF Cons.prems, of a]] by simp
  qed simp
  from this[of "[]" "[]" alerts] show ?thesis by (simp add: stage_map_def stage_inv_def)
qed

lemma known_normal: "list_all (\<lambda>t. normalize_tactic t = t) kill_chain_tactics"
  by code_simp

lemma index_of_inj: "index_of x ys = Some i \<Longrightarrow> index_of z ys = Some i \<Longrightarrow> x = z"
  by (induction ys arbitrary: i) (auto split: if_splits)

lemma index_of_None: "index_of x ys = None \<longleftrightarrow> x \<notin> set ys"
  by (induction ys) auto

lemma tactic_rank_inj: "inj_on tactic_rank (set kill_chain_tactics)"
proof (rule inj_onI)
  fix s t assume st: "s \<in> set kill_chain_tactics" "t \<in> set kill_chain_tactics" "tactic_rank s = tactic_rank t"
  then have "normalize_tactic s = s" "normalize_tactic t = t" using known_normal by (auto simp: list_all_iff)
  then obtain i j where "index_of s kill_chain_tactics = Some i" "index_of t kill_chain_tactics = Some j" "i = j"
    using st index_of_None[of s kill_chain_tactics] index_of_None[of t kill_chain_tactics]
    by (auto simp: tactic_rank_def)
  then show "s = t" using index_of_inj by metis
qed

lemma alert_tactics_known: "set (alert_tactics a) \<subseteq> set kill_chain_tactics"
  by (auto simp: alert_tactics_def)

lemma stage_map_member:
  "(k, st) \<in> set (stage_map alerts) \<Longrightarrow> sg_tactic st = k \<and> sg_rank st = tactic_rank k \<and>
     sg_alerts st = filter (\<lambda>a. k \<in> set (alert_tactics a)) alerts"
  "set (map fst (stage_map alerts)) = (\<Union>a\<in>set alerts. set (alert_tactics a))"
proof -
  note inv = stage_map_inv[of alerts, unfolded stage_inv_def]
  note g = dict_get_member[of "stage_map alerts"]
  show "(k, st) \<in> set (stage_map alerts) \<Longrightarrow> sg_tactic st = k \<and> sg_rank st = tactic_rank k \<and>
     sg_alerts st = filter (\<lambda>a. k \<in> set (alert_tactics a)) alerts"
    using inv g by blast
  have "k \<in> set (map fst (stage_map alerts)) \<longleftrightarrow> dict_get (stage_map alerts) k \<noteq> None" for k
    by (simp add: dict_get_def map_of_eq_None_iff)
  then show "set (map fst (stage_map alerts)) = (\<Union>a\<in>set alerts. set (alert_tactics a))"
    using inv by blast
qed

text \<open>The stages: one per tactic of the chain, each with its alerts, in kill-chain order.\<close>

lemma stages_of_facts:
  shows "set (map sg_tactic (stages_of alerts)) = set (chain_tactics alerts)"
    and "length (stages_of alerts) = length (chain_tactics alerts)"
    and "sorted_wrt (<) (map sg_rank (stages_of alerts))"
    and "\<forall>st\<in>set (stages_of alerts). sg_alerts st = filter (\<lambda>a. sg_tactic st \<in> set (alert_tactics a)) alerts"
proof -
  let ?m = "stage_map alerts"
  have d: "distinct (map fst ?m)" using stage_map_inv by (auto simp: stage_inv_def)
  have keys: "set (map fst ?m) = set (chain_tactics alerts)"
    unfolding stage_map_member(2) by (simp add: chain_tactics_def)
  have tac: "map sg_tactic (map snd ?m) = map fst ?m" using stage_map_member(1)[of _ _ alerts] by auto
  have rank: "map sg_rank (map snd ?m) = map tactic_rank (map fst ?m)"
    using stage_map_member(1)[of _ _ alerts] by auto
  show "set (map sg_tactic (stages_of alerts)) = set (chain_tactics alerts)"
    using arg_cong[OF tac, of set] keys by (simp add: stages_of_def image_image)
  show "length (stages_of alerts) = length (chain_tactics alerts)"
    using distinct_card[OF d] keys distinct_card[of "chain_tactics alerts"]
    by (simp add: stages_of_def chain_tactics_def)
  have "set (map fst ?m) \<subseteq> set kill_chain_tactics"
    unfolding stage_map_member(2) using alert_tactics_known by blast
  then have "distinct (map tactic_rank (map fst ?m))"
    using d tactic_rank_inj unfolding distinct_map[of tactic_rank] by (blast intro: inj_on_subset)
  then have "distinct (map sg_rank (map snd ?m))" unfolding rank .
  then have "distinct (map sg_rank (sort_key sg_rank (map snd ?m)))"
    using mset_eq_imp_distinct_iff[of "map sg_rank (sort_key sg_rank (map snd ?m))" "map sg_rank (map snd ?m)"]
    by (simp add: multiset.map_comp)
  then show "sorted_wrt (<) (map sg_rank (stages_of alerts))"
    by (simp add: stages_of_def comp_def strict_sorted_iff)
  show "\<forall>st\<in>set (stages_of alerts). sg_alerts st = filter (\<lambda>a. sg_tactic st \<in> set (alert_tactics a)) alerts"
    using stage_map_member(1)[of _ _ alerts] by (auto simp: stages_of_def)
qed

lemma chain_tactics_order: "length (chain_tactics (order_alerts c)) = length (chain_tactics c)"
proof -
  have "set (chain_tactics (order_alerts c)) = set (chain_tactics c)"
    by (simp add: chain_tactics_def order_alerts_def)
  then show ?thesis by (metis chain_tactics_def distinct_card distinct_remdups)
qed

text \<open>\<open>reconstruct\<close> returns, and every story spans the required number of tactics.\<close>

lemma reconstruct_run:
  "\<exists>stories. reconstruct sha alerts gap k = Some (Inr stories) \<and> sorted (map story_key stories) \<and>
     (\<forall>s\<in>set stories. k \<le> sy_tactic_count s \<and>
        sorted_wrt (<) (map sg_rank (sy_stages s)) \<and>
        (\<exists>c. s = summarize_chain sha c \<and> mset (sy_alerts s) = mset c))"
proof -
  from build_chains_run obtain gs cs where c: "build_chains alerts gap k = Some (Inr cs)"
    "mset cs = mset (filter (\<lambda>g. k \<le> length (chain_tactics g)) gs)" by blast
  have k: "k \<le> length (chain_tactics c)" if "c \<in> set cs" for c
    using that mset_eq_setD[OF c(2)] by auto
  have f: "sy_tactic_count (summarize_chain sha c) = length (chain_tactics c)"
      "sy_stages (summarize_chain sha c) = stages_of (order_alerts c)"
      "mset (sy_alerts (summarize_chain sha c)) = mset c" for c
    by (simp_all add: summarize_chain_def Let_def stages_of_facts(2) chain_tactics_order)
      (simp add: order_alerts_def)
  let ?ss = "sort_key story_key (map (summarize_chain sha) cs)"
  have "\<forall>s\<in>set ?ss. k \<le> sy_tactic_count s \<and> sorted_wrt (<) (map sg_rank (sy_stages s)) \<and>
      (\<exists>c. s = summarize_chain sha c \<and> mset (sy_alerts s) = mset c)"
    using k by (auto simp: f stages_of_facts(3))
  moreover have "reconstruct sha alerts gap k = Some (Inr ?ss)" using c(1) by (simp add: reconstruct_def)
  moreover have "sorted (map story_key ?ss)" by (rule sorted_sort_key)
  ultimately show ?thesis by blast
qed

section \<open>Properties\<close>

definition demo_alert :: "int \<Rightarrow> string \<Rightarrow> string \<Rightarrow> int \<Rightarrow> kalert" where
  "demo_alert i user tactic t = \<lparr>ka_id = Some i, ka_user_name = Some user, ka_host_name = None,
     ka_src_ip = None, ka_tactics = [tactic], ka_techniques = [], ka_level = Some ''high'',
     ka_event_time = Some t, ka_created_at = None\<rparr>"

text \<open>C38: Grouping alerts returns, and its groups are exactly the classes of the promised relation: two alerts share a group just when a chain of alerts joins them in which neighbours share an entity and lie within the gap. Sorting timelines and uniting only neighbours loses no link.\<close>

theorem chains_are_linked_classes:
  "\<exists>gs. chain_groups items gap = Some (Inr gs) \<and> distinct gs \<and>
     (\<forall>a\<in>set items. \<exists>g\<in>set gs. a \<in> set g) \<and>
     (\<forall>g\<in>set gs. g \<noteq> [] \<and> set g \<subseteq> set items) \<and>
     (\<forall>a\<in>set items. \<forall>b\<in>set items.
        (\<exists>g\<in>set gs. a \<in> set g \<and> b \<in> set g) \<longleftrightarrow> (the_id a, the_id b) \<in> (alerts_linked items gap)\<^sup>*)"
  by (rule chain_groups_classes)

theorem chains_are_linked_classes_witness:
  "\<exists>gs. chain_groups [demo_alert 1 ''eve'' ''execution'' 10, demo_alert 2 ''eve'' ''impact'' 20] 60 = Some (Inr gs)
    \<and> (\<forall>a\<in>set [demo_alert 1 ''eve'' ''execution'' 10, demo_alert 2 ''eve'' ''impact'' 20]. \<exists>g\<in>set gs. a \<in> set g)"
  using chains_are_linked_classes[of "[demo_alert 1 ''eve'' ''execution'' 10, demo_alert 2 ''eve'' ''impact'' 20]" 60]
  by blast

text \<open>Building chains returns, and the chains are exactly the groups that span the required number of distinct tactics, each once, in order of falling size.\<close>

lemma chains_span_enough_tactics:
  "\<exists>gs cs. chain_groups (items_of alerts) gap = Some (Inr gs) \<and> build_chains alerts gap k = Some (Inr cs) \<and>
     mset cs = mset (filter (\<lambda>g. k \<le> length (chain_tactics g)) gs) \<and>
     sorted (map (\<lambda>c. - int (length c)) cs)"
  by (rule build_chains_run)

text \<open>Reconstruction returns stories in triage order; every story has the alerts of one chain, one stage per tactic in strictly rising kill-chain order, and at least the required number of stages.\<close>

lemma stories_are_ordered:
  "\<exists>stories. reconstruct sha alerts gap k = Some (Inr stories) \<and> sorted (map story_key stories) \<and>
     (\<forall>s\<in>set stories. k \<le> sy_tactic_count s \<and>
        sorted_wrt (<) (map sg_rank (sy_stages s)) \<and>
        (\<exists>c. s = summarize_chain sha c \<and> mset (sy_alerts s) = mset c))"
  by (rule reconstruct_run)

lemma stories_are_ordered_example:
  "\<exists>stories. reconstruct id [demo_alert 1 ''eve'' ''execution'' 10, demo_alert 2 ''eve'' ''impact'' 20] 60 2
      = Some (Inr stories)"
  using stories_are_ordered[of id "[demo_alert 1 ''eve'' ''execution'' 10, demo_alert 2 ''eve'' ''impact'' 20]" 60 2]
  by blast

end
