(* ===== verification/LoqlParse.thy ===== *)
theory LoqlParse
  imports SIEM_Prelude
begin

text \<open>
  The query language: lexer, syntax tree and recursive-descent parser (\<open>app/loql/nodes.py\<close>,
  \<open>app/loql/parser.py\<close>).

  The parser's position is the list of tokens not yet eaten, which ends with the EOF token; nothing but
  the end of a query eats that one. The depth counter, which every method restores on the way out, is an
  argument. The expression methods are the equations of one function \<open>p_expr\<close>, one for each nonterminal
  and one for each loop. A query error is its position, without the message; an exception the parser does
  not mean to raise is \<open>Escaped\<close>. The one parameter is the \<open>repr\<close> of the float a numeral stands for.
  The interpreter's stack limit is not modelled: of the recursions only the one through parentheses, calls
  and \<open>not\<close> is capped by the depth, and a chain of hundreds of minus signs is refused as too complex.
\<close>

section \<open>The syntax tree\<close>

datatype expr =
    Lit pyval string
  | Field string
  | Unary string expr
  | Binary string expr expr
  | Func string "expr list"
  | InList expr "expr list"

record agg =
  ag_func :: string
  ag_arg :: "string option"
  ag_out :: string

datatype stage =
    Search "expr option" "string option"
  | Where expr
  | Eval string expr
  | Fields "string list" bool
  | Rename "(string \<times> string) list"
  | Sort "(string \<times> bool) list"
  | Head int
  | Dedup "string list"
  | Stats "agg list" "string list"
  | Top string int bool "string list"
  | Bin string "string option" "string option"
  | Timechart "agg list" "string option" "string option"

datatype loql_error = LoqlError "nat option" | Escaped py_error

section \<open>Lexing\<close>

datatype tok_kind = TStr | TNum | TOp | TPipe | TComma | TColon | TLp | TRp | TId | TKw | TEof

record tok =
  tk_kind :: tok_kind
  tk_val :: string
  tk_pos :: nat

definition query_keywords :: "string list" where
  "query_keywords = [''and'', ''or'', ''not'', ''by'', ''as'', ''in'', ''true'', ''false'', ''null'', ''like'']"

text \<open>The rest of a quoted text, up to its closing quote.\<close>

fun scan_str :: "char \<Rightarrow> string \<Rightarrow> string option" where
  "scan_str q [] = None"
| "scan_str q (c # cs) =
     (if c = q then Some [c]
      else if c = backslash then
        (case cs of [] \<Rightarrow> None
         | d # ds \<Rightarrow> if d = newline then None else map_option (\<lambda>r. c # d # r) (scan_str q ds))
      else map_option (\<lambda>r. c # r) (scan_str q cs))"

definition scan_num :: "string \<Rightarrow> nat" where
  "scan_num s =
     (let ds = takeWhile is_digit s; r = drop (length ds) s;
          fs = (if r \<noteq> [] \<and> hd r = CHR ''.'' then takeWhile is_digit (tl r) else [])
      in if fs = [] then length ds else length ds + 1 + length fs)"

text \<open>\<open>_TOKEN_RE\<close> at one position: the kind, \<^const>\<open>None\<close> for blanks, and the length of the match.\<close>

definition lexeme :: "string \<Rightarrow> (tok_kind option \<times> nat) option" where
  "lexeme s =
     (case s of [] \<Rightarrow> None
      | c # cs \<Rightarrow>
          if is_space c then Some (None, length (takeWhile is_space s))
          else if c = CHR 39 \<or> c = CHR 34 then map_option (\<lambda>r. (Some TStr, Suc (length r))) (scan_str c cs)
          else if is_digit c then Some (Some TNum, scan_num s)
          else if take 2 s \<in> {''!='', ''<='', ''>=''} then Some (Some TOp, 2)
          else if c \<in> set ''=<>+-*/%.'' then Some (Some TOp, 1)
          else if c = CHR ''|'' then Some (Some TPipe, 1)
          else if c = CHR '','' then Some (Some TComma, 1)
          else if c = CHR '':'' then Some (Some TColon, 1)
          else if c = CHR ''('' then Some (Some TLp, 1)
          else if c = CHR '')'' then Some (Some TRp, 1)
          else if is_letter c \<or> c = CHR ''_'' then Some (Some TId, length (takeWhile is_word s))
          else None)"

definition mk_tok :: "tok_kind \<Rightarrow> string \<Rightarrow> nat \<Rightarrow> tok" where
  "mk_tok k v i =
     (if k = TId \<and> lower v \<in> set query_keywords then \<lparr>tk_kind = TKw, tk_val = lower v, tk_pos = i\<rparr>
      else \<lparr>tk_kind = k, tk_val = v, tk_pos = i\<rparr>)"

lemma scan_num_pos: "s \<noteq> [] \<Longrightarrow> is_digit (hd s) \<Longrightarrow> 0 < scan_num s"
  by (cases s) (auto simp: scan_num_def Let_def)

lemma lexeme_pos: "lexeme s = Some (k, n) \<Longrightarrow> 0 < n"
  using scan_num_pos[of s]
  by (cases s) (auto simp: lexeme_def is_word_def split: if_splits)

function lex_from :: "nat \<Rightarrow> string \<Rightarrow> loql_error + tok list" where
  "lex_from i s =
     (if s = [] then Inr [\<lparr>tk_kind = TEof, tk_val = [], tk_pos = i\<rparr>]
      else (case lexeme s of
              None \<Rightarrow> Inl (LoqlError (Some i))
            | Some (k, n) \<Rightarrow>
                sbind (lex_from (i + n) (drop n s)) (\<lambda>ts.
                  Inr (case k of None \<Rightarrow> ts | Some k \<Rightarrow> mk_tok k (take n s) i # ts))))"
  by pat_completeness auto
termination
  by (relation "measure (\<lambda>(i, s). length s)") (auto dest: lexeme_pos)

declare lex_from.simps [simp del]

definition lex :: "string \<Rightarrow> loql_error + tok list" where
  "lex s = lex_from 0 s"

fun unescape :: "string \<Rightarrow> string" where
  "unescape [] = []"
| "unescape [c] = [c]"
| "unescape (c # d # cs) =
     (if c = backslash \<and> d \<noteq> newline then d # unescape cs else c # unescape (d # cs))"

definition unquote :: "string \<Rightarrow> string" where
  "unquote s = unescape (butlast (tl s))"

section \<open>Token helpers\<close>

type_synonym 'a parsed = "loql_error + 'a \<times> tok list"

definition cur :: "tok list \<Rightarrow> tok" where
  "cur ts = (case ts of [] \<Rightarrow> \<lparr>tk_kind = TEof, tk_val = [], tk_pos = 0\<rparr> | t # _ \<Rightarrow> t)"

definition at_kind :: "tok_kind \<Rightarrow> tok list \<Rightarrow> bool" where
  "at_kind k ts \<longleftrightarrow> tk_kind (cur ts) = k"

definition at_tok :: "tok_kind \<Rightarrow> string \<Rightarrow> tok list \<Rightarrow> bool" where
  "at_tok k v ts \<longleftrightarrow> tk_kind (cur ts) = k \<and> tk_val (cur ts) = v"

definition fail_here :: "tok list \<Rightarrow> 'a parsed" where
  "fail_here ts = Inl (LoqlError (Some (tk_pos (cur ts))))"

definition eat :: "tok_kind \<Rightarrow> tok list \<Rightarrow> tok parsed" where
  "eat k ts = (if at_kind k ts then Inr (cur ts, tl ts) else fail_here ts)"

definition eat_tok :: "tok_kind \<Rightarrow> string \<Rightarrow> tok list \<Rightarrow> tok parsed" where
  "eat_tok k v ts = (if at_tok k v ts then Inr (cur ts, tl ts) else fail_here ts)"

text \<open>\<open>_ident_or_kw\<close>.\<close>

definition p_name :: "tok list \<Rightarrow> string parsed" where
  "p_name ts =
     (if at_kind TId ts \<or> at_kind TKw ts then Inr (tk_val (cur ts), tl ts) else fail_here ts)"

text \<open>\<open>int(text)\<close> of a numeral: Python refuses more than 4300 digits.\<close>

definition max_str_digits :: nat where "max_str_digits = 4300"

definition int_of :: "string \<Rightarrow> loql_error + int" where
  "int_of s = (if max_str_digits < length s then Inl (Escaped ValueError) else Inr (digits_val s))"

definition p_int :: "tok list \<Rightarrow> int parsed" where
  "p_int ts =
     sbind (eat TNum ts) (\<lambda>(t, r).
       if CHR ''.'' \<in> set (tk_val t) then Inl (LoqlError (Some (tk_pos t)))
       else sbind (int_of (tk_val t)) (\<lambda>i. Inr (i, r)))"

definition num_lit :: "(string \<Rightarrow> string) \<Rightarrow> string \<Rightarrow> loql_error + expr" where
  "num_lit fr s =
     (if CHR ''.'' \<in> set s then Inr (Lit (VFloat (fr s)) ''num'')
      else sbind (int_of s) (\<lambda>i. Inr (Lit (VInt i) ''num'')))"

section \<open>Expressions\<close>

definition cmp_ops :: "string list" where
  "cmp_ops = [''='', ''!='', ''<'', ''<='', ''>'', ''>='']"

text \<open>\<open>_FUNCS\<close>: the compiler's name of a function and the number of its arguments, if it is fixed.\<close>

definition funcs :: "(string, string \<times> nat option) dict" where
  "funcs =
     [(''lower'', ''lower'', Some 1), (''upper'', ''upper'', Some 1), (''len'', ''length'', Some 1),
      (''length'', ''length'', Some 1), (''abs'', ''abs'', Some 1), (''round'', ''round'', None),
      (''ceil'', ''ceil'', Some 1), (''floor'', ''floor'', Some 1), (''trim'', ''btrim'', None),
      (''coalesce'', ''coalesce'', None), (''substr'', ''substr'', None), (''replace'', ''replace'', Some 3),
      (''if'', ''__if__'', Some 3), (''isnull'', ''__isnull__'', Some 1), (''isnotnull'', ''__isnotnull__'', Some 1)]"

definition max_depth :: nat where "max_depth = 80"

definition starts_atom :: "tok list \<Rightarrow> bool" where
  "starts_atom ts \<longleftrightarrow>
     tk_kind (cur ts) \<in> {TNum, TStr, TLp, TId} \<or>
     (tk_kind (cur ts) = TKw \<and> tk_val (cur ts) \<in> {''not'', ''true'', ''false'', ''null''})"

text \<open>A bare word, text or number of a search is a full-text term.\<close>

definition fts_term :: "expr \<Rightarrow> expr" where
  "fts_term e =
     (case e of
        Field n \<Rightarrow> Func ''_fts'' [Lit (VStr n) ''str'']
      | Lit v k \<Rightarrow> if k = ''str'' \<or> k = ''num'' then Func ''_fts'' [Lit (VStr (pv_str v)) ''str''] else e
      | _ \<Rightarrow> e)"

definition search_value :: "(string \<Rightarrow> string) \<Rightarrow> tok list \<Rightarrow> expr parsed" where
  "search_value fr ts =
     (let t = cur ts in
      if tk_kind t = TStr then Inr (Lit (VStr (unquote (tk_val t))) ''str'', tl ts)
      else if tk_kind t = TNum then sbind (num_lit fr (tk_val t)) (\<lambda>e. Inr (e, tl ts))
      else if tk_kind t = TId \<or> tk_kind t = TKw then Inr (Lit (VStr (tk_val t)) ''str'', tl ts)
      else if tk_kind t = TOp \<and> tk_val t = ''*'' then Inr (Lit (VStr ''*'') ''str'', tl ts)
      else fail_here ts)"

text \<open>The end of \<open>_func_call\<close>: the arguments are counted and the internal name taken.\<close>

definition func_node :: "string \<Rightarrow> nat \<Rightarrow> expr list \<Rightarrow> tok list \<Rightarrow> expr parsed" where
  "func_node name pos args ts =
     (case dict_get funcs (lower name) of
        None \<Rightarrow> Inl (LoqlError (Some pos))
      | Some (sqlname, argc) \<Rightarrow>
          if argc \<noteq> None \<and> argc \<noteq> Some (length args) then Inl (LoqlError (Some pos))
          else Inr (Func sqlname args, ts))"

datatype nonterm =
    ExprOr | OrRest expr | ExprAnd | AndRest expr | ExprNot | Comparison | Rhs
  | Items expr "expr list" | Additive | AddRest expr | ExprTerm | TermRest expr | Factor | Primary
  | Args string nat "expr list"

function p_expr :: "(string \<Rightarrow> string) \<Rightarrow> nonterm \<Rightarrow> bool \<Rightarrow> nat \<Rightarrow> tok list \<Rightarrow> expr parsed" where
  "p_expr fr ExprOr fts d ts =
     (if max_depth < Suc d then fail_here ts
      else sbind (p_expr fr ExprAnd fts (Suc d) ts) (\<lambda>(l, r). p_expr fr (OrRest l) fts (Suc d) r))"
| "p_expr fr (OrRest l) fts d ts =
     (if at_tok TKw ''or'' ts
      then sbind (p_expr fr ExprAnd fts d (tl ts)) (\<lambda>(e, r). p_expr fr (OrRest (Binary ''or'' l e)) fts d r)
      else Inr (l, ts))"
| "p_expr fr ExprAnd fts d ts =
     sbind (p_expr fr ExprNot fts d ts) (\<lambda>(l, r). p_expr fr (AndRest l) fts d r)"
| "p_expr fr (AndRest l) fts d ts =
     (if at_tok TKw ''and'' ts
      then sbind (p_expr fr ExprNot fts d (tl ts)) (\<lambda>(e, r). p_expr fr (AndRest (Binary ''and'' l e)) fts d r)
      else if starts_atom ts \<and> \<not> at_tok TKw ''or'' ts
      then sbind (p_expr fr ExprNot fts d ts) (\<lambda>(e, r). p_expr fr (AndRest (Binary ''and'' l e)) fts d r)
      else Inr (l, ts))"
| "p_expr fr ExprNot fts d ts =
     (if at_tok TKw ''not'' ts
      then if max_depth < Suc d then fail_here ts
           else sbind (p_expr fr ExprNot fts (Suc d) (tl ts)) (\<lambda>(e, r). Inr (Unary ''not'' e, r))
      else p_expr fr Comparison fts d ts)"
| "p_expr fr Comparison fts d ts =
     sbind (p_expr fr Additive fts d ts) (\<lambda>(l, r).
       if at_kind TOp r \<and> tk_val (cur r) \<in> set cmp_ops
       then sbind (p_expr fr Rhs fts d (tl r)) (\<lambda>(e, r'). Inr (Binary (tk_val (cur r)) l e, r'))
       else if at_tok TKw ''like'' r
       then sbind (p_expr fr Rhs fts d (tl r)) (\<lambda>(e, r'). Inr (Binary ''like'' l e, r'))
       else if at_tok TKw ''in'' r
       then sbind (eat TLp (tl r)) (\<lambda>(_, r1).
            sbind (p_expr fr Rhs fts d r1) (\<lambda>(e, r2). p_expr fr (Items l [e]) fts d r2))
       else Inr (if fts then fts_term l else l, r))"
| "p_expr fr Rhs fts d ts =
     (if fts then search_value fr ts else p_expr fr Additive fts d ts)"
| "p_expr fr (Items l es) fts d ts =
     (if at_kind TComma ts
      then sbind (p_expr fr Rhs fts d (tl ts)) (\<lambda>(e, r). p_expr fr (Items l (es @ [e])) fts d r)
      else sbind (eat TRp ts) (\<lambda>(_, r). Inr (InList l es, r)))"
| "p_expr fr Additive fts d ts =
     sbind (p_expr fr ExprTerm fts d ts) (\<lambda>(l, r). p_expr fr (AddRest l) fts d r)"
| "p_expr fr (AddRest l) fts d ts =
     (if at_kind TOp ts \<and> tk_val (cur ts) \<in> {''+'', ''-'', ''.''}
      then sbind (p_expr fr ExprTerm fts d (tl ts)) (\<lambda>(e, r).
             p_expr fr (AddRest (Binary (tk_val (cur ts)) l e)) fts d r)
      else Inr (l, ts))"
| "p_expr fr ExprTerm fts d ts =
     sbind (p_expr fr Factor fts d ts) (\<lambda>(l, r). p_expr fr (TermRest l) fts d r)"
| "p_expr fr (TermRest l) fts d ts =
     (if at_kind TOp ts \<and> tk_val (cur ts) \<in> {''*'', ''/'', ''%''}
      then sbind (p_expr fr Factor fts d (tl ts)) (\<lambda>(e, r).
             p_expr fr (TermRest (Binary (tk_val (cur ts)) l e)) fts d r)
      else Inr (l, ts))"
| "p_expr fr Factor fts d ts =
     (if at_tok TOp ''-'' ts
      then sbind (p_expr fr Factor fts d (tl ts)) (\<lambda>(e, r). Inr (Unary ''-'' e, r))
      else p_expr fr Primary fts d ts)"
| "p_expr fr Primary fts d ts =
     (if at_kind TNum ts then sbind (num_lit fr (tk_val (cur ts))) (\<lambda>e. Inr (e, tl ts))
      else if at_kind TStr ts then Inr (Lit (VStr (unquote (tk_val (cur ts)))) ''str'', tl ts)
      else if at_tok TKw ''true'' ts \<or> at_tok TKw ''false'' ts
      then Inr (Lit (VBool (tk_val (cur ts) = ''true'')) ''bool'', tl ts)
      else if at_tok TKw ''null'' ts then Inr (Lit VNone ''null'', tl ts)
      else if at_kind TLp ts
      then sbind (p_expr fr ExprOr False d (tl ts)) (\<lambda>(e, r). sbind (eat TRp r) (\<lambda>(_, r'). Inr (e, r')))
      else if at_kind TId ts \<or> at_kind TKw ts then
        (if \<not> at_kind TLp (tl ts) then Inr (Field (tk_val (cur ts)), tl ts)
         else if dict_get funcs (lower (tk_val (cur ts))) = None then fail_here ts
         else if at_kind TRp (tl (tl ts))
         then func_node (tk_val (cur ts)) (tk_pos (cur ts)) [] (tl (tl (tl ts)))
         else sbind (p_expr fr ExprOr False d (tl (tl ts))) (\<lambda>(e, r).
                p_expr fr (Args (tk_val (cur ts)) (tk_pos (cur ts)) [e]) fts d r))
      else fail_here ts)"
| "p_expr fr (Args name pos es) fts d ts =
     (if at_kind TComma ts
      then sbind (p_expr fr ExprOr False d (tl ts)) (\<lambda>(e, r). p_expr fr (Args name pos (es @ [e])) fts d r)
      else sbind (eat TRp ts) (\<lambda>(_, r). func_node name pos es r))"
  by pat_completeness auto

text \<open>A method eats at least one token; the loops may eat none.\<close>

fun is_loop :: "nonterm \<Rightarrow> bool" where
  "is_loop (OrRest _) = True"
| "is_loop (AndRest _) = True"
| "is_loop (Items _ _) = True"
| "is_loop (AddRest _) = True"
| "is_loop (TermRest _) = True"
| "is_loop (Args _ _ _) = True"
| "is_loop _ = False"

fun rank :: "nonterm \<Rightarrow> nat" where
  "rank ExprOr = 9"
| "rank ExprAnd = 8"
| "rank ExprNot = 6"
| "rank (AndRest _) = 7"
| "rank Comparison = 5"
| "rank Rhs = 5"
| "rank Additive = 4"
| "rank ExprTerm = 3"
| "rank Factor = 2"
| "rank Primary = 1"
| "rank _ = 0"

definition eats :: "nonterm \<Rightarrow> tok list \<Rightarrow> tok list \<Rightarrow> bool" where
  "eats nt ts r \<longleftrightarrow> (if is_loop nt then suffix r ts else strict_suffix r ts)"

lemma cur_Nil [simp]: "tk_kind (cur []) = TEof"
  by (simp add: cur_def)

lemma kind_tl: "tk_kind (cur ts) \<noteq> TEof \<Longrightarrow> strict_suffix (tl ts) ts"
  by (cases ts) (auto simp: strict_suffix_def suffix_ConsI)

lemma at_kind_tl: "at_kind k ts \<Longrightarrow> k \<noteq> TEof \<Longrightarrow> strict_suffix (tl ts) ts"
  by (rule kind_tl) (simp add: at_kind_def)

lemma at_tok_tl: "at_tok k v ts \<Longrightarrow> k \<noteq> TEof \<Longrightarrow> strict_suffix (tl ts) ts"
  by (rule kind_tl) (simp add: at_tok_def)

lemma eat_Inr: "eat k ts = Inr (t, r) \<longleftrightarrow> at_kind k ts \<and> t = cur ts \<and> r = tl ts"
  by (auto simp: eat_def fail_here_def)

lemma eat_tok_Inr: "eat_tok k v ts = Inr (t, r) \<longleftrightarrow> at_tok k v ts \<and> t = cur ts \<and> r = tl ts"
  by (auto simp: eat_tok_def fail_here_def)

lemma fail_here_Inr [simp]: "fail_here ts \<noteq> Inr x"
  by (simp add: fail_here_def)

lemma func_node_Inr: "func_node name pos es ts = Inr (e, r) \<Longrightarrow> r = ts"
  by (auto simp: func_node_def split: option.splits if_splits)

lemma search_value_eats:
  assumes "search_value fr ts = Inr (e, r)"
  shows "strict_suffix r ts"
proof -
  have "r = tl ts \<and> tk_kind (cur ts) \<noteq> TEof"
    using assms by (auto simp: search_value_def Let_def split: if_splits)
  then show ?thesis using kind_tl by blast
qed

lemmas suffix_steps = suffix_order.less_le_trans suffix_order.le_less_trans suffix_order.less_trans
  suffix_order.order_trans suffix_order.less_imp_le

lemma p_expr_eats_dom:
  "p_expr_dom (fr, nt, fts, d, ts) \<Longrightarrow> p_expr fr nt fts d ts = Inr (e, r) \<Longrightarrow> eats nt ts r"
proof (induction fr nt fts d ts arbitrary: e r rule: p_expr.pinduct)
  case (1 fr fts d ts)
  from 1(4) obtain l r1 where a: "\<not> max_depth < Suc d" "p_expr fr ExprAnd fts (Suc d) ts = Inr (l, r1)"
      "p_expr fr (OrRest l) fts (Suc d) r1 = Inr (e, r)"
    unfolding p_expr.psimps(1)[OF 1(1)] by (auto split: if_splits)
  then show ?case using 1(2)[OF a(1,2)] 1(3)[OF a(1,2) refl a(3)] by (auto simp: eats_def intro: suffix_steps)
next
  case (2 fr l fts d ts)
  show ?case
  proof (cases "at_tok TKw ''or'' ts")
    case True
    from 2(4) obtain x r1 where a: "p_expr fr ExprAnd fts d (tl ts) = Inr (x, r1)" "p_expr fr (OrRest (Binary ''or'' l x)) fts d r1 = Inr (e, r)"
      unfolding p_expr.psimps(2)[OF 2(1)] using True by auto
    then show ?thesis using 2(2)[OF True a(1)] 2(3)[OF True a(1) refl a(2)] at_tok_tl[OF True]
      by (auto simp: eats_def intro: suffix_steps)
  next
    case False
    then show ?thesis using 2(4) unfolding p_expr.psimps(2)[OF 2(1)] by (auto simp: eats_def eat_Inr dest!: func_node_Inr intro: suffix_steps at_kind_tl)
  qed
next
  case (3 fr fts d ts)
  from 3(4) obtain l1 r1 where a: "p_expr fr ExprNot fts d ts = Inr (l1, r1)" "p_expr fr (AndRest l1) fts d r1 = Inr (e, r)"
    unfolding p_expr.psimps(3)[OF 3(1)] by auto
  then show ?case using 3(2)[OF a(1)] 3(3)[OF a(1) refl a(2)] by (auto simp: eats_def intro: suffix_steps)
next
  case (4 fr l fts d ts)
  consider (conj) "at_tok TKw ''and'' ts" | (implicit) "\<not> at_tok TKw ''and'' ts" "starts_atom ts \<and> \<not> at_tok TKw ''or'' ts"
    | (stop) "\<not> at_tok TKw ''and'' ts" "\<not> (starts_atom ts \<and> \<not> at_tok TKw ''or'' ts)" by blast
  then show ?case
  proof cases
    case conj
    from 4(6) obtain x r1 where a: "p_expr fr ExprNot fts d (tl ts) = Inr (x, r1)"
        "p_expr fr (AndRest (Binary ''and'' l x)) fts d r1 = Inr (e, r)"
      unfolding p_expr.psimps(4)[OF 4(1)] using conj by auto
    then show ?thesis using 4(2)[OF conj a(1)] 4(3)[OF conj a(1) refl a(2)] at_tok_tl[OF conj]
      by (auto simp: eats_def intro: suffix_steps)
  next
    case implicit
    from 4(6) obtain x r1 where a: "p_expr fr ExprNot fts d ts = Inr (x, r1)"
        "p_expr fr (AndRest (Binary ''and'' l x)) fts d r1 = Inr (e, r)"
      unfolding p_expr.psimps(4)[OF 4(1)] using implicit by auto
    then show ?thesis using 4(4)[OF implicit a(1)] 4(5)[OF implicit a(1) refl a(2)]
      by (auto simp: eats_def intro: suffix_steps)
  next
    case stop
    then show ?thesis using 4(6) unfolding p_expr.psimps(4)[OF 4(1)] by (auto simp: eats_def split: if_splits)
  qed
next
  case (5 fr fts d ts)
  show ?case
  proof (cases "at_tok TKw ''not'' ts")
    case True
    from 5(4) obtain x where a: "\<not> max_depth < Suc d" "p_expr fr ExprNot fts (Suc d) (tl ts) = Inr (x, r)"
      unfolding p_expr.psimps(5)[OF 5(1)] using True by (auto split: if_splits)
    then show ?thesis using 5(2)[OF True a] at_tok_tl[OF True] by (auto simp: eats_def intro: suffix_steps)
  next
    case False
    then show ?thesis using 5(3)[OF False] 5(4) unfolding p_expr.psimps(5)[OF 5(1)] by (simp add: eats_def)
  qed
next
  case (6 fr fts d ts)
  from 6(7) obtain l r1 where a: "p_expr fr Additive fts d ts = Inr (l, r1)"
    unfolding p_expr.psimps(6)[OF 6(1)] by auto
  note s = 6(2)[OF a]
  note e = 6(7)[unfolded p_expr.psimps(6)[OF 6(1)] a sbind_simps prod.case]
  consider (cmp) "at_kind TOp r1 \<and> tk_val (cur r1) \<in> set cmp_ops"
    | (like) "\<not> (at_kind TOp r1 \<and> tk_val (cur r1) \<in> set cmp_ops)" "at_tok TKw ''like'' r1"
    | (isin) "\<not> (at_kind TOp r1 \<and> tk_val (cur r1) \<in> set cmp_ops)" "\<not> at_tok TKw ''like'' r1" "at_tok TKw ''in'' r1"
    | (atom) "\<not> (at_kind TOp r1 \<and> tk_val (cur r1) \<in> set cmp_ops)" "\<not> at_tok TKw ''like'' r1" "\<not> at_tok TKw ''in'' r1"
    by blast
  then show ?case
  proof cases
    case cmp
    from e obtain x where x: "p_expr fr Rhs fts d (tl r1) = Inr (x, r)" using cmp by auto
    show ?thesis using s 6(3)[OF a refl cmp x] at_kind_tl[of TOp r1] cmp by (auto simp: eats_def intro: suffix_steps)
  next
    case like
    from e obtain x where x: "p_expr fr Rhs fts d (tl r1) = Inr (x, r)" using like by auto
    show ?thesis using s 6(4)[OF a refl like x] at_tok_tl[OF like(2)] by (auto simp: eats_def intro: suffix_steps)
  next
    case isin
    from e obtain t r2 x r3 where x: "eat TLp (tl r1) = Inr (t, r2)" "p_expr fr Rhs fts d r2 = Inr (x, r3)"
        "p_expr fr (Items l [x]) fts d r3 = Inr (e, r)" using isin by auto
    have "strict_suffix r2 r1"
      using x(1) at_kind_tl[of TLp "tl r1"] at_tok_tl[OF isin(3)] by (auto simp: eat_Inr intro: suffix_steps)
    then show ?thesis using s 6(5)[OF a refl isin x(1) refl x(2)] 6(6)[OF a refl isin x(1) refl x(2) refl x(3)]
      by (auto simp: eats_def intro: suffix_steps)
  next
    case atom
    then show ?thesis using e s by (auto simp: eats_def split: if_splits)
  qed
next
  case (7 fr fts d ts)
  show ?case
  proof (cases fts)
    case True
    then show ?thesis using 7(3) search_value_eats unfolding p_expr.psimps(7)[OF 7(1)] by (simp add: eats_def)
  next
    case False
    then show ?thesis using 7(2)[OF False] 7(3) unfolding p_expr.psimps(7)[OF 7(1)] by (simp add: eats_def)
  qed
next
  case (8 fr l es fts d ts)
  show ?case
  proof (cases "at_kind TComma ts")
    case True
    from 8(4) obtain x r1 where a: "p_expr fr Rhs fts d (tl ts) = Inr (x, r1)" "p_expr fr (Items l (es @ [x])) fts d r1 = Inr (e, r)"
      unfolding p_expr.psimps(8)[OF 8(1)] using True by auto
    then show ?thesis using 8(2)[OF True a(1)] 8(3)[OF True a(1) refl a(2)] at_kind_tl[OF True]
      by (auto simp: eats_def intro: suffix_steps)
  next
    case False
    then show ?thesis using 8(4) unfolding p_expr.psimps(8)[OF 8(1)] by (auto simp: eats_def eat_Inr dest!: func_node_Inr intro: suffix_steps at_kind_tl)
  qed
next
  case (9 fr fts d ts)
  from 9(4) obtain l1 r1 where a: "p_expr fr ExprTerm fts d ts = Inr (l1, r1)" "p_expr fr (AddRest l1) fts d r1 = Inr (e, r)"
    unfolding p_expr.psimps(9)[OF 9(1)] by auto
  then show ?case using 9(2)[OF a(1)] 9(3)[OF a(1) refl a(2)] by (auto simp: eats_def intro: suffix_steps)
next
  case (10 fr l fts d ts)
  show ?case
  proof (cases "at_kind TOp ts \<and> tk_val (cur ts) \<in> {''+'', ''-'', ''.''}")
    case True
    from 10(4) obtain x r1 where a: "p_expr fr ExprTerm fts d (tl ts) = Inr (x, r1)" "p_expr fr (AddRest (Binary (tk_val (cur ts)) l x)) fts d r1 = Inr (e, r)"
      unfolding p_expr.psimps(10)[OF 10(1)] using True by auto
    then show ?thesis using 10(2)[OF True a(1)] 10(3)[OF True a(1) refl a(2)] at_kind_tl[of TOp ts] True
      by (auto simp: eats_def intro: suffix_steps)
  next
    case False
    then show ?thesis using 10(4) unfolding p_expr.psimps(10)[OF 10(1)] by (auto simp: eats_def eat_Inr dest!: func_node_Inr intro: suffix_steps at_kind_tl)
  qed
next
  case (11 fr fts d ts)
  from 11(4) obtain l1 r1 where a: "p_expr fr Factor fts d ts = Inr (l1, r1)" "p_expr fr (TermRest l1) fts d r1 = Inr (e, r)"
    unfolding p_expr.psimps(11)[OF 11(1)] by auto
  then show ?case using 11(2)[OF a(1)] 11(3)[OF a(1) refl a(2)] by (auto simp: eats_def intro: suffix_steps)
next
  case (12 fr l fts d ts)
  show ?case
  proof (cases "at_kind TOp ts \<and> tk_val (cur ts) \<in> {''*'', ''/'', ''%''}")
    case True
    from 12(4) obtain x r1 where a: "p_expr fr Factor fts d (tl ts) = Inr (x, r1)" "p_expr fr (TermRest (Binary (tk_val (cur ts)) l x)) fts d r1 = Inr (e, r)"
      unfolding p_expr.psimps(12)[OF 12(1)] using True by auto
    then show ?thesis using 12(2)[OF True a(1)] 12(3)[OF True a(1) refl a(2)] at_kind_tl[of TOp ts] True
      by (auto simp: eats_def intro: suffix_steps)
  next
    case False
    then show ?thesis using 12(4) unfolding p_expr.psimps(12)[OF 12(1)] by (auto simp: eats_def eat_Inr dest!: func_node_Inr intro: suffix_steps at_kind_tl)
  qed
next
  case (13 fr fts d ts)
  show ?case
  proof (cases "at_tok TOp ''-'' ts")
    case True
    from 13(4) obtain x where a: "p_expr fr Factor fts d (tl ts) = Inr (x, r)"
      unfolding p_expr.psimps(13)[OF 13(1)] using True by auto
    then show ?thesis using 13(2)[OF True a] at_tok_tl[OF True] by (auto simp: eats_def intro: suffix_steps)
  next
    case False
    then show ?thesis using 13(3)[OF False] 13(4) unfolding p_expr.psimps(13)[OF 13(1)] by (simp add: eats_def)
  qed
next
  case (14 fr fts d ts)
  let ?t = "cur ts"
  note eq = 14(5)[unfolded p_expr.psimps(14)[OF 14(1)]]
  consider (paren) "at_kind TLp ts"
    | (call) "at_kind TId ts \<or> at_kind TKw ts" "\<not> (at_tok TKw ''true'' ts \<or> at_tok TKw ''false'' ts)"
        "\<not> at_tok TKw ''null'' ts" "at_kind TLp (tl ts)" "dict_get funcs (lower (tk_val ?t)) \<noteq> None"
        "\<not> at_kind TRp (tl (tl ts))"
    | (other) "\<not> at_kind TLp ts" "\<not> (at_kind TId ts \<or> at_kind TKw ts) \<or> at_tok TKw ''true'' ts \<or> at_tok TKw ''false'' ts \<or>
        at_tok TKw ''null'' ts \<or> \<not> at_kind TLp (tl ts) \<or> dict_get funcs (lower (tk_val ?t)) = None \<or>
        at_kind TRp (tl (tl ts))"
    by argo
  then show ?case
  proof cases
    case paren
    then have k: "\<not> at_kind TNum ts" "\<not> at_kind TStr ts" "\<not> (at_tok TKw ''true'' ts \<or> at_tok TKw ''false'' ts)"
        "\<not> at_tok TKw ''null'' ts"
      by (simp_all add: at_kind_def at_tok_def)
    obtain r1 where r1: "p_expr fr ExprOr False d (tl ts) = Inr (e, r1)" "at_kind TRp r1" "r = tl r1"
      using eq k paren by (auto simp: eat_Inr)
    show ?thesis
      using 14(2)[OF k paren r1(1)] at_kind_tl[OF paren] at_kind_tl[OF r1(2)] r1(3)
      by (auto simp: eats_def intro: suffix_steps)
  next
    case call
    then have k: "\<not> at_kind TNum ts" "\<not> at_kind TStr ts" "\<not> at_kind TLp ts"
      by (auto simp: at_kind_def at_tok_def)
    have k2: "\<not> \<not> at_kind TLp (tl ts)" using call by simp
    obtain x r1 where a: "p_expr fr ExprOr False d (tl (tl ts)) = Inr (x, r1)"
        "p_expr fr (Args (tk_val ?t) (tk_pos ?t) [x]) fts d r1 = Inr (e, r)"
      using eq k call by auto
    have "strict_suffix (tl (tl ts)) ts"
      using at_kind_tl[of TId ts] at_kind_tl[of TKw ts] at_kind_tl[OF call(4)] call(1) by (auto intro: suffix_steps)
    then show ?thesis
      using 14(3)[OF k(1,2) call(2,3) k(3) call(1) k2 call(5,6) a(1)]
        14(4)[OF k(1,2) call(2,3) k(3) call(1) k2 call(5,6) a(1) refl a(2)]
      by (auto simp: eats_def intro: suffix_steps)
  next
    case other
    have "tk_kind ?t \<noteq> TEof \<and> (r = tl ts \<or>
        r = tl (tl (tl ts)) \<and> at_kind TLp (tl ts) \<and> at_kind TRp (tl (tl ts)))"
      using eq other by (auto simp: at_kind_def at_tok_def dest: func_node_Inr split: if_splits)
    then show ?thesis
      using kind_tl[of ts] at_kind_tl[of TLp "tl ts"] at_kind_tl[of TRp "tl (tl ts)"]
      by (auto simp: eats_def intro: suffix_steps)
  qed
next
  case (15 fr name pos es fts d ts)
  show ?case
  proof (cases "at_kind TComma ts")
    case True
    from 15(4) obtain x r1 where a: "p_expr fr ExprOr False d (tl ts) = Inr (x, r1)" "p_expr fr (Args name pos (es @ [x])) fts d r1 = Inr (e, r)"
      unfolding p_expr.psimps(15)[OF 15(1)] using True by auto
    then show ?thesis using 15(2)[OF True a(1)] 15(3)[OF True a(1) refl a(2)] at_kind_tl[OF True]
      by (auto simp: eats_def intro: suffix_steps)
  next
    case False
    then show ?thesis using 15(4) unfolding p_expr.psimps(15)[OF 15(1)] by (auto simp: eats_def eat_Inr dest!: func_node_Inr intro: suffix_steps at_kind_tl)
  qed
qed


lemma p_expr_shorter:
  assumes "p_expr fr nt fts d ts = Inr (e, r)" and "p_expr_dom (fr, nt, fts, d, ts)"
  shows "length r \<le> length ts \<and> (is_loop nt \<or> length r < length ts)"
  using p_expr_eats_dom[OF assms(2,1)]
  by (auto simp: eats_def suffix_length_less less_imp_le dest: suffix_length_le split: if_splits)

lemma kind_shorter:
  "at_kind k ts \<Longrightarrow> k \<noteq> TEof \<Longrightarrow> 0 < length ts"
  "at_tok k v ts \<Longrightarrow> k \<noteq> TEof \<Longrightarrow> 0 < length ts"
  by (auto simp: at_kind_def at_tok_def)

lemma kind_nonempty:
  "at_kind k ts \<Longrightarrow> k \<noteq> TEof \<Longrightarrow> ts \<noteq> []"
  "at_tok k v ts \<Longrightarrow> k \<noteq> TEof \<Longrightarrow> ts \<noteq> []"
  by (auto simp: at_kind_def at_tok_def)

lemma p_expr_total: "All p_expr_dom"
  apply (relation "measures [\<lambda>(fr, nt, fts, d, ts). length ts, \<lambda>(fr, nt, fts, d, ts). rank nt]")
  apply (auto simp: eat_Inr kind_nonempty dest!: p_expr_shorter dest: kind_shorter)
  done

termination p_expr
  by (rule p_expr_total)

declare p_expr.simps [simp del]

lemma p_expr_eats: "p_expr fr nt fts d ts = Inr (e, r) \<Longrightarrow> eats nt ts r"
  using p_expr_eats_dom p_expr_total by blast

lemma suffix_after:
  "suffix r ts \<Longrightarrow> suffix (tl r) ts"
  "suffix r (tl ts) \<Longrightarrow> suffix r ts"
  using suffix_tl suffix_order.order_trans by blast+

lemma p_expr_suffix: "p_expr fr nt fts d ts = Inr (e, r) \<Longrightarrow> suffix r ts"
  using p_expr_eats by (fastforce simp: eats_def intro: suffix_order.less_imp_le split: if_splits)

section \<open>Commands\<close>

function names_rest :: "string list \<Rightarrow> tok list \<Rightarrow> string list parsed" where
  "names_rest acc ts =
     (if at_kind TComma ts then sbind (p_name (tl ts)) (\<lambda>(n, r). names_rest (acc @ [n]) r)
      else Inr (acc, ts))"
  by pat_completeness auto

lemma p_name_suffix: "p_name ts = Inr (n, r) \<Longrightarrow> suffix r ts"
  by (auto simp: p_name_def suffix_tl split: if_splits)

lemma shorter_after:
  assumes "at_kind k ts" "k \<noteq> TEof" "suffix r (tl ts)"
  shows "length r < length ts"
  using suffix_length_le[OF assms(3)] kind_nonempty(1)[OF assms(1,2)] by (cases ts) auto

termination names_rest
  by (relation "measure (\<lambda>(acc, ts). length ts)") (auto dest!: p_name_suffix intro: shorter_after)

definition p_names :: "tok list \<Rightarrow> string list parsed" where
  "p_names ts = sbind (p_name ts) (\<lambda>(n, r). names_rest [n] r)"

definition rename_pair :: "tok list \<Rightarrow> (string \<times> string) parsed" where
  "rename_pair ts =
     sbind (p_name ts) (\<lambda>(src, r). sbind (eat_tok TKw ''as'' r) (\<lambda>(_, r1).
     sbind (p_name r1) (\<lambda>(dst, r2). Inr ((src, dst), r2))))"

lemma rename_pair_suffix: "rename_pair ts = Inr (p, r) \<Longrightarrow> suffix r ts"
  by (auto simp: rename_pair_def eat_tok_Inr dest!: p_name_suffix intro: suffix_steps suffix_after)

function pairs_rest :: "(string \<times> string) list \<Rightarrow> tok list \<Rightarrow> (string \<times> string) list parsed" where
  "pairs_rest acc ts =
     (if at_kind TComma ts then sbind (rename_pair (tl ts)) (\<lambda>(p, r). pairs_rest (acc @ [p]) r)
      else Inr (acc, ts))"
  by pat_completeness auto
termination
  by (relation "measure (\<lambda>(acc, ts). length ts)") (auto dest!: rename_pair_suffix intro: shorter_after)

definition sort_key :: "tok list \<Rightarrow> (string \<times> bool) parsed" where
  "sort_key ts =
     (let sign = at_tok TOp ''-'' ts \<or> at_tok TOp ''+'' ts;
          desc = (sign \<and> tk_val (cur ts) = ''-'')
      in sbind (p_name (if sign then tl ts else ts)) (\<lambda>(n, r). Inr ((n, desc), r)))"

lemma sort_key_suffix: "sort_key ts = Inr (p, r) \<Longrightarrow> suffix r ts"
  by (auto simp: sort_key_def Let_def dest!: p_name_suffix split: if_splits intro: suffix_steps suffix_after)

function keys_rest :: "(string \<times> bool) list \<Rightarrow> tok list \<Rightarrow> (string \<times> bool) list parsed" where
  "keys_rest acc ts =
     (if at_kind TComma ts then sbind (sort_key (tl ts)) (\<lambda>(k, r). keys_rest (acc @ [k]) r)
      else Inr (acc, ts))"
  by pat_completeness auto
termination
  by (relation "measure (\<lambda>(acc, ts). length ts)") (auto dest!: sort_key_suffix intro: shorter_after)

text \<open>An optional \<open>as <name>\<close> or \<open>by <name>\<close>.\<close>

definition opt_name :: "string \<Rightarrow> tok list \<Rightarrow> string option parsed" where
  "opt_name kw ts =
     (if at_tok TKw kw ts then sbind (p_name (tl ts)) (\<lambda>(n, r). Inr (Some n, r)) else Inr (None, ts))"

lemma opt_name_suffix: "opt_name kw ts = Inr (n, r) \<Longrightarrow> suffix r ts"
  by (auto simp: opt_name_def dest!: p_name_suffix split: if_splits intro: suffix_steps suffix_after)

definition agg_funcs :: "string list" where
  "agg_funcs = [''count'', ''sum'', ''avg'', ''min'', ''max'', ''dc'', ''distinct_count'', ''values'', ''list'']"

definition agg_arg :: "tok list \<Rightarrow> string option parsed" where
  "agg_arg ts =
     (if \<not> at_kind TLp ts then Inr (None, ts)
      else if at_kind TRp (tl ts) then Inr (None, tl (tl ts))
      else sbind (p_name (tl ts)) (\<lambda>(n, r). sbind (eat TRp r) (\<lambda>(_, r'). Inr (Some n, r'))))"

definition p_agg :: "tok list \<Rightarrow> agg parsed" where
  "p_agg ts =
     sbind (p_name ts) (\<lambda>(n, r).
       let func = (if lower n = ''distinct_count'' then ''dc'' else lower n) in
       if func \<notin> set agg_funcs then fail_here r
       else sbind (agg_arg r) (\<lambda>(arg, r1).
         if func \<noteq> ''count'' \<and> arg = None then fail_here r1
         else sbind (opt_name ''as'' r1) (\<lambda>(out, r2).
           Inr (\<lparr>ag_func = func, ag_arg = arg,
                 ag_out = (case out of Some label \<Rightarrow> label
                           | None \<Rightarrow> (case arg of Some a \<Rightarrow> func @ ''_'' @ a | None \<Rightarrow> ''count''))\<rparr>, r2))))"

lemma agg_arg_suffix: "agg_arg ts = Inr (n, r) \<Longrightarrow> suffix r ts"
  by (auto simp: agg_arg_def eat_Inr dest!: p_name_suffix split: if_splits intro: suffix_steps suffix_after)

lemma p_agg_suffix: "p_agg ts = Inr (n, r) \<Longrightarrow> suffix r ts"
  by (auto simp: p_agg_def Let_def dest!: p_name_suffix agg_arg_suffix opt_name_suffix
      split: if_splits intro: suffix_steps)

function aggs_rest :: "agg list \<Rightarrow> tok list \<Rightarrow> agg list parsed" where
  "aggs_rest acc ts =
     (if at_kind TComma ts then sbind (p_agg (tl ts)) (\<lambda>(a, r). aggs_rest (acc @ [a]) r)
      else Inr (acc, ts))"
  by pat_completeness auto
termination
  by (relation "measure (\<lambda>(acc, ts). length ts)") (auto dest!: p_agg_suffix intro: shorter_after)

declare names_rest.simps [simp del] pairs_rest.simps [simp del] keys_rest.simps [simp del]
  aggs_rest.simps [simp del]

definition p_aggs :: "tok list \<Rightarrow> agg list parsed" where
  "p_aggs ts = sbind (p_agg ts) (\<lambda>(a, r). aggs_rest [a] r)"

definition by_clause :: "tok list \<Rightarrow> string list parsed" where
  "by_clause ts = (if at_tok TKw ''by'' ts then p_names (tl ts) else Inr ([], ts))"

text \<open>\<open>\d+[smhd]\<close>.\<close>

definition is_span :: "string \<Rightarrow> bool" where
  "is_span v \<longleftrightarrow> v \<noteq> [] \<and> last v \<in> set ''smhd'' \<and> isdigit (butlast v)"

definition span_opt :: "tok list \<Rightarrow> string option parsed" where
  "span_opt ts =
     (if at_kind TId ts \<and> lower (tk_val (cur ts)) = ''span'' \<and> at_tok TOp ''='' (tl ts) then
        (let r = tl (tl ts); t = cur r; nxt = cur (tl r) in
         if tk_kind t = TNum then
           (if tk_kind nxt = TId \<and> tk_val nxt \<in> {''s'', ''m'', ''h'', ''d''} \<and>
               tk_pos t + length (tk_val t) = tk_pos nxt
            then Inr (Some (tk_val t @ tk_val nxt), tl (tl r))
            else fail_here r)
         else if tk_kind t = TStr then
           (if is_span (unquote (tk_val t)) then Inr (Some (unquote (tk_val t)), tl r) else fail_here r)
         else fail_here r)
      else Inr (None, ts))"

definition search_expr :: "(string \<Rightarrow> string) \<Rightarrow> tok list \<Rightarrow> expr option parsed" where
  "search_expr fr ts =
     (let r = (if at_tok TOp ''*'' ts then tl ts else ts) in
      if at_kind TPipe r \<or> at_kind TEof r then Inr (None, r)
      else sbind (p_expr fr ExprOr True 0 r) (\<lambda>(e, r'). Inr (Some e, r')))"

definition p_value_expr :: "(string \<Rightarrow> string) \<Rightarrow> tok list \<Rightarrow> expr parsed" where
  "p_value_expr fr ts = p_expr fr ExprOr False 0 ts"

definition model_name :: "tok list \<Rightarrow> string parsed" where
  "model_name ts =
     (let t = cur ts in
      if tk_kind t \<in> {TStr, TId, TKw} then
        (let name = (if tk_kind t = TStr then strip (unquote (tk_val t)) else tk_val t) in
         if name = [] then fail_here ts else Inr (name, tl ts))
      else fail_here ts)"

definition datamodel_prefix :: "tok list \<Rightarrow> string option parsed" where
  "datamodel_prefix ts =
     (if at_kind TId ts \<and> lower (tk_val (cur ts)) = ''from'' \<and>
         at_kind TId (tl ts) \<and> lower (tk_val (cur (tl ts))) = ''datamodel''
      then sbind (eat TColon (tl (tl ts))) (\<lambda>(_, r). sbind (model_name r) (\<lambda>(n, r'). Inr (Some n, r')))
      else Inr (None, ts))"

definition top_like :: "bool \<Rightarrow> tok list \<Rightarrow> stage parsed" where
  "top_like rare ts =
     sbind (if at_kind TNum ts then p_int ts else Inr (10, ts)) (\<lambda>(n, r).
     sbind (p_name r) (\<lambda>(f, r1). sbind (by_clause r1) (\<lambda>(b, r2). Inr (Top f n rare b, r2))))"

definition commands :: "string list" where
  "commands = [''search'', ''where'', ''eval'', ''fields'', ''rename'', ''sort'', ''head'', ''dedup'',
               ''stats'', ''top'', ''rare'', ''bin'', ''timechart'', ''datamodel'']"

text \<open>The methods \<open>_cmd_<name>\<close>.\<close>

definition run_command :: "(string \<Rightarrow> string) \<Rightarrow> string \<Rightarrow> tok list \<Rightarrow> stage parsed" where
  "run_command fr c ts =
     (if c = ''search'' then sbind (search_expr fr ts) (\<lambda>(e, r). Inr (Search e None, r))
      else if c = ''where'' then sbind (p_value_expr fr ts) (\<lambda>(e, r). Inr (Where e, r))
      else if c = ''eval'' then
        sbind (p_name ts) (\<lambda>(n, r). sbind (eat_tok TOp ''='' r) (\<lambda>(_, r1).
        sbind (p_value_expr fr r1) (\<lambda>(e, r2). Inr (Eval n e, r2))))
      else if c = ''fields'' then
        (let sign = at_tok TOp ''-'' ts \<or> at_tok TOp ''+'' ts; remove = (sign \<and> tk_val (cur ts) = ''-'')
         in sbind (p_names (if sign then tl ts else ts)) (\<lambda>(ns, r). Inr (Fields ns remove, r)))
      else if c = ''rename'' then
        sbind (rename_pair ts) (\<lambda>(p, r). sbind (pairs_rest [p] r) (\<lambda>(ps, r'). Inr (Rename ps, r')))
      else if c = ''sort'' then
        sbind (sort_key ts) (\<lambda>(k, r). sbind (keys_rest [k] r) (\<lambda>(ks, r'). Inr (Sort ks, r')))
      else if c = ''head'' then sbind (p_int ts) (\<lambda>(n, r). Inr (Head n, r))
      else if c = ''dedup'' then sbind (p_names ts) (\<lambda>(ns, r). Inr (Dedup ns, r))
      else if c = ''stats'' then
        sbind (p_aggs ts) (\<lambda>(as, r). sbind (by_clause r) (\<lambda>(b, r'). Inr (Stats as b, r')))
      else if c = ''top'' then top_like False ts
      else if c = ''rare'' then top_like True ts
      else if c = ''bin'' then
        sbind (span_opt ts) (\<lambda>(sp, r). sbind (p_name r) (\<lambda>(f, r1).
        sbind (opt_name ''as'' r1) (\<lambda>(out, r2). Inr (Bin f sp out, r2))))
      else if c = ''timechart'' then
        sbind (span_opt ts) (\<lambda>(sp, r). sbind (p_aggs r) (\<lambda>(as, r1).
        sbind (opt_name ''by'' r1) (\<lambda>(b, r2). Inr (Timechart as sp b, r2))))
      else sbind (model_name ts) (\<lambda>(n, r). Inr (Search None (Some n), r)))"

definition p_command :: "(string \<Rightarrow> string) \<Rightarrow> tok list \<Rightarrow> stage parsed" where
  "p_command fr ts =
     (if \<not> (at_kind TId ts \<or> at_kind TKw ts) then fail_here ts
      else let name = lower (tk_val (cur ts)) in
        if name = ''from'' then fail_here ts
        else if name \<notin> set commands then fail_here ts
        else run_command fr name (tl ts))"

text \<open>\<open>_set_datamodel\<close>: only a first search without a predicate and without a model takes it.\<close>

definition set_datamodel :: "stage list \<Rightarrow> string \<Rightarrow> nat \<Rightarrow> loql_error + stage list" where
  "set_datamodel stages name pos =
     (case stages of [Search None None] \<Rightarrow> Inr [Search None (Some name)]
      | _ \<Rightarrow> Inl (LoqlError (Some pos)))"

end
