(* ===== verification/LoqlQuery.thy ===== *)
theory LoqlQuery
  imports LoqlParse
begin

text \<open>
  Whole queries (\<open>_Parser.parse\<close>, \<open>parse\<close> of \<open>app/loql/parser.py\<close>) and what the parser guarantees: the
  positions it reports, the only exception that can escape it, and the shape of the trees it builds.

  The proofs go by a small rule system: \<open>step_ok\<close> says of a parsing step that a failure is a well-placed
  error and a success keeps the token list well formed and satisfies a predicate; \<open>step_bind\<close>
  composes two steps, and each method has its rule in \<open>parse_rules\<close>.
\<close>

section \<open>Queries\<close>

text \<open>One turn of the loop of \<open>parse\<close>: a data model replaces the source, another stage is appended.\<close>

definition add_stage :: "stage list \<Rightarrow> stage \<Rightarrow> nat \<Rightarrow> loql_error + stage list" where
  "add_stage stages st pos =
     (case st of Search _ (Some name) \<Rightarrow> set_datamodel stages name pos | _ \<Rightarrow> Inr (stages @ [st]))"

named_theorems command_suffix "a command returns a rest of its tokens"

lemmas [command_suffix] = p_name_suffix rename_pair_suffix sort_key_suffix opt_name_suffix agg_arg_suffix
  p_agg_suffix p_expr_suffix

text \<open>The step all four comma loops take.\<close>

lemma comma_step:
  assumes "at_kind TComma ts" "\<And>a b. item (tl ts) = Inr (a, b) \<Longrightarrow> suffix b (tl ts)"
    and "\<And>a b. item (tl ts) = Inr (a, b) \<Longrightarrow> loop a b = Inr (x, r) \<Longrightarrow> suffix r b"
    and "sbind (item (tl ts)) (\<lambda>(a, b). loop a b) = Inr (x, r)"
  shows "suffix r ts"
  using assms by (auto intro: suffix_steps suffix_after)

lemma names_rest_suffix [command_suffix]: "names_rest acc ts = Inr (x, r) \<Longrightarrow> suffix r ts"
proof (induction acc ts rule: names_rest.induct)
  case (1 acc ts)
  note eq = 1(2)[unfolded names_rest.simps[of acc ts]]
  show ?case
  proof (cases "at_kind TComma ts")
    case True
    show ?thesis
      by (rule comma_step[where item = p_name and loop = "\<lambda>a. names_rest (acc @ [a])", OF True])
        (use 1(1)[OF True] eq True in \<open>auto dest: p_name_suffix\<close>)
  qed (use eq in simp)
qed

lemma pairs_rest_suffix [command_suffix]: "pairs_rest acc ts = Inr (x, r) \<Longrightarrow> suffix r ts"
proof (induction acc ts rule: pairs_rest.induct)
  case (1 acc ts)
  note eq = 1(2)[unfolded pairs_rest.simps[of acc ts]]
  show ?case
  proof (cases "at_kind TComma ts")
    case True
    show ?thesis
      by (rule comma_step[where item = rename_pair and loop = "\<lambda>a. pairs_rest (acc @ [a])", OF True])
        (use 1(1)[OF True] eq True in \<open>auto dest: rename_pair_suffix\<close>)
  qed (use eq in simp)
qed

lemma keys_rest_suffix [command_suffix]: "keys_rest acc ts = Inr (x, r) \<Longrightarrow> suffix r ts"
proof (induction acc ts rule: keys_rest.induct)
  case (1 acc ts)
  note eq = 1(2)[unfolded keys_rest.simps[of acc ts]]
  show ?case
  proof (cases "at_kind TComma ts")
    case True
    show ?thesis
      by (rule comma_step[where item = sort_key and loop = "\<lambda>a. keys_rest (acc @ [a])", OF True])
        (use 1(1)[OF True] eq True in \<open>auto dest: sort_key_suffix\<close>)
  qed (use eq in simp)
qed

lemma aggs_rest_suffix [command_suffix]: "aggs_rest acc ts = Inr (x, r) \<Longrightarrow> suffix r ts"
proof (induction acc ts rule: aggs_rest.induct)
  case (1 acc ts)
  note eq = 1(2)[unfolded aggs_rest.simps[of acc ts]]
  show ?case
  proof (cases "at_kind TComma ts")
    case True
    show ?thesis
      by (rule comma_step[where item = p_agg and loop = "\<lambda>a. aggs_rest (acc @ [a])", OF True])
        (use 1(1)[OF True] eq True in \<open>auto dest: p_agg_suffix\<close>)
  qed (use eq in simp)
qed

lemma list_suffix [command_suffix]:
  "p_names ts = Inr (x, r) \<Longrightarrow> suffix r ts"
  "p_aggs ts = Inr (xa, r) \<Longrightarrow> suffix r ts"
  "by_clause ts = Inr (x, r) \<Longrightarrow> suffix r ts"
  by (auto simp: p_names_def p_aggs_def by_clause_def dest!: command_suffix split: if_splits
      intro: suffix_steps suffix_after)

lemma part_suffix [command_suffix]:
  "p_int ts = Inr (i, r) \<Longrightarrow> suffix r ts"
  "span_opt ts = Inr (x, r) \<Longrightarrow> suffix r ts"
  "search_expr fr ts = Inr (xe, r) \<Longrightarrow> suffix r ts"
  "p_value_expr fr ts = Inr (e, r) \<Longrightarrow> suffix r ts"
  "model_name ts = Inr (n, r) \<Longrightarrow> suffix r ts"
  by (auto simp: p_int_def span_opt_def search_expr_def p_value_expr_def model_name_def Let_def eat_Inr
      dest!: p_expr_suffix split: if_splits intro: suffix_steps suffix_after)

lemma top_like_suffix [command_suffix]: "top_like rare ts = Inr (st, r) \<Longrightarrow> suffix r ts"
  by (auto simp: top_like_def dest!: command_suffix split: if_splits intro: suffix_steps)

lemma run_command_suffix: "run_command fr c ts = Inr (st, r) \<Longrightarrow> suffix r ts"
  unfolding run_command_def Let_def
  by (auto simp: eat_tok_Inr dest!: command_suffix split: if_splits intro: suffix_steps suffix_after)

lemma p_command_suffix: "p_command fr ts = Inr (st, r) \<Longrightarrow> suffix r ts"
  by (auto simp: p_command_def Let_def dest!: run_command_suffix split: if_splits intro: suffix_after)

function parse_rest :: "(string \<Rightarrow> string) \<Rightarrow> stage list \<Rightarrow> tok list \<Rightarrow> stage list parsed" where
  "parse_rest fr stages ts =
     (if at_kind TPipe ts
      then sbind (p_command fr (tl ts)) (\<lambda>(st, r).
           sbind (add_stage stages st (tk_pos (cur (tl ts)))) (\<lambda>stages'. parse_rest fr stages' r))
      else Inr (stages, ts))"
  by pat_completeness auto
termination
  by (relation "measure (\<lambda>(fr, stages, ts). length ts)") (auto dest!: p_command_suffix intro: shorter_after)

declare parse_rest.simps [simp del]

definition p_query :: "(string \<Rightarrow> string) \<Rightarrow> tok list \<Rightarrow> loql_error + stage list" where
  "p_query fr ts =
     sbind (datamodel_prefix ts) (\<lambda>(dm, r).
     sbind (if at_kind TPipe r then Inr (None, r) else search_expr fr r) (\<lambda>(pred, r1).
     sbind (parse_rest fr [Search pred dm] r1) (\<lambda>(stages, r2).
     sbind (eat TEof r2) (\<lambda>_. Inr stages))))"

definition parse :: "(string \<Rightarrow> string) \<Rightarrow> string \<Rightarrow> loql_error + stage list" where
  "parse fr text =
     (if strip text = [] then Inl (LoqlError None) else sbind (lex text) (p_query fr))"

section \<open>Well-formed tokens and trees\<close>

text \<open>A name: \<open>[A-Za-z_]\w*\<close>, which is also what the compiler's \<open>_ident\<close> accepts.\<close>

definition is_ident :: "string \<Rightarrow> bool" where
  "is_ident s \<longleftrightarrow> s \<noteq> [] \<and> (is_letter (hd s) \<or> hd s = CHR ''_'') \<and> list_all is_word (tl s)"

text \<open>\<open>big\<close> says that the query holds a run of more than 4300 digits.\<close>

definition tok_ok :: "nat \<Rightarrow> bool \<Rightarrow> tok \<Rightarrow> bool" where
  "tok_ok n big t \<longleftrightarrow>
     tk_pos t \<le> n \<and> (tk_kind t \<in> {TId, TKw} \<longrightarrow> is_ident (tk_val t)) \<and>
     (tk_kind t = TNum \<longrightarrow> CHR ''.'' \<notin> set (tk_val t) \<longrightarrow>
        isdigit (tk_val t) \<and> (max_str_digits < length (tk_val t) \<longrightarrow> big))"

fun toks_ok :: "nat \<Rightarrow> bool \<Rightarrow> tok list \<Rightarrow> bool" where
  "toks_ok n big [] = False"
| "toks_ok n big [t] = (tk_kind t = TEof \<and> tok_ok n big t)"
| "toks_ok n big (t # ts) = (tk_kind t \<noteq> TEof \<and> tok_ok n big t \<and> toks_ok n big ts)"

definition err_ok :: "nat \<Rightarrow> bool \<Rightarrow> loql_error \<Rightarrow> bool" where
  "err_ok n big e =
     (case e of LoqlError p \<Rightarrow> (case p of Some p \<Rightarrow> p \<le> n | None \<Rightarrow> False)
      | Escaped x \<Rightarrow> x = ValueError \<and> big)"

definition unary_ops :: "string list" where "unary_ops = [''not'', ''-'']"

definition binary_ops :: "string list" where
  "binary_ops = [''and'', ''or'', ''='', ''!='', ''<'', ''<='', ''>'', ''>='', ''+'', ''-'', ''*'', ''/'', ''%'',
                 ''.'', ''like'']"

definition lit_ok :: "pyval \<Rightarrow> string \<Rightarrow> bool" where
  "lit_ok v k =
     (case v of VInt i \<Rightarrow> k = ''num'' \<and> 0 \<le> i | VFloat _ \<Rightarrow> k = ''num'' | VStr _ \<Rightarrow> k = ''str''
      | VBool _ \<Rightarrow> k = ''bool'' | VNone \<Rightarrow> k = ''null'' | _ \<Rightarrow> False)"

text \<open>The calls the parser builds: the full-text term, or a listed function with its number of arguments.\<close>

fun is_text_arg :: "expr list \<Rightarrow> bool" where
  "is_text_arg [Lit (VStr _) _] = True"
| "is_text_arg _ = False"

definition call_ok :: "string \<Rightarrow> expr list \<Rightarrow> bool" where
  "call_ok f es \<longleftrightarrow>
     (f = ''_fts'' \<and> is_text_arg es) \<or>
     list_ex (\<lambda>(_, g, argc). g = f \<and> (argc = None \<or> argc = Some (length es))) funcs"

fun wf_expr :: "expr \<Rightarrow> bool" where
  "wf_expr (Lit v k) = lit_ok v k"
| "wf_expr (Field n) = is_ident n"
| "wf_expr (Unary op e) = (op \<in> set unary_ops \<and> wf_expr e)"
| "wf_expr (Binary op l r) = (op \<in> set binary_ops \<and> wf_expr l \<and> wf_expr r)"
| "wf_expr (Func f es) = (call_ok f es \<and> list_all wf_expr es)"
| "wf_expr (InList e es) = (es \<noteq> [] \<and> wf_expr e \<and> list_all wf_expr es)"

definition wf_agg :: "agg \<Rightarrow> bool" where
  "wf_agg a \<longleftrightarrow>
     ag_func a \<in> set agg_funcs \<and> ag_func a \<noteq> ''distinct_count'' \<and> is_ident (ag_out a) \<and>
     (case ag_arg a of None \<Rightarrow> ag_func a = ''count'' | Some f \<Rightarrow> is_ident f)"

text \<open>What a stage after the first one may be: it carries no data model.\<close>

definition wf_stage :: "stage \<Rightarrow> bool" where
  "wf_stage st =
     (case st of
        Search e m \<Rightarrow> m = None \<and> (case e of None \<Rightarrow> True | Some e \<Rightarrow> wf_expr e)
      | Where e \<Rightarrow> wf_expr e
      | Eval n e \<Rightarrow> is_ident n \<and> wf_expr e
      | Fields ns _ \<Rightarrow> ns \<noteq> [] \<and> list_all is_ident ns
      | Rename ps \<Rightarrow> ps \<noteq> [] \<and> list_all (\<lambda>(a, b). is_ident a \<and> is_ident b) ps
      | Sort ks \<Rightarrow> ks \<noteq> [] \<and> list_all (\<lambda>(n, _). is_ident n) ks
      | Head n \<Rightarrow> 0 \<le> n
      | Dedup ns \<Rightarrow> ns \<noteq> [] \<and> list_all is_ident ns
      | Stats as b \<Rightarrow> as \<noteq> [] \<and> list_all wf_agg as \<and> list_all is_ident b
      | Top f n _ b \<Rightarrow> is_ident f \<and> 0 \<le> n \<and> list_all is_ident b
      | Bin f _ out \<Rightarrow> is_ident f \<and> (case out of None \<Rightarrow> True | Some out \<Rightarrow> is_ident out)
      | Timechart as _ b \<Rightarrow> as \<noteq> [] \<and> list_all wf_agg as \<and> (case b of None \<Rightarrow> True | Some b \<Rightarrow> is_ident b))"

text \<open>A query: a source, which may name a data model, and stages that do not.\<close>

definition wf_query :: "stage list \<Rightarrow> bool" where
  "wf_query stages =
     (case stages of
        Search e m # sts \<Rightarrow> (case e of None \<Rightarrow> True | Some e \<Rightarrow> wf_expr e) \<and> m \<noteq> Some [] \<and> list_all wf_stage sts
      | _ \<Rightarrow> False)"

section \<open>What a parsing step does\<close>

definition step_ok :: "nat \<Rightarrow> bool \<Rightarrow> ('a \<Rightarrow> bool) \<Rightarrow> 'a parsed \<Rightarrow> bool" where
  "step_ok n big P res =
     (case res of Inl e \<Rightarrow> err_ok n big e | Inr (a, r) \<Rightarrow> P a \<and> toks_ok n big r)"

named_theorems parse_rules "what each parsing step does"

lemma step_Inr: "P a \<Longrightarrow> toks_ok n big r \<Longrightarrow> step_ok n big P (Inr (a, r))"
  by (simp add: step_ok_def)

lemma step_Inl: "err_ok n big e \<Longrightarrow> step_ok n big P (Inl e)"
  by (simp add: step_ok_def)

lemma step_bind:
  assumes "step_ok n big P m"
    and "\<And>a r. m = Inr (a, r) \<Longrightarrow> P a \<Longrightarrow> toks_ok n big r \<Longrightarrow> step_ok n big Q (f (a, r))"
  shows "step_ok n big Q (sbind m f)"
  using assms by (auto simp: step_ok_def sbind_def split: sum.splits)

lemma step_bind_pure:
  assumes "\<And>e. m = Inl e \<Longrightarrow> err_ok n big e" and "\<And>a. m = Inr a \<Longrightarrow> step_ok n big Q (f a)"
  shows "step_ok n big Q (sbind m f)"
  using assms by (cases m) (auto simp: step_ok_def)

lemma step_mono: "step_ok n big P m \<Longrightarrow> (\<And>a. P a \<Longrightarrow> Q a) \<Longrightarrow> step_ok n big Q m"
  by (auto simp: step_ok_def split: sum.splits)

lemma toks_ok_cur: "toks_ok n big ts \<Longrightarrow> tok_ok n big (cur ts)"
  by (cases "(n, big, ts)" rule: toks_ok.cases) (auto simp: cur_def)

lemma toks_ok_pos: "toks_ok n big ts \<Longrightarrow> tk_pos (cur ts) \<le> n"
  using toks_ok_cur by (auto simp: tok_ok_def)

lemma toks_ok_tl: "toks_ok n big ts \<Longrightarrow> tk_kind (cur ts) \<noteq> TEof \<Longrightarrow> toks_ok n big (tl ts)"
  by (cases "(n, big, ts)" rule: toks_ok.cases) (auto simp: cur_def)

lemma toks_ok_after:
  "toks_ok n big ts \<Longrightarrow> at_kind k ts \<Longrightarrow> k \<noteq> TEof \<Longrightarrow> toks_ok n big (tl ts)"
  "toks_ok n big ts \<Longrightarrow> at_tok k v ts \<Longrightarrow> k \<noteq> TEof \<Longrightarrow> toks_ok n big (tl ts)"
  by (auto simp: at_kind_def at_tok_def intro: toks_ok_tl)

lemma fail_here_rule: "toks_ok n big ts \<Longrightarrow> step_ok n big P (fail_here ts)"
  by (simp add: step_ok_def fail_here_def err_ok_def toks_ok_pos)

lemma eat_rule:
  "toks_ok n big ts \<Longrightarrow> k \<noteq> TEof \<Longrightarrow>
     step_ok n big (\<lambda>t. tk_kind t = k \<and> tok_ok n big t) (eat k ts)"
  by (auto simp: eat_def at_kind_def intro: step_Inr fail_here_rule toks_ok_tl toks_ok_cur)

lemma eat_tok_rule:
  "toks_ok n big ts \<Longrightarrow> k \<noteq> TEof \<Longrightarrow> step_ok n big (\<lambda>t. tk_kind t = k \<and> tok_ok n big t) (eat_tok k v ts)"
  by (auto simp: eat_tok_def at_tok_def intro: step_Inr fail_here_rule toks_ok_tl toks_ok_cur)

lemma p_name_rule: "toks_ok n big ts \<Longrightarrow> step_ok n big is_ident (p_name ts)"
  using toks_ok_cur[of n big ts]
  by (auto simp: p_name_def at_kind_def tok_ok_def intro!: step_Inr fail_here_rule toks_ok_tl)

lemma int_of_num:
  assumes "tok_ok n big t" "tk_kind t = TNum" "CHR ''.'' \<notin> set (tk_val t)"
  shows "int_of (tk_val t) = Inl e \<Longrightarrow> err_ok n big e" and "int_of (tk_val t) = Inr i \<Longrightarrow> 0 \<le> i"
  using assms by (auto simp: int_of_def tok_ok_def err_ok_def isdigit_def digits_val_nonneg split: if_splits)

lemma p_int_rule: "toks_ok n big ts \<Longrightarrow> step_ok n big (\<lambda>i. 0 \<le> i) (p_int ts)"
  unfolding p_int_def
  by (rule step_bind[OF eat_rule])
    (auto simp: tok_ok_def err_ok_def intro!: step_Inl step_bind_pure step_Inr
      dest: int_of_num[of n big, rotated])

lemma num_lit_rule:
  assumes "toks_ok n big ts" "tk_kind (cur ts) = TNum"
    and "num_lit fr (tk_val (cur ts)) = res"
  shows "res = Inl e \<Longrightarrow> err_ok n big e" and "res = Inr x \<Longrightarrow> wf_expr x"
  using int_of_num[OF toks_ok_cur[OF assms(1)] assms(2)] assms(3)
  by (auto simp: num_lit_def lit_ok_def sbind_def split: if_splits sum.splits)


fun nt_ok :: "nat \<Rightarrow> nonterm \<Rightarrow> bool" where
  "nt_ok n (OrRest l) = wf_expr l"
| "nt_ok n (AndRest l) = wf_expr l"
| "nt_ok n (Items l es) = (wf_expr l \<and> es \<noteq> [] \<and> list_all wf_expr es)"
| "nt_ok n (AddRest l) = wf_expr l"
| "nt_ok n (TermRest l) = wf_expr l"
| "nt_ok n (Args _ pos es) = (pos \<le> n \<and> list_all wf_expr es)"
| "nt_ok n _ = True"

lemma lit_ok_simps [simp]:
  "lit_ok (VStr s) k \<longleftrightarrow> k = ''str''" "lit_ok (VBool b) k \<longleftrightarrow> k = ''bool''" "lit_ok VNone k \<longleftrightarrow> k = ''null''"
  "lit_ok (VInt i) k \<longleftrightarrow> k = ''num'' \<and> 0 \<le> i" "lit_ok (VFloat t) k \<longleftrightarrow> k = ''num''"
  by (simp_all add: lit_ok_def)

lemma fts_term_ok: "wf_expr e \<Longrightarrow> wf_expr (fts_term e)"
  by (auto simp: fts_term_def call_ok_def split: expr.splits)

lemma search_value_rule: "toks_ok n big ts \<Longrightarrow> step_ok n big wf_expr (search_value fr ts)"
  unfolding search_value_def Let_def
  by (auto intro!: step_Inr fail_here_rule step_bind_pure toks_ok_tl dest: num_lit_rule)

lemma func_node_rule:
  assumes "toks_ok n big ts" "pos \<le> n" "list_all wf_expr es"
  shows "step_ok n big wf_expr (func_node name pos es ts)"
proof (cases "dict_get funcs (lower name)")
  case (Some v)
  obtain f argc where v: "v = (f, argc)" by (cases v)
  have "(lower name, f, argc) \<in> set funcs" using Some v by (simp add: dict_get_SomeD)
  then have "argc = None \<or> argc = Some (length es) \<Longrightarrow> call_ok f es"
    unfolding call_ok_def list_ex_iff by blast
  then show ?thesis using assms Some v
    by (auto simp: func_node_def err_ok_def intro!: step_Inr step_Inl)
qed (use assms in \<open>auto simp: func_node_def err_ok_def intro!: step_Inl\<close>)

lemma binary_ops_mem:
  "op \<in> set cmp_ops \<Longrightarrow> op \<in> set binary_ops"
  "op \<in> {''+'', ''-'', ''.''} \<Longrightarrow> op \<in> set binary_ops"
  "op \<in> {''*'', ''/'', ''%''} \<Longrightarrow> op \<in> set binary_ops"
  "''and'' \<in> set binary_ops" "''or'' \<in> set binary_ops" "''like'' \<in> set binary_ops"
  "''+'' \<in> set binary_ops" "''-'' \<in> set binary_ops" "''.'' \<in> set binary_ops"
  "''*'' \<in> set binary_ops" "''/'' \<in> set binary_ops" "''%'' \<in> set binary_ops"
  by (auto simp: cmp_ops_def binary_ops_def)

lemma unary_ops_mem: "''not'' \<in> set unary_ops" "''-'' \<in> set unary_ops"
  by (simp_all add: unary_ops_def)

lemmas step_rules = step_Inr fail_here_rule toks_ok_after binary_ops_mem unary_ops_mem

lemma p_expr_rule:
  "toks_ok n big ts \<Longrightarrow> nt_ok n nt \<Longrightarrow> step_ok n big wf_expr (p_expr fr nt fts d ts)"
proof (induction fr nt fts d ts rule: p_expr.induct)
  case (1 fr fts d ts)
  then show ?case by (subst p_expr.simps) (auto intro!: step_rules step_bind)
next
  case (2 fr l fts d ts)
  then show ?case by (subst p_expr.simps) (auto intro!: step_rules step_bind)
next
  case (3 fr fts d ts)
  then show ?case by (subst p_expr.simps) (auto intro!: step_rules step_bind)
next
  case (4 fr l fts d ts)
  then show ?case by (subst p_expr.simps) (auto simp: binary_ops_mem(4) intro!: step_rules step_bind)
next
  case (5 fr fts d ts)
  then show ?case by (subst p_expr.simps) (auto intro!: step_rules step_bind)
next
  case (6 fr fts d ts)
  show ?case
    apply (subst p_expr.simps)
    apply (rule step_bind[OF 6(1)[OF 6(6)]])
     apply simp
    subgoal premises p for l r
      unfolding prod.case
      apply (split if_split, intro conjI impI)
      subgoal premises q
        by (rule step_bind[OF 6(2)[OF p(1) refl q]])
            (use p q in \<open>auto simp: binary_ops_mem(1) at_kind_def intro!: step_Inr toks_ok_tl\<close>)
      subgoal premises q
        apply (split if_split, intro conjI impI)
        subgoal premises q'
          by (rule step_bind[OF 6(3)[OF p(1) refl q q']])
            (use p q' in \<open>auto simp: binary_ops_mem(6) at_tok_def intro!: step_Inr toks_ok_tl\<close>)
        subgoal premises q'
          apply (split if_split, intro conjI impI)
          subgoal premises q2
            apply (rule step_bind[OF eat_rule])
            using p q2 apply (auto simp: at_tok_def intro!: toks_ok_tl)[2]
            subgoal premises e for t r1
              unfolding prod.case
              by (rule step_bind[OF 6(4)[OF p(1) refl q q' q2 e(1) refl e(3)]])
                (use 6(5)[OF p(1) refl q q' q2 e(1) refl] p e in auto)
            done
          subgoal using p by (auto intro!: step_rules fts_term_ok)
          done
        done
      done
    done
next
  case (7 fr fts d ts)
  then show ?case by (subst p_expr.simps) (auto intro!: search_value_rule)
next
  case (8 fr l es fts d ts)
  show ?case
  proof (cases "at_kind TComma ts")
    case True
    show ?thesis
      by (subst p_expr.simps, subst if_P[OF True], rule step_bind[OF 8(1)[OF True]])
        (use 8 True in \<open>auto simp: at_kind_def intro!: toks_ok_tl\<close>)
  next
    case False
    show ?thesis
      by (subst p_expr.simps, subst if_not_P[OF False], rule step_bind[OF eat_rule])
        (use 8 in \<open>auto intro!: step_Inr\<close>)
  qed
next
  case (9 fr fts d ts)
  then show ?case by (subst p_expr.simps) (auto intro!: step_rules step_bind)
next
  case (10 fr l fts d ts)
  show ?case
  proof (cases "at_kind TOp ts \<and> tk_val (cur ts) \<in> {''+'', ''-'', ''.''}")
    case True
    show ?thesis
      by (subst p_expr.simps, subst if_P[OF True], rule step_bind[OF 10(1)[OF True]])
        (use 10 True in \<open>auto simp: binary_ops_mem(7-12) at_kind_def intro!: toks_ok_tl\<close>)
  next
    case False
    show ?thesis
      by (subst p_expr.simps, subst if_not_P[OF False]) (use 10 in \<open>auto intro!: step_Inr\<close>)
  qed
next
  case (11 fr fts d ts)
  then show ?case by (subst p_expr.simps) (auto intro!: step_rules step_bind)
next
  case (12 fr l fts d ts)
  show ?case
  proof (cases "at_kind TOp ts \<and> tk_val (cur ts) \<in> {''*'', ''/'', ''%''}")
    case True
    show ?thesis
      by (subst p_expr.simps, subst if_P[OF True], rule step_bind[OF 12(1)[OF True]])
        (use 12 True in \<open>auto simp: binary_ops_mem(7-12) at_kind_def intro!: toks_ok_tl\<close>)
  next
    case False
    show ?thesis
      by (subst p_expr.simps, subst if_not_P[OF False]) (use 12 in \<open>auto intro!: step_Inr\<close>)
  qed
next
  case (13 fr fts d ts)
  then show ?case by (subst p_expr.simps) (auto intro!: step_rules step_bind)
next
  case (14 fr fts d ts)
  note tl = toks_ok_tl[OF 14(4)]
  have pos: "tk_pos (cur ts) \<le> n" by (rule toks_ok_pos[OF 14(4)])
  show ?case
    apply (subst p_expr.simps)
    apply (split if_split, intro conjI impI)
    subgoal premises q
      using num_lit_rule[OF 14(4), of fr] q tl by (auto simp: at_kind_def intro!: step_bind_pure step_Inr)
    subgoal premises q1
      apply (split if_split, intro conjI impI)
      subgoal using tl by (auto simp: at_kind_def intro!: step_Inr)
      subgoal premises q2
        apply (split if_split, intro conjI impI)
        subgoal using tl by (auto simp: at_tok_def intro!: step_Inr)
        subgoal premises q3
          apply (split if_split, intro conjI impI)
          subgoal using tl by (auto simp: at_tok_def intro!: step_Inr)
          subgoal premises q4
            apply (split if_split, intro conjI impI)
            subgoal premises q5
              by (rule step_bind[OF 14(1)[OF q1 q2 q3 q4 q5]])
                (use tl q5 in \<open>auto simp: at_kind_def intro!: step_bind[OF eat_rule] step_Inr\<close>)
            subgoal premises q5
              apply (split if_split, intro conjI impI)
              subgoal premises q6
                apply (split if_split, intro conjI impI)
                subgoal using tl q6 toks_ok_cur[OF 14(4)]
                  by (auto simp: at_kind_def tok_ok_def intro!: step_Inr)
                subgoal premises q7
                  apply (split if_split, intro conjI impI)
                  subgoal by (rule fail_here_rule[OF 14(4)])
                  subgoal premises q8
                  proof -
                    have t2: "toks_ok n big (tl (tl ts))"
                      using toks_ok_tl[OF tl] q6 q7 by (auto simp: at_kind_def)
                    show ?thesis
                      apply (split if_split, intro conjI impI)
                      subgoal using pos toks_ok_after(1)[OF t2] by (auto intro!: func_node_rule)
                      subgoal premises q9
                        by (rule step_bind[OF 14(2)[OF q1 q2 q3 q4 q5 q6 q7 q8 q9 t2]])
                          (use 14(3)[OF q1 q2 q3 q4 q5 q6 q7 q8 q9] pos in auto)
                      done
                  qed
                  done
                done
              subgoal by (rule fail_here_rule[OF 14(4)])
              done
            done
          done
        done
      done
    done
next
  case (15 fr name pos es fts d ts)
  show ?case
  proof (cases "at_kind TComma ts")
    case True
    show ?thesis
      by (subst p_expr.simps, subst if_P[OF True], rule step_bind[OF 15(1)[OF True]])
        (use 15 True in \<open>auto simp: at_kind_def intro!: toks_ok_tl\<close>)
  next
    case False
    show ?thesis
      by (subst p_expr.simps, subst if_not_P[OF False], rule step_bind[OF eat_rule])
        (use 15 in \<open>auto intro!: func_node_rule\<close>)
  qed
qed


lemma tl_rule:
  assumes "toks_ok n big ts" "tk_kind (cur ts) = k" "k \<noteq> TEof"
  shows "toks_ok n big (tl ts)"
  using assms toks_ok_tl by auto

lemma names_rest_rule:
  "toks_ok n big ts \<Longrightarrow> acc \<noteq> [] \<Longrightarrow> list_all is_ident acc \<Longrightarrow>
     step_ok n big (\<lambda>ns. ns \<noteq> [] \<and> list_all is_ident ns) (names_rest acc ts)"
proof (induction acc ts rule: names_rest.induct)
  case (1 acc ts)
  then show ?case
    by (subst names_rest.simps)
      (auto intro!: step_Inr step_bind[OF p_name_rule] toks_ok_after(1))
qed

lemma p_names_rule: "toks_ok n big ts \<Longrightarrow> step_ok n big (\<lambda>ns. ns \<noteq> [] \<and> list_all is_ident ns) (p_names ts)"
  unfolding p_names_def by (rule step_bind[OF p_name_rule]) (auto intro: names_rest_rule)

lemma rename_pair_rule: "toks_ok n big ts \<Longrightarrow> step_ok n big (\<lambda>(a, b). is_ident a \<and> is_ident b) (rename_pair ts)"
  unfolding rename_pair_def
  by (rule step_bind[OF p_name_rule])
    (auto intro!: step_bind[OF p_name_rule] step_bind[OF eat_tok_rule] step_Inr)

lemma pairs_rest_rule:
  "toks_ok n big ts \<Longrightarrow> acc \<noteq> [] \<Longrightarrow> list_all (\<lambda>(a, b). is_ident a \<and> is_ident b) acc \<Longrightarrow>
     step_ok n big (\<lambda>ps. ps \<noteq> [] \<and> list_all (\<lambda>(a, b). is_ident a \<and> is_ident b) ps) (pairs_rest acc ts)"
proof (induction acc ts rule: pairs_rest.induct)
  case (1 acc ts)
  then show ?case
    by (subst pairs_rest.simps)
      (auto intro!: step_Inr step_bind[OF rename_pair_rule] toks_ok_after(1))
qed

lemma sort_key_rule: "toks_ok n big ts \<Longrightarrow> step_ok n big (\<lambda>(k, _). is_ident k) (sort_key ts)"
  unfolding sort_key_def Let_def
  by (rule step_bind[OF p_name_rule]) (auto intro: step_Inr tl_rule simp: at_tok_def)

lemma keys_rest_rule:
  "toks_ok n big ts \<Longrightarrow> acc \<noteq> [] \<Longrightarrow> list_all (\<lambda>(k, _). is_ident k) acc \<Longrightarrow>
     step_ok n big (\<lambda>ks. ks \<noteq> [] \<and> list_all (\<lambda>(k, _). is_ident k) ks) (keys_rest acc ts)"
proof (induction acc ts rule: keys_rest.induct)
  case (1 acc ts)
  then show ?case
    by (subst keys_rest.simps)
      (auto intro!: step_Inr step_bind[OF sort_key_rule] toks_ok_after(1))
qed

definition opt_ok :: "('a \<Rightarrow> bool) \<Rightarrow> 'a option \<Rightarrow> bool" where
  "opt_ok P x \<longleftrightarrow> (case x of None \<Rightarrow> True | Some a \<Rightarrow> P a)"

lemma opt_ok_simps [simp]: "opt_ok P None" "opt_ok P (Some a) = P a"
  by (simp_all add: opt_ok_def)

lemma opt_name_rule: "toks_ok n big ts \<Longrightarrow> step_ok n big (opt_ok is_ident) (opt_name kw ts)"
  unfolding opt_name_def
  by (auto intro!: step_Inr step_bind[OF p_name_rule] tl_rule simp: at_tok_def)

lemma agg_arg_rule: "toks_ok n big ts \<Longrightarrow> step_ok n big (opt_ok is_ident) (agg_arg ts)"
  using toks_ok_after(1)[of n big ts TLp] toks_ok_after(1)[of n big "tl ts" TRp]
  unfolding agg_arg_def
  by (auto intro!: step_Inr step_bind[OF p_name_rule] step_bind[OF eat_rule])

lemma is_ident_append: "is_ident a \<Longrightarrow> list_all is_word b \<Longrightarrow> is_ident (a @ b)"
  by (cases a) (auto simp: is_ident_def)

lemma is_ident_word: "is_ident a \<Longrightarrow> list_all is_word a"
  by (cases a) (auto simp: is_ident_def is_word_def)

lemma agg_out_ident: "func \<in> set agg_funcs \<Longrightarrow> is_ident a \<Longrightarrow> is_ident (func @ ''_'' @ a)" "is_ident ''count''"
    "lower m \<in> set agg_funcs \<Longrightarrow> is_ident a \<Longrightarrow> is_ident (lower m @ CHR ''_'' # a)"
    "is_ident a \<Longrightarrow> is_ident (CHR ''d'' # CHR ''c'' # CHR ''_'' # a)"
proof -
  have "list_all (\<lambda>f. is_ident (f @ ''_'')) agg_funcs" "is_ident ''count''" by code_simp+
  then show "func \<in> set agg_funcs \<Longrightarrow> is_ident a \<Longrightarrow> is_ident (func @ ''_'' @ a)" for func
    using is_ident_append[of "func @ ''_''" a] is_ident_word by (auto simp: list_all_iff)
  from this[of "lower m"]
  show "lower m \<in> set agg_funcs \<Longrightarrow> is_ident a \<Longrightarrow> is_ident (lower m @ CHR ''_'' # a)" by simp
  show "is_ident a \<Longrightarrow> is_ident (CHR ''d'' # CHR ''c'' # CHR ''_'' # a)"
    using is_ident_word by (auto simp: is_ident_def is_letter_def is_word_def code_def)
qed (code_simp)

lemma p_agg_rule: "toks_ok n big ts \<Longrightarrow> step_ok n big wf_agg (p_agg ts)"
  unfolding p_agg_def Let_def
  apply (rule step_bind[OF p_name_rule], assumption)
  subgoal for name r
    unfolding prod.case
    apply (split if_split, intro conjI impI)
     apply (rule fail_here_rule, assumption)
    apply (rule step_bind[OF agg_arg_rule], assumption)
    unfolding prod.case
    apply (split if_split, intro conjI impI)
     apply (rule fail_here_rule, assumption)
    apply (rule step_bind[OF opt_name_rule], assumption)
    by (auto simp: wf_agg_def agg_out_ident opt_ok_def split: option.splits intro!: step_Inr)
  done


lemma p_aggs_rule: "toks_ok n big ts \<Longrightarrow> step_ok n big (\<lambda>as. as \<noteq> [] \<and> list_all wf_agg as) (p_aggs ts)"
proof -
  have rest: "toks_ok n big ts \<Longrightarrow> acc \<noteq> [] \<Longrightarrow> list_all wf_agg acc \<Longrightarrow>
      step_ok n big (\<lambda>as. as \<noteq> [] \<and> list_all wf_agg as) (aggs_rest acc ts)" for acc ts
  proof (induction acc ts rule: aggs_rest.induct)
    case (1 acc ts)
    then show ?case
      by (subst aggs_rest.simps) (auto intro!: step_Inr step_bind[OF p_agg_rule] toks_ok_after(1))
  qed
  show "toks_ok n big ts \<Longrightarrow> ?thesis"
    unfolding p_aggs_def by (rule step_bind[OF p_agg_rule]) (auto intro: rest)
qed

lemma by_clause_rule: "toks_ok n big ts \<Longrightarrow> step_ok n big (list_all is_ident) (by_clause ts)"
  using toks_ok_after(2)[of n big ts TKw "''by''"]
  by (auto simp: by_clause_def intro!: step_Inr step_mono[OF p_names_rule])

lemma span_opt_rule: "toks_ok n big ts \<Longrightarrow> step_ok n big (\<lambda>_. True) (span_opt ts)"
proof -
  assume ts: "toks_ok n big ts"
  show ?thesis
  proof (cases "at_kind TId ts \<and> lower (tk_val (cur ts)) = ''span'' \<and> at_tok TOp ''='' (tl ts)")
    case True
    then have r: "toks_ok n big (tl (tl ts))"
      using ts toks_ok_after(1)[of n big ts TId] toks_ok_after(2)[of n big "tl ts" TOp] by auto
    show ?thesis
      unfolding span_opt_def Let_def if_P[OF True]
      using r toks_ok_tl[OF r] toks_ok_tl[of n big "tl (tl (tl ts))"]
      by (auto intro!: step_Inr fail_here_rule)
  qed (use ts in \<open>auto simp: span_opt_def intro: step_Inr\<close>)
qed

lemma search_expr_rule: "toks_ok n big ts \<Longrightarrow> step_ok n big (opt_ok wf_expr) (search_expr fr ts)"
  using toks_ok_after(2)[of n big ts TOp "''*''"]
  by (auto simp: search_expr_def Let_def intro!: step_Inr step_bind[OF p_expr_rule])

lemma p_value_expr_rule: "toks_ok n big ts \<Longrightarrow> step_ok n big wf_expr (p_value_expr fr ts)"
  unfolding p_value_expr_def by (rule p_expr_rule) simp_all

lemma model_name_rule: "toks_ok n big ts \<Longrightarrow> step_ok n big (\<lambda>m. m \<noteq> []) (model_name ts)"
  using toks_ok_tl[of n big ts]
  by (auto simp: model_name_def Let_def intro!: step_Inr fail_here_rule)

lemma datamodel_prefix_rule: "toks_ok n big ts \<Longrightarrow> step_ok n big (\<lambda>m. m \<noteq> Some []) (datamodel_prefix ts)"
proof -
  assume ts: "toks_ok n big ts"
  show ?thesis
  proof (cases "at_kind TId ts \<and> lower (tk_val (cur ts)) = ''from'' \<and>
         at_kind TId (tl ts) \<and> lower (tk_val (cur (tl ts))) = ''datamodel''")
    case True
    then have r: "toks_ok n big (tl (tl ts))"
      using ts toks_ok_after(1)[of n big ts TId] toks_ok_after(1)[of n big "tl ts" TId] by auto
    show ?thesis
      unfolding datamodel_prefix_def if_P[OF True]
      by (rule step_bind[OF eat_rule[OF r]]) (auto intro!: step_bind[OF model_name_rule] step_Inr)
  qed (use ts in \<open>auto simp: datamodel_prefix_def intro: step_Inr\<close>)
qed

text \<open>What a command builds: a well-formed stage, or the one stage that names a data model.\<close>

definition new_stage_ok :: "stage \<Rightarrow> bool" where
  "new_stage_ok st \<longleftrightarrow> wf_stage st \<or> (case st of Search None (Some m) \<Rightarrow> m \<noteq> [] | _ \<Rightarrow> False)"

lemma new_stage_simps:
  "new_stage_ok (Where e) = wf_expr e"
  "new_stage_ok (Search pe None) = opt_ok wf_expr pe"
  "new_stage_ok (Eval m e) = (is_ident m \<and> wf_expr e)"
  "new_stage_ok (Fields ns b) = (ns \<noteq> [] \<and> list_all is_ident ns)"
  "new_stage_ok (Rename ps) = (ps \<noteq> [] \<and> list_all (\<lambda>(a, b). is_ident a \<and> is_ident b) ps)"
  "new_stage_ok (Sort ks) = (ks \<noteq> [] \<and> list_all (\<lambda>(k, _). is_ident k) ks)"
  "new_stage_ok (Head i) = (0 \<le> i)"
  "new_stage_ok (Dedup ns) = (ns \<noteq> [] \<and> list_all is_ident ns)"
  "new_stage_ok (Stats as bs) = (as \<noteq> [] \<and> list_all wf_agg as \<and> list_all is_ident bs)"
  "new_stage_ok (Top f i b bs) = (is_ident f \<and> 0 \<le> i \<and> list_all is_ident bs)"
  "new_stage_ok (Bin f sp out) = (is_ident f \<and> opt_ok is_ident out)"
  "new_stage_ok (Timechart as sp bo) = (as \<noteq> [] \<and> list_all wf_agg as \<and> opt_ok is_ident bo)"
  "new_stage_ok (Search None (Some m)) = (m \<noteq> [])"
  by (auto simp: new_stage_ok_def wf_stage_def opt_ok_def split: option.splits)

lemma top_like_rule: "toks_ok n big ts \<Longrightarrow> step_ok n big new_stage_ok (top_like rare ts)"
  unfolding top_like_def
  by (rule step_bind[where P = "\<lambda>i. 0 \<le> i"])
    (auto simp: new_stage_simps intro!: p_int_rule step_Inr step_bind[OF p_name_rule]
      step_bind[OF by_clause_rule])

lemmas sequel_rules = step_Inr p_value_expr_rule step_bind[OF p_name_rule] step_bind[OF eat_tok_rule]
  step_bind[OF p_value_expr_rule] step_bind[OF by_clause_rule] step_bind[OF opt_name_rule]
  step_bind[OF p_aggs_rule] step_bind[OF pairs_rest_rule] step_bind[OF keys_rest_rule]

lemma run_command_rule:
  assumes ts: "toks_ok n big ts"
  shows "step_ok n big new_stage_ok (run_command fr c ts)"
  unfolding run_command_def
  apply (rule if_split[THEN iffD2], intro conjI impI)
  subgoal by (rule step_bind[OF search_expr_rule[OF ts]]) (auto simp: new_stage_simps intro!: step_Inr)
  apply (rule if_split[THEN iffD2], intro conjI impI)
  subgoal by (rule step_bind[OF p_value_expr_rule[OF ts]]) (auto simp: new_stage_simps intro!: step_Inr)
  apply (rule if_split[THEN iffD2], intro conjI impI)
  subgoal by (rule step_bind[OF p_name_rule[OF ts]]) (auto simp: new_stage_simps intro!: sequel_rules)
  apply (rule if_split[THEN iffD2], intro conjI impI)
  subgoal unfolding Let_def
    by (rule step_bind[OF p_names_rule])
      (use ts toks_ok_after(2)[of n big ts TOp] in \<open>auto simp: new_stage_simps intro!: step_Inr\<close>)
  apply (rule if_split[THEN iffD2], intro conjI impI)
  subgoal by (rule step_bind[OF rename_pair_rule[OF ts]]) (auto simp: new_stage_simps intro!: sequel_rules)
  apply (rule if_split[THEN iffD2], intro conjI impI)
  subgoal by (rule step_bind[OF sort_key_rule[OF ts]]) (auto simp: new_stage_simps intro!: sequel_rules)
  apply (rule if_split[THEN iffD2], intro conjI impI)
  subgoal by (rule step_bind[OF p_int_rule[OF ts]]) (auto simp: new_stage_simps intro!: step_Inr)
  apply (rule if_split[THEN iffD2], intro conjI impI)
  subgoal by (rule step_bind[OF p_names_rule[OF ts]]) (auto simp: new_stage_simps intro!: step_Inr)
  apply (rule if_split[THEN iffD2], intro conjI impI)
  subgoal by (rule step_bind[OF p_aggs_rule[OF ts]]) (auto simp: new_stage_simps intro!: sequel_rules)
  apply (rule if_split[THEN iffD2], intro conjI impI)
  subgoal by (rule top_like_rule[OF ts])
  apply (rule if_split[THEN iffD2], intro conjI impI)
  subgoal by (rule top_like_rule[OF ts])
  apply (rule if_split[THEN iffD2], intro conjI impI)
  subgoal by (rule step_bind[OF span_opt_rule[OF ts]]) (auto simp: new_stage_simps intro!: sequel_rules)
  apply (rule if_split[THEN iffD2], intro conjI impI)
  subgoal by (rule step_bind[OF span_opt_rule[OF ts]]) (auto simp: new_stage_simps intro!: sequel_rules)
  subgoal by (rule step_bind[OF model_name_rule[OF ts]]) (auto simp: new_stage_simps intro!: step_Inr)
  done

lemma p_command_rule: "toks_ok n big ts \<Longrightarrow> step_ok n big new_stage_ok (p_command fr ts)"
  using toks_ok_tl[of n big ts]
  by (auto simp: p_command_def Let_def at_kind_def intro!: fail_here_rule run_command_rule)

lemma add_stage_rule:
  assumes "wf_query stages" "new_stage_ok st" "pos \<le> n"
  shows "add_stage stages st pos = Inl e \<Longrightarrow> err_ok n big e"
    and "add_stage stages st pos = Inr stages' \<Longrightarrow> wf_query stages'"
proof -
  have refused: "set_datamodel stages m pos = Inl e \<Longrightarrow> err_ok n big e" for m e
    using assms(3) by (auto simp: set_datamodel_def err_ok_def split: list.splits stage.splits option.splits)
  have source: "m \<noteq> [] \<Longrightarrow> set_datamodel stages m pos = Inr stages' \<Longrightarrow> wf_query stages'" for m stages'
    by (auto simp: set_datamodel_def wf_query_def split: list.splits stage.splits option.splits)
  have appended: "wf_stage st \<Longrightarrow> wf_query (stages @ [st])"
    using assms(1) by (cases stages) (auto simp: wf_query_def split: stage.splits)
  show "add_stage stages st pos = Inl e \<Longrightarrow> err_ok n big e"
    by (cases st) (auto simp: add_stage_def refused split: option.splits)
  show "add_stage stages st pos = Inr stages' \<Longrightarrow> wf_query stages'"
    using assms(2) appended source
    by (cases st) (auto simp: add_stage_def new_stage_ok_def wf_stage_def split: option.splits)
qed

lemma parse_rest_rule:
  "toks_ok n big ts \<Longrightarrow> wf_query stages \<Longrightarrow> step_ok n big wf_query (parse_rest fr stages ts)"
proof (induction fr stages ts rule: parse_rest.induct)
  case (1 fr stages ts)
  show ?case
  proof (cases "at_kind TPipe ts")
    case True
    have tl: "toks_ok n big (tl ts)" using 1 True toks_ok_after(1) by blast
    show ?thesis
      apply (subst parse_rest.simps, subst if_P[OF True])
      apply (rule step_bind[OF p_command_rule[OF tl]])
      subgoal premises p for st r
        unfolding prod.case
        using add_stage_rule[OF 1(3) p(2) toks_ok_pos[OF tl]] 1(1)[OF True p(1) refl] p(3)
        by (auto intro!: step_bind_pure)
      done
  qed (use 1 in \<open>auto simp: parse_rest.simps[of fr stages ts] intro!: step_Inr\<close>)
qed

definition result_ok :: "nat \<Rightarrow> bool \<Rightarrow> ('a \<Rightarrow> bool) \<Rightarrow> loql_error + 'a \<Rightarrow> bool" where
  "result_ok n big P res \<longleftrightarrow> (case res of Inl e \<Rightarrow> err_ok n big e | Inr a \<Rightarrow> P a)"

lemma result_bind:
  assumes "step_ok n big P m"
    and "\<And>a r. m = Inr (a, r) \<Longrightarrow> P a \<Longrightarrow> toks_ok n big r \<Longrightarrow> result_ok n big Q (f (a, r))"
  shows "result_ok n big Q (sbind m f)"
  using assms by (auto simp: step_ok_def result_ok_def sbind_def split: sum.splits)

lemma p_query_rule:
  assumes ts: "toks_ok n big ts"
  shows "result_ok n big wf_query (p_query fr ts)"
  unfolding p_query_def
proof (rule result_bind[OF datamodel_prefix_rule[OF ts]], unfold prod.case)
  fix dm :: "string option" and r
  assume r: "dm \<noteq> Some []" "toks_ok n big r"
  have src: "step_ok n big (opt_ok wf_expr) (if at_kind TPipe r then Inr (None, r) else search_expr fr r)"
    using r by (auto intro: step_Inr search_expr_rule)
  have start: "wf_query [Search p dm]" if "opt_ok wf_expr p" for p
    using that r by (simp add: wf_query_def opt_ok_def)
  show "result_ok n big wf_query
      (sbind (if at_kind TPipe r then Inr (None, r) else search_expr fr r) (\<lambda>(pred, r1).
       sbind (parse_rest fr [Search pred dm] r1) (\<lambda>(stages, r2). sbind (eat TEof r2) (\<lambda>_. Inr stages))))"
    apply (rule result_bind[OF src], unfold prod.case)
    apply (rule result_bind[OF parse_rest_rule], assumption, erule start)
    by (auto simp: eat_def fail_here_def result_ok_def err_ok_def toks_ok_pos)
qed


section \<open>The lexer\<close>

definition long_numeral :: "string \<Rightarrow> bool" where
  "long_numeral text \<longleftrightarrow> (\<exists>ds. sublist ds text \<and> isdigit ds \<and> max_str_digits < length ds)"

lemma scan_str_length: "scan_str q s = Some r \<Longrightarrow> length r \<le> length s"
proof (induction q s arbitrary: r rule: scan_str.induct)
  case (2 q c cs)
  show ?case
  proof (cases "c = q \<or> c \<noteq> backslash")
    case True
    then show ?thesis using 2(2,3) by (auto split: if_splits)
  next
    case False
    then obtain d ds r' where "cs = d # ds" "d \<noteq> newline" "scan_str q ds = Some r'" "r = c # d # r'"
      using 2(3) by (auto split: list.splits if_splits)
    then show ?thesis using 2(1)[of d ds r'] False by auto
  qed
qed simp

lemma scan_num_take:
  "scan_num s \<le> length s"
  "CHR ''.'' \<notin> set (take (scan_num s) s) \<Longrightarrow> list_all is_digit (take (scan_num s) s)"
proof -
  define ds where "ds = takeWhile is_digit s"
  define r where "r = drop (length ds) s"
  have "r = dropWhile is_digit s" unfolding r_def ds_def by (rule dropWhile_eq_drop[symmetric])
  then have s: "s = ds @ r" by (simp add: ds_def)
  have digits: "list_all is_digit ds" by (auto simp: ds_def list_all_iff dest: set_takeWhileD)
  define fs where "fs = (if r \<noteq> [] \<and> hd r = CHR ''.'' then takeWhile is_digit (tl r) else [])"
  have n: "scan_num s = (if fs = [] then length ds else length ds + 1 + length fs)"
    by (simp add: scan_num_def Let_def ds_def r_def fs_def)
  have fs: "fs \<noteq> [] \<Longrightarrow> r \<noteq> [] \<and> hd r = CHR ''.'' \<and> length fs \<le> length (tl r)"
    using length_takeWhile_le[of is_digit "tl r"] by (auto simp: fs_def split: if_splits)
  have len: "length s = length ds + length r" by (simp add: arg_cong[OF s, of length])
  show "scan_num s \<le> length s"
    using fs by (cases r) (auto simp: n len)
  have tk: "take (length ds + k) s = ds @ take k r" for k by (subst s) simp
  show "list_all is_digit (take (scan_num s) s)" if dot: "CHR ''.'' \<notin> set (take (scan_num s) s)"
  proof (cases "fs = []")
    case True
    then show ?thesis using digits tk[of 0] by (simp add: n)
  next
    case False
    then obtain r' where "r = CHR ''.'' # r'" using fs by (cases r) auto
    then show ?thesis using dot False tk[of "1 + length fs"] by (simp add: n)
  qed
qed

lemma lexeme_length: "lexeme s = Some (k, m) \<Longrightarrow> m \<le> length s"
proof -
  assume a: "lexeme s = Some (k, m)"
  have op2: "take 2 s \<in> {''!='', ''<='', ''>=''} \<Longrightarrow> 2 \<le> length s"
    by (cases s; cases "tl s") auto
  show ?thesis
    using a op2 scan_num_take(1)[of s] length_takeWhile_le[of is_space s] length_takeWhile_le[of is_word s]
      scan_str_length
    by (cases s) (auto simp: lexeme_def split: if_splits)
qed

lemma lexeme_id: "lexeme s = Some (Some TId, m) \<Longrightarrow> is_ident (take m s)"
proof -
  assume a: "lexeme s = Some (Some TId, m)"
  then obtain c cs where s: "s = c # cs" by (cases s) (auto simp: lexeme_def)
  have c: "is_letter c \<or> c = CHR ''_''" and m: "m = length (takeWhile is_word s)"
    using a by (auto simp: lexeme_def s split: if_splits)
  have "take m s = takeWhile is_word s" by (simp add: m takeWhile_eq_take[symmetric])
  then show ?thesis using c by (auto simp: s is_ident_def is_word_def list_all_iff dest: set_takeWhileD)
qed

lemma lexeme_num:
  "lexeme s = Some (Some TNum, m) \<Longrightarrow> CHR ''.'' \<notin> set (take m s) \<Longrightarrow> isdigit (take m s)"
proof -
  assume a: "lexeme s = Some (Some TNum, m)" and dot: "CHR ''.'' \<notin> set (take m s)"
  have m: "m = scan_num s" "is_digit (hd s)" "s \<noteq> []"
    using a by (auto simp: lexeme_def split: if_splits list.splits)
  then show ?thesis using scan_num_take(2)[of s] scan_num_pos[of s] dot by (auto simp: isdigit_def)
qed

lemma lexeme_kind: "lexeme s = Some (Some k, m) \<Longrightarrow> k \<noteq> TEof \<and> k \<noteq> TKw"
  by (auto simp: lexeme_def split: if_splits list.splits)

lemma keywords_ident: "k \<in> set query_keywords \<Longrightarrow> is_ident k"
proof -
  have "list_all is_ident query_keywords" by code_simp
  then show "k \<in> set query_keywords \<Longrightarrow> is_ident k" by (simp add: list_all_iff)
qed

lemma mk_tok_ok:
  assumes "lexeme s = Some (Some k, m)" "suffix s text" "i \<le> n"
  shows "tok_ok n (long_numeral text) (mk_tok k (take m s) i)" "tk_kind (mk_tok k (take m s) i) \<noteq> TEof"
proof -
  have "sublist (take m s) text"
    using assms(2) by (metis prefix_imp_sublist sublist_order.order_trans suffix_imp_sublist take_is_prefix)
  then show "tok_ok n (long_numeral text) (mk_tok k (take m s) i)"
    using assms lexeme_id lexeme_num[of s m] lexeme_kind[OF assms(1)] keywords_ident
    by (auto simp: tok_ok_def mk_tok_def long_numeral_def)
  show "tk_kind (mk_tok k (take m s) i) \<noteq> TEof"
    using lexeme_kind[OF assms(1)] by (auto simp: mk_tok_def)
qed

lemma toks_ok_Cons: "tk_kind t \<noteq> TEof \<Longrightarrow> tok_ok n big t \<Longrightarrow> toks_ok n big ts \<Longrightarrow> toks_ok n big (t # ts)"
  by (cases ts) auto

lemma lex_from_Nil: "lex_from i [] = Inr [\<lparr>tk_kind = TEof, tk_val = [], tk_pos = i\<rparr>]"
  by (simp add: lex_from.simps)

lemma lex_from_rule:
  "suffix s text \<Longrightarrow> i + length s = n \<Longrightarrow>
     result_ok n (long_numeral text) (toks_ok n (long_numeral text)) (lex_from i s)"
proof (induction i s rule: lex_from.induct)
  case (1 i s)
  show ?case
  proof (cases "s = []")
    case True
    then show ?thesis using 1(3) by (simp add: lex_from_Nil result_ok_def tok_ok_def)
  next
    case False
    show ?thesis
    proof (cases "lexeme s")
      case None
      then show ?thesis using 1 False by (simp add: lex_from.simps[of i s] result_ok_def err_ok_def)
    next
      case (Some v)
      obtain k m where v: "v = (k, m)" by (cases v)
      note lx = Some[unfolded v]
      have "suffix (drop m s) text" using 1(2) suffix_drop suffix_order.order_trans by blast
      moreover have "i + m + length (drop m s) = n" using lexeme_length[OF lx] 1(3) by simp
      ultimately have IH: "result_ok n (long_numeral text) (toks_ok n (long_numeral text)) (lex_from (i + m) (drop m s))"
        using 1(1)[OF False Some v[symmetric]] by simp
      show ?thesis
      proof (cases k)
        case None
        then show ?thesis using IH False lx
          by (auto simp: lex_from.simps[of i s] result_ok_def sbind_def split: sum.splits)
      next
        case (Some k')
        have "i \<le> n" using 1(3) by simp
        note t = mk_tok_ok[OF lx[unfolded Some] 1(2) this]
        show ?thesis using IH False lx Some t
          by (auto simp: lex_from.simps[of i s] result_ok_def sbind_def intro: toks_ok_Cons split: sum.splits)
      qed
    qed
  qed
qed

lemma parse_rule:
  assumes "strip s \<noteq> []"
  shows "result_ok (length s) (long_numeral s) wf_query (parse fr s)"
proof (cases "lex_from 0 s")
  case (Inl e)
  then show ?thesis using assms lex_from_rule[of s s 0 "length s"]
    by (simp add: parse_def lex_def result_ok_def)
next
  case (Inr ts)
  then have "toks_ok (length s) (long_numeral s) ts"
    using lex_from_rule[of s s 0 "length s"] by (simp add: result_ok_def)
  then show ?thesis using p_query_rule[of "length s" "long_numeral s" ts fr] assms Inr
    by (simp add: parse_def lex_def)
qed

section \<open>Numerals that are too long\<close>

lemma lex_digits:
  assumes "isdigit ds"
  shows "lex ds = Inr [\<lparr>tk_kind = TNum, tk_val = ds, tk_pos = 0\<rparr>, \<lparr>tk_kind = TEof, tk_val = [], tk_pos = length ds\<rparr>]"
proof -
  have tw: "takeWhile is_digit ds = ds" using assms by (simp add: isdigit_def list_all_iff)
  obtain c cs where c: "ds = c # cs" "is_digit c" using assms by (cases ds) (auto simp: isdigit_def)
  then have nospace: "\<not> is_space c" "c \<noteq> CHR 39" "c \<noteq> CHR 34"
    by (auto simp: is_digit_def is_space_def code_def)
  have "scan_num ds = length ds" by (simp add: scan_num_def tw)
  then have "lexeme ds = Some (Some TNum, length ds)" using c nospace by (simp add: lexeme_def)
  moreover have "ds \<noteq> []" using c by simp
  ultimately show ?thesis
    by (simp add: lex_def lex_from.simps[of 0 ds] lex_from_Nil mk_tok_def)
qed

lemma digit_not_space: "is_digit c \<Longrightarrow> \<not> is_space c"
  by (auto simp: is_digit_def is_space_def)

lemma digits_not_blank: "isdigit ds \<Longrightarrow> strip ds = ds \<and> ds \<noteq> []"
  by (auto simp: isdigit_def list_all_iff digit_not_space intro!: strip_id)

lemma digits_no_dot: "isdigit ds \<Longrightarrow> CHR ''.'' \<notin> set ds"
  by (auto simp: isdigit_def list_all_iff is_digit_def code_def)

lemma parse_long_numeral:
  assumes "isdigit ds" "max_str_digits < length ds"
  shows "parse fr ds = Inl (Escaped ValueError)"
proof -
  let ?t = "\<lparr>tk_kind = TNum, tk_val = ds, tk_pos = 0\<rparr>"
  let ?ts = "[?t, \<lparr>tk_kind = TEof, tk_val = [], tk_pos = length ds\<rparr>]"
  have cur: "cur ?ts = ?t" by (simp add: cur_def)
  have num: "num_lit fr ds = Inl (Escaped ValueError)"
    using assms digits_no_dot by (simp add: num_lit_def int_of_def)
  note at = at_kind_def at_tok_def cur
  have prim: "p_expr fr Primary True (Suc 0) ?ts = Inl (Escaped ValueError)"
    by (subst p_expr.simps) (simp add: at num)
  have "p_expr fr Factor True (Suc 0) ?ts = Inl (Escaped ValueError)"
    by (subst p_expr.simps) (simp add: at prim)
  then have "p_expr fr ExprTerm True (Suc 0) ?ts = Inl (Escaped ValueError)"
    by (subst p_expr.simps) simp
  then have "p_expr fr Additive True (Suc 0) ?ts = Inl (Escaped ValueError)"
    by (subst p_expr.simps) simp
  then have "p_expr fr Comparison True (Suc 0) ?ts = Inl (Escaped ValueError)"
    by (subst p_expr.simps) simp
  then have "p_expr fr ExprNot True (Suc 0) ?ts = Inl (Escaped ValueError)"
    by (subst p_expr.simps) (simp add: at)
  then have "p_expr fr ExprAnd True (Suc 0) ?ts = Inl (Escaped ValueError)"
    by (subst p_expr.simps) simp
  then have "p_expr fr ExprOr True 0 ?ts = Inl (Escaped ValueError)"
    by (subst p_expr.simps) (simp add: max_depth_def)
  then have "p_query fr ?ts = Inl (Escaped ValueError)"
    by (simp add: p_query_def datamodel_prefix_def search_expr_def Let_def at)
  then show ?thesis
    using assms(1) by (simp add: parse_def digits_not_blank lex_digits)
qed

section \<open>Properties\<close>

text \<open>The parser is the gate: whatever text it is given, it either builds a query in which every name is an identifier, every operator and function is a listed one with the right number of arguments and only the first stage names a data model, or it reports a syntax error at a position inside the text, or the query was blank. The one exception that can get past it is ValueError, and only when the text holds more than 4300 digits in a row.\<close>

lemma parser_is_the_gate:
  "case parse fr s of
     Inr q \<Rightarrow> strip s \<noteq> [] \<and> wf_query q
   | Inl (LoqlError None) \<Rightarrow> strip s = []
   | Inl (LoqlError (Some p)) \<Rightarrow> strip s \<noteq> [] \<and> p \<le> length s
   | Inl (Escaped e) \<Rightarrow> e = ValueError \<and> long_numeral s"
proof (cases "strip s = []")
  case False
  then show ?thesis using parse_rule[OF False, of fr]
    by (auto simp: result_ok_def err_ok_def split: sum.splits loql_error.splits option.splits)
qed (simp add: parse_def)

text \<open>A query that is one numeral of more than 4300 digits makes the parser raise ValueError instead of a query error, although parse promises never to raise anything but its own error.\<close>

lemma long_numeral_escapes:
  assumes "isdigit ds" and "max_str_digits < length ds"
  shows "parse fr ds = Inl (Escaped ValueError)"
  using assms by (rule parse_long_numeral)

lemma long_numeral_escapes_example:
  "parse (\<lambda>s. s) (replicate 4301 (CHR ''7'')) = Inl (Escaped ValueError)"
  by (rule long_numeral_escapes) (simp_all add: isdigit_def list_all_iff is_digit_def code_def max_str_digits_def)

end
