(* ===== verification/CimSql.thy ===== *)
theory CimSql
  imports CimMatch
begin

text \<open>
  The registry as SQL text (\<open>app/cim/sql.py\<close>): the identifier, label, literal and key emitters, the
  expression of a value source, the membership predicate of a model and the statements that create the
  per-model views. Everything is text a view body holds literally, so what matters is that a value can
  not end its quotes and that the columns of a view have distinct, permitted names.
\<close>

definition quote1 :: char where "quote1 = CHR 39"
definition quote2 :: char where "quote2 = CHR 34"

text \<open>The columns a field may read, those of type inet, and the groups of columns a projection has.\<close>

definition field_columns :: "string list" where
  "field_columns =
     [''id'', ''event_time'', ''ingested_at'', ''vendor'', ''product'', ''log_type'', ''severity'',
      ''action'', ''src_ip'', ''dst_ip'', ''src_port'', ''dst_port'', ''protocol'', ''app'',
      ''user_name'', ''host_name'', ''rule_name'', ''bytes_total'', ''message'']"

definition inet_columns :: "string list" where
  "inet_columns = [''src_ip'', ''dst_ip'']"

definition identity_columns :: "string list" where
  "identity_columns = [''id'', ''event_time'']"

definition passthrough_columns :: "string list" where
  "passthrough_columns = [''raw'', ''search_tsv'']"

definition cim_passthrough_columns :: "string list" where
  "cim_passthrough_columns = [''vendor'', ''product'', ''log_type'', ''severity'', ''message'']"

definition reserved_fields :: "string list" where
  "reserved_fields = identity_columns @ passthrough_columns @ [''cim_models'']"

definition named_expr :: "(string, string) dict" where
  "named_expr = [(''vendor_product'', ''concat_ws('' @ [quote1] @ '':'' @ [quote1] @ '', vendor, product)'')]"

section \<open>The emitters\<close>

text \<open>A pattern that ends in \<open>$\<close> also accepts one newline after the match.\<close>

definition before_dollar :: "string \<Rightarrow> string" where
  "before_dollar s = (if s \<noteq> [] \<and> last s = newline then butlast s else s)"

definition is_lower_letter :: "char \<Rightarrow> bool" where
  "is_lower_letter c \<longleftrightarrow> 97 \<le> code c \<and> code c \<le> 122"

definition is_lower_word :: "char \<Rightarrow> bool" where
  "is_lower_word c \<longleftrightarrow> is_lower_letter c \<or> is_digit c \<or> c = CHR ''_''"

definition sql_name :: "string \<Rightarrow> bool" where
  "sql_name s \<longleftrightarrow> s \<noteq> [] \<and> is_lower_letter (hd s) \<and> list_all is_lower_word (tl s)"

definition cim_ident :: "string \<Rightarrow> cim_error + string" where
  "cim_ident name = (if sql_name (before_dollar name) then Inr name else Inl (InvalidIdent name))"

definition quote_ident :: "string \<Rightarrow> cim_error + string" where
  "quote_ident name = sbind (cim_ident name) (\<lambda>n. Inr ([quote2] @ replace_char quote2 [quote2, quote2] n @ [quote2]))"

definition sql_lit :: "string \<Rightarrow> string" where
  "sql_lit v = [quote1] @ replace_char quote1 [quote1, quote1] v @ [quote1]"

definition field_column :: "string \<Rightarrow> cim_error + string" where
  "field_column col =
     (if col \<notin> set field_columns then Inl (UnknownFieldColumn col)
      else Inr (if col \<in> set inet_columns then ''host('' @ col @ '')'' else col))"

definition is_key_char :: "char \<Rightarrow> bool" where
  "is_key_char c \<longleftrightarrow> is_letter c \<or> is_digit c \<or> c \<in> set ''_.-/ ''"

definition raw_key :: "string \<Rightarrow> cim_error + string" where
  "raw_key k =
     (if before_dollar k \<noteq> [] \<and> list_all is_key_char (before_dollar k) then Inr k else Inl (UnsafeKey k))"

definition view_name :: "cim_model \<Rightarrow> cim_error + string" where
  "view_name m = sbind (cim_ident (m_tag m)) (\<lambda>t. Inr (''cim_'' @ t))"

section \<open>Value sources\<close>

definition path_sql :: "string list \<Rightarrow> cim_error + string" where
  "path_sql path =
     (if path = [] then Inl RawEmptyPath
      else sbind (map_res raw_key path) (\<lambda>segs.
        if length segs = 1 then Inr (''(raw ->> '' @ sql_lit (hd segs) @ '')'')
        else Inr (''(raw #>> ARRAY['' @ join '', '' (map sql_lit segs) @ ''])'')))"

definition raw_sql :: "cim_source \<Rightarrow> cim_error + string" where
  "raw_sql src =
     (if s_paths src = [] then Inl RawWithoutPath
      else sbind (map_res path_sql (s_paths src)) (\<lambda>parts.
        Inr (if length parts = 1 then hd parts else ''COALESCE('' @ join '', '' parts @ '')'')))"

definition source_sql :: "cim_source \<Rightarrow> cim_error + string" where
  "source_sql src =
     (if s_kind src = ''column'' then field_column (s_name src)
      else if s_kind src = ''raw'' then raw_sql src
      else if s_kind src = ''const'' then Inr (sql_lit (s_name src))
      else if s_kind src = ''expr'' then
        (case dict_get named_expr (s_name src) of None \<Rightarrow> Inl (UnknownExpr (s_name src)) | Some sql \<Rightarrow> Inr sql)
      else Inl (UnknownKind (s_kind src)))"

definition field_value_sql :: "cim_field \<Rightarrow> cim_error + string" where
  "field_value_sql f = source_sql (f_source f)"

section \<open>Membership\<close>

definition term_lhs :: "cim_term \<Rightarrow> cim_error + string" where
  "term_lhs t =
     (let src = t_source t in
      if s_kind src = ''raw'' then raw_sql src
      else if s_kind src = ''column'' then
        (if s_name src \<notin> set term_columns then Inl (TermColumnNotAllowed (s_name src)) else Inr (s_name src))
      else Inl (TermSourceNotReadable (s_kind src)))"

definition term_sql :: "cim_term \<Rightarrow> cim_error + string" where
  "term_sql t =
     sbind (term_lhs t) (\<lambda>lhs.
       if t_values t = [] then Inl (TermWithoutValues (term_name t))
       else if length (t_values t) = 1
       then Inr (''(lower('' @ lhs @ '') = '' @ sql_lit (hd (t_values t)) @ '')'')
       else Inr (''(lower('' @ lhs @ '') IN ('' @ join '', '' (map sql_lit (t_values t)) @ ''))''))"

definition clause_sql :: "cim_clause \<Rightarrow> cim_error + string" where
  "clause_sql c =
     (if c = [] then Inl ClauseWithoutTerms
      else sbind (map_res term_sql c) (\<lambda>ts. Inr (''('' @ join '' AND '' ts @ '')'')))"

definition membership_sql :: "cim_model \<Rightarrow> cim_error + string" where
  "membership_sql m =
     (if m_clauses m = [] then Inl (ModelWithoutClauses (m_name m))
      else sbind (map_res clause_sql (m_clauses m)) (\<lambda>cs. Inr (''('' @ join '' OR '' cs @ '')'')))"

definition membership_predicate :: "string \<Rightarrow> cim_error + string" where
  "membership_predicate tag =
     sbind (cim_ident tag) (\<lambda>t. Inr (''cim_models @> ARRAY['' @ sql_lit t @ '']::text[]''))"

section \<open>Views\<close>

text \<open>The columns of a projection: each conditional one only while no column has its name.\<close>

fun add_passthrough :: "string list \<Rightarrow> string list \<Rightarrow> string list" where
  "add_passthrough names [] = []"
| "add_passthrough names (c # cs) =
     (if c \<in> set names then add_passthrough names cs else c # add_passthrough names cs)"

definition field_item :: "cim_field \<Rightarrow> cim_error + string" where
  "field_item f =
     sbind (field_value_sql f) (\<lambda>v. sbind (quote_ident (f_name f)) (\<lambda>l. Inr (v @ '' AS '' @ l)))"

definition create_view_ddl :: "cim_model \<Rightarrow> cim_error + string" where
  "create_view_ddl m =
     (let names = identity_columns @ map f_name (m_fields m) in
      sbind (map_res field_item (m_fields m)) (\<lambda>items.
      sbind (view_name m) (\<lambda>v. sbind (membership_predicate (m_tag m)) (\<lambda>p.
        Inr (''CREATE VIEW '' @ v @ '' AS'' @ [newline] @ ''SELECT '' @
             join '', '' (identity_columns @ items @ add_passthrough names cim_passthrough_columns @ [''raw'']) @
             [newline] @ ''FROM events'' @ [newline] @ ''WHERE '' @ p)))))"

definition drop_view_ddl :: "cim_model \<Rightarrow> cim_error + string" where
  "drop_view_ddl m = sbind (view_name m) (\<lambda>v. Inr (''DROP VIEW IF EXISTS '' @ v))"

definition ddl_statements :: "cim_registry \<Rightarrow> cim_error + string list" where
  "ddl_statements r =
     sbind (map_res (\<lambda>m. sbind (drop_view_ddl m) (\<lambda>d. sbind (create_view_ddl m) (\<lambda>c. Inr [d, c])))
              (r_models r)) (\<lambda>ss. Inr (concat ss))"

section \<open>Quoting\<close>

text \<open>
  What every quoting discipline promises: read back, an emitted value is itself and ends where its text
  ends, whatever follows (of what may follow). Then a value can not leave its quotes, and two texts that
  begin with emitted values agree only if the values and the rests do.
\<close>

locale self_delimiting =
  fixes emit :: "'a \<Rightarrow> string" and read :: "string \<Rightarrow> ('a \<times> string) option" and follows :: "string \<Rightarrow> bool"
  assumes read_emit: "follows rest \<Longrightarrow> read (emit a @ rest) = Some (a, rest)"
begin

lemma no_escape: "follows r \<Longrightarrow> follows s \<Longrightarrow> emit a @ r = emit b @ s \<Longrightarrow> a = b \<and> r = s"
  using read_emit by (metis option.inject prod.inject)

lemma emit_inj: "follows [] \<Longrightarrow> emit a = emit b \<Longrightarrow> a = b"
  using no_escape[of "[]" "[]" a b] by simp

lemma joined_inj:
  assumes "follows []" "\<And>r. follows (sep @ r)" "sep \<noteq> []"
    and "length as = length bs" "join sep (map emit as) = join sep (map emit bs)"
  shows "as = bs"
  using assms(4,5)
proof (induction as bs rule: list_induct2)
  case (Cons a as b bs)
  show ?case
  proof (cases "as = []")
    case True
    then show ?thesis using Cons emit_inj[OF assms(1)] by auto
  next
    case False
    then obtain x xs y ys where "as = x # xs" "bs = y # ys" using Cons.hyps by (cases as; cases bs) auto
    then have "a = b \<and> join sep (map emit as) = join sep (map emit bs)"
      using Cons.prems no_escape[OF assms(2,2), of a "join sep (map emit as)" b "join sep (map emit bs)"]
      by simp
    then show ?thesis using Cons.IH by simp
  qed
qed simp

end

text \<open>How a server reads a quoted literal or identifier: a doubled quote is a quote, a single one ends it.\<close>

fun read_body :: "char \<Rightarrow> string \<Rightarrow> (string \<times> string) option" where
  "read_body q [] = None"
| "read_body q (c # cs) =
     (if c \<noteq> q then map_option (\<lambda>(s, r). (c # s, r)) (read_body q cs)
      else (case cs of
              d # ds \<Rightarrow> if d = q then map_option (\<lambda>(s, r). (q # s, r)) (read_body q ds) else Some ([], cs)
            | [] \<Rightarrow> Some ([], [])))"

definition read_quoted :: "char \<Rightarrow> string \<Rightarrow> (string \<times> string) option" where
  "read_quoted q s = (case s of [] \<Rightarrow> None | c # cs \<Rightarrow> if c = q then read_body q cs else None)"

definition not_quote :: "char \<Rightarrow> string \<Rightarrow> bool" where
  "not_quote q s \<longleftrightarrow> s = [] \<or> hd s \<noteq> q"

lemma read_body_escaped:
  "not_quote q rest \<Longrightarrow> read_body q (replace_char q [q, q] v @ q # rest) = Some (v, rest)"
  by (induction v) (auto simp: replace_char_def not_quote_def split: list.splits)

definition quoted_label :: "string \<Rightarrow> string" where
  "quoted_label n = [quote2] @ replace_char quote2 [quote2, quote2] n @ [quote2]"

lemma quote_ident_label: "quote_ident n = sbind (cim_ident n) (\<lambda>n. Inr (quoted_label n))"
  by (simp add: quote_ident_def quoted_label_def)

interpretation literal: self_delimiting sql_lit "read_quoted quote1" "not_quote quote1"
  by unfold_locales (simp add: sql_lit_def read_quoted_def read_body_escaped)

interpretation label: self_delimiting quoted_label "read_quoted quote2" "not_quote quote2"
  by unfold_locales (simp add: quoted_label_def read_quoted_def read_body_escaped)

lemma quote1_not_quote2: "quote1 \<noteq> quote2"
  by (simp add: quote1_def quote2_def)

lemma clause_sql_compiles:
  assumes "clause_sql c = Inr sql"
  shows "\<exists>ct. map_res compile_term c = Inr ct"
proof -
  have "\<exists>ct. compile_term t = Inr ct" if t: "t \<in> set c" for t
  proof -
    obtain s where "term_sql t = Inr s"
      using assms t by (auto simp: clause_sql_def map_res_Inr_iff list_all2_conv_all_nth in_set_conv_nth split: if_splits)
    then show ?thesis
      by (auto simp: term_sql_def term_lhs_def compile_term_def Let_def raw_sql_def split: if_splits)
  qed
  then show ?thesis
    using map_res_total[of c compile_term "\<lambda>t. projr (compile_term t)"] by fastforce
qed

section \<open>Properties\<close>

text \<open>A literal or a column label the registry puts into a view body reads back as the value it was made from and ends where its quotes end, whatever it contains, so no value can leave its quotes.\<close>

lemma quoted_text_stays_quoted:
  assumes "not_quote quote1 r" and "not_quote quote2 s" and "quote_ident n = Inr l"
  shows "read_quoted quote1 (sql_lit v @ r) = Some (v, r) \<and> read_quoted quote2 (l @ s) = Some (n, s)"
proof -
  have "l = quoted_label n" using assms(3) by (auto simp: quote_ident_label cim_ident_def split: if_splits)
  then show ?thesis using literal.read_emit[OF assms(1)] label.read_emit[OF assms(2)] by simp
qed

lemma quoted_text_stays_quoted_example:
  "read_quoted quote1 (sql_lit (''a'' @ [quote1] @ '' OR 1=1 --'') @ '', x'') = Some (''a'' @ [quote1] @ '' OR 1=1 --'', '', x'')"
  using quoted_text_stays_quoted[of "'', x''" "[]" "''user''" "[quote2] @ ''user'' @ [quote2]" "''a'' @ [quote1] @ '' OR 1=1 --''"]
    quote_ident_label[of "''user''"]
  by (simp add: not_quote_def quote1_def quote2_def quote_ident_def cim_ident_def before_dollar_def newline_def
      sql_name_def is_lower_letter_def is_lower_word_def is_digit_def code_def replace_char_def)

end
