(* ===== verification/CimRegistry.thy ===== *)
theory CimRegistry
  imports CimSql
begin

text \<open>
  Loading the registry (\<open>app/cim/registry.py\<close>): every check of a model document, the registry it becomes,
  and \<open>get_registry\<close> with its two caches, the registry and the last failure, over a monotonic clock.

  A document that is refused is \<open>Refused\<close>, or \<open>Spec\<close> with the error of a constructor or of the SQL
  emitter; \<open>Other\<close> is an exception the checks do not foresee. The parameter is Python's \<open>int\<close> of a float.
  What YAML text becomes a document, and the additions of content packs, are outside: a document is a value,
  and \<open>get_registry\<close> is given what parsing the file and adding the packs would give at that moment.
\<close>

datatype reg_error = Refused | Spec cim_error | Other py_error

definition spec_res :: "cim_error + 'a \<Rightarrow> reg_error + 'a" where
  "spec_res r = (case r of Inl e \<Rightarrow> Inl (Spec e) | Inr a \<Rightarrow> Inr a)"

definition other_res :: "py_error + 'a \<Rightarrow> reg_error + 'a" where
  "other_res r = (case r of Inl e \<Rightarrow> Inl (Other e) | Inr a \<Rightarrow> Inr a)"

definition refuse_if :: "bool \<Rightarrow> reg_error + unit" where
  "refuse_if b = (if b then Inl Refused else Inr ())"

lemma spec_res_Inr [simp]: "spec_res r = Inr a \<longleftrightarrow> r = Inr a"
  by (cases r) (simp_all add: spec_res_def)

lemma other_res_Inr [simp]: "other_res r = Inr a \<longleftrightarrow> r = Inr a"
  by (cases r) (simp_all add: other_res_def)

lemma refuse_if_Inr [simp]: "refuse_if b = Inr u \<longleftrightarrow> \<not> b"
  by (simp add: refuse_if_def)

section \<open>Value sources\<close>

definition list_items :: "pyval \<Rightarrow> pyval list" where
  "list_items v = (case v of VList xs \<Rightarrow> xs | _ \<Rightarrow> [v])"

definition load_key :: "pyval \<Rightarrow> reg_error + string" where
  "load_key v =
     (case v of VStr s \<Rightarrow> if strip s = [] then Inl Refused else Inr (strip s) | _ \<Rightarrow> Inl Refused)"

definition raw_source :: "pyval \<Rightarrow> reg_error + cim_source" where
  "raw_source v =
     sbind (refuse_if (list_items v = [])) (\<lambda>_.
     sbind (map_res (\<lambda>alt. sbind (refuse_if (list_items alt = [])) (\<lambda>_. map_res load_key (list_items alt)))
              (list_items v)) (\<lambda>paths.
     spec_res (mk_source ''raw'' [] paths)))"

definition term_keys :: "string list" where
  "term_keys = [''column'', ''raw'']"

definition has_key :: "(string, pyval) dict \<Rightarrow> string \<Rightarrow> bool" where
  "has_key d k \<longleftrightarrow> dict_get d k \<noteq> None"

definition load_source :: "(string, pyval) dict \<Rightarrow> string list \<Rightarrow> reg_error + cim_source option" where
  "load_source spec allowed =
     (case filter (has_key spec) source_kinds of
        [] \<Rightarrow> Inr None
      | [kind] \<Rightarrow>
          if kind \<notin> set allowed then Inl Refused
          else if kind = ''raw'' then sbind (raw_source (pv_get spec ''raw'')) (\<lambda>s. Inr (Some s))
          else (case pv_get spec kind of
                  VBool _ \<Rightarrow> Inl Refused
                | VNone \<Rightarrow> Inl Refused
                | v \<Rightarrow>
                    if kind = ''const'' then sbind (spec_res (const_of (pv_str v))) (\<lambda>s. Inr (Some s))
                    else (case v of
                            VStr s \<Rightarrow> sbind (spec_res (mk_source kind (strip s) [])) (\<lambda>s. Inr (Some s))
                          | _ \<Rightarrow> Inl Refused))
      | _ \<Rightarrow> Inl Refused)"

section \<open>Fields\<close>

text \<open>\<open>str(d.get(k) or "").strip()\<close>.\<close>

definition text_at :: "(string, pyval) dict \<Rightarrow> string \<Rightarrow> string" where
  "text_at d k = strip (pv_str (pv_or (pv_get d k) (VStr [])))"

definition load_field :: "pyval \<Rightarrow> reg_error + cim_field" where
  "load_field v =
     (case v of
        VDict d \<Rightarrow>
          let name = text_at d ''name'' in
          sbind (refuse_if (name = [])) (\<lambda>_.
          sbind (load_source d source_kinds) (\<lambda>src.
            case src of
              None \<Rightarrow> Inl Refused
            | Some s \<Rightarrow>
                sbind (refuse_if (name \<in> set reserved_fields)) (\<lambda>_.
                sbind (spec_res (cim_ident name)) (\<lambda>_.
                let f = \<lparr>f_name = name, f_source = s\<rparr> in
                sbind (spec_res (field_value_sql f)) (\<lambda>_. Inr f)))))
      | _ \<Rightarrow> Inl Refused)"

section \<open>Membership\<close>

text \<open>The text one value of a term stands for; an empty one is left out.\<close>

definition load_value :: "pyval \<Rightarrow> reg_error + string" where
  "load_value v =
     (case v of VInt i \<Rightarrow> Inr (int_str i) | VStr s \<Rightarrow> Inr (lower (strip s)) | _ \<Rightarrow> Inl Refused)"

definition load_values :: "pyval \<Rightarrow> reg_error + string list" where
  "load_values v =
     sbind (map_res load_value (list_items v)) (\<lambda>vs.
     let out = filter (\<lambda>s. s \<noteq> []) vs in
     sbind (refuse_if (out = [])) (\<lambda>_. Inr out))"

definition key_source :: "string \<Rightarrow> reg_error + cim_source" where
  "key_source label =
     (if prefix ''raw:'' label then
        (let key = strip (drop 4 label) in
         sbind (refuse_if (key = [])) (\<lambda>_. spec_res (raw_of [Key key])))
      else spec_res (column_of label))"

definition load_term :: "string \<Rightarrow> pyval \<Rightarrow> reg_error + cim_term" where
  "load_term label spec =
     sbind (case spec of
              VDict d \<Rightarrow>
                sbind (load_source d term_keys) (\<lambda>s.
                sbind (case s of Some s \<Rightarrow> Inr s | None \<Rightarrow> key_source label) (\<lambda>src.
                sbind (refuse_if (\<not> has_key d ''values'')) (\<lambda>_. Inr (src, pv_get d ''values''))))
            | _ \<Rightarrow> sbind (key_source label) (\<lambda>src. Inr (src, spec))) (\<lambda>(src, vals).
     sbind (load_values vals) (\<lambda>vs. Inr \<lparr>t_source = src, t_values = vs, t_label = label\<rparr>))"

definition load_clause :: "pyval \<Rightarrow> reg_error + cim_clause" where
  "load_clause v =
     (case v of
        VDict d \<Rightarrow>
          sbind (refuse_if (d = [])) (\<lambda>_.
          sbind (map_res (\<lambda>(k, s). load_term (strip k) s) d) (\<lambda>c.
          sbind (spec_res (clause_sql c)) (\<lambda>_. Inr c)))
      | _ \<Rightarrow> Inl Refused)"

section \<open>Models and the registry\<close>

text \<open>\<open>int(v)\<close>.\<close>

definition pv_int :: "(string \<Rightarrow> py_error + int) \<Rightarrow> pyval \<Rightarrow> py_error + int" where
  "pv_int trunc v =
     (case v of VInt i \<Rightarrow> Inr i | VBool b \<Rightarrow> Inr (if b then 1 else 0) | VFloat t \<Rightarrow> trunc t
      | VStr s \<Rightarrow> (case py_int s of None \<Rightarrow> Inl ValueError | Some i \<Rightarrow> Inr i)
      | _ \<Rightarrow> Inl TypeError)"

definition version_at :: "(string \<Rightarrow> py_error + int) \<Rightarrow> (string, pyval) dict \<Rightarrow> reg_error + int" where
  "version_at trunc d =
     other_res (pv_int trunc (case dict_get d ''version'' of None \<Rightarrow> VInt 1 | Some v \<Rightarrow> v))"

definition load_model :: "(string \<Rightarrow> py_error + int) \<Rightarrow> pyval \<Rightarrow> reg_error + cim_model" where
  "load_model trunc v =
     (case v of
        VDict d \<Rightarrow>
          let name = text_at d ''name''; tag = lower (text_at d ''tag'');
              clauses = pv_or (pv_or (pv_get d ''membership'') (pv_get d ''clauses'')) (VList []);
              fields = pv_or (pv_get d ''fields'') (VList []) in
          sbind (refuse_if (name = [] \<or> tag = [])) (\<lambda>_.
          sbind (spec_res (cim_ident tag)) (\<lambda>_.
          sbind (refuse_if (\<not> pv_truthy clauses)) (\<lambda>_.
          sbind (refuse_if (\<not> pv_truthy fields)) (\<lambda>_.
          sbind (other_res (pv_iter fields)) (\<lambda>fs.
          sbind (map_res load_field fs) (\<lambda>fs.
          sbind (refuse_if (\<not> distinct (map f_name fs))) (\<lambda>_.
          sbind (version_at trunc d) (\<lambda>ver.
          sbind (other_res (pv_iter clauses)) (\<lambda>cs.
          sbind (map_res load_clause cs) (\<lambda>cs.
            Inr \<lparr>m_name = name, m_tag = tag, m_version = ver, m_clauses = cs, m_fields = fs\<rparr>))))))))))
      | _ \<Rightarrow> Inl Refused)"

text \<open>The keys a model answers to: its display name and its tag, once when they are the same.\<close>

definition model_keys :: "cim_model \<Rightarrow> string list" where
  "model_keys m =
     (let n = lower (strip (m_name m)) in if n = m_tag m then [n] else [n, m_tag m])"

definition load_registry :: "(string \<Rightarrow> py_error + int) \<Rightarrow> pyval \<Rightarrow> reg_error + cim_registry" where
  "load_registry trunc v =
     (case pv_or v (VDict []) of
        VDict d \<Rightarrow>
          sbind (other_res (pv_iter (pv_get d ''models''))) (\<lambda>ms.
          sbind (map_res (load_model trunc) ms) (\<lambda>ms.
          sbind (refuse_if (ms = [])) (\<lambda>_.
          sbind (refuse_if (\<not> distinct (map m_tag ms))) (\<lambda>_.
          sbind (refuse_if (\<not> distinct (concat (map model_keys ms)))) (\<lambda>_.
          sbind (version_at trunc d) (\<lambda>ver. Inr \<lparr>r_version = ver, r_models = ms\<rparr>))))))
      | _ \<Rightarrow> Inl Refused)"

section \<open>The cached registry\<close>

record reg_state =
  rs_cache :: "cim_registry option"
  rs_failure :: "(reg_error \<times> int) option"

definition failure_ttl :: int where "failure_ttl = 30"

text \<open>\<open>_replay\<close> gives a new exception of the same type and message, which is the same value here. The
  clock is read when the call starts (\<open>now\<close>) and again when parsing has failed (\<open>later\<close>).\<close>

definition get_registry ::
    "reg_error + cim_registry \<Rightarrow> int \<Rightarrow> int \<Rightarrow> reg_state \<Rightarrow> (reg_error + cim_registry) \<times> reg_state" where
  "get_registry file now later st =
     (case rs_cache st of
        Some r \<Rightarrow> (Inr r, st)
      | None \<Rightarrow>
          (case rs_failure st of
             Some (err, retry_after) \<Rightarrow>
               if now < retry_after then (Inl err, st)
               else (case file of
                       Inl e \<Rightarrow> (Inl e, st\<lparr>rs_failure := Some (e, later + failure_ttl)\<rparr>)
                     | Inr r \<Rightarrow> (Inr r, st\<lparr>rs_cache := Some r, rs_failure := None\<rparr>))
           | None \<Rightarrow>
               (case file of
                  Inl e \<Rightarrow> (Inl e, st\<lparr>rs_failure := Some (e, later + failure_ttl)\<rparr>)
                | Inr r \<Rightarrow> (Inr r, st\<lparr>rs_cache := Some r, rs_failure := None\<rparr>))))"

definition reload ::
    "reg_error + cim_registry \<Rightarrow> int \<Rightarrow> reg_state \<Rightarrow> (reg_error + cim_registry) \<times> reg_state" where
  "reload file later st =
     (case file of
        Inl e \<Rightarrow> (Inl e, \<lparr>rs_cache = None, rs_failure = Some (e, later + failure_ttl)\<rparr>)
      | Inr r \<Rightarrow> (Inr r, \<lparr>rs_cache = Some r, rs_failure = None\<rparr>))"

section \<open>Stripped text\<close>

lemma space_newline: "is_space newline"
  by (simp add: newline_def is_space_def code_def)

lemma code_char_of: "0 \<le> i \<Longrightarrow> i < 256 \<Longrightarrow> code (char_of i) = i"
  by (simp add: code_def)

lemma lower_char_newline: "lower_char c = newline \<longleftrightarrow> c = newline"
proof (cases "65 \<le> code c \<and> code c \<le> 90")
  case True
  then have "code (lower_char c) = code c + 32" by (simp add: lower_char_def code_char_of)
  moreover have "code newline = 10" by (simp add: newline_def code_def)
  ultimately show ?thesis using True by auto
qed (auto simp: lower_char_def)

lemma before_dollar_strip: "before_dollar (strip s) = strip s" "before_dollar (lower (strip s)) = lower (strip s)"
proof -
  have n: "strip s \<noteq> [] \<Longrightarrow> last (strip s) \<noteq> newline" using strip_last[of s] space_newline by metis
  then show "before_dollar (strip s) = strip s" by (auto simp: before_dollar_def)
  show "before_dollar (lower (strip s)) = lower (strip s)"
    using n by (auto simp: before_dollar_def lower_def last_map lower_char_newline)
qed

section \<open>What a loaded registry is\<close>

definition field_ok :: "cim_field \<Rightarrow> bool" where
  "field_ok f \<longleftrightarrow> sql_name (f_name f) \<and> f_name f \<notin> set reserved_fields \<and> (\<exists>sql. field_value_sql f = Inr sql)"

definition clause_ok :: "cim_clause \<Rightarrow> bool" where
  "clause_ok c \<longleftrightarrow> (\<exists>sql. clause_sql c = Inr sql)"

definition model_ok :: "cim_model \<Rightarrow> bool" where
  "model_ok m \<longleftrightarrow>
     m_name m \<noteq> [] \<and> strip (m_name m) = m_name m \<and> sql_name (m_tag m) \<and>
     m_clauses m \<noteq> [] \<and> list_all clause_ok (m_clauses m) \<and>
     m_fields m \<noteq> [] \<and> list_all field_ok (m_fields m) \<and> distinct (map f_name (m_fields m))"

definition registry_ok :: "cim_registry \<Rightarrow> bool" where
  "registry_ok r \<longleftrightarrow>
     r_models r \<noteq> [] \<and> list_all model_ok (r_models r) \<and>
     distinct (concat (map model_keys (r_models r))) \<and> distinct (registry_tags r)"

lemma load_field_ok: "load_field v = Inr f \<Longrightarrow> field_ok f"
  by (auto simp: load_field_def Let_def field_ok_def cim_ident_def text_at_def before_dollar_strip
      split: pyval.splits option.splits if_splits)

lemma load_clause_ok: "load_clause v = Inr c \<Longrightarrow> clause_ok c"
  by (auto simp: load_clause_def clause_ok_def split: pyval.splits)

lemma map_res_all: "map_res f xs = Inr ys \<Longrightarrow> (\<And>x y. f x = Inr y \<Longrightarrow> P y) \<Longrightarrow> list_all P ys"
  by (auto simp: map_res_Inr_iff list_all_length list_all2_conv_all_nth)

lemma map_res_Nil_iff: "map_res f xs = Inr ys \<Longrightarrow> ys = [] \<longleftrightarrow> xs = []"
  by (auto simp: map_res_Inr_iff)

lemma pv_iter_nonempty: "pv_truthy v \<Longrightarrow> pv_iter v = Inr xs \<Longrightarrow> xs \<noteq> []"
  by (auto simp: pv_iter_def pv_truthy_def split: pyval.splits)

lemma load_model_ok: "load_model trunc v = Inr m \<Longrightarrow> model_ok m"
proof -
  assume a: "load_model trunc v = Inr m"
  obtain d where v: "v = VDict d" using a by (cases v) (auto simp: load_model_def)
  let ?cs = "pv_or (pv_or (pv_get d ''membership'') (pv_get d ''clauses'')) (VList [])"
  let ?fs = "pv_or (pv_get d ''fields'') (VList [])"
  obtain fs fs' cs cs' ver where
      names: "text_at d ''name'' \<noteq> []" "cim_ident (lower (text_at d ''tag'')) = Inr (lower (text_at d ''tag''))"
    and truthy: "pv_truthy ?cs" "pv_truthy ?fs"
    and f: "pv_iter ?fs = Inr fs" "map_res load_field fs = Inr fs'" "distinct (map f_name fs')"
    and c: "pv_iter ?cs = Inr cs" "map_res load_clause cs = Inr cs'"
    and m: "m = \<lparr>m_name = text_at d ''name'', m_tag = lower (text_at d ''tag''), m_version = ver,
                 m_clauses = cs', m_fields = fs'\<rparr>"
    using a by (auto simp: v load_model_def Let_def cim_ident_def split: if_splits)
  have "sql_name (lower (text_at d ''tag''))"
    using names(2) by (auto simp: cim_ident_def text_at_def before_dollar_strip split: if_splits)
  moreover have "fs' \<noteq> []" "cs' \<noteq> []"
    using f c truthy pv_iter_nonempty map_res_Nil_iff by metis+
  ultimately show ?thesis
    using names f c map_res_all[OF f(2) load_field_ok] map_res_all[OF c(2) load_clause_ok]
    by (simp add: m model_ok_def text_at_def)
qed

lemma load_registry_ok: "load_registry trunc v = Inr r \<Longrightarrow> registry_ok r"
  by (auto simp: load_registry_def registry_ok_def registry_tags_def intro: map_res_all[OF _ load_model_ok]
      split: pyval.splits)

section \<open>Names\<close>

lemma plain_chars: "sql_name s \<Longrightarrow> list_all is_lower_word s \<and> s \<noteq> []"
  by (cases s) (auto simp: sql_name_def is_lower_word_def)

lemma lower_word_fixed: "is_lower_word c \<Longrightarrow> lower_char c = c \<and> \<not> is_space c"
  by (auto simp: is_lower_word_def is_lower_letter_def is_digit_def lower_char_def is_space_def code_def)

lemma plain_fixed: "sql_name s \<Longrightarrow> lower s = s \<and> strip s = s"
  using plain_chars[of s] lower_word_fixed
  by (auto simp: lower_def list_all_iff map_idI intro!: strip_id)

lemma key_owner:
  assumes "distinct (concat (map model_keys ms))" "m \<in> set ms" "m' \<in> set ms"
    and "k \<in> set (model_keys m)" "k \<in> set (model_keys m')"
  shows "m = m'"
  using assms
proof (induction ms)
  case (Cons a ms)
  have d: "set (model_keys a) \<inter> (\<Union>x\<in>set ms. set (model_keys x)) = {}" and dms: "distinct (concat (map model_keys ms))"
    using Cons.prems(1) by simp_all
  consider "m = a" "m' = a" | "m = a" "m' \<in> set ms" | "m \<in> set ms" "m' = a" | "m \<in> set ms" "m' \<in> set ms"
    using Cons.prems(2,3) by auto
  then show ?case
  proof cases
    case 2 then show ?thesis using d Cons.prems(4,5) by auto
  next
    case 3 then show ?thesis using d Cons.prems(4,5) by auto
  next
    case 4 then show ?thesis using Cons.IH[OF dms 4] Cons.prems(4,5) by simp
  qed simp
qed simp

lemma find_unique: "x \<in> set xs \<Longrightarrow> P x \<Longrightarrow> (\<And>y. y \<in> set xs \<Longrightarrow> P y \<Longrightarrow> y = x) \<Longrightarrow> find P xs = Some x"
proof (induction xs)
  case (Cons a xs)
  show ?case
  proof (cases "P a")
    case True
    have "a = x" by (rule Cons.prems(3)[OF _ True]) simp
    then show ?thesis using True by simp
  next
    case False
    then have "x \<in> set xs" using Cons.prems(1,2) by auto
    then have "find P xs = Some x" using Cons.IH[OF _ Cons.prems(2)] Cons.prems(3) by (meson list.set_intros(2))
    then show ?thesis using False by simp
  qed
qed simp

lemma by_name_iff:
  assumes "registry_ok r"
  shows "by_name r n = Some m \<longleftrightarrow> m \<in> set (r_models r) \<and> lower (strip n) \<in> set (model_keys m)"
proof -
  let ?low = "lower (strip n)"
  have dist: "distinct (concat (map model_keys (r_models r)))" using assms by (simp add: registry_ok_def)
  have keys: "set (model_keys x) = {lower (m_name x), m_tag x}" and ne: "lower (m_name x) \<noteq> []" "m_tag x \<noteq> []"
    if "x \<in> set (r_models r)" for x
    using assms that by (auto simp: registry_ok_def list_all_iff model_ok_def model_keys_def Let_def sql_name_def lower_def)
  show ?thesis
  proof
    assume a: "by_name r n = Some m"
    then have m: "m \<in> set (r_models r)" by (rule by_name_member)
    have "lower (m_name m) = ?low \<or> m_tag m = ?low"
      using a by (auto simp: by_name_def Let_def dest!: find_Some_in split: if_splits option.splits)
    then show "m \<in> set (r_models r) \<and> ?low \<in> set (model_keys m)" using m keys by auto
  next
    assume a: "m \<in> set (r_models r) \<and> ?low \<in> set (model_keys m)"
    have owner: "x = m" if "x \<in> set (r_models r)" "?low \<in> set (model_keys x)" for x
      using key_owner[OF dist that(1) _ that(2)] a by blast
    have low: "?low \<noteq> []" using a keys[of m] ne[of m] by fastforce
    show "by_name r n = Some m"
    proof (cases "lower (m_name m) = ?low")
      case True
      have "find (\<lambda>m. lower (m_name m) = ?low) (r_models r) = Some m"
        using a True keys by (intro find_unique owner) simp_all
      then show ?thesis using low by (simp add: by_name_def Let_def)
    next
      case False
      have none: "find (\<lambda>m. lower (m_name m) = ?low) (r_models r) = None"
        unfolding find_None_iff
      proof (rule notI, elim exE conjE)
        fix x
        assume x: "x \<in> set (r_models r)" "lower (m_name x) = ?low"
        then have "x = m" using keys[OF x(1)] by (intro owner) simp_all
        then show False using x(2) False by simp
      qed
      have "find (\<lambda>m. m_tag m = ?low) (r_models r) = Some m"
        using a False keys by (intro find_unique owner) auto
      then show ?thesis using low none by (simp add: by_name_def Let_def)
    qed
  qed
qed

section \<open>A loaded registry serves both evaluators and the views\<close>

lemma map_res_ex: "(\<And>x. x \<in> set xs \<Longrightarrow> \<exists>y. f x = Inr y) \<Longrightarrow> \<exists>ys. map_res f xs = Inr ys \<and> length ys = length xs"
proof (induction xs)
  case (Cons a xs)
  then obtain y ys where "f a = Inr y" "map_res f xs = Inr ys" "length ys = length xs" by fastforce
  then show ?case by simp
qed simp

lemma model_compiles: "model_ok m \<Longrightarrow> \<exists>p. compile_model m = Inr p"
proof -
  assume m: "model_ok m"
  then have "\<exists>ct. map_res compile_term c = Inr ct" if "c \<in> set (m_clauses m)" for c
    using that clause_sql_compiles by (auto simp: model_ok_def list_all_iff clause_ok_def)
  then show "\<exists>p. compile_model m = Inr p"
    using map_res_ex[of "m_clauses m" "map_res compile_term"] by (auto simp: compile_model_def)
qed

lemma registry_compiles: "registry_ok r \<Longrightarrow> \<exists>p. compile_registry r = Inr p"
  using map_res_ex[of "r_models r" compile_model] model_compiles
  by (auto simp: compile_registry_def registry_ok_def list_all_iff)

lemma plain_before_dollar: "sql_name s \<Longrightarrow> before_dollar s = s"
proof -
  assume p: "sql_name s"
  then have "list_all is_lower_word s" "s \<noteq> []" using plain_chars by auto
  then have "is_lower_word (last s)" by (simp add: list_all_iff)
  then have "last s \<noteq> newline"
    by (auto simp: is_lower_word_def is_lower_letter_def is_digit_def newline_def code_def)
  then show ?thesis by (simp add: before_dollar_def)
qed

lemma plain_ident: "sql_name s \<Longrightarrow> cim_ident s = Inr s"
  by (simp add: cim_ident_def plain_before_dollar)

lemma model_ddl: "model_ok m \<Longrightarrow> \<exists>d c. drop_view_ddl m = Inr d \<and> create_view_ddl m = Inr c"
proof -
  assume m: "model_ok m"
  have "\<exists>i. field_item f = Inr i" if "f \<in> set (m_fields m)" for f
    using m that by (auto simp: model_ok_def list_all_iff field_ok_def field_item_def quote_ident_label plain_ident)
  then obtain items where "map_res field_item (m_fields m) = Inr items"
    using map_res_ex[of "m_fields m" field_item] by auto
  moreover have "cim_ident (m_tag m) = Inr (m_tag m)" using m by (auto simp: model_ok_def plain_ident)
  ultimately show ?thesis
    by (simp add: drop_view_ddl_def create_view_ddl_def view_name_def membership_predicate_def Let_def)
qed

lemma registry_ddl: "registry_ok r \<Longrightarrow> \<exists>ss. ddl_statements r = Inr ss \<and> length ss = 2 * length (r_models r)"
proof -
  assume r: "registry_ok r"
  let ?f = "\<lambda>m. sbind (drop_view_ddl m) (\<lambda>d. sbind (create_view_ddl m) (\<lambda>c. Inr [d, c]))"
  have ex: "\<exists>y. ?f m = Inr y" if "m \<in> set (r_models r)" for m
    using r that model_ddl by (fastforce simp: registry_ok_def list_all_iff)
  then obtain ys where ys: "map_res ?f (r_models r) = Inr ys" "length ys = length (r_models r)"
    using map_res_ex[of "r_models r" ?f] by blast
  have "list_all (\<lambda>y. length y = 2) ys"
    by (rule map_res_all[OF ys(1)]) auto
  then have "length (concat ys) = 2 * length ys"
    by (induction ys) auto
  then show ?thesis using ys by (simp add: ddl_statements_def)
qed

text \<open>
  The columns of a view, each with the expression it stands for if it is not the column of the table itself: the
  identity of the event, the fields of the model with their values, those of the columns handed through whose
  names no other column took, and the raw record.
\<close>

definition view_columns :: "cim_model \<Rightarrow> string list \<Rightarrow> (string \<times> string option) list" where
  "view_columns m vs =
     map (\<lambda>n. (n, None)) identity_columns @ map2 (\<lambda>f v. (f_name f, Some v)) (m_fields m) vs @
     map (\<lambda>n. (n, None)) (filter (\<lambda>c. c \<notin> set identity_columns \<and> c \<notin> f_name ` set (m_fields m)) cim_passthrough_columns) @
     [(''raw'', None)]"

text \<open>How a column is written in the statement, and the statement of a view with given columns.\<close>

definition view_item :: "string \<times> string option \<Rightarrow> string" where
  "view_item c = (case c of (n, None) \<Rightarrow> n | (n, Some v) \<Rightarrow> v @ '' AS '' @ quoted_label n)"

definition view_statement :: "string \<Rightarrow> (string \<times> string option) list \<Rightarrow> string \<Rightarrow> string" where
  "view_statement v cols p =
     ''CREATE VIEW '' @ v @ '' AS'' @ [newline] @ ''SELECT '' @ join '', '' (map view_item cols) @
     [newline] @ ''FROM events'' @ [newline] @ ''WHERE '' @ p"

definition sound_view :: "cim_model \<Rightarrow> string list \<Rightarrow> bool" where
  "sound_view m vs \<longleftrightarrow>
     list_all2 (\<lambda>f v. field_value_sql f = Inr v) (m_fields m) vs \<and> distinct (map fst (view_columns m vs)) \<and>
     create_view_ddl m =
       sbind (view_name m) (\<lambda>v. sbind (membership_predicate (m_tag m)) (\<lambda>p. Inr (view_statement v (view_columns m vs) p)))"

lemma add_passthrough_filter: "add_passthrough names cs = filter (\<lambda>c. c \<notin> set names) cs"
  by (induction cs) auto

lemma column_groups:
  "distinct identity_columns" "distinct cim_passthrough_columns" "''raw'' \<notin> set identity_columns"
  "''raw'' \<notin> set cim_passthrough_columns" "set identity_columns \<subseteq> set reserved_fields" "''raw'' \<in> set reserved_fields"
  "set identity_columns \<inter> set cim_passthrough_columns = {}"
  by (simp_all add: identity_columns_def cim_passthrough_columns_def reserved_fields_def passthrough_columns_def)

lemma view_names:
  assumes "length vs = length (m_fields m)"
  shows "map fst (view_columns m vs) = identity_columns @ map f_name (m_fields m) @
     filter (\<lambda>c. c \<notin> set identity_columns \<and> c \<notin> f_name ` set (m_fields m)) cim_passthrough_columns @ [''raw'']"
proof -
  have "map fst (map2 (\<lambda>f v. (f_name f, Some v)) fs vs) = map f_name fs" if "length vs = length fs" for fs :: "cim_field list"
    using that by (induction vs fs rule: list_induct2) simp_all
  then show ?thesis using assms by (simp add: view_columns_def comp_def)
qed

lemma model_view: "model_ok m \<Longrightarrow> \<exists>vs. sound_view m vs"
proof -
  assume m: "model_ok m"
  then have f: "distinct (map f_name (m_fields m))" "set (map f_name (m_fields m)) \<inter> set reserved_fields = {}"
    and ok: "\<And>f. f \<in> set (m_fields m) \<Longrightarrow> sql_name (f_name f) \<and> (\<exists>v. field_value_sql f = Inr v)"
    by (auto simp: model_ok_def list_all_iff field_ok_def)
  obtain vs where vs: "map_res field_value_sql (m_fields m) = Inr vs"
    using map_res_ex[of "m_fields m" field_value_sql] ok by blast
  then have l2: "list_all2 (\<lambda>f v. field_value_sql f = Inr v) (m_fields m) vs" by (simp add: map_res_Inr_iff)
  then have len: "length vs = length (m_fields m)" by (simp add: list_all2_lengthD)
  have items: "map_res field_item fs = Inr (map view_item (map2 (\<lambda>f v. (f_name f, Some v)) fs ws))"
    if "list_all2 (\<lambda>f v. field_value_sql f = Inr v) fs ws" "set fs \<subseteq> set (m_fields m)" for fs ws
    using that
  proof (induction rule: list_all2_induct)
    case (Cons f fs w ws)
    then have "field_item f = Inr (view_item (f_name f, Some w))"
      using ok[of f] by (simp add: field_item_def quote_ident_label plain_ident view_item_def)
    then show ?case using Cons by simp
  qed simp
  have plain: "map view_item (map (\<lambda>n. (n, None)) ns) = ns" for ns by (simp add: view_item_def comp_def)
  have pass: "add_passthrough (identity_columns @ map f_name (m_fields m)) cim_passthrough_columns =
      filter (\<lambda>c. c \<notin> set identity_columns \<and> c \<notin> f_name ` set (m_fields m)) cim_passthrough_columns"
    by (simp add: add_passthrough_filter)
  have "map view_item (view_columns m vs) = identity_columns @ map view_item (map2 (\<lambda>f v. (f_name f, Some v)) (m_fields m) vs) @
      add_passthrough (identity_columns @ map f_name (m_fields m)) cim_passthrough_columns @ [''raw'']"
    unfolding view_columns_def map_append plain pass by (simp add: view_item_def)
  then have "create_view_ddl m =
       sbind (view_name m) (\<lambda>v. sbind (membership_predicate (m_tag m)) (\<lambda>p. Inr (view_statement v (view_columns m vs) p)))"
    unfolding create_view_ddl_def items[OF l2 order_refl] view_statement_def by (simp add: Let_def)
  moreover have "distinct (map fst (view_columns m vs))"
    using f column_groups unfolding view_names[OF len] by auto
  ultimately show ?thesis using l2 unfolding sound_view_def by blast
qed

section \<open>The failure window\<close>

text \<open>Whether a call parses the loaded, and the moments at which the calls of a history do.\<close>

definition parses :: "int \<Rightarrow> reg_state \<Rightarrow> bool" where
  "parses now st \<longleftrightarrow>
     rs_cache st = None \<and> (case rs_failure st of None \<Rightarrow> True | Some (_, retry_after) \<Rightarrow> retry_after \<le> now)"

fun parse_log :: "reg_state \<Rightarrow> ((reg_error + cim_registry) \<times> int \<times> int) list \<Rightarrow> int list" where
  "parse_log st [] = []"
| "parse_log st ((loaded, now, later) # calls) =
     (let st' = snd (get_registry loaded now later st) in
      if parses now st then now # parse_log st' calls else parse_log st' calls)"

text \<open>Calls in the order of the clock, each over before the next.\<close>

fun in_order :: "int \<Rightarrow> ((reg_error + cim_registry) \<times> int \<times> int) list \<Rightarrow> bool" where
  "in_order t [] = True"
| "in_order t ((_, now, later) # calls) = (t \<le> now \<and> now \<le> later \<and> in_order later calls)"

lemma parse_log_after: "in_order t calls \<Longrightarrow> x \<in> set (parse_log st calls) \<Longrightarrow> t \<le> x"
proof (induction st calls arbitrary: t rule: parse_log.induct)
  case (2 st loaded now later calls)
  then show ?case by (fastforce simp: Let_def split: if_splits)
qed simp

text \<open>No parse before the retry time, and none at all once the registry is there.\<close>

lemma parse_log_quiet:
  "in_order t calls \<Longrightarrow> rs_failure st = Some (e, u) \<Longrightarrow> x \<in> set (parse_log st calls) \<Longrightarrow> u \<le> x"
proof (induction st calls arbitrary: t rule: parse_log.induct)
  case (2 st loaded now later calls)
  show ?case
  proof (cases "parses now st")
    case True
    then have "u \<le> now" using 2 by (auto simp: parses_def)
    then show ?thesis using 2 True parse_log_after[of later calls x] by (fastforce simp: Let_def)
  next
    case False
    then have "snd (get_registry loaded now later st) = st"
      using 2 by (auto simp: parses_def get_registry_def split: option.splits)
    then show ?thesis using 2 False by (auto simp: Let_def)
  qed
qed simp

lemma parse_log_cached: "rs_cache st \<noteq> None \<Longrightarrow> parse_log st calls = []"
  by (induction st calls rule: parse_log.induct) (auto simp: Let_def parses_def get_registry_def)

lemma parse_log_spaced:
  "in_order t calls \<Longrightarrow> sorted_wrt (\<lambda>a b. a + failure_ttl \<le> b) (parse_log st calls)"
proof (induction st calls arbitrary: t rule: parse_log.induct)
  case (2 st loaded now later calls)
  let ?st = "snd (get_registry loaded now later st)"
  have rest: "sorted_wrt (\<lambda>a b. a + failure_ttl \<le> b) (parse_log ?st calls)" using 2 by auto
  show ?case
  proof (cases "parses now st")
    case True
    have "now + failure_ttl \<le> x" if x: "x \<in> set (parse_log ?st calls)" for x
    proof (cases loaded)
      case (Inl e)
      then have "rs_failure ?st = Some (e, later + failure_ttl)"
        using True by (auto simp: parses_def get_registry_def split: option.splits)
      from parse_log_quiet[OF _ this x, of later] "2.prems" show ?thesis by simp
    next
      case (Inr r)
      then have "rs_cache ?st \<noteq> None"
        using True by (auto simp: parses_def get_registry_def split: option.splits)
      then show ?thesis using x parse_log_cached by simp
    qed
    then show ?thesis using rest True by (simp add: Let_def)
  qed (use rest in \<open>simp add: Let_def\<close>)
qed simp

lemma spaced_length:
  "sorted_wrt (\<lambda>a b. a + d \<le> b) xs \<Longrightarrow> 0 < d \<Longrightarrow> (\<And>x. x \<in> set xs \<Longrightarrow> lo \<le> x \<and> x \<le> hi) \<Longrightarrow> xs \<noteq> [] \<Longrightarrow>
     (int (length xs) - 1) * d \<le> hi - lo"
proof (induction xs arbitrary: lo)
  case (Cons a xs)
  show ?case
  proof (cases "xs = []")
    case False
    have "(int (length xs) - 1) * d \<le> hi - (a + d)"
      by (rule Cons.IH) (use Cons.prems False in auto)
    moreover have "lo \<le> a" using Cons.prems(3) by simp
    ultimately show ?thesis by (simp add: algebra_simps)
  qed (use Cons.prems(3)[of a] in simp)
qed simp

section \<open>Properties\<close>

definition demo_registry_doc :: pyval where
  "demo_registry_doc = VDict [(''models'', VList [VDict
     [(''name'', VStr ''Web''), (''tag'', VStr '' web ''),
      (''membership'', VList [VDict [(''log_type'', VList [VStr ''HTTP'', VStr ''proxy'']),
         (''status'', VDict [(''raw'', VList [VStr ''code'', VList [VStr ''resp'', VStr ''code'']]), (''values'', VInt 200)])]]),
      (''fields'', VList [VDict [(''name'', VStr ''src''), (''column'', VStr ''src_ip'')],
         VDict [(''name'', VStr ''user''), (''raw'', VStr ''user.name'')]])]])]"

lemma demo_registry_loads: "\<exists>r. load_registry (\<lambda>_. Inl ValueError) demo_registry_doc = Inr r \<and> map m_name (r_models r) = [''Web'']"
proof -
  have "(case load_registry (\<lambda>_. Inl ValueError) demo_registry_doc of Inl _ \<Rightarrow> False | Inr r \<Rightarrow> map m_name (r_models r) = [''Web''])"
    by code_simp
  then show ?thesis by (auto split: sum.splits)
qed

text \<open>C22: A registry the loader accepts can be used everywhere without an error: its tags are distinct, the membership plan compiles, and every view statement is built; what is built selects the identity columns, each field of the model under its own name with the expression of its source, the passed-through columns whose names are not taken, and the raw record, and no two of these columns have one name.\<close>

theorem loaded_registry_is_sound:
  assumes "load_registry trunc v = Inr r"
  shows "distinct (registry_tags r) \<and> (\<exists>p. compile_registry r = Inr p) \<and>
    (\<exists>ss. ddl_statements r = Inr ss \<and> length ss = 2 * length (r_models r)) \<and>
    list_all (\<lambda>m. \<exists>vs. sound_view m vs) (r_models r)"
  using load_registry_ok[OF assms] registry_compiles registry_ddl model_view
  by (auto simp: registry_ok_def list_all_iff)

theorem loaded_registry_is_sound_witness:
  "\<exists>r p. load_registry (\<lambda>_. Inl ValueError) demo_registry_doc = Inr r \<and> compile_registry r = Inr p"
proof -
  obtain r where r: "load_registry (\<lambda>_. Inl ValueError) demo_registry_doc = Inr r"
    using demo_registry_loads by (elim exE conjE)
  obtain p where "compile_registry r = Inr p"
    using loaded_registry_is_sound[OF r] by (elim conjE exE)
  then show ?thesis using r by (intro exI conjI)
qed

text \<open>In a loaded registry a text names a model exactly when, stripped and in lower case, it is one of the keys of the model, its display name or its tag: no model shadows another.\<close>

lemma model_names_resolve:
  assumes "load_registry trunc v = Inr r"
  shows "by_name r n = Some m \<longleftrightarrow> m \<in> set (r_models r) \<and> lower (strip n) \<in> set (model_keys m)"
  by (rule by_name_iff[OF load_registry_ok[OF assms]])

lemma model_names_resolve_example:
  "\<exists>r m. load_registry (\<lambda>_. Inl ValueError) demo_registry_doc = Inr r \<and> by_name r '' WEB'' = Some m"
proof -
  obtain r where r: "load_registry (\<lambda>_. Inl ValueError) demo_registry_doc = Inr r" "map m_name (r_models r) = [''Web'']"
    using demo_registry_loads by (elim exE conjE)
  then obtain m where m: "r_models r = [m]" "m_name m = ''Web''" by auto
  have "lower (strip '' WEB'') = ''web''" "lower (strip ''Web'') = ''web''"
    by code_simp+
  then have "lower (strip '' WEB'') \<in> set (model_keys m)" by (simp add: model_keys_def Let_def m(2))
  then have "by_name r '' WEB'' = Some m"
    using model_names_resolve[OF r(1), of "'' WEB''" m] m(1) by simp
  then show ?thesis using r(1) by blast
qed

lemma parse_log_before:
  "list_all (\<lambda>(_, now, _). now \<le> hi) calls \<Longrightarrow> x \<in> set (parse_log st calls) \<Longrightarrow> x \<le> hi"
  by (induction st calls rule: parse_log.induct) (auto simp: Let_def split: if_splits)

text \<open>However many events ask for the registry, the file is parsed at moments at least 30 seconds apart, so in a span of time at most one time plus once for every 30 seconds of it, also while every parse fails.\<close>

lemma broken_registry_parsed_rarely:
  assumes "in_order lo calls" and "list_all (\<lambda>(_, now, _). now \<le> hi) calls" and "lo \<le> hi"
  shows "sorted_wrt (\<lambda>a b. a + failure_ttl \<le> b) (parse_log st calls) \<and>
    int (length (parse_log st calls)) \<le> 1 + (hi - lo) div failure_ttl"
proof -
  have s: "sorted_wrt (\<lambda>a b. a + failure_ttl \<le> b) (parse_log st calls)" by (rule parse_log_spaced[OF assms(1)])
  have "int (length (parse_log st calls)) \<le> 1 + (hi - lo) div failure_ttl"
  proof (cases "parse_log st calls = []")
    case True
    then show ?thesis using assms(3) by (simp add: failure_ttl_def)
  next
    case False
    have "(int (length (parse_log st calls)) - 1) * failure_ttl \<le> hi - lo"
      by (rule spaced_length[OF s _ _ False])
        (use parse_log_after[OF assms(1)] parse_log_before[OF assms(2)] in \<open>auto simp: failure_ttl_def\<close>)
    then show ?thesis by (simp add: failure_ttl_def)
  qed
  with s show ?thesis ..
qed

lemma broken_registry_parsed_rarely_example:
  "int (length (parse_log \<lparr>rs_cache = None, rs_failure = None\<rparr>
      [(Inl Refused, 0, 1), (Inl Refused, 5, 6), (Inl Refused, 31, 32)])) \<le> 1 + (40 - 0) div failure_ttl"
  by (rule broken_registry_parsed_rarely[where lo = 0 and hi = 40, THEN conjunct2]) simp_all

end
