(* ===== verification/LoqlCompile.thy ===== *)
theory LoqlCompile
  imports LoqlQuery CimRegistry
begin

text \<open>
  The compiler of the query language (\<open>app/loql/compiler.py\<close>): a query becomes a chain of common table
  expressions, each the text of one stage, with every literal, document key and glob handed over as a
  parameter for a \<open>%s\<close> in the text.

  What the methods append to \<open>self.params\<close> is the second component of a piece of text, in the order of the
  appends; \<open>wbind\<close> joins two pieces. The compiler object is the record \<open>comp\<close>, updated by each stage. The
  position of a query error is \<^const>\<open>None\<close>, as in the code; exceptions the compiler does not mean to raise
  are \<open>Escaped\<close>. The options hold what the caller passes, what the CIM registry gives, and Python's \<open>int\<close> of
  a float. The field of an \<open>Agg\<close> and the shape of literals are as the parser builds them.
\<close>

section \<open>Text with parameters\<close>

type_synonym 'a emitted = "loql_error + 'a \<times> pyval list"

definition wret :: "'a \<Rightarrow> 'a emitted" where
  "wret a = Inr (a, [])"

definition bound :: "string \<Rightarrow> pyval \<Rightarrow> string emitted" where
  "bound sql v = Inr (sql, [v])"

definition wbind :: "'a emitted \<Rightarrow> ('a \<Rightarrow> 'b emitted) \<Rightarrow> 'b emitted" where
  "wbind m f = sbind m (\<lambda>(a, ps). sbind (f a) (\<lambda>(b, qs). Inr (b, ps @ qs)))"

fun wmap :: "('a \<Rightarrow> 'b emitted) \<Rightarrow> 'a list \<Rightarrow> 'b list emitted" where
  "wmap f [] = wret []"
| "wmap f (x # xs) = wbind (f x) (\<lambda>y. wbind (wmap f xs) (\<lambda>ys. wret (y # ys)))"

definition wseq :: "'a emitted list \<Rightarrow> 'a list emitted" where
  "wseq ms = wmap (\<lambda>m. m) ms"

text \<open>Text made of pieces without parameters.\<close>

definition wlift :: "loql_error + 'a \<Rightarrow> 'a emitted" where
  "wlift r = sbind r wret"

definition refused :: "loql_error + 'a" where
  "refused = Inl (LoqlError None)"

definition check :: "bool \<Rightarrow> loql_error + unit" where
  "check b = (if b then Inr () else refused)"

section \<open>Names\<close>

definition base_cols :: "string list" where
  "base_cols = [''id'', ''event_time'', ''vendor'', ''product'', ''log_type'', ''severity'', ''action'',
     ''src_ip'', ''dst_ip'', ''src_port'', ''dst_port'', ''protocol'', ''app'', ''user_name'', ''host_name'',
     ''rule_name'', ''bytes_total'', ''message'']"

definition passthru_sql :: string where
  "passthru_sql = join '', '' passthrough_columns"

definition base_select :: string where
  "base_select =
     ''id, event_time, vendor, product, log_type, severity, action, host(src_ip) AS src_ip, '' @
     ''host(dst_ip) AS dst_ip, src_port, dst_port, protocol, app, user_name, host_name, rule_name, '' @
     ''bytes_total, message, '' @ passthru_sql"

definition aliases :: "(string, string) dict" where
  "aliases = [(''_time'', ''event_time''), (''_raw'', ''message'')]"

definition alias_of :: "string \<Rightarrow> string" where
  "alias_of n = (case dict_get aliases n of Some real \<Rightarrow> real | None \<Rightarrow> n)"

definition span_unit :: "char \<Rightarrow> string" where
  "span_unit u =
     (if u = CHR ''s'' then ''seconds'' else if u = CHR ''m'' then ''minutes''
      else if u = CHR ''h'' then ''hours'' else ''days'')"

definition agg_names :: "(string, string) dict" where
  "agg_names = [(''count'', ''count''), (''sum'', ''sum''), (''avg'', ''avg''), (''min'', ''min''), (''max'', ''max'')]"

definition func_sql :: "(string, string) dict" where
  "func_sql =
     [(''lower'', ''lower''), (''upper'', ''upper''), (''length'', ''length''), (''abs'', ''abs''),
      (''ceil'', ''ceil''), (''floor'', ''floor''), (''btrim'', ''btrim''), (''coalesce'', ''coalesce''),
      (''substr'', ''substr''), (''replace'', ''replace''), (''round'', ''round'')]"

definition pg_keywords :: "string list" where
  "pg_keywords =
    [''all'', ''analyse'', ''analyze'', ''and'', ''any'', ''array'', ''as'', ''asc'',
     ''asymmetric'', ''authorization'', ''between'', ''bigint'', ''binary'', ''bit'', ''boolean'',
     ''both'', ''case'', ''cast'', ''char'', ''character'', ''check'', ''coalesce'', ''collate'',
     ''collation'', ''column'', ''concurrently'', ''constraint'', ''create'', ''cross'',
     ''current_catalog'', ''current_date'', ''current_role'', ''current_schema'', ''current_time'',
     ''current_timestamp'', ''current_user'', ''dec'', ''decimal'', ''default'', ''deferrable'',
     ''desc'', ''distinct'', ''do'', ''else'', ''end'', ''except'', ''exists'', ''extract'',
     ''false'', ''fetch'', ''float'', ''for'', ''foreign'', ''freeze'', ''from'', ''full'',
     ''grant'', ''greatest'', ''group'', ''grouping'', ''having'', ''ilike'', ''in'',
     ''initially'', ''inner'', ''inout'', ''int'', ''integer'', ''intersect'', ''interval'',
     ''into'', ''is'', ''isnull'', ''join'', ''json'', ''json_array'', ''json_arrayagg'',
     ''json_exists'', ''json_object'', ''json_objectagg'', ''json_query'', ''json_scalar'',
     ''json_serialize'', ''json_table'', ''json_value'', ''lateral'', ''leading'', ''least'',
     ''left'', ''like'', ''limit'', ''localtime'', ''localtimestamp'', ''national'', ''natural'',
     ''nchar'', ''none'', ''normalize'', ''not'', ''notnull'', ''null'', ''nullif'', ''numeric'',
     ''offset'', ''on'', ''only'', ''or'', ''order'', ''out'', ''outer'', ''overlaps'',
     ''overlay'', ''placing'', ''position'', ''precision'', ''primary'', ''real'', ''references'',
     ''returning'', ''right'', ''row'', ''select'', ''session_user'', ''setof'', ''similar'',
     ''smallint'', ''some'', ''substring'', ''symmetric'', ''system_user'', ''table'',
     ''tablesample'', ''then'', ''time'', ''timestamp'', ''to'', ''trailing'', ''treat'', ''trim'',
     ''true'', ''union'', ''unique'', ''user'', ''using'', ''values'', ''varchar'', ''variadic'',
     ''verbose'', ''when'', ''where'', ''window'', ''with'', ''xmlattributes'', ''xmlconcat'',
     ''xmlelement'', ''xmlexists'', ''xmlforest'', ''xmlnamespaces'', ''xmlparse'', ''xmlpi'',
     ''xmlroot'', ''xmlserialize'', ''xmltable'']"

definition l_ident :: "string \<Rightarrow> loql_error + string" where
  "l_ident name = (if is_ident (before_dollar name) then Inr name else refused)"

text \<open>\<open>^[a-z_][a-z0-9_]*$\<close>.\<close>

definition is_bare :: "string \<Rightarrow> bool" where
  "is_bare name \<longleftrightarrow>
     (let s = before_dollar name in
      s \<noteq> [] \<and> (is_lower_letter (hd s) \<or> hd s = CHR ''_'') \<and> list_all is_lower_word (tl s))"

definition out_ident :: "string \<Rightarrow> loql_error + string" where
  "out_ident name =
     sbind (l_ident name) (\<lambda>_.
       Inr (if is_bare name \<and> name \<notin> set pg_keywords then name else quoted_label name))"

section \<open>The compiler object\<close>

record copts =
  co_where :: string
  co_params :: "pyval list"
  co_limit :: int
  co_cap :: int
  co_registry :: "reg_error + cim_registry"
  co_trunc :: "string \<Rightarrow> py_error + int"

record comp =
  cc_cols :: "string list"
  cc_raw :: bool
  cc_order :: "(string \<times> bool) list"
  cc_named :: bool
  cc_time :: "string set"
  cc_cur :: string
  cc_model :: "cim_model option"
  cc_ctes :: "string list"
  cc_params :: "pyval list"

definition new_comp :: comp where
  "new_comp = \<lparr>cc_cols = base_cols, cc_raw = True, cc_order = [], cc_named = False,
     cc_time = {''event_time''}, cc_cur = ''s0'', cc_model = None, cc_ctes = [], cc_params = []\<rparr>"

definition passthru :: "comp \<Rightarrow> string" where
  "passthru c = (if cc_raw c then '', '' @ passthru_sql else [])"

definition reject_carried :: "comp \<Rightarrow> string list \<Rightarrow> loql_error + unit" where
  "reject_carried c names = check (\<not> cc_raw c \<or> set names \<inter> set passthrough_columns = {})"

definition set_cols :: "string list \<Rightarrow> comp \<Rightarrow> loql_error + comp" where
  "set_cols names c =
     sbind (check (distinct names)) (\<lambda>_.
       Inr (c\<lparr>cc_cols := names, cc_time := cc_time c \<inter> set names\<rparr>))"

definition live :: "comp \<Rightarrow> string \<Rightarrow> string option" where
  "live c name =
     (if name \<in> set (cc_cols c) then Some name
      else (case dict_get aliases name of
              Some real \<Rightarrow> if real \<in> set (cc_cols c) then Some real else None
            | None \<Rightarrow> None))"

definition timed :: "comp \<Rightarrow> string \<Rightarrow> bool" where
  "timed c name = (case live c name of Some real \<Rightarrow> real \<in> cc_time c | None \<Rightarrow> False)"

definition time_col :: "comp \<Rightarrow> string option" where
  "time_col c = (if timed c ''_time'' then live c ''_time'' else None)"

definition timed_by :: "comp \<Rightarrow> string list \<Rightarrow> string set" where
  "timed_by c names = set (filter (timed c) names)"

definition order_by :: "comp \<Rightarrow> loql_error + string" where
  "order_by c =
     sbind (map_res (\<lambda>(n, d). sbind (out_ident n) (\<lambda>s. Inr (s @ (if d then '' DESC'' else '' ASC''))))
              (cc_order c)) (\<lambda>parts. Inr (join '', '' parts @ '' NULLS LAST''))"

definition relabel :: "(string, string) dict \<Rightarrow> string \<Rightarrow> string" where
  "relabel mapping n = (case dict_get mapping n of Some m \<Rightarrow> m | None \<Rightarrow> n)"

definition reorder :: "(string, string) dict \<Rightarrow> comp \<Rightarrow> comp" where
  "reorder mapping c = c\<lparr>cc_order := map (\<lambda>(n, d). (relabel mapping n, d)) (cc_order c)\<rparr>"

definition drop_order :: "string list \<Rightarrow> comp \<Rightarrow> loql_error + comp" where
  "drop_order kept c =
     (if fst ` set (cc_order c) \<subseteq> set kept then Inr c
      else if cc_named c then refused else Inr (c\<lparr>cc_order := []\<rparr>))"

section \<open>Fields and literals\<close>

definition reject_shadowed :: "comp \<Rightarrow> string \<Rightarrow> loql_error + unit" where
  "reject_shadowed c name = check (\<not> (cc_model c \<noteq> None \<and> alias_of name \<in> set base_cols))"

definition resolve :: "comp \<Rightarrow> string \<Rightarrow> string emitted" where
  "resolve c name =
     (case live c name of
        Some real \<Rightarrow> wlift (out_ident real)
      | None \<Rightarrow>
          if cc_raw c then sbind (reject_shadowed c name) (\<lambda>_. bound ''(raw ->> %s)'' (VStr name))
          else refused)"

definition is_time :: "comp \<Rightarrow> expr \<Rightarrow> bool" where
  "is_time c e = (case e of Field n \<Rightarrow> timed c n | _ \<Rightarrow> False)"

text \<open>\<open>([+-]?)(\d+)([smhd])\<close>: the sign of the interval, its digits, its unit.\<close>

definition relative_time :: "string \<Rightarrow> (string \<times> string \<times> char) option" where
  "relative_time v =
     (let signed = (v \<noteq> [] \<and> (hd v = CHR ''+'' \<or> hd v = CHR ''-'')); r = (if signed then tl v else v) in
      if is_span r then Some (if signed \<and> hd v = CHR ''-'' then ''-'' else ''+'', butlast r, last r) else None)"

definition time_literal :: "expr \<Rightarrow> string emitted" where
  "time_literal e =
     (case e of
        Lit v k \<Rightarrow>
          if k = ''num'' then bound ''to_timestamp(%s)'' v
          else if k = ''str'' then
            (case v of
               VStr s \<Rightarrow>
                 (if lower (strip s) = ''now'' then wret ''now()''
                  else (case relative_time (strip s) of
                          Some (sign, digits, u) \<Rightarrow>
                            sbind (int_of digits) (\<lambda>i.
                              wret (''(now() '' @ sign @ '' interval '' @ [quote1] @ int_str i @ '' '' @ span_unit u @
                                    [quote1] @ '')''))
                        | None \<Rightarrow> bound ''%s::timestamptz'' (VStr (strip s))))
             | _ \<Rightarrow> Inl (Escaped AttributeError))
          else refused
      | _ \<Rightarrow> refused)"

text \<open>The operand of a numeric operator, and of \<open>%\<close>; \<open>r\<close> is what the expression itself compiles to.\<close>

definition num_of :: "expr \<Rightarrow> string emitted \<Rightarrow> string emitted" where
  "num_of e r =
     (case e of
        Lit v k \<Rightarrow> if k = ''num'' then bound ''%s'' v else wbind r (\<lambda>s. wret (''('' @ s @ '')::double precision''))
      | _ \<Rightarrow> wbind r (\<lambda>s. wret (''('' @ s @ '')::double precision'')))"

definition numeric_of :: "string emitted \<Rightarrow> string emitted" where
  "numeric_of r = wbind r (\<lambda>s. wret (''('' @ s @ '')::numeric''))"

definition glob_pattern :: "string \<Rightarrow> string option" where
  "glob_pattern p =
     (if CHR ''*'' \<notin> set p \<and> CHR ''?'' \<notin> set p then None
      else Some (replace_char (CHR ''?'') ''_'' (replace_char (CHR ''*'') ''%''
             (replace_char (CHR ''_'') [backslash, CHR ''_''] (replace_char (CHR ''%'') [backslash, CHR ''%'']
             (replace_char backslash [backslash, backslash] p))))))"

definition glob_of :: "expr \<Rightarrow> string option" where
  "glob_of e = (case e of Lit (VStr s) k \<Rightarrow> if k = ''str'' then glob_pattern s else None | _ \<Rightarrow> None)"

section \<open>Expressions\<close>

definition paren2 :: "string \<Rightarrow> string emitted \<Rightarrow> string emitted \<Rightarrow> string emitted" where
  "paren2 op a b = wbind a (\<lambda>x. wbind b (\<lambda>y. wret (''('' @ x @ '' '' @ op @ '' '' @ y @ '')'')))"

definition equality :: "comp \<Rightarrow> bool \<Rightarrow> expr \<Rightarrow> expr \<Rightarrow> string emitted \<Rightarrow> string emitted \<Rightarrow> string emitted" where
  "equality c neg l r rl rr =
     (let op = (if neg then ''<>'' else ''='');
          ilike = (\<lambda>col g. wbind col (\<lambda>x. bound (''('' @ x @ '' '' @ (if neg then ''NOT '' else []) @ ''ILIKE %s)'') (VStr g)))
      in if is_time c l then paren2 op rl (time_literal r)
         else (case glob_of r of
                 Some g \<Rightarrow> ilike rl g
               | None \<Rightarrow> (case glob_of l of Some g \<Rightarrow> ilike rr g | None \<Rightarrow> paren2 op rl rr)))"

definition binary :: "comp \<Rightarrow> string \<Rightarrow> expr \<Rightarrow> expr \<Rightarrow> string emitted \<Rightarrow> string emitted \<Rightarrow> string emitted" where
  "binary c op l r rl rr =
     (if op = ''and'' \<or> op = ''or'' then paren2 (upper op) rl rr
      else if op = ''%'' then paren2 ''%%'' (numeric_of rl) (numeric_of rr)
      else if op \<in> {''+'', ''-'', ''*'', ''/''} then paren2 op (num_of l rl) (num_of r rr)
      else if op = ''.'' then
        wbind rl (\<lambda>x. wbind rr (\<lambda>y. wret (''(('' @ x @ '')::text || ('' @ y @ '')::text)'')))
      else if op = ''like'' then paren2 ''LIKE'' rl rr
      else if op \<in> {''<'', ''<='', ''>'', ''>=''} then
        (if is_time c l then paren2 op rl (time_literal r)
         else if is_time c r then paren2 op (time_literal l) rr
         else paren2 op (num_of l rl) (num_of r rr))
      else if op = ''='' \<or> op = ''!='' then equality c (op = ''!='') l r rl rr
      else refused)"

text \<open>\<open>args[i]\<close>.\<close>

definition arg_at :: "'a list \<Rightarrow> nat \<Rightarrow> loql_error + 'a" where
  "arg_at xs i = (if i < length xs then Inr (xs ! i) else Inl (Escaped IndexError))"

text \<open>\<open>int(value)\<close> of the digits argument of \<open>round\<close>.\<close>

definition round_digits :: "(string \<Rightarrow> py_error + int) \<Rightarrow> expr \<Rightarrow> loql_error + int" where
  "round_digits trunc e =
     (case e of
        Lit v _ \<Rightarrow>
          (case v of
             VStr s \<Rightarrow> if max_str_digits < length (filter is_digit s) then Inl (Escaped ValueError)
                       else (case pv_int trunc v of Inl x \<Rightarrow> Inl (Escaped x) | Inr i \<Rightarrow> Inr i)
           | _ \<Rightarrow> (case pv_int trunc v of Inl x \<Rightarrow> Inl (Escaped x) | Inr i \<Rightarrow> Inr i))
      | _ \<Rightarrow> Inr 0)"

definition call ::
    "copts \<Rightarrow> comp \<Rightarrow> string \<Rightarrow> expr list \<Rightarrow> string emitted list \<Rightarrow> string emitted" where
  "call opts c f es rs =
     (if f = ''_fts'' then
        (if \<not> cc_raw c then refused
         else (case es of
                 [] \<Rightarrow> Inl (Escaped IndexError)
               | Lit v _ # _ \<Rightarrow>
                   bound (''(search_tsv @@ plainto_tsquery('' @ [quote1] @ ''simple'' @ [quote1] @ '', %s))'') v
               | _ \<Rightarrow> Inl (Escaped AttributeError)))
      else if f = ''__if__'' then
        sbind (arg_at rs 0) (\<lambda>a. wbind a (\<lambda>x. sbind (arg_at rs 1) (\<lambda>b. wbind b (\<lambda>y.
        sbind (arg_at rs 2) (\<lambda>d. wbind d (\<lambda>z.
          wret (''(CASE WHEN '' @ x @ '' THEN '' @ y @ '' ELSE '' @ z @ '' END)'')))))))
      else if f = ''__isnull__'' then
        sbind (arg_at rs 0) (\<lambda>a. wbind a (\<lambda>x. wret (''('' @ x @ '' IS NULL)'')))
      else if f = ''__isnotnull__'' then
        sbind (arg_at rs 0) (\<lambda>a. wbind a (\<lambda>x. wret (''('' @ x @ '' IS NOT NULL)'')))
      else if f = ''round'' then
        sbind (arg_at es 0) (\<lambda>e. sbind (arg_at rs 0) (\<lambda>a. wbind (num_of e a) (\<lambda>x.
          if length es = 2
          then sbind (round_digits (co_trunc opts) (es ! 1)) (\<lambda>i.
                 bound (''round(('' @ x @ '')::numeric, %s)'') (VInt i))
          else wret (''round(('' @ x @ '')::numeric)''))))
      else (case dict_get func_sql f of
              None \<Rightarrow> refused
            | Some sql \<Rightarrow> wbind (wseq rs) (\<lambda>as. wret (sql @ ''('' @ join '', '' as @ '')''))))"

fun c_expr :: "copts \<Rightarrow> comp \<Rightarrow> expr \<Rightarrow> string emitted" where
  "c_expr opts c (Lit v k) =
     (if k = ''null'' then wret ''NULL''
      else if k = ''bool'' then wret (if pv_truthy v then ''TRUE'' else ''FALSE'')
      else bound ''%s'' v)"
| "c_expr opts c (Field n) = resolve c n"
| "c_expr opts c (Unary op e) =
     (if op = ''not'' then wbind (c_expr opts c e) (\<lambda>s. wret (''(NOT '' @ s @ '')''))
      else wbind (num_of e (c_expr opts c e)) (\<lambda>s. wret (''(-'' @ s @ '')'')))"
| "c_expr opts c (InList e es) =
     wbind (c_expr opts c e) (\<lambda>t. wbind (wseq (map (c_expr opts c) es)) (\<lambda>as.
       wret (''('' @ t @ '' IN ('' @ join '', '' as @ ''))'')))"
| "c_expr opts c (Func f es) = call opts c f es (map (c_expr opts c) es)"
| "c_expr opts c (Binary op l r) = binary c op l r (c_expr opts c l) (c_expr opts c r)"

section \<open>The data-model source\<close>

definition cim_model_named :: "copts \<Rightarrow> string \<Rightarrow> loql_error + cim_model" where
  "cim_model_named opts name =
     (case co_registry opts of
        Inl _ \<Rightarrow> refused
      | Inr reg \<Rightarrow> (case by_name reg name of None \<Rightarrow> refused | Some m \<Rightarrow> Inr m))"

definition model_item :: "cim_field \<Rightarrow> loql_error + string" where
  "model_item f =
     (case field_value_sql f of
        Inl _ \<Rightarrow> refused
      | Inr v \<Rightarrow> sbind (out_ident (f_name f)) (\<lambda>l. Inr (replace_char (CHR ''%'') ''%%'' v @ '' AS '' @ l)))"

definition cim_select :: "cim_model \<Rightarrow> comp \<Rightarrow> loql_error + string \<times> comp" where
  "cim_select m c =
     sbind (map_res model_item (m_fields m)) (\<lambda>items.
     let named = identity_columns @ map f_name (m_fields m);
         extra = add_passthrough named cim_passthrough_columns;
         cols = named @ extra in
     sbind (reject_carried c cols) (\<lambda>_. sbind (set_cols cols c) (\<lambda>c'.
       Inr (join '', '' (identity_columns @ items @ extra @ [passthru_sql]), c'))))"

section \<open>Stages\<close>

definition next_cte :: "string \<Rightarrow> comp \<Rightarrow> comp" where
  "next_cte body c =
     (let name = ''s'' @ nat_str (int (length (cc_ctes c))) in
      c\<lparr>cc_ctes := cc_ctes c @ [name @ '' AS ('' @ [newline] @ ''  '' @ body @ [newline] @ '')''], cc_cur := name\<rparr>)"

text \<open>A piece of text is compiled: its parameters are appended, and the rest of the stage goes on with it.\<close>

definition emit :: "comp \<Rightarrow> 'a emitted \<Rightarrow> ('a \<Rightarrow> comp \<Rightarrow> loql_error + 'b) \<Rightarrow> loql_error + 'b" where
  "emit c m k = sbind m (\<lambda>(t, ps). k t (c\<lparr>cc_params := cc_params c @ ps\<rparr>))"

definition select_where :: "copts \<Rightarrow> expr \<Rightarrow> comp \<Rightarrow> loql_error + comp" where
  "select_where opts e c =
     emit c (c_expr opts c e) (\<lambda>t c. Inr (next_cte (''SELECT * FROM '' @ cc_cur c @ '' WHERE '' @ t) c))"

definition add_column :: "string \<Rightarrow> string \<Rightarrow> comp \<Rightarrow> loql_error + comp" where
  "add_column name ex c =
     sbind (reject_carried c [name]) (\<lambda>_.
     sbind (out_ident name) (\<lambda>label.
       if name \<in> set (cc_cols c) then
         sbind (map_res (\<lambda>x. if x = name then Inr (ex @ '' AS '' @ label) else out_ident x) (cc_cols c)) (\<lambda>proj.
           Inr (next_cte (''SELECT '' @ join '', '' proj @ passthru c @ '' FROM '' @ cc_cur c) c))
       else Inr ((next_cte (''SELECT *, '' @ ex @ '' AS '' @ label @ '' FROM '' @ cc_cur c) c)
                   \<lparr>cc_cols := cc_cols c @ [name]\<rparr>)))"

definition st_eval :: "copts \<Rightarrow> string \<Rightarrow> expr \<Rightarrow> comp \<Rightarrow> loql_error + comp" where
  "st_eval opts name e c =
     emit c (c_expr opts c e) (\<lambda>t c1.
     sbind (add_column name t c1) (\<lambda>c2.
       Inr (c2\<lparr>cc_time := (if is_time c e then insert name (cc_time c2) else cc_time c2 - {name})\<rparr>)))"

definition resolve_named :: "comp \<Rightarrow> string \<Rightarrow> string emitted" where
  "resolve_named c name =
     (case live c name of
        Some real \<Rightarrow> wlift (out_ident real)
      | None \<Rightarrow>
          sbind (reject_shadowed c name) (\<lambda>_. sbind (out_ident name) (\<lambda>l.
            bound (''(raw ->> %s) AS '' @ l) (VStr name))))"

definition live_or :: "comp \<Rightarrow> string \<Rightarrow> string" where
  "live_or c n = (case live c n of Some real \<Rightarrow> real | None \<Rightarrow> n)"

definition st_fields :: "string list \<Rightarrow> bool \<Rightarrow> comp \<Rightarrow> loql_error + comp" where
  "st_fields names remove c =
     sbind (map_res l_ident names) (\<lambda>_.
     sbind (check (remove \<or> cc_raw c \<or> list_all (\<lambda>n. live c n \<noteq> None) names)) (\<lambda>_.
     let keep = (if remove then filter (\<lambda>x. x \<notin> live_or c ` set names) (cc_cols c)
                 else map (live_or c) names) in
     sbind (check (keep \<noteq> [])) (\<lambda>_.
     sbind (reject_carried c keep) (\<lambda>_.
     sbind (drop_order keep c) (\<lambda>c1.
     emit c1 (wmap (resolve_named c1) keep) (\<lambda>proj c2.
       set_cols keep (next_cte (''SELECT '' @ join '', '' proj @ passthru c2 @ '' FROM '' @ cc_cur c2) c2)))))))"

fun rename_map :: "comp \<Rightarrow> (string \<times> string) list \<Rightarrow> (string, string) dict \<Rightarrow> loql_error + (string, string) dict" where
  "rename_map c [] mapping = Inr mapping"
| "rename_map c ((src, dst) # ps) mapping =
     sbind (l_ident src) (\<lambda>_. sbind (l_ident dst) (\<lambda>_.
       case live c src of None \<Rightarrow> refused | Some real \<Rightarrow> rename_map c ps (dict_set real dst mapping)))"

definition st_rename :: "(string \<times> string) list \<Rightarrow> comp \<Rightarrow> loql_error + comp" where
  "st_rename pairs c =
     sbind (rename_map c pairs []) (\<lambda>mapping.
     sbind (reject_carried c (map snd mapping)) (\<lambda>_.
     sbind (map_res (\<lambda>x. case dict_get mapping x of
                           Some m \<Rightarrow> sbind (out_ident x) (\<lambda>a. sbind (out_ident m) (\<lambda>b. Inr (a @ '' AS '' @ b)))
                         | None \<Rightarrow> out_ident x) (cc_cols c)) (\<lambda>proj.
     let c1 = next_cte (''SELECT '' @ join '', '' proj @ passthru c @ '' FROM '' @ cc_cur c) c;
         c2 = c1\<lparr>cc_time := relabel mapping ` cc_time c1\<rparr> in
     sbind (set_cols (map (relabel mapping) (cc_cols c2)) c2) (\<lambda>c3. Inr (reorder mapping c3)))))"

definition live_cols :: "comp \<Rightarrow> string list \<Rightarrow> loql_error + string list" where
  "live_cols c names = map_res (\<lambda>n. case live c n of Some real \<Rightarrow> Inr real | None \<Rightarrow> refused) names"

definition st_sort :: "(string \<times> bool) list \<Rightarrow> comp \<Rightarrow> loql_error + comp" where
  "st_sort ks c =
     sbind (live_cols c (map fst ks)) (\<lambda>reals.
     let c1 = c\<lparr>cc_order := zip reals (map snd ks), cc_named := True\<rparr> in
     sbind (order_by c1) (\<lambda>o1.
       Inr (next_cte (''SELECT * FROM '' @ cc_cur c1 @ '' ORDER BY '' @ o1) c1)))"

definition st_head :: "int \<Rightarrow> comp \<Rightarrow> loql_error + comp" where
  "st_head n c =
     sbind (if cc_order c = [] then Inr [] else sbind (order_by c) (\<lambda>o1. Inr ('' ORDER BY '' @ o1))) (\<lambda>order.
       Inr (next_cte (''SELECT * FROM '' @ cc_cur c @ order @ '' LIMIT '' @ int_str (max 0 n)) c))"

definition st_dedup :: "string list \<Rightarrow> comp \<Rightarrow> loql_error + comp" where
  "st_dedup names c =
     sbind (live_cols c names) (\<lambda>reals.
     sbind (map_res out_ident reals) (\<lambda>ks.
     let keys = join '', '' ks in
     sbind (if cc_order c = [] then Inr keys else sbind (order_by c) (\<lambda>o1. Inr (keys @ '', '' @ o1))) (\<lambda>order.
       Inr (next_cte (''SELECT DISTINCT ON ('' @ keys @ '') * FROM '' @ cc_cur c @ '' ORDER BY '' @ order) c))))"

text \<open>The argument of an aggregate; a missing one reads the document key \<open>None\<close>.\<close>

definition agg_field :: "comp \<Rightarrow> string option \<Rightarrow> string emitted" where
  "agg_field c arg =
     (case arg of Some f \<Rightarrow> resolve c f
      | None \<Rightarrow> if cc_raw c then bound ''(raw ->> %s)'' VNone else refused)"

definition agg_sql :: "copts \<Rightarrow> comp \<Rightarrow> agg \<Rightarrow> string emitted" where
  "agg_sql opts c a =
     (let f = ag_func a; field = agg_field c (ag_arg a);
          cap = '')[1:'' @ int_str (max 1 (co_cap opts)) @ '']'' in
      if f = ''count'' then
        (if ag_arg a = None then wret ''count(*)'' else wbind field (\<lambda>x. wret (''count('' @ x @ '')'')))
      else if f = ''dc'' then wbind field (\<lambda>x. wret (''count(DISTINCT '' @ x @ '')''))
      else if f = ''values'' then wbind field (\<lambda>x. wret (''(array_agg(DISTINCT '' @ x @ '')'' @ cap))
      else if f = ''list'' then wbind field (\<lambda>x. wret (''(array_agg('' @ x @ '')'' @ cap))
      else if f = ''sum'' \<or> f = ''avg'' then wbind field (\<lambda>x. wret (f @ ''(('' @ x @ '')::double precision)''))
      else (case dict_get agg_names f of
              Some g \<Rightarrow> wbind field (\<lambda>x. wret (g @ ''('' @ x @ '')''))
            | None \<Rightarrow> Inl (Escaped KeyError)))"

text \<open>\<open><expression> AS <label>\<close>.\<close>

definition labelled :: "string emitted \<Rightarrow> string \<Rightarrow> string emitted" where
  "labelled m n = wbind m (\<lambda>x. wbind (wlift (out_ident n)) (\<lambda>l. wret (x @ '' AS '' @ l)))"

definition agg_items :: "copts \<Rightarrow> comp \<Rightarrow> agg list \<Rightarrow> string list emitted" where
  "agg_items opts c as = wmap (\<lambda>a. labelled (agg_sql opts c a) (ag_out a)) as"

definition key_items :: "comp \<Rightarrow> string list \<Rightarrow> string list emitted" where
  "key_items c names = wmap (\<lambda>b. labelled (resolve c b) b) names"

text \<open>What an aggregation leaves behind: no event row and no result order.\<close>

definition aggregated :: "(string \<times> bool) list \<Rightarrow> comp \<Rightarrow> comp" where
  "aggregated order c = c\<lparr>cc_raw := False, cc_order := order, cc_named := False\<rparr>"

definition st_stats :: "copts \<Rightarrow> agg list \<Rightarrow> string list \<Rightarrow> comp \<Rightarrow> loql_error + comp" where
  "st_stats opts as by_names c =
     emit c (wbind (key_items c by_names) (\<lambda>ks. wbind (agg_items opts c as) (\<lambda>items.
             wbind (wmap (resolve c) by_names) (\<lambda>gs.
               wret (ks @ items, if by_names = [] then [] else '' GROUP BY '' @ join '', '' gs)))))
       (\<lambda>(items, group) c1.
         sbind (set_cols (by_names @ map ag_out as) c1) (\<lambda>c2.
         let c3 = c2\<lparr>cc_time := cc_time c2 \<union> timed_by c by_names\<rparr> in
         Inr (aggregated [] (next_cte (''SELECT '' @ join '', '' items @ '' FROM '' @ cc_cur c3 @ group) c3))))"

definition interval :: "string option \<Rightarrow> string emitted" where
  "interval span =
     (let s = (case span of Some x \<Rightarrow> if x = [] then ''1h'' else x | None \<Rightarrow> ''1h'') in
      if is_span s
      then sbind (int_of (butlast s)) (\<lambda>i. bound ''%s::interval'' (VStr (int_str i @ '' '' @ span_unit (last s))))
      else refused)"

definition bucket :: "comp \<Rightarrow> string option \<Rightarrow> string emitted" where
  "bucket c span =
     (case time_col c of
        None \<Rightarrow> refused
      | Some col \<Rightarrow>
          wbind (interval span) (\<lambda>i. wbind (wlift (out_ident col)) (\<lambda>l.
            wret (''date_bin('' @ i @ '', '' @ l @ '', '' @ [quote1] @ ''epoch'' @ [quote1] @ ''::timestamptz)''))))"

definition st_timechart :: "copts \<Rightarrow> agg list \<Rightarrow> string option \<Rightarrow> string option \<Rightarrow> comp \<Rightarrow> loql_error + comp" where
  "st_timechart opts as span b c =
     (let by_names = (case b of None \<Rightarrow> [] | Some n \<Rightarrow> [n]) in
      emit c (wbind (labelled (bucket c span) ''_time'') (\<lambda>t. wbind (key_items c by_names) (\<lambda>ks.
              wbind (agg_items opts c as) (\<lambda>items. wret (t # ks @ items)))))
        (\<lambda>items c1.
          sbind (set_cols (''_time'' # by_names @ map ag_out as) c1) (\<lambda>c2.
          let c3 = c2\<lparr>cc_time := {''_time''}\<rparr> in
          Inr (aggregated [(''_time'', False)]
            (next_cte (''SELECT '' @ join '', '' items @ '' FROM '' @ cc_cur c3 @ '' GROUP BY '' @
               (if b = None then ''1'' else ''1, 2'') @ '' ORDER BY 1'') c3)))))"

definition st_bin :: "string \<Rightarrow> string option \<Rightarrow> string option \<Rightarrow> comp \<Rightarrow> loql_error + comp" where
  "st_bin f span out c =
     sbind (check (alias_of f = ''event_time'')) (\<lambda>_.
     let name = (case out of Some x \<Rightarrow> if x = [] then f else x | None \<Rightarrow> f) in
     emit c (bucket c span) (\<lambda>t c1.
     sbind (add_column name t c1) (\<lambda>c2. Inr (c2\<lparr>cc_time := insert name (cc_time c2)\<rparr>))))"

text \<open>The ordinals \<open>1, 2, \<dots>\<close> of the group keys.\<close>

definition ordinals :: "nat \<Rightarrow> string" where
  "ordinals n = join '', '' (map (\<lambda>i. nat_str (int i)) [1..<Suc n])"

definition st_top :: "string \<Rightarrow> int \<Rightarrow> bool \<Rightarrow> string list \<Rightarrow> comp \<Rightarrow> loql_error + comp" where
  "st_top f n rare by_names c =
     emit c (wbind (resolve c f) (\<lambda>fs. wbind (key_items c by_names) (\<lambda>ks.
             wbind (wmap (resolve c) by_names) (\<lambda>ps. wbind (wlift (out_ident ''percent'')) (\<lambda>pl.
             wbind (wlift (out_ident f)) (\<lambda>fl. wbind (wlift (out_ident ''count'')) (\<lambda>cl.
               wret ((fs @ '' AS '' @ fl) # ks @ [''count(*) AS '' @ cl,
                 ''round(100.0 * count(*) / NULLIF(sum(count(*)) OVER ('' @
                 (if by_names = [] then [] else ''PARTITION BY '' @ join '', '' ps) @
                 ''), 0), 2) AS '' @ pl], cl))))))))
       (\<lambda>(items, cl) c1.
         sbind (set_cols (f # by_names @ [''count'', ''percent'']) c1) (\<lambda>c2.
         let c3 = c2\<lparr>cc_time := cc_time c2 \<union> timed_by c (f # by_names)\<rparr> in
         Inr (aggregated [(''count'', \<not> rare)]
           (next_cte (''SELECT '' @ join '', '' items @ '' FROM '' @ cc_cur c3 @ '' GROUP BY '' @
              ordinals (Suc (length by_names)) @ '' ORDER BY '' @ cl @ (if rare then '' ASC'' else '' DESC'') @
              '' LIMIT '' @ int_str (max 1 n)) c3))))"

definition st_search :: "copts \<Rightarrow> expr option \<Rightarrow> string option \<Rightarrow> comp \<Rightarrow> loql_error + comp" where
  "st_search opts e m c =
     (if m \<noteq> None then refused else case e of None \<Rightarrow> Inr c | Some e \<Rightarrow> select_where opts e c)"

fun stage_step :: "copts \<Rightarrow> stage \<Rightarrow> comp \<Rightarrow> loql_error + comp" where
  "stage_step opts (Search e m) c = st_search opts e m c"
| "stage_step opts (Where e) c = select_where opts e c"
| "stage_step opts (Eval n e) c = st_eval opts n e c"
| "stage_step opts (Fields ns b) c = st_fields ns b c"
| "stage_step opts (Rename ps) c = st_rename ps c"
| "stage_step opts (Sort ks) c = st_sort ks c"
| "stage_step opts (Head n) c = st_head n c"
| "stage_step opts (Dedup ns) c = st_dedup ns c"
| "stage_step opts (Stats as b) c = st_stats opts as b c"
| "stage_step opts (Top f n r b) c = st_top f n r b c"
| "stage_step opts (Bin f s out) c = st_bin f s out c"
| "stage_step opts (Timechart as s b) c = st_timechart opts as s b c"

fun stage_steps :: "copts \<Rightarrow> stage list \<Rightarrow> comp \<Rightarrow> loql_error + comp" where
  "stage_steps opts [] c = Inr c"
| "stage_steps opts (s # ss) c = sbind (stage_step opts s c) (stage_steps opts ss)"

section \<open>Queries\<close>

text \<open>\<open>s0\<close>: the search over the events, or over the projection of a data model.\<close>

definition sourced :: "copts \<Rightarrow> string \<Rightarrow> string list \<Rightarrow> comp \<Rightarrow> comp" where
  "sourced opts select wheres c =
     (let w = wheres @ (if co_where opts = [] then [] else [''('' @ co_where opts @ '')'']) in
      c\<lparr>cc_params := cc_params c @ (if co_where opts = [] then [] else co_params opts),
        cc_ctes := cc_ctes c @ [''s0 AS ('' @ [newline] @ ''  SELECT '' @ select @ '' FROM events'' @
          (if w = [] then [] else '' WHERE '' @ join '' AND '' w) @ [newline] @ '')'']\<rparr>)"

definition source_cte :: "copts \<Rightarrow> expr option \<Rightarrow> string option \<Rightarrow> comp \<Rightarrow> loql_error + comp" where
  "source_cte opts pred m c =
     (case m of
        Some name \<Rightarrow>
          sbind (cim_model_named opts name) (\<lambda>x.
          sbind (cim_select x (c\<lparr>cc_model := Some x\<rparr>)) (\<lambda>(select, c1).
          let c2 = sourced opts select [''cim_models @> ARRAY[%s]::text[]'']
                     (c1\<lparr>cc_params := cc_params c1 @ [VStr (m_tag x)]\<rparr>) in
          (case pred of None \<Rightarrow> Inr c2 | Some e \<Rightarrow> select_where opts e c2)))
      | None \<Rightarrow>
          (let c1 = c\<lparr>cc_model := None\<rparr> in
           case pred of
             None \<Rightarrow> Inr (sourced opts base_select [] c1)
           | Some e \<Rightarrow> emit c1 (c_expr opts c1 e) (\<lambda>t c2. Inr (sourced opts base_select [t] c2))))"

definition finish_query :: "copts \<Rightarrow> comp \<Rightarrow> loql_error + string \<times> pyval list" where
  "finish_query opts c =
     sbind (map_res out_ident (cc_cols c)) (\<lambda>sel.
     sbind (if cc_order c = [] then Inr [] else sbind (order_by c) (\<lambda>o1. Inr ('' ORDER BY '' @ o1))) (\<lambda>order.
       Inr (''WITH '' @ join ('','' @ [newline]) (cc_ctes c) @ [newline] @ ''SELECT '' @ join '', '' sel @
            '' FROM '' @ cc_cur c @ order @ '' LIMIT '' @ int_str (max 1 (co_limit opts)), cc_params c)))"

definition compile_parsed :: "copts \<Rightarrow> stage list \<Rightarrow> loql_error + string \<times> pyval list" where
  "compile_parsed opts q =
     (case q of
        Search pred m # stages \<Rightarrow>
          sbind (source_cte opts pred m new_comp) (\<lambda>c.
          sbind (stage_steps opts stages c) (finish_query opts))
      | _ \<Rightarrow> refused)"

definition compile_query :: "(string \<Rightarrow> string) \<Rightarrow> copts \<Rightarrow> string \<Rightarrow> loql_error + string \<times> pyval list" where
  "compile_query fr opts text = sbind (parse fr text) (compile_parsed opts)"

section \<open>Running a query\<close>

text \<open>
  \<open>app/loql/run.py\<close>. The database is an argument: given the timeout, a statement with its parameters and the
  number of rows to fetch it returns the column names and the rows, or fails. \<open>cell\<close> renders a value.
  The elapsed time of the answer is left out.
\<close>

record 'v answer =
  an_query :: string
  an_fields :: "string list"
  an_rows :: "(string, 'v) dict list"
  an_count :: int
  an_truncated :: bool

definition run_limit :: "int \<Rightarrow> int \<Rightarrow> int" where
  "run_limit limit max_rows = max 1 (min limit max_rows)"

definition run_query ::
    "(string \<Rightarrow> string) \<Rightarrow> (string \<Rightarrow> string \<Rightarrow> pyval list \<Rightarrow> int \<Rightarrow> unit + string list \<times> (string, 'v) dict list) \<Rightarrow>
     ('v \<Rightarrow> 'v) \<Rightarrow> copts \<Rightarrow> string \<Rightarrow> int \<Rightarrow> int \<Rightarrow> int \<Rightarrow> loql_error + 'v answer" where
  "run_query fr db cell opts query limit max_rows timeout_ms =
     (let lim = run_limit limit max_rows in
      case compile_query fr (opts\<lparr>co_limit := lim\<rparr>) query of
        Inl (LoqlError p) \<Rightarrow> Inl (LoqlError p)
      | Inl (Escaped _) \<Rightarrow> refused
      | Inr (sql, params) \<Rightarrow>
          (case db (int_str (max 0 timeout_ms)) sql params max_rows of
             Inl _ \<Rightarrow> refused
           | Inr (names, rows) \<Rightarrow>
               Inr \<lparr>an_query = query, an_fields = names, an_rows = map (map (\<lambda>(k, v). (k, cell v))) rows,
                    an_count = int (length rows), an_truncated = lim \<le> int (length rows)\<rparr>))"

end
