(* ===== verification/LoqlSql.thy ===== *)
theory LoqlSql
  imports LoqlCompile
begin

text \<open>
  The text the compiler emits and its parameters: the text holds exactly one placeholder for each parameter,
  so no value of a query is ever part of the statement and none is bound to another's place.

  \<open>placeholders\<close> is how the driver reads a statement: \<open>%s\<close> stands for the next parameter, \<open>%%\<close> for a percent
  sign, and any other use of the sign refuses the statement. The proofs use the rule \<open>wok_bind\<close> for a piece
  followed by another, and \<open>stage_ok\<close> for a stage.
\<close>

fun placeholders :: "string \<Rightarrow> nat option" where
  "placeholders [] = Some 0"
| "placeholders (c # r) =
     (if c \<noteq> CHR ''%'' then placeholders r
      else (case r of
              [] \<Rightarrow> None
            | d # r' \<Rightarrow> if d = CHR ''%'' then placeholders r'
                       else if d = CHR ''s'' then map_option Suc (placeholders r') else None))"

lemma placeholders_append:
  "placeholders a \<noteq> None \<Longrightarrow> placeholders (a @ b) = map_option ((+) (the (placeholders a))) (placeholders b)"
proof (induction a rule: placeholders.induct)
  case 1
  then show ?case by (cases "placeholders b") simp_all
next
  case (2 c r)
  show ?case
  proof (cases "c = CHR ''%''")
    case False
    then show ?thesis using 2(1) 2(4) by simp
  next
    case True
    then obtain d r' where r: "r = d # r'" using 2(4) by (cases r) auto
    then show ?thesis using 2(2)[of d r'] 2(3)[of d r'] 2(4) True
      by (cases "placeholders b") (auto split: if_splits option.splits)
  qed
qed

definition plain :: "string \<Rightarrow> bool" where
  "plain s \<longleftrightarrow> CHR ''%'' \<notin> set s"

lemma plain_placeholders: "plain s \<Longrightarrow> placeholders s = Some 0"
  by (induction s) (auto simp: plain_def)

lemma plain_simps [simp]:
  "plain []" "plain (c # s) \<longleftrightarrow> c \<noteq> CHR ''%'' \<and> plain s" "plain (a @ b) \<longleftrightarrow> plain a \<and> plain b"
  by (auto simp: plain_def)

lemma plain_join: "plain sep \<Longrightarrow> list_all plain xs \<Longrightarrow> plain (join sep xs)"
  by (induction sep xs rule: join.induct) auto

section \<open>Pieces of text\<close>

definition slots :: "string \<Rightarrow> nat \<Rightarrow> bool" where
  "slots s n \<longleftrightarrow> placeholders s = Some n"

fun slots_all :: "string list \<Rightarrow> nat \<Rightarrow> bool" where
  "slots_all [] n = (n = 0)"
| "slots_all (s # ss) n = (\<exists>k m. slots s k \<and> slots_all ss m \<and> n = k + m)"

lemma slots_append: "slots a n \<Longrightarrow> slots b m \<Longrightarrow> slots (a @ b) (n + m)"
  by (simp add: slots_def placeholders_append)

lemma slots_plain: "plain s \<Longrightarrow> slots s 0"
  by (simp add: slots_def plain_placeholders)

lemma slots_Cons: "c \<noteq> CHR ''%'' \<Longrightarrow> slots (c # s) n = slots s n"
  by (simp add: slots_def)

lemma slots_marks: "slots (CHR ''%'' # CHR ''%'' # s) n = slots s n" "slots (CHR ''%'' # CHR ''s'' # s) (Suc n) = slots s n"
  by (auto simp: slots_def)

lemma slots_join: "plain sep \<Longrightarrow> slots_all ss n \<Longrightarrow> slots (join sep ss) n"
proof (induction sep ss arbitrary: n rule: join.induct)
  case (3 sep x y ys)
  then obtain k m where "slots x k" "slots_all (y # ys) m" "n = k + m" by auto
  then show ?case using 3 slots_append[of x k "sep @ join sep (y # ys)" m]
      slots_append[of sep 0 "join sep (y # ys)" m] slots_plain by simp
qed (auto simp: slots_def)

lemma slots_all_append: "slots_all xs n \<Longrightarrow> slots_all ys m \<Longrightarrow> slots_all (xs @ ys) (n + m)"
proof (induction xs arbitrary: n)
  case (Cons x xs)
  then obtain k l where "slots x k" "slots_all xs l" "n = k + l" by auto
  then show ?case using Cons.IH[of l] Cons.prems(2) by (auto simp: add.assoc)
qed simp

lemma slots_all_plain: "list_all plain ss \<Longrightarrow> slots_all ss 0"
  by (induction ss) (auto simp: slots_plain)

text \<open>A piece satisfies \<open>P\<close> of its text and the number of its parameters.\<close>

definition wok :: "('a \<Rightarrow> nat \<Rightarrow> bool) \<Rightarrow> 'a emitted \<Rightarrow> bool" where
  "wok P m \<longleftrightarrow> (case m of Inl _ \<Rightarrow> True | Inr (a, ps) \<Rightarrow> P a (length ps))"

lemma wok_Inl [simp]: "wok P (Inl e)"
  by (simp add: wok_def)

lemma wok_wret [simp]: "wok P (wret a) = P a 0"
  by (simp add: wok_def wret_def)

lemma wok_bound [simp]: "wok P (bound s v) = P s 1"
  by (simp add: wok_def bound_def)

lemma wok_refused [simp]: "wok P refused"
  by (simp add: refused_def)

lemma wok_bind:
  assumes "wok P m" "\<And>a n. P a n \<Longrightarrow> wok (\<lambda>b k. Q b (n + k)) (f a)"
  shows "wok Q (wbind m f)"
  using assms by (fastforce simp: wok_def wbind_def sbind_def split: sum.splits prod.splits)

lemma wok_sbind: "(\<And>a. m = Inr a \<Longrightarrow> wok P (f a)) \<Longrightarrow> wok P (sbind m f)"
  by (cases m) simp_all

lemma wok_mono: "wok P m \<Longrightarrow> (\<And>a n. P a n \<Longrightarrow> Q a n) \<Longrightarrow> wok Q m"
  by (auto simp: wok_def split: sum.splits)

lemma wok_map: "(\<And>x. x \<in> set xs \<Longrightarrow> wok slots (f x)) \<Longrightarrow> wok slots_all (wmap f xs)"
proof (induction xs)
  case (Cons x xs)
  show ?case unfolding wmap.simps
    by (rule wok_bind[where P = slots], simp add: Cons.prems, rule wok_bind[where P = slots_all])
      (use Cons in auto)
qed simp

lemma wok_seq: "(\<And>m. m \<in> set ms \<Longrightarrow> wok slots m) \<Longrightarrow> wok slots_all (wseq ms)"
  unfolding wseq_def by (rule wok_map)

lemma wok_lift: "(\<And>a. r = Inr a \<Longrightarrow> P a 0) \<Longrightarrow> wok P (wlift r)"
  by (cases r) (simp_all add: wlift_def)

lemma wok_if: "(b \<Longrightarrow> wok P x) \<Longrightarrow> (\<not> b \<Longrightarrow> wok P y) \<Longrightarrow> wok P (if b then x else y)"
  by simp

text \<open>Identifiers hold no percent sign.\<close>

lemma word_plain: "list_all is_word s \<Longrightarrow> plain s"
  by (auto simp: plain_def list_all_iff is_word_def is_letter_def is_digit_def code_def)

lemma out_ident_plain: "out_ident n = Inr s \<Longrightarrow> plain s \<and> plain n"
proof -
  assume a: "out_ident n = Inr s"
  then have id: "is_ident (before_dollar n)" by (auto simp: out_ident_def l_ident_def refused_def split: if_splits)
  have "plain (before_dollar n)" using is_ident_word[OF id] word_plain by blast
  then have n: "plain n"
    by (cases n rule: rev_cases) (auto simp: before_dollar_def newline_def split: if_splits)
  then have "plain (quoted_label n)" by (auto simp: quoted_label_def replace_char_def plain_def quote2_def)
  then show ?thesis using a n by (auto simp: out_ident_def split: if_splits)
qed

lemma wok_out_ident: "wok slots (wlift (out_ident n))"
  by (rule wok_lift) (auto dest: out_ident_plain intro: slots_plain)

lemma digit_char_plain: "0 \<le> d \<Longrightarrow> d < 10 \<Longrightarrow> digit_char d \<noteq> CHR ''%''"
proof
  assume d: "0 \<le> d" "d < 10" "digit_char d = CHR ''%''"
  have "code (digit_char d) = 48 + d"
    unfolding digit_char_def by (rule code_char_of) (use d in simp_all)
  moreover have "code (digit_char d) = 37" by (subst d(3)) (simp add: code_def)
  ultimately show False using d(1) by simp
qed

lemma nat_str_plain: "0 \<le> n \<Longrightarrow> plain (nat_str n)"
  by (induction n rule: nat_str.induct) (subst nat_str.simps, auto simp: digit_char_plain)

lemma int_str_plain [simp]: "plain (int_str i)"
  by (auto simp: int_str_def nat_str_plain)

lemma span_unit_plain [simp]: "plain (span_unit u)"
  by (simp add: span_unit_def)

lemma quote_chars [simp]: "quote1 \<noteq> CHR ''%''" "quote2 \<noteq> CHR ''%''" "newline \<noteq> CHR ''%''"
  by (simp_all add: quote1_def quote2_def newline_def)

section \<open>Expressions\<close>

lemma slots_doc_key: "slots ''(raw ->> %s)'' (Suc 0)"
  by (simp add: slots_def)

lemma wok_resolve: "wok slots (resolve c n)"
  by (auto simp: resolve_def slots_doc_key wok_out_ident split: option.splits intro!: wok_sbind)

lemma wok_time_literal: "wok slots (time_literal e)"
  by (auto simp: time_literal_def slots_def relative_time_def Let_def plain_placeholders
      split: expr.splits pyval.splits option.splits intro!: wok_sbind)

lemma wok_wrap: "wok slots m \<Longrightarrow> (\<And>s n. slots s n \<Longrightarrow> slots (f s) n) \<Longrightarrow> wok slots (wbind m (\<lambda>s. wret (f s)))"
  by (rule wok_bind[where P = slots]) simp_all

lemma wok_wrap_bound:
  "wok slots m \<Longrightarrow> (\<And>s n. slots s n \<Longrightarrow> slots (f s) (Suc n)) \<Longrightarrow> wok slots (wbind m (\<lambda>s. bound (f s) v))"
  by (rule wok_bind[where P = slots]) simp_all

lemma wok_num_of: "wok slots r \<Longrightarrow> wok slots (num_of e r)"
  by (auto simp: num_of_def slots_def placeholders_append split: expr.splits intro!: wok_wrap)

lemma wok_numeric_of: "wok slots r \<Longrightarrow> wok slots (numeric_of r)"
  by (auto simp: numeric_of_def slots_def placeholders_append intro!: wok_wrap)

lemma wok_two:
  assumes "wok slots a" "wok slots b" "\<And>x y n m. slots x n \<Longrightarrow> slots y m \<Longrightarrow> slots (f x y) (n + m)"
  shows "wok slots (wbind a (\<lambda>x. wbind b (\<lambda>y. wret (f x y))))"
  using assms(1)
  by (rule wok_bind) (rule wok_bind[OF assms(2)], simp add: assms(3))

lemma wok_paren2:
  assumes "wok slots a" "wok slots b" "placeholders op = Some 0"
  shows "wok slots (paren2 op a b)"
  unfolding paren2_def by (rule wok_two[OF assms(1,2)]) (use assms(3) in \<open>simp add: slots_def placeholders_append\<close>)

lemma wok_equality:
  assumes "wok slots rl" "wok slots rr"
  shows "wok slots (equality c neg l r rl rr)"
  unfolding equality_def Let_def
  using assms
  by (auto simp: wok_paren2 wok_time_literal split: option.splits intro!: wok_wrap_bound)
    (auto simp: slots_def placeholders_append)

lemma wok_binary:
  assumes "wok slots rl" "wok slots rr"
  shows "wok slots (binary c op l r rl rr)"
proof -
  have cat: "wok slots (wbind rl (\<lambda>x. wbind rr (\<lambda>y. wret (''(('' @ x @ '')::text || ('' @ y @ '')::text)''))))"
    by (rule wok_two[OF assms]) (simp add: slots_def placeholders_append)
  have logic: "placeholders (upper op) = Some 0" if "op = ''and'' \<or> op = ''or''"
  proof -
    have "placeholders (upper ''and'') = Some 0" "placeholders (upper ''or'') = Some 0" by code_simp+
    then show ?thesis using that by metis
  qed
  have arith: "placeholders op = Some 0" if "op \<in> {''+'', ''-'', ''*'', ''/''}"
    using that by (elim insertE) simp_all
  have order: "placeholders op = Some 0" if "op \<in> {''<'', ''<='', ''>'', ''>=''}"
    using that by (elim insertE) simp_all
  show ?thesis
    unfolding binary_def
    by (intro wok_if cat wok_paren2 wok_equality wok_time_literal wok_num_of wok_numeric_of wok_refused assms)
      (erule logic | erule arith | erule order | (simp; fail))+
qed

lemma wok_call:
  assumes "\<And>m. m \<in> set rs \<Longrightarrow> wok slots m"
  shows "wok slots (call opts c f es rs)"
proof -
  have at: "wok slots m" if "arg_at rs i = Inr m" for i m
    using that assms by (auto simp: arg_at_def split: if_splits)
  have fts: "slots (''(search_tsv @@ plainto_tsquery('' @ [quote1] @ ''simple'' @ [quote1] @ '', %s))'') 1"
    by (simp add: slots_def quote1_def)
  have null: "wok slots (wbind m (\<lambda>x. wret (''('' @ x @ s)))" if "wok slots m" "s \<in> {'' IS NULL)'', '' IS NOT NULL)''}" for m s
    by (rule wok_wrap[OF that(1)]) (use that(2) in \<open>auto simp: slots_def placeholders_append\<close>)
  have known: "plain sql" if "dict_get func_sql f = Some sql" for sql
    using that by (auto simp: func_sql_def dict_get_def split: if_splits)
  have args: "wok slots (wbind (wseq rs) (\<lambda>as. wret (sql @ ''('' @ join '', '' as @ '')'')))" if "plain sql" for sql
    by (rule wok_bind[OF wok_seq[OF assms]], assumption)
      (use that slots_join[of "'', ''"] in \<open>simp add: slots_def placeholders_append plain_placeholders\<close>)
  have ite: "wok slots (sbind (arg_at rs 0) (\<lambda>a. wbind a (\<lambda>x. sbind (arg_at rs 1) (\<lambda>b. wbind b (\<lambda>y.
        sbind (arg_at rs 2) (\<lambda>d. wbind d (\<lambda>z.
          wret (''(CASE WHEN '' @ x @ '' THEN '' @ y @ '' ELSE '' @ z @ '' END)''))))))))"
    by (rule wok_sbind, rule wok_bind[OF at], assumption, rule wok_sbind, rule wok_bind[OF at], assumption,
        rule wok_sbind, rule wok_bind[OF at], assumption) (simp add: slots_def placeholders_append)
  have rnd: "wok slots (wbind (num_of e m) (\<lambda>x. if length es = 2
          then sbind (round_digits (co_trunc opts) (es ! 1)) (\<lambda>i. bound (''round(('' @ x @ '')::numeric, %s)'') (VInt i))
          else wret (''round(('' @ x @ '')::numeric)'')))" if "wok slots m" for e m
    by (rule wok_bind[OF wok_num_of[OF that]])
      (auto simp: slots_def placeholders_append intro!: wok_sbind)
  have first: "wok slots (case es of [] \<Rightarrow> Inl (Escaped IndexError)
               | Lit v _ # _ \<Rightarrow>
                   bound (''(search_tsv @@ plainto_tsquery('' @ [quote1] @ ''simple'' @ [quote1] @ '', %s))'') v
               | _ \<Rightarrow> Inl (Escaped AttributeError))"
    using fts by (simp split: list.split expr.split)
  have table: "wok slots (case dict_get func_sql f of
              None \<Rightarrow> refused
            | Some sql \<Rightarrow> wbind (wseq rs) (\<lambda>as. wret (sql @ ''('' @ join '', '' as @ '')'')))"
    by (cases "dict_get func_sql f") (simp_all add: known args del: append_Cons)
  show ?thesis
    unfolding call_def
    by (intro wok_if wok_refused first table ite wok_sbind rnd null at) simp_all
qed

lemma wok_expr: "wok slots (c_expr opts c e)"
proof (induction e)
  case (Func f es)
  then show ?case by (auto intro!: wok_call)
next
  case (InList e es)
  have "wok slots_all (wseq (map (c_expr opts c) es))" by (rule wok_seq) (use InList(2) in auto)
  then show ?case unfolding c_expr.simps
    by (intro wok_bind[OF InList(1)], elim wok_bind)
      (use slots_join[of "'', ''"] in \<open>simp add: slots_def placeholders_append\<close>)
next
  case (Unary op e)
  then show ?case
    by (auto intro!: wok_wrap wok_num_of) (auto simp: slots_def placeholders_append)
next
  case (Field n)
  then show ?case by (simp add: wok_resolve)
next
  case (Binary op l r)
  then show ?case by (simp add: wok_binary)
qed (auto simp: slots_def)

section \<open>Stages\<close>

text \<open>
  \<open>balanced c k\<close>: the stages written so far hold as many placeholders as there are parameters, bar the last
  \<open>k\<close> parameters, which the stage at hand has appended and not written yet.
\<close>

definition balanced :: "comp \<Rightarrow> nat \<Rightarrow> bool" where
  "balanced c k \<longleftrightarrow> distinct (cc_cols c) \<and> plain (cc_cur c) \<and> (\<exists>m. slots_all (cc_ctes c) m \<and> length (cc_params c) = m + k)"

definition sok :: "('a \<Rightarrow> bool) \<Rightarrow> 'e + 'a \<Rightarrow> bool" where
  "sok P r \<longleftrightarrow> (case r of Inl _ \<Rightarrow> True | Inr a \<Rightarrow> P a)"

lemma sok_Inl [simp]: "sok P (Inl e)"
  by (simp add: sok_def)

lemma sok_Inr [simp]: "sok P (Inr a) = P a"
  by (simp add: sok_def)

lemma sok_refused [simp]: "sok P refused"
  by (simp add: refused_def)

lemma sok_bind: "sok P m \<Longrightarrow> (\<And>a. m = Inr a \<Longrightarrow> P a \<Longrightarrow> sok Q (f a)) \<Longrightarrow> sok Q (sbind m f)"
  by (cases m) simp_all

lemma sok_then: "(\<And>a. m = Inr a \<Longrightarrow> sok Q (f a)) \<Longrightarrow> sok Q (sbind m f)"
  by (cases m) simp_all

lemma sok_if: "(b \<Longrightarrow> sok P x) \<Longrightarrow> (\<not> b \<Longrightarrow> sok P y) \<Longrightarrow> sok P (if b then x else y)"
  by simp

lemma sok_emit:
  assumes "balanced c k" "wok P m"
    and "\<And>t n ps. P t n \<Longrightarrow> balanced (c\<lparr>cc_params := cc_params c @ ps\<rparr>) (k + n) \<Longrightarrow>
           sok Q (f t (c\<lparr>cc_params := cc_params c @ ps\<rparr>))"
  shows "sok Q (emit c m f)"
proof (cases m)
  case (Inr r)
  obtain t ps where r: "r = (t, ps)" by (cases r)
  have "P t (length ps)" using assms(2) Inr r by (simp add: wok_def)
  moreover have "balanced (c\<lparr>cc_params := cc_params c @ ps\<rparr>) (k + length ps)"
    using assms(1) by (auto simp: balanced_def)
  ultimately show ?thesis using assms(3) Inr r by (simp add: emit_def)
qed (simp add: emit_def)

lemma balanced_next:
  assumes "balanced c n" "slots body n"
  shows "balanced (next_cte body c) 0"
proof -
  obtain m where m: "slots_all (cc_ctes c) m" "length (cc_params c) = m + n" and d: "distinct (cc_cols c)"
    using assms(1) by (auto simp: balanced_def)
  have name: "plain (''s'' @ nat_str (int (length (cc_ctes c))))" by (simp add: nat_str_plain)
  have "slots ((''s'' @ nat_str (int (length (cc_ctes c)))) @ '' AS ('' @ [newline] @ ''  '' @ body @ [newline] @ '')'') n"
    using assms(2) plain_placeholders[OF name]
    by (simp add: slots_def placeholders_append)
  then have "slots_all (cc_ctes (next_cte body c)) (m + n)"
    by (auto simp: next_cte_def Let_def intro!: slots_all_append[OF m(1)])
  then show ?thesis using m d by (simp add: balanced_def next_cte_def Let_def nat_str_plain)
qed

lemma next_cte_simps [simp]:
  "cc_cols (next_cte b c) = cc_cols c" "cc_params (next_cte b c) = cc_params c" "cc_raw (next_cte b c) = cc_raw c"
  "cc_order (next_cte b c) = cc_order c" "cc_time (next_cte b c) = cc_time c" "cc_named (next_cte b c) = cc_named c"
  "cc_model (next_cte b c) = cc_model c"
  by (simp_all add: next_cte_def Let_def)

lemma balanced_update [simp]:
  "balanced (c\<lparr>cc_time := t\<rparr>) k = balanced c k" "balanced (c\<lparr>cc_raw := r\<rparr>) k = balanced c k"
  "balanced (c\<lparr>cc_order := ord\<rparr>) k = balanced c k" "balanced (c\<lparr>cc_named := nm\<rparr>) k = balanced c k"
  "balanced (c\<lparr>cc_model := md\<rparr>) k = balanced c k" "balanced (aggregated ord c) k = balanced c k"
  "balanced (reorder mp c) k = balanced c k"
  by (simp_all add: balanced_def aggregated_def reorder_def)

lemma set_cols_Inr:
  "set_cols names c = Inr c' \<longleftrightarrow> distinct names \<and> c' = c\<lparr>cc_cols := names, cc_time := cc_time c \<inter> set names\<rparr>"
  by (auto simp: set_cols_def check_def refused_def)

lemma balanced_set_cols: "balanced c k \<Longrightarrow> set_cols names c = Inr c' \<Longrightarrow> balanced c' k"
  by (auto simp: set_cols_Inr balanced_def)

lemma check_Inr [simp]: "check b = Inr u \<longleftrightarrow> b"
  by (auto simp: check_def refused_def)

text \<open>The text of the parts that carry no value.\<close>

lemma map_out_ident_plain: "map_res out_ident xs = Inr ys \<Longrightarrow> list_all plain ys"
  by (erule map_res_all) (auto dest: out_ident_plain)

lemma join_idents: "map_res out_ident xs = Inr ys \<Longrightarrow> slots (join '', '' ys) 0"
  by (rule slots_plain, rule plain_join) (auto dest: map_out_ident_plain)

lemma order_by_plain: "order_by c = Inr s \<Longrightarrow> plain s"
proof -
  assume "order_by c = Inr s"
  then obtain ps where ps: "map_res (\<lambda>(n, d). sbind (out_ident n) (\<lambda>s. Inr (s @ (if d then '' DESC'' else '' ASC''))))
      (cc_order c) = Inr ps" and s: "s = join '', '' ps @ '' NULLS LAST''"
    by (auto simp: order_by_def)
  have "list_all plain ps" by (rule map_res_all[OF ps]) (auto dest!: out_ident_plain split: if_splits)
  then show ?thesis by (simp add: s plain_join)
qed

lemma order_part: "sok plain (if cc_order c = [] then Inr [] else sbind (order_by c) (\<lambda>o1. Inr ('' ORDER BY '' @ o1)))"
  by (cases "order_by c") (auto simp: order_by_plain)

lemma passthru_plain: "plain passthru_sql" "plain (passthru c)"
  by (auto simp: passthru_def passthru_sql_def passthrough_columns_def)

lemma live_cols_ok: "live_cols c names = Inr reals \<Longrightarrow> list_all2 (\<lambda>n r. live c n = Some r) names reals"
  by (auto simp: live_cols_def map_res_Inr_iff refused_def elim!: list_all2_mono split: option.splits)

lemma balanced_cur: "balanced c k \<Longrightarrow> placeholders (cc_cur c) = Some 0"
  by (simp add: balanced_def plain_placeholders)

lemma passthru_slots [simp]: "placeholders (passthru c) = Some 0" "placeholders passthru_sql = Some 0"
  by (simp_all add: passthru_plain plain_placeholders)

lemma slotsD: "slots t n \<Longrightarrow> placeholders t = Some n"
  by (simp add: slots_def)

lemma sok_next:
  "balanced c n \<Longrightarrow> (placeholders (cc_cur c) = Some 0 \<Longrightarrow> placeholders body = Some n) \<Longrightarrow>
   sok (\<lambda>c'. balanced c' 0) (Inr (next_cte body c))"
  by (simp add: balanced_next balanced_cur slots_def)

lemma select_where_balanced: "balanced c 0 \<Longrightarrow> sok (\<lambda>c'. balanced c' 0) (select_where opts e c)"
  unfolding select_where_def
  by (erule sok_emit[OF _ wok_expr], rule sok_next) (auto simp: placeholders_append dest: slotsD)

lemma replaced_column:
  assumes "map_res (\<lambda>x. if x = name then Inr ex else out_ident x) xs = Inr proj" "distinct xs" "slots ex k"
  shows "slots_all proj (if name \<in> set xs then k else 0)"
  using assms
proof (induction xs arbitrary: proj)
  case (Cons x xs)
  from Cons.prems(1) obtain y ys
    where y: "(if x = name then Inr ex else out_ident x) = Inr y"
      and ys: "map_res (\<lambda>x. if x = name then Inr ex else out_ident x) xs = Inr ys" and p: "proj = y # ys"
    by (auto simp del: if_split_asm)
  have rest: "slots_all ys (if name \<in> set xs then k else 0)" using Cons.IH[OF ys] Cons.prems by simp
  show ?case
  proof (cases "x = name")
    case True
    then show ?thesis using rest y p Cons.prems by auto
  next
    case False
    then have "slots y 0" using y by (auto dest: out_ident_plain intro: slots_plain)
    then show ?thesis using rest p False by auto
  qed
qed simp

lemma add_column_balanced:
  assumes "balanced c k" "slots ex k"
  shows "sok (\<lambda>c'. balanced c' 0) (add_column name ex c)"
  unfolding add_column_def
proof (rule sok_then, rule sok_then, rule sok_if, rule sok_then, rule sok_next[OF assms(1)])
  fix label proj
  assume l: "out_ident name = Inr label" and "name \<in> set (cc_cols c)" and cur: "placeholders (cc_cur c) = Some 0"
    and p: "map_res (\<lambda>x. if x = name then Inr (ex @ '' AS '' @ label) else out_ident x) (cc_cols c) = Inr proj"
  have "slots (ex @ '' AS '' @ label) k"
    using assms(2) l by (auto simp: slots_def placeholders_append plain_placeholders dest!: out_ident_plain)
  from replaced_column[OF p _ this] have "slots_all proj k"
    using assms(1) \<open>name \<in> set (cc_cols c)\<close> by (simp add: balanced_def)
  from slots_join[OF _ this, of "'', ''"]
  show "placeholders (''SELECT '' @ join '', '' proj @ passthru c @ '' FROM '' @ cc_cur c) = Some k"
    using cur by (simp add: slots_def placeholders_append)
next
  fix label
  assume "out_ident name = Inr label" "name \<notin> set (cc_cols c)"
  moreover from this have "placeholders label = Some 0" by (auto dest: out_ident_plain intro: plain_placeholders)
  ultimately have "balanced (next_cte (''SELECT *, '' @ ex @ '' AS '' @ label @ '' FROM '' @ cc_cur c) c) 0"
    using assms by (intro balanced_next[OF assms(1)]) (simp add: slots_def placeholders_append balanced_cur)
  then show "sok (\<lambda>c'. balanced c' 0) (Inr ((next_cte (''SELECT *, '' @ ex @ '' AS '' @ label @ '' FROM '' @ cc_cur c) c)
                   \<lparr>cc_cols := cc_cols c @ [name]\<rparr>))"
    using \<open>name \<notin> set (cc_cols c)\<close> by (simp add: balanced_def)
qed


lemma st_eval_balanced: "balanced c 0 \<Longrightarrow> sok (\<lambda>c'. balanced c' 0) (st_eval opts n e c)"
  unfolding st_eval_def
  by (erule sok_emit[OF _ wok_expr], rule sok_bind[OF add_column_balanced]) simp_all

lemma wok_resolve_named: "wok slots (resolve_named c n)"
  unfolding resolve_named_def
  by (auto simp: wok_out_ident slots_def placeholders_append plain_placeholders split: option.split
      intro!: wok_sbind dest!: out_ident_plain)

lemma st_fields_balanced:
  assumes "balanced c 0"
  shows "sok (\<lambda>c'. balanced c' 0) (st_fields names remove c)"
proof -
  have kept: "sok (\<lambda>c1. balanced c1 0) (drop_order keep c)" for keep
    using assms by (simp add: drop_order_def)
  show ?thesis
    unfolding st_fields_def Let_def
  proof (intro sok_then sok_bind[OF kept], erule sok_emit, rule wok_map, rule wok_resolve_named)
    fix keep c1 proj n ps
    assume "slots_all proj n" "balanced (c1\<lparr>cc_params := cc_params c1 @ ps\<rparr>) (0 + n)"
    then have "balanced (next_cte (''SELECT '' @ join '', '' proj @ passthru (c1\<lparr>cc_params := cc_params c1 @ ps\<rparr>) @
        '' FROM '' @ cc_cur (c1\<lparr>cc_params := cc_params c1 @ ps\<rparr>)) (c1\<lparr>cc_params := cc_params c1 @ ps\<rparr>)) 0"
      by (intro balanced_next)
        (auto simp: slots_def placeholders_append dest!: slots_join[of "'', ''", rotated] balanced_cur)
    then show "sok (\<lambda>c'. balanced c' 0)
        (set_cols keep (next_cte (''SELECT '' @ join '', '' proj @ passthru (c1\<lparr>cc_params := cc_params c1 @ ps\<rparr>) @
          '' FROM '' @ cc_cur (c1\<lparr>cc_params := cc_params c1 @ ps\<rparr>)) (c1\<lparr>cc_params := cc_params c1 @ ps\<rparr>)))"
      by (auto simp: sok_def split: sum.split dest: balanced_set_cols)
  qed
qed

lemma st_rename_balanced:
  assumes "balanced c 0"
  shows "sok (\<lambda>c'. balanced c' 0) (st_rename pairs c)"
  unfolding st_rename_def Let_def
proof (intro sok_then)
  fix mapping proj c3
  let ?c = "next_cte (''SELECT '' @ join '', '' proj @ passthru c @ '' FROM '' @ cc_cur c) c"
  assume p: "map_res (\<lambda>x. case dict_get mapping x of
      None \<Rightarrow> out_ident x
    | Some m \<Rightarrow> sbind (out_ident x) (\<lambda>a. sbind (out_ident m) (\<lambda>b. Inr (a @ '' AS '' @ b)))) (cc_cols c) = Inr proj"
    and named: "set_cols (map (relabel mapping) (cc_cols (?c\<lparr>cc_time := relabel mapping ` cc_time ?c\<rparr>)))
      (?c\<lparr>cc_time := relabel mapping ` cc_time ?c\<rparr>) = Inr c3"
  have "list_all plain proj"
    by (rule map_res_all[OF p]) (auto split: option.splits dest!: out_ident_plain)
  then have "placeholders (join '', '' proj) = Some 0" by (simp add: plain_join plain_placeholders)
  then have "balanced ?c 0"
    using assms by (intro balanced_next[OF assms]) (simp add: slots_def placeholders_append balanced_cur)
  then show "sok (\<lambda>c'. balanced c' 0) (Inr (reorder mapping c3))"
    using balanced_set_cols[OF _ named] by simp
qed

lemma st_sort_balanced: "balanced c 0 \<Longrightarrow> sok (\<lambda>c'. balanced c' 0) (st_sort ks c)"
  unfolding st_sort_def Let_def
  by (intro sok_then sok_next[where n = 0])
    (auto simp: placeholders_append plain_placeholders dest!: order_by_plain)

lemma st_head_balanced: "balanced c 0 \<Longrightarrow> sok (\<lambda>c'. balanced c' 0) (st_head n c)"
  unfolding st_head_def
  by (intro sok_bind[OF order_part] sok_next[where n = 0]) (auto simp: placeholders_append plain_placeholders)

lemma st_dedup_balanced:
  assumes "balanced c 0"
  shows "sok (\<lambda>c'. balanced c' 0) (st_dedup names c)"
  unfolding st_dedup_def Let_def
proof (intro sok_then)
  fix reals ks order
  assume k: "map_res out_ident reals = Inr ks"
    and o: "(if cc_order c = [] then Inr (join '', '' ks)
             else sbind (order_by c) (\<lambda>o1. Inr (join '', '' ks @ '', '' @ o1))) = Inr order"
  have "plain (join '', '' ks)" using k by (simp add: plain_join map_out_ident_plain)
  moreover from this have "plain order" using o by (auto dest: order_by_plain split: if_splits)
  ultimately show "sok (\<lambda>c'. balanced c' 0) (Inr (next_cte
      (''SELECT DISTINCT ON ('' @ join '', '' ks @ '') * FROM '' @ cc_cur c @ '' ORDER BY '' @ order) c))"
    by (intro sok_next[OF assms]) (simp add: placeholders_append plain_placeholders)
qed


text \<open>Aggregations write the keys, the aggregates and the grouping in one stage.\<close>

lemma wok_agg_field: "wok slots (agg_field c arg)"
  by (auto simp: agg_field_def wok_resolve slots_doc_key split: option.split)

lemma wok_agg_sql: "wok slots (agg_sql opts c a)"
proof -
  have named: "placeholders g = Some 0" if "dict_get agg_names f = Some g" for f g
    using that by (auto simp: agg_names_def dict_get_def split: if_splits)
  have two: "placeholders f = Some 0" if "f = ''sum'' \<or> f = ''avg''" for f
    using that by auto
  show ?thesis
    unfolding agg_sql_def Let_def
    by (auto simp: wok_agg_field named slots_def placeholders_append plain_placeholders
        split: option.split intro!: wok_wrap)
qed

lemma wok_labelled: "wok slots m \<Longrightarrow> wok slots (labelled m n)"
  unfolding labelled_def
  by (rule wok_two) (auto simp: wok_out_ident slots_def placeholders_append)

lemma wok_items: "wok slots_all (agg_items opts c as)" "wok slots_all (key_items c names)"
  unfolding agg_items_def key_items_def by (auto intro!: wok_map wok_labelled wok_agg_sql wok_resolve)

lemma wok_bucket: "wok slots (bucket c span)"
proof -
  have "wok slots (interval span)"
    by (auto simp: interval_def Let_def slots_def split: option.split intro!: wok_sbind)
  then show ?thesis
    unfolding bucket_def
    by (auto split: option.split intro!: wok_two wok_out_ident) (simp add: slots_def placeholders_append)
qed

text \<open>A projection, the text after it, and the parameters of both.\<close>

definition slots_tail :: "string list \<times> string \<Rightarrow> nat \<Rightarrow> bool" where
  "slots_tail x n \<longleftrightarrow> (\<exists>a b. slots_all (fst x) a \<and> slots (snd x) b \<and> n = a + b)"

lemma slots_tail_select:
  "slots_tail (items, tail) n \<Longrightarrow> placeholders from = Some 0 \<Longrightarrow>
   slots (''SELECT '' @ join '', '' items @ '' FROM '' @ from @ tail) n"
  unfolding slots_tail_def
  by (auto simp: slots_def placeholders_append dest!: slots_join[of "'', ''", rotated])

lemma wok_group:
  "wok (\<lambda>gs k. slots_all gs k \<and> (names = [] \<longrightarrow> k = 0)) (wmap (resolve c) names)"
proof (cases names)
  case (Cons n ns)
  then show ?thesis using wok_map[of names "resolve c"] by (auto simp: wok_resolve elim!: wok_mono)
qed simp

lemma sok_select:
  assumes "balanced c n" "slots_tail (items, tail) n"
  shows "sok (\<lambda>c'. balanced c' 0) (sbind (set_cols names c) (\<lambda>c2.
         let c3 = c2\<lparr>cc_time := T c2\<rparr> in
         Inr (aggregated ord (next_cte (''SELECT '' @ join '', '' items @ '' FROM '' @ cc_cur c3 @ tail) c3))))"
proof (rule sok_then)
  fix c2
  assume "set_cols names c = Inr c2"
  then have b: "balanced (c2\<lparr>cc_time := T c2\<rparr>) n" using assms(1) by (simp add: balanced_set_cols)
  show "sok (\<lambda>c'. balanced c' 0) (let c3 = c2\<lparr>cc_time := T c2\<rparr> in
         Inr (aggregated ord (next_cte (''SELECT '' @ join '', '' items @ '' FROM '' @ cc_cur c3 @ tail) c3)))"
    using balanced_next[OF b slots_tail_select[OF assms(2) balanced_cur[OF b]]] by (simp add: Let_def)
qed

lemma st_stats_balanced:
  assumes "balanced c 0"
  shows "sok (\<lambda>c'. balanced c' 0) (st_stats opts as by_names c)"
proof -
  have written: "wok slots_tail (wbind (key_items c by_names) (\<lambda>ks. wbind (agg_items opts c as) (\<lambda>items.
             wbind (wmap (resolve c) by_names) (\<lambda>gs.
               wret (ks @ items, if by_names = [] then [] else '' GROUP BY '' @ join '', '' gs)))))"
  proof (rule wok_bind[OF wok_items(2)], rule wok_bind[OF wok_items(1)], rule wok_bind[OF wok_group])
    fix ks items gs n m k
    assume parts: "slots_all ks n" "slots_all items m" "slots_all gs k \<and> (by_names = [] \<longrightarrow> k = 0)"
    have "slots_all (ks @ items) (n + m)" by (rule slots_all_append[OF parts(1,2)])
    moreover have "slots (if by_names = [] then [] else '' GROUP BY '' @ join '', '' gs) k"
      using parts(3) slots_join[of "'', ''" gs k] by (simp add: slots_def placeholders_append)
    ultimately show "wok (\<lambda>b j. slots_tail b (n + (m + (k + j))))
        (wret (ks @ items, if by_names = [] then [] else '' GROUP BY '' @ join '', '' gs))"
      by (auto simp: slots_tail_def add.assoc)
  qed
  show ?thesis
    unfolding st_stats_def
    by (rule sok_emit[OF assms written], clarify, rule sok_select) simp_all
qed

lemma st_timechart_balanced:
  assumes "balanced c 0"
  shows "sok (\<lambda>c'. balanced c' 0) (st_timechart opts as span b c)"
proof -
  have written: "wok slots_all (wbind (labelled (bucket c span) ''_time'') (\<lambda>t. wbind (key_items c names) (\<lambda>ks.
              wbind (agg_items opts c as) (\<lambda>items. wret (t # ks @ items)))))" for names
    by (rule wok_bind[OF wok_labelled[OF wok_bucket]], rule wok_bind[OF wok_items(2)], rule wok_bind[OF wok_items(1)])
      (auto simp: add.assoc intro: slots_all_append)
  show ?thesis
    unfolding st_timechart_def Let_def[of "case b of None \<Rightarrow> [] | Some n \<Rightarrow> [n]"]
    by (rule sok_emit[OF assms written], rule sok_select, assumption) (auto simp: slots_tail_def slots_def)
qed

lemma st_bin_balanced: "balanced c 0 \<Longrightarrow> sok (\<lambda>c'. balanced c' 0) (st_bin f span out c)"
  unfolding st_bin_def Let_def
  by (rule sok_then, erule sok_emit[OF _ wok_bucket], rule sok_bind[OF add_column_balanced]) simp_all

lemma plain_ordinals: "plain (ordinals n)"
  unfolding ordinals_def by (rule plain_join) (auto simp: list_all_iff nat_str_plain)

lemma st_top_balanced:
  assumes "balanced c 0"
  shows "sok (\<lambda>c'. balanced c' 0) (st_top f n rare by_names c)"
proof -
  let ?share = "\<lambda>ps pl. ''round(100.0 * count(*) / NULLIF(sum(count(*)) OVER ('' @
                 (if by_names = [] then [] else ''PARTITION BY '' @ join '', '' ps) @ ''), 0), 2) AS '' @ pl"
  have share: "slots (?share ps pl) k"
    if "slots_all ps k \<and> (by_names = [] \<longrightarrow> k = 0)" "plain pl" for ps pl k
    using that slots_join[of "'', ''" ps k] by (simp add: slots_def placeholders_append plain_placeholders)
  have label: "wok (\<lambda>s k. plain s \<and> k = 0) (wlift (out_ident x))" for x
    by (rule wok_lift) (auto dest: out_ident_plain)
  have written: "wok (\<lambda>x k. slots_all (fst x) k \<and> plain (snd x))
     (wbind (resolve c f) (\<lambda>fs. wbind (key_items c by_names) (\<lambda>ks.
             wbind (wmap (resolve c) by_names) (\<lambda>ps. wbind (wlift (out_ident ''percent'')) (\<lambda>pl.
             wbind (wlift (out_ident f)) (\<lambda>fl. wbind (wlift (out_ident ''count'')) (\<lambda>cl.
               wret ((fs @ '' AS '' @ fl) # ks @ [''count(*) AS '' @ cl, ?share ps pl], cl))))))))"
  proof (rule wok_bind[OF wok_resolve], rule wok_bind[OF wok_items(2)], rule wok_bind[OF wok_group],
      (rule wok_bind[OF label])+)
    fix fs ks ps pl fl cl and n m k i j l :: nat
    assume parts: "slots fs n" "slots_all ks m" "slots_all ps k \<and> (by_names = [] \<longrightarrow> k = 0)"
      and labels: "plain pl \<and> i = 0" "plain fl \<and> j = 0" "plain cl \<and> l = 0"
    have "slots (fs @ '' AS '' @ fl) n" "slots (''count(*) AS '' @ cl) 0"
      using parts(1) labels by (auto simp: slots_def placeholders_append plain_placeholders)
    moreover have "slots (?share ps pl) k" using parts(3) labels(1) by (intro share) simp_all
    ultimately have "slots_all ((fs @ '' AS '' @ fl) # ks @ [''count(*) AS '' @ cl, ?share ps pl]) (n + (m + k))"
      using slots_all_append[OF parts(2), of "[''count(*) AS '' @ cl, ?share ps pl]" k]
      by (force simp del: append_Cons append.simps)
    then show "wok (\<lambda>b r. slots_all (fst b) (n + (m + (k + (i + (j + (l + r)))))) \<and> plain (snd b))
        (wret ((fs @ '' AS '' @ fl) # ks @ [''count(*) AS '' @ cl, ?share ps pl], cl))"
      using labels by (simp del: append_Cons append.simps slots_all.simps)
  qed
  show ?thesis
    unfolding st_top_def
    by (rule sok_emit[OF assms written], clarify, rule sok_select, assumption)
      (auto simp: slots_tail_def slots_def placeholders_append plain_placeholders plain_ordinals)
qed

lemma stage_step_balanced: "balanced c 0 \<Longrightarrow> sok (\<lambda>c'. balanced c' 0) (stage_step opts s c)"
  by (cases s)
    (auto simp: st_search_def select_where_balanced st_eval_balanced st_fields_balanced st_rename_balanced
      st_sort_balanced st_head_balanced st_dedup_balanced st_stats_balanced st_top_balanced st_bin_balanced
      st_timechart_balanced split: option.split)

lemma stage_steps_balanced: "balanced c 0 \<Longrightarrow> sok (\<lambda>c'. balanced c' 0) (stage_steps opts ss c)"
  by (induction ss arbitrary: c) (auto intro!: sok_bind[OF stage_step_balanced])

section \<open>Queries\<close>

text \<open>The caller's own condition brings its own parameters.\<close>

definition where_ok :: "copts \<Rightarrow> bool" where
  "where_ok opts \<longleftrightarrow> placeholders (co_where opts) = Some (length (co_params opts))"

lemma doubled_percent: "placeholders (replace_char (CHR ''%'') ''%%'' s) = Some 0"
  by (induction s) (simp_all add: replace_char_def)

lemma model_items_slots: "map_res model_item fs = Inr items \<Longrightarrow> slots_all items 0"
proof (induction fs arbitrary: items)
  case (Cons f fs)
  then obtain i j where i: "model_item f = Inr i" "map_res model_item fs = Inr j" "items = i # j" by auto
  have "slots i 0"
    using i(1) by (auto simp: model_item_def slots_def placeholders_append doubled_percent plain_placeholders
        refused_def split: sum.splits dest!: out_ident_plain)
  then show ?case using Cons.IH[OF i(2)] i(3) by auto
qed simp

lemma add_passthrough_plain: "list_all plain ps \<Longrightarrow> list_all plain (add_passthrough ns ps)"
  by (induction ns ps rule: add_passthrough.induct) auto

lemma cim_select_ok:
  assumes "balanced c k"
  shows "sok (\<lambda>(select, c'). slots select 0 \<and> balanced c' k \<and> cc_ctes c' = cc_ctes c \<and> cc_params c' = cc_params c)
    (cim_select m c)"
  unfolding cim_select_def Let_def
proof (intro sok_then)
  fix items c'
  let ?extra = "add_passthrough (identity_columns @ map f_name (m_fields m)) cim_passthrough_columns"
  assume items: "map_res model_item (m_fields m) = Inr items"
    and s: "set_cols ((identity_columns @ map f_name (m_fields m)) @ ?extra) c = Inr c'"
  have "slots_all ?extra 0"
    by (rule slots_all_plain, rule add_passthrough_plain) (simp add: cim_passthrough_columns_def)
  moreover have "slots_all identity_columns 0"
    by (rule slots_all_plain) (simp add: identity_columns_def)
  moreover have "slots_all [passthru_sql] 0" by (simp add: slots_def)
  ultimately have "slots_all (identity_columns @ items @ ?extra @ [passthru_sql]) 0"
    using model_items_slots[OF items] by (metis slots_all_append add_0)
  then have "slots (join '', '' (identity_columns @ items @ ?extra @ [passthru_sql])) 0"
    by (rule slots_join[rotated]) simp
  then show "sok (\<lambda>(select, c'). slots select 0 \<and> balanced c' k \<and> cc_ctes c' = cc_ctes c \<and> cc_params c' = cc_params c)
    (Inr (join '', '' (identity_columns @ items @ ?extra @ [passthru_sql]), c'))"
    using balanced_set_cols[OF assms s] s by (simp add: set_cols_Inr)
qed


lemma sourced_balanced:
  assumes "balanced c (length (cc_params c))" "cc_ctes c = []" "slots select 0"
    and "slots_all wheres (length (cc_params c))" "where_ok opts"
  shows "balanced (sourced opts select wheres c) 0"
proof -
  define ps where "ps = (if co_where opts = [] then [] else co_params opts)"
  define w where "w = wheres @ (if co_where opts = [] then [] else [''('' @ co_where opts @ '')''])"
  have "slots_all (if co_where opts = [] then [] else [''('' @ co_where opts @ '')'']) (length ps)"
    using assms(5) by (auto simp: where_ok_def ps_def slots_def placeholders_append)
  then have w: "slots_all w (length (cc_params c) + length ps)"
    unfolding w_def by (rule slots_all_append[OF assms(4)])
  have "slots (if w = [] then [] else '' WHERE '' @ join '' AND '' w) (length (cc_params c) + length ps)"
    using slots_join[of "'' AND ''", OF _ w] w by (auto simp: slots_def)
  then show ?thesis
    using assms unfolding sourced_def w_def[symmetric] ps_def[symmetric] Let_def
    by (auto simp: balanced_def slots_def placeholders_append base_cols_def)
qed

lemma base_select_slots: "slots base_select 0"
proof -
  have "plain base_select" unfolding base_select_def by (simp add: passthru_plain)
  then show ?thesis by (rule slots_plain)
qed

lemma new_comp_balanced: "balanced new_comp 0" "cc_ctes new_comp = []" "cc_params new_comp = []"
  by (simp_all add: balanced_def new_comp_def base_cols_def)

lemma source_balanced:
  assumes "where_ok opts"
  shows "sok (\<lambda>c. balanced c 0) (source_cte opts pred m new_comp)"
proof (cases m)
  case None
  let ?c = "new_comp\<lparr>cc_model := None\<rparr>"
  have b: "balanced ?c 0" by (simp add: new_comp_balanced)
  have "sok (\<lambda>c. balanced c 0) (emit ?c (c_expr opts ?c e) (\<lambda>t c2. Inr (sourced opts base_select [t] c2)))" for e
  proof (rule sok_emit[OF b wok_expr])
    fix t n ps
    assume t: "slots t n" and p: "balanced (?c\<lparr>cc_params := cc_params ?c @ ps\<rparr>) (0 + n)"
    have n: "length ps = n" using p by (auto simp: balanced_def new_comp_balanced)
    show "sok (\<lambda>c. balanced c 0) (Inr (sourced opts base_select [t] (?c\<lparr>cc_params := cc_params ?c @ ps\<rparr>)))"
      using sourced_balanced[OF _ _ base_select_slots _ assms, of "?c\<lparr>cc_params := cc_params ?c @ ps\<rparr>" "[t]"] p t n
      by (simp add: new_comp_balanced)
  qed
  moreover have "balanced (sourced opts base_select [] ?c) 0"
    using sourced_balanced[OF _ _ base_select_slots _ assms, of ?c "[]"] by (simp add: new_comp_balanced)
  ultimately show ?thesis using None by (simp add: source_cte_def Let_def split: option.split)
next
  case (Some name)
  show ?thesis
    unfolding source_cte_def Some option.case
  proof (rule sok_then, rule sok_bind, rule cim_select_ok[of _ 0], simp add: new_comp_balanced, clarify)
    fix x select c1
    assume "slots select 0" "balanced c1 0" "cc_ctes c1 = cc_ctes (new_comp\<lparr>cc_model := Some x\<rparr>)"
      "cc_params c1 = cc_params (new_comp\<lparr>cc_model := Some x\<rparr>)"
    then have "balanced (sourced opts select [''cim_models @> ARRAY[%s]::text[]'']
                     (c1\<lparr>cc_params := cc_params c1 @ [VStr (m_tag x)]\<rparr>)) 0"
      using assms by (intro sourced_balanced) (auto simp: new_comp_balanced slots_def balanced_def)
    then show "sok (\<lambda>c. balanced c 0) (let c2 = sourced opts select [''cim_models @> ARRAY[%s]::text[]'']
                     (c1\<lparr>cc_params := cc_params c1 @ [VStr (m_tag x)]\<rparr>) in
          (case pred of None \<Rightarrow> Inr c2 | Some e \<Rightarrow> select_where opts e c2))"
      by (simp add: Let_def select_where_balanced split: option.split)
  qed
qed

lemma finish_placeholders:
  assumes "balanced c 0"
  shows "sok (\<lambda>(sql, params). placeholders sql = Some (length params)) (finish_query opts c)"
  unfolding finish_query_def
proof (rule sok_then, rule sok_bind[OF order_part])
  fix sel order
  assume "map_res out_ident (cc_cols c) = Inr sel" "plain order"
  then have "placeholders (join '', '' sel) = Some 0" "placeholders order = Some 0"
    using join_idents by (auto simp: slots_def plain_placeholders)
  moreover have "placeholders (join ('','' @ [newline]) (cc_ctes c)) = Some (length (cc_params c))"
    using assms slots_join[of "'','' @ [newline]" "cc_ctes c"] by (auto simp: balanced_def slots_def)
  ultimately show "sok (\<lambda>(sql, params). placeholders sql = Some (length params))
    (Inr (''WITH '' @ join ('','' @ [newline]) (cc_ctes c) @ [newline] @ ''SELECT '' @ join '', '' sel @
            '' FROM '' @ cc_cur c @ order @ '' LIMIT '' @ int_str (max 1 (co_limit opts)), cc_params c))"
    using assms by (simp add: placeholders_append balanced_cur plain_placeholders)
qed

lemma compile_placeholders:
  assumes "where_ok opts" "compile_parsed opts q = Inr (sql, params)"
  shows "placeholders sql = Some (length params)"
proof -
  have "sok (\<lambda>(sql, params). placeholders sql = Some (length params)) (compile_parsed opts q)"
    unfolding compile_parsed_def
    by (auto split: list.split stage.split intro!: sok_bind[OF source_balanced[OF assms(1)]]
        sok_bind[OF stage_steps_balanced] finish_placeholders)
  then show ?thesis using assms(2) by simp
qed

end
