(* ===== verification/LoqlScope.thy ===== *)
theory LoqlScope
  imports LoqlSql
begin

text \<open>
  What the compiler's columns mean and how it fails. \<open>scope_ok\<close> is the invariant of the compiler object between
  two stages: its columns are distinct, the result order and the time columns are among them, and while the
  rows are events none of them shadows the hidden columns. \<open>quiet\<close> says of a step that it fails, if at all,
  by the query error and not by an exception the caller does not expect.
\<close>

section \<open>Columns in scope\<close>

definition scope_ok :: "comp \<Rightarrow> bool" where
  "scope_ok c \<longleftrightarrow>
     cc_cols c \<noteq> [] \<and> distinct (cc_cols c) \<and> fst ` set (cc_order c) \<subseteq> set (cc_cols c) \<and>
     cc_time c \<subseteq> set (cc_cols c) \<and> (cc_raw c \<longrightarrow> set (cc_cols c) \<inter> set passthrough_columns = {})"

lemma scope_ok_params [simp]:
  "scope_ok (c\<lparr>cc_params := ps\<rparr>) = scope_ok c" "scope_ok (next_cte b c) = scope_ok c"
  "scope_ok (c\<lparr>cc_named := nm\<rparr>) = scope_ok c"
  by (simp_all add: scope_ok_def)

lemma emit_rule: "(\<And>t ps. sok Q (f t (c\<lparr>cc_params := cc_params c @ ps\<rparr>))) \<Longrightarrow> sok Q (emit c m f)"
  by (cases m) (auto simp: emit_def)

lemma live_in: "live c n = Some real \<Longrightarrow> real \<in> set (cc_cols c)"
  by (auto simp: live_def split: if_splits option.splits)

lemma reject_carried_Inr [simp]:
  "reject_carried c ns = Inr u \<longleftrightarrow> (cc_raw c \<longrightarrow> set ns \<inter> set passthrough_columns = {})"
  by (auto simp: reject_carried_def)

lemma scope_add_column:
  "scope_ok c \<Longrightarrow>
   sok (\<lambda>c'. scope_ok c' \<and> name \<in> set (cc_cols c') \<and> set (cc_cols c') = insert name (set (cc_cols c))) (add_column name ex c)"
  unfolding add_column_def
  by (auto intro!: sok_then sok_if simp: scope_ok_def image_subset_iff dest: subsetD)

lemma scope_retime: "scope_ok c \<Longrightarrow> t \<subseteq> set (cc_cols c) \<Longrightarrow> scope_ok (c\<lparr>cc_time := t\<rparr>)"
  by (simp add: scope_ok_def)

lemma scope_select_where: "scope_ok c \<Longrightarrow> sok scope_ok (select_where opts e c)"
  unfolding select_where_def by (rule emit_rule) simp

lemma scope_eval: "scope_ok c \<Longrightarrow> sok scope_ok (st_eval opts n e c)"
  unfolding st_eval_def
  by (rule emit_rule, rule sok_bind[OF scope_add_column]) (auto intro!: scope_retime simp: scope_ok_def)

lemma scope_bin: "scope_ok c \<Longrightarrow> sok scope_ok (st_bin f span out c)"
  unfolding st_bin_def Let_def
  by (rule sok_then, rule emit_rule, rule sok_bind[OF scope_add_column])
    (auto intro!: scope_retime simp: scope_ok_def)

lemma scope_set_cols:
  "scope_ok c \<Longrightarrow> set_cols names c = Inr c' \<Longrightarrow> names \<noteq> [] \<Longrightarrow> fst ` set (cc_order c) \<subseteq> set names \<Longrightarrow>
   (cc_raw c \<longrightarrow> set names \<inter> set passthrough_columns = {}) \<Longrightarrow> scope_ok c'"
  by (auto simp: set_cols_Inr scope_ok_def)

lemma drop_order_Inr:
  "drop_order kept c = Inr c' \<Longrightarrow> fst ` set (cc_order c') \<subseteq> set kept \<and> cc_raw c' = cc_raw c \<and> (scope_ok c \<longrightarrow> scope_ok c')"
  by (auto simp: drop_order_def refused_def scope_ok_def split: if_splits)

lemma scope_keep:
  assumes "scope_ok c" "names \<noteq> []" "fst ` set (cc_order c) \<subseteq> set names"
    and "cc_raw c \<longrightarrow> set names \<inter> set passthrough_columns = {}"
  shows "sok scope_ok (set_cols names c)"
  using assms scope_set_cols[of c names] by (cases "set_cols names c") auto

lemma scope_fields:
  assumes "scope_ok c"
  shows "sok scope_ok (st_fields names remove c)"
  unfolding st_fields_def Let_def
proof (intro sok_then emit_rule)
  fix u v w proj ps and c1 :: comp
  let ?keep = "if remove then filter (\<lambda>x. x \<notin> live_or c ` set names) (cc_cols c) else map (live_or c) names"
  let ?c = "c1\<lparr>cc_params := cc_params c1 @ ps\<rparr>"
  assume "check (?keep \<noteq> []) = Inr v" "reject_carried c ?keep = Inr w" "drop_order ?keep c = Inr c1"
  then show "sok scope_ok (set_cols ?keep
      (next_cte (''SELECT '' @ join '', '' proj @ passthru ?c @ '' FROM '' @ cc_cur ?c) ?c))"
    using assms drop_order_Inr[of ?keep c c1]
    by (intro scope_keep) (simp_all del: if_split set_filter set_map if_split_asm)
qed

text \<open>Sorting, ordering and aggregating.\<close>

lemma live_cols_in: "live_cols c names = Inr reals \<Longrightarrow> set reals \<subseteq> set (cc_cols c)"
  unfolding live_cols_def
  by (drule map_res_all[where P = "\<lambda>r. r \<in> set (cc_cols c)"])
    (auto simp: refused_def list_all_iff split: option.splits intro: live_in)

lemma scope_sort: "scope_ok c \<Longrightarrow> sok scope_ok (st_sort ks c)"
  unfolding st_sort_def Let_def
  by (intro sok_then) (auto simp: scope_ok_def dest!: live_cols_in dest: set_zip_leftD)

lemma scope_head: "scope_ok c \<Longrightarrow> sok scope_ok (st_head n c)"
  unfolding st_head_def by (intro sok_then) simp

lemma scope_dedup: "scope_ok c \<Longrightarrow> sok scope_ok (st_dedup names c)"
  unfolding st_dedup_def Let_def by (intro sok_then) simp

lemma scope_aggregated:
  assumes "names \<noteq> []" "\<And>c2. set_cols names c = Inr c2 \<Longrightarrow> T c2 \<subseteq> set names" "fst ` set ord \<subseteq> set names"
  shows "sok scope_ok (sbind (set_cols names c) (\<lambda>c2. let c3 = c2\<lparr>cc_time := T c2\<rparr> in
           Inr (aggregated ord (next_cte (body c3) c3))))"
  using assms by (auto intro!: sok_then simp: set_cols_Inr scope_ok_def aggregated_def Let_def)

lemma timed_by_names: "timed_by c names \<subseteq> set names"
  by (auto simp: timed_by_def)

lemma scope_stats: "as \<noteq> [] \<Longrightarrow> sok scope_ok (st_stats opts as by_names c)"
  unfolding st_stats_def
  by (rule emit_rule, clarify, rule scope_aggregated) (use timed_by_names in \<open>auto simp: set_cols_Inr\<close>)

lemma scope_timechart: "sok scope_ok (st_timechart opts as span b c)"
  unfolding st_timechart_def Let_def[of "case b of None \<Rightarrow> [] | Some n \<Rightarrow> [n]"]
  by (rule emit_rule, rule scope_aggregated) auto

lemma scope_top: "sok scope_ok (st_top f n rare by_names c)"
  unfolding st_top_def
  by (rule emit_rule, clarify, rule scope_aggregated) (use timed_by_names in \<open>fastforce simp: set_cols_Inr\<close>)+

lemma relabel_carried:
  "n \<in> set cols \<Longrightarrow> set cols \<inter> P = {} \<Longrightarrow> set (map snd m) \<inter> P = {} \<Longrightarrow> relabel m n \<notin> P"
  by (fastforce simp: relabel_def dict_get_def split: option.splits dest: map_of_SomeD)

lemma scope_rename:
  assumes "scope_ok c"
  shows "sok scope_ok (st_rename pairs c)"
  unfolding st_rename_def Let_def
proof (intro sok_then)
  fix m proj c3 u
  let ?c = "next_cte (''SELECT '' @ join '', '' proj @ passthru c @ '' FROM '' @ cc_cur c) c"
  assume carried: "reject_carried c (map snd m) = Inr u"
    and named: "set_cols (map (relabel m) (cc_cols (?c\<lparr>cc_time := relabel m ` cc_time ?c\<rparr>)))
      (?c\<lparr>cc_time := relabel m ` cc_time ?c\<rparr>) = Inr c3"
  have "relabel m n \<notin> set passthrough_columns" if "cc_raw c" "n \<in> set (cc_cols c)" for n
    by (rule relabel_carried[OF that(2)]) (use assms carried that(1) in \<open>simp_all add: scope_ok_def del: set_map\<close>)
  then have "cc_raw c \<longrightarrow> relabel m ` set (cc_cols c) \<inter> set passthrough_columns = {}" by blast
  then show "sok scope_ok (Inr (reorder m c3))"
    using named assms by (auto simp: set_cols_Inr scope_ok_def reorder_def)
qed

lemma scope_step: "wf_stage s \<Longrightarrow> scope_ok c \<Longrightarrow> sok scope_ok (stage_step opts s c)"
  by (cases s)
    (auto simp: wf_stage_def st_search_def scope_select_where scope_eval scope_fields scope_rename
      scope_sort scope_head scope_dedup scope_stats scope_top scope_bin scope_timechart split: option.split)

lemma scope_steps: "list_all wf_stage ss \<Longrightarrow> scope_ok c \<Longrightarrow> sok scope_ok (stage_steps opts ss c)"
  by (induction ss arbitrary: c) (auto intro!: sok_bind[OF scope_step])

lemma scope_new: "scope_ok (new_comp\<lparr>cc_model := m\<rparr>)"
  by (simp add: scope_ok_def new_comp_def base_cols_def passthrough_columns_def)

lemma scope_sourced: "scope_ok (sourced opts s w c) = scope_ok c"
  by (simp add: sourced_def scope_ok_def Let_def)

lemma scope_cim_select:
  assumes "scope_ok c" "cc_order c = []"
  shows "sok (\<lambda>(_, c'). scope_ok c' \<and> cc_cols c' =
    (let named = identity_columns @ map f_name (m_fields m) in named @ add_passthrough named cim_passthrough_columns))
    (cim_select m c)"
  unfolding cim_select_def Let_def
  by (intro sok_then) (auto simp: set_cols_Inr scope_ok_def assms identity_columns_def)

lemma scope_source: "sok scope_ok (source_cte opts pred m new_comp)"
proof (cases m)
  case None
  then show ?thesis
    using scope_new by (auto simp: source_cte_def Let_def scope_sourced split: option.split intro!: emit_rule)
next
  case (Some name)
  have order: "cc_order (new_comp\<lparr>cc_model := x\<rparr>) = []" for x by (simp add: new_comp_def)
  show ?thesis
    unfolding source_cte_def Some option.case
    by (rule sok_then, rule sok_bind[OF scope_cim_select[OF scope_new order]])
      (auto simp: Let_def scope_sourced scope_new split: option.split intro!: scope_select_where)
qed

text \<open>The compiler object at the end of the last stage.\<close>

definition compile_state :: "copts \<Rightarrow> stage list \<Rightarrow> loql_error + comp" where
  "compile_state opts q =
     (case q of
        Search pred m # stages \<Rightarrow> sbind (source_cte opts pred m new_comp) (stage_steps opts stages)
      | _ \<Rightarrow> refused)"

lemma compile_finish: "compile_parsed opts q = sbind (compile_state opts q) (finish_query opts)"
  by (auto simp: compile_parsed_def compile_state_def sbind_def refused_def split: list.split stage.split sum.split)

lemma compile_state_scope: "wf_query q \<Longrightarrow> sok scope_ok (compile_state opts q)"
  by (auto simp: wf_query_def compile_state_def split: list.splits stage.splits
      intro!: sok_bind[OF scope_source] scope_steps)

lemma compile_state_balanced: "where_ok opts \<Longrightarrow> sok (\<lambda>c. balanced c 0) (compile_state opts q)"
  by (auto simp: compile_state_def split: list.split stage.split
      intro!: sok_bind[OF source_balanced] stage_steps_balanced)

section \<open>Failures\<close>

definition quiet :: "loql_error + 'a \<Rightarrow> bool" where
  "quiet m \<longleftrightarrow> (case m of Inl e \<Rightarrow> e = LoqlError None | Inr _ \<Rightarrow> True)"

named_theorems quiet_rules "steps that fail only by the query error"

lemma quiet_Inr [simp]: "quiet (Inr a)"
  by (simp add: quiet_def)

lemma quiet_wret [simp]: "quiet (wret a)"
  by (simp add: quiet_def wret_def)

lemma quiet_bound [simp]: "quiet (bound s v)"
  by (simp add: quiet_def bound_def)

lemma quiet_refused [simp]: "quiet refused"
  by (simp add: quiet_def refused_def)

lemma quiet_check [simp]: "quiet (check b)"
  by (simp add: check_def)

lemma quiet_sbind [quiet_rules]: "quiet m \<Longrightarrow> (\<And>a. m = Inr a \<Longrightarrow> quiet (f a)) \<Longrightarrow> quiet (sbind m f)"
  by (cases m) (simp_all add: quiet_def)

lemma quiet_wbind [quiet_rules]: "quiet m \<Longrightarrow> (\<And>a. quiet (f a)) \<Longrightarrow> quiet (wbind m f)"
  unfolding wbind_def by (auto intro!: quiet_sbind)

lemma quiet_if [quiet_rules]: "(b \<Longrightarrow> quiet x) \<Longrightarrow> (\<not> b \<Longrightarrow> quiet y) \<Longrightarrow> quiet (if b then x else y)"
  by simp

lemma quiet_wmap [quiet_rules]: "(\<And>x. x \<in> set xs \<Longrightarrow> quiet (f x)) \<Longrightarrow> quiet (wmap f xs)"
  by (induction xs) (auto intro!: quiet_wbind)

lemma quiet_map_res [quiet_rules]: "(\<And>x. x \<in> set xs \<Longrightarrow> quiet (f x)) \<Longrightarrow> quiet (map_res f xs)"
  by (induction xs) (auto intro!: quiet_sbind)

lemma quiet_emit [quiet_rules]: "quiet m \<Longrightarrow> (\<And>t ps. m = Inr (t, ps) \<Longrightarrow> quiet (f t (c\<lparr>cc_params := cc_params c @ ps\<rparr>))) \<Longrightarrow> quiet (emit c m f)"
  unfolding emit_def by (auto intro!: quiet_sbind)

lemma quiet_wlift [quiet_rules]: "quiet m \<Longrightarrow> quiet (wlift m)"
  unfolding wlift_def by (auto intro!: quiet_sbind)

lemma quiet_names [simp]: "quiet (l_ident n)" "quiet (out_ident n)" "quiet (reject_carried c ns)" "quiet (set_cols ns c)"
    "quiet (reject_shadowed c n)" "quiet (drop_order ns c)"
  by (auto simp: l_ident_def out_ident_def reject_carried_def set_cols_def reject_shadowed_def drop_order_def
      intro!: quiet_sbind)

lemma quiet_order_by [simp]: "quiet (order_by c)"
  by (auto simp: order_by_def intro!: quiet_sbind quiet_map_res)

lemma quiet_resolve [simp]: "quiet (resolve c n)" "quiet (resolve_named c n)"
  by (auto simp: resolve_def resolve_named_def split: option.split intro!: quiet_sbind quiet_wlift)

text \<open>
  What may still raise: a string that names a relative time of more than 4300 digits, and \<open>round\<close> without
  an argument or with a second argument that is not an integer.
\<close>

definition round_ok :: "expr list \<Rightarrow> bool" where
  "round_ok es \<longleftrightarrow>
     es \<noteq> [] \<and> (length es = 2 \<longrightarrow> (case es ! 1 of Lit v _ \<Rightarrow> (case v of VInt _ \<Rightarrow> True | _ \<Rightarrow> False) | _ \<Rightarrow> True))"

fun calm :: "expr \<Rightarrow> bool" where
  "calm (Lit v k) = (case v of
     VStr s \<Rightarrow> (case relative_time (strip s) of None \<Rightarrow> True | Some (_, digits, _) \<Rightarrow> length digits \<le> max_str_digits)
   | _ \<Rightarrow> True)"
| "calm (Field n) = True"
| "calm (Unary op e) = calm e"
| "calm (Binary op l r) = (calm l \<and> calm r)"
| "calm (Func f es) = (list_all calm es \<and> (f = ''round'' \<longrightarrow> round_ok es))"
| "calm (InList e es) = (calm e \<and> list_all calm es)"

lemma quiet_time_literal:
  assumes "wf_expr e" "calm e"
  shows "quiet (time_literal e)"
proof (cases e)
  case (Lit v k)
  have short: "length digits \<le> max_str_digits"
    if "v = VStr s" "relative_time (strip s) = Some (sign, digits, u)" for s sign digits u
    using assms(2) Lit that by simp
  have "quiet (time_literal (Lit (VStr s) ''str''))" if "v = VStr s" for s
  proof (cases "relative_time (strip s)")
    case (Some x)
    obtain sign digits u where x: "x = (sign, digits, u)" by (cases x)
    have "quiet (int_of digits)" using short[OF that, of sign digits u] Some x by (simp add: int_of_def)
    then show ?thesis using Some x by (simp add: time_literal_def quiet_sbind)
  qed (simp add: time_literal_def)
  then show ?thesis
    using assms(1) Lit by (cases v) (auto simp: time_literal_def lit_ok_def)
qed (simp_all add: time_literal_def)

lemma quiet_operand [simp]: "quiet r \<Longrightarrow> quiet (num_of e r)" "quiet r \<Longrightarrow> quiet (numeric_of r)"
  by (auto simp: num_of_def numeric_of_def split: expr.split intro!: quiet_wbind)

lemma quiet_paren2 [quiet_rules]: "quiet a \<Longrightarrow> quiet b \<Longrightarrow> quiet (paren2 op a b)"
  by (auto simp: paren2_def intro!: quiet_wbind)

lemma quiet_equality:
  "wf_expr r \<Longrightarrow> calm r \<Longrightarrow> quiet rl \<Longrightarrow> quiet rr \<Longrightarrow> quiet (equality c neg l r rl rr)"
  unfolding equality_def Let_def
  by (intro quiet_if quiet_paren2) (auto split: option.split intro!: quiet_time_literal quiet_wbind quiet_paren2)

lemma quiet_binary:
  assumes "wf_expr l" "wf_expr r" "calm l" "calm r" "quiet rl" "quiet rr"
  shows "quiet (binary c op l r rl rr)"
  unfolding binary_def
  by (intro quiet_if quiet_paren2 quiet_wbind quiet_equality quiet_operand quiet_time_literal quiet_wret quiet_refused
      assms)

lemma arg_at_Inr: "i < length xs \<Longrightarrow> arg_at xs i = Inr (xs ! i)"
  by (simp add: arg_at_def)

lemma quiet_call:
  assumes call: "call_ok f es" and rs: "length rs = length es" "\<And>m. m \<in> set rs \<Longrightarrow> quiet m"
    and round: "f = ''round'' \<longrightarrow> round_ok es"
  shows "quiet (call opts c f es rs)"
proof -
  have at: "quiet (rs ! i)" if "i < length es" for i using rs that by simp
  have count: "length es = 3" if "f = ''__if__''" using call that by (auto simp: call_ok_def funcs_def)
  have null: "length es = 1" if "f = ''__isnull__'' \<or> f = ''__isnotnull__''"
    using call that by (auto simp: call_ok_def funcs_def)
  have one: "quiet (sbind (arg_at rs 0) (\<lambda>a. wbind a (\<lambda>x. wret (g x))))" if "f = ''__isnull__'' \<or> f = ''__isnotnull__''" for g
    using at[of 0] null[OF that] rs(1) by (auto simp: arg_at_Inr intro!: quiet_wbind)
  have fts: "quiet (case es of [] \<Rightarrow> Inl (Escaped IndexError)
               | Lit v _ # _ \<Rightarrow>
                   bound (''(search_tsv @@ plainto_tsquery('' @ [quote1] @ ''simple'' @ [quote1] @ '', %s))'') v
               | _ \<Rightarrow> Inl (Escaped AttributeError))" if "f = ''_fts''"
    using call that by (cases es rule: is_text_arg.cases) (auto simp: call_ok_def funcs_def)
  have ite: "quiet (sbind (arg_at rs 0) (\<lambda>a. wbind a (\<lambda>x. sbind (arg_at rs 1) (\<lambda>b. wbind b (\<lambda>y.
        sbind (arg_at rs 2) (\<lambda>d. wbind d (\<lambda>z. wret (g x y z))))))))" if "f = ''__if__''" for g
    using at[of 0] at[of 1] at[of 2] count[OF that] rs(1) by (auto simp: arg_at_Inr intro!: quiet_wbind)
  have digits: "quiet (round_digits t (es ! 1))" if "round_ok es" "length es = 2" for t
    using that by (auto simp: round_ok_def round_digits_def pv_int_def split: expr.splits pyval.splits)
  have rnd: "quiet (sbind (arg_at es 0) (\<lambda>e. sbind (arg_at rs 0) (\<lambda>a. wbind (num_of e a) (\<lambda>x.
          if length es = 2
          then sbind (round_digits (co_trunc opts) (es ! 1)) (\<lambda>i. bound (g x) (VInt i))
          else wret (h x)))))" if "f = ''round''" for g h
    using at[of 0] round that rs(1) digits
    by (auto simp: arg_at_Inr round_ok_def intro!: quiet_wbind quiet_sbind)
  have table: "quiet (case dict_get func_sql f of
              None \<Rightarrow> refused
            | Some sql \<Rightarrow> wbind (wseq rs) (\<lambda>as. wret (g sql as)))" for g
    using rs(2) by (auto simp: wseq_def split: option.split intro!: quiet_wbind quiet_wmap)
  show ?thesis
    unfolding call_def by (intro quiet_if quiet_refused fts ite one rnd table) simp_all
qed

lemma quiet_expr: "wf_expr e \<Longrightarrow> calm e \<Longrightarrow> quiet (c_expr opts c e)"
proof (induction e)
  case (Func f es)
  then show ?case by (auto simp: list_all_iff intro!: quiet_call)
next
  case (InList e es)
  then show ?case by (auto simp: list_all_iff wseq_def intro!: quiet_wbind quiet_wmap)
next
  case (Unary op e)
  then show ?case by (auto intro!: quiet_wbind)
next
  case (Binary op l r)
  then show ?case by (auto intro!: quiet_binary)
qed auto


definition short_span :: "string option \<Rightarrow> bool" where
  "short_span span = (case span of None \<Rightarrow> True | Some s \<Rightarrow> length s \<le> max_str_digits)"

definition calm_stage :: "stage \<Rightarrow> bool" where
  "calm_stage st =
     (case st of
        Search e _ \<Rightarrow> (case e of None \<Rightarrow> True | Some e \<Rightarrow> calm e)
      | Where e \<Rightarrow> calm e
      | Eval _ e \<Rightarrow> calm e
      | Bin _ span _ \<Rightarrow> short_span span
      | Timechart _ span _ \<Rightarrow> short_span span
      | _ \<Rightarrow> True)"

lemma quiet_add_column [simp]: "quiet (add_column n t c)"
  unfolding add_column_def by (intro quiet_sbind quiet_if quiet_map_res quiet_names quiet_Inr)

lemma quiet_select_where: "wf_expr e \<Longrightarrow> calm e \<Longrightarrow> quiet (select_where opts e c)"
  by (auto simp: select_where_def intro!: quiet_emit quiet_expr)

lemma quiet_eval: "wf_expr e \<Longrightarrow> calm e \<Longrightarrow> quiet (st_eval opts n e c)"
  by (auto simp: st_eval_def intro!: quiet_emit quiet_expr quiet_sbind)

lemma quiet_fields: "quiet (st_fields ns b c)"
  unfolding st_fields_def Let_def
  by (intro quiet_sbind quiet_map_res quiet_emit quiet_wmap quiet_check quiet_names quiet_resolve)

lemma quiet_rename: "quiet (st_rename ps c)"
proof -
  have "quiet (rename_map c ps m)" for m
    by (induction c ps m rule: rename_map.induct) (auto split: option.split intro!: quiet_sbind)
  then show ?thesis
    unfolding st_rename_def Let_def
    by (intro quiet_sbind quiet_map_res) (auto split: option.split intro!: quiet_sbind)
qed

lemma quiet_live_cols [simp]: "quiet (live_cols c ns)"
  unfolding live_cols_def by (auto split: option.split intro!: quiet_map_res)

lemma quiet_sorting [simp]: "quiet (st_sort ks c)" "quiet (st_head n c)" "quiet (st_dedup ns c)"
  unfolding st_sort_def st_head_def st_dedup_def Let_def
  by (intro quiet_sbind quiet_live_cols quiet_order_by quiet_if quiet_map_res quiet_names quiet_Inr)+

lemma quiet_agg: "wf_agg a \<Longrightarrow> quiet (agg_sql opts c a)"
proof -
  assume "wf_agg a"
  then have "ag_func a \<in> {''count'', ''sum'', ''avg'', ''min'', ''max'', ''dc'', ''values'', ''list''}"
    by (auto simp: wf_agg_def agg_funcs_def)
  moreover have "quiet (agg_field c arg)" for arg by (simp add: agg_field_def split: option.split)
  ultimately show ?thesis
    unfolding agg_sql_def Let_def
    by (intro quiet_if quiet_wbind quiet_wret)
      (auto simp: agg_names_def dict_get_def split: option.split intro!: quiet_wbind)
qed

lemma quiet_items [simp]: "list_all wf_agg as \<Longrightarrow> quiet (agg_items opts c as)" "quiet (key_items c names)"
  unfolding agg_items_def key_items_def labelled_def list_all_iff
  by (intro quiet_wmap quiet_wbind quiet_wlift quiet_agg quiet_names quiet_resolve quiet_wret; blast)+

lemma quiet_bucket [simp]: "short_span span \<Longrightarrow> quiet (bucket c span)"
proof -
  assume "short_span span"
  then have "quiet (interval span)"
    unfolding interval_def Let_def
    by (intro quiet_if quiet_sbind) (auto simp: short_span_def int_of_def max_str_digits_def split: option.splits if_splits)
  then show ?thesis
    unfolding bucket_def by (auto split: option.split intro!: quiet_wbind quiet_wlift)
qed

lemma quiet_stats: "list_all wf_agg as \<Longrightarrow> quiet (st_stats opts as by_names c)"
  unfolding st_stats_def Let_def
  by (intro quiet_emit quiet_wbind quiet_items quiet_wmap quiet_resolve quiet_wret)
    (auto intro!: quiet_sbind)

lemma quiet_timechart: "list_all wf_agg as \<Longrightarrow> short_span span \<Longrightarrow> quiet (st_timechart opts as span b c)"
  unfolding st_timechart_def Let_def labelled_def
  by (intro quiet_emit quiet_wbind quiet_items quiet_wlift quiet_names quiet_bucket quiet_wret)
    (auto intro!: quiet_sbind)

lemma quiet_bin: "short_span span \<Longrightarrow> quiet (st_bin f span out c)"
  unfolding st_bin_def Let_def
  by (intro quiet_sbind quiet_check quiet_emit quiet_bucket quiet_add_column quiet_Inr)

lemma quiet_top: "quiet (st_top f n rare by_names c)"
  unfolding st_top_def Let_def
  by (intro quiet_emit quiet_wbind quiet_items quiet_wlift quiet_names quiet_wmap quiet_resolve quiet_wret)
    (auto intro!: quiet_sbind)

lemma quiet_step: "wf_stage s \<Longrightarrow> calm_stage s \<Longrightarrow> quiet (stage_step opts s c)"
  by (cases s)
    (auto simp: wf_stage_def calm_stage_def st_search_def quiet_select_where quiet_eval quiet_fields quiet_rename
      quiet_stats quiet_top quiet_bin quiet_timechart split: option.splits)

lemma quiet_steps: "list_all wf_stage ss \<Longrightarrow> list_all calm_stage ss \<Longrightarrow> quiet (stage_steps opts ss c)"
  by (induction ss arbitrary: c) (auto intro!: quiet_sbind quiet_step)

lemma quiet_source:
  assumes "case pred of None \<Rightarrow> True | Some e \<Rightarrow> wf_expr e \<and> calm e"
  shows "quiet (source_cte opts pred m c)"
proof -
  have "quiet (cim_model_named opts n)" for n
    by (auto simp: cim_model_named_def split: sum.split option.split)
  moreover have "quiet (cim_select x c)" for x c
    unfolding cim_select_def Let_def
    by (intro quiet_sbind quiet_map_res quiet_names) (auto simp: model_item_def split: sum.split intro!: quiet_sbind)
  ultimately show ?thesis
    unfolding source_cte_def
    using assms
    by (auto simp: Let_def split: option.splits intro!: quiet_sbind quiet_emit quiet_expr quiet_select_where)
qed

lemma quiet_finish: "quiet (finish_query opts c)"
  unfolding finish_query_def by (intro quiet_sbind quiet_map_res quiet_if quiet_names quiet_order_by quiet_Inr)

lemma compile_quiet:
  assumes "wf_query q" "list_all calm_stage q"
  shows "quiet (compile_parsed opts q)"
  using assms
  by (auto simp: compile_parsed_def wf_query_def calm_stage_def split: list.splits stage.splits option.splits
      intro!: quiet_sbind quiet_source quiet_steps quiet_finish)

end
