(* ===== verification/LoqlInject.thy ===== *)
theory LoqlInject
  imports LoqlScope
begin

text \<open>
  What of a query becomes text of the statement. Two queries of the same shape, which differ only in the numbers
  and strings they compare with, compile to the same text and differ only in what is bound to it. Two things
  about a string do matter: whether it is a glob, which makes an \<open>ILIKE\<close>, and, where a time is expected, which
  relative time it names (\<open>-24h\<close>, \<open>now\<close>), because that becomes an interval of the statement, written from a
  sign, a number and a unit. \<open>like_value\<close> asks of two strings that they agree on both, and on nothing else.
\<close>

section \<open>Queries of the same shape\<close>

text \<open>The relative time that a string names, if it names one: the present, or a sign, a number and a unit.\<close>

definition time_form :: "string \<Rightarrow> bool \<times> (string \<times> (loql_error + int) \<times> char) option" where
  "time_form s =
     (lower (strip s) = ''now'', map_option (\<lambda>(sign, digits, u). (sign, int_of digits, u)) (relative_time (strip s)))"

definition like_value :: "string \<Rightarrow> pyval \<Rightarrow> pyval \<Rightarrow> bool" where
  "like_value k v w \<longleftrightarrow>
     v = w \<or> k = ''num'' \<or>
     (k = ''str'' \<and> (case v of VStr s \<Rightarrow> (case w of VStr t \<Rightarrow>
        time_form s = time_form t \<and> (glob_pattern s = None) = (glob_pattern t = None) | _ \<Rightarrow> False) | _ \<Rightarrow> False))"

fun like :: "expr \<Rightarrow> expr \<Rightarrow> bool" where
  "like (Lit v k) (Lit w k') = (k = k' \<and> like_value k v w)"
| "like (Field n) (Field n') = (n = n')"
| "like (Unary op e) (Unary op' e') = (op = op' \<and> like e e')"
| "like (Binary op l r) (Binary op' l' r') = (op = op' \<and> like l l' \<and> like r r')"
| "like (Func f es) (Func f' es') = (f = f' \<and> list_all2 like es es')"
| "like (InList e es) (InList e' es') = (like e e' \<and> list_all2 like es es')"
| "like _ _ = False"

fun like_stage :: "stage \<Rightarrow> stage \<Rightarrow> bool" where
  "like_stage (Search e m) (Search e' m') = (m = m' \<and> rel_option like e e')"
| "like_stage (Where e) (Where e') = like e e'"
| "like_stage (Eval n e) (Eval n' e') = (n = n' \<and> like e e')"
| "like_stage s s' = (s = s')"

section \<open>Computations that agree\<close>

definition agree :: "('a \<Rightarrow> 'b \<Rightarrow> bool) \<Rightarrow> 'e + 'a \<Rightarrow> 'f + 'b \<Rightarrow> bool" where
  "agree R m m' \<longleftrightarrow> (case m of Inl _ \<Rightarrow> True | Inr a \<Rightarrow> (case m' of Inl _ \<Rightarrow> True | Inr b \<Rightarrow> R a b))"

definition same_text :: "'a emitted \<Rightarrow> 'a emitted \<Rightarrow> bool" where
  "same_text = agree (\<lambda>(t, _) (t', _). t = t')"

lemma agree_simps [simp]:
  "agree R (Inl e) m'" "agree R m (Inl e')" "agree R (Inr a) (Inr b) = R a b" "agree R refused m'" "agree R m refused"
  by (auto simp: agree_def refused_def split: sum.split)

lemma agree_sbind:
  "agree R m m' \<Longrightarrow> (\<And>a b. m = Inr a \<Longrightarrow> m' = Inr b \<Longrightarrow> R a b \<Longrightarrow> agree Q (f a) (f' b)) \<Longrightarrow> agree Q (sbind m f) (sbind m' f')"
  by (cases m; cases m') auto

lemma agree_same: "(\<And>a. m = Inr a \<Longrightarrow> agree Q (f a) (f' a)) \<Longrightarrow> agree Q (sbind m f) (sbind m f')"
  by (cases m) auto

lemma agree_if: "(b \<Longrightarrow> agree R x x') \<Longrightarrow> (\<not> b \<Longrightarrow> agree R y y') \<Longrightarrow> agree R (if b then x else y) (if b then x' else y')"
  by simp

lemma same_text_refl [simp]: "same_text m m"
  by (auto simp: same_text_def agree_def split: sum.split)

lemma same_text_bound [simp]: "same_text (bound s v) (bound s' w) = (s = s')"
  by (simp add: same_text_def bound_def)

lemma same_text_Inl [simp]: "same_text (Inl e) m" "same_text m (Inl e)" "same_text refused m" "same_text m refused"
  by (simp_all add: same_text_def)

lemma same_text_wbind:
  assumes "same_text m m'" "\<And>t. same_text (f t) (f' t)"
  shows "same_text (wbind m f) (wbind m' f')"
proof (cases "\<exists>t ps qs. m = Inr (t, ps) \<and> m' = Inr (t, qs)")
  case True
  then obtain t ps qs where m: "m = Inr (t, ps)" "m' = Inr (t, qs)" by blast
  show ?thesis
    using assms(2)[of t] m by (cases "f t"; cases "f' t") (auto simp: wbind_def same_text_def)
next
  case False
  then show ?thesis
    using assms(1) by (cases m; cases m') (auto simp: wbind_def same_text_def)
qed

lemma same_text_wmap: "list_all2 same_text (map f xs) (map f' ys) \<Longrightarrow> same_text (wmap f xs) (wmap f' ys)"
proof (induction xs arbitrary: ys)
  case (Cons x xs)
  then obtain y zs where "ys = y # zs" "same_text (f x) (f' y)" "list_all2 same_text (map f xs) (map f' zs)"
    by (auto simp: list_all2_Cons1)
  then show ?case using Cons.IH by (auto intro!: same_text_wbind)
qed simp

lemma same_text_sbind: "(\<And>a b. m = Inr a \<Longrightarrow> m' = Inr b \<Longrightarrow> same_text (f a) (f' b)) \<Longrightarrow> same_text (sbind m f) (sbind m' f')"
  by (cases m; cases m') auto

lemma same_text_if: "(b \<Longrightarrow> same_text x x') \<Longrightarrow> (\<not> b \<Longrightarrow> same_text y y') \<Longrightarrow> same_text (if b then x else y) (if b then x' else y')"
  by simp

section \<open>Expressions\<close>

lemma like_time [simp]: "like e e' \<Longrightarrow> is_time c e' = is_time c e"
  by (cases e; cases e') (auto simp: is_time_def)

lemma like_glob: "like e e' \<Longrightarrow> (glob_of e = None) = (glob_of e' = None)"
  by (cases e; cases e') (auto simp: glob_of_def like_value_def split: pyval.splits)

lemma like_time_literal: "like e e' \<Longrightarrow> same_text (time_literal e) (time_literal e')"
proof (cases e; cases e')
  fix v k w k'
  assume l: "like e e'" and e: "e = Lit v k" "e' = Lit w k'"
  then have k: "k' = k" and v: "like_value k v w" by auto
  show ?thesis
  proof (cases "v = w \<or> k = ''num''")
    case True
    then show ?thesis using e k by (auto simp: time_literal_def)
  next
    case False
    then obtain x y where s: "k = ''str''" "v = VStr x" "w = VStr y" and t: "time_form x = time_form y"
      using v by (auto simp: like_value_def split: pyval.splits)
    then show ?thesis using e k
      by (cases "relative_time (strip x)"; cases "relative_time (strip y)")
        (auto simp: time_literal_def time_form_def)
  qed
qed (simp_all add: time_literal_def)

lemma like_num_of: "like e e' \<Longrightarrow> same_text r r' \<Longrightarrow> same_text (num_of e r) (num_of e' r')"
  by (cases e; cases e') (auto simp: num_of_def intro!: same_text_wbind)

lemma same_text_numeric: "same_text r r' \<Longrightarrow> same_text (numeric_of r) (numeric_of r')"
  by (auto simp: numeric_of_def intro!: same_text_wbind)

lemma same_text_paren2: "same_text a a' \<Longrightarrow> same_text b b' \<Longrightarrow> same_text (paren2 op a b) (paren2 op a' b')"
  by (auto simp: paren2_def intro!: same_text_wbind)

lemma same_text_equality:
  assumes "like l l'" "like r r'" "same_text rl rl'" "same_text rr rr'"
  shows "same_text (equality c neg l r rl rr) (equality c neg l' r' rl' rr')"
  using like_glob[OF assms(1)] like_glob[OF assms(2)] assms
  unfolding equality_def Let_def like_time[OF assms(1)]
  by (intro same_text_if)
    (auto split: option.split intro!: same_text_wbind same_text_paren2 like_time_literal)

lemma same_text_binary:
  assumes "like l l'" "like r r'" "same_text rl rl'" "same_text rr rr'"
  shows "same_text (binary c op l r rl rr) (binary c op l' r' rl' rr')"
  unfolding binary_def like_time[OF assms(1)] like_time[OF assms(2)]
  by (intro same_text_if same_text_paren2 same_text_wbind same_text_equality same_text_numeric like_num_of
      like_time_literal same_text_refl assms)

lemma same_text_at:
  "list_all2 same_text rs rs' \<Longrightarrow> arg_at rs i = Inr a \<Longrightarrow> arg_at rs' i = Inr b \<Longrightarrow> same_text a b"
  by (auto simp: arg_at_def list_all2_conv_all_nth split: if_splits)

lemma like_at: "list_all2 like es es' \<Longrightarrow> arg_at es i = Inr a \<Longrightarrow> arg_at es' i = Inr b \<Longrightarrow> like a b"
  by (auto simp: arg_at_def list_all2_conv_all_nth split: if_splits)

lemma same_text_args: "list_all2 same_text rs rs' \<Longrightarrow> same_text (wseq rs) (wseq rs')"
  unfolding wseq_def by (rule same_text_wmap) simp

lemma same_text_call:
  assumes "list_all2 like es es'" "list_all2 same_text rs rs'"
  shows "same_text (call opts c f es rs) (call opts c f es' rs')"
proof -
  have len: "length es' = length es" using assms(1) by (simp add: list_all2_lengthD)
  have fts: "same_text
     (case es of [] \<Rightarrow> Inl (Escaped IndexError) | Lit v _ # _ \<Rightarrow> bound t v | _ \<Rightarrow> Inl (Escaped AttributeError))
     (case es' of [] \<Rightarrow> Inl (Escaped IndexError) | Lit v _ # _ \<Rightarrow> bound t v | _ \<Rightarrow> Inl (Escaped AttributeError))" for t
    using assms(1) by (auto simp: list_all2_Cons1 split: list.split expr.split)
  have table: "same_text
     (case dict_get func_sql f of None \<Rightarrow> refused | Some sql \<Rightarrow> wbind (wseq rs) (\<lambda>as. wret (g sql as)))
     (case dict_get func_sql f of None \<Rightarrow> refused | Some sql \<Rightarrow> wbind (wseq rs') (\<lambda>as. wret (g sql as)))" for g
    by (auto split: option.split intro!: same_text_wbind same_text_args[OF assms(2)])
  have arg: "same_text (sbind (arg_at rs i) g) (sbind (arg_at rs' i) g')"
    if "\<And>a b. same_text a b \<Longrightarrow> same_text (g a) (g' b)" for i g g'
    by (rule same_text_sbind) (blast intro: that same_text_at[OF assms(2)])
  have one: "same_text (sbind (arg_at rs i) (\<lambda>a. wbind a g)) (sbind (arg_at rs' i) (\<lambda>a. wbind a g'))"
    if "\<And>x. same_text (g x) (g' x)" for i g g'
    by (rule arg, rule same_text_wbind) (assumption, rule that)
  have ite: "same_text (sbind (arg_at rs 0) (\<lambda>a. wbind a (\<lambda>x. sbind (arg_at rs 1) (\<lambda>b. wbind b (\<lambda>y.
        sbind (arg_at rs 2) (\<lambda>d. wbind d (\<lambda>z. wret (g x y z))))))))
      (sbind (arg_at rs' 0) (\<lambda>a. wbind a (\<lambda>x. sbind (arg_at rs' 1) (\<lambda>b. wbind b (\<lambda>y.
        sbind (arg_at rs' 2) (\<lambda>d. wbind d (\<lambda>z. wret (g x y z))))))))" for g
    by (intro one same_text_refl)
  have digits: "same_text (if n = 2 then sbind (round_digits t e) (\<lambda>i. bound g (VInt i)) else wret h)
      (if n = 2 then sbind (round_digits t e') (\<lambda>i. bound g (VInt i)) else wret h)" for n :: nat and t e e' g h
    by (auto intro!: same_text_sbind)
  have rnd: "same_text (sbind (arg_at es 0) (\<lambda>e. sbind (arg_at rs 0) (\<lambda>a. wbind (num_of e a) (\<lambda>x.
          if length es = 2 then sbind (round_digits t (es ! 1)) (\<lambda>i. bound (g x) (VInt i)) else wret (h x)))))
      (sbind (arg_at es' 0) (\<lambda>e. sbind (arg_at rs' 0) (\<lambda>a. wbind (num_of e a) (\<lambda>x.
          if length es = 2 then sbind (round_digits t (es' ! 1)) (\<lambda>i. bound (g x) (VInt i)) else wret (h x)))))" for t g h
    by (rule same_text_sbind, rule arg, rule same_text_wbind, rule like_num_of, rule like_at[OF assms(1)])
      (assumption+, rule digits)
  show ?thesis
    unfolding call_def len
    by (intro same_text_if fts table ite one rnd same_text_refl)
qed

lemma same_text_expr: "like e e' \<Longrightarrow> same_text (c_expr opts c e) (c_expr opts c e')"
proof (induction e e' rule: like.induct)
  case (1 v k w k')
  then show ?case by (auto simp: like_value_def split: pyval.splits)
next
  case (3 op e op' e')
  then show ?case by (auto intro!: same_text_wbind like_num_of)
next
  case (4 op l r op' l' r')
  then show ?case by (auto intro!: same_text_binary)
next
  case (5 f es f' es')
  then have "list_all2 same_text (map (c_expr opts c) es) (map (c_expr opts c) es')"
    by (auto simp: list_all2_conv_all_nth)
  then show ?case using 5 by (auto intro!: same_text_call)
next
  case (6 e es e' es')
  then have "list_all2 same_text (map (c_expr opts c) es) (map (c_expr opts c) es')"
    by (auto simp: list_all2_conv_all_nth)
  then show ?case using 6 by (auto intro!: same_text_wbind same_text_args)
qed auto

section \<open>Stages\<close>

text \<open>Two compiler objects that differ in their parameters only, and what does not read them.\<close>

definition twin :: "comp \<Rightarrow> comp \<Rightarrow> bool" where
  "twin c c' \<longleftrightarrow>
     cc_cols c' = cc_cols c \<and> cc_raw c' = cc_raw c \<and> cc_order c' = cc_order c \<and> cc_named c' = cc_named c \<and>
     cc_time c' = cc_time c \<and> cc_cur c' = cc_cur c \<and> cc_model c' = cc_model c \<and> cc_ctes c' = cc_ctes c"

named_theorems paramless "functions of the compiler object that do not read its parameters"

lemma paramless_fields [paramless]:
  "cc_cols (c\<lparr>cc_params := p\<rparr>) = cc_cols c" "cc_raw (c\<lparr>cc_params := p\<rparr>) = cc_raw c"
  "cc_order (c\<lparr>cc_params := p\<rparr>) = cc_order c" "cc_cur (c\<lparr>cc_params := p\<rparr>) = cc_cur c"
  by simp_all

lemma paramless_basic [paramless]:
  "passthru (c\<lparr>cc_params := p\<rparr>) = passthru c" "reject_carried (c\<lparr>cc_params := p\<rparr>) = reject_carried c"
  "live (c\<lparr>cc_params := p\<rparr>) = live c" "order_by (c\<lparr>cc_params := p\<rparr>) = order_by c"
  "reject_shadowed (c\<lparr>cc_params := p\<rparr>) = reject_shadowed c"
  by (simp_all add: fun_eq_iff passthru_def reject_carried_def live_def order_by_def reject_shadowed_def
      split: option.split)

lemma paramless_names [paramless]:
  "timed (c\<lparr>cc_params := p\<rparr>) = timed c" "resolve (c\<lparr>cc_params := p\<rparr>) = resolve c"
  "resolve_named (c\<lparr>cc_params := p\<rparr>) = resolve_named c" "live_or (c\<lparr>cc_params := p\<rparr>) = live_or c"
  "live_cols (c\<lparr>cc_params := p\<rparr>) = live_cols c"
  by (simp_all add: fun_eq_iff timed_def resolve_def resolve_named_def live_or_def live_cols_def paramless_basic
      split: option.split)

lemma paramless_time [paramless]:
  "time_col (c\<lparr>cc_params := p\<rparr>) = time_col c" "timed_by (c\<lparr>cc_params := p\<rparr>) = timed_by c"
  "is_time (c\<lparr>cc_params := p\<rparr>) = is_time c"
  by (simp_all add: fun_eq_iff time_col_def timed_by_def is_time_def paramless_basic paramless_names split: expr.split)

lemma paramless_expr_parts [paramless]:
  "equality (c\<lparr>cc_params := p\<rparr>) = equality c" "call opts (c\<lparr>cc_params := p\<rparr>) = call opts c"
  by (intro ext, simp add: equality_def paramless_time cong: if_cong option.case_cong)
    (intro ext, simp add: call_def)

lemma paramless_expr [paramless]: "c_expr opts (c\<lparr>cc_params := p\<rparr>) = c_expr opts c"
proof
  show "c_expr opts (c\<lparr>cc_params := p\<rparr>) e = c_expr opts c e" for e
    by (induction e)
      (simp_all add: paramless_names paramless_expr_parts binary_def paramless_time cong: map_cong)
qed

lemma paramless_agg [paramless]:
  "agg_items opts (c\<lparr>cc_params := p\<rparr>) = agg_items opts c" "key_items (c\<lparr>cc_params := p\<rparr>) = key_items c"
  "bucket (c\<lparr>cc_params := p\<rparr>) = bucket c"
proof -
  have "agg_field (c\<lparr>cc_params := p\<rparr>) = agg_field c"
    by (auto simp: agg_field_def paramless_names intro!: ext split: option.split)
  then show "agg_items opts (c\<lparr>cc_params := p\<rparr>) = agg_items opts c"
    by (auto simp: agg_items_def agg_sql_def intro!: ext)
qed (auto simp: key_items_def bucket_def paramless intro!: ext split: option.split)


lemma twinE: "twin c c' \<Longrightarrow> (\<And>p. c' = c\<lparr>cc_params := p\<rparr> \<Longrightarrow> thesis) \<Longrightarrow> thesis"
  by (cases c; cases c') (auto simp: twin_def)

lemma twin_params [simp]: "twin (c\<lparr>cc_params := p\<rparr>) (c\<lparr>cc_params := q\<rparr>)" "twin c (c\<lparr>cc_params := q\<rparr>)"
  by (simp_all add: twin_def)

lemma twin_update:
  "twin c c' \<Longrightarrow> twin (next_cte b c) (next_cte b c')" "twin c c' \<Longrightarrow> twin (c\<lparr>cc_time := t\<rparr>) (c'\<lparr>cc_time := t\<rparr>)"
  "twin c c' \<Longrightarrow> twin (aggregated ord c) (aggregated ord c')" "twin c c' \<Longrightarrow> twin (reorder m c) (reorder m c')"
  by (auto simp: next_cte_def aggregated_def reorder_def Let_def twin_def)

lemma twin_set_cols: "twin c c' \<Longrightarrow> agree twin (set_cols ns c) (set_cols ns c')"
  by (auto simp: set_cols_def check_def twin_def refused_def)

lemma twin_drop_order: "twin c c' \<Longrightarrow> agree twin (drop_order ns c) (drop_order ns c')"
  by (simp add: drop_order_def twin_def)

lemma twin_add_column: "twin c c' \<Longrightarrow> agree twin (add_column n t c) (add_column n t c')"
proof (elim twinE)
  fix p
  assume c': "c' = c\<lparr>cc_params := p\<rparr>"
  show ?thesis
    unfolding add_column_def c' paramless
    by (intro agree_same) (simp add: agree_same twin_def next_cte_def Let_def)
qed

lemma agree_emit:
  assumes "same_text m m'"
    and "\<And>t p q. agree R (f t (c\<lparr>cc_params := p\<rparr>)) (f' t (c\<lparr>cc_params := q\<rparr>))"
  shows "agree R (emit c m f) (emit (c\<lparr>cc_params := r\<rparr>) m' f')"
  using assms by (cases m; cases m') (auto simp: emit_def same_text_def)

lemma twin_select_where:
  "like e e' \<Longrightarrow> agree twin (select_where opts e c) (select_where opts e' (c\<lparr>cc_params := r\<rparr>))"
  unfolding select_where_def paramless
  by (rule agree_emit, erule same_text_expr) (simp add: twin_update)

lemma twin_eval:
  "like e e' \<Longrightarrow> agree twin (st_eval opts n e c) (st_eval opts n e' (c\<lparr>cc_params := r\<rparr>))"
  unfolding st_eval_def paramless
  by (rule agree_emit, erule same_text_expr, rule agree_sbind, rule twin_add_column)
    (auto simp: twin_def)

text \<open>A projection of the columns the stage leaves, and the same projection of the other object.\<close>

lemma twin_select:
  assumes "\<And>c c'. twin c c' \<Longrightarrow> twin (F c) (F c')"
  shows "agree twin (sbind (set_cols ns (c\<lparr>cc_params := p\<rparr>)) (\<lambda>c2. Inr (F c2)))
     (sbind (set_cols ns (c\<lparr>cc_params := q\<rparr>)) (\<lambda>c2. Inr (F c2)))"
  by (rule agree_sbind[OF twin_set_cols]) (simp_all add: assms)

lemma twin_fields: "agree twin (st_fields ns b c) (st_fields ns b (c\<lparr>cc_params := r\<rparr>))"
  unfolding st_fields_def Let_def paramless
proof (intro agree_same agree_sbind[OF twin_drop_order], simp, erule twinE, simp only: paramless)
  fix c1 d p
  show "agree twin
      (emit c1 (wmap (resolve_named c1) keep) (\<lambda>proj c2. set_cols keep
         (next_cte (''SELECT '' @ join '', '' proj @ passthru c2 @ '' FROM '' @ cc_cur c2) c2)))
      (emit (c1\<lparr>cc_params := p\<rparr>) (wmap (resolve_named c1) keep) (\<lambda>proj c2. set_cols keep
         (next_cte (''SELECT '' @ join '', '' proj @ passthru c2 @ '' FROM '' @ cc_cur c2) c2)))" for keep
    by (rule agree_emit, simp, rule twin_set_cols)
      (simp add: twin_def next_cte_def Let_def paramless)
qed

lemma twin_rename: "agree twin (st_rename ps c) (st_rename ps (c\<lparr>cc_params := r\<rparr>))"
proof -
  have same: "rename_map (c\<lparr>cc_params := r\<rparr>) ps m = rename_map c ps m" for m
    by (induction c ps m rule: rename_map.induct) (auto simp: paramless sbind_def split: option.split sum.split)
  show ?thesis
    unfolding st_rename_def Let_def paramless same
    by (intro agree_same, simp, rule agree_sbind[OF twin_set_cols]) (auto simp: next_cte_def Let_def twin_def reorder_def)
qed

lemma twin_sort: "agree twin (st_sort ks c) (st_sort ks (c\<lparr>cc_params := r\<rparr>))"
proof -
  have push: "(c\<lparr>cc_params := r\<rparr>)\<lparr>cc_order := ord, cc_named := True\<rparr> = (c\<lparr>cc_order := ord, cc_named := True\<rparr>)\<lparr>cc_params := r\<rparr>" for ord
    by simp
  show ?thesis
    unfolding st_sort_def Let_def push paramless by (intro agree_same) (simp add: next_cte_def Let_def twin_def)
qed

lemma twin_head: "agree twin (st_head n c) (st_head n (c\<lparr>cc_params := r\<rparr>))"
  "agree twin (st_dedup ns c) (st_dedup ns (c\<lparr>cc_params := r\<rparr>))"
  unfolding st_head_def st_dedup_def Let_def paramless
  by (intro agree_same, simp add: next_cte_def Let_def twin_def)+

lemma twin_stats: "agree twin (st_stats opts as ns c) (st_stats opts as ns (c\<lparr>cc_params := r\<rparr>))"
  unfolding st_stats_def Let_def paramless
  by (rule agree_emit, simp, clarify, rule twin_select) (simp add: twin_def next_cte_def Let_def aggregated_def)

lemma twin_timechart: "agree twin (st_timechart opts as span b c) (st_timechart opts as span b (c\<lparr>cc_params := r\<rparr>))"
  unfolding st_timechart_def Let_def paramless
  by (rule agree_emit, simp, rule twin_select) (simp add: twin_def next_cte_def Let_def aggregated_def)

lemma twin_top: "agree twin (st_top f n rare ns c) (st_top f n rare ns (c\<lparr>cc_params := r\<rparr>))"
  unfolding st_top_def Let_def paramless
  by (rule agree_emit, simp, clarify, rule twin_select) (simp add: twin_def next_cte_def Let_def aggregated_def)

lemma twin_bin: "agree twin (st_bin f span out c) (st_bin f span out (c\<lparr>cc_params := r\<rparr>))"
  unfolding st_bin_def Let_def paramless
  by (rule agree_same, rule agree_emit, simp, rule agree_sbind, rule twin_add_column) (auto simp: twin_def)

lemma twin_step:
  assumes "like_stage s s'" "twin c c'"
  shows "agree twin (stage_step opts s c) (stage_step opts s' c')"
proof -
  obtain p where p: "c' = c\<lparr>cc_params := p\<rparr>" using assms(2) by (rule twinE)
  have self: "agree twin (stage_step opts s c) (stage_step opts s (c\<lparr>cc_params := p\<rparr>))"
    if "\<And>e m. s \<noteq> Search e m" "\<And>e. s \<noteq> Where e" "\<And>n e. s \<noteq> Eval n e"
    by (cases s)
      (use that in \<open>(blast | simp add: twin_fields twin_rename twin_sort twin_head twin_stats twin_timechart twin_top twin_bin)+\<close>)
  show ?thesis
    using assms(1) self unfolding p
    by (cases s; cases s')
      (auto simp: st_search_def twin_select_where twin_eval option_rel_Some1 split: option.split)
qed

lemma twin_steps:
  "list_all2 like_stage ss ss' \<Longrightarrow> twin c c' \<Longrightarrow> agree twin (stage_steps opts ss c) (stage_steps opts ss' c')"
  by (induction ss ss' arbitrary: c c' rule: list_all2_induct) (auto intro!: agree_sbind[OF twin_step])

lemma twin_sourced: "twin c c' \<Longrightarrow> twin (sourced opts s w c) (sourced opts s w c')"
  by (simp add: sourced_def twin_def Let_def)

lemma twin_source:
  assumes "rel_option like pred pred'"
  shows "agree twin (source_cte opts pred m c) (source_cte opts pred' m c)"
proof (cases m)
  case None
  have "agree twin (emit c1 (c_expr opts c1 e) (\<lambda>t c2. Inr (sourced opts base_select [t] c2)))
      (emit c1 (c_expr opts c1 e') (\<lambda>t c2. Inr (sourced opts base_select [t] c2)))" if "like e e'" for e e' and c1 :: comp
    using agree_emit[OF same_text_expr[OF that], of twin, where c = c1 and r = "cc_params c1"]
    by (simp add: twin_sourced)
  then show ?thesis
    using assms None by (cases pred; cases pred') (auto simp: source_cte_def Let_def twin_def)
next
  case (Some n)
  have "agree twin (select_where opts e c2) (select_where opts e' c2)" if "like e e'" for e e' and c2 :: comp
    using twin_select_where[OF that, of opts c2 "cc_params c2"] by simp
  then show ?thesis
    using assms Some
    by (cases pred; cases pred') (auto simp: source_cte_def Let_def twin_def intro!: agree_same)
qed

lemma twin_finish: "twin c c' \<Longrightarrow> same_text (finish_query opts c) (finish_query opts c')"
  by (auto elim!: twinE simp: finish_query_def paramless same_text_def intro!: agree_same)

lemma compile_same_text:
  assumes "list_all2 like_stage q q'"
  shows "same_text (compile_parsed opts q) (compile_parsed opts q')"
proof (cases q)
  case (Cons s ss)
  then obtain s' ss' where q': "q' = s' # ss'" "like_stage s s'" "list_all2 like_stage ss ss'"
    using assms by (auto simp: list_all2_Cons1)
  show ?thesis
  proof (cases "\<exists>e m. s = Search e m")
    case True
    then obtain e m e' where "s = Search e m" "s' = Search e' m" "rel_option like e e'" using q'(2) by (cases s') auto
    then show ?thesis
      unfolding compile_parsed_def same_text_def Cons q'(1)
      by (auto intro!: agree_sbind[OF twin_source] agree_sbind[OF twin_steps[OF q'(3)]] twin_finish[unfolded same_text_def])
  next
    case False
    then show ?thesis unfolding compile_parsed_def Cons by (cases s) simp_all
  qed
qed (simp add: compile_parsed_def)

text \<open>What a statement promises the driver, put together.\<close>

lemma compile_binds:
  assumes "where_ok opts" "list_all2 like_stage q q'"
    and "compile_parsed opts q = Inr (sql, ps)" "compile_parsed opts q' = Inr (sql', ps')"
  shows "sql' = sql \<and> length ps' = length ps"
  using compile_same_text[OF assms(2), of opts] assms(3,4)
    compile_placeholders[OF assms(1,3)] compile_placeholders[OF assms(1,4)]
  by (auto simp: same_text_def)

section \<open>Properties\<close>

definition demo_opts :: copts where
  "demo_opts = \<lparr>co_where = ''vendor = %s'', co_params = [VStr ''acme''], co_limit = 100, co_cap = 10,
     co_registry = Inl Refused, co_trunc = (\<lambda>_. Inl ValueError)\<rparr>"

definition demo_query :: "string \<Rightarrow> stage list" where
  "demo_query v =
     [Search (Some (Binary ''='' (Field ''user_name'') (Lit (VStr v) ''str''))) None,
      Where (Func ''_fts'' [Lit (VStr v) ''str'']), Stats [\<lparr>ag_func = ''count'', ag_arg = None, ag_out = ''n''\<rparr>] [''_time''],
      Sort [(''n'', True)], Head 5]"

definition hostile :: string where
  "hostile = [quote1, CHR '')''] @ ''; DROP TABLE events; -- %s''"

definition demo_sql :: "string \<Rightarrow> string" where
  "demo_sql v = (case compile_parsed demo_opts (demo_query v) of Inr (sql, _) \<Rightarrow> sql | Inl _ \<Rightarrow> [])"

lemma demo_shape: "list_all2 like_stage (demo_query ''bob'') (demo_query hostile)"
  by code_simp

text \<open>C19: Two queries of one shape, which differ only in the numbers and the strings they compare with, compile to the same text of the statement with the same number of parameters, so whatever those values hold is bound and never becomes text. Two things about corresponding strings must agree, because they do decide the text: whether the string is a glob pattern, and which relative time it names, if any, whose sign, number and unit are written into the statement as an interval.\<close>

theorem query_text_ignores_values:
  assumes "where_ok opts" and "list_all2 like_stage q q'"
    and "compile_parsed opts q = Inr (sql, ps)" and "compile_parsed opts q' = Inr (sql', ps')"
  shows "sql' = sql \<and> length ps' = length ps"
  using assms by (rule compile_binds)

theorem query_text_ignores_values_witness:
  "demo_sql hostile = demo_sql ''bob''"
proof -
  obtain sql ps where a: "compile_parsed demo_opts (demo_query ''bob'') = Inr (sql, ps)"
    by (cases "compile_parsed demo_opts (demo_query ''bob'')") (code_simp, auto)
  obtain sql' ps' where b: "compile_parsed demo_opts (demo_query hostile) = Inr (sql', ps')"
    by (cases "compile_parsed demo_opts (demo_query hostile)") (code_simp, auto)
  have "where_ok demo_opts" by code_simp
  from query_text_ignores_values[OF this demo_shape a b] show ?thesis by (simp add: demo_sql_def a b)
qed

text \<open>C20: Whatever pipeline the parser accepts, at the end of it the columns are distinct and not empty, the result order and the time columns are among them, no event column shadows a hidden one, and the stages written hold as many placeholders as there are parameters.\<close>

theorem columns_stay_in_scope:
  assumes "where_ok opts" and "wf_query q" and "compile_state opts q = Inr c"
  shows "scope_ok c \<and> balanced c 0"
  using compile_state_scope[OF assms(2), of opts] compile_state_balanced[OF assms(1), of q] assms(3) by simp

theorem columns_stay_in_scope_witness:
  "case compile_state demo_opts (demo_query ''bob'') of Inr c \<Rightarrow> scope_ok c \<and> balanced c 0 | Inl _ \<Rightarrow> False"
proof -
  obtain c where a: "compile_state demo_opts (demo_query ''bob'') = Inr c"
    by (cases "compile_state demo_opts (demo_query ''bob'')") (code_simp, auto)
  have "where_ok demo_opts" "wf_query (demo_query ''bob'')" by code_simp+
  from columns_stay_in_scope[OF this a] show ?thesis by (simp add: a)
qed

text \<open>C21: A parsed query without an ill-formed call of round and without a string that names a relative time of more than 4300 digits either compiles or is refused with the query error: none of the exceptions the compiler's own code can raise leaves it. The recursion limit of the interpreter is not part of the model.\<close>

theorem compiler_only_refuses:
  assumes "wf_query q" and "list_all calm_stage q" and "compile_parsed opts q = Inl e"
  shows "e = LoqlError None"
  using compile_quiet[OF assms(1,2), of opts] assms(3) by (simp add: quiet_def)

theorem compiler_only_refuses_witness:
  "compile_parsed demo_opts (demo_query ''bob'' @ [Where (Func ''_fts'' [Lit (VStr ''x'') ''str''])]) = Inl (LoqlError None)"
proof -
  let ?q = "demo_query ''bob'' @ [Where (Func ''_fts'' [Lit (VStr ''x'') ''str''])]"
  obtain e where a: "compile_parsed demo_opts ?q = Inl e"
    by (cases "compile_parsed demo_opts ?q") (auto, code_simp)
  have "wf_query ?q" "list_all calm_stage ?q" by code_simp+
  from compiler_only_refuses[OF this a] show ?thesis by (simp add: a)
qed

text \<open>The statement the compiler returns holds exactly one placeholder for each of its parameters, and no stray percent sign, so the driver binds every value to the place it was written for.\<close>

lemma one_placeholder_per_value:
  assumes "where_ok opts" and "compile_parsed opts q = Inr (sql, params)"
  shows "placeholders sql = Some (length params)"
  using assms by (rule compile_placeholders)

lemma one_placeholder_per_value_example:
  "case compile_parsed demo_opts (demo_query ''100%'') of Inr (sql, ps) \<Rightarrow> placeholders sql = Some (length ps) | Inl _ \<Rightarrow> False"
proof -
  obtain sql ps where a: "compile_parsed demo_opts (demo_query ''100%'') = Inr (sql, ps)"
    by (cases "compile_parsed demo_opts (demo_query ''100%'')") (code_simp, auto)
  have "where_ok demo_opts" by code_simp
  from one_placeholder_per_value[OF this a] show ?thesis by (simp add: a)
qed

text \<open>A call of round without an argument leaves the compiler as an IndexError, and one whose second argument is a word as a ValueError, although the parser accepts both.\<close>

lemma round_escapes:
  "compile_parsed demo_opts [Search None None, Eval ''x'' (Func ''round'' [])] = Inl (Escaped IndexError) \<and>
   compile_parsed demo_opts [Search None None, Eval ''x'' (Func ''round'' [Field ''id'', Lit (VStr ''abc'') ''str''])] = Inl (Escaped ValueError)"
  by code_simp

text \<open>Counting by a document key binds the key twice: the select list and the group clause name two different parameters of the server.\<close>

lemma stats_key_bound_twice:
  "compile_parsed (demo_opts\<lparr>co_where := [], co_params := []\<rparr>)
     [Search None None, Stats [\<lparr>ag_func = ''count'', ag_arg = None, ag_out = ''n''\<rparr>] [''host'']]
   = Inr (''WITH s0 AS ('' @ [newline] @ ''  SELECT '' @ base_select @ '' FROM events'' @ [newline] @ ''),'' @ [newline] @
      ''s1 AS ('' @ [newline] @ ''  SELECT (raw ->> %s) AS host, count(*) AS n FROM s0 GROUP BY (raw ->> %s)'' @ [newline] @ '')'' @
      [newline] @ ''SELECT host, n FROM s1 LIMIT 100'', [VStr ''host'', VStr ''host''])"
  by code_simp

end
