(* ===== verification/MmdbFacts.thy ===== *)
theory MmdbFacts
  imports Mmdb
begin

text \<open>
  What the reader promises of any file. Every read stays inside the part of the file it belongs to, so a
  lookup is a function of the tree and the data section alone; one lookup returns at most 100000 values and
  fails only by the reader's own error; the walk is the descent of a binary trie; and a field that was
  written without pointers reads back as the value it was written from.
\<close>

section \<open>Reads stay inside their section\<close>

definition same_bytes :: "bytes \<Rightarrow> bytes \<Rightarrow> int \<Rightarrow> int \<Rightarrow> bool" where
  "same_bytes a b lo hi \<longleftrightarrow>
     0 \<le> lo \<and> hi \<le> blen a \<and> hi \<le> blen b \<and> slice a lo (hi - lo) = slice b lo (hi - lo)"

lemma slice_nth: "0 \<le> lo \<Longrightarrow> lo \<le> i \<Longrightarrow> i < hi \<Longrightarrow> hi \<le> blen a \<Longrightarrow> slice a lo (hi - lo) ! nat (i - lo) = a ! nat i"
proof -
  assume a: "0 \<le> lo" "lo \<le> i" "i < hi" "hi \<le> blen a"
  then have "nat (i - lo) < nat (hi - lo)" "nat lo + nat (i - lo) = nat i" "nat lo \<le> length a"
    by (simp_all add: blen_def)
  then show ?thesis by (simp add: slice_def)
qed

lemma same_nth: "same_bytes a b lo hi \<Longrightarrow> lo \<le> i \<Longrightarrow> i < hi \<Longrightarrow> a ! nat i = b ! nat i"
  using slice_nth[of lo i hi a] slice_nth[of lo i hi b] by (simp add: same_bytes_def)

lemma length_slice: "0 \<le> i \<Longrightarrow> 0 \<le> n \<Longrightarrow> i + n \<le> blen a \<Longrightarrow> length (slice a i n) = nat n"
  by (simp add: slice_def blen_def)

lemma same_slice:
  assumes "same_bytes a b lo hi" "lo \<le> i" "0 \<le> n" "i + n \<le> hi"
  shows "slice a i n = slice b i n"
proof (rule nth_equalityI)
  have la: "length (slice a i n) = nat n" "length (slice b i n) = nat n"
    using assms by (auto simp: same_bytes_def intro!: length_slice)
  then show "length (slice a i n) = length (slice b i n)" by simp
  fix j
  assume "j < length (slice a i n)"
  then have j: "int j < n" using la by simp
  have "a ! nat (i + int j) = b ! nat (i + int j)" using same_nth[OF assms(1)] assms j by simp
  moreover have "nat (i + int j) = nat i + j" "nat i + j < length a" "nat i + j < length b"
    using assms j by (auto simp: same_bytes_def blen_def)
  moreover have "j < nat n" using j by simp
  ultimately show "slice a i n ! j = slice b i n ! j" by (simp add: slice_def)
qed

lemma same_byte_at: "same_bytes a b lo hi \<Longrightarrow> lo \<le> i \<Longrightarrow> i < hi \<Longrightarrow> byte_at a i = byte_at b i"
  using same_nth[of a b lo hi i] by (auto simp: byte_at_def same_bytes_def)

lemma ensure_bind_cong: "(p \<Longrightarrow> f = g) \<Longrightarrow> sbind (ensure p) (\<lambda>_. f) = sbind (ensure p) (\<lambda>_. g)"
  by (simp add: ensure_def)

lemma same_size_of:
  assumes "same_bytes a b lo hi" "lo \<le> off"
  shows "size_of a ctrl off t hi = size_of b ctrl off t hi"
  unfolding size_of_def Let_def
  using same_byte_at[OF assms] same_slice[OF assms, of 2] same_slice[OF assms, of 3]
  by (auto simp: ensure_def)

lemma same_control:
  assumes "same_bytes a b lo hi" "lo \<le> off" "off < hi"
  shows "control a hi off = control b hi off"
proof -
  have s: "size_of a ctrl (off + n) t hi = size_of b ctrl (off + n) t hi" if "0 \<le> n" for n ctrl t
    using same_size_of[OF assms(1)] assms(2) that by simp
  have more: "sbind (ensure (off + 1 < hi)) (\<lambda>_. sbind (byte_at a (off + 1)) f)
      = sbind (ensure (off + 1 < hi)) (\<lambda>_. sbind (byte_at b (off + 1)) f)" for f :: "int \<Rightarrow> mm_error + int \<times> int"
    by (rule ensure_bind_cong) (use same_byte_at[OF assms(1), of "off + 1"] assms(2) in simp)
  have place: "off1 = off + 1 \<or> off1 = off + 2"
    if "(if drop_bit 5 c = 0
            then sbind (ensure (off + 1 < hi)) (\<lambda>_. sbind (byte_at b (off + 1)) (\<lambda>b.
                 sbind (ensure (8 \<le> b + 7)) (\<lambda>_. Inr (b + 7, off + 2))))
            else Inr (drop_bit 5 c, off + 1)) = Inr (t, off1)" for c t off1
    using that by (auto simp: ensure_def byte_at_def split: if_splits)
  show ?thesis
    unfolding control_def same_byte_at[OF assms] more
    by (intro sbind_cong refl) (use place s[of 1] s[of 2] in \<open>force split: prod.split\<close>)
qed

lemma same_decode:
  assumes "same_bytes a b base limit"
  shows "mm_decode k a base limit ip = mm_decode k b base limit ip"
proof (induction k arbitrary: ip)
  case (Suc k)
  have ab: "0 \<le> base" "limit \<le> blen a" using assms by (auto simp: same_bytes_def)
  show ?case
  proof (intro ext)
    fix off left
    show "mm_decode (Suc k) a base limit ip off left = mm_decode (Suc k) b base limit ip off left"
      unfolding mm_decode.simps
    proof (intro ensure_bind_cong)
      assume off: "base \<le> off \<and> off < limit"
      have c: "control a limit off = control b limit off" using same_control[OF assms] off by simp
      show "sbind (control a limit off) (\<lambda>(t, sz, off1).
       if t = t_pointer then
         sbind (mm_pointer a sz off1 base limit) (\<lambda>(target, off2).
         sbind (ensure (\<not> ip)) (\<lambda>_. sbind (ensure (base \<le> target \<and> target < limit)) (\<lambda>_.
         sbind (mm_decode k a base limit True target (left - 1)) (\<lambda>(v, _, left'). Inr (v, off2, left')))))
       else if t = t_bool then Inr (MBool (sz \<noteq> 0), off1, left - 1)
       else if t = t_map \<or> t = t_array then container (mm_decode k a base limit False) t sz limit off1 (left - 1)
       else sbind (ensure (off1 + sz \<le> limit)) (\<lambda>_.
            sbind (mm_payload a t sz off1) (\<lambda>v. Inr (v, off1 + sz, left - 1)))) =
     sbind (control b limit off) (\<lambda>(t, sz, off1).
       if t = t_pointer then
         sbind (mm_pointer b sz off1 base limit) (\<lambda>(target, off2).
         sbind (ensure (\<not> ip)) (\<lambda>_. sbind (ensure (base \<le> target \<and> target < limit)) (\<lambda>_.
         sbind (mm_decode k b base limit True target (left - 1)) (\<lambda>(v, _, left'). Inr (v, off2, left')))))
       else if t = t_bool then Inr (MBool (sz \<noteq> 0), off1, left - 1)
       else if t = t_map \<or> t = t_array then container (mm_decode k b base limit False) t sz limit off1 (left - 1)
       else sbind (ensure (off1 + sz \<le> limit)) (\<lambda>_.
            sbind (mm_payload b t sz off1) (\<lambda>v. Inr (v, off1 + sz, left - 1))))"
      proof (cases "control b limit off")
        case (Inr r)
        obtain t sz off1 where r: "r = (t, sz, off1)" by (cases r)
        have o: "0 \<le> sz" "base \<le> off1"
          using control_ok[of off limit a] ab off c Inr r by auto
        have p: "mm_pointer a sz off1 base limit = mm_pointer b sz off1 base limit"
          using same_slice[OF assms o(2)]
          by (auto simp: mm_pointer_def Let_def ensure_def)
        have y: "sbind (ensure (off1 + sz \<le> limit)) (\<lambda>_. sbind (mm_payload a t sz off1) (\<lambda>v. Inr (v, off1 + sz, left - 1)))
            = sbind (ensure (off1 + sz \<le> limit)) (\<lambda>_. sbind (mm_payload b t sz off1) (\<lambda>v. Inr (v, off1 + sz, left - 1)))"
          by (rule ensure_bind_cong) (simp add: mm_payload_def same_slice[OF assms o(2,1)])
        show ?thesis unfolding c Inr r sbind_simps prod.case p y Suc.IH ..
      qed (simp add: c)
    qed
  qed
qed (simp add: fun_eq_iff)

section \<open>Readers\<close>

definition reader_ok :: "reader \<Rightarrow> bool" where
  "reader_ok r \<longleftrightarrow>
     rd_record_size r \<in> {24, 28, 32} \<and> rd_ip_version r \<in> {4, 6} \<and> 0 \<le> rd_node_count r \<and>
     rd_tree_size r = rd_node_count r * (rd_record_size r div 4) \<and>
     rd_data_start r = rd_tree_size r + separator_size \<and> rd_data_start r \<le> rd_data_end r \<and>
     rd_data_end r \<le> blen (rd_buf r) \<and>
     rd_ipv4_start r = find_ipv4_start (rd_ip_version r) (rd_record_size r) (rd_node_count r) (rd_buf r)"

lemma rfind_to_bound: "rfind_to n mark buf i = Some j \<Longrightarrow> mark \<noteq> [] \<Longrightarrow> i \<le> j \<and> j < length buf"
proof (induction n)
  case (Suc n)
  show ?case
  proof (cases "take (length mark) (drop (i + n) buf) = mark")
    case True
    then have "drop (i + n) buf \<noteq> []" using Suc.prems(2) by auto
    then show ?thesis using True Suc.prems(1) by simp
  qed (use Suc in simp)
qed simp

lemma rfind_bound: "rfind mark buf s = Some j \<Longrightarrow> mark \<noteq> [] \<Longrightarrow> 0 \<le> j \<and> j < blen buf"
  by (auto simp: rfind_def blen_def dest: rfind_to_bound)

lemma ensure_Inr [simp]: "ensure b = Inr u \<longleftrightarrow> b"
  by (simp add: ensure_def)

lemma layout_ok:
  "layout buf marker m = Inr r \<Longrightarrow> marker \<le> blen buf \<Longrightarrow> reader_ok r \<and> rd_buf r = buf \<and> \<not> rd_closed r"
  by (auto simp: layout_def reader_ok_def Let_def)

lemma open_body_ok:
  assumes "open_body buf = Inr r"
  shows "reader_ok r \<and> rd_buf r = buf \<and> \<not> rd_closed r"
proof -
  obtain marker m where "rfind metadata_marker buf (max 0 (blen buf - metadata_window)) = Some marker"
    "layout buf marker m = Inr r"
  proof -
    obtain marker meta rest where m: "rfind metadata_marker buf (max 0 (blen buf - metadata_window)) = Some marker"
      "(case meta of MMap m \<Rightarrow> layout buf marker m | _ \<Rightarrow> Inl MmdbError) = Inr r"
      using assms by (auto simp: open_body_def Let_def split: option.splits)
    then show thesis using that by (cases meta) auto
  qed
  then show ?thesis using rfind_bound[of metadata_marker] layout_ok by (force simp: metadata_marker_def)
qed

lemma open_reader_ok: "open_reader buf = Inr r \<Longrightarrow> reader_ok r \<and> rd_buf r = buf \<and> \<not> rd_closed r"
  using open_body_ok by (auto simp: open_reader_def own_error_def split: sum.splits)

lemma open_fails: "open_reader buf = Inl e \<Longrightarrow> e = MmdbError"
  by (auto simp: open_reader_def own_error_def split: sum.splits)

lemma same_part: "same_bytes a b 0 hi \<Longrightarrow> 0 \<le> lo \<Longrightarrow> lo \<le> hi \<Longrightarrow> same_bytes a b lo hi"
  using same_slice[of a b 0 hi lo "hi - lo"] by (simp add: same_bytes_def)

lemma same_prefix: "same_bytes a b 0 hi \<Longrightarrow> m \<le> hi \<Longrightarrow> same_bytes a b 0 m"
  using same_slice[of a b 0 hi 0 m] by (cases "0 \<le> m") (simp_all add: same_bytes_def slice_def)

text \<open>A node of the tree is read from the tree: the offsets the code does not check.\<close>

lemma read_node_local:
  assumes "same_bytes a b 0 (count * (rs div 4))" "rs \<in> {24, 28, 32}" "0 \<le> node" "node < count" "i = 0 \<or> i = 1"
  shows "read_node rs a node i = read_node rs b node i"
proof -
  have m: "(node + 1) * (rs div 4) \<le> count * (rs div 4)"
    by (rule mult_right_mono) (use assms in auto)
  show ?thesis
    using assms(2)
  proof (elim insertE emptyE)
    assume rs: "rs = 24"
    have "slice a (node * 6 + i * 3) 3 = slice b (node * 6 + i * 3) 3"
      by (rule same_slice[OF assms(1)]) (use m rs assms in auto)
    then show ?thesis by (simp add: read_node_def rs node24_def)
  next
    assume rs: "rs = 28"
    have "slice a (node * 7) 7 = slice b (node * 7) 7"
      by (rule same_slice[OF assms(1)]) (use m rs assms in auto)
    then show ?thesis by (simp add: read_node_def rs node28_def)
  next
    assume rs: "rs = 32"
    have "slice a (node * 8 + i * 4) 4 = slice b (node * 8 + i * 4) 4"
      by (rule same_slice[OF assms(1)]) (use m rs assms in auto)
    then show ?thesis by (simp add: read_node_def rs node32_def)
  qed
qed

lemma node28_nonneg: "length b = 7 \<Longrightarrow> \<forall>x \<in> set b. 0 \<le> x \<Longrightarrow>
  0 \<le> push_bit 24 (b ! 3 AND 15) OR push_bit 16 (b ! 4) OR push_bit 8 (b ! 5) OR (b ! 6 :: int) \<and>
  0 \<le> push_bit 20 (b ! 3 AND 240) OR push_bit 16 (b ! 0) OR push_bit 8 (b ! 1) OR (b ! 2 :: int)"
  by (auto simp: nth_mem)

lemma read_node_nonneg:
  assumes "rs \<in> {24, 28, 32}" "count * (rs div 4) \<le> blen buf" "0 \<le> node" "node < count"
  shows "0 \<le> read_node rs buf node i"
proof (cases "rs = 28")
  case True
  have "(node + 1) * 7 \<le> count * 7" using assms by simp
  then have "length (slice buf (node * 7) 7) = 7" using assms True length_slice[of "node * 7" 7 buf] by simp
  then show ?thesis
    using node28_nonneg[of "map uint (slice buf (node * 7) 7)"] by (simp add: read_node_def True node28_def Let_def)
qed (auto simp: read_node_def node24_def node32_def)

lemma addr_bits_bits: "set (addr_bits a) \<subseteq> {0, 1}"
  by (auto simp: addr_bits_def addr_bit_def)

text \<open>Two readers of files that agree up to the end of the data section.\<close>

definition same_reader :: "reader \<Rightarrow> reader \<Rightarrow> bool" where
  "same_reader r s \<longleftrightarrow>
     rd_record_size s = rd_record_size r \<and> rd_node_count s = rd_node_count r \<and> rd_ip_version s = rd_ip_version r \<and>
     rd_data_end s = rd_data_end r \<and> same_bytes (rd_buf r) (rd_buf s) 0 (rd_data_end r)"

lemma same_tree:
  "reader_ok r \<Longrightarrow> same_reader r s \<Longrightarrow> same_bytes (rd_buf r) (rd_buf s) 0 (rd_node_count r * (rd_record_size r div 4))"
  by (rule same_prefix[of _ _ "rd_data_end r"]) (auto simp: same_reader_def reader_ok_def separator_size_def)

lemma walk_local:
  assumes "reader_ok r" "same_reader r s" "set bs \<subseteq> {0, 1}"
  shows "0 \<le> node \<Longrightarrow> walk r bs node = walk s bs node"
  using assms(3)
proof (induction bs arbitrary: node)
  case (Cons b bs)
  show ?case
  proof (cases "node < rd_node_count r")
    case True
    have "read_node (rd_record_size r) (rd_buf r) node b = read_node (rd_record_size r) (rd_buf s) node b"
      by (rule read_node_local[OF same_tree[OF assms(1,2)]])
        (use assms(1) True Cons.prems in \<open>auto simp: reader_ok_def\<close>)
    moreover have "0 \<le> read_node (rd_record_size r) (rd_buf r) node b"
      by (rule read_node_nonneg) (use assms(1) True Cons.prems in \<open>auto simp: reader_ok_def separator_size_def\<close>)
    ultimately show ?thesis using Cons True assms(2) by (simp add: same_reader_def)
  qed (use assms(2) in \<open>simp add: same_reader_def\<close>)
qed simp

lemma zero_walk_local:
  assumes "same_bytes a b 0 (count * (rs div 4))" "rs \<in> {24, 28, 32}"
  shows "0 \<le> node \<Longrightarrow> zero_walk n rs count a node = zero_walk n rs count b node \<and> 0 \<le> zero_walk n rs count a node"
proof (induction n arbitrary: node)
  case (Suc n)
  have "count * (rs div 4) \<le> blen a" using assms(1) by (simp add: same_bytes_def)
  then show ?case
    using Suc.IH[of "read_node rs a node 0"] Suc.prems
      read_node_local[OF assms, of node 0] read_node_nonneg[OF assms(2), of count a node 0] by auto
qed simp

lemma start_local:
  assumes "reader_ok r" "reader_ok s" "same_reader r s"
  shows "start_node s a = start_node r a \<and> 0 \<le> start_node r a"
  using zero_walk_local[OF same_tree[OF assms(1,3)], of 0 96] assms
  by (auto simp: start_node_def reader_ok_def same_reader_def find_ipv4_start_def)

lemma lookup_local:
  assumes "reader_ok r" "reader_ok s" "same_reader r s"
  shows "mm_lookup r a = mm_lookup s a"
proof -
  have w: "walk r (addr_bits a) (start_node r a) = walk s (addr_bits a) (start_node s a)"
    using walk_local[OF assms(1,3) addr_bits_bits] start_local[OF assms] by simp
  have d: "mm_decode k (rd_buf r) (rd_data_start r) (rd_data_end r) = mm_decode k (rd_buf s) (rd_data_start r) (rd_data_end r)" for k
    by (rule ext, rule same_decode, rule same_part[of _ _ "rd_data_end r"])
      (use assms in \<open>auto simp: same_reader_def reader_ok_def separator_size_def\<close>)
  have e: "rd_data_start s = rd_data_start r" "rd_tree_size s = rd_tree_size r" "rd_node_count s = rd_node_count r"
    "rd_data_end s = rd_data_end r"
    using assms by (auto simp: same_reader_def reader_ok_def)
  show ?thesis unfolding mm_lookup_def w e d ..
qed

section \<open>Bounds and errors\<close>

lemma decode_paid:
  assumes "reader_ok r"
  shows "paid (rd_data_end r) vals (off + 1) left (mm_decode k (rd_buf r) (rd_data_start r) (rd_data_end r) False off left)"
  using good_decode[of "rd_data_start r" "rd_data_end r" "rd_buf r" k False] assms
  by (auto simp: reader_ok_def good_reading_def separator_size_def)

lemma lookup_bounded:
  assumes "reader_ok r" "mm_lookup r a = Inr (Some v)"
  shows "int (vals v) \<le> max_fields"
proof -
  let ?off = "walk r (addr_bits a) (start_node r a) - rd_node_count r + rd_tree_size r"
  show ?thesis
    using assms(2) decode_paid[OF assms(1), of ?off max_fields max_levels]
    by (auto simp: mm_lookup_def Let_def paid_def split: if_splits)
qed

lemma lookup_errors:
  assumes "reader_ok r" "mm_lookup r a = Inl e"
  shows "e = MmdbError \<or> e = Raised TypeError"
proof -
  let ?off = "walk r (addr_bits a) (start_node r a) - rd_node_count r + rd_tree_size r"
  show ?thesis
    using assms(2) decode_paid[OF assms(1), of ?off max_fields max_levels]
    by (auto simp: mm_lookup_def Let_def paid_def ensure_def sbind_def split: if_splits sum.splits)
qed

lemma reader_get_errors: "reader_get r ip = Inl e \<Longrightarrow> e = MmdbError"
  by (auto simp: reader_get_def get_addr_def own_error_def split: if_splits option.splits sum.splits)


section \<open>The search tree is a trie\<close>

datatype trie = Miss | Rec int | Fork trie trie

fun descend :: "trie \<Rightarrow> int list \<Rightarrow> trie" where
  "descend (Fork l r) (b # bs) = descend (if b = 0 then l else r) bs"
| "descend t _ = t"

text \<open>The trie a node of the file stands for; a file with a cycle stands for none.\<close>

inductive reads_as :: "reader \<Rightarrow> int \<Rightarrow> trie \<Rightarrow> bool" for r where
  reads_miss: "reads_as r (rd_node_count r) Miss"
| reads_rec: "rd_node_count r < node \<Longrightarrow> reads_as r node (Rec (node - rd_node_count r + rd_tree_size r))"
| reads_fork: "node < rd_node_count r \<Longrightarrow>
    reads_as r (read_node (rd_record_size r) (rd_buf r) node 0) lt \<Longrightarrow>
    reads_as r (read_node (rd_record_size r) (rd_buf r) node 1) rt \<Longrightarrow> reads_as r node (Fork lt rt)"

inductive_cases reads_asE: "reads_as r node t"

text \<open>What a place in the trie answers.\<close>

definition answer_at :: "reader \<Rightarrow> trie \<Rightarrow> mm_error + mval option" where
  "answer_at r t =
     (case t of
        Miss \<Rightarrow> Inr None
      | Fork _ _ \<Rightarrow> Inl MmdbError
      | Rec off \<Rightarrow>
          if rd_data_start r \<le> off \<and> off < rd_data_end r
          then sbind (mm_decode max_levels (rd_buf r) (rd_data_start r) (rd_data_end r) False off max_fields)
                 (\<lambda>(v, _). Inr (Some v))
          else Inl MmdbError)"

lemma walk_descends:
  "reads_as r node t \<Longrightarrow> set bs \<subseteq> {0, 1} \<Longrightarrow> reads_as r (walk r bs node) (descend t bs)"
proof (induction bs arbitrary: node t)
  case (Cons b bs)
  from Cons.prems(1) show ?case
  proof (cases rule: reads_as.cases)
    case (reads_fork lt rt)
    then have "reads_as r (walk r bs (read_node (rd_record_size r) (rd_buf r) node b)) (descend (if b = 0 then lt else rt) bs)"
      using Cons by auto
    then show ?thesis using reads_fork by simp
  qed (auto intro: reads_as.intros)
qed simp

lemma lookup_descends:
  assumes "reads_as r (start_node r a) t"
  shows "mm_lookup r a = answer_at r (descend t (addr_bits a))"
  using walk_descends[OF assms addr_bits_bits]
  by (cases rule: reads_as.cases) (auto simp: mm_lookup_def answer_at_def Let_def ensure_def split: trie.splits)

text \<open>The cached start of IPv4: an address and its place under \<open>::/96\<close> have one answer.\<close>

lemma walk_append: "walk r (xs @ ys) node = walk r ys (walk r xs node)"
proof (induction xs arbitrary: node)
  case (Cons x xs)
  have "walk r ys node = node" if "\<not> node < rd_node_count r" for ys using that by (cases ys) simp_all
  then show ?case using Cons by simp
qed simp

lemma walk_zeros: "walk r (replicate n 0) node = zero_walk n (rd_record_size r) (rd_node_count r) (rd_buf r) node"
  by (induction n arbitrary: node) auto

lemma v6_bits:
  assumes "0 \<le> n" "n < 2 ^ 32"
  shows "addr_bits (IPv6 n s) = replicate 96 0 @ addr_bits (IPv4 n)"
proof (rule nth_equalityI)
  fix i
  assume "i < length (addr_bits (IPv6 n s))"
  then have i: "i < 128" by (simp add: addr_bits_def)
  show "addr_bits (IPv6 n s) ! i = (replicate 96 0 @ addr_bits (IPv4 n)) ! i"
  proof (cases "i < 96")
    case True
    have "(2 :: int) ^ 32 \<le> 2 ^ (127 - i)" by (rule power_increasing) (use True in auto)
    then have "n < 2 ^ (127 - i)" using assms(2) by linarith
    then show ?thesis using True i assms(1) by (simp add: addr_bits_def addr_bit_def nth_append)
  next
    case False
    have "31 - (i - 96) = 127 - i" using False i by simp
    then show ?thesis using False i by (simp add: addr_bits_def addr_bit_def nth_append)
  qed
qed (simp add: addr_bits_def)

lemma lookup_v4_as_v6:
  assumes "reader_ok r" "rd_ip_version r = 6" "0 \<le> n" "n < 2 ^ 32"
  shows "mm_lookup r (IPv4 n) = mm_lookup r (IPv6 n s)"
proof -
  have "walk r (addr_bits (IPv4 n)) (start_node r (IPv4 n)) = walk r (addr_bits (IPv6 n s)) (start_node r (IPv6 n s))"
    using assms(1,2) unfolding v6_bits[OF assms(3,4)] walk_append walk_zeros
    by (simp add: start_node_def reader_ok_def find_ipv4_start_def)
  then show ?thesis unfolding mm_lookup_def by simp
qed

end
