(* ===== verification/MmdbCodec.thy ===== *)
theory MmdbCodec
  imports MmdbFacts
begin

text \<open>
  The other direction: a writer of fields after the published format, and the round trip. The writer uses no
  pointers and the widest integer type; the reader takes back every value it can write.
\<close>

declare mm_decode.simps [simp del]

section \<open>A writer\<close>

text \<open>Control byte, extended type, extended size.\<close>

definition head_bytes :: "int \<Rightarrow> int \<Rightarrow> bytes" where
  "head_bytes t f = (if t \<le> 7 then [word_of_int (t * 32 + f)] else [word_of_int f, word_of_int (t - 7)])"

definition head :: "int \<Rightarrow> nat \<Rightarrow> bytes" where
  "head t n =
     (if n < 29 then head_bytes t (int n)
      else if n < 285 then head_bytes t 29 @ to_be 1 (int n - 29)
      else if n < 65821 then head_bytes t 30 @ to_be 2 (int n - 285)
      else head_bytes t 31 @ to_be 3 (int n - 65821))"

definition max_size :: nat where "max_size = 16843036"

definition bytes_of :: "string \<Rightarrow> bytes" where
  "bytes_of s = map (\<lambda>c. word_of_int (of_char c)) s"

fun write_val :: "mval \<Rightarrow> bytes" where
  "write_val (MStr s) = head t_utf8 (length s) @ bytes_of s"
| "write_val (MInt i) = (if 0 \<le> i then head t_uint128 16 @ to_be 16 i else head t_int32 4 @ to_be 4 i)"
| "write_val (MDouble bs) = head t_double 8 @ bs"
| "write_val (MFloat bs) = head t_float 4 @ bs"
| "write_val (MBytes bs) = head t_bytes (length bs) @ bs"
| "write_val (MBool b) = head t_bool (if b then 1 else 0)"
| "write_val (MArray vs) = head t_array (length vs) @ concat (map write_val vs)"
| "write_val (MMap d) = head t_map (length d) @ concat (map (\<lambda>(k, v). write_val k @ write_val v) d)"

text \<open>The values a file can hold, and how deep they nest.\<close>

fun writable :: "mval \<Rightarrow> bool" where
  "writable (MStr s) = (valid_utf8 (bytes_of s) \<and> length s \<le> max_size)"
| "writable (MInt i) = (- (2 ^ 31) \<le> i \<and> i < 2 ^ 128)"
| "writable (MDouble bs) = (length bs = 8)"
| "writable (MFloat bs) = (length bs = 4)"
| "writable (MBytes bs) = (length bs \<le> max_size)"
| "writable (MBool b) = True"
| "writable (MArray vs) = (length vs \<le> max_size \<and> list_all writable vs)"
| "writable (MMap d) =
     (length d \<le> max_size \<and> distinct (map (key_of \<circ> fst) d) \<and> KUnhashable \<notin> key_of ` fst ` set d \<and>
      list_all (\<lambda>(k, v). writable k \<and> writable v) d)"

fun height :: "mval \<Rightarrow> nat" where
  "height (MArray vs) = Suc (foldr max (map height vs) 0)"
| "height (MMap d) = Suc (foldr max (map (\<lambda>(k, v). max (height k) (height v)) d) 0)"
| "height _ = 1"

section \<open>Bytes at an offset\<close>

definition bytes_at :: "bytes \<Rightarrow> int \<Rightarrow> bytes \<Rightarrow> bool" where
  "bytes_at buf off xs \<longleftrightarrow> 0 \<le> off \<and> off + blen xs \<le> blen buf \<and> slice buf off (blen xs) = xs"

lemma blen_append [simp]: "blen (a @ b) = blen a + blen b" "blen [] = 0" "blen (x # a) = 1 + blen a"
  by (simp_all add: blen_def)

lemma blen_nonneg: "0 \<le> blen a"
  by (simp add: blen_def)

lemma at_drop: "bytes_at buf off xs \<longleftrightarrow> 0 \<le> off \<and> off + blen xs \<le> blen buf \<and> (\<exists>r. drop (nat off) buf = xs @ r)"
proof (cases "0 \<le> off \<and> off + blen xs \<le> blen buf")
  case True
  have n: "nat (blen xs) = length xs" by (simp add: blen_def)
  have "take (length xs) (drop (nat off) buf) = xs \<longleftrightarrow> (\<exists>r. drop (nat off) buf = xs @ r)"
    by (metis append_eq_conv_conj append_take_drop_id)
  then show ?thesis using True by (simp add: bytes_at_def slice_def n)
qed (auto simp: bytes_at_def)

lemma bytes_at_append: "bytes_at buf off (xs @ ys) \<longleftrightarrow> bytes_at buf off xs \<and> bytes_at buf (off + blen xs) ys"
proof (cases "0 \<le> off")
  case True
  have d: "drop (nat (off + blen xs)) buf = drop (length xs) (drop (nat off) buf)"
    using True by (simp add: blen_def nat_add_distrib add.commute)
  have "(\<exists>r. drop (nat off) buf = xs @ ys @ r) \<longleftrightarrow>
      (\<exists>r. drop (nat off) buf = xs @ r) \<and> (\<exists>r. drop (length xs) (drop (nat off) buf) = ys @ r)"
    by (metis append_eq_conv_conj)
  then show ?thesis
    unfolding at_drop d using blen_nonneg[of xs] blen_nonneg[of ys] by (auto simp: add.assoc)
qed (simp add: at_drop)

lemma at_Cons: "bytes_at buf off (b # xs) \<longleftrightarrow> bytes_at buf off [b] \<and> bytes_at buf (off + 1) xs"
  using bytes_at_append[of buf off "[b]" xs] by simp

lemma at_byte: "bytes_at buf off [b] \<Longrightarrow> byte_at buf off = Inr (uint b)"
proof -
  assume "bytes_at buf off [b]"
  then obtain r where "0 \<le> off" "off + 1 \<le> blen buf" "drop (nat off) buf = b # r" by (auto simp: at_drop)
  moreover from this have "buf ! nat off = b" by (simp add: nth_via_drop)
  ultimately show ?thesis by (simp add: byte_at_def)
qed

lemma at_slice: "bytes_at buf off xs \<Longrightarrow> n = blen xs \<Longrightarrow> slice buf off n = xs"
  by (simp add: bytes_at_def)

section \<open>Heads\<close>

lemma and_31: "(x :: int) AND 31 = x mod 32"
  using take_bit_eq_mask[of 5 x] by (simp add: take_bit_eq_mod mask_eq_exp_minus_1)

lemma drop_5: "drop_bit 5 (x :: int) = x div 32"
  by (simp add: drop_bit_eq_div)

lemma uint_small: "0 \<le> v \<Longrightarrow> v < 256 \<Longrightarrow> uint (word_of_int v :: 8 word) = v"
  by (simp add: uint_byte)

lemma blen_to_be [simp]: "blen (to_be n v) = int n"
  by (simp add: blen_def)

lemma size_of_read:
  assumes "ctrl mod 32 = f" "t \<noteq> t_pointer" "off + blen xs \<le> limit" "bytes_at buf off xs"
    and "f < 29 \<and> xs = [] \<and> n = f \<or> f = 29 \<and> blen xs = 1 \<and> n = 29 + be xs \<or>
         f = 30 \<and> blen xs = 2 \<and> n = 285 + be xs \<or> f = 31 \<and> blen xs = 3 \<and> n = 65821 + be xs"
  shows "size_of buf ctrl off t limit = Inr (n, off + blen xs)"
proof -
  have one: "byte_at buf off = Inr (be xs)" if "blen xs = 1"
  proof -
    obtain x where "xs = [x]" using \<open>blen xs = 1\<close> by (auto simp: blen_def length_Suc_conv)
    then show ?thesis using at_byte[of buf off x] assms(4) by (simp add: be_def)
  qed
  show ?thesis
    using assms(5) assms(1-3) one at_slice[OF assms(4)]
    by (auto simp: size_of_def Let_def and_31 ensure_def)
qed

lemma control_read:
  assumes "2 \<le> t" "t \<le> 15" "n \<le> max_size" "bytes_at buf off (head t n)" "off + blen (head t n) \<le> limit"
  shows "control buf limit off = Inr (t, int n, off + blen (head t n))"
proof -
  obtain f xs where h: "head t n = head_bytes t f @ xs" and f: "0 \<le> f" "f < 32"
    and s: "f < 29 \<and> xs = [] \<and> int n = f \<or> f = 29 \<and> blen xs = 1 \<and> int n = 29 + be xs \<or>
         f = 30 \<and> blen xs = 2 \<and> int n = 285 + be xs \<or> f = 31 \<and> blen xs = 3 \<and> int n = 65821 + be xs"
  proof -
    have "int n < 16843037" using assms(3) by (simp add: max_size_def)
    then show thesis
      using that[of "int n" "[]"] that[of 29 "to_be 1 (int n - 29)"] that[of 30 "to_be 2 (int n - 285)"]
        that[of 31 "to_be 3 (int n - 65821)"]
      by (cases "n < 29"; cases "n < 285"; cases "n < 65821") (auto simp: head_def be_to_be)
  qed
  have np: "t \<noteq> t_pointer" using assms(1) by (simp add: type_numbers)
  show ?thesis
  proof (cases "t \<le> 7")
    case True
    have hb: "head_bytes t f = [word_of_int (t * 32 + f)]" using True by (simp add: head_bytes_def)
    have u: "uint (word_of_int (t * 32 + f) :: 8 word) = t * 32 + f"
      by (rule uint_small) (use True f assms(1) in auto)
    have c: "byte_at buf off = Inr (t * 32 + f)" "bytes_at buf (off + 1) xs"
      using assms(4) at_byte[of buf off "word_of_int (t * 32 + f)"] at_Cons[of buf off "word_of_int (t * 32 + f)" xs]
      unfolding h hb u by simp_all
    have d: "drop_bit 5 (t * 32 + f) = t" "(t * 32 + f) mod 32 = f" using f assms(1) by (simp_all add: drop_5)
    have "size_of buf (t * 32 + f) (off + 1) t limit = Inr (int n, off + 1 + blen xs)"
      by (rule size_of_read[OF d(2) np _ c(2) s]) (use assms(5) in \<open>simp add: h hb\<close>)
    then show ?thesis using assms(1) by (simp add: control_def c d h hb)
  next
    case False
    have hb: "head_bytes t f = [word_of_int f, word_of_int (t - 7)]" using False by (simp add: head_bytes_def)
    have u: "uint (word_of_int f :: 8 word) = f" "uint (word_of_int (t - 7) :: 8 word) = t - 7"
      using False f assms(2) by (simp_all only: uint_small)
    have two: "off + 1 + 1 = off + 2" by simp
    have c: "byte_at buf off = Inr f" "byte_at buf (off + 1) = Inr (t - 7)" "bytes_at buf (off + 2) xs"
      using assms(4) at_byte[of buf off "word_of_int f"] at_byte[of buf "off + 1" "word_of_int (t - 7)"]
        at_Cons[of buf off "word_of_int f" "word_of_int (t - 7) # xs"] at_Cons[of buf "off + 1" "word_of_int (t - 7)" xs]
      unfolding h hb u two by simp_all
    have d: "drop_bit 5 f = 0" "f mod 32 = f" using f by (simp_all add: drop_5)
    have "size_of buf f (off + 2) t limit = Inr (int n, off + 2 + blen xs)"
      by (rule size_of_read[OF d(2) np _ c(3) s]) (use assms(5) in \<open>simp add: h hb\<close>)
    then show ?thesis using assms(5) False blen_nonneg[of xs] by (simp add: control_def c d h hb ensure_def)
  qed
qed

section \<open>The round trip\<close>

lemma text_of_bytes: "text_of (bytes_of s) = s"
proof -
  have "char_of (uint (word_of_int (of_char c) :: 8 word)) = c" for c
    by (simp add: uint_byte)
  then show ?thesis by (induction s) (simp_all add: text_of_def bytes_of_def)
qed

lemma length_bytes_of [simp]: "length (bytes_of s) = length s"
  by (simp add: bytes_of_def)

lemma head_pos: "1 \<le> blen (head t n)"
  by (simp add: head_def head_bytes_def blen_def)

lemma write_pos: "1 \<le> blen (write_val v)"
proof -
  have "1 \<le> blen (head t n @ bs)" for t n bs using head_pos[of t n] blen_nonneg[of bs] by simp
  then show ?thesis using head_pos by (cases v) (simp_all del: blen_append)
qed

lemma vals_pos: "1 \<le> vals v"
  by (cases v) simp_all

lemma decode_head:
  assumes "2 \<le> t" "t \<le> 15" "n \<le> max_size" "bytes_at buf off (head t n)" "off + blen (head t n) \<le> limit"
    and "base \<le> off" "1 \<le> left"
  shows "mm_decode (Suc k) buf base limit False off left =
    (let off1 = off + blen (head t n) in
     if t = t_bool then Inr (MBool (int n \<noteq> 0), off1, left - 1)
     else if t = t_map \<or> t = t_array then container (mm_decode k buf base limit False) t (int n) limit off1 (left - 1)
     else sbind (ensure (off1 + int n \<le> limit)) (\<lambda>_.
          sbind (mm_payload buf t (int n) off1) (\<lambda>v. Inr (v, off1 + int n, left - 1))))"
proof -
  have "off < limit" using head_pos[of t n] assms(5) by simp
  then show ?thesis
    using assms control_read[OF assms(1-5)]
    by (simp add: mm_decode.simps ensure_def Let_def type_numbers)
qed

lemma decode_scalar:
  assumes "bytes_at buf off (head t n @ raw)" "blen raw = int n" "off + blen (head t n @ raw) \<le> limit" "base \<le> off" "1 \<le> left"
    and "2 \<le> t" "t \<le> 15" "n \<le> max_size" "t \<notin> {t_bool, t_map, t_array}"
    and "\<And>off1. slice buf off1 (int n) = raw \<Longrightarrow> mm_payload buf t (int n) off1 = Inr v"
  shows "mm_decode (Suc k) buf base limit False off left = Inr (v, off + blen (head t n @ raw), left - 1)"
proof -
  have a: "bytes_at buf off (head t n)" "bytes_at buf (off + blen (head t n)) raw"
    using assms(1) by (simp_all add: bytes_at_append)
  have s: "slice buf (off + blen (head t n)) (int n) = raw" using at_slice[OF a(2)] assms(2) by simp
  have "off + blen (head t n) \<le> limit" using assms(3) blen_nonneg[of raw] by simp
  from decode_head[OF assms(6-8) a(1) this assms(4,5), of k] show ?thesis
    using assms(2,3,9) assms(10)[OF s] by (simp add: Let_def ensure_def)
qed

text \<open>A reading that takes back what was written for a value.\<close>

definition takes_back :: "bytes \<Rightarrow> int \<Rightarrow> int \<Rightarrow> mval reading \<Rightarrow> mval \<Rightarrow> bool" where
  "takes_back buf base limit dec v \<longleftrightarrow>
     (\<forall>off left. base \<le> off \<longrightarrow> bytes_at buf off (write_val v) \<longrightarrow> off + blen (write_val v) \<le> limit \<longrightarrow> int (vals v) \<le> left \<longrightarrow>
        dec off left = Inr (v, off + blen (write_val v), left - int (vals v)))"

lemma takes_back_array:
  assumes "\<And>v. v \<in> set vs \<Longrightarrow> takes_back buf base limit dec v"
  shows "base \<le> off \<Longrightarrow> bytes_at buf off (concat (map write_val vs)) \<Longrightarrow> off + blen (concat (map write_val vs)) \<le> limit \<Longrightarrow>
    int (sum_list (map vals vs)) \<le> left \<Longrightarrow>
    read_array dec (length vs) off left = Inr (vs, off + blen (concat (map write_val vs)), left - int (sum_list (map vals vs)))"
  using assms
proof (induction vs arbitrary: off left)
  case (Cons v vs)
  have "takes_back buf base limit dec v" using Cons.prems by simp
  then have "dec off left = Inr (v, off + blen (write_val v), left - int (vals v))"
    using Cons.prems blen_nonneg[of "concat (map write_val vs)"] by (simp add: takes_back_def bytes_at_append)
  then show ?case
    using Cons.IH[of "off + blen (write_val v)" "left - int (vals v)"] Cons.prems blen_nonneg[of "write_val v"]
    by (simp add: bytes_at_append algebra_simps)
qed simp

lemma mm_put_new: "key_of k \<notin> key_of ` fst ` set d \<Longrightarrow> mm_put k v d = d @ [(k, v)]"
  by (induction k v d rule: mm_put.induct) auto

lemma takes_back_map:
  assumes "\<And>k v. (k, v) \<in> set d \<Longrightarrow> takes_back buf base limit dec k \<and> takes_back buf base limit dec v"
  shows "base \<le> off \<Longrightarrow> bytes_at buf off (concat (map (\<lambda>(k, v). write_val k @ write_val v) d)) \<Longrightarrow>
    off + blen (concat (map (\<lambda>(k, v). write_val k @ write_val v) d)) \<le> limit \<Longrightarrow> int (entry_vals d) \<le> left \<Longrightarrow>
    distinct (map (key_of \<circ> fst) (out @ d)) \<Longrightarrow> KUnhashable \<notin> key_of ` fst ` set d \<Longrightarrow>
    read_map dec (length d) out off left =
      Inr (out @ d, off + blen (concat (map (\<lambda>(k, v). write_val k @ write_val v) d)), left - int (entry_vals d))"
  using assms
proof (induction d arbitrary: off left out)
  case (Cons kv d)
  obtain k v where kv: "kv = (k, v)" by (cases kv)
  let ?rest = "concat (map (\<lambda>(k, v). write_val k @ write_val v) d)"
  note pos = blen_nonneg[of ?rest] blen_nonneg[of "write_val k"] blen_nonneg[of "write_val v"]
  have t: "takes_back buf base limit dec k" "takes_back buf base limit dec v" using Cons.prems kv by auto
  have k: "dec off left = Inr (k, off + blen (write_val k), left - int (vals k))"
    using t(1) Cons.prems pos by (simp add: kv takes_back_def bytes_at_append entry_vals_def)
  have v: "dec (off + blen (write_val k)) (left - int (vals k)) =
      Inr (v, off + blen (write_val k) + blen (write_val v), left - int (vals k) - int (vals v))"
    using t(2) Cons.prems pos by (simp add: kv takes_back_def bytes_at_append entry_vals_def)
  have put: "mm_put k v out = out @ [(k, v)]"
    using Cons.prems kv by (intro mm_put_new) (auto simp: image_image)
  have "read_map dec (length d) (out @ [(k, v)]) (off + blen (write_val k) + blen (write_val v)) (left - int (vals k) - int (vals v)) =
      Inr ((out @ [(k, v)]) @ d, off + blen (write_val k) + blen (write_val v) + blen ?rest,
        left - int (vals k) - int (vals v) - int (entry_vals d))"
    by (rule Cons.IH) (use Cons.prems pos kv in \<open>auto simp: bytes_at_append entry_vals_def algebra_simps\<close>)
  moreover have "key_of k \<noteq> KUnhashable" using Cons.prems kv by force
  ultimately show ?case
    using k v put by (simp add: kv entry_vals_def algebra_simps)
qed (simp add: entry_vals_def)


lemma sum_vals_le: "v \<in> set vs \<Longrightarrow> vals v \<le> sum_list (map vals vs)"
  by (simp add: member_le_sum_list)

lemma height_pos: "1 \<le> height v"
  by (cases v) simp_all

lemma height_le: "v \<in> set vs \<Longrightarrow> height v \<le> foldr max (map height vs) 0"
  by (induction vs) (auto simp: max_def)

lemma height_entry: "(k, v) \<in> set d \<Longrightarrow> max (height k) (height v) \<le> foldr max (map (\<lambda>(k, v). max (height k) (height v)) d) 0"
  by (induction d) (auto simp: max_def)

lemma concat_length: "(\<And>x. x \<in> set xs \<Longrightarrow> n \<le> blen (f x)) \<Longrightarrow> int (length xs) * n \<le> blen (concat (map f xs))"
  by (induction xs) (force simp: algebra_simps)+

lemma write_takes_back:
  "writable v \<Longrightarrow> height v \<le> k \<Longrightarrow> takes_back buf base limit (mm_decode k buf base limit False) v"
proof (induction k arbitrary: v)
  case 0
  then show ?case using height_pos[of v] by simp
next
  case (Suc k)
  show ?case unfolding takes_back_def
  proof (intro allI impI)
    fix off left
    assume c: "base \<le> off" "bytes_at buf off (write_val v)" "off + blen (write_val v) \<le> limit" "int (vals v) \<le> left"
    have l: "1 \<le> left" using c(4) vals_pos[of v] by simp
    note sc = decode_scalar[where k = k, OF _ _ _ c(1) l]
    show "mm_decode (Suc k) buf base limit False off left = Inr (v, off + blen (write_val v), left - int (vals v))"
    proof (cases v)
      case (MStr s)
      show ?thesis
        using sc[of buf t_utf8 "length s" "bytes_of s" limit v] c Suc.prems MStr
        by (simp add: type_numbers mm_payload_def text_of_bytes blen_def)
    next
      case (MInt i)
      show ?thesis
      proof (cases "0 \<le> i")
        case True
        then show ?thesis
          using sc[of buf t_uint128 16 "to_be 16 i" limit v] c Suc.prems MInt
          by (simp add: type_numbers mm_payload_def uint_limit_def be_to_be max_size_def)
      next
        case False
        then have "i mod 2 ^ 32 = i + 2 ^ 32"
          using Suc.prems MInt mod_pos_pos_trivial[of "i + 2 ^ 32" "2 ^ 32"] by simp
        then show ?thesis
          using False sc[of buf t_int32 4 "to_be 4 i" limit v] c Suc.prems MInt
          by (simp add: type_numbers mm_payload_def uint_limit_def be_to_be max_size_def Let_def)
      qed
    next
      case (MDouble bs)
      show ?thesis
        using sc[of buf t_double 8 bs limit v] c Suc.prems MDouble
        by (simp add: type_numbers mm_payload_def uint_limit_def blen_def max_size_def)
    next
      case (MFloat bs)
      show ?thesis
        using sc[of buf t_float 4 bs limit v] c Suc.prems MFloat
        by (simp add: type_numbers mm_payload_def uint_limit_def blen_def max_size_def)
    next
      case (MBytes bs)
      show ?thesis
        using sc[of buf t_bytes "length bs" bs limit v] c Suc.prems MBytes
        by (simp add: type_numbers mm_payload_def uint_limit_def blen_def)
    next
      case (MBool b)
      show ?thesis
        using decode_head[of t_bool "if b then 1 else 0" buf off limit base left k] c l MBool
        by (auto simp: type_numbers max_size_def Let_def)
    next
      case (MArray vs)
      let ?body = "concat (map write_val vs)" and ?off = "off + blen (head t_array (length vs))"
      have w: "takes_back buf base limit (mm_decode k buf base limit False) x" if "x \<in> set vs" for x
        by (rule Suc.IH) (use that Suc.prems MArray height_le[of x vs] in \<open>auto simp: list_all_iff\<close>)
      have b: "bytes_at buf off (head t_array (length vs))" "bytes_at buf ?off ?body" "?off + blen ?body \<le> limit"
        using c MArray by (simp_all add: bytes_at_append)
      have r: "read_array (mm_decode k buf base limit False) (length vs) ?off (left - 1) =
          Inr (vs, ?off + blen ?body, left - 1 - int (sum_list (map vals vs)))"
        by (rule takes_back_array[OF w]) (use b c MArray head_pos[of t_array "length vs"] in auto)
      have n: "int (length vs) \<le> blen ?body" using concat_length[of vs 1 write_val] write_pos by simp
      have "mm_decode (Suc k) buf base limit False off left =
          container (mm_decode k buf base limit False) t_array (int (length vs)) limit ?off (left - 1)"
        using decode_head[of t_array "length vs" buf off limit base left k] b(1,3) c(1) l Suc.prems MArray blen_nonneg[of ?body]
        by (simp add: type_numbers Let_def)
      then show ?thesis
        using r n b(3) MArray by (simp add: container_def ensure_def type_numbers)
    next
      case (MMap d)
      let ?body = "concat (map (\<lambda>(k, v). write_val k @ write_val v) d)" and ?off = "off + blen (head t_map (length d))"
      have w: "takes_back buf base limit (mm_decode k buf base limit False) x \<and> takes_back buf base limit (mm_decode k buf base limit False) y"
        if "(x, y) \<in> set d" for x y
        using that Suc.prems MMap height_entry[OF that]
        by (auto simp: list_all_iff intro!: Suc.IH)
      have b: "bytes_at buf off (head t_map (length d))" "bytes_at buf ?off ?body" "?off + blen ?body \<le> limit"
        using c MMap by (simp_all add: bytes_at_append)
      have r: "read_map (mm_decode k buf base limit False) (length d) [] ?off (left - 1) =
          Inr ([] @ d, ?off + blen ?body, left - 1 - int (entry_vals d))"
        by (rule takes_back_map[OF w]) (use b c Suc.prems MMap head_pos[of t_map "length d"] in \<open>auto simp: entry_vals_def\<close>)
      have "2 \<le> blen (write_val x @ write_val y)" for x y using write_pos[of x] write_pos[of y] by simp
      then have n: "int (length d) * 2 \<le> blen ?body"
        by (intro concat_length) (auto simp del: blen_append split: prod.split)
      have "mm_decode (Suc k) buf base limit False off left =
          container (mm_decode k buf base limit False) t_map (int (length d)) limit ?off (left - 1)"
        using decode_head[of t_map "length d" buf off limit base left k] b(1,3) c(1) l Suc.prems MMap blen_nonneg[of ?body]
        by (simp add: type_numbers Let_def)
      then show ?thesis
        using r n b(3) MMap by (simp add: container_def ensure_def type_numbers entry_vals_def)
    qed
  qed
qed

lemma write_read:
  assumes "writable v" "height v \<le> max_levels" "int (vals v) \<le> left" "0 \<le> base" "base \<le> blen pre"
    and "blen (pre @ write_val v) \<le> limit"
  shows "mm_decode max_levels (pre @ write_val v @ post) base limit False (blen pre) left
    = Inr (v, blen (pre @ write_val v), left - int (vals v))"
proof -
  have "bytes_at (pre @ write_val v @ post) (blen pre) (write_val v)"
    using blen_nonneg[of post] by (auto simp: at_drop blen_def)
  then show ?thesis
    using write_takes_back[OF assms(1,2), of "pre @ write_val v @ post" base limit] assms
    by (simp add: takes_back_def)
qed

section \<open>Properties\<close>

definition demo_meta :: "int \<Rightarrow> (mval \<times> mval) list" where
  "demo_meta v = [(MStr ''record_size'', MInt 24), (MStr ''node_count'', MInt 1), (MStr ''ip_version'', MInt v),
     (MStr ''binary_format_major_version'', MInt 2)]"

definition demo_file :: "int \<Rightarrow> bytes" where
  "demo_file v = [0, 0, 17, 0, 0, 1] @ replicate 16 0 @ write_val (MStr ''a'') @ metadata_marker @ write_val (MMap (demo_meta v))"

definition demo_reader :: "int \<Rightarrow> reader" where
  "demo_reader v = \<lparr>rd_buf = demo_file v, rd_closed = False, rd_metadata = demo_meta v, rd_record_size = 24, rd_node_count = 1,
     rd_ip_version = v, rd_tree_size = 6, rd_data_start = 22, rd_data_end = 24, rd_ipv4_start = (if v = 4 then 0 else 17)\<rparr>"

lemma demo_opens: "open_reader (demo_file 4) = Inr (demo_reader 4)" "open_reader (demo_file 6) = Inr (demo_reader 6)"
  by code_simp+

lemma demo_starts: "start_node (demo_reader 4) (IPv4 0) = 0"
  by code_simp

lemma demo_trie: "reads_as (demo_reader 4) 0 (Fork (Rec 22) Miss)"
proof (rule reads_fork)
  have "rd_node_count (demo_reader 4) = 1" "rd_tree_size (demo_reader 4) = 6" by (simp_all add: demo_reader_def)
  moreover have "read_node (rd_record_size (demo_reader 4)) (rd_buf (demo_reader 4)) 0 0 = 17"
    "read_node (rd_record_size (demo_reader 4)) (rd_buf (demo_reader 4)) 0 1 = 1" by code_simp+
  ultimately show "0 < rd_node_count (demo_reader 4)"
    "reads_as (demo_reader 4) (read_node (rd_record_size (demo_reader 4)) (rd_buf (demo_reader 4)) 0 0) (Rec 22)"
    "reads_as (demo_reader 4) (read_node (rd_record_size (demo_reader 4)) (rd_buf (demo_reader 4)) 0 1) Miss"
    using reads_rec[of "demo_reader 4" 17] reads_miss[of "demo_reader 4"] by simp_all
qed

text \<open>C23: Every value a database can hold is read back from what a writer of the published format stored for it in place, as long as it nests no deeper than the 65 levels the reader walks and has no more values than what is left of the reader's budget; it may stand anywhere in its section, with other bytes before and behind it, and the reading ends exactly after it and pays exactly for its values.\<close>

theorem written_field_reads_back:
  assumes "writable v" and "height v \<le> max_levels" and "int (vals v) \<le> left" and "0 \<le> base" and "base \<le> blen pre"
    and "blen (pre @ write_val v) \<le> limit"
  shows "mm_decode max_levels (pre @ write_val v @ post) base limit False (blen pre) left
    = Inr (v, blen (pre @ write_val v), left - int (vals v))"
  using assms by (rule write_read)

theorem written_field_reads_back_witness:
  "mm_decode max_levels ([7] @ write_val (MMap (demo_meta 4)) @ [9]) 0 (blen ([7] @ write_val (MMap (demo_meta 4)) @ [9])) False (blen [7]) max_fields
    = Inr (MMap (demo_meta 4), blen ([7] @ write_val (MMap (demo_meta 4))), max_fields - int (vals (MMap (demo_meta 4))))"
proof (rule written_field_reads_back)
  show "writable (MMap (demo_meta 4))"
    by (simp add: demo_meta_def bytes_of_def in_range_def uint_byte max_size_def)
  show "height (MMap (demo_meta 4)) \<le> max_levels" "int (vals (MMap (demo_meta 4))) \<le> max_fields"
    by (simp_all add: demo_meta_def max_levels_def max_fields_def)
qed (simp_all add: blen_def)

text \<open>C24: Looking an address up is walking its bits down the trie the search tree stands for: a missing branch is a miss, a record is decoded where it points, and an address that ends inside the tree is an error, never a miss.\<close>

theorem lookup_is_trie_descent:
  assumes "reads_as r (start_node r a) t"
  shows "mm_lookup r a = answer_at r (descend t (addr_bits a))"
  using assms by (rule lookup_descends)

theorem lookup_is_trie_descent_witness:
  "mm_lookup (demo_reader 4) (IPv4 0) = Inr (Some (MStr ''a''))"
proof -
  have d: "reads_as (demo_reader 4) (start_node (demo_reader 4) (IPv4 0)) (Fork (Rec 22) Miss)"
    using demo_trie demo_starts by simp
  have "answer_at (demo_reader 4) (descend (Fork (Rec 22) Miss) (addr_bits (IPv4 0))) = Inr (Some (MStr ''a''))"
    by code_simp
  then show ?thesis using lookup_is_trie_descent[OF d] by simp
qed

text \<open>C25: Whatever the file holds, however its pointers share and nest their targets, one lookup returns a record of at most 100000 values or fails by the reader's own error or by that of an unhashable key, which the reader turns into its own.\<close>

theorem record_size_bounded:
  assumes "open_reader buf = Inr r"
  shows "case mm_lookup r a of Inl e \<Rightarrow> e = MmdbError \<or> e = Raised TypeError | Inr None \<Rightarrow> True | Inr (Some v) \<Rightarrow> int (vals v) \<le> 100000"
proof (cases "mm_lookup r a")
  case (Inr x)
  then show ?thesis
    using open_reader_ok[OF assms] lookup_bounded[of r a] by (cases x) (simp_all add: max_fields_def)
qed (use open_reader_ok[OF assms] lookup_errors[of r a] in auto)

theorem record_size_bounded_witness:
  "case mm_lookup (demo_reader 4) (IPv4 3) of Inl e \<Rightarrow> e = MmdbError \<or> e = Raised TypeError | Inr None \<Rightarrow> True | Inr (Some v) \<Rightarrow> int (vals v) \<le> 100000"
  by (rule record_size_bounded[OF demo_opens(1)])

text \<open>In a database of IPv6 networks the cached start node answers every IPv4 address as the full walk from the root answers its place under ::/96.\<close>

lemma cached_start_is_invisible:
  assumes "open_reader buf = Inr r" and "rd_ip_version r = 6" and "0 \<le> n" and "n < 2 ^ 32"
  shows "mm_lookup r (IPv4 n) = mm_lookup r (IPv6 n s)"
  using open_reader_ok[OF assms(1)] assms(2-4) by (intro lookup_v4_as_v6) simp_all

lemma cached_start_is_invisible_example:
  "mm_lookup (demo_reader 6) (IPv4 5) = mm_lookup (demo_reader 6) (IPv6 5 None)"
  by (rule cached_start_is_invisible[OF demo_opens(2)]) (simp_all add: demo_reader_def)

definition padded_file :: bytes where
  "padded_file = demo_file 4 @ [1, 2, 3]"

definition padded_reader :: reader where
  "padded_reader = (demo_reader 4)\<lparr>rd_buf := padded_file\<rparr>"

lemma padded_opens: "open_reader padded_file = Inr padded_reader"
  by code_simp

text \<open>No file makes a lookup read outside the tree and the data section: two files with one layout that agree up to the end of the data section answer every address alike, whatever follows in either.\<close>

lemma lookups_stay_in_section:
  assumes "open_reader a = Inr r" and "open_reader b = Inr s" and "same_reader r s"
  shows "mm_lookup r ip = mm_lookup s ip"
  using open_reader_ok[OF assms(1)] open_reader_ok[OF assms(2)] assms(3) by (intro lookup_local) simp_all

lemma lookups_stay_in_section_example:
  "mm_lookup (demo_reader 4) (IPv4 9) = mm_lookup padded_reader (IPv4 9)"
  by (rule lookups_stay_in_section[OF demo_opens(1) padded_opens])
    (simp add: same_reader_def padded_reader_def, code_simp)

end
