(* ===== verification/NetflowDecode.thy ===== *)
theory NetflowDecode
  imports NetflowTemplate PyIp
begin

text \<open>
  NetFlow v5, v9 and IPFIX decoding (\<open>app/receivers/netflow.py\<close>): one record, one set, one
  packet, the framing of IPFIX over TCP, and the receiver's per-packet step. Instants are integers
  in nanoseconds, which hold exactly what the code keeps as floating-point seconds; \<open>FIso\<close> stands
  for the rendered text of an instant. Text is taken byte for byte. A time field too long for a float
  raises \<^const>\<open>OverflowError\<close>, a protocol number too long to print \<^const>\<open>ValueError\<close>; the
  template cache keeps what it had learned by then.
\<close>

section \<open>Values\<close>

datatype fval = FInt int | FText string | FIso int

type_synonym frecord = "(string, fval) dict"

datatype fkind = KUint | KIpv4 | KIpv6 | KMac | KStr

definition nf_fields :: "(int, string \<times> fkind) dict" where
  "nf_fields =
     [(1, ''bytes'', KUint), (2, ''packets'', KUint), (3, ''flows'', KUint),
      (4, ''protocol_number'', KUint), (5, ''tos'', KUint), (6, ''tcp_flags'', KUint),
      (7, ''src_port'', KUint), (8, ''src_ip'', KIpv4), (9, ''src_mask'', KUint),
      (10, ''input_snmp'', KUint), (11, ''dst_port'', KUint), (12, ''dst_ip'', KIpv4),
      (13, ''dst_mask'', KUint), (14, ''output_snmp'', KUint), (15, ''next_hop'', KIpv4),
      (16, ''src_as'', KUint), (17, ''dst_as'', KUint),
      (21, ''last_switched'', KUint), (22, ''first_switched'', KUint),
      (23, ''out_bytes'', KUint), (24, ''out_packets'', KUint),
      (27, ''src_ip'', KIpv6), (28, ''dst_ip'', KIpv6),
      (29, ''src_mask'', KUint), (30, ''dst_mask'', KUint),
      (31, ''flow_label'', KUint), (32, ''icmp_type_code'', KUint),
      (56, ''src_mac'', KMac), (58, ''src_vlan'', KUint), (59, ''dst_vlan'', KUint),
      (60, ''ip_version'', KUint), (61, ''direction'', KUint), (62, ''next_hop'', KIpv6),
      (80, ''dst_mac'', KMac), (82, ''interface_name'', KStr),
      (95, ''application_id'', KUint), (96, ''application_name'', KStr),
      (136, ''flow_end_reason'', KUint), (148, ''flow_id'', KUint),
      (150, ''flow_start_seconds'', KUint), (151, ''flow_end_seconds'', KUint),
      (152, ''flow_start_ms'', KUint), (153, ''flow_end_ms'', KUint),
      (154, ''flow_start_us'', KUint), (155, ''flow_end_us'', KUint),
      (156, ''flow_start_ns'', KUint), (157, ''flow_end_ns'', KUint),
      (176, ''icmp_type'', KUint), (177, ''icmp_code'', KUint),
      (210, ''_pad'', KUint), (239, ''biflow_direction'', KUint)]"

definition protocols :: "(int, string) dict" where
  "protocols =
     [(1, ''icmp''), (2, ''igmp''), (6, ''tcp''), (17, ''udp''), (41, ''ipv6''), (47, ''gre''),
      (50, ''esp''), (51, ''ah''), (58, ''ipv6-icmp''), (89, ''ospf''), (103, ''pim''),
      (112, ''vrrp''), (132, ''sctp'')]"

text \<open>\<open>str(ip_address(raw))\<close>: four bytes dotted, sixteen with the first longest zero run collapsed.\<close>

fun pair_up :: "bytes \<Rightarrow> int list" where
  "pair_up (a # b # bs) = (uint a * 256 + uint b) # pair_up bs"
| "pair_up _ = []"

fun zero_run :: "int list \<Rightarrow> nat" where
  "zero_run [] = 0"
| "zero_run (h # hs) = (if h = 0 then Suc (zero_run hs) else 0)"

definition v6_text :: "int list \<Rightarrow> string" where
  "v6_text hs =
     (let runs = map (\<lambda>i. zero_run (drop i hs)) [0 ..< length hs];
          best = arg_min_list (\<lambda>i. - int (runs ! i)) [0 ..< length hs];
          n = runs ! best;
          strs = map hex_str hs
      in if n \<le> 1 then join '':'' strs
         else join '':'' ((if best = 0 then [[]] else []) @ take best strs @ [[]] @ drop (best + n) strs
                @ (if best + n = length hs then [[]] else [])))"

definition ip_text :: "bytes \<Rightarrow> string option" where
  "ip_text raw =
     (if length raw = 4 then Some (join ''.'' (map (nat_str \<circ> uint) raw))
      else if length raw = 16 then Some (v6_text (pair_up raw))
      else None)"

definition hex_byte :: "8 word \<Rightarrow> string" where
  "hex_byte b = [hex_digit (uint b div 16), hex_digit (uint b mod 16)]"

definition byte_text :: "bytes \<Rightarrow> string" where
  "byte_text raw = map (\<lambda>b. char_of (uint b)) raw"

definition rstrip_nul :: "string \<Rightarrow> string" where
  "rstrip_nul s = rev (dropWhile (\<lambda>c. code c = 0) (rev s))"

definition decode_value :: "fkind \<Rightarrow> bytes \<Rightarrow> fval option" where
  "decode_value kind raw =
     (if raw = [] then None
      else case kind of
        KUint \<Rightarrow> Some (FInt (be raw))
      | KIpv4 \<Rightarrow> map_option FText (ip_text raw)
      | KIpv6 \<Rightarrow> map_option FText (ip_text raw)
      | KMac \<Rightarrow> if length raw = 6 then Some (FText (join '':'' (map hex_byte raw))) else None
      | KStr \<Rightarrow> (let s = strip (rstrip_nul (byte_text raw)) in if s = [] then None else Some (FText s)))"

definition decode_unknown :: "bytes \<Rightarrow> fval option" where
  "decode_unknown raw =
     (if raw = [] then None
      else if blen raw \<le> 8 then Some (FInt (be raw))
      else Some (FText (concat (map hex_byte raw))))"

text \<open>The interpreter prints no integer of more than 4300 digits.\<close>

definition print_limit :: int where "print_limit = 10 ^ 4300"

definition proto_name :: "fval option \<Rightarrow> py_error + string option" where
  "proto_name number =
     (case number of
        Some (FInt n) \<Rightarrow>
          (case dict_get protocols n of Some p \<Rightarrow> Inr (Some p)
           | None \<Rightarrow> if print_limit \<le> n then Inl ValueError else Inr (Some (int_str n)))
      | _ \<Rightarrow> Inr None)"

section \<open>Times\<close>

definition second :: int where "second = 1000000000"
definition max_time :: int where "max_time = 4102444800 * second"

text \<open>The least integer that no float approximates.\<close>

definition float_limit :: int where "float_limit = 2 ^ 1024 - 2 ^ 970"

definition start_ies :: "(string \<times> int) list" where
  "start_ies = [(''flow_start_seconds'', 1000000000), (''flow_start_ms'', 1000000),
     (''flow_start_us'', 1000), (''flow_start_ns'', 1)]"

definition end_ies :: "(string \<times> int) list" where
  "end_ies = [(''flow_end_seconds'', 1000000000), (''flow_end_ms'', 1000000),
     (''flow_end_us'', 1000), (''flow_end_ns'', 1)]"

definition to_float :: "int \<Rightarrow> py_error + int" where
  "to_float v = (if float_limit \<le> v then Inl OverflowError else Inr v)"

fun abs_epoch :: "frecord \<Rightarrow> (string \<times> int) list \<Rightarrow> string \<Rightarrow> int option \<Rightarrow> py_error + int option" where
  "abs_epoch rc ((key, unit) # ies) uptime_key boot =
     (case dict_get rc key of
        Some (FInt v) \<Rightarrow> sbind (to_float v) (\<lambda>v. Inr (Some (v * unit)))
      | _ \<Rightarrow> abs_epoch rc ies uptime_key boot)"
| "abs_epoch rc [] uptime_key boot =
     (case (dict_get rc uptime_key, boot) of
        (Some (FInt v), Some b) \<Rightarrow> sbind (to_float v) (\<lambda>v. Inr (Some (b + v * 1000000)))
      | _ \<Rightarrow> Inr None)"

definition in_window :: "int \<Rightarrow> bool" where
  "in_window t \<longleftrightarrow> 0 \<le> t \<and> t \<le> max_time"

definition sane :: "int option \<Rightarrow> int \<Rightarrow> int option" where
  "sane epoch fallback =
     (case epoch of None \<Rightarrow> None
      | Some t \<Rightarrow> if in_window t then Some t else if in_window fallback then Some fallback else None)"

text \<open>\<open>round\<close> to milliseconds, halves to the even one.\<close>

definition round_ms :: "int \<Rightarrow> int" where
  "round_ms d =
     (let q = d div 1000000; r = d mod 1000000 in
      if 2 * r < 1000000 then q else if 1000000 < 2 * r then q + 1 else q + q mod 2)"

definition set_iso :: "string \<Rightarrow> int option \<Rightarrow> frecord \<Rightarrow> frecord" where
  "set_iso key t rc = (case t of None \<Rightarrow> rc | Some v \<Rightarrow> dict_set key (FIso v) rc)"

definition stamp_times :: "frecord \<Rightarrow> int option \<Rightarrow> int \<Rightarrow> py_error + frecord" where
  "stamp_times rc boot export_epoch =
     (let rc = set_iso ''export_time'' (Some export_epoch) rc in
      sbind (abs_epoch rc start_ies ''first_switched'' boot) (\<lambda>s.
      sbind (abs_epoch rc end_ies ''last_switched'' boot) (\<lambda>e.
        (let start = sane s export_epoch; end = sane e export_epoch;
             rc = set_iso ''end_time'' end (set_iso ''start_time'' start rc)
         in Inr (case (start, end) of
                   (Some a, Some b) \<Rightarrow>
                     if a \<le> b then dict_set ''duration_ms'' (FInt (round_ms (b - a))) rc else rc
                 | _ \<Rightarrow> rc)))))"

definition update_rec :: "frecord \<Rightarrow> frecord \<Rightarrow> frecord" where
  "update_rec rc fs = foldl (\<lambda>d kv. dict_set (fst kv) (snd kv) d) rc fs"

definition finish :: "frecord \<Rightarrow> frecord \<Rightarrow> int option \<Rightarrow> int \<Rightarrow> py_error + frecord" where
  "finish fs meta boot export_epoch =
     (let rc = update_rec meta fs in
      sbind (proto_name (dict_get rc ''protocol_number'')) (\<lambda>name.
        stamp_times (case name of Some p \<Rightarrow> dict_set ''protocol'' (FText p) rc | None \<Rightarrow> rc)
          boot export_epoch))"

definition index_flows :: "frecord list \<Rightarrow> frecord list" where
  "index_flows flows = map (\<lambda>(i, rc). dict_set ''flow_index'' (FInt (int i)) rc) (enumerate 0 flows)"

section \<open>Records and sets\<close>

text \<open>The length of one field: fixed, or read from the record when the template says 65535.\<close>

definition field_length :: "bytes \<Rightarrow> int \<Rightarrow> tfield \<Rightarrow> (int \<times> int) option" where
  "field_length body i f =
     (if tf_length f = 65535 then
        (if blen body \<le> i then None
         else (let n = u8 body i in
               if n = 255 then (if blen body < i + 3 then None else Some (u16 body (i + 1), i + 3))
               else Some (n, i + 1)))
      else Some (tf_length f, i))"

definition ie_name :: "tfield \<Rightarrow> string" where
  "ie_name f =
     (if tf_enterprise f \<noteq> 0 then ''ie_'' @ int_str (tf_enterprise f) @ ''_'' @ int_str (tf_ie f)
      else ''ie_'' @ int_str (tf_ie f))"

text \<open>What a field contributes: a key and a value, or nothing.\<close>

definition field_value :: "tfield \<Rightarrow> bytes \<Rightarrow> (string \<times> fval) option" where
  "field_value f raw =
     (case (if tf_enterprise f = 0 then dict_get nf_fields (tf_ie f) else None) of
        None \<Rightarrow> map_option (Pair (ie_name f)) (decode_unknown raw)
      | Some (key, kind) \<Rightarrow>
          if key = ''_pad'' then None else map_option (Pair key) (decode_value kind raw))"

fun read_fields :: "bytes \<Rightarrow> tfield list \<Rightarrow> int \<Rightarrow> frecord \<Rightarrow> (frecord \<times> int) option" where
  "read_fields body [] i out = Some (out, i)"
| "read_fields body (f # fs) i out =
     (case field_length body i f of None \<Rightarrow> None
      | Some (n, j) \<Rightarrow>
          if blen body < j + n then None
          else read_fields body fs (j + n)
                 (case field_value f (slice body j n) of None \<Rightarrow> out | Some (k, v) \<Rightarrow> dict_set k v out))"

definition read_record :: "bytes \<Rightarrow> int \<Rightarrow> template \<Rightarrow> (frecord \<times> int) option" where
  "read_record body i t = read_fields body (tm_fields t) i []"

function decode_data_set ::
    "bytes \<Rightarrow> template \<Rightarrow> frecord \<Rightarrow> int option \<Rightarrow> int \<Rightarrow> int \<Rightarrow> int \<Rightarrow> frecord list
       \<Rightarrow> py_error + frecord list" where
  "decode_data_set body t meta boot export_epoch budget i flows =
     (if int (length flows) < budget \<and> i < blen body then
        (case read_record body i t of None \<Rightarrow> Inr flows
         | Some (fs, nxt) \<Rightarrow>
             if nxt \<le> i then Inr flows
             else sbind (finish fs meta boot export_epoch) (\<lambda>flow.
                    decode_data_set body t meta boot export_epoch budget nxt (flows @ [flow])))
      else Inr flows)"
  by pat_completeness auto
termination
  by (relation "measure (\<lambda>(body, _, _, _, _, _, i, _). nat (blen body - i))") auto

declare decode_data_set.simps [simp del]

definition meta_of :: "string \<Rightarrow> string \<Rightarrow> int \<Rightarrow> int option \<Rightarrow> frecord" where
  "meta_of version exporter sequence domain =
     [(''flow_version'', FText version), (''flow_sequence'', FInt sequence)]
     @ (if exporter = [] then [] else [(''exporter'', FText exporter)])
     @ (case domain of None \<Rightarrow> [] | Some d \<Rightarrow> [(''observation_domain'', FInt d)])"

section \<open>Packets\<close>

definition v5_fields :: "bytes \<Rightarrow> int \<Rightarrow> frecord" where
  "v5_fields data o5 =
     List.map_filter (\<lambda>(k, v). map_option (Pair k) v)
       [(''src_ip'', decode_value KIpv4 (slice data o5 4)),
        (''dst_ip'', decode_value KIpv4 (slice data (o5 + 4) 4)),
        (''next_hop'', decode_value KIpv4 (slice data (o5 + 8) 4)),
        (''src_port'', Some (FInt (u16 data (o5 + 32)))), (''dst_port'', Some (FInt (u16 data (o5 + 34)))),
        (''protocol_number'', Some (FInt (u8 data (o5 + 38)))),
        (''packets'', Some (FInt (u32 data (o5 + 16)))), (''bytes'', Some (FInt (u32 data (o5 + 20)))),
        (''tcp_flags'', Some (FInt (u8 data (o5 + 37)))), (''tos'', Some (FInt (u8 data (o5 + 39)))),
        (''input_snmp'', Some (FInt (u16 data (o5 + 12)))),
        (''output_snmp'', Some (FInt (u16 data (o5 + 14)))),
        (''src_as'', Some (FInt (u16 data (o5 + 40)))), (''dst_as'', Some (FInt (u16 data (o5 + 42)))),
        (''src_mask'', Some (FInt (u8 data (o5 + 44)))), (''dst_mask'', Some (FInt (u8 data (o5 + 45)))),
        (''first_switched'', Some (FInt (u32 data (o5 + 24)))),
        (''last_switched'', Some (FInt (u32 data (o5 + 28))))]"

definition v5_count :: "bytes \<Rightarrow> int" where
  "v5_count data = min (min (u16 data 2) ((blen data - 24) div 48)) max_records"

definition v5_meta :: "bytes \<Rightarrow> string \<Rightarrow> frecord" where
  "v5_meta data exporter =
     meta_of ''v5'' exporter (u32 data 16) None
     @ [(''engine_type'', FInt (u8 data 20)), (''engine_id'', FInt (u8 data 21)),
        (''sampling_mode'', FInt (u16 data 22 div 16384)),
        (''sampling_interval'', FInt (u16 data 22 mod 16384))]"

definition decode_v5 :: "bytes \<Rightarrow> string \<Rightarrow> py_error + frecord list" where
  "decode_v5 data exporter =
     (if blen data < 24 \<or> u16 data 0 \<noteq> 5 then Inr []
      else
        (let export_epoch = u32 data 8 * second + min (u32 data 12) 999999999;
             boot = export_epoch - u32 data 4 * 1000000
         in sbind (map_res (\<lambda>n. finish (v5_fields data (24 + int n * 48)) (v5_meta data exporter)
                                  (Some boot) export_epoch)
                     [0 ..< nat (v5_count data)])
              (\<lambda>flows. Inr (index_flows flows))))"

text \<open>One step of the set walk: learn, or decode against the cache.\<close>

definition learn_set :: "bytes \<Rightarrow> string \<Rightarrow> int \<Rightarrow> bool \<Rightarrow> bool \<Rightarrow> tcache \<Rightarrow> tcache" where
  "learn_set body exporter domain ipfix options c =
     (if \<not> options then learn_templates body exporter domain ipfix 0 c
      else if ipfix then learn_options_ipfix body exporter domain 0 c
      else learn_options_v9 body exporter domain 0 c)"

definition data_set ::
    "bytes \<Rightarrow> template_key \<Rightarrow> frecord \<Rightarrow> int option \<Rightarrow> int \<Rightarrow> frecord list \<Rightarrow> tcache
       \<Rightarrow> (py_error + frecord list) \<times> tcache" where
  "data_set body key meta boot export_epoch flows c =
     (case cache_get key c of
        (None, c) \<Rightarrow> (Inr flows, c\<lparr>tc_unknown_drops := tc_unknown_drops c + 1\<rparr>)
      | (Some t, c) \<Rightarrow>
          if tm_options t then (Inr flows, c\<lparr>tc_options_skipped := tc_options_skipped c + 1\<rparr>)
          else (sbind (decode_data_set body t meta boot export_epoch
                         (max_records - int (length flows)) 0 []) (\<lambda>new. Inr (flows @ new)), c))"

definition set_step ::
    "bytes \<Rightarrow> int \<Rightarrow> string \<Rightarrow> int \<Rightarrow> frecord \<Rightarrow> int option \<Rightarrow> int \<Rightarrow> bool
       \<Rightarrow> frecord list \<Rightarrow> tcache \<Rightarrow> (py_error + frecord list) \<times> tcache" where
  "set_step body set_id exporter domain meta boot export_epoch ipfix flows c =
     (if set_id = (if ipfix then 2 else 0) then (Inr flows, learn_set body exporter domain ipfix False c)
      else if set_id = (if ipfix then 3 else 1) then (Inr flows, learn_set body exporter domain ipfix True c)
      else if 256 \<le> set_id then data_set body (exporter, domain, set_id) meta boot export_epoch flows c
      else (Inr flows, c))"

function walk_sets ::
    "bytes \<Rightarrow> int \<Rightarrow> int \<Rightarrow> string \<Rightarrow> int \<Rightarrow> frecord \<Rightarrow> int option \<Rightarrow> int \<Rightarrow> bool
       \<Rightarrow> frecord list \<Rightarrow> tcache \<Rightarrow> (py_error + frecord list) \<times> tcache" where
  "walk_sets data offset end exporter domain meta boot export_epoch ipfix flows c =
     (if offset + 4 \<le> end \<and> int (length flows) < max_records
         \<and> 4 \<le> u16 data (offset + 2) \<and> offset + u16 data (offset + 2) \<le> end
      then
        (case set_step (slice data (offset + 4) (u16 data (offset + 2) - 4)) (u16 data offset)
                exporter domain meta boot export_epoch ipfix flows c of
           (Inl e, c) \<Rightarrow> (Inl e, c)
         | (Inr flows, c) \<Rightarrow>
             walk_sets data (offset + u16 data (offset + 2)) end exporter domain meta boot export_epoch
               ipfix flows c)
      else (Inr (take (nat max_records) flows), c))"
  by pat_completeness auto
termination
  by (relation "measure (\<lambda>(_, offset, end, _). nat (end - offset))") auto

declare walk_sets.simps [simp del]

definition indexed :: "(py_error + frecord list) \<times> tcache \<Rightarrow> (py_error + frecord list) \<times> tcache" where
  "indexed r = (sbind (fst r) (\<lambda>flows. Inr (index_flows flows)), snd r)"

definition decode_v9 :: "bytes \<Rightarrow> string \<Rightarrow> tcache \<Rightarrow> (py_error + frecord list) \<times> tcache" where
  "decode_v9 data exporter c =
     (if blen data < 20 \<or> u16 data 0 \<noteq> 9 then (Inr [], c)
      else
        (let export_epoch = u32 data 8 * second; boot = export_epoch - u32 data 4 * 1000000;
             domain = u32 data 16
         in indexed (walk_sets data 20 (blen data) exporter domain
                       (meta_of ''v9'' exporter (u32 data 12) (Some domain)) (Some boot) export_epoch
                       False [] c)))"

definition decode_ipfix :: "bytes \<Rightarrow> string \<Rightarrow> tcache \<Rightarrow> (py_error + frecord list) \<times> tcache" where
  "decode_ipfix data exporter c =
     (if blen data < 16 \<or> u16 data 0 \<noteq> 10 \<or> u16 data 2 < 16 then (Inr [], c)
      else
        (let domain = u32 data 12
         in indexed (walk_sets data 16 (min (u16 data 2) (blen data)) exporter domain
                       (meta_of ''ipfix'' exporter (u32 data 8) (Some domain)) None
                       (u32 data 4 * second) True [] c)))"

definition packet_version :: "bytes \<Rightarrow> int" where
  "packet_version data = (if 2 \<le> blen data then u16 data 0 else 0)"

definition max_packet :: int where "max_packet = 65535"

definition decode_packet :: "bytes \<Rightarrow> string \<Rightarrow> tcache \<Rightarrow> (py_error + frecord list) \<times> tcache" where
  "decode_packet data exporter c =
     (if data = [] \<or> max_packet < blen data then (Inr [], c)
      else if packet_version data = 5 then (decode_v5 data exporter, c)
      else if packet_version data = 9 then decode_v9 data exporter c
      else if packet_version data = 10 then decode_ipfix data exporter c
      else (Inr [], c))"

section \<open>The stream\<close>

function ipfix_frames :: "bytes \<Rightarrow> bytes list \<times> bytes" where
  "ipfix_frames buffer =
     (if blen buffer < 16 then ([], buffer)
      else if u16 buffer 0 \<noteq> 10 \<or> u16 buffer 2 < 16 then ([], [])
      else if blen buffer < u16 buffer 2 then ([], buffer)
      else (let (ms, r) = ipfix_frames (drop (nat (u16 buffer 2)) buffer)
            in (take (nat (u16 buffer 2)) buffer # ms, r)))"
  by pat_completeness auto
termination
  by (relation "measure length") (auto simp: blen_def)

declare ipfix_frames.simps [simp del]

section \<open>The receiver\<close>

text \<open>
  \<open>parse\<close> is \<open>pipeline.parse_events\<close> on the flows' JSON, \<^const>\<open>None\<close> when it raises; the queue is the
  list of submitted batches.
\<close>

record 'e receiver =
  rv_packets :: nat
  rv_flows :: nat
  rv_undecodable :: nat
  rv_parse_errors :: nat
  rv_templates :: tcache
  rv_queue :: "'e list list"

definition ingest_packet ::
    "(frecord list \<Rightarrow> 'e list option) \<Rightarrow> bytes \<Rightarrow> string \<Rightarrow> 'e receiver \<Rightarrow> 'e receiver" where
  "ingest_packet parse data peer rv =
     (let (r, c) = decode_packet data peer (rv_templates rv);
          rv = rv\<lparr>rv_packets := rv_packets rv + 1, rv_templates := c\<rparr>
      in case r of
           Inl _ \<Rightarrow> rv\<lparr>rv_undecodable := rv_undecodable rv + 1\<rparr>
         | Inr flows \<Rightarrow>
             if flows = [] then rv\<lparr>rv_undecodable := rv_undecodable rv + 1\<rparr>
             else (case parse flows of
                     None \<Rightarrow> rv\<lparr>rv_parse_errors := rv_parse_errors rv + 1\<rparr>
                   | Some events \<Rightarrow>
                       if events = [] then rv
                       else rv\<lparr>rv_flows := rv_flows rv + length events,
                              rv_queue := rv_queue rv @ [events]\<rparr>))"

definition max_tcp_buffer :: int where "max_tcp_buffer = 1048576"

text \<open>One read of the TCP handler: frame what has arrived, ingest the messages, bound the backlog.\<close>

definition tcp_read ::
    "(frecord list \<Rightarrow> 'e list option) \<Rightarrow> string \<Rightarrow> bytes \<Rightarrow> bytes \<times> 'e receiver \<Rightarrow> bytes \<times> 'e receiver" where
  "tcp_read parse peer data st =
     (let (messages, rest) = ipfix_frames (fst st @ data);
          rv = foldl (\<lambda>rv m. ingest_packet parse m peer rv) (snd st) messages
      in (if max_tcp_buffer < blen rest then [] else rest, rv))"

section \<open>Progress and bounds\<close>

lemma slice_length: "0 \<le> i \<Longrightarrow> 0 \<le> n \<Longrightarrow> i + n \<le> blen bs \<Longrightarrow> blen (slice bs i n) = n"
  by (simp add: blen_def slice_def nat_add_distrib[symmetric] nat_le_iff min_absorb1)

lemma u8_bound: "u8 bs i < 256"
proof -
  have "(256::int) ^ length (slice bs i 1) \<le> 256 ^ 1" by (rule power_increasing) (simp_all add: slice_def)
  then show ?thesis unfolding u8_def using be_bound[of "slice bs i 1"] by simp
qed

lemma u16_bound: "u16 bs i < 65536"
proof -
  have "(256::int) ^ length (slice bs i 2) \<le> 256 ^ 2" by (rule power_increasing) (simp_all add: slice_def)
  then show ?thesis unfolding u16_def using be_bound[of "slice bs i 2"] by simp
qed

lemma u32_bound: "u32 bs i < 4294967296"
proof -
  have "(256::int) ^ length (slice bs i 4) \<le> 256 ^ 4" by (rule power_increasing) (simp_all add: slice_def)
  then show ?thesis unfolding u32_def using be_bound[of "slice bs i 4"] by simp
qed

definition least_length :: "tfield \<Rightarrow> int" where
  "least_length f = (if tf_length f = 65535 then 1 else tf_length f)"

lemma field_length_advances:
  assumes "field_length body i f = Some (n, j)" "0 \<le> tf_length f"
  shows "0 \<le> n \<and> i \<le> j \<and> i + least_length f \<le> j + n"
  using assms by (auto simp: field_length_def least_length_def Let_def split: if_splits)

lemma read_fields_advances:
  "read_fields body fs i out = Some (r, j) \<Longrightarrow> \<forall>f\<in>set fs. 0 \<le> tf_length f \<Longrightarrow> i \<le> blen body \<Longrightarrow>
     i + sum_list (map least_length fs) \<le> j \<and> j \<le> blen body"
proof (induction body fs i out arbitrary: r j rule: read_fields.induct)
  case (2 body f fs i out)
  from "2.prems"(1) obtain n k where l: "field_length body i f = Some (n, k)" "\<not> blen body < k + n"
    and rd: "read_fields body fs (k + n)
        (case field_value f (slice body k n) of None \<Rightarrow> out | Some (a, v) \<Rightarrow> dict_set a v out) = Some (r, j)"
    by (auto split: option.splits if_splits)
  have "k + n + sum_list (map least_length fs) \<le> j \<and> j \<le> blen body"
    using "2.IH"[OF l(1) refl l(2) rd] "2.prems"(2) l(2) by simp
  then show ?case using field_length_advances[OF l(1)] "2.prems"(2) by simp
qed simp

lemma least_length_sum:
  assumes "\<forall>f\<in>set fs. 0 \<le> tf_length f" "record_len fs \<noteq> 0"
  shows "0 < sum_list (map least_length fs)"
proof -
  have nn: "\<forall>f\<in>set fs. 0 \<le> least_length f" using assms(1) by (auto simp: least_length_def)
  then have ge: "f \<in> set fs \<Longrightarrow> least_length f \<le> sum_list (map least_length fs)" for f
    by (intro member_le_sum_list) auto
  show ?thesis
  proof (cases "\<exists>f\<in>set fs. tf_length f = 65535")
    case True
    then obtain f where "f \<in> set fs" "least_length f = 1" by (auto simp: least_length_def)
    then show ?thesis using ge by force
  next
    case False
    then have "map least_length fs = map tf_length fs" by (auto simp: least_length_def)
    then have "record_len fs = sum_list (map least_length fs)"
      using False unfolding record_len_def by (simp only: list_ex_iff if_False)
    then have "sum_list (map least_length fs) \<noteq> 0" using assms(2) by simp
    moreover have "0 \<le> sum_list (map least_length fs)" using nn by (intro sum_list_nonneg) auto
    ultimately show ?thesis by simp
  qed
qed

text \<open>Decoding a record of a usable data template always moves forward, and never past the set.\<close>

lemma read_record_progress:
  assumes "template_sane t" "\<not> tm_options t" "read_record body i t = Some (r, j)" "i \<le> blen body"
  shows "i < j \<and> j \<le> blen body"
  using read_fields_advances[of body "tm_fields t" i "[]" r j] least_length_sum[of "tm_fields t"] assms
  by (auto simp: read_record_def template_sane_def)

lemma decode_data_set_length:
  "decode_data_set body t meta boot ex budget i flows = Inr out \<Longrightarrow> int (length flows) \<le> budget \<Longrightarrow>
     int (length out) \<le> budget"
proof (induction body t meta boot ex budget i flows arbitrary: out rule: decode_data_set.induct)
  case (1 body t meta boot ex budget i flows)
  from "1.prems" show ?case
    by (subst (asm) decode_data_set.simps)
      (fastforce split: if_splits option.splits prod.splits dest: "1.IH"[rotated 4])
qed

lemma data_set_inv:
  assumes "cache_inv c"
  shows "cache_inv (snd (data_set body key meta boot ex flows c))"
    and "tc_maxsize (snd (data_set body key meta boot ex flows c)) = tc_maxsize c"
  using cache_inv_get[OF assms, of key] assms
  by (auto simp: data_set_def cache_get_def cache_inv_def cache_ok_def split: option.splits)

lemma learn_set_inv:
  assumes "cache_inv c"
  shows "cache_inv (learn_set body exporter domain ipfix options c)"
    and "tc_maxsize (learn_set body exporter domain ipfix options c) = tc_maxsize c"
  using learn_inv[OF assms] by (simp_all add: learn_set_def)

lemma set_step_inv:
  assumes "cache_inv c"
  shows "cache_inv (snd (set_step body sid exporter domain meta boot ex ipfix flows c))"
    and "tc_maxsize (snd (set_step body sid exporter domain meta boot ex ipfix flows c)) = tc_maxsize c"
  using learn_set_inv[OF assms] data_set_inv[OF assms] assms by (simp_all add: set_step_def)

text \<open>The rule of the walk: a property of flows and cache kept by every set holds at the end.\<close>

lemma walk_sets_rule:
  assumes step: "\<And>body sid flows c. P flows c \<Longrightarrow>
      (case set_step body sid exporter domain meta boot ex ipfix flows c of
         (Inl e, c') \<Rightarrow> Q c' | (Inr flows', c') \<Rightarrow> P flows' c')"
    and fin: "\<And>flows c. P flows c \<Longrightarrow> Q c"
  shows "P flows c \<Longrightarrow> walk_sets data off end exporter domain meta boot ex ipfix flows c = (r, c') \<Longrightarrow>
     Q c' \<and> (\<forall>out. r = Inr out \<longrightarrow> (\<exists>f. P f c' \<and> out = take (nat max_records) f))"
proof (induction "nat (end - off)" arbitrary: off flows c rule: less_induct)
  case less
  let ?L = "u16 data (off + 2)"
  let ?st = "set_step (slice data (off + 4) (?L - 4)) (u16 data off) exporter domain meta boot ex ipfix flows c"
  show ?case
  proof (cases "off + 4 \<le> end \<and> int (length flows) < max_records \<and> 4 \<le> ?L \<and> off + ?L \<le> end")
    case True
    obtain r1 c1 where st: "?st = (r1, c1)" by (cases ?st)
    show ?thesis
    proof (cases r1)
      case (Inl e)
      then have "r = Inl e" "c' = c1" using less.prems(2) True st
        by (simp_all add: walk_sets.simps[of data off])
      then show ?thesis using step[OF less.prems(1)] st Inl by (metis (mono_tags, lifting) case_prod_conv old.sum.simps(5) sum.distinct(1))
    next
      case (Inr f1)
      have "walk_sets data (off + ?L) end exporter domain meta boot ex ipfix f1 c1 = (r, c')"
        using less.prems(2) True st Inr by (simp add: walk_sets.simps[of data off])
      moreover have "P f1 c1"
        using step[OF less.prems(1), of "slice data (off + 4) (?L - 4)" "u16 data off"] st Inr by simp
      ultimately show ?thesis using True by (intro less.hyps[of "off + ?L" f1 c1]) auto
    qed
  next
    case False
    then have "r = Inr (take (nat max_records) flows)" "c' = c"
      using less.prems(2) unfolding walk_sets.simps[of data off] if_not_P[OF False] by simp_all
    then show ?thesis using fin less.prems(1) by auto
  qed
qed

lemma walk_sets_inv:
  assumes "cache_inv c"
  shows "cache_inv (snd (walk_sets data off end exporter domain meta boot ex ipfix flows c)) \<and>
     tc_maxsize (snd (walk_sets data off end exporter domain meta boot ex ipfix flows c)) = tc_maxsize c"
proof -
  let ?I = "\<lambda>c'. cache_inv c' \<and> tc_maxsize c' = tc_maxsize c"
  have "case set_step body sid exporter domain meta boot ex ipfix f d of
      (Inl e, c') \<Rightarrow> ?I c' | (Inr flows', c') \<Rightarrow> ?I c'" if "?I d" for body sid f d
    using set_step_inv[of d body sid exporter domain meta boot ex ipfix f] that
    by (auto split: prod.splits sum.splits)
  note rule = walk_sets_rule[where P = "\<lambda>f. ?I" and Q = ?I, OF this]
  obtain r c' where w: "walk_sets data off end exporter domain meta boot ex ipfix flows c = (r, c')"
    by (cases "walk_sets data off end exporter domain meta boot ex ipfix flows c")
  have "?I c'" by (rule conjunct1[OF rule[OF _ _ _ w]]) (use assms in simp_all)
  then show ?thesis by (simp add: w)
qed

lemma decode_packet_inv:
  assumes "cache_inv c"
  shows "cache_inv (snd (decode_packet data exporter c)) \<and>
     tc_maxsize (snd (decode_packet data exporter c)) = tc_maxsize c"
  using walk_sets_inv[OF assms] assms
  by (simp add: decode_packet_def decode_v9_def decode_ipfix_def indexed_def Let_def)

lemma walk_sets_length:
  "walk_sets data off end exporter domain meta boot ex ipfix flows c = (Inr out, c') \<Longrightarrow>
     int (length out) \<le> max_records"
proof -
  note rule = walk_sets_rule[where P = "\<lambda>_ _. True" and Q = "\<lambda>_. True"]
  assume "walk_sets data off end exporter domain meta boot ex ipfix flows c = (Inr out, c')"
  then show ?thesis using rule by (fastforce split: prod.splits sum.splits simp: max_records_def)
qed

lemma length_index_flows [simp]: "length (index_flows flows) = length flows"
  by (simp add: index_flows_def)

lemma map_res_length: "map_res f xs = Inr ys \<Longrightarrow> length ys = length xs"
  by (auto simp: map_res_Inr_iff list_all2_iff)

lemma decode_packet_length:
  assumes "decode_packet data exporter c = (Inr flows, c')"
  shows "int (length flows) \<le> max_records"
proof -
  have v5: "decode_v5 data exporter = Inr flows \<Longrightarrow> int (length flows) \<le> max_records"
    by (auto simp: decode_v5_def Let_def v5_count_def max_records_def dest!: map_res_length split: if_splits)
  have ix: "int (length flows) \<le> max_records"
    if "indexed (walk_sets data off end exporter domain meta boot ex ipfix [] c) = (Inr flows, c')"
    for off "end" domain meta boot ex ipfix
  proof (cases "walk_sets data off end exporter domain meta boot ex ipfix [] c")
    case (Pair r d)
    with that obtain f where "r = Inr f" "flows = index_flows f"
      by (cases r) (auto simp: indexed_def)
    then show ?thesis using walk_sets_length Pair by fastforce
  qed
  show ?thesis using assms v5 ix
    by (auto simp: decode_packet_def decode_v9_def decode_ipfix_def Let_def max_records_def split: if_splits)
qed

section \<open>What a packet does not depend on\<close>

text \<open>Reads at or after offset \<open>k\<close> see only the bytes from \<open>k\<close> on; reads before \<open>n\<close> only the first \<open>n\<close>.\<close>

lemma slice_drop:
  assumes "drop k d = drop k e" "int k \<le> i"
  shows "slice d i n = slice e i n"
proof -
  have "nat i = k + (nat i - k)" using assms(2) by simp
  then have "drop (nat i) d = drop (nat i) e" using assms(1) by (metis drop_drop add.commute)
  then show ?thesis by (simp add: slice_def)
qed

lemma slice_take:
  assumes "0 \<le> i" "0 \<le> n" "i + n \<le> int k"
  shows "slice (take k d) i n = slice d i n"
  using assms by (simp add: slice_def drop_take min_def nat_le_iff)

lemma walk_sets_drop:
  assumes "drop k d = drop k e"
  shows "int k \<le> off \<Longrightarrow> walk_sets d off end exporter domain meta boot ex ipfix flows c =
     walk_sets e off end exporter domain meta boot ex ipfix flows c"
proof (induction "nat (end - off)" arbitrary: off flows c rule: less_induct)
  case less
  have s: "slice d i n = slice e i n" if "off \<le> i" for i n
    using slice_drop[OF assms] less.prems that by simp
  have u: "u16 d off = u16 e off" "u16 d (off + 2) = u16 e (off + 2)"
    "slice d (off + 4) n = slice e (off + 4) n" for n by (simp_all add: u16_def s)
  show ?case
    unfolding walk_sets.simps[of d off] walk_sets.simps[of e off] u
    using less.hyps[of "off + u16 e (off + 2)"] less.prems
    by (auto split: prod.split sum.split)
qed

lemma walk_sets_take:
  assumes "end \<le> int k"
  shows "0 \<le> off \<Longrightarrow> walk_sets (take k d) off end exporter domain meta boot ex ipfix flows c =
     walk_sets d off end exporter domain meta boot ex ipfix flows c"
proof (induction "nat (end - off)" arbitrary: off flows c rule: less_induct)
  case less
  let ?d = "take k d"
  have s: "slice ?d i n = slice d i n" if "off \<le> i" "0 \<le> n" "i + n \<le> end" for i n
    using slice_take[of i n k d] less.prems that assms by simp
  show ?case
  proof (cases "off + 4 \<le> end")
    case True
    then have u: "u16 ?d off = u16 d off" "u16 ?d (off + 2) = u16 d (off + 2)"
      by (simp_all add: u16_def s)
    let ?L = "u16 d (off + 2)"
    have b: "slice ?d (off + 4) (?L - 4) = slice d (off + 4) (?L - 4)" if "4 \<le> ?L" "off + ?L \<le> end"
      using that by (intro s) simp_all
    show ?thesis
      unfolding walk_sets.simps[of ?d off] walk_sets.simps[of d off] u
      using less.hyps[of "off + ?L"] less.prems b
      by (auto split: prod.split sum.split)
  qed (simp add: walk_sets.simps[of ?d off] walk_sets.simps[of d off])
qed

text \<open>The record count in the header of a v9 packet is ignored.\<close>

lemma decode_v9_count:
  assumes "length h = 2" "length a = 2" "length b = 2"
  shows "decode_v9 (h @ a @ rest) exporter c = decode_v9 (h @ b @ rest) exporter c"
proof -
  have d: "drop 4 (h @ a @ rest) = drop 4 (h @ b @ rest)" using assms by simp
  have s: "slice (h @ a @ rest) i n = slice (h @ b @ rest) i n" if "4 \<le> i" for i n
    by (rule slice_drop[OF d]) (use that in simp)
  have z: "u16 (h @ a @ rest) 0 = u16 (h @ b @ rest) 0" using assms by (simp add: u16_def slice_def)
  have l: "blen (h @ a @ rest) = blen (h @ b @ rest)" using assms by (simp add: blen_def)
  have u: "u32 (h @ a @ rest) i = u32 (h @ b @ rest) i" if "4 \<le> i" for i
    using s[OF that] by (simp add: u32_def)
  show ?thesis
    unfolding decode_v9_def z l Let_def
    by (simp add: u walk_sets_drop[OF d])
qed

text \<open>An IPFIX message is read up to the length it declares; what follows it is not seen.\<close>

lemma decode_ipfix_trailing:
  assumes "16 \<le> blen m" "blen m = u16 m 2"
  shows "decode_ipfix (m @ rest) exporter c = decode_ipfix m exporter c"
proof -
  have len: "16 \<le> length m" "int (length m) = u16 m 2" using assms by (simp_all add: blen_def)
  have s: "slice (m @ rest) i n = slice m i n" if "0 \<le> i" "0 \<le> n" "i + n \<le> 16" for i n
    using slice_take[of i n "length m" "m @ rest"] that len by simp
  have u: "u16 (m @ rest) 0 = u16 m 0" "u16 (m @ rest) 2 = u16 m 2" "u32 (m @ rest) 4 = u32 m 4"
    "u32 (m @ rest) 8 = u32 m 8" "u32 (m @ rest) 12 = u32 m 12"
    by (simp_all add: u16_def u32_def s)
  have w: "walk_sets (m @ rest) 16 (u16 m 2) exporter domain meta boot ex ipfix flows c =
      walk_sets m 16 (u16 m 2) exporter domain meta boot ex ipfix flows c"
    for domain meta boot ex ipfix flows
    using walk_sets_take[of "u16 m 2" "length m" 16 "m @ rest"] len by simp
  show ?thesis
    using len unfolding decode_ipfix_def u Let_def
    by (simp add: blen_def w min_def)
qed

section \<open>Framing\<close>

definition is_message :: "bytes \<Rightarrow> bool" where
  "is_message m \<longleftrightarrow> u16 m 0 = 10 \<and> 16 \<le> blen m \<and> blen m = u16 m 2"

lemma ipfix_frames_parts:
  "ipfix_frames b = (ms, r) \<Longrightarrow>
     (r = [] \<or> concat ms @ r = b) \<and> prefix (concat ms) b \<and>
     (\<forall>m\<in>set ms. is_message m)"
proof (induction b arbitrary: ms r rule: ipfix_frames.induct)
  case (1 b)
  let ?n = "nat (u16 b 2)"
  show ?case
  proof (cases "16 \<le> blen b \<and> u16 b 0 = 10 \<and> 16 \<le> u16 b 2 \<and> u16 b 2 \<le> blen b")
    case False
    then have "ms = [] \<and> (r = [] \<or> r = b)"
      using "1.prems" by (subst (asm) ipfix_frames.simps) (auto split: if_splits)
    then show ?thesis by auto
  next
    case True
    obtain ms' r' where rest: "ipfix_frames (drop ?n b) = (ms', r')" by (cases "ipfix_frames (drop ?n b)")
    have e: "ms = take ?n b # ms'" "r = r'"
      using "1.prems" True rest by (simp_all add: ipfix_frames.simps[of b])
    have len: "int (length (take ?n b)) = u16 b 2" using True by (auto simp: blen_def min_def)
    have "slice (take ?n b) i n = slice b i n" if "0 \<le> i" "0 \<le> n" "i + n \<le> 16" for i n
      using slice_take[of i n ?n b] that True by simp
    then have u: "u16 (take ?n b) 0 = u16 b 0" "u16 (take ?n b) 2 = u16 b 2"
      by (simp_all add: u16_def)
    have ih: "(r' = [] \<or> concat ms' @ r' = drop ?n b) \<and> prefix (concat ms') (drop ?n b)"
      and framed: "\<forall>m\<in>set ms'. is_message m"
      using "1.IH" True rest by simp_all
    have "prefix (take ?n b @ concat ms') (take ?n b @ drop ?n b)" using ih by (simp only: same_prefix_prefix)
    moreover have "r = [] \<or> concat ms @ r = b"
      using ih unfolding e by (metis append.assoc append_take_drop_id concat.simps(2))
    moreover have "is_message (take ?n b)" using True len by (simp add: is_message_def u blen_def)
    ultimately show ?thesis using ih framed unfolding e by simp
  qed
qed

text \<open>Framing does not depend on how the stream was cut into reads, until it is given up.\<close>

lemma ipfix_frames_append:
  assumes "ipfix_frames a = (ms, r)" "r \<noteq> [] \<or> concat ms = a"
  shows "ipfix_frames (a @ b) = (let (ms', r') = ipfix_frames (r @ b) in (ms @ ms', r'))"
  using assms
proof (induction a arbitrary: ms r rule: ipfix_frames.induct)
  case (1 a)
  let ?n = "nat (u16 a 2)"
  show ?case
  proof (cases "16 \<le> blen a \<and> u16 a 0 = 10 \<and> 16 \<le> u16 a 2 \<and> u16 a 2 \<le> blen a")
    case False
    then have "ms = [] \<and> r = a"
      using "1.prems" by (subst (asm) ipfix_frames.simps) (auto split: if_splits)
    then show ?thesis by (simp split: prod.split)
  next
    case True
    obtain ms' r' where rest: "ipfix_frames (drop ?n a) = (ms', r')" by (cases "ipfix_frames (drop ?n a)")
    have e: "ms = take ?n a # ms'" "r = r'"
      using "1.prems"(1) True rest by (simp_all add: ipfix_frames.simps[of a])
    have len: "?n \<le> length a" using True by (simp add: blen_def nat_le_iff)
    have "r' \<noteq> [] \<or> concat ms' = drop ?n a"
      using "1.prems"(2) unfolding e by (metis append_take_drop_id concat.simps(2) same_append_eq)
    then have ih: "ipfix_frames (drop ?n a @ b) = (let (ms'', r'') = ipfix_frames (r' @ b) in (ms' @ ms'', r''))"
      using "1.IH" True rest by simp
    have "slice (a @ b) i n = slice a i n" if "0 \<le> i" "0 \<le> n" "i + n \<le> 16" for i n
      using slice_take[of i n "length a" "a @ b"] that True by (simp add: blen_def)
    then have u: "u16 (a @ b) 0 = u16 a 0" "u16 (a @ b) 2 = u16 a 2" by (simp_all add: u16_def)
    have "ipfix_frames (a @ b) = (let (m2, r2) = ipfix_frames (drop ?n a @ b) in (take ?n a # m2, r2))"
      using True len by (simp add: ipfix_frames.simps[of "a @ b"] u blen_def)
    then show ?thesis unfolding ih e by (simp split: prod.split)
  qed
qed

section \<open>NetFlow v5\<close>

lemma print_limit_big: "256 \<le> print_limit"
proof -
  have "(256::int) \<le> 10 ^ 3" by simp
  also have "\<dots> \<le> print_limit" unfolding print_limit_def by (rule power_increasing) simp_all
  finally show ?thesis .
qed

lemma proto_name_small: "n < 256 \<Longrightarrow> \<exists>p. proto_name (Some (FInt n)) = Inr p"
  using print_limit_big by (simp add: proto_name_def split: option.split)

lemma float_limit_big: "2 ^ 32 < float_limit"
proof -
  have "(2::int) ^ 33 + 2 ^ 970 \<le> 2 ^ 970 + 2 ^ 970"
    using power_increasing[of 33 970 "2::int"] by simp
  also have "(2::int) ^ 970 + 2 ^ 970 = 2 ^ 971" by simp
  also have "(2::int) ^ 971 \<le> 2 ^ 1024" by (rule power_increasing) simp_all
  finally show ?thesis unfolding float_limit_def by simp
qed

lemma to_float_u32: "to_float (u32 bs i) = Inr (u32 bs i)"
  using u32_bound[of bs i] float_limit_big by (simp add: to_float_def)

lemma dict_get_update_rec:
  "dict_get (update_rec rc fs) k = (case map_of (rev fs) k of Some v \<Rightarrow> Some v | None \<Rightarrow> dict_get rc k)"
proof -
  have "dict_get (foldl (\<lambda>d kv. dict_set (fst kv) (snd kv) d) rc fs) k =
      (case map_of (rev fs) k of Some v \<Rightarrow> Some v | None \<Rightarrow> dict_get rc k)"
    by (induction fs rule: rev_induct) auto
  then show ?thesis by (simp add: update_rec_def)
qed

text \<open>A time field of a packet is printable and fits a float, so finishing a v5 record cannot fail.\<close>

definition plain_ints :: "frecord \<Rightarrow> bool" where
  "plain_ints rc \<longleftrightarrow> (\<forall>k v. dict_get rc k = Some (FInt v) \<longrightarrow> v < float_limit)"

lemma plain_float: "plain_ints rc \<Longrightarrow> dict_get rc k = Some (FInt v) \<Longrightarrow> to_float v = Inr v"
  by (meson plain_ints_def to_float_def not_le)

lemma abs_epoch_total: "plain_ints rc \<Longrightarrow> \<exists>t. abs_epoch rc ies u boot = Inr t"
  by (induction rc ies u boot rule: abs_epoch.induct)
    (auto simp: plain_float split: option.splits fval.splits)

lemma plain_ints_text: "plain_ints rc \<Longrightarrow> plain_ints (dict_set k (FText t) rc)"
  and plain_ints_iso: "plain_ints rc \<Longrightarrow> plain_ints (set_iso k i rc)"
  by (auto simp: plain_ints_def set_iso_def split: option.split)

lemma stamp_times_total: "plain_ints rc \<Longrightarrow> \<exists>r. stamp_times rc boot ex = Inr r"
  using abs_epoch_total[OF plain_ints_iso, of rc _ _ start_ies "''first_switched''" boot]
    abs_epoch_total[OF plain_ints_iso, of rc _ _ end_ies "''last_switched''" boot]
  by (auto simp: stamp_times_def Let_def sbind_def split: sum.splits) (metis sum.distinct(1))+

lemma finish_total:
  assumes "plain_ints (update_rec meta fs)"
    and "\<And>n. dict_get (update_rec meta fs) ''protocol_number'' = Some (FInt n) \<Longrightarrow> n < 256"
  shows "\<exists>r. finish fs meta boot ex = Inr r"
proof -
  let ?rc = "update_rec meta fs"
  obtain p where p: "proto_name (dict_get ?rc ''protocol_number'') = Inr p"
  proof (cases "\<exists>n. dict_get ?rc ''protocol_number'' = Some (FInt n)")
    case True
    then obtain n where "dict_get ?rc ''protocol_number'' = Some (FInt n)" ..
    then show ?thesis using that proto_name_small[OF assms(2)] by auto
  next
    case False
    then have "proto_name (dict_get ?rc ''protocol_number'') = Inr None"
      by (simp add: proto_name_def split: option.split fval.split)
    then show ?thesis by (rule that)
  qed
  have "plain_ints (case p of Some q \<Rightarrow> dict_set ''protocol'' (FText q) ?rc | None \<Rightarrow> ?rc)"
    using assms(1) by (simp add: plain_ints_text split: option.split)
  from stamp_times_total[OF this] show ?thesis by (simp add: finish_def Let_def p)
qed

lemma some_pairs: "(k, x) \<in> set (List.map_filter (\<lambda>(k, v). map_option (Pair k) v) l) \<longleftrightarrow> (k, Some x) \<in> set l"
  by (induction l) (auto split: option.split)

lemma ipv4_no_int [simp]: "decode_value KIpv4 raw \<noteq> Some (FInt v)"
  by (auto simp: decode_value_def)

lemma v5_fields_Some:
  "0 \<le> i \<Longrightarrow> i + 12 \<le> blen d \<Longrightarrow>
     (\<exists>s. decode_value KIpv4 (slice d i 4) = Some (FText s)) \<and>
     (\<exists>s. decode_value KIpv4 (slice d (i + 4) 4) = Some (FText s)) \<and>
     (\<exists>s. decode_value KIpv4 (slice d (i + 8) 4) = Some (FText s))"
  using slice_length[of i 4 d] slice_length[of "i + 4" 4 d] slice_length[of "i + 8" 4 d]
  by (auto simp: decode_value_def ip_text_def blen_def)

lemma small_ints: "u8 bs i < 4294967296" "u16 bs i < 4294967296"
  using u8_bound[of bs i] u16_bound[of bs i] by simp_all

lemma v5_field_bound: "(k, FInt v) \<in> set (v5_fields d i) \<Longrightarrow> v < 4294967296"
  unfolding v5_fields_def some_pairs using ipv4_no_int[symmetric]
  by (auto simp: small_ints u32_bound)

lemma v5_protocol_bound: "(''protocol_number'', FInt v) \<in> set (v5_fields d i) \<Longrightarrow> v < 256"
  unfolding v5_fields_def some_pairs by (simp add: u8_bound)

lemma v5_meta_bound: "(k, FInt v) \<in> set (v5_meta d e) \<Longrightarrow> v < 4294967296 \<and> k \<noteq> ''protocol_number''"
proof -
  have "u16 d 22 div 16384 < 4294967296" "u16 d 22 mod 16384 < 4294967296"
    using u16_bound[of d 22] by linarith+
  then show "(k, FInt v) \<in> set (v5_meta d e) \<Longrightarrow> v < 4294967296 \<and> k \<noteq> ''protocol_number''"
    by (auto simp: v5_meta_def meta_of_def small_ints u32_bound split: if_splits)
qed

lemma update_rec_from:
  "dict_get (update_rec rc fs) k = Some v \<Longrightarrow> (k, v) \<in> set fs \<or> (k, v) \<in> set rc"
  by (auto simp: dict_get_update_rec split: option.splits dest: map_of_SomeD dict_get_SomeD)

lemma finish_v5: "\<exists>r. finish (v5_fields d i) (v5_meta d e) boot ex = Inr r"
proof (rule finish_total)
  show "plain_ints (update_rec (v5_meta d e) (v5_fields d i))"
    unfolding plain_ints_def
  proof (intro allI impI)
    fix k v assume "dict_get (update_rec (v5_meta d e) (v5_fields d i)) k = Some (FInt v)"
    then have "v < 4294967296" using update_rec_from v5_field_bound v5_meta_bound by blast
    then show "v < float_limit" using float_limit_big by simp
  qed
  show "n < 256" if "dict_get (update_rec (v5_meta d e) (v5_fields d i)) ''protocol_number'' = Some (FInt n)" for n
    using update_rec_from[OF that] v5_protocol_bound v5_meta_bound by blast
qed

text \<open>A v5 packet always decodes, into as many flows as it claims or carries, whichever is less.\<close>

lemma decode_v5_count:
  assumes "24 \<le> blen data" "u16 data 0 = 5"
  shows "\<exists>flows. decode_v5 data exporter = Inr flows \<and> int (length flows) = v5_count data"
proof -
  let ?ex = "u32 data 8 * second + min (u32 data 12) 999999999"
  let ?f = "\<lambda>n::nat. finish (v5_fields data (24 + int n * 48)) (v5_meta data exporter)
      (Some (?ex - u32 data 4 * 1000000)) ?ex"
  have "\<forall>n. \<exists>r. ?f n = Inr r" using finish_v5 by blast
  then obtain g where "\<And>n. ?f n = Inr (g n)" by metis
  then have "map_res ?f xs = Inr (map g xs)" for xs by (intro map_res_total) simp
  moreover have "0 \<le> v5_count data" using assms(1) by (simp add: v5_count_def max_records_def)
  ultimately show ?thesis using assms by (simp add: decode_v5_def Let_def)
qed

section \<open>Round trip\<close>

text \<open>The layout of a v5 packet as the exporter writes it, field by field.\<close>

record v5_flow =
  vf_src :: int
  vf_dst :: int
  vf_next_hop :: int
  vf_in_if :: int
  vf_out_if :: int
  vf_packets :: int
  vf_octets :: int
  vf_first :: int
  vf_last :: int
  vf_src_port :: int
  vf_dst_port :: int
  vf_pad1 :: int
  vf_tcp_flags :: int
  vf_protocol :: int
  vf_tos :: int
  vf_src_as :: int
  vf_dst_as :: int
  vf_src_mask :: int
  vf_dst_mask :: int
  vf_pad2 :: int

definition encode_flow :: "v5_flow \<Rightarrow> bytes" where
  "encode_flow r =
     to_be 4 (vf_src r) @ to_be 4 (vf_dst r) @ to_be 4 (vf_next_hop r) @ to_be 2 (vf_in_if r)
     @ to_be 2 (vf_out_if r) @ to_be 4 (vf_packets r) @ to_be 4 (vf_octets r) @ to_be 4 (vf_first r)
     @ to_be 4 (vf_last r) @ to_be 2 (vf_src_port r) @ to_be 2 (vf_dst_port r) @ to_be 1 (vf_pad1 r)
     @ to_be 1 (vf_tcp_flags r) @ to_be 1 (vf_protocol r) @ to_be 1 (vf_tos r) @ to_be 2 (vf_src_as r)
     @ to_be 2 (vf_dst_as r) @ to_be 1 (vf_src_mask r) @ to_be 1 (vf_dst_mask r) @ to_be 2 (vf_pad2 r)"

definition dotted :: "int \<Rightarrow> fval" where
  "dotted v = FText (join ''.'' (map (\<lambda>i. nat_str (v div 256 ^ i mod 256)) (rev [0 ..< 4])))"

definition flow_fields :: "v5_flow \<Rightarrow> frecord" where
  "flow_fields r =
     [(''src_ip'', dotted (vf_src r)), (''dst_ip'', dotted (vf_dst r)), (''next_hop'', dotted (vf_next_hop r)),
      (''src_port'', FInt (vf_src_port r mod 65536)), (''dst_port'', FInt (vf_dst_port r mod 65536)),
      (''protocol_number'', FInt (vf_protocol r mod 256)), (''packets'', FInt (vf_packets r mod 4294967296)),
      (''bytes'', FInt (vf_octets r mod 4294967296)), (''tcp_flags'', FInt (vf_tcp_flags r mod 256)),
      (''tos'', FInt (vf_tos r mod 256)), (''input_snmp'', FInt (vf_in_if r mod 65536)),
      (''output_snmp'', FInt (vf_out_if r mod 65536)), (''src_as'', FInt (vf_src_as r mod 65536)),
      (''dst_as'', FInt (vf_dst_as r mod 65536)), (''src_mask'', FInt (vf_src_mask r mod 256)),
      (''dst_mask'', FInt (vf_dst_mask r mod 256)), (''first_switched'', FInt (vf_first r mod 4294967296)),
      (''last_switched'', FInt (vf_last r mod 4294967296))]"

lemma ip_text_to_be: "decode_value KIpv4 (to_be 4 v) = Some (dotted v)"
proof -
  have "map (nat_str \<circ> uint) (to_be 4 v) = map (\<lambda>i. nat_str (v div 256 ^ i mod 256)) (rev [0 ..< 4])"
    by (simp add: to_be_def uint_byte)
  moreover have "to_be 4 v \<noteq> []" using length_to_be[of 4 v] by (metis list.size(3) zero_neq_numeral)
  ultimately show ?thesis by (simp add: decode_value_def ip_text_def dotted_def)
qed

lemma slice_skip: "0 \<le> k \<Longrightarrow> slice (pre @ xs) (int (length pre) + k) n = slice xs k n"
  by (simp add: slice_def nat_add_distrib)

lemma take_encode: "take n (to_be n v @ xs) = to_be n v"
  by simp

lemma v5_fields_encode: "v5_fields (encode_flow r @ post) 0 = flow_fields r"
  by (simp add: v5_fields_def flow_fields_def u8_def u16_def u32_def slice_def encode_flow_def
      be_to_be ip_text_to_be)

lemma v5_fields_skip: "v5_fields (pre @ xs) (int (length pre)) = v5_fields xs 0"
  using slice_skip[of _ pre xs] slice_skip[of 0 pre xs]
  by (simp add: v5_fields_def u8_def u16_def u32_def)

lemma length_encode_flow [simp]: "length (encode_flow r) = 48"
  by (simp add: encode_flow_def)

lemma length_encode_flows: "length (concat (map encode_flow rs)) = 48 * length rs"
  by (induction rs) simp_all

lemma v5_fields_nth:
  assumes "length h = 24" "n < length rs"
  shows "v5_fields (h @ concat (map encode_flow rs)) (24 + int n * 48) = flow_fields (rs ! n)"
proof -
  let ?pre = "h @ concat (map encode_flow (take n rs))"
  have "rs = take n rs @ rs ! n # drop (Suc n) rs" using assms(2) by (simp add: id_take_nth_drop)
  then have "h @ concat (map encode_flow rs)
      = ?pre @ encode_flow (rs ! n) @ concat (map encode_flow (drop (Suc n) rs))"
    by (metis append.assoc concat.simps(2) concat_append list.simps(9) map_append)
  moreover have "24 + int n * 48 = int (length ?pre)"
    using assms by (simp add: length_encode_flows)
  ultimately show ?thesis by (simp only: v5_fields_skip v5_fields_encode)
qed

lemma map_res_nth: "map_res (\<lambda>n. f (xs ! n)) [0 ..< length xs] = map_res f xs"
proof -
  have "map_res (\<lambda>n. f (xs ! n)) ys = map_res f (map (nth xs) ys)" for ys
    by (induction ys) simp_all
  from this[of "[0 ..< length xs]"] show ?thesis by (simp add: map_nth)
qed

lemma map_res_cong: "(\<And>x. x \<in> set xs \<Longrightarrow> f x = g x) \<Longrightarrow> map_res f xs = map_res g xs"
  by (induction xs) simp_all

text \<open>What an exporter writes is what is read: every flow, field by field, in order.\<close>

lemma decode_v5_encode:
  assumes h: "length h = 24" "u16 h 0 = 5" "u16 h 2 = int (length rs)" and n: "int (length rs) \<le> max_records"
  shows "decode_v5 (h @ concat (map encode_flow rs)) exporter =
     (let ex = u32 h 8 * second + min (u32 h 12) 999999999; boot = ex - u32 h 4 * 1000000 in
      sbind (map_res (\<lambda>r. finish (flow_fields r) (v5_meta h exporter) (Some boot) ex) rs)
        (\<lambda>flows. Inr (index_flows flows)))"
proof -
  let ?d = "h @ concat (map encode_flow rs)"
  have s: "slice ?d i n = slice h i n" if "0 \<le> i" "0 \<le> n" "i + n \<le> 24" for i n
    using slice_take[of i n 24 ?d] that h(1) by simp
  have u: "u16 ?d 0 = u16 h 0" "u16 ?d 2 = u16 h 2" "u32 ?d 4 = u32 h 4" "u32 ?d 8 = u32 h 8"
    "u32 ?d 12 = u32 h 12" "v5_meta ?d exporter = v5_meta h exporter"
    by (simp_all add: u8_def u16_def u32_def v5_meta_def s)
  have len: "blen ?d = 24 + 48 * int (length rs)" using h(1) by (simp add: blen_def length_encode_flows)
  then have c: "v5_count ?d = int (length rs)" using n h(3) by (simp add: v5_count_def u)
  let ?ex = "u32 h 8 * second + min (u32 h 12) 999999999"
  let ?F = "\<lambda>fs. finish fs (v5_meta h exporter) (Some (?ex - u32 h 4 * 1000000)) ?ex"
  have "map_res (\<lambda>k. ?F (v5_fields ?d (24 + int k * 48))) [0 ..< length rs]
      = map_res (\<lambda>k. ?F (flow_fields (rs ! k))) [0 ..< length rs]"
    by (rule map_res_cong) (simp add: v5_fields_nth[OF h(1)])
  also have "\<dots> = map_res (\<lambda>r. ?F (flow_fields r)) rs" by (rule map_res_nth)
  finally show ?thesis using len h(2) by (simp add: decode_v5_def c u Let_def)
qed

section \<open>Unknown templates and oversized times\<close>

text \<open>A data set whose template is not cached, or is an options template, yields nothing and is counted.\<close>

lemma data_set_counts:
  "dict_get (tc_templates c) key = None \<Longrightarrow>
     data_set body key meta boot ex flows c = (Inr flows, c\<lparr>tc_unknown_drops := tc_unknown_drops c + 1\<rparr>)"
  "dict_get (tc_templates c) key = Some t \<Longrightarrow> tm_options t \<Longrightarrow>
     fst (data_set body key meta boot ex flows c) = Inr flows \<and>
     tc_options_skipped (snd (data_set body key meta boot ex flows c)) = tc_options_skipped c + 1"
  by (simp_all add: data_set_def cache_get_def)

text \<open>One record whose start time does not fit a float loses the flows of the whole packet.\<close>

lemma stamp_times_overflow:
  assumes "dict_get rc ''flow_start_seconds'' = Some (FInt v)" "float_limit \<le> v"
  shows "stamp_times rc boot ex = Inl OverflowError"
  using assms by (simp add: stamp_times_def Let_def start_ies_def set_iso_def to_float_def)

section \<open>Properties\<close>

text \<open>C39: Whatever packets arrive, the template cache never holds more templates than its size, holds one template per key, and every cached data template is usable: its record is variable or between one and 8192 bytes long.\<close>

theorem template_cache_safe:
  "cache_inv (foldl (\<lambda>c pkt. snd (decode_packet (fst pkt) (snd pkt) c)) (new_cache n) packets)
    \<and> cache_len (foldl (\<lambda>c pkt. snd (decode_packet (fst pkt) (snd pkt) c)) (new_cache n) packets) \<le> nat (max n 1)"
proof -
  let ?run = "foldl (\<lambda>c pkt. snd (decode_packet (fst pkt) (snd pkt) c))"
  have "cache_inv c \<Longrightarrow> cache_inv (?run c packets) \<and> tc_maxsize (?run c packets) = tc_maxsize c" for c
    by (induction packets arbitrary: c) (simp_all add: decode_packet_inv)
  from this[OF cache_inv_new[of n]] show ?thesis
    by (auto simp: cache_inv_def cache_ok_def cache_len_def new_cache_def)
qed

definition demo_template :: template where
  "demo_template = mk_template 256 [\<lparr>tf_ie = 7, tf_length = 2, tf_enterprise = 0\<rparr>] False"

text \<open>C40: Reading a record of any cached data template moves strictly forward and never past the end of the set, so the walk over a data set cannot stall; the code's own guard against a stalled walk is never needed.\<close>

theorem records_advance:
  assumes "template_sane t" and "\<not> tm_options t" and "read_record body i t = Some (r, j)" and "i \<le> blen body"
  shows "i < j \<and> j \<le> blen body"
  using assms by (rule read_record_progress)

theorem records_advance_witness:
  "read_record [1, 2, 3] 0 demo_template = Some ([(''src_port'', FInt 258)], 2) \<and> (0::int) < 2 \<and> 2 \<le> blen [1, 2, 3]"
proof -
  have r: "read_record [1, 2, 3] 0 demo_template = Some ([(''src_port'', FInt 258)], 2)"
    by (simp add: read_record_def demo_template_def mk_template_def field_length_def blen_def field_value_def
        dict_get_def nf_fields_def decode_value_def slice_def be_def dict_set_def)
  have "template_sane demo_template" "\<not> tm_options demo_template" "0 \<le> blen [1, 2, 3 :: 8 word]"
    by (simp_all add: template_sane_def demo_template_def mk_template_def record_len_def max_template_len_def blen_def)
  from records_advance[OF this(1,2) r this(3)] r show ?thesis by blast
qed

text \<open>One packet, of any version and content, yields at most 4096 flows.\<close>

lemma packet_yields_bounded:
  assumes "decode_packet data exporter c = (Inr flows, c')"
  shows "int (length flows) \<le> max_records"
  using assms by (rule decode_packet_length)

lemma packet_yields_bounded_example:
  "int (length ([] :: frecord list)) \<le> max_records"
  by (rule packet_yields_bounded[of "[]" "''x''" "new_cache 4" _ "new_cache 4"]) (simp add: decode_packet_def)

text \<open>A v5 packet with a complete header always decodes, and yields the least of the claimed count, the records it really carries, and 4096.\<close>

lemma v5_count_clamped:
  assumes "24 \<le> blen data" and "u16 data 0 = 5"
  shows "\<exists>flows. decode_v5 data exporter = Inr flows \<and>
    int (length flows) = min (min (u16 data 2) ((blen data - 24) div 48)) max_records"
  using decode_v5_count[OF assms, of exporter] by (simp add: v5_count_def)

lemma v5_count_clamped_example:
  "\<exists>flows. decode_v5 ([0, 5, 0, 30] @ replicate 20 0) ''x'' = Inr flows \<and> length flows = 0"
proof -
  have "24 \<le> blen ([0, 5, 0, 30] @ replicate 20 0)" "u16 ([0, 5, 0, 30] @ replicate 20 0) 0 = 5"
    by (simp_all add: blen_def u16_def slice_def be_def)
  from v5_count_clamped[OF this, of "''x''"] show ?thesis
    by (auto simp: blen_def u16_def slice_def be_def max_records_def)
qed

definition demo_flow :: v5_flow where
  "demo_flow = \<lparr>vf_src = 167772161, vf_dst = 167772162, vf_next_hop = 0, vf_in_if = 1, vf_out_if = 2,
     vf_packets = 3, vf_octets = 4, vf_first = 5, vf_last = 6, vf_src_port = 443, vf_dst_port = 80,
     vf_pad1 = 0, vf_tcp_flags = 2, vf_protocol = 6, vf_tos = 0, vf_src_as = 0, vf_dst_as = 0,
     vf_src_mask = 24, vf_dst_mask = 24, vf_pad2 = 0\<rparr>"

text \<open>What an exporter encodes is what the decoder reads: every flow of a v5 packet comes back field by field and in order, with the header's times and metadata merged in.\<close>

lemma v5_round_trip:
  assumes "length h = 24" and "u16 h 0 = 5" and "u16 h 2 = int (length rs)" and "int (length rs) \<le> max_records"
  shows "decode_v5 (h @ concat (map encode_flow rs)) exporter =
     (let ex = u32 h 8 * second + min (u32 h 12) 999999999; boot = ex - u32 h 4 * 1000000 in
      sbind (map_res (\<lambda>r. finish (flow_fields r) (v5_meta h exporter) (Some boot) ex) rs)
        (\<lambda>flows. Inr (index_flows flows)))"
  using assms by (rule decode_v5_encode)

lemma v5_round_trip_example:
  "decode_v5 (([0, 5, 0, 1] @ replicate 20 0) @ concat (map encode_flow [demo_flow])) ''x'' =
     (let h = [0, 5, 0, 1] @ replicate 20 0;
          ex = u32 h 8 * second + min (u32 h 12) 999999999; boot = ex - u32 h 4 * 1000000 in
      sbind (map_res (\<lambda>r. finish (flow_fields r) (v5_meta h ''x'') (Some boot) ex) [demo_flow])
        (\<lambda>flows. Inr (index_flows flows)))"
  unfolding Let_def
  by (rule v5_round_trip[unfolded Let_def])
    (simp_all add: u16_def slice_def be_def max_records_def)

text \<open>The record count in a v9 header is never trusted: two packets that differ only there decode to the same flows and leave the same cache.\<close>

lemma v9_count_ignored:
  assumes "length h = 2" and "length a = 2" and "length b = 2"
  shows "decode_v9 (h @ a @ rest) exporter c = decode_v9 (h @ b @ rest) exporter c"
  using assms by (rule decode_v9_count)

lemma v9_count_ignored_example:
  "decode_v9 ([0, 9] @ [255, 255] @ replicate 16 0) []  (new_cache 1) = decode_v9 ([0, 9] @ [0, 1] @ replicate 16 0) [] (new_cache 1)"
  by (rule v9_count_ignored) simp_all

text \<open>An IPFIX message is read up to its declared length and no further: bytes that follow it change neither the flows nor the cache.\<close>

lemma ipfix_length_respected:
  assumes "16 \<le> blen m" and "blen m = u16 m 2"
  shows "decode_ipfix (m @ rest) exporter c = decode_ipfix m exporter c"
  using assms by (rule decode_ipfix_trailing)

lemma ipfix_length_respected_example:
  "decode_ipfix (([0, 10, 0, 16] @ replicate 12 0) @ [0, 2, 0, 4]) ''x'' (new_cache 1)
    = decode_ipfix ([0, 10, 0, 16] @ replicate 12 0) ''x'' (new_cache 1)"
  by (rule ipfix_length_respected) (simp_all add: blen_def u16_def slice_def be_def)

text \<open>Framing a TCP stream cuts a prefix of it into messages, each carrying version 10 and exactly its declared length, and returns the rest, or nothing once the stream cannot be framed.\<close>

lemma framing_is_exact:
  assumes "ipfix_frames b = (ms, r)"
  shows "(r = [] \<or> concat ms @ r = b) \<and> prefix (concat ms) b \<and> (\<forall>m\<in>set ms. is_message m)"
  using assms by (rule ipfix_frames_parts)

lemma framing_is_exact_example:
  "prefix (concat []) ([1, 2, 3] :: bytes)"
proof -
  have "ipfix_frames [1, 2, 3] = ([], [1, 2, 3])" by (simp add: ipfix_frames.simps blen_def)
  from framing_is_exact[OF this] show ?thesis by simp
qed

text \<open>Framing does not depend on how the stream was cut into reads: framing the first part and then its remainder with the second part gives the messages of the whole, as long as the first part was not given up.\<close>

lemma framing_ignores_chunks:
  assumes "ipfix_frames a = (ms, r)" and "r \<noteq> [] \<or> concat ms = a"
  shows "ipfix_frames (a @ b) = (let (ms', r') = ipfix_frames (r @ b) in (ms @ ms', r'))"
  using assms by (rule ipfix_frames_append)

lemma framing_ignores_chunks_example:
  "ipfix_frames ([0, 10] @ [0, 16]) = (let (ms', r') = ipfix_frames ([0, 10] @ [0, 16]) in ([] @ ms', r'))"
  by (rule framing_ignores_chunks) (simp_all add: ipfix_frames.simps blen_def)

text \<open>A data set whose template is not cached yields no flow, leaves the cache alone and counts one drop.\<close>

lemma unknown_template_counted:
  assumes "dict_get (tc_templates c) (exporter, domain, sid) = None" and "256 \<le> sid"
  shows "set_step body sid exporter domain meta boot ex ipfix flows c
     = (Inr flows, c\<lparr>tc_unknown_drops := tc_unknown_drops c + 1\<rparr>)"
  using data_set_counts(1)[OF assms(1)] assms(2) by (simp add: set_step_def)

lemma unknown_template_counted_example:
  "set_step [1] 300 ''x'' 0 [] None 0 True [] (new_cache 1)
     = (Inr [], (new_cache 1)\<lparr>tc_unknown_drops := tc_unknown_drops (new_cache 1) + 1\<rparr>)"
  by (rule unknown_template_counted) (simp_all add: new_cache_def)

text \<open>A record whose start time, an integer of any length the template asks for, does not fit a float raises, and with it the whole data set: the flows decoded before it are lost too.\<close>

lemma oversized_time_raises:
  assumes "dict_get rc ''flow_start_seconds'' = Some (FInt v)" and "float_limit \<le> v"
  shows "stamp_times rc boot ex = Inl OverflowError"
  using assms by (rule stamp_times_overflow)

lemma oversized_time_raises_example:
  "stamp_times [(''flow_start_seconds'', FInt float_limit)] None 0 = Inl OverflowError"
  by (rule oversized_time_raises[where v = float_limit]) (simp_all add: dict_get_def)

end
