(* ===== verification/Syslog.thy ===== *)
theory Syslog
  imports PyUtf8 IngestQueue
begin

text \<open>
  The syslog receiver (\<open>receivers/syslog.py\<close>): RFC 6587 framing of a TCP stream, by octet count or by line,
  the reading loop of a connection with its cap, and the way of a message through its parser into the queue.
  Datagrams and reads are lists of bytes. The automatic detection of a format (\<open>detect.py\<close>) and the registered
  parsers are arguments; sockets and TLS are left out.
\<close>

section \<open>Framing\<close>

definition max_msg :: nat where "max_msg = 1024 * 1024"

text \<open>
  A count is taken for one only when a blank and a \<open><\<close> follow it: where the message starts, and its digits.
\<close>

definition octet_header :: "string \<Rightarrow> (nat \<times> string) option" where
  "octet_header s =
     (let ds = takeWhile is_digit s in
      case dropWhile is_digit s of
        b # c # _ \<Rightarrow> if ds \<noteq> [] \<and> b = CHR '' '' \<and> c = CHR ''<'' then Some (Suc (length ds), ds) else None
      | _ \<Rightarrow> None)"

text \<open>\<open>int\<close> of the digits, which refuses more of them than \<^const>\<open>max_str_digits\<close>.\<close>

definition octet_count :: "string \<Rightarrow> py_error + nat" where
  "octet_count ds = (if max_str_digits < length ds then Inl ValueError else Inr (nat (digits_val ds)))"

definition next_message :: "string \<Rightarrow> py_error + (string \<times> string) option" where
  "next_message s =
     (case octet_header s of
        Some (start, ds) \<Rightarrow>
          sbind (octet_count ds) (\<lambda>n.
            Inr (if length s < start + n then None else Some (take n (drop start s), drop (start + n) s)))
      | None \<Rightarrow>
          Inr (if newline \<notin> set s then None
               else Some (takeWhile (\<lambda>c. c \<noteq> newline) s, tl (dropWhile (\<lambda>c. c \<noteq> newline) s))))"

lemma next_message_shorter:
  assumes "next_message s = Inr (Some (m, r))"
  shows "length r < length s"
proof (cases "octet_header s")
  case None
  then have "r = tl (dropWhile (\<lambda>c. c \<noteq> newline) s)" and "newline \<in> set s"
    using assms by (auto simp: next_message_def split: if_splits)
  then show ?thesis using length_dropWhile_le[of "\<lambda>c. c \<noteq> newline" s] by (cases s) (auto simp: less_Suc_eq_le)
next
  case (Some sd)
  then obtain start ds where sd: "octet_header s = Some (start, ds)" by (cases sd) auto
  then have "0 < start" "s \<noteq> []" by (auto simp: octet_header_def Let_def split: list.splits if_splits)
  then show ?thesis using assms sd by (auto simp: next_message_def octet_count_def split: if_splits)
qed

function iter_tcp_messages :: "string \<Rightarrow> py_error + string list \<times> string" where
  "iter_tcp_messages s =
     (case next_message s of
        Inl e \<Rightarrow> Inl e
      | Inr None \<Rightarrow> Inr ([], s)
      | Inr (Some (m, r)) \<Rightarrow> sbind (iter_tcp_messages r) (\<lambda>(ms, rest). Inr (m # ms, rest)))"
  by pat_completeness auto

termination by (relation "measure length") (auto dest: next_message_shorter)

declare iter_tcp_messages.simps [simp del]

section \<open>Messages\<close>

record syslog_env =
  sy_format :: string
  sy_parsers :: "(string, parser) dict"
  sy_detect :: "string \<Rightarrow> string option"

definition resolve_format :: "syslog_env \<Rightarrow> string \<Rightarrow> string option" where
  "resolve_format env t =
     (if sy_format env \<noteq> [] \<and> sy_format env \<noteq> ''auto''
      then (if dict_get (sy_parsers env) (sy_format env) \<noteq> None then Some (sy_format env) else None)
      else Some (case sy_detect env t of Some f \<Rightarrow> if f = [] then ''generic_syslog'' else f | None \<Rightarrow> ''generic_syslog''))"

text \<open>What a message is worth: the item it puts into the queue, unless it is blank or its parser refuses it.\<close>

definition message_item :: "syslog_env \<Rightarrow> string option \<Rightarrow> string \<Rightarrow> item option" where
  "message_item env peer raw_bytes =
     (let t = strip (utf8_replace raw_bytes) in
      if t = [] then None
      else (case resolve_format env t of
              None \<Rightarrow> None
            | Some fmt \<Rightarrow>
                (case parse_events (sy_parsers env) t fmt of
                   Inr (es, None) \<Rightarrow>
                     (if es = [] then None
                      else Some \<lparr>it_events = es, it_fmt = fmt, it_source_type = ''syslog'', it_source_addr = peer,
                                 it_vendor = dict_get vendor_of fmt\<rparr>)
                 | _ \<Rightarrow> None)))"

definition ingest_message :: "syslog_env \<Rightarrow> string option \<Rightarrow> string \<Rightarrow> ingest_queue \<Rightarrow> ingest_queue" where
  "ingest_message env peer raw_bytes q =
     (case message_item env peer raw_bytes of None \<Rightarrow> q | Some i \<Rightarrow> snd (submit i q))"

definition datagram_received :: "syslog_env \<Rightarrow> string option \<Rightarrow> string \<Rightarrow> ingest_queue \<Rightarrow> ingest_queue" where
  "datagram_received env peer datagram q = ingest_message env peer (take max_msg datagram) q"

section \<open>A connection\<close>

text \<open>
  The loop of \<open>_handle_tcp\<close> over what the reads return, the empty read being the end of the stream. What is
  left of the buffer then, or when an exception ends the connection, is dropped.
\<close>

fun handle_tcp :: "syslog_env \<Rightarrow> string option \<Rightarrow> string \<Rightarrow> string list \<Rightarrow> ingest_queue \<Rightarrow> ingest_queue" where
  "handle_tcp env peer buffer [] q = q"
| "handle_tcp env peer buffer (data # chunks) q =
     (if data = [] then q
      else (case iter_tcp_messages (buffer @ data) of
              Inl _ \<Rightarrow> q
            | Inr (ms, rest) \<Rightarrow>
                handle_tcp env peer (if max_msg < length rest then [] else rest) chunks
                  (fold (ingest_message env peer) ms q)))"

section \<open>Framing does not depend on the reads\<close>

lemma octet_header_stable:
  assumes "octet_header a = Some h"
  shows "octet_header (a @ b) = Some h"
proof -
  obtain x y r where d: "dropWhile is_digit a = x # y # r" using assms by (auto simp: octet_header_def Let_def split: list.splits)
  then have "\<exists>c\<in>set a. \<not> is_digit c" by (metis dropWhile_eq_Nil_conv list.distinct(1))
  then have "takeWhile is_digit (a @ b) = takeWhile is_digit a" "dropWhile is_digit (a @ b) = dropWhile is_digit a @ b"
    by (auto simp: takeWhile_append1 dropWhile_append1)
  then show ?thesis using assms d by (simp add: octet_header_def)
qed

lemma octet_header_None_stable:
  assumes "octet_header a = None" "newline \<in> set a"
  shows "octet_header (a @ b) = None"
proof -
  have nd: "\<not> is_digit newline" by (simp add: newline_def is_digit_def code_def)
  have t: "takeWhile is_digit (a @ b) = takeWhile is_digit a" and d: "dropWhile is_digit (a @ b) = dropWhile is_digit a @ b"
    using takeWhile_append1[OF assms(2), of is_digit b] dropWhile_append1[OF assms(2), of is_digit b] nd by auto
  have "set a = set (takeWhile is_digit a) \<union> set (dropWhile is_digit a)"
    using takeWhile_dropWhile_id[of is_digit a] by (metis set_append)
  then have "newline \<in> set (dropWhile is_digit a)" using nd assms(2) by (auto dest: set_takeWhileD)
  then obtain x r where x: "dropWhile is_digit a = x # r" by (cases "dropWhile is_digit a") auto
  show ?thesis
  proof (cases r)
    case Nil
    then have "x = newline" using x \<open>newline \<in> set (dropWhile is_digit a)\<close> by simp
    then have "x \<noteq> CHR '' ''" by (simp add: newline_def)
    then show ?thesis using x d Nil by (simp add: octet_header_def split: list.split)
  next
    case (Cons y s)
    then show ?thesis using assms(1) x d t by (simp add: octet_header_def)
  qed
qed

lemma next_message_stable:
  assumes "next_message a = Inr (Some (m, r))"
  shows "next_message (a @ b) = Inr (Some (m, r @ b))"
proof (cases "octet_header a")
  case None
  then have n: "newline \<in> set a" "m = takeWhile (\<lambda>c. c \<noteq> newline) a" "r = tl (dropWhile (\<lambda>c. c \<noteq> newline) a)"
    using assms by (auto simp: next_message_def split: if_splits)
  have "dropWhile (\<lambda>c. c \<noteq> newline) a \<noteq> []" using n(1) by (auto simp: dropWhile_eq_Nil_conv)
  then show ?thesis using octet_header_None_stable[OF None n(1)] n
    by (simp add: next_message_def takeWhile_append1[OF n(1)] dropWhile_append1[OF n(1)])
next
  case (Some sd)
  obtain start ds where sd: "sd = (start, ds)" by (cases sd)
  obtain n where n: "octet_count ds = Inr n" "start + n \<le> length a" "m = take n (drop start a)" "r = drop (start + n) a"
    using assms Some sd by (auto simp: next_message_def split: if_splits)
  have "take n (drop start (a @ b)) = take n (drop start a)" "drop (start + n) (a @ b) = drop (start + n) a @ b"
    using n(2) by simp_all
  then show ?thesis using octet_header_stable[OF Some, of b] sd n by (simp add: next_message_def)
qed

lemma next_message_error_stable: "next_message a = Inl e \<Longrightarrow> next_message (a @ b) = Inl e"
  using octet_header_stable[of a _ b] by (auto simp: next_message_def octet_count_def split: option.splits prod.splits if_splits)

text \<open>What was framed stays framed, and the rest goes on with what comes next.\<close>

lemma frames_append:
  "iter_tcp_messages (a @ b) =
     sbind (iter_tcp_messages a) (\<lambda>(ms, r). sbind (iter_tcp_messages (r @ b)) (\<lambda>(ms', r'). Inr (ms @ ms', r')))"
proof (induction a rule: iter_tcp_messages.induct)
  case (1 s)
  show ?case
  proof (cases "next_message s")
    case (Inl e)
    then show ?thesis using next_message_error_stable[OF Inl] by (subst (1 2) iter_tcp_messages.simps) simp
  next
    case (Inr o')
    show ?thesis
    proof (cases o')
      case None
      then show ?thesis using Inr by (subst (2) iter_tcp_messages.simps) (auto simp: sbind_def split: sum.splits)
    next
      case (Some mr)
      obtain m r where mr: "mr = (m, r)" by (cases mr)
      have n: "next_message s = Inr (Some (m, r))" using Inr Some mr by simp
      have one: "iter_tcp_messages s = sbind (iter_tcp_messages r) (\<lambda>(ms, rest). Inr (m # ms, rest))"
        by (subst iter_tcp_messages.simps) (simp add: n)
      have two: "iter_tcp_messages (s @ b) = sbind (iter_tcp_messages (r @ b)) (\<lambda>(ms, rest). Inr (m # ms, rest))"
        by (subst iter_tcp_messages.simps) (simp add: next_message_stable[OF n])
      show ?thesis unfolding one two "1.IH"[OF Inr Some mr[symmetric]]
        by (cases "iter_tcp_messages r") (auto simp: sbind_def split: sum.splits prod.splits)
    qed
  qed
qed

text \<open>A connection whose backlog never exceeds the cap delivers the messages of its whole stream.\<close>

definition within_cap :: "string \<Rightarrow> string list \<Rightarrow> bool" where
  "within_cap start chunks \<longleftrightarrow>
     list_all (\<lambda>n. case iter_tcp_messages (start @ concat (take n chunks)) of Inl _ \<Rightarrow> False | Inr (_, r) \<Rightarrow> length r \<le> max_msg)
       [0..<Suc (length chunks)]"

lemma within_cap_Cons:
  assumes "within_cap start (data # chunks)"
  obtains ms r where "iter_tcp_messages (start @ data) = Inr (ms, r)" "length r \<le> max_msg" "within_cap r chunks"
proof -
  have at: "case iter_tcp_messages (start @ concat (take n (data # chunks))) of Inl _ \<Rightarrow> False | Inr (_, r) \<Rightarrow> length r \<le> max_msg"
    if "n \<le> Suc (length chunks)" for n
    using assms that unfolding within_cap_def list_all_iff by (simp del: upt_Suc)
  obtain ms r where f: "iter_tcp_messages (start @ data) = Inr (ms, r)" "length r \<le> max_msg"
    using at[of 1] by (auto split: sum.splits)
  have "case iter_tcp_messages (r @ concat (take n chunks)) of Inl _ \<Rightarrow> False | Inr (_, r) \<Rightarrow> length r \<le> max_msg"
    if "n \<le> length chunks" for n
    using at[of "Suc n"] that frames_append[of "start @ data" "concat (take n chunks)"] f(1)
    by (auto split: sum.splits)
  then have "within_cap r chunks" unfolding within_cap_def list_all_iff by (simp del: upt_Suc)
  then show ?thesis using that f by blast
qed

lemma handle_tcp_stream:
  assumes "within_cap buffer chunks" "list_all (\<lambda>d. d \<noteq> []) chunks"
    and "iter_tcp_messages (buffer @ concat chunks) = Inr (ms, r)" "iter_tcp_messages buffer = Inr ([], buffer)"
  shows "handle_tcp env peer buffer chunks q = fold (ingest_message env peer) ms q"
  using assms
proof (induction chunks arbitrary: buffer ms q)
  case Nil
  then show ?case by simp
next
  case (Cons data chunks)
  obtain ms1 r1 where f: "iter_tcp_messages (buffer @ data) = Inr (ms1, r1)" "length r1 \<le> max_msg" "within_cap r1 chunks"
    using within_cap_Cons[OF Cons.prems(1)] .
  have "iter_tcp_messages ((buffer @ data) @ concat chunks) = Inr (ms, r)" using Cons.prems(3) by simp
  then obtain ms2 where g: "iter_tcp_messages (r1 @ concat chunks) = Inr (ms2, r)" "ms = ms1 @ ms2"
    unfolding frames_append[of "buffer @ data"] f(1) by auto
  have rest: "iter_tcp_messages r1 = Inr ([], r1)"
    using frames_append[of "buffer @ data" "[]"] f(1) by (cases "iter_tcp_messages r1") auto
  show ?case using Cons.IH[OF f(3) _ g(1) rest] Cons.prems(2) f(1,2) g(2) by simp
qed

section \<open>Framed messages read back\<close>

datatype framing = Counted string | Line string

fun framed :: "framing \<Rightarrow> string" where
  "framed (Counted m) = nat_str (int (length m)) @ CHR '' '' # m"
| "framed (Line m) = m @ [newline]"

fun payload :: "framing \<Rightarrow> string" where
  "payload (Counted m) = m"
| "payload (Line m) = m"

text \<open>What each framing can carry: a counted message opens with its priority, a line has no break and does not look counted.\<close>

fun frameable :: "framing \<Rightarrow> bool" where
  "frameable (Counted m) \<longleftrightarrow> m \<noteq> [] \<and> hd m = CHR ''<'' \<and> length (nat_str (int (length m))) \<le> max_str_digits"
| "frameable (Line m) \<longleftrightarrow> newline \<notin> set m \<and> octet_header (m @ [newline]) = None"

lemma next_framed:
  assumes "frameable f"
  shows "next_message (framed f @ r) = Inr (Some (payload f, r))"
proof (cases f)
  case (Counted m)
  let ?d = "nat_str (int (length m))"
  have d: "?d \<noteq> []" "list_all is_digit ?d" "digits_val ?d = int (length m)" using nat_str_digits[of "int (length m)"] by simp_all
  have b: "\<not> is_digit (CHR '' '')" by (simp add: is_digit_def code_def)
  obtain u where u: "m = CHR ''<'' # u" using assms Counted by (cases m) auto
  have "takeWhile is_digit (?d @ CHR '' '' # m @ r) = ?d" "dropWhile is_digit (?d @ CHR '' '' # m @ r) = CHR '' '' # m @ r"
    using d(2) b by (simp_all add: list_all_iff takeWhile_append2 dropWhile_append2)
  then have h: "octet_header (?d @ CHR '' '' # m @ r) = Some (Suc (length ?d), ?d)"
    using d(1) u by (simp add: octet_header_def Let_def)
  moreover have "octet_count ?d = Inr (length m)" using assms Counted d(3) by (simp add: octet_count_def)
  ultimately show ?thesis using Counted by (simp add: next_message_def)
next
  case (Line m)
  have n: "newline \<notin> set m" and h: "octet_header (m @ [newline]) = None" using assms Line by simp_all
  from n have "takeWhile (\<lambda>c. c \<noteq> newline) (m @ [newline]) = m" "dropWhile (\<lambda>c. c \<noteq> newline) (m @ [newline]) = [newline]"
    by (induction m) auto
  then have "next_message (m @ [newline]) = Inr (Some (m, []))" using h by (simp add: next_message_def)
  then show ?thesis using next_message_stable[of "m @ [newline]" m "[]" r] Line by simp
qed

lemma frames_read_back: "list_all frameable fs \<Longrightarrow> iter_tcp_messages (concat (map framed fs)) = Inr (map payload fs, [])"
proof (induction fs)
  case Nil
  show ?case by (subst iter_tcp_messages.simps) (simp add: next_message_def octet_header_def)
next
  case (Cons f fs)
  then show ?case using next_framed[of f "concat (map framed fs)"] by (subst iter_tcp_messages.simps) simp
qed

section \<open>Messages and the queue\<close>

definition taken :: "ingest_queue \<Rightarrow> nat" where
  "taken q = qs_received (iq_stats q) + qs_dropped (iq_stats q)"

lemma ingest_message_counts:
  "taken (ingest_message env peer m q) = taken q + (if message_item env peer m = None then 0 else 1)"
  by (auto simp: ingest_message_def taken_def submit_def split: option.split)

lemma messages_counted:
  "taken (fold (ingest_message env peer) ms q) = taken q + length (List.map_filter (message_item env peer) ms)"
  by (induction ms arbitrary: q) (auto simp: ingest_message_counts List.map_filter_def)

lemma ingest_message_queues:
  "iq_items (ingest_message env peer m q) = iq_items q \<or>
     (\<exists>i. message_item env peer m = Some i \<and> iq_items (ingest_message env peer m q) = iq_items q @ [i])"
  by (auto simp: ingest_message_def submit_def split: option.split)

text \<open>A count of more digits than \<open>int\<close> takes ends the connection; an unfinished last line is dropped.\<close>

lemma endless_count:
  assumes "list_all is_digit ds" "max_str_digits < length ds"
  shows "iter_tcp_messages (ds @ CHR '' '' # CHR ''<'' # r) = Inl ValueError"
proof -
  have b: "\<not> is_digit (CHR '' '')" by (simp add: is_digit_def code_def)
  have "takeWhile is_digit (ds @ CHR '' '' # CHR ''<'' # r) = ds" "dropWhile is_digit (ds @ CHR '' '' # CHR ''<'' # r) = CHR '' '' # CHR ''<'' # r"
    using assms(1) b by (simp_all add: list_all_iff takeWhile_append2 dropWhile_append2)
  moreover have "ds \<noteq> []" using assms(2) by auto
  ultimately show ?thesis using assms(2)
    by (subst iter_tcp_messages.simps) (simp add: next_message_def octet_header_def octet_count_def)
qed

lemma unfinished_line:
  assumes "newline \<notin> set m" "octet_header m = None"
  shows "iter_tcp_messages m = Inr ([], m)"
  using assms by (subst iter_tcp_messages.simps) (simp add: next_message_def)

definition demo_syslog :: syslog_env where
  "demo_syslog = \<lparr>sy_format = ''generic_json'', sy_parsers = timeless_parsers, sy_detect = (\<lambda>_. None)\<rparr>"

lemma demo_within_cap: "within_cap [] [''4 <1'', ''>a<2>b'', [newline]]"
proof -
  have f: "iter_tcp_messages [] = Inr ([], [])" "iter_tcp_messages ''4 <1'' = Inr ([], ''4 <1'')"
    "iter_tcp_messages ''4 <1>a<2>b'' = Inr ([''<1>a''], ''<2>b'')"
    "iter_tcp_messages (''4 <1>a<2>b'' @ [newline]) = Inr ([''<1>a'', ''<2>b''], [])" by code_simp+
  show ?thesis using f by (simp add: within_cap_def max_msg_def upt_rec)
qed

section \<open>Properties\<close>

text \<open>C16: Messages framed by octet count or by line reach the queue one by one and in order, however the stream is cut into reads, as long as the backlog stays within its cap; each message that parses to events is either taken into the queue or counted as rejected.\<close>

theorem syslog_stream_delivered:
  assumes "list_all frameable fs" and "concat chunks = concat (map framed fs)"
    and "within_cap [] chunks" and "list_all (\<lambda>d. d \<noteq> []) chunks"
  shows "handle_tcp env peer [] chunks q = fold (ingest_message env peer) (map payload fs) q \<and>
    taken (handle_tcp env peer [] chunks q) = taken q + length (List.map_filter (message_item env peer) (map payload fs))"
proof -
  have "iter_tcp_messages [] = Inr ([], [])" using frames_read_back[of "[]"] by simp
  moreover have "iter_tcp_messages ([] @ concat chunks) = Inr (map payload fs, [])"
    using frames_read_back[OF assms(1)] assms(2) by simp
  ultimately have "handle_tcp env peer [] chunks q = fold (ingest_message env peer) (map payload fs) q"
    by (intro handle_tcp_stream[OF assms(3,4)])
  then show ?thesis by (simp add: messages_counted)
qed

theorem syslog_stream_delivered_witness:
  "taken (handle_tcp demo_syslog None [] [''4 <1'', ''>a<2>b'', [newline]]
     (new_queue 10 1 100 (empty_archive, cim_init, action_index [] []))) = 2"
proof -
  let ?fs = "[Counted ''<1>a'', Line ''<2>b'']" and ?chunks = "[''4 <1'', ''>a<2>b'', [newline]]"
    and ?q = "new_queue 10 1 100 (empty_archive, cim_init, action_index [] [])"
  have f: "list_all frameable ?fs" and c: "concat ?chunks = concat (map framed ?fs)" by code_simp+
  have w: "within_cap [] ?chunks" by (rule demo_within_cap)
  have n: "list_all (\<lambda>d. d \<noteq> []) ?chunks" by simp
  have "length (List.map_filter (message_item demo_syslog None) (map payload ?fs)) = 2" by code_simp
  moreover have "taken ?q = 0" by (simp add: taken_def new_queue_def)
  ultimately show ?thesis using conjunct2[OF syslog_stream_delivered[OF f c w n, of demo_syslog None ?q]] by (simp only:)
qed

text \<open>An octet count of more than 4300 digits raises an exception that the loop does not catch: the connection ends, with the messages framed before it in the same read and whatever follows.\<close>

lemma endless_count_ends_connection:
  assumes "list_all is_digit ds" "max_str_digits < length ds" "list_all frameable fs"
  shows "handle_tcp env peer [] ((concat (map framed fs) @ ds @ '' <'' @ r) # chunks) q = q"
proof -
  have "iter_tcp_messages (concat (map framed fs) @ ds @ '' <'' @ r) = Inl ValueError"
    using frames_append[of "concat (map framed fs)" "ds @ '' <'' @ r"] frames_read_back[OF assms(3)] endless_count[OF assms(1,2), of r]
    by simp
  then show ?thesis by (auto simp: assms)
qed

text \<open>A message whose sender closes the connection without a final line break is dropped.\<close>

lemma last_line_needs_its_break:
  assumes "newline \<notin> set m" "octet_header m = None"
  shows "handle_tcp env peer [] [m, []] q = q"
  using unfinished_line[OF assms] by simp

end
