(* ===== verification/Spec2Isabelle.thy ===== *)
theory Spec2Isabelle
  imports BackfillFacts CimGate Correlation CsvLoad HecFacts IngestQueue KillChain LoqlInject MmdbCodec NetflowDecode PipelineFacts Syslog
begin

text \<open>
  SIEM-Lite receives log records, turns them into normalized events, and stores, enriches and searches
  them. This development models its core, which runs on every event or datagram, translated from the
  Python sources under \<open>src/app\<close>.

  \<^bold>\<open>The program.\<close> A receiver (\<open>receivers/netflow.py\<close>, \<open>receivers/syslog.py\<close>) or a vendor parser makes a \<open>NormalizedEvent\<close>
  (\<open>models.py\<close>). The pipeline (\<open>pipeline.py\<close>) gives it a time, lets console-authored parsers fill gaps
  (\<open>custom_parser.py\<close>), runs the ingest actions, which drop, mask, route or sample
  (\<open>ingest_actions.py\<close>), resolves the data models it belongs to (\<open>cim/\<close>), evaluates the detection rules
  (\<open>detection/engine.py\<close>) and the threat indicators (\<open>threatintel/matcher.py\<close>), marks suppressed alerts
  (\<open>triage/\<close>), and writes rows, alerts and entity baselines chunk by chunk (\<open>db.py\<close>, \<open>risk.py\<close>). A row
  also carries what its addresses and names mean: built-in and side-loaded range tables and geo databases
  describe addresses (\<open>enrich/\<close>), a registry of assets and identities says whose they are (\<open>assets/\<close>), and
  bounded backfills bring stored rows up to date when these change (\<open>db.py\<close>). A stream is the content of an
  upload (\<open>ingest.py\<close>), a batch of a request to the HEC endpoint (\<open>hec.py\<close>), or a group of live events from a bounded queue (\<open>streaming.py\<close>), each one batch with a
  ledger. Scheduled correlation rules count stored rows in a window (\<open>detection/correlation.py\<close>). Alerts are later grouped into
  kill chains (\<open>killchain.py\<close>). What is stored is searched with LOQL, a piped
  query language that is compiled to SQL (\<open>loql/\<close>).

  \<^bold>\<open>Theories and code.\<close>
  \<^item> \<open>SIEM_Prelude\<close>: dictionaries as association lists in insertion order, Python values, errors as sums,
    the text functions of the standard library, and the lemma collections the components share.
  \<^item> \<open>PyIp\<close>: the parts of Python's \<open>ipaddress\<close> the sources use; \<open>Event\<close>: \<open>models.py\<close>.
  \<^item> \<open>SigmaValue\<close>, \<open>SigmaCondition\<close>, \<open>SigmaEngine\<close>, \<open>CimGate\<close>: \<open>detection/engine.py\<close>, from one comparison
    to the evaluation of an event, the caches, and the interleaving of threads on them.
  \<^item> \<open>CimSpec\<close>, \<open>CimMatch\<close>: \<open>cim/spec.py\<close> and \<open>cim/match.py\<close>, the reference walk, the compiled plan and its
    cache; \<open>CimSql\<close>, \<open>CimRegistry\<close>: \<open>cim/sql.py\<close> and \<open>cim/registry.py\<close>.
  \<^item> \<open>EventEdit\<close>, \<open>IngestMask\<close>, \<open>IngestScrub\<close>, \<open>IngestLoad\<close>, \<open>IngestDecide\<close>: \<open>ingest_actions.py\<close> and
    \<open>normalize.py\<close>: the transforms, what the sweep removes, the checks of a rule document, the evaluator,
    the index and its counters.
  \<^item> \<open>CustomParser\<close>, \<open>Triage\<close>, \<open>ThreatIntel\<close>, \<open>Baselines\<close>: \<open>custom_parser.py\<close>, \<open>triage/\<close>,
    \<open>threatintel/matcher.py\<close>, \<open>risk.py\<close> with the upserts of \<open>db.py\<close>.
  \<^item> \<open>Pipeline\<close>, \<open>PipelineFacts\<close>: \<open>pipeline.py\<close> and the inserts of \<open>db.py\<close>, and what a stream writes.
  \<^item> \<open>Batches\<close>: \<open>ingest.py\<close>, \<open>_write_group\<close> of \<open>streaming.py\<close> and the batch rows of \<open>db.py\<close>; \<open>IngestQueue\<close>: the
    queue of \<open>streaming.py\<close> with its workers as a labelled transition system.
  \<^item> \<open>PyJson\<close>, \<open>PyUtf8\<close>: Python's \<open>json\<close> and UTF-8 decoding; \<open>JsonRecords\<close>: the JSON part of \<open>util.py\<close>;
    \<open>Hec\<close>, \<open>HecFacts\<close>: \<open>hec.py\<close>, from the headers and chunks of a request to its batches and the reply.
  \<^item> \<open>Syslog\<close>: \<open>receivers/syslog.py\<close>, the framing of a TCP stream, the reading loop and the way of a message
    into the queue.
  \<^item> \<open>Correlation\<close>: \<open>detection/correlation.py\<close>, the query \<open>correlate\<close> and the rule registry of \<open>db.py\<close>, and
    \<open>detection/runtime.py\<close>.
  \<^item> \<open>EnrichRanges\<close>, \<open>CsvTable\<close>, \<open>CsvLoad\<close>: \<open>enrich/ranges.py\<close> and \<open>enrich/csvdb.py\<close>.
  \<^item> \<open>MmdbDecode\<close>, \<open>Mmdb\<close>, \<open>MmdbFacts\<close>, \<open>MmdbCodec\<close>: \<open>enrich/mmdb.py\<close>, from one field of the data section to
    a lookup, and the writer of the format that the decoder inverts.
  \<^item> \<open>Geo\<close>, \<open>GeoFacts\<close>: \<open>enrich/geo.py\<close>, the sources in order of precedence, the index with its memo,
    loading and reloading.
  \<^item> \<open>Assets\<close>, \<open>AssetFacts\<close>: \<open>assets/\<close> without its CSV form: aliases, the index, resolution, the cached
    registry.
  \<^item> \<open>Backfill\<close>, \<open>BackfillFacts\<close>: the derived columns of a row, and the two backfills with their cursors,
    stamps and reports, in \<open>db.py\<close>.
  \<^item> \<open>UnionFind\<close>, \<open>KillChain\<close>: \<open>killchain.py\<close>.
  \<^item> \<open>LoqlParse\<close>, \<open>LoqlQuery\<close>: \<open>loql/parser.py\<close>; \<open>LoqlCompile\<close>: \<open>loql/compiler.py\<close> and \<open>loql/run.py\<close>; \<open>LoqlSql\<close>,
    \<open>LoqlScope\<close>, \<open>LoqlInject\<close>: the placeholders, the columns in scope and the independence of the query
    text from the values in it.
  \<^item> \<open>NetflowTemplate\<close>, \<open>NetflowDecode\<close>: \<open>receivers/netflow.py\<close>.

  \<^bold>\<open>Conventions.\<close> A class or dataclass is a record whose fields carry a short prefix; a function keeps its
  name, without its leading underscore. What Python mutates is returned updated: the caches of the CIM
  gate are threaded as \<open>cim_state\<close>, an edit of an event returns whether it changed something and the
  event, and a raised exception is \<open>Inl\<close>, or \<^const>\<open>None\<close> where only the raising matters. An exception
  halfway through an edit leaves the event as it was then. Texts are lists of characters, one for each
  UTF-8 byte; case mapping and blanks are those of ASCII. Integers are unbounded as in Python; bytes of a
  datagram are \<open>8 word\<close>. Times are integers.

  \<^bold>\<open>Parameters.\<close> Regular expressions, SHA-256, \<open>isoformat\<close>, \<open>json.dumps\<close>, float parsing, the token
  extractors of threat intelligence, YAML with the content packs (the documents a registry is loaded from),
  the file system with the configured paths, the clock, the detection of a
  format, PostgreSQL's \<open>inet\<close> cast and
  text, the outages of the database, API keys, gzip, and the database that answers a compiled query are arguments of
  the definitions that use them; the theorems hold for all of them.

  \<^bold>\<open>What the lemmas show.\<close> Detection: the condition parser computes the value of the formula, an event
  fires exactly the rules that admit it, and no interleaving leaves a stale binding in the gate cache.
  Data models: the compiled plan agrees with the reference walk and its cache is invisible. Ingest
  actions: a masked value is gone from the whole event, address columns stay addresses, rules see the
  event as earlier rules left it, a drop is always some rule's and always counted, and one bad document
  costs itself unless it raises something unforeseen. Pipeline: the chunked stream refines processing the
  events one after the other, events are conserved, rows describe the event they store, and reported
  alerts are new. Batches: the ledger of every batch adds up, a second upload adds nothing, and every event
  the queue accepted is stored, counted as lost, or abandoned by the shutdown; left alone, it drains.
  HEC: the envelopes of a body read back, the batches hold them all in a shape their parser reads, and an
  acknowledgement covers the whole request; the guard against deep nesting is exact for a document.
  Correlation: an evaluation reports exactly the groups that reach the threshold, once per window. Ranges: bisection, sweeping and memos are invisible. Geo databases: a field written in the
  format reads back, a lookup is the descent of a binary trie, and no file makes it read outside the section
  it was given; the resolver answers with the first source that knows, its memo is invisible, and a reload
  never trades a working index for a failed one. Assets: resolution depends on the declarations alone, the
  longest network answers, and nobody is guessed from a mail address. Backfills: they converge, in any order
  and for any chunking, on what ingest would write now, so a fresh row needs none. Query language: text and parameters of a compiled query match one to one, the text does not
  depend on the values, every column it reads is in scope, and a refusal is the only other outcome. Kill
  chains: the groups are the classes of the promised relation. Syslog: messages reach the queue one by one, however the
  stream is cut into reads, while its backlog stays within the cap. NetFlow: caches stay bounded, records advance, packets yield a bounded
  number of flows, framing is exact and independent of the reads.

  \<^bold>\<open>Bounds and fuel.\<close> The loops of the disjoint set are \<open>partial_function\<close>s shown to return on every forest
  that unions build; all other recursions are structural or have a measure. The chunk size of a stream is
  an argument of \<open>write_stream_by\<close> and 5000 in the code. The depth bounds are the code's own: 16 for nested
  records, 80 for nested query expressions, 64 for a field of a geo database, whose decoding also spends a
  budget of 100000 fields. The JSON reader opens as many brackets as the
  interpreter's stack allows, an argument; the elements of an array are bounded by the length of the text, which
  is enough since each takes a character.

  \<^bold>\<open>Not modelled.\<close> Vendor parsers, collectors, notification and response channels, reports, content packs,
  the copilot and the vault are tables over library formats or input and output. SQL and HTTP are left
  out apart from the inserts and backfills above.
\<close>

end
